(* ===== verification/Prelude.thy ===== *)
theory Prelude
  imports Main "HOL-Library.Word"
begin

text \<open>
  What every component shares: the names of the C integer types, pointers as \<open>nat option\<close>
  (\<open>None\<close> is \<open>NULL\<close>), the errno values of the target (Linux/bionic numbering, so that the
  \<open>err |= f()\<close> idiom of libre keeps its meaning), the C string functions the code calls, and
  the collections of simplification rules that the component proofs use.
\<close>

unbundle bit_operations_syntax

section \<open>Types\<close>

type_synonym u8 = "8 word"
type_synonym u16 = "16 word"
type_synonym u32 = "32 word"
type_synonym u64 = "64 word"
type_synonym ptr = "nat option"
type_synonym errno = nat

lemma unat_u8_less: "unat (b :: u8) < 256"
  using unsigned_less [of b, where 'a = nat] by simp

lemma unat_u16_less: "unat (b :: u16) < 65536"
  using unsigned_less [of b, where 'a = nat] by simp

lemma unat_u32_less: "unat (b :: u32) < 4294967296"
  using unsigned_less [of b, where 'a = nat] by simp

lemma int_unat_u32_less: "int (unat (b :: u32)) < 4294967296"
  using unat_u32_less [of b] by (metis of_nat_less_iff of_nat_numeral)

lemma unat_u32_le: "unat (b :: u32) \<le> 4294967295"
  using unat_u32_less [of b] by simp

text \<open>An addition of \<open>size_t\<close> values that stays in range is the addition of the naturals.\<close>

lemma unat_add_u32:
  "unat (a :: u32) + unat b < 4294967296 \<Longrightarrow> unat (a + b) = unat a + unat b"
  by (simp add: unat_word_ariths)

lemma unat_of_nat_u32: "n < 4294967296 \<Longrightarrow> unat (word_of_nat n :: u32) = n"
  by (simp add: unat_of_nat take_bit_nat_eq_self)

lemma unat_of_int_u32: "0 \<le> j \<Longrightarrow> j < 2 ^ 32 \<Longrightarrow> unat (word_of_int j :: u32) = nat j"
  by (simp add: unsigned_of_int take_bit_int_eq_self)
lemma sint_u32_small: "unat (w :: u32) < 2 ^ 31 \<Longrightarrow> sint w = int (unat w)"
proof -
  assume a: "unat w < 2 ^ 31"
  have u: "int (unat w) = uint w" by (rule uint_nat [symmetric])
  have "int (unat w) < int (2 ^ 31)" using a by (simp only: of_nat_less_iff)
  then have "uint w < 2 ^ 31" by (simp add: u)
  moreover have "0 \<le> uint w" by simp
  ultimately have "signed_take_bit 31 (uint w) = uint w"
    by (intro signed_take_bit_int_eq_self) linarith+
  then show ?thesis using u by (simp add: sint_uint)
qed
lemma unat_add_of_int:
  assumes "0 \<le> int (unat (w :: u32)) + k" "int (unat w) + k < 2 ^ 32"
  shows "unat (w + word_of_int k) = nat (int (unat w) + k)"
proof -
  have e: "word_of_int (int (unat w) + k) = w + word_of_int k" by simp
  show ?thesis using unat_of_int_u32 [OF assms] unfolding e .
qed

lemma take_bit_word_less:
  fixes w :: "'a::len word"
  assumes "unat w < 2 ^ k" shows "take_bit k w = w"
proof -
  have "unat (take_bit k w) = unat w" using assms by (simp add: unsigned_take_bit_eq take_bit_nat_eq_self)
  then show ?thesis by (simp only: unsigned_word_eqI)
qed
lemma bit_word_less: "unat (w :: 'a::len word) < 2 ^ k \<Longrightarrow> bit w i \<Longrightarrow> i < k"
  by (metis bit_take_bit_iff take_bit_word_less)
lemma bit_mask_word: "(w :: 'a::len word) = 2 ^ k - 1 \<Longrightarrow> bit w i \<longleftrightarrow> i < k \<and> i < LENGTH('a)"
  by (simp add: mask_eq_exp_minus_1 [symmetric] bit_mask_iff conj_commute)
text \<open>The bits of the masks the code uses, in the form the simplifier meets them.\<close>

lemma bit_mask_int:
  "bit (3 :: int) i \<longleftrightarrow> i < 2" "bit (7 :: int) i \<longleftrightarrow> i < 3" "bit (15 :: int) i \<longleftrightarrow> i < 4"
  "bit (31 :: int) i \<longleftrightarrow> i < 5" "bit (127 :: int) i \<longleftrightarrow> i < 7"
proof -
  have "(3 :: int) = mask 2" "(7 :: int) = mask 3" "(15 :: int) = mask 4" "(31 :: int) = mask 5"
    "(127 :: int) = mask 7"
    by (simp_all add: mask_eq_exp_minus_1)
  then show "bit (3 :: int) i \<longleftrightarrow> i < 2" "bit (7 :: int) i \<longleftrightarrow> i < 3" "bit (15 :: int) i \<longleftrightarrow> i < 4"
    "bit (31 :: int) i \<longleftrightarrow> i < 5" "bit (127 :: int) i \<longleftrightarrow> i < 7"
    by (simp_all only: bit_mask_iff possible_bit_int) auto
qed

lemma bit_single_int:
  "bit (16 :: int) i \<longleftrightarrow> i = 4" "bit (32 :: int) i \<longleftrightarrow> i = 5" "bit (64 :: int) i \<longleftrightarrow> i = 6"
  "bit (128 :: int) i \<longleftrightarrow> i = 7"
proof -
  have "(16 :: int) = 2 ^ 4" "(32 :: int) = 2 ^ 5" "(64 :: int) = 2 ^ 6" "(128 :: int) = 2 ^ 7" by simp_all
  then show "bit (16 :: int) i \<longleftrightarrow> i = 4" "bit (32 :: int) i \<longleftrightarrow> i = 5" "bit (64 :: int) i \<longleftrightarrow> i = 6"
    "bit (128 :: int) i \<longleftrightarrow> i = 7"
    by (simp_all only: bit_exp_iff possible_bit_int) auto
qed

lemma unat_ucast_u8_u32 [simp]: "unat (ucast (c :: u8) :: u32) = unat c"
  using unat_u8_less [of c] by (simp add: unsigned_ucast_eq take_bit_nat_eq_self)

lemma unat_ucast_u16_u32 [simp]: "unat (ucast (c :: u16) :: u32) = unat c"
  using unat_u16_less [of c] by (simp add: unsigned_ucast_eq take_bit_nat_eq_self)

text \<open>The value of an \<open>int\<close> expression, undefined when it overflows.\<close>

definition int32 :: "int \<Rightarrow> int option" where
  "int32 i = (if - (2 ^ 31) \<le> i \<and> i < 2 ^ 31 then Some i else None)"

section \<open>Error numbers\<close>

abbreviation (input) OK :: errno where "OK \<equiv> 0"
abbreviation (input) EPERM :: errno where "EPERM \<equiv> 1"
abbreviation (input) ENOENT :: errno where "ENOENT \<equiv> 2"
abbreviation (input) EAGAIN :: errno where "EAGAIN \<equiv> 11"
abbreviation (input) ECANCELED :: errno where "ECANCELED \<equiv> 125"
abbreviation (input) ENOMEM :: errno where "ENOMEM \<equiv> 12"
abbreviation (input) EINVAL :: errno where "EINVAL \<equiv> 22"
abbreviation (input) ERANGE :: errno where "ERANGE \<equiv> 34"
abbreviation (input) ENOSYS :: errno where "ENOSYS \<equiv> 38"
abbreviation (input) EPROTO :: errno where "EPROTO \<equiv> 71"
abbreviation (input) EBADMSG :: errno where "EBADMSG \<equiv> 74"
abbreviation (input) EOVERFLOW :: errno where "EOVERFLOW \<equiv> 75"
abbreviation (input) ETIMEDOUT :: errno where "ETIMEDOUT \<equiv> 110"
abbreviation (input) EALREADY :: errno where "EALREADY \<equiv> 114"

section \<open>Collections\<close>

named_theorems state_simps \<open>field by field description of what an operation does to its state\<close>
named_theorems inv_intros \<open>an operation keeps its component's invariant\<close>

section \<open>Lists\<close>

text \<open>The pointer to the first (last) element of a list, or a given pointer when it is empty.\<close>

definition first_or :: "'a option \<Rightarrow> 'a list \<Rightarrow> 'a option" where
  "first_or n xs = (case xs of [] \<Rightarrow> n | x # _ \<Rightarrow> Some x)"

definition last_or :: "'a option \<Rightarrow> 'a list \<Rightarrow> 'a option" where
  "last_or p xs = (if xs = [] then p else Some (last xs))"

lemma first_or_simps [simp]:
  "first_or n [] = n"
  "first_or n (x # xs) = Some x"
  by (simp_all add: first_or_def)

lemma last_or_simps [simp]:
  "last_or p [] = p"
  "last_or p (xs @ [x]) = Some x"
  by (simp_all add: last_or_def)

lemma first_or_append [simp]: "first_or n (xs @ ys) = first_or (first_or n ys) xs"
  by (cases xs) auto

lemma last_or_append [simp]: "last_or p (xs @ ys) = last_or (last_or p xs) ys"
  by (simp add: last_or_def)

lemma last_or_Cons [simp]: "last_or p (x # xs) = last_or (Some x) xs"
  by (simp add: last_or_def)

lemma first_or_None_iff [simp]: "first_or None xs = None \<longleftrightarrow> xs = []"
  by (cases xs) auto

lemma last_or_None_iff [simp]: "last_or None xs = None \<longleftrightarrow> xs = []"
  by (simp add: last_or_def)

lemma last_or_Some_ex [simp]: "\<exists>y. last_or (Some a) xs = Some y"
  by (simp add: last_or_def)

lemma first_or_Some_ex [simp]: "\<exists>y. first_or (Some a) xs = Some y"
  by (cases xs) auto

lemma first_or_SomeD: "first_or None xs = Some x \<Longrightarrow> \<exists>ys. xs = x # ys"
  by (cases xs) auto

lemma last_or_SomeD: "last_or None xs = Some x \<Longrightarrow> \<exists>ys. xs = ys @ [x]"
  by (metis append_butlast_last_id last_or_def option.distinct(1) option.inject)

lemma last_or_in_set: "last_or None xs = Some x \<Longrightarrow> x \<in> set xs"
  by (auto dest: last_or_SomeD)

lemma first_or_in_set: "first_or None xs = Some x \<Longrightarrow> x \<in> set xs"
  by (auto dest: first_or_SomeD)

section \<open>Strings of bytes\<close>

text \<open>A C string is the list of its bytes before the terminating zero.\<close>

fun strstr :: "string \<Rightarrow> string \<Rightarrow> string option" where
  "strstr [] n = (if n = [] then Some [] else None)"
| "strstr (c # cs) n = (if take (length n) (c # cs) = n then Some (c # cs) else strstr cs n)"

fun strchr :: "string \<Rightarrow> char \<Rightarrow> string option" where
  "strchr [] c = None"
| "strchr (x # xs) c = (if x = c then Some (x # xs) else strchr xs c)"

lemma strchr_None_iff: "strchr s c = None \<longleftrightarrow> c \<notin> set s"
  by (induction s) auto

lemma strchr_append: "c \<notin> set u \<Longrightarrow> strchr (u @ c # r) c = Some (c # r)"
  by (induction u) auto

lemma strchr_length: "strchr s c = Some r \<Longrightarrow> length r \<le> length s"
  by (induction s) (auto split: if_splits)

lemma strstr_prefix: "strstr (n @ s) n = Some (n @ s)"
proof (cases "n @ s")
  case (Cons a t)
  have "take (length n) (n @ s) = n" by simp
  then show ?thesis unfolding Cons by simp
qed simp

text \<open>Decimal output of \<open>%d\<close> and \<open>%u\<close>.\<close>

definition dec_digit :: "nat \<Rightarrow> char" where
  "dec_digit d = char_of (48 + d)"

fun dec_of_nat :: "nat \<Rightarrow> string" where
  "dec_of_nat n = (if n < 10 then [dec_digit n] else dec_of_nat (n div 10) @ [dec_digit (n mod 10)])"

declare dec_of_nat.simps [simp del]

definition dec_of_int :: "int \<Rightarrow> string" where
  "dec_of_int i = (if i < 0 then CHR ''-'' # dec_of_nat (nat (- i)) else dec_of_nat (nat i))"

lemma length_dec_of_nat: "n < 10 ^ Suc k \<Longrightarrow> length (dec_of_nat n) \<le> Suc k"
proof (induction k arbitrary: n)
  case 0
  then show ?case by (simp add: dec_of_nat.simps)
next
  case (Suc k)
  show ?case
  proof (cases "n < 10")
    case True
    then show ?thesis by (simp add: dec_of_nat.simps)
  next
    case False
    have "n div 10 < 10 ^ Suc k" using Suc.prems by (simp add: less_mult_imp_div_less)
    from Suc.IH [OF this] False show ?thesis by (subst dec_of_nat.simps) simp
  qed
qed

lemma length_dec_of_int32:
  "- (2 ^ 31) \<le> i \<Longrightarrow> i < 2 ^ 31 \<Longrightarrow> length (dec_of_int i) \<le> 11"
proof -
  assume i: "- (2 ^ 31) \<le> i" "i < 2 ^ 31"
  then have "nat (- i) < 10 ^ Suc 9" "nat i < 10 ^ Suc 9" by simp_all
  then have "length (dec_of_nat (nat (- i))) \<le> Suc 9" "length (dec_of_nat (nat i)) \<le> Suc 9"
    by (blast intro: length_dec_of_nat)+
  then show ?thesis by (auto simp: dec_of_int_def)
qed

text \<open>\<open>snprintf(buf, size, ...)\<close> keeps at most \<open>size - 1\<close> bytes of the formatted text, and
  \<open>strncpy(buf, s, sizeof(buf) - 1)\<close> into a zeroed buffer keeps as many of \<open>s\<close>.\<close>

definition snprintf :: "nat \<Rightarrow> string \<Rightarrow> string" where
  "snprintf n text = take (n - 1) text"

definition strncpy_zeroed :: "nat \<Rightarrow> string \<Rightarrow> string" where
  "strncpy_zeroed n src = take (n - 1) src"

lemma length_snprintf: "0 < n \<Longrightarrow> length (snprintf n t) < n"
  by (simp add: snprintf_def)

lemma length_strncpy_zeroed: "0 < n \<Longrightarrow> length (strncpy_zeroed n t) < n"
  by (simp add: strncpy_zeroed_def)

lemma snprintf_fits: "length t < n \<Longrightarrow> snprintf n t = t"
  by (simp add: snprintf_def)

end
