(* ===== verification/Re_List.thy ===== *)
theory Re_List
  imports Prelude "HOL-Library.Multiset"
begin

text \<open>
  The intrusive doubly linked list of libre (\<open>native/re/src/list/list.c\<close>,
  \<open>native/re/include/re_list.h\<close>) on an explicit store: list elements (\<open>struct le\<close>) and list
  heads (\<open>struct list\<close>) live at addresses, and every function mutates the store exactly as the
  code does, aliasing included.  The abstraction \<open>is_list\<close> says that a list head and its
  elements represent a sequence of addresses; each operation is shown to implement the obvious
  operation on that sequence.
\<close>

section \<open>Data\<close>

record le =
  le_prev :: ptr
  le_next :: ptr
  le_list :: ptr
  le_data :: ptr

record list_head =
  head :: ptr
  tail :: ptr

record heap =
  les :: "nat \<Rightarrow> le"
  lsts :: "nat \<Rightarrow> list_head"

definition upd_le :: "nat \<Rightarrow> (le \<Rightarrow> le) \<Rightarrow> heap \<Rightarrow> heap" where
  "upd_le e f h = h\<lparr>les := (les h)(e := f (les h e))\<rparr>"

definition upd_lst :: "nat \<Rightarrow> (list_head \<Rightarrow> list_head) \<Rightarrow> heap \<Rightarrow> heap" where
  "upd_lst l f h = h\<lparr>lsts := (lsts h)(l := f (lsts h l))\<rparr>"

lemma upd_le_sel [simp]:
  "les (upd_le e f h) = (les h)(e := f (les h e))"
  "lsts (upd_le e f h) = lsts h"
  by (simp_all add: upd_le_def)

lemma upd_lst_sel [simp]:
  "les (upd_lst l f h) = les h"
  "lsts (upd_lst l f h) = (lsts h)(l := f (lsts h l))"
  by (simp_all add: upd_lst_def)

section \<open>Operations\<close>

definition list_init :: "ptr \<Rightarrow> heap \<Rightarrow> heap" where
  "list_init list h =
     (case list of
        None \<Rightarrow> h
      | Some l \<Rightarrow> upd_lst l (\<lambda>x. x\<lparr>head := None, tail := None\<rparr>) h)"

definition list_append :: "ptr \<Rightarrow> ptr \<Rightarrow> ptr \<Rightarrow> heap \<Rightarrow> heap" where
  "list_append list le data h =
     (case (list, le) of
        (Some l, Some e) \<Rightarrow>
          if le_list (les h e) \<noteq> None then h
          else
            let h = upd_le e (\<lambda>x. x\<lparr>le_prev := tail (lsts h l), le_next := None,
                                    le_list := Some l, le_data := data\<rparr>) h;
                h = (if head (lsts h l) = None
                     then upd_lst l (\<lambda>x. x\<lparr>head := Some e\<rparr>) h else h);
                h = (case tail (lsts h l) of
                       None \<Rightarrow> h
                     | Some t \<Rightarrow> upd_le t (\<lambda>x. x\<lparr>le_next := Some e\<rparr>) h)
            in upd_lst l (\<lambda>x. x\<lparr>tail := Some e\<rparr>) h
      | _ \<Rightarrow> h)"

definition list_prepend :: "ptr \<Rightarrow> ptr \<Rightarrow> ptr \<Rightarrow> heap \<Rightarrow> heap" where
  "list_prepend list le data h =
     (case (list, le) of
        (Some l, Some e) \<Rightarrow>
          if le_list (les h e) \<noteq> None then h
          else
            let h = upd_le e (\<lambda>x. x\<lparr>le_prev := None, le_next := head (lsts h l),
                                    le_list := Some l, le_data := data\<rparr>) h;
                h = (case head (lsts h l) of
                       None \<Rightarrow> h
                     | Some t \<Rightarrow> upd_le t (\<lambda>x. x\<lparr>le_prev := Some e\<rparr>) h);
                h = (if tail (lsts h l) = None
                     then upd_lst l (\<lambda>x. x\<lparr>tail := Some e\<rparr>) h else h)
            in upd_lst l (\<lambda>x. x\<lparr>head := Some e\<rparr>) h
      | _ \<Rightarrow> h)"

definition list_insert_before :: "ptr \<Rightarrow> ptr \<Rightarrow> ptr \<Rightarrow> ptr \<Rightarrow> heap \<Rightarrow> heap" where
  "list_insert_before list le ile data h =
     (case (list, le, ile) of
        (Some l, Some e, Some i) \<Rightarrow>
          if le_list (les h i) \<noteq> None then h
          else
            let h = (case le_prev (les h e) of
                       Some p \<Rightarrow> upd_le p (\<lambda>x. x\<lparr>le_next := Some i\<rparr>) h
                     | None \<Rightarrow> if head (lsts h l) = Some e
                               then upd_lst l (\<lambda>x. x\<lparr>head := Some i\<rparr>) h else h);
                h = upd_le i (\<lambda>x. x\<lparr>le_prev := le_prev (les h e), le_next := Some e,
                                    le_list := Some l, le_data := data\<rparr>) h
            in upd_le e (\<lambda>x. x\<lparr>le_prev := Some i\<rparr>) h
      | _ \<Rightarrow> h)"

definition list_insert_after :: "ptr \<Rightarrow> ptr \<Rightarrow> ptr \<Rightarrow> ptr \<Rightarrow> heap \<Rightarrow> heap" where
  "list_insert_after list le ile data h =
     (case (list, le, ile) of
        (Some l, Some e, Some i) \<Rightarrow>
          if le_list (les h i) \<noteq> None then h
          else
            let h = (case le_next (les h e) of
                       Some n \<Rightarrow> upd_le n (\<lambda>x. x\<lparr>le_prev := Some i\<rparr>) h
                     | None \<Rightarrow> if tail (lsts h l) = Some e
                               then upd_lst l (\<lambda>x. x\<lparr>tail := Some i\<rparr>) h else h);
                h = upd_le i (\<lambda>x. x\<lparr>le_prev := Some e, le_next := le_next (les h e),
                                    le_list := Some l, le_data := data\<rparr>) h
            in upd_le e (\<lambda>x. x\<lparr>le_next := Some i\<rparr>) h
      | _ \<Rightarrow> h)"

definition list_unlink :: "ptr \<Rightarrow> heap \<Rightarrow> heap" where
  "list_unlink le h =
     (case le of
        None \<Rightarrow> h
      | Some e \<Rightarrow>
          (case le_list (les h e) of
             None \<Rightarrow> h
           | Some l \<Rightarrow>
               let h = (case le_prev (les h e) of
                          Some p \<Rightarrow> upd_le p (\<lambda>x. x\<lparr>le_next := le_next (les h e)\<rparr>) h
                        | None \<Rightarrow> upd_lst l (\<lambda>x. x\<lparr>head := le_next (les h e)\<rparr>) h);
                   h = (case le_next (les h e) of
                          Some n \<Rightarrow> upd_le n (\<lambda>x. x\<lparr>le_prev := le_prev (les h e)\<rparr>) h
                        | None \<Rightarrow> upd_lst l (\<lambda>x. x\<lparr>tail := le_prev (les h e)\<rparr>) h)
               in upd_le e (\<lambda>x. x\<lparr>le_next := None, le_prev := None, le_list := None\<rparr>) h))"



text \<open>
  The loops walk the store, so they may not end (a cyclic chain); not returning is \<open>None\<close>.
  \<open>md\<close> stands for \<open>mem_deref\<close> of the element's user data (it runs the object's destructor).
\<close>

partial_function (option) flush_loop :: "(ptr \<Rightarrow> heap \<Rightarrow> heap) \<Rightarrow> ptr \<Rightarrow> heap \<Rightarrow> heap option" where
  "flush_loop md le h =
     (case le of
        None \<Rightarrow> Some h
      | Some e \<Rightarrow>
          let nxt = le_next (les h e); data = le_data (les h e)
          in flush_loop md nxt
               (md data (upd_le e (\<lambda>x. x\<lparr>le_data := None\<rparr>) (list_unlink le h))))"

definition list_flush :: "(ptr \<Rightarrow> heap \<Rightarrow> heap) \<Rightarrow> ptr \<Rightarrow> heap \<Rightarrow> heap option" where
  "list_flush md list h =
     (case list of
        None \<Rightarrow> Some h
      | Some l \<Rightarrow> map_option (list_init list) (flush_loop md (head (lsts h l)) h))"

partial_function (option) clear_loop :: "ptr \<Rightarrow> heap \<Rightarrow> heap option" where
  "clear_loop le h =
     (case le of
        None \<Rightarrow> Some h
      | Some e \<Rightarrow>
          let nxt = le_next (les h e)
          in clear_loop nxt
               (upd_le e (\<lambda>x. x\<lparr>le_list := None, le_prev := None, le_next := None, le_data := None\<rparr>) h))"

definition list_clear :: "ptr \<Rightarrow> heap \<Rightarrow> heap option" where
  "list_clear list h =
     (case list of
        None \<Rightarrow> Some h
      | Some l \<Rightarrow> map_option (list_init list) (clear_loop (head (lsts h l)) h))"

text \<open>The sort handler \<open>sh\<close> compares two elements (their user data, which no list operation
  changes); true means "in order".\<close>

partial_function (option) insert_sorted_loop ::
    "(nat \<Rightarrow> nat \<Rightarrow> bool) \<Rightarrow> nat \<Rightarrow> nat \<Rightarrow> ptr \<Rightarrow> heap \<Rightarrow> heap option" where
  "insert_sorted_loop sh l i le h =
     (case le of
        None \<Rightarrow> Some (list_prepend (Some l) (Some i) (le_data (les h i)) h)
      | Some e \<Rightarrow>
          if sh e i then Some (list_insert_after (Some l) le (Some i) (le_data (les h i)) h)
          else insert_sorted_loop sh l i (le_prev (les h e)) h)"

definition list_insert_sorted ::
    "ptr \<Rightarrow> (nat \<Rightarrow> nat \<Rightarrow> bool) option \<Rightarrow> nat \<Rightarrow> ptr \<Rightarrow> heap \<Rightarrow> heap option" where
  "list_insert_sorted list sh ile data h =
     (case (list, sh) of
        (Some l, Some s) \<Rightarrow>
          let le = tail (lsts h l);
              h = upd_le ile (\<lambda>x. x\<lparr>le_data := data\<rparr>) h
          in insert_sorted_loop s l ile le h
      | _ \<Rightarrow> Some h)"

partial_function (option) sort_pass ::
    "(nat \<Rightarrow> nat \<Rightarrow> bool) \<Rightarrow> nat \<Rightarrow> ptr \<Rightarrow> bool \<Rightarrow> heap \<Rightarrow> (bool \<times> heap) option" where
  "sort_pass sh l le swapped h =
     (case le of
        None \<Rightarrow> Some (swapped, h)
      | Some e \<Rightarrow>
          (case le_next (les h e) of
             None \<Rightarrow> Some (swapped, h)
           | Some n \<Rightarrow>
               if sh e n then sort_pass sh l (Some n) swapped h
               else
                 let h = list_unlink (Some e) h;
                     h = list_insert_after (Some l) (Some n) (Some e) (le_data (les h e)) h
                 in sort_pass sh l (Some e) True h))"

partial_function (option) sort_retry ::
    "(nat \<Rightarrow> nat \<Rightarrow> bool) \<Rightarrow> nat \<Rightarrow> heap \<Rightarrow> heap option" where
  "sort_retry sh l h =
     (case sort_pass sh l (head (lsts h l)) False h of
        None \<Rightarrow> None
      | Some r \<Rightarrow> if fst r then sort_retry sh l (snd r) else Some (snd r))"

definition list_sort :: "ptr \<Rightarrow> (nat \<Rightarrow> nat \<Rightarrow> bool) option \<Rightarrow> heap \<Rightarrow> heap option" where
  "list_sort list sh h =
     (case (list, sh) of
        (Some l, Some s) \<Rightarrow> sort_retry s l h
      | _ \<Rightarrow> Some h)"

text \<open>The apply handler may change the store (it often unlinks the element it is given), so the
  code reads the neighbour before it calls the handler.\<close>

partial_function (option) apply_loop ::
    "bool \<Rightarrow> (nat \<Rightarrow> heap \<Rightarrow> bool \<times> heap) \<Rightarrow> ptr \<Rightarrow> heap \<Rightarrow> (ptr \<times> heap) option" where
  "apply_loop fwd ah le h =
     (case le of
        None \<Rightarrow> Some (None, h)
      | Some cur \<Rightarrow>
          let le' = (if fwd then le_next (les h cur) else le_prev (les h cur));
              r = ah cur h
          in if fst r then Some (Some cur, snd r) else apply_loop fwd ah le' (snd r))"

definition list_apply ::
    "ptr \<Rightarrow> bool \<Rightarrow> (nat \<Rightarrow> heap \<Rightarrow> bool \<times> heap) option \<Rightarrow> heap \<Rightarrow> (ptr \<times> heap) option" where
  "list_apply list fwd ah h =
     (case (list, ah) of
        (Some l, Some f) \<Rightarrow>
          apply_loop fwd f (if fwd then head (lsts h l) else tail (lsts h l)) h
      | _ \<Rightarrow> Some (None, h))"

definition get_list_head :: "ptr \<Rightarrow> heap \<Rightarrow> ptr" where
  "get_list_head list h = (case list of None \<Rightarrow> None | Some l \<Rightarrow> head (lsts h l))"

definition list_tail :: "ptr \<Rightarrow> heap \<Rightarrow> ptr" where
  "list_tail list h = (case list of None \<Rightarrow> None | Some l \<Rightarrow> tail (lsts h l))"

partial_function (option) count_loop :: "ptr \<Rightarrow> u32 \<Rightarrow> heap \<Rightarrow> u32 option" where
  "count_loop le n h =
     (case le of
        None \<Rightarrow> Some n
      | Some e \<Rightarrow> count_loop (le_next (les h e)) (n + 1) h)"

definition list_count :: "ptr \<Rightarrow> heap \<Rightarrow> u32 option" where
  "list_count list h =
     (case list of
        None \<Rightarrow> Some 0
      | Some l \<Rightarrow> count_loop (head (lsts h l)) 0 h)"

section \<open>The represented sequence\<close>

fun dseg :: "(nat \<Rightarrow> le) \<Rightarrow> nat \<Rightarrow> ptr \<Rightarrow> nat list \<Rightarrow> ptr \<Rightarrow> bool" where
  "dseg f l p [] n = True"
| "dseg f l p (x # xs) n =
     (le_list (f x) = Some l \<and> le_prev (f x) = p \<and> le_next (f x) = first_or n xs \<and>
      dseg f l (Some x) xs n)"

definition is_list :: "heap \<Rightarrow> nat \<Rightarrow> nat list \<Rightarrow> bool" where
  "is_list h l xs \<longleftrightarrow>
     head (lsts h l) = first_or None xs \<and> tail (lsts h l) = last_or None xs \<and>
     dseg (les h) l None xs None \<and> distinct xs"

lemma dseg_append [simp]:
  "dseg f l p (xs @ ys) n \<longleftrightarrow>
     dseg f l p xs (first_or n ys) \<and> dseg f l (last_or p xs) ys n"
  by (induction xs arbitrary: p) auto

lemma dseg_upd [simp]: "e \<notin> set xs \<Longrightarrow> dseg (f(e := v)) l p xs n = dseg f l p xs n"
  by (induction xs arbitrary: p) auto

lemma dseg_list: "dseg f l p xs n \<Longrightarrow> x \<in> set xs \<Longrightarrow> le_list (f x) = Some l"
  by (induction xs arbitrary: p) auto

lemma is_list_unlinked: "is_list h l xs \<Longrightarrow> le_list (les h e) = None \<Longrightarrow> e \<notin> set xs"
  by (auto simp: is_list_def dest: dseg_list)

lemma snoc_cases: "xs = [] \<or> (\<exists>ys y. xs = ys @ [y])"
  by (cases xs rule: rev_cases) auto

lemma list_append_refines:
  assumes "is_list h l xs" "le_list (les h e) = None"
  shows "is_list (list_append (Some l) (Some e) d h) l (xs @ [e])"
proof -
  note e = is_list_unlinked [OF assms]
  show ?thesis
  proof (cases xs rule: rev_cases)
    case Nil
    then show ?thesis using assms by (simp add: is_list_def list_append_def)
  next
    case (snoc ys y)
    then show ?thesis using assms e
      by (cases ys) (auto simp: is_list_def list_append_def Let_def)
  qed
qed

lemma list_prepend_refines:
  assumes "is_list h l xs" "le_list (les h e) = None"
  shows "is_list (list_prepend (Some l) (Some e) d h) l (e # xs)"
proof -
  note e = is_list_unlinked [OF assms]
  show ?thesis using assms e
    by (cases xs) (auto simp: is_list_def list_prepend_def Let_def)
qed

lemma list_insert_after_refines:
  assumes "is_list h l (xs @ e # ys)" "le_list (les h i) = None"
  shows "is_list (list_insert_after (Some l) (Some e) (Some i) d h) l (xs @ e # i # ys)"
proof -
  note i = is_list_unlinked [OF assms]
  show ?thesis using assms i
    by (cases ys) (auto simp: is_list_def list_insert_after_def Let_def)
qed

lemma list_insert_before_refines:
  assumes "is_list h l (xs @ e # ys)" "le_list (les h i) = None"
  shows "is_list (list_insert_before (Some l) (Some e) (Some i) d h) l (xs @ i # e # ys)"
proof -
  note i = is_list_unlinked [OF assms]
  show ?thesis
  proof (cases xs rule: rev_cases)
    case Nil
    then show ?thesis using assms i
      by (cases ys) (auto simp: is_list_def list_insert_before_def Let_def)
  next
    case (snoc zs z)
    then show ?thesis using assms i
      by (cases ys) (auto simp: is_list_def list_insert_before_def Let_def)
  qed
qed

lemma list_unlink_refines:
  assumes "is_list h l (xs @ e # ys)"
  shows "is_list (list_unlink (Some e) h) l (xs @ ys)"
proof (cases xs rule: rev_cases)
  case Nil
  then show ?thesis using assms
    by (cases ys) (auto simp: is_list_def list_unlink_def Let_def)
next
  case (snoc zs z)
  then show ?thesis using assms
    by (cases ys) (auto simp: is_list_def list_unlink_def Let_def)
qed

lemma list_unlink_unlinked: "le_list (les (list_unlink (Some e) h) e) = None"
  by (auto simp: list_unlink_def Let_def split: option.splits)

lemma list_unlink_idem: "le_list (les h e) = None \<Longrightarrow> list_unlink (Some e) h = h"
  by (simp add: list_unlink_def)

section \<open>The loops return on a well-formed list, with the expected result\<close>

lemma count_loop_eq:
  "dseg (les h) l p xs None \<Longrightarrow> count_loop (first_or None xs) n h = Some (n + of_nat (length xs))"
proof (induction xs arbitrary: p n)
  case Nil
  then show ?case by (simp add: count_loop.simps)
next
  case (Cons x xs)
  from Cons.IH [of "Some x" "1 + n"] Cons.prems show ?case
    by (subst count_loop.simps) (simp add: ac_simps)
qed

lemma list_count_eq: "is_list h l xs \<Longrightarrow> list_count (Some l) h = Some (of_nat (length xs))"
  using count_loop_eq [of h l None xs 0] by (simp add: is_list_def list_count_def)

lemma clear_loop_clears:
  "dseg (les h) l p xs None \<Longrightarrow> distinct xs \<Longrightarrow>
   \<exists>h'. clear_loop (first_or None xs) h = Some h' \<and> lsts h' = lsts h \<and>
        (\<forall>x\<in>set xs. le_list (les h' x) = None) \<and> (\<forall>x. x \<notin> set xs \<longrightarrow> les h' x = les h x)"
proof (induction xs arbitrary: p h)
  case Nil
  then show ?case by (simp add: clear_loop.simps)
next
  case (Cons x xs)
  let ?h = "upd_le x (\<lambda>y. y\<lparr>le_list := None, le_prev := None, le_next := None, le_data := None\<rparr>) h"
  from Cons.prems have "dseg (les ?h) l (Some x) xs None" "distinct xs" by auto
  from Cons.IH [OF this] Cons.prems show ?case
    by (subst clear_loop.simps) (auto split: if_splits)
qed

lemma list_clear_refines:
  assumes "is_list h l xs"
  shows "\<exists>h'. list_clear (Some l) h = Some h' \<and> is_list h' l [] \<and>
              (\<forall>x\<in>set xs. le_list (les h' x) = None)"
  using clear_loop_clears [of h l None xs] assms
  by (auto simp: is_list_def list_clear_def list_init_def)

text \<open>Flushing, when the destructors of the elements leave the store alone.\<close>

lemma flush_loop_unlinks:
  "is_list h l xs \<Longrightarrow> (\<And>d h. md d h = h) \<Longrightarrow>
   \<exists>h'. flush_loop md (first_or None xs) h = Some h' \<and> is_list h' l [] \<and>
        (\<forall>x\<in>set xs. le_list (les h' x) = None) \<and> (\<forall>x. x \<notin> set xs \<longrightarrow> les h' x = les h x)"
proof (induction xs arbitrary: h)
  case Nil
  then show ?case by (simp add: flush_loop.simps)
next
  case (Cons x xs)
  let ?u = "list_unlink (Some x) h"
  let ?h = "upd_le x (\<lambda>y. y\<lparr>le_data := None\<rparr>) ?u"
  have u: "is_list ?u l xs" "x \<notin> set xs"
    using list_unlink_refines [of h l "[]" x xs] Cons.prems(1) by (auto simp: is_list_def)
  then have "is_list ?h l xs" by (simp add: is_list_def)
  from Cons.IH [OF this Cons.prems(2)] obtain h' where
    h': "flush_loop md (first_or None xs) ?h = Some h'" "is_list h' l []"
      "\<forall>y\<in>set xs. le_list (les h' y) = None" "\<forall>y. y \<notin> set xs \<longrightarrow> les h' y = les ?h y" by blast
  have "le_list (les h' x) = None"
    using h'(4) u(2) by (simp add: list_unlink_unlinked)
  moreover have "les h' y = les h y" if "y \<notin> set (x # xs)" for y
    using that h'(4) Cons.prems(1)
    by (cases xs) (auto simp: list_unlink_def Let_def is_list_def)
  moreover have "flush_loop md (Some x) h = Some h'"
    using h'(1) Cons.prems by (subst flush_loop.simps) (simp add: is_list_def Let_def)
  ultimately show ?case using h'(2,3) by auto
qed

lemma list_flush_refines:
  assumes "is_list h l xs" "\<And>d h. md d h = h"
  shows "\<exists>h'. list_flush md (Some l) h = Some h' \<and> is_list h' l [] \<and>
              (\<forall>x\<in>set xs. le_list (les h' x) = None)"
proof -
  from flush_loop_unlinks [of h l xs md] assms obtain h' where
    "flush_loop md (first_or None xs) h = Some h'" "is_list h' l []"
    "\<forall>x\<in>set xs. le_list (les h' x) = None" by blast
  then show ?thesis using assms(1)
    by (auto simp: list_flush_def list_init_def is_list_def)
qed

subsection \<open>Sorted insertion\<close>

definition sorted_insert :: "('a \<Rightarrow> 'a \<Rightarrow> bool) \<Rightarrow> 'a \<Rightarrow> 'a list \<Rightarrow> 'a list" where
  "sorted_insert sh i xs =
     rev (dropWhile (\<lambda>e. \<not> sh e i) (rev xs)) @ i # rev (takeWhile (\<lambda>e. \<not> sh e i) (rev xs))"

lemma sorted_insert_Nil [simp]: "sorted_insert sh i [] = [i]"
  by (simp add: sorted_insert_def)

lemma sorted_insert_snoc [simp]:
  "sorted_insert sh i (xs @ [x]) = (if sh x i then xs @ [x, i] else sorted_insert sh i xs @ [x])"
  by (simp add: sorted_insert_def)

lemma mset_sorted_insert [simp]: "mset (sorted_insert sh i xs) = add_mset i (mset xs)"
  by (induction xs rule: rev_induct) auto

lemma set_sorted_insert [simp]: "set (sorted_insert sh i xs) = insert i (set xs)"
  by (induction xs rule: rev_induct) auto

lemma sorted_sorted_insert:
  assumes "transp sh" "totalp_on (insert i (set xs)) sh" "reflp sh" "sorted_wrt sh xs"
  shows "sorted_wrt sh (sorted_insert sh i xs)"
  using assms(2,4)
proof (induction xs rule: rev_induct)
  case Nil
  then show ?case by simp
next
  case (snoc x xs)
  then have IH: "sorted_wrt sh (sorted_insert sh i xs)"
    by (auto simp: sorted_wrt_append totalp_on_def)
  show ?case
  proof (cases "sh x i")
    case True
    then show ?thesis using snoc.prems assms(1)
      by (auto simp: sorted_wrt_append dest: transpD)
  next
    case False
    then have "sh i x" using snoc.prems(1) assms(3)
      by (auto simp: totalp_on_def reflp_def)
    then show ?thesis using False IH snoc.prems(2)
      by (auto simp: sorted_wrt_append)
  qed
qed

lemma insert_sorted_loop_refines:
  "is_list h l (as @ bs) \<Longrightarrow> le_list (les h i) = None \<Longrightarrow>
   \<exists>h'. insert_sorted_loop sh l i (last_or None as) h = Some h' \<and>
        is_list h' l (sorted_insert sh i as @ bs)"
proof (induction as arbitrary: bs rule: rev_induct)
  case Nil
  then show ?case
    by (simp add: insert_sorted_loop.simps list_prepend_refines)
next
  case (snoc z zs)
  have next_z: "le_prev (les h z) = last_or None zs"
    using snoc.prems(1) by (simp add: is_list_def)
  show ?case
  proof (cases "sh z i")
    case True
    then show ?thesis
      using list_insert_after_refines [of h l zs z bs i] snoc.prems
      by (simp add: insert_sorted_loop.simps)
  next
    case False
    then show ?thesis
      using snoc.IH [of "z # bs"] snoc.prems next_z
      by (subst insert_sorted_loop.simps) simp
  qed
qed

lemma list_insert_sorted_refines:
  assumes "is_list h l xs" "le_list (les h i) = None"
  shows "\<exists>h'. list_insert_sorted (Some l) (Some sh) i d h = Some h' \<and>
              is_list h' l (sorted_insert sh i xs)"
proof -
  let ?h = "upd_le i (\<lambda>x. x\<lparr>le_data := d\<rparr>) h"
  have "is_list ?h l xs" "le_list (les ?h i) = None" "tail (lsts h l) = last_or None xs"
    using assms is_list_unlinked [OF assms] by (simp_all add: is_list_def)
  then show ?thesis
    using insert_sorted_loop_refines [of ?h l xs "[]" i sh]
    by (simp add: list_insert_sorted_def Let_def)
qed

subsection \<open>Sorting\<close>

text \<open>One pass of \<open>list_sort\<close> on the sequence: a bubble pass, with a flag that says
  whether anything was swapped.\<close>

fun bubble :: "('a \<Rightarrow> 'a \<Rightarrow> bool) \<Rightarrow> 'a list \<Rightarrow> bool \<times> 'a list" where
  "bubble sh (x # y # xs) =
     (if sh x y then (fst (bubble sh (y # xs)), x # snd (bubble sh (y # xs)))
      else (True, y # snd (bubble sh (x # xs))))"
| "bubble sh xs = (False, xs)"

lemma mset_bubble [simp]: "mset (snd (bubble sh xs)) = mset xs"
  by (induction sh xs rule: bubble.induct) auto

lemma set_bubble [simp]: "set (snd (bubble sh xs)) = set xs"
  by (metis mset_bubble set_mset_mset)

lemma bubble_unchanged: "\<not> fst (bubble sh xs) \<Longrightarrow> snd (bubble sh xs) = xs"
  by (induction sh xs rule: bubble.induct) (auto split: if_splits)

lemma bubble_sorted: "transp sh \<Longrightarrow> \<not> fst (bubble sh xs) \<Longrightarrow> sorted_wrt sh xs"
proof (induction sh xs rule: bubble.induct)
  case (1 sh x y xs)
  then have "sh x y" "sorted_wrt sh (y # xs)" by (auto split: if_splits)
  with \<open>transp sh\<close> show ?case by (auto dest: transpD)
qed auto

text \<open>What shrinks from pass to pass: the number of pairs in the wrong order.\<close>

fun inversions :: "('a \<Rightarrow> 'a \<Rightarrow> bool) \<Rightarrow> 'a list \<Rightarrow> nat" where
  "inversions sh [] = 0"
| "inversions sh (x # xs) = length (filter (\<lambda>y. \<not> sh x y) xs) + inversions sh xs"

lemma length_filter_mset_cong: "mset xs = mset ys \<Longrightarrow> length (filter P xs) = length (filter P ys)"
  by (metis mset_filter size_mset)

lemma inversions_bubble:
  "totalp_on (set xs) sh \<Longrightarrow> distinct xs \<Longrightarrow>
   inversions sh (snd (bubble sh xs)) + (if fst (bubble sh xs) then 1 else 0) \<le> inversions sh xs"
proof (induction sh xs rule: bubble.induct)
  case (1 sh x y xs)
  have len: "length (filter P (snd (bubble sh zs))) = length (filter P zs)" for P zs
    by (rule length_filter_mset_cong) simp
  have total: "totalp_on (set (y # xs)) sh" "totalp_on (set (x # xs)) sh"
    by (rule totalp_on_subset [OF "1.prems"(1)], auto)+
  have dist: "distinct (y # xs)" "distinct (x # xs)" "x \<noteq> y" using "1.prems"(2) by auto
  show ?case
  proof (cases "sh x y")
    case True
    from "1.IH"(1) [OF True total(1) dist(1)] show ?thesis using True by (auto simp: len)
  next
    case False
    then have "sh y x" using "1.prems"(1) dist(3) by (auto simp: totalp_on_def)
    moreover from "1.IH"(3) [OF False total(2) dist(2)] have
      "inversions sh (snd (bubble sh (x # xs))) \<le> inversions sh (x # xs)" by linarith
    ultimately show ?thesis using False by (simp add: len)
  qed
qed auto

lemma sort_pass_refines:
  "is_list h l (as @ x # xs) \<Longrightarrow>
   \<exists>h'. sort_pass sh l (Some x) b h = Some (b \<or> fst (bubble sh (x # xs)), h') \<and>
        is_list h' l (as @ snd (bubble sh (x # xs)))"
proof (induction xs arbitrary: as x h b)
  case Nil
  then have "le_next (les h x) = None" by (simp add: is_list_def)
  with Nil show ?case by (subst sort_pass.simps) simp
next
  case (Cons y ys)
  have nxt: "le_next (les h x) = Some y" using Cons.prems by (simp add: is_list_def)
  show ?case
  proof (cases "sh x y")
    case True
    have "is_list h l ((as @ [x]) @ y # ys)" using Cons.prems by simp
    from Cons.IH [OF this, of b] obtain h' where
      "sort_pass sh l (Some y) b h = Some (b \<or> fst (bubble sh (y # ys)), h')"
      "is_list h' l ((as @ [x]) @ snd (bubble sh (y # ys)))" by blast
    then show ?thesis using True nxt by (subst sort_pass.simps) simp
  next
    case False
    let ?u = "list_unlink (Some x) h"
    let ?h = "list_insert_after (Some l) (Some y) (Some x) (le_data (les ?u x)) ?u"
    have "is_list ?u l (as @ y # ys)" by (rule list_unlink_refines [OF Cons.prems])
    then have "is_list ?h l (as @ y # x # ys)"
      by (rule list_insert_after_refines) (rule list_unlink_unlinked)
    then have "is_list ?h l ((as @ [y]) @ x # ys)" by simp
    from Cons.IH [OF this, of True] obtain h' where
      "sort_pass sh l (Some x) True ?h = Some (True, h')"
      "is_list h' l ((as @ [y]) @ snd (bubble sh (x # ys)))" by auto
    then show ?thesis using False nxt by (subst sort_pass.simps) (simp add: Let_def)
  qed
qed

lemma sort_retry_refines:
  assumes "transp sh"
  shows "is_list h l xs \<Longrightarrow> totalp_on (set xs) sh \<Longrightarrow>
   \<exists>h' ys n. sort_retry sh l h = Some h' \<and> is_list h' l ys \<and> ys = ((\<lambda>zs. snd (bubble sh zs)) ^^ n) xs \<and> sorted_wrt sh ys"
proof (induction "inversions sh xs" arbitrary: xs h rule: less_induct)
  case less
  have pass: "\<exists>h'. sort_pass sh l (head (lsts h l)) False h = Some (fst (bubble sh xs), h') \<and>
                 is_list h' l (snd (bubble sh xs))"
  proof (cases xs)
    case Nil
    then show ?thesis using less.prems by (auto simp: is_list_def sort_pass.simps)
  next
    case (Cons x zs)
    then show ?thesis using sort_pass_refines [of h l "[]" x zs sh False] less.prems
      by (auto simp: is_list_def)
  qed
  then obtain h' where h': "sort_pass sh l (head (lsts h l)) False h = Some (fst (bubble sh xs), h')"
    "is_list h' l (snd (bubble sh xs))" by blast
  show ?case
  proof (cases "fst (bubble sh xs)")
    case False
    then show ?thesis using h' bubble_unchanged [OF False] bubble_sorted [OF assms False]
      by (subst sort_retry.simps) (auto intro!: exI [of _ "0 :: nat"])
  next
    case True
    let ?ys = "snd (bubble sh xs)"
    have "inversions sh ?ys < inversions sh xs"
      using inversions_bubble [of xs sh] True less.prems by (simp add: is_list_def)
    moreover have "totalp_on (set ?ys) sh" using less.prems(2) by simp
    ultimately obtain h'' ys n where r: "sort_retry sh l h' = Some h''" "is_list h'' l ys"
      "ys = ((\<lambda>zs. snd (bubble sh zs)) ^^ n) ?ys" "sorted_wrt sh ys"
      using less.hyps [of ?ys h'] h'(2) by blast
    have "ys = ((\<lambda>zs. snd (bubble sh zs)) ^^ Suc n) xs" unfolding funpow_Suc_right using r(3) by simp
    moreover have "sort_retry sh l h = Some h''" using h' True r(1) by (subst sort_retry.simps) simp
    ultimately show ?thesis using r(2,4) by blast
  qed
qed

lemma list_sort_refines:
  assumes "is_list h l xs" "transp sh" "totalp_on (set xs) sh"
  shows "\<exists>h' ys. list_sort (Some l) (Some sh) h = Some h' \<and> is_list h' l ys \<and>
                 mset ys = mset xs \<and> sorted_wrt sh ys"
proof -
  have "mset (((\<lambda>zs. snd (bubble sh zs)) ^^ n) xs) = mset xs" for n by (induction n) simp_all
  then show ?thesis using sort_retry_refines [OF assms(2) assms(1,3)] by (auto simp: list_sort_def)
qed

text \<open>A pass never swaps elements with equal keys.\<close>

lemma bubble_stable:
  fixes k :: "'a \<Rightarrow> 'b :: linorder"
  shows "sh = (\<lambda>x y. k x \<le> k y) \<Longrightarrow> filter (\<lambda>z. k c = k z) (snd (bubble sh xs)) = filter (\<lambda>z. k c = k z) xs"
  by (induction sh xs rule: bubble.induct) auto

text \<open>C36: sorting a linked list by a key ends and gives the stable sort of the library: the same elements, in the
  order of their keys, elements with equal keys in their old order.\<close>
theorem list_sort_is_sort_key:
  fixes k :: "nat \<Rightarrow> 'b :: linorder"
  assumes "is_list h l xs"
  shows "\<exists>h'. list_sort (Some l) (Some (\<lambda>x y. k x \<le> k y)) h = Some h' \<and> is_list h' l (sort_key k xs)"
proof -
  let ?sh = "\<lambda>x y. k x \<le> k y"
  have "transp ?sh" by (auto simp: transp_def)
  moreover have "totalp_on (set xs) ?sh" by (auto simp: totalp_on_def)
  ultimately obtain h' ys n where r: "sort_retry ?sh l h = Some h'" "is_list h' l ys"
    "ys = ((\<lambda>zs. snd (bubble ?sh zs)) ^^ n) xs" "sorted_wrt ?sh ys"
    using sort_retry_refines [of ?sh h l xs] assms by blast
  have m: "mset (((\<lambda>zs. snd (bubble ?sh zs)) ^^ n) xs) = mset xs" for n by (induction n) simp_all
  have f: "filter (\<lambda>z. k c = k z) (((\<lambda>zs. snd (bubble ?sh zs)) ^^ n) xs) = filter (\<lambda>z. k c = k z) xs" for c n
    by (induction n) (simp_all add: bubble_stable)
  have "sorted (map k ys)" using r(4) by (simp add: sorted_wrt_map)
  then have "sort_key k xs = ys" using m f r(3) by (intro properties_for_sort_key) auto
  then show ?thesis using r(1,2) by (simp add: list_sort_def)
qed

lemma list_sort_is_sort_key_witness:
  "\<exists>h'. list_sort (Some 0) (Some (\<lambda>x y. x mod 10 \<le> y mod 10))
     (list_append (Some 0) (Some 13) None (list_append (Some 0) (Some 21) None
       (list_append (Some 0) (Some 3) None (list_init (Some 0) \<lparr>les = (\<lambda>_. \<lparr>le_prev = None, le_next = None, le_list = None, le_data = None\<rparr>),
         lsts = (\<lambda>_. \<lparr>head = None, tail = None\<rparr>)\<rparr>)))) = Some h' \<and> is_list h' 0 [21, 3, 13]"
proof -
  let ?h0 = "list_init (Some 0) \<lparr>les = (\<lambda>_. \<lparr>le_prev = None, le_next = None, le_list = None, le_data = None\<rparr>),
         lsts = (\<lambda>_. \<lparr>head = None, tail = None\<rparr>)\<rparr>"
  let ?h3 = "list_append (Some 0) (Some 13) None (list_append (Some 0) (Some 21) None (list_append (Some 0) (Some 3) None ?h0))"
  have "is_list ?h3 0 [3, 21, 13]"
    by (simp add: list_init_def list_append_def is_list_def Let_def upd_le_def upd_lst_def)
  from list_sort_is_sort_key [OF this, of "\<lambda>x. x mod 10"] show ?thesis by simp
qed

end
