(* ===== verification/Event.thy ===== *)
theory Event
  imports Prelude
begin

text \<open>
  The user-agent events of baresip and their dispatch (\<open>native/baresip/src/event.c\<close>, the
  event numbers of \<open>native/baresip/include/baresip.h\<close>).  The application layer
  (theory \<open>Native_Sip\<close>) registers one handler here and everything it knows about calls
  reaches it through \<open>ua_event\<close>.
\<close>

section \<open>Events\<close>

datatype ua_event =
    UA_EVENT_REGISTERING | UA_EVENT_REGISTER_OK | UA_EVENT_REGISTER_FAIL
  | UA_EVENT_UNREGISTERING | UA_EVENT_FALLBACK_OK | UA_EVENT_FALLBACK_FAIL
  | UA_EVENT_MWI_NOTIFY | UA_EVENT_CREATE | UA_EVENT_SHUTDOWN | UA_EVENT_EXIT
  | UA_EVENT_CALL_INCOMING | UA_EVENT_CALL_OUTGOING | UA_EVENT_CALL_RINGING
  | UA_EVENT_CALL_PROGRESS | UA_EVENT_CALL_ANSWERED | UA_EVENT_CALL_ESTABLISHED
  | UA_EVENT_CALL_CLOSED | UA_EVENT_CALL_TRANSFER | UA_EVENT_CALL_REDIRECT
  | UA_EVENT_CALL_TRANSFER_FAILED | UA_EVENT_CALL_DTMF_START | UA_EVENT_CALL_DTMF_END
  | UA_EVENT_CALL_RTPESTAB | UA_EVENT_CALL_RTCP | UA_EVENT_CALL_MENC
  | UA_EVENT_VU_TX | UA_EVENT_VU_RX | UA_EVENT_AUDIO_ERROR
  | UA_EVENT_CALL_LOCAL_SDP | UA_EVENT_CALL_REMOTE_SDP | UA_EVENT_CALL_HOLD
  | UA_EVENT_CALL_RESUME | UA_EVENT_REFER | UA_EVENT_MODULE | UA_EVENT_END_OF_FILE
  | UA_EVENT_CUSTOM | UA_EVENT_MAX

fun event_class_name :: "ua_event \<Rightarrow> string" where
  "event_class_name UA_EVENT_REGISTERING = ''register''"
| "event_class_name UA_EVENT_REGISTER_OK = ''register''"
| "event_class_name UA_EVENT_REGISTER_FAIL = ''register''"
| "event_class_name UA_EVENT_UNREGISTERING = ''register''"
| "event_class_name UA_EVENT_FALLBACK_OK = ''register''"
| "event_class_name UA_EVENT_FALLBACK_FAIL = ''register''"
| "event_class_name UA_EVENT_MWI_NOTIFY = ''mwi''"
| "event_class_name UA_EVENT_CREATE = ''application''"
| "event_class_name UA_EVENT_SHUTDOWN = ''application''"
| "event_class_name UA_EVENT_EXIT = ''application''"
| "event_class_name UA_EVENT_CALL_INCOMING = ''call''"
| "event_class_name UA_EVENT_CALL_OUTGOING = ''call''"
| "event_class_name UA_EVENT_CALL_RINGING = ''call''"
| "event_class_name UA_EVENT_CALL_PROGRESS = ''call''"
| "event_class_name UA_EVENT_CALL_ANSWERED = ''call''"
| "event_class_name UA_EVENT_CALL_ESTABLISHED = ''call''"
| "event_class_name UA_EVENT_CALL_CLOSED = ''call''"
| "event_class_name UA_EVENT_CALL_TRANSFER = ''call''"
| "event_class_name UA_EVENT_CALL_TRANSFER_FAILED = ''call''"
| "event_class_name UA_EVENT_CALL_REDIRECT = ''call''"
| "event_class_name UA_EVENT_CALL_DTMF_START = ''call''"
| "event_class_name UA_EVENT_CALL_DTMF_END = ''call''"
| "event_class_name UA_EVENT_CALL_RTPESTAB = ''call''"
| "event_class_name UA_EVENT_CALL_RTCP = ''call''"
| "event_class_name UA_EVENT_CALL_MENC = ''call''"
| "event_class_name UA_EVENT_CALL_LOCAL_SDP = ''call''"
| "event_class_name UA_EVENT_CALL_REMOTE_SDP = ''call''"
| "event_class_name UA_EVENT_CALL_HOLD = ''call''"
| "event_class_name UA_EVENT_CALL_RESUME = ''call''"
| "event_class_name UA_EVENT_VU_RX = ''VU_REPORT''"
| "event_class_name UA_EVENT_VU_TX = ''VU_REPORT''"
| "event_class_name _ = ''other''"

fun uag_event_str :: "ua_event \<Rightarrow> string" where
  "uag_event_str UA_EVENT_REGISTERING = ''REGISTERING''"
| "uag_event_str UA_EVENT_REGISTER_OK = ''REGISTER_OK''"
| "uag_event_str UA_EVENT_REGISTER_FAIL = ''REGISTER_FAIL''"
| "uag_event_str UA_EVENT_FALLBACK_OK = ''FALLBACK_OK''"
| "uag_event_str UA_EVENT_FALLBACK_FAIL = ''FALLBACK_FAIL''"
| "uag_event_str UA_EVENT_UNREGISTERING = ''UNREGISTERING''"
| "uag_event_str UA_EVENT_MWI_NOTIFY = ''MWI_NOTIFY''"
| "uag_event_str UA_EVENT_CREATE = ''CREATE''"
| "uag_event_str UA_EVENT_SHUTDOWN = ''SHUTDOWN''"
| "uag_event_str UA_EVENT_EXIT = ''EXIT''"
| "uag_event_str UA_EVENT_CALL_INCOMING = ''CALL_INCOMING''"
| "uag_event_str UA_EVENT_CALL_OUTGOING = ''CALL_OUTGOING''"
| "uag_event_str UA_EVENT_CALL_RINGING = ''CALL_RINGING''"
| "uag_event_str UA_EVENT_CALL_PROGRESS = ''CALL_PROGRESS''"
| "uag_event_str UA_EVENT_CALL_ANSWERED = ''CALL_ANSWERED''"
| "uag_event_str UA_EVENT_CALL_ESTABLISHED = ''CALL_ESTABLISHED''"
| "uag_event_str UA_EVENT_CALL_CLOSED = ''CALL_CLOSED''"
| "uag_event_str UA_EVENT_CALL_TRANSFER = ''TRANSFER''"
| "uag_event_str UA_EVENT_CALL_TRANSFER_FAILED = ''TRANSFER_FAILED''"
| "uag_event_str UA_EVENT_CALL_REDIRECT = ''CALL_REDIRECT''"
| "uag_event_str UA_EVENT_CALL_DTMF_START = ''CALL_DTMF_START''"
| "uag_event_str UA_EVENT_CALL_DTMF_END = ''CALL_DTMF_END''"
| "uag_event_str UA_EVENT_CALL_RTPESTAB = ''CALL_RTPESTAB''"
| "uag_event_str UA_EVENT_CALL_RTCP = ''CALL_RTCP''"
| "uag_event_str UA_EVENT_CALL_MENC = ''CALL_MENC''"
| "uag_event_str UA_EVENT_VU_TX = ''VU_TX_REPORT''"
| "uag_event_str UA_EVENT_VU_RX = ''VU_RX_REPORT''"
| "uag_event_str UA_EVENT_AUDIO_ERROR = ''AUDIO_ERROR''"
| "uag_event_str UA_EVENT_CALL_LOCAL_SDP = ''CALL_LOCAL_SDP''"
| "uag_event_str UA_EVENT_CALL_REMOTE_SDP = ''CALL_REMOTE_SDP''"
| "uag_event_str UA_EVENT_CALL_HOLD = ''CALL_HOLD''"
| "uag_event_str UA_EVENT_CALL_RESUME = ''CALL_RESUME''"
| "uag_event_str UA_EVENT_REFER = ''REFER''"
| "uag_event_str UA_EVENT_MODULE = ''MODULE''"
| "uag_event_str UA_EVENT_END_OF_FILE = ''END_OF_FILE''"
| "uag_event_str UA_EVENT_CUSTOM = ''CUSTOM''"
| "uag_event_str _ = ''?''"

section \<open>The handler registry\<close>

text \<open>A registered handler is a function (by its address) and its argument.\<close>

record ua_eh =
  eh_h :: nat
  eh_arg :: ptr

fun uag_event_unregister :: "ptr \<Rightarrow> ua_eh list \<Rightarrow> ua_eh list" where
  "uag_event_unregister h [] = []"
| "uag_event_unregister h (eh # ehl) =
     (if Some (eh_h eh) = h then ehl else eh # uag_event_unregister h ehl)"

text \<open>\<open>alloc_ok\<close>: whether \<open>mem_zalloc\<close> returns memory.\<close>

definition uag_event_register :: "bool \<Rightarrow> ptr \<Rightarrow> ptr \<Rightarrow> ua_eh list \<Rightarrow> errno \<times> ua_eh list" where
  "uag_event_register alloc_ok h arg ehl =
     (case h of
        None \<Rightarrow> (EINVAL, ehl)
      | Some f \<Rightarrow>
          let ehl = uag_event_unregister h ehl
          in if \<not> alloc_ok then (ENOMEM, ehl)
             else (OK, ehl @ [\<lparr>eh_h = f, eh_arg = arg\<rparr>]))"

text \<open>
  Dispatch: every handler in registration order, until one marks the call with
  \<open>evstop\<close>.  \<open>run\<close> is what the handler at an address does to the rest of the program's
  state; \<open>evstop\<close> and \<open>set_evstop\<close> read and write the flag of the call.
\<close>

fun ua_event_loop ::
    "(nat \<Rightarrow> ua_event \<Rightarrow> ptr \<Rightarrow> string \<Rightarrow> ptr \<Rightarrow> 's \<Rightarrow> 's) \<Rightarrow> (ptr \<Rightarrow> 's \<Rightarrow> bool) \<Rightarrow>
     (ptr \<Rightarrow> bool \<Rightarrow> 's \<Rightarrow> 's) \<Rightarrow> ua_event \<Rightarrow> ptr \<Rightarrow> string \<Rightarrow> ua_eh list \<Rightarrow> 's \<Rightarrow> 's" where
  "ua_event_loop run evstop set_evstop ev call buf [] s = s"
| "ua_event_loop run evstop set_evstop ev call buf (eh # ehl) s =
     (if evstop call s then set_evstop call False s
      else ua_event_loop run evstop set_evstop ev call buf ehl
             (run (eh_h eh) ev call buf (eh_arg eh) s))"

definition ua_event_send ::
    "(nat \<Rightarrow> ua_event \<Rightarrow> ptr \<Rightarrow> string \<Rightarrow> ptr \<Rightarrow> 's \<Rightarrow> 's) \<Rightarrow> (ptr \<Rightarrow> 's \<Rightarrow> bool) \<Rightarrow>
     (ptr \<Rightarrow> bool \<Rightarrow> 's \<Rightarrow> 's) \<Rightarrow> ua_event \<Rightarrow> ptr \<Rightarrow> string \<Rightarrow> ua_eh list \<Rightarrow> 's \<Rightarrow> 's" where
  "ua_event_send run evstop set_evstop ev call text ehl s =
     ua_event_loop run evstop set_evstop ev call (snprintf 256 text) ehl s"

section \<open>Facts\<close>

lemma unregister_not_in: "h \<notin> eh_h ` set ehl \<Longrightarrow> uag_event_unregister (Some h) ehl = ehl"
  by (induction ehl) auto

lemma set_unregister: "set (uag_event_unregister h ehl) \<subseteq> set ehl"
  by (induction ehl) auto

lemma distinct_unregister:
  "distinct (map eh_h ehl) \<Longrightarrow> distinct (map eh_h (uag_event_unregister h ehl))"
  using set_unregister by (induction ehl) fastforce+

lemma unregister_removes:
  "distinct (map eh_h ehl) \<Longrightarrow> h \<notin> eh_h ` set (uag_event_unregister (Some h) ehl)"
  by (induction ehl) auto

lemma unregister_keeps:
  "eh_h eh \<noteq> h \<Longrightarrow> eh \<in> set ehl \<Longrightarrow> eh \<in> set (uag_event_unregister (Some h) ehl)"
  by (induction ehl) auto

text \<open>Registering keeps at most one entry per handler function, in the last place.\<close>

lemma register_distinct:
  "distinct (map eh_h ehl) \<Longrightarrow> distinct (map eh_h (snd (uag_event_register ok h arg ehl)))"
  by (auto simp: uag_event_register_def Let_def distinct_unregister dest: unregister_removes
           split: option.splits)

text \<open>When no handler stops the event, dispatch is the composition of the handlers.\<close>

lemma ua_event_loop_fold:
  assumes "\<And>s. \<not> evstop call s"
  shows "ua_event_loop run evstop set_evstop ev call buf ehl s =
         fold (\<lambda>eh. run (eh_h eh) ev call buf (eh_arg eh)) ehl s"
  by (induction ehl arbitrary: s) (simp_all add: assms)

end
