(* ===== verification/Native_Sip.thy ===== *)
theory Native_Sip
  imports Event
begin

text \<open>
  The application's own native code: the JNI bridge \<open>app/src/main/cpp/native-sip-jni.c\<close> and the
  RTP watchdog filter \<open>app/src/main/cpp/rtpwatch.c\<close>.  The file-scope variables of both files
  are one record, every JNI entry point, worker, event handler and thread body is a function
  on it, and what the code does to the outside (Java callbacks, calls into baresip) is
  appended to an effect log.  What baresip and libre answer is an argument (\<open>env\<close>), with the
  events they deliver synchronously; \<open>ua_hangup\<close> of \<open>native/baresip/src/ua.c\<close> is modelled
  with its synchronous \<open>UA_EVENT_CALL_CLOSED\<close>, because the handler re-enters itself through it.
\<close>

section \<open>State\<close>

text \<open>The argument of a Java callback: a string, or one of the fixed (Japanese) messages.\<close>

datatype cb_msg =
    Msg_text string
  | Msg_call_error             \<comment> \<open>the default text of \<open>UA_EVENT_AUDIO_ERROR\<close>\<close>
  | Msg_ua_create_error | Msg_register_error | Msg_dial_error
  | Msg_registering | Msg_reregistering
  | Msg_libre_init_error | Msg_baresip_init_error | Msg_sip_stack_init_error
  | Msg_start_timeout | Msg_register_queue_error | Msg_reregister_queue_error

datatype act =
    Callback string "cb_msg option"
  | Ua_alloc string
  | Ua_register nat
  | Ua_unregister nat
  | Ua_destroy nat
  | Ua_connect nat string
  | Ua_answer nat nat
  | Call_hangup nat u16 "string option"
  | Call_send_digit nat char
  | Audio_mute nat bool
  | Start_watchdog
  | Start_re_main
  | Event_register             \<comment> \<open>\<open>uag_event_register\<close> of the handler\<close>
  | Set_gain u32               \<comment> \<open>the bits of the \<open>jfloat\<close>\<close>
  | Bad_deref nat              \<comment> \<open>a freed call object is dereferenced\<close>

datatype worker =
    Register_worker | Unregister_worker | Reregister_worker string | Makecall_worker string
  | Answer_worker | Endcall_worker | Timeout_hangup_worker | Dtmf_worker char | Mute_worker bool

text \<open>
  \<open>calls\<close> is the list of the call objects that baresip has alive (\<open>ua->calls\<close>); \<open>remain_q\<close> the
  work handed to the \<open>re_main\<close> thread and not yet run.  \<open>jni_env\<close>: a \<open>JNIEnv\<close> can be
  obtained; \<open>jni_methods\<close>: the methods the callback object has.
\<close>

record app =
  g_callback :: bool
  g_ua :: ptr
  g_registered :: bool
  g_in_call :: bool
  g_call :: ptr
  g_watchdog_running :: bool
  g_re_running :: bool
  g_re_async_ready :: bool
  g_initialized :: bool
  g_bs_log :: bool
  sip_server_str :: string
  sip_user_str :: string
  sip_pass_str :: string
  sip_realm_str :: string
  sip_port_int :: int
  last_rx_s :: u32
  aucodecl :: "string list"
  aufiltl :: "string list"
  jni_env :: bool
  jni_methods :: "string list"
  calls :: "nat list"
  remain_q :: "worker list"
  effects :: "act list"

definition init_app :: app where
  "init_app = \<lparr>g_callback = False, g_ua = None, g_registered = False, g_in_call = False,
     g_call = None, g_watchdog_running = False, g_re_running = False, g_re_async_ready = False,
     g_initialized = False, g_bs_log = False, sip_server_str = [], sip_user_str = [],
     sip_pass_str = [], sip_realm_str = [], sip_port_int = 5060, last_rx_s = 0,
     aucodecl = [], aufiltl = [], jni_env = True,
     jni_methods = [''onRegistered'', ''onRegistrationFailed'', ''onIncomingCall'',
       ''onCallStarted'', ''onCallEnded'', ''onCallFailed'', ''onDebug''],
     calls = [], remain_q = [], effects = []\<rparr>"

text \<open>An event that a baresip call delivers before it returns.\<close>

type_synonym event_rec = "ua_event \<times> ptr \<times> string option"

record env =
  now :: u32                                    \<comment> \<open>\<open>(uint32_t)time(NULL)\<close>\<close>
  re_thread_check_err :: errno
  re_thread_async_init_err :: errno
  watchdog_create_err :: errno                  \<comment> \<open>\<open>pthread_create\<close> of the watchdog\<close>
  zalloc_ok :: bool                             \<comment> \<open>\<open>mem_zalloc\<close> in \<open>remain_run\<close>\<close>
  async_main_err :: errno                       \<comment> \<open>\<open>re_thread_async_main\<close>\<close>
  ua_alloc_out :: "errno \<times> nat \<times> event_rec list"
  ua_register_out :: "errno \<times> event_rec list"
  ua_unregister_evs :: "event_rec list"
  ua_destroy_evs :: "event_rec list"
  ua_connect_out :: "errno \<times> nat \<times> event_rec list"
  ua_answer_evs :: "event_rec list"

definition emit :: "act \<Rightarrow> app \<Rightarrow> app" where
  "emit a s = s\<lparr>effects := effects s @ [a]\<rparr>"

section \<open>Callbacks to Java\<close>

definition call_callback :: "string \<Rightarrow> cb_msg option \<Rightarrow> app \<Rightarrow> app" where
  "call_callback meth msg s =
     (if \<not> g_callback s then s
      else if \<not> jni_env s then s
      else if meth \<notin> set (jni_methods s) then s
      else emit (Callback meth msg) s)"

section \<open>Codec and filter registration (aucodec.c, aufilt.c)\<close>

text \<open>\<open>list_append\<close> refuses an element that is already linked, so registering a codec or a filter
  twice leaves the list as it is.\<close>

definition aucodec_register :: "string \<Rightarrow> app \<Rightarrow> app" where
  "aucodec_register c s = (if c \<in> set (aucodecl s) then s else s\<lparr>aucodecl := aucodecl s @ [c]\<rparr>)"

definition aufilt_register :: "string \<Rightarrow> app \<Rightarrow> app" where
  "aufilt_register f s = (if f \<in> set (aufiltl s) then s else s\<lparr>aufiltl := aufiltl s @ [f]\<rparr>)"

section \<open>RTP watchdog filter (rtpwatch.c)\<close>

definition rtpwatch_last_rx_s :: "app \<Rightarrow> u32" where
  "rtpwatch_last_rx_s s = last_rx_s s"

definition rtpwatch_mark_rx :: "env \<Rightarrow> app \<Rightarrow> app" where
  "rtpwatch_mark_rx e s = s\<lparr>last_rx_s := now e\<rparr>"

text \<open>The filter callbacks: \<open>stp\<close> is false for a NULL out-pointer; the audio frame is untouched.\<close>

definition decode_update :: "bool \<Rightarrow> bool \<Rightarrow> errno" where
  "decode_update stp alloc_ok = (if \<not> stp then EINVAL else if \<not> alloc_ok then ENOMEM else OK)"

definition decode_frame :: "env \<Rightarrow> int list \<Rightarrow> app \<Rightarrow> errno \<times> int list \<times> app" where
  "decode_frame e af s = (OK, af, rtpwatch_mark_rx e s)"

definition rtpwatch_module_init :: "app \<Rightarrow> errno \<times> app" where
  "rtpwatch_module_init s = (OK, aufilt_register ''rtpwatch'' s)"

definition rtpwatch_module_close :: "app \<Rightarrow> errno \<times> app" where
  "rtpwatch_module_close s = (OK, s\<lparr>aufiltl := remove1 ''rtpwatch'' (aufiltl s)\<rparr>)"

section \<open>Accounts and addresses\<close>

definition build_server_authority :: "nat \<Rightarrow> app \<Rightarrow> string" where
  "build_server_authority n s =
     (if strchr (sip_server_str s) CHR '':'' \<noteq> None
      then snprintf n (sip_server_str s)
      else snprintf n (sip_server_str s @ '':'' @ dec_of_int (sip_port_int s)))"

definition build_account_aor :: "nat \<Rightarrow> app \<Rightarrow> string" where
  "build_account_aor n s =
     (let authority = build_server_authority 96 s
      in snprintf n
           (''<sip:'' @ sip_user_str s @ ''@'' @ authority @ ''>;auth_user='' @ sip_user_str s @
            '';auth_pass='' @ sip_pass_str s @ '';regint=60''))"

text \<open>The caller shown to the user: the user part of \<open>sip:user@host\<close>, when it fits 31 bytes.\<close>

definition incoming_user :: "string option \<Rightarrow> string" where
  "incoming_user prm =
     (let p = (case prm of Some q \<Rightarrow> q | None \<Rightarrow> []);
          user_start = (case strstr p ''sip:'' of Some q \<Rightarrow> drop 4 q | None \<Rightarrow> p)
      in case strchr user_start CHR ''@'' of
           Some at' \<Rightarrow>
             let n = length user_start - length at'
             in if n < 32 then take n user_start else user_start
         | None \<Rightarrow> user_start)"

section \<open>Event handler\<close>

definition ensure_re_async :: "env \<Rightarrow> app \<Rightarrow> app" where
  "ensure_re_async e s =
     (if g_re_async_ready s then s
      else if re_thread_check_err e \<noteq> 0 then s
      else if re_thread_async_init_err e = 0 then s\<lparr>g_re_async_ready := True\<rparr>
      else s)"

definition watchdog_start :: "env \<Rightarrow> app \<Rightarrow> app" where
  "watchdog_start e s =
     (if g_watchdog_running s then s
      else
        let s = s\<lparr>g_watchdog_running := True\<rparr>
        in if watchdog_create_err e \<noteq> 0 then s\<lparr>g_watchdog_running := False\<rparr>
           else emit Start_watchdog s)"

definition opt_msg :: "string option \<Rightarrow> cb_msg \<Rightarrow> cb_msg" where
  "opt_msg prm dflt = (case prm of Some p \<Rightarrow> Msg_text p | None \<Rightarrow> dflt)"

text \<open>
  The handler and \<open>ua_hangup\<close> (\<open>ua.c\<close>), which sends \<open>UA_EVENT_CALL_CLOSED\<close> to every handler
  before it drops its reference to the call, call each other.
\<close>

function
  baresip_event_handler :: "env \<Rightarrow> ua_event \<Rightarrow> ptr \<Rightarrow> string option \<Rightarrow> app \<Rightarrow> app" and
  ua_hangup :: "env \<Rightarrow> ptr \<Rightarrow> nat \<Rightarrow> u16 \<Rightarrow> string option \<Rightarrow> app \<Rightarrow> app"
where
  "baresip_event_handler e ev call prm s0 =
     (let s = ensure_re_async e s0
      in case ev of
           UA_EVENT_REGISTER_OK \<Rightarrow>
             call_callback ''onRegistered'' None (s\<lparr>g_registered := True\<rparr>)
         | UA_EVENT_REGISTER_FAIL \<Rightarrow>
             call_callback ''onRegistrationFailed''
               (Some (opt_msg prm (Msg_text ''registration failed''))) (s\<lparr>g_registered := False\<rparr>)
         | UA_EVENT_CALL_OUTGOING \<Rightarrow> s\<lparr>g_call := call, g_in_call := True\<rparr>
         | UA_EVENT_CALL_INCOMING \<Rightarrow>
             if g_call s \<noteq> None \<and> g_call s \<noteq> call
             then (case call of
                     Some c \<Rightarrow> ua_hangup e (g_ua s) c 486 (Some ''Busy'') s
                   | None \<Rightarrow> s)
             else call_callback ''onIncomingCall'' (Some (Msg_text (incoming_user prm)))
                    (s\<lparr>g_call := call, g_in_call := True\<rparr>)
         | UA_EVENT_CALL_ESTABLISHED \<Rightarrow>
             call_callback ''onCallStarted'' None
               (watchdog_start e (rtpwatch_mark_rx e (s\<lparr>g_call := call, g_in_call := True\<rparr>)))
         | UA_EVENT_CALL_RTCP \<Rightarrow> rtpwatch_mark_rx e s
         | UA_EVENT_CALL_CLOSED \<Rightarrow>
             if g_call s = call \<or> g_call s \<noteq> None
             then call_callback ''onCallEnded'' None (s\<lparr>g_call := None, g_in_call := False\<rparr>)
             else s
         | UA_EVENT_AUDIO_ERROR \<Rightarrow>
             call_callback ''onCallFailed'' (Some (opt_msg prm Msg_call_error)) s
         | _ \<Rightarrow> s)"
| "ua_hangup e ua call scode reason s0 =
     (case ua of
        None \<Rightarrow> s0
      | Some u \<Rightarrow>
          if call \<notin> set (calls s0) then emit (Bad_deref call) s0
          else
            let s = emit (Call_hangup call scode reason) s0;
                text = (case reason of Some r \<Rightarrow> r | None \<Rightarrow> ''Connection reset by user'');
                s' = baresip_event_handler e UA_EVENT_CALL_CLOSED (Some call)
                       (Some (snprintf 256 text)) s
            in s'\<lparr>calls := remove1 call (calls s')\<rparr>)"
  by pat_completeness auto
termination
  by (relation "measure (\<lambda>x. case x of
        Inl (e, ev, call, prm, s) \<Rightarrow> if ev = UA_EVENT_CALL_INCOMING then 2 else 0
      | Inr _ \<Rightarrow> 1)") auto

declare baresip_event_handler.simps [simp del] ua_hangup.simps [simp del]

section \<open>Running work on the event loop thread\<close>

text \<open>\<open>ready i\<close> is what the \<open>i\<close>-th read of the volatile \<open>g_re_running\<close> returns while the calling
  thread polls every 10 ms.\<close>

function wait_ready_loop :: "(nat \<Rightarrow> bool) \<Rightarrow> nat \<Rightarrow> nat \<Rightarrow> nat \<Rightarrow> nat \<times> nat" where
  "wait_ready_loop ready timeout_ms i waited_ms =
     (if \<not> ready i \<and> waited_ms < timeout_ms
      then wait_ready_loop ready timeout_ms (Suc i) (waited_ms + 10)
      else (Suc i, waited_ms))"
  by pat_completeness auto
termination
  by (relation "measure (\<lambda>(ready, timeout_ms, i, waited_ms). timeout_ms - waited_ms)") auto

declare wait_ready_loop.simps [simp del]

definition wait_for_re_main_ready :: "(nat \<Rightarrow> bool) \<Rightarrow> nat \<Rightarrow> errno" where
  "wait_for_re_main_ready ready timeout_ms =
     (let (i, waited_ms) = wait_ready_loop ready timeout_ms 0 0
      in if ready i then OK else ETIMEDOUT)"

text \<open>Deliver the events of a baresip call, in order.\<close>

definition deliver :: "env \<Rightarrow> event_rec list \<Rightarrow> app \<Rightarrow> app" where
  "deliver e evs s = fold (\<lambda>(ev, call, prm). baresip_event_handler e ev call prm) evs s"

definition ua_create_and_register :: "env \<Rightarrow> string \<Rightarrow> app \<Rightarrow> errno \<times> app" where
  "ua_create_and_register e aor s =
     (let (err, ua, evs) = ua_alloc_out e;
          s = deliver e evs (emit (Ua_alloc aor) s)
      in if err \<noteq> 0
         then (err, call_callback ''onRegistrationFailed'' (Some Msg_ua_create_error) s)
         else
           let s = s\<lparr>g_ua := Some ua\<rparr>;
               (err, evs) = ua_register_out e;
               s = deliver e evs (emit (Ua_register ua) s)
           in if err \<noteq> 0
              then (err, call_callback ''onRegistrationFailed'' (Some Msg_register_error) s)
              else (OK, s))"

definition register_worker :: "env \<Rightarrow> app \<Rightarrow> app" where
  "register_worker e s =
     (let aor = build_account_aor 256 s
      in if g_ua s \<noteq> None then s
         else
           let (err, s) = ua_create_and_register e aor s
           in if err = 0 then call_callback ''onDebug'' (Some Msg_registering) s else s)"

definition unregister_worker :: "env \<Rightarrow> app \<Rightarrow> app" where
  "unregister_worker e s =
     (case g_ua s of
        None \<Rightarrow> s
      | Some ua \<Rightarrow> deliver e (ua_unregister_evs e) (emit (Ua_unregister ua) s))"

text \<open>\<open>ua_destroy\<close> flushes the list of calls without sending an event for them.\<close>

definition ua_destroy :: "env \<Rightarrow> nat \<Rightarrow> app \<Rightarrow> app" where
  "ua_destroy e ua s =
     (deliver e (ua_destroy_evs e) (emit (Ua_destroy ua) s))\<lparr>calls := []\<rparr>"

definition reregister_worker :: "env \<Rightarrow> string \<Rightarrow> app \<Rightarrow> app" where
  "reregister_worker e aor_str s =
     (let s = (case g_ua s of
                 None \<Rightarrow> s
               | Some ua \<Rightarrow>
                   let s = deliver e (ua_unregister_evs e) (emit (Ua_unregister ua) s);
                       s = ua_destroy e ua s
                   in s\<lparr>g_ua := None\<rparr>);
          s = s\<lparr>g_call := None, g_in_call := False\<rparr>;
          (err, s) = ua_create_and_register e aor_str s
      in if err = 0 then call_callback ''onDebug'' (Some Msg_reregistering) s else s)"

text \<open>\<open>ua_connect\<close> (\<open>ua.c\<close>): the new call joins the list of calls, its events are delivered, and
  on an error it is dropped again without a further event.\<close>

definition ua_connect :: "env \<Rightarrow> nat \<Rightarrow> string \<Rightarrow> app \<Rightarrow> errno \<times> app" where
  "ua_connect e ua uri s =
     (let (err, c, evs) = ua_connect_out e;
          s = emit (Ua_connect ua uri) s;
          s = deliver e evs (s\<lparr>calls := calls s @ [c]\<rparr>)
      in if err \<noteq> 0 then (err, s\<lparr>calls := remove1 c (calls s)\<rparr>) else (OK, s))"

definition makecall_worker :: "env \<Rightarrow> string \<Rightarrow> app \<Rightarrow> app" where
  "makecall_worker e uri s =
     (case g_ua s of
        None \<Rightarrow> s
      | Some ua \<Rightarrow>
          let s = (case g_call s of
                     None \<Rightarrow> s
                   | Some c \<Rightarrow>
                       (ua_hangup e (g_ua s) c 0 None s)\<lparr>g_call := None, g_in_call := False\<rparr>);
              (err, s) = ua_connect e ua uri s
          in if err \<noteq> 0 then call_callback ''onCallFailed'' (Some Msg_dial_error) s else s)"

text \<open>A call pointer is used only while the object is alive.\<close>

definition with_call :: "nat \<Rightarrow> act \<Rightarrow> app \<Rightarrow> app" where
  "with_call c a s = emit (if c \<in> set (calls s) then a else Bad_deref c) s"

definition answer_worker :: "env \<Rightarrow> app \<Rightarrow> app" where
  "answer_worker e s =
     (case g_call s of
        None \<Rightarrow> s
      | Some c \<Rightarrow>
          (case g_ua s of
             None \<Rightarrow> s
           | Some ua \<Rightarrow> deliver e (ua_answer_evs e) (with_call c (Ua_answer ua c) s)))"

definition endcall_worker :: "env \<Rightarrow> app \<Rightarrow> app" where
  "endcall_worker e s =
     (let s = (case g_call s of
                 None \<Rightarrow> s
               | Some c \<Rightarrow> (ua_hangup e (g_ua s) c 0 None s)\<lparr>g_call := None\<rparr>)
      in s\<lparr>g_in_call := False\<rparr>)"

definition timeout_hangup_worker :: "env \<Rightarrow> app \<Rightarrow> app" where
  "timeout_hangup_worker e s =
     (let s = (case g_call s of
                 None \<Rightarrow> s
               | Some c \<Rightarrow> (ua_hangup e (g_ua s) c 0 (Some ''Media timeout'') s)\<lparr>g_call := None\<rparr>)
      in s\<lparr>g_in_call := False\<rparr>)"

definition dtmf_worker :: "env \<Rightarrow> char \<Rightarrow> app \<Rightarrow> app" where
  "dtmf_worker e digit s =
     (case g_call s of None \<Rightarrow> s | Some c \<Rightarrow> with_call c (Call_send_digit c digit) s)"

definition mute_worker :: "env \<Rightarrow> bool \<Rightarrow> app \<Rightarrow> app" where
  "mute_worker e muted s =
     (case g_call s of None \<Rightarrow> s | Some c \<Rightarrow> with_call c (Audio_mute c muted) s)"

fun run_worker :: "env \<Rightarrow> worker \<Rightarrow> app \<Rightarrow> app" where
  "run_worker e Register_worker s = register_worker e s"
| "run_worker e Unregister_worker s = unregister_worker e s"
| "run_worker e (Reregister_worker aor) s = reregister_worker e aor s"
| "run_worker e (Makecall_worker uri) s = makecall_worker e uri s"
| "run_worker e Answer_worker s = answer_worker e s"
| "run_worker e Endcall_worker s = endcall_worker e s"
| "run_worker e Timeout_hangup_worker s = timeout_hangup_worker e s"
| "run_worker e (Dtmf_worker d) s = dtmf_worker e d s"
| "run_worker e (Mute_worker m) s = mute_worker e m s"

text \<open>Posting: the handler runs later, on the \<open>re_main\<close> thread (\<open>remain_cb\<close>).\<close>

definition remain_run :: "env \<Rightarrow> worker \<Rightarrow> app \<Rightarrow> errno \<times> app" where
  "remain_run e w s =
     (if \<not> zalloc_ok e then (ENOMEM, s)
      else if async_main_err e \<noteq> 0 then (async_main_err e, s)
      else (OK, s\<lparr>remain_q := remain_q s @ [w]\<rparr>))"

definition remain_cb :: "env \<Rightarrow> app \<Rightarrow> app" where
  "remain_cb e s =
     (case remain_q s of
        [] \<Rightarrow> s
      | w # ws \<Rightarrow> run_worker e w (s\<lparr>remain_q := ws\<rparr>))"

definition remain_run_or_direct :: "env \<Rightarrow> worker \<Rightarrow> app \<Rightarrow> app" where
  "remain_run_or_direct e w s =
     (let (err, s) = remain_run e w s in if err \<noteq> 0 then run_worker e w s else s)"

section \<open>Media watchdog thread\<close>

definition RX_TIMEOUT_S :: u32 where
  "RX_TIMEOUT_S = 30"

text \<open>One turn of the thread's loop after \<open>sleep(5)\<close>; true: go round again.\<close>

definition watchdog_turn :: "env \<Rightarrow> app \<Rightarrow> bool \<times> app" where
  "watchdog_turn e s =
     (if g_call s = None then (False, s\<lparr>g_watchdog_running := False\<rparr>)
      else
        let silent = now e - rtpwatch_last_rx_s s
        in if silent > RX_TIMEOUT_S
           then
             let (err, s) = remain_run e Timeout_hangup_worker s
             in if err \<noteq> 0 then (True, s) else (False, s\<lparr>g_watchdog_running := False\<rparr>)
           else (True, s))"

text \<open>The thread: one \<open>env\<close> per turn; between two turns the rest of the program may change the
  state (\<open>other\<close>).\<close>

fun watchdog_thread :: "(env \<times> (app \<Rightarrow> app)) list \<Rightarrow> app \<Rightarrow> app" where
  "watchdog_thread [] s = s"
| "watchdog_thread ((e, other) # ts) s =
     (let (again, s) = watchdog_turn e (other s)
      in if again then watchdog_thread ts s else s)"

section \<open>Event loop thread\<close>

text \<open>\<open>re_main_thread\<close> raises the flag the JNI threads poll, runs the loop (one \<open>env\<close> per item of
  posted work) and lowers the flag when the loop returns.\<close>

definition re_main_enter :: "app \<Rightarrow> app" where
  "re_main_enter s = s\<lparr>g_re_running := True\<rparr>"

definition re_main_leave :: "app \<Rightarrow> app" where
  "re_main_leave s = s\<lparr>g_re_running := False\<rparr>"

definition re_main_thread :: "env list \<Rightarrow> app \<Rightarrow> app" where
  "re_main_thread es s = re_main_leave (fold remain_cb es (re_main_enter s))"

section \<open>Initialisation\<close>

record init_env =
  libre_init_err :: errno
  conf_ok :: bool                \<comment> \<open>\<open>conf_config()\<close> is not NULL\<close>
  baresip_init_err :: errno
  g722_init_err :: errno
  opus_conf_err :: errno
  opus_init_err :: errno
  auresamp_init_err :: errno
  auconv_init_err :: errno
  opensles_init_err :: errno
  ua_init_err :: errno
  re_main_create_err :: errno    \<comment> \<open>\<open>pthread_create\<close> of the event loop thread\<close>

record config =
  net_af :: nat
  audio_srate_play :: nat
  audio_srate_src :: nat
  audio_channels_play :: nat
  audio_channels_src :: nat
  avt_rtp_ports_min :: nat
  avt_rtp_ports_max :: nat

definition init_bs_log :: "app \<Rightarrow> app" where
  "init_bs_log s = (if g_bs_log s then s else s\<lparr>g_bs_log := True\<rparr>)"

definition init_libre :: "init_env \<Rightarrow> env \<Rightarrow> app \<Rightarrow> errno \<times> app" where
  "init_libre i e s =
     (if libre_init_err i \<noteq> 0 then (libre_init_err i, s)
      else if re_thread_async_init_err e = 0 then (OK, s\<lparr>g_re_async_ready := True\<rparr>)
      else (OK, s))"

definition baresip_config :: config where
  "baresip_config = \<lparr>net_af = 2, audio_srate_play = 8000, audio_srate_src = 8000,
     audio_channels_play = 1, audio_channels_src = 1,
     avt_rtp_ports_min = 10000, avt_rtp_ports_max = 20000\<rparr>"

text \<open>The error of \<open>init_baresip\<close>: -1 for a missing configuration.\<close>

definition init_baresip :: "init_env \<Rightarrow> int \<times> config option" where
  "init_baresip i =
     (if \<not> conf_ok i then (- 1, None)
      else if baresip_init_err i \<noteq> 0 then (int (baresip_init_err i), Some baresip_config)
      else (0, Some baresip_config))"

definition opus_conf :: "(string \<times> string) list" where
  "opus_conf =
     [(''audio_buffer'', ''20-160''), (''opus_stereo'', ''no''), (''opus_sprop_stereo'', ''no''),
      (''opus_bitrate'', ''20000''), (''opus_cbr'', ''no''), (''opus_inbandfec'', ''yes''),
      (''opus_dtx'', ''no''), (''opus_complexity'', ''5''), (''opus_application'', ''voip''),
      (''opus_packet_loss'', ''5'')]"

text \<open>A module whose \<open>init\<close> succeeds registers its codec or filter.\<close>

definition init_audio :: "init_env \<Rightarrow> app \<Rightarrow> errno \<times> app" where
  "init_audio i s =
     (let s = (if g722_init_err i \<noteq> 0 then s else aucodec_register ''G722'' s);
          s = (if opus_init_err i \<noteq> 0 then s else aucodec_register ''opus'' s);
          s = (if auresamp_init_err i \<noteq> 0 then s else aufilt_register ''auresamp'' s);
          s = (if auconv_init_err i \<noteq> 0 then s else aufilt_register ''auconv'' s);
          s = snd (rtpwatch_module_init s);
          s = aucodec_register ''PCMU'' s;
          s = aucodec_register ''PCMA'' s
      in (OK, s))"

section \<open>JNI entry points\<close>

definition reg_failed_cb :: "cb_msg \<Rightarrow> app \<Rightarrow> app" where
  "reg_failed_cb m s = call_callback ''onRegistrationFailed'' (Some m) s"

definition nativeInit ::
    "init_env \<Rightarrow> env \<Rightarrow> string \<Rightarrow> int \<Rightarrow> string \<Rightarrow> string \<Rightarrow> string \<Rightarrow> app \<Rightarrow> app" where
  "nativeInit i e server port user pass realm s =
     (if g_initialized s then s
      else
        let s = s\<lparr>sip_server_str := strncpy_zeroed 64 server, sip_user_str := strncpy_zeroed 32 user,
                   sip_pass_str := strncpy_zeroed 64 pass, sip_realm_str := strncpy_zeroed 32 realm,
                   sip_port_int := port\<rparr>;
            s = init_bs_log s;
            (err, s) = init_libre i e s
        in if err \<noteq> 0 then reg_failed_cb Msg_libre_init_error s
           else if fst (init_baresip i) \<noteq> 0 then reg_failed_cb Msg_baresip_init_error s
           else
             let s = snd (init_audio i s)
             in if ua_init_err i \<noteq> 0 then reg_failed_cb Msg_sip_stack_init_error s
                else
                  let s = emit Event_register s;
                      s = (if re_main_create_err i \<noteq> 0 then s else emit Start_re_main s)
                  in s\<lparr>g_initialized := True\<rparr>)"

definition nativeDestroy :: "app \<Rightarrow> app" where
  "nativeDestroy s = (if g_callback s then s\<lparr>g_callback := False\<rparr> else s)"

definition nativeRegister :: "(nat \<Rightarrow> bool) \<Rightarrow> env \<Rightarrow> app \<Rightarrow> app" where
  "nativeRegister ready e s =
     (if wait_for_re_main_ready ready 500 \<noteq> 0
      then call_callback ''onRegistrationFailed'' (Some Msg_start_timeout) s
      else
        let (err, s) = remain_run e Register_worker s
        in if err \<noteq> 0
           then call_callback ''onRegistrationFailed'' (Some Msg_register_queue_error) s else s)"

definition nativeUnregister :: "env \<Rightarrow> app \<Rightarrow> app" where
  "nativeUnregister e s = remain_run_or_direct e Unregister_worker s"

text \<open>\<open>dup_ok\<close>: \<open>str_dup\<close> returns memory.\<close>

definition nativeReregister :: "bool \<Rightarrow> (nat \<Rightarrow> bool) \<Rightarrow> env \<Rightarrow> string \<Rightarrow> app \<Rightarrow> app" where
  "nativeReregister dup_ok ready e aor s =
     (if \<not> dup_ok then s
      else if wait_for_re_main_ready ready 500 \<noteq> 0
      then call_callback ''onRegistrationFailed'' (Some Msg_start_timeout) s
      else
        let (err, s) = remain_run e (Reregister_worker aor) s
        in if err \<noteq> 0
           then call_callback ''onRegistrationFailed'' (Some Msg_reregister_queue_error) s else s)"

definition call_uri :: "string \<Rightarrow> app \<Rightarrow> string" where
  "call_uri number s =
     (if take 4 number = ''sip:'' \<or> take 4 number = ''tel:'' then snprintf 256 number
      else snprintf 256 (''sip:'' @ number @ ''@'' @ build_server_authority 96 s))"

definition nativeMakeCall :: "bool \<Rightarrow> env \<Rightarrow> string \<Rightarrow> app \<Rightarrow> app" where
  "nativeMakeCall dup_ok e number s =
     (let uri = call_uri number s
      in if \<not> dup_ok then s else remain_run_or_direct e (Makecall_worker uri) s)"

definition nativeAnswerCall :: "env \<Rightarrow> app \<Rightarrow> app" where
  "nativeAnswerCall e s = remain_run_or_direct e Answer_worker s"

definition nativeEndCall :: "env \<Rightarrow> app \<Rightarrow> app" where
  "nativeEndCall e s = remain_run_or_direct e Endcall_worker s"

text \<open>A \<open>jchar\<close> is 16 bits wide; the worker narrows it to a \<open>char\<close>.\<close>

definition nativeSendDtmf :: "env \<Rightarrow> u16 \<Rightarrow> app \<Rightarrow> app" where
  "nativeSendDtmf e digit s =
     remain_run_or_direct e (Dtmf_worker (char_of (unat digit))) s"

definition nativeSetMute :: "env \<Rightarrow> bool \<Rightarrow> app \<Rightarrow> app" where
  "nativeSetMute e mute s = remain_run_or_direct e (Mute_worker mute) s"

definition nativeIsRegistered :: "app \<Rightarrow> bool" where
  "nativeIsRegistered s = g_registered s"

definition nativeIsInCall :: "app \<Rightarrow> bool" where
  "nativeIsInCall s = g_in_call s"

definition nativeSetVolume :: "u32 \<Rightarrow> app \<Rightarrow> app" where
  "nativeSetVolume gain s = emit (Set_gain gain) s"

definition nativeSetCallback :: "app \<Rightarrow> app" where
  "nativeSetCallback s = s\<lparr>g_callback := True\<rparr>"

end
