(* ===== verification/Native_Sip_Spec.thy ===== *)
theory Native_Sip_Spec
  imports Native_Sip
begin

text \<open>
  What the JNI bridge guarantees, and where it does not: the agreement of the call state with
  the calls baresip has alive over all runs of the application, the sizes of its buffers, the
  order of the codecs, the bounded wait for the event loop and the media watchdog, and the three
  situations in which the single-call bookkeeping goes wrong.
\<close>

section \<open>What each operation does to the call state\<close>

lemma emit_sel [simp]:
  "g_call (emit a s) = g_call s" "g_in_call (emit a s) = g_in_call s" "g_ua (emit a s) = g_ua s"
  "calls (emit a s) = calls s" "effects (emit a s) = effects s @ [a]"
  "last_rx_s (emit a s) = last_rx_s s" "remain_q (emit a s) = remain_q s"
  "g_watchdog_running (emit a s) = g_watchdog_running s"
  "aucodecl (emit a s) = aucodecl s" "g_registered (emit a s) = g_registered s"
  "g_callback (emit a s) = g_callback s" "jni_env (emit a s) = jni_env s"
  "jni_methods (emit a s) = jni_methods s"
  by (simp_all add: emit_def)

definition callback_effect :: "string \<Rightarrow> cb_msg option \<Rightarrow> app \<Rightarrow> act list" where
  "callback_effect meth msg s =
     (if g_callback s \<and> jni_env s \<and> meth \<in> set (jni_methods s) then [Callback meth msg] else [])"

lemma call_callback_sel [simp]:
  "g_call (call_callback m x s) = g_call s" "g_in_call (call_callback m x s) = g_in_call s"
  "g_ua (call_callback m x s) = g_ua s" "calls (call_callback m x s) = calls s"
  "last_rx_s (call_callback m x s) = last_rx_s s" "remain_q (call_callback m x s) = remain_q s"
  "g_watchdog_running (call_callback m x s) = g_watchdog_running s"
  "aucodecl (call_callback m x s) = aucodecl s"
  "g_registered (call_callback m x s) = g_registered s"
  "effects (call_callback m x s) = effects s @ callback_effect m x s"
  by (auto simp: call_callback_def callback_effect_def)

lemma ensure_re_async_sel [simp]:
  "g_call (ensure_re_async e s) = g_call s" "g_in_call (ensure_re_async e s) = g_in_call s"
  "g_ua (ensure_re_async e s) = g_ua s" "calls (ensure_re_async e s) = calls s"
  "effects (ensure_re_async e s) = effects s" "last_rx_s (ensure_re_async e s) = last_rx_s s"
  "remain_q (ensure_re_async e s) = remain_q s"
  "g_registered (ensure_re_async e s) = g_registered s"
  "g_callback (ensure_re_async e s) = g_callback s" "jni_env (ensure_re_async e s) = jni_env s"
  "jni_methods (ensure_re_async e s) = jni_methods s"
  "g_watchdog_running (ensure_re_async e s) = g_watchdog_running s"
  by (simp_all add: ensure_re_async_def)

lemma rtpwatch_mark_rx_sel [simp]:
  "g_call (rtpwatch_mark_rx e s) = g_call s" "g_in_call (rtpwatch_mark_rx e s) = g_in_call s"
  "g_ua (rtpwatch_mark_rx e s) = g_ua s" "calls (rtpwatch_mark_rx e s) = calls s"
  "effects (rtpwatch_mark_rx e s) = effects s" "remain_q (rtpwatch_mark_rx e s) = remain_q s"
  "last_rx_s (rtpwatch_mark_rx e s) = now e"
  by (simp_all add: rtpwatch_mark_rx_def)

lemma watchdog_start_sel [simp]:
  "g_call (watchdog_start e s) = g_call s" "g_in_call (watchdog_start e s) = g_in_call s"
  "g_ua (watchdog_start e s) = g_ua s" "calls (watchdog_start e s) = calls s"
  "remain_q (watchdog_start e s) = remain_q s"
  "Bad_deref c \<in> set (effects (watchdog_start e s)) \<longleftrightarrow> Bad_deref c \<in> set (effects s)"
  by (auto simp: watchdog_start_def Let_def)

lemma callback_effect_not_bad [simp]: "Bad_deref c \<notin> set (callback_effect m x s)"
  by (simp add: callback_effect_def)

lemma handler_closed_g_call [simp]:
  "g_call (baresip_event_handler e UA_EVENT_CALL_CLOSED call prm s) = None"
  by (auto simp: baresip_event_handler.simps Let_def)

lemma handler_closed_sel [simp]:
  "g_ua (baresip_event_handler e UA_EVENT_CALL_CLOSED call prm s) = g_ua s"
  "calls (baresip_event_handler e UA_EVENT_CALL_CLOSED call prm s) = calls s"
  "Bad_deref c \<in> set (effects (baresip_event_handler e UA_EVENT_CALL_CLOSED call prm s))
     \<longleftrightarrow> Bad_deref c \<in> set (effects s)"
  by (auto simp: baresip_event_handler.simps Let_def)

lemma handler_closed_in_call:
  "g_in_call s = (g_call s \<noteq> None) \<Longrightarrow>
   \<not> g_in_call (baresip_event_handler e UA_EVENT_CALL_CLOSED call prm s)"
  by (auto simp: baresip_event_handler.simps Let_def)

section \<open>The call state invariant\<close>

definition safe :: "app \<Rightarrow> bool" where
  "safe s \<longleftrightarrow> g_in_call s = (g_call s \<noteq> None) \<and>
     (\<forall>c. g_call s = Some c \<longrightarrow> c \<in> set (calls s)) \<and> (\<forall>c. Bad_deref c \<notin> set (effects s))"

definition event_ok :: "app \<Rightarrow> event_rec \<Rightarrow> bool" where
  "event_ok s r \<longleftrightarrow>
     (case r of (ev, call, prm) \<Rightarrow>
        ev \<in> {UA_EVENT_CALL_INCOMING, UA_EVENT_CALL_OUTGOING, UA_EVENT_CALL_ESTABLISHED} \<longrightarrow>
          (\<exists>c. call = Some c \<and> c \<in> set (calls s)))"

lemma hangup_safe:
  assumes "safe s" "c \<in> set (calls s)"
  shows "safe (ua_hangup e ua c sc r s)"
  using assms handler_closed_in_call [of "emit (Call_hangup c sc r) s"]
  by (auto simp: safe_def ua_hangup.simps Let_def split: option.splits)

lemma hangup_g_call:
  "c \<in> set (calls s) \<Longrightarrow> ua \<noteq> None \<Longrightarrow> g_call (ua_hangup e ua c sc r s) = None"
  by (auto simp: ua_hangup.simps Let_def)

lemma safe_async [simp]: "safe (ensure_re_async e s) = safe s"
  by (simp add: safe_def)

lemma handler_safe:
  assumes "safe s" "event_ok s (ev, call, prm)"
  shows "safe (baresip_event_handler e ev call prm s)"
proof (cases "ev = UA_EVENT_CALL_INCOMING")
  case True
  then obtain c where "call = Some c" "c \<in> set (calls s)" using assms(2) by (auto simp: event_ok_def)
  then show ?thesis using True assms(1) hangup_safe [of "ensure_re_async e s" c]
    by (subst baresip_event_handler.simps) (auto simp: Let_def safe_def)
next
  case False
  then show ?thesis using assms
    by (subst baresip_event_handler.simps) (cases ev; force simp: Let_def safe_def event_ok_def)
qed

lemma handler_calls:
  "ev \<noteq> UA_EVENT_CALL_INCOMING \<Longrightarrow> calls (baresip_event_handler e ev call prm s) = calls s"
  by (subst baresip_event_handler.simps) (cases ev; simp add: Let_def)

lemma handler_g_ua:
  "ev \<noteq> UA_EVENT_CALL_INCOMING \<Longrightarrow> g_ua (baresip_event_handler e ev call prm s) = g_ua s"
  by (subst baresip_event_handler.simps) (cases ev; simp add: Let_def)

lemma deliver_Nil [simp]: "deliver e [] s = s"
  by (simp add: deliver_def)

lemma deliver_Cons [simp]:
  "deliver e ((ev, call, prm) # evs) s = deliver e evs (baresip_event_handler e ev call prm s)"
  by (simp add: deliver_def)

lemma event_ok_cong: "calls s = calls t \<Longrightarrow> event_ok s r = event_ok t r"
  by (simp add: event_ok_def split: prod.splits)

lemma deliver_safe:
  "safe s \<Longrightarrow> \<forall>r\<in>set evs. event_ok s r \<and> fst r \<noteq> UA_EVENT_CALL_INCOMING \<Longrightarrow>
   safe (deliver e evs s) \<and> calls (deliver e evs s) = calls s \<and> g_ua (deliver e evs s) = g_ua s"
proof (induction evs arbitrary: s)
  case Nil
  then show ?case by simp
next
  case (Cons r evs)
  obtain ev call prm where r: "r = (ev, call, prm)" by (cases r)
  let ?t = "baresip_event_handler e ev call prm s"
  have t: "safe ?t" "calls ?t = calls s" "g_ua ?t = g_ua s"
    using Cons.prems handler_safe [of s ev call prm e] handler_calls [of ev e call prm s]
      handler_g_ua [of ev e call prm s] by (auto simp: r)
  have "\<forall>r\<in>set evs. event_ok ?t r \<and> fst r \<noteq> UA_EVENT_CALL_INCOMING"
    using Cons.prems(2) event_ok_cong [OF t(2)] by auto
  from Cons.IH [OF t(1) this] t show ?case by (simp add: r)
qed

text \<open>Events without a call, as registration sends them.\<close>

definition quiet :: "event_rec list \<Rightarrow> bool" where
  "quiet evs \<longleftrightarrow> (\<forall>r\<in>set evs. fst r \<notin> {UA_EVENT_CALL_INCOMING, UA_EVENT_CALL_OUTGOING,
     UA_EVENT_CALL_ESTABLISHED})"

lemma quietD: "quiet evs \<Longrightarrow> \<forall>r\<in>set evs. event_ok s r \<and> fst r \<noteq> UA_EVENT_CALL_INCOMING"
  by (auto simp: quiet_def event_ok_def split: prod.splits)

text \<open>
  What baresip promises about the events of the calls made into it: registration is quiet; a
  connect reports its new call only; an answer reports the answered call only.
\<close>

definition env_ok :: "env \<Rightarrow> app \<Rightarrow> bool" where
  "env_ok e s \<longleftrightarrow>
     quiet (snd (snd (ua_alloc_out e))) \<and> quiet (snd (ua_register_out e)) \<and>
     quiet (ua_unregister_evs e) \<and> quiet (ua_destroy_evs e) \<and>
     (case ua_connect_out e of (err, c, evs) \<Rightarrow>
        c \<notin> set (calls s) \<and> (\<forall>r\<in>set evs. fst r \<noteq> UA_EVENT_CALL_INCOMING \<and> fst (snd r) = Some c))"

definition answer_ok :: "env \<Rightarrow> app \<Rightarrow> bool" where
  "answer_ok e s \<longleftrightarrow>
     (\<forall>r\<in>set (ua_answer_evs e). fst r \<noteq> UA_EVENT_CALL_INCOMING \<and> fst (snd r) = g_call s)"

text \<open>A failing connect fails before it announces the call.\<close>

definition clean_connect :: "env \<Rightarrow> bool" where
  "clean_connect e \<longleftrightarrow> (case ua_connect_out e of (err, c, evs) \<Rightarrow> err \<noteq> 0 \<longrightarrow> evs = [])"

lemma safe_callback [simp]: "safe (call_callback m x s) = safe s"
  by (auto simp: safe_def)

lemma safe_emit [simp]: "(\<forall>c. a \<noteq> Bad_deref c) \<Longrightarrow> safe (emit a s) = safe s"
  by (auto simp: safe_def)

lemma safe_upd [simp]:
  "safe (s\<lparr>g_ua := u\<rparr>) = safe s" "safe (s\<lparr>remain_q := q\<rparr>) = safe s"
  "safe (s\<lparr>g_watchdog_running := b\<rparr>) = safe s" "safe (s\<lparr>last_rx_s := t\<rparr>) = safe s"
  "safe (s\<lparr>g_callback := b\<rparr>) = safe s" "safe (s\<lparr>g_re_running := b\<rparr>) = safe s"
  "safe (s\<lparr>g_bs_log := b\<rparr>) = safe s" "safe (s\<lparr>g_re_async_ready := b\<rparr>) = safe s"
  "safe (s\<lparr>g_initialized := b\<rparr>) = safe s" "safe (s\<lparr>sip_server_str := x\<rparr>) = safe s"
  "safe (s\<lparr>sip_user_str := x\<rparr>) = safe s" "safe (s\<lparr>sip_pass_str := x\<rparr>) = safe s"
  "safe (s\<lparr>sip_realm_str := x\<rparr>) = safe s" "safe (s\<lparr>sip_port_int := p\<rparr>) = safe s"
  "safe (s\<lparr>aucodecl := l\<rparr>) = safe s" "safe (s\<lparr>aufiltl := l\<rparr>) = safe s"
  by (auto simp: safe_def)

lemma safe_reset: "\<forall>c. Bad_deref c \<notin> set (effects s) \<Longrightarrow> safe (s\<lparr>g_call := None, g_in_call := False\<rparr>)"
  by (simp add: safe_def)

lemma ua_create_and_register_safe:
  assumes "safe s" "env_ok e s"
  shows "safe (snd (ua_create_and_register e aor s))"
proof -
  obtain err ua evs where a: "ua_alloc_out e = (err, ua, evs)" by (metis prod_cases3)
  obtain err2 evs2 where r: "ua_register_out e = (err2, evs2)" by (metis prod.exhaust)
  have q: "quiet evs" "quiet evs2" using assms(2) by (auto simp: env_ok_def a r)
  have "safe (deliver e evs (emit (Ua_alloc aor) s))"
    using deliver_safe [OF _ quietD [OF q(1)]] assms(1) by simp
  then show ?thesis
    using deliver_safe [OF _ quietD [OF q(2)]]
    by (simp add: ua_create_and_register_def a r Let_def)
qed

lemma ua_connect_safe:
  assumes "safe s" "g_call s = None" "env_ok e s" "clean_connect e"
  shows "safe (snd (ua_connect e ua uri s))"
proof -
  obtain err c evs where o: "ua_connect_out e = (err, c, evs)" by (metis prod_cases3)
  let ?s = "(emit (Ua_connect ua uri) s)\<lparr>calls := calls s @ [c]\<rparr>"
  have s: "safe ?s" using assms(1) by (auto simp: safe_def)
  have "\<forall>r\<in>set evs. event_ok ?s r \<and> fst r \<noteq> UA_EVENT_CALL_INCOMING"
    using assms(3) by (fastforce simp: env_ok_def o event_ok_def split: prod.splits)
  from deliver_safe [OF s this] have d: "safe (deliver e evs ?s)" by simp
  show ?thesis
  proof (cases "err = 0")
    case True
    then show ?thesis using d by (simp add: ua_connect_def o)
  next
    case False
    then have "evs = []" using assms(4) by (simp add: clean_connect_def o)
    then show ?thesis using False s assms(2) by (simp add: ua_connect_def o safe_def)
  qed
qed

lemma env_ok_mono:
  "env_ok e s \<Longrightarrow> set (calls t) \<subseteq> set (calls s) \<Longrightarrow> env_ok e t"
  by (auto simp: env_ok_def split: prod.splits)

lemma hangup_calls: "set (calls (ua_hangup e ua c sc r s)) \<subseteq> set (calls s)"
  by (auto simp: ua_hangup.simps Let_def dest: set_remove1_subset [THEN subsetD] split: option.splits)

lemma hangup_clear_safe:
  assumes "safe s" "g_call s = Some c"
  shows "safe ((ua_hangup e ua c sc r s)\<lparr>g_call := None, g_in_call := False\<rparr>)"
  using hangup_safe [OF assms(1), of c e ua sc r] assms
  by (intro safe_reset) (auto simp: safe_def)

lemma register_worker_safe: "safe s \<Longrightarrow> env_ok e s \<Longrightarrow> safe (register_worker e s)"
  using ua_create_and_register_safe [of s e "build_account_aor 256 s"]
  by (auto simp: register_worker_def Let_def split: prod.splits)

lemma unregister_worker_safe: "safe s \<Longrightarrow> env_ok e s \<Longrightarrow> safe (unregister_worker e s)"
  using deliver_safe [OF _ quietD]
  by (auto simp: unregister_worker_def env_ok_def split: option.splits)

lemma reregister_worker_safe:
  assumes "safe s" "env_ok e s"
  shows "safe (reregister_worker e aor s)"
proof -
  have q: "quiet (ua_unregister_evs e)" "quiet (ua_destroy_evs e)"
    using assms(2) by (auto simp: env_ok_def)
  let ?u = "case g_ua s of None \<Rightarrow> s
             | Some ua \<Rightarrow> (ua_destroy e ua (deliver e (ua_unregister_evs e) (emit (Ua_unregister ua) s)))\<lparr>g_ua := None\<rparr>"
  let ?t = "?u\<lparr>g_call := None, g_in_call := False\<rparr>"
  have "\<forall>c. Bad_deref c \<notin> set (effects ?u)" and c: "set (calls ?u) \<subseteq> set (calls s)"
  proof -
    have 1: "safe (deliver e (ua_unregister_evs e) (emit (Ua_unregister ua) s))" for ua
      using deliver_safe [OF _ quietD [OF q(1)]] assms(1) by simp
    have 2: "safe (deliver e (ua_destroy_evs e) (emit (Ua_destroy ua) (deliver e (ua_unregister_evs e) (emit (Ua_unregister ua) s))))" for ua
      using deliver_safe [OF _ quietD [OF q(2)]] 1 by simp
    show "\<forall>c. Bad_deref c \<notin> set (effects ?u)" "set (calls ?u) \<subseteq> set (calls s)"
      using 2 assms(1) by (auto simp: ua_destroy_def safe_def split: option.splits)
  qed
  then have t: "safe ?t" by (intro safe_reset)
  have "env_ok e ?t" using env_ok_mono [OF assms(2), of ?t] c by simp
  from ua_create_and_register_safe [OF t this, of aor] show ?thesis
    by (auto simp: reregister_worker_def Let_def split: prod.splits option.splits)
qed

lemma makecall_worker_safe:
  assumes "safe s" "env_ok e s" "clean_connect e"
  shows "safe (makecall_worker e uri s)"
proof (cases "g_ua s")
  case None
  then show ?thesis using assms(1) by (simp add: makecall_worker_def)
next
  case (Some ua)
  let ?t = "case g_call s of None \<Rightarrow> s
             | Some c \<Rightarrow> (ua_hangup e (g_ua s) c 0 None s)\<lparr>g_call := None, g_in_call := False\<rparr>"
  have t: "safe ?t" "g_call ?t = None" "set (calls ?t) \<subseteq> set (calls s)"
    using hangup_clear_safe [OF assms(1)] hangup_calls assms(1)
    by (auto split: option.splits)
  then have "env_ok e ?t" using env_ok_mono [OF assms(2)] by blast
  from ua_connect_safe [OF t(1,2) this assms(3), of ua uri] Some show ?thesis
    by (auto simp: makecall_worker_def Let_def split: prod.splits)
qed

lemma endcall_worker_safe: "safe s \<Longrightarrow> safe (endcall_worker e s)"
  using hangup_clear_safe by (fastforce simp: endcall_worker_def Let_def safe_def split: option.splits)

lemma timeout_hangup_worker_safe: "safe s \<Longrightarrow> safe (timeout_hangup_worker e s)"
  using hangup_clear_safe
  by (fastforce simp: timeout_hangup_worker_def Let_def safe_def split: option.splits)

lemma with_call_safe: "safe s \<Longrightarrow> g_call s = Some c \<Longrightarrow> (\<forall>d. a \<noteq> Bad_deref d) \<Longrightarrow> safe (with_call c a s)"
  by (auto simp: with_call_def safe_def)

lemma with_call_sel [simp]:
  "g_call (with_call c a s) = g_call s" "calls (with_call c a s) = calls s"
  by (simp_all add: with_call_def)

lemma answer_worker_safe:
  assumes "safe s" "answer_ok e s"
  shows "safe (answer_worker e s)"
proof (cases "g_call s")
  case None
  then show ?thesis using assms(1) by (simp add: answer_worker_def)
next
  case (Some c)
  have c: "c \<in> set (calls s)" using assms(1) Some by (simp add: safe_def)
  have w: "safe (with_call c (Ua_answer ua c) s)" for ua
    using with_call_safe [OF assms(1) Some] by simp
  have "\<forall>r\<in>set (ua_answer_evs e). event_ok (with_call c (Ua_answer ua c) s) r \<and> fst r \<noteq> UA_EVENT_CALL_INCOMING" for ua
    using assms(2) Some c by (fastforce simp: answer_ok_def event_ok_def split: prod.splits)
  from deliver_safe [OF w this] show ?thesis
    using assms(1) Some by (auto simp: answer_worker_def split: option.splits)
qed

lemma run_worker_safe:
  assumes "safe s" "env_ok e s" "clean_connect e" "answer_ok e s"
  shows "safe (run_worker e w s)"
  using assms
  by (cases w) (auto simp: register_worker_safe unregister_worker_safe reregister_worker_safe
      makecall_worker_safe answer_worker_safe endcall_worker_safe timeout_hangup_worker_safe
      dtmf_worker_def mute_worker_def with_call_safe split: option.splits)

section \<open>Runs of the application\<close>

text \<open>
  One step: an event from the network for a call or for the registration, a JNI call, the event
  loop running one posted item, a received frame, or a turn of the watchdog thread.  A call that
  is closed leaves the list of calls after its event (\<open>ua.c\<close>, \<open>call_event_handler\<close>); one that is
  rejected before it was announced (no common codec, say) only ever sends the closing event.
\<close>

inductive app_step :: "(env \<Rightarrow> bool) \<Rightarrow> app \<Rightarrow> app \<Rightarrow> bool" for ok :: "env \<Rightarrow> bool" where
  incoming: "c \<notin> set (calls s) \<Longrightarrow>
     app_step ok s (baresip_event_handler e UA_EVENT_CALL_INCOMING (Some c) prm
                      (s\<lparr>calls := calls s @ [c]\<rparr>))"
| call_event: "c \<in> set (calls s) \<Longrightarrow> ev \<notin> {UA_EVENT_CALL_INCOMING, UA_EVENT_CALL_CLOSED} \<Longrightarrow>
     app_step ok s (baresip_event_handler e ev (Some c) prm s)"
| closed: "c \<in> set (calls s) \<Longrightarrow>
     app_step ok s ((baresip_event_handler e UA_EVENT_CALL_CLOSED (Some c) prm s)
                      \<lparr>calls := remove1 c (calls s)\<rparr>)"
| rejected: "c \<notin> set (calls s) \<Longrightarrow>
     app_step ok s (baresip_event_handler e UA_EVENT_CALL_CLOSED (Some c) prm s)"
| registration: "quiet [(ev, None, prm)] \<Longrightarrow>
     app_step ok s (baresip_event_handler e ev None prm s)"
| make_call: "ok e \<Longrightarrow> env_ok e s \<Longrightarrow> app_step ok s (nativeMakeCall dup e number s)"
| end_call: "app_step ok s (nativeEndCall e s)"
| answer_call: "ok e \<Longrightarrow> answer_ok e s \<Longrightarrow> app_step ok s (nativeAnswerCall e s)"
| send_dtmf: "app_step ok s (nativeSendDtmf e d s)"
| set_mute: "app_step ok s (nativeSetMute e m s)"
| register: "app_step ok s (nativeRegister ready e s)"
| unregister: "ok e \<Longrightarrow> env_ok e s \<Longrightarrow> app_step ok s (nativeUnregister e s)"
| reregister: "app_step ok s (nativeReregister dup ready e aor s)"
| init: "app_step ok s (nativeInit i e server port user pass realm s)"
| set_callback: "app_step ok s (nativeSetCallback s)"
| destroy: "app_step ok s (nativeDestroy s)"
| loop_start: "app_step ok s (re_main_enter s)"
| work: "ok e \<Longrightarrow> env_ok e s \<Longrightarrow> answer_ok e s \<Longrightarrow> app_step ok s (remain_cb e s)"
| frame: "app_step ok s (snd (snd (decode_frame e af s)))"
| watchdog: "app_step ok s (snd (watchdog_turn e s))"

inductive app_reachable :: "(env \<Rightarrow> bool) \<Rightarrow> app \<Rightarrow> bool" for ok :: "env \<Rightarrow> bool" where
  start: "app_reachable ok init_app"
| step: "app_reachable ok s \<Longrightarrow> app_step ok s t \<Longrightarrow> app_reachable ok t"

lemma safe_init: "safe init_app"
  by (simp add: safe_def init_app_def)

lemma remain_run_safe: "safe s \<Longrightarrow> safe (snd (remain_run e w s))"
  by (simp add: remain_run_def)

lemma remain_run_or_direct_safe:
  "safe s \<Longrightarrow> safe (run_worker e w s) \<Longrightarrow> safe (remain_run_or_direct e w s)"
  by (auto simp: remain_run_or_direct_def remain_run_def Let_def)

lemma closed_safe:
  assumes "safe s"
  shows "safe (baresip_event_handler e UA_EVENT_CALL_CLOSED call prm s)"
    and "safe ((baresip_event_handler e UA_EVENT_CALL_CLOSED call prm s)\<lparr>calls := cs\<rparr>)"
  using assms handler_closed_in_call [of s e call prm] by (auto simp: safe_def)

lemma safe_init_parts [simp]:
  "safe (init_bs_log s) = safe s" "safe (aucodec_register c s) = safe s"
  "safe (aufilt_register f s) = safe s" "safe (snd (init_libre i e s)) = safe s"
  "safe (snd (rtpwatch_module_init s)) = safe s" "safe (reg_failed_cb m s) = safe s"
  by (simp_all add: init_bs_log_def aucodec_register_def aufilt_register_def init_libre_def
      rtpwatch_module_init_def reg_failed_cb_def)

lemma safe_init_audio [simp]: "safe (snd (init_audio i s)) = safe s"
  by (simp add: init_audio_def Let_def)

lemma nativeInit_safe:
  assumes "safe s"
  shows "safe (nativeInit i e server port user pass realm s)"
proof -
  let ?t = "init_bs_log (s\<lparr>sip_server_str := strncpy_zeroed 64 server,
      sip_user_str := strncpy_zeroed 32 user, sip_pass_str := strncpy_zeroed 64 pass,
      sip_realm_str := strncpy_zeroed 32 realm, sip_port_int := port\<rparr>)"
  have "safe (snd (init_libre i e ?t))" using assms by simp
  then show ?thesis
    using assms by (cases "init_libre i e ?t") (simp add: nativeInit_def Let_def)
qed

lemma app_step_safe:
  assumes "app_step ok s t" "safe s" "\<And>e. ok e \<Longrightarrow> clean_connect e"
  shows "safe t"
  using assms(1)
proof cases
  case (incoming c e prm)
  have "safe (s\<lparr>calls := calls s @ [c]\<rparr>)" using assms(2) by (auto simp: safe_def)
  then show ?thesis unfolding incoming(1) by (rule handler_safe) (simp add: event_ok_def)
next
  case (call_event c ev e prm)
  show ?thesis unfolding call_event(1)
    using assms(2) by (rule handler_safe) (use call_event(2) in \<open>simp add: event_ok_def\<close>)
next
  case (registration ev prm e)
  show ?thesis unfolding registration(1)
    using assms(2) by (rule handler_safe) (use registration(2) in \<open>auto simp: quiet_def event_ok_def\<close>)
next
  case (make_call e dup number)
  then show ?thesis
    using assms(2,3) by (auto simp: nativeMakeCall_def intro!: remain_run_or_direct_safe makecall_worker_safe)
next
  case (end_call e)
  then show ?thesis using assms(2)
    by (auto simp: nativeEndCall_def intro!: remain_run_or_direct_safe endcall_worker_safe)
next
  case (answer_call e)
  then show ?thesis using assms(2)
    by (auto simp: nativeAnswerCall_def intro!: remain_run_or_direct_safe answer_worker_safe)
next
  case (send_dtmf e d)
  then show ?thesis using assms(2)
    by (auto simp: nativeSendDtmf_def dtmf_worker_def with_call_safe
        intro!: remain_run_or_direct_safe split: option.splits)
next
  case (set_mute e m)
  then show ?thesis using assms(2)
    by (auto simp: nativeSetMute_def mute_worker_def with_call_safe
        intro!: remain_run_or_direct_safe split: option.splits)
next
  case (register ready e)
  then show ?thesis using assms(2) remain_run_safe [of s e Register_worker]
    by (auto simp: nativeRegister_def Let_def split: prod.splits)
next
  case (unregister e)
  then show ?thesis using assms(2)
    by (auto simp: nativeUnregister_def intro!: remain_run_or_direct_safe unregister_worker_safe)
next
  case (reregister dup ready e aor)
  then show ?thesis using assms(2) remain_run_safe [of s e "Reregister_worker aor"]
    by (auto simp: nativeReregister_def Let_def split: prod.splits)
next
  case (work e)
  then show ?thesis using assms(2,3) run_worker_safe
    by (fastforce simp: remain_cb_def env_ok_def answer_ok_def split: list.splits)
next
  case (watchdog e)
  then show ?thesis using assms(2) remain_run_safe [of s e Timeout_hangup_worker]
    by (auto simp: watchdog_turn_def Let_def split: prod.splits)
next
  case (closed c e prm)
  then show ?thesis using closed_safe(2) [OF assms(2)] by simp
next
  case (rejected c e prm)
  then show ?thesis using closed_safe(1) [OF assms(2)] by simp
qed (use assms(2) in \<open>auto simp: nativeInit_safe nativeSetCallback_def nativeDestroy_def
       re_main_enter_def decode_frame_def rtpwatch_mark_rx_def\<close>)

lemma app_reachable_safe:
  "app_reachable ok s \<Longrightarrow> (\<And>e. ok e \<Longrightarrow> clean_connect e) \<Longrightarrow> safe s"
  by (induction rule: app_reachable.induct) (auto intro: safe_init app_step_safe)

section \<open>Properties\<close>

text \<open>C1: In every run in which a failing dial fails before the call is announced, the flag
  \<open>g_in_call\<close> agrees with \<open>g_call\<close>, \<open>g_call\<close> points to a call object that is alive, and no freed
  call is ever dereferenced.\<close>

theorem no_dangling_call:
  assumes "app_reachable ok s" and "\<forall>e. ok e \<longrightarrow> clean_connect e"
  shows "nativeIsInCall s = (g_call s \<noteq> None) \<and>
         (\<forall>c. g_call s = Some c \<longrightarrow> c \<in> set (calls s)) \<and>
         (\<forall>c. Bad_deref c \<notin> set (effects s))"
  using app_reachable_safe [OF assms(1)] assms(2) by (auto simp: safe_def nativeIsInCall_def)

definition env0 :: env where
  "env0 = \<lparr>now = 100, re_thread_check_err = 0, re_thread_async_init_err = 0,
     watchdog_create_err = 0, zalloc_ok = True, async_main_err = 0,
     ua_alloc_out = (0, 1, []), ua_register_out = (0, []), ua_unregister_evs = [],
     ua_destroy_evs = [], ua_connect_out = (0, 9, [(UA_EVENT_CALL_OUTGOING, Some 9, None)]),
     ua_answer_evs = []\<rparr>"

lemma no_dangling_call_witness:
  "nativeIsInCall (baresip_event_handler env0 UA_EVENT_CALL_INCOMING (Some 7) (Some ''sip:203@x'')
     (init_app\<lparr>calls := [7]\<rparr>))"
proof -
  let ?t = "baresip_event_handler env0 UA_EVENT_CALL_INCOMING (Some 7) (Some ''sip:203@x'')
     (init_app\<lparr>calls := calls init_app @ [7]\<rparr>)"
  have "app_step clean_connect init_app ?t"
    by (rule app_step.incoming) (simp add: init_app_def)
  then have "app_reachable clean_connect ?t"
    by (rule app_reachable.step [OF app_reachable.start])
  from no_dangling_call [OF this] have "nativeIsInCall ?t = (g_call ?t \<noteq> None)" by simp
  moreover have "g_call ?t = Some 7"
    by (subst baresip_event_handler.simps) (simp add: Let_def init_app_def)
  ultimately show ?thesis by (simp add: init_app_def)
qed

text \<open>C39: A second incoming call while a call is active is rejected, but the closing event of the
  rejected call, delivered inside \<open>ua_hangup\<close>, clears the state of the active call: the user is
  told that the call ended, \<open>g_call\<close> is lost although the call is alive, and the end-call key does
  nothing any more.\<close>

theorem busy_reject_loses_active_call:
  assumes "g_call s = Some c" and "g_ua s = Some u" and "c \<in> set (calls s)"
    and "d \<in> set (calls s)" and "d \<noteq> c"
    and "t = baresip_event_handler e UA_EVENT_CALL_INCOMING (Some d) prm s"
  shows "g_call t = None \<and> \<not> g_in_call t \<and> c \<in> set (calls t) \<and>
         effects t = effects s @ [Call_hangup d 486 (Some ''Busy'')] @
                     callback_effect ''onCallEnded'' None s \<and>
         effects (endcall_worker e' t) = effects t"
proof -
  let ?s = "ensure_re_async e s"
  have t: "t = ua_hangup e (g_ua s) d 486 (Some ''Busy'') ?s"
    using assms by (subst assms(6), subst baresip_event_handler.simps) (simp add: Let_def)
  have g: "g_call t = None" using assms(1-5) by (simp add: t hangup_g_call)
  have "callback_effect ''onCallEnded'' None (s'\<lparr>g_call := x, g_in_call := y\<rparr>) =
        callback_effect ''onCallEnded'' None s'" for s' x y by (simp add: callback_effect_def)
  moreover have "callback_effect ''onCallEnded'' None (ensure_re_async e s') =
        callback_effect ''onCallEnded'' None s'" for s' by (simp add: callback_effect_def)
  moreover have "callback_effect ''onCallEnded'' None (emit a s') =
        callback_effect ''onCallEnded'' None s'" for s' a by (simp add: callback_effect_def)
  ultimately have "effects t = effects s @ [Call_hangup d 486 (Some ''Busy'')] @
                     callback_effect ''onCallEnded'' None s \<and> \<not> g_in_call t"
    using assms(1-5) by (simp add: t ua_hangup.simps baresip_event_handler.simps Let_def)
  moreover have "c \<in> set (calls t)"
    using assms(1-5) by (simp add: t ua_hangup.simps Let_def)
  ultimately show ?thesis using g by (simp add: endcall_worker_def)
qed

lemma busy_reject_loses_active_call_witness:
  "g_call (baresip_event_handler env0 UA_EVENT_CALL_INCOMING (Some 8) None
     (init_app\<lparr>g_call := Some 7, g_in_call := True, g_ua := Some 1, calls := [7, 8]\<rparr>)) = None"
  using busy_reject_loses_active_call
    [of "init_app\<lparr>g_call := Some 7, g_in_call := True, g_ua := Some 1, calls := [7, 8]\<rparr>" 7 1 8
        "baresip_event_handler env0 UA_EVENT_CALL_INCOMING (Some 8) None
     (init_app\<lparr>g_call := Some 7, g_in_call := True, g_ua := Some 1, calls := [7, 8]\<rparr>)" env0 None env0]
  by simp

lemma handler_keeps_bad:
  "Bad_deref c \<in> set (effects s) \<Longrightarrow> Bad_deref c \<in> set (effects (baresip_event_handler e ev call prm s))"
  by (cases ev) (auto simp: baresip_event_handler.simps ua_hangup.simps Let_def split: option.splits)

lemma deliver_keeps_bad: "Bad_deref c \<in> set (effects s) \<Longrightarrow> Bad_deref c \<in> set (effects (deliver e evs s))"
  unfolding deliver_def by (induction evs arbitrary: s) (auto intro: handler_keeps_bad)

text \<open>C40: A dial that fails after baresip announced the call (\<open>UA_EVENT_CALL_OUTGOING\<close> comes before
  the INVITE is sent) leaves \<open>g_call\<close> pointing to the freed call: the next hang-up uses the freed
  object, and so does the next answer.\<close>

theorem failed_dial_leaves_freed_call:
  assumes "g_ua s = Some ua" and "g_call s = None" and "c \<notin> set (calls s)"
    and "ua_connect_out e = (err, c, [(UA_EVENT_CALL_OUTGOING, Some c, prm)])" and "err \<noteq> 0"
    and "t = makecall_worker e uri s"
  shows "g_call t = Some c \<and> c \<notin> set (calls t) \<and> nativeIsInCall t \<and>
         Bad_deref c \<in> set (effects (endcall_worker e' t)) \<and>
         Bad_deref c \<in> set (effects (answer_worker e'' t))"
proof -
  have t: "g_call t = Some c" "c \<notin> set (calls t)" "g_in_call t" "g_ua t = Some ua"
    using assms
    by (simp_all add: makecall_worker_def ua_connect_def Let_def baresip_event_handler.simps
        remove1_append)
  then have "Bad_deref c \<in> set (effects (endcall_worker e' t))"
    by (simp add: endcall_worker_def Let_def ua_hangup.simps)
  moreover have "Bad_deref c \<in> set (effects (answer_worker e'' t))"
    using t by (simp add: answer_worker_def with_call_def deliver_keeps_bad)
  ultimately show ?thesis using t by (simp add: nativeIsInCall_def)
qed

lemma failed_dial_leaves_freed_call_witness:
  "g_call (makecall_worker (env0\<lparr>ua_connect_out := (12, 9, [(UA_EVENT_CALL_OUTGOING, Some 9, None)])\<rparr>)
     ''sip:5@x'' (init_app\<lparr>g_ua := Some 1\<rparr>)) = Some 9"
  using failed_dial_leaves_freed_call
    [of "init_app\<lparr>g_ua := Some 1\<rparr>" 1 9
        "env0\<lparr>ua_connect_out := (12, 9, [(UA_EVENT_CALL_OUTGOING, Some 9, None)])\<rparr>" 12 None
        "makecall_worker (env0\<lparr>ua_connect_out := (12, 9, [(UA_EVENT_CALL_OUTGOING, Some 9, None)])\<rparr>)
           ''sip:5@x'' (init_app\<lparr>g_ua := Some 1\<rparr>)" "''sip:5@x''" env0 env0]
  by (simp add: init_app_def)

text \<open>The buffers for the authority and the account string are always big enough: with the
  configured strings in their arrays and a 32-bit port nothing is cut off.\<close>

theorem account_aor_not_truncated:
  assumes "length (sip_server_str s) < 64" and "length (sip_user_str s) < 32"
    and "length (sip_pass_str s) < 64"
    and "- (2 ^ 31) \<le> sip_port_int s" and "sip_port_int s < 2 ^ 31"
  shows "\<exists>authority. length authority < 96 \<and>
     authority = (if CHR '':'' \<in> set (sip_server_str s) then sip_server_str s
                  else sip_server_str s @ '':'' @ dec_of_int (sip_port_int s)) \<and>
     build_server_authority 96 s = authority \<and>
     build_account_aor 256 s =
       ''<sip:'' @ sip_user_str s @ ''@'' @ authority @ ''>;auth_user='' @ sip_user_str s @
       '';auth_pass='' @ sip_pass_str s @ '';regint=60''"
proof -
  let ?a = "if CHR '':'' \<in> set (sip_server_str s) then sip_server_str s
            else sip_server_str s @ '':'' @ dec_of_int (sip_port_int s)"
  have l: "length ?a < 76" using assms(1) length_dec_of_int32 [OF assms(4,5)] by simp
  then have a: "build_server_authority 96 s = ?a"
    using strchr_None_iff [of "sip_server_str s" "CHR '':''"]
    by (auto simp: build_server_authority_def snprintf_fits)
  have "build_account_aor 256 s =
       ''<sip:'' @ sip_user_str s @ ''@'' @ ?a @ ''>;auth_user='' @ sip_user_str s @
       '';auth_pass='' @ sip_pass_str s @ '';regint=60''"
    unfolding build_account_aor_def a Let_def
    by (rule snprintf_fits) (use l assms(2,3) in simp)
  then show ?thesis using a l by (intro exI [of _ ?a]) simp
qed

lemma account_aor_not_truncated_witness:
  "\<exists>a. build_account_aor 256 (init_app\<lparr>sip_server_str := ''pbx'', sip_user_str := ''203''\<rparr>) =
       ''<sip:203@'' @ a @ ''>;auth_user=203;auth_pass=;regint=60''"
  using account_aor_not_truncated
    [of "init_app\<lparr>sip_server_str := ''pbx'', sip_user_str := ''203''\<rparr>"]
  by (auto simp: init_app_def)

fun media_alive :: "(env \<times> (app \<Rightarrow> app)) list \<Rightarrow> app \<Rightarrow> bool" where
  "media_alive [] s = True"
| "media_alive ((e, other) # ts) s =
     (last_rx_s (other s) \<le> now e \<and> now e \<le> last_rx_s (other s) + 30 \<and>
      last_rx_s (other s) \<le> - 31 \<and>
      (Timeout_hangup_worker \<in> set (remain_q (other s)) \<longrightarrow>
         Timeout_hangup_worker \<in> set (remain_q s)) \<and>
      media_alive ts (other s))"

lemma silent_bound:
  fixes n r :: u32
  assumes "r \<le> n" "n \<le> r + 30" "r \<le> - 31"
  shows "\<not> n - r > 30"
proof -
  have "unat (r + 30) = unat r + 30"
    using assms(3) by (simp add: word_le_nat_alt unat_word_ariths)
  then have "unat n \<le> unat r + 30" using assms(2) by (simp add: word_le_nat_alt)
  then have "unat (n - r) \<le> 30" using assms(1) by (simp add: unat_sub_if' word_le_nat_alt)
  then show ?thesis by (simp add: word_less_nat_alt)
qed

text \<open>The watchdog never hangs up while, at each of its turns, the last received frame is at
  most 30 seconds old, whatever the rest of the program does between the turns.\<close>

theorem watchdog_no_false_alarm:
  "media_alive ts s \<Longrightarrow> Timeout_hangup_worker \<notin> set (remain_q s) \<Longrightarrow>
   Timeout_hangup_worker \<notin> set (remain_q (watchdog_thread ts s))"
proof (induction ts arbitrary: s)
  case Nil
  then show ?case by simp
next
  case (Cons a ts)
  obtain e other where a: "a = (e, other)" by (cases a)
  let ?o = "other s"
  have q: "Timeout_hangup_worker \<notin> set (remain_q ?o)" "media_alive ts ?o"
    using Cons.prems by (auto simp: a)
  have "\<not> now e - last_rx_s ?o > RX_TIMEOUT_S"
    using Cons.prems silent_bound by (simp add: a RX_TIMEOUT_S_def)
  then show ?case using Cons.IH [OF q(2,1)] q(1)
    by (simp add: a watchdog_turn_def rtpwatch_last_rx_s_def Let_def)
qed

lemma watchdog_no_false_alarm_witness:
  "Timeout_hangup_worker \<notin> set (remain_q
     (watchdog_thread [(env0, \<lambda>s. s), (env0\<lparr>now := 105\<rparr>, \<lambda>s. s\<lparr>last_rx_s := 104\<rparr>)]
       (init_app\<lparr>g_call := Some 7, last_rx_s := 80\<rparr>)))"
proof -
  have "media_alive [(env0, \<lambda>s. s), (env0\<lparr>now := 105\<rparr>, \<lambda>s. s\<lparr>last_rx_s := 104\<rparr>)]
     (init_app\<lparr>g_call := Some 7, last_rx_s := 80\<rparr>)"
    by (simp add: env0_def init_app_def)
  from watchdog_no_false_alarm [OF this] show ?thesis by (simp add: init_app_def)
qed

definition five_second_turns :: "u32 \<Rightarrow> nat \<Rightarrow> env \<Rightarrow> (env \<times> (app \<Rightarrow> app)) list" where
  "five_second_turns t0 n e = map (\<lambda>k. (e\<lparr>now := t0 + 5 * of_nat (Suc k)\<rparr>, \<lambda>s. s)) [0..<n]"

text \<open>When media stops at time \<open>t0\<close> and the call stays, the watchdog (one turn every 5 seconds)
  posts the hang-up at its seventh turn, 35 seconds after the last frame, exactly once, and not
  before.\<close>

theorem watchdog_hangs_up_dead_media:
  assumes "g_call s = Some c" and "last_rx_s s = t0" and "zalloc_ok e" and "async_main_err e = 0"
  shows "watchdog_thread (five_second_turns t0 6 e) s = s \<and>
         watchdog_thread (five_second_turns t0 (7 + n) e) s =
           s\<lparr>remain_q := remain_q s @ [Timeout_hangup_worker], g_watchdog_running := False\<rparr>"
proof (intro conjI)
  have 7: "[0..<7 + n] = [0,1,2,3,4,5,6] @ [7..<7 + n]"
    using upt_add_eq_append [of 0 7 n] by (simp add: upt_conv_Cons numeral_eq_Suc)
  have 6: "[0..<6] = [0,1,2,3,4,5]" by (simp add: upt_conv_Cons numeral_eq_Suc)
  show "watchdog_thread (five_second_turns t0 6 e) s = s"
    using assms unfolding five_second_turns_def 6
    by (simp add: watchdog_turn_def rtpwatch_last_rx_s_def RX_TIMEOUT_S_def)
  show "watchdog_thread (five_second_turns t0 (7 + n) e) s =
           s\<lparr>remain_q := remain_q s @ [Timeout_hangup_worker], g_watchdog_running := False\<rparr>"
    using assms unfolding five_second_turns_def 7
    by (simp add: watchdog_turn_def rtpwatch_last_rx_s_def RX_TIMEOUT_S_def remain_run_def)
qed

lemma watchdog_hangs_up_dead_media_witness:
  "remain_q (watchdog_thread (five_second_turns 100 (7 + 2) env0)
     (init_app\<lparr>g_call := Some 7, last_rx_s := 100\<rparr>)) = [Timeout_hangup_worker]"
  using watchdog_hangs_up_dead_media
    [of "init_app\<lparr>g_call := Some 7, last_rx_s := 100\<rparr>" 7 100 env0 2]
  by (simp add: env0_def init_app_def)

text \<open>The silence is an unsigned difference, so a frame marked with a later second than the
  one the watchdog has already read (or a clock set back) counts as a silence of almost
  \<open>2^32\<close> seconds and a live call is hung up.\<close>

theorem watchdog_hangs_up_on_clock_skew:
  assumes "g_call s = Some c" and "last_rx_s s = now e + of_nat d" and "0 < d" and "d < 2 ^ 32 - 30"
    and "zalloc_ok e" and "async_main_err e = 0"
  shows "remain_q (snd (watchdog_turn e s)) = remain_q s @ [Timeout_hangup_worker]"
proof -
  have "unat (- (of_nat d :: u32)) = 2 ^ 32 - d"
  proof -
    have d: "unat (of_nat d :: u32) = d" using assms(4) by (simp add: unat_of_nat)
    then show ?thesis using unat_sub_if' [of "0 :: u32" "of_nat d"] assms(3) by simp
  qed
  then have "- (of_nat d :: u32) > 30" using assms(4) by (simp add: word_less_nat_alt)
  then show ?thesis using assms(1,2,5,6)
    by (simp add: watchdog_turn_def rtpwatch_last_rx_s_def RX_TIMEOUT_S_def remain_run_def)
qed

lemma watchdog_hangs_up_on_clock_skew_witness:
  "remain_q (snd (watchdog_turn env0 (init_app\<lparr>g_call := Some 7, last_rx_s := 101\<rparr>))) =
   [Timeout_hangup_worker]"
  using watchdog_hangs_up_on_clock_skew [of "init_app\<lparr>g_call := Some 7, last_rx_s := 101\<rparr>" 7 env0 1]
  by (simp add: env0_def init_app_def)

definition add_codec :: "string \<Rightarrow> string list \<Rightarrow> string list" where
  "add_codec c l = (if c \<in> set l then l else l @ [c])"

lemma aucodecl_register [simp]:
  "aucodecl (aucodec_register c s) = add_codec c (aucodecl s)"
  "aucodecl (aufilt_register f s) = aucodecl s"
  "aucodecl (snd (rtpwatch_module_init s)) = aucodecl s"
  by (simp_all add: aucodec_register_def aufilt_register_def rtpwatch_module_init_def add_codec_def)

lemma aucodecl_init_audio:
  "aucodecl (snd (init_audio i s)) =
     add_codec ''PCMA'' (add_codec ''PCMU''
       ((if opus_init_err i \<noteq> 0 then (\<lambda>l. l) else add_codec ''opus'')
         ((if g722_init_err i \<noteq> 0 then (\<lambda>l. l) else add_codec ''G722'') (aucodecl s))))"
  by (simp add: init_audio_def Let_def)

text \<open>Whichever modules fail to start, the registered codecs are in the order of preference
  G.722, Opus, PCMU, PCMA, with both G.711 codecs present, and a repeated initialisation changes
  nothing.\<close>

theorem codec_offer_order:
  assumes "aucodecl s = []"
  shows "aucodecl (snd (init_audio i s)) =
           filter (\<lambda>c. (c = ''G722'' \<longrightarrow> g722_init_err i = 0) \<and> (c = ''opus'' \<longrightarrow> opus_init_err i = 0))
             [''G722'', ''opus'', ''PCMU'', ''PCMA''] \<and>
         aucodecl (snd (init_audio i (snd (init_audio i s)))) = aucodecl (snd (init_audio i s))"
  using assms
  by (cases "g722_init_err i = 0"; cases "opus_init_err i = 0")
    (simp_all add: aucodecl_init_audio add_codec_def)

definition init0 :: init_env where
  "init0 = \<lparr>libre_init_err = 0, conf_ok = True, baresip_init_err = 0, g722_init_err = 0,
     opus_conf_err = 0, opus_init_err = 5, auresamp_init_err = 0, auconv_init_err = 0,
     opensles_init_err = 0, ua_init_err = 0, re_main_create_err = 0\<rparr>"

lemma codec_offer_order_witness:
  "aucodecl (snd (init_audio init0 init_app)) = [''G722'', ''PCMU'', ''PCMA'']"
  using codec_offer_order [of init_app init0] by (simp add: init0_def init_app_def)

text \<open>For a caller \<open>sip:user@host\<close> the user part is shown when it has at most 31 bytes; a
  longer one is shown with its host.\<close>

theorem incoming_user_correct:
  assumes "CHR ''@'' \<notin> set u"
  shows "incoming_user (Some (''sip:'' @ u @ ''@'' @ host)) =
           (if length u < 32 then u else u @ ''@'' @ host)"
proof -
  have "strstr (''sip:'' @ u @ ''@'' @ host) ''sip:'' = Some (''sip:'' @ u @ ''@'' @ host)"
    by (rule strstr_prefix)
  moreover have "strchr (u @ ''@'' @ host) CHR ''@'' = Some (''@'' @ host)"
    using strchr_append [OF assms, of host] by simp
  ultimately show ?thesis by (simp add: incoming_user_def Let_def)
qed

lemma incoming_user_correct_witness:
  "incoming_user (Some ''sip:203@192.0.2.1'') = ''203''"
  using incoming_user_correct [of "''203''" "''192.0.2.1''"] by simp

lemma wait_ready_loop_eq:
  "\<exists>k. wait_ready_loop ready T i w = (Suc (i + k), w + 10 * k) \<and> (k = 0 \<or> w + 10 * (k - 1) < T) \<and>
       (ready (i + k) \<or> T \<le> w + 10 * k)"
proof (induction ready T i w rule: wait_ready_loop.induct)
  case (1 ready T i w)
  show ?case
  proof (cases "\<not> ready i \<and> w < T")
    case True
    with 1 obtain k where
      "wait_ready_loop ready T (Suc i) (w + 10) = (Suc (Suc i + k), w + 10 + 10 * k)"
      "k = 0 \<or> w + 10 + 10 * (k - 1) < T" "ready (Suc i + k) \<or> T \<le> w + 10 + 10 * k" by blast
    then show ?thesis using True
      by (subst wait_ready_loop.simps, intro exI [of _ "Suc k"]) (cases k; auto)
  next
    case False
    then show ?thesis by (subst wait_ready_loop.simps, intro exI [of _ 0]) auto
  qed
qed

text \<open>Waiting for the event loop ends, after at most \<open>timeout/10\<close> (rounded up) sleeps; once
  the flag is up it stays up, and then the wait succeeds exactly when the flag is seen by the last
  poll.\<close>

theorem wait_for_re_main_bounded:
  assumes "\<forall>i j. i \<le> j \<longrightarrow> ready i \<longrightarrow> ready j"
  shows "\<exists>polls. polls \<le> (T + 9) div 10 + 1 \<and>
           wait_ready_loop ready T 0 0 = (polls, 10 * (polls - 1)) \<and>
           wait_for_re_main_ready ready T = (if ready polls then OK else ETIMEDOUT) \<and>
           (\<not> ready polls \<longrightarrow> T \<le> 10 * (polls - 1))"
proof -
  obtain k where k: "wait_ready_loop ready T 0 0 = (Suc k, 10 * k)" "k = 0 \<or> 10 * (k - 1) < T"
    "ready k \<or> T \<le> 10 * k" using wait_ready_loop_eq [of ready T 0 0] by auto
  have "Suc k \<le> (T + 9) div 10 + 1" using k(2) by auto
  moreover have "\<not> ready (Suc k) \<longrightarrow> T \<le> 10 * k" using k(3) assms by (meson le_SucI order_refl)
  ultimately show ?thesis using k(1)
    by (intro exI [of _ "Suc k"]) (simp add: wait_for_re_main_ready_def)
qed

lemma wait_for_re_main_bounded_witness:
  "\<exists>polls::nat. polls \<le> 51 \<and> wait_for_re_main_ready (\<lambda>i. 3 \<le> i) 500 = (if 3 \<le> polls then OK else ETIMEDOUT)"
  using wait_for_re_main_bounded [of "\<lambda>i. 3 \<le> i" 500] by fastforce

text \<open>When \<open>ua_register\<close> fails after \<open>ua_alloc\<close> succeeded, the user agent stays in \<open>g_ua\<close>,
  so every later register request is skipped and never reaches \<open>ua_register\<close> again.\<close>

theorem register_skipped_after_failure:
  assumes "g_ua s = None" and "ua_alloc_out e = (0, ua, [])" and "ua_register_out e = (err, evs)"
    and "err \<noteq> 0" and "quiet evs" and "safe s"
  shows "g_ua (register_worker e s) = Some ua \<and>
         register_worker e' (register_worker e s) = register_worker e s"
proof -
  let ?t = "emit (Ua_register ua) ((emit (Ua_alloc (build_account_aor 256 s)) s)\<lparr>g_ua := Some ua\<rparr>)"
  have "safe ?t" using assms(6) by simp
  from deliver_safe [OF this quietD [OF assms(5)]]
  have "g_ua (deliver e evs ?t) = Some ua" by simp
  then have "g_ua (register_worker e s) = Some ua"
    using assms by (simp add: register_worker_def ua_create_and_register_def Let_def)
  then show ?thesis by (simp add: register_worker_def Let_def)
qed

lemma register_skipped_after_failure_witness:
  "g_ua (register_worker (env0\<lparr>ua_register_out := (12, [])\<rparr>) init_app) = Some 1"
  using register_skipped_after_failure [of init_app "env0\<lparr>ua_register_out := (12, [])\<rparr>" 1 12 "[]" env0]
  by (simp add: env0_def init_app_def quiet_def safe_def)

end
