(* ===== verification/Bytes.thy ===== *)
theory Bytes
  imports Prelude
begin

text \<open>
  Integers in memory: the target is little endian, so a \<open>uint16_t\<close> or \<open>uint32_t\<close> that is copied
  to or from a buffer is its list of bytes, least significant first, and \<open>htons\<close>, \<open>htonl\<close>,
  \<open>ntohs\<close>, \<open>ntohl\<close> reverse that list.
\<close>

fun le_bytes :: "nat \<Rightarrow> 'a::len word \<Rightarrow> u8 list" where
  "le_bytes 0 v = []"
| "le_bytes (Suc n) v = ucast v # le_bytes n (drop_bit 8 v)"

fun of_le_bytes :: "u8 list \<Rightarrow> 'a::len word" where
  "of_le_bytes [] = 0"
| "of_le_bytes (b # bs) = ucast b OR push_bit 8 (of_le_bytes bs)"

lemma length_le_bytes [simp]: "length (le_bytes n v) = n"
  by (induction n arbitrary: v) auto

lemma bit_of_le_bytes_cons:
  "bit (of_le_bytes (b # bs) :: 'a::len word) i \<longleftrightarrow>
     i < LENGTH('a) \<and> (if i < 8 then bit b i else bit (of_le_bytes bs :: 'a word) (i - 8))"
  by (auto simp: bit_simps dest: bit_imp_le_length)

lemma of_le_bytes_le_bytes:
  "(of_le_bytes (le_bytes n v) :: 'a::len word) = take_bit (8 * n) (v :: 'a word)"
proof (induction n arbitrary: v)
  case 0
  then show ?case by simp
next
  case (Suc n)
  show ?case
  proof (rule bit_word_eqI)
    fix i assume "i < LENGTH('a)"
    then show "bit (of_le_bytes (le_bytes (Suc n) v) :: 'a word) i = bit (take_bit (8 * Suc n) v) i"
      by (auto simp: Suc.IH bit_of_le_bytes_cons bit_simps simp del: of_le_bytes.simps)
  qed
qed

lemma le_bytes_of_le_bytes:
  "8 * length bs \<le> LENGTH('a) \<Longrightarrow> le_bytes (length bs) (of_le_bytes bs :: 'a::len word) = bs"
proof (induction bs)
  case Nil
  then show ?case by simp
next
  case (Cons b bs)
  have 1: "ucast (of_le_bytes (b # bs) :: 'a word) = b"
  proof (rule bit_word_eqI)
    fix i assume "i < LENGTH(8)"
    then show "bit (ucast (of_le_bytes (b # bs) :: 'a word) :: u8) i = bit b i"
      using Cons.prems by (simp add: bit_ucast_iff bit_of_le_bytes_cons del: of_le_bytes.simps)
  qed
  have 2: "le_bytes (length bs) (drop_bit 8 (of_le_bytes (b # bs) :: 'a word)) =
           le_bytes (length bs) (of_le_bytes bs :: 'a word)"
  proof -
    have "le_bytes n (drop_bit 8 (of_le_bytes (b # bs) :: 'a word)) = le_bytes n (of_le_bytes bs :: 'a word)"
      if "8 * Suc n \<le> LENGTH('a)" for n
    proof -
      have aux: "le_bytes n x = le_bytes n y" if "\<forall>i < 8 * n. bit x i = bit y i" for n and x y :: "'a word"
        using that
      proof (induction n arbitrary: x y)
        case (Suc n)
        have "ucast x = (ucast y :: u8)"
        proof (rule bit_word_eqI)
          fix i assume "i < LENGTH(8)"
          then show "bit (ucast x :: u8) i = bit (ucast y :: u8) i"
            using Suc.prems by (simp add: bit_ucast_iff)
        qed
        moreover have "le_bytes n (drop_bit 8 x) = le_bytes n (drop_bit 8 y)"
          using Suc.prems by (intro Suc.IH) (auto simp: bit_drop_bit_eq)
        ultimately show ?case by simp
      qed simp
      show ?thesis
        by (rule aux) (use that in \<open>auto simp: bit_drop_bit_eq bit_of_le_bytes_cons simp del: of_le_bytes.simps\<close>)
    qed
    then show ?thesis using Cons.prems by simp
  qed
  show ?case using 1 2 Cons by (simp del: of_le_bytes.simps)
qed

definition htons :: "u16 \<Rightarrow> u16" where
  "htons v = of_le_bytes (rev (le_bytes 2 v))"

definition htonl :: "u32 \<Rightarrow> u32" where
  "htonl v = of_le_bytes (rev (le_bytes 4 v))"

abbreviation (input) ntohs :: "u16 \<Rightarrow> u16" where "ntohs \<equiv> htons"
abbreviation (input) ntohl :: "u32 \<Rightarrow> u32" where "ntohl \<equiv> htonl"

lemma le_bytes_htons: "le_bytes 2 (htons v) = rev (le_bytes 2 v)"
  using le_bytes_of_le_bytes [of "rev (le_bytes 2 v)", where 'a = 16] by (simp add: htons_def)

lemma le_bytes_htonl: "le_bytes 4 (htonl v) = rev (le_bytes 4 v)"
  using le_bytes_of_le_bytes [of "rev (le_bytes 4 v)", where 'a = 32] by (simp add: htonl_def)

lemma take_bit_full [simp]:
  "take_bit 16 (x :: u16) = x" "take_bit 32 (y :: u32) = y" "take_bit 64 (z :: u64) = z"
  by (rule bit_word_eqI; simp add: bit_take_bit_iff)+

lemma of_le_bytes_u16 [simp]: "of_le_bytes (le_bytes 2 v) = (v :: u16)"
  using of_le_bytes_le_bytes [of 2 v] by simp

lemma of_le_bytes_u32 [simp]: "of_le_bytes (le_bytes 4 v) = (v :: u32)"
  using of_le_bytes_le_bytes [of 4 v] by simp

lemma of_le_bytes_u64 [simp]: "of_le_bytes (le_bytes 8 v) = (v :: u64)"
  using of_le_bytes_le_bytes [of 8 v] by simp

lemma ntohs_htons [simp]: "ntohs (htons v) = v"
  by (simp add: htons_def [of "htons v"] le_bytes_htons)

lemma ntohl_htonl [simp]: "ntohl (htonl v) = v"
  by (simp add: htonl_def [of "htonl v"] le_bytes_htonl)

text \<open>The bytes of a C string and the string of some bytes.\<close>

definition u8_of_char :: "char \<Rightarrow> u8" where
  "u8_of_char c = word_of_nat (of_char c)"

definition char_of_u8 :: "u8 \<Rightarrow> char" where
  "char_of_u8 b = char_of (unat b)"

definition str_bytes :: "string \<Rightarrow> u8 list" where
  "str_bytes s = map u8_of_char s"

definition bytes_str :: "u8 list \<Rightarrow> string" where
  "bytes_str bs = map char_of_u8 bs"

lemma of_char_less_256 [simp]: "(of_char c :: nat) < 256"
  using of_char_mod_256 [of c, where 'a = nat] by (metis mod_less_divisor zero_less_numeral)

lemma unat_u8_of_char: "unat (u8_of_char c) = of_char c"
  by (simp add: u8_of_char_def unat_of_nat take_bit_nat_eq_self)

lemma char_of_u8_of_char [simp]: "char_of_u8 (u8_of_char c) = c"
  by (simp add: char_of_u8_def unat_u8_of_char)

lemma u8_of_char_of_u8 [simp]: "u8_of_char (char_of_u8 b) = b"
proof -
  have "unat b < 256" by (rule unat_u8_less)
  then show ?thesis by (simp add: u8_of_char_def char_of_u8_def of_char_of)
qed

lemma bytes_str_bytes [simp]: "bytes_str (str_bytes s) = s"
  by (simp add: bytes_str_def str_bytes_def comp_def)

lemma str_bytes_str [simp]: "str_bytes (bytes_str bs) = bs"
  by (simp add: bytes_str_def str_bytes_def comp_def)

lemma length_str_bytes [simp]: "length (str_bytes s) = length s"
  by (simp add: str_bytes_def)

lemma length_bytes_str [simp]: "length (bytes_str bs) = length bs"
  by (simp add: bytes_str_def)

section \<open>Blocks of memory\<close>

text \<open>
  What \<open>memcpy\<close>, \<open>memmove\<close> and \<open>memset\<close> do to an allocated block; \<open>None\<close> is an access outside it
  (undefined behaviour).  An access of no bytes touches nothing.
\<close>

definition blk_read :: "nat \<Rightarrow> nat \<Rightarrow> u8 list \<Rightarrow> u8 list option" where
  "blk_read off n b =
     (if n = 0 then Some [] else if off + n \<le> length b then Some (take n (drop off b)) else None)"

definition blk_write :: "nat \<Rightarrow> u8 list \<Rightarrow> u8 list \<Rightarrow> u8 list option" where
  "blk_write off bs b =
     (if bs = [] then Some b
      else if off + length bs \<le> length b then Some (take off b @ bs @ drop (off + length bs) b)
      else None)"

definition blk_move :: "nat \<Rightarrow> nat \<Rightarrow> nat \<Rightarrow> u8 list \<Rightarrow> u8 list option" where
  "blk_move dst src n b =
     (case blk_read src n b of None \<Rightarrow> None | Some bs \<Rightarrow> blk_write dst bs b)"

lemma blk_read_in: "off + n \<le> length b \<Longrightarrow> blk_read off n b = Some (take n (drop off b))"
  by (simp add: blk_read_def)

lemma blk_write_in:
  "off + length bs \<le> length b \<Longrightarrow>
   blk_write off bs b = Some (take off b @ bs @ drop (off + length bs) b)"
  by (cases bs) (simp_all add: blk_write_def)

lemma blk_write_length: "blk_write off bs b = Some b' \<Longrightarrow> length b' = length b"
  by (auto simp: blk_write_def split: if_splits)

lemma blk_move_in:
  "src + n \<le> length b \<Longrightarrow> dst + n \<le> length b \<Longrightarrow>
   blk_move dst src n b = Some (take dst b @ take n (drop src b) @ drop (dst + n) b)"
proof -
  assume a: "src + n \<le> length b" "dst + n \<le> length b"
  then have l: "length (take n (drop src b)) = n" by simp
  then show ?thesis using a blk_write_in [of dst "take n (drop src b)" b]
    by (simp only: l blk_move_def blk_read_in option.case)
qed

section \<open>Pointer and length\<close>

text \<open>
  \<open>struct pl\<close>: a pointer into some text and a length.  A pointer is the text from there to the end
  of its object, so that \<open>p + n\<close> is \<open>drop n\<close> and the distance of two pointers into the same text
  is the difference of the lengths.
\<close>

record pl =
  pl_p :: "string option"
  pl_l :: nat

definition pl_text :: "pl \<Rightarrow> string" where
  "pl_text p = (case pl_p p of None \<Rightarrow> [] | Some s \<Rightarrow> take (pl_l p) s)"

end
