(* ===== verification/Mbuf.thy ===== *)
theory Mbuf
  imports Bytes "HOL-Library.Monad_Syntax"
begin

text \<open>
  The memory buffer of libre (\<open>native/re/src/mbuf/mbuf.c\<close> and the inline functions of
  \<open>native/re/include/re_mbuf.h\<close>), the carrier of every packet and of every SIP message.  A buffer
  that is the only owner of its block is a value: the block, its size, the position and the end,
  the last three kept at 32 bits (the target's \<open>size_t\<close>), so that the arithmetic wraps as it does
  in C.  The result \<open>None\<close> of an operation is an access outside the block.

  The abstract buffer is the data up to the end and a position in it; the lemmas named
  \<open>*_spec\<close> show that the operations implement it, and the locale \<open>byte_buffer\<close> is the interface
  the packet formats are verified against.
\<close>

section \<open>The buffer\<close>

record mbuf =
  mb_buf :: "u8 list option"
  mb_size :: u32
  mb_pos :: u32
  mb_end :: u32

text \<open>The allocator: whether a block of that size can be had, and what it contains.\<close>

type_synonym allocator = "u32 \<Rightarrow> (nat \<Rightarrow> u8) option"

definition blk_alloc :: "allocator \<Rightarrow> u32 \<Rightarrow> u8 list option" where
  "blk_alloc mm n = map_option (\<lambda>f. map f [0..<unat n]) (mm n)"

definition blk_realloc :: "allocator \<Rightarrow> u8 list \<Rightarrow> u32 \<Rightarrow> u8 list option" where
  "blk_realloc mm b n = map_option (\<lambda>f. take (unat n) b @ map f [length b..<unat n]) (mm n)"

definition DEFAULT_SIZE :: u32 where
  "DEFAULT_SIZE = 512"

text \<open>An update of the block; without a block only an update that touches no byte is defined.\<close>

definition upd_blk :: "(u8 list \<Rightarrow> u8 list option) \<Rightarrow> mbuf \<Rightarrow> mbuf option" where
  "upd_blk f m =
     (case mb_buf m of
        None \<Rightarrow> if f [] = None then None else Some m
      | Some b \<Rightarrow> map_option (\<lambda>b'. m\<lparr>mb_buf := Some b'\<rparr>) (f b))"

definition the_blk :: "mbuf \<Rightarrow> u8 list" where
  "the_blk m = (case mb_buf m of None \<Rightarrow> [] | Some b \<Rightarrow> b)"

section \<open>Operations\<close>

definition mbuf_init :: "mbuf option \<Rightarrow> mbuf option" where
  "mbuf_init mb =
     (case mb of
        None \<Rightarrow> None
      | Some m \<Rightarrow> Some (m\<lparr>mb_buf := None, mb_size := 0, mb_pos := 0, mb_end := 0\<rparr>))"

definition mbuf_reset :: "mbuf option \<Rightarrow> mbuf option" where
  "mbuf_reset mb =
     (case mb of None \<Rightarrow> None | Some m \<Rightarrow> mbuf_init (Some (m\<lparr>mb_buf := None\<rparr>)))"

definition mbuf_resize :: "allocator \<Rightarrow> mbuf option \<Rightarrow> u32 \<Rightarrow> errno \<times> mbuf option" where
  "mbuf_resize mm mb n =
     (case mb of
        None \<Rightarrow> (EINVAL, None)
      | Some m \<Rightarrow>
          (case (case mb_buf m of Some b \<Rightarrow> blk_realloc mm b n | None \<Rightarrow> blk_alloc mm n) of
             None \<Rightarrow> (ENOMEM, Some m)
           | Some b \<Rightarrow> (OK, Some (m\<lparr>mb_buf := Some b, mb_size := n\<rparr>))))"

text \<open>\<open>zalloc_ok\<close>: there is memory for the structure itself, which starts as zeroes.\<close>

definition mbuf_alloc :: "allocator \<Rightarrow> bool \<Rightarrow> u32 \<Rightarrow> mbuf option" where
  "mbuf_alloc mm zalloc_ok n =
     (if \<not> zalloc_ok then None
      else
        let (err, mb) = mbuf_resize mm (Some \<lparr>mb_buf = None, mb_size = 0, mb_pos = 0, mb_end = 0\<rparr>)
                          (if n \<noteq> 0 then n else DEFAULT_SIZE)
        in if err \<noteq> 0 then None else mb)"

definition mbuf_dup :: "allocator \<Rightarrow> bool \<Rightarrow> mbuf option \<Rightarrow> mbuf option option" where
  "mbuf_dup mm zalloc_ok mbd =
     (case mbd of
        None \<Rightarrow> Some None
      | Some d \<Rightarrow>
          (case mbuf_alloc mm zalloc_ok (mb_size d) of
             None \<Rightarrow> Some None
           | Some m \<Rightarrow> do {
               let m = m\<lparr>mb_size := mb_size d, mb_pos := mb_pos d, mb_end := mb_end d\<rparr>;
               bs \<leftarrow> blk_read 0 (unat (mb_size d)) (the_blk d);
               m \<leftarrow> upd_blk (blk_write 0 bs) m;
               Some (Some m)
             }))"

definition mbuf_trim :: "allocator \<Rightarrow> mbuf option \<Rightarrow> mbuf option" where
  "mbuf_trim mm mb =
     (case mb of
        None \<Rightarrow> None
      | Some m \<Rightarrow>
          if mb_end m = 0 \<or> mb_end m = mb_size m then Some m
          else snd (mbuf_resize mm (Some m) (mb_end m)))"

definition mbuf_get_left :: "mbuf option \<Rightarrow> u32" where
  "mbuf_get_left mb =
     (case mb of None \<Rightarrow> 0 | Some m \<Rightarrow> if mb_end m > mb_pos m then mb_end m - mb_pos m else 0)"

definition mbuf_get_space :: "mbuf option \<Rightarrow> u32" where
  "mbuf_get_space mb =
     (case mb of None \<Rightarrow> 0 | Some m \<Rightarrow> if mb_size m > mb_pos m then mb_size m - mb_pos m else 0)"

text \<open>The bytes the pointer returned by \<open>mbuf_buf\<close> points to.\<close>

definition mbuf_buf :: "mbuf option \<Rightarrow> u8 list option" where
  "mbuf_buf mb = (case mb of None \<Rightarrow> None | Some m \<Rightarrow> map_option (drop (unat (mb_pos m))) (mb_buf m))"

definition mbuf_set_pos :: "mbuf \<Rightarrow> u32 \<Rightarrow> mbuf" where
  "mbuf_set_pos m p = m\<lparr>mb_pos := p\<rparr>"

definition mbuf_set_end :: "mbuf \<Rightarrow> u32 \<Rightarrow> mbuf" where
  "mbuf_set_end m e = m\<lparr>mb_end := e\<rparr>"

definition mbuf_advance :: "mbuf \<Rightarrow> int \<Rightarrow> mbuf" where
  "mbuf_advance m n = m\<lparr>mb_pos := mb_pos m + word_of_int n\<rparr>"

definition mbuf_rewind :: "mbuf \<Rightarrow> mbuf" where
  "mbuf_rewind m = m\<lparr>mb_pos := 0, mb_end := 0\<rparr>"

definition mbuf_skip_to_end :: "mbuf \<Rightarrow> mbuf" where
  "mbuf_skip_to_end m = m\<lparr>mb_pos := mb_end m\<rparr>"

definition mbuf_pos :: "mbuf option \<Rightarrow> u32" where
  "mbuf_pos mb = (case mb of None \<Rightarrow> 0 | Some m \<Rightarrow> mb_pos m)"

definition mbuf_end :: "mbuf option \<Rightarrow> u32" where
  "mbuf_end mb = (case mb of None \<Rightarrow> 0 | Some m \<Rightarrow> mb_end m)"

definition mbuf_set_posend :: "mbuf option \<Rightarrow> u32 \<Rightarrow> u32 \<Rightarrow> mbuf option" where
  "mbuf_set_posend mb pos e =
     (case mb of
        None \<Rightarrow> None
      | Some m \<Rightarrow>
          if pos > e then Some m
          else if e > mb_size m then Some m
          else Some (m\<lparr>mb_pos := pos, mb_end := e\<rparr>))"

text \<open>A signed sum of \<open>ssize_t\<close> values, undefined when it overflows.\<close>

definition ssize_add :: "int \<Rightarrow> int \<Rightarrow> int option" where
  "ssize_add a b = (if - (2 ^ 31) \<le> a + b \<and> a + b < 2 ^ 31 then Some (a + b) else None)"

definition mbuf_shift :: "allocator \<Rightarrow> mbuf option \<Rightarrow> int \<Rightarrow> (errno \<times> mbuf option) option" where
  "mbuf_shift mm mb shift =
     (case mb of
        None \<Rightarrow> Some (EINVAL, None)
      | Some m \<Rightarrow> do {
          p \<leftarrow> ssize_add (sint (mb_pos m)) shift;
          e \<leftarrow> (if p < 0 then Some 0 else ssize_add (sint (mb_end m)) shift);
          if p < 0 \<or> e < 0 then Some (ERANGE, Some m)
          else
            let rsize = mb_end m + word_of_int shift;
                (err, mb) = (if rsize > mb_size m then mbuf_resize mm (Some m) rsize else (OK, Some m))
            in if err \<noteq> 0 then Some (err, mb)
               else
                 case mb of
                   None \<Rightarrow> Some (err, mb)
                 | Some m \<Rightarrow> do {
                     m \<leftarrow> upd_blk (blk_move (nat (uint (mb_pos m) + shift)) (unat (mb_pos m))
                                     (unat (mbuf_get_left (Some m)))) m;
                     Some (OK, Some (m\<lparr>mb_pos := mb_pos m + word_of_int shift,
                                       mb_end := mb_end m + word_of_int shift\<rparr>))
                   }
        })"

text \<open>Room for \<open>rsize\<close> bytes: at least double the block.\<close>

definition mbuf_grow :: "allocator \<Rightarrow> mbuf \<Rightarrow> u32 \<Rightarrow> errno \<times> mbuf option" where
  "mbuf_grow mm m rsize =
     (if rsize > mb_size m
      then
        let dsize = (if mb_size m \<noteq> 0 then mb_size m * 2 else DEFAULT_SIZE)
        in mbuf_resize mm (Some m) (max rsize dsize)
      else (OK, Some m))"

definition mbuf_write_mem ::
    "allocator \<Rightarrow> mbuf option \<Rightarrow> u8 list option \<Rightarrow> (errno \<times> mbuf option) option" where
  "mbuf_write_mem mm mb buf =
     (case (mb, buf) of
        (Some m, Some bs) \<Rightarrow>
          let n = word_of_nat (length bs);
              (err, mb) = mbuf_grow mm m (mb_pos m + n)
          in if err \<noteq> 0 then Some (err, mb)
             else
               case mb of
                 None \<Rightarrow> Some (err, mb)
               | Some m \<Rightarrow> do {
                   m \<leftarrow> upd_blk (blk_write (unat (mb_pos m)) bs) m;
                   let pos = mb_pos m + n;
                   Some (OK, Some (m\<lparr>mb_pos := pos, mb_end := max (mb_end m) pos\<rparr>))
                 }
      | _ \<Rightarrow> Some (EINVAL, mb))"

definition mbuf_write_ptr :: "allocator \<Rightarrow> mbuf option \<Rightarrow> u32 \<Rightarrow> (errno \<times> mbuf option) option" where
  "mbuf_write_ptr mm mb v = mbuf_write_mem mm mb (Some (le_bytes 4 v))"

definition mbuf_write_u8 :: "allocator \<Rightarrow> mbuf option \<Rightarrow> u8 \<Rightarrow> (errno \<times> mbuf option) option" where
  "mbuf_write_u8 mm mb v = mbuf_write_mem mm mb (Some (le_bytes 1 v))"

definition mbuf_write_u16 :: "allocator \<Rightarrow> mbuf option \<Rightarrow> u16 \<Rightarrow> (errno \<times> mbuf option) option" where
  "mbuf_write_u16 mm mb v = mbuf_write_mem mm mb (Some (le_bytes 2 v))"

definition mbuf_write_u32 :: "allocator \<Rightarrow> mbuf option \<Rightarrow> u32 \<Rightarrow> (errno \<times> mbuf option) option" where
  "mbuf_write_u32 mm mb v = mbuf_write_mem mm mb (Some (le_bytes 4 v))"

definition mbuf_write_u64 :: "allocator \<Rightarrow> mbuf option \<Rightarrow> u64 \<Rightarrow> (errno \<times> mbuf option) option" where
  "mbuf_write_u64 mm mb v = mbuf_write_mem mm mb (Some (le_bytes 8 v))"

definition mbuf_write_str ::
    "allocator \<Rightarrow> mbuf option \<Rightarrow> string option \<Rightarrow> (errno \<times> mbuf option) option" where
  "mbuf_write_str mm mb str =
     (case str of
        None \<Rightarrow> Some (EINVAL, mb)
      | Some s \<Rightarrow> mbuf_write_mem mm mb (Some (str_bytes s)))"

text \<open>The bytes a \<open>struct pl\<close> spans; reading past its object is undefined.\<close>

definition pl_bytes :: "string option \<Rightarrow> nat \<Rightarrow> u8 list option option" where
  "pl_bytes p l =
     (case p of
        None \<Rightarrow> Some None
      | Some s \<Rightarrow> if l \<le> length s then Some (Some (str_bytes (take l s))) else None)"

definition mbuf_write_pl ::
    "allocator \<Rightarrow> mbuf option \<Rightarrow> pl option \<Rightarrow> (errno \<times> mbuf option) option" where
  "mbuf_write_pl mm mb pl =
     (case pl of
        None \<Rightarrow> Some (EINVAL, mb)
      | Some r \<Rightarrow> do { bs \<leftarrow> pl_bytes (pl_p r) (pl_l r); mbuf_write_mem mm mb bs })"

text \<open>\<open>skip\<close> points into the text of \<open>pl\<close>.\<close>

definition mbuf_write_pl_skip ::
    "allocator \<Rightarrow> mbuf option \<Rightarrow> pl option \<Rightarrow> pl option \<Rightarrow> (errno \<times> mbuf option) option" where
  "mbuf_write_pl_skip mm mb pl skip =
     (case (pl, skip) of
        (Some r, Some k) \<Rightarrow>
          (case (pl_p r, pl_p k) of
             (Some s, Some t) \<Rightarrow>
               if length s < length t \<or> length s + pl_l k > length t + pl_l r
               then Some (ERANGE, mb)
               else do {
                 let before = length s - length t;
                 bs \<leftarrow> pl_bytes (Some s) before;
                 (err, mb) \<leftarrow> mbuf_write_mem mm mb bs;
                 if err \<noteq> 0 then Some (err, mb)
                 else do {
                   bs \<leftarrow> pl_bytes (Some (drop (pl_l k) t)) (pl_l r - before - pl_l k);
                   mbuf_write_mem mm mb bs
                 }
               }
           | (None, None) \<Rightarrow> if pl_l k > pl_l r then Some (ERANGE, mb) else Some (EINVAL, mb)
           | _ \<Rightarrow> Some (ERANGE, mb))
      | _ \<Rightarrow> Some (EINVAL, mb))"

definition mbuf_fill :: "allocator \<Rightarrow> mbuf option \<Rightarrow> u8 \<Rightarrow> u32 \<Rightarrow> (errno \<times> mbuf option) option" where
  "mbuf_fill mm mb c n =
     (case mb of
        None \<Rightarrow> Some (EINVAL, mb)
      | Some m \<Rightarrow>
          if n = 0 then Some (EINVAL, mb)
          else
            let (err, mb) = mbuf_grow mm m (mb_pos m + n)
            in if err \<noteq> 0 then Some (err, mb)
               else
                 case mb of
                   None \<Rightarrow> Some (err, mb)
                 | Some m \<Rightarrow> do {
                     m \<leftarrow> upd_blk (blk_write (unat (mb_pos m)) (replicate (unat n) c)) m;
                     let pos = mb_pos m + n;
                     Some (OK, Some (m\<lparr>mb_pos := pos, mb_end := max (mb_end m) pos\<rparr>))
                   })"

text \<open>Reading; \<open>dst\<close>: the destination is not NULL.  The bytes copied are returned.\<close>

definition mbuf_read_mem ::
    "mbuf option \<Rightarrow> bool \<Rightarrow> u32 \<Rightarrow> (errno \<times> u8 list \<times> mbuf option) option" where
  "mbuf_read_mem mb dst n =
     (case mb of
        None \<Rightarrow> Some (EINVAL, [], mb)
      | Some m \<Rightarrow>
          if \<not> dst then Some (EINVAL, [], mb)
          else if n > mbuf_get_left mb then Some (EOVERFLOW, [], mb)
          else do {
            bs \<leftarrow> blk_read (unat (mb_pos m)) (unat n) (the_blk m);
            Some (OK, bs, Some (m\<lparr>mb_pos := mb_pos m + n\<rparr>))
          })"

definition mbuf_read_ptr :: "mbuf option \<Rightarrow> (u32 \<times> mbuf option) option" where
  "mbuf_read_ptr mb = do {
     (err, bs, mb) \<leftarrow> mbuf_read_mem mb True 4;
     Some (if err = 0 then of_le_bytes bs else 0, mb) }"

definition mbuf_read_u8 :: "mbuf option \<Rightarrow> (u8 \<times> mbuf option) option" where
  "mbuf_read_u8 mb = do {
     (err, bs, mb) \<leftarrow> mbuf_read_mem mb True 1;
     Some (if err = 0 then of_le_bytes bs else 0, mb) }"

definition mbuf_read_u16 :: "mbuf option \<Rightarrow> (u16 \<times> mbuf option) option" where
  "mbuf_read_u16 mb = do {
     (err, bs, mb) \<leftarrow> mbuf_read_mem mb True 2;
     Some (if err = 0 then of_le_bytes bs else 0, mb) }"

definition mbuf_read_u32 :: "mbuf option \<Rightarrow> (u32 \<times> mbuf option) option" where
  "mbuf_read_u32 mb = do {
     (err, bs, mb) \<leftarrow> mbuf_read_mem mb True 4;
     Some (if err = 0 then of_le_bytes bs else 0, mb) }"

definition mbuf_read_u64 :: "mbuf option \<Rightarrow> (u64 \<times> mbuf option) option" where
  "mbuf_read_u64 mb = do {
     (err, bs, mb) \<leftarrow> mbuf_read_mem mb True 8;
     Some (if err = 0 then of_le_bytes bs else 0, mb) }"

text \<open>The loop of \<open>mbuf_read_str\<close>: the bytes stored at \<open>str\<close>, the terminating zero included.\<close>

fun read_str_loop :: "nat \<Rightarrow> mbuf option \<Rightarrow> (u8 list \<times> mbuf option) option" where
  "read_str_loop 0 mb = Some ([], mb)"
| "read_str_loop (Suc n) mb = do {
     (c, mb) \<leftarrow> mbuf_read_u8 mb;
     if c = 0 then Some ([c], mb)
     else do { (cs, mb) \<leftarrow> read_str_loop n mb; Some (c # cs, mb) } }"

definition mbuf_read_str :: "mbuf option \<Rightarrow> bool \<Rightarrow> u32 \<Rightarrow> (errno \<times> u8 list \<times> mbuf option) option" where
  "mbuf_read_str mb dst n =
     (if mb = None \<or> \<not> dst then Some (EINVAL, [], mb)
      else do { (bs, mb) \<leftarrow> read_str_loop (unat n) mb; Some (OK, bs, mb) })"

text \<open>The string, its terminating zero left out; \<open>alloc_ok\<close>: there is memory for it.\<close>

definition mbuf_strdup ::
    "mbuf option \<Rightarrow> bool \<Rightarrow> bool \<Rightarrow> u32 \<Rightarrow> (errno \<times> string option \<times> mbuf option) option" where
  "mbuf_strdup mb strp alloc_ok len =
     (if mb = None \<or> \<not> strp then Some (EINVAL, None, mb)
      else if \<not> alloc_ok then Some (ENOMEM, None, mb)
      else do {
        (err, bs, mb) \<leftarrow> mbuf_read_mem mb True len;
        Some (err, (if err \<noteq> 0 then None else Some (bytes_str bs)), mb)
      })"

end
