(* ===== verification/Rtp.thy ===== *)
theory Rtp
  imports Mbuf
begin

text \<open>
  RTP headers and the RTP socket of libre (\<open>native/re/src/rtp/rtp.c\<close>,
  \<open>native/re/include/re_rtp.h\<close>): encoding and decoding of the header, the sequence numbers a
  socket gives out, sending in the headroom of a buffer, and the split of a multiplexed socket
  into RTP and RTCP.  The transport below (\<open>udp_send\<close>) is a parameter.
\<close>

section \<open>Header\<close>

definition RTP_VERSION :: u8 where "RTP_VERSION = 2"
definition RTP_HEADER_SIZE :: u32 where "RTP_HEADER_SIZE = 12"

record rtp_header =
  h_ver :: u8
  h_pad :: bool
  h_ext :: bool
  h_cc :: u8
  h_m :: bool
  h_pt :: u8
  h_seq :: u16
  h_ts :: u32
  h_ts_arrive :: u64
  h_ssrc :: u32
  h_csrc :: "u32 list"          \<comment> \<open>16 entries\<close>
  h_x_type :: u16
  h_x_len :: u16

definition zero_hdr :: rtp_header where
  "zero_hdr = \<lparr>h_ver = 0, h_pad = False, h_ext = False, h_cc = 0, h_m = False, h_pt = 0, h_seq = 0,
     h_ts = 0, h_ts_arrive = 0, h_ssrc = 0, h_csrc = replicate 16 0, h_x_type = 0, h_x_len = 0\<rparr>"

text \<open>\<open>err = f(mb); err |= g(mb)\<close>: both run, the error numbers are or-ed.\<close>

definition or_err ::
    "('s \<Rightarrow> (errno \<times> 's) option) \<Rightarrow> ('s \<Rightarrow> (errno \<times> 's) option) \<Rightarrow> 's \<Rightarrow> (errno \<times> 's) option" where
  "or_err f g s = do { (e1, s) \<leftarrow> f s; (e2, s) \<leftarrow> g s; Some (e1 OR e2, s) }"

definition b1 :: "bool \<Rightarrow> u8" where
  "b1 b = (if b then 1 else 0)"

definition hdr_byte0 :: "rtp_header \<Rightarrow> u8" where
  "hdr_byte0 h = push_bit 6 (h_ver h AND 2) OR push_bit 5 (b1 (h_pad h)) OR
     push_bit 4 (b1 (h_ext h)) OR (h_cc h AND 15)"

definition hdr_byte1 :: "rtp_header \<Rightarrow> u8" where
  "hdr_byte1 h = push_bit 7 (b1 (h_m h)) OR (h_pt h AND 127)"

text \<open>The loop over the contributing sources; reading past the array is undefined.\<close>

fun encode_csrc :: "allocator \<Rightarrow> u32 list \<Rightarrow> nat \<Rightarrow> nat \<Rightarrow> mbuf option \<Rightarrow> (errno \<times> mbuf option) option" where
  "encode_csrc mm csrc i 0 mb = Some (OK, mb)"
| "encode_csrc mm csrc i (Suc n) mb =
     (if i < length csrc
      then or_err (\<lambda>mb. mbuf_write_u32 mm mb (htonl (csrc ! i))) (encode_csrc mm csrc (Suc i) n) mb
      else None)"

definition rtp_hdr_encode ::
    "allocator \<Rightarrow> mbuf option \<Rightarrow> rtp_header option \<Rightarrow> (errno \<times> mbuf option) option" where
  "rtp_hdr_encode mm mb hdr =
     (case (mb, hdr) of
        (Some _, Some h) \<Rightarrow>
          or_err (\<lambda>mb. mbuf_write_mem mm mb (Some [hdr_byte0 h, hdr_byte1 h]))
            (or_err (\<lambda>mb. mbuf_write_u16 mm mb (htons (h_seq h)))
              (or_err (\<lambda>mb. mbuf_write_u32 mm mb (htonl (h_ts h)))
                (or_err (\<lambda>mb. mbuf_write_u32 mm mb (htonl (h_ssrc h)))
                  (encode_csrc mm (h_csrc h) 0 (unat (h_cc h)))))) mb
      | _ \<Rightarrow> Some (EINVAL, mb))"

text \<open>Decoding: the header is filled field by field, also when an error follows.\<close>

fun decode_csrc :: "nat \<Rightarrow> nat \<Rightarrow> rtp_header \<Rightarrow> mbuf option \<Rightarrow> (rtp_header \<times> mbuf option) option" where
  "decode_csrc i 0 h mb = Some (h, mb)"
| "decode_csrc i (Suc n) h mb = do {
     (v, mb) \<leftarrow> mbuf_read_u32 mb;
     if i < length (h_csrc h) then decode_csrc (Suc i) n (h\<lparr>h_csrc := (h_csrc h)[i := ntohl v]\<rparr>) mb
     else None }"

definition bit_flag :: "u8 \<Rightarrow> nat \<Rightarrow> bool" where
  "bit_flag b n = (drop_bit n b AND 1 \<noteq> 0)"

definition decode_ext ::
    "rtp_header \<Rightarrow> mbuf option \<Rightarrow> (errno \<times> rtp_header \<times> mbuf option) option" where
  "decode_ext h mb =
     (if mbuf_get_left mb < 4 then Some (EBADMSG, h, mb)
      else do {
        (v, mb) \<leftarrow> mbuf_read_u16 mb;
        let h = h\<lparr>h_x_type := ntohs v\<rparr>;
        (v, mb) \<leftarrow> mbuf_read_u16 mb;
        let h = h\<lparr>h_x_len := ntohs v\<rparr>;
        let n = (ucast (h_x_len h) :: u32) * 4;
        if mbuf_get_left mb < n then Some (EBADMSG, h, mb)
        else Some (OK, h, map_option (\<lambda>m. m\<lparr>mb_pos := mb_pos m + n\<rparr>) mb)
      })"

definition rtp_hdr_decode ::
    "rtp_header option \<Rightarrow> mbuf option \<Rightarrow> (errno \<times> rtp_header option \<times> mbuf option) option" where
  "rtp_hdr_decode hdr mb =
     (case (hdr, mb) of
        (Some h, Some _) \<Rightarrow>
          if mbuf_get_left mb < RTP_HEADER_SIZE then Some (EBADMSG, hdr, mb)
          else do {
            (err, buf, mb) \<leftarrow> mbuf_read_mem mb True 2;
            if err \<noteq> 0 then Some (err, hdr, mb)
            else do {
              let b0 = buf ! 0;
              let b1 = buf ! 1;
              let h = h\<lparr>h_ver := drop_bit 6 b0 AND 3, h_pad := bit_flag b0 5, h_ext := bit_flag b0 4,
                        h_cc := b0 AND 15, h_m := bit_flag b1 7, h_pt := b1 AND 127\<rparr>;
              (v, mb) \<leftarrow> mbuf_read_u16 mb;
              let h = h\<lparr>h_seq := ntohs v\<rparr>;
              (v, mb) \<leftarrow> mbuf_read_u32 mb;
              let h = h\<lparr>h_ts := ntohl v\<rparr>;
              (v, mb) \<leftarrow> mbuf_read_u32 mb;
              let h = h\<lparr>h_ssrc := ntohl v\<rparr>;
              if mbuf_get_left mb < (ucast (h_cc h) :: u32) * 4 then Some (EBADMSG, Some h, mb)
              else do {
                (h, mb) \<leftarrow> decode_csrc 0 (unat (h_cc h)) h mb;
                if h_ext h then do { (err, h, mb) \<leftarrow> decode_ext h mb; Some (err, Some h, mb) }
                else Some (OK, Some h, mb)
              }
            }
          }
      | _ \<Rightarrow> Some (EINVAL, hdr, mb))"

section \<open>Socket\<close>

text \<open>\<open>rtcp\<close>: the transmit statistics of the RTCP session when there is one (\<open>sess.c\<close>).\<close>

record txstat =
  tx_psent :: u32
  tx_osent :: u32
  tx_jfs_rt_ref :: u64
  tx_ts_ref :: u32
  tx_ts_synced :: bool

record rtp_sock =
  enc_seq :: u16
  enc_ssrc :: u32
  rs_rtcp :: "txstat option"
  rs_rtcp_mux :: bool

text \<open>The random numbers are arguments.\<close>

definition rtp_alloc :: "bool \<Rightarrow> bool \<Rightarrow> u16 \<Rightarrow> u32 \<Rightarrow> errno \<times> rtp_sock option" where
  "rtp_alloc rsp zalloc_ok r16 r32 =
     (if \<not> rsp then (EINVAL, None)
      else if \<not> zalloc_ok then (ENOMEM, None)
      else (OK, Some \<lparr>enc_seq = r16 AND 32767, enc_ssrc = r32, rs_rtcp = None, rs_rtcp_mux = False\<rparr>))"

definition mk_hdr :: "rtp_sock \<Rightarrow> u16 \<Rightarrow> bool \<Rightarrow> bool \<Rightarrow> u8 \<Rightarrow> u32 \<Rightarrow> rtp_header" where
  "mk_hdr rs seq ext marker pt ts =
     zero_hdr\<lparr>h_ver := RTP_VERSION, h_pad := False, h_ext := ext, h_cc := 0, h_m := marker,
       h_pt := pt, h_seq := seq, h_ts := ts, h_ssrc := enc_ssrc rs\<rparr>"

definition rtp_encode_seq ::
    "allocator \<Rightarrow> rtp_sock option \<Rightarrow> u16 \<Rightarrow> bool \<Rightarrow> bool \<Rightarrow> u8 \<Rightarrow> u32 \<Rightarrow> mbuf option \<Rightarrow>
     (errno \<times> mbuf option) option" where
  "rtp_encode_seq mm rs seq ext marker pt ts mb =
     (case rs of
        None \<Rightarrow> Some (EINVAL, mb)
      | Some r \<Rightarrow>
          if pt AND NOT 127 \<noteq> 0 \<or> mb = None then Some (EINVAL, mb)
          else rtp_hdr_encode mm mb (Some (mk_hdr r seq ext marker pt ts)))"

definition rtp_encode ::
    "allocator \<Rightarrow> rtp_sock option \<Rightarrow> bool \<Rightarrow> bool \<Rightarrow> u8 \<Rightarrow> u32 \<Rightarrow> mbuf option \<Rightarrow>
     (errno \<times> rtp_sock option \<times> mbuf option) option" where
  "rtp_encode mm rs ext marker pt ts mb =
     (case rs of
        None \<Rightarrow> Some (EINVAL, rs, mb)
      | Some r \<Rightarrow>
          if pt AND NOT 127 \<noteq> 0 \<or> mb = None then Some (EINVAL, rs, mb)
          else do {
            let r = r\<lparr>enc_seq := enc_seq r + 1\<rparr>;
            (err, mb) \<leftarrow> rtp_hdr_encode mm mb (Some (mk_hdr r (enc_seq r) ext marker pt ts));
            Some (err, Some r, mb)
          })"

definition rtp_decode ::
    "bool \<Rightarrow> mbuf option \<Rightarrow> rtp_header option \<Rightarrow> (errno \<times> rtp_header option \<times> mbuf option) option" where
  "rtp_decode rs mb hdr =
     (if \<not> rs \<or> mb = None \<or> hdr = None then Some (EINVAL, hdr, mb)
      else do {
        (err, hdr, mb) \<leftarrow> rtp_hdr_decode (Some zero_hdr) mb;
        if err \<noteq> 0 then Some (err, hdr, mb)
        else case hdr of
               None \<Rightarrow> Some (err, hdr, mb)
             | Some h \<Rightarrow> if RTP_VERSION \<noteq> h_ver h then Some (EBADMSG, hdr, mb) else Some (OK, hdr, mb)
      })"

definition rtcp_sess_tx_rtp :: "txstat option \<Rightarrow> u32 \<Rightarrow> u64 \<Rightarrow> u32 \<Rightarrow> txstat option" where
  "rtcp_sess_tx_rtp sess ts jfs_rt payload_size =
     (case sess of
        None \<Rightarrow> None
      | Some t \<Rightarrow>
          let t = t\<lparr>tx_osent := tx_osent t + payload_size, tx_psent := tx_psent t + 1\<rparr>
          in Some (if \<not> tx_ts_synced t
                   then t\<lparr>tx_jfs_rt_ref := jfs_rt, tx_ts_ref := ts, tx_ts_synced := True\<rparr> else t))"

text \<open>\<open>udp_send\<close> sees the bytes from the position to the end; the datagram handed to it is returned
  with its result.\<close>

definition pending :: "mbuf option \<Rightarrow> u8 list" where
  "pending mb =
     (case mb of None \<Rightarrow> [] | Some m \<Rightarrow> take (unat (mbuf_get_left mb)) (drop (unat (mb_pos m)) (the_blk m)))"

definition rtp_send ::
    "allocator \<Rightarrow> (u8 list \<Rightarrow> errno) \<Rightarrow> rtp_sock option \<Rightarrow> bool \<Rightarrow> bool \<Rightarrow> u8 \<Rightarrow> u32 \<Rightarrow> u64 \<Rightarrow> mbuf option \<Rightarrow>
     (errno \<times> rtp_sock option \<times> mbuf option \<times> u8 list option) option" where
  "rtp_send mm udp_send rs ext marker pt ts jfs_rt mb =
     (case (rs, mb) of
        (Some _, Some m) \<Rightarrow>
          if mb_pos m < RTP_HEADER_SIZE then Some (EBADMSG, rs, mb, None)
          else do {
            let m = mbuf_advance m (- int (unat RTP_HEADER_SIZE));
            let pos = mb_pos m;
            (err, rs, mb) \<leftarrow> rtp_encode mm rs ext marker pt ts (Some m);
            if err \<noteq> 0 then Some (err, rs, mb, None)
            else
              let rs = map_option (\<lambda>r. r\<lparr>rs_rtcp := rtcp_sess_tx_rtp (rs_rtcp r) ts jfs_rt (mbuf_get_left mb)\<rparr>) rs;
                  mb = map_option (\<lambda>m. m\<lparr>mb_pos := pos\<rparr>) mb
              in Some (udp_send (pending mb), rs, mb, Some (pending mb))
          }
      | _ \<Rightarrow> Some (EINVAL, rs, mb, None))"

definition rtp_resend ::
    "allocator \<Rightarrow> (u8 list \<Rightarrow> errno) \<Rightarrow> rtp_sock option \<Rightarrow> u16 \<Rightarrow> bool \<Rightarrow> bool \<Rightarrow> u8 \<Rightarrow> u32 \<Rightarrow> mbuf option \<Rightarrow>
     (errno \<times> mbuf option \<times> u8 list option) option" where
  "rtp_resend mm udp_send rs seq ext marker pt ts mb =
     (case (rs, mb) of
        (Some _, Some m) \<Rightarrow>
          if mb_pos m < RTP_HEADER_SIZE then Some (EBADMSG, mb, None)
          else do {
            let m = mbuf_advance m (- int (unat RTP_HEADER_SIZE));
            let pos = mb_pos m;
            (err, mb) \<leftarrow> rtp_encode_seq mm rs seq ext marker pt ts (Some m);
            if err \<noteq> 0 then Some (err, mb, None)
            else
              let mb = map_option (\<lambda>m. m\<lparr>mb_pos := pos\<rparr>) mb
              in Some (udp_send (pending mb), mb, Some (pending mb))
          }
      | _ \<Rightarrow> Some (EINVAL, mb, None))"

definition rtp_pt_is_rtcp :: "u8 \<Rightarrow> bool" where
  "rtp_pt_is_rtcp pt \<longleftrightarrow> 64 \<le> pt \<and> pt \<le> 95"

definition rtp_seq_diff :: "u16 \<Rightarrow> u16 \<Rightarrow> int" where
  "rtp_seq_diff x y = sint (y - x)"

text \<open>Where \<open>udp_recv_handler\<close> sends a datagram.\<close>

datatype rtp_recv = Recv_dropped | Recv_rtcp | Recv_rtp rtp_header mbuf

definition udp_recv_handler :: "rtp_sock \<Rightarrow> mbuf \<Rightarrow> rtp_recv option" where
  "udp_recv_handler rs m =
     (if rs_rtcp_mux rs \<and> mbuf_get_left (Some m) < 2 then Some Recv_dropped
      else do {
        muxed \<leftarrow> (if rs_rtcp_mux rs
                  then map_option (\<lambda>bs. rtp_pt_is_rtcp (bs ! 1 AND 127))
                         (blk_read (unat (mb_pos m)) 2 (the_blk m))
                  else Some False);
        if muxed then Some Recv_rtcp
        else do {
          (err, hdr, mb) \<leftarrow> rtp_decode True (Some m) (Some zero_hdr);
          case (hdr, mb) of
            (Some h, Some m) \<Rightarrow> Some (if err \<noteq> 0 then Recv_dropped else Recv_rtp h m)
          | _ \<Rightarrow> Some Recv_dropped
        }
      })"

definition rtp_sess_ssrc :: "rtp_sock option \<Rightarrow> u32" where
  "rtp_sess_ssrc rs = (case rs of None \<Rightarrow> 0 | Some r \<Rightarrow> enc_ssrc r)"

definition rtp_sess_seq :: "rtp_sock option \<Rightarrow> u16" where
  "rtp_sess_seq rs = (case rs of None \<Rightarrow> 0 | Some r \<Rightarrow> enc_seq r)"

definition rtcp_enable_mux :: "rtp_sock option \<Rightarrow> bool \<Rightarrow> rtp_sock option" where
  "rtcp_enable_mux rs enabled = map_option (\<lambda>r. r\<lparr>rs_rtcp_mux := enabled\<rparr>) rs"

end
