(* ===== verification/Mbuf_Spec.thy ===== *)
theory Mbuf_Spec
  imports Mbuf
begin

text \<open>
  The buffer as data and a position: every operation of \<open>Mbuf\<close> keeps the invariant and does to the
  data what its name says, and a buffer never accesses a byte outside its block as long as the
  position plus the written length does not wrap.
\<close>

section \<open>Abstraction\<close>

definition mb_inv :: "mbuf \<Rightarrow> bool" where
  "mb_inv m \<longleftrightarrow>
     (case mb_buf m of
        None \<Rightarrow> mb_size m = 0
      | Some b \<Rightarrow> unat (mb_size m) \<le> length b \<and> length b < 2 ^ 32) \<and>
     mb_pos m \<le> mb_end m \<and> mb_end m \<le> mb_size m"

definition mb_data :: "mbuf \<Rightarrow> u8 list" where
  "mb_data m = take (unat (mb_end m)) (the_blk m)"

definition mb_off :: "mbuf \<Rightarrow> nat" where
  "mb_off m = unat (mb_pos m)"

text \<open>Data overwritten, and extended where need be, from a position on.\<close>

definition put_at :: "nat \<Rightarrow> 'a list \<Rightarrow> 'a list \<Rightarrow> 'a list" where
  "put_at p bs d = take p d @ bs @ drop (p + length bs) d"

lemma mb_size_le_blk: "mb_inv m \<Longrightarrow> unat (mb_size m) \<le> length (the_blk m)"
  by (auto simp: mb_inv_def the_blk_def split: option.splits)

lemma length_the_blk: "mb_inv m \<Longrightarrow> length (the_blk m) < 2 ^ 32"
  by (auto simp: mb_inv_def the_blk_def split: option.splits)

lemma mb_inv_order:
  assumes "mb_inv m"
  shows "mb_off m \<le> unat (mb_end m)" "unat (mb_end m) \<le> unat (mb_size m)"
    "unat (mb_end m) \<le> length (the_blk m)"
  using assms mb_size_le_blk [OF assms] by (auto simp: mb_inv_def mb_off_def word_le_nat_alt)

lemma length_mb_data: "mb_inv m \<Longrightarrow> length (mb_data m) = unat (mb_end m)"
  using mb_inv_order [of m] by (simp add: mb_data_def)

lemma mb_off_le: "mb_inv m \<Longrightarrow> mb_off m \<le> length (mb_data m)"
  using mb_inv_order [of m] length_mb_data [of m] by simp

lemma length_put_at: "p \<le> length d \<Longrightarrow> length (put_at p bs d) = max (length d) (p + length bs)"
  by (simp add: put_at_def)

lemma put_at_put_at:
  "p \<le> length d \<Longrightarrow> put_at (p + length bs) cs (put_at p bs d) = put_at p (bs @ cs) d"
  by (simp add: put_at_def add.commute add.left_commute)

lemma put_at_Nil [simp]: "put_at p [] d = d"
  by (simp add: put_at_def)

lemma drop_put_at: "p \<le> length d \<Longrightarrow> take (length bs) (drop p (put_at p bs d)) = bs"
  by (simp add: put_at_def)

lemma put_at_end: "put_at (length d) bs d = d @ bs"
  by (simp add: put_at_def)

section \<open>Resizing\<close>

lemma resize_spec:
  assumes "mb_inv m" "mb_end m \<le> n"
  shows "mbuf_resize mm (Some m) n = (ENOMEM, Some m) \<or>
         (\<exists>b. mbuf_resize mm (Some m) n = (OK, Some (m\<lparr>mb_buf := Some b, mb_size := n\<rparr>)) \<and>
              length b = unat n \<and> take (unat (mb_end m)) b = mb_data m)"
proof (cases "mm n")
  case None
  then show ?thesis
    by (auto simp: mbuf_resize_def blk_alloc_def blk_realloc_def split: option.splits)
next
  case (Some f)
  have e: "unat (mb_end m) \<le> unat n" using assms(2) by (simp add: word_le_nat_alt)
  show ?thesis
  proof (cases "mb_buf m")
    case None
    then have "mb_end m = 0" using assms(1) by (auto simp: mb_inv_def word_le_nat_alt unat_eq_zero)
    then show ?thesis using None Some
      by (auto simp: mbuf_resize_def blk_alloc_def mb_data_def the_blk_def)
  next
    case (Some b)
    have "unat (mb_end m) \<le> length b" using mb_inv_order(3) [OF assms(1)] Some by (simp add: the_blk_def)
    then show ?thesis using Some \<open>mm n = Some f\<close> e
      by (auto simp: mbuf_resize_def blk_realloc_def mb_data_def the_blk_def min_def)
  qed
qed

lemma grow_spec:
  assumes "mb_inv m"
  shows "mbuf_grow mm m r = (ENOMEM, Some m) \<or>
         (\<exists>m'. mbuf_grow mm m r = (OK, Some m') \<and> mb_inv m' \<and> mb_data m' = mb_data m \<and>
               mb_pos m' = mb_pos m \<and> mb_end m' = mb_end m \<and> r \<le> mb_size m')"
proof (cases "r > mb_size m")
  case False
  then show ?thesis using assms by (auto simp: mbuf_grow_def)
next
  case True
  define n where "n = max r (if mb_size m \<noteq> 0 then mb_size m * 2 else DEFAULT_SIZE)"
  have g: "mbuf_grow mm m r = mbuf_resize mm (Some m) n" using True by (simp add: mbuf_grow_def n_def)
  have "mb_end m \<le> r" using True assms by (auto simp: mb_inv_def intro: order_trans)
  then have n: "r \<le> n" "mb_end m \<le> n" by (simp_all add: n_def le_max_iff_disj)
  from resize_spec [OF assms n(2), of mm] show ?thesis
  proof
    assume "\<exists>b. mbuf_resize mm (Some m) n = (OK, Some (m\<lparr>mb_buf := Some b, mb_size := n\<rparr>)) \<and>
              length b = unat n \<and> take (unat (mb_end m)) b = mb_data m"
    then obtain b where b: "mbuf_resize mm (Some m) n = (OK, Some (m\<lparr>mb_buf := Some b, mb_size := n\<rparr>))"
      "length b = unat n" "take (unat (mb_end m)) b = mb_data m" by blast
    then show ?thesis using n assms g
      by (intro disjI2 exI [of _ "m\<lparr>mb_buf := Some b, mb_size := n\<rparr>"])
        (auto simp: mb_inv_def mb_data_def the_blk_def unat_u32_less)
  qed (simp add: g)
qed

lemma grow_no_alloc: "r \<le> mb_size m \<Longrightarrow> mbuf_grow mm m r = (OK, Some m)"
  by (simp add: mbuf_grow_def leD)

text \<open>A fresh buffer, with the position set to the headroom before anything is written.\<close>

lemma mbuf_alloc_room:
  assumes "mm n = Some f" "n \<noteq> 0"
  obtains m where "mbuf_alloc mm True n = Some m" "mb_inv (m\<lparr>mb_pos := p, mb_end := p\<rparr>) \<longleftrightarrow> p \<le> n" "mb_size m = n"
  using assms by (auto simp: mbuf_alloc_def mbuf_resize_def blk_alloc_def mb_inv_def unat_u32_less
      word_le_nat_alt less_imp_le [OF unat_u32_less])

section \<open>Writing\<close>

lemma upd_blk_write:
  assumes "mb_inv m" "mb_off m + length bs \<le> unat (mb_size m)"
  shows "\<exists>m'. upd_blk (blk_write (mb_off m) bs) m = Some m' \<and> mb_pos m' = mb_pos m \<and>
              mb_end m' = mb_end m \<and> mb_size m' = mb_size m \<and>
              (mb_buf m' = None \<longleftrightarrow> mb_buf m = None) \<and>
              the_blk m' = put_at (mb_off m) bs (the_blk m)"
proof (cases "mb_buf m")
  case None
  then have "mb_size m = 0" using assms(1) by (simp add: mb_inv_def)
  then show ?thesis using None assms(2)
    by (simp add: upd_blk_def blk_write_def the_blk_def put_at_def)
next
  case (Some b)
  then have "mb_off m + length bs \<le> length b" using assms mb_size_le_blk [OF assms(1)]
    by (simp add: the_blk_def)
  then show ?thesis using Some by (simp add: upd_blk_def blk_write_in the_blk_def put_at_def)
qed

text \<open>The write, once there is room: the common end of \<open>mbuf_write_mem\<close> and \<open>mbuf_fill\<close>.\<close>

lemma store_spec:
  assumes inv: "mb_inv m" and room: "mb_off m + length bs \<le> unat (mb_size m)"
  shows "\<exists>m'. (do { m \<leftarrow> upd_blk (blk_write (unat (mb_pos m)) bs) m;
                    let pos = mb_pos m + word_of_nat (length bs);
                    Some (OK, Some (m\<lparr>mb_pos := pos, mb_end := max (mb_end m) pos\<rparr>)) })
               = Some (OK, Some m') \<and> mb_inv m' \<and> mb_data m' = put_at (mb_off m) bs (mb_data m) \<and>
              mb_off m' = mb_off m + length bs \<and> mb_size m' = mb_size m"
proof -
  obtain m1 where m1: "upd_blk (blk_write (mb_off m) bs) m = Some m1" "mb_pos m1 = mb_pos m"
    "mb_end m1 = mb_end m" "mb_size m1 = mb_size m" "mb_buf m1 = None \<longleftrightarrow> mb_buf m = None"
    "the_blk m1 = put_at (mb_off m) bs (the_blk m)"
    using upd_blk_write [OF inv room] by (elim exE conjE) (rule that)
  define p where "p = mb_pos m + word_of_nat (length bs)"
  have l: "unat (word_of_nat (length bs) :: u32) = length bs"
    using room unat_u32_less [of "mb_size m"] by (intro unat_of_nat_u32) simp
  have p: "unat p = mb_off m + length bs"
    unfolding p_def mb_off_def using l room unat_u32_less [of "mb_size m"]
    by (subst unat_add_u32) (simp_all add: mb_off_def)
  define m2 where "m2 = m1\<lparr>mb_pos := p, mb_end := max (mb_end m) p\<rparr>"
  have e: "unat (mb_end m) \<le> length (the_blk m)" "mb_off m \<le> unat (mb_end m)"
    using mb_inv_order [OF inv] by simp_all
  have s: "unat (mb_size m) \<le> length (the_blk m)" using mb_size_le_blk [OF inv] .
  have blk: "the_blk m2 = put_at (mb_off m) bs (the_blk m)" using m1(6) by (simp add: m2_def the_blk_def)
  have me: "unat (mb_end m2) = max (unat (mb_end m)) (mb_off m + length bs)"
    using p by (auto simp: m2_def max_def word_le_nat_alt)
  have "mb_inv m2"
  proof -
    have "length (the_blk m2) = length (the_blk m)" using s room e by (simp add: blk length_put_at)
    moreover have "p \<le> mb_size m" using p room by (simp add: word_le_nat_alt)
    ultimately show ?thesis using inv m1 s
      by (auto simp: mb_inv_def m2_def the_blk_def max_def word_le_nat_alt split: option.splits)
  qed
  moreover have "mb_data m2 = put_at (mb_off m) bs (mb_data m)"
    unfolding mb_data_def blk me using e s room
    by (auto simp: put_at_def min_def max_def take_drop)
  moreover have "mb_off m2 = mb_off m + length bs" using p by (simp add: m2_def mb_off_def)
  moreover have "mb_size m2 = mb_size m" by (simp add: m2_def m1)
  ultimately show ?thesis
    by (intro exI [of _ m2]) (simp add: m1 mb_off_def [symmetric] m2_def p_def Let_def)
qed

lemma write_mem_spec:
  assumes inv: "mb_inv m" and fits: "mb_off m + length bs < 2 ^ 32"
  shows "mbuf_write_mem mm (Some m) (Some bs) = Some (ENOMEM, Some m) \<or>
         (\<exists>m'. mbuf_write_mem mm (Some m) (Some bs) = Some (OK, Some m') \<and> mb_inv m' \<and>
               mb_data m' = put_at (mb_off m) bs (mb_data m) \<and> mb_off m' = mb_off m + length bs)"
proof -
  let ?r = "mb_pos m + word_of_nat (length bs)"
  have l: "unat (word_of_nat (length bs) :: u32) = length bs"
    using fits by (intro unat_of_nat_u32) simp
  have r: "unat ?r = mb_off m + length bs"
    using fits l by (subst unat_add_u32) (simp_all add: mb_off_def)
  from grow_spec [OF inv, of mm ?r] show ?thesis
  proof
    assume "\<exists>m'. mbuf_grow mm m ?r = (OK, Some m') \<and> mb_inv m' \<and> mb_data m' = mb_data m \<and>
               mb_pos m' = mb_pos m \<and> mb_end m' = mb_end m \<and> ?r \<le> mb_size m'"
    then obtain g where g: "mbuf_grow mm m ?r = (OK, Some g)" "mb_inv g" "mb_data g = mb_data m"
      "mb_pos g = mb_pos m" "?r \<le> mb_size g" by blast
    then have "mb_off g + length bs \<le> unat (mb_size g)" using r by (simp add: mb_off_def word_le_nat_alt)
    from store_spec [OF g(2) this] g show ?thesis
      by (auto simp: mbuf_write_mem_def mb_off_def)
  qed (simp add: mbuf_write_mem_def)
qed

text \<open>Writing fails only when the block must grow and there is no memory.\<close>

lemma write_mem_room:
  assumes "mb_inv m" "mb_off m + length bs \<le> unat (mb_size m)"
  shows "\<exists>m'. mbuf_write_mem mm (Some m) (Some bs) = Some (OK, Some m') \<and> mb_inv m' \<and>
              mb_data m' = put_at (mb_off m) bs (mb_data m) \<and> mb_off m' = mb_off m + length bs \<and>
              mb_size m' = mb_size m"
proof -
  have l: "unat (word_of_nat (length bs) :: u32) = length bs"
    using assms(2) unat_u32_less [of "mb_size m"] by (intro unat_of_nat_u32) simp
  have "mb_pos m + word_of_nat (length bs) \<le> mb_size m"
    unfolding word_le_nat_alt using assms(2) l unat_u32_less [of "mb_size m"]
    by (subst unat_add_u32) (simp_all add: mb_off_def)
  from grow_no_alloc [OF this] store_spec [OF assms] show ?thesis
    by (auto simp: mbuf_write_mem_def)
qed

text \<open>\<open>mbuf_fill\<close> is \<open>mbuf_write_mem\<close> of that many copies of the byte.\<close>

lemma fill_eq_write:
  "n \<noteq> 0 \<Longrightarrow> mbuf_fill mm (Some m) c n = mbuf_write_mem mm (Some m) (Some (replicate (unat n) c))"
  by (simp add: mbuf_fill_def mbuf_write_mem_def split: prod.splits option.splits)

section \<open>Reading\<close>

lemma left_eq: "mb_inv m \<Longrightarrow> unat (mbuf_get_left (Some m)) = length (mb_data m) - mb_off m"
  using mb_inv_order [of m]
  by (auto simp: mbuf_get_left_def length_mb_data mb_off_def word_less_nat_alt unat_sub_if' word_le_nat_alt)

lemma seek_inv:
  assumes "mb_inv m" "unat p \<le> length (mb_data m)"
  shows "mb_inv (m\<lparr>mb_pos := p\<rparr>)" "mb_data (m\<lparr>mb_pos := p\<rparr>) = mb_data m"
    "mb_off (m\<lparr>mb_pos := p\<rparr>) = unat p"
  using assms length_mb_data [OF assms(1)]
  by (auto simp: mb_inv_def mb_data_def the_blk_def mb_off_def word_le_nat_alt split: option.splits)

lemma read_mem_spec:
  assumes inv: "mb_inv m" and n: "unat n \<le> length (mb_data m) - mb_off m"
  shows "\<exists>m'. mbuf_read_mem (Some m) True n =
                Some (OK, take (unat n) (drop (mb_off m) (mb_data m)), Some m') \<and> mb_inv m' \<and>
              mb_data m' = mb_data m \<and> mb_off m' = mb_off m + unat n"
proof -
  have o: "mb_off m \<le> unat (mb_end m)" "unat (mb_end m) \<le> length (the_blk m)"
    using mb_inv_order [OF inv] by simp_all
  have l: "length (mb_data m) = unat (mb_end m)" using length_mb_data [OF inv] .
  have s: "unat (mb_pos m + n) = mb_off m + unat n"
    unfolding mb_off_def using n o l unat_u32_less [of "mb_end m"]
    by (intro unat_add_u32) (simp add: mb_off_def)
  have le: "\<not> n > mbuf_get_left (Some m)"
    using n left_eq [OF inv] by (simp add: word_less_nat_alt)
  have r: "blk_read (unat (mb_pos m)) (unat n) (the_blk m)
            = Some (take (unat n) (drop (mb_off m) (mb_data m)))"
    using n o l by (simp add: blk_read_in mb_off_def [symmetric] mb_data_def drop_take min_def)
  have "unat (mb_pos m + n) \<le> length (mb_data m)" using n o l s by simp
  from seek_inv [OF inv this] le r s show ?thesis by (simp add: mbuf_read_mem_def)
qed

lemma read_mem_beyond:
  assumes "mb_inv m" "length (mb_data m) - mb_off m < unat n"
  shows "mbuf_read_mem (Some m) True n = Some (EOVERFLOW, [], Some m)"
  using assms left_eq [OF assms(1)] by (simp add: mbuf_read_mem_def word_less_nat_alt)

lemma read_u8_spec:
  assumes "mb_inv m"
  shows "\<exists>m'. mbuf_read_u8 (Some m) =
             Some (case drop (mb_off m) (mb_data m) of [] \<Rightarrow> 0 | b # _ \<Rightarrow> b, Some m') \<and> mb_inv m' \<and>
             mb_data m' = mb_data m \<and> mb_off m' = min (Suc (mb_off m)) (length (mb_data m))"
proof (cases "drop (mb_off m) (mb_data m)")
  case Nil
  then have "mb_off m = length (mb_data m)" using mb_off_le [OF assms] by simp
  then show ?thesis using read_mem_beyond [OF assms, of 1] assms Nil by (simp add: mbuf_read_u8_def)
next
  case (Cons b bs)
  then have o: "mb_off m < length (mb_data m)" by (metis drop_eq_Nil leI list.distinct(1))
  then have "unat (1 :: u32) \<le> length (mb_data m) - mb_off m" by simp
  from read_mem_spec [OF assms this] Cons o show ?thesis
    by (auto simp: mbuf_read_u8_def)
qed

text \<open>What \<open>mbuf_read_str\<close> stores for the remaining data \<open>rest\<close> and room for \<open>n\<close> bytes.\<close>

definition str_out :: "nat \<Rightarrow> u8 list \<Rightarrow> u8 list" where
  "str_out n rest =
     (let s = takeWhile (\<lambda>b. b \<noteq> 0) rest in if length s < n then s @ [0] else take n s)"

lemma str_out_Suc:
  "str_out (Suc n) rest =
     (case rest of [] \<Rightarrow> [0] | b # bs \<Rightarrow> if b = 0 then [0] else b # str_out n bs)"
  by (auto simp: str_out_def Let_def split: list.split)

lemma read_str_loop_spec:
  "mb_inv m \<Longrightarrow>
   \<exists>m'. read_str_loop n (Some m) = Some (str_out n (drop (mb_off m) (mb_data m)), Some m') \<and>
        mb_inv m' \<and> mb_data m' = mb_data m"
proof (induction n arbitrary: m)
  case 0
  then show ?case by (simp add: str_out_def)
next
  case (Suc n)
  obtain m1 where m1: "mbuf_read_u8 (Some m) =
             Some (case drop (mb_off m) (mb_data m) of [] \<Rightarrow> 0 | b # _ \<Rightarrow> b, Some m1)"
    "mb_inv m1" "mb_data m1 = mb_data m" "mb_off m1 = min (Suc (mb_off m)) (length (mb_data m))"
    using read_u8_spec [OF Suc.prems] by (elim exE conjE) (rule that)
  show ?case
  proof (cases "drop (mb_off m) (mb_data m)")
    case Nil
    then show ?thesis using m1 by (simp add: str_out_Suc)
  next
    case (Cons b bs)
    then have o: "mb_off m < length (mb_data m)" by (metis drop_eq_Nil leI list.distinct(1))
    then have d: "drop (mb_off m1) (mb_data m1) = bs"
      using Cons m1(3,4) by (simp add: min_def) (metis drop_Suc list.sel(3) tl_drop)
    from Suc.IH [OF m1(2)] m1(1-3) Cons d show ?thesis
      by (auto simp: str_out_Suc)
  qed
qed

section \<open>Moving and trimming\<close>

lemma set_posend_spec:
  assumes "mb_inv m"
  shows "\<exists>m'. mbuf_set_posend (Some m) p e = Some m' \<and> mb_inv m' \<and>
              (p \<le> e \<and> e \<le> mb_size m \<longrightarrow> mb_off m' = unat p \<and> length (mb_data m') = unat e)"
proof (cases "p \<le> e \<and> e \<le> mb_size m")
  case True
  then have i: "mb_inv (m\<lparr>mb_pos := p, mb_end := e\<rparr>)"
    using assms by (auto simp: mb_inv_def split: option.splits)
  then show ?thesis using True length_mb_data [OF i]
    by (auto simp: mbuf_set_posend_def mb_off_def leD)
next
  case False
  then show ?thesis using assms by (auto simp: mbuf_set_posend_def not_le)
qed

lemma trim_spec:
  assumes "mb_inv m"
  shows "\<exists>m'. mbuf_trim mm (Some m) = Some m' \<and> mb_inv m' \<and> mb_data m' = mb_data m \<and>
              mb_off m' = mb_off m \<and> (mm (mb_end m) \<noteq> None \<longrightarrow> mb_end m \<noteq> 0 \<longrightarrow> mb_size m' = mb_end m')"
proof (cases "mb_end m = 0 \<or> mb_end m = mb_size m")
  case True
  then show ?thesis using assms by (auto simp: mbuf_trim_def)
next
  case False
  from resize_spec [OF assms order_refl, of mm] show ?thesis
  proof
    assume "mbuf_resize mm (Some m) (mb_end m) = (ENOMEM, Some m)"
    then show ?thesis using False assms
      by (auto simp: mbuf_trim_def mbuf_resize_def blk_realloc_def blk_alloc_def split: option.splits)
  next
    assume "\<exists>b. mbuf_resize mm (Some m) (mb_end m) =
                  (OK, Some (m\<lparr>mb_buf := Some b, mb_size := mb_end m\<rparr>)) \<and>
                length b = unat (mb_end m) \<and> take (unat (mb_end m)) b = mb_data m"
    then show ?thesis using False assms
      by (auto simp: mbuf_trim_def mb_inv_def mb_data_def the_blk_def mb_off_def unat_u32_less)
  qed
qed

text \<open>The part of \<open>mbuf_shift\<close> after the checks: the pending bytes move, what was before them stays.\<close>

lemma shift_move:
  assumes inv: "mb_inv m" and lo: "0 \<le> int (mb_off m) + sh"
    and hi: "int (unat (mb_end m)) + sh \<le> int (unat (mb_size m))"
  shows "\<exists>m'. (do { m \<leftarrow> upd_blk (blk_move (nat (uint (mb_pos m) + sh)) (unat (mb_pos m))
                                (unat (mbuf_get_left (Some m)))) m;
                    Some (OK, Some (m\<lparr>mb_pos := mb_pos m + word_of_int sh,
                                      mb_end := mb_end m + word_of_int sh\<rparr>)) })
              = Some (OK, Some m') \<and> mb_inv m' \<and> int (mb_off m') = int (mb_off m) + sh \<and>
              drop (mb_off m') (mb_data m') = drop (mb_off m) (mb_data m) \<and>
              take (min (mb_off m) (mb_off m')) (mb_data m') = take (min (mb_off m) (mb_off m')) (mb_data m)"
proof -
  let ?p = "mb_off m" and ?e = "unat (mb_end m)"
  define q where "q = nat (int ?p + sh)"
  have q: "int q = int ?p + sh" using lo by (simp add: q_def)
  have o: "?p \<le> ?e" "?e \<le> unat (mb_size m)" "?e \<le> length (the_blk m)" using mb_inv_order [OF inv] by simp_all
  have s: "unat (mb_size m) \<le> length (the_blk m)" using mb_size_le_blk [OF inv] .
  have left: "unat (mbuf_get_left (Some m)) = ?e - ?p" using left_eq [OF inv] length_mb_data [OF inv] by simp
  define f where "f = blk_move q ?p (?e - ?p)"
  have qe: "q + (?e - ?p) \<le> unat (mb_size m)" using q hi o by linarith
  have f: "f b = Some (take q b @ take (?e - ?p) (drop ?p b) @ drop (q + (?e - ?p)) b)"
    if "unat (mb_size m) \<le> length b" for b
    unfolding f_def using that o qe by (intro blk_move_in) linarith+
  define m1 where "m1 = (case mb_buf m of None \<Rightarrow> m | Some b \<Rightarrow> m\<lparr>mb_buf := Some (the (f b))\<rparr>)"
  have m1: "upd_blk f m = Some m1" "the_blk m1 = the (f (the_blk m))" "mb_pos m1 = mb_pos m"
    "mb_end m1 = mb_end m" "mb_size m1 = mb_size m" "mb_buf m1 = None \<longleftrightarrow> mb_buf m = None"
    using inv f [of "[]"] f by (auto simp: upd_blk_def m1_def the_blk_def mb_inv_def split: option.splits)
  define m2 where "m2 = m1\<lparr>mb_pos := mb_pos m + word_of_int sh, mb_end := mb_end m + word_of_int sh\<rparr>"
  have u: "unat (mb_pos m + word_of_int sh) = q" "unat (mb_end m + word_of_int sh) = q + (?e - ?p)"
  proof -
    have e: "int ?e + sh = int (q + (?e - ?p))" using q o by linarith
    have lt: "int ?e + sh < 2 ^ 32" using hi int_unat_u32_less [of "mb_size m"] by simp
    have "unat (mb_end m + word_of_int sh) = nat (int ?e + sh)"
      using e lt by (intro unat_add_of_int) linarith+
    then show "unat (mb_end m + word_of_int sh) = q + (?e - ?p)" unfolding e by simp
    have "int ?p + sh < 2 ^ 32" using lt o by linarith
    from unat_add_of_int [of "mb_pos m" sh, folded mb_off_def, OF lo this]
    have "unat (mb_pos m + word_of_int sh) = nat (int ?p + sh)" .
    then show "unat (mb_pos m + word_of_int sh) = q" by (simp add: q_def)
  qed
  have fb: "the (f (the_blk m)) = take q (the_blk m) @ take (?e - ?p) (drop ?p (the_blk m)) @
              drop (q + (?e - ?p)) (the_blk m)" (is "_ = ?b") using f [OF s] by simp
  have b2: "the_blk m2 = ?b" using m1(2) fb by (simp add: m2_def the_blk_def)
  have lb: "length ?b = length (the_blk m)" using o qe s by simp
  have i2: "mb_inv m2"
  proof -
    have 1: "mb_buf m2 = mb_buf m1" "mb_size m2 = mb_size m" by (simp_all add: m2_def m1(5))
    have 2: "mb_pos m2 \<le> mb_end m2 \<and> mb_end m2 \<le> mb_size m2"
      using u qe by (simp add: word_le_nat_alt m2_def m1(5))
    have 3: "length (the_blk m2) = length (the_blk m)" using b2 lb by simp
    show ?thesis
    proof (cases "mb_buf m")
      case None
      then show ?thesis using 1 2 m1(6) inv by (auto simp: mb_inv_def)
    next
      case (Some b)
      then obtain b' where "mb_buf m1 = Some b'" using m1(6) by auto
      then show ?thesis using 1 2 3 Some inv by (simp add: mb_inv_def the_blk_def)
    qed
  qed
  have off2: "mb_off m2 = q" "unat (mb_end m2) = q + (?e - ?p)" using u by (simp_all add: m2_def mb_off_def)
  have ql: "q \<le> length (the_blk m)" using qe s by simp
  have d2: "mb_data m2 = take q (the_blk m) @ take (?e - ?p) (drop ?p (the_blk m))"
    unfolding mb_data_def b2 off2 using o ql by simp
  have "drop q (mb_data m2) = drop ?p (mb_data m)"
    unfolding d2 using ql by (simp add: mb_data_def drop_take)
  moreover have "take (min ?p q) (mb_data m2) = take (min ?p q) (mb_data m)"
    unfolding d2 using ql o by (auto simp: mb_data_def min_def)
  moreover have "nat (uint (mb_pos m) + sh) = q" unfolding q_def mb_off_def uint_nat ..
  ultimately show ?thesis using i2 off2 q m1(1,3,4)
    by (intro exI [of _ m2]) (simp add: f_def left mb_off_def [symmetric] m2_def)
qed

lemma shift_underflow:
  assumes inv: "mb_inv m" and sm: "unat (mb_end m) < 2 ^ 31" and lo: "- (2 ^ 31) \<le> sh"
    and neg: "int (mb_off m) + sh < 0"
  shows "mbuf_shift mm (Some m) sh = Some (ERANGE, Some m)"
proof -
  have "unat (mb_pos m) < 2 ^ 31" using mb_inv_order [OF inv] sm by (simp add: mb_off_def)
  from sint_u32_small [OF this] have "sint (mb_pos m) = int (mb_off m)" by (simp add: mb_off_def)
  then show ?thesis using lo neg by (simp add: mbuf_shift_def ssize_add_def)
qed

lemma shift_spec:
  assumes inv: "mb_inv m" and sm: "unat (mb_end m) < 2 ^ 31"
    and hi: "int (unat (mb_end m)) + sh < 2 ^ 31" and lo: "0 \<le> int (mb_off m) + sh"
  shows "mbuf_shift mm (Some m) sh = Some (ENOMEM, Some m) \<or>
         (\<exists>m'. mbuf_shift mm (Some m) sh = Some (OK, Some m') \<and> mb_inv m' \<and>
               int (mb_off m') = int (mb_off m) + sh \<and>
               drop (mb_off m') (mb_data m') = drop (mb_off m) (mb_data m) \<and>
               take (min (mb_off m) (mb_off m')) (mb_data m') =
                 take (min (mb_off m) (mb_off m')) (mb_data m))"
proof -
  have o: "mb_off m \<le> unat (mb_end m)" "unat (mb_end m) \<le> unat (mb_size m)"
    using mb_inv_order [OF inv] by simp_all
  have si: "sint (mb_pos m) = int (mb_off m)" "sint (mb_end m) = int (unat (mb_end m))"
    using o sm by (simp_all add: mb_off_def sint_u32_small)
  have ok: "ssize_add (sint (mb_pos m)) sh = Some (int (mb_off m) + sh)"
    "ssize_add (sint (mb_end m)) sh = Some (int (unat (mb_end m)) + sh)"
  proof -
    have "int (mb_off m) + sh < 2 ^ 31" "- (2 ^ 31) \<le> int (mb_off m) + sh"
      "- (2 ^ 31) \<le> int (unat (mb_end m)) + sh" using o lo hi by linarith+
    then show "ssize_add (sint (mb_pos m)) sh = Some (int (mb_off m) + sh)"
      "ssize_add (sint (mb_end m)) sh = Some (int (unat (mb_end m)) + sh)"
      unfolding si ssize_add_def using hi by (simp_all only: simp_thms if_True)
  qed
  have nn: "\<not> int (mb_off m) + sh < 0" "\<not> int (unat (mb_end m)) + sh < 0" using o lo by linarith+
  let ?r = "mb_end m + word_of_int sh"
  have r: "int (unat ?r) = int (unat (mb_end m)) + sh" 
  proof -
    have "int (unat (mb_end m)) + sh < 2 ^ 32" using hi by simp
    from unat_add_of_int [OF _ this] nn(2) show ?thesis by simp
  qed
  define res where "res = (if ?r > mb_size m then mbuf_resize mm (Some m) ?r else (OK, Some m))"
  have s: "mbuf_shift mm (Some m) sh =
      (let (err, mb) = res in
       if err \<noteq> 0 then Some (err, mb)
       else case mb of None \<Rightarrow> Some (err, mb)
            | Some m \<Rightarrow> do { m \<leftarrow> upd_blk (blk_move (nat (uint (mb_pos m) + sh)) (unat (mb_pos m))
                                      (unat (mbuf_get_left (Some m)))) m;
                          Some (OK, Some (m\<lparr>mb_pos := mb_pos m + word_of_int sh,
                                            mb_end := mb_end m + word_of_int sh\<rparr>)) })"
    using nn by (simp add: mbuf_shift_def ok res_def Let_def)
  have "res = (ENOMEM, Some m) \<or>
        (\<exists>g. res = (OK, Some g) \<and> mb_inv g \<and> mb_data g = mb_data m \<and> mb_pos g = mb_pos m \<and>
             mb_end g = mb_end m \<and> ?r \<le> mb_size g)"
  proof (cases "?r > mb_size m")
    case True
    have "mb_end m \<le> mb_size m" using o by (simp add: word_le_nat_alt)
    then have "mb_end m \<le> ?r" using True by (meson less_imp_le order_trans)
    from resize_spec [OF inv this, of mm] show ?thesis
    proof
      assume "\<exists>b. mbuf_resize mm (Some m) ?r = (OK, Some (m\<lparr>mb_buf := Some b, mb_size := ?r\<rparr>)) \<and>
              length b = unat ?r \<and> take (unat (mb_end m)) b = mb_data m"
      then obtain b where b: "mbuf_resize mm (Some m) ?r = (OK, Some (m\<lparr>mb_buf := Some b, mb_size := ?r\<rparr>))"
        "length b = unat ?r" "take (unat (mb_end m)) b = mb_data m" by blast
      then show ?thesis using True inv \<open>mb_end m \<le> ?r\<close>
        by (intro disjI2 exI [of _ "m\<lparr>mb_buf := Some b, mb_size := ?r\<rparr>"])
          (simp add: res_def mb_inv_def mb_data_def the_blk_def unat_u32_less)
    qed (use True in \<open>simp add: res_def\<close>)
  next
    case False
    then have "res = (OK, Some m)" by (simp only: res_def if_False)
    then show ?thesis using inv False by (intro disjI2 exI [of _ m]) (simp add: not_less)
  qed
  then show ?thesis
  proof
    assume "\<exists>g. res = (OK, Some g) \<and> mb_inv g \<and> mb_data g = mb_data m \<and> mb_pos g = mb_pos m \<and>
             mb_end g = mb_end m \<and> ?r \<le> mb_size g"
    then obtain g where g: "res = (OK, Some g)" "mb_inv g" "mb_data g = mb_data m"
      "mb_pos g = mb_pos m" "mb_end g = mb_end m" "?r \<le> mb_size g" by blast
    have "0 \<le> int (mb_off g) + sh" using lo g by (simp add: mb_off_def)
    moreover have "int (unat (mb_end g)) + sh \<le> int (unat (mb_size g))"
    proof -
      have "unat ?r \<le> unat (mb_size g)" using g(6) by (simp only: word_le_nat_alt)
      then show ?thesis using r unfolding g(5) by linarith
    qed
    ultimately show ?thesis using shift_move [OF g(2)] g unfolding s
      by (simp add: mb_off_def [of g] mb_off_def [of m])
  qed (simp add: s)
qed

section \<open>The interface of a byte buffer\<close>

text \<open>
  What the packet formats rely on: a position in some data, a write that overwrites from the
  position on, a read that copies and advances, and seeking.
\<close>

fun write_all :: "('b \<Rightarrow> u8 list \<Rightarrow> 'b option) \<Rightarrow> 'b \<Rightarrow> u8 list list \<Rightarrow> 'b option" where
  "write_all w b [] = Some b"
| "write_all w b (f # fs) = do { b \<leftarrow> w b f; write_all w b fs }"

fun read_all :: "('b \<Rightarrow> nat \<Rightarrow> (u8 list \<times> 'b) option) \<Rightarrow> 'b \<Rightarrow> nat list \<Rightarrow> (u8 list list \<times> 'b) option" where
  "read_all r b [] = Some ([], b)"
| "read_all r b (n # ns) = do { (f, b) \<leftarrow> r b n; (fs, b) \<leftarrow> read_all r b ns; Some (f # fs, b) }"

locale byte_buffer =
  fixes inv :: "'b \<Rightarrow> bool"
    and data :: "'b \<Rightarrow> u8 list"
    and off :: "'b \<Rightarrow> nat"
    and put :: "'b \<Rightarrow> u8 list \<Rightarrow> 'b option"
    and get :: "'b \<Rightarrow> nat \<Rightarrow> (u8 list \<times> 'b) option"
    and seek :: "'b \<Rightarrow> nat \<Rightarrow> 'b"
  assumes off_le: "inv b \<Longrightarrow> off b \<le> length (data b)"
    and put_law: "inv b \<Longrightarrow> put b bs = Some b' \<Longrightarrow>
          inv b' \<and> data b' = put_at (off b) bs (data b) \<and> off b' = off b + length bs"
    and get_law: "inv b \<Longrightarrow> off b + n \<le> length (data b) \<Longrightarrow>
          \<exists>b'. get b n = Some (take n (drop (off b) (data b)), b') \<and> inv b' \<and>
               data b' = data b \<and> off b' = off b + n"
    and get_short: "inv b \<Longrightarrow> length (data b) < off b + n \<Longrightarrow> get b n = None"
    and seek_law: "inv b \<Longrightarrow> p \<le> length (data b) \<Longrightarrow>
          inv (seek b p) \<and> data (seek b p) = data b \<and> off (seek b p) = p"
begin

lemma write_all_data:
  "inv b \<Longrightarrow> write_all put b fs = Some b' \<Longrightarrow>
   inv b' \<and> data b' = put_at (off b) (concat fs) (data b) \<and> off b' = off b + length (concat fs)"
proof (induction fs arbitrary: b)
  case Nil
  then show ?case by simp
next
  case (Cons f fs)
  then obtain b1 where b1: "put b f = Some b1" "write_all put b1 fs = Some b'"
    by (auto split: bind_split_asm)
  note l = put_law [OF Cons.prems(1) b1(1)]
  with Cons.IH [OF _ b1(2)] show ?case
    using off_le [OF Cons.prems(1)] by (simp add: put_at_put_at)
qed

lemma read_all_data:
  "inv b \<Longrightarrow> take (length (concat fs)) (drop (off b) (data b)) = concat fs \<Longrightarrow>
   off b + length (concat fs) \<le> length (data b) \<Longrightarrow>
   \<exists>b'. read_all get b (map length fs) = Some (fs, b') \<and> inv b' \<and> data b' = data b \<and>
        off b' = off b + length (concat fs)"
proof (induction fs arbitrary: b)
  case Nil
  then show ?case by simp
next
  case (Cons f fs)
  have "off b + length f \<le> length (data b)" using Cons.prems(3) by simp
  from get_law [OF Cons.prems(1) this] obtain b1 where
    b1: "get b (length f) = Some (take (length f) (drop (off b) (data b)), b1)" "inv b1"
      "data b1 = data b" "off b1 = off b + length f" by (elim exE conjE) (rule that)
  have f: "take (length f) (drop (off b) (data b)) = f"
    using arg_cong [OF Cons.prems(2), of "take (length f)"] by (simp add: min_def)
  have "take (length (concat fs)) (drop (off b1) (data b1)) = concat fs"
    using arg_cong [OF Cons.prems(2), of "drop (length f)"] b1 by (simp add: drop_take add.commute)
  moreover have "off b1 + length (concat fs) \<le> length (data b1)" using Cons.prems(3) b1 by simp
  ultimately show ?case using Cons.IH [OF b1(2)] b1 f by (auto simp: add.assoc)
qed

text \<open>Fields written in a row are get back, in the same lengths, from where they were put.\<close>

lemma read_back:
  assumes "inv b" "write_all put b fs = Some b'"
  shows "\<exists>b''. read_all get (seek b' (off b)) (map length fs) = Some (fs, b'') \<and> inv b'' \<and>
               data b'' = data b' \<and> off b'' = off b'"
proof -
  note w = write_all_data [OF assms]
  have ob: "off b \<le> length (data b)" using off_le [OF assms(1)] .
  then have "off b \<le> length (data b')" using w by (simp add: length_put_at)
  with seek_law [of b' "off b"] w have s: "inv (seek b' (off b))" "data (seek b' (off b)) = data b'"
    "off (seek b' (off b)) = off b" by simp_all
  have "take (length (concat fs)) (drop (off b) (data b')) = concat fs"
    using w ob by (simp add: drop_put_at)
  moreover have "off b + length (concat fs) \<le> length (data b')" using w ob by (simp add: length_put_at)
  ultimately show ?thesis using read_all_data [OF s(1), of fs] s w by simp
qed

end

text \<open>The buffer of libre provides it, whatever the allocator does.\<close>

definition mb_write :: "allocator \<Rightarrow> mbuf \<Rightarrow> u8 list \<Rightarrow> mbuf option" where
  "mb_write mm m bs =
     (case mbuf_write_mem mm (Some m) (Some bs) of Some (0, Some m') \<Rightarrow> Some m' | _ \<Rightarrow> None)"

definition mb_read :: "mbuf \<Rightarrow> nat \<Rightarrow> (u8 list \<times> mbuf) option" where
  "mb_read m n =
     (if 2 ^ 32 \<le> n then None
      else case mbuf_read_mem (Some m) True (word_of_nat n) of
             Some (0, bs, Some m') \<Rightarrow> Some (bs, m') | _ \<Rightarrow> None)"

definition mb_seek :: "mbuf \<Rightarrow> nat \<Rightarrow> mbuf" where
  "mb_seek m p = mbuf_set_pos m (word_of_nat p)"

lemma write_mem_in_block:
  assumes inv: "mb_inv m" and w: "mbuf_write_mem mm (Some m) (Some bs) = Some (OK, Some m')"
  shows "mb_off m + length bs < 2 ^ 32"
proof (rule ccontr)
  assume big: "\<not> mb_off m + length bs < 2 ^ 32"
  obtain err mb where g: "mbuf_grow mm m (mb_pos m + word_of_nat (length bs)) = (err, mb)" by fastforce
  from grow_spec [OF inv, of mm "mb_pos m + word_of_nat (length bs)"] g w
  obtain k where k: "mb = Some k" "mb_inv k" "mb_pos k = mb_pos m" and err: "err = 0"
    by (auto simp: mbuf_write_mem_def)
  have "length (the_blk k) < 2 ^ 32" using length_the_blk [OF k(2)] .
  with big k have no: "\<not> mb_off m + length bs \<le> length (the_blk k)" by simp
  have "mb_off m < 2 ^ 32" using unat_u32_less [of "mb_pos m"] by (simp add: mb_off_def)
  with big have "bs \<noteq> []" by auto
  with no k have "upd_blk (blk_write (unat (mb_pos k)) bs) k = None"
    by (auto simp: upd_blk_def blk_write_def the_blk_def mb_off_def split: option.splits)
  then show False using w g k(1) err by (simp add: mbuf_write_mem_def)
qed

interpretation mb: byte_buffer mb_inv mb_data mb_off "mb_write mm" mb_read mb_seek for mm
proof
  show "mb_off b \<le> length (mb_data b)" if "mb_inv b" for b using mb_off_le [OF that] .
next
  fix b bs b' assume inv: "mb_inv b" and w: "mb_write mm b bs = Some b'"
  then have w': "mbuf_write_mem mm (Some b) (Some bs) = Some (OK, Some b')"
    by (auto simp: mb_write_def split: option.splits nat.splits prod.splits if_splits)
  from write_mem_spec [OF inv write_mem_in_block [OF inv w'], of mm] w'
  show "mb_inv b' \<and> mb_data b' = put_at (mb_off b) bs (mb_data b) \<and> mb_off b' = mb_off b + length bs"
    by auto
next
  fix b n assume inv: "mb_inv b" and n: "mb_off b + n \<le> length (mb_data b)"
  have "length (mb_data b) < 2 ^ 32" using length_mb_data [OF inv] unat_u32_less [of "mb_end b"] by simp
  then have lt: "n < 2 ^ 32" using n by simp
  then have u: "unat (word_of_nat n :: u32) = n" by (intro unat_of_nat_u32) simp
  have "unat (word_of_nat n :: u32) \<le> length (mb_data b) - mb_off b" using n u by simp
  from read_mem_spec [OF inv this] lt u
  show "\<exists>b'. mb_read b n = Some (take n (drop (mb_off b) (mb_data b)), b') \<and> mb_inv b' \<and>
              mb_data b' = mb_data b \<and> mb_off b' = mb_off b + n"
    by (auto simp: mb_read_def)
next
  fix b n assume inv: "mb_inv b" and n: "length (mb_data b) < mb_off b + n"
  show "mb_read b n = None"
  proof (cases "n < 2 ^ 32")
    case True
    then have u: "unat (word_of_nat n :: u32) = n" by (intro unat_of_nat_u32) simp
    then have "length (mb_data b) - mb_off b < unat (word_of_nat n :: u32)" using n mb_off_le [OF inv] by simp
    from read_mem_beyond [OF inv this] show ?thesis by (simp add: mb_read_def)
  qed (simp add: mb_read_def)
next
  fix b p assume inv: "mb_inv b" and p: "p \<le> length (mb_data b)"
  have "p < 4294967296" using p length_mb_data [OF inv] unat_u32_less [of "mb_end b"] by simp
  then have u: "unat (word_of_nat p :: u32) = p" by (rule unat_of_nat_u32)
  then have "unat (word_of_nat p :: u32) \<le> length (mb_data b)" using p by simp
  from seek_inv [OF inv this] u
  show "mb_inv (mb_seek b p) \<and> mb_data (mb_seek b p) = mb_data b \<and> mb_off (mb_seek b p) = p"
    by (simp add: mb_seek_def mbuf_set_pos_def)
qed

end
