(* ===== verification/Rtp_Spec.thy ===== *)
theory Rtp_Spec
  imports Rtp Mbuf_Spec
begin

text \<open>
  The RTP header as bytes: encoding writes exactly these bytes, decoding them gives the header
  back and leaves the buffer at the payload, and decoding arbitrary bytes never leaves the buffer.
\<close>

section \<open>Encoding\<close>

definition be16 :: "u16 \<Rightarrow> u8 list" where "be16 v = rev (le_bytes 2 v)"
definition be32 :: "u32 \<Rightarrow> u8 list" where "be32 v = rev (le_bytes 4 v)"

lemma be_lengths [simp]: "length (be16 v) = 2" "length (be32 w) = 4"
  by (simp_all add: be16_def be32_def)

definition hdr_fields :: "rtp_header \<Rightarrow> u8 list list" where
  "hdr_fields h =
     [[hdr_byte0 h, hdr_byte1 h], be16 (h_seq h), be32 (h_ts h), be32 (h_ssrc h)] @
     map be32 (take (unat (h_cc h)) (h_csrc h))"

definition hdr_bytes :: "rtp_header \<Rightarrow> u8 list" where
  "hdr_bytes h = concat (hdr_fields h)"

lemma length_concat_be32 [simp]: "length (concat (map be32 vs)) = 4 * length vs"
  by (induction vs) auto

lemma length_hdr_bytes:
  "unat (h_cc h) \<le> length (h_csrc h) \<Longrightarrow> length (hdr_bytes h) = 12 + 4 * unat (h_cc h)"
  by (simp add: hdr_bytes_def hdr_fields_def min_def)

text \<open>A run of writes whose error numbers are or-ed.\<close>

fun enc_chain :: "allocator \<Rightarrow> u8 list list \<Rightarrow> mbuf option \<Rightarrow> (errno \<times> mbuf option) option" where
  "enc_chain mm [] mb = Some (OK, mb)"
| "enc_chain mm (f # fs) mb = or_err (\<lambda>mb. mbuf_write_mem mm mb (Some f)) (enc_chain mm fs) mb"

lemma enc_chain_Cons:
  "enc_chain mm (f # fs) = or_err (\<lambda>mb. mbuf_write_mem mm mb (Some f)) (enc_chain mm fs)"
  by (simp add: fun_eq_iff)

lemma write_be:
  "mbuf_write_u16 mm mb (htons v) = mbuf_write_mem mm mb (Some (be16 v))"
  "mbuf_write_u32 mm mb (htonl w) = mbuf_write_mem mm mb (Some (be32 w))"
  by (simp_all add: mbuf_write_u16_def mbuf_write_u32_def be16_def be32_def le_bytes_htons le_bytes_htonl)

lemma encode_csrc_chain:
  "i + n \<le> length csrc \<Longrightarrow>
   encode_csrc mm csrc i n = enc_chain mm (map be32 (take n (drop i csrc)))"
proof (induction n arbitrary: i)
  case 0
  then show ?case by (simp add: fun_eq_iff)
next
  case (Suc n)
  then have "take (Suc n) (drop i csrc) = csrc ! i # take n (drop (Suc i) csrc)"
    by (simp add: Cons_nth_drop_Suc [symmetric])
  moreover have "encode_csrc mm csrc i (Suc n) =
      or_err (\<lambda>mb. mbuf_write_mem mm mb (Some (be32 (csrc ! i)))) (encode_csrc mm csrc (Suc i) n)"
    using Suc.prems by (simp add: fun_eq_iff write_be)
  ultimately show ?case using Suc.prems Suc.IH [of "Suc i"] by (simp add: enc_chain_Cons)
qed

lemma rtp_hdr_encode_chain:
  assumes "unat (h_cc h) \<le> length (h_csrc h)"
  shows "rtp_hdr_encode mm (Some m) (Some h) = enc_chain mm (hdr_fields h) (Some m)"
  using assms
  by (simp add: rtp_hdr_encode_def hdr_fields_def encode_csrc_chain write_be enc_chain_Cons del: enc_chain.simps)

lemma enc_chain_spec:
  "mb_inv m \<Longrightarrow> mb_off m + length (concat fs) < 2 ^ 32 \<Longrightarrow>
   \<exists>err m'. enc_chain mm fs (Some m) = Some (err, Some m') \<and> mb_inv m' \<and>
            (err = OK \<and> write_all (mb_write mm) m fs = Some m' \<or> err = ENOMEM)"
proof (induction fs arbitrary: m)
  case Nil
  then show ?case by simp
next
  case (Cons f fs)
  have "mb_off m + length f < 2 ^ 32" using Cons.prems(2) by simp
  from write_mem_spec [OF Cons.prems(1) this, of mm]
  consider (nomem) "mbuf_write_mem mm (Some m) (Some f) = Some (ENOMEM, Some m)"
    | (ok) m1 where "mbuf_write_mem mm (Some m) (Some f) = Some (OK, Some m1)" "mb_inv m1"
        "mb_off m1 = mb_off m + length f" by blast
  then show ?case
  proof cases
    case nomem
    have "mb_off m + length (concat fs) < 2 ^ 32" using Cons.prems(2) by simp
    from Cons.IH [OF Cons.prems(1) this] nomem show ?thesis by (auto simp: or_err_def)
  next
    case ok
    have "mb_off m1 + length (concat fs) < 2 ^ 32" using Cons.prems(2) ok by simp
    from Cons.IH [OF ok(2) this] ok(1) show ?thesis by (auto simp: or_err_def mb_write_def)
  qed
qed

lemma enc_chain_room:
  "mb_inv m \<Longrightarrow> mb_off m + length (concat fs) \<le> unat (mb_size m) \<Longrightarrow>
   \<exists>m'. enc_chain mm fs (Some m) = Some (OK, Some m') \<and> mb_inv m' \<and> mb_size m' = mb_size m \<and>
        mb_data m' = put_at (mb_off m) (concat fs) (mb_data m) \<and>
        mb_off m' = mb_off m + length (concat fs)"
proof (induction fs arbitrary: m)
  case Nil
  then show ?case by simp
next
  case (Cons f fs)
  have "mb_off m + length f \<le> unat (mb_size m)" using Cons.prems(2) by simp
  from write_mem_room [OF Cons.prems(1) this, of mm] obtain m1 where m1:
    "mbuf_write_mem mm (Some m) (Some f) = Some (OK, Some m1)" "mb_inv m1"
    "mb_data m1 = put_at (mb_off m) f (mb_data m)" "mb_off m1 = mb_off m + length f"
    "mb_size m1 = mb_size m" by blast
  have "mb_off m1 + length (concat fs) \<le> unat (mb_size m1)" using Cons.prems(2) m1 by simp
  from Cons.IH [OF m1(2) this] m1 mb_off_le [OF Cons.prems(1)] show ?case
    by (auto simp: or_err_def put_at_put_at add.assoc)
qed

section \<open>Reading fields\<close>

definition at :: "mbuf \<Rightarrow> u8 list \<Rightarrow> bool" where
  "at m rest \<longleftrightarrow> mb_inv m \<and> drop (mb_off m) (mb_data m) = rest"

definition steps :: "mbuf \<Rightarrow> mbuf \<Rightarrow> bool" where
  "steps m m' \<longleftrightarrow> mb_inv m' \<and> mb_data m' = mb_data m \<and> mb_off m \<le> mb_off m'"

lemma steps_trans [trans]: "steps a b \<Longrightarrow> steps b c \<Longrightarrow> steps a c"
  by (simp add: steps_def)

lemma steps_refl: "mb_inv m \<Longrightarrow> steps m m"
  by (simp add: steps_def)

lemma read_mem_at:
  assumes "at m (f @ rest)" "unat n = length f"
  shows "\<exists>m'. mbuf_read_mem (Some m) True n = Some (OK, f, Some m') \<and> at m' rest \<and> steps m m'"
proof -
  have i: "mb_inv m" and d: "drop (mb_off m) (mb_data m) = f @ rest" using assms(1) by (simp_all add: at_def)
  have "length (drop (mb_off m) (mb_data m)) = length f + length rest" by (simp add: d)
  then have "unat n \<le> length (mb_data m) - mb_off m" using assms(2) by simp
  from read_mem_spec [OF i this] obtain m' where m':
    "mbuf_read_mem (Some m) True n = Some (OK, take (unat n) (drop (mb_off m) (mb_data m)), Some m')"
    "mb_inv m'" "mb_data m' = mb_data m" "mb_off m' = mb_off m + unat n" by blast
  have "drop (mb_off m') (mb_data m') = drop (unat n) (drop (mb_off m) (mb_data m))"
    by (simp add: m' add.commute)
  then show ?thesis using m' d assms(2) by (simp add: at_def steps_def)
qed

lemma read_mem_total:
  assumes "mb_inv m"
  shows "(\<exists>m' bs. mbuf_read_mem (Some m) True n = Some (OK, bs, Some m') \<and> length bs = unat n \<and> steps m m') \<or>
         mbuf_read_mem (Some m) True n = Some (EOVERFLOW, [], Some m)"
proof (cases "unat n \<le> length (mb_data m) - mb_off m")
  case True
  from read_mem_spec [OF assms True] True show ?thesis by (auto simp: steps_def)
next
  case False
  then show ?thesis using read_mem_beyond [OF assms] by simp
qed

lemma read_be16_at:
  assumes "at m (be16 v @ rest)"
  shows "\<exists>m'. mbuf_read_u16 (Some m) = Some (htons v, Some m') \<and> at m' rest \<and> steps m m'"
proof -
  have "of_le_bytes (be16 v) = htons v" by (simp add: htons_def be16_def)
  then show ?thesis using read_mem_at [OF assms, of 2] by (auto simp: mbuf_read_u16_def)
qed

lemma read_be32_at:
  assumes "at m (be32 v @ rest)"
  shows "\<exists>m'. mbuf_read_u32 (Some m) = Some (htonl v, Some m') \<and> at m' rest \<and> steps m m'"
proof -
  have "of_le_bytes (be32 v) = htonl v" by (simp add: htonl_def be32_def)
  then show ?thesis using read_mem_at [OF assms, of 4] by (auto simp: mbuf_read_u32_def)
qed

lemma read_u16_total: "mb_inv m \<Longrightarrow> \<exists>v m'. mbuf_read_u16 (Some m) = Some (v, Some m') \<and> steps m m'"
  using read_mem_total [of m 2] steps_refl [of m] by (auto simp: mbuf_read_u16_def)

lemma read_u32_total: "mb_inv m \<Longrightarrow> \<exists>v m'. mbuf_read_u32 (Some m) = Some (v, Some m') \<and> steps m m'"
  using read_mem_total [of m 4] steps_refl [of m] by (auto simp: mbuf_read_u32_def)

lemma left_at: "at m rest \<Longrightarrow> unat (mbuf_get_left (Some m)) = length rest"
  using left_eq [of m] mb_off_le [of m] by (auto simp: at_def)

section \<open>Decoding what was encoded\<close>

lemma decode_csrc_at:
  "at m (concat (map be32 vs) @ rest) \<Longrightarrow> i + length vs \<le> length (h_csrc h) \<Longrightarrow>
   \<exists>m'. decode_csrc i (length vs) h (Some m) =
          Some (h\<lparr>h_csrc := take i (h_csrc h) @ vs @ drop (i + length vs) (h_csrc h)\<rparr>, Some m') \<and>
        at m' rest \<and> steps m m'"
proof (induction vs arbitrary: i h m)
  case Nil
  then show ?case by (simp add: steps_def at_def)
next
  case (Cons v vs)
  have "at m (be32 v @ (concat (map be32 vs) @ rest))" using Cons.prems(1) by simp
  from read_be32_at [OF this] obtain m1 where m1: "mbuf_read_u32 (Some m) = Some (htonl v, Some m1)"
    "at m1 (concat (map be32 vs) @ rest)" "steps m m1" by blast
  let ?h = "h\<lparr>h_csrc := (h_csrc h)[i := v]\<rparr>"
  have i: "i < length (h_csrc h)" using Cons.prems(2) by simp
  have "Suc i + length vs \<le> length (h_csrc ?h)" using Cons.prems(2) by simp
  from Cons.IH [OF m1(2) this] obtain m2 where m2:
    "decode_csrc (Suc i) (length vs) ?h (Some m1) =
       Some (?h\<lparr>h_csrc := take (Suc i) (h_csrc ?h) @ vs @ drop (Suc i + length vs) (h_csrc ?h)\<rparr>, Some m2)"
    "at m2 rest" "steps m1 m2" by blast
  have "take (Suc i) (h_csrc ?h) = take i (h_csrc h) @ [v]"
    using i by (simp add: take_Suc_conv_app_nth)
  then show ?case using m1 m2 i steps_trans [OF m1(3) m2(3)] by (simp add: drop_update_cancel)
qed

text \<open>A header as the sockets of libre build it: version 2, no extension, a 7-bit payload type.\<close>

definition hdr_ok :: "rtp_header \<Rightarrow> bool" where
  "hdr_ok h \<longleftrightarrow> h_ver h = 2 \<and> \<not> h_ext h \<and> h_pt h < 128 \<and> h_cc h < 16 \<and> length (h_csrc h) = 16"

lemma bit_flag: "bit_flag b n = bit b n"
  by (simp add: bit_flag_def bit_iff_odd_drop_bit and_one_eq odd_iff_mod_2_eq_one)

lemma bit_b1: "bit (b1 b) i = (b \<and> i = 0)"
  by (simp add: b1_def bit_1_iff)

lemma hdr_byte0_fields:
  assumes "h_ver h = 2" "h_cc h < 16"
  shows "drop_bit 6 (hdr_byte0 h) AND 3 = 2" "bit_flag (hdr_byte0 h) 5 = h_pad h"
    "bit_flag (hdr_byte0 h) 4 = h_ext h" "hdr_byte0 h AND 15 = h_cc h"
proof -
  have c: "bit (h_cc h) i \<Longrightarrow> i < 4" for i
    using assms(2) bit_word_less [of "h_cc h" 4 i] by (simp add: word_less_nat_alt)
  note bits = hdr_byte0_def assms(1) bit_simps bit_b1 bit_mask_int bit_single_int
  show "drop_bit 6 (hdr_byte0 h) AND 3 = 2" by (rule bit_word_eqI) (auto simp: bits dest: c)
  show "bit_flag (hdr_byte0 h) 5 = h_pad h" by (auto simp: bit_flag bits dest: c)
  show "bit_flag (hdr_byte0 h) 4 = h_ext h" by (auto simp: bit_flag bits dest: c)
  show "hdr_byte0 h AND 15 = h_cc h" by (rule bit_word_eqI) (auto simp: bits dest: c)
qed

lemma hdr_byte1_fields:
  assumes "h_pt h < 128"
  shows "bit_flag (hdr_byte1 h) 7 = h_m h" "hdr_byte1 h AND 127 = h_pt h"
proof -
  have c: "bit (h_pt h) i \<Longrightarrow> i < 7" for i
    using assms bit_word_less [of "h_pt h" 7 i] by (simp add: word_less_nat_alt)
  note bits = hdr_byte1_def bit_simps bit_b1 bit_mask_int bit_single_int
  show "bit_flag (hdr_byte1 h) 7 = h_m h" by (auto simp: bit_flag bits dest: c)
  show "hdr_byte1 h AND 127 = h_pt h" by (rule bit_word_eqI) (auto simp: bits dest: c)
qed

text \<open>What decoding makes of a header: the arrival time and the extension are the caller's, and
  contributing sources beyond the count keep their old value.\<close>

definition decoded :: "rtp_header \<Rightarrow> rtp_header \<Rightarrow> rtp_header" where
  "decoded h h0 = h\<lparr>h_ts_arrive := h_ts_arrive h0, h_x_type := h_x_type h0, h_x_len := h_x_len h0,
     h_csrc := take (unat (h_cc h)) (h_csrc h) @ drop (unat (h_cc h)) (h_csrc h0)\<rparr>"

lemma left_ge_at:
  assumes "at m rest" "unat n \<le> length rest"
  shows "\<not> mbuf_get_left (Some m) < n"
  using left_at [OF assms(1)] assms(2) by (simp add: word_less_nat_alt not_less)

lemma cc_left_at:
  assumes "at m (concat (map be32 (take (unat cc) vs)) @ rest)" "unat cc \<le> length vs" "cc < (16 :: u8)"
  shows "\<not> mbuf_get_left (Some m) < (ucast cc :: u32) * 4"
proof (rule left_ge_at [OF assms(1)])
  have "unat cc < 16" using assms(3) by (simp add: word_less_nat_alt)
  then have "unat ((ucast cc :: u32) * 4) = unat cc * 4"
    by (simp add: unat_word_ariths)
  then show "unat ((ucast cc :: u32) * 4) \<le> length (concat (map be32 (take (unat cc) vs)) @ rest)"
    using assms(2) by (simp add: min_def)
qed

lemma rtp_hdr_decode_at:
  assumes ok: "hdr_ok h" and len: "length (h_csrc h0) = 16" and a: "at m (hdr_bytes h @ rest)"
  shows "\<exists>m'. rtp_hdr_decode (Some h0) (Some m) = Some (OK, Some (decoded h h0), Some m') \<and>
              at m' rest \<and> steps m m'"
proof -
  have cc: "unat (h_cc h) < 16" "length (h_csrc h) = 16" "h_cc h < 16" and v: "h_ver h = 2"
    and e: "\<not> h_ext h" and pt: "h_pt h < 128"
    using ok by (simp_all add: hdr_ok_def word_less_nat_alt)
  let ?vs = "take (unat (h_cc h)) (h_csrc h)"
  have hb: "hdr_bytes h @ rest = [hdr_byte0 h, hdr_byte1 h] @ be16 (h_seq h) @ be32 (h_ts h) @ be32 (h_ssrc h) @
      concat (map be32 ?vs) @ rest" by (simp add: hdr_bytes_def hdr_fields_def)
  have l12: "\<not> mbuf_get_left (Some m) < RTP_HEADER_SIZE"
    by (rule left_ge_at [OF a]) (simp add: hb RTP_HEADER_SIZE_def)
  obtain m1 where m1: "mbuf_read_mem (Some m) True 2 = Some (OK, [hdr_byte0 h, hdr_byte1 h], Some m1)"
    "at m1 (be16 (h_seq h) @ be32 (h_ts h) @ be32 (h_ssrc h) @ concat (map be32 ?vs) @ rest)" "steps m m1"
    using read_mem_at [OF a [unfolded hb], of 2] by auto
  obtain m2 where m2: "mbuf_read_u16 (Some m1) = Some (htons (h_seq h), Some m2)"
    "at m2 (be32 (h_ts h) @ be32 (h_ssrc h) @ concat (map be32 ?vs) @ rest)" "steps m1 m2"
    using read_be16_at [OF m1(2)] by blast
  obtain m3 where m3: "mbuf_read_u32 (Some m2) = Some (htonl (h_ts h), Some m3)"
    "at m3 (be32 (h_ssrc h) @ concat (map be32 ?vs) @ rest)" "steps m2 m3"
    using read_be32_at [OF m2(2)] by blast
  obtain m4 where m4: "mbuf_read_u32 (Some m3) = Some (htonl (h_ssrc h), Some m4)"
    "at m4 (concat (map be32 ?vs) @ rest)" "steps m3 m4"
    using read_be32_at [OF m3(2)] by blast
  let ?h4 = "h0\<lparr>h_ver := 2, h_pad := h_pad h, h_ext := h_ext h, h_cc := h_cc h, h_m := h_m h,
               h_pt := h_pt h, h_seq := h_seq h, h_ts := h_ts h, h_ssrc := h_ssrc h\<rparr>"
  have lv: "length ?vs = unat (h_cc h)" using cc by simp
  have lc: "0 + length ?vs \<le> length (h_csrc ?h4)" using cc len by simp
  from decode_csrc_at [OF m4(2) lc] obtain m5 where m5:
    "decode_csrc 0 (unat (h_cc h)) ?h4 (Some m4) =
       Some (?h4\<lparr>h_csrc := ?vs @ drop (unat (h_cc h)) (h_csrc h0)\<rparr>, Some m5)" "at m5 rest" "steps m4 m5"
    unfolding lv by auto
  have l4: "\<not> mbuf_get_left (Some m4) < (ucast (h_cc h) :: u32) * 4"
    using cc_left_at [OF m4(2)] cc by simp
  have d: "?h4\<lparr>h_csrc := ?vs @ drop (unat (h_cc h)) (h_csrc h0)\<rparr> = decoded h h0"
    using v by (simp add: decoded_def)
  have de: "h_ext (decoded h h0) = h_ext h" by (simp add: decoded_def)
  have "steps m m5" using m1(3) m2(3) m3(3) m4(3) m5(3) by (blast intro: steps_trans)
  then show ?thesis using l12 m1(1) m2(1) m3(1) m4(1) l4 m5 e d de
    by (simp add: rtp_hdr_decode_def hdr_byte0_fields [OF v cc(3)] hdr_byte1_fields [OF pt] Let_def)
qed

section \<open>Arbitrary input\<close>

text \<open>Whatever arrives, a read does not leave the data, and an error leaves the buffer valid.\<close>

lemma decode_csrc_total:
  "mb_inv m \<Longrightarrow> i + n \<le> length (h_csrc h) \<Longrightarrow>
   \<exists>h' m'. decode_csrc i n h (Some m) = Some (h', Some m') \<and> steps m m' \<and>
           length (h_csrc h') = length (h_csrc h)"
proof (induction n arbitrary: i h m)
  case 0
  then show ?case by (simp add: steps_refl)
next
  case (Suc n)
  obtain v m1 where m1: "mbuf_read_u32 (Some m) = Some (v, Some m1)" "steps m m1"
    using read_u32_total [OF Suc.prems(1)] by blast
  have i1: "mb_inv m1" using m1(2) by (simp add: steps_def)
  let ?h = "h\<lparr>h_csrc := (h_csrc h)[i := htonl v]\<rparr>"
  have "Suc i + n \<le> length (h_csrc ?h)" using Suc.prems(2) by simp
  from Suc.IH [OF i1 this] m1 Suc.prems(2) show ?case by (auto intro: steps_trans)
qed

lemma decode_ext_total:
  assumes "mb_inv m"
  shows "\<exists>err h' m'. decode_ext h (Some m) = Some (err, h', Some m') \<and> steps m m'"
proof -
  obtain v1 m1 where m1: "mbuf_read_u16 (Some m) = Some (v1, Some m1)" "steps m m1"
    using read_u16_total [OF assms] by blast
  obtain v2 m2 where m2: "mbuf_read_u16 (Some m1) = Some (v2, Some m2)" "steps m1 m2"
    using read_u16_total [of m1] m1(2) by (auto simp: steps_def)
  have s2: "steps m m2" using m1 m2 by (blast intro: steps_trans)
  then have i2: "mb_inv m2" by (simp add: steps_def)
  let ?n = "(ucast (htons v2) :: u32) * 4"
  show ?thesis
  proof (cases "mbuf_get_left (Some m) < 4 \<or> mbuf_get_left (Some m2) < ?n")
    case True
    then show ?thesis using m1 m2 s2 steps_refl [OF assms] by (auto simp: decode_ext_def Let_def)
  next
    case False
    then have n: "unat ?n \<le> length (mb_data m2) - mb_off m2"
      using left_eq [OF i2] by (simp add: word_less_nat_alt)
    have o: "mb_off m2 \<le> length (mb_data m2)" using mb_off_le [OF i2] .
    have lt: "length (mb_data m2) < 4294967296"
      using length_mb_data [OF i2] unat_u32_less [of "mb_end m2"] by simp
    have u: "unat (mb_pos m2 + ?n) = mb_off m2 + unat ?n"
      unfolding mb_off_def using n o lt by (intro unat_add_u32) (simp add: mb_off_def)
    then have "unat (mb_pos m2 + ?n) \<le> length (mb_data m2)" using n o by simp
    from seek_inv [OF i2 this] u s2 have "steps m (m2\<lparr>mb_pos := mb_pos m2 + ?n\<rparr>)"
      by (simp add: steps_def)
    then show ?thesis using False m1 m2 by (auto simp: decode_ext_def Let_def)
  qed
qed

lemma rtp_hdr_decode_total:
  assumes i: "mb_inv m" and len: "length (h_csrc h0) = 16"
  shows "\<exists>err h' m'. rtp_hdr_decode (Some h0) (Some m) = Some (err, Some h', Some m') \<and> steps m m'"
proof (cases "mbuf_get_left (Some m) < RTP_HEADER_SIZE")
  case True
  then show ?thesis using steps_refl [OF i] by (simp add: rtp_hdr_decode_def)
next
  case False
  then have "\<not> length (mb_data m) - mb_off m < 2"
    using left_eq [OF i] by (simp add: word_less_nat_alt RTP_HEADER_SIZE_def)
  with read_mem_total [OF i, of 2] read_mem_beyond [OF i, of 2]
  obtain m1 bs where m1: "mbuf_read_mem (Some m) True 2 = Some (OK, bs, Some m1)" "steps m m1"
    using read_mem_spec [OF i, of 2] by (auto simp: steps_def)
  have i1: "mb_inv m1" using m1 by (simp add: steps_def)
  obtain v2 m2 where m2: "mbuf_read_u16 (Some m1) = Some (v2, Some m2)" "steps m1 m2"
    using read_u16_total [OF i1] by blast
  have i2: "mb_inv m2" using m2 by (simp add: steps_def)
  obtain v3 m3 where m3: "mbuf_read_u32 (Some m2) = Some (v3, Some m3)" "steps m2 m3"
    using read_u32_total [OF i2] by blast
  have i3: "mb_inv m3" using m3 by (simp add: steps_def)
  obtain v4 m4 where m4: "mbuf_read_u32 (Some m3) = Some (v4, Some m4)" "steps m3 m4"
    using read_u32_total [OF i3] by blast
  have i4: "mb_inv m4" using m4 by (simp add: steps_def)
  have s4: "steps m m4" using m1(2) m2(2) m3(2) m4(2) by (blast intro: steps_trans)
  define h4 where "h4 = h0\<lparr>h_ver := drop_bit 6 (bs ! 0) AND 3, h_pad := bit_flag (bs ! 0) 5,
    h_ext := bit_flag (bs ! 0) 4, h_cc := (bs ! 0) AND 15, h_m := bit_flag (bs ! 1) 7,
    h_pt := (bs ! 1) AND 127, h_seq := htons v2, h_ts := htonl v3, h_ssrc := htonl v4\<rparr>"
  have "(bs ! 0) AND 15 \<le> 15" by (rule word_and_le1)
  then have cc: "unat (h_cc h4) \<le> 15" by (simp add: h4_def word_le_nat_alt)
  have "0 + unat (h_cc h4) \<le> length (h_csrc h4)" using cc len by (simp add: h4_def)
  from decode_csrc_total [OF i4 this] obtain h5 m5 where
    m5: "decode_csrc 0 (unat (h_cc h4)) h4 (Some m4) = Some (h5, Some m5)" "steps m4 m5" by blast
  have s5: "steps m m5" using s4 m5(2) by (blast intro: steps_trans)
  then have i5: "mb_inv m5" by (simp add: steps_def)
  from decode_ext_total [OF i5, of h5] obtain err h6 m6 where
    m6: "decode_ext h5 (Some m5) = Some (err, h6, Some m6)" "steps m5 m6" by blast
  have s6: "steps m m6" using s5 m6(2) by (blast intro: steps_trans)
  have "rtp_hdr_decode (Some h0) (Some m) =
    (if mbuf_get_left (Some m4) < (ucast (h_cc h4) :: u32) * 4 then Some (EBADMSG, Some h4, Some m4)
     else if h_ext h5 then Some (err, Some h6, Some m6) else Some (OK, Some h5, Some m5))"
    using False m1(1) m2(1) m3(1) m4(1) m5(1) m6(1) by (simp add: rtp_hdr_decode_def h4_def Let_def)
  then show ?thesis using s4 s5 s6 by auto
qed

section \<open>Sending\<close>

lemma seek_at:
  assumes "mb_inv m" "p \<le> length (mb_data m)"
  shows "at (mb_seek m p) (drop p (mb_data m))"
  using mb.seek_law [OF assms] by (simp add: at_def)

lemma pending_at: "at m rest \<Longrightarrow> pending (Some m) = rest"
  using left_eq [of m] mb_off_le [of m] mb_inv_order [of m] length_mb_data [of m]
  by (auto simp: at_def pending_def mb_off_def [symmetric] mb_data_def drop_take)

lemma sub12: "RTP_HEADER_SIZE \<le> p \<Longrightarrow> p + word_of_int (- int (unat RTP_HEADER_SIZE)) = p - 12"
  by (simp add: RTP_HEADER_SIZE_def)

lemma mk_hdr_bytes: "length (hdr_bytes (mk_hdr rs seq ext marker pt ts)) = 12"
  by (subst length_hdr_bytes) (simp_all add: mk_hdr_def zero_hdr_def)

lemma pt_and_not: "pt < 128 \<Longrightarrow> (pt :: u8) AND NOT 127 = 0"
proof (rule bit_word_eqI)
  fix i assume "pt < 128"
  then have "bit pt i \<Longrightarrow> i < 7" for i
    using bit_word_less [of pt 7 i] by (simp add: word_less_nat_alt)
  then show "bit (pt AND NOT 127) i = bit 0 i" by (auto simp: bit_simps bit_mask_int)
qed

text \<open>Encoding in the headroom: the header lands directly before the payload, without growing the
  buffer.\<close>

lemma encode_in_headroom:
  assumes i: "mb_inv m" and room: "RTP_HEADER_SIZE \<le> mb_pos m"
    and h_def: "h = mk_hdr rs seq ext marker pt ts"
  shows "\<exists>m'. rtp_hdr_encode mm (Some (mbuf_advance m (- int (unat RTP_HEADER_SIZE)))) (Some h) =
                Some (OK, Some m') \<and> mb_inv m' \<and> mb_pos m' = mb_pos m \<and>
              mb_data m' = take (mb_off m - 12) (mb_data m) @ hdr_bytes h @ drop (mb_off m) (mb_data m)"
proof -
  let ?a = "mbuf_advance m (- int (unat RTP_HEADER_SIZE))"
  have r: "12 \<le> mb_off m" using room by (simp add: RTP_HEADER_SIZE_def word_le_nat_alt mb_off_def)
  have a: "?a = m\<lparr>mb_pos := mb_pos m - 12\<rparr>" using sub12 [OF room] by (simp only: mbuf_advance_def)
  have p: "unat (mb_pos m - 12) = mb_off m - 12"
    using room by (simp add: unat_sub mb_off_def RTP_HEADER_SIZE_def)
  have o: "mb_off m \<le> length (mb_data m)" using mb_off_le [OF i] .
  then have "unat (mb_pos m - 12) \<le> length (mb_data m)" using p by simp
  from seek_inv [OF i this] have si: "mb_inv ?a" "mb_data ?a = mb_data m" "mb_off ?a = mb_off m - 12"
    unfolding a using p by simp_all
  have hl: "length (concat (hdr_fields h)) = 12" using mk_hdr_bytes by (simp add: h_def hdr_bytes_def)
  have "mb_off m \<le> unat (mb_size ?a)" using mb_inv_order [OF i] unfolding a by simp
  then have "mb_off ?a + length (concat (hdr_fields h)) \<le> unat (mb_size ?a)" using si r hl by simp
  from enc_chain_room [OF si(1) this, of mm] obtain m' where m':
    "enc_chain mm (hdr_fields h) (Some ?a) = Some (OK, Some m')" "mb_inv m'"
    "mb_data m' = put_at (mb_off ?a) (concat (hdr_fields h)) (mb_data ?a)" "mb_off m' = mb_off ?a + 12"
    using hl by auto
  have "unat (h_cc h) \<le> length (h_csrc h)" by (simp add: h_def mk_hdr_def)
  from rtp_hdr_encode_chain [OF this, of mm ?a] m'(1)
  have e: "rtp_hdr_encode mm (Some ?a) (Some h) = Some (OK, Some m')" by simp
  have "mb_off m' = mb_off m" using m'(4) si r by simp
  then have "mb_pos m' = mb_pos m" unfolding mb_off_def by (simp only: word_unat_eq_iff)
  moreover have "mb_data m' = take (mb_off m - 12) (mb_data m) @ hdr_bytes h @ drop (mb_off m) (mb_data m)"
    using m'(3) si r hl by (simp add: put_at_def hdr_bytes_def)
  ultimately show ?thesis using e m'(2) by blast
qed

section \<open>Properties\<close>

text \<open>C33: A header without extension (version 2, 7-bit payload type, at most 15 contributing sources) that was encoded without
  error at some position of a buffer is decoded from that position to the same header, and the buffer is left where the
  encoder left it.\<close>

theorem rtp_hdr_roundtrip:
  assumes "mb_inv m" and "hdr_ok h" and "length (h_csrc h0) = 16"
    and "mb_off m + 12 + 4 * unat (h_cc h) < 2 ^ 32"
    and "rtp_hdr_encode mm (Some m) (Some h) = Some (OK, Some m')"
  shows "\<exists>m''. rtp_hdr_decode (Some h0) (Some (mb_seek m' (mb_off m))) =
                 Some (OK, Some (decoded h h0), Some m'') \<and>
               mb_data m'' = mb_data m' \<and> mb_off m'' = mb_off m'"
proof -
  have cc: "unat (h_cc h) \<le> length (h_csrc h)"
    using assms(2) by (simp add: hdr_ok_def word_less_nat_alt)
  have l: "length (concat (hdr_fields h)) = 12 + 4 * unat (h_cc h)"
    using length_hdr_bytes [OF cc] by (simp add: hdr_bytes_def)
  have c: "enc_chain mm (hdr_fields h) (Some m) = Some (OK, Some m')"
    using rtp_hdr_encode_chain [OF cc] assms(5) by simp
  from enc_chain_spec [OF assms(1), of "hdr_fields h" mm] assms(4) l c
  have w: "write_all (mb_write mm) m (hdr_fields h) = Some m'" by auto
  note d = mb.write_all_data [OF assms(1) w]
  have o: "mb_off m \<le> length (mb_data m)" using mb_off_le [OF assms(1)] .
  let ?s = "mb_seek m' (mb_off m)"
  have le: "mb_off m \<le> length (mb_data m')" using d o by (simp add: length_put_at)
  have "drop (mb_off m) (mb_data m') = hdr_bytes h @ drop (mb_off m + length (hdr_bytes h)) (mb_data m)"
    using d o by (simp add: put_at_def hdr_bytes_def)
  with seek_at [of m' "mb_off m"] d le
  have a: "at ?s (hdr_bytes h @ drop (mb_off m + length (hdr_bytes h)) (mb_data m))" by simp
  from rtp_hdr_decode_at [OF assms(2,3) a] obtain m'' where m'':
    "rtp_hdr_decode (Some h0) (Some ?s) = Some (OK, Some (decoded h h0), Some m'')"
    "at m'' (drop (mb_off m + length (hdr_bytes h)) (mb_data m))" "steps ?s m''" by blast
  have sd: "mb_data ?s = mb_data m'" using mb.seek_law [of m' "mb_off m"] d le by simp
  have "mb_data m'' = mb_data m'" using m''(3) sd by (simp add: steps_def)
  moreover have "mb_off m'' = mb_off m'"
  proof -
    have "mb_inv m''" using m''(3) by (simp add: steps_def)
    then have "mb_off m'' \<le> length (mb_data m'')" by (rule mb_off_le)
    moreover have "length (drop (mb_off m'') (mb_data m'')) =
        length (drop (mb_off m + length (hdr_bytes h)) (mb_data m))" using m''(2) by (simp add: at_def)
    moreover have "length (mb_data m') = max (length (mb_data m)) (mb_off m + length (hdr_bytes h))"
      using d o by (simp add: length_put_at hdr_bytes_def)
    moreover have "mb_off m' = mb_off m + length (hdr_bytes h)" using d by (simp add: hdr_bytes_def)
    ultimately show ?thesis using \<open>mb_data m'' = mb_data m'\<close> by simp
  qed
  ultimately show ?thesis using m''(1) by blast
qed

definition w_buf :: "nat \<Rightarrow> u32 \<Rightarrow> mbuf" where
  "w_buf n p = \<lparr>mb_buf = Some (map word_of_nat [0..<n]), mb_size = word_of_nat n, mb_pos = p,
     mb_end = word_of_nat n\<rparr>"

definition w_sock :: rtp_sock where
  "w_sock = \<lparr>enc_seq = 65535, enc_ssrc = 3735928559, rs_rtcp = None, rs_rtcp_mux = False\<rparr>"

lemma w_buf_inv: "n < 256 \<Longrightarrow> unat p \<le> n \<Longrightarrow> mb_inv (w_buf n p)"
  by (simp add: w_buf_def mb_inv_def word_le_nat_alt unat_of_nat_u32)

lemma w_buf_data: "n < 256 \<Longrightarrow> mb_data (w_buf n p) = map word_of_nat [0..<n]"
  by (simp add: w_buf_def mb_data_def the_blk_def unat_of_nat_u32)

lemma rtp_hdr_roundtrip_witness:
  "\<exists>m' m''. rtp_hdr_encode (\<lambda>_. None) (Some (w_buf 20 4)) (Some (mk_hdr w_sock 7 False True 8 160)) =
       Some (OK, Some m') \<and>
     rtp_hdr_decode (Some zero_hdr) (Some (mb_seek m' 4)) =
       Some (OK, Some (mk_hdr w_sock 7 False True 8 160), Some m'')"
proof -
  let ?h = "mk_hdr w_sock 7 False True 8 160" and ?m = "w_buf 20 4"
  have h: "hdr_ok ?h" "unat (h_cc ?h) = 0" "length (h_csrc ?h) = 16" "decoded ?h zero_hdr = ?h"
    by (simp_all add: hdr_ok_def mk_hdr_def zero_hdr_def RTP_VERSION_def decoded_def)
  have i: "mb_inv ?m" by (rule w_buf_inv) simp_all
  have o: "mb_off ?m = 4" by (simp add: w_buf_def mb_off_def)
  have "length (concat (hdr_fields ?h)) = 12" using mk_hdr_bytes by (simp add: hdr_bytes_def)
  then have "mb_off ?m + length (concat (hdr_fields ?h)) \<le> unat (mb_size ?m)" by (simp add: o) (simp add: w_buf_def)
  from enc_chain_room [OF i this] obtain m' where
    "rtp_hdr_encode (\<lambda>_. None) (Some ?m) (Some ?h) = Some (OK, Some m')"
    using rtp_hdr_encode_chain [of ?h "\<lambda>_. None" ?m] h by auto
  with rtp_hdr_roundtrip [OF i h(1) _ _ this, of zero_hdr] o h show ?thesis by (auto simp: zero_hdr_def)
qed

text \<open>C34: Decoding a received packet never reads outside the packet, whatever its bytes are (its
  counts and lengths included), and leaves the position between the old one and the end.\<close>

theorem rtp_decode_stays_inside:
  assumes "mb_inv m"
  shows "\<exists>err h m'. rtp_decode True (Some m) (Some h0) = Some (err, Some h, Some m') \<and>
           mb_inv m' \<and> mb_data m' = mb_data m \<and> mb_off m \<le> mb_off m' \<and>
           mb_off m' \<le> length (mb_data m) \<and> (err = OK \<longrightarrow> h_ver h = RTP_VERSION)"
proof -
  have "length (h_csrc zero_hdr) = 16" by (simp add: zero_hdr_def)
  from rtp_hdr_decode_total [OF assms this] obtain err h m' where
    d: "rtp_hdr_decode (Some zero_hdr) (Some m) = Some (err, Some h, Some m')" "steps m m'" by blast
  have "mb_off m' \<le> length (mb_data m)" using d(2) mb_off_le [of m'] by (simp add: steps_def)
  then show ?thesis using d by (auto simp: rtp_decode_def steps_def)
qed

lemma rtp_decode_stays_inside_witness:
  "\<exists>err h m'. rtp_decode True (Some (w_buf 13 0)) (Some zero_hdr) = Some (err, Some h, Some m') \<and>
     mb_inv m'"
  using rtp_decode_stays_inside [OF w_buf_inv [of 13 0], of zero_hdr] by auto

text \<open>Sending a payload that leaves 12 bytes of headroom hands the transport one datagram,
  the header directly followed by the payload, with the next sequence number; the buffer is not
  reallocated and its payload stays in place.\<close>

theorem rtp_send_datagram:
  assumes "mb_inv m" and "RTP_HEADER_SIZE \<le> mb_pos m" and "pt < 128"
  shows "let dg = hdr_bytes (mk_hdr rs (enc_seq rs + 1) ext marker pt ts) @ drop (mb_off m) (mb_data m) in
         \<exists>rs' m'. rtp_send mm udp_send (Some rs) ext marker pt ts jfs_rt (Some m) =
           Some (udp_send dg, Some rs', Some m', Some dg) \<and>
         enc_seq rs' = enc_seq rs + 1 \<and> enc_ssrc rs' = enc_ssrc rs \<and>
         mb_inv m' \<and> mb_off m' = mb_off m - 12 \<and>
         drop (mb_off m) (mb_data m') = drop (mb_off m) (mb_data m) \<and>
         length dg = 12 + (length (mb_data m) - mb_off m)"
proof -
  define dg where "dg = hdr_bytes (mk_hdr rs (enc_seq rs + 1) ext marker pt ts) @ drop (mb_off m) (mb_data m)"
  let ?r = "rs\<lparr>enc_seq := enc_seq rs + 1\<rparr>" and ?o = "mb_off m"
  let ?h = "mk_hdr rs (enc_seq rs + 1) ext marker pt ts"
  have mk: "mk_hdr ?r = mk_hdr rs" by (simp add: fun_eq_iff mk_hdr_def)
  from encode_in_headroom [OF assms(1,2) refl, of mm rs "enc_seq rs + 1" ext marker pt ts] obtain m' where m':
    "rtp_hdr_encode mm (Some (mbuf_advance m (- int (unat RTP_HEADER_SIZE)))) (Some ?h) = Some (OK, Some m')"
    "mb_inv m'" "mb_pos m' = mb_pos m"
    "mb_data m' = take (?o - 12) (mb_data m) @ hdr_bytes ?h @ drop ?o (mb_data m)"
    by (elim exE conjE) (rule that)
  have r: "12 \<le> ?o" using assms(2) by (simp add: RTP_HEADER_SIZE_def word_le_nat_alt mb_off_def)
  have o: "?o \<le> length (mb_data m)" using mb_off_le [OF assms(1)] .
  have hl: "length (hdr_bytes ?h) = 12" by (rule mk_hdr_bytes)
  let ?m = "m'\<lparr>mb_pos := mb_pos m - 12\<rparr>"
  have u: "unat (mb_pos m - 12) = ?o - 12"
    using assms(2) by (simp add: unat_sub mb_off_def RTP_HEADER_SIZE_def)
  have "unat (mb_pos m - 12) \<le> length (mb_data m')" using u r o m'(4) hl by simp
  note si = seek_inv [OF m'(2) this]
  have "length (take (?o - 12) (mb_data m)) = ?o - 12" using r o by simp
  then have "drop (?o - 12) (mb_data m') = dg" unfolding m'(4) dg_def 
    by (simp only: drop_append diff_self_eq_0 diff_0_eq_0 drop_0 drop_all order_refl append_Nil)
  then have "at ?m dg" using si u by (simp add: at_def)
  then have pend: "pending (Some ?m) = dg" by (rule pending_at)
  have adv: "mb_pos (mbuf_advance m (- int (unat RTP_HEADER_SIZE))) = mb_pos m - 12"
    unfolding mbuf_advance_def sub12 [OF assms(2)] by simp
  have "\<not> mb_pos m < RTP_HEADER_SIZE" using assms(2) by (simp add: not_less)
  then have "rtp_send mm udp_send (Some rs) ext marker pt ts jfs_rt (Some m) =
      Some (udp_send dg, Some (?r\<lparr>rs_rtcp := rtcp_sess_tx_rtp (rs_rtcp rs) ts jfs_rt (mbuf_get_left (Some m'))\<rparr>),
            Some ?m, Some dg)"
    using m'(1) pt_and_not [OF assms(3)] pend
    by (simp add: rtp_send_def rtp_encode_def mk Let_def adv [simplified])
  moreover have "drop ?o (mb_data ?m) = drop ?o (mb_data m)" using si m'(4) r o hl by simp
  moreover have "length dg = 12 + (length (mb_data m) - ?o)" using hl by (simp add: dg_def)
  ultimately show ?thesis using si u unfolding dg_def [symmetric] Let_def
    by (intro exI [of _ ?m]
        exI [of _ "?r\<lparr>rs_rtcp := rtcp_sess_tx_rtp (rs_rtcp rs) ts jfs_rt (mbuf_get_left (Some m'))\<rparr>"]) simp
qed

lemma rtp_send_datagram_witness:
  "\<exists>rs' m' dg. rtp_send (\<lambda>_. None) (\<lambda>_. 0) (Some w_sock) False False 0 160 0 (Some (w_buf 14 12)) =
     Some (OK, Some rs', Some m', Some dg) \<and> length dg = 14 \<and> enc_seq rs' = 0"
proof -
  have i: "mb_inv (w_buf 14 12)" by (rule w_buf_inv) simp_all
  have "RTP_HEADER_SIZE \<le> mb_pos (w_buf 14 12)" "mb_off (w_buf 14 12) = 12"
    by (simp_all add: w_buf_def RTP_HEADER_SIZE_def mb_off_def)
  with rtp_send_datagram [OF i _, of 0 w_sock False False 160 "\<lambda>_. None" "\<lambda>_. 0" 0] show ?thesis
    by (auto simp: Let_def w_buf_data w_sock_def)
qed

end
