(* ===== verification/Rtp_Source.thy ===== *)
theory Rtp_Source
  imports Bytes "HOL-Library.Signed_Division" "HOL-Library.Monad_Syntax"
begin

text \<open>
  Reception statistics of one RTP source (\<open>native/re/src/rtp/source.c\<close>): the extended highest
  sequence number, the packet count, the interarrival jitter and the loss figures of the RTCP
  reports.  Where the C arithmetic on \<open>int\<close> would overflow, the result is \<open>None\<close>.  The lemmas show
  that a stream with gaps is counted exactly over the wrap of the 16-bit numbers, that two
  packets in a row restart the count after a jump, and what the loss fraction is.
\<close>

section \<open>State and operations\<close>

record rtp_source =
  s_max_seq :: u16
  s_cycles :: u32
  s_base_seq :: u32
  s_bad_seq :: u32
  s_probation :: u32
  s_received :: u32
  s_expected_prior :: u32
  s_received_prior :: u32
  s_transit :: int
  s_jitter :: u32
  s_rtp_rx_bytes :: u32
  s_sr_recv :: u64
  s_last_sr_hi :: u32
  s_last_sr_lo :: u32
  s_rtp_ts :: u32
  s_last_rtp_ts :: u32
  s_psent :: u32
  s_osent :: u32

definition zero_source :: rtp_source where
  "zero_source = \<lparr>s_max_seq = 0, s_cycles = 0, s_base_seq = 0, s_bad_seq = 0, s_probation = 0,
     s_received = 0, s_expected_prior = 0, s_received_prior = 0, s_transit = 0, s_jitter = 0,
     s_rtp_rx_bytes = 0, s_sr_recv = 0, s_last_sr_hi = 0, s_last_sr_lo = 0, s_rtp_ts = 0,
     s_last_rtp_ts = 0, s_psent = 0, s_osent = 0\<rparr>"

definition RTP_SEQ_MOD :: u32 where
  "RTP_SEQ_MOD = 65536"

definition rtp_source_init_seq :: "u16 \<Rightarrow> rtp_source \<Rightarrow> rtp_source" where
  "rtp_source_init_seq seq s =
     s\<lparr>s_base_seq := ucast seq, s_max_seq := seq, s_bad_seq := RTP_SEQ_MOD + 1, s_cycles := 0,
       s_received := 0, s_received_prior := 0, s_expected_prior := 0\<rparr>"

definition rtp_source_update_seq :: "u16 \<Rightarrow> rtp_source \<Rightarrow> bool \<times> rtp_source" where
  "rtp_source_update_seq seq s =
     (let udelta = seq - s_max_seq s;
          count = (\<lambda>s. (True, s\<lparr>s_received := s_received s + 1\<rparr>))
      in if s_probation s \<noteq> 0
         then
           if unat seq = unat (s_max_seq s) + 1
           then
             let s = s\<lparr>s_probation := s_probation s - 1, s_max_seq := seq\<rparr>
             in if s_probation s = 0 then count (rtp_source_init_seq seq s) else (False, s)
           else (False, s\<lparr>s_probation := 1, s_max_seq := seq\<rparr>)
         else if udelta < 3000
         then
           let s = (if seq < s_max_seq s then s\<lparr>s_cycles := s_cycles s + RTP_SEQ_MOD\<rparr> else s)
           in count (s\<lparr>s_max_seq := seq\<rparr>)
         else if unat udelta \<le> unat RTP_SEQ_MOD - 100
         then
           if (ucast seq :: u32) = s_bad_seq s
           then count (rtp_source_init_seq seq s)
           else (False, s\<lparr>s_bad_seq := ((ucast seq :: u32) + 1) AND (RTP_SEQ_MOD - 1)\<rparr>)
         else count s)"

definition rtp_source_calc_jitter :: "u32 \<Rightarrow> u32 \<Rightarrow> rtp_source \<Rightarrow> rtp_source option" where
  "rtp_source_calc_jitter rtp_ts arrival s = do {
     let transit = sint (arrival - rtp_ts);
     d \<leftarrow> int32 (transit - s_transit s);
     if s_transit s = 0 then Some (s\<lparr>s_transit := transit\<rparr>)
     else do {
       let s = s\<lparr>s_transit := transit\<rparr>;
       d \<leftarrow> (if d < 0 then int32 (- d) else Some d);
       Some (s\<lparr>s_jitter := s_jitter s + (word_of_int d - drop_bit 4 (s_jitter s + 8))\<rparr>)
     }
   }"

text \<open>\<open>extended_max - base_seq + 1\<close>, computed unsigned and stored in an \<open>int\<close>.\<close>

definition expected_of :: "rtp_source \<Rightarrow> u32" where
  "expected_of s = s_cycles s + ucast (s_max_seq s) - s_base_seq s + 1"

definition rtp_source_calc_lost :: "rtp_source \<Rightarrow> int" where
  "rtp_source_calc_lost s =
     (let lost = sint (expected_of s - s_received s)
      in if lost > 8388607 then 8388607 else if lost < - 8388607 then - 8388607 else lost)"

definition rtp_source_calc_fraction_lost :: "rtp_source \<Rightarrow> (u8 \<times> rtp_source) option" where
  "rtp_source_calc_fraction_lost s = do {
     let expected = expected_of s;
     let expected_interval = sint (expected - s_expected_prior s);
     let received_interval = sint (s_received s - s_received_prior s);
     let s = s\<lparr>s_expected_prior := expected, s_received_prior := s_received s\<rparr>;
     lost_interval \<leftarrow> int32 (expected_interval - received_interval);
     if expected_interval = 0 \<or> lost_interval \<le> 0 then Some (0, s)
     else do {
       n \<leftarrow> int32 (lost_interval * 256);
       Some (word_of_int (n sdiv expected_interval), s)
     }
   }"

section \<open>The extended sequence number\<close>

text \<open>The source has counted up to the extended number \<open>e\<close>, whose low 16 bits came in the packet.\<close>

definition at_ext :: "nat \<Rightarrow> rtp_source \<Rightarrow> bool" where
  "at_ext e s \<longleftrightarrow> s_probation s = 0 \<and> unat (s_max_seq s) = e mod 65536 \<and>
     unat (s_cycles s) = 65536 * (e div 65536)"

lemma unat_seq: "unat (word_of_nat e :: u16) = e mod 65536"
  by (simp add: unat_of_nat take_bit_eq_mod)

lemma ext_step:
  assumes s: "at_ext e s" and e: "e \<le> e'" "e' < e + 3000" "e' < 2 ^ 32"
  shows "\<exists>s'. rtp_source_update_seq (word_of_nat e') s = (True, s') \<and> at_ext e' s' \<and>
              s_received s' = s_received s + 1 \<and> s_base_seq s' = s_base_seq s"
proof -
  let ?q = "word_of_nat e' :: u16" and ?m = "s_max_seq s"
  define a b a' b' where "a = e div 65536" and "b = e mod 65536" and "a' = e' div 65536" and "b' = e' mod 65536"
  note ab = this
  have m: "unat ?m = b" and c: "unat (s_cycles s) = 65536 * a"
    and p: "s_probation s = 0" using s by (simp_all add: at_ext_def ab)
  have q: "unat ?q = b'" by (simp add: unat_seq ab)
  have ee: "e = 65536 * a + b" "e' = 65536 * a' + b'" "b < 65536" "b' < 65536" by (simp_all add: ab)
  have "a \<le> a'" unfolding ab using e(1) by (rule div_le_mono)
  moreover have "a' < a + 2" using ee e by linarith
  ultimately have step: "a' = a \<and> b \<le> b' \<or> a' = Suc a \<and> b' < b"
    using ee e by (cases "a' = a") auto
  have d: "unat (?q - ?m) < 3000"
  proof (cases "a' = a")
    case True
    then have "unat ?m \<le> unat ?q" using step q m by linarith
    then have "unat (?q - ?m) = unat ?q - unat ?m" by (simp add: unat_sub word_le_nat_alt)
    then show ?thesis using True ee e q m by linarith
  next
    case False
    then have lt: "unat ?q < unat ?m" and dv: "a' = Suc a" using step q m by auto
    then have "unat (?q - ?m) = unat ?q + 65536 - unat ?m"
      using unat_u16_less [of ?m] by (simp add: unat_sub_if')
    then show ?thesis using dv ee e q m lt by linarith
  qed
  then have ud: "?q - ?m < 3000" by (simp add: word_less_nat_alt)
  have cyc: "unat (s_cycles s + RTP_SEQ_MOD) = 65536 * a'" if "a' = Suc a"
  proof -
    have "65536 * Suc a \<le> e'" using ee(2) that by simp
    then have "unat (s_cycles s) + 65536 < 4294967296" using c e(3) by simp
    then show ?thesis using c that by (simp add: RTP_SEQ_MOD_def unat_add_u32)
  qed
  show ?thesis
  proof (cases "?q < ?m")
    case True
    then have "a' = Suc a" using step q m by (simp add: word_less_nat_alt)
    then show ?thesis using p ud True cyc q
      by (simp add: rtp_source_update_seq_def at_ext_def Let_def ab [symmetric])
  next
    case False
    then have "a' = a" using step q m by (auto simp: word_less_nat_alt)
    then show ?thesis using p ud False q c
      by (simp add: rtp_source_update_seq_def at_ext_def Let_def ab [symmetric])
  qed
qed

text \<open>A stream: the extended numbers of the packets that arrived, each less than 3000 after the one
  before.\<close>

fun stream_from :: "nat \<Rightarrow> nat list \<Rightarrow> bool" where
  "stream_from e [] = True"
| "stream_from e (e' # es) = (e \<le> e' \<and> e' < e + 3000 \<and> stream_from e' es)"

definition receive :: "nat list \<Rightarrow> rtp_source \<Rightarrow> rtp_source" where
  "receive es s = fold (\<lambda>e s. snd (rtp_source_update_seq (word_of_nat e) s)) es s"

lemma stream_from_last_le: "stream_from e es \<Longrightarrow> e \<le> last (e # es)"
  by (induction es arbitrary: e) (auto split: if_splits intro: order_trans)

lemma receive_spec:
  "at_ext e s \<Longrightarrow> stream_from e es \<Longrightarrow> last (e # es) < 2 ^ 32 \<Longrightarrow>
   at_ext (last (e # es)) (receive es s) \<and>
   s_received (receive es s) = s_received s + word_of_nat (length es) \<and>
   s_base_seq (receive es s) = s_base_seq s"
proof (induction es arbitrary: e s)
  case Nil
  then show ?case by (simp add: receive_def)
next
  case (Cons e' es)
  have le: "e' \<le> last (e' # es)" using Cons.prems(2) stream_from_last_le by simp
  then have lt: "e' < 2 ^ 32" using Cons.prems(3) by (auto split: if_splits)
  obtain s' where s': "rtp_source_update_seq (word_of_nat e') s = (True, s')" "at_ext e' s'"
    "s_received s' = s_received s + 1" "s_base_seq s' = s_base_seq s"
    using ext_step [OF Cons.prems(1) _ _ lt] Cons.prems(2) by auto
  have "stream_from e' es" "last (e' # es) < 2 ^ 32" using Cons.prems(2,3) by auto
  from Cons.IH [OF s'(2) this] s' show ?case by (simp add: receive_def)
qed

lemma at_ext_init: "s_probation s = 0 \<Longrightarrow> at_ext (unat seq) (rtp_source_init_seq seq s)"
  using unat_u16_less [of seq] by (simp add: at_ext_def rtp_source_init_seq_def)

lemma expected_at:
  assumes "at_ext e s" "s_base_seq s = word_of_nat b" "b \<le> e" "e < 2 ^ 32 - 1"
  shows "expected_of s = word_of_nat (e - b + 1)"
proof -
  have "s_cycles s + ucast (s_max_seq s) = word_of_nat e"
  proof -
    have "s_cycles s = word_of_nat (65536 * (e div 65536))"
      using assms(1) unfolding at_ext_def by (metis of_nat_unat ucast_id)
    moreover have "(ucast (s_max_seq s) :: u32) = word_of_nat (e mod 65536)"
      using assms(1) unfolding at_ext_def
      by (metis unat_ucast_u16_u32 of_nat_unat ucast_id)
    ultimately have "s_cycles s + ucast (s_max_seq s) = word_of_nat (65536 * (e div 65536) + e mod 65536)"
      by (simp only: of_nat_add)
    then show ?thesis by simp
  qed
  then show ?thesis using assms(2,3) by (simp add: expected_of_def of_nat_diff)
qed

lemma sint_of_int_u32: "- (2 ^ 31) \<le> i \<Longrightarrow> i < 2 ^ 31 \<Longrightarrow> sint (word_of_int i :: u32) = i"
  by (simp add: signed_of_int signed_take_bit_int_eq_self)

lemma unat_add1_u16: "unat (y :: u16) < 65436 \<Longrightarrow> unat (y + 1) = unat y + 1"
  by (simp add: unat_word_ariths)

lemma div_less_256:
  fixes n k :: int
  assumes "n < 256 * k" "0 < k"
  shows "n div k < 256"
proof (rule ccontr)
  assume "\<not> n div k < 256"
  then have "256 * k \<le> n div k * k" using assms(2) by (intro mult_right_mono) simp_all
  also have "\<dots> \<le> n" using assms(2) by (simp add: minus_mod_eq_div_mult [symmetric])
  finally show False using assms(1) by simp
qed

lemma clamp_eq:
  "(if x > (8388607 :: int) then 8388607 else if x < - 8388607 then - 8388607 else x) =
   max (- 8388607) (min 8388607 x)"
  by auto

section \<open>Properties\<close>

text \<open>For a stream whose packets are each less than 3000 numbers after the one before, counted
  over any number of wraps of the 16-bit sequence number, the cumulative loss is the number of
  packets the numbers span minus the packets received (duplicates count as received), clamped to
  24 bits, and the received count is exact.\<close>

theorem loss_counts_missing:
  assumes "s_probation s = 0" and "stream_from (unat seq) es"
    and "last (unat seq # es) < 2 ^ 31 - 1" and "length es < 2 ^ 31"
  shows "let t = receive es (rtp_source_init_seq seq s);
             lost = int (last (unat seq # es) - unat seq + 1) - int (length es)
         in unat (s_received t) = length es \<and>
            rtp_source_calc_lost t = max (- 8388607) (min 8388607 lost)"
proof -
  let ?i = "rtp_source_init_seq seq s" and ?e = "last (unat seq # es)" and ?b = "unat seq"
  define t where "t = receive es ?i"
  have le: "?b \<le> ?e" using stream_from_last_le [OF assms(2)] .
  have lt: "?e < 2 ^ 32" using assms(3) by simp
  from receive_spec [OF at_ext_init [OF assms(1)] assms(2) lt]
  have r: "at_ext ?e t" "s_received t = word_of_nat (length es)" "s_base_seq t = ucast seq"
    by (simp_all add: t_def rtp_source_init_seq_def)
  have "s_base_seq t = word_of_nat ?b" using r(3) by simp
  moreover have "?e < 2 ^ 32 - 1" using assms(3) by simp
  ultimately have "expected_of t = word_of_nat (?e - ?b + 1)" using expected_at [OF r(1) _ le] by simp
  then have "expected_of t - s_received t = word_of_int (int (?e - ?b + 1) - int (length es))"
    using r(2) by simp
  moreover have "sint (word_of_int (int (?e - ?b + 1) - int (length es)) :: u32)
                 = int (?e - ?b + 1) - int (length es)"
    using assms(3,4) by (intro sint_of_int_u32) auto
  ultimately have "sint (expected_of t - s_received t) = int (?e - ?b + 1) - int (length es)" by simp
  then have "rtp_source_calc_lost t = max (- 8388607) (min 8388607 (int (?e - ?b + 1) - int (length es)))"
    unfolding rtp_source_calc_lost_def Let_def by (simp only: clamp_eq)
  moreover have "unat (s_received t) = length es"
    using assms(4) unfolding r(2) by (intro unat_of_nat_u32) simp
  ultimately show ?thesis by (simp add: t_def Let_def)
qed

lemma loss_counts_missing_witness:
  "rtp_source_calc_lost (receive [65534, 65535, 65537, 65540] (rtp_source_init_seq 65534 zero_source)) = 3"
  using loss_counts_missing [of zero_source 65534 "[65534, 65535, 65537, 65540]"]
  by (simp add: zero_source_def Let_def)

text \<open>After a jump of 3000 to 65435 numbers the first packet is not counted, and if the next
  number follows it the count starts afresh there, as for a source that restarted.\<close>

theorem resync_after_jump:
  assumes "s_probation s = 0" and "3000 \<le> x - s_max_seq s" and "x - s_max_seq s < 65436"
    and "s_bad_seq s \<noteq> ucast x"
  shows "\<exists>s1 s2. rtp_source_update_seq x s = (False, s1) \<and> s_max_seq s1 = s_max_seq s \<and>
           s_received s1 = s_received s \<and>
           rtp_source_update_seq (x + 1) s1 = (True, s2) \<and>
           at_ext (unat (x + 1)) s2 \<and> s_base_seq s2 = ucast (x + 1) \<and> s_received s2 = 1"
proof -
  let ?d = "x - s_max_seq s"
  have d: "3000 \<le> unat ?d" "unat ?d < 65436" using assms(2,3) by (simp_all add: word_le_nat_alt word_less_nat_alt)
  have "x + 1 - s_max_seq s = ?d + 1" by simp
  then have d1: "unat (x + 1 - s_max_seq s) = unat ?d + 1"
    using unat_add1_u16 [of ?d] d(2) by (simp only:)
  define s1 where "s1 = s\<lparr>s_bad_seq := ((ucast x :: u32) + 1) AND (RTP_SEQ_MOD - 1)\<rparr>"
  have u1: "rtp_source_update_seq x s = (False, s1)"
    using assms d by (auto simp: rtp_source_update_seq_def s1_def Let_def word_less_nat_alt RTP_SEQ_MOD_def)
  have mask: "(v :: u32) AND (RTP_SEQ_MOD - 1) = take_bit 16 v" for v
    by (simp add: RTP_SEQ_MOD_def take_bit_eq_mask mask_eq_exp_minus_1)
  have bad: "((ucast x :: u32) + 1) AND (RTP_SEQ_MOD - 1) = ucast (x + 1)"
  proof -
    have v: "unat ((ucast x :: u32) + 1) = unat x + 1"
      using unat_u16_less [of x] by (subst unat_add_u32) simp_all
    have "unat (take_bit 16 ((ucast x :: u32) + 1)) = (unat x + 1) mod 65536"
      unfolding unsigned_take_bit_eq v by (simp add: take_bit_eq_mod)
    moreover have "unat (ucast (x + 1) :: u32) = (unat x + 1) mod 65536"
      unfolding unat_ucast_u16_u32 by (simp add: unat_word_ariths)
    ultimately have "unat (take_bit 16 ((ucast x :: u32) + 1)) = unat (ucast (x + 1) :: u32)" by (simp only:)
    then show ?thesis unfolding mask by (simp only: word_unat_eq_iff)
  qed
  let ?s2 = "(rtp_source_init_seq (x + 1) s1)\<lparr>s_received := 1\<rparr>"
  have "rtp_source_update_seq (x + 1) s1 = (True, ?s2)"
    using assms(1) d d1 bad
    by (simp add: rtp_source_update_seq_def s1_def Let_def word_less_nat_alt RTP_SEQ_MOD_def
        rtp_source_init_seq_def)
  moreover have "at_ext (unat (x + 1)) ?s2" "s_base_seq ?s2 = ucast (x + 1)" "s_received ?s2 = 1"
    using at_ext_init [of s1 "x + 1"] assms(1)
    by (simp_all add: s1_def at_ext_def rtp_source_init_seq_def)
  ultimately show ?thesis using u1 by (intro exI [of _ s1] exI [of _ ?s2]) (simp add: s1_def)
qed

lemma resync_after_jump_witness:
  "\<exists>s1 s2. rtp_source_update_seq 10000 (rtp_source_init_seq 5 zero_source) = (False, s1) \<and>
     rtp_source_update_seq 10001 s1 = (True, s2) \<and> s_received s2 = 1"
  using resync_after_jump [of "rtp_source_init_seq 5 zero_source" 10000]
  by (auto simp: rtp_source_init_seq_def zero_source_def RTP_SEQ_MOD_def)

text \<open>The loss fraction of a report interval is 256 times lost over expected, rounded down, as
  long as something was received; an interval in which every packet was lost is reported as no
  loss at all, because 256 does not fit the 8-bit field.\<close>

theorem fraction_lost_value:
  assumes "E = sint (expected_of s - s_expected_prior s)" and "0 < E" and "E < 2 ^ 23"
    and "R = sint (s_received s - s_received_prior s)" and "0 \<le> R"
  shows "\<exists>f s'. rtp_source_calc_fraction_lost s = Some (f, s') \<and>
           (0 < R \<and> R < E \<longrightarrow> uint f = (E - R) * 256 div E) \<and> (E \<le> R \<longrightarrow> f = 0) \<and>
           (R = 0 \<longrightarrow> f = 0) \<and> s_received_prior s' = s_received s \<and> s_expected_prior s' = expected_of s"
proof -
  let ?s = "s\<lparr>s_expected_prior := expected_of s, s_received_prior := s_received s\<rparr>"
  have "R < 2 ^ 31" unfolding assms(4) using sint_lt [of "s_received s - s_received_prior s"] by simp
  then have i1: "int32 (E - R) = Some (E - R)" using assms(2,3,5) by (simp add: int32_def)
  show ?thesis
  proof (cases "E \<le> R")
    case True
    then show ?thesis using i1 assms by (simp add: rtp_source_calc_fraction_lost_def)
  next
    case False
    then have L: "0 < E - R" "E - R < 2 ^ 23" using assms(3,5) by simp_all
    then have i2: "int32 ((E - R) * 256) = Some ((E - R) * 256)" by (simp add: int32_def)
    have dv: "(E - R) * 256 sdiv E = (E - R) * 256 div E"
      using L assms(2) by (simp add: signed_divide_int_def)
    have "rtp_source_calc_fraction_lost s = Some (word_of_int ((E - R) * 256 div E), ?s)"
      using False i1 i2 assms(2) dv
      by (simp add: rtp_source_calc_fraction_lost_def assms(1) [symmetric] assms(4) [symmetric])
    moreover have "0 < R \<longrightarrow> uint (word_of_int ((E - R) * 256 div E) :: u8) = (E - R) * 256 div E"
    proof
      assume "0 < R"
      then have "(E - R) * 256 < 256 * E" by simp
      then have "(E - R) * 256 div E < 256" using assms(2) by (rule div_less_256)
      moreover have "0 \<le> (E - R) * 256 div E" using L assms(2) by (simp add: pos_imp_zdiv_nonneg_iff)
      ultimately show "uint (word_of_int ((E - R) * 256 div E) :: u8) = (E - R) * 256 div E"
        by (simp add: uint_word_of_int_eq take_bit_int_eq_self)
    qed
    moreover have "R = 0 \<longrightarrow> (word_of_int ((E - R) * 256 div E) :: u8) = 0"
      using assms(2) by simp
    ultimately show ?thesis using False by (intro exI [of _ "word_of_int ((E - R) * 256 div E)"] exI [of _ ?s]) auto
  qed
qed

lemma fraction_lost_value_witness:
  "\<exists>s'. rtp_source_calc_fraction_lost (zero_source\<lparr>s_max_seq := 99, s_received := 75\<rparr>) = Some (64, s')"
  using fraction_lost_value [of 100 "zero_source\<lparr>s_max_seq := 99, s_received := 75\<rparr>" 75]
  by (simp add: zero_source_def expected_of_def rtp_source_calc_fraction_lost_def int32_def signed_divide_int_def)

end
