(* ===== verification/Jbuf.thy ===== *)
theory Jbuf
  imports Rtp "HOL-Library.Signed_Division"
begin

text \<open>
  The jitter buffer of baresip (\<open>native/baresip/src/jbuf.c\<close>, release build, so without its
  statistics): RTP packets are put in as they arrive, kept sorted by their 16-bit sequence
  number, and taken out in that order once more than \<open>wish\<close> frames are waiting.  The two linked
  lists are the lists of their packets; the reference counts of the packets' memory objects are a
  function; \<open>tmr_jiffies()\<close> is an argument; \<open>None\<close> is undefined behaviour (a NULL dereference or an
  overflow of \<open>int32_t\<close>).  The \<open>float\<close> computations of the adaptive mode are arguments.
\<close>

section \<open>State\<close>

datatype jbuf_type = JBUF_OFF | JBUF_FIXED | JBUF_ADAPTIVE

record packet =
  p_id :: nat              \<comment> \<open>which of the allocated packets it is\<close>
  p_hdr :: rtp_header
  p_mem :: ptr

record jbuf =
  pooll :: "packet list"
  packetl :: "packet list"
  j_n :: u32
  j_nf :: u32
  j_min :: u32
  j_max :: u32
  j_wish :: u32
  seq_put :: u16
  seq_get :: u16
  j_ssrc :: u32
  j_tr :: u64
  j_pt :: int
  j_running :: bool
  j_rdiff :: int
  j_tmr :: "u64 option"    \<comment> \<open>when the running timer expires\<close>
  jbtype :: jbuf_type
  refs :: "nat \<Rightarrow> nat"     \<comment> \<open>references to each memory object\<close>

text \<open>The two float computations: \<open>(uint32_t)(max / ratio)\<close> and
  \<open>(uint32_t)(rdiff / 1024 / ratio)\<close>, where the ratio is \<open>n / nf\<close>, or 1 without frames.\<close>

record float_ops =
  fl_max :: "u32 \<Rightarrow> u32 \<Rightarrow> u32 \<Rightarrow> u32"
  fl_wish :: "int \<Rightarrow> u32 \<Rightarrow> u32 \<Rightarrow> u32"

definition p_seq :: "packet \<Rightarrow> u16" where "p_seq p = h_seq (p_hdr p)"
definition p_ts :: "packet \<Rightarrow> u32" where "p_ts p = h_ts (p_hdr p)"

definition mem_ref :: "ptr \<Rightarrow> jbuf \<Rightarrow> jbuf" where
  "mem_ref m jb = (case m of None \<Rightarrow> jb | Some a \<Rightarrow> jb\<lparr>refs := (refs jb)(a := refs jb a + 1)\<rparr>)"

definition mem_deref :: "ptr \<Rightarrow> jbuf \<Rightarrow> jbuf" where
  "mem_deref m jb = (case m of None \<Rightarrow> jb | Some a \<Rightarrow> jb\<lparr>refs := (refs jb)(a := refs jb a - 1)\<rparr>)"

section \<open>Operations\<close>

definition seq_less :: "u16 \<Rightarrow> u16 \<Rightarrow> bool" where
  "seq_less x y \<longleftrightarrow> sint (x - y) < 0"

text \<open>A packet from the pool, or the oldest buffered one.\<close>

definition packet_alloc :: "jbuf \<Rightarrow> (packet \<times> jbuf) option" where
  "packet_alloc jb =
     (case pooll jb of
        p # ps \<Rightarrow> Some (p, jb\<lparr>pooll := ps, j_n := j_n jb + 1\<rparr>)
      | [] \<Rightarrow>
          (case packetl jb of
             [] \<Rightarrow> None
           | f0 # fs \<Rightarrow> Some (f0\<lparr>p_mem := None\<rparr>, (mem_deref (p_mem f0) jb)\<lparr>packetl := fs\<rparr>)))"

text \<open>\<open>packet_deref\<close> of a packet that is linked in the buffer.\<close>

definition packet_deref :: "packet \<Rightarrow> jbuf \<Rightarrow> jbuf" where
  "packet_deref f jb =
     (mem_deref (p_mem f) jb)\<lparr>packetl := filter (\<lambda>p. p_id p \<noteq> p_id f) (packetl jb),
        pooll := pooll jb @ [f\<lparr>p_mem := None\<rparr>], j_n := j_n jb - 1\<rparr>"

function flush_packets :: "jbuf \<Rightarrow> jbuf" where
  "flush_packets jb =
     (case packetl jb of [] \<Rightarrow> jb | f # _ \<Rightarrow> flush_packets (packet_deref f jb))"
  by pat_completeness auto
termination
  by (relation "measure (\<lambda>jb. length (packetl jb))")
    (auto simp: packet_deref_def mem_deref_def less_Suc_eq_le split: option.splits)

declare flush_packets.simps [simp del]

definition jbuf_flush :: "jbuf \<Rightarrow> jbuf" where
  "jbuf_flush jb = (flush_packets jb)\<lparr>j_n := 0, j_nf := 0, j_running := False, seq_get := 0\<rparr>"

definition jbuf_destructor :: "jbuf \<Rightarrow> jbuf" where
  "jbuf_destructor jb = (jbuf_flush (jb\<lparr>j_tmr := None\<rparr>))\<lparr>pooll := []\<rparr>"

text \<open>\<open>pkt_ok i\<close>: memory for the \<open>i\<close>-th packet; \<open>lock_err\<close>: the result of \<open>mutex_alloc\<close>.\<close>

fun alloc_packets :: "(nat \<Rightarrow> bool) \<Rightarrow> nat \<Rightarrow> nat \<Rightarrow> packet list \<Rightarrow> packet list option" where
  "alloc_packets pkt_ok i 0 acc = Some acc"
| "alloc_packets pkt_ok i (Suc n) acc =
     (if \<not> pkt_ok i then None
      else alloc_packets pkt_ok (Suc i) n (acc @ [\<lparr>p_id = i, p_hdr = zero_hdr, p_mem = None\<rparr>]))"

definition jbuf_alloc ::
    "bool \<Rightarrow> u32 \<Rightarrow> u32 \<Rightarrow> bool \<Rightarrow> errno \<Rightarrow> (nat \<Rightarrow> bool) \<Rightarrow> (nat \<Rightarrow> nat) \<Rightarrow> errno \<times> jbuf option" where
  "jbuf_alloc jbp min' max' zalloc_ok lock_err pkt_ok refs0 =
     (if \<not> jbp \<or> min' > max' then (EINVAL, None)
      else if \<not> seq_less 10 20 \<or> seq_less 20 10 \<or> \<not> seq_less 65535 0 then (ENOSYS, None)
      else if \<not> zalloc_ok then (ENOMEM, None)
      else if lock_err \<noteq> 0 then (lock_err, None)
      else
        case alloc_packets pkt_ok 0 (unat max') [] of
          None \<Rightarrow> (ENOMEM, None)
        | Some ps \<Rightarrow>
            (OK, Some \<lparr>pooll = ps, packetl = [], j_n = 0, j_nf = 0, j_min = min', j_max = max',
               j_wish = min', seq_put = 0, seq_get = 0, j_ssrc = 0, j_tr = 0, j_pt = - 1,
               j_running = False, j_rdiff = 0, j_tmr = None, jbtype = JBUF_FIXED, refs = refs0\<rparr>))"

definition jbuf_set_type :: "jbuf option \<Rightarrow> jbuf_type \<Rightarrow> errno \<times> jbuf option" where
  "jbuf_set_type jb t =
     (case jb of None \<Rightarrow> (EINVAL, None) | Some j \<Rightarrow> (OK, Some (j\<lparr>jbtype := t\<rparr>)))"

text \<open>The timer's handler; the timer itself no longer runs then.\<close>

definition wish_down :: "jbuf \<Rightarrow> jbuf" where
  "wish_down jb =
     (let jb = jb\<lparr>j_tmr := None\<rparr>
      in if j_wish jb > j_min jb then jb\<lparr>j_wish := j_wish jb - 1\<rparr> else jb)"

definition tmr_left :: "u64 \<Rightarrow> u64 option \<Rightarrow> u64" where
  "tmr_left now t = (case t of None \<Rightarrow> 0 | Some x \<Rightarrow> if x > now then x - now else 0)"

text \<open>The end of \<open>calc_rdiff\<close>: a larger wish takes effect at once, a smaller one after a while.\<close>

definition wish_adapt :: "u64 \<Rightarrow> u32 \<Rightarrow> jbuf \<Rightarrow> jbuf" where
  "wish_adapt now wish jb =
     (if wish < j_wish jb
      then
        let dt = (if wish + 1 = j_wish jb then 6000 else 1000)
        in if j_tmr jb = None \<or> tmr_left now (j_tmr jb) > dt
           then jb\<lparr>j_tmr := Some (now + dt)\<rparr> else jb
      else (if wish > j_wish jb then jb\<lparr>j_wish := wish\<rparr> else jb)\<lparr>j_tmr := None\<rparr>)"

definition calc_rdiff :: "float_ops \<Rightarrow> u64 \<Rightarrow> u16 \<Rightarrow> jbuf \<Rightarrow> jbuf option" where
  "calc_rdiff fl now seq jb =
     (if jbtype jb \<noteq> JBUF_ADAPTIVE then Some jb
      else if seq_get jb = 0 then Some jb
      else do {
        let max' = (if j_nf jb \<noteq> 0 then fl_max fl (j_max jb) (j_n jb) (j_nf jb) else j_max jb);
        let rdiff = sint (seq_put jb + 1 - seq);
        let adiff = \<bar>rdiff * 1024\<bar>;
        let s = (if adiff > j_rdiff jb then 512
                 else if j_wish jb > 2 then 1 else if j_wish jb > 1 then 2 else 3);
        d \<leftarrow> int32 (adiff - j_rdiff jb);
        d \<leftarrow> int32 (d * s);
        r \<leftarrow> int32 (j_rdiff jb + d sdiv 1024);
        let jb = jb\<lparr>j_rdiff := r\<rparr>;
        let wish = fl_wish fl r (j_n jb) (j_nf jb);
        let wish = (if wish < j_min jb then j_min jb else wish);
        let wish = (if max' \<noteq> 0 \<and> wish \<ge> max' then max' - 1 else wish);
        Some (wish_adapt now wish jb)
      })"

text \<open>The search from the tail for the place of \<open>seq\<close>: the packets before and after it, and
  whether the last one before has the same number.\<close>

fun find_pos :: "u16 \<Rightarrow> packet list \<Rightarrow> packet list \<Rightarrow> packet list \<times> packet list \<times> bool" where
  "find_pos seq [] after = ([], after, False)"
| "find_pos seq (le # prev) after =
     (if seq_less (p_seq le) seq then (rev (le # prev), after, False)
      else if seq = p_seq le then (rev (le # prev), after, True)
      else find_pos seq prev (le # after))"

text \<open>The end of a successful put: \<open>f\<close> sits between \<open>before\<close> and \<open>after\<close>.\<close>

definition put_success ::
    "rtp_header \<Rightarrow> ptr \<Rightarrow> packet \<Rightarrow> packet list \<Rightarrow> packet list \<Rightarrow> jbuf \<Rightarrow> jbuf" where
  "put_success hdr mem f before after jb =
     (let f = f\<lparr>p_hdr := hdr, p_mem := mem\<rparr>;
          jb = mem_ref mem (jb\<lparr>j_running := True, seq_put := h_seq hdr, packetl := before @ f # after\<rparr>);
          equal = (before \<noteq> [] \<and> p_ts (last before) = p_ts f);
          equal = (equal \<or> (after \<noteq> [] \<and> p_ts (hd after) = p_ts f))
      in if \<not> equal then jb\<lparr>j_nf := j_nf jb + 1\<rparr> else jb)"

definition jbuf_put ::
    "float_ops \<Rightarrow> u64 \<Rightarrow> jbuf option \<Rightarrow> rtp_header option \<Rightarrow> ptr \<Rightarrow> (errno \<times> jbuf option) option" where
  "jbuf_put fl now jbo hdro mem =
     (case (jbo, hdro) of
        (Some jb, Some hdr) \<Rightarrow> do {
          let seq = h_seq hdr;
          let jb = (if j_pt jb = - 1 then jb\<lparr>j_pt := int (unat (h_pt hdr))\<rparr> else jb);
          let jb = (if j_ssrc jb \<noteq> 0 \<and> j_ssrc jb \<noteq> h_ssrc hdr then jbuf_flush jb else jb);
          let dt = now - j_tr jb;
          let jb = (if j_tr jb \<noteq> 0 \<and> dt > 400 \<and> h_m hdr then jbuf_flush jb else jb);
          let jb = jb\<lparr>j_tr := now, j_ssrc := h_ssrc hdr\<rparr>;
          jb \<leftarrow> (if j_running jb \<and> jbtype jb = JBUF_ADAPTIVE then calc_rdiff fl now seq jb else Some jb);
          if j_running jb \<and> seq_get jb \<noteq> 0 \<and> seq_less seq (seq_get jb + 1)
          then Some (ETIMEDOUT, Some jb)
          else do {
            (f, jb) \<leftarrow> packet_alloc jb;
            if packetl jb = [] \<or> seq_less (p_seq (last (packetl jb))) seq
            then Some (OK, Some (put_success hdr mem f (packetl jb) [] jb))
            else
              let (before, after, dup) = find_pos seq (rev (packetl jb)) []
              in if dup
                 then Some (EALREADY, Some (packet_deref f (jb\<lparr>packetl := before @ f # after\<rparr>)))
                 else Some (OK, Some (put_success hdr mem f before after jb))
          }
        }
      | _ \<Rightarrow> Some (EINVAL, jbo))"

text \<open>The common part of \<open>jbuf_get\<close> and \<open>jbuf_drain\<close>: hand out the head packet.\<close>

definition take_head :: "packet \<Rightarrow> packet list \<Rightarrow> jbuf \<Rightarrow> jbuf" where
  "take_head f rest jb =
     (let jb = mem_ref (p_mem f) (jb\<lparr>seq_get := p_seq f\<rparr>);
          jb = (case rest of
                  next_f # _ \<Rightarrow> if p_ts f \<noteq> p_ts next_f then jb\<lparr>j_nf := j_nf jb - 1\<rparr> else jb
                | [] \<Rightarrow> jb\<lparr>j_nf := j_nf jb - 1\<rparr>)
      in packet_deref f jb)"

text \<open>\<open>hdr\<close>, \<open>mem\<close>: the caller's out-pointers are not NULL.  The header and the memory object that
  are stored there are returned.\<close>

definition jbuf_get ::
    "jbuf option \<Rightarrow> bool \<Rightarrow> bool \<Rightarrow> errno \<times> (rtp_header \<times> ptr) option \<times> jbuf option" where
  "jbuf_get jbo hdr mem =
     (case jbo of
        None \<Rightarrow> (EINVAL, None, None)
      | Some jb \<Rightarrow>
          if \<not> hdr \<or> \<not> mem then (EINVAL, None, jbo)
          else if j_nf jb \<le> j_wish jb then (ENOENT, None, jbo)
          else
            case packetl jb of
              [] \<Rightarrow> (ENOENT, None, jbo)
            | f # rest \<Rightarrow>
                let jb = take_head f rest jb
                in (if j_nf jb > j_wish jb then EAGAIN else OK, Some (p_hdr f, p_mem f), Some jb))"

definition jbuf_drain ::
    "jbuf option \<Rightarrow> bool \<Rightarrow> bool \<Rightarrow> errno \<times> (rtp_header \<times> ptr) option \<times> jbuf option" where
  "jbuf_drain jbo hdr mem =
     (case jbo of
        None \<Rightarrow> (EINVAL, None, None)
      | Some jb \<Rightarrow>
          if \<not> hdr \<or> \<not> mem then (EINVAL, None, jbo)
          else if j_n jb = 0 then (ENOENT, None, jbo)
          else
            case packetl jb of
              [] \<Rightarrow> (ENOENT, None, jbo)
            | f # rest \<Rightarrow> (OK, Some (p_hdr f, p_mem f), Some (take_head f rest jb)))"

definition jbuf_packets :: "jbuf option \<Rightarrow> u32" where
  "jbuf_packets jb = (case jb of None \<Rightarrow> 0 | Some j \<Rightarrow> j_n j)"

definition jbuf_frames :: "jbuf option \<Rightarrow> u32" where
  "jbuf_frames jb = (case jb of None \<Rightarrow> 0 | Some j \<Rightarrow> j_nf j)"

definition jbuf_stats :: "jbuf option \<Rightarrow> bool \<Rightarrow> errno" where
  "jbuf_stats jb jstat = (if jb = None \<or> \<not> jstat then EINVAL else ENOSYS)"

end
