(* ===== verification/Jbuf_Spec.thy ===== *)
theory Jbuf_Spec
  imports Jbuf "HOL-Library.Multiset"
begin

text \<open>
  What the jitter buffer guarantees: packets are neither lost nor duplicated between the pool and
  the buffer, the buffer stays ordered, references to the packets' memory are balanced, packets
  come out in increasing sequence order, and where the bookkeeping goes wrong (a frame count that
  drifts after an overflow, sequence number 0 taken for "nothing played yet").
\<close>

section \<open>Sequence numbers\<close>

text \<open>How far \<open>x\<close> is ahead of \<open>r\<close> on the circle of the 16-bit numbers.\<close>

definition ahead :: "u16 \<Rightarrow> u16 \<Rightarrow> nat" where
  "ahead r x = unat (x - r)"

lemma ahead_alt:
  "ahead r x = (if unat r \<le> unat x then unat x - unat r else unat x + 65536 - unat r)"
  unfolding ahead_def using unat_u16_less [of r] by (simp add: unat_sub_if')

lemma ahead_less: "ahead r x < 65536"
  unfolding ahead_def by (rule unat_u16_less)

lemma ahead_0_iff [simp]: "ahead r x = 0 \<longleftrightarrow> x = r"
  using unat_u16_less [of r] by (auto simp: ahead_alt word_unat_eq_iff split: if_splits)

lemma ahead_self [simp]: "ahead r r = 0"
  by simp

lemma ahead_inj: "ahead r x = ahead r y \<longleftrightarrow> x = y"
  using unat_u16_less [of r] unat_u16_less [of x] unat_u16_less [of y]
  by (auto simp: ahead_alt word_unat_eq_iff split: if_splits)

lemma sint_neg_u16: "sint (w :: u16) < 0 \<longleftrightarrow> 32768 \<le> unat w"
proof -
  have u: "int (unat w) = sint w mod 65536"
    by (simp add: uint_nat [symmetric] uint_sint take_bit_eq_mod)
  have b: "- 32768 \<le> sint w" "sint w < 32768" using sint_ge [of w] sint_lt [of w] by simp_all
  show ?thesis
  proof (cases "sint w < 0")
    case True
    then have "(sint w + 65536) mod 65536 = sint w + 65536"
      using b by (intro mod_pos_pos_trivial) simp_all
    then have "sint w mod 65536 = sint w + 65536" by (simp only: mod_add_self2)
    then show ?thesis using True u b by linarith
  next
    case False
    then have "sint w mod 65536 = sint w" using b by (simp add: mod_pos_pos_trivial)
    then show ?thesis using False u b by linarith
  qed
qed

lemma seq_less_iff: "seq_less x y \<longleftrightarrow> 32768 \<le> ahead y x"
  by (simp add: seq_less_def sint_neg_u16 ahead_def)

lemma ahead_flip: "x \<noteq> r \<Longrightarrow> ahead x r = 65536 - ahead r x"
  using unat_u16_less [of x] unat_u16_less [of r]
  by (auto simp: ahead_alt word_unat_eq_iff)

lemma seq_less_ahead: "seq_less x y \<longleftrightarrow> 0 < ahead x y \<and> ahead x y \<le> 32768"
proof (cases "x = y")
  case True
  then show ?thesis by (simp add: seq_less_iff)
next
  case False
  then have "ahead y x = 65536 - ahead x y" "0 < ahead x y"
    using ahead_flip [of y x] ahead_0_iff [of x y] by (auto simp del: ahead_0_iff)
  then show ?thesis using ahead_less [of x y] by (auto simp: seq_less_iff)
qed

text \<open>Within half the circle ahead of \<open>r\<close> the comparison is the order of the distances.\<close>

definition in_window :: "u16 \<Rightarrow> u16 \<Rightarrow> bool" where
  "in_window r x \<longleftrightarrow> 1 \<le> ahead r x \<and> ahead r x \<le> 32768"

lemma ahead_diff: "ahead r x \<le> ahead r y \<Longrightarrow> ahead x y = ahead r y - ahead r x"
  using unat_u16_less [of x] unat_u16_less [of y] unat_u16_less [of r]
  by (auto simp: ahead_alt split: if_splits)

lemma seq_less_window:
  assumes "in_window r x" "in_window r y"
  shows "seq_less x y \<longleftrightarrow> ahead r x < ahead r y"
proof (cases "ahead r x < ahead r y")
  case True
  then show ?thesis using assms ahead_diff [of r x y] by (simp add: seq_less_ahead in_window_def)
next
  case False
  then have "ahead y x = ahead r x - ahead r y" by (intro ahead_diff) simp
  then show ?thesis using False assms by (simp add: seq_less_iff in_window_def)
qed

lemma not_seq_less: "\<not> seq_less x y \<Longrightarrow> x \<noteq> y \<Longrightarrow> seq_less y x"
  using ahead_flip [of x y] ahead_less [of x y] by (auto simp: seq_less_ahead)

section \<open>The invariant\<close>

definition seq_lt :: "packet \<Rightarrow> packet \<Rightarrow> bool" where
  "seq_lt p q = seq_less (p_seq p) (p_seq q)"

definition held :: "jbuf \<Rightarrow> nat \<Rightarrow> nat" where
  "held jb a = length (filter (\<lambda>p. p_mem p = Some a) (packetl jb))"

definition jb_inv :: "jbuf \<Rightarrow> bool" where
  "jb_inv jb \<longleftrightarrow>
     length (pooll jb) + length (packetl jb) = unat (j_max jb) \<and>
     unat (j_n jb) = length (packetl jb) \<and>
     distinct (map p_id (pooll jb @ packetl jb)) \<and>
     (\<forall>p\<in>set (pooll jb). p_mem p = None) \<and>
     successively seq_lt (packetl jb) \<and>
     (\<forall>a. held jb a \<le> refs jb a)"

text \<open>References beyond those of the buffered packets: what the rest of the program owns.\<close>

definition outside :: "jbuf \<Rightarrow> nat \<Rightarrow> int" where
  "outside jb a = int (refs jb a) - int (held jb a)"

lemma mem_sel [simp]:
  "pooll (mem_ref m jb) = pooll jb" "packetl (mem_ref m jb) = packetl jb" "j_n (mem_ref m jb) = j_n jb"
  "j_max (mem_ref m jb) = j_max jb" "j_nf (mem_ref m jb) = j_nf jb" "seq_get (mem_ref m jb) = seq_get jb"
  "j_running (mem_ref m jb) = j_running jb" "j_wish (mem_ref m jb) = j_wish jb"
  "seq_put (mem_ref m jb) = seq_put jb" "j_ssrc (mem_ref m jb) = j_ssrc jb" "j_tr (mem_ref m jb) = j_tr jb"
  "jbtype (mem_ref m jb) = jbtype jb" "j_min (mem_ref m jb) = j_min jb" "j_pt (mem_ref m jb) = j_pt jb"
  "pooll (mem_deref m jb) = pooll jb" "packetl (mem_deref m jb) = packetl jb" "j_n (mem_deref m jb) = j_n jb"
  "j_max (mem_deref m jb) = j_max jb" "j_nf (mem_deref m jb) = j_nf jb" "seq_get (mem_deref m jb) = seq_get jb"
  "j_running (mem_deref m jb) = j_running jb" "j_wish (mem_deref m jb) = j_wish jb"
  "seq_put (mem_deref m jb) = seq_put jb" "j_ssrc (mem_deref m jb) = j_ssrc jb" "j_tr (mem_deref m jb) = j_tr jb"
  "jbtype (mem_deref m jb) = jbtype jb" "j_min (mem_deref m jb) = j_min jb" "j_pt (mem_deref m jb) = j_pt jb"
  by (simp_all add: mem_ref_def mem_deref_def split: option.splits)

lemma refs_mem [simp]:
  "refs (mem_ref m jb) a = refs jb a + (if m = Some a then 1 else 0)"
  "refs (mem_deref m jb) a = refs jb a - (if m = Some a then 1 else 0)"
  by (simp_all add: mem_ref_def mem_deref_def split: option.splits)

lemma jb_inv_upd [simp]:
  "jb_inv (jb\<lparr>j_pt := x1\<rparr>) = jb_inv jb" "jb_inv (jb\<lparr>j_tr := x2\<rparr>) = jb_inv jb"
  "jb_inv (jb\<lparr>j_ssrc := x3\<rparr>) = jb_inv jb" "jb_inv (jb\<lparr>j_rdiff := x4\<rparr>) = jb_inv jb"
  "jb_inv (jb\<lparr>j_wish := x5\<rparr>) = jb_inv jb" "jb_inv (jb\<lparr>j_tmr := x6\<rparr>) = jb_inv jb"
  "jb_inv (jb\<lparr>j_nf := x7\<rparr>) = jb_inv jb" "jb_inv (jb\<lparr>seq_get := x8\<rparr>) = jb_inv jb"
  "jb_inv (jb\<lparr>j_running := x9\<rparr>) = jb_inv jb" "jb_inv (jb\<lparr>seq_put := x10\<rparr>) = jb_inv jb"
  by (simp_all add: jb_inv_def held_def)

lemma outside_upd [simp]:
  "outside (jb\<lparr>j_pt := x1\<rparr>) = outside jb" "outside (jb\<lparr>j_tr := x2\<rparr>) = outside jb"
  "outside (jb\<lparr>j_ssrc := x3\<rparr>) = outside jb" "outside (jb\<lparr>j_rdiff := x4\<rparr>) = outside jb"
  "outside (jb\<lparr>j_wish := x5\<rparr>) = outside jb" "outside (jb\<lparr>j_tmr := x6\<rparr>) = outside jb"
  "outside (jb\<lparr>j_nf := x7\<rparr>) = outside jb" "outside (jb\<lparr>seq_get := x8\<rparr>) = outside jb"
  "outside (jb\<lparr>j_running := x9\<rparr>) = outside jb" "outside (jb\<lparr>seq_put := x10\<rparr>) = outside jb"
  "outside (jb\<lparr>j_n := x11\<rparr>) = outside jb"
  by (simp_all add: outside_def held_def fun_eq_iff)

section \<open>Taking packets out\<close>

text \<open>Removing the packet with some identity from between others.\<close>

lemma filter_id_middle:
  assumes "distinct (map p_id (xs @ f # ys))"
  shows "filter (\<lambda>p. p_id p \<noteq> p_id f) (xs @ f # ys) = xs @ ys"
proof -
  have "p_id f \<notin> p_id ` set xs" "p_id f \<notin> p_id ` set ys" using assms by auto
  then have "\<forall>p\<in>set xs. p_id p \<noteq> p_id f" "\<forall>p\<in>set ys. p_id p \<noteq> p_id f" by (metis imageI)+
  then show ?thesis by (simp add: filter_id_conv)
qed

lemma packet_deref_head:
  assumes i: "jb_inv jb" and h: "packetl jb = f # rest"
  shows "jb_inv (packet_deref f jb)" "packetl (packet_deref f jb) = rest"
    "outside (packet_deref f jb) = outside jb"
    "pooll (packet_deref f jb) = pooll jb @ [f\<lparr>p_mem := None\<rparr>]"
proof -
  have d: "distinct (map p_id ([] @ f # rest))" using i h by (simp add: jb_inv_def)
  show p: "packetl (packet_deref f jb) = rest"
    using filter_id_middle [OF d] h by (simp add: packet_deref_def)
  show q: "pooll (packet_deref f jb) = pooll jb @ [f\<lparr>p_mem := None\<rparr>]" by (simp add: packet_deref_def)
  have n: "unat (j_n (packet_deref f jb)) = length rest"
  proof -
    have n: "unat (j_n jb) = Suc (length rest)" using i h by (simp add: jb_inv_def)
    then have "1 \<le> j_n jb" by (simp add: word_le_nat_alt)
    then show ?thesis using n by (simp add: packet_deref_def unat_sub)
  qed
  have hl: "held jb a = (if p_mem f = Some a then 1 else 0) + held (packet_deref f jb) a" for a
    by (simp add: held_def h p)
  have hr: "held jb a \<le> refs jb a" for a using i by (simp add: jb_inv_def)
  have r: "refs (packet_deref f jb) a = refs jb a - (if p_mem f = Some a then 1 else 0)" for a
    by (simp add: packet_deref_def)
  show "outside (packet_deref f jb) = outside jb"
  proof
    fix a
    show "outside (packet_deref f jb) a = outside jb a"
      using hl [of a] hr [of a] r [of a] by (auto simp: outside_def split: if_splits)
  qed
  show "jb_inv (packet_deref f jb)"
    unfolding jb_inv_def
  proof (intro conjI)
    show "length (pooll (packet_deref f jb)) + length (packetl (packet_deref f jb)) = unat (j_max (packet_deref f jb))"
      using i h p q by (simp add: jb_inv_def packet_deref_def)
    show "unat (j_n (packet_deref f jb)) = length (packetl (packet_deref f jb))" using n p by simp
    show "distinct (map p_id (pooll (packet_deref f jb) @ packetl (packet_deref f jb)))"
      using i h p q by (auto simp: jb_inv_def)
    show "\<forall>p\<in>set (pooll (packet_deref f jb)). p_mem p = None" using i q by (auto simp: jb_inv_def)
    show "successively seq_lt (packetl (packet_deref f jb))" using i h p by (auto simp: jb_inv_def successively_Cons)
    show "\<forall>a. held (packet_deref f jb) a \<le> refs (packet_deref f jb) a"
    proof
      fix a
      show "held (packet_deref f jb) a \<le> refs (packet_deref f jb) a"
        using hl [of a] hr [of a] r [of a] by (auto split: if_splits)
    qed
  qed
qed

definition ids :: "jbuf \<Rightarrow> nat multiset" where
  "ids jb = mset (map p_id (pooll jb @ packetl jb))"

lemma ids_upd [simp]:
  "ids (jb\<lparr>j_pt := x1\<rparr>) = ids jb" "ids (jb\<lparr>j_tr := x2\<rparr>) = ids jb" "ids (jb\<lparr>j_ssrc := x3\<rparr>) = ids jb"
  "ids (jb\<lparr>j_rdiff := x4\<rparr>) = ids jb" "ids (jb\<lparr>j_wish := x5\<rparr>) = ids jb" "ids (jb\<lparr>j_tmr := x6\<rparr>) = ids jb"
  "ids (jb\<lparr>j_nf := x7\<rparr>) = ids jb" "ids (jb\<lparr>seq_get := x8\<rparr>) = ids jb" "ids (jb\<lparr>j_running := x9\<rparr>) = ids jb"
  "ids (jb\<lparr>seq_put := x10\<rparr>) = ids jb" "ids (jb\<lparr>j_n := x11\<rparr>) = ids jb"
  by (simp_all add: ids_def)

text \<open>What an operation keeps: the set of packets and the references of the others.\<close>

definition conserves :: "jbuf \<Rightarrow> jbuf \<Rightarrow> bool" where
  "conserves jb jb' \<longleftrightarrow> ids jb' = ids jb \<and> outside jb' = outside jb \<and> j_max jb' = j_max jb"

lemma conserves_refl [simp]: "conserves jb jb"
  by (simp add: conserves_def)

lemma conserves_trans [trans]: "conserves a b \<Longrightarrow> conserves b c \<Longrightarrow> conserves a c"
  by (simp add: conserves_def)

lemma packet_deref_conserves:
  "jb_inv jb \<Longrightarrow> packetl jb = f # rest \<Longrightarrow> conserves jb (packet_deref f jb)"
  using packet_deref_head [of jb f rest] by (simp add: conserves_def ids_def) (simp add: packet_deref_def)

lemma flush_packets_spec:
  "jb_inv jb \<Longrightarrow>
   jb_inv (flush_packets jb) \<and> packetl (flush_packets jb) = [] \<and> conserves jb (flush_packets jb)"
proof (induction jb rule: flush_packets.induct)
  case (1 jb)
  show ?case
  proof (cases "packetl jb")
    case Nil
    then show ?thesis using 1(2) by (subst (1 2 3) flush_packets.simps) simp
  next
    case (Cons f rest)
    note d = packet_deref_head [OF 1(2) Cons]
    from 1(1) [OF Cons d(1)] packet_deref_conserves [OF 1(2) Cons] Cons show ?thesis
      by (subst (1 2 3) flush_packets.simps) (auto intro: conserves_trans)
  qed
qed

lemma jbuf_flush_spec:
  assumes "jb_inv jb"
  shows "jb_inv (jbuf_flush jb)" "packetl (jbuf_flush jb) = []" "conserves jb (jbuf_flush jb)"
    "j_nf (jbuf_flush jb) = 0" "j_n (jbuf_flush jb) = 0" "seq_get (jbuf_flush jb) = 0"
    "\<not> j_running (jbuf_flush jb)"
proof -
  note f = flush_packets_spec [OF assms]
  have "unat (j_n (flush_packets jb)) = 0" using f by (simp add: jb_inv_def)
  then have n: "j_n (flush_packets jb) = 0" by (simp add: word_unat_eq_iff)
  then have e: "jbuf_flush jb = (flush_packets jb)\<lparr>j_nf := 0, j_running := False, seq_get := 0\<rparr>"
    by (simp add: jbuf_flush_def)
  show "jb_inv (jbuf_flush jb)" "packetl (jbuf_flush jb) = []" using f by (simp_all add: e)
  show "conserves jb (jbuf_flush jb)" using f by (simp add: e conserves_def)
qed (simp_all add: jbuf_flush_def)

lemma take_head_eq:
  "\<exists>m. take_head f rest jb = packet_deref f ((mem_ref (p_mem f) jb)\<lparr>seq_get := p_seq f, j_nf := m\<rparr>)"
proof -
  have e: "mem_ref (p_mem f) (jb\<lparr>seq_get := p_seq f\<rparr>) = (mem_ref (p_mem f) jb)\<lparr>seq_get := p_seq f\<rparr>"
    by (simp add: mem_ref_def split: option.split)
  have nf: "j\<lparr>seq_get := q\<rparr> = j\<lparr>seq_get := q, j_nf := j_nf jb\<rparr>" if "j_nf j = j_nf jb" for j q
    using that by (cases j) simp
  let ?b = "case rest of [] \<Rightarrow> True | g # _ \<Rightarrow> p_ts f \<noteq> p_ts g"
  have "take_head f rest jb =
      packet_deref f ((mem_ref (p_mem f) jb)\<lparr>seq_get := p_seq f, j_nf := (if ?b then j_nf jb - 1 else j_nf jb)\<rparr>)"
    by (cases rest; cases "p_ts f = p_ts (hd rest)")
      (simp_all add: take_head_def Let_def e del: One_nat_def, metis mem_sel(5) nf)
  then show ?thesis by blast
qed

lemma held_mem_ref [simp]: "held (mem_ref m jb) = held jb"
  by (simp add: held_def fun_eq_iff)

lemma take_head_spec:
  assumes i: "jb_inv jb" and h: "packetl jb = f # rest"
  shows "jb_inv (take_head f rest jb)" "packetl (take_head f rest jb) = rest"
    "ids (take_head f rest jb) = ids jb" "seq_get (take_head f rest jb) = p_seq f"
    "outside (take_head f rest jb) a = outside jb a + (if p_mem f = Some a then 1 else 0)"
    "j_max (take_head f rest jb) = j_max jb" "j_running (take_head f rest jb) = j_running jb"
    "j_wish (take_head f rest jb) = j_wish jb" "j_ssrc (take_head f rest jb) = j_ssrc jb"
    "j_tr (take_head f rest jb) = j_tr jb" "jbtype (take_head f rest jb) = jbtype jb"
proof -
  obtain m where t: "take_head f rest jb = packet_deref f ((mem_ref (p_mem f) jb)\<lparr>seq_get := p_seq f, j_nf := m\<rparr>)"
    using take_head_eq by blast
  let ?j = "(mem_ref (p_mem f) jb)\<lparr>seq_get := p_seq f, j_nf := m\<rparr>"
  have "jb_inv (mem_ref (p_mem f) jb)" using i by (auto simp: jb_inv_def trans_le_add1)
  then have ij: "jb_inv ?j" by simp
  have hj: "packetl ?j = f # rest" using h by simp
  note d = packet_deref_head [OF ij hj] and c = packet_deref_conserves [OF ij hj]
  show "jb_inv (take_head f rest jb)" "packetl (take_head f rest jb) = rest" using d t by simp_all
  show "ids (take_head f rest jb) = ids jb" using c t by (simp add: conserves_def) (simp add: ids_def)
  have "outside ?j a = outside jb a + (if p_mem f = Some a then 1 else 0)"
    by (simp add: outside_def)
  then show "outside (take_head f rest jb) a = outside jb a + (if p_mem f = Some a then 1 else 0)"
    using d(3) t by simp
  show "seq_get (take_head f rest jb) = p_seq f" "j_max (take_head f rest jb) = j_max jb"
    "j_running (take_head f rest jb) = j_running jb" "j_wish (take_head f rest jb) = j_wish jb"
    "j_ssrc (take_head f rest jb) = j_ssrc jb" "j_tr (take_head f rest jb) = j_tr jb"
    "jbtype (take_head f rest jb) = jbtype jb"
    by (simp_all add: t packet_deref_def)
qed

section \<open>Putting packets in\<close>

text \<open>Between \<open>packet_alloc\<close> and the insertion a packet is in neither list.\<close>

definition jb_mid :: "packet \<Rightarrow> jbuf \<Rightarrow> bool" where
  "jb_mid f jb \<longleftrightarrow>
     Suc (length (pooll jb) + length (packetl jb)) = unat (j_max jb) \<and>
     unat (j_n jb) = Suc (length (packetl jb)) \<and>
     distinct (map p_id (pooll jb @ f # packetl jb)) \<and> p_mem f = None \<and>
     (\<forall>p\<in>set (pooll jb). p_mem p = None) \<and>
     successively seq_lt (packetl jb) \<and>
     (\<forall>a. held jb a \<le> refs jb a)"

lemma packet_alloc_spec:
  assumes i: "jb_inv jb" and m: "0 < j_max jb"
  shows "\<exists>f jb'. packet_alloc jb = Some (f, jb') \<and> jb_mid f jb' \<and>
           add_mset (p_id f) (ids jb') = ids jb \<and> outside jb' = outside jb \<and> j_max jb' = j_max jb \<and>
           (packetl jb' = packetl jb \<or> pooll jb = [] \<and> packetl jb' = tl (packetl jb)) \<and>
           j_nf jb' = j_nf jb \<and> seq_get jb' = seq_get jb \<and> j_running jb' = j_running jb \<and>
           j_wish jb' = j_wish jb \<and> (pooll jb \<noteq> [] \<longrightarrow> packetl jb' = packetl jb \<and> refs jb' = refs jb)"
proof (cases "pooll jb")
  case (Cons p ps)
  have "unat (j_n jb) + 1 < 4294967296"
    using i Cons unat_u32_less [of "j_max jb"] by (simp add: jb_inv_def)
  then have "unat (j_n jb + 1) = Suc (unat (j_n jb))" by (subst unat_add_u32) simp_all
  then show ?thesis using i Cons
    by (auto simp: packet_alloc_def jb_mid_def jb_inv_def ids_def outside_def held_def)
next
  case Nil
  have "0 < unat (j_max jb)" using m by (simp add: word_less_nat_alt)
  then obtain f0 fs where h: "packetl jb = f0 # fs"
    using i Nil by (cases "packetl jb") (auto simp: jb_inv_def)
  let ?j = "(mem_deref (p_mem f0) jb)\<lparr>packetl := fs\<rparr>"
  have hl: "held jb a = (if p_mem f0 = Some a then 1 else 0) + held ?j a" for a by (simp add: held_def h)
  have hr: "held jb a \<le> refs jb a" for a using i by (simp add: jb_inv_def)
  have r: "refs ?j a = refs jb a - (if p_mem f0 = Some a then 1 else 0)" for a by simp
  have o: "outside ?j = outside jb"
  proof
    fix a
    show "outside ?j a = outside jb a"
      using hl [of a] hr [of a] r [of a] by (auto simp: outside_def split: if_splits)
  qed
  have hr': "\<forall>a. held ?j a \<le> refs ?j a"
  proof
    fix a
    show "held ?j a \<le> refs ?j a" using hl [of a] hr [of a] r [of a] by (auto split: if_splits)
  qed
  have mid: "jb_mid (f0\<lparr>p_mem := None\<rparr>) ?j"
    using i Nil h hr' by (auto simp: jb_mid_def jb_inv_def successively_Cons)
  show ?thesis using Nil h mid o
    by (intro exI [of _ "f0\<lparr>p_mem := None\<rparr>"] exI [of _ ?j]) (simp add: packet_alloc_def ids_def)
qed

lemma put_success_spec:
  assumes mid: "jb_mid f jb" and split: "packetl jb = before @ after"
    and lo: "before = [] \<or> seq_less (p_seq (last before)) (h_seq hdr)"
    and hi: "after = [] \<or> seq_less (h_seq hdr) (p_seq (hd after))"
  shows "jb_inv (put_success hdr mem f before after jb)"
    "packetl (put_success hdr mem f before after jb) = before @ f\<lparr>p_hdr := hdr, p_mem := mem\<rparr> # after"
    "outside (put_success hdr mem f before after jb) = outside jb"
    "ids (put_success hdr mem f before after jb) = add_mset (p_id f) (ids jb)"
    "j_max (put_success hdr mem f before after jb) = j_max jb"
    "seq_get (put_success hdr mem f before after jb) = seq_get jb"
    "j_running (put_success hdr mem f before after jb)"
proof -
  let ?f = "f\<lparr>p_hdr := hdr, p_mem := mem\<rparr>"
  let ?j = "jb\<lparr>j_running := True, seq_put := h_seq hdr, packetl := before @ ?f # after\<rparr>"
  let ?r = "put_success hdr mem f before after jb"
  have e: "\<exists>m. ?r = (mem_ref mem ?j)\<lparr>j_nf := m\<rparr>"
  proof -
    have "j = j\<lparr>j_nf := j_nf j\<rparr>" for j :: jbuf by simp
    then show ?thesis unfolding put_success_def Let_def by metis
  qed
  then obtain m where r: "?r = (mem_ref mem ?j)\<lparr>j_nf := m\<rparr>" by blast
  show p: "packetl ?r = before @ ?f # after" by (simp add: r)
  show "j_max ?r = j_max jb" "seq_get ?r = seq_get jb" "j_running ?r" by (simp_all add: r)
  show "ids ?r = add_mset (p_id f) (ids jb)" using split by (simp add: r ids_def)
  have hl: "held ?r a = held jb a + (if mem = Some a then 1 else 0)" for a
    by (simp add: held_def p split)
  have rf: "refs ?r a = refs jb a + (if mem = Some a then 1 else 0)" for a by (simp add: r)
  show "outside ?r = outside jb" by (simp add: outside_def hl rf fun_eq_iff)
  have "successively seq_lt (before @ ?f # after)"
    using mid lo hi unfolding jb_mid_def split
    by (auto simp: successively_append_iff successively_Cons seq_lt_def p_seq_def)
  moreover have "\<forall>a. held ?r a \<le> refs ?r a" using mid by (simp add: hl rf jb_mid_def)
  ultimately show "jb_inv ?r" using mid split
    unfolding jb_inv_def by (auto simp: r jb_mid_def held_def)
qed

lemma put_dup_spec:
  assumes mid: "jb_mid f jb" and split: "packetl jb = before @ after"
  defines "r \<equiv> packet_deref f (jb\<lparr>packetl := before @ f # after\<rparr>)"
  shows "jb_inv r" "packetl r = packetl jb" "outside r = outside jb"
    "ids r = add_mset (p_id f) (ids jb)" "j_max r = j_max jb" "seq_get r = seq_get jb"
    "j_running r = j_running jb" "j_nf r = j_nf jb"
proof -
  have nm: "p_mem f = None" using mid by (simp add: jb_mid_def)
  have d: "distinct (map p_id (before @ f # after))" using mid split by (auto simp: jb_mid_def)
  have f: "filter (\<lambda>p. p_id p \<noteq> p_id f) (before @ f # after) = before @ after"
    by (rule filter_id_middle [OF d])
  have r: "r = jb\<lparr>packetl := before @ after, pooll := pooll jb @ [f\<lparr>p_mem := None\<rparr>], j_n := j_n jb - 1\<rparr>"
    using f nm by (simp add: r_def packet_deref_def mem_deref_def)
  have n: "unat (j_n jb - 1) = length (packetl jb)"
  proof -
    have n: "unat (j_n jb) = Suc (length (packetl jb))" using mid by (simp add: jb_mid_def)
    then have "1 \<le> j_n jb" by (simp add: word_le_nat_alt)
    then show ?thesis using n by (simp add: unat_sub)
  qed
  show p: "packetl r = packetl jb" by (simp add: r split)
  show "outside r = outside jb" by (simp add: r outside_def held_def split fun_eq_iff)
  show "ids r = add_mset (p_id f) (ids jb)" by (simp add: r ids_def split)
  show "j_max r = j_max jb" "seq_get r = seq_get jb" "j_running r = j_running jb" "j_nf r = j_nf jb"
    by (simp_all add: r)
  show "jb_inv r" using mid n split
    unfolding jb_inv_def jb_mid_def by (auto simp: r held_def)
qed

lemma find_pos_spec:
  "find_pos seq prev after = (before, after', dup) \<Longrightarrow>
   before @ after' = rev prev @ after \<and>
   (if dup then before \<noteq> [] \<and> p_seq (last before) = seq
    else (before = [] \<or> seq_less (p_seq (last before)) seq) \<and>
         (after' = after \<or> seq_less seq (p_seq (hd after'))))"
proof (induction prev arbitrary: after)
  case Nil
  then show ?case by simp
next
  case (Cons le prev)
  show ?case
  proof (cases "seq_less (p_seq le) seq \<or> seq = p_seq le")
    case True
    then show ?thesis using Cons.prems by (auto split: if_splits)
  next
    case False
    then have "find_pos seq prev (le # after) = (before, after', dup)" using Cons.prems by simp
    from Cons.IH [OF this] False show ?thesis
      using not_seq_less [of "p_seq le" seq] by (auto split: if_splits)
  qed
qed


lemma flush_packets_sel:
  "j_max (flush_packets jb) = j_max jb \<and> jbtype (flush_packets jb) = jbtype jb \<and>
   j_wish (flush_packets jb) = j_wish jb \<and> j_ssrc (flush_packets jb) = j_ssrc jb \<and>
   j_tr (flush_packets jb) = j_tr jb"
proof (induction jb rule: flush_packets.induct)
  case (1 jb)
  then show ?case
    by (cases "packetl jb"; subst (1 2 3 4 5) flush_packets.simps)
      (auto simp: packet_deref_def)
qed

text \<open>The first part of \<open>jbuf_put\<close>: the flushes and the bookkeeping before the packet is looked at.\<close>

definition put_start :: "u64 \<Rightarrow> rtp_header \<Rightarrow> jbuf \<Rightarrow> jbuf" where
  "put_start now hdr jb =
     (let jb = (if j_pt jb = - 1 then jb\<lparr>j_pt := int (unat (h_pt hdr))\<rparr> else jb);
          jb = (if j_ssrc jb \<noteq> 0 \<and> j_ssrc jb \<noteq> h_ssrc hdr then jbuf_flush jb else jb);
          jb = (if j_tr jb \<noteq> 0 \<and> now - j_tr jb > 400 \<and> h_m hdr then jbuf_flush jb else jb)
      in jb\<lparr>j_tr := now, j_ssrc := h_ssrc hdr\<rparr>)"

text \<open>The insertion of a packet that is not late.\<close>

definition put_insert :: "rtp_header \<Rightarrow> ptr \<Rightarrow> jbuf \<Rightarrow> (errno \<times> jbuf option) option" where
  "put_insert hdr mem jb = do {
     (f, jb) \<leftarrow> packet_alloc jb;
     if packetl jb = [] \<or> seq_less (p_seq (last (packetl jb))) (h_seq hdr)
     then Some (OK, Some (put_success hdr mem f (packetl jb) [] jb))
     else
       let (before, after, dup) = find_pos (h_seq hdr) (rev (packetl jb)) []
       in if dup
          then Some (EALREADY, Some (packet_deref f (jb\<lparr>packetl := before @ f # after\<rparr>)))
          else Some (OK, Some (put_success hdr mem f before after jb))
   }"

definition too_late :: "u16 \<Rightarrow> jbuf \<Rightarrow> bool" where
  "too_late seq jb \<longleftrightarrow> j_running jb \<and> seq_get jb \<noteq> 0 \<and> seq_less seq (seq_get jb + 1)"

lemma jbuf_put_unfold:
  "jbuf_put fl now (Some jb) (Some hdr) mem =
     do {
       jb \<leftarrow> (if j_running (put_start now hdr jb) \<and> jbtype (put_start now hdr jb) = JBUF_ADAPTIVE
             then calc_rdiff fl now (h_seq hdr) (put_start now hdr jb) else Some (put_start now hdr jb));
       if too_late (h_seq hdr) jb then Some (ETIMEDOUT, Some jb) else put_insert hdr mem jb
     }"
  by (simp add: jbuf_put_def put_start_def put_insert_def too_late_def Let_def cong: if_cong)

definition same_queue :: "jbuf \<Rightarrow> jbuf \<Rightarrow> bool" where
  "same_queue jb jb' \<longleftrightarrow>
     packetl jb' = packetl jb \<and> pooll jb' = pooll jb \<and> j_nf jb' = j_nf jb \<and> seq_get jb' = seq_get jb \<and>
     j_running jb' = j_running jb \<and> refs jb' = refs jb"

definition emptied :: "jbuf \<Rightarrow> bool" where
  "emptied jb \<longleftrightarrow> packetl jb = [] \<and> j_nf jb = 0 \<and> seq_get jb = 0 \<and> \<not> j_running jb"

lemma jbuf_flush_sel:
  "j_max (jbuf_flush jb) = j_max jb" "jbtype (jbuf_flush jb) = jbtype jb" "j_wish (jbuf_flush jb) = j_wish jb"
  "j_ssrc (jbuf_flush jb) = j_ssrc jb" "j_tr (jbuf_flush jb) = j_tr jb"
  by (simp_all add: jbuf_flush_def flush_packets_sel)

lemma put_start_spec:
  assumes i: "jb_inv jb"
  shows "jb_inv (put_start now hdr jb)" "conserves jb (put_start now hdr jb)"
    "j_max (put_start now hdr jb) = j_max jb" "jbtype (put_start now hdr jb) = jbtype jb"
    "j_ssrc (put_start now hdr jb) = h_ssrc hdr"
    "same_queue jb (put_start now hdr jb) \<or> emptied (put_start now hdr jb)"
    "(j_ssrc jb = 0 \<or> j_ssrc jb = h_ssrc hdr) \<Longrightarrow> \<not> h_m hdr \<Longrightarrow> same_queue jb (put_start now hdr jb)"
proof -
  define j1 where "j1 = (if j_pt jb = - 1 then jb\<lparr>j_pt := int (unat (h_pt hdr))\<rparr> else jb)"
  define j2 where "j2 = (if j_ssrc j1 \<noteq> 0 \<and> j_ssrc j1 \<noteq> h_ssrc hdr then jbuf_flush j1 else j1)"
  define j3 where "j3 = (if j_tr j2 \<noteq> 0 \<and> now - j_tr j2 > 400 \<and> h_m hdr then jbuf_flush j2 else j2)"
  have p: "put_start now hdr jb = j3\<lparr>j_tr := now, j_ssrc := h_ssrc hdr\<rparr>"
    unfolding put_start_def j1_def j2_def j3_def Let_def ..
  have 1: "jb_inv j1" "conserves jb j1" "same_queue jb j1" "jbtype j1 = jbtype jb" "j_ssrc j1 = j_ssrc jb"
    using i by (auto simp: j1_def conserves_def same_queue_def)
  have 2: "jb_inv j2" "conserves jb j2" "same_queue jb j2 \<or> emptied j2" "jbtype j2 = jbtype jb"
    "(j_ssrc jb = 0 \<or> j_ssrc jb = h_ssrc hdr) \<Longrightarrow> same_queue jb j2"
    using 1 jbuf_flush_spec [OF 1(1)] jbuf_flush_sel [of j1]
    by (auto simp: j2_def emptied_def intro: conserves_trans)
  have 3: "jb_inv j3" "conserves jb j3" "same_queue jb j3 \<or> emptied j3" "jbtype j3 = jbtype jb"
    "(j_ssrc jb = 0 \<or> j_ssrc jb = h_ssrc hdr) \<Longrightarrow> \<not> h_m hdr \<Longrightarrow> same_queue jb j3"
    using 2 jbuf_flush_spec [OF 2(1)] jbuf_flush_sel [of j2]
    by (auto simp: j3_def emptied_def intro: conserves_trans)
  show "jb_inv (put_start now hdr jb)" "jbtype (put_start now hdr jb) = jbtype jb"
    "j_ssrc (put_start now hdr jb) = h_ssrc hdr" using 3 by (simp_all add: p)
  show c: "conserves jb (put_start now hdr jb)" using 3 by (simp add: p conserves_def)
  then show "j_max (put_start now hdr jb) = j_max jb" by (simp add: conserves_def)
  show "same_queue jb (put_start now hdr jb) \<or> emptied (put_start now hdr jb)"
    using 3(3) by (simp add: p same_queue_def emptied_def)
  show "(j_ssrc jb = 0 \<or> j_ssrc jb = h_ssrc hdr) \<Longrightarrow> \<not> h_m hdr \<Longrightarrow> same_queue jb (put_start now hdr jb)"
    using 3(5) by (simp add: p same_queue_def)
qed

text \<open>What \<open>calc_rdiff\<close> touches: the estimate, the wish and the timer.\<close>

lemma wish_adapt_frame:
  "\<exists>w t. wish_adapt now wish jb = jb\<lparr>j_wish := w, j_tmr := t\<rparr>"
proof -
  have "wish_adapt now wish jb =
      jb\<lparr>j_wish := j_wish (wish_adapt now wish jb), j_tmr := j_tmr (wish_adapt now wish jb)\<rparr>"
    by (cases jb) (simp add: wish_adapt_def Let_def)
  then show ?thesis by blast
qed

lemma calc_rdiff_frame:
  assumes "calc_rdiff fl now seq jb = Some jb'"
  shows "\<exists>r w t. jb' = jb\<lparr>j_rdiff := r, j_wish := w, j_tmr := t\<rparr>"
proof (cases "jbtype jb \<noteq> JBUF_ADAPTIVE \<or> seq_get jb = 0")
  case True
  then have e: "jb' = jb" using assms unfolding calc_rdiff_def by (metis option.inject)
  show ?thesis unfolding e
    by (intro exI [of _ "j_rdiff jb"] exI [of _ "j_wish jb"] exI [of _ "j_tmr jb"]) simp
next
  case False
  then obtain r w where e: "jb' = wish_adapt now w (jb\<lparr>j_rdiff := r\<rparr>)"
    using assms by (simp only: calc_rdiff_def Let_def bind_eq_Some_conv if_False de_Morgan_disj option.inject) blast
  obtain w' t' where "jb' = jb\<lparr>j_rdiff := r, j_wish := w', j_tmr := t'\<rparr>"
    using wish_adapt_frame [of now w "jb\<lparr>j_rdiff := r\<rparr>"] e by blast
  then show ?thesis by blast
qed

text \<open>The three outcomes of an insertion into the packets \<open>base\<close>.\<close>

definition inserted :: "rtp_header \<Rightarrow> ptr \<Rightarrow> packet list \<Rightarrow> packet list \<Rightarrow> bool" where
  "inserted hdr mem base xs \<longleftrightarrow>
     (\<exists>before f after. base = before @ after \<and> xs = before @ f # after \<and> p_hdr f = hdr \<and> p_mem f = mem \<and>
        (before = [] \<or> seq_less (p_seq (last before)) (h_seq hdr)) \<and>
        (after = [] \<or> seq_less (h_seq hdr) (p_seq (hd after))))"

lemma put_insert_spec:
  assumes i: "jb_inv jb" and m: "0 < j_max jb"
  shows "\<exists>err jb'. put_insert hdr mem jb = Some (err, Some jb') \<and> jb_inv jb' \<and> conserves jb jb' \<and>
    seq_get jb' = seq_get jb \<and>
    (\<exists>base. (base = packetl jb \<or> pooll jb = [] \<and> base = tl (packetl jb)) \<and>
       (err = OK \<and> j_running jb' \<and> inserted hdr mem base (packetl jb') \<or>
        err = EALREADY \<and> j_running jb' = j_running jb \<and> packetl jb' = base \<and>
        h_seq hdr \<in> p_seq ` set base))"
proof -
  obtain f j1 where a: "packet_alloc jb = Some (f, j1)" and mid: "jb_mid f j1"
    and ids: "add_mset (p_id f) (ids j1) = ids jb" and out: "outside j1 = outside jb"
    and mx: "j_max j1 = j_max jb" and base: "packetl j1 = packetl jb \<or> pooll jb = [] \<and> packetl j1 = tl (packetl jb)"
    and sg: "seq_get j1 = seq_get jb" "j_running j1 = j_running jb"
    using packet_alloc_spec [OF i m] by blast
  have ok: "\<exists>err jb'. Some (OK, Some (put_success hdr mem f before after j1)) = Some (err, Some jb') \<and>
      jb_inv jb' \<and> conserves jb jb' \<and> seq_get jb' = seq_get jb \<and>
      (err = OK \<and> j_running jb' \<and> inserted hdr mem (packetl j1) (packetl jb') \<or>
       err = EALREADY \<and> j_running jb' = j_running jb \<and> packetl jb' = packetl j1 \<and> h_seq hdr \<in> p_seq ` set (packetl j1))"
    if s: "packetl j1 = before @ after" "before = [] \<or> seq_less (p_seq (last before)) (h_seq hdr)"
      "after = [] \<or> seq_less (h_seq hdr) (p_seq (hd after))" for before after
  proof -
    note p = put_success_spec [OF mid s]
    have "inserted hdr mem (packetl j1) (packetl (put_success hdr mem f before after j1))"
      unfolding inserted_def using s p(2)
      by (intro exI [of _ before] exI [of _ "f\<lparr>p_hdr := hdr, p_mem := mem\<rparr>"] exI [of _ after]) simp
    then show ?thesis using p ids out mx sg by (simp add: conserves_def)
  qed
  show ?thesis
  proof (cases "packetl j1 = [] \<or> seq_less (p_seq (last (packetl j1))) (h_seq hdr)")
    case True
    then have e: "put_insert hdr mem jb = Some (OK, Some (put_success hdr mem f (packetl j1) [] j1))"
      using a by (simp add: put_insert_def)
    have "\<exists>err jb'. put_insert hdr mem jb = Some (err, Some jb') \<and>
      jb_inv jb' \<and> conserves jb jb' \<and> seq_get jb' = seq_get jb \<and>
      (err = OK \<and> j_running jb' \<and> inserted hdr mem (packetl j1) (packetl jb') \<or>
       err = EALREADY \<and> j_running jb' = j_running jb \<and> packetl jb' = packetl j1 \<and> h_seq hdr \<in> p_seq ` set (packetl j1))"
      unfolding e using True by (intro ok) simp_all
    then show ?thesis using base by blast
  next
    case False
    obtain before after dup where fp: "find_pos (h_seq hdr) (rev (packetl j1)) [] = (before, after, dup)"
      by (metis prod_cases3)
    note s = find_pos_spec [OF fp, simplified]
    show ?thesis
    proof (cases dup)
      case True
      let ?r = "packet_deref f (j1\<lparr>packetl := before @ f # after\<rparr>)"
      have sp: "packetl j1 = before @ after" using s by simp
      have e: "put_insert hdr mem jb = Some (EALREADY, Some ?r)"
        using a fp False True by (simp add: put_insert_def)
      have "h_seq hdr \<in> p_seq ` set (packetl j1)" using s True sp by (auto intro!: image_eqI [of _ _ "last before"])
      then show ?thesis using e put_dup_spec [OF mid sp] ids out mx sg base
        by (intro exI [of _ EALREADY] exI [of _ ?r]) (auto simp: conserves_def)
    next
      case False': False
      have e: "put_insert hdr mem jb = Some (OK, Some (put_success hdr mem f before after j1))"
        using a fp False False' by (simp add: put_insert_def)
      have "\<exists>err jb'. put_insert hdr mem jb = Some (err, Some jb') \<and>
        jb_inv jb' \<and> conserves jb jb' \<and> seq_get jb' = seq_get jb \<and>
        (err = OK \<and> j_running jb' \<and> inserted hdr mem (packetl j1) (packetl jb') \<or>
         err = EALREADY \<and> j_running jb' = j_running jb \<and> packetl jb' = packetl j1 \<and> h_seq hdr \<in> p_seq ` set (packetl j1))"
        unfolding e using s False' by (intro ok) auto
      then show ?thesis using base by blast
    qed
  qed
qed

lemma put_insert_ssrc:
  "put_insert hdr mem jb = Some (err, Some jb') \<Longrightarrow> j_ssrc jb' = j_ssrc jb \<and> jbtype jb' = jbtype jb"
  by (auto simp: put_insert_def packet_alloc_def put_success_def packet_deref_def Let_def bind_eq_Some_conv
      split: list.splits if_splits prod.splits)

text \<open>The state in which \<open>jbuf_put\<close> looks at the packet.\<close>

lemma put_looked_at:
  assumes i: "jb_inv jb"
    and p: "(if j_running (put_start now hdr jb) \<and> jbtype (put_start now hdr jb) = JBUF_ADAPTIVE
             then calc_rdiff fl now (h_seq hdr) (put_start now hdr jb) else Some (put_start now hdr jb)) = Some j1"
  shows "jb_inv j1" "conserves jb j1" "j_max j1 = j_max jb" "jbtype j1 = jbtype jb" "j_ssrc j1 = h_ssrc hdr"
    "same_queue jb j1 \<or> emptied j1"
    "(j_ssrc jb = 0 \<or> j_ssrc jb = h_ssrc hdr) \<Longrightarrow> \<not> h_m hdr \<Longrightarrow> same_queue jb j1"
proof -
  let ?s = "put_start now hdr jb"
  note s = put_start_spec [OF i, where now = now and hdr = hdr]
  obtain r w t where e: "j1 = ?s \<or> j1 = ?s\<lparr>j_rdiff := r, j_wish := w, j_tmr := t\<rparr>"
    using p calc_rdiff_frame [of fl now "h_seq hdr" ?s j1] by (metis option.inject)
  show "jb_inv j1" "j_max j1 = j_max jb" "jbtype j1 = jbtype jb" "j_ssrc j1 = h_ssrc hdr" using e s by auto
  show "conserves jb j1" using e s(2) by (auto simp: conserves_def)
  show "same_queue jb j1 \<or> emptied j1" using e s(6) by (auto simp: same_queue_def emptied_def)
  show "(j_ssrc jb = 0 \<or> j_ssrc jb = h_ssrc hdr) \<Longrightarrow> \<not> h_m hdr \<Longrightarrow> same_queue jb j1"
    using e s(7) by (auto simp: same_queue_def)
qed

lemma jbuf_put_cases:
  assumes i: "jb_inv jb" and m: "0 < j_max jb"
    and p: "jbuf_put fl now (Some jb) (Some hdr) mem = Some (err, jb'o)"
  obtains j1 jb' where "jb'o = Some jb'" "jb_inv j1" "conserves jb j1" "same_queue jb j1 \<or> emptied j1"
    "jb_inv jb'" "conserves jb jb'" "seq_get jb' = seq_get j1"
    "j_ssrc jb' = h_ssrc hdr" "jbtype jb' = jbtype jb"
    "(j_ssrc jb = 0 \<or> j_ssrc jb = h_ssrc hdr) \<Longrightarrow> \<not> h_m hdr \<Longrightarrow> same_queue jb j1"
    "err = ETIMEDOUT \<and> jb' = j1 \<and> too_late (h_seq hdr) j1 \<or>
     \<not> too_late (h_seq hdr) j1 \<and> (\<exists>base. (base = packetl j1 \<or> pooll j1 = [] \<and> base = tl (packetl j1)) \<and>
       (err = OK \<and> j_running jb' \<and> inserted hdr mem base (packetl jb') \<or>
        err = EALREADY \<and> j_running jb' = j_running j1 \<and> packetl jb' = base \<and> h_seq hdr \<in> p_seq ` set base))"
proof -
  obtain j1 where l: "(if j_running (put_start now hdr jb) \<and> jbtype (put_start now hdr jb) = JBUF_ADAPTIVE
             then calc_rdiff fl now (h_seq hdr) (put_start now hdr jb) else Some (put_start now hdr jb)) = Some j1"
    and q: "(if too_late (h_seq hdr) j1 then Some (ETIMEDOUT, Some j1) else put_insert hdr mem j1) = Some (err, jb'o)"
    using p unfolding jbuf_put_unfold bind_eq_Some_conv by blast
  note s = put_looked_at [OF i l]
  show thesis
  proof (cases "too_late (h_seq hdr) j1")
    case True
    then have "jb'o = Some j1" "err = ETIMEDOUT" using q by simp_all
    then show thesis using True that [OF _ s(1,2,6) s(1,2) refl s(5,4) s(7)] by blast
  next
    case False
    obtain jb' where x: "put_insert hdr mem j1 = Some (err, Some jb')" "jb_inv jb'" "conserves j1 jb'"
      "seq_get jb' = seq_get j1"
      "\<exists>base. (base = packetl j1 \<or> pooll j1 = [] \<and> base = tl (packetl j1)) \<and>
       (err = OK \<and> j_running jb' \<and> inserted hdr mem base (packetl jb') \<or>
        err = EALREADY \<and> j_running jb' = j_running j1 \<and> packetl jb' = base \<and> h_seq hdr \<in> p_seq ` set base)"
      using put_insert_spec [OF s(1), of hdr mem] m s(3) q False by auto
    have e: "jb'o = Some jb'" using q False x(1) by simp
    have ss: "j_ssrc jb' = h_ssrc hdr" "jbtype jb' = jbtype jb" using put_insert_ssrc [OF x(1)] s(4,5) by simp_all
    show thesis
      by (rule that [OF e s(1,2,6) x(2) conserves_trans [OF s(2) x(3)] x(4) ss s(7) disjI2 [OF conjI [OF False x(5)]]])
  qed
qed

section \<open>What a put guarantees\<close>

lemma calc_rdiff_not_adaptive: "jbtype jb \<noteq> JBUF_ADAPTIVE \<Longrightarrow> calc_rdiff fl now seq jb = Some jb"
  by (simp add: calc_rdiff_def)

text \<open>The buffer states of the examples: \<open>n\<close> empty packets in the pool.\<close>

definition fresh_jbuf :: "nat \<Rightarrow> u32 \<Rightarrow> jbuf" where
  "fresh_jbuf n min' =
     \<lparr>pooll = map (\<lambda>i. \<lparr>p_id = i, p_hdr = zero_hdr, p_mem = None\<rparr>) [0..<n], packetl = [], j_n = 0, j_nf = 0,
      j_min = min', j_max = of_nat n, j_wish = min', seq_put = 0, seq_get = 0, j_ssrc = 0, j_tr = 0, j_pt = - 1,
      j_running = False, j_rdiff = 0, j_tmr = None, jbtype = JBUF_FIXED, refs = (\<lambda>_. 1)\<rparr>"

lemma alloc_packets_spec:
  "\<forall>k\<in>{i..<i + n}. pkt_ok k \<Longrightarrow>
   alloc_packets pkt_ok i n acc = Some (acc @ map (\<lambda>i. \<lparr>p_id = i, p_hdr = zero_hdr, p_mem = None\<rparr>) [i..<i + n])"
proof (induction n arbitrary: i acc)
  case (Suc n)
  have "[i..<i + Suc n] = i # [Suc i..<Suc i + n]" by (simp add: upt_rec)
  then show ?case using Suc by simp
qed simp

lemma alloc_packets_None: "k \<in> {i..<i + n} \<Longrightarrow> \<not> pkt_ok k \<Longrightarrow> alloc_packets pkt_ok i n acc = None"
proof (induction n arbitrary: i acc)
  case (Suc n)
  then show ?case by (cases "k = i") auto
qed simp

lemma fresh_jb_inv: "n < 2 ^ 32 \<Longrightarrow> jb_inv (fresh_jbuf n m)"
  by (simp add: jb_inv_def fresh_jbuf_def held_def unat_of_nat_u32 comp_def)

text \<open>an allocation either fails with an error and leaves nothing behind, or gives an empty buffer
  of exactly \<open>max\<close> pooled packets; with a sane request and enough memory it succeeds.\<close>

theorem jbuf_alloc_fresh:
  "jbuf_alloc jbp min' max' zok lerr pok (\<lambda>_. 1) =
     (if \<not> jbp \<or> min' > max' then (EINVAL, None)
      else if \<not> zok then (ENOMEM, None)
      else if lerr \<noteq> 0 then (lerr, None)
      else if (\<exists>k<unat max'. \<not> pok k) then (ENOMEM, None)
      else (OK, Some (fresh_jbuf (unat max') min'))) \<and>
   jb_inv (fresh_jbuf (unat max') min')"
proof -
  have self_test: "seq_less 10 20" "\<not> seq_less 20 10" "seq_less 65535 0"
    by (simp_all add: seq_less_def)
  have "alloc_packets pok 0 (unat max') [] =
      (if \<exists>k<unat max'. \<not> pok k then None else Some (pooll (fresh_jbuf (unat max') min')))"
    using alloc_packets_spec [of 0 "unat max'" pok "[]"] alloc_packets_None [of _ 0 "unat max'" pok "[]"]
    by (auto simp: fresh_jbuf_def)
  then show ?thesis
    using self_test fresh_jb_inv [of "unat max'" min'] unat_u32_less [of max']
    by (auto simp: jbuf_alloc_def fresh_jbuf_def)
qed

lemma jbuf_alloc_fresh_witness:
  "jbuf_alloc True 1 2 True 0 (\<lambda>_. True) (\<lambda>_. 1) = (OK, Some (fresh_jbuf 2 1))"
  using jbuf_alloc_fresh [of True 1 2 True 0 "\<lambda>_. True"] by simp

text \<open>C35: in the fixed mode a put with a buffer of at least one packet always comes back, with success, a
  late packet or a duplicate; the buffer stays well formed (sorted, every packet in one of the lists,
  the counter right), no packet structure is lost, and the references that the rest of the program
  holds to any memory object are untouched: a stored packet has exactly one reference of its own.\<close>

theorem jbuf_put_safe:
  assumes i: "jb_inv jb" and m: "0 < j_max jb" and t: "jbtype jb \<noteq> JBUF_ADAPTIVE"
  shows "\<exists>err jb'. jbuf_put fl now (Some jb) (Some hdr) mem = Some (err, Some jb') \<and>
    err \<in> {OK, ETIMEDOUT, EALREADY} \<and> jb_inv jb' \<and> conserves jb jb' \<and>
    (err = OK \<longrightarrow> (\<exists>p\<in>set (packetl jb'). p_hdr p = hdr \<and> p_mem p = mem)) \<and>
    (err = EALREADY \<longrightarrow> h_seq hdr \<in> p_seq ` set (packetl jb'))"
proof -
  let ?s = "put_start now hdr jb"
  note s = put_start_spec [OF i, where now = now and hdr = hdr]
  have e: "jbuf_put fl now (Some jb) (Some hdr) mem =
      (if too_late (h_seq hdr) ?s then Some (ETIMEDOUT, Some ?s) else put_insert hdr mem ?s)"
    using s(4) t by (simp add: jbuf_put_unfold)
  obtain err jb' where p: "jbuf_put fl now (Some jb) (Some hdr) mem = Some (err, Some jb')"
    using e put_insert_spec [OF s(1), of hdr mem] s(3) m by (cases "too_late (h_seq hdr) ?s") auto
  from i m p show ?thesis
    by (rule jbuf_put_cases) (auto simp: p inserted_def)
qed

lemma jbuf_put_safe_witness:
  "\<exists>err jb'. jbuf_put (\<lparr>fl_max = \<lambda>_ _ _. 0, fl_wish = \<lambda>_ _ _. 0\<rparr>) 5 (Some (fresh_jbuf 2 1)) (Some zero_hdr) (Some 7)
    = Some (err, Some jb') \<and> err \<in> {OK, ETIMEDOUT, EALREADY} \<and> jb_inv jb'"
  using jbuf_put_safe [OF fresh_jb_inv [of 2 1], of "\<lparr>fl_max = \<lambda>_ _ _. 0, fl_wish = \<lambda>_ _ _. 0\<rparr>" 5 zero_hdr "Some 7"]
  by (simp add: fresh_jbuf_def) blast

section \<open>Playout order\<close>

text \<open>A run of the buffer: packets put in and taken out in any order; the sequence numbers that come
  out.\<close>

datatype jop = Put u64 rtp_header ptr | Get | Drain

definition take_op :: "jop \<Rightarrow> jbuf \<Rightarrow> errno \<times> (rtp_header \<times> ptr) option \<times> jbuf option" where
  "take_op op jb = (if op = Get then jbuf_get (Some jb) True True else jbuf_drain (Some jb) True True)"

fun play :: "float_ops \<Rightarrow> jop list \<Rightarrow> jbuf \<Rightarrow> (u16 list \<times> jbuf) option" where
  "play fl [] jb = Some ([], jb)"
| "play fl (op # ops) jb =
     (case op of
        Put now hdr mem \<Rightarrow> do {
          (_, jbo) \<leftarrow> jbuf_put fl now (Some jb) (Some hdr) mem;
          jb \<leftarrow> jbo;
          play fl ops jb
        }
      | _ \<Rightarrow> do {
          let (_, out, jbo) = take_op op jb;
          jb \<leftarrow> jbo;
          (outs, jb) \<leftarrow> play fl ops jb;
          Some (case out of None \<Rightarrow> outs | Some (hdr, _) \<Rightarrow> h_seq hdr # outs, jb)
        })"

text \<open>A stream: one source, no marker bit, numbers within half the circle ahead of \<open>r\<close>.\<close>

definition in_stream :: "u16 \<Rightarrow> u32 \<Rightarrow> jop \<Rightarrow> bool" where
  "in_stream r src op \<longleftrightarrow>
     (case op of Put now hdr mem \<Rightarrow>
        h_ssrc hdr = src \<and> \<not> h_m hdr \<and> in_window r (h_seq hdr) \<and> h_seq hdr \<noteq> 0 | _ \<Rightarrow> True)"

definition jb_win :: "u16 \<Rightarrow> u32 \<Rightarrow> jbuf \<Rightarrow> bool" where
  "jb_win r src jb \<longleftrightarrow>
     jb_inv jb \<and> 0 < j_max jb \<and> (j_ssrc jb = 0 \<or> j_ssrc jb = src) \<and>
     (\<forall>p\<in>set (packetl jb). in_window r (p_seq p) \<and> p_seq p \<noteq> 0) \<and>
     (packetl jb \<noteq> [] \<or> seq_get jb \<noteq> 0 \<longrightarrow> j_running jb) \<and>
     (seq_get jb \<noteq> 0 \<longrightarrow> in_window r (seq_get jb) \<and>
        (\<forall>p\<in>set (packetl jb). ahead r (seq_get jb) < ahead r (p_seq p)))"

lemma window_sorted:
  assumes "successively seq_lt ps" "\<forall>p\<in>set ps. in_window r (p_seq p)"
  shows "sorted_wrt (\<lambda>p q. ahead r (p_seq p) < ahead r (p_seq q)) ps"
proof -
  have "successively (\<lambda>p q. ahead r (p_seq p) < ahead r (p_seq q)) ps"
    using assms by (induction ps rule: induct_list012) (auto simp: seq_lt_def seq_less_window)
  then show ?thesis by (subst (asm) successively_iff_sorted_wrt_strong) (auto intro: less_trans)
qed

lemma not_late_ahead:
  assumes x: "in_window r x" and g: "in_window r g" and l: "\<not> seq_less x (g + 1)"
  shows "ahead r g < ahead r x"
proof (rule ccontr)
  assume "\<not> ?thesis"
  then have le: "ahead r x \<le> ahead r g" by simp
  have s: "ahead r (g + 1) = ahead r g + 1"
  proof -
    have "unat (g - r) + 1 < 65536" using g by (simp add: in_window_def ahead_def)
    then have "unat (g - r + 1) = unat (g - r) + 1" by (simp add: unat_word_ariths)
    then show ?thesis by (simp add: ahead_def algebra_simps)
  qed
  then have "ahead x (g + 1) = ahead r g + 1 - ahead r x" using ahead_diff [of r x "g + 1"] le by simp
  then have "0 < ahead x (g + 1) \<and> ahead x (g + 1) \<le> 32768"
    using le x g by (simp add: in_window_def)
  then show False using l by (simp add: seq_less_ahead)
qed

lemma set_inserted: "inserted hdr mem base xs \<Longrightarrow> p_seq ` set xs = insert (h_seq hdr) (p_seq ` set base)"
  by (auto simp: inserted_def p_seq_def)

lemma set_base: "base = packetl jb \<or> pooll jb = [] \<and> base = tl (packetl jb) \<Longrightarrow> set base \<subseteq> set (packetl jb)"
  by (auto dest: list.set_sel(2)) (metis list.set_sel(2) tl_Nil)

lemma jbuf_put_win:
  assumes w: "jb_win r src jb" and s: "in_stream r src (Put now hdr mem)"
    and p: "jbuf_put fl now (Some jb) (Some hdr) mem = Some (err, jbo)"
  shows "\<exists>jb'. jbo = Some jb' \<and> jb_win r src jb' \<and> seq_get jb' = seq_get jb"
proof -
  have i: "jb_inv jb" and m: "0 < j_max jb" using w by (simp_all add: jb_win_def)
  from i m p show ?thesis
  proof (rule jbuf_put_cases)
    fix j1 jb'
    assume 1: "jbo = Some jb'" "jb_inv j1" "conserves jb j1" "jb_inv jb'" "conserves jb jb'" "seq_get jb' = seq_get j1" "j_ssrc jb' = h_ssrc hdr"
      and q: "(j_ssrc jb = 0 \<or> j_ssrc jb = h_ssrc hdr) \<Longrightarrow> \<not> h_m hdr \<Longrightarrow> same_queue jb j1"
      and c: "err = ETIMEDOUT \<and> jb' = j1 \<and> too_late (h_seq hdr) j1 \<or>
        \<not> too_late (h_seq hdr) j1 \<and> (\<exists>base. (base = packetl j1 \<or> pooll j1 = [] \<and> base = tl (packetl j1)) \<and>
         (err = OK \<and> j_running jb' \<and> inserted hdr mem base (packetl jb') \<or>
          err = EALREADY \<and> j_running jb' = j_running j1 \<and> packetl jb' = base \<and> h_seq hdr \<in> p_seq ` set base))"
    have sq: "same_queue jb j1" using q w s by (simp add: jb_win_def in_stream_def)
    have m': "0 < j_max jb'" using m 1(5) by (simp add: conserves_def)
    have hs: "in_window r (h_seq hdr)" "h_seq hdr \<noteq> 0" "h_ssrc hdr = src" using s by (simp_all add: in_stream_def)
    have w1: "\<forall>p\<in>set (packetl j1). in_window r (p_seq p) \<and> p_seq p \<noteq> 0"
      "packetl j1 \<noteq> [] \<or> seq_get j1 \<noteq> 0 \<Longrightarrow> j_running j1"
      "seq_get j1 \<noteq> 0 \<Longrightarrow> in_window r (seq_get j1)"
      "seq_get j1 \<noteq> 0 \<Longrightarrow> \<forall>p\<in>set (packetl j1). ahead r (seq_get j1) < ahead r (p_seq p)"
      using w sq by (auto simp: jb_win_def same_queue_def)
    have fm: "(packetl jb' \<noteq> [] \<or> seq_get jb' \<noteq> 0 \<longrightarrow> j_running jb') \<and>
        (p_seq ` set (packetl jb') \<subseteq> p_seq ` set (packetl j1) \<or>
         \<not> too_late (h_seq hdr) j1 \<and> p_seq ` set (packetl jb') \<subseteq> insert (h_seq hdr) (p_seq ` set (packetl j1)))"
    proof -
      consider (late) "jb' = j1"
        | (ok) base where "\<not> too_late (h_seq hdr) j1" "set base \<subseteq> set (packetl j1)" "j_running jb'"
            "inserted hdr mem base (packetl jb')"
        | (dup) base where "\<not> too_late (h_seq hdr) j1" "set base \<subseteq> set (packetl j1)"
            "j_running jb' = j_running j1" "packetl jb' = base"
        using c set_base [of _ j1] by blast
      then show ?thesis
      proof cases
        case late
        then show ?thesis using w1(2) by auto
      next
        case ok
        have "p_seq ` set base \<subseteq> p_seq ` set (packetl j1)" using ok(2) by (rule image_mono)
        then show ?thesis using set_inserted [OF ok(4)] ok by blast
      next
        case dup
        have "p_seq ` set base \<subseteq> p_seq ` set (packetl j1)" using dup(2) by (rule image_mono)
        moreover have "packetl j1 = [] \<Longrightarrow> base = []" using dup(2) by simp
        ultimately show ?thesis using w1(2) 1(6) dup by auto
      qed
    qed
    have new: "ahead r (seq_get j1) < ahead r (h_seq hdr)" if "\<not> too_late (h_seq hdr) j1" "seq_get j1 \<noteq> 0"
      using that w1(2,3) hs by (intro not_late_ahead) (auto simp: too_late_def)
    have all: "in_window r (p_seq p) \<and> p_seq p \<noteq> 0 \<and> (seq_get j1 \<noteq> 0 \<longrightarrow> ahead r (seq_get j1) < ahead r (p_seq p))"
      if p: "p \<in> set (packetl jb')" for p
    proof -
      consider p' where "p' \<in> set (packetl j1)" "p_seq p = p_seq p'"
        | "\<not> too_late (h_seq hdr) j1" "p_seq p = h_seq hdr"
        using fm imageI [OF p, of p_seq] by blast
      then show ?thesis by cases (use w1(1,4) new hs in auto)
    qed
    have "jb_win r src jb'"
      unfolding jb_win_def 1(6)
      by (intro conjI impI ballI) (use 1 fm m' w1(3) hs all in simp_all)
    then show ?thesis using 1 sq by (simp add: same_queue_def)
  qed
qed

lemma take_head_win:
  assumes w: "jb_win r src jb" and h: "packetl jb = f # rest"
  shows "jb_win r src (take_head f rest jb)" "seq_get (take_head f rest jb) = p_seq f"
    "in_window r (p_seq f)" "p_seq f \<noteq> 0" "seq_get jb \<noteq> 0 \<Longrightarrow> ahead r (seq_get jb) < ahead r (p_seq f)"
proof -
  have i: "jb_inv jb" using w by (simp add: jb_win_def)
  note t = take_head_spec [OF i h]
  show "seq_get (take_head f rest jb) = p_seq f" by (rule t)
  show "in_window r (p_seq f)" "p_seq f \<noteq> 0" "seq_get jb \<noteq> 0 \<Longrightarrow> ahead r (seq_get jb) < ahead r (p_seq f)"
    using w h by (simp_all add: jb_win_def)
  have "sorted_wrt (\<lambda>p q. ahead r (p_seq p) < ahead r (p_seq q)) (f # rest)"
    using w h by (intro window_sorted) (auto simp: jb_win_def jb_inv_def)
  then show "jb_win r src (take_head f rest jb)" using w h t by (auto simp: jb_win_def)
qed

text \<open>Taking: nothing happens, or the head is handed out.\<close>

lemma take_op_cases:
  assumes "take_op op jb = (err, out, jbo)"
  obtains "out = None" "jbo = Some jb"
  | f rest where "packetl jb = f # rest" "out = Some (p_hdr f, p_mem f)" "jbo = Some (take_head f rest jb)"
  using assms
  by (auto simp: take_op_def jbuf_get_def jbuf_drain_def Let_def split: if_splits list.splits)

lemma play_win:
  "play fl ops jb = Some (outs, jb') \<Longrightarrow> jb_win r src jb \<Longrightarrow> (\<And>op. op \<in> set ops \<Longrightarrow> in_stream r src op) \<Longrightarrow>
   jb_win r src jb' \<and> sorted_wrt (\<lambda>x y. ahead r x < ahead r y) outs \<and>
   (\<forall>x\<in>set outs. in_window r x \<and> (seq_get jb \<noteq> 0 \<longrightarrow> ahead r (seq_get jb) < ahead r x))"
proof (induction ops arbitrary: jb outs)
  case Nil
  then show ?case by simp
next
  case (Cons op ops)
  note sub = Cons.IH and wj = Cons.prems(2)
  have st: "\<And>op. op \<in> set ops \<Longrightarrow> in_stream r src op" and s1: "in_stream r src op" using Cons.prems(3) by simp_all
  show ?case
  proof (cases op)
    case (Put now hdr mem)
    then obtain err j1 where p: "jbuf_put fl now (Some jb) (Some hdr) mem = Some (err, Some j1)"
      and q: "play fl ops j1 = Some (outs, jb')"
      using Cons.prems(1) by (auto simp: bind_eq_Some_conv)
    have "jb_win r src j1" "seq_get j1 = seq_get jb" using jbuf_put_win [OF wj s1 [unfolded Put] p] by simp_all
    then show ?thesis using sub [OF q _ st] by simp
  next
    case take: Get
    obtain err out jbo where t: "take_op op jb = (err, out, jbo)" by (metis prod_cases3)
    from t show ?thesis
    proof (cases rule: take_op_cases)
      case 1
      then have "play fl ops jb = Some (outs, jb')" using Cons.prems(1) take t by (auto simp: bind_eq_Some_conv)
      then show ?thesis using sub wj st by blast
    next
      case (2 f rest)
      obtain outs' where q: "play fl ops (take_head f rest jb) = Some (outs', jb')" and o: "outs = p_seq f # outs'"
        using Cons.prems(1) take t 2 by (auto simp: bind_eq_Some_conv p_seq_def)
      note w = take_head_win [OF wj 2(1)]
      from sub [OF q w(1) st] o w show ?thesis by (fastforce dest: less_trans)
    qed
  next
    case take: Drain
    obtain err out jbo where t: "take_op op jb = (err, out, jbo)" by (metis prod_cases3)
    from t show ?thesis
    proof (cases rule: take_op_cases)
      case 1
      then have "play fl ops jb = Some (outs, jb')" using Cons.prems(1) take t by (auto simp: bind_eq_Some_conv)
      then show ?thesis using sub wj st by blast
    next
      case (2 f rest)
      obtain outs' where q: "play fl ops (take_head f rest jb) = Some (outs', jb')" and o: "outs = p_seq f # outs'"
        using Cons.prems(1) take t 2 by (auto simp: bind_eq_Some_conv p_seq_def)
      note w = take_head_win [OF wj 2(1)]
      from sub [OF q w(1) st] o w show ?thesis by (fastforce dest: less_trans)
    qed
  qed
qed

text \<open>C6: Take a stream of one source without marker bits, whose sequence numbers lie within the half of the circle that
  follows some \<open>r\<close> and are not 0.  In whatever order its packets arrive, and however puts, gets and drains interleave, the
  packets that come out of a fresh buffer have strictly increasing sequence numbers on the circle.  (That number 0 has to be
  left out is shown by \<open>late_packet_after_zero\<close>.)\<close>

theorem playout_order:
  assumes "0 < n" "n < 2 ^ 32" and "\<And>op. op \<in> set ops \<Longrightarrow> in_stream r src op"
    and "play fl ops (fresh_jbuf n m) = Some (outs, jb')"
  shows "sorted_wrt (\<lambda>x y. ahead r x < ahead r y) outs"
proof -
  have "jb_win r src (fresh_jbuf n m)"
    using assms(1,2) fresh_jb_inv [of n m]
    by (simp add: jb_win_def) (simp add: fresh_jbuf_def word_less_nat_alt unat_of_nat_u32)
  then show ?thesis using play_win assms(3,4) by blast
qed

definition ex_hdr :: "u16 \<Rightarrow> u32 \<Rightarrow> rtp_header" where
  "ex_hdr s t = zero_hdr\<lparr>h_seq := s, h_ts := t, h_ssrc := 9\<rparr>"

definition ex_fl :: float_ops where
  "ex_fl = \<lparr>fl_max = \<lambda>_ _ _. 0, fl_wish = \<lambda>_ _ _. 0\<rparr>"

lemma playout_order_witness:
  "sorted_wrt (\<lambda>x y. ahead 5 x < ahead 5 y) [6, 7 :: u16] \<and>
   (\<exists>jb'. play ex_fl [Put 1 (ex_hdr 7 20) (Some 0), Put 2 (ex_hdr 6 10) (Some 1), Get, Drain] (fresh_jbuf 2 1)
     = Some ([6, 7], jb'))"
proof -
  let ?ops = "[Put 1 (ex_hdr 7 20) (Some 0), Put 2 (ex_hdr 6 10) (Some 1), Get, Drain]"
  have "map_option fst (play ex_fl ?ops (fresh_jbuf 2 1)) = Some [6, 7]" by code_simp
  then obtain jb' where p: "play ex_fl ?ops (fresh_jbuf 2 1) = Some ([6, 7], jb')" by auto
  have "sorted_wrt (\<lambda>x y. ahead 5 x < ahead 5 y) [6, 7 :: u16]"
    using p by (rule playout_order [rotated 3]) (auto simp: in_stream_def in_window_def ahead_def ex_hdr_def zero_hdr_def)
  then show ?thesis using p by blast
qed

lemma play_append:
  "play fl xs jb = Some (o1, j) \<Longrightarrow> play fl ys j = Some (o2, j') \<Longrightarrow> play fl (xs @ ys) jb = Some (o1 @ o2, j')"
proof (induction xs arbitrary: jb o1)
  case (Cons op xs)
  then show ?case
    by (cases op) (auto simp: bind_eq_Some_conv Let_def split: prod.splits option.splits)
qed simp

lemma jbuf_put_on_time:
  assumes w: "jb_win r src jb" and t: "jbtype jb \<noteq> JBUF_ADAPTIVE" and g: "seq_get jb = 0" and room: "pooll jb \<noteq> []"
    and new: "h_seq h \<notin> p_seq ` set (packetl jb)" and s: "in_stream r src (Put now h mem)"
  obtains jb' where "jbuf_put fl now (Some jb) (Some h) mem = Some (OK, Some jb')"
    "jb_win r src jb'" "jbtype jb' \<noteq> JBUF_ADAPTIVE" "seq_get jb' = 0" "j_max jb' = j_max jb"
    "mset (map p_seq (packetl jb')) = add_mset (h_seq h) (mset (map p_seq (packetl jb)))"
proof -
  have i: "jb_inv jb" and m: "0 < j_max jb" using w by (simp_all add: jb_win_def)
  obtain err jb' where p: "jbuf_put fl now (Some jb) (Some h) mem = Some (err, Some jb')"
    using jbuf_put_safe [OF i m t] by blast
  have w': "jb_win r src jb'" "seq_get jb' = 0" using jbuf_put_win [OF w s p] g by simp_all
  from i m p show thesis
  proof (rule jbuf_put_cases)
    fix j1 jb''
    assume 1: "Some jb' = Some jb''" "conserves jb jb''" "jbtype jb'' = jbtype jb"
      and q: "(j_ssrc jb = 0 \<or> j_ssrc jb = h_ssrc h) \<Longrightarrow> \<not> h_m h \<Longrightarrow> same_queue jb j1"
      and c: "err = ETIMEDOUT \<and> jb'' = j1 \<and> too_late (h_seq h) j1 \<or>
        \<not> too_late (h_seq h) j1 \<and> (\<exists>base. (base = packetl j1 \<or> pooll j1 = [] \<and> base = tl (packetl j1)) \<and>
         (err = OK \<and> j_running jb'' \<and> inserted h mem base (packetl jb'') \<or>
          err = EALREADY \<and> j_running jb'' = j_running j1 \<and> packetl jb'' = base \<and> h_seq h \<in> p_seq ` set base))"
    have sq: "same_queue jb j1" using q w s by (simp add: jb_win_def in_stream_def)
    then have "\<not> too_late (h_seq h) j1" using g by (simp add: same_queue_def too_late_def)
    then have "err = OK" "inserted h mem (packetl jb) (packetl jb')"
      using c sq room new 1 by (auto simp: same_queue_def)
    moreover have "jbtype jb' = jbtype jb" using 1 by simp
    ultimately show thesis
      using p w' t 1 by (intro that [of jb']) (auto simp: inserted_def conserves_def p_seq_def)
  qed
qed

lemma play_puts:
  assumes "jb_win r src jb" "jbtype jb \<noteq> JBUF_ADAPTIVE" "seq_get jb = 0"
    "length (packetl jb) + length hdrs \<le> unat (j_max jb)"
    "distinct (map h_seq hdrs)" "p_seq ` set (packetl jb) \<inter> h_seq ` set hdrs = {}"
    "\<And>h. h \<in> set hdrs \<Longrightarrow> in_stream r src (Put now h mem)"
  shows "\<exists>jb'. play fl (map (\<lambda>h. Put now h mem) hdrs) jb = Some ([], jb') \<and> jb_inv jb' \<and>
    mset (map p_seq (packetl jb')) = mset (map p_seq (packetl jb)) + mset (map h_seq hdrs)"
  using assms
proof (induction hdrs arbitrary: jb)
  case Nil
  then show ?case by (simp add: jb_win_def)
next
  case (Cons h hdrs)
  have i: "jb_inv jb" and m: "0 < j_max jb" using Cons.prems(1) by (simp_all add: jb_win_def)
  have room: "pooll jb \<noteq> []" using i Cons.prems(4) by (auto simp: jb_inv_def)
  obtain j2 where 2: "jbuf_put fl now (Some jb) (Some h) mem = Some (OK, Some j2)"
    "jb_win r src j2" "jbtype j2 \<noteq> JBUF_ADAPTIVE" "seq_get j2 = 0" "j_max j2 = j_max jb"
    "mset (map p_seq (packetl j2)) = add_mset (h_seq h) (mset (map p_seq (packetl jb)))"
    using jbuf_put_on_time [OF Cons.prems(1-3) room _ Cons.prems(7) [of h], of fl] Cons.prems(6) by auto
  have s2: "p_seq ` set (packetl j2) = insert (h_seq h) (p_seq ` set (packetl jb))"
    using arg_cong [OF 2(6), of set_mset] by simp
  have l2: "length (packetl j2) = Suc (length (packetl jb))"
    using arg_cong [OF 2(6), of size] by simp
  have "\<exists>jb'. play fl (map (\<lambda>h. Put now h mem) hdrs) j2 = Some ([], jb') \<and> jb_inv jb' \<and>
      mset (map p_seq (packetl jb')) = mset (map p_seq (packetl j2)) + mset (map h_seq hdrs)"
    using Cons.prems(4-7) 2(5) s2 l2 by (intro Cons.IH 2(2-4)) auto
  then show ?case using 2(1,6) by auto
qed

lemma play_drains:
  "jb_inv jb \<Longrightarrow>
   \<exists>jb'. play fl (replicate (length (packetl jb)) Drain) jb = Some (map p_seq (packetl jb), jb') \<and> packetl jb' = []"
proof (induction "packetl jb" arbitrary: jb)
  case Nil
  then show ?case by simp
next
  case (Cons f rest)
  have h: "packetl jb = f # rest" using Cons.hyps(2) by simp
  note t = take_head_spec [OF Cons.prems h]
  have n: "unat (j_n jb) = Suc (length rest)" using Cons.prems h by (simp add: jb_inv_def)
  then have "j_n jb \<noteq> 0" by auto
  then have d: "take_op Drain jb = (OK, Some (p_hdr f, p_mem f), Some (take_head f rest jb))"
    using h by (simp add: take_op_def jbuf_drain_def)
  show ?case using Cons.hyps(1) [of "take_head f rest jb"] t(1,2) h d by (auto simp: p_seq_def)
qed

text \<open>up to \<open>n\<close> packets with distinct numbers of one stream, put into a fresh buffer of \<open>n\<close> packets in
  any order, come out again complete and in order.\<close>

theorem reordering_restored:
  assumes n: "0 < n" "n < 2 ^ 32" "length hdrs \<le> n" and d: "distinct (map h_seq hdrs)"
    and s: "\<And>h. h \<in> set hdrs \<Longrightarrow> in_stream r src (Put now h mem)"
  shows "\<exists>outs jb'. play fl (map (\<lambda>h. Put now h mem) hdrs @ replicate (length hdrs) Drain) (fresh_jbuf n m)
      = Some (outs, jb') \<and> mset outs = mset (map h_seq hdrs) \<and>
      sorted_wrt (\<lambda>x y. ahead r x < ahead r y) outs \<and> packetl jb' = []"
proof -
  let ?j = "fresh_jbuf n m"
  have w: "jb_win r src ?j" using n fresh_jb_inv [of n m]
    by (simp add: jb_win_def) (simp add: fresh_jbuf_def word_less_nat_alt unat_of_nat_u32)
  obtain j where p: "play fl (map (\<lambda>h. Put now h mem) hdrs) ?j = Some ([], j)" "jb_inv j"
    "mset (map p_seq (packetl j)) = mset (map h_seq hdrs)"
    using play_puts [OF w _ _ _ d _ s, of fl] n by (auto simp: fresh_jbuf_def unat_of_nat_u32)
  have l: "length (packetl j) = length hdrs" using arg_cong [OF p(3), of size] by simp
  obtain jb' where q: "play fl (replicate (length hdrs) Drain) j = Some (map p_seq (packetl j), jb')" "packetl jb' = []"
    using play_drains [OF p(2)] l by auto
  have "jb_win r src j" using play_win [OF p(1) w] s by auto
  then have "sorted_wrt (\<lambda>p q. ahead r (p_seq p) < ahead r (p_seq q)) (packetl j)"
    by (intro window_sorted) (auto simp: jb_win_def jb_inv_def)
  then show ?thesis using play_append [OF p(1) q(1)] p(3) q(2) by (auto simp: sorted_wrt_map)
qed

lemma reordering_restored_witness:
  "\<exists>outs jb'. play ex_fl (map (\<lambda>h. Put 1 h None) [ex_hdr 7 0, ex_hdr 6 0] @ replicate (length [ex_hdr 7 0, ex_hdr 6 0]) Drain)
      (fresh_jbuf 2 1) = Some (outs, jb') \<and> mset outs = mset (map h_seq [ex_hdr 7 0, ex_hdr 6 0]) \<and>
      sorted_wrt (\<lambda>x y. ahead 5 x < ahead 5 y) outs \<and> packetl jb' = []"
proof (rule reordering_restored)
  show "in_stream 5 9 (Put 1 h None)" if "h \<in> set [ex_hdr 7 0, ex_hdr 6 0]" for h
    using that by (auto simp: in_stream_def in_window_def ahead_def ex_hdr_def zero_hdr_def)
qed (simp_all add: ex_hdr_def)

section \<open>Frames\<close>

text \<open>The frames in the buffer: runs of packets with the same timestamp.\<close>

definition frames :: "packet list \<Rightarrow> nat" where
  "frames ps = length (remdups_adj (map p_ts ps))"

lemma frames_simps [simp]:
  "frames [] = 0" "frames [p] = 1"
  "frames (p # q # ps) = (if p_ts p = p_ts q then 0 else 1) + frames (q # ps)"
  by (simp_all add: frames_def)

lemma frames_pos: "ps \<noteq> [] \<Longrightarrow> 0 < frames ps"
  by (simp add: frames_def remdups_adj_length_ge1)

lemma frames_le: "frames ps \<le> length ps"
  by (metis frames_def length_map remdups_adj_length)

text \<open>A packet put between others that does not split a frame.\<close>

lemma frames_insert:
  assumes "before \<noteq> [] \<Longrightarrow> after \<noteq> [] \<Longrightarrow> p_ts (last before) = p_ts (hd after) \<Longrightarrow> p_ts f = p_ts (hd after)"
  shows "frames (before @ f # after) =
    frames (before @ after) +
      (if before \<noteq> [] \<and> p_ts (last before) = p_ts f \<or> after \<noteq> [] \<and> p_ts (hd after) = p_ts f then 0 else 1)"
  using assms
proof (induction before rule: induct_list012)
  case 1
  then show ?case by (cases after) auto
next
  case (2 x)
  then show ?case by (cases after) auto
next
  case (3 x y zs)
  then show ?case by simp
qed

lemma put_success_frames:
  assumes "packetl jb = before @ after" "unat (j_nf jb) = frames (packetl jb)" "length (packetl jb) < 2 ^ 32 - 1"
    and "before \<noteq> [] \<Longrightarrow> after \<noteq> [] \<Longrightarrow> p_ts (last before) = p_ts (hd after) \<Longrightarrow> h_ts hdr = p_ts (hd after)"
  shows "unat (j_nf (put_success hdr mem f before after jb)) = frames (packetl (put_success hdr mem f before after jb))"
proof -
  have "frames (packetl jb) < 2 ^ 32 - 1" using frames_le [of "packetl jb"] assms(3) by simp
  then have "unat (j_nf jb + 1) = Suc (frames (packetl jb))" using assms(2) by (subst unat_add_u32) simp_all
  then show ?thesis using assms(1,2,4) frames_insert [of before after "f\<lparr>p_hdr := hdr, p_mem := mem\<rparr>"]
    by (auto simp: put_success_def Let_def p_ts_def)
qed

lemma take_head_frames:
  assumes i: "jb_inv jb" and h: "packetl jb = f # rest" and n: "unat (j_nf jb) = frames (packetl jb)"
  shows "unat (j_nf (take_head f rest jb)) = frames rest"
proof -
  have "1 \<le> j_nf jb" using n h frames_pos [of "packetl jb"] by (simp add: word_le_nat_alt)
  then have "unat (j_nf jb - 1) = frames (packetl jb) - 1" using n by (simp add: unat_sub)
  then show ?thesis using h n
    by (cases rest) (simp_all add: take_head_def Let_def packet_deref_def)
qed

text \<open>with a right frame count, \<open>jbuf_get\<close> hands out the oldest packet exactly when more than \<open>wish\<close>
  frames wait, says \<open>EAGAIN\<close> exactly when that is still so afterwards, and keeps the count right; the
  caller gets one reference to the packet's memory, and the buffer gives its own up.\<close>

theorem jbuf_get_frames:
  assumes i: "jb_inv jb" and n: "unat (j_nf jb) = frames (packetl jb)"
    and g: "jbuf_get (Some jb) True True = (err, out, jbo)"
  shows "(frames (packetl jb) \<le> unat (j_wish jb) \<and> err = ENOENT \<and> out = None \<and> jbo = Some jb) \<or>
    (\<exists>f rest jb'. unat (j_wish jb) < frames (packetl jb) \<and> packetl jb = f # rest \<and>
       out = Some (p_hdr f, p_mem f) \<and> jbo = Some jb' \<and> packetl jb' = rest \<and> jb_inv jb' \<and>
       unat (j_nf jb') = frames rest \<and> ids jb' = ids jb \<and> seq_get jb' = p_seq f \<and>
       err = (if unat (j_wish jb) < frames rest then EAGAIN else OK) \<and>
       (\<forall>a. outside jb' a = outside jb a + (if p_mem f = Some a then 1 else 0)))"
proof (cases "j_nf jb \<le> j_wish jb")
  case True
  then show ?thesis using g n by (simp add: jbuf_get_def word_le_nat_alt)
next
  case False
  then have w: "unat (j_wish jb) < frames (packetl jb)" using n by (simp add: word_le_nat_alt)
  then obtain f rest where h: "packetl jb = f # rest" by (cases "packetl jb") auto
  have r: "err = (if j_nf (take_head f rest jb) > j_wish jb then EAGAIN else OK)"
    "out = Some (p_hdr f, p_mem f)" "jbo = Some (take_head f rest jb)"
    using g False h take_head_spec(8) [OF i h] by (auto simp: jbuf_get_def Let_def)
  then show ?thesis using w h take_head_spec [OF i h] take_head_frames [OF i h n]
    by (simp add: word_less_nat_alt)
qed

lemma jbuf_get_frames_witness:
  "\<exists>err out jbo. jbuf_get (Some (fresh_jbuf 2 1)) True True = (err, out, jbo) \<and> err = ENOENT \<and> out = None"
proof -
  obtain err out jbo where g: "jbuf_get (Some (fresh_jbuf 2 1)) True True = (err, out, jbo)" by (metis prod_cases3)
  have "jb_inv (fresh_jbuf 2 1)" "unat (j_nf (fresh_jbuf 2 1)) = frames (packetl (fresh_jbuf 2 1))"
    using fresh_jb_inv [of 2 1] by (simp_all add: fresh_jbuf_def)
  from jbuf_get_frames [OF this g] g show ?thesis by (auto simp: fresh_jbuf_def)
qed

section \<open>Where the bookkeeping goes wrong\<close>

definition nf_and_frames :: "(u16 list \<times> jbuf) option \<Rightarrow> (u16 list \<times> u32 \<times> nat) option" where
  "nf_and_frames r = map_option (\<lambda>(outs, jb). (outs, jbuf_frames (Some jb), frames (packetl jb))) r"

text \<open>when the buffer overflows, \<open>packet_alloc\<close> drops the oldest packet without taking its frame
  out of \<open>nf\<close>: with room for two packets and three frames put in, the count says 3 for 2 buffered
  frames, and still 1 when the buffer has been drained.\<close>

theorem overflow_drifts_frame_count:
  "nf_and_frames (play ex_fl [Put 1 (ex_hdr 1 10) None, Put 2 (ex_hdr 2 20) None, Put 3 (ex_hdr 3 30) None]
     (fresh_jbuf 2 1)) = Some ([], 3, 2) \<and>
   nf_and_frames (play ex_fl [Put 1 (ex_hdr 1 10) None, Put 2 (ex_hdr 2 20) None, Put 3 (ex_hdr 3 30) None, Drain, Drain]
     (fresh_jbuf 2 1)) = Some ([2, 3], 1, 0)"
  by (intro conjI; code_simp)

text \<open>sequence number 0 is taken for "nothing played yet": after the packet with number 0 has been
  handed out, an older packet (65534) is accepted and played after it, where after any other number
  it is refused as late.\<close>

theorem late_packet_after_zero:
  "map_option fst (play ex_fl [Put 1 (ex_hdr 65535 10) None, Put 2 (ex_hdr 0 20) None, Drain, Drain,
      Put 3 (ex_hdr 65534 0) None, Drain] (fresh_jbuf 2 1)) = Some [65535, 0, 65534] \<and>
   map_option fst (play ex_fl [Put 1 (ex_hdr 0 10) None, Put 2 (ex_hdr 1 20) None, Drain, Drain,
      Put 3 (ex_hdr 65535 0) None, Drain] (fresh_jbuf 2 1)) = Some [0, 1]"
  by (intro conjI; code_simp)

text \<open>A buffer allocated with \<open>max = 0\<close> dereferences \<open>NULL\<close> on the first packet.\<close>

lemma put_without_packets_crashes:
  "jbuf_alloc True 0 0 True 0 pok (\<lambda>_. 1) = (OK, Some (fresh_jbuf 0 0)) \<and>
   jbuf_put fl now (Some (fresh_jbuf 0 0)) (Some hdr) mem = None"
  by (auto simp: jbuf_alloc_def seq_less_def fresh_jbuf_def jbuf_put_def packet_alloc_def)

text \<open>in the adaptive mode a packet whose number is 4096 or more behind the last one put in makes
  \<open>calc_rdiff\<close> overflow \<open>int32_t\<close> (undefined behaviour) when the estimate is still 0; up to 4095 away
  it does not.\<close>

theorem adaptive_overflow:
  assumes a: "jbtype jb = JBUF_ADAPTIVE" "seq_get jb \<noteq> 0" "j_rdiff jb = 0"
  shows "calc_rdiff fl now seq jb = None \<longleftrightarrow> 4096 \<le> \<bar>sint (seq_put jb + 1 - seq)\<bar>"
proof -
  let ?d = "\<bar>sint (seq_put jb + 1 - seq)\<bar>"
  have r: "?d \<le> 32768"
    using sint_ge [of "seq_put jb + 1 - seq"] sint_lt [of "seq_put jb + 1 - seq"] by simp
  define A where "A = \<bar>sint (seq_put jb + 1 - seq) * 1024\<bar>"
  have A: "A = ?d * 1024" by (simp add: A_def abs_mult)
  define s :: int where "s = (if A > j_rdiff jb then 512 else if j_wish jb > 2 then 1 else if j_wish jb > 1 then 2 else 3)"
  have s: "A * s = ?d * 524288" using A a(3) by (auto simp: s_def)
  have q: "(A * s) sdiv 1024 = ?d * 512"
  proof -
    have "(A * s) sdiv 1024 = (A * s) div 1024" unfolding s by (simp add: signed_divide_int_def sgn_if)
    also have "\<dots> = (?d * 512 * 1024) div 1024" unfolding s by simp
    finally show ?thesis by (simp only: nonzero_mult_div_cancel_right)
  qed
  have i1: "int32 (A - j_rdiff jb) = Some A" using A a(3) r by (simp add: int32_def)
  have i2: "int32 (A * s) = (if 4096 \<le> ?d then None else Some (A * s))" using r unfolding s by (auto simp: int32_def)
  have i3: "int32 (j_rdiff jb + (A * s) sdiv 1024) = Some (?d * 512)" using r a(3) unfolding q by (simp add: int32_def)
  show ?thesis
    using a(1,2) unfolding calc_rdiff_def Let_def A_def [symmetric] s_def [symmetric]
    by (simp add: i1 i2 i3)
qed

definition ex_adaptive :: jbuf where
  "ex_adaptive = (fresh_jbuf 2 1)\<lparr>jbtype := JBUF_ADAPTIVE, seq_get := 9, seq_put := 9999\<rparr>"

lemma adaptive_overflow_witness: "calc_rdiff ex_fl 0 10 ex_adaptive = None"
proof -
  have "4096 \<le> \<bar>sint (seq_put ex_adaptive + 1 - 10)\<bar>" by (simp add: ex_adaptive_def)
  then show ?thesis
    using adaptive_overflow [of ex_adaptive ex_fl 0 10] by (simp add: ex_adaptive_def fresh_jbuf_def)
qed

text \<open>freeing a buffer gives back every reference it holds and none of the others.\<close>

theorem jbuf_destructor_releases:
  assumes i: "jb_inv jb"
  shows "int (refs (jbuf_destructor jb) a) = outside jb a"
proof -
  let ?j = "jb\<lparr>j_tmr := None\<rparr>"
  have ij: "jb_inv ?j" using i by simp
  note f = jbuf_flush_spec [OF ij]
  have "outside (jbuf_flush ?j) a = outside jb a" using f(3) by (simp add: conserves_def)
  moreover have "held (jbuf_flush ?j) a = 0" using f(2) by (simp add: held_def)
  ultimately show ?thesis by (simp add: jbuf_destructor_def outside_def)
qed

lemma jbuf_destructor_releases_witness: "int (refs (jbuf_destructor (fresh_jbuf 2 1)) 7) = 1"
  using jbuf_destructor_releases [OF fresh_jb_inv [of 2 1], of 7]
  by (simp add: outside_def held_def fresh_jbuf_def)

end
