(* ===== verification/Srtp_Replay.thy ===== *)
theory Srtp_Replay
  imports Prelude
begin

text \<open>
  The replay window of SRTP (\<open>native/re/src/srtp/replay.c\<close>): the highest packet index seen and a
  64-bit map of the indices below it.  It is shown to refine the reference window, which remembers
  the set of all accepted indices, so that no index is ever accepted twice.
\<close>

section \<open>The window of libre\<close>

record replay =
  bitmap :: u64
  lix :: u64

definition SRTP_WINDOW_SIZE :: u64 where
  "SRTP_WINDOW_SIZE = 64"

definition srtp_replay_init :: "replay option \<Rightarrow> replay option" where
  "srtp_replay_init r = map_option (\<lambda>r. r\<lparr>bitmap := 0, lix := 0\<rparr>) r"

definition srtp_replay_check :: "replay option \<Rightarrow> u64 \<Rightarrow> bool \<times> replay option" where
  "srtp_replay_check ro ix =
     (case ro of
        None \<Rightarrow> (False, None)
      | Some r \<Rightarrow>
          if ix > lix r
          then
            let diff = ix - lix r;
                r = (if diff < SRTP_WINDOW_SIZE
                     then r\<lparr>bitmap := push_bit (unat diff) (bitmap r) OR 1\<rparr>
                     else r\<lparr>bitmap := 1\<rparr>)
            in (True, Some (r\<lparr>lix := ix\<rparr>))
          else
            let diff = lix r - ix
            in if diff \<ge> SRTP_WINDOW_SIZE then (False, ro)
               else if bitmap r AND push_bit (unat diff) 1 \<noteq> 0 then (False, ro)
               else (True, Some (r\<lparr>bitmap := bitmap r OR push_bit (unat diff) 1\<rparr>)))"

section \<open>The reference window\<close>

text \<open>It knows every index accepted so far and refuses those and the ones 64 or more behind.\<close>

definition ref_check :: "nat set \<Rightarrow> nat \<Rightarrow> bool \<times> nat set" where
  "ref_check S i = (if i \<in> S \<or> (\<exists>s\<in>S. i + 64 \<le> s) then (False, S) else (True, insert i S))"

definition window_of :: "replay \<Rightarrow> nat set \<Rightarrow> bool" where
  "window_of r S \<longleftrightarrow> finite S \<and> (\<forall>s\<in>S. s \<le> unat (lix r)) \<and>
     (if S = {} then lix r = 0 else unat (lix r) \<in> S) \<and>
     (\<forall>d<64. bit (bitmap r) d \<longleftrightarrow> d \<le> unat (lix r) \<and> unat (lix r) - d \<in> S)"

lemma window_of_init: "window_of \<lparr>bitmap = 0, lix = 0\<rparr> {}"
  by (simp add: window_of_def)

lemma window_bit: "window_of r S \<Longrightarrow> d < 64 \<Longrightarrow> bit (bitmap r) d \<longleftrightarrow> d \<le> unat (lix r) \<and> unat (lix r) - d \<in> S"
  by (simp add: window_of_def)

lemma window_le: "window_of r S \<Longrightarrow> s \<in> S \<Longrightarrow> s \<le> unat (lix r)"
  by (simp add: window_of_def)

lemma window_top: "window_of r S \<Longrightarrow> s \<in> S \<Longrightarrow> unat (lix r) \<in> S"
  by (auto simp: window_of_def split: if_splits)

text \<open>The two ways in which the window moves.\<close>

lemma bit_advance: "d < 64 \<Longrightarrow> bit (push_bit k (w :: u64) OR 1) d \<longleftrightarrow> d = 0 \<or> k \<le> d \<and> bit w (d - k)"
  by (auto simp: bit_simps)

lemma bit_mark: "d < 64 \<Longrightarrow> bit ((w :: u64) OR push_bit k 1) d \<longleftrightarrow> d = k \<or> bit w d"
  by (auto simp: bit_simps)

lemma bit_test: "k < 64 \<Longrightarrow> (w :: u64) AND push_bit k 1 \<noteq> 0 \<longleftrightarrow> bit w k"
  by (simp add: push_bit_eq_mult and_exp_eq_0_iff_not_bit)

lemma window_advance:
  assumes w: "window_of r S" and i: "unat (lix r) < unat ix"
  shows "window_of \<lparr>bitmap = (if ix - lix r < 64 then push_bit (unat (ix - lix r)) (bitmap r) OR 1 else 1), lix = ix\<rparr>
           (insert (unat ix) S)"
proof -
  have d: "unat (ix - lix r) = unat ix - unat (lix r)" using i by (simp add: unat_sub word_le_nat_alt)
  have le: "\<forall>s\<in>S. s \<le> unat (lix r)" using w by (simp add: window_of_def)
  have "bit (if ix - lix r < 64 then push_bit (unat (ix - lix r)) (bitmap r) OR 1 else 1) k
      \<longleftrightarrow> k \<le> unat ix \<and> unat ix - k \<in> insert (unat ix) S" if k: "k < 64" for k
  proof (cases "k = 0")
    case True
    then show ?thesis using bit_advance [OF k] by (simp add: bit_1_iff)
  next
    case k0: False
    show ?thesis
    proof (cases "unat ix - k \<le> unat (lix r)")
      case far: False
      have "unat ix - k \<noteq> unat ix" if "k \<le> unat ix" using k0 that by simp
      moreover have "unat ix - k \<notin> S" using far le by auto
      moreover have "k < unat ix - unat (lix r)" using far i by simp
      ultimately show ?thesis using k0 bit_advance [OF k] d by (auto simp: bit_1_iff)
    next
      case near: True
      then have in_win: "ix - lix r < 64" and s: "unat ix - unat (lix r) \<le> k"
        using k d i by (auto simp: word_less_nat_alt)
      let ?e = "k - (unat ix - unat (lix r))"
      have "?e < 64" using k by simp
      from window_bit [OF w this]
      have "bit (bitmap r) ?e \<longleftrightarrow> ?e \<le> unat (lix r) \<and> unat (lix r) - ?e \<in> S" .
      moreover have "?e \<le> unat (lix r) \<longleftrightarrow> k \<le> unat ix" using i s by auto
      moreover have "k \<le> unat ix \<Longrightarrow> unat (lix r) - ?e = unat ix - k" using i s by auto
      ultimately show ?thesis using k0 in_win s d bit_advance [OF k] by auto
    qed
  qed
  then show ?thesis using w i by (auto simp: window_of_def)
qed

lemma window_mark:
  assumes w: "window_of r S" and i: "unat ix \<le> unat (lix r)" and d: "unat (lix r) - unat ix < 64"
  shows "window_of (r\<lparr>bitmap := bitmap r OR push_bit (unat (lix r) - unat ix) 1\<rparr>) (insert (unat ix) S)"
proof -
  have "bit (bitmap r OR push_bit (unat (lix r) - unat ix) 1) k
      \<longleftrightarrow> k \<le> unat (lix r) \<and> unat (lix r) - k \<in> insert (unat ix) S" if k: "k < 64" for k
    using window_bit [OF w k] bit_mark [OF k] i by auto
  then show ?thesis using w i by (auto simp: window_of_def split: if_splits)
qed

text \<open>C5: the bitmap window refines the reference window: from related states the two give the same
  verdict on every index and end in related states.\<close>

theorem srtp_replay_refines:
  assumes w: "window_of r S"
  shows "\<exists>r'. srtp_replay_check (Some r) ix = (fst (ref_check S (unat ix)), Some r') \<and>
              window_of r' (snd (ref_check S (unat ix)))"
proof (cases "ix > lix r")
  case True
  then have i: "unat (lix r) < unat ix" by (simp add: word_less_nat_alt)
  then have "unat ix \<notin> S" "\<not> (\<exists>s\<in>S. unat ix + 64 \<le> s)" using window_le [OF w] by force+
  moreover have "srtp_replay_check (Some r) ix = (True, Some \<lparr>bitmap = (if ix - lix r < 64
      then push_bit (unat (ix - lix r)) (bitmap r) OR 1 else 1), lix = ix\<rparr>)"
    using True by (cases r) (simp add: srtp_replay_check_def Let_def SRTP_WINDOW_SIZE_def)
  ultimately show ?thesis using window_advance [OF w i] by (simp add: ref_check_def)
next
  case False
  then have i: "unat ix \<le> unat (lix r)" by (simp add: word_less_nat_alt)
  have d: "unat (lix r - ix) = unat (lix r) - unat ix" using i by (simp add: unat_sub word_le_nat_alt)
  have old: "(\<exists>s\<in>S. unat ix + 64 \<le> s) \<longleftrightarrow> S \<noteq> {} \<and> unat ix + 64 \<le> unat (lix r)"
    using window_le [OF w] window_top [OF w] by force
  have empty: "S = {} \<Longrightarrow> lix r = 0" using w by (simp add: window_of_def)
  show ?thesis
  proof (cases "lix r - ix \<ge> 64")
    case True
    then have far: "unat ix + 64 \<le> unat (lix r)" using d by (simp add: word_le_nat_alt)
    then have "S \<noteq> {}" using empty by auto
    then show ?thesis using False True far old w
      by (auto simp: srtp_replay_check_def ref_check_def Let_def SRTP_WINDOW_SIZE_def)
  next
    case near: False
    then have k: "unat (lix r) - unat ix < 64" using d by (simp add: word_le_nat_alt)
    have seen: "bit (bitmap r) (unat (lix r) - unat ix) \<longleftrightarrow> unat ix \<in> S"
      using window_bit [OF w k] i by simp
    have e: "srtp_replay_check (Some r) ix =
        (if unat ix \<in> S then (False, Some r)
         else (True, Some (r\<lparr>bitmap := bitmap r OR push_bit (unat (lix r) - unat ix) 1\<rparr>)))"
      using False near bit_test [OF k] seen
      by (simp add: srtp_replay_check_def Let_def SRTP_WINDOW_SIZE_def d)
    show ?thesis
      using e k old w window_mark [OF w i k] by (auto simp: ref_check_def)
  qed
qed

lemma srtp_replay_refines_witness:
  "fst (srtp_replay_check (Some \<lparr>bitmap = 0, lix = 0\<rparr>) 7) \<and> fst (ref_check {} 7)"
  using srtp_replay_refines [OF window_of_init, of 7] by (simp add: ref_check_def) (metis fst_conv)

section \<open>Runs\<close>

fun replay_run :: "replay option \<Rightarrow> u64 list \<Rightarrow> u64 list" where
  "replay_run r [] = []"
| "replay_run r (ix # ixs) =
     (let (ok, r) = srtp_replay_check r ix in (if ok then [ix] else []) @ replay_run r ixs)"

lemma replay_run_fresh:
  "window_of r S \<Longrightarrow>
   distinct (replay_run (Some r) ixs) \<and> (\<forall>ix\<in>set (replay_run (Some r) ixs). unat ix \<notin> S)"
proof (induction ixs arbitrary: r S)
  case (Cons ix ixs)
  obtain r' where r': "srtp_replay_check (Some r) ix = (fst (ref_check S (unat ix)), Some r')"
    "window_of r' (snd (ref_check S (unat ix)))"
    using srtp_replay_refines [OF Cons.prems] by blast
  from Cons.IH [OF r'(2)] r'(1) show ?case by (auto simp: ref_check_def split: if_splits)
qed simp

text \<open>whatever indices arrive at an initialised window, and however often, no index is accepted
  twice.\<close>

theorem srtp_no_replay:
  "distinct (replay_run (srtp_replay_init (Some r)) ixs)"
  using replay_run_fresh [of "r\<lparr>bitmap := 0, lix := 0\<rparr>" "{}" ixs]
  by (simp add: srtp_replay_init_def window_of_def)

end
