(* ===== verification/Rtcp_Pkt.thy ===== *)
theory Rtcp_Pkt
  imports Rtp
begin

text \<open>
  RTCP packets of libre (\<open>native/re/src/rtp/pkt.c\<close>, \<open>rr.c\<close>, \<open>sdes.c\<close>, \<open>fb.c\<close>): the reports,
  source descriptions, goodbyes and feedback messages, written to and read from memory buffers.
  A decoder returns its error number with what it built; \<open>None\<close> is an access outside the buffer's
  block, or a loop that does not end.  Whether an allocation succeeds is an argument, a function of
  the place that allocates.
\<close>

section \<open>Data\<close>

definition RTCP_VERSION :: u8 where "RTCP_VERSION = 2"
definition RTCP_HDR_SIZE :: u32 where "RTCP_HDR_SIZE = 4"
definition RTCP_SRC_SIZE :: u32 where "RTCP_SRC_SIZE = 4"
definition RTCP_SR_SIZE :: u32 where "RTCP_SR_SIZE = 20"
definition RTCP_RR_SIZE :: u32 where "RTCP_RR_SIZE = 24"
definition RTCP_APP_SIZE :: u32 where "RTCP_APP_SIZE = 8"
definition RTCP_FIR_SIZE :: u32 where "RTCP_FIR_SIZE = 4"
definition RTCP_NACK_SIZE :: u32 where "RTCP_NACK_SIZE = 8"
definition RTCP_FB_SIZE :: u32 where "RTCP_FB_SIZE = 8"

datatype rtcp_type =
  RTCP_FIR | RTCP_NACK | RTCP_SR | RTCP_RR | RTCP_SDES | RTCP_BYE | RTCP_APP | RTCP_RTPFB | RTCP_PSFB
| RTCP_XR | RTCP_AVB

fun rtcp_type_num :: "rtcp_type \<Rightarrow> u8" where
  "rtcp_type_num RTCP_FIR = 192" | "rtcp_type_num RTCP_NACK = 193" | "rtcp_type_num RTCP_SR = 200"
| "rtcp_type_num RTCP_RR = 201" | "rtcp_type_num RTCP_SDES = 202" | "rtcp_type_num RTCP_BYE = 203"
| "rtcp_type_num RTCP_APP = 204" | "rtcp_type_num RTCP_RTPFB = 205" | "rtcp_type_num RTCP_PSFB = 206"
| "rtcp_type_num RTCP_XR = 207" | "rtcp_type_num RTCP_AVB = 208"

text \<open>The bit field \<open>lost\<close> is signed with 24 bits: its value is \<open>sint (rr_lost rr)\<close>.\<close>

record rtcp_rr =
  rr_ssrc :: u32
  rr_fraction :: u8
  rr_lost :: "24 word"
  rr_last_seq :: u32
  rr_jitter :: u32
  rr_lsr :: u32
  rr_dlsr :: u32

record sdes_item =
  it_type :: u8
  it_length :: u8
  it_data :: "u8 list"

record rtcp_sdes =
  sd_src :: u32
  sd_itemv :: "sdes_item list"

record rtcp_hdr =
  rh_version :: u8
  rh_p :: bool
  rh_count :: u8
  rh_pt :: u8
  rh_length :: u16

record twcc =
  tw_seq :: u16
  tw_count :: u16
  tw_reftime :: u32
  tw_fbcount :: u8
  tw_chunks :: mbuf
  tw_deltas :: mbuf

datatype rtcp_fci =
  Fci_none
| Fci_gnack "(u16 \<times> u16) list"
| Fci_twcc twcc
| Fci_sli "(u16 \<times> u16 \<times> u8) list"
| Fci_afb mbuf
| Fci_fir "(u32 \<times> u8) list"

datatype rtcp_body =
  Body_none
| Body_SR u32 u32 u32 u32 u32 u32 "rtcp_rr list"
| Body_RR u32 "rtcp_rr list"
| Body_SDES "rtcp_sdes list"
| Body_BYE "u32 list" "string option"
| Body_APP u32 "u8 list" "u8 list option"
| Body_FIR u32
| Body_NACK u32 u16 u16
| Body_FB u32 u32 u32 rtcp_fci

record rtcp_msg =
  rm_hdr :: rtcp_hdr
  rm_r :: rtcp_body

text \<open>The places that allocate memory while a message is decoded.\<close>

datatype alloc_site =
  A_msg | A_rrv | A_sdesv | A_items nat nat | A_data nat nat | A_srcv | A_reason | A_app | A_fci
| A_chunks | A_deltas

type_synonym mem_oracle = "alloc_site \<Rightarrow> bool"
type_synonym 'a reader = "mbuf option \<Rightarrow> ('a \<times> mbuf option) option"

text \<open>Network byte order readers, and the reference to a buffer (its bytes are only read here).\<close>

definition read_u16n :: "u16 reader" where
  "read_u16n mb = do { (v, mb) \<leftarrow> mbuf_read_u16 mb; Some (ntohs v, mb) }"

definition read_u32n :: "u32 reader" where
  "read_u32n mb = do { (v, mb) \<leftarrow> mbuf_read_u32 mb; Some (ntohl v, mb) }"

definition mbuf_alloc_ref :: "bool \<Rightarrow> mbuf option \<Rightarrow> mbuf option" where
  "mbuf_alloc_ref zalloc_ok mbr = (if zalloc_ok then mbr else None)"

definition mb_the :: "mbuf option \<Rightarrow> mbuf" where
  "mb_the mb = (case mb of Some m \<Rightarrow> m | None \<Rightarrow> \<lparr>mb_buf = None, mb_size = 0, mb_pos = 0, mb_end = 0\<rparr>)"

definition skip :: "u32 \<Rightarrow> mbuf option \<Rightarrow> mbuf option" where
  "skip n mb = map_option (\<lambda>m. mbuf_advance m (int (unat n))) mb"

section \<open>Reception reports\<close>

definition rtcp_rr_encode :: "allocator \<Rightarrow> mbuf option \<Rightarrow> rtcp_rr option \<Rightarrow> (errno \<times> mbuf option) option" where
  "rtcp_rr_encode mm mb rr =
     (case (mb, rr) of
        (Some _, Some r) \<Rightarrow>
          or_err (\<lambda>mb. mbuf_write_u32 mm mb (htonl (rr_ssrc r)))
            (or_err (\<lambda>mb. mbuf_write_u32 mm mb (htonl (push_bit 24 (ucast (rr_fraction r)) OR ucast (rr_lost r))))
              (or_err (\<lambda>mb. mbuf_write_u32 mm mb (htonl (rr_last_seq r)))
                (or_err (\<lambda>mb. mbuf_write_u32 mm mb (htonl (rr_jitter r)))
                  (or_err (\<lambda>mb. mbuf_write_u32 mm mb (htonl (rr_lsr r)))
                    (\<lambda>mb. mbuf_write_u32 mm mb (htonl (rr_dlsr r))))))) mb
      | _ \<Rightarrow> Some (EINVAL, mb))"

definition zero_rr :: rtcp_rr where
  "zero_rr = \<lparr>rr_ssrc = 0, rr_fraction = 0, rr_lost = 0, rr_last_seq = 0, rr_jitter = 0, rr_lsr = 0, rr_dlsr = 0\<rparr>"

definition rtcp_rr_decode :: "(errno \<times> rtcp_rr) reader" where
  "rtcp_rr_decode mb =
     (if mbuf_get_left mb < RTCP_RR_SIZE then Some ((EBADMSG, zero_rr), mb)
      else do {
        (ssrc, mb) \<leftarrow> read_u32n mb;
        (w, mb) \<leftarrow> read_u32n mb;
        (last_seq, mb) \<leftarrow> read_u32n mb;
        (jitter, mb) \<leftarrow> read_u32n mb;
        (lsr, mb) \<leftarrow> read_u32n mb;
        (dlsr, mb) \<leftarrow> read_u32n mb;
        Some ((OK, \<lparr>rr_ssrc = ssrc, rr_fraction = ucast (drop_bit 24 w), rr_lost = ucast (w AND 0xFFFFFF),
                    rr_last_seq = last_seq, rr_jitter = jitter, rr_lsr = lsr, rr_dlsr = dlsr\<rparr>), mb)
      })"

text \<open>\<open>rtcp_rr_alloc\<close> and the loop \<open>for (i=0; i<count && !err; i++)\<close> of its callers.\<close>

definition rtcp_rr_alloc :: "bool \<Rightarrow> bool \<Rightarrow> errno" where
  "rtcp_rr_alloc rrp mem_ok = (if \<not> rrp then EINVAL else if \<not> mem_ok then ENOMEM else OK)"

fun decode_rrs :: "nat \<Rightarrow> (errno \<times> rtcp_rr list) reader" where
  "decode_rrs 0 mb = Some ((OK, []), mb)"
| "decode_rrs (Suc n) mb = do {
     (er, mb) \<leftarrow> rtcp_rr_decode mb;
     if fst er \<noteq> 0 then Some ((fst er, []), mb)
     else do {
       (ers, mb) \<leftarrow> decode_rrs n mb;
       Some ((fst ers, snd er # snd ers), mb)
     } }"

section \<open>Source descriptions\<close>

text \<open>\<open>while ((mb->pos - start) & 0x3) err |= mbuf_write_u8(mb, 0)\<close>: a failing write does not end the
  loop, so that it may not end at all.\<close>

partial_function (option) pad_pos ::
    "allocator \<Rightarrow> u32 \<Rightarrow> errno \<Rightarrow> mbuf option \<Rightarrow> (errno \<times> mbuf option) option" where
  "pad_pos mm start err mb =
     (if (mbuf_pos mb - start) AND 3 = 0 then Some (err, mb)
      else Option.bind (mbuf_write_u8 mm mb 0) (\<lambda>r. pad_pos mm start (err OR fst r) (snd r)))"

text \<open>The items: type and text; items without a text are left out.  A text of more than 255 bytes
  leaves the encoder at once (\<open>goto out\<close>), which the flag of the result says.\<close>

fun encode_items ::
    "allocator \<Rightarrow> errno \<Rightarrow> (u8 \<times> string option) list \<Rightarrow> mbuf option \<Rightarrow> ((bool \<times> errno) \<times> mbuf option) option" where
  "encode_items mm err [] mb = Some ((False, err), mb)"
| "encode_items mm err ((ty, v) # items) mb =
     (if err \<noteq> 0 then Some ((False, err), mb)
      else
        case v of
          None \<Rightarrow> encode_items mm err items mb
        | Some s \<Rightarrow>
            if 255 < length s then Some ((True, EINVAL), mb)
            else do {
              (err, mb) \<leftarrow> or_err (\<lambda>mb. mbuf_write_u8 mm mb ty)
                            (or_err (\<lambda>mb. mbuf_write_u8 mm mb (word_of_nat (length s)))
                              (\<lambda>mb. mbuf_write_mem mm mb (Some (str_bytes s)))) mb;
              encode_items mm err items mb
            })"

definition rtcp_sdes_encode ::
    "allocator \<Rightarrow> mbuf option \<Rightarrow> u32 \<Rightarrow> (u8 \<times> string option) list \<Rightarrow> (errno \<times> mbuf option) option" where
  "rtcp_sdes_encode mm mb src items =
     (if mb = None \<or> items = [] then Some (EINVAL, mb)
      else do {
        let start = mbuf_pos mb;
        (err, mb) \<leftarrow> mbuf_write_u32 mm mb (htonl src);
        (oe, mb) \<leftarrow> encode_items mm err items mb;
        if fst oe then Some (snd oe, mb)
        else do {
          (e, mb) \<leftarrow> mbuf_write_u8 mm mb 0;
          pad_pos mm start (snd oe OR e) mb
        }
      })"

text \<open>\<open>(mb->pos - start) & 0x3 && mbuf_get_left(mb)\<close>: skip padding on the way in.\<close>

lemma left_Suc_pos:
  "mbuf_get_left (Some m) \<noteq> 0 \<Longrightarrow>
   unat (mbuf_get_left (Some (m\<lparr>mb_pos := mb_pos m + 1\<rparr>))) < unat (mbuf_get_left (Some m))"
proof -
  assume a: "mbuf_get_left (Some m) \<noteq> 0"
  then have lt: "mb_pos m < mb_end m" by (auto simp: mbuf_get_left_def split: if_splits)
  then have l: "unat (mb_pos m) < unat (mb_end m)" by (simp add: word_less_nat_alt)
  then have p: "unat (mb_pos m + 1) = unat (mb_pos m) + 1"
    using unat_u32_less [of "mb_end m"] by (subst unat_add_u32) simp_all
  have "unat (mb_end m - (mb_pos m + 1)) = unat (mb_end m) - (unat (mb_pos m) + 1)"
    using l p by (simp add: unat_sub word_le_nat_alt)
  moreover have "unat (mb_end m - mb_pos m) = unat (mb_end m) - unat (mb_pos m)"
    using l by (simp add: unat_sub word_le_nat_alt)
  ultimately show ?thesis using l by (auto simp: mbuf_get_left_def word_less_nat_alt)
qed

function slurp_padding :: "u32 \<Rightarrow> mbuf option \<Rightarrow> mbuf option" where
  "slurp_padding start mb =
     (case mb of
        None \<Rightarrow> None
      | Some m \<Rightarrow>
          if (mb_pos m - start) AND 3 \<noteq> 0 \<and> mbuf_get_left mb \<noteq> 0
          then slurp_padding start (Some (m\<lparr>mb_pos := mb_pos m + 1\<rparr>)) else mb)"
  by pat_completeness auto
termination
  by (relation "measure (\<lambda>(_, mb). unat (mbuf_get_left mb))") (auto dest: left_Suc_pos)

declare slurp_padding.simps [simp del]

text \<open>The items of one chunk.  Every turn reads at least the type, so that the bytes left bound the
  number of turns; \<open>c\<close> and \<open>k\<close> name the place of the allocations.\<close>

fun decode_items ::
    "mem_oracle \<Rightarrow> nat \<Rightarrow> nat \<Rightarrow> nat \<Rightarrow> sdes_item list \<Rightarrow> (errno \<times> sdes_item list) reader" where
  "decode_items mem c 0 k items mb = Some ((OK, items), mb)"
| "decode_items mem c (Suc fuel) k items mb =
     (if mbuf_get_left mb < 1 then Some ((OK, items), mb)
      else do {
        (ty, mb) \<leftarrow> mbuf_read_u8 mb;
        if ty = 0 then Some ((OK, items), mb)
        else if mbuf_get_left mb < 1 then Some ((EBADMSG, items), mb)
        else if \<not> mem (A_items c k) then Some ((ENOMEM, items), mb)
        else do {
          (len, mb) \<leftarrow> mbuf_read_u8 mb;
          if mbuf_get_left mb < ucast len then Some ((EBADMSG, items), mb)
          else if \<not> mem (A_data c k) then Some ((ENOMEM, items), mb)
          else do {
            (er, mb) \<leftarrow> map_option (\<lambda>(e, bs, mb). ((e, bs), mb)) (mbuf_read_mem mb True (ucast len));
            decode_items mem c fuel (Suc k)
              (items @ [\<lparr>it_type = ty, it_length = len, it_data = snd er\<rparr>]) mb
          }
        }
      })"

definition rtcp_sdes_decode :: "mem_oracle \<Rightarrow> nat \<Rightarrow> (errno \<times> rtcp_sdes) reader" where
  "rtcp_sdes_decode mem c mb =
     (if mbuf_get_left mb < RTCP_SRC_SIZE then Some ((EBADMSG, \<lparr>sd_src = 0, sd_itemv = []\<rparr>), mb)
      else do {
        let start = mbuf_pos mb;
        (src, mb) \<leftarrow> read_u32n mb;
        (er, mb) \<leftarrow> decode_items mem c (unat (mbuf_get_left mb)) 0 [] mb;
        Some ((fst er, \<lparr>sd_src = src, sd_itemv = snd er\<rparr>),
              if fst er \<noteq> 0 then mb else slurp_padding start mb)
      })"

fun decode_chunks :: "mem_oracle \<Rightarrow> nat \<Rightarrow> nat \<Rightarrow> (errno \<times> rtcp_sdes list) reader" where
  "decode_chunks mem i 0 mb = Some ((OK, []), mb)"
| "decode_chunks mem i (Suc n) mb = do {
     (er, mb) \<leftarrow> rtcp_sdes_decode mem i mb;
     if fst er \<noteq> 0 then Some ((fst er, [snd er]), mb)
     else do {
       (ers, mb) \<leftarrow> decode_chunks mem (Suc i) n mb;
       Some ((fst ers, snd er # snd ers), mb)
     } }"

section \<open>Feedback\<close>

definition rtcp_rtpfb_gnack_encode :: "allocator \<Rightarrow> mbuf option \<Rightarrow> u16 \<Rightarrow> u16 \<Rightarrow> (errno \<times> mbuf option) option" where
  "rtcp_rtpfb_gnack_encode mm mb pid blp =
     or_err (\<lambda>mb. mbuf_write_u16 mm mb (htons pid)) (\<lambda>mb. mbuf_write_u16 mm mb (htons blp)) mb"

definition rtcp_psfb_sli_encode ::
    "allocator \<Rightarrow> mbuf option \<Rightarrow> u16 \<Rightarrow> u16 \<Rightarrow> u8 \<Rightarrow> (errno \<times> mbuf option) option" where
  "rtcp_psfb_sli_encode mm mb first number picid =
     mbuf_write_u32 mm mb (htonl (push_bit 19 (ucast first) OR push_bit 6 (ucast number) OR ucast picid))"

text \<open>A packet status chunk that has to account for \<open>i\<close> more packets: how many it covers and the
  bytes of receive deltas they announce.\<close>

definition twcc_chunk :: "nat \<Rightarrow> u16 \<Rightarrow> nat \<times> nat" where
  "twcc_chunk i chunk =
     (if chunk AND 0x8000 \<noteq> 0
      then if chunk AND 0x4000 \<noteq> 0
           then (min i 7, sum_list (map (\<lambda>j. unat (drop_bit (2 * (7 - 1 - j)) chunk AND 3)) [0..<min i 7]))
           else (min i 14, sum_list (map (\<lambda>j. unat (drop_bit (14 - 1 - j) chunk AND 1)) [0..<min i 14]))
      else
        let n = min i (unat (chunk AND 0x1FFF)) in (n, n * unat (drop_bit 13 chunk AND 3)))"

text \<open>The loop over the chunks: the result also counts the bytes of chunks read.\<close>

lemma left_read_u16:
  assumes r: "mbuf_read_u16 mb = Some (v, mb')" and l: "2 \<le> mbuf_get_left mb"
  shows "unat (mbuf_get_left mb') < unat (mbuf_get_left mb)"
proof -
  obtain m where m: "mb = Some m" using l by (cases mb) (simp_all add: mbuf_get_left_def)
  have lt: "mb_pos m < mb_end m" and d: "2 \<le> mb_end m - mb_pos m"
    using l by (auto simp: m mbuf_get_left_def split: if_splits)
  then have lt': "unat (mb_pos m) < unat (mb_end m)" by (simp add: word_less_nat_alt)
  then have s: "unat (mb_end m - mb_pos m) = unat (mb_end m) - unat (mb_pos m)"
    by (simp add: unat_sub word_le_nat_alt)
  then have two: "2 \<le> unat (mb_end m) - unat (mb_pos m)" using d by (simp add: word_le_nat_alt)
  have mb': "mb' = Some (m\<lparr>mb_pos := mb_pos m + 2\<rparr>)"
    using r l by (auto simp: mbuf_read_u16_def mbuf_read_mem_def m bind_eq_Some_conv split: if_splits)
  have p: "unat (mb_pos m + 2) = unat (mb_pos m) + 2"
    using two unat_u32_less [of "mb_end m"] by (subst unat_add_u32) simp_all
  show ?thesis
  proof (cases "mb_end m > mb_pos m + 2")
    case True
    then have "unat (mb_end m - (mb_pos m + 2)) = unat (mb_end m) - (unat (mb_pos m) + 2)"
      using p by (simp add: unat_sub word_less_nat_alt word_le_nat_alt)
    then show ?thesis using True lt two by (simp add: mb' m mbuf_get_left_def s)
  next
    case False
    then show ?thesis using lt two by (simp add: mb' m mbuf_get_left_def s)
  qed
qed

function twcc_chunks :: "nat \<Rightarrow> nat \<Rightarrow> nat \<Rightarrow> (errno \<times> nat \<times> nat) reader" where
  "twcc_chunks i sz len mb =
     (if i = 0 then Some ((OK, sz, len), mb)
      else if mbuf_get_left mb < 2 then Some ((EBADMSG, sz, len), mb)
      else
        case mbuf_read_u16 mb of
          None \<Rightarrow> None
        | Some (v, mb) \<Rightarrow>
            let (j, d) = twcc_chunk i (ntohs v) in twcc_chunks (i - j) (sz + d) (len + 2) mb)"
  by pat_completeness auto
termination
  by (relation "measure (\<lambda>(_, _, _, mb). unat (mbuf_get_left mb))") (auto simp: not_less dest: left_read_u16)

declare twcc_chunks.simps [simp del]

text \<open>\<open>chunks\<close> and \<open>deltas\<close> are references into the packet with ends of their own.\<close>

definition zero_twcc :: twcc where
  "zero_twcc = \<lparr>tw_seq = 0, tw_count = 0, tw_reftime = 0, tw_fbcount = 0, tw_chunks = mb_the None, tw_deltas = mb_the None\<rparr>"

definition rtcp_rtpfb_twcc_decode :: "mem_oracle \<Rightarrow> u32 \<Rightarrow> (errno \<times> twcc) reader" where
  "rtcp_rtpfb_twcc_decode mem n mb =
     (if mbuf_get_left mb < 8 then Some ((EBADMSG, zero_twcc), mb)
      else do {
        (seq, mb) \<leftarrow> read_u16n mb;
        (count, mb) \<leftarrow> read_u16n mb;
        if count = 0 \<or> count > 32768 then Some ((EBADMSG, zero_twcc), mb)
        else do {
          (reftime, mb) \<leftarrow> read_u32n mb;
          if \<not> mem A_chunks then Some ((ENOMEM, zero_twcc), mb)
          else do {
            let chunks = mb_the (mbuf_alloc_ref True mb);
            (r, mb) \<leftarrow> twcc_chunks (unat count) 0 0 mb;
            let (err, sz, len) = r;
            let chunks = chunks\<lparr>mb_end := mb_pos chunks + word_of_nat len\<rparr>;
            if err \<noteq> 0 then Some ((err, zero_twcc), mb)
            else if mbuf_get_left mb < word_of_nat sz then Some ((EBADMSG, zero_twcc), mb)
            else if \<not> mem A_deltas then Some ((ENOMEM, zero_twcc), mb)
            else
              let deltas = mb_the (mbuf_alloc_ref True mb);
                  deltas = deltas\<lparr>mb_end := mb_pos deltas + word_of_nat sz\<rparr>;
                  rest = n * 4 - 8 - mbuf_get_left (Some chunks)
              in if mbuf_get_left mb < rest then Some ((EBADMSG, zero_twcc), mb)
                 else Some ((OK, \<lparr>tw_seq = seq, tw_count = count, tw_reftime = drop_bit 8 reftime,
                                  tw_fbcount = ucast (reftime AND 0xFF), tw_chunks = chunks, tw_deltas = deltas\<rparr>),
                            skip rest mb)
          }
        }
      })"

text \<open>Reading \<open>n\<close> entries of a feedback message.\<close>

fun decode_gnacks :: "nat \<Rightarrow> (u16 \<times> u16) list reader" where
  "decode_gnacks 0 mb = Some ([], mb)"
| "decode_gnacks (Suc n) mb = do {
     (pid, mb) \<leftarrow> read_u16n mb;
     (blp, mb) \<leftarrow> read_u16n mb;
     (xs, mb) \<leftarrow> decode_gnacks n mb;
     Some ((pid, blp) # xs, mb) }"

fun decode_slis :: "nat \<Rightarrow> (u16 \<times> u16 \<times> u8) list reader" where
  "decode_slis 0 mb = Some ([], mb)"
| "decode_slis (Suc n) mb = do {
     (v, mb) \<leftarrow> read_u32n mb;
     (xs, mb) \<leftarrow> decode_slis n mb;
     Some ((ucast (drop_bit 19 v AND 0x1FFF), ucast (drop_bit 6 v AND 0x1FFF), ucast (v AND 0x3F)) # xs, mb) }"

fun decode_firs :: "nat \<Rightarrow> (u32 \<times> u8) list reader" where
  "decode_firs 0 mb = Some ([], mb)"
| "decode_firs (Suc n) mb = do {
     (ssrc, mb) \<leftarrow> read_u32n mb;
     (seq_n, mb) \<leftarrow> mbuf_read_u8 mb;
     let mb = skip 3 mb;
     (xs, mb) \<leftarrow> decode_firs n mb;
     Some ((ssrc, seq_n) # xs, mb) }"

text \<open>The feedback control information by format; the number of entries may change (FIR).\<close>

definition rtcp_rtpfb_decode :: "mem_oracle \<Rightarrow> u8 \<Rightarrow> u32 \<Rightarrow> (errno \<times> u32 \<times> rtcp_fci) reader" where
  "rtcp_rtpfb_decode mem fmt n mb =
     (if fmt = 1
      then
        if \<not> mem A_fci then Some ((ENOMEM, n, Fci_none), mb)
        else if mbuf_get_left mb < n * 4 then Some ((EBADMSG, n, Fci_none), mb)
        else do { (xs, mb) \<leftarrow> decode_gnacks (unat n) mb; Some ((OK, n, Fci_gnack xs), mb) }
      else if fmt = 15
      then
        if mbuf_get_left mb < 8 then Some ((EBADMSG, n, Fci_none), mb)
        else if \<not> mem A_fci then Some ((ENOMEM, n, Fci_none), mb)
        else do { (r, mb) \<leftarrow> rtcp_rtpfb_twcc_decode mem n mb; Some ((fst r, n, Fci_twcc (snd r)), mb) }
      else Some ((OK, n, Fci_none), mb))"

definition rtcp_psfb_decode :: "mem_oracle \<Rightarrow> u8 \<Rightarrow> u32 \<Rightarrow> (errno \<times> u32 \<times> rtcp_fci) reader" where
  "rtcp_psfb_decode mem fmt n mb =
     (if fmt = 1 then Some ((OK, n, Fci_none), mb)
      else if fmt = 2
      then
        if \<not> mem A_fci then Some ((ENOMEM, n, Fci_none), mb)
        else if mbuf_get_left mb < n * 4 then Some ((EBADMSG, n, Fci_none), mb)
        else do { (xs, mb) \<leftarrow> decode_slis (unat n) mb; Some ((OK, n, Fci_sli xs), mb) }
      else if fmt = 15
      then
        if mbuf_get_left mb < n * 4 then Some ((EBADMSG, n, Fci_none), mb)
        else if \<not> mem A_fci then Some ((ENOMEM, n, Fci_none), mb)
        else
          let afb = mb_the (mbuf_alloc_ref True mb)
          in Some ((OK, n, Fci_afb (afb\<lparr>mb_end := mb_pos afb + n * 4\<rparr>)), skip (n * 4) mb)
      else if fmt = 4
      then
        let n = n div 2
        in if \<not> mem A_fci then Some ((ENOMEM, n, Fci_none), mb)
           else if mbuf_get_left mb < n * 8 then Some ((EBADMSG, n, Fci_none), mb)
           else do { (xs, mb) \<leftarrow> decode_firs (unat n) mb; Some ((OK, n, Fci_fir xs), mb) }
      else Some ((OK, n, Fci_none), mb))"

section \<open>The common header\<close>

definition rtcp_hdr_encode ::
    "allocator \<Rightarrow> mbuf option \<Rightarrow> u8 \<Rightarrow> u8 \<Rightarrow> u16 \<Rightarrow> (errno \<times> mbuf option) option" where
  "rtcp_hdr_encode mm mb count type len =
     (if mb = None then Some (EINVAL, mb)
      else or_err (\<lambda>mb. mbuf_write_u8 mm mb (push_bit 6 RTCP_VERSION OR count))
             (or_err (\<lambda>mb. mbuf_write_u8 mm mb type)
               (\<lambda>mb. mbuf_write_u16 mm mb (htons len))) mb)"

definition zero_rtcp_hdr :: rtcp_hdr where
  "zero_rtcp_hdr = \<lparr>rh_version = 0, rh_p = False, rh_count = 0, rh_pt = 0, rh_length = 0\<rparr>"

definition rtcp_hdr_decode :: "(errno \<times> rtcp_hdr) reader" where
  "rtcp_hdr_decode mb =
     (if mbuf_get_left mb < RTCP_HDR_SIZE then Some ((EBADMSG, zero_rtcp_hdr), mb)
      else do {
        (b, mb) \<leftarrow> mbuf_read_u8 mb;
        (pt, mb) \<leftarrow> mbuf_read_u8 mb;
        (len, mb) \<leftarrow> read_u16n mb;
        Some ((OK, \<lparr>rh_version = drop_bit 6 b AND 3, rh_p = bit_flag b 5, rh_count = b AND 0x1F,
                    rh_pt = pt, rh_length = len\<rparr>), mb)
      })"

section \<open>Encoding a packet\<close>

text \<open>The encode handlers have a state of their own (the members of the session, say).\<close>

type_synonym 's encoder = "'s \<times> mbuf option \<Rightarrow> (errno \<times> 's \<times> mbuf option) option"

definition wr :: "(mbuf option \<Rightarrow> (errno \<times> mbuf option) option) \<Rightarrow> 's encoder" where
  "wr f = (\<lambda>(s, mb). do { (e, mb) \<leftarrow> f mb; Some (e, s, mb) })"

datatype 's rtcp_args =
  Args_SR u32 u32 u32 u32 u32 u32 "'s encoder option"
| Args_RR u32 "'s encoder option"
| Args_SDES "'s encoder option"
| Args_BYE "u32 list" "string option"
| Args_APP u32 "u8 list" "u8 list option"
| Args_FIR u32
| Args_NACK u32 u32 u32
| Args_FB u32 u32 "'s encoder option"

text \<open>A run of words, all written whatever the errors.\<close>

fun write_words :: "allocator \<Rightarrow> u32 list \<Rightarrow> 's encoder" where
  "write_words mm [] = (\<lambda>s. Some (OK, s))"
| "write_words mm (v # vs) = or_err (wr (\<lambda>mb. mbuf_write_u32 mm mb (htonl v))) (write_words mm vs)"

definition run_ench :: "'s encoder option \<Rightarrow> 's encoder" where
  "run_ench ench = (case ench of None \<Rightarrow> (\<lambda>s. Some (OK, s)) | Some f \<Rightarrow> f)"

text \<open>The sources of a goodbye: up to the first error; reading past the vector is undefined.\<close>

fun write_srcs :: "allocator \<Rightarrow> u32 list \<Rightarrow> nat \<Rightarrow> nat \<Rightarrow> 's encoder" where
  "write_srcs mm srcv i 0 s = Some (OK, s)"
| "write_srcs mm srcv i (Suc n) s =
     (if i < length srcv
      then do {
        (err, s) \<leftarrow> wr (\<lambda>mb. mbuf_write_u32 mm mb (htonl (srcv ! i))) s;
        if err \<noteq> 0 then Some (err, s) else write_srcs mm srcv (Suc i) n s
      }
      else None)"

text \<open>The body by packet type; arguments that do not fit the type are undefined behaviour of
  \<open>va_arg\<close>.\<close>

definition vencode_body :: "allocator \<Rightarrow> rtcp_type \<Rightarrow> u32 \<Rightarrow> 's rtcp_args \<Rightarrow> 's encoder" where
  "vencode_body mm type count args =
     (case (type, args) of
        (RTCP_SR, Args_SR a b c d e f ench) \<Rightarrow> or_err (write_words mm [a, b, c, d, e, f]) (run_ench ench)
      | (RTCP_RR, Args_RR a ench) \<Rightarrow> or_err (write_words mm [a]) (run_ench ench)
      | (RTCP_SDES, Args_SDES ench) \<Rightarrow> run_ench ench
      | (RTCP_BYE, Args_BYE srcv reason) \<Rightarrow>
          or_err (write_srcs mm srcv 0 (unat count))
            (case reason of
               None \<Rightarrow> (\<lambda>s. Some (OK, s))
             | Some r \<Rightarrow> or_err (wr (\<lambda>mb. mbuf_write_u8 mm mb (word_of_nat (length r))))
                          (wr (\<lambda>mb. mbuf_write_str mm mb (Some r))))
      | (RTCP_APP, Args_APP a name data) \<Rightarrow>
          (\<lambda>s. do {
             (err, s) \<leftarrow> or_err (write_words mm [a]) (wr (\<lambda>mb. mbuf_write_mem mm mb (Some name))) s;
             case data of
               None \<Rightarrow> Some (err, s)
             | Some d \<Rightarrow>
                 if length d mod 4 \<noteq> 0 then Some (EBADMSG, s)
                 else do { (e, s) \<leftarrow> wr (\<lambda>mb. mbuf_write_mem mm mb (Some d)) s; Some (err OR e, s) }
           })
      | (RTCP_FIR, Args_FIR a) \<Rightarrow> write_words mm [a]
      | (RTCP_NACK, Args_NACK a fsn blp) \<Rightarrow>
          or_err (write_words mm [a])
            (or_err (wr (\<lambda>mb. mbuf_write_u16 mm mb (htons (ucast fsn))))
              (wr (\<lambda>mb. mbuf_write_u16 mm mb (htons (ucast blp)))))
      | (RTCP_RTPFB, Args_FB a b ench) \<Rightarrow> or_err (write_words mm [a, b]) (run_ench ench)
      | (RTCP_PSFB, Args_FB a b ench) \<Rightarrow> or_err (write_words mm [a, b]) (run_ench ench)
      | (RTCP_XR, _) \<Rightarrow> (\<lambda>s. Some (EINVAL, s))
      | (RTCP_AVB, _) \<Rightarrow> (\<lambda>s. Some (EINVAL, s))
      | _ \<Rightarrow> (\<lambda>_. None))"

text \<open>Padding to 32 bits: as in \<open>pad_pos\<close>, a failing write does not end the loop.\<close>

partial_function (option) pad_end ::
    "allocator \<Rightarrow> u32 \<Rightarrow> errno \<Rightarrow> mbuf option \<Rightarrow> (errno \<times> mbuf option) option" where
  "pad_end mm pos err mb =
     (if (mbuf_end mb - pos) AND 3 = 0 then Some (err, mb)
      else Option.bind (mbuf_write_u8 mm mb 0) (\<lambda>r. pad_end mm pos (err OR fst r) (snd r)))"

definition vencode_finish :: "allocator \<Rightarrow> rtcp_type \<Rightarrow> u32 \<Rightarrow> u32 \<Rightarrow> mbuf option \<Rightarrow> (errno \<times> mbuf option) option" where
  "vencode_finish mm type count pos mb = do {
     (err, mb) \<leftarrow> pad_end mm pos 0 mb;
     if err \<noteq> 0 then Some (err, mb)
     else do {
       let len = (ucast ((mbuf_end mb - pos - RTCP_HDR_SIZE) div 4) :: u16);
       let mb = map_option (\<lambda>m. m\<lparr>mb_pos := pos\<rparr>) mb;
       (err, mb) \<leftarrow> rtcp_hdr_encode mm mb (ucast count) (rtcp_type_num type) len;
       if err \<noteq> 0 then Some (err, mb)
       else Some (OK, map_option (\<lambda>m. m\<lparr>mb_pos := mb_end m\<rparr>) mb)
     }
   }"

definition rtcp_vencode ::
    "allocator \<Rightarrow> mbuf option \<Rightarrow> rtcp_type \<Rightarrow> u32 \<Rightarrow> 's rtcp_args \<Rightarrow> 's \<Rightarrow>
     (errno \<times> 's \<times> mbuf option) option" where
  "rtcp_vencode mm mb type count args s =
     (case mb of
        None \<Rightarrow> Some (EINVAL, s, mb)
      | Some m \<Rightarrow> do {
          let pos = mb_pos m;
          let m = m\<lparr>mb_pos := pos + RTCP_HDR_SIZE, mb_end := pos + RTCP_HDR_SIZE\<rparr>;
          (err, s, mb) \<leftarrow> vencode_body mm type count args (s, Some m);
          if err \<noteq> 0 then Some (err, s, mb)
          else do {
            (err, mb) \<leftarrow> vencode_finish mm type count pos mb;
            Some (err, s, mb)
          }
        })"

definition rtcp_encode ::
    "allocator \<Rightarrow> mbuf option \<Rightarrow> rtcp_type \<Rightarrow> u32 \<Rightarrow> 's rtcp_args \<Rightarrow> 's \<Rightarrow>
     (errno \<times> 's \<times> mbuf option) option" where
  "rtcp_encode mm mb type count args s = rtcp_vencode mm mb type count args s"

section \<open>Decoding a packet\<close>

definition decode_sr :: "mem_oracle \<Rightarrow> u8 \<Rightarrow> (errno \<times> rtcp_body) reader" where
  "decode_sr mem count mb =
     (if mbuf_get_left mb < RTCP_SRC_SIZE + RTCP_SR_SIZE then Some ((EBADMSG, Body_none), mb)
      else do {
        (ssrc, mb) \<leftarrow> read_u32n mb;
        (ntp_sec, mb) \<leftarrow> read_u32n mb;
        (ntp_frac, mb) \<leftarrow> read_u32n mb;
        (rtp_ts, mb) \<leftarrow> read_u32n mb;
        (psent, mb) \<leftarrow> read_u32n mb;
        (osent, mb) \<leftarrow> read_u32n mb;
        let err = rtcp_rr_alloc True (mem A_rrv);
        if err \<noteq> 0 then Some ((err, Body_none), mb)
        else do {
          (r, mb) \<leftarrow> decode_rrs (unat count) mb;
          Some ((fst r, Body_SR ssrc ntp_sec ntp_frac rtp_ts psent osent (snd r)), mb)
        }
      })"

definition decode_rr :: "mem_oracle \<Rightarrow> u8 \<Rightarrow> (errno \<times> rtcp_body) reader" where
  "decode_rr mem count mb =
     (if mbuf_get_left mb < RTCP_SRC_SIZE then Some ((EBADMSG, Body_none), mb)
      else do {
        (ssrc, mb) \<leftarrow> read_u32n mb;
        let err = rtcp_rr_alloc True (mem A_rrv);
        if err \<noteq> 0 then Some ((err, Body_none), mb)
        else do {
          (r, mb) \<leftarrow> decode_rrs (unat count) mb;
          Some ((fst r, Body_RR ssrc (snd r)), mb)
        }
      })"

definition decode_sdes :: "mem_oracle \<Rightarrow> u8 \<Rightarrow> (errno \<times> rtcp_body) reader" where
  "decode_sdes mem count mb =
     (if count = 0 then Some ((OK, Body_SDES []), mb)
      else if \<not> mem A_sdesv then Some ((ENOMEM, Body_none), mb)
      else do {
        (r, mb) \<leftarrow> decode_chunks mem 0 (unat count) mb;
        Some ((fst r, Body_SDES (snd r)), mb)
      })"

fun decode_srcs :: "nat \<Rightarrow> u32 list reader" where
  "decode_srcs 0 mb = Some ([], mb)"
| "decode_srcs (Suc n) mb = do {
     (v, mb) \<leftarrow> read_u32n mb;
     (vs, mb) \<leftarrow> decode_srcs n mb;
     Some (v # vs, mb) }"

definition decode_bye :: "mem_oracle \<Rightarrow> u8 \<Rightarrow> u32 \<Rightarrow> (errno \<times> rtcp_body) reader" where
  "decode_bye mem count rem mb =
     (if \<not> mem A_srcv then Some ((ENOMEM, Body_none), mb)
      else if mbuf_get_left mb < ucast count * 4 then Some ((EBADMSG, Body_none), mb)
      else do {
        (srcv, mb) \<leftarrow> decode_srcs (unat count) mb;
        if rem > ucast count * 4
        then do {
          (len, mb) \<leftarrow> mbuf_read_u8 mb;
          if mbuf_get_left mb < ucast len then Some ((EBADMSG, Body_none), mb)
          else do {
            (r, mb) \<leftarrow> map_option (\<lambda>(e, s, mb). ((e, s), mb)) (mbuf_strdup mb True (mem A_reason) (ucast len));
            Some ((fst r, Body_BYE srcv (snd r)), mb)
          }
        }
        else Some ((OK, Body_BYE srcv None), mb)
      })"

definition decode_app :: "mem_oracle \<Rightarrow> u32 \<Rightarrow> (errno \<times> rtcp_body) reader" where
  "decode_app mem rem mb =
     (if mbuf_get_left mb < RTCP_APP_SIZE then Some ((EBADMSG, Body_none), mb)
      else do {
        (src, mb) \<leftarrow> read_u32n mb;
        (r, mb) \<leftarrow> map_option (\<lambda>(e, s, mb). ((e, s), mb)) (mbuf_read_mem mb True 4);
        if rem > RTCP_APP_SIZE
        then
          if \<not> mem A_app then Some ((ENOMEM, Body_none), mb)
          else if mbuf_get_left mb < rem - RTCP_APP_SIZE then Some ((EBADMSG, Body_none), mb)
          else do {
            (d, mb) \<leftarrow> map_option (\<lambda>(e, s, mb). ((e, s), mb)) (mbuf_read_mem mb True (rem - RTCP_APP_SIZE));
            Some ((OK, Body_APP src (snd r) (Some (snd d))), mb)
          }
        else Some ((OK, Body_APP src (snd r) None), mb)
      })"

definition decode_fir :: "(errno \<times> rtcp_body) reader" where
  "decode_fir mb =
     (if mbuf_get_left mb < RTCP_FIR_SIZE then Some ((EBADMSG, Body_none), mb)
      else do { (ssrc, mb) \<leftarrow> read_u32n mb; Some ((OK, Body_FIR ssrc), mb) })"

definition decode_nack :: "(errno \<times> rtcp_body) reader" where
  "decode_nack mb =
     (if mbuf_get_left mb < RTCP_NACK_SIZE then Some ((EBADMSG, Body_none), mb)
      else do {
        (ssrc, mb) \<leftarrow> read_u32n mb;
        (fsn, mb) \<leftarrow> read_u16n mb;
        (blp, mb) \<leftarrow> read_u16n mb;
        Some ((OK, Body_NACK ssrc fsn blp), mb)
      })"

definition decode_fb ::
    "(mem_oracle \<Rightarrow> u8 \<Rightarrow> u32 \<Rightarrow> (errno \<times> u32 \<times> rtcp_fci) reader) \<Rightarrow> mem_oracle \<Rightarrow> rtcp_hdr \<Rightarrow>
     (errno \<times> rtcp_body) reader" where
  "decode_fb fci mem hdr mb =
     (if mbuf_get_left mb < RTCP_FB_SIZE then Some ((EBADMSG, Body_none), mb)
      else if rh_length hdr < 2 then Some ((EBADMSG, Body_none), mb)
      else do {
        (packet, mb) \<leftarrow> read_u32n mb;
        (media, mb) \<leftarrow> read_u32n mb;
        (r, mb) \<leftarrow> fci mem (rh_count hdr) (ucast (rh_length hdr) - 2) mb;
        Some ((fst r, Body_FB packet media (fst (snd r)) (snd (snd r))), mb)
      })"

definition decode_body :: "mem_oracle \<Rightarrow> rtcp_hdr \<Rightarrow> u32 \<Rightarrow> (errno \<times> rtcp_body) reader" where
  "decode_body mem hdr rem =
     (if rh_pt hdr = 200 then decode_sr mem (rh_count hdr)
      else if rh_pt hdr = 201 then decode_rr mem (rh_count hdr)
      else if rh_pt hdr = 202 then decode_sdes mem (rh_count hdr)
      else if rh_pt hdr = 203 then decode_bye mem (rh_count hdr) rem
      else if rh_pt hdr = 204 then decode_app mem rem
      else if rh_pt hdr = 192 then decode_fir
      else if rh_pt hdr = 193 then decode_nack
      else if rh_pt hdr = 205 then decode_fb rtcp_rtpfb_decode mem hdr
      else if rh_pt hdr = 206 then decode_fb rtcp_psfb_decode mem hdr
      else (\<lambda>mb. Some ((OK, Body_none), skip rem mb)))"

text \<open>A message that cannot be decoded is freed and not returned.\<close>

definition rtcp_decode :: "mem_oracle \<Rightarrow> bool \<Rightarrow> (errno \<times> rtcp_msg option) reader" where
  "rtcp_decode mem msgp mb =
     (if \<not> msgp then Some ((EINVAL, None), mb)
      else if mbuf_get_left mb < RTCP_HDR_SIZE then Some ((EBADMSG, None), mb)
      else if \<not> mem A_msg then Some ((ENOMEM, None), mb)
      else do {
        let start = mbuf_pos mb;
        (h, mb) \<leftarrow> rtcp_hdr_decode mb;
        let hdr = snd h;
        if fst h \<noteq> 0 then Some ((fst h, None), mb)
        else if rh_version hdr \<noteq> RTCP_VERSION then Some ((EBADMSG, None), mb)
        else do {
          let rem = (ucast (rh_length hdr) :: u32) * 4;
          if mbuf_get_left mb < rem then Some ((EBADMSG, None), mb)
          else do {
            (r, mb) \<leftarrow> decode_body mem hdr rem mb;
            if fst r \<noteq> 0 then Some ((fst r, None), mb)
            else Some ((OK, Some \<lparr>rm_hdr = hdr, rm_r = snd r\<rparr>), slurp_padding start mb)
          }
        }
      })"

definition rtp_is_rtcp_packet :: "mbuf option \<Rightarrow> bool option" where
  "rtp_is_rtcp_packet mb =
     (if mbuf_get_left mb < 2 then Some False
      else case mb of
             None \<Rightarrow> Some False
           | Some m \<Rightarrow> map_option (\<lambda>bs. rtp_pt_is_rtcp (bs ! 1 AND 0x7F)) (blk_read (unat (mb_pos m)) 2 (the_blk m)))"

end
