(* ===== verification/Re_Hash.thy ===== *)
theory Re_Hash
  imports Prelude "HOL-Library.Monad_Syntax"
begin

text \<open>
  The hash table of libre (\<open>native/re/src/hash/hash.c\<close>): a power of two of linked lists.  The lists
  are their sequences of elements, which \<open>Re_List\<close> shows the pointer operations to implement; an
  element stands for its list element and data (an address).  Where the code indexes the array of
  buckets out of its range the result is \<open>None\<close>: the array is allocated with
  \<open>bsize * sizeof(struct list)\<close> bytes, a product of 32-bit numbers.

  The locale \<open>keyed_table\<close> is what the users of the table rely on; it is interpreted on the
  operations of the table.
\<close>

section \<open>The table\<close>

record 'e hash =
  h_bucket :: "'e list list"
  h_bsize :: u32

text \<open>The size of \<open>struct list\<close>: two pointers of 32 bits.\<close>

definition SIZEOF_LIST :: u32 where
  "SIZEOF_LIST = 8"

text \<open>\<open>zalloc n\<close>: there is memory for \<open>n\<close> bytes.\<close>

definition hash_alloc :: "bool \<Rightarrow> bool \<Rightarrow> (u32 \<Rightarrow> bool) \<Rightarrow> u32 \<Rightarrow> errno \<times> 'e hash option" where
  "hash_alloc hp struct_ok zalloc bsize =
     (if \<not> hp \<or> bsize = 0 then (EINVAL, None)
      else if bsize AND (bsize - 1) \<noteq> 0 then (EINVAL, None)
      else if \<not> struct_ok then (ENOMEM, None)
      else if \<not> zalloc (bsize * SIZEOF_LIST) then (ENOMEM, None)
      else (OK, Some \<lparr>h_bucket = replicate (unat (bsize * SIZEOF_LIST) div unat SIZEOF_LIST) [], h_bsize = bsize\<rparr>))"

definition hash_index :: "'e hash \<Rightarrow> u32 \<Rightarrow> nat" where
  "hash_index h key = unat (key AND (h_bsize h - 1))"

text \<open>The bucket at an index, as far as the array goes.\<close>

definition bucket_at :: "'e hash \<Rightarrow> nat \<Rightarrow> 'e list option" where
  "bucket_at h i = (if i < length (h_bucket h) then Some (h_bucket h ! i) else None)"

text \<open>An element that is in a list already is not appended (\<open>list_append\<close>).\<close>

definition hash_append :: "'e hash option \<Rightarrow> u32 \<Rightarrow> 'e option \<Rightarrow> 'e hash option option" where
  "hash_append h key le =
     (case (h, le) of
        (Some t, Some e) \<Rightarrow>
          if e \<in> set (concat (h_bucket t)) then Some h
          else do {
            b \<leftarrow> bucket_at t (hash_index t key);
            Some (Some (t\<lparr>h_bucket := (h_bucket t)[hash_index t key := b @ [e]]\<rparr>))
          }
      | _ \<Rightarrow> Some h)"

definition hash_unlink :: "'e \<Rightarrow> 'e hash \<Rightarrow> 'e hash" where
  "hash_unlink e t = t\<lparr>h_bucket := map (remove1 e) (h_bucket t)\<rparr>"

text \<open>\<open>list_apply\<close>, forward, with a handler that has a state; it stops where the handler says so.\<close>

type_synonym ('e, 's) apply_h = "'e \<Rightarrow> 's \<Rightarrow> (bool \<times> 's) option"

fun walk :: "('e, 's) apply_h \<Rightarrow> 'e list \<Rightarrow> 's \<Rightarrow> ('e option \<times> 's) option" where
  "walk ah [] s = Some (None, s)"
| "walk ah (e # es) s = do {
     (stop, s) \<leftarrow> ah e s;
     if stop then Some (Some e, s) else walk ah es s }"

definition hash_lookup ::
    "'e hash option \<Rightarrow> u32 \<Rightarrow> ('e, 's) apply_h option \<Rightarrow> 's \<Rightarrow> ('e option \<times> 's) option" where
  "hash_lookup h key ah s =
     (case (h, ah) of
        (Some t, Some f) \<Rightarrow> do { b \<leftarrow> bucket_at t (hash_index t key); walk f b s }
      | _ \<Rightarrow> Some (None, s))"

fun apply_buckets :: "('e, 's) apply_h \<Rightarrow> 'e hash \<Rightarrow> nat \<Rightarrow> nat \<Rightarrow> 's \<Rightarrow> ('e option \<times> 's) option" where
  "apply_buckets f t i 0 s = Some (None, s)"
| "apply_buckets f t i (Suc n) s = do {
     b \<leftarrow> bucket_at t i;
     (le, s) \<leftarrow> walk f b s;
     if le \<noteq> None then Some (le, s) else apply_buckets f t (Suc i) n s }"

definition hash_apply :: "'e hash option \<Rightarrow> ('e, 's) apply_h option \<Rightarrow> 's \<Rightarrow> ('e option \<times> 's) option" where
  "hash_apply h ah s =
     (case (h, ah) of
        (Some t, Some f) \<Rightarrow> apply_buckets f t 0 (unat (h_bsize t)) s
      | _ \<Rightarrow> Some (None, s))"

text \<open>\<open>hash_list_idx\<close> and \<open>hash_list\<close> return the list itself; here its elements.  The address is computed
  whether or not it lies in the array.\<close>

definition hash_list_idx :: "'e hash option \<Rightarrow> u32 \<Rightarrow> 'e list option option" where
  "hash_list_idx h i =
     (case h of
        None \<Rightarrow> Some None
      | Some t \<Rightarrow> if i \<ge> h_bsize t then Some None else map_option Some (bucket_at t (unat i)))"

definition hash_list :: "'e hash option \<Rightarrow> u32 \<Rightarrow> 'e list option option" where
  "hash_list h key =
     (case h of None \<Rightarrow> Some None | Some t \<Rightarrow> map_option Some (bucket_at t (hash_index t key)))"

definition hash_bsize :: "'e hash option \<Rightarrow> u32" where
  "hash_bsize h = (case h of None \<Rightarrow> 0 | Some t \<Rightarrow> h_bsize t)"

text \<open>Flushing releases the elements, in order; clearing only unlinks them.\<close>

definition empty_buckets :: "'e hash \<Rightarrow> 'e hash option" where
  "empty_buckets t =
     (if unat (h_bsize t) \<le> length (h_bucket t)
      then Some (t\<lparr>h_bucket := map (\<lambda>_. []) (take (unat (h_bsize t)) (h_bucket t)) @ drop (unat (h_bsize t)) (h_bucket t)\<rparr>)
      else None)"

definition hash_flush :: "'e hash option \<Rightarrow> ('e hash option \<times> 'e list) option" where
  "hash_flush h =
     (case h of
        None \<Rightarrow> Some (None, [])
      | Some t \<Rightarrow> do {
          t' \<leftarrow> empty_buckets t;
          Some (Some t', concat (take (unat (h_bsize t)) (h_bucket t))) })"

definition hash_clear :: "'e hash option \<Rightarrow> 'e hash option option" where
  "hash_clear h = (case h of None \<Rightarrow> Some None | Some t \<Rightarrow> map_option Some (empty_buckets t))"

text \<open>\<open>for (x=0; (uint32_t)1<<x < size && x < 31; x++)\<close>\<close>

function valid_size_loop :: "u32 \<Rightarrow> nat \<Rightarrow> nat" where
  "valid_size_loop n x = (if push_bit x (1 :: u32) < n \<and> x < 31 then valid_size_loop n (Suc x) else x)"
  by pat_completeness auto
termination by (relation "measure (\<lambda>(_, x). 31 - x)") auto

declare valid_size_loop.simps [simp del]

definition hash_valid_size :: "u32 \<Rightarrow> u32" where
  "hash_valid_size n = push_bit (valid_size_loop n 0) 1"

section \<open>The interface\<close>

text \<open>
  \<open>filed t k e\<close>: the element is where a lookup of the key \<open>k\<close> looks.  A user that files its elements
  under distinct keys gets a finite map (\<open>keys_ok\<close>): a lookup finds the element of the key and
  only it, adding under a new key extends the map, and removing takes the element out.
\<close>

locale keyed_table =
  fixes inv :: "'t \<Rightarrow> bool"
    and all :: "'t \<Rightarrow> 'e list"
    and filed :: "'t \<Rightarrow> 'k \<Rightarrow> 'e \<Rightarrow> bool"
    and lookup :: "'t \<Rightarrow> 'k \<Rightarrow> ('e \<Rightarrow> bool) \<Rightarrow> 'e option option"
    and add :: "'t \<Rightarrow> 'k \<Rightarrow> 'e \<Rightarrow> 't option"
    and remove :: "'e \<Rightarrow> 't \<Rightarrow> 't"
  assumes lookup_returns: "inv t \<Longrightarrow> lookup t k p \<noteq> None"
    and lookup_found: "inv t \<Longrightarrow> lookup t k p = Some (Some e) \<Longrightarrow> filed t k e \<and> p e"
    and lookup_missing: "inv t \<Longrightarrow> lookup t k p = Some None \<Longrightarrow> filed t k e \<Longrightarrow> \<not> p e"
    and filed_all: "inv t \<Longrightarrow> filed t k e \<Longrightarrow> e \<in> set (all t)"
    and inv_distinct: "inv t \<Longrightarrow> distinct (all t)"
    and add_new: "inv t \<Longrightarrow> e \<notin> set (all t) \<Longrightarrow>
      \<exists>t'. add t k e = Some t' \<and> inv t' \<and> set (all t') = insert e (set (all t)) \<and> filed t' k e \<and>
           (\<forall>k' e'. filed t k' e' \<longrightarrow> filed t' k' e')"
    and remove_inv: "inv t \<Longrightarrow> inv (remove e t)"
    and remove_all: "inv t \<Longrightarrow> set (all (remove e t)) = set (all t) - {e}"
    and remove_filed: "inv t \<Longrightarrow> filed t k e' \<Longrightarrow> e' \<noteq> e \<Longrightarrow> filed (remove e t) k e'"
begin

definition keys_ok :: "'t \<Rightarrow> ('e \<Rightarrow> 'k) \<Rightarrow> bool" where
  "keys_ok t key \<longleftrightarrow> inv t \<and> (\<forall>e\<in>set (all t). filed t (key e) e) \<and> inj_on key (set (all t))"

lemma keys_ok_inv: "keys_ok t key \<Longrightarrow> inv t"
  by (simp add: keys_ok_def)

lemma keys_ok_cong: "keys_ok t key \<Longrightarrow> (\<And>e. e \<in> set (all t) \<Longrightarrow> key' e = key e) \<Longrightarrow> keys_ok t key'"
  unfolding keys_ok_def inj_on_def by simp

lemma find_key:
  assumes "keys_ok t key"
  obtains r where "lookup t k (\<lambda>e. key e = k) = Some r"
    "\<And>e. r = Some e \<longleftrightarrow> e \<in> set (all t) \<and> key e = k"
proof -
  have i: "inv t" using assms by (rule keys_ok_inv)
  obtain r where r: "lookup t k (\<lambda>e. key e = k) = Some r" using lookup_returns [OF i] by fastforce
  have "r = Some e \<longleftrightarrow> e \<in> set (all t) \<and> key e = k" for e
  proof
    assume "r = Some e"
    then show "e \<in> set (all t) \<and> key e = k" using lookup_found [OF i] filed_all [OF i] r by blast
  next
    assume e: "e \<in> set (all t) \<and> key e = k"
    then have f: "filed t k e" using assms by (auto simp: keys_ok_def)
    show "r = Some e"
    proof (cases r)
      case None
      then show ?thesis using lookup_missing [OF i _ f] r e by blast
    next
      case (Some e')
      then have "e' \<in> set (all t) \<and> key e' = k" using lookup_found [OF i] filed_all [OF i] r by blast
      then show ?thesis using Some e assms by (auto simp: keys_ok_def inj_on_def)
    qed
  qed
  with r show thesis by (rule that)
qed

lemma find_same_key:
  assumes "keys_ok t key" "\<And>e. e \<in> set (all t) \<Longrightarrow> p e \<longleftrightarrow> key e = k"
  shows "lookup t k p = lookup t k (\<lambda>e. key e = k)"
proof -
  have i: "inv t" using assms(1) by (rule keys_ok_inv)
  obtain r where r: "lookup t k p = Some r" using lookup_returns [OF i] by fastforce
  obtain r' where r': "lookup t k (\<lambda>e. key e = k) = Some r'" "\<And>e. r' = Some e \<longleftrightarrow> e \<in> set (all t) \<and> key e = k"
    using find_key [OF assms(1)] by metis
  have "r = r'"
  proof (cases r)
    case None
    have "r' \<noteq> Some e" for e
    proof
      assume "r' = Some e"
      then have "e \<in> set (all t)" "key e = k" using r'(2) by blast+
      moreover then have "filed t k e" using assms(1) by (auto simp: keys_ok_def)
      ultimately show False using lookup_missing [OF i] r None assms(2) by blast
    qed
    then show ?thesis using None by (cases r') auto
  next
    case (Some e)
    then have "e \<in> set (all t)" "p e" using lookup_found [OF i] filed_all [OF i] r by blast+
    then show ?thesis using Some r'(2) [of e] assms(2) [of e] by simp
  qed
  then show ?thesis using r r'(1) by simp
qed

lemma add_key:
  assumes "keys_ok t key" "e \<notin> set (all t)" "key' e = k" "\<And>e'. e' \<in> set (all t) \<Longrightarrow> key' e' = key e'"
    "k \<notin> key ` set (all t)"
  obtains t' where "add t k e = Some t'" "keys_ok t' key'" "set (all t') = insert e (set (all t))"
proof -
  have i: "inv t" using assms(1) by (rule keys_ok_inv)
  obtain t' where t': "add t k e = Some t'" "inv t'" "set (all t') = insert e (set (all t))" "filed t' k e"
    "\<And>k' e'. filed t k' e' \<Longrightarrow> filed t' k' e'"
    using add_new [OF i assms(2), of k] by blast
  have "keys_ok t' key'"
    unfolding keys_ok_def
  proof (intro conjI ballI)
    show "inv t'" by (rule t'(2))
    show "filed t' (key' x) x" if "x \<in> set (all t')" for x
      using that t'(3-5) assms(1,3,4) by (auto simp: keys_ok_def)
    have "inj_on key' (set (all t)) \<longleftrightarrow> inj_on key (set (all t))" by (rule inj_on_cong) (rule assms(4))
    moreover have "key' ` set (all t) = key ` set (all t)" by (rule image_cong) (auto simp: assms(4))
    ultimately show "inj_on key' (set (all t'))"
      using assms(1,2,3,5) unfolding t'(3) by (simp add: keys_ok_def)
  qed
  with t' show thesis using that by blast
qed

lemma remove_key:
  "keys_ok t key \<Longrightarrow> keys_ok (remove e t) key \<and> set (all (remove e t)) = set (all t) - {e}"
  unfolding keys_ok_def using remove_inv remove_all remove_filed by (auto simp: inj_on_def)

end

section \<open>The table implements the interface\<close>

definition hash_ok :: "'e hash \<Rightarrow> bool" where
  "hash_ok t \<longleftrightarrow> h_bsize t \<noteq> 0 \<and> length (h_bucket t) = unat (h_bsize t) \<and> distinct (concat (h_bucket t))"

definition hash_elems :: "'e hash \<Rightarrow> 'e list" where
  "hash_elems t = concat (h_bucket t)"

definition hash_filed :: "'e hash \<Rightarrow> u32 \<Rightarrow> 'e \<Rightarrow> bool" where
  "hash_filed t k e \<longleftrightarrow> e \<in> set (h_bucket t ! hash_index t k)"

definition hash_find :: "'e hash \<Rightarrow> u32 \<Rightarrow> ('e \<Rightarrow> bool) \<Rightarrow> 'e option option" where
  "hash_find t k p = map_option fst (hash_lookup (Some t) k (Some (\<lambda>e s. Some (p e, s))) ())"

definition hash_add :: "'e hash \<Rightarrow> u32 \<Rightarrow> 'e \<Rightarrow> 'e hash option" where
  "hash_add t k e = Option.bind (hash_append (Some t) k (Some e)) id"

lemma hash_index_less: "hash_ok t \<Longrightarrow> hash_index t k < length (h_bucket t)"
proof -
  assume ok: "hash_ok t"
  have "k AND (h_bsize t - 1) \<le> h_bsize t - 1" by (rule word_and_le1)
  then have "unat (k AND (h_bsize t - 1)) \<le> unat (h_bsize t - 1)" by (simp add: word_le_nat_alt)
  also have "\<dots> < unat (h_bsize t)"
    using ok by (simp add: hash_ok_def unat_gt_0 unat_minus_one)
  finally show ?thesis using ok by (simp add: hash_index_def hash_ok_def)
qed

lemma bucket_in_range: "hash_ok t \<Longrightarrow> bucket_at t (hash_index t k) = Some (h_bucket t ! hash_index t k)"
  using hash_index_less [of t k] by (simp add: bucket_at_def)

text \<open>A handler without effects makes the walk a search.\<close>

lemma walk_pure: "walk (\<lambda>e s. Some (p e, s)) es s = Some (find p es, s)"
  by (induction es) auto

lemma walk_pure_unit: "walk (\<lambda>e s. Some (p e, ())) es () = Some (find p es, ())"
  by (induction es) auto

lemma hash_find_eq: "hash_ok t \<Longrightarrow> hash_find t k p = Some (find p (h_bucket t ! hash_index t k))"
  by (simp add: hash_find_def hash_lookup_def bucket_in_range walk_pure_unit)

lemma set_concat_update:
  "i < length xss \<Longrightarrow> set (concat (xss[i := xss ! i @ [e]])) = insert e (set (concat xss))"
proof -
  assume i: "i < length xss"
  have "concat (xss[i := xss ! i @ [e]]) = concat (take i xss) @ (xss ! i @ [e]) @ concat (drop (Suc i) xss)"
    using i by (simp add: upd_conv_take_nth_drop)
  moreover have "concat xss = concat (take i xss) @ xss ! i @ concat (drop (Suc i) xss)"
    using i by (subst id_take_nth_drop [OF i]) simp
  ultimately show ?thesis by auto
qed

lemma distinct_concat_update:
  "i < length xss \<Longrightarrow> distinct (concat xss) \<Longrightarrow> e \<notin> set (concat xss) \<Longrightarrow>
   distinct (concat (xss[i := xss ! i @ [e]]))"
proof -
  assume i: "i < length xss" and d: "distinct (concat xss)" and e: "e \<notin> set (concat xss)"
  have "concat (xss[i := xss ! i @ [e]]) = concat (take i xss) @ (xss ! i @ [e]) @ concat (drop (Suc i) xss)"
    using i by (simp add: upd_conv_take_nth_drop)
  moreover have "concat xss = concat (take i xss) @ xss ! i @ concat (drop (Suc i) xss)"
    using i by (subst id_take_nth_drop [OF i]) simp
  ultimately show ?thesis using d e by (auto simp del: concat_append)
qed

lemma hash_add_ok:
  assumes ok: "hash_ok t" and new: "e \<notin> set (hash_elems t)"
  shows "\<exists>t'. hash_add t k e = Some t' \<and> hash_ok t' \<and> set (hash_elems t') = insert e (set (hash_elems t)) \<and>
    hash_filed t' k e \<and> (\<forall>k' e'. hash_filed t k' e' \<longrightarrow> hash_filed t' k' e')"
proof -
  let ?i = "hash_index t k" and ?t = "t\<lparr>h_bucket := (h_bucket t)[hash_index t k := h_bucket t ! hash_index t k @ [e]]\<rparr>"
  have i: "?i < length (h_bucket t)" by (rule hash_index_less [OF ok])
  have "hash_add t k e = Some ?t"
    using new bucket_in_range [OF ok] by (simp add: hash_add_def hash_append_def hash_elems_def)
  moreover have "hash_ok ?t"
    using ok new distinct_concat_update [OF i] by (simp add: hash_ok_def hash_elems_def)
  moreover have "set (hash_elems ?t) = insert e (set (hash_elems t))"
    unfolding hash_elems_def using set_concat_update [OF i] by simp
  moreover have "hash_index ?t k' = hash_index t k'" for k' by (simp add: hash_index_def)
  ultimately show ?thesis using i hash_index_less [OF ok]
    by (auto simp: hash_filed_def nth_list_update)
qed

lemma concat_map_remove1:
  "distinct (concat xss) \<Longrightarrow> concat (map (remove1 e) xss) = remove1 e (concat xss)"
proof (induction xss)
  case (Cons xs xss)
  have "e \<in> set xs \<Longrightarrow> map (remove1 e) xss = xss"
    using Cons.prems by (intro map_idI remove1_idem) auto
  then show ?case using Cons by (auto simp: remove1_append remove1_idem)
qed simp

lemma hash_unlink_ok:
  assumes "hash_ok t"
  shows "hash_ok (hash_unlink e t)" "hash_elems (hash_unlink e t) = remove1 e (hash_elems t)"
  using assms by (simp_all add: hash_ok_def hash_elems_def hash_unlink_def concat_map_remove1 distinct_remove1)

interpretation table: keyed_table hash_ok hash_elems hash_filed hash_find hash_add hash_unlink
proof unfold_locales
  fix t :: "'a hash" and k and p :: "'a \<Rightarrow> bool" and e e' :: 'a
  assume ok: "hash_ok t"
  have i: "hash_index t k < length (h_bucket t)" by (rule hash_index_less [OF ok])
  show "hash_find t k p \<noteq> None" by (simp add: hash_find_eq [OF ok])
  show "hash_find t k p = Some (Some e) \<Longrightarrow> hash_filed t k e \<and> p e"
    by (auto simp: hash_find_eq [OF ok] hash_filed_def find_Some_iff)
  show "hash_find t k p = Some None \<Longrightarrow> hash_filed t k e \<Longrightarrow> \<not> p e"
    by (auto simp: hash_find_eq [OF ok] hash_filed_def find_None_iff)
  show "hash_filed t k e \<Longrightarrow> e \<in> set (hash_elems t)"
    using i by (auto simp: hash_filed_def hash_elems_def)
  show "distinct (hash_elems t)" using ok by (simp add: hash_ok_def hash_elems_def)
  show "\<exists>t'. hash_add t k e = Some t' \<and> hash_ok t' \<and> set (hash_elems t') = insert e (set (hash_elems t)) \<and>
      hash_filed t' k e \<and> (\<forall>k' e'. hash_filed t k' e' \<longrightarrow> hash_filed t' k' e')"
    if "e \<notin> set (hash_elems t)" by (rule hash_add_ok [OF ok that])
  show "hash_ok (hash_unlink e t)" by (rule hash_unlink_ok(1) [OF ok])
  show "set (hash_elems (hash_unlink e t)) = set (hash_elems t) - {e}"
    unfolding hash_unlink_ok(2) [OF ok] using ok by (simp add: hash_ok_def hash_elems_def set_remove1_eq)
  show "hash_filed t k e' \<Longrightarrow> e' \<noteq> e \<Longrightarrow> hash_filed (hash_unlink e t) k e'"
    using i by (simp add: hash_filed_def hash_unlink_def hash_index_def)
qed

text \<open>Walking through the buckets is walking through the elements.\<close>

lemma walk_append:
  "walk f (xs @ ys) s = do { (le, s) \<leftarrow> walk f xs s; if le \<noteq> None then Some (le, s) else walk f ys s }"
  by (induction xs arbitrary: s) (auto simp: Option.bind_assoc split: prod.split intro!: arg_cong2 [where f = Option.bind])

lemma apply_buckets_walk:
  "i + n \<le> length (h_bucket t) \<Longrightarrow>
   apply_buckets f t i n s = walk f (concat (take n (drop i (h_bucket t)))) s"
proof (induction n arbitrary: i s)
  case (Suc n)
  then have "take (Suc n) (drop i (h_bucket t)) = h_bucket t ! i # take n (drop (Suc i) (h_bucket t))"
    by (metis Cons_nth_drop_Suc Suc_le_lessD add_Suc_right le_add1 order.strict_trans1 take_Suc_Cons less_add_Suc1 order_less_le_trans)
  then show ?case using Suc
    by (auto simp: bucket_at_def walk_append intro!: arg_cong2 [where f = Option.bind])
qed simp

lemma hash_apply_walk: "hash_ok t \<Longrightarrow> hash_apply (Some t) (Some f) s = walk f (hash_elems t) s"
  using apply_buckets_walk [of 0 "unat (h_bsize t)" t f s] by (simp add: hash_apply_def hash_ok_def hash_elems_def)

section \<open>Sizes\<close>

lemma hash_alloc_result:
  "hash_alloc True True zalloc bsize = (OK, Some t) \<Longrightarrow>
   h_bsize t = bsize \<and> bsize \<noteq> 0 \<and> h_bucket t = replicate (unat (bsize * 8) div 8) []"
  by (auto simp: hash_alloc_def SIZEOF_LIST_def split: if_splits)

lemma small_array: "unat (b :: u32) < 2 ^ 29 \<Longrightarrow> unat (b * 8) div 8 = unat b"
  by (simp add: unat_word_ariths)

text \<open>A table of at most 2^28 buckets starts empty and well formed; the next power of two makes the size of the
  array wrap to 0 on the 32-bit target, the allocation succeeds without a bucket, and the first element
  appended is written outside it.\<close>

theorem hash_alloc_array:
  "(unat bsize < 2 ^ 29 \<longrightarrow> hash_alloc True True zalloc bsize = (OK, Some t) \<longrightarrow>
     hash_ok t \<and> hash_elems t = [] \<and> (\<forall>key. hash_lookup (Some t) key (Some f) s = Some (None, s))) \<and>
   hash_alloc True True (\<lambda>_. True) 0x20000000 = (OK, Some \<lparr>h_bucket = [], h_bsize = 0x20000000\<rparr>) \<and>
   hash_append (Some \<lparr>h_bucket = [], h_bsize = 0x20000000\<rparr>) key (Some e) = None"
proof (intro conjI impI)
  assume s: "unat bsize < 2 ^ 29" and a: "hash_alloc True True zalloc bsize = (OK, Some t)"
  have b: "h_bucket t = replicate (unat bsize) []" "h_bsize t = bsize" "bsize \<noteq> 0"
    using hash_alloc_result [OF a] small_array [OF s] by simp_all
  then show ok: "hash_ok t" by (simp add: hash_ok_def)
  show "hash_elems t = []" using b(1) by (simp add: hash_elems_def)
  have "hash_lookup (Some t) key (Some f) s = Some (None, s)" for key
    using hash_index_less [OF ok, of key] bucket_in_range [OF ok] b(1) by (simp add: hash_lookup_def)
  then show "\<forall>key. hash_lookup (Some t) key (Some f) s = Some (None, s)" ..
qed (simp_all add: hash_alloc_def hash_append_def bucket_at_def SIZEOF_LIST_def)

lemma hash_alloc_array_witness:
  "hash_ok (\<lparr>h_bucket = [[], []], h_bsize = 2\<rparr> :: nat hash) \<and>
   hash_append (Some \<lparr>h_bucket = [], h_bsize = 0x20000000\<rparr>) 5 (Some (Suc 0)) = None"
proof -
  have c: "unat (2 * SIZEOF_LIST) div unat SIZEOF_LIST = Suc (Suc 0)" by (simp add: SIZEOF_LIST_def)
  have a: "hash_alloc True True (\<lambda>_. True) 2 = (OK, Some (\<lparr>h_bucket = [[], []], h_bsize = 2\<rparr> :: nat hash))"
    unfolding hash_alloc_def c by simp
  note h = hash_alloc_array [of 2 "\<lambda>_. True" "\<lparr>h_bucket = [[], []], h_bsize = 2\<rparr> :: nat hash" "\<lambda>_ s. Some (False, s)" "()" 5 "Suc 0"]
  have "hash_ok (\<lparr>h_bucket = [[], []], h_bsize = 2\<rparr> :: nat hash)" using conjunct1 [OF h] a by simp
  then show ?thesis using conjunct2 [OF h] by blast
qed

lemma valid_size_loop_spec:
  "x \<le> 31 \<Longrightarrow> (\<forall>y<x. push_bit y (1 :: u32) < n) \<Longrightarrow>
   valid_size_loop n x \<le> 31 \<and> (\<forall>y<valid_size_loop n x. push_bit y (1 :: u32) < n) \<and>
   (valid_size_loop n x = 31 \<or> n \<le> push_bit (valid_size_loop n x) 1)"
proof (induction n x rule: valid_size_loop.induct)
  case (1 n x)
  show ?case
  proof (cases "push_bit x (1 :: u32) < n \<and> x < 31")
    case True
    then have "\<forall>y<Suc x. push_bit y (1 :: u32) < n" using 1(3) less_antisym by blast
    then have "valid_size_loop n (Suc x) \<le> 31 \<and> (\<forall>y<valid_size_loop n (Suc x). push_bit y (1 :: u32) < n) \<and>
      (valid_size_loop n (Suc x) = 31 \<or> n \<le> push_bit (valid_size_loop n (Suc x)) 1)"
      using "1.IH" True by simp
    moreover have "valid_size_loop n x = valid_size_loop n (Suc x)" using True by (subst valid_size_loop.simps) simp
    ultimately show ?thesis by simp
  next
    case False
    then have "valid_size_loop n x = x" by (subst valid_size_loop.simps) auto
    then show ?thesis using False 1(2,3) by auto
  qed
qed

lemma unat_push_bit_1: "x \<le> 31 \<Longrightarrow> unat (push_bit x (1 :: u32)) = 2 ^ x"
proof -
  assume "x \<le> 31"
  then have "(2 :: nat) ^ x \<le> 2 ^ 31" by (rule power_increasing) simp
  then have "unat (word_of_nat (2 ^ x) :: u32) = 2 ^ x" by (intro unat_of_nat_u32) simp
  then show ?thesis by (simp add: push_bit_eq_mult)
qed

text \<open>\<open>hash_valid_size\<close> gives the least power of two that is not below the requested size, which
  \<open>hash_alloc\<close> accepts; above 2^31 there is none, and it gives 2^31.\<close>

theorem hash_valid_size_least:
  "(\<exists>x. unat (hash_valid_size n) = 2 ^ x) \<and> (unat n \<le> 2 ^ 31 \<longrightarrow> n \<le> hash_valid_size n) \<and>
   (2 ^ 31 < unat n \<longrightarrow> unat (hash_valid_size n) = 2 ^ 31) \<and>
   (\<forall>y. unat n \<le> 2 ^ y \<longrightarrow> unat (hash_valid_size n) \<le> 2 ^ y) \<and>
   fst (hash_alloc True True (\<lambda>_. True) (hash_valid_size n)) = OK"
proof -
  define x where "x = valid_size_loop n 0"
  have x: "x \<le> 31" "\<And>y. y < x \<Longrightarrow> push_bit y (1 :: u32) < n" "x = 31 \<or> n \<le> push_bit x 1"
    using valid_size_loop_spec [of 0 n] unfolding x_def by auto
  have v: "hash_valid_size n = push_bit x 1" by (simp add: hash_valid_size_def x_def)
  have u: "unat (hash_valid_size n) = 2 ^ x" unfolding v by (rule unat_push_bit_1 [OF x(1)])
  have ge: "n \<le> hash_valid_size n" if "unat n \<le> 2 ^ 31"
    using x(3) that u v by (auto simp: word_le_nat_alt)
  have big: "x = 31" if "2 ^ 31 < unat n"
  proof (rule ccontr)
    assume "x \<noteq> 31"
    then have "n \<le> push_bit x 1" "x \<le> 31" using x by auto
    then have "unat n \<le> 2 ^ x" using u v by (simp add: word_le_nat_alt)
    moreover have "(2 :: nat) ^ x \<le> 2 ^ 31" using x(1) by (rule power_increasing) simp
    ultimately show False using that by simp
  qed
  have least: "(2 :: nat) ^ x \<le> 2 ^ y" if "unat n \<le> 2 ^ y" for y
  proof (rule ccontr)
    assume "\<not> (2 :: nat) ^ x \<le> 2 ^ y"
    then have "y < x" by simp
    then have "unat (push_bit y (1 :: u32)) < unat n" using x(2) by (simp add: word_less_nat_alt)
    then show False using that \<open>y < x\<close> x(1) unat_push_bit_1 [of y] by simp
  qed
  have "push_bit x (1 :: u32) AND (push_bit x 1 - 1) = 0"
  proof -
    have "push_bit x (1 :: u32) - 1 = mask x" by (simp add: mask_eq_exp_minus_1 push_bit_eq_mult)
    then show ?thesis 
      by (simp only:) (rule bit_word_eqI, auto simp: bit_and_iff bit_exp_iff bit_mask_iff)
  qed
  moreover have "push_bit x (1 :: u32) \<noteq> 0" using u v by (metis unat_0 power_not_zero zero_neq_numeral)
  ultimately have "fst (hash_alloc True True (\<lambda>_. True) (hash_valid_size n)) = OK" by (simp add: hash_alloc_def v)
  then show ?thesis using u ge big least by auto
qed

lemma hash_valid_size_least_witness:
  "5 \<le> hash_valid_size 5 \<and> unat (hash_valid_size 5) \<le> 8 \<and> unat (hash_valid_size 0x80000001) = 2 ^ 31"
  using hash_valid_size_least [where n = 5] hash_valid_size_least [where n = "0x80000001"]
  by (auto dest: spec [of _ 3])

end
