(* ===== verification/Rtcp_Sess.thy ===== *)
theory Rtcp_Sess
  imports Rtcp_Pkt Re_Hash Rtp_Source
begin

text \<open>
  The RTCP session of libre (\<open>native/re/src/rtp/sess.c\<close>) with its members
  (\<open>native/re/src/rtp/member.c\<close>), the NTP arithmetic (\<open>native/re/src/rtp/ntp.c\<close>), the short messages and
  names of \<open>native/re/src/rtp/rtcp.c\<close> and the receive loop of \<open>native/re/src/rtp/rtp.c\<close>.

  A member is an object in a store: the table of the session holds addresses, a function given the
  pointer changes the object in place, and a pointer to a freed object has no object.  The result
  \<open>None\<close> of an operation is undefined behaviour: a freed object, an index out of range, a signed
  overflow.  The clocks are arguments: \<open>jfs\<close> is \<open>tmr_jiffies\<close> (ms), \<open>jfs_rt\<close> the real time (us); \<open>usec2frac\<close>
  is the floating point product of \<open>unix2ntp\<close>.  A new object comes from \<open>new\<close>, which knows the
  addresses in use.
\<close>

section \<open>NTP time\<close>

record rtp_ntp_time =
  ntp_hi :: u32
  ntp_lo :: u32

definition UNIX_NTP_OFFSET :: u32 where
  "UNIX_NTP_OFFSET = 0x83aa7e80"

definition unix2ntp :: "(u64 \<Rightarrow> u32) \<Rightarrow> u64 \<Rightarrow> u64 \<Rightarrow> rtp_ntp_time" where
  "unix2ntp usec2frac sec usec = \<lparr>ntp_hi = ucast sec + UNIX_NTP_OFFSET, ntp_lo = usec2frac usec\<rparr>"

definition ntp2unix :: "(u32 \<Rightarrow> u32) \<Rightarrow> rtp_ntp_time \<Rightarrow> u32 \<times> u32" where
  "ntp2unix frac2usec ntp = (ntp_hi ntp - UNIX_NTP_OFFSET, frac2usec (ntp_lo ntp))"

definition ntp_time_get :: "(u64 \<Rightarrow> u32) \<Rightarrow> u64 \<Rightarrow> rtp_ntp_time \<times> u64" where
  "ntp_time_get usec2frac jfs_rt = (unix2ntp usec2frac (jfs_rt div 1000000) (jfs_rt mod 1000000), jfs_rt)"

definition ntp_compact :: "rtp_ntp_time option \<Rightarrow> u32" where
  "ntp_compact ntp =
     (case ntp of
        None \<Rightarrow> 0
      | Some n \<Rightarrow> push_bit 16 (ntp_hi n AND 0xffff) OR drop_bit 16 (ntp_lo n))"

definition ntp_compact2us :: "u32 \<Rightarrow> u64" where
  "ntp_compact2us ntpc =
     (let hi = drop_bit 16 ntpc AND 0xffff;
          lo = push_bit 16 (ntpc AND 0xffff)
      in 1000000 * ucast hi + drop_bit 32 (1000000 * ucast lo))"

section \<open>Members\<close>

type_synonym addr = nat

record rtp_member =
  mbr_s :: "rtp_source option"
  mbr_src :: u32
  mbr_cum_lost :: int
  mbr_jit :: u32
  mbr_rtt :: u32

type_synonym store = "addr \<Rightarrow> rtp_member option"

definition zero_member :: rtp_member where
  "zero_member = \<lparr>mbr_s = None, mbr_src = 0, mbr_cum_lost = 0, mbr_jit = 0, mbr_rtt = 0\<rparr>"

text \<open>\<open>mem_zalloc\<close> gives an address that is not in use, or no address.\<close>

type_synonym new_addr = "addr set \<Rightarrow> addr option"

definition member_add ::
    "new_addr \<Rightarrow> addr hash \<Rightarrow> store \<Rightarrow> u32 \<Rightarrow> (addr option \<times> addr hash \<times> store) option" where
  "member_add new ht mem src =
     (case new (dom mem) of
        None \<Rightarrow> Some (None, ht, mem)
      | Some a \<Rightarrow> do {
          h \<leftarrow> hash_append (Some ht) src (Some a);
          ht \<leftarrow> h;
          Some (Some a, ht, mem(a \<mapsto> zero_member\<lparr>mbr_src := src\<rparr>)) })"

definition hash_cmp_handler :: "store \<Rightarrow> u32 \<Rightarrow> (addr, unit) apply_h" where
  "hash_cmp_handler mem src a s = map_option (\<lambda>m. (mbr_src m = src, s)) (mem a)"

definition member_find :: "addr hash \<Rightarrow> store \<Rightarrow> u32 \<Rightarrow> addr option option" where
  "member_find ht mem src = map_option fst (hash_lookup (Some ht) src (Some (hash_cmp_handler mem src)) ())"

text \<open>\<open>mem_deref\<close> of a member runs its destructor, which unlinks it and releases its source state.\<close>

definition member_free :: "addr \<Rightarrow> addr hash \<times> store \<Rightarrow> addr hash \<times> store" where
  "member_free a = (\<lambda>(ht, mem). (hash_unlink a ht, mem(a := None)))"

section \<open>The session\<close>

definition RTCP_INTERVAL :: u32 where "RTCP_INTERVAL = 5000"
definition MAX_MEMBERS :: u32 where "MAX_MEMBERS = 8"

text \<open>\<open>ss_tmr\<close>: the delay with which the report timer is armed; the lock is held by one thread at a time
  and has no state here.\<close>

record rtcp_sess =
  ss_rs :: "rtp_sock option"
  ss_members :: "addr hash"
  ss_mem :: store
  ss_tmr :: "u32 option"
  ss_cname :: "string option"
  ss_memberc :: u32
  ss_senderc :: u32
  ss_srate_tx :: u32
  ss_srate_rx :: u32
  ss_interval :: u32
  ss_txstat :: txstat

definition get_member :: "new_addr \<Rightarrow> rtcp_sess \<Rightarrow> u32 \<Rightarrow> (addr option \<times> rtcp_sess) option" where
  "get_member new s src = do {
     mbr \<leftarrow> member_find (ss_members s) (ss_mem s) src;
     if mbr \<noteq> None then Some (mbr, s)
     else if ss_memberc s \<ge> MAX_MEMBERS then Some (None, s)
     else do {
       (mbr, ht, mem) \<leftarrow> member_add new (ss_members s) (ss_mem s) src;
       let s = s\<lparr>ss_members := ht, ss_mem := mem\<rparr>;
       if mbr = None then Some (None, s)
       else Some (mbr, s\<lparr>ss_memberc := ss_memberc s + 1\<rparr>)
     } }"

text \<open>\<open>MAX((int)(a_us - lsr_us - dlsr_us), 0)\<close>: the low 32 bits, read as an \<open>int\<close>.\<close>

definition rtcp_calc_rtt :: "(u64 \<Rightarrow> u32) \<Rightarrow> u64 \<Rightarrow> u32 \<Rightarrow> u32 \<Rightarrow> u32" where
  "rtcp_calc_rtt usec2frac jfs_rt lsr dlsr =
     (let a_us = ntp_compact2us (ntp_compact (Some (fst (ntp_time_get usec2frac jfs_rt))));
          lsr_us = ntp_compact2us lsr;
          dlsr_us = 1000000 * ucast dlsr div 65536
      in word_of_int (max (sint (ucast (a_us - lsr_us - dlsr_us) :: u32)) 0))"

definition handle_rr_block :: "(u64 \<Rightarrow> u32) \<Rightarrow> u64 \<Rightarrow> u32 \<Rightarrow> rtcp_rr \<Rightarrow> rtp_member \<Rightarrow> rtp_member" where
  "handle_rr_block usec2frac jfs_rt srate_tx rr mbr =
     (let mbr = mbr\<lparr>mbr_cum_lost := sint (rr_lost rr)\<rparr>;
          mbr = (if srate_tx \<noteq> 0 then mbr\<lparr>mbr_jit := 1000000 * rr_jitter rr div srate_tx\<rparr> else mbr)
      in if rr_lsr rr \<noteq> 0 \<and> rr_dlsr rr \<noteq> 0
         then mbr\<lparr>mbr_rtt := rtcp_calc_rtt usec2frac jfs_rt (rr_lsr rr) (rr_dlsr rr)\<rparr> else mbr)"

text \<open>\<open>for (i=0; i<msg->hdr.count; i++)\<close> over the blocks; past the vector there is nothing to read.\<close>

fun handle_blocks :: "(rtcp_rr \<Rightarrow> rtp_member \<Rightarrow> rtp_member) \<Rightarrow> rtcp_rr list \<Rightarrow> nat \<Rightarrow> nat \<Rightarrow> rtp_member \<Rightarrow> rtp_member option" where
  "handle_blocks h rrv i 0 mbr = Some mbr"
| "handle_blocks h rrv i (Suc n) mbr =
     (if i < length rrv then handle_blocks h rrv (Suc i) n (h (rrv ! i) mbr) else None)"

text \<open>The object at an address, changed in place.\<close>

definition upd_mbr :: "addr \<Rightarrow> (rtp_member \<Rightarrow> rtp_member option) \<Rightarrow> rtcp_sess \<Rightarrow> rtcp_sess option" where
  "upd_mbr a f s = do { m \<leftarrow> ss_mem s a; m \<leftarrow> f m; Some (s\<lparr>ss_mem := (ss_mem s)(a \<mapsto> m)\<rparr>) }"

definition handle_incoming_rr ::
    "new_addr \<Rightarrow> (u64 \<Rightarrow> u32) \<Rightarrow> u64 \<Rightarrow> rtcp_msg \<Rightarrow> rtcp_sess \<Rightarrow> rtcp_sess option" where
  "handle_incoming_rr new usec2frac jfs_rt msg s =
     (case rm_r msg of
        Body_RR ssrc rrv \<Rightarrow> do {
          (mbr, s) \<leftarrow> get_member new s ssrc;
          case mbr of
            None \<Rightarrow> Some s
          | Some a \<Rightarrow>
              upd_mbr a (handle_blocks (handle_rr_block usec2frac jfs_rt (ss_srate_tx s)) rrv 0
                (unat (rh_count (rm_hdr msg)))) s
        }
      | _ \<Rightarrow> None)"

definition save_sr :: "u64 \<Rightarrow> u32 \<Rightarrow> u32 \<Rightarrow> u32 \<Rightarrow> u32 \<Rightarrow> u32 \<Rightarrow> rtp_member \<Rightarrow> rtp_member" where
  "save_sr jfs ntp_sec ntp_frac rtp_ts psent osent mbr =
     mbr\<lparr>mbr_s := map_option (\<lambda>src. src\<lparr>s_sr_recv := jfs, s_last_sr_hi := ntp_sec, s_last_sr_lo := ntp_frac,
                                        s_rtp_ts := rtp_ts, s_psent := psent, s_osent := osent\<rparr>) (mbr_s mbr)\<rparr>"

definition handle_incoming_sr ::
    "new_addr \<Rightarrow> (u64 \<Rightarrow> u32) \<Rightarrow> u64 \<Rightarrow> u64 \<Rightarrow> rtcp_msg \<Rightarrow> rtcp_sess \<Rightarrow> rtcp_sess option" where
  "handle_incoming_sr new usec2frac jfs jfs_rt msg s =
     (case rm_r msg of
        Body_SR ssrc ntp_sec ntp_frac rtp_ts psent osent rrv \<Rightarrow> do {
          (mbr, s) \<leftarrow> get_member new s ssrc;
          case mbr of
            None \<Rightarrow> Some s
          | Some a \<Rightarrow>
              upd_mbr a (\<lambda>m. handle_blocks (handle_rr_block usec2frac jfs_rt (ss_srate_tx s)) rrv 0
                (unat (rh_count (rm_hdr msg))) (save_sr jfs ntp_sec ntp_frac rtp_ts psent osent m)) s
        }
      | _ \<Rightarrow> None)"

fun bye_loop :: "u32 list \<Rightarrow> nat \<Rightarrow> nat \<Rightarrow> rtcp_sess \<Rightarrow> rtcp_sess option" where
  "bye_loop srcv i 0 s = Some s"
| "bye_loop srcv i (Suc n) s =
     (if i < length srcv
      then do {
        mbr \<leftarrow> member_find (ss_members s) (ss_mem s) (srcv ! i);
        case mbr of
          None \<Rightarrow> bye_loop srcv (Suc i) n s
        | Some a \<Rightarrow> do {
            m \<leftarrow> ss_mem s a;
            let s = (if mbr_s m \<noteq> None then s\<lparr>ss_senderc := ss_senderc s - 1\<rparr> else s);
            let s = s\<lparr>ss_memberc := ss_memberc s - 1\<rparr>;
            let (ht, mem) = member_free a (ss_members s, ss_mem s);
            bye_loop srcv (Suc i) n (s\<lparr>ss_members := ht, ss_mem := mem\<rparr>)
          }
      }
      else None)"

definition handle_incoming_bye :: "rtcp_msg \<Rightarrow> rtcp_sess \<Rightarrow> rtcp_sess option" where
  "handle_incoming_bye msg s =
     (case rm_r msg of
        Body_BYE srcv reason \<Rightarrow> bye_loop srcv 0 (unat (rh_count (rm_hdr msg))) s
      | _ \<Rightarrow> None)"

definition rtcp_handler ::
    "new_addr \<Rightarrow> (u64 \<Rightarrow> u32) \<Rightarrow> u64 \<Rightarrow> u64 \<Rightarrow> rtcp_msg option \<Rightarrow> rtcp_sess option \<Rightarrow> rtcp_sess option option" where
  "rtcp_handler new usec2frac jfs jfs_rt msg sess =
     (case (sess, msg) of
        (Some s, Some m) \<Rightarrow>
          if rh_pt (rm_hdr m) = rtcp_type_num RTCP_SR then map_option Some (handle_incoming_sr new usec2frac jfs jfs_rt m s)
          else if rh_pt (rm_hdr m) = rtcp_type_num RTCP_RR then map_option Some (handle_incoming_rr new usec2frac jfs_rt m s)
          else if rh_pt (rm_hdr m) = rtcp_type_num RTCP_BYE then map_option Some (handle_incoming_bye m s)
          else Some sess
      | _ \<Rightarrow> Some sess)"

text \<open>\<open>lock_err\<close> is the result of \<open>mutex_alloc\<close>.  A session that fails half way is freed.\<close>

definition zero_txstat :: txstat where
  "zero_txstat = \<lparr>tx_psent = 0, tx_osent = 0, tx_jfs_rt_ref = 0, tx_ts_ref = 0, tx_ts_synced = False\<rparr>"

definition rtcp_sess_alloc ::
    "bool \<Rightarrow> bool \<Rightarrow> errno \<Rightarrow> bool \<Rightarrow> (u32 \<Rightarrow> bool) \<Rightarrow> rtp_sock option \<Rightarrow> errno \<times> rtcp_sess option" where
  "rtcp_sess_alloc sessp struct_ok lock_err table_ok zalloc rs =
     (if \<not> sessp then (EINVAL, None)
      else if \<not> struct_ok then (ENOMEM, None)
      else if lock_err \<noteq> 0 then (lock_err, None)
      else
        let (err, ht) = hash_alloc True table_ok zalloc MAX_MEMBERS
        in case ht of
             Some ht \<Rightarrow>
               (if err \<noteq> 0 then (err, None)
                else (OK, Some \<lparr>ss_rs = rs, ss_members = ht, ss_mem = (\<lambda>_. None), ss_tmr = None, ss_cname = None,
                  ss_memberc = 0, ss_senderc = 0, ss_srate_tx = 0, ss_srate_rx = 0, ss_interval = RTCP_INTERVAL,
                  ss_txstat = zero_txstat\<rparr>))
           | None \<Rightarrow> (err, None))"

definition rtcp_set_interval :: "u32 \<Rightarrow> rtcp_sess option \<Rightarrow> rtcp_sess option" where
  "rtcp_set_interval n sess = map_option (\<lambda>s. s\<lparr>ss_interval := n\<rparr>) sess"

definition rtcp_set_srate :: "u32 \<Rightarrow> u32 \<Rightarrow> rtcp_sess option \<Rightarrow> rtcp_sess option" where
  "rtcp_set_srate srate_tx srate_rx sess = map_option (\<lambda>s. s\<lparr>ss_srate_tx := srate_tx, ss_srate_rx := srate_rx\<rparr>) sess"

definition rtcp_set_srate_tx :: "u32 \<Rightarrow> rtcp_sess option \<Rightarrow> rtcp_sess option" where
  "rtcp_set_srate_tx srate_tx sess = map_option (\<lambda>s. s\<lparr>ss_srate_tx := srate_tx\<rparr>) sess"

definition rtcp_set_srate_rx :: "u32 \<Rightarrow> rtcp_sess option \<Rightarrow> rtcp_sess option" where
  "rtcp_set_srate_rx srate_rx sess = map_option (\<lambda>s. s\<lparr>ss_srate_rx := srate_rx\<rparr>) sess"

definition schedule :: "rtcp_sess \<Rightarrow> rtcp_sess" where
  "schedule s = s\<lparr>ss_tmr := Some (ss_interval s)\<rparr>"

text \<open>The old name is gone even when the new one cannot be copied.\<close>

definition str_dup :: "bool \<Rightarrow> string option \<Rightarrow> errno \<times> string option" where
  "str_dup mem_ok src = (case src of None \<Rightarrow> (EINVAL, None) | Some v \<Rightarrow> if mem_ok then (OK, Some v) else (ENOMEM, None))"

definition rtcp_enable :: "bool \<Rightarrow> bool \<Rightarrow> string option \<Rightarrow> rtcp_sess option \<Rightarrow> errno \<times> rtcp_sess option" where
  "rtcp_enable mem_ok enabled cname sess =
     (case sess of
        None \<Rightarrow> (EINVAL, None)
      | Some s \<Rightarrow>
          let (err, cn) = str_dup mem_ok cname;
              s = s\<lparr>ss_cname := cn\<rparr>
          in if err \<noteq> 0 then (err, Some s)
             else (OK, Some (if enabled then schedule s else s\<lparr>ss_tmr := None\<rparr>)))"

section \<open>Reports\<close>

definition calc_lsr :: "rtp_ntp_time \<Rightarrow> u32" where
  "calc_lsr last_sr = (if ntp_hi last_sr \<noteq> 0 then ntp_compact (Some last_sr) else 0)"

definition calc_dlsr :: "u64 \<Rightarrow> u64 \<Rightarrow> u32" where
  "calc_dlsr jfs sr_recv = (if sr_recv \<noteq> 0 then ucast (65536 * (jfs - sr_recv) div 1000) else 0)"

definition mk_rr :: "u64 \<Rightarrow> u32 \<Rightarrow> u8 \<Rightarrow> rtp_source \<Rightarrow> rtcp_rr" where
  "mk_rr jfs ssrc fraction src =
     \<lparr>rr_ssrc = ssrc, rr_fraction = fraction, rr_lost = word_of_int (rtp_source_calc_lost src),
      rr_last_seq = s_cycles src OR ucast (s_max_seq src), rr_jitter = drop_bit 4 (s_jitter src),
      rr_lsr = calc_lsr \<lparr>ntp_hi = s_last_sr_hi src, ntp_lo = s_last_sr_lo src\<rparr>,
      rr_dlsr = calc_dlsr jfs (s_sr_recv src)\<rparr>"

definition sender_apply_handler :: "allocator \<Rightarrow> u64 \<Rightarrow> (addr, store \<times> mbuf option) apply_h" where
  "sender_apply_handler mm jfs a = (\<lambda>(mem, mb). do {
     m \<leftarrow> mem a;
     case mbr_s m of
       None \<Rightarrow> Some (False, mem, mb)
     | Some src \<Rightarrow> do {
         (fraction, src) \<leftarrow> rtp_source_calc_fraction_lost src;
         (err, mb) \<leftarrow> rtcp_rr_encode mm mb (Some (mk_rr jfs (mbr_src m) fraction src));
         Some (err \<noteq> 0, mem(a \<mapsto> m\<lparr>mbr_s := Some src\<rparr>), mb)
       } })"

definition encode_handler :: "allocator \<Rightarrow> u64 \<Rightarrow> addr hash \<Rightarrow> store encoder" where
  "encode_handler mm jfs ht st = do {
     (le, st) \<leftarrow> hash_apply (Some ht) (Some (sender_apply_handler mm jfs)) st;
     Some (if le \<noteq> None then ENOMEM else OK, st) }"

definition mk_sr ::
    "allocator \<Rightarrow> (u64 \<Rightarrow> u32) \<Rightarrow> u64 \<Rightarrow> u64 \<Rightarrow> rtcp_sess \<Rightarrow> mbuf option \<Rightarrow> (errno \<times> rtcp_sess \<times> mbuf option) option" where
  "mk_sr mm usec2frac jfs jfs_rt s mb = do {
     let tx = ss_txstat s;
     let s = s\<lparr>ss_txstat := tx\<lparr>tx_ts_synced := False\<rparr>\<rparr>;
     (err, mem, mb) \<leftarrow>
       (if tx_jfs_rt_ref tx \<noteq> 0
        then
          let (ntp, jfs_rt) = ntp_time_get usec2frac jfs_rt;
              dur = jfs_rt - tx_jfs_rt_ref tx;
              rtp_ts = ucast (ucast (tx_ts_ref tx) + dur * ucast (ss_srate_tx s) div 1000000)
          in rtcp_encode mm mb RTCP_SR (ss_senderc s)
               (Args_SR (rtp_sess_ssrc (ss_rs s)) (ntp_hi ntp) (ntp_lo ntp) rtp_ts (tx_psent tx) (tx_osent tx)
                 (Some (encode_handler mm jfs (ss_members s)))) (ss_mem s)
        else
          rtcp_encode mm mb RTCP_RR (ss_senderc s)
            (Args_RR (rtp_sess_ssrc (ss_rs s)) (Some (encode_handler mm jfs (ss_members s)))) (ss_mem s));
     Some (err, s\<lparr>ss_mem := mem\<rparr>, mb) }"

definition sdes_encode_handler :: "allocator \<Rightarrow> rtcp_sess \<Rightarrow> unit encoder" where
  "sdes_encode_handler mm s = wr (\<lambda>mb. rtcp_sdes_encode mm mb (rtp_sess_ssrc (ss_rs s)) [(1, ss_cname s)])"

definition mk_sdes :: "allocator \<Rightarrow> rtcp_sess \<Rightarrow> mbuf option \<Rightarrow> (errno \<times> mbuf option) option" where
  "mk_sdes mm s mb =
     map_option (\<lambda>(err, _, mb). (err, mb))
       (rtcp_encode mm mb RTCP_SDES 1 (Args_SDES (Some (sdes_encode_handler mm s))) ())"

text \<open>The sockets and the peer address of the RTP socket, as far as \<open>rtcp_send\<close> looks at them; the datagram
  handed to the transport is returned.\<close>

record net =
  nt_sock_rtp :: bool
  nt_sock_rtcp :: bool
  nt_peer_set :: bool
  nt_udp_send :: "u8 list \<Rightarrow> errno"

definition rtcp_send :: "net \<Rightarrow> rtp_sock option \<Rightarrow> mbuf option \<Rightarrow> errno \<times> u8 list option" where
  "rtcp_send net rs mb =
     (case rs of
        None \<Rightarrow> (EINVAL, None)
      | Some r \<Rightarrow>
          let sock = (if rs_rtcp_mux r then nt_sock_rtp net else nt_sock_rtcp net)
          in if \<not> sock \<or> \<not> nt_peer_set net then (EINVAL, None)
             else (nt_udp_send net (pending mb), Some (pending mb)))"

definition RTCP_HEADROOM :: u32 where "RTCP_HEADROOM = 4"

definition at_headroom :: "mbuf option \<Rightarrow> mbuf option" where
  "at_headroom mb = map_option (\<lambda>m. m\<lparr>mb_pos := RTCP_HEADROOM\<rparr>) mb"

text \<open>\<open>err = mk_sr(...); err |= mk_sdes(...)\<close>: the description is appended whatever the report gave.\<close>

definition send_rtcp_report ::
    "allocator \<Rightarrow> bool \<Rightarrow> net \<Rightarrow> (u64 \<Rightarrow> u32) \<Rightarrow> u64 \<Rightarrow> u64 \<Rightarrow> rtcp_sess \<Rightarrow>
     (errno \<times> rtcp_sess \<times> u8 list option) option" where
  "send_rtcp_report mm zalloc_ok net usec2frac jfs jfs_rt s =
     (case mbuf_alloc mm zalloc_ok 512 of
        None \<Rightarrow> Some (ENOMEM, s, None)
      | Some m \<Rightarrow> do {
          (err1, s, mb) \<leftarrow> mk_sr mm usec2frac jfs jfs_rt s (at_headroom (Some m));
          (err2, mb) \<leftarrow> mk_sdes mm s mb;
          let err = err1 OR err2;
          if err \<noteq> 0 then Some (err, s, None)
          else
            let (err, dg) = rtcp_send net (ss_rs s) (at_headroom mb)
            in Some (err, s, dg)
        })"

definition send_bye_packet ::
    "allocator \<Rightarrow> bool \<Rightarrow> net \<Rightarrow> rtcp_sess \<Rightarrow> (errno \<times> u8 list option) option" where
  "send_bye_packet mm zalloc_ok net s =
     (case mbuf_alloc mm zalloc_ok 512 of
        None \<Rightarrow> Some (ENOMEM, None)
      | Some m \<Rightarrow> do {
          (err1, _, mb) \<leftarrow> rtcp_encode mm (at_headroom (Some m)) RTCP_BYE 1
             (Args_BYE [rtp_sess_ssrc (ss_rs s)] (Some ''Adjo'')) ();
          (err2, mb) \<leftarrow> mk_sdes mm s mb;
          let err = err1 OR err2;
          if err \<noteq> 0 then Some (err, None)
          else Some (rtcp_send net (ss_rs s) (at_headroom mb))
        })"

definition timeout ::
    "allocator \<Rightarrow> bool \<Rightarrow> net \<Rightarrow> (u64 \<Rightarrow> u32) \<Rightarrow> u64 \<Rightarrow> u64 \<Rightarrow> rtcp_sess \<Rightarrow> (rtcp_sess \<times> u8 list option) option" where
  "timeout mm zalloc_ok net usec2frac jfs jfs_rt s = do {
     (err, s, dg) \<leftarrow> send_rtcp_report mm zalloc_ok net usec2frac jfs jfs_rt s;
     Some (schedule s, dg) }"

text \<open>The destructor says goodbye when the session has a name, stops the timer and frees the members.\<close>

definition sess_destructor ::
    "allocator \<Rightarrow> bool \<Rightarrow> net \<Rightarrow> rtcp_sess \<Rightarrow> (rtcp_sess \<times> u8 list option) option" where
  "sess_destructor mm zalloc_ok net s = do {
     (err, dg) \<leftarrow> (if ss_cname s \<noteq> None then send_bye_packet mm zalloc_ok net s else Some (OK, None));
     (ht, freed) \<leftarrow> hash_flush (Some (ss_members s));
     ht \<leftarrow> ht;
     Some (s\<lparr>ss_tmr := None, ss_cname := None, ss_members := ht,
              ss_mem := (\<lambda>a. if a \<in> set freed then None else ss_mem s a)\<rparr>, dg) }"

section \<open>Media\<close>

definition sess_tx_rtp :: "u32 \<Rightarrow> u64 \<Rightarrow> u32 \<Rightarrow> rtcp_sess \<Rightarrow> rtcp_sess" where
  "sess_tx_rtp ts jfs_rt payload_size s =
     (case rtcp_sess_tx_rtp (Some (ss_txstat s)) ts jfs_rt payload_size of
        None \<Rightarrow> s
      | Some t \<Rightarrow> s\<lparr>ss_txstat := t\<rparr>)"

definition rx_source :: "u64 \<Rightarrow> u32 \<Rightarrow> rtp_header \<Rightarrow> u32 \<Rightarrow> rtp_source \<Rightarrow> (rtp_source \<times> rtp_header) option" where
  "rx_source jfs srate_rx hdr payload_size src = do {
     let src = snd (rtp_source_update_seq (h_seq hdr) src);
     (src, hdr) \<leftarrow>
       (if srate_rx \<noteq> 0
        then
          let hdr = hdr\<lparr>h_ts_arrive := jfs * ucast srate_rx div 1000\<rparr>
          in if h_ts hdr \<noteq> s_last_rtp_ts src
             then map_option (\<lambda>src. (src, hdr)) (rtp_source_calc_jitter (h_ts hdr) (ucast (h_ts_arrive hdr)) src)
             else Some (src, hdr)
        else Some (src, hdr));
     Some (src\<lparr>s_last_rtp_ts := h_ts hdr, s_rtp_rx_bytes := s_rtp_rx_bytes src + payload_size\<rparr>, hdr) }"

definition rtcp_sess_rx_rtp ::
    "new_addr \<Rightarrow> bool \<Rightarrow> u64 \<Rightarrow> rtp_header \<Rightarrow> u32 \<Rightarrow> rtcp_sess option \<Rightarrow> (rtcp_sess option \<times> rtp_header) option" where
  "rtcp_sess_rx_rtp new zalloc_ok jfs hdr payload_size sess =
     (case sess of
        None \<Rightarrow> Some (None, hdr)
      | Some s \<Rightarrow> do {
          (mbr, s) \<leftarrow> get_member new s (h_ssrc hdr);
          case mbr of
            None \<Rightarrow> Some (Some s, hdr)
          | Some a \<Rightarrow> do {
              m \<leftarrow> ss_mem s a;
              let (m, s) = (if mbr_s m = None \<and> zalloc_ok
                            then (m\<lparr>mbr_s := Some (rtp_source_init_seq (h_seq hdr) zero_source)\<rparr>,
                                  s\<lparr>ss_senderc := ss_senderc s + 1\<rparr>)
                            else (m, s));
              case mbr_s m of
                None \<Rightarrow> Some (Some s, hdr)
              | Some src \<Rightarrow> do {
                  (src, hdr) \<leftarrow> rx_source jfs (ss_srate_rx s) hdr payload_size src;
                  Some (Some (s\<lparr>ss_mem := (ss_mem s)(a \<mapsto> m\<lparr>mbr_s := Some src\<rparr>)\<rparr>), hdr)
                }
            }
        })"

record rtcp_stats_t =
  st_tx_sent :: u32
  st_tx_lost :: int
  st_tx_jit :: u32
  st_rx_sent :: u32
  st_rx_lost :: int
  st_rx_jit :: u32
  st_rtt :: u32

definition rtcp_stats :: "u32 \<Rightarrow> rtcp_sess option \<Rightarrow> (errno \<times> rtcp_stats_t option) option" where
  "rtcp_stats ssrc sess =
     (case sess of
        None \<Rightarrow> Some (EINVAL, None)
      | Some s \<Rightarrow> do {
          mbr \<leftarrow> member_find (ss_members s) (ss_mem s) ssrc;
          case mbr of
            None \<Rightarrow> Some (ENOENT, None)
          | Some a \<Rightarrow> do {
              m \<leftarrow> ss_mem s a;
              let st = \<lparr>st_tx_sent = tx_psent (ss_txstat s), st_tx_lost = mbr_cum_lost m, st_tx_jit = mbr_jit m,
                        st_rx_sent = 0, st_rx_lost = 0, st_rx_jit = 0, st_rtt = mbr_rtt m\<rparr>;
              case mbr_s m of
                None \<Rightarrow> Some (OK, Some st)
              | Some src \<Rightarrow>
                  Some (OK, Some (st\<lparr>st_rx_sent := s_received src, st_rx_lost := rtp_source_calc_lost src,
                    st_rx_jit := (if ss_srate_rx s \<noteq> 0
                                  then 1000000 * drop_bit 4 (s_jitter src) div ss_srate_rx s else 0)\<rparr>))
            }
        })"

section \<open>Receiving\<close>

text \<open>The loop of \<open>rtcp_recv_handler\<close>: message after message, up to the first that is not one; the messages
  are handed to the application.  Every message takes at least its header off the buffer.\<close>

partial_function (option) recv_loop ::
    "(nat \<Rightarrow> mem_oracle) \<Rightarrow> new_addr \<Rightarrow> (u64 \<Rightarrow> u32) \<Rightarrow> u64 \<Rightarrow> u64 \<Rightarrow> nat \<Rightarrow> mbuf option \<Rightarrow> rtcp_sess option \<Rightarrow>
     (rtcp_sess option \<times> rtcp_msg list) option" where
  "recv_loop mem new usec2frac jfs jfs_rt i mb sess =
     Option.bind (rtcp_decode (mem i) True mb) (\<lambda>r.
       if fst (fst r) \<noteq> 0 then Some (sess, [])
       else
         Option.bind (rtcp_handler new usec2frac jfs jfs_rt (snd (fst r)) sess) (\<lambda>sess.
           Option.bind (recv_loop mem new usec2frac jfs jfs_rt (Suc i) (snd r) sess) (\<lambda>q.
             Some (fst q, (case snd (fst r) of None \<Rightarrow> [] | Some m \<Rightarrow> [m]) @ snd q))))"

definition rtcp_recv_handler ::
    "(nat \<Rightarrow> mem_oracle) \<Rightarrow> new_addr \<Rightarrow> (u64 \<Rightarrow> u32) \<Rightarrow> u64 \<Rightarrow> u64 \<Rightarrow> mbuf option \<Rightarrow> rtcp_sess option \<Rightarrow>
     (rtcp_sess option \<times> rtcp_msg list) option" where
  "rtcp_recv_handler mem new usec2frac jfs jfs_rt mb sess = recv_loop mem new usec2frac jfs jfs_rt 0 mb sess"

section \<open>Short messages\<close>

definition rtcp_quick_send ::
    "allocator \<Rightarrow> bool \<Rightarrow> net \<Rightarrow> rtp_sock option \<Rightarrow> rtcp_type \<Rightarrow> u32 \<Rightarrow> unit rtcp_args \<Rightarrow> (errno \<times> u8 list option) option" where
  "rtcp_quick_send mm zalloc_ok net rs type count args =
     (case mbuf_alloc mm zalloc_ok 32 of
        None \<Rightarrow> Some (ENOMEM, None)
      | Some m \<Rightarrow> do {
          (err, _, mb) \<leftarrow> rtcp_vencode mm (at_headroom (Some m)) type count args ();
          Some (if err = 0 then rtcp_send net rs (at_headroom mb) else (err, None))
        })"

definition rtcp_send_app ::
    "allocator \<Rightarrow> bool \<Rightarrow> net \<Rightarrow> rtp_sock option \<Rightarrow> u8 list \<Rightarrow> u8 list option \<Rightarrow> (errno \<times> u8 list option) option" where
  "rtcp_send_app mm ok net rs name data =
     rtcp_quick_send mm ok net rs RTCP_APP 0 (Args_APP (rtp_sess_ssrc rs) name data)"

definition rtcp_send_fir ::
    "allocator \<Rightarrow> bool \<Rightarrow> net \<Rightarrow> rtp_sock option \<Rightarrow> u32 \<Rightarrow> (errno \<times> u8 list option) option" where
  "rtcp_send_fir mm ok net rs ssrc = rtcp_quick_send mm ok net rs RTCP_FIR 0 (Args_FIR ssrc)"

definition rtcp_send_nack ::
    "allocator \<Rightarrow> bool \<Rightarrow> net \<Rightarrow> rtp_sock option \<Rightarrow> u16 \<Rightarrow> u16 \<Rightarrow> (errno \<times> u8 list option) option" where
  "rtcp_send_nack mm ok net rs fsn blp =
     rtcp_quick_send mm ok net rs RTCP_NACK 0 (Args_NACK (rtp_sess_ssrc rs) (ucast fsn) (ucast blp))"

definition rtcp_send_pli ::
    "allocator \<Rightarrow> bool \<Rightarrow> net \<Rightarrow> rtp_sock option \<Rightarrow> u32 \<Rightarrow> (errno \<times> u8 list option) option" where
  "rtcp_send_pli mm ok net rs fb_ssrc =
     rtcp_quick_send mm ok net rs RTCP_PSFB 1 (Args_FB (rtp_sess_ssrc rs) fb_ssrc None)"

definition encode_fir_rfc5104_fci :: "allocator \<Rightarrow> u32 \<Rightarrow> u8 \<Rightarrow> unit encoder" where
  "encode_fir_rfc5104_fci mm ssrc seq_n =
     wr (or_err (\<lambda>mb. mbuf_write_u32 mm mb (htonl ssrc))
       (or_err (\<lambda>mb. mbuf_write_u8 mm mb seq_n)
         (or_err (\<lambda>mb. mbuf_write_u8 mm mb 0)
           (or_err (\<lambda>mb. mbuf_write_u8 mm mb 0) (\<lambda>mb. mbuf_write_u8 mm mb 0)))))"

definition rtcp_send_fir_rfc5104 ::
    "allocator \<Rightarrow> bool \<Rightarrow> net \<Rightarrow> rtp_sock option \<Rightarrow> u32 \<Rightarrow> u8 \<Rightarrow> (errno \<times> u8 list option) option" where
  "rtcp_send_fir_rfc5104 mm ok net rs ssrc fir_seqn =
     rtcp_quick_send mm ok net rs RTCP_PSFB 4
       (Args_FB (rtp_sess_ssrc rs) 0 (Some (encode_fir_rfc5104_fci mm ssrc fir_seqn)))"

fun rtcp_type_name :: "rtcp_type \<Rightarrow> string" where
  "rtcp_type_name RTCP_FIR = ''FIR''"
| "rtcp_type_name RTCP_NACK = ''NACK''"
| "rtcp_type_name RTCP_SR = ''SR''"
| "rtcp_type_name RTCP_RR = ''RR''"
| "rtcp_type_name RTCP_SDES = ''SDES''"
| "rtcp_type_name RTCP_BYE = ''BYE''"
| "rtcp_type_name RTCP_APP = ''APP''"
| "rtcp_type_name RTCP_RTPFB = ''RTPFB''"
| "rtcp_type_name RTCP_PSFB = ''PSFB''"
| "rtcp_type_name RTCP_XR = ''XR''"
| "rtcp_type_name RTCP_AVB = ''AVB''"

definition rtcp_sdes_name :: "u8 \<Rightarrow> string" where
  "rtcp_sdes_name sdes =
     (if sdes = 0 then ''END'' else if sdes = 1 then ''CNAME'' else if sdes = 2 then ''NAME''
      else if sdes = 3 then ''EMAIL'' else if sdes = 4 then ''PHONE'' else if sdes = 5 then ''LOC''
      else if sdes = 6 then ''TOOL'' else if sdes = 7 then ''NOTE'' else if sdes = 8 then ''PRIV'' else ''?'')"

end
