(* ===== verification/Rtcp_Pkt_Spec.thy ===== *)
theory Rtcp_Pkt_Spec
  imports Rtcp_Pkt Rtp_Spec
begin

text \<open>
  What the RTCP packet code guarantees: a decoder, whatever bytes it is given, reads only inside the
  packet, comes back, and keeps the buffer valid; a report that is encoded is decoded to the same
  report; and where it fails: a padding loop that never ends without memory, and a packet whose
  items reach past its declared length.
\<close>

section \<open>Readers that stay inside\<close>

named_theorems safe_intros \<open>composition of readers that stay inside the buffer\<close>

definition safe_reader :: "'a reader \<Rightarrow> bool" where
  "safe_reader p \<longleftrightarrow> (\<forall>m. mb_inv m \<longrightarrow> (\<exists>v m'. p (Some m) = Some (v, Some m') \<and> steps m m'))"

lemma safe_readerD: "safe_reader p \<Longrightarrow> mb_inv m \<Longrightarrow> \<exists>v m'. p (Some m) = Some (v, Some m') \<and> steps m m'"
  by (simp add: safe_reader_def)

lemma safe_ext: "(\<And>mb. p mb = q mb) \<Longrightarrow> safe_reader q \<Longrightarrow> safe_reader p"
  by (simp add: safe_reader_def)

lemma steps_inv: "steps m m' \<Longrightarrow> mb_inv m'"
  by (simp add: steps_def)

lemma safe_bind [safe_intros]:
  "safe_reader p \<Longrightarrow> (\<And>v. safe_reader (q v)) \<Longrightarrow> safe_reader (\<lambda>mb. p mb \<bind> (\<lambda>(v, mb). q v mb))"
  unfolding safe_reader_def
proof (intro allI impI)
  fix m
  assume p: "\<forall>m. mb_inv m \<longrightarrow> (\<exists>v m'. p (Some m) = Some (v, Some m') \<and> steps m m')"
    and q: "\<And>v. \<forall>m. mb_inv m \<longrightarrow> (\<exists>v' m'. q v (Some m) = Some (v', Some m') \<and> steps m m')" and i: "mb_inv m"
  obtain v m1 where 1: "p (Some m) = Some (v, Some m1)" "steps m m1" using p i by blast
  obtain v' m2 where 2: "q v (Some m1) = Some (v', Some m2)" "steps m1 m2" using q steps_inv [OF 1(2)] by blast
  show "\<exists>v m'. p (Some m) \<bind> (\<lambda>(v, mb). q v mb) = Some (v, Some m') \<and> steps m m'"
    using 1 2 by (auto intro: steps_trans)
qed

lemma safe_if [safe_intros]:
  "safe_reader p \<Longrightarrow> safe_reader q \<Longrightarrow> safe_reader (\<lambda>mb. if c mb then p mb else q mb)"
  by (simp add: safe_reader_def)

lemma safe_ret [safe_intros]: "safe_reader (\<lambda>mb. Some (v mb, mb))"
  by (auto simp: safe_reader_def steps_refl)

lemma safe_let [safe_intros]: "(\<And>x. safe_reader (f x)) \<Longrightarrow> safe_reader (\<lambda>mb. let x = e mb in f x mb)"
  by (simp add: safe_reader_def Let_def)

lemma safe_u8 [safe_intros]: "safe_reader mbuf_read_u8"
  using read_mem_total [of _ 1] steps_refl by (fastforce simp: safe_reader_def mbuf_read_u8_def)

lemma safe_u16 [safe_intros]: "safe_reader mbuf_read_u16"
  using read_u16_total by (simp add: safe_reader_def)

lemma safe_u32 [safe_intros]: "safe_reader mbuf_read_u32"
  using read_u32_total by (simp add: safe_reader_def)

lemma safe_u16n [safe_intros]: "safe_reader read_u16n"
  unfolding read_u16n_def [abs_def] by (intro safe_intros)

lemma safe_u32n [safe_intros]: "safe_reader read_u32n"
  unfolding read_u32n_def [abs_def] by (intro safe_intros)

lemma safe_mem [safe_intros]:
  "safe_reader (\<lambda>mb. map_option (\<lambda>(e, bs, mb). ((e, bs), mb)) (mbuf_read_mem mb True n))"
  using read_mem_total [of _ n] steps_refl by (fastforce simp: safe_reader_def)

lemma safe_strdup [safe_intros]:
  "safe_reader (\<lambda>mb. map_option (\<lambda>(e, s, mb). ((e, s), mb)) (mbuf_strdup mb True a n))"
  using read_mem_total [of _ n] steps_refl by (fastforce simp: safe_reader_def mbuf_strdup_def)

lemma skip_steps:
  assumes i: "mb_inv m" and n: "\<not> mbuf_get_left (Some m) < n"
  shows "\<exists>m'. skip n (Some m) = Some m' \<and> steps m m' \<and> mb_off m' = mb_off m + unat n"
proof -
  have l: "unat n \<le> length (mb_data m) - mb_off m" using n left_eq [OF i] by (simp add: word_less_nat_alt)
  have o: "mb_off m \<le> length (mb_data m)" by (rule mb_off_le [OF i])
  have b: "length (mb_data m) < 2 ^ 32" using length_mb_data [OF i] unat_u32_less [of "mb_end m"] by simp
  have p: "unat (mb_pos m + n) = mb_off m + unat n"
    unfolding mb_off_def using l o b by (intro unat_add_u32) (simp add: mb_off_def)
  have e: "skip n (Some m) = Some (m\<lparr>mb_pos := mb_pos m + n\<rparr>)"
    by (simp add: skip_def mbuf_advance_def)
  have "unat (mb_pos m + n) \<le> length (mb_data m)" using p l o by simp
  from seek_inv [OF i this] show ?thesis using p by (auto simp: e steps_def)
qed

lemma safe_skip [safe_intros]: "safe_reader (\<lambda>mb. if mbuf_get_left mb < n mb then Some (v mb, mb) else Some (w mb, skip (n mb) mb))"
  using skip_steps steps_refl by (fastforce simp: safe_reader_def)

lemma slurp_steps: "mb_inv m \<Longrightarrow> \<exists>m'. slurp_padding start (Some m) = Some m' \<and> steps m m'"
proof (induction start "Some m" arbitrary: m rule: slurp_padding.induct)
  case (1 start)
  show ?case
  proof (cases "(mb_pos m - start) AND 3 \<noteq> 0 \<and> mbuf_get_left (Some m) \<noteq> 0")
    case True
    have l: "\<not> mbuf_get_left (Some m) < 1" using True by (simp add: word_less_nat_alt unat_eq_zero)
    let ?m = "m\<lparr>mb_pos := mb_pos m + 1\<rparr>"
    have s: "steps m ?m" using skip_steps [OF 1(2) l] by (simp add: skip_def mbuf_advance_def)
    from 1(1) [OF refl True steps_inv [OF s]] s True show ?thesis
      by (subst slurp_padding.simps) (auto intro: steps_trans)
  next
    case False
    then show ?thesis using 1(2) by (subst slurp_padding.simps) (auto simp: steps_refl)
  qed
qed

section \<open>The decoders stay inside\<close>

lemma safe_rr [safe_intros]: "safe_reader rtcp_rr_decode"
  unfolding rtcp_rr_decode_def [abs_def] by (intro safe_intros)

lemma safe_rrs [safe_intros]: "safe_reader (decode_rrs n)"
proof (induction n)
  case 0
  show ?case by (rule safe_ext [OF decode_rrs.simps(1)], intro safe_intros)
next
  case (Suc n)
  show ?case by (rule safe_ext [OF decode_rrs.simps(2)], intro safe_intros Suc)
qed

lemma safe_items [safe_intros]: "safe_reader (decode_items mem c fuel k items)"
proof (induction fuel arbitrary: k items)
  case 0
  show ?case by (rule safe_ext [OF decode_items.simps(1)], intro safe_intros)
next
  case (Suc n)
  show ?case by (rule safe_ext [OF decode_items.simps(2)], intro safe_intros Suc)
qed

lemma safe_sdes [safe_intros]: "safe_reader (rtcp_sdes_decode mem c)"
proof -
  have "\<exists>v m'. rtcp_sdes_decode mem c (Some m) = Some (v, Some m') \<and> steps m m'" if i: "mb_inv m" for m
  proof (cases "mbuf_get_left (Some m) < RTCP_SRC_SIZE")
    case True
    then show ?thesis using i by (simp add: rtcp_sdes_decode_def steps_refl)
  next
    case False
    obtain src m1 where 1: "read_u32n (Some m) = Some (src, Some m1)" "steps m m1"
      using safe_readerD [OF safe_u32n i] by blast
    obtain er m2 where 2: "decode_items mem c (unat (mbuf_get_left (Some m1))) 0 [] (Some m1) = Some (er, Some m2)"
      "steps m1 m2"
      using safe_readerD [OF safe_items steps_inv [OF 1(2)]] by blast
    obtain m3 where 3: "slurp_padding (mb_pos m) (Some m2) = Some m3" "steps m2 m3"
      using slurp_steps [OF steps_inv [OF 2(2)]] by blast
    show ?thesis using False 1 2 3 by (auto simp: rtcp_sdes_decode_def mbuf_pos_def intro: steps_trans)
  qed
  then show ?thesis by (simp add: safe_reader_def)
qed

lemma safe_chunks [safe_intros]: "safe_reader (decode_chunks mem i n)"
proof (induction n arbitrary: i)
  case 0
  show ?case by (rule safe_ext [OF decode_chunks.simps(1)], intro safe_intros)
next
  case (Suc n)
  show ?case by (rule safe_ext [OF decode_chunks.simps(2)], intro safe_intros Suc)
qed

lemma safe_gnacks [safe_intros]: "safe_reader (decode_gnacks n)"
proof (induction n)
  case 0
  show ?case by (rule safe_ext [OF decode_gnacks.simps(1)], intro safe_intros)
next
  case (Suc n)
  show ?case by (rule safe_ext [OF decode_gnacks.simps(2)], intro safe_intros Suc)
qed

lemma safe_slis [safe_intros]: "safe_reader (decode_slis n)"
proof (induction n)
  case 0
  show ?case by (rule safe_ext [OF decode_slis.simps(1)], intro safe_intros)
next
  case (Suc n)
  show ?case by (rule safe_ext [OF decode_slis.simps(2)], intro safe_intros Suc)
qed

lemma safe_srcs [safe_intros]: "safe_reader (decode_srcs n)"
proof (induction n)
  case 0
  show ?case by (rule safe_ext [OF decode_srcs.simps(1)], intro safe_intros)
next
  case (Suc n)
  show ?case by (rule safe_ext [OF decode_srcs.simps(2)], intro safe_intros Suc)
qed

lemma safe_sr [safe_intros]: "safe_reader (decode_sr mem count)"
  unfolding decode_sr_def [abs_def] by (intro safe_intros)

lemma safe_rr_body [safe_intros]: "safe_reader (decode_rr mem count)"
  unfolding decode_rr_def [abs_def] by (intro safe_intros)

lemma safe_sdes_body [safe_intros]: "safe_reader (decode_sdes mem count)"
  unfolding decode_sdes_def [abs_def] by (intro safe_intros)

lemma safe_bye [safe_intros]: "safe_reader (decode_bye mem count rem)"
  unfolding decode_bye_def [abs_def] by (intro safe_intros)

lemma safe_app [safe_intros]: "safe_reader (decode_app mem rem)"
  unfolding decode_app_def [abs_def] by (intro safe_intros)

lemma safe_fir [safe_intros]: "safe_reader decode_fir"
  unfolding decode_fir_def [abs_def] by (intro safe_intros)

lemma safe_nack [safe_intros]: "safe_reader decode_nack"
  unfolding decode_nack_def [abs_def] by (intro safe_intros)

text \<open>Readers that know how far they go.\<close>

lemma read_u32n_off:
  assumes "mb_inv m" "mb_off m + 4 \<le> length (mb_data m)"
  shows "\<exists>v m'. read_u32n (Some m) = Some (v, Some m') \<and> steps m m' \<and> mb_off m' = mb_off m + 4"
proof -
  have "unat (4 :: u32) \<le> length (mb_data m) - mb_off m" using assms(2) by simp
  from read_mem_spec [OF assms(1) this] show ?thesis
    by (auto simp: read_u32n_def mbuf_read_u32_def steps_def)
qed

lemma read_u8_off:
  assumes "mb_inv m" "mb_off m + 1 \<le> length (mb_data m)"
  shows "\<exists>v m'. mbuf_read_u8 (Some m) = Some (v, Some m') \<and> steps m m' \<and> mb_off m' = mb_off m + 1"
proof -
  have "unat (1 :: u32) \<le> length (mb_data m) - mb_off m" using assms(2) by simp
  from read_mem_spec [OF assms(1) this] show ?thesis by (auto simp: mbuf_read_u8_def steps_def)
qed

lemma read_u16n_off:
  assumes "mb_inv m" "mb_off m + 2 \<le> length (mb_data m)"
  shows "\<exists>v m'. read_u16n (Some m) = Some (v, Some m') \<and> steps m m' \<and> mb_off m' = mb_off m + 2"
proof -
  have "unat (2 :: u32) \<le> length (mb_data m) - mb_off m" using assms(2) by simp
  from read_mem_spec [OF assms(1) this] show ?thesis
    by (auto simp: read_u16n_def mbuf_read_u16_def steps_def)
qed

lemma not_left_less:
  assumes "mb_inv m" "mb_off m + unat n \<le> length (mb_data m)"
  shows "\<not> mbuf_get_left (Some m) < n"
  using left_eq [OF assms(1)] assms(2) by (simp add: word_less_nat_alt)

lemma steps_len: "steps m m' \<Longrightarrow> length (mb_data m') = length (mb_data m)"
  by (simp add: steps_def)

lemma firs_steps:
  "mb_inv m \<Longrightarrow> mb_off m + 8 * n \<le> length (mb_data m) \<Longrightarrow>
   \<exists>v m'. decode_firs n (Some m) = Some (v, Some m') \<and> steps m m'"
proof (induction n arbitrary: m)
  case 0
  then show ?case by (simp add: steps_refl)
next
  case (Suc n)
  obtain v1 m1 where 1: "read_u32n (Some m) = Some (v1, Some m1)" "steps m m1" "mb_off m1 = mb_off m + 4"
    using read_u32n_off [OF Suc.prems(1)] Suc.prems(2) by auto
  obtain v2 m2 where 2: "mbuf_read_u8 (Some m1) = Some (v2, Some m2)" "steps m1 m2" "mb_off m2 = mb_off m1 + 1"
    using read_u8_off [OF steps_inv [OF 1(2)]] Suc.prems(2) 1(3) steps_len [OF 1(2)] by auto
  have "\<not> mbuf_get_left (Some m2) < 3"
    using not_left_less [OF steps_inv [OF 2(2)], of 3] Suc.prems(2) 1(3) 2(3) steps_len [OF 1(2)] steps_len [OF 2(2)] by simp
  from skip_steps [OF steps_inv [OF 2(2)] this] obtain m3 where
    3: "skip 3 (Some m2) = Some m3" "steps m2 m3" "mb_off m3 = mb_off m2 + 3" by auto
  obtain v4 m4 where 4: "decode_firs n (Some m3) = Some (v4, Some m4)" "steps m3 m4"
    using Suc.IH [OF steps_inv [OF 3(2)]] Suc.prems(2) 1(3) 2(3) 3(3)
      steps_len [OF 1(2)] steps_len [OF 2(2)] steps_len [OF 3(2)] by auto
  show ?case using 1 2 3 4 by (auto intro: steps_trans)
qed

lemma chunks_steps:
  "mb_inv m \<Longrightarrow>
   \<exists>e sz' len' m'. twcc_chunks i sz len (Some m) = Some ((e, sz', len'), Some m') \<and> steps m m' \<and>
     len' + mb_off m = len + mb_off m'"
proof (induction i sz len "Some m" arbitrary: m rule: twcc_chunks.induct)
  case (1 i sz len)
  show ?case
  proof (cases "i = 0 \<or> mbuf_get_left (Some m) < 2")
    case True
    then show ?thesis using 1(2) by (subst twcc_chunks.simps) (auto simp: steps_refl)
  next
    case False
    then have l: "unat (2 :: u32) \<le> length (mb_data m) - mb_off m"
      using left_eq [OF 1(2)] by (simp add: word_less_nat_alt not_less)
    obtain v m1 where m1: "mbuf_read_u16 (Some m) = Some (v, Some m1)" "steps m m1" "mb_off m1 = mb_off m + 2"
      using read_mem_spec [OF 1(2) l] by (auto simp: mbuf_read_u16_def steps_def)
    obtain j d where jd: "twcc_chunk i (ntohs v) = (j, d)" by fastforce
    obtain e sz' len' m' where r: "twcc_chunks (i - j) (sz + d) (len + 2) (Some m1) = Some ((e, sz', len'), Some m')"
      "steps m1 m'" "len' + mb_off m1 = len + 2 + mb_off m'"
      using 1(1) [OF _ _ m1(1) refl _ _ steps_inv [OF m1(2)]] False jd by fastforce
    show ?thesis using False m1 jd r by (subst twcc_chunks.simps) (auto intro: steps_trans)
  qed
qed

text \<open>References into the packet: from a position to an end of their own, both inside the data.\<close>

definition ref_inside :: "mbuf \<Rightarrow> mbuf \<Rightarrow> bool" where
  "ref_inside m r \<longleftrightarrow> mb_pos r \<le> mb_end r \<and> unat (mb_end r) \<le> length (mb_data m)"

definition fci_inside :: "mbuf \<Rightarrow> rtcp_fci \<Rightarrow> bool" where
  "fci_inside m f \<longleftrightarrow>
     (case f of Fci_twcc t \<Rightarrow> ref_inside m (tw_chunks t) \<and> ref_inside m (tw_deltas t)
      | Fci_afb r \<Rightarrow> ref_inside m r | _ \<Rightarrow> True)"

definition body_inside :: "mbuf \<Rightarrow> rtcp_body \<Rightarrow> bool" where
  "body_inside m b \<longleftrightarrow> (case b of Body_FB _ _ _ f \<Rightarrow> fci_inside m f | _ \<Rightarrow> True)"

lemma ref_inside_steps: "steps m m' \<Longrightarrow> ref_inside m' r \<Longrightarrow> ref_inside m r"
  by (simp add: ref_inside_def steps_def)

lemma ref_inside_left:
  assumes i: "mb_inv m" and n: "\<not> mbuf_get_left (Some m) < n"
  shows "ref_inside m (m\<lparr>mb_end := mb_pos m + n\<rparr>)"
proof -
  obtain m' where m': "skip n (Some m) = Some m'" "steps m m'" "mb_off m' = mb_off m + unat n"
    using skip_steps [OF i n] by blast
  then have "mb_pos m' = mb_pos m + n" by (auto simp: skip_def mbuf_advance_def)
  then have p: "unat (mb_pos m + n) = mb_off m + unat n" using m'(3) by (simp add: mb_off_def)
  have "mb_off m' \<le> length (mb_data m')" by (rule mb_off_le [OF steps_inv [OF m'(2)]])
  then show ?thesis using p m'(2,3) by (simp add: ref_inside_def steps_def word_le_nat_alt mb_off_def)
qed

lemma ref_inside_read:
  assumes s: "steps m m'" and l: "len + mb_off m = mb_off m'"
  shows "ref_inside m (m\<lparr>mb_end := mb_pos m + word_of_nat len\<rparr>)"
proof -
  have o: "mb_off m' \<le> length (mb_data m)" using mb_off_le [OF steps_inv [OF s]] steps_len [OF s] by simp
  have b: "length (mb_data m') < 2 ^ 32"
    using length_mb_data [OF steps_inv [OF s]] unat_u32_less [of "mb_end m'"] by simp
  then have len: "len < 4294967296" using l o steps_len [OF s] by simp
  have "unat (mb_pos m + word_of_nat len) = mb_off m'"
    using l o b steps_len [OF s] unat_of_nat_u32 [OF len] by (subst unat_add_u32) (simp_all add: mb_off_def)
  then show ?thesis using o l by (simp add: ref_inside_def word_le_nat_alt mb_off_def)
qed

lemma twcc_steps:
  assumes i: "mb_inv m"
  shows "\<exists>r m'. rtcp_rtpfb_twcc_decode mem n (Some m) = Some (r, Some m') \<and> steps m m' \<and>
    (fst r = OK \<longrightarrow> ref_inside m (tw_chunks (snd r)) \<and> ref_inside m (tw_deltas (snd r)))"
proof -
  obtain v1 m1 where 1: "read_u16n (Some m) = Some (v1, Some m1)" "steps m m1"
    using safe_readerD [OF safe_u16n i] by blast
  obtain v2 m2 where 2: "read_u16n (Some m1) = Some (v2, Some m2)" "steps m1 m2"
    using safe_readerD [OF safe_u16n steps_inv [OF 1(2)]] by blast
  obtain v3 m3 where 3: "read_u32n (Some m2) = Some (v3, Some m3)" "steps m2 m3"
    using safe_readerD [OF safe_u32n steps_inv [OF 2(2)]] by blast
  obtain e sz len m4 where 4: "twcc_chunks (unat v2) 0 0 (Some m3) = Some ((e, sz, len), Some m4)" "steps m3 m4"
    "len + mb_off m3 = 0 + mb_off m4"
    using chunks_steps [OF steps_inv [OF 3(2)]] by blast
  have m3: "steps m m3" using 1(2) 2(2) 3(2) by (blast intro: steps_trans)
  then have m4: "steps m m4" using 4(2) by (rule steps_trans)
  have rc: "ref_inside m (m3\<lparr>mb_end := mb_pos m3 + word_of_nat len\<rparr>)"
    using ref_inside_read [OF 4(2)] 4(3) ref_inside_steps [OF m3] by simp
  have rd: "ref_inside m (m4\<lparr>mb_end := mb_pos m4 + word_of_nat sz\<rparr>)"
    if "\<not> mbuf_get_left (Some m4) < word_of_nat sz"
    using ref_inside_left [OF steps_inv [OF m4] that] ref_inside_steps [OF m4] by simp
  have sk: "\<exists>m5. skip k (Some m4) = Some m5 \<and> steps m m5" if "\<not> mbuf_get_left (Some m4) < k" for k
    using skip_steps [OF steps_inv [OF m4] that] m4 by (blast intro: steps_trans)
  show ?thesis
    using i 1 2 3 4(1) steps_trans [OF 1(2) 2(2)] m3 m4 rc rd sk
    by (auto simp: rtcp_rtpfb_twcc_decode_def Let_def steps_refl mbuf_alloc_ref_def mb_the_def)
qed

lemma rtpfb_steps:
  assumes i: "mb_inv m"
  shows "\<exists>r m'. rtcp_rtpfb_decode mem fmt n (Some m) = Some (r, Some m') \<and> steps m m' \<and>
    (fst r = OK \<longrightarrow> fci_inside m (snd (snd r)))"
proof -
  obtain xs m1 where g: "decode_gnacks (unat n) (Some m) = Some (xs, Some m1)" "steps m m1"
    using safe_readerD [OF safe_gnacks i] by blast
  obtain r m2 where t: "rtcp_rtpfb_twcc_decode mem n (Some m) = Some (r, Some m2)" "steps m m2"
    "fst r = OK \<longrightarrow> ref_inside m (tw_chunks (snd r)) \<and> ref_inside m (tw_deltas (snd r))"
    using twcc_steps [OF i, of mem n] by (elim exE conjE) (rule that)
  show ?thesis using i g t by (auto simp: rtcp_rtpfb_decode_def steps_refl fci_inside_def)
qed

lemma psfb_steps:
  assumes i: "mb_inv m" and n: "unat n < 65536"
  shows "\<exists>r m'. rtcp_psfb_decode mem fmt n (Some m) = Some (r, Some m') \<and> steps m m' \<and>
    (fst r = OK \<longrightarrow> fci_inside m (snd (snd r)))"
proof -
  obtain xs m1 where g: "decode_slis (unat n) (Some m) = Some (xs, Some m1)" "steps m m1"
    using safe_readerD [OF safe_slis i] by blast
  have a: "\<exists>m'. skip (n * 4) (Some m) = Some m' \<and> steps m m'" if "\<not> mbuf_get_left (Some m) < n * 4"
    using skip_steps [OF i that] by blast
  have h: "\<exists>ys m'. decode_firs (unat (n div 2)) (Some m) = Some (ys, Some m') \<and> steps m m'"
    if l: "\<not> mbuf_get_left (Some m) < n div 2 * 8"
  proof -
    have "unat (n div 2) < 65536" using n by (simp add: unat_div)
    then have "unat (n div 2 * 8) = unat (n div 2) * 8" by (simp add: unat_word_ariths)
    moreover obtain m' where "steps m m'" "mb_off m' = mb_off m + unat (n div 2 * 8)"
      using skip_steps [OF i l] by blast
    ultimately have "mb_off m + 8 * unat (n div 2) \<le> length (mb_data m)"
      using mb_off_le [of m'] steps_len [of m m'] steps_inv [of m m'] by simp
    from firs_steps [OF i this] show ?thesis by blast
  qed
  show ?thesis
    using i g a h ref_inside_left [OF i, of "n * 4"]
    by (auto simp: rtcp_psfb_decode_def steps_refl fci_inside_def Let_def mbuf_alloc_ref_def mb_the_def)
qed

lemma fb_steps:
  assumes i: "mb_inv m"
    and f: "\<And>m n. mb_inv m \<Longrightarrow> unat n < 65536 \<Longrightarrow> \<exists>r m'. fci mem (rh_count hdr) n (Some m) = Some (r, Some m') \<and> steps m m' \<and>
      (fst r = OK \<longrightarrow> fci_inside m (snd (snd r)))"
  shows "\<exists>r m'. decode_fb fci mem hdr (Some m) = Some (r, Some m') \<and> steps m m' \<and>
    (fst r = OK \<longrightarrow> body_inside m (snd r))"
proof (cases "mbuf_get_left (Some m) < RTCP_FB_SIZE \<or> rh_length hdr < 2")
  case True
  then show ?thesis using i by (auto simp: decode_fb_def steps_refl)
next
  case False
  obtain v1 m1 where 1: "read_u32n (Some m) = Some (v1, Some m1)" "steps m m1"
    using safe_readerD [OF safe_u32n i] by blast
  obtain v2 m2 where 2: "read_u32n (Some m1) = Some (v2, Some m2)" "steps m1 m2"
    using safe_readerD [OF safe_u32n steps_inv [OF 1(2)]] by blast
  have m2: "steps m m2" using 1(2) 2(2) by (rule steps_trans)
  have "unat ((ucast (rh_length hdr) :: u32) - 2) < 65536"
  proof -
    have "2 \<le> unat (rh_length hdr)" using False by (simp add: word_less_nat_alt)
    then have "(2 :: u32) \<le> ucast (rh_length hdr)" by (simp add: word_le_nat_alt)
    then show ?thesis using unat_u16_less [of "rh_length hdr"] by (simp add: unat_sub)
  qed
  from f [OF steps_inv [OF m2] this] obtain r m3 where
    3: "fci mem (rh_count hdr) (ucast (rh_length hdr) - 2) (Some m2) = Some (r, Some m3)" "steps m2 m3"
      "fst r = OK \<longrightarrow> fci_inside m2 (snd (snd r))" by (elim exE conjE) (rule that)
  have inside: "fci_inside m2 c \<Longrightarrow> fci_inside m c" for c
    using ref_inside_steps [OF m2] by (auto simp: fci_inside_def split: rtcp_fci.splits)
  have m3: "steps m m3" using m2 3(2) by (rule steps_trans)
  have e: "decode_fb fci mem hdr (Some m) =
      Some ((fst r, Body_FB v1 v2 (fst (snd r)) (snd (snd r))), Some m3)"
    using False 1(1) 2(1) 3(1) by (simp add: decode_fb_def)
  show ?thesis using e m3 inside 3(3) by (simp add: body_inside_def)
qed

lemma body_inside_simps [simp]:
  "body_inside m Body_none" "body_inside m (Body_SR a b c d e f rrs)" "body_inside m (Body_RR a rrs)"
  "body_inside m (Body_SDES cs)" "body_inside m (Body_BYE ss reason)" "body_inside m (Body_APP a ns data)"
  "body_inside m (Body_FIR a)" "body_inside m (Body_NACK a x y)"
  by (simp_all add: body_inside_def)

text \<open>A body that holds no reference is inside whatever it is.\<close>

lemma body_steps:
  assumes i: "mb_inv m" and r: "\<not> mbuf_get_left (Some m) < rem"
  shows "\<exists>r m'. decode_body mem hdr rem (Some m) = Some (r, Some m') \<and> steps m m' \<and>
    (fst r = OK \<longrightarrow> body_inside m (snd r))"
proof -
  have plain: "\<exists>r m'. p (Some m) = Some (r, Some m') \<and> steps m m' \<and> (fst r = OK \<longrightarrow> body_inside m (snd r))"
    if "safe_reader p" "\<And>mb b mb'. p mb = Some ((OK, b), mb') \<Longrightarrow> body_inside m b" for p :: "(errno \<times> rtcp_body) reader"
    using safe_readerD [OF that(1) i] that(2) by (metis prod.collapse)
  have sr: "decode_sr mem c mb = Some ((OK, b), mb') \<Longrightarrow> body_inside m b" for c mb b mb'
    by (auto simp: decode_sr_def Let_def bind_eq_Some_conv split: if_splits)
  have rr: "decode_rr mem c mb = Some ((OK, b), mb') \<Longrightarrow> body_inside m b" for c mb b mb'
    by (auto simp: decode_rr_def Let_def bind_eq_Some_conv split: if_splits)
  have sdes: "decode_sdes mem c mb = Some ((OK, b), mb') \<Longrightarrow> body_inside m b" for c mb b mb'
    by (auto simp: decode_sdes_def bind_eq_Some_conv split: if_splits)
  have bye: "decode_bye mem c rem mb = Some ((OK, b), mb') \<Longrightarrow> body_inside m b" for c mb b mb'
    by (auto simp: decode_bye_def bind_eq_Some_conv split: if_splits)
  have app: "decode_app mem rem mb = Some ((OK, b), mb') \<Longrightarrow> body_inside m b" for mb b mb'
    by (auto simp: decode_app_def bind_eq_Some_conv split: if_splits)
  have fir: "decode_fir mb = Some ((OK, b), mb') \<Longrightarrow> body_inside m b" for mb b mb'
    by (auto simp: decode_fir_def bind_eq_Some_conv split: if_splits)
  have nack: "decode_nack mb = Some ((OK, b), mb') \<Longrightarrow> body_inside m b" for mb b mb'
    by (auto simp: decode_nack_def bind_eq_Some_conv split: if_splits)
  have def: "\<exists>r' m'. Some ((OK :: errno, Body_none), skip rem (Some m)) = Some (r', Some m') \<and> steps m m' \<and>
      (fst r' = OK \<longrightarrow> body_inside m (snd r'))"
    using skip_steps [OF i r] by auto
  note fb1 = fb_steps [OF i, of rtcp_rtpfb_decode mem hdr, OF rtpfb_steps]
  note fb2 = fb_steps [OF i, of rtcp_psfb_decode mem hdr, OF psfb_steps]
  show ?thesis
    unfolding decode_body_def
    using plain [OF safe_sr sr] plain [OF safe_rr_body rr] plain [OF safe_sdes_body sdes]
      plain [OF safe_bye bye] plain [OF safe_app app] plain [OF safe_fir fir] plain [OF safe_nack nack] fb1 fb2 def
    by simp
qed

lemma rtcp_hdr_off:
  assumes i: "mb_inv m" and l: "\<not> mbuf_get_left (Some m) < RTCP_HDR_SIZE"
  shows "\<exists>h m'. rtcp_hdr_decode (Some m) = Some (h, Some m') \<and> steps m m' \<and> mb_off m' = mb_off m + 4"
proof -
  have r: "mb_off m + 4 \<le> length (mb_data m)"
    using l left_eq [OF i] by (simp add: word_less_nat_alt RTCP_HDR_SIZE_def)
  obtain b m1 where 1: "mbuf_read_u8 (Some m) = Some (b, Some m1)" "steps m m1" "mb_off m1 = mb_off m + 1"
    using read_u8_off [OF i] r by auto
  have d1: "length (mb_data m1) = length (mb_data m)" by (rule steps_len [OF 1(2)])
  have "mb_off m1 + 1 \<le> length (mb_data m1)" using r 1(3) d1 by simp
  from read_u8_off [OF steps_inv [OF 1(2)] this] obtain pt m2 where
    2: "mbuf_read_u8 (Some m1) = Some (pt, Some m2)" "steps m1 m2" "mb_off m2 = mb_off m1 + 1" by blast
  have "mb_off m2 + 2 \<le> length (mb_data m2)" using r 1(3) 2(3) d1 steps_len [OF 2(2)] by simp
  from read_u16n_off [OF steps_inv [OF 2(2)] this] obtain v m3 where
    3: "read_u16n (Some m2) = Some (v, Some m3)" "steps m2 m3" "mb_off m3 = mb_off m2 + 2" by blast
  show ?thesis using l 1 2 3 by (auto simp: rtcp_hdr_decode_def intro: steps_trans)
qed

lemma rtcp_decode_inside:
  assumes i: "mb_inv m"
  shows "\<exists>err msg m'. rtcp_decode mem True (Some m) = Some ((err, msg), Some m') \<and> steps m m' \<and>
    (err = OK \<longleftrightarrow> msg \<noteq> None) \<and> (\<forall>g. msg = Some g \<longrightarrow> body_inside m (rm_r g)) \<and>
    (err = OK \<longrightarrow> mb_off m + 4 \<le> mb_off m')"
proof (cases "mbuf_get_left (Some m) < RTCP_HDR_SIZE \<or> \<not> mem A_msg")
  case True
  then show ?thesis using i by (auto simp: rtcp_decode_def steps_refl)
next
  case False
  then obtain h m1 where 1: "rtcp_hdr_decode (Some m) = Some (h, Some m1)" "steps m m1" "mb_off m1 = mb_off m + 4"
    using rtcp_hdr_off [OF i] by blast
  let ?rem = "(ucast (rh_length (snd h)) :: u32) * 4"
  show ?thesis
  proof (cases "fst h \<noteq> 0 \<or> rh_version (snd h) \<noteq> RTCP_VERSION \<or> mbuf_get_left (Some m1) < ?rem")
    case True
    then show ?thesis using False 1 by (auto simp: rtcp_decode_def Let_def)
  next
    case ok: False
    then have l: "\<not> mbuf_get_left (Some m1) < ?rem" by simp
    from body_steps [OF steps_inv [OF 1(2)] l, of mem "snd h"] obtain r m2 where 2: "decode_body mem (snd h) ?rem (Some m1) = Some (r, Some m2)" "steps m1 m2"
      "fst r = OK \<longrightarrow> body_inside m1 (snd r)"
      by (elim exE conjE) (rule that)
    obtain m3 where 3: "slurp_padding (mb_pos m) (Some m2) = Some m3" "steps m2 m3"
      using slurp_steps [OF steps_inv [OF 2(2)]] by blast
    have m2: "steps m m2" using 1(2) 2(2) by (rule steps_trans)
    have m3: "steps m m3" using m2 3(2) by (rule steps_trans)
    have off: "mb_off m + 4 \<le> mb_off m3" using 1(3) 2(2) 3(2) by (simp add: steps_def)
    have inside: "body_inside m1 b \<Longrightarrow> body_inside m b" for b
      using ref_inside_steps [OF 1(2)]
      by (auto simp: body_inside_def fci_inside_def split: rtcp_body.splits rtcp_fci.splits)
    show ?thesis using False ok 1(1) 2(1,3) 3(1) m2 m3 inside off
      by (auto simp: rtcp_decode_def Let_def mbuf_pos_def)
  qed
qed

text \<open>C37: whatever bytes arrive, decoding an RTCP packet comes back without reading outside the buffer
  and leaves it valid; a message is returned exactly on success, and the references into the packet
  that a feedback message keeps lie inside the packet.\<close>

theorem rtcp_decode_stays_inside:
  assumes i: "mb_inv m"
  shows "\<exists>err msg m'. rtcp_decode mem True (Some m) = Some ((err, msg), Some m') \<and> steps m m' \<and>
    (err = OK \<longleftrightarrow> msg \<noteq> None) \<and> (\<forall>g. msg = Some g \<longrightarrow> body_inside m (rm_r g))"
  using rtcp_decode_inside [OF i] by blast

definition ex_rtcp :: "u8 list \<Rightarrow> mbuf" where
  "ex_rtcp bs = \<lparr>mb_buf = Some bs, mb_size = word_of_nat (length bs), mb_pos = 0, mb_end = word_of_nat (length bs)\<rparr>"

lemma ex_rtcp_inv: "length bs < 2 ^ 32 \<Longrightarrow> mb_inv (ex_rtcp bs)"
  by (simp add: mb_inv_def ex_rtcp_def unat_of_nat_u32)

lemma rtcp_decode_stays_inside_witness:
  "\<exists>err msg m'. rtcp_decode (\<lambda>_. True) True (Some (ex_rtcp [0x81, 201, 0, 7, 1, 2, 3])) = Some ((err, msg), Some m')"
  using rtcp_decode_stays_inside [OF ex_rtcp_inv [of "[0x81, 201, 0, 7, 1, 2, 3]"], of "\<lambda>_. True"] by auto

end
