(* ===== verification/Rtcp_Sess_Spec.thy ===== *)
theory Rtcp_Sess_Spec
  imports Rtcp_Sess Rtcp_Pkt_Spec
begin

text \<open>
  The RTCP session against its bookkeeping: the table of members is a finite map from SSRC to the
  live member objects, and the two counters of the session count them.  Every handler keeps this,
  for every well-typed message; the receive loop of the socket ends and has no undefined behaviour.
  The table is used through the interface \<open>keyed_table\<close> only (facts \<open>table.\<close>...).
\<close>


section \<open>The invariant\<close>

definition key_of :: "store \<Rightarrow> addr \<Rightarrow> u32" where
  "key_of mem a = (case mem a of Some m \<Rightarrow> mbr_src m | None \<Rightarrow> 0)"

definition senders :: "store \<Rightarrow> addr set" where
  "senders mem = {a. \<exists>m. mem a = Some m \<and> mbr_s m \<noteq> None}"

definition sess_inv :: "rtcp_sess \<Rightarrow> bool" where
  "sess_inv s \<longleftrightarrow> table.keys_ok (ss_members s) (key_of (ss_mem s)) \<and>
     set (hash_elems (ss_members s)) = dom (ss_mem s) \<and>
     unat (ss_memberc s) = card (dom (ss_mem s)) \<and> unat (ss_memberc s) \<le> 8 \<and>
     unat (ss_senderc s) = card (senders (ss_mem s))"

definition fresh_addr :: "new_addr \<Rightarrow> bool" where
  "fresh_addr new \<longleftrightarrow> (\<forall>A a. new A = Some a \<longrightarrow> a \<notin> A)"

text \<open>The fields that are not about the members.\<close>

definition same_rest :: "rtcp_sess \<Rightarrow> rtcp_sess \<Rightarrow> bool" where
  "same_rest s s' \<longleftrightarrow> ss_rs s' = ss_rs s \<and> ss_tmr s' = ss_tmr s \<and> ss_cname s' = ss_cname s \<and>
     ss_srate_tx s' = ss_srate_tx s \<and> ss_srate_rx s' = ss_srate_rx s \<and> ss_interval s' = ss_interval s \<and>
     ss_txstat s' = ss_txstat s"

lemma same_rest_refl: "same_rest s s"
  by (simp add: same_rest_def)

lemma same_rest_trans: "same_rest a b \<Longrightarrow> same_rest b c \<Longrightarrow> same_rest a c"
  by (simp add: same_rest_def)

text \<open>A member that stays the same member does not change what the session counts.\<close>

lemma same_member_upd:
  assumes "mem a = Some m" "mbr_src m' = mbr_src m" "mbr_s m' = None \<longleftrightarrow> mbr_s m = None"
  shows "dom (mem(a \<mapsto> m')) = dom mem" "senders (mem(a \<mapsto> m')) = senders mem" "key_of (mem(a \<mapsto> m')) = key_of mem"
  using assms by (auto simp: senders_def key_of_def fun_eq_iff)

lemma sess_inv_table: "sess_inv s \<Longrightarrow> hash_ok (ss_members s)"
  by (auto simp: sess_inv_def intro: table.keys_ok_inv)

lemma sess_inv_finite: "sess_inv s \<Longrightarrow> finite (dom (ss_mem s))"
  unfolding sess_inv_def by (metis List.finite_set)

lemma senders_dom: "senders mem \<subseteq> dom mem"
  by (auto simp: senders_def)

lemma sess_inv_senders: "sess_inv s \<Longrightarrow> unat (ss_senderc s) \<le> unat (ss_memberc s)"
  using card_mono [OF sess_inv_finite senders_dom, of s] by (simp add: sess_inv_def)

section \<open>Members\<close>

lemma walk_cmp:
  "set es \<subseteq> dom mem \<Longrightarrow> walk (hash_cmp_handler mem src) es () = Some (find (\<lambda>a. key_of mem a = src) es, ())"
  by (induction es) (auto simp: hash_cmp_handler_def key_of_def)

lemma member_find_key:
  assumes ok: "hash_ok ht" and sub: "set (hash_elems ht) \<subseteq> dom mem"
  shows "member_find ht mem src = hash_find ht src (\<lambda>a. key_of mem a = src)"
proof -
  have "set (h_bucket ht ! hash_index ht src) \<subseteq> set (hash_elems ht)"
    using nth_mem [OF hash_index_less [OF ok, of src]] by (auto simp: hash_elems_def)
  then have "set (h_bucket ht ! hash_index ht src) \<subseteq> dom mem" using sub by blast
  then show ?thesis
    by (simp add: member_find_def hash_find_eq [OF ok] hash_lookup_def bucket_in_range [OF ok] walk_cmp)
qed

lemma member_find_spec:
  assumes "sess_inv s"
  obtains r where "member_find (ss_members s) (ss_mem s) src = Some r"
    "\<And>a. r = Some a \<longleftrightarrow> (\<exists>m. ss_mem s a = Some m \<and> mbr_src m = src)"
proof -
  have k: "table.keys_ok (ss_members s) (key_of (ss_mem s))" and d: "set (hash_elems (ss_members s)) = dom (ss_mem s)"
    using assms by (simp_all add: sess_inv_def)
  obtain r where r: "hash_find (ss_members s) src (\<lambda>a. key_of (ss_mem s) a = src) = Some r"
    "\<And>a. r = Some a \<longleftrightarrow> a \<in> set (hash_elems (ss_members s)) \<and> key_of (ss_mem s) a = src"
    using table.find_key [OF k] by blast
  show thesis
  proof (rule that)
    show "member_find (ss_members s) (ss_mem s) src = Some r"
      using member_find_key [OF sess_inv_table [OF assms]] d r(1) by simp
    show "r = Some a \<longleftrightarrow> (\<exists>m. ss_mem s a = Some m \<and> mbr_src m = src)" for a
      unfolding r(2) d by (auto simp: key_of_def)
  qed
qed

text \<open>An object changed in place that stays the same member.\<close>

lemma sess_inv_upd:
  assumes i: "sess_inv s" and m: "ss_mem s a = Some m" and k: "mbr_src m' = mbr_src m" "mbr_s m' = None \<longleftrightarrow> mbr_s m = None"
  shows "sess_inv (s\<lparr>ss_mem := (ss_mem s)(a \<mapsto> m')\<rparr>)"
  using i same_member_upd [where mem = "ss_mem s" and a = a, OF m k] by (simp add: sess_inv_def del: dom_fun_upd fun_upd_apply)

lemma sess_inv_new_sender:
  assumes i: "sess_inv s" and m: "ss_mem s a = Some m" and k: "mbr_src m' = mbr_src m" "mbr_s m' \<noteq> None" "mbr_s m = None"
  shows "sess_inv (s\<lparr>ss_mem := (ss_mem s)(a \<mapsto> m'), ss_senderc := ss_senderc s + 1\<rparr>)"
proof -
  have "key_of ((ss_mem s)(a \<mapsto> m')) = key_of (ss_mem s)" using m k by (auto simp: key_of_def fun_eq_iff)
  moreover have "senders ((ss_mem s)(a \<mapsto> m')) = insert a (senders (ss_mem s))" using m k by (auto simp: senders_def)
  moreover have "a \<notin> senders (ss_mem s)" using m k by (auto simp: senders_def)
  moreover have d: "dom ((ss_mem s)(a \<mapsto> m')) = dom (ss_mem s)" using m by auto
  moreover have "finite (senders (ss_mem s))" using finite_subset [OF senders_dom sess_inv_finite [OF i]] .
  moreover have "unat (ss_senderc s + 1) = unat (ss_senderc s) + 1"
    using sess_inv_senders [OF i] i by (subst unat_add_u32) (simp_all add: sess_inv_def)
  ultimately show ?thesis using i by (simp add: sess_inv_def)
qed

text \<open>The member for a source: an old one, a new one, or none when there are eight or no memory.\<close>

lemma get_member_spec:
  assumes i: "sess_inv s" and new: "fresh_addr new"
  obtains (found) a m where "get_member new s src = Some (Some a, s)" "ss_mem s a = Some m" "mbr_src m = src"
  | (added) a s' where "get_member new s src = Some (Some a, s')" "sess_inv s'" "same_rest s s'"
      "\<And>a m. ss_mem s a = Some m \<Longrightarrow> mbr_src m \<noteq> src" "ss_mem s a = None"
      "ss_mem s' = (ss_mem s)(a \<mapsto> zero_member\<lparr>mbr_src := src\<rparr>)"
      "unat (ss_memberc s) < 8" "ss_memberc s' = ss_memberc s + 1" "ss_senderc s' = ss_senderc s"
  | (none) "get_member new s src = Some (None, s)" "\<And>a m. ss_mem s a = Some m \<Longrightarrow> mbr_src m \<noteq> src"
      "8 \<le> unat (ss_memberc s) \<or> new (dom (ss_mem s)) = None"
proof -
  obtain r where r: "member_find (ss_members s) (ss_mem s) src = Some r"
    "\<And>a. r = Some a \<longleftrightarrow> (\<exists>m. ss_mem s a = Some m \<and> mbr_src m = src)"
    using member_find_spec [OF i, of src] by metis
  show thesis
  proof (cases r)
    case (Some a)
    then obtain m where "ss_mem s a = Some m" "mbr_src m = src" using r(2) by blast
    then show thesis using found r(1) Some by (simp add: get_member_def)
  next
    case None
    then have new_src: "\<And>a m. ss_mem s a = Some m \<Longrightarrow> mbr_src m \<noteq> src" using r(2) by blast
    show thesis
    proof (cases "8 \<le> unat (ss_memberc s) \<or> new (dom (ss_mem s)) = None")
      case True
      have "get_member new s src = Some (None, s)"
      proof (cases "8 \<le> unat (ss_memberc s)")
        case True
        then have "MAX_MEMBERS \<le> ss_memberc s" by (simp add: word_le_nat_alt MAX_MEMBERS_def)
        then show ?thesis using r(1) None by (simp add: get_member_def)
      next
        case False
        then have "new (dom (ss_mem s)) = None" using True by simp
        then show ?thesis using r(1) None by (simp add: get_member_def member_add_def)
      qed
      then show thesis using none new_src True by blast
    next
      case False
      then obtain a where a: "new (dom (ss_mem s)) = Some a" by auto
      then have fr: "a \<notin> dom (ss_mem s)" using new unfolding fresh_addr_def by blast
      have d: "set (hash_elems (ss_members s)) = dom (ss_mem s)" and k: "table.keys_ok (ss_members s) (key_of (ss_mem s))"
        using i by (simp_all add: sess_inv_def)
      let ?mem = "(ss_mem s)(a \<mapsto> zero_member\<lparr>mbr_src := src\<rparr>)"
      have ks: "src \<notin> key_of (ss_mem s) ` set (hash_elems (ss_members s))"
        unfolding d using new_src by (fastforce simp: key_of_def)
      have ka: "key_of ?mem a = src" by (simp add: key_of_def)
      have ko: "key_of ?mem e = key_of (ss_mem s) e" if "e \<in> set (hash_elems (ss_members s))" for e
        using that fr unfolding d by (auto simp: key_of_def)
      have "a \<notin> set (hash_elems (ss_members s))" using fr d by simp
      from table.add_key [OF k this ka ko ks] obtain ht where ht: "hash_add (ss_members s) src a = Some ht"
        "table.keys_ok ht (key_of ?mem)" "set (hash_elems ht) = insert a (set (hash_elems (ss_members s)))" by blast
      have lt: "\<not> MAX_MEMBERS \<le> ss_memberc s" using False by (simp add: word_le_nat_alt MAX_MEMBERS_def)
      define s' where "s' = s\<lparr>ss_members := ht, ss_mem := ?mem, ss_memberc := ss_memberc s + 1\<rparr>"
      have g: "get_member new s src = Some (Some a, s')"
        using r(1) None a ht(1) lt
        by (auto simp: get_member_def member_add_def s'_def hash_add_def bind_eq_Some_conv)
      have "unat (ss_memberc s + 1) = unat (ss_memberc s) + 1"
        using False by (subst unat_add_u32) simp_all
      moreover have "senders ?mem = senders (ss_mem s)"
        using fr by (auto simp: senders_def zero_member_def)
      moreover have "card (insert a (dom (ss_mem s))) = Suc (card (dom (ss_mem s)))"
        using fr sess_inv_finite [OF i] by simp
      moreover have "dom ?mem = insert a (dom (ss_mem s))" by simp
      ultimately have "sess_inv s'"
        using ht(2,3) i False d unfolding sess_inv_def s'_def by simp
      moreover have "same_rest s s'" by (simp add: same_rest_def s'_def)
      ultimately show thesis using added [of a s'] g new_src fr False by (auto simp: s'_def)
    qed
  qed
qed


section \<open>Well-typed messages\<close>

text \<open>The body fits the packet type, and the vectors are as long as the header's count says.\<close>

definition msg_wf :: "rtcp_msg \<Rightarrow> bool" where
  "msg_wf msg \<longleftrightarrow>
     (let pt = rh_pt (rm_hdr msg); n = unat (rh_count (rm_hdr msg)) in
      (pt = rtcp_type_num RTCP_SR \<longrightarrow> (\<exists>a b c d e f rrv. rm_r msg = Body_SR a b c d e f rrv \<and> length rrv = n)) \<and>
      (pt = rtcp_type_num RTCP_RR \<longrightarrow> (\<exists>a rrv. rm_r msg = Body_RR a rrv \<and> length rrv = n)) \<and>
      (pt = rtcp_type_num RTCP_SDES \<longrightarrow> (\<exists>v. rm_r msg = Body_SDES v \<and> length v = n)) \<and>
      (pt = rtcp_type_num RTCP_BYE \<longrightarrow> (\<exists>srcv reason. rm_r msg = Body_BYE srcv reason \<and> length srcv = n)))"

lemma decode_rrs_length: "decode_rrs n mb = Some ((OK, rrv), mb') \<Longrightarrow> length rrv = n"
  by (induction n arbitrary: mb rrv mb') (auto simp: bind_eq_Some_conv split: if_splits)

lemma decode_chunks_length: "decode_chunks mem i n mb = Some ((OK, v), mb') \<Longrightarrow> length v = n"
proof (induction n arbitrary: i mb v mb')
  case (Suc n)
  then obtain er mb1 ers mb2 where "decode_chunks mem (Suc i) n mb1 = Some ((OK, ers), mb2)" "v = er # ers"
    by (auto simp: bind_eq_Some_conv split: if_splits)
  then show ?case using Suc.IH by simp
qed simp

lemma decode_srcs_length: "decode_srcs n mb = Some (v, mb') \<Longrightarrow> length v = n"
  by (induction n arbitrary: mb v mb') (auto simp: bind_eq_Some_conv)

lemma decode_body_typed:
  assumes "decode_body mem h rem mb = Some ((OK, b), mb')"
  shows "msg_wf \<lparr>rm_hdr = h, rm_r = b\<rparr>"
proof -
  let ?n = "unat (rh_count h)"
  have sr: "\<exists>a b' c d e f rrv. b = Body_SR a b' c d e f rrv \<and> length rrv = ?n" if "rh_pt h = 200"
    using assms that by (auto simp: decode_body_def decode_sr_def bind_eq_Some_conv Let_def dest: decode_rrs_length split: if_splits)
  have rr: "\<exists>a rrv. b = Body_RR a rrv \<and> length rrv = ?n" if "rh_pt h = 201"
    using assms that by (auto simp: decode_body_def decode_rr_def bind_eq_Some_conv Let_def dest: decode_rrs_length split: if_splits)
  have sd: "\<exists>v. b = Body_SDES v \<and> length v = ?n" if "rh_pt h = 202"
    using assms that by (auto simp: decode_body_def decode_sdes_def bind_eq_Some_conv dest: decode_chunks_length split: if_splits)
  have bye: "\<exists>srcv reason. b = Body_BYE srcv reason \<and> length srcv = ?n" if "rh_pt h = 203"
    using assms that by (auto simp: decode_body_def decode_bye_def bind_eq_Some_conv dest: decode_srcs_length split: if_splits)
  show ?thesis using sr rr sd bye by (simp add: msg_wf_def)
qed

lemma rtcp_decode_wf:
  assumes "rtcp_decode mem True mb = Some ((err, Some msg), mb')"
  shows "err = OK \<and> rh_version (rm_hdr msg) = RTCP_VERSION \<and> msg_wf msg"
  using assms decode_body_typed
  by (auto simp: rtcp_decode_def bind_eq_Some_conv Let_def split: if_splits)

section \<open>Handling a message\<close>

lemma handle_blocks_fold:
  "i + n \<le> length rrv \<Longrightarrow> handle_blocks h rrv i n m = Some (fold h (take n (drop i rrv)) m)"
proof (induction n arbitrary: i m)
  case (Suc n)
  then have "take (Suc n) (drop i rrv) = rrv ! i # take n (drop (Suc i) rrv)"
    by (simp add: Cons_nth_drop_Suc [symmetric])
  then show ?case using Suc by simp
qed simp

lemma fold_blocks_same:
  "mbr_src (fold (handle_rr_block u j r) rrv m) = mbr_src m \<and> mbr_s (fold (handle_rr_block u j r) rrv m) = mbr_s m"
  by (induction rrv arbitrary: m) (simp_all add: handle_rr_block_def Let_def)

lemma upd_mbr_inv:
  assumes i: "sess_inv s" and a: "ss_mem s a = Some m" and f: "f m = Some m'"
    "mbr_src m' = mbr_src m" "mbr_s m' = None \<longleftrightarrow> mbr_s m = None"
  shows "\<exists>s'. upd_mbr a f s = Some s' \<and> sess_inv s' \<and> same_rest s s'"
  using sess_inv_upd [OF i a f(2,3)] a f(1) by (simp add: upd_mbr_def same_rest_def)

text \<open>A report from a source: its member, known or new, takes the blocks.\<close>

lemma report_inv:
  assumes i: "sess_inv s" and new: "fresh_addr new" and n: "length rrv = n"
    and pre: "\<And>m. mbr_src (pre m) = mbr_src m \<and> (mbr_s (pre m) = None \<longleftrightarrow> mbr_s m = None)"
  shows "\<exists>s'. (do { (mbr, s) \<leftarrow> get_member new s ssrc;
           case mbr of None \<Rightarrow> Some s
           | Some a \<Rightarrow> upd_mbr a (\<lambda>m. handle_blocks (handle_rr_block u j (ss_srate_tx s)) rrv 0 n (pre m)) s }) = Some s' \<and>
         sess_inv s' \<and> same_rest s s'"
proof -
  have upd: "\<exists>s'. upd_mbr a (\<lambda>m. handle_blocks (handle_rr_block u j (ss_srate_tx s)) rrv 0 n (pre m)) s = Some s' \<and>
      sess_inv s' \<and> same_rest s s'" if "sess_inv s" "ss_mem s a = Some m" for s a m
    by (rule upd_mbr_inv [where m' = "fold (handle_rr_block u j (ss_srate_tx s)) rrv (pre m)", OF that])
      (use n pre fold_blocks_same in \<open>simp_all add: handle_blocks_fold\<close>)
  from i new show ?thesis
  proof (cases rule: get_member_spec [where src = ssrc])
    case (found a m)
    then show ?thesis using upd [OF i] by simp
  next
    case (added a s')
    then show ?thesis using upd [OF added(2), of a] same_rest_trans [OF added(3)] by auto
  next
    case none
    then show ?thesis using i by (simp add: same_rest_refl)
  qed
qed

lemma sess_inv_free:
  assumes i: "sess_inv s" and a: "ss_mem s a = Some m"
  shows "sess_inv (s\<lparr>ss_members := hash_unlink a (ss_members s), ss_mem := (ss_mem s)(a := None),
    ss_memberc := ss_memberc s - 1, ss_senderc := (if mbr_s m \<noteq> None then ss_senderc s - 1 else ss_senderc s)\<rparr>)"
proof -
  let ?mem = "(ss_mem s)(a := None)"
  have k: "table.keys_ok (ss_members s) (key_of (ss_mem s))" and d: "set (hash_elems (ss_members s)) = dom (ss_mem s)"
    and c: "unat (ss_memberc s) = card (dom (ss_mem s))" "unat (ss_memberc s) \<le> 8" "unat (ss_senderc s) = card (senders (ss_mem s))"
    using i by (simp_all add: sess_inv_def)
  have k': "table.keys_ok (hash_unlink a (ss_members s)) (key_of (ss_mem s))"
    and d': "set (hash_elems (hash_unlink a (ss_members s))) = dom (ss_mem s) - {a}"
    using table.remove_key [OF k] d by auto
  have "table.keys_ok (hash_unlink a (ss_members s)) (key_of ?mem)"
    by (rule table.keys_ok_cong [OF k']) (auto simp: d' key_of_def)
  moreover have dm: "dom ?mem = dom (ss_mem s) - {a}" by auto
  moreover have f: "finite (dom (ss_mem s))" by (rule sess_inv_finite [OF i])
  have ad: "a \<in> dom (ss_mem s)" using a by auto
  then have pos: "0 < unat (ss_memberc s)" using c(1) f by (auto simp: card_gt_0_iff)
  have mc: "unat (ss_memberc s - 1) = unat (ss_memberc s) - 1" using pos by (simp add: unat_minus_one unat_gt_0)
  have sm: "senders ?mem = senders (ss_mem s) - {a}" by (auto simp: senders_def)
  have fs: "finite (senders (ss_mem s))" by (rule finite_subset [OF senders_dom f])
  have "unat (if mbr_s m \<noteq> None then ss_senderc s - 1 else ss_senderc s) = card (senders ?mem)"
  proof (cases "mbr_s m")
    case None
    then have "a \<notin> senders (ss_mem s)" using a by (simp add: senders_def)
    then show ?thesis using None c(3) sm by simp
  next
    case (Some src)
    then have as: "a \<in> senders (ss_mem s)" using a by (simp add: senders_def)
    then have "0 < unat (ss_senderc s)" using c(3) fs by (auto simp: card_gt_0_iff)
    then have "unat (ss_senderc s - 1) = unat (ss_senderc s) - 1" by (simp add: unat_minus_one unat_gt_0)
    then show ?thesis using Some c(3) sm as fs by (simp add: card_Diff_singleton)
  qed
  ultimately show ?thesis using c(1,2) mc d' ad f by (simp add: sess_inv_def card_Diff_singleton)
qed

lemma bye_loop_inv:
  "sess_inv s \<Longrightarrow> i + n \<le> length srcv \<Longrightarrow> \<exists>s'. bye_loop srcv i n s = Some s' \<and> sess_inv s' \<and> same_rest s s' \<and>
     (\<forall>j<n. \<forall>a m. ss_mem s' a = Some m \<longrightarrow> mbr_src m \<noteq> srcv ! (i + j)) \<and> ss_mem s' \<subseteq>\<^sub>m ss_mem s"
proof (induction n arbitrary: i s)
  case 0
  then show ?case by (simp add: same_rest_refl)
next
  case (Suc n)
  obtain r where r: "member_find (ss_members s) (ss_mem s) (srcv ! i) = Some r"
    "\<And>a. r = Some a \<longleftrightarrow> (\<exists>m. ss_mem s a = Some m \<and> mbr_src m = srcv ! i)"
    using member_find_spec [OF Suc.prems(1), of "srcv ! i"] by metis
  have il: "i < length srcv" "Suc i + n \<le> length srcv" using Suc.prems(2) by simp_all
  define s1 where "s1 = (case r of None \<Rightarrow> s | Some a \<Rightarrow>
    s\<lparr>ss_members := hash_unlink a (ss_members s), ss_mem := (ss_mem s)(a := None),
      ss_memberc := ss_memberc s - 1,
      ss_senderc := (if mbr_s (the (ss_mem s a)) \<noteq> None then ss_senderc s - 1 else ss_senderc s)\<rparr>)"
  have inv1: "sess_inv s1"
  proof (cases r)
    case (Some a)
    then obtain m where m: "ss_mem s a = Some m" using r(2) by blast
    show ?thesis using sess_inv_free [OF Suc.prems(1) m] m Some by (simp add: s1_def)
  qed (use Suc.prems(1) in \<open>simp add: s1_def\<close>)
  have rest1: "same_rest s s1" by (simp add: s1_def same_rest_def split: option.split)
  have le1: "ss_mem s1 \<subseteq>\<^sub>m ss_mem s" by (auto simp: s1_def map_le_def split: option.split)
  have gone1: "mbr_src m \<noteq> srcv ! i" if "ss_mem s1 a = Some m" for a m
  proof
    assume "mbr_src m = srcv ! i"
    moreover have m: "ss_mem s a = Some m" using le1 that by (auto simp: map_le_def dom_def)
    ultimately have "r = Some a" using r(2) by blast
    then show False using that by (simp add: s1_def)
  qed
  have step: "bye_loop srcv i (Suc n) s = bye_loop srcv (Suc i) n s1"
  proof (cases r)
    case None
    then show ?thesis using il r(1) by (simp add: s1_def)
  next
    case (Some a)
    then obtain m where m: "ss_mem s a = Some m" using r(2) by blast
    then show ?thesis using il r(1) Some
      by (auto simp: s1_def member_free_def Let_def intro!: arg_cong [where f = "bye_loop srcv (Suc i) n"])
  qed
  obtain s' where s': "bye_loop srcv (Suc i) n s1 = Some s'" "sess_inv s'" "same_rest s1 s'"
    "\<forall>j<n. \<forall>a m. ss_mem s' a = Some m \<longrightarrow> mbr_src m \<noteq> srcv ! (Suc i + j)" "ss_mem s' \<subseteq>\<^sub>m ss_mem s1"
    using Suc.IH [OF inv1 il(2)] by blast
  have "mbr_src m \<noteq> srcv ! (i + j)" if "j < Suc n" "ss_mem s' a = Some m" for j a m
  proof (cases j)
    case 0
    have "ss_mem s1 a = Some m" using s'(5) that(2) by (auto simp: map_le_def dom_def)
    then show ?thesis using gone1 0 by simp
  next
    case (Suc k)
    then show ?thesis using s'(4) that by auto
  qed
  moreover have "ss_mem s' \<subseteq>\<^sub>m ss_mem s" using map_le_trans [OF s'(5) le1] .
  ultimately show ?case using step s' same_rest_trans [OF rest1 s'(3)] by simp
qed

lemma rtcp_handler_inv:
  assumes i: "sess_inv s" and new: "fresh_addr new" and wf: "msg_wf msg"
  shows "\<exists>s'. rtcp_handler new u jfs j (Some msg) (Some s) = Some (Some s') \<and> sess_inv s' \<and> same_rest s s'"
proof -
  consider (sr) "rh_pt (rm_hdr msg) = 200" | (rr) "rh_pt (rm_hdr msg) = 201" | (goodbye) "rh_pt (rm_hdr msg) = 203"
    | (other) "rh_pt (rm_hdr msg) \<noteq> 200" "rh_pt (rm_hdr msg) \<noteq> 201" "rh_pt (rm_hdr msg) \<noteq> 203" by blast
  then show ?thesis
  proof cases
    case sr
    then obtain a b c d e f rrv where m: "rm_r msg = Body_SR a b c d e f rrv" "length rrv = unat (rh_count (rm_hdr msg))"
      using wf by (auto simp: msg_wf_def Let_def)
    have "mbr_src (save_sr jfs b c d e f m) = mbr_src m \<and> (mbr_s (save_sr jfs b c d e f m) = None \<longleftrightarrow> mbr_s m = None)" for m
      by (simp add: save_sr_def)
    from report_inv [OF i new m(2) this, of a u j] obtain s' where
      "handle_incoming_sr new u jfs j msg s = Some s'" "sess_inv s'" "same_rest s s'"
      by (auto simp: handle_incoming_sr_def m(1))
    then show ?thesis using sr by (simp add: rtcp_handler_def)
  next
    case rr
    then obtain a rrv where m: "rm_r msg = Body_RR a rrv" "length rrv = unat (rh_count (rm_hdr msg))"
      using wf by (auto simp: msg_wf_def Let_def)
    from report_inv [where pre = "\<lambda>m. m", OF i new m(2), of a u j] obtain s' where
      "handle_incoming_rr new u j msg s = Some s'" "sess_inv s'" "same_rest s s'"
      by (auto simp: handle_incoming_rr_def m(1))
    then show ?thesis using rr by (simp add: rtcp_handler_def)
  next
    case goodbye
    then obtain srcv reason where m: "rm_r msg = Body_BYE srcv reason" "length srcv = unat (rh_count (rm_hdr msg))"
      using wf by (auto simp: msg_wf_def Let_def)
    from bye_loop_inv [OF i, of 0 "unat (rh_count (rm_hdr msg))" srcv] m(2) obtain s' where
      "handle_incoming_bye msg s = Some s'" "sess_inv s'" "same_rest s s'"
      by (auto simp: handle_incoming_bye_def m(1))
    then show ?thesis using goodbye by (simp add: rtcp_handler_def)
  next
    case other
    then show ?thesis using i by (simp add: rtcp_handler_def same_rest_refl)
  qed
qed


section \<open>Media packets\<close>

text \<open>The packets of a source change its member only; undefined is only the overflow of the jitter.\<close>

lemma rx_rtp_inv:
  assumes i: "sess_inv s" and new: "fresh_addr new"
    and r: "rtcp_sess_rx_rtp new zok jfs hdr n (Some s) = Some (sess, hdr')"
  shows "\<exists>s'. sess = Some s' \<and> sess_inv s' \<and> same_rest s s'"
proof -
  have store: "\<exists>s'. sess = Some s' \<and> sess_inv s' \<and> same_rest s1 s'"
    if i1: "sess_inv s1" and m: "ss_mem s1 a = Some m"
      and r: "(do { m \<leftarrow> ss_mem s1 a;
              let (m, s) = (if mbr_s m = None \<and> zok
                            then (m\<lparr>mbr_s := Some (rtp_source_init_seq (h_seq hdr) zero_source)\<rparr>,
                                  s1\<lparr>ss_senderc := ss_senderc s1 + 1\<rparr>)
                            else (m, s1));
              case mbr_s m of
                None \<Rightarrow> Some (Some s, hdr)
              | Some src \<Rightarrow> do {
                  (src, hdr) \<leftarrow> rx_source jfs (ss_srate_rx s) hdr n src;
                  Some (Some (s\<lparr>ss_mem := (ss_mem s)(a \<mapsto> m\<lparr>mbr_s := Some src\<rparr>)\<rparr>), hdr)
                } }) = Some (sess, hdr')" for s1 a m
  proof (cases "mbr_s m")
    case None
    show ?thesis
    proof (cases zok)
      case True
      then obtain src where "sess = Some (s1\<lparr>ss_senderc := ss_senderc s1 + 1,
          ss_mem := (ss_mem s1)(a \<mapsto> m\<lparr>mbr_s := Some src\<rparr>)\<rparr>)"
        using r m None by (auto simp: bind_eq_Some_conv)
      moreover have "s1\<lparr>ss_senderc := ss_senderc s1 + 1, ss_mem := (ss_mem s1)(a \<mapsto> m\<lparr>mbr_s := Some src\<rparr>)\<rparr> =
          s1\<lparr>ss_mem := (ss_mem s1)(a \<mapsto> m\<lparr>mbr_s := Some src\<rparr>), ss_senderc := ss_senderc s1 + 1\<rparr>" by simp
      ultimately show ?thesis
        using sess_inv_new_sender [OF i1 m, of "m\<lparr>mbr_s := Some src\<rparr>"] None by (simp add: same_rest_def)
    next
      case False
      then show ?thesis using r m None i1 by (auto simp: same_rest_refl)
    qed
  next
    case (Some src0)
    then obtain src where "sess = Some (s1\<lparr>ss_mem := (ss_mem s1)(a \<mapsto> m\<lparr>mbr_s := Some src\<rparr>)\<rparr>)"
      using r m by (auto simp: bind_eq_Some_conv)
    then show ?thesis using sess_inv_upd [OF i1 m, of "m\<lparr>mbr_s := Some src\<rparr>"] Some by (simp add: same_rest_def)
  qed
  from i new show ?thesis
  proof (cases rule: get_member_spec [where src = "h_ssrc hdr"])
    case (found a m)
    show ?thesis by (rule store [OF i found(2)]) (use r found(1) in \<open>simp add: rtcp_sess_rx_rtp_def\<close>)
  next
    case (added a s')
    have "ss_mem s' a = Some (zero_member\<lparr>mbr_src := h_ssrc hdr\<rparr>)" by (simp add: added(6))
    then have "\<exists>s''. sess = Some s'' \<and> sess_inv s'' \<and> same_rest s' s''"
      by (rule store [OF added(2)]) (use r added(1) in \<open>simp add: rtcp_sess_rx_rtp_def\<close>)
    then show ?thesis using same_rest_trans [OF added(3)] by blast
  next
    case none
    then show ?thesis using r i by (auto simp: rtcp_sess_rx_rtp_def same_rest_refl)
  qed
qed

section \<open>The receive loop\<close>

lemma recv_loop_returns:
  assumes new: "fresh_addr new"
  shows "mb_inv m \<Longrightarrow> sess_inv s \<Longrightarrow>
    \<exists>s' msgs. recv_loop mem new u jfs j i (Some m) (Some s) = Some (Some s', msgs) \<and> sess_inv s' \<and> same_rest s s' \<and>
      4 * length msgs \<le> length (mb_data m) - mb_off m \<and> (\<forall>g\<in>set msgs. msg_wf g)"
proof (induction "length (mb_data m) - mb_off m" arbitrary: m s i rule: less_induct)
  case less
  from rtcp_decode_inside [OF less.prems(1), of "mem i"] obtain err msg m1 where d:
    "rtcp_decode (mem i) True (Some m) = Some ((err, msg), Some m1)" "steps m m1" "err = OK \<longleftrightarrow> msg \<noteq> None"
    "err = OK \<longrightarrow> mb_off m + 4 \<le> mb_off m1"
    by (elim exE conjE) (rule that)
  show ?case
  proof (cases msg)
    case None
    then show ?thesis using d(1,3) less.prems(2) by (subst recv_loop.simps) (simp add: same_rest_refl)
  next
    case (Some g)
    then have e: "err = OK" using d(3) by simp
    have g: "msg_wf g" using rtcp_decode_wf [of "mem i" "Some m" err g] d(1) Some by blast
    obtain s1 where h: "rtcp_handler new u jfs j (Some g) (Some s) = Some (Some s1)" "sess_inv s1" "same_rest s s1"
      using rtcp_handler_inv [OF less.prems(2) new g] by blast
    have off: "mb_off m + 4 \<le> mb_off m1" using d(4) e by simp
    have i1: "mb_inv m1" and l1: "length (mb_data m1) = length (mb_data m)" using d(2) by (simp_all add: steps_def)
    have o1: "mb_off m1 \<le> length (mb_data m1)" by (rule mb_off_le [OF i1])
    have "length (mb_data m1) - mb_off m1 < length (mb_data m) - mb_off m" using off l1 o1 by simp
    from less.hyps [OF this i1 h(2), of "Suc i"] obtain s' msgs where r:
      "recv_loop mem new u jfs j (Suc i) (Some m1) (Some s1) = Some (Some s', msgs)" "sess_inv s'" "same_rest s1 s'"
      "4 * length msgs \<le> length (mb_data m1) - mb_off m1" "\<forall>g\<in>set msgs. msg_wf g" by blast
    have "recv_loop mem new u jfs j i (Some m) (Some s) = Some (Some s', g # msgs)"
      using d(1) h(1) r(1) e Some by (subst recv_loop.simps) simp
    moreover have "4 * length (g # msgs) \<le> length (mb_data m) - mb_off m" using r(4) off l1 o1 by simp
    ultimately show ?thesis using r(2,5) g same_rest_trans [OF h(3) r(3)] by auto
  qed
qed

end
