(* ===== verification/Rtcp_Report.thy ===== *)
theory Rtcp_Report
  imports Rtcp_Pkt_Spec
begin

text \<open>
  Encoding of RTCP packets, described by the bytes it appends: an encoder \<open>puts\<close> some bytes when,
  given a buffer with room for them, it succeeds and writes exactly them.  From the rules for the
  single writes follow the layout of the packets, and that a report is decoded to what was encoded.
\<close>

section \<open>Encoders that put bytes\<close>

named_theorems puts_intros \<open>composition of encoders that put bytes\<close>

definition puts :: "'s encoder \<Rightarrow> 's \<Rightarrow> u8 list \<Rightarrow> 's \<Rightarrow> bool" where
  "puts f s bs s' \<longleftrightarrow>
     (\<forall>m. mb_inv m \<and> mb_off m + length bs \<le> unat (mb_size m) \<longrightarrow>
        (\<exists>m'. f (s, Some m) = Some (OK, s', Some m') \<and> mb_inv m' \<and> mb_size m' = mb_size m \<and>
              mb_data m' = put_at (mb_off m) bs (mb_data m) \<and> mb_off m' = mb_off m + length bs))"

lemma putsD:
  assumes "puts f s bs s'" "mb_inv m" "mb_off m + length bs \<le> unat (mb_size m)"
  obtains m' where "f (s, Some m) = Some (OK, s', Some m')" "mb_inv m'" "mb_size m' = mb_size m"
    "mb_data m' = put_at (mb_off m) bs (mb_data m)" "mb_off m' = mb_off m + length bs"
  using assms unfolding puts_def by blast

lemma puts_nothing [puts_intros]: "puts (\<lambda>s. Some (OK, s)) s [] s"
  by (auto simp: puts_def)

lemma puts_mem [puts_intros]: "puts (wr (\<lambda>mb. mbuf_write_mem mm mb (Some bs))) s bs s"
proof -
  have "\<exists>m'. wr (\<lambda>mb. mbuf_write_mem mm mb (Some bs)) (s, Some m) = Some (OK, s, Some m') \<and> mb_inv m' \<and>
      mb_size m' = mb_size m \<and> mb_data m' = put_at (mb_off m) bs (mb_data m) \<and> mb_off m' = mb_off m + length bs"
    if "mb_inv m" "mb_off m + length bs \<le> unat (mb_size m)" for m
    using write_mem_room [OF that, of mm] by (auto simp: wr_def)
  then show ?thesis by (simp add: puts_def)
qed

lemma puts_or [puts_intros]:
  assumes f: "puts f s bs s1" and g: "puts g s1 cs s2"
  shows "puts (or_err f g) s (bs @ cs) s2"
  unfolding puts_def
proof (intro allI impI, elim conjE)
  fix m assume i: "mb_inv m" and r: "mb_off m + length (bs @ cs) \<le> unat (mb_size m)"
  obtain m1 where 1: "f (s, Some m) = Some (OK, s1, Some m1)" "mb_inv m1" "mb_size m1 = mb_size m"
    "mb_data m1 = put_at (mb_off m) bs (mb_data m)" "mb_off m1 = mb_off m + length bs"
    using putsD [OF f i] r by auto
  have "mb_off m1 + length cs \<le> unat (mb_size m1)" using r 1 by simp
  from putsD [OF g 1(2) this] obtain m2 where 2: "g (s1, Some m1) = Some (OK, s2, Some m2)" "mb_inv m2"
    "mb_size m2 = mb_size m1" "mb_data m2 = put_at (mb_off m1) cs (mb_data m1)" "mb_off m2 = mb_off m1 + length cs"
    by blast
  then show "\<exists>m'. or_err f g (s, Some m) = Some (OK, s2, Some m') \<and> mb_inv m' \<and> mb_size m' = mb_size m \<and>
      mb_data m' = put_at (mb_off m) (bs @ cs) (mb_data m) \<and> mb_off m' = mb_off m + length (bs @ cs)"
    using 1 mb_off_le [OF i] by (auto simp: or_err_def put_at_put_at)
qed

lemma puts_u32 [puts_intros]: "puts (wr (\<lambda>mb. mbuf_write_u32 mm mb (htonl v))) s (be32 v) s"
  unfolding write_be by (rule puts_mem)

lemma puts_u16 [puts_intros]: "puts (wr (\<lambda>mb. mbuf_write_u16 mm mb (htons v))) s (be16 v) s"
  unfolding write_be by (rule puts_mem)

lemma write_u8_mem: "mbuf_write_u8 mm mb v = mbuf_write_mem mm mb (Some [v])"
  by (simp add: mbuf_write_u8_def)

lemma puts_u8 [puts_intros]: "puts (wr (\<lambda>mb. mbuf_write_u8 mm mb v)) s [v] s"
  unfolding write_u8_mem by (rule puts_mem)

lemma puts_words [puts_intros]: "puts (write_words mm vs) s (concat (map be32 vs)) s"
proof (induction vs)
  case Nil
  show ?case by (simp add: puts_nothing)
next
  case (Cons v vs)
  show ?case unfolding write_words.simps list.map concat.simps by (rule puts_or puts_u32 Cons)+
qed

lemma puts_handler [puts_intros]: "puts f s bs s' \<Longrightarrow> puts (run_ench (Some f)) s bs s'"
  by (simp add: run_ench_def)

lemma puts_no_handler [puts_intros]: "puts (run_ench None) s [] s"
  by (simp add: run_ench_def puts_nothing)

text \<open>A function of the buffer alone put under \<open>wr\<close>.\<close>

lemma wr_or_err: "wr (or_err f g) = or_err (wr f) (wr g)"
  by (auto simp: wr_def or_err_def fun_eq_iff bind_assoc split: prod.split
    intro!: arg_cong2 [where f = Option.bind])

section \<open>Report blocks\<close>

definition rr_bytes :: "rtcp_rr \<Rightarrow> u8 list" where
  "rr_bytes r = be32 (rr_ssrc r) @ be32 (push_bit 24 (ucast (rr_fraction r)) OR ucast (rr_lost r)) @
     be32 (rr_last_seq r) @ be32 (rr_jitter r) @ be32 (rr_lsr r) @ be32 (rr_dlsr r)"

lemma length_rr_bytes [simp]: "length (rr_bytes r) = 24"
  by (simp add: rr_bytes_def)

lemma puts_rr [puts_intros]: "puts (wr (\<lambda>mb. rtcp_rr_encode mm mb (Some r))) s (rr_bytes r) s"
proof -
  have p: "puts (wr (or_err (\<lambda>mb. mbuf_write_u32 mm mb (htonl (rr_ssrc r)))
            (or_err (\<lambda>mb. mbuf_write_u32 mm mb (htonl (push_bit 24 (ucast (rr_fraction r)) OR ucast (rr_lost r))))
              (or_err (\<lambda>mb. mbuf_write_u32 mm mb (htonl (rr_last_seq r)))
                (or_err (\<lambda>mb. mbuf_write_u32 mm mb (htonl (rr_jitter r)))
                  (or_err (\<lambda>mb. mbuf_write_u32 mm mb (htonl (rr_lsr r)))
                    (\<lambda>mb. mbuf_write_u32 mm mb (htonl (rr_dlsr r))))))))) s (rr_bytes r) s"
    unfolding wr_or_err rr_bytes_def by (rule puts_or puts_u32)+
  show ?thesis using p unfolding puts_def by (simp add: wr_def rtcp_rr_encode_def)
qed

lemma rr_word_fields:
  "ucast (drop_bit 24 (push_bit 24 (ucast f) OR ucast l :: u32)) = (f :: u8)"
  "ucast ((push_bit 24 (ucast f) OR ucast l :: u32) AND 0xFFFFFF) = (l :: 24 word)"
proof -
  have "(16777215 :: int) = mask 24" by (simp add: mask_eq_exp_minus_1)
  then have m: "bit (16777215 :: int) i \<longleftrightarrow> i < 24" for i by (simp only: bit_mask_iff possible_bit_int) auto
  have lb: "bit l i \<Longrightarrow> i < 24" for i using bit_imp_le_length [of l i] by simp
  show "ucast (drop_bit 24 (push_bit 24 (ucast f) OR ucast l :: u32)) = f"
    by (rule bit_word_eqI) (auto simp: bit_simps dest: lb)
  show "ucast ((push_bit 24 (ucast f) OR ucast l :: u32) AND 0xFFFFFF) = l"
    by (rule bit_word_eqI) (auto simp: bit_and_iff bit_or_iff bit_ucast_iff m bit_push_bit_iff)
qed

lemma read_u32n_at:
  "at m (be32 v @ rest) \<Longrightarrow> \<exists>m'. read_u32n (Some m) = Some (v, Some m') \<and> at m' rest \<and> steps m m'"
  using read_be32_at by (fastforce simp: read_u32n_def)

lemma read_u16n_at:
  "at m (be16 v @ rest) \<Longrightarrow> \<exists>m'. read_u16n (Some m) = Some (v, Some m') \<and> at m' rest \<and> steps m m'"
  using read_be16_at by (fastforce simp: read_u16n_def)

lemma read_u8_at:
  "at m (v # rest) \<Longrightarrow> \<exists>m'. mbuf_read_u8 (Some m) = Some (v, Some m') \<and> at m' rest \<and> steps m m'"
  using read_mem_at [of m "[v]" rest 1] by (auto simp: mbuf_read_u8_def)

lemma rr_decode_at:
  assumes a: "at m (rr_bytes r @ rest)"
  shows "\<exists>m'. rtcp_rr_decode (Some m) = Some ((OK, r), Some m') \<and> at m' rest \<and> steps m m'"
proof -
  define w where "w = (push_bit 24 (ucast (rr_fraction r)) OR ucast (rr_lost r) :: u32)"
  have w: "ucast (drop_bit 24 w) = rr_fraction r" "ucast (w AND 0xFFFFFF) = rr_lost r"
    unfolding w_def by (rule rr_word_fields)+
  have l: "\<not> mbuf_get_left (Some m) < RTCP_RR_SIZE"
    by (rule left_ge_at [OF a]) (simp add: RTCP_RR_SIZE_def)
  have b: "at m (be32 (rr_ssrc r) @ be32 w @ be32 (rr_last_seq r) @ be32 (rr_jitter r) @ be32 (rr_lsr r) @
      be32 (rr_dlsr r) @ rest)" using a by (simp add: rr_bytes_def w_def)
  obtain m1 where 1: "read_u32n (Some m) = Some (rr_ssrc r, Some m1)" "steps m m1"
    "at m1 (be32 w @ be32 (rr_last_seq r) @ be32 (rr_jitter r) @ be32 (rr_lsr r) @ be32 (rr_dlsr r) @ rest)"
    using read_u32n_at [OF b] by blast
  obtain m2 where 2: "read_u32n (Some m1) = Some (w, Some m2)" "steps m1 m2"
    "at m2 (be32 (rr_last_seq r) @ be32 (rr_jitter r) @ be32 (rr_lsr r) @ be32 (rr_dlsr r) @ rest)"
    using read_u32n_at [OF 1(3)] by blast
  obtain m3 where 3: "read_u32n (Some m2) = Some (rr_last_seq r, Some m3)" "steps m2 m3"
    "at m3 (be32 (rr_jitter r) @ be32 (rr_lsr r) @ be32 (rr_dlsr r) @ rest)"
    using read_u32n_at [OF 2(3)] by blast
  obtain m4 where 4: "read_u32n (Some m3) = Some (rr_jitter r, Some m4)" "steps m3 m4"
    "at m4 (be32 (rr_lsr r) @ be32 (rr_dlsr r) @ rest)" using read_u32n_at [OF 3(3)] by blast
  obtain m5 where 5: "read_u32n (Some m4) = Some (rr_lsr r, Some m5)" "steps m4 m5"
    "at m5 (be32 (rr_dlsr r) @ rest)" using read_u32n_at [OF 4(3)] by blast
  obtain m6 where 6: "read_u32n (Some m5) = Some (rr_dlsr r, Some m6)" "steps m5 m6" "at m6 rest"
    using read_u32n_at [OF 5(3)] by blast
  have "steps m m6" using 1(2) 2(2) 3(2) 4(2) 5(2) 6(2) by (blast intro: steps_trans)
  moreover have "rtcp_rr_decode (Some m) = Some ((OK, r), Some m6)"
    using l 1(1) 2(1) 3(1) 4(1) 5(1) 6(1)
    by (simp add: rtcp_rr_decode_def w)
  ultimately show ?thesis using 6(3) by blast
qed

lemma decode_rrs_at:
  "at m (concat (map rr_bytes rs) @ rest) \<Longrightarrow>
   \<exists>m'. decode_rrs (length rs) (Some m) = Some ((OK, rs), Some m') \<and> at m' rest \<and> steps m m'"
proof (induction rs arbitrary: m)
  case Nil
  then show ?case by (simp add: at_def steps_refl)
next
  case (Cons r rs)
  have "at m (rr_bytes r @ (concat (map rr_bytes rs) @ rest))" using Cons.prems by simp
  from rr_decode_at [OF this] obtain m1 where 1: "rtcp_rr_decode (Some m) = Some ((OK, r), Some m1)"
    "at m1 (concat (map rr_bytes rs) @ rest)" "steps m m1" by blast
  from Cons.IH [OF 1(2)] 1 show ?case by (auto intro: steps_trans)
qed

section \<open>A whole packet\<close>

definition pad_bytes :: "nat \<Rightarrow> u8 list" where
  "pad_bytes n = replicate ((4 - n mod 4) mod 4) 0"

lemma and_3_eq_0: "(w :: u32) AND 3 = 0 \<longleftrightarrow> unat w mod 4 = 0"
proof -
  have "(3 :: u32) = mask 2" by (simp add: mask_eq_exp_minus_1)
  then have "w AND 3 = take_bit 2 w" by (simp only: take_bit_eq_mask)
  then have "unat (w AND 3) = unat w mod 4" by (simp add: take_bit_eq_mod unat_mod)
  then show ?thesis by (metis unat_eq_zero)
qed

lemma pad_bytes_0: "n mod 4 = 0 \<Longrightarrow> pad_bytes n = []"
  by (simp add: pad_bytes_def)

lemma pad_bytes_step: "n mod 4 \<noteq> 0 \<Longrightarrow> pad_bytes n = 0 # pad_bytes (Suc n)"
proof -
  assume a: "n mod 4 \<noteq> 0"
  have "n mod 4 < 4" by simp
  with a consider "n mod 4 = 1" | "n mod 4 = 2" | "n mod 4 = 3" by linarith
  then show ?thesis by cases (simp_all add: pad_bytes_def mod_Suc numeral_2_eq_2 numeral_3_eq_3)
qed

lemma pad_bytes_total: "(n + length (pad_bytes n)) mod 4 = 0"
proof -
  have "n mod 4 < 4" by simp
  then consider "n mod 4 = 0" | "n mod 4 = 1" | "n mod 4 = 2" | "n mod 4 = 3" by linarith
  then show ?thesis by cases (simp_all add: pad_bytes_def mod_add_left_eq [of n 4, symmetric] mod_Suc)
qed

lemma length_pad_bytes: "length (pad_bytes n) < 4"
  by (simp add: pad_bytes_def)

text \<open>Both padding loops append the zeros that are missing.\<close>

lemma pad_end_room:
  "mb_inv m \<Longrightarrow> mb_off m = length (mb_data m) \<Longrightarrow> pos \<le> mb_end m \<Longrightarrow>
   n = unat (mb_end m) - unat pos \<Longrightarrow> mb_off m + length (pad_bytes n) \<le> unat (mb_size m) \<Longrightarrow>
   \<exists>m'. pad_end mm pos 0 (Some m) = Some (OK, Some m') \<and> mb_inv m' \<and> mb_size m' = mb_size m \<and>
        mb_data m' = mb_data m @ pad_bytes n \<and> mb_off m' = length (mb_data m')"
proof (induction "length (pad_bytes n)" arbitrary: m n)
  case 0
  then have "n mod 4 = 0" using pad_bytes_step [of n] by auto
  moreover have "unat (mb_end m - pos) = n" using 0(4,5) by (simp add: unat_sub)
  ultimately have "(mbuf_end (Some m) - pos) AND 3 = 0" by (simp add: and_3_eq_0 mbuf_end_def)
  then show ?case using 0 by (subst pad_end.simps) simp
next
  case (Suc k)
  have n4: "n mod 4 \<noteq> 0"
  proof
    assume "n mod 4 = 0"
    then have "pad_bytes n = []" by (rule pad_bytes_0)
    then show False using Suc.hyps(2) by simp
  qed
  have p: "pad_bytes n = 0 # pad_bytes (Suc n)" by (rule pad_bytes_step [OF n4])
  have u: "unat (mb_end m - pos) = n" using Suc.prems(3,4) by (simp add: unat_sub)
  then have go: "(mbuf_end (Some m) - pos) AND 3 \<noteq> 0" using n4 by (simp add: and_3_eq_0 mbuf_end_def)
  have "mb_off m + length [0 :: u8] \<le> unat (mb_size m)" using Suc.prems(5) p by simp
  from write_mem_room [OF Suc.prems(1) this, of mm] obtain m1 where 1:
    "mbuf_write_mem mm (Some m) (Some [0]) = Some (OK, Some m1)" "mb_inv m1"
    "mb_data m1 = put_at (mb_off m) [0] (mb_data m)" "mb_off m1 = mb_off m + length [0 :: u8]"
    "mb_size m1 = mb_size m" by blast
  have d: "mb_data m1 = mb_data m @ [0]" using 1(3) Suc.prems(2) by (simp add: put_at_end)
  have e: "unat (mb_end m1) = Suc (unat (mb_end m))"
    using length_mb_data [OF 1(2)] length_mb_data [OF Suc.prems(1)] d by simp
  have le: "pos \<le> mb_end m1" using Suc.prems(3) e by (simp add: word_le_nat_alt)
  have "\<exists>m'. pad_end mm pos 0 (Some m1) = Some (OK, Some m') \<and> mb_inv m' \<and> mb_size m' = mb_size m1 \<and>
        mb_data m' = mb_data m1 @ pad_bytes (Suc n) \<and> mb_off m' = length (mb_data m')"
  proof (rule Suc.hyps(1))
    show "k = length (pad_bytes (Suc n))" using Suc.hyps(2) p by simp
    show "mb_off m1 = length (mb_data m1)" using 1(4) d Suc.prems(2) by simp
    show "Suc n = unat (mb_end m1) - unat pos" using Suc.prems(3,4) e by (simp add: word_le_nat_alt Suc_diff_le)
    show "mb_off m1 + length (pad_bytes (Suc n)) \<le> unat (mb_size m1)" using Suc.prems(5) p 1(4,5) by simp
  qed (use 1 le in simp_all)
  then show ?case using go 1(1,5) d p by (subst pad_end.simps) (simp add: write_u8_mem)
qed

definition rtcp_hdr_bytes :: "u8 \<Rightarrow> rtcp_type \<Rightarrow> u16 \<Rightarrow> u8 list" where
  "rtcp_hdr_bytes count type len = [push_bit 6 RTCP_VERSION OR count, rtcp_type_num type] @ be16 len"

lemma length_rtcp_hdr_bytes [simp]: "length (rtcp_hdr_bytes c t l) = 4"
  by (simp add: rtcp_hdr_bytes_def)

lemma puts_rtcp_hdr: "puts (wr (\<lambda>mb. rtcp_hdr_encode mm mb c (rtcp_type_num t) l)) s (rtcp_hdr_bytes c t l) s"
proof -
  have e: "rtcp_hdr_bytes c t l = [push_bit 6 RTCP_VERSION OR c] @ [rtcp_type_num t] @ be16 l"
    by (simp add: rtcp_hdr_bytes_def)
  have "puts (wr (or_err (\<lambda>mb. mbuf_write_u8 mm mb (push_bit 6 RTCP_VERSION OR c))
             (or_err (\<lambda>mb. mbuf_write_u8 mm mb (rtcp_type_num t))
               (\<lambda>mb. mbuf_write_u16 mm mb (htons l))))) s (rtcp_hdr_bytes c t l) s"
    unfolding wr_or_err e by (rule puts_or puts_u8 puts_u16)+
  then show ?thesis unfolding puts_def by (simp add: wr_def rtcp_hdr_encode_def)
qed

text \<open>The bytes of the packet: header, body, padding.\<close>

definition rtcp_packet :: "rtcp_type \<Rightarrow> u32 \<Rightarrow> u8 list \<Rightarrow> u8 list" where
  "rtcp_packet type count body =
     (let content = body @ pad_bytes (length body)
      in rtcp_hdr_bytes (ucast count) type (word_of_nat (length content div 4)) @ content)"

lemma length_rtcp_packet: "length (rtcp_packet type count body) = 4 + length body + length (pad_bytes (length body))"
  by (simp add: rtcp_packet_def)

lemma vencode_room:
  assumes i: "mb_inv m" and b: "puts (vencode_body mm type count args) s body s'"
    and r: "mb_off m + length (rtcp_packet type count body) \<le> unat (mb_size m)"
  shows "\<exists>m'. rtcp_vencode mm (Some m) type count args s = Some (OK, s', Some m') \<and> mb_inv m' \<and>
    mb_size m' = mb_size m \<and> mb_data m' = take (mb_off m) (mb_data m) @ rtcp_packet type count body \<and>
    mb_off m' = length (mb_data m')"
proof -
  let ?L = "length body" and ?P = "pad_bytes (length body)"
  have r: "mb_off m + (4 + ?L + length ?P) \<le> unat (mb_size m)" using r by (simp add: length_rtcp_packet)
  have sz: "unat (mb_size m) < 2 ^ 32" using unat_u32_less [of "mb_size m"] by simp
  have blk: "unat (mb_size m) \<le> length (the_blk m)" by (rule mb_size_le_blk [OF i])
  have o: "mb_off m \<le> unat (mb_end m)" using mb_inv_order [OF i] by simp
  define p where "p = mb_pos m + RTCP_HDR_SIZE"
  have p: "unat p = mb_off m + 4"
    unfolding p_def RTCP_HDR_SIZE_def mb_off_def using r sz by (subst unat_add_u32) (simp_all add: mb_off_def)
  let ?m1 = "m\<lparr>mb_pos := p, mb_end := p\<rparr>"
  have i1: "mb_inv ?m1" using i p r by (auto simp: mb_inv_def word_le_nat_alt split: option.splits)
  have o1: "mb_off ?m1 = mb_off m + 4" using p by (simp add: mb_off_def)
  have d1: "mb_data ?m1 = take (mb_off m + 4) (the_blk m)" using p by (simp add: mb_data_def the_blk_def)
  have l1: "length (mb_data ?m1) = mb_off m + 4" using d1 blk r by simp
  have "mb_off ?m1 + length body \<le> unat (mb_size ?m1)" using r o1 by simp
  from putsD [OF b i1 this] obtain m2 where 2: "vencode_body mm type count args (s, Some ?m1) = Some (OK, s', Some m2)"
    "mb_inv m2" "mb_size m2 = mb_size ?m1" "mb_data m2 = put_at (mb_off ?m1) body (mb_data ?m1)"
    "mb_off m2 = mb_off ?m1 + length body" by blast
  have d2: "mb_data m2 = mb_data ?m1 @ body" using 2(4) o1 l1 put_at_end [of "mb_data ?m1" body] by simp
  have e2: "unat (mb_end m2) = mb_off m + 4 + ?L" using length_mb_data [OF 2(2)] d2 l1 by simp
  have le2: "mb_pos m \<le> mb_end m2" using e2 by (simp add: word_le_nat_alt mb_off_def)
  have off2: "mb_off m2 = length (mb_data m2)" using 2(5) o1 d2 l1 by simp
  have n2: "4 + ?L = unat (mb_end m2) - unat (mb_pos m)" using e2 by (simp add: mb_off_def)
  have pb: "pad_bytes (4 + ?L) = ?P" by (simp add: pad_bytes_def)
  have r2: "mb_off m2 + length (pad_bytes (4 + ?L)) \<le> unat (mb_size m2)"
    using r 2(3,5) o1 pb by simp
  from pad_end_room [OF 2(2) off2 le2 n2 r2, of mm] obtain m3 where 3:
    "pad_end mm (mb_pos m) 0 (Some m2) = Some (OK, Some m3)" "mb_inv m3" "mb_size m3 = mb_size m2"
    "mb_data m3 = mb_data m2 @ ?P" "mb_off m3 = length (mb_data m3)" unfolding pb by blast
  have d3: "mb_data m3 = take (mb_off m + 4) (the_blk m) @ body @ ?P" using 3(4) d2 d1 by simp
  have e3: "unat (mb_end m3) = mb_off m + 4 + ?L + length ?P" using length_mb_data [OF 3(2)] d3 d1 l1 by simp
  define len :: u16 where "len = ucast ((mb_end m3 - mb_pos m - RTCP_HDR_SIZE) div 4)"
  have len: "len = word_of_nat (length (body @ ?P) div 4)"
  proof -
    have "mb_pos m \<le> mb_end m3" using e3 by (simp add: word_le_nat_alt mb_off_def)
    then have a: "unat (mb_end m3 - mb_pos m) = 4 + ?L + length ?P" using e3 by (simp add: unat_sub mb_off_def)
    then have "RTCP_HDR_SIZE \<le> mb_end m3 - mb_pos m" by (simp add: word_le_nat_alt RTCP_HDR_SIZE_def)
    then have "unat (mb_end m3 - mb_pos m - RTCP_HDR_SIZE) = ?L + length ?P"
      using a by (simp add: unat_sub RTCP_HDR_SIZE_def)
    then have "unat ((mb_end m3 - mb_pos m - RTCP_HDR_SIZE) div 4) = (?L + length ?P) div 4"
      by (simp add: unat_div)
    moreover have "len = word_of_nat (unat ((mb_end m3 - mb_pos m - RTCP_HDR_SIZE) div 4))"
      unfolding len_def by simp
    ultimately show ?thesis by simp
  qed
  let ?m4 = "m3\<lparr>mb_pos := mb_pos m\<rparr>"
  have "unat (mb_pos m) \<le> length (mb_data m3)" using length_mb_data [OF 3(2)] e3 by (simp add: mb_off_def)
  note s4 = seek_inv [OF 3(2) this]
  have r4: "mb_off ?m4 + length (rtcp_hdr_bytes (ucast count) type len) \<le> unat (mb_size ?m4)"
    using s4(3) r 3(3) 2(3) by (simp add: mb_off_def)
  obtain m5 where 5: "rtcp_hdr_encode mm (Some ?m4) (ucast count) (rtcp_type_num type) len = Some (OK, Some m5)"
    "mb_inv m5" "mb_size m5 = mb_size ?m4" "mb_data m5 = put_at (mb_off ?m4) (rtcp_hdr_bytes (ucast count) type len) (mb_data ?m4)"
    by (rule putsD [OF puts_rtcp_hdr [of mm "ucast count" type len s'] s4(1) r4]) (auto simp: wr_def bind_eq_Some_conv)
  have tk: "take (mb_off m) (the_blk m) = take (mb_off m) (mb_data m)"
    using o by (simp add: mb_data_def min_def)
  have d5: "mb_data m5 = take (mb_off m) (mb_data m) @ rtcp_packet type count body"
  proof -
    have o4: "mb_off ?m4 = mb_off m" by (simp add: mb_off_def)
    have dd: "mb_data ?m4 = take (mb_off m + 4) (the_blk m) @ body @ ?P" using s4(2) d3 by simp
    have lt: "length (take (mb_off m + 4) (the_blk m)) = mb_off m + 4" using l1 d1 by simp
    have "take (mb_off m) (mb_data ?m4) = take (mb_off m) (the_blk m)" unfolding dd using lt by simp
    moreover have "drop (mb_off m + 4) (mb_data ?m4) = body @ ?P" unfolding dd using lt by simp
    ultimately show ?thesis unfolding 5(4) o4 put_at_def
      by (simp add: tk rtcp_packet_def Let_def len)
  qed
  let ?m6 = "m5\<lparr>mb_pos := mb_end m5\<rparr>"
  have "unat (mb_end m5) \<le> length (mb_data m5)" using length_mb_data [OF 5(2)] by simp
  note s6 = seek_inv [OF 5(2) this]
  have fin: "vencode_finish mm type count (mb_pos m) (Some m2) = Some (OK, Some ?m6)"
    using 3(1) 5(1) by (simp add: vencode_finish_def mbuf_end_def len_def)
  have "rtcp_vencode mm (Some m) type count args s = Some (OK, s', Some ?m6)"
    using 2(1) fin by (simp add: rtcp_vencode_def p_def)
  then show ?thesis using s6 5(3) 3(3) 2(3) d5 length_mb_data [OF 5(2)] by simp
qed

section \<open>Decoding what was encoded\<close>

lemma rtcp_hdr_byte:
  assumes c: "c < 32"
  shows "drop_bit 6 (push_bit 6 RTCP_VERSION OR c) AND 3 = RTCP_VERSION"
    "\<not> bit_flag (push_bit 6 RTCP_VERSION OR c) 5" "(push_bit 6 RTCP_VERSION OR c) AND 0x1F = c"
proof -
  have b: "bit c i \<Longrightarrow> i < 5" for i
    using c bit_word_less [of c 5 i] by (simp add: word_less_nat_alt)
  have v: "bit (2 :: int) i \<longleftrightarrow> i = 1" for i
  proof -
    have "bit ((2 :: int) ^ 1) i \<longleftrightarrow> i = 1" by (simp only: bit_exp_iff possible_bit_int) auto
    then show ?thesis by simp
  qed
  show "drop_bit 6 (push_bit 6 RTCP_VERSION OR c) AND 3 = RTCP_VERSION"
    by (rule bit_word_eqI) (auto simp: bit_and_iff bit_or_iff bit_drop_bit_eq bit_push_bit_iff RTCP_VERSION_def bit_mask_int v dest: b)
  show "\<not> bit_flag (push_bit 6 RTCP_VERSION OR c) 5"
    by (auto simp: bit_flag bit_or_iff bit_push_bit_iff dest: b)
  show "(push_bit 6 RTCP_VERSION OR c) AND 0x1F = c"
    by (rule bit_word_eqI) (auto simp: bit_and_iff bit_or_iff bit_push_bit_iff bit_mask_int dest: b)
qed

lemma at_off: "at m rest \<Longrightarrow> mb_off m + length rest = length (mb_data m)"
  using mb_off_le [of m] by (auto simp: at_def)

lemma rtcp_hdr_decode_at:
  assumes c: "c < 32" and a: "at m (rtcp_hdr_bytes c t l @ rest)"
  shows "\<exists>m'. rtcp_hdr_decode (Some m) =
      Some ((OK, \<lparr>rh_version = RTCP_VERSION, rh_p = False, rh_count = c, rh_pt = rtcp_type_num t, rh_length = l\<rparr>), Some m') \<and>
      at m' rest \<and> steps m m'"
proof -
  define b where "b = push_bit 6 RTCP_VERSION OR c"
  have f: "drop_bit 6 b AND 3 = RTCP_VERSION" "\<not> bit_flag b 5" "b AND 0x1F = c"
    unfolding b_def using rtcp_hdr_byte [OF c] by simp_all
  have a: "at m (b # rtcp_type_num t # be16 l @ rest)" using a by (simp add: rtcp_hdr_bytes_def b_def)
  have g: "\<not> mbuf_get_left (Some m) < RTCP_HDR_SIZE" by (rule left_ge_at [OF a]) (simp add: RTCP_HDR_SIZE_def)
  obtain m1 where 1: "mbuf_read_u8 (Some m) = Some (b, Some m1)" "at m1 (rtcp_type_num t # be16 l @ rest)" "steps m m1"
    using read_u8_at [OF a] by blast
  obtain m2 where 2: "mbuf_read_u8 (Some m1) = Some (rtcp_type_num t, Some m2)" "at m2 (be16 l @ rest)" "steps m1 m2"
    using read_u8_at [OF 1(2)] by blast
  obtain m3 where 3: "read_u16n (Some m2) = Some (l, Some m3)" "at m3 rest" "steps m2 m3"
    using read_u16n_at [OF 2(2)] by blast
  have "steps m m3" using 1(3) 2(3) 3(3) by (blast intro: steps_trans)
  then show ?thesis using g 1(1) 2(1) 3(1,2) f by (simp add: rtcp_hdr_decode_def)
qed

text \<open>The common frame of \<open>rtcp_decode\<close> for a packet whose body the type's decoder reads to its end.\<close>

lemma rtcp_decode_packet_at:
  assumes a: "at m (rtcp_packet t count body @ rest)" and c: "ucast count < (32 :: u8)"
    and al: "length body mod 4 = 0" and small: "length body div 4 < 65536"
    and mem: "mem A_msg"
    and d: "\<And>m. at m (body @ rest) \<Longrightarrow>
      \<exists>m'. decode_body mem \<lparr>rh_version = RTCP_VERSION, rh_p = False, rh_count = ucast count, rh_pt = rtcp_type_num t,
             rh_length = word_of_nat (length body div 4)\<rparr> (word_of_nat (length body)) (Some m)
        = Some ((OK, b), Some m') \<and> at m' rest \<and> steps m m'"
  shows "\<exists>m'. rtcp_decode mem True (Some m) =
      Some ((OK, Some \<lparr>rm_hdr = \<lparr>rh_version = RTCP_VERSION, rh_p = False, rh_count = ucast count,
        rh_pt = rtcp_type_num t, rh_length = word_of_nat (length body div 4)\<rparr>, rm_r = b\<rparr>), Some m') \<and>
      at m' rest \<and> steps m m'"
proof -
  let ?l = "word_of_nat (length body div 4) :: u16"
  let ?h = "\<lparr>rh_version = RTCP_VERSION, rh_p = False, rh_count = ucast count, rh_pt = rtcp_type_num t, rh_length = ?l\<rparr>"
  have pk: "rtcp_packet t count body = rtcp_hdr_bytes (ucast count) t ?l @ body"
    using al by (simp add: rtcp_packet_def pad_bytes_0)
  have a': "at m (rtcp_hdr_bytes (ucast count) t ?l @ (body @ rest))" using a by (simp add: pk)
  from rtcp_hdr_decode_at [OF c a'] obtain m1 where 1: "rtcp_hdr_decode (Some m) = Some ((OK, ?h), Some m1)"
    "at m1 (body @ rest)" "steps m m1" by blast
  have "unat ?l = length body div 4" using small by (simp add: unat_of_nat take_bit_nat_eq_self)
  then have ul: "unat ((ucast ?l :: u32) * 4) = length body"
    using al small by (simp add: unat_word_ariths) (metis dvd_div_mult_self dvd_eq_mod_eq_0)
  then have rem: "(ucast ?l :: u32) * 4 = word_of_nat (length body)" by (metis of_nat_unat ucast_id)
  have r: "\<not> mbuf_get_left (Some m1) < (ucast ?l :: u32) * 4"
    by (rule left_ge_at [OF 1(2)]) (simp only: ul length_append)
  from d [OF 1(2)] obtain m2 where 2: "decode_body mem ?h (word_of_nat (length body)) (Some m1) = Some ((OK, b), Some m2)"
    "at m2 rest" "steps m1 m2" by blast
  have s: "steps m m2" using 1(3) 2(3) by (rule steps_trans)
  have off: "mb_off m2 = mb_off m + 4 + length body"
    using at_off [OF a'] at_off [OF 2(2)] steps_len [OF s] by simp
  have "unat (mb_pos m2 - mb_pos m) = 4 + length body"
    using off by (simp add: unat_sub word_le_nat_alt mb_off_def)
  then have "(mb_pos m2 - mb_pos m) AND 3 = 0" using al by (simp add: and_3_eq_0)
  then have sl: "slurp_padding (mb_pos m) (Some m2) = Some m2" by (subst slurp_padding.simps) simp
  have g: "\<not> mbuf_get_left (Some m) < RTCP_HDR_SIZE"
    by (rule left_ge_at [OF a']) (simp add: RTCP_HDR_SIZE_def)
  have "rtcp_decode mem True (Some m) = Some ((OK, Some \<lparr>rm_hdr = ?h, rm_r = b\<rparr>), Some m2)"
    using g mem 1(1) r 2(1) sl unfolding rem by (simp add: rtcp_decode_def Let_def rem mbuf_pos_def)
  then show ?thesis using 2(2) s by blast
qed

lemma sr_body_at:
  assumes a: "at m (concat (map be32 [ssrc, sec, frac, ts, ps, os]) @ concat (map rr_bytes rs) @ rest)"
    and n: "length rs = unat count" and mem: "mem A_rrv"
  shows "\<exists>m'. decode_sr mem count (Some m) = Some ((OK, Body_SR ssrc sec frac ts ps os rs), Some m') \<and>
    at m' rest \<and> steps m m'"
proof -
  have l: "\<not> mbuf_get_left (Some m) < RTCP_SRC_SIZE + RTCP_SR_SIZE"
    by (rule left_ge_at [OF a]) (simp add: RTCP_SRC_SIZE_def RTCP_SR_SIZE_def)
  have a: "at m (be32 ssrc @ be32 sec @ be32 frac @ be32 ts @ be32 ps @ be32 os @ concat (map rr_bytes rs) @ rest)"
    using a by simp
  obtain m1 where 1: "read_u32n (Some m) = Some (ssrc, Some m1)" "steps m m1"
    "at m1 (be32 sec @ be32 frac @ be32 ts @ be32 ps @ be32 os @ concat (map rr_bytes rs) @ rest)"
    using read_u32n_at [OF a] by blast
  obtain m2 where 2: "read_u32n (Some m1) = Some (sec, Some m2)" "steps m1 m2"
    "at m2 (be32 frac @ be32 ts @ be32 ps @ be32 os @ concat (map rr_bytes rs) @ rest)"
    using read_u32n_at [OF 1(3)] by blast
  obtain m3 where 3: "read_u32n (Some m2) = Some (frac, Some m3)" "steps m2 m3"
    "at m3 (be32 ts @ be32 ps @ be32 os @ concat (map rr_bytes rs) @ rest)" using read_u32n_at [OF 2(3)] by blast
  obtain m4 where 4: "read_u32n (Some m3) = Some (ts, Some m4)" "steps m3 m4"
    "at m4 (be32 ps @ be32 os @ concat (map rr_bytes rs) @ rest)" using read_u32n_at [OF 3(3)] by blast
  obtain m5 where 5: "read_u32n (Some m4) = Some (ps, Some m5)" "steps m4 m5"
    "at m5 (be32 os @ concat (map rr_bytes rs) @ rest)" using read_u32n_at [OF 4(3)] by blast
  obtain m6 where 6: "read_u32n (Some m5) = Some (os, Some m6)" "steps m5 m6"
    "at m6 (concat (map rr_bytes rs) @ rest)" using read_u32n_at [OF 5(3)] by blast
  obtain m7 where 7: "decode_rrs (unat count) (Some m6) = Some ((OK, rs), Some m7)" "at m7 rest" "steps m6 m7"
    using decode_rrs_at [OF 6(3)] unfolding n by blast
  have "steps m m7" using 1(2) 2(2) 3(2) 4(2) 5(2) 6(2) 7(3) by (blast intro: steps_trans)
  then show ?thesis using l mem 1(1) 2(1) 3(1) 4(1) 5(1) 6(1) 7(1,2)
    by (simp add: decode_sr_def rtcp_rr_alloc_def)
qed

lemma rr_body_at:
  assumes a: "at m (concat (map be32 [ssrc]) @ concat (map rr_bytes rs) @ rest)"
    and n: "length rs = unat count" and mem: "mem A_rrv"
  shows "\<exists>m'. decode_rr mem count (Some m) = Some ((OK, Body_RR ssrc rs), Some m') \<and> at m' rest \<and> steps m m'"
proof -
  have l: "\<not> mbuf_get_left (Some m) < RTCP_SRC_SIZE"
    by (rule left_ge_at [OF a]) (simp add: RTCP_SRC_SIZE_def)
  have a: "at m (be32 ssrc @ concat (map rr_bytes rs) @ rest)" using a by simp
  obtain m1 where 1: "read_u32n (Some m) = Some (ssrc, Some m1)" "steps m m1" "at m1 (concat (map rr_bytes rs) @ rest)"
    using read_u32n_at [OF a] by blast
  obtain m2 where 2: "decode_rrs (unat count) (Some m1) = Some ((OK, rs), Some m2)" "at m2 rest" "steps m1 m2"
    using decode_rrs_at [OF 1(3)] unfolding n by blast
  have "steps m m2" using 1(2) 2(3) by (rule steps_trans)
  then show ?thesis using l mem 1(1) 2(1,2) by (simp add: decode_rr_def rtcp_rr_alloc_def)
qed

text \<open>The report that a peer reads: sender report or receiver report.\<close>

definition report_body :: "u32 list \<Rightarrow> rtcp_rr list \<Rightarrow> u8 list" where
  "report_body ws rs = concat (map be32 ws) @ concat (map rr_bytes rs)"

lemma length_concat_rr [simp]: "length (concat (map rr_bytes rs)) = 24 * length rs"
  by (induction rs) auto

lemma length_report_body: "length (report_body ws rs) = 4 * length ws + 24 * length rs"
  by (simp add: report_body_def)

lemma ucast_count: "n < 32 \<Longrightarrow> unat (ucast (word_of_nat n :: u32) :: u8) = n"
  by (simp add: unsigned_ucast_eq unsigned_of_nat take_bit_nat_eq_self)

lemma sr_decode_at:
  assumes a: "at m (rtcp_packet RTCP_SR (word_of_nat (length rs)) (report_body [ssrc, sec, frac, ts, ps, os] rs) @ rest)"
    and n: "length rs < 32" and mem: "mem A_msg" "mem A_rrv"
  shows "\<exists>h m'. rtcp_decode mem True (Some m) =
      Some ((OK, Some \<lparr>rm_hdr = h, rm_r = Body_SR ssrc sec frac ts ps os rs\<rparr>), Some m') \<and> at m' rest \<and> steps m m'"
proof -
  let ?b = "report_body [ssrc, sec, frac, ts, ps, os] rs" and ?c = "word_of_nat (length rs) :: u32"
  have c: "ucast ?c < (32 :: u8)" using ucast_count [OF n] n by (simp add: word_less_nat_alt)
  have lb: "length ?b = 24 + 24 * length rs" by (simp add: length_report_body)
  have al: "length ?b mod 4 = 0" unfolding lb by presburger
  have sm: "length ?b div 4 < 65536" unfolding lb using n by simp
  have d: "\<exists>m'. decode_body mem \<lparr>rh_version = RTCP_VERSION, rh_p = False, rh_count = ucast ?c,
        rh_pt = rtcp_type_num RTCP_SR, rh_length = word_of_nat (length ?b div 4)\<rparr> (word_of_nat (length ?b)) (Some m)
      = Some ((OK, Body_SR ssrc sec frac ts ps os rs), Some m') \<and> at m' rest \<and> steps m m'"
    if a: "at m (?b @ rest)" for m
    using sr_body_at [of m ssrc sec frac ts ps os rs rest "ucast ?c" mem] a mem ucast_count [OF n]
    by (simp add: decode_body_def report_body_def)
  from rtcp_decode_packet_at [OF a c al sm mem(1) d] show ?thesis by blast
qed

lemma rr_decode_packet_at:
  assumes a: "at m (rtcp_packet RTCP_RR (word_of_nat (length rs)) (report_body [ssrc] rs) @ rest)"
    and n: "length rs < 32" and mem: "mem A_msg" "mem A_rrv"
  shows "\<exists>h m'. rtcp_decode mem True (Some m) =
      Some ((OK, Some \<lparr>rm_hdr = h, rm_r = Body_RR ssrc rs\<rparr>), Some m') \<and> at m' rest \<and> steps m m'"
proof -
  let ?b = "report_body [ssrc] rs" and ?c = "word_of_nat (length rs) :: u32"
  have c: "ucast ?c < (32 :: u8)" using ucast_count [OF n] n by (simp add: word_less_nat_alt)
  have lb: "length ?b = 4 + 24 * length rs" by (simp add: length_report_body)
  have al: "length ?b mod 4 = 0" unfolding lb by presburger
  have sm: "length ?b div 4 < 65536" unfolding lb using n by simp
  have d: "\<exists>m'. decode_body mem \<lparr>rh_version = RTCP_VERSION, rh_p = False, rh_count = ucast ?c,
        rh_pt = rtcp_type_num RTCP_RR, rh_length = word_of_nat (length ?b div 4)\<rparr> (word_of_nat (length ?b)) (Some m)
      = Some ((OK, Body_RR ssrc rs), Some m') \<and> at m' rest \<and> steps m m'"
    if a: "at m (?b @ rest)" for m
    using rr_body_at [of m ssrc rs rest "ucast ?c" mem] a mem ucast_count [OF n]
    by (simp add: decode_body_def report_body_def)
  from rtcp_decode_packet_at [OF a c al sm mem(1) d] show ?thesis by blast
qed

section \<open>Source descriptions\<close>

lemma pad_pos_room:
  "mb_inv m \<Longrightarrow> start \<le> mb_pos m \<Longrightarrow> n = mb_off m - unat start \<Longrightarrow>
   mb_off m + length (pad_bytes n) \<le> unat (mb_size m) \<Longrightarrow>
   \<exists>m'. pad_pos mm start 0 (Some m) = Some (OK, Some m') \<and> mb_inv m' \<and> mb_size m' = mb_size m \<and>
        mb_data m' = put_at (mb_off m) (pad_bytes n) (mb_data m) \<and> mb_off m' = mb_off m + length (pad_bytes n)"
proof (induction "length (pad_bytes n)" arbitrary: m n)
  case 0
  then have "n mod 4 = 0" using pad_bytes_step [of n] by auto
  moreover have "unat (mb_pos m - start) = n" using 0(3,4) by (simp add: unat_sub mb_off_def)
  ultimately have "(mbuf_pos (Some m) - start) AND 3 = 0" by (simp add: and_3_eq_0 mbuf_pos_def)
  then show ?case using 0 by (subst pad_pos.simps) simp
next
  case (Suc k)
  have n4: "n mod 4 \<noteq> 0"
  proof
    assume "n mod 4 = 0"
    then have "pad_bytes n = []" by (rule pad_bytes_0)
    then show False using Suc.hyps(2) by simp
  qed
  have p: "pad_bytes n = 0 # pad_bytes (Suc n)" by (rule pad_bytes_step [OF n4])
  have u: "unat (mb_pos m - start) = n" using Suc.prems(2,3) by (simp add: unat_sub mb_off_def)
  then have go: "(mbuf_pos (Some m) - start) AND 3 \<noteq> 0" using n4 by (simp add: and_3_eq_0 mbuf_pos_def)
  have "mb_off m + length [0 :: u8] \<le> unat (mb_size m)" using Suc.prems(4) p by simp
  from write_mem_room [OF Suc.prems(1) this, of mm] obtain m1 where 1:
    "mbuf_write_mem mm (Some m) (Some [0]) = Some (OK, Some m1)" "mb_inv m1"
    "mb_data m1 = put_at (mb_off m) [0] (mb_data m)" "mb_off m1 = mb_off m + length [0 :: u8]"
    "mb_size m1 = mb_size m" by blast
  have st: "unat start \<le> mb_off m" using Suc.prems(2) by (simp add: word_le_nat_alt mb_off_def)
  have "\<exists>m'. pad_pos mm start 0 (Some m1) = Some (OK, Some m') \<and> mb_inv m' \<and> mb_size m' = mb_size m1 \<and>
        mb_data m' = put_at (mb_off m1) (pad_bytes (Suc n)) (mb_data m1) \<and> mb_off m' = mb_off m1 + length (pad_bytes (Suc n))"
  proof (rule Suc.hyps(1))
    show "k = length (pad_bytes (Suc n))" using Suc.hyps(2) p by simp
    show "start \<le> mb_pos m1" using st 1(4) by (simp add: word_le_nat_alt mb_off_def)
    show "Suc n = mb_off m1 - unat start" using Suc.prems(3) st 1(4) by (simp add: Suc_diff_le)
    show "mb_off m1 + length (pad_bytes (Suc n)) \<le> unat (mb_size m1)" using Suc.prems(4) p 1(4,5) by simp
  qed (use 1 in simp_all)
  then show ?case using go 1 p mb_off_le [OF Suc.prems(1)] put_at_put_at [of "mb_off m" "mb_data m" "[0]" "pad_bytes (Suc n)"]
    by (subst pad_pos.simps) (auto simp: write_u8_mem)
qed

text \<open>The bytes of a chunk with one item.\<close>

definition sdes_chunk :: "u32 \<Rightarrow> u8 \<Rightarrow> string \<Rightarrow> u8 list" where
  "sdes_chunk src ty text =
     (let c = be32 src @ [ty, word_of_nat (length text)] @ str_bytes text @ [0] in c @ pad_bytes (length c))"

lemma length_sdes_chunk: "length (sdes_chunk src ty text) mod 4 = 0"
  unfolding sdes_chunk_def Let_def length_append [of _ "pad_bytes _"] by (rule pad_bytes_total)

lemma puts_item:
  assumes "length text \<le> 255"
  shows "puts (\<lambda>(s, mb). do { (e, mb) \<leftarrow> encode_items mm 0 [(ty, Some text)] mb; Some (snd e, s, mb) }) s
     ([ty] @ [word_of_nat (length text)] @ str_bytes text) s"
    and "encode_items mm 0 [(ty, Some text)] mb = Some (e, mb') \<Longrightarrow> \<not> fst e"
proof -
  have p: "puts (wr (or_err (\<lambda>mb. mbuf_write_u8 mm mb ty)
      (or_err (\<lambda>mb. mbuf_write_u8 mm mb (word_of_nat (length text)))
        (\<lambda>mb. mbuf_write_mem mm mb (Some (str_bytes text)))))) s
      ([ty] @ [word_of_nat (length text)] @ str_bytes text) s"
    unfolding wr_or_err by (rule puts_or puts_u8 puts_mem)+
  then show "puts (\<lambda>(s, mb). do { (e, mb) \<leftarrow> encode_items mm 0 [(ty, Some text)] mb; Some (snd e, s, mb) }) s
     ([ty] @ [word_of_nat (length text)] @ str_bytes text) s"
    using assms by (simp add: wr_def case_prod_unfold bind_assoc)
  show "encode_items mm 0 [(ty, Some text)] mb = Some (e, mb') \<Longrightarrow> \<not> fst e"
    using assms by (auto simp: bind_eq_Some_conv split: if_splits)
qed

lemma puts_sdes [puts_intros]:
  assumes t: "length text \<le> 255"
  shows "puts (wr (\<lambda>mb. rtcp_sdes_encode mm mb src [(ty, Some text)])) s (sdes_chunk src ty text) s"
  unfolding puts_def
proof (intro allI impI, elim conjE)
  fix m assume i: "mb_inv m" and r: "mb_off m + length (sdes_chunk src ty text) \<le> unat (mb_size m)"
  let ?it = "[ty] @ [word_of_nat (length text)] @ str_bytes text"
  let ?c = "be32 src @ ?it @ [0]"
  have ch: "sdes_chunk src ty text = ?c @ pad_bytes (length ?c)" by (simp add: sdes_chunk_def Let_def)
  have r: "mb_off m + (4 + (2 + length text) + 1 + length (pad_bytes (length ?c))) \<le> unat (mb_size m)"
    using r unfolding ch by simp
  obtain m1 where 1: "mbuf_write_u32 mm (Some m) (htonl src) = Some (OK, Some m1)" "mb_inv m1" "mb_size m1 = mb_size m"
    "mb_data m1 = put_at (mb_off m) (be32 src) (mb_data m)" "mb_off m1 = mb_off m + length (be32 src)"
    using write_mem_room [OF i, of "be32 src" mm] r by (auto simp: write_be)
  have r1: "mb_off m1 + length ?it \<le> unat (mb_size m1)" using r 1 by simp
  obtain m2 e where 2: "encode_items mm 0 [(ty, Some text)] (Some m1) = Some (e, Some m2)" "snd e = OK" "mb_inv m2"
    "mb_size m2 = mb_size m1" "mb_data m2 = put_at (mb_off m1) ?it (mb_data m1)" "mb_off m2 = mb_off m1 + length ?it"
    by (rule putsD [OF puts_item(1) [OF t, of mm ty "()"] 1(2) r1]) (auto simp: bind_eq_Some_conv)
  have ne: "\<not> fst e" by (rule puts_item(2) [OF t 2(1)])
  have "mb_off m2 + length [0 :: u8] \<le> unat (mb_size m2)" using r 1 2 by simp
  from write_mem_room [OF 2(3) this, of mm] obtain m3 where 3:
    "mbuf_write_u8 mm (Some m2) 0 = Some (OK, Some m3)" "mb_inv m3" "mb_size m3 = mb_size m2"
    "mb_data m3 = put_at (mb_off m2) [0] (mb_data m2)" "mb_off m3 = mb_off m2 + length [0 :: u8]"
    by (auto simp: write_u8_mem)
  have o: "mb_off m \<le> length (mb_data m)" by (rule mb_off_le [OF i])
  have d3: "mb_data m3 = put_at (mb_off m) ?c (mb_data m)"
  proof -
    have "mb_data m2 = put_at (mb_off m) (be32 src @ ?it) (mb_data m)"
      unfolding 2(5) 1(4,5) by (rule put_at_put_at [OF o])
    moreover have "mb_off m2 = mb_off m + length (be32 src @ ?it)" using 2(6) 1(5) by simp
    ultimately show ?thesis using put_at_put_at [OF o, of "be32 src @ ?it" "[0]"] 3(4) by simp
  qed
  have o3: "mb_off m3 = mb_off m + length ?c" using 3(5) 2(6) 1(5) by simp
  have st: "mb_pos m \<le> mb_pos m3" using o3 by (simp add: word_le_nat_alt mb_off_def)
  have n: "length ?c = mb_off m3 - unat (mb_pos m)" unfolding o3 by (simp add: mb_off_def)
  have rp: "mb_off m3 + length (pad_bytes (length ?c)) \<le> unat (mb_size m3)"
    unfolding o3 using r 3(3) 2(4) 1(3) by simp
  from pad_pos_room [OF 3(2) st n rp, of mm] obtain m4 where 4:
    "pad_pos mm (mb_pos m) 0 (Some m3) = Some (OK, Some m4)" "mb_inv m4" "mb_size m4 = mb_size m3"
    "mb_data m4 = put_at (mb_off m3) (pad_bytes (length ?c)) (mb_data m3)" "mb_off m4 = mb_off m3 + length (pad_bytes (length ?c))"
    by blast
  have d4: "mb_data m4 = put_at (mb_off m) (sdes_chunk src ty text) (mb_data m)"
    unfolding 4(4) o3 d3 ch by (rule put_at_put_at [OF o])
  have "rtcp_sdes_encode mm (Some m) src [(ty, Some text)] = Some (OK, Some m4)"
    using 1(1) 2(1,2) ne 3(1) 4(1) by (simp add: rtcp_sdes_encode_def mbuf_pos_def del: encode_items.simps)
  then show "\<exists>m'. wr (\<lambda>mb. rtcp_sdes_encode mm mb src [(ty, Some text)]) (s, Some m) = Some (OK, s, Some m') \<and>
      mb_inv m' \<and> mb_size m' = mb_size m \<and> mb_data m' = put_at (mb_off m) (sdes_chunk src ty text) (mb_data m) \<and>
      mb_off m' = mb_off m + length (sdes_chunk src ty text)"
    using 4(2,3,5) 3(3) 2(4) 1(3) d4 o3 ch by (simp add: wr_def)
qed

lemma slurp_at:
  "at m (pad_bytes n @ rest) \<Longrightarrow> start \<le> mb_pos m \<Longrightarrow> n = mb_off m - unat start \<Longrightarrow>
   \<exists>m'. slurp_padding start (Some m) = Some m' \<and> at m' rest \<and> steps m m'"
proof (induction "length (pad_bytes n)" arbitrary: m n)
  case 0
  then have "n mod 4 = 0" using pad_bytes_step [of n] by auto
  moreover have "unat (mb_pos m - start) = n" using 0(3,4) by (simp add: unat_sub mb_off_def)
  ultimately have "(mb_pos m - start) AND 3 = 0" by (simp add: and_3_eq_0)
  then show ?case using 0 by (subst slurp_padding.simps) (auto simp: at_def steps_refl)
next
  case (Suc k)
  have n4: "n mod 4 \<noteq> 0"
  proof
    assume "n mod 4 = 0"
    then have "pad_bytes n = []" by (rule pad_bytes_0)
    then show False using Suc.hyps(2) by simp
  qed
  have p: "pad_bytes n = 0 # pad_bytes (Suc n)" by (rule pad_bytes_step [OF n4])
  have a: "at m (0 # pad_bytes (Suc n) @ rest)" using Suc.prems(1) by (simp add: p)
  have i: "mb_inv m" using a by (simp add: at_def)
  have u: "unat (mb_pos m - start) = n" using Suc.prems(2,3) by (simp add: unat_sub mb_off_def)
  then have go: "(mb_pos m - start) AND 3 \<noteq> 0" using n4 by (simp add: and_3_eq_0)
  have l: "\<not> mbuf_get_left (Some m) < 1" by (rule left_ge_at [OF a]) simp
  then have l0: "mbuf_get_left (Some m) \<noteq> 0" by auto
  from skip_steps [OF i l] obtain m1 where 1: "skip 1 (Some m) = Some m1" "steps m m1" "mb_off m1 = mb_off m + 1" by auto
  then have m1: "m1 = m\<lparr>mb_pos := mb_pos m + 1\<rparr>" by (simp add: skip_def mbuf_advance_def)
  have "drop (mb_off m + 1) (mb_data m) = pad_bytes (Suc n) @ rest"
    using a by (simp add: at_def) (metis drop_drop drop_Suc_Cons drop_0 One_nat_def Suc_eq_plus1_left)
  then have a1: "at m1 (pad_bytes (Suc n) @ rest)" using 1 by (simp add: at_def steps_def)
  have st: "unat start \<le> mb_off m" using Suc.prems(2) by (simp add: word_le_nat_alt mb_off_def)
  have "\<exists>m'. slurp_padding start (Some m1) = Some m' \<and> at m' rest \<and> steps m1 m'"
  proof (rule Suc.hyps(1) [OF _ a1])
    show "k = length (pad_bytes (Suc n))" using Suc.hyps(2) p by simp
    show "start \<le> mb_pos m1" using st 1(3) by (simp add: word_le_nat_alt mb_off_def)
    show "Suc n = mb_off m1 - unat start" using Suc.prems(3) st 1(3) by (simp add: Suc_diff_le)
  qed
  then obtain m' where m': "slurp_padding start (Some m1) = Some m'" "at m' rest" "steps m1 m'" by blast
  have "slurp_padding start (Some m) = slurp_padding start (Some m1)"
    using go l0 m1 by (subst slurp_padding.simps) simp
  then show ?case using m' steps_trans [OF 1(2) m'(3)] by auto
qed

lemma sdes_decode_at:
  assumes a: "at m (sdes_chunk src ty text @ rest)" and t: "length text \<le> 255" and ty: "ty \<noteq> 0"
    and mem: "mem (A_items c 0)" "mem (A_data c 0)"
  shows "\<exists>m'. rtcp_sdes_decode mem c (Some m) =
      Some ((OK, \<lparr>sd_src = src, sd_itemv = [\<lparr>it_type = ty, it_length = word_of_nat (length text), it_data = str_bytes text\<rparr>]\<rparr>), Some m') \<and>
      at m' rest \<and> steps m m'"
proof -
  let ?c = "be32 src @ [ty, word_of_nat (length text)] @ str_bytes text @ [0]" and ?len = "word_of_nat (length text) :: u8"
  let ?P = "pad_bytes (length ?c) @ rest"
  have b: "at m (be32 src @ ty # ?len # str_bytes text @ 0 # ?P)" using a by (simp add: sdes_chunk_def Let_def)
  have g: "\<not> mbuf_get_left (Some m) < RTCP_SRC_SIZE" by (rule left_ge_at [OF b]) (simp add: RTCP_SRC_SIZE_def)
  have ul: "unat ?len = length text" using t by (simp add: unat_of_nat take_bit_nat_eq_self)
  obtain m1 where 1: "read_u32n (Some m) = Some (src, Some m1)" "at m1 (ty # ?len # str_bytes text @ 0 # ?P)" "steps m m1"
    using read_u32n_at [OF b] by blast
  obtain m2 where 2: "mbuf_read_u8 (Some m1) = Some (ty, Some m2)" "at m2 (?len # str_bytes text @ 0 # ?P)" "steps m1 m2"
    using read_u8_at [OF 1(2)] by blast
  obtain m3 where 3: "mbuf_read_u8 (Some m2) = Some (?len, Some m3)" "at m3 (str_bytes text @ 0 # ?P)" "steps m2 m3"
    using read_u8_at [OF 2(2)] by blast
  obtain m4 where 4: "mbuf_read_mem (Some m3) True (ucast ?len) = Some (OK, str_bytes text, Some m4)"
    "at m4 (0 # ?P)" "steps m3 m4"
    using read_mem_at [OF 3(2), of "ucast ?len"] ul by auto
  obtain m5 where 5: "mbuf_read_u8 (Some m4) = Some (0, Some m5)" "at m5 ?P" "steps m4 m5"
    using read_u8_at [OF 4(2)] by blast
  have s5: "steps m m5" using 1(3) 2(3) 3(3) 4(3) 5(3) by (blast intro: steps_trans)
  have off: "mb_off m5 = mb_off m + length ?c"
    using at_off [OF b] at_off [OF 5(2)] steps_len [OF s5] by simp
  have "mb_pos m \<le> mb_pos m5" "length ?c = mb_off m5 - unat (mb_pos m)"
    using off by (simp_all add: word_le_nat_alt mb_off_def)
  from slurp_at [OF 5(2) this] obtain m6 where 6: "slurp_padding (mb_pos m) (Some m5) = Some m6" "at m6 rest" "steps m5 m6"
    by blast
  have l1: "\<not> mbuf_get_left (Some m1) < 1" "\<not> mbuf_get_left (Some m2) < 1" "\<not> mbuf_get_left (Some m4) < 1"
    by (rule left_ge_at [OF 1(2)], simp) (rule left_ge_at [OF 2(2)], simp, rule left_ge_at [OF 4(2)], simp)
  have l3: "\<not> mbuf_get_left (Some m3) < ucast ?len" by (rule left_ge_at [OF 3(2)]) (simp add: ul)
  have "2 \<le> unat (mbuf_get_left (Some m1))" using left_at [OF 1(2)] by simp
  then obtain f where f: "unat (mbuf_get_left (Some m1)) = Suc (Suc f)" by (metis Suc_le_D numeral_2_eq_2 Suc_le_mono)
  have it: "decode_items mem c (unat (mbuf_get_left (Some m1))) 0 [] (Some m1) =
      Some ((OK, [\<lparr>it_type = ty, it_length = ?len, it_data = str_bytes text\<rparr>]), Some m5)"
    unfolding f using l1 l3 2(1) 3(1) 4(1) 5(1) ty mem by simp
  have "steps m m6" using s5 6(3) by (rule steps_trans)
  then show ?thesis using g 1(1) it 6(1,2) by (simp add: rtcp_sdes_decode_def mbuf_pos_def)
qed

lemma decode_chunks_one:
  "decode_chunks mem i (Suc 0) mb =
    map_option (\<lambda>(er, mb). ((fst er, [snd er]), mb)) (rtcp_sdes_decode mem i mb)"
  by (cases "rtcp_sdes_decode mem i mb") auto

lemma sdes_packet_decode_at:
  assumes a: "at m (rtcp_packet RTCP_SDES 1 (sdes_chunk src ty text) @ rest)" and t: "length text \<le> 255" and ty: "ty \<noteq> 0"
    and mem: "\<And>x. mem x"
  shows "\<exists>h m'. rtcp_decode mem True (Some m) =
      Some ((OK, Some \<lparr>rm_hdr = h, rm_r = Body_SDES [\<lparr>sd_src = src, sd_itemv =
        [\<lparr>it_type = ty, it_length = word_of_nat (length text), it_data = str_bytes text\<rparr>]\<rparr>]\<rparr>), Some m') \<and>
      at m' rest \<and> steps m m'"
proof -
  let ?b = "sdes_chunk src ty text"
  have "length ?b \<le> 4 + 2 + 255 + 1 + 4"
    using t length_pad_bytes [of "length (be32 src @ [ty, word_of_nat (length text)] @ str_bytes text @ [0])"]
    by (simp add: sdes_chunk_def Let_def)
  then have sm: "length ?b div 4 < 65536" by simp
  have d: "\<exists>m'. decode_body mem \<lparr>rh_version = RTCP_VERSION, rh_p = False, rh_count = ucast (1 :: u32),
        rh_pt = rtcp_type_num RTCP_SDES, rh_length = word_of_nat (length ?b div 4)\<rparr> (word_of_nat (length ?b)) (Some m)
      = Some ((OK, Body_SDES [\<lparr>sd_src = src, sd_itemv =
        [\<lparr>it_type = ty, it_length = word_of_nat (length text), it_data = str_bytes text\<rparr>]\<rparr>]), Some m') \<and> at m' rest \<and> steps m m'"
    if a: "at m (?b @ rest)" for m
  proof -
    obtain m' where "rtcp_sdes_decode mem 0 (Some m) = Some ((OK, \<lparr>sd_src = src, sd_itemv =
        [\<lparr>it_type = ty, it_length = word_of_nat (length text), it_data = str_bytes text\<rparr>]\<rparr>), Some m')"
      "at m' rest" "steps m m'"
      using sdes_decode_at [where mem = mem and c = 0, OF a t ty mem mem] by blast
    then show ?thesis using mem [of A_sdesv]
      by (simp add: decode_body_def decode_sdes_def decode_chunks_one)
  qed
  from rtcp_decode_packet_at [OF a _ length_sdes_chunk sm mem d] show ?thesis by auto
qed

section \<open>What a report promises\<close>

lemma puts_report:
  assumes h: "puts ench s (concat (map rr_bytes rs)) s'"
  shows "puts (vencode_body mm RTCP_SR c (Args_SR ssrc sec frac ts ps os (Some ench))) s
     (report_body [ssrc, sec, frac, ts, ps, os] rs) s'"
    "puts (vencode_body mm RTCP_RR c (Args_RR ssrc (Some ench))) s (report_body [ssrc] rs) s'"
  unfolding vencode_body_def report_body_def
  by (simp_all only: prod.case rtcp_type.case rtcp_args.case)
    (rule puts_or puts_words puts_handler h)+

text \<open>A failed write of padding leaves the buffer as it is: the loop runs on for ever.\<close>

lemma full_write_fails:
  assumes "mb_pos m = mb_size m" "unat (mb_size m) < 2 ^ 32 - 1" "\<And>n. mm n = None"
  shows "mbuf_write_u8 mm (Some m) 0 = Some (ENOMEM, Some m)"
proof -
  have "unat (mb_size m + 1) = unat (mb_size m) + 1" using assms(2) by (subst unat_add_u32) simp_all
  then have "mb_size m < mb_size m + 1" by (simp add: word_less_nat_alt)
  then show ?thesis using assms(1,3)
    by (simp add: mbuf_write_u8_def mbuf_write_mem_def mbuf_grow_def mbuf_resize_def blk_realloc_def blk_alloc_def
        split: option.splits)
qed

lemma pad_pos_returns:
  assumes "pad_pos mm start err mb = Some r"
  shows "(mbuf_pos (Some m) - start) AND 3 \<noteq> 0 \<longrightarrow> mbuf_write_u8 mm (Some m) 0 = Some (e, Some m) \<longrightarrow> mb \<noteq> Some m"
  by (rule pad_pos.raw_induct [OF _ assms], auto split: if_splits, blast)

lemma pad_pos_stuck:
  "(mbuf_pos (Some m) - start) AND 3 \<noteq> 0 \<Longrightarrow> mbuf_write_u8 mm (Some m) 0 = Some (e, Some m) \<Longrightarrow>
   pad_pos mm start err (Some m) = None"
  using pad_pos_returns [of mm start err "Some m"] by (cases "pad_pos mm start err (Some m)") auto

text \<open>When the buffer ends in the middle of a word and cannot grow, the padding loop of
  \<open>rtcp_sdes_encode\<close> never ends: every turn fails to write, leaves the buffer as it was and goes on.\<close>
theorem sdes_padding_never_ends:
  assumes i: "mb_inv m" and t: "length v \<le> 255" and n4: "(7 + length v) mod 4 \<noteq> 0"
    and full: "mb_off m + (7 + length v) = unat (mb_size m)" "unat (mb_size m) < 2 ^ 32 - 1"
    and mm: "\<And>n. mm n = None"
  shows "\<exists>m'. rtcp_sdes_encode mm (Some m) src [(ty, Some v)] = pad_pos mm (mb_pos m) OK (Some m') \<and>
      (mbuf_pos (Some m') - mb_pos m) AND 3 \<noteq> 0 \<and> mbuf_write_u8 mm (Some m') 0 = Some (ENOMEM, Some m') \<and>
      rtcp_sdes_encode mm (Some m) src [(ty, Some v)] = None"
proof -
  let ?it = "[ty] @ [word_of_nat (length v)] @ str_bytes v"
  obtain m1 where 1: "mbuf_write_u32 mm (Some m) (htonl src) = Some (OK, Some m1)" "mb_inv m1"
    "mb_size m1 = mb_size m" "mb_off m1 = mb_off m + length (be32 src)"
    using write_mem_room [OF i, of "be32 src" mm] full by (auto simp: write_be)
  have r1: "mb_off m1 + length ?it \<le> unat (mb_size m1)" using full 1 by simp
  obtain m2 e where 2: "encode_items mm 0 [(ty, Some v)] (Some m1) = Some (e, Some m2)" "snd e = OK" "mb_inv m2"
    "mb_size m2 = mb_size m1" "mb_off m2 = mb_off m1 + length ?it"
    by (rule putsD [OF puts_item(1) [OF t, of mm ty "()"] 1(2) r1]) (auto simp: bind_eq_Some_conv)
  have ne: "\<not> fst e" by (rule puts_item(2) [OF t 2(1)])
  have "mb_off m2 + length [0 :: u8] \<le> unat (mb_size m2)" using full 1 2 by simp
  from write_mem_room [OF 2(3) this, of mm] obtain m3 where 3:
    "mbuf_write_u8 mm (Some m2) 0 = Some (OK, Some m3)" "mb_inv m3" "mb_size m3 = mb_size m2"
    "mb_off m3 = mb_off m2 + length [0 :: u8]"
    by (auto simp: write_u8_mem)
  have o3: "mb_off m3 = mb_off m + (7 + length v)" using 3(4) 2(5) 1(4) by simp
  have "unat (mb_pos m3) = unat (mb_size m3)" using o3 full 3(3) 2(4) 1(3) by (simp add: mb_off_def)
  then have "mb_pos m3 = mb_size m3" by (simp add: word_unat_eq_iff)
  then have w: "mbuf_write_u8 mm (Some m3) 0 = Some (ENOMEM, Some m3)"
    using full_write_fails [of m3 mm] mm full 3(3) 2(4) 1(3) by simp
  have "unat (mb_pos m3 - mb_pos m) = 7 + length v" using o3 by (simp add: unat_sub word_le_nat_alt mb_off_def)
  then have s: "(mbuf_pos (Some m3) - mb_pos m) AND 3 \<noteq> 0" using n4 by (simp add: and_3_eq_0 mbuf_pos_def)
  have "rtcp_sdes_encode mm (Some m) src [(ty, Some v)] = pad_pos mm (mb_pos m) OK (Some m3)"
    using 1(1) 2(1,2) ne 3(1) by (simp add: rtcp_sdes_encode_def mbuf_pos_def del: encode_items.simps)
  then show ?thesis using s w pad_pos_stuck [OF s w] by metis
qed

text \<open>The blocks of a report are not held against the length in its header: a receiver report that declares one
  word (its SSRC alone) and \<open>n\<close> blocks is accepted, and its blocks are read from the packet that follows.\<close>
theorem rr_overruns_declared_length:
  assumes a: "at m (rtcp_hdr_bytes (word_of_nat (length rs)) RTCP_RR 1 @ be32 ssrc @ concat (map rr_bytes rs) @ rest)"
    and n: "length rs < 32" and mem: "mem A_msg" "mem A_rrv"
  shows "\<exists>h m'. rtcp_decode mem True (Some m) = Some ((OK, Some \<lparr>rm_hdr = h, rm_r = Body_RR ssrc rs\<rparr>), Some m') \<and>
      rh_length h = 1 \<and> at m' rest"
proof -
  let ?c = "word_of_nat (length rs) :: u8"
  let ?h = "\<lparr>rh_version = RTCP_VERSION, rh_p = False, rh_count = ?c, rh_pt = rtcp_type_num RTCP_RR, rh_length = 1\<rparr>"
  have uc: "unat ?c = length rs" using n by (simp add: unat_of_nat take_bit_nat_eq_self)
  then have c: "?c < 32" using n by (simp add: word_less_nat_alt)
  from rtcp_hdr_decode_at [OF c a] obtain m1 where 1: "rtcp_hdr_decode (Some m) = Some ((OK, ?h), Some m1)"
    "at m1 (be32 ssrc @ concat (map rr_bytes rs) @ rest)" "steps m m1" by blast
  have l: "\<not> mbuf_get_left (Some m1) < 4" by (rule left_ge_at [OF 1(2)]) simp
  have "at m1 (concat (map be32 [ssrc]) @ concat (map rr_bytes rs) @ rest)" using 1(2) by simp
  from rr_body_at [where mem = mem, OF this uc [symmetric] mem(2)] obtain m2 where 2:
    "decode_rr mem ?c (Some m1) = Some ((OK, Body_RR ssrc rs), Some m2)" "at m2 rest" "steps m1 m2" by blast
  have s: "steps m m2" using 1(3) 2(3) by (rule steps_trans)
  have "mb_off m2 = mb_off m + (8 + 24 * length rs)"
    using at_off [OF a] at_off [OF 2(2)] steps_len [OF s] by simp
  then have "unat (mb_pos m2 - mb_pos m) = 8 + 24 * length rs"
    by (simp add: unat_sub word_le_nat_alt mb_off_def)
  then have "(mb_pos m2 - mb_pos m) AND 3 = 0" by (simp add: and_3_eq_0)
  then have sl: "slurp_padding (mb_pos m) (Some m2) = Some m2" by (subst slurp_padding.simps) simp
  have g: "\<not> mbuf_get_left (Some m) < RTCP_HDR_SIZE"
    by (rule left_ge_at [OF a]) (simp add: RTCP_HDR_SIZE_def)
  have "rtcp_decode mem True (Some m) = Some ((OK, Some \<lparr>rm_hdr = ?h, rm_r = Body_RR ssrc rs\<rparr>), Some m2)"
    using g mem 1(1) l 2(1) sl by (simp add: rtcp_decode_def decode_body_def Let_def mbuf_pos_def)
  then show ?thesis using 2(2) by auto
qed

lemma sdes_padding_never_ends_witness:
  "rtcp_sdes_encode (\<lambda>_. None) (Some (ex_rtcp (replicate 9 0))) 1 [(1, Some ''ab'')] = None"
  using sdes_padding_never_ends [where m = "ex_rtcp (replicate 9 0)" and v = "''ab''" and mm = "\<lambda>_. None" and src = 1 and ty = 1]
    ex_rtcp_inv [of "replicate 9 0"]
  by (auto simp add: ex_rtcp_def mb_off_def)

lemma rr_overruns_declared_length_witness:
  "\<exists>h m'. rtcp_decode (\<lambda>_. True) True
      (Some (ex_rtcp (rtcp_hdr_bytes 1 RTCP_RR 1 @ be32 5 @ rr_bytes zero_rr @ [1, 2]))) =
        Some ((OK, Some \<lparr>rm_hdr = h, rm_r = Body_RR 5 [zero_rr]\<rparr>), Some m') \<and> rh_length h = 1 \<and> at m' [1, 2]"
proof -
  let ?bs = "rtcp_hdr_bytes 1 RTCP_RR 1 @ be32 5 @ rr_bytes zero_rr @ [1, 2]"
  have "at (ex_rtcp ?bs) ?bs" using ex_rtcp_inv [of ?bs]
    by (simp add: at_def mb_off_def mb_data_def the_blk_def ex_rtcp_def unat_of_nat take_bit_nat_eq_self)
  then show ?thesis
    using rr_overruns_declared_length [where m = "ex_rtcp ?bs" and rs = "[zero_rr]" and ssrc = 5 and rest = "[1, 2]" and mem = "\<lambda>_. True"]
    by simp
qed

end
