(* ===== verification/Rtcp_Sess_Report.thy ===== *)
theory Rtcp_Sess_Report
  imports Rtcp_Sess_Spec Rtcp_Report
begin

text \<open>
  The reports of a session and its runs: what \<open>send_rtcp_report\<close> hands to the transport, what a peer
  decodes from it, and the invariant along every run of operations (\<open>sess_step\<close>, \<open>sess_reach\<close>).  The
  properties of the session are at the end, with a concrete session for the witnesses.
\<close>

section \<open>Reports\<close>

text \<open>The blocks of a report, and the members with their counts of the interval taken: one block for every
  member that sends, in the order of the table.\<close>

fun report_all :: "u64 \<Rightarrow> addr list \<Rightarrow> store \<Rightarrow> (rtcp_rr list \<times> store) option" where
  "report_all jfs [] mem = Some ([], mem)"
| "report_all jfs (a # as) mem = do {
     m \<leftarrow> mem a;
     case mbr_s m of
       None \<Rightarrow> report_all jfs as mem
     | Some src \<Rightarrow> do {
         (fraction, src) \<leftarrow> rtp_source_calc_fraction_lost src;
         (rs, mem) \<leftarrow> report_all jfs as (mem(a \<mapsto> m\<lparr>mbr_s := Some src\<rparr>));
         Some (mk_rr jfs (mbr_src m) fraction src # rs, mem)
       } }"

lemma report_all_frame:
  "report_all jfs as mem = Some (rs, mem') \<Longrightarrow>
   dom mem' = dom mem \<and> senders mem' = senders mem \<and> key_of mem' = key_of mem"
proof (induction as arbitrary: mem rs)
  case (Cons a as)
  obtain m where m: "mem a = Some m" using Cons.prems by (auto simp: bind_eq_Some_conv)
  show ?case
  proof (cases "mbr_s m")
    case None
    then show ?thesis using Cons m by simp
  next
    case (Some src)
    then obtain fr src' rs' where r: "report_all jfs as (mem(a \<mapsto> m\<lparr>mbr_s := Some src'\<rparr>)) = Some (rs', mem')"
      using Cons.prems m by (auto simp: bind_eq_Some_conv)
    define mem1 where "mem1 = mem(a \<mapsto> m\<lparr>mbr_s := Some src'\<rparr>)"
    have "senders mem1 = senders mem" "key_of mem1 = key_of mem" "dom mem1 = dom mem"
      using m Some by (auto simp: mem1_def senders_def key_of_def fun_eq_iff)
    then show ?thesis using Cons.IH [OF r [folded mem1_def]] by simp
  qed
qed simp

lemma report_all_length:
  "report_all jfs as mem = Some (rs, mem') \<Longrightarrow> length rs = length (filter (\<lambda>a. a \<in> senders mem) as)"
proof (induction as arbitrary: mem rs)
  case (Cons a as)
  obtain m where m: "mem a = Some m" using Cons.prems by (auto simp: bind_eq_Some_conv)
  show ?case
  proof (cases "mbr_s m")
    case None
    then show ?thesis using Cons m by (simp add: senders_def)
  next
    case (Some src)
    then obtain fr src' rs' where r: "report_all jfs as (mem(a \<mapsto> m\<lparr>mbr_s := Some src'\<rparr>)) = Some (rs', mem')"
      and rs: "length rs = Suc (length rs')"
      using Cons.prems m by (auto simp: bind_eq_Some_conv)
    have "senders (mem(a \<mapsto> m\<lparr>mbr_s := Some src'\<rparr>)) = senders mem" using m Some by (auto simp: senders_def)
    then show ?thesis using Cons.IH [OF r] rs m Some by (simp add: senders_def)
  qed
qed simp

lemma report_all_senders:
  assumes i: "sess_inv s" and r: "report_all jfs (hash_elems (ss_members s)) (ss_mem s) = Some (rs, mem')"
  shows "length rs = unat (ss_senderc s)" "length rs \<le> 8"
proof -
  have d: "distinct (hash_elems (ss_members s))" using sess_inv_table [OF i] by (simp add: hash_ok_def hash_elems_def)
  have "set (filter (\<lambda>a. a \<in> senders (ss_mem s)) (hash_elems (ss_members s))) = senders (ss_mem s)"
    using i senders_dom [of "ss_mem s"] by (auto simp: sess_inv_def)
  then have "length (filter (\<lambda>a. a \<in> senders (ss_mem s)) (hash_elems (ss_members s))) = card (senders (ss_mem s))"
    using distinct_card [OF distinct_filter [OF d]] by metis
  then show "length rs = unat (ss_senderc s)" using report_all_length [OF r] i by (simp add: sess_inv_def)
  then show "length rs \<le> 8" using sess_inv_senders [OF i] i by (simp add: sess_inv_def)
qed

text \<open>The handler puts the blocks.\<close>

lemma puts_walk:
  "report_all jfs as mem = Some (rs, mem') \<Longrightarrow>
   puts (\<lambda>st. do { (le, st) \<leftarrow> walk (sender_apply_handler mm jfs) as st; Some (if le \<noteq> None then ENOMEM else OK, st) })
     mem (concat (map rr_bytes rs)) mem'"
proof (induction as arbitrary: mem rs)
  case Nil
  then show ?case using puts_nothing [of mem'] by simp
next
  case (Cons a as)
  obtain m where m: "mem a = Some m" using Cons.prems by (auto simp: bind_eq_Some_conv)
  show ?case
  proof (cases "mbr_s m")
    case None
    then have "report_all jfs as mem = Some (rs, mem')" using Cons.prems m by simp
    from Cons.IH [OF this] show ?thesis unfolding puts_def
      using m None by (simp add: sender_apply_handler_def)
  next
    case (Some src)
    let ?mem = "\<lambda>src'. mem(a \<mapsto> m\<lparr>mbr_s := Some src'\<rparr>)"
    obtain fr src' rs' where f: "rtp_source_calc_fraction_lost src = Some (fr, src')"
      and r: "report_all jfs as (?mem src') = Some (rs', mem')" and rs: "rs = mk_rr jfs (mbr_src m) fr src' # rs'"
      using Cons.prems m Some by (auto simp: bind_eq_Some_conv)
    let ?rr = "mk_rr jfs (mbr_src m) fr src'"
    show ?thesis unfolding puts_def
    proof (intro allI impI, elim conjE)
      fix b assume i: "mb_inv b" and room: "mb_off b + length (concat (map rr_bytes rs)) \<le> unat (mb_size b)"
      have "mb_off b + length (rr_bytes ?rr) \<le> unat (mb_size b)" using room rs by simp
      from putsD [OF puts_rr [of mm ?rr "()"] i this] obtain b1 where 1:
        "wr (\<lambda>mb. rtcp_rr_encode mm mb (Some ?rr)) ((), Some b) = Some (OK, (), Some b1)" "mb_inv b1" "mb_size b1 = mb_size b"
        "mb_data b1 = put_at (mb_off b) (rr_bytes ?rr) (mb_data b)" "mb_off b1 = mb_off b + length (rr_bytes ?rr)" .
      have e: "rtcp_rr_encode mm (Some b) (Some ?rr) = Some (OK, Some b1)"
        using 1(1) by (auto simp: wr_def bind_eq_Some_conv)
      have "mb_off b1 + length (concat (map rr_bytes rs')) \<le> unat (mb_size b1)" using room rs 1 by simp
      from putsD [OF Cons.IH [OF r] 1(2) this] obtain b2 where 2:
        "(do { (le, st) \<leftarrow> walk (sender_apply_handler mm jfs) as (?mem src', Some b1); Some (if le \<noteq> None then ENOMEM else OK, st) })
           = Some (OK, mem', Some b2)" "mb_inv b2" "mb_size b2 = mb_size b1"
        "mb_data b2 = put_at (mb_off b1) (concat (map rr_bytes rs')) (mb_data b1)"
        "mb_off b2 = mb_off b1 + length (concat (map rr_bytes rs'))" .
      have "(do { (le, st) \<leftarrow> walk (sender_apply_handler mm jfs) (a # as) (mem, Some b); Some (if le \<noteq> None then ENOMEM else OK, st) })
           = Some (OK, mem', Some b2)"
        using 2(1) m Some f e by (simp add: sender_apply_handler_def)
      moreover have "mb_data b2 = put_at (mb_off b) (concat (map rr_bytes rs)) (mb_data b)"
        unfolding 2(4) 1(4,5) put_at_put_at [OF mb_off_le [OF i]] by (simp add: rs)
      ultimately show "\<exists>m'. (do { (le, st) \<leftarrow> walk (sender_apply_handler mm jfs) (a # as) (mem, Some b); Some (if le \<noteq> None then ENOMEM else OK, st) })
           = Some (OK, mem', Some m') \<and> mb_inv m' \<and> mb_size m' = mb_size b \<and>
           mb_data m' = put_at (mb_off b) (concat (map rr_bytes rs)) (mb_data b) \<and> mb_off m' = mb_off b + length (concat (map rr_bytes rs))"
        using 2(2,3,5) 1(3,5) rs by auto
    qed
  qed
qed

lemma puts_encode_handler:
  assumes "hash_ok ht" "report_all jfs (hash_elems ht) mem = Some (rs, mem')"
  shows "puts (encode_handler mm jfs ht) mem (concat (map rr_bytes rs)) mem'"
  using puts_walk [OF assms(2), of mm] unfolding encode_handler_def [abs_def] hash_apply_walk [OF assms(1)] .


lemma vencode_ignores_end:
  "rtcp_vencode mm (Some (m\<lparr>mb_end := e\<rparr>)) type count args s = rtcp_vencode mm (Some m) type count args s"
  by (simp add: rtcp_vencode_def)

lemma mk_sr_ignores_end: "mk_sr mm u jfs j s (Some (m\<lparr>mb_end := e\<rparr>)) = mk_sr mm u jfs j s (Some m)"
  unfolding mk_sr_def rtcp_encode_def vencode_ignores_end ..

lemma report_packet_small:
  assumes "length rs \<le> 8" "length ws \<le> 6"
  shows "length (rtcp_packet t c (report_body ws rs)) \<le> 220"
proof -
  have l: "length (report_body ws rs) = 4 * (length ws + 6 * length rs)" by (simp add: length_report_body)
  then have "length (report_body ws rs) mod 4 = 0" by simp
  then show ?thesis using assms by (simp add: length_rtcp_packet pad_bytes_0 length_report_body)
qed

lemma sdes_packet_small:
  assumes "length v \<le> 255"
  shows "length (rtcp_packet t c (sdes_chunk src ty v)) \<le> 268"
proof -
  have "length (sdes_chunk src ty v) \<le> 264"
    using assms length_pad_bytes [of "length (be32 src @ [ty, word_of_nat (length v)] @ str_bytes v @ [0])"]
      length_sdes_chunk [of src ty v]
    by (simp add: sdes_chunk_def Let_def) presburger
  then show ?thesis using length_sdes_chunk [of src ty v] by (simp add: length_rtcp_packet pad_bytes_0)
qed

text \<open>The first packet of a compound: sender report or receiver report.\<close>

definition report_packet :: "(u64 \<Rightarrow> u32) \<Rightarrow> u64 \<Rightarrow> rtcp_sess \<Rightarrow> rtcp_rr list \<Rightarrow> u8 list" where
  "report_packet u j s rs =
     (let tx = ss_txstat s; ntp = fst (ntp_time_get u j); ssrc = rtp_sess_ssrc (ss_rs s) in
      if tx_jfs_rt_ref tx \<noteq> 0
      then rtcp_packet RTCP_SR (word_of_nat (length rs))
             (report_body [ssrc, ntp_hi ntp, ntp_lo ntp,
               ucast (ucast (tx_ts_ref tx) + (j - tx_jfs_rt_ref tx) * ucast (ss_srate_tx s) div 1000000),
               tx_psent tx, tx_osent tx] rs)
      else rtcp_packet RTCP_RR (word_of_nat (length rs)) (report_body [ssrc] rs))"

lemma report_packet_size: "length rs \<le> 8 \<Longrightarrow> length (report_packet u j s rs) \<le> 220"
  unfolding report_packet_def Let_def by (auto intro!: report_packet_small)

lemma mk_sr_room:
  assumes i: "sess_inv s" and r: "report_all jfs (hash_elems (ss_members s)) (ss_mem s) = Some (rs, mem')"
    and m: "mb_inv m" "mb_off m + 220 \<le> unat (mb_size m)"
  shows "\<exists>m'. mk_sr mm u jfs j s (Some m) =
      Some (OK, s\<lparr>ss_txstat := (ss_txstat s)\<lparr>tx_ts_synced := False\<rparr>, ss_mem := mem'\<rparr>, Some m') \<and>
    mb_inv m' \<and> mb_size m' = mb_size m \<and> mb_data m' = take (mb_off m) (mb_data m) @ report_packet u j s rs \<and>
    mb_off m' = length (mb_data m')"
proof -
  have sc: "ss_senderc s = word_of_nat (length rs)" using report_all_senders(1) [OF i r] by simp
  have e: "puts (encode_handler mm jfs (ss_members s)) (ss_mem s) (concat (map rr_bytes rs)) mem'"
    by (rule puts_encode_handler [OF sess_inv_table [OF i] r])
  have room: "mb_off m + length (rtcp_packet t c (report_body ws rs)) \<le> unat (mb_size m)" if "length ws \<le> 6" for t c ws
    using report_packet_small [OF report_all_senders(2) [OF i r] that, of t c] m(2) by simp
  show ?thesis
  proof (cases "tx_jfs_rt_ref (ss_txstat s) \<noteq> 0")
    case True
    let ?ts = "ucast (ucast (tx_ts_ref (ss_txstat s)) + (j - tx_jfs_rt_ref (ss_txstat s)) * ucast (ss_srate_tx s) div 1000000) :: u32"
    let ?n = "fst (ntp_time_get u j)"
    note v = puts_report(1) [where mm = mm and c = "ss_senderc s" and ssrc = "rtp_sess_ssrc (ss_rs s)" and sec = "ntp_hi ?n"
      and frac = "ntp_lo ?n" and ts = ?ts and ps = "tx_psent (ss_txstat s)" and os = "tx_osent (ss_txstat s)", OF e]
    show ?thesis
      using vencode_room [OF m(1) v room] True
      by (auto simp: mk_sr_def report_packet_def Let_def rtcp_encode_def ntp_time_get_def sc)
  next
    case False
    note v = puts_report(2) [where mm = mm and c = "ss_senderc s" and ssrc = "rtp_sess_ssrc (ss_rs s)", OF e]
    show ?thesis
      using vencode_room [OF m(1) v room] False
      by (auto simp: mk_sr_def report_packet_def Let_def rtcp_encode_def sc)
  qed
qed


lemma mk_sdes_room:
  assumes m: "mb_inv m" "mb_off m + 268 \<le> unat (mb_size m)" and c: "ss_cname s = Some v" "length v \<le> 255"
  shows "\<exists>m'. mk_sdes mm s (Some m) = Some (OK, Some m') \<and> mb_inv m' \<and> mb_size m' = mb_size m \<and>
    mb_data m' = take (mb_off m) (mb_data m) @ rtcp_packet RTCP_SDES 1 (sdes_chunk (rtp_sess_ssrc (ss_rs s)) 1 v) \<and>
    mb_off m' = length (mb_data m')"
proof -
  have p: "puts (vencode_body mm RTCP_SDES 1 (Args_SDES (Some (sdes_encode_handler mm s)))) ()
      (sdes_chunk (rtp_sess_ssrc (ss_rs s)) 1 v) ()"
    unfolding vencode_body_def sdes_encode_handler_def c(1) prod.case rtcp_type.case rtcp_args.case
    by (rule puts_handler puts_sdes c(2))+
  have "mb_off m + length (rtcp_packet RTCP_SDES 1 (sdes_chunk (rtp_sess_ssrc (ss_rs s)) 1 v)) \<le> unat (mb_size m)"
    using sdes_packet_small [OF c(2), of RTCP_SDES 1 "rtp_sess_ssrc (ss_rs s)" 1] m(2) by simp
  from vencode_room [OF m(1) p this] show ?thesis by (auto simp: mk_sdes_def rtcp_encode_def)
qed

lemma pending_data: "mb_inv m \<Longrightarrow> pending (Some m) = drop (mb_off m) (mb_data m)"
  using left_eq [of m] length_mb_data [of m]
  by (simp add: pending_def mb_data_def mb_off_def drop_take)

definition report_msg :: "(u64 \<Rightarrow> u32) \<Rightarrow> u64 \<Rightarrow> rtcp_sess \<Rightarrow> rtcp_rr list \<Rightarrow> rtcp_body" where
  "report_msg u j s rs =
     (let tx = ss_txstat s; ntp = fst (ntp_time_get u j); ssrc = rtp_sess_ssrc (ss_rs s) in
      if tx_jfs_rt_ref tx \<noteq> 0
      then Body_SR ssrc (ntp_hi ntp) (ntp_lo ntp)
             (ucast (ucast (tx_ts_ref tx) + (j - tx_jfs_rt_ref tx) * ucast (ss_srate_tx s) div 1000000))
             (tx_psent tx) (tx_osent tx) rs
      else Body_RR ssrc rs)"

lemma report_packet_decode:
  assumes a: "at m (report_packet u j s rs @ rest)" and n: "length rs < 32" and mem: "mem A_msg" "mem A_rrv"
  shows "\<exists>h m'. rtcp_decode mem True (Some m) = Some ((OK, Some \<lparr>rm_hdr = h, rm_r = report_msg u j s rs\<rparr>), Some m') \<and>
    at m' rest"
proof (cases "tx_jfs_rt_ref (ss_txstat s) \<noteq> 0")
  case True
  note a = a [unfolded report_packet_def Let_def if_P [OF True]]
  show ?thesis using sr_decode_at [where mem = mem, OF a n mem] True by (auto simp: report_msg_def Let_def)
next
  case False
  note a = a [unfolded report_packet_def Let_def if_not_P [OF False]]
  show ?thesis using rr_decode_packet_at [where mem = mem, OF a n mem] False by (auto simp: report_msg_def Let_def)
qed

lemma ex_rtcp_at: "length bs < 2 ^ 32 \<Longrightarrow> at (ex_rtcp bs) bs"
  using ex_rtcp_inv [of bs]
  by (simp add: at_def mb_off_def mb_data_def the_blk_def ex_rtcp_def unat_of_nat_u32)

text \<open>The compound packet that the timer sends, and the session after it.\<close>

lemma send_report_datagram:
  fixes u :: "u64 \<Rightarrow> u32" and j :: u64
  assumes i: "sess_inv s" and r: "report_all jfs (hash_elems (ss_members s)) (ss_mem s) = Some (rs, mem')"
    and c: "ss_cname s = Some v" "length v \<le> 255" and blk: "mm 512 = Some f"
    and net: "ss_rs s = Some sk" "if rs_rtcp_mux sk then nt_sock_rtp net else nt_sock_rtcp net" "nt_peer_set net"
  defines "dg \<equiv> report_packet u j s rs @ rtcp_packet RTCP_SDES 1 (sdes_chunk (enc_ssrc sk) 1 v)"
  shows "send_rtcp_report mm True net u jfs j s =
      Some (nt_udp_send net dg, s\<lparr>ss_txstat := (ss_txstat s)\<lparr>tx_ts_synced := False\<rparr>, ss_mem := mem'\<rparr>, Some dg)"
proof -
  obtain m0 where m0: "mbuf_alloc mm True 512 = Some m0" "mb_inv (m0\<lparr>mb_pos := 4, mb_end := 4\<rparr>)" "mb_size m0 = 512"
    using mbuf_alloc_room [where mm = mm and n = 512 and p = 4, OF blk] by (auto simp: word_le_nat_alt)
  let ?m = "m0\<lparr>mb_pos := 4, mb_end := 4\<rparr>" and ?s1 = "s\<lparr>ss_txstat := (ss_txstat s)\<lparr>tx_ts_synced := False\<rparr>, ss_mem := mem'\<rparr>"
  have room: "mb_off ?m + 220 \<le> unat (mb_size ?m)" using m0(3) by (simp add: mb_off_def)
  from mk_sr_room [OF i r m0(2) room, of mm u j] obtain m1 where 1: "mk_sr mm u jfs j s (Some ?m) = Some (OK, ?s1, Some m1)"
    "mb_inv m1" "mb_size m1 = 512" "mb_data m1 = take (mb_off ?m) (mb_data ?m) @ report_packet u j s rs"
    "mb_off m1 = length (mb_data m1)" using m0(3) by auto
  have sr: "mk_sr mm u jfs j s (Some (m0\<lparr>mb_pos := 4\<rparr>)) = Some (OK, ?s1, Some m1)"
    using 1(1) mk_sr_ignores_end [where m = "m0\<lparr>mb_pos := 4\<rparr>" and e = 4] by simp
  have l4: "length (take (mb_off ?m) (mb_data ?m)) = 4" using length_mb_data [OF m0(2)] by (simp add: mb_off_def)
  have len1: "length (mb_data m1) = 4 + length (report_packet u j s rs)" using 1(4) l4 by simp
  have room1: "mb_off m1 + 268 \<le> unat (mb_size m1)"
    using 1(3,5) len1 report_packet_size [OF report_all_senders(2) [OF i r], of u j s] by simp
  have c1: "ss_cname ?s1 = Some v" using c(1) by simp
  from mk_sdes_room [OF 1(2) room1 c1 c(2), of mm] obtain m2 where 2: "mk_sdes mm ?s1 (Some m1) = Some (OK, Some m2)"
    "mb_inv m2" "mb_data m2 = mb_data m1 @ rtcp_packet RTCP_SDES 1 (sdes_chunk (enc_ssrc sk) 1 v)"
    using 1(5) net(1) by (auto simp: rtp_sess_ssrc_def)
  have d2: "mb_data m2 = take (mb_off ?m) (mb_data ?m) @ dg" unfolding 2(3) 1(4) dg_def by simp
  have "unat (4 :: u32) \<le> length (mb_data m2)" using d2 l4 by simp
  note s2 = seek_inv [OF 2(2) this]
  have p: "pending (Some (m2\<lparr>mb_pos := 4\<rparr>)) = dg"
    unfolding pending_data [OF s2(1)] s2(2) d2 using l4 by (simp add: mb_off_def)
  show ?thesis
    using m0(1) sr 2(1) p net
    by (simp add: send_rtcp_report_def at_headroom_def RTCP_HEADROOM_def rtcp_send_def Let_def)
qed

section \<open>Runs of a session\<close>

text \<open>An encoder that keeps a property of its state.\<close>

definition enc_keeps :: "('s \<Rightarrow> bool) \<Rightarrow> 's encoder \<Rightarrow> bool" where
  "enc_keeps P f \<longleftrightarrow> (\<forall>s mb e s' mb'. P s \<longrightarrow> f (s, mb) = Some (e, s', mb') \<longrightarrow> P s')"

lemma enc_keeps_wr: "enc_keeps P (wr f)"
  by (auto simp: enc_keeps_def wr_def bind_eq_Some_conv)

lemma enc_keepsD: "enc_keeps P f \<Longrightarrow> P s \<Longrightarrow> f (s, mb) = Some (e, s', mb') \<Longrightarrow> P s'"
  unfolding enc_keeps_def by blast

lemma enc_keeps_or:
  assumes f: "enc_keeps P f" and g: "enc_keeps P g"
  shows "enc_keeps P (or_err f g)"
  unfolding enc_keeps_def
proof (intro allI impI)
  fix s mb e s' mb' assume p: "P s" and r: "or_err f g (s, mb) = Some (e, s', mb')"
  obtain e1 s1 mb1 e2 where 1: "f (s, mb) = Some (e1, s1, mb1)" "g (s1, mb1) = Some (e2, s', mb')"
    using r by (auto simp: or_err_def bind_eq_Some_conv)
  show "P s'" by (rule enc_keepsD [OF g enc_keepsD [OF f p 1(1)] 1(2)])
qed

lemma enc_keeps_words: "enc_keeps P (write_words mm vs)"
proof (induction vs)
  case Nil
  show ?case by (simp add: enc_keeps_def)
next
  case (Cons v vs)
  show ?case unfolding write_words.simps by (rule enc_keeps_or enc_keeps_wr Cons)+
qed

lemma enc_keeps_handler: "enc_keeps P f \<Longrightarrow> enc_keeps P (run_ench (Some f))"
  by (simp add: run_ench_def)

lemma vencode_keeps:
  assumes k: "enc_keeps P (vencode_body mm type count args)" and p: "P s"
    and r: "rtcp_vencode mm mb type count args s = Some (e, s', mb')"
  shows "P s'"
proof (cases mb)
  case None
  then show ?thesis using p r by (simp add: rtcp_vencode_def)
next
  case (Some m)
  then obtain err mb1 where "vencode_body mm type count args
      (s, Some (m\<lparr>mb_pos := mb_pos m + RTCP_HDR_SIZE, mb_end := mb_pos m + RTCP_HDR_SIZE\<rparr>)) = Some (err, s', mb1)"
    using r by (auto simp: rtcp_vencode_def Let_def bind_eq_Some_conv split: if_splits)
  then show ?thesis using k p unfolding enc_keeps_def by blast
qed

text \<open>What a report does to the store, however it ends: the members stay, only their interval counts change.\<close>

definition store_kept :: "store \<Rightarrow> store \<Rightarrow> bool" where
  "store_kept mem mem' \<longleftrightarrow> dom mem' = dom mem \<and> senders mem' = senders mem \<and> key_of mem' = key_of mem"

lemma walk_keeps:
  assumes h: "\<And>a st stop st'. P (fst st) \<Longrightarrow> f a st = Some (stop, st') \<Longrightarrow> P (fst st')"
  shows "P (fst st) \<Longrightarrow> walk f as st = Some (r, st') \<Longrightarrow> P (fst st')"
proof (induction as arbitrary: st)
  case (Cons a as)
  obtain stop st1 where 1: "f a st = Some (stop, st1)" using Cons.prems(2) by (auto simp: bind_eq_Some_conv)
  have "P (fst st1)" by (rule h [OF Cons.prems(1) 1])
  then show ?case using Cons 1 by (auto split: if_splits)
qed simp

lemma sender_apply_keeps:
  assumes k: "store_kept mem0 (fst st)" and r: "sender_apply_handler mm jfs a st = Some (stop, st')"
  shows "store_kept mem0 (fst st')"
proof -
  obtain mem mb where st: "st = (mem, mb)" by (cases st)
  obtain m where m: "mem a = Some m" using r st by (auto simp: sender_apply_handler_def bind_eq_Some_conv)
  show ?thesis
  proof (cases "mbr_s m")
    case None
    then show ?thesis using k r st m by (auto simp: sender_apply_handler_def)
  next
    case (Some src)
    then obtain src' where "fst st' = mem(a \<mapsto> m\<lparr>mbr_s := Some src'\<rparr>)"
      using r st m by (auto simp: sender_apply_handler_def bind_eq_Some_conv)
    then show ?thesis using k st same_member_upd [where mem = mem and a = a and m' = "m\<lparr>mbr_s := Some src'\<rparr>", OF m] Some
      by (simp add: store_kept_def del: dom_fun_upd fun_upd_apply)
  qed
qed

lemma encode_handler_keeps:
  assumes "hash_ok ht"
  shows "enc_keeps (store_kept mem0) (encode_handler mm jfs ht)"
  unfolding enc_keeps_def
proof (intro allI impI)
  fix s mb e s' mb' assume p: "store_kept mem0 s" and r: "encode_handler mm jfs ht (s, mb) = Some (e, s', mb')"
  obtain le where "walk (sender_apply_handler mm jfs) (hash_elems ht) (s, mb) = Some (le, s', mb')"
    using r by (auto simp: encode_handler_def hash_apply_walk [OF assms] bind_eq_Some_conv)
  from walk_keeps [where P = "store_kept mem0", OF sender_apply_keeps _ this] p show "store_kept mem0 s'" by simp
qed

lemma report_keeps:
  assumes "hash_ok ht"
  shows "enc_keeps (store_kept mem0) (vencode_body mm RTCP_SR c (Args_SR a1 a2 a3 a4 a5 a6 (Some (encode_handler mm jfs ht))))"
    "enc_keeps (store_kept mem0) (vencode_body mm RTCP_RR c (Args_RR a1 (Some (encode_handler mm jfs ht))))"
  unfolding vencode_body_def
  by (simp_all only: prod.case rtcp_type.case rtcp_args.case)
    (rule enc_keeps_or enc_keeps_words enc_keeps_handler encode_handler_keeps assms)+

lemma mk_sr_inv:
  assumes i: "sess_inv s" and r: "mk_sr mm u jfs j s mb = Some (e, s', mb')"
  shows "sess_inv s'"
proof -
  obtain mem where s': "s' = s\<lparr>ss_txstat := (ss_txstat s)\<lparr>tx_ts_synced := False\<rparr>, ss_mem := mem\<rparr>"
    and k: "store_kept (ss_mem s) mem"
  proof (cases "tx_jfs_rt_ref (ss_txstat s) \<noteq> 0")
    case True
    then obtain err mem mb1 where v: "rtcp_vencode mm mb RTCP_SR (ss_senderc s)
        (Args_SR (rtp_sess_ssrc (ss_rs s)) (ntp_hi (fst (ntp_time_get u j))) (ntp_lo (fst (ntp_time_get u j)))
          (ucast (ucast (tx_ts_ref (ss_txstat s)) + (j - tx_jfs_rt_ref (ss_txstat s)) * ucast (ss_srate_tx s) div 1000000))
          (tx_psent (ss_txstat s)) (tx_osent (ss_txstat s)) (Some (encode_handler mm jfs (ss_members s)))) (ss_mem s)
        = Some (err, mem, mb1)"
      and s': "s' = s\<lparr>ss_txstat := (ss_txstat s)\<lparr>tx_ts_synced := False\<rparr>, ss_mem := mem\<rparr>"
      using r by (auto simp: mk_sr_def Let_def rtcp_encode_def bind_eq_Some_conv ntp_time_get_def)
    have "store_kept (ss_mem s) mem"
      by (rule vencode_keeps [OF report_keeps(1) [OF sess_inv_table [OF i]] _ v]) (simp add: store_kept_def)
    then show thesis by (rule that [OF s'])
  next
    case False
    then obtain err mem mb1 where v: "rtcp_vencode mm mb RTCP_RR (ss_senderc s)
        (Args_RR (rtp_sess_ssrc (ss_rs s)) (Some (encode_handler mm jfs (ss_members s)))) (ss_mem s) = Some (err, mem, mb1)"
      and s': "s' = s\<lparr>ss_txstat := (ss_txstat s)\<lparr>tx_ts_synced := False\<rparr>, ss_mem := mem\<rparr>"
      using r by (auto simp: mk_sr_def Let_def rtcp_encode_def bind_eq_Some_conv)
    have "store_kept (ss_mem s) mem"
      by (rule vencode_keeps [OF report_keeps(2) [OF sess_inv_table [OF i]] _ v]) (simp add: store_kept_def)
    then show thesis by (rule that [OF s'])
  qed
  then show ?thesis using i by (simp add: sess_inv_def store_kept_def)
qed

lemma timeout_inv:
  assumes "sess_inv s" "timeout mm zok net u jfs j s = Some (s', dg)"
  shows "sess_inv s'"
proof -
  have "sess_inv s1" if "send_rtcp_report mm zok net u jfs j s = Some (e, s1, dg)" for e s1 dg
    using that assms(1) mk_sr_inv [OF assms(1)]
    by (auto simp: send_rtcp_report_def Let_def bind_eq_Some_conv split: option.splits if_splits prod.splits)
  then show ?thesis using assms(2) by (auto simp: timeout_def bind_eq_Some_conv sess_inv_def schedule_def)
qed

text \<open>One operation on the session: a datagram or a media packet received, one sent, the timer, a setting.\<close>

inductive sess_step :: "new_addr \<Rightarrow> rtcp_sess \<Rightarrow> rtcp_sess \<Rightarrow> bool" for new where
  step_recv: "mb_inv m \<Longrightarrow> rtcp_recv_handler mem new u jfs j (Some m) (Some s) = Some (Some s', msgs) \<Longrightarrow> sess_step new s s'"
| step_rx: "rtcp_sess_rx_rtp new zok jfs hdr n (Some s) = Some (Some s', hdr') \<Longrightarrow> sess_step new s s'"
| step_tx: "sess_step new s (sess_tx_rtp ts j n s)"
| step_timeout: "timeout mm zok net u jfs j s = Some (s', dg) \<Longrightarrow> sess_step new s s'"
| step_srate: "rtcp_set_srate tx rx (Some s) = Some s' \<Longrightarrow> sess_step new s s'"
| step_srate_tx: "rtcp_set_srate_tx tx (Some s) = Some s' \<Longrightarrow> sess_step new s s'"
| step_srate_rx: "rtcp_set_srate_rx rx (Some s) = Some s' \<Longrightarrow> sess_step new s s'"
| step_interval: "rtcp_set_interval n (Some s) = Some s' \<Longrightarrow> sess_step new s s'"
| step_enable: "rtcp_enable ok enabled cname (Some s) = (err, Some s') \<Longrightarrow> sess_step new s s'"

inductive_cases sess_stepE: "sess_step new s s'"

inductive sess_reach :: "new_addr \<Rightarrow> rtcp_sess \<Rightarrow> bool" for new where
  reach_alloc: "rtcp_sess_alloc True sok lock_err tok zalloc rs = (OK, Some s) \<Longrightarrow> sess_reach new s"
| reach_step: "sess_reach new s \<Longrightarrow> sess_step new s s' \<Longrightarrow> sess_reach new s'"

lemma sess_alloc_inv:
  assumes "rtcp_sess_alloc True sok lock_err tok zalloc rs = (OK, Some s)"
  shows "sess_inv s \<and> dom (ss_mem s) = {}"
proof -
  obtain ht where h: "hash_alloc True tok zalloc MAX_MEMBERS = (OK, Some ht)" and s: "ss_members s = ht"
    "ss_mem s = (\<lambda>_. None)" "ss_memberc s = 0" "ss_senderc s = 0"
    using assms by (auto simp: rtcp_sess_alloc_def split: if_splits prod.splits option.splits)
  have t: "tok" using h by (auto simp: hash_alloc_def split: if_splits)
  have b: "h_bucket ht = replicate (unat (8 :: u32)) []" "h_bsize ht = 8"
    using hash_alloc_result [of zalloc 8 ht] small_array [of 8] h t by (simp_all add: MAX_MEMBERS_def)
  then have ok: "hash_ok ht" by (simp add: hash_ok_def del: unat_numeral)
  have e: "hash_elems ht = []" using b(1) by (simp add: hash_elems_def)
  have "table.keys_ok ht (key_of (ss_mem s))" using ok e by (simp add: table.keys_ok_def)
  then show ?thesis using s e by (simp add: sess_inv_def senders_def)
qed

lemma recv_inv:
  assumes "sess_inv s" "fresh_addr new" "mb_inv m"
    "rtcp_recv_handler mem new u jfs j (Some m) (Some s) = Some (Some s', msgs)"
  shows "sess_inv s'"
  using recv_loop_returns [where m = m and mem = mem and u = u and jfs = jfs and j = j and i = 0, OF assms(2,3,1)] assms(4)
  by (auto simp: rtcp_recv_handler_def)

lemma enable_inv: "sess_inv s \<Longrightarrow> rtcp_enable ok enabled cname (Some s) = (err, Some s') \<Longrightarrow> sess_inv s'"
  by (auto simp: rtcp_enable_def Let_def sess_inv_def schedule_def split: if_splits prod.splits)

lemma setting_inv [simp]:
  "sess_inv (s\<lparr>ss_srate_tx := a, ss_srate_rx := b\<rparr>) = sess_inv s" "sess_inv (s\<lparr>ss_srate_tx := a\<rparr>) = sess_inv s"
  "sess_inv (s\<lparr>ss_srate_rx := b\<rparr>) = sess_inv s" "sess_inv (s\<lparr>ss_interval := c\<rparr>) = sess_inv s"
  "sess_inv (s\<lparr>ss_txstat := t\<rparr>) = sess_inv s"
  by (simp_all add: sess_inv_def)

lemma sess_step_inv:
  assumes step: "sess_step new s s'" and i: "sess_inv s" and new: "fresh_addr new"
  shows "sess_inv s'"
  using step
  by (elim sess_stepE)
    (auto simp: i sess_tx_rtp_def rtcp_set_srate_def rtcp_set_srate_tx_def rtcp_set_srate_rx_def
       rtcp_set_interval_def split: option.splits
     intro: recv_inv [OF i new] timeout_inv [OF i] enable_inv [OF i] dest: rx_rtp_inv [OF i new])

lemma sess_reach_inv: "sess_reach new s \<Longrightarrow> fresh_addr new \<Longrightarrow> sess_inv s"
  by (induction rule: sess_reach.induct) (auto dest: sess_alloc_inv sess_step_inv)


section \<open>Figures of a report\<close>

lemma jit_of_block:
  "srate \<noteq> 0 \<Longrightarrow> mbr_jit (handle_rr_block u j srate rr m) = 1000000 * rr_jitter rr div srate"
  by (simp add: handle_rr_block_def Let_def)

lemma quotient_of_wrapped:
  assumes s: "0 < s" "s < 2 ^ 32" and x: "2 ^ 32 \<le> (x :: nat)"
  shows "(x mod 2 ^ 32) div s \<noteq> x div s"
proof -
  have "x mod 2 ^ 32 + 2 ^ 32 \<le> x"
  proof -
    have "1 \<le> x div 2 ^ 32" using x by (simp add: div_greater_zero_iff Suc_le_eq)
    then have "2 ^ 32 * 1 \<le> 2 ^ 32 * (x div 2 ^ 32)" by (rule mult_le_mono2)
    then show ?thesis using mult_div_mod_eq [of "2 ^ 32" x] by linarith
  qed
  then have "x mod 2 ^ 32 + s \<le> x" using s by linarith
  then have "(x mod 2 ^ 32 + s) div s \<le> x div s" by (rule div_le_mono)
  then show ?thesis using s div_add_self2 [of s "x mod 2 ^ 32"] by linarith
qed

text \<open>Both clocks as microseconds: the low 32 bits of a difference that fits an \<open>int\<close> are the difference.\<close>

lemma rtt_value:
  assumes d: "d = int (unat (ntp_compact2us (ntp_compact (Some (fst (ntp_time_get u j)))))) - int (unat (ntp_compact2us lsr))
      - int (unat (1000000 * ucast dlsr div 65536 :: u64))"
    and r: "- (2 ^ 31) \<le> d" "d < 2 ^ 31"
  shows "int (unat (rtcp_calc_rtt u j lsr dlsr)) = max d 0"
proof -
  let ?a = "ntp_compact2us (ntp_compact (Some (fst (ntp_time_get u j))))" and ?l = "ntp_compact2us lsr"
    and ?d = "1000000 * ucast dlsr div 65536 :: u64"
  have "word_of_int d = ?a - ?l - ?d" unfolding d by (simp add: of_int_diff)
  then have "(ucast (?a - ?l - ?d) :: u32) = ucast (word_of_int d :: u64)" by simp
  also have "\<dots> = word_of_int d"
    by (rule bit_word_eqI) (auto simp: bit_ucast_iff bit_word_of_int_iff)
  finally have "sint (ucast (?a - ?l - ?d) :: u32) = d"
    using r by (simp add: signed_of_int signed_take_bit_int_eq_self)
  then have "rtcp_calc_rtt u j lsr dlsr = word_of_int (max d 0)" by (simp add: rtcp_calc_rtt_def Let_def)
  then show ?thesis using r unat_of_int_u32 [of "max d 0"] by (simp add: max_def split: if_splits)
qed

section \<open>What a session promises\<close>

text \<open>C2: Along every run of a session the member table holds exactly the live members, each found under its own
  SSRC, \<open>memberc\<close> counts them and never exceeds 8, and \<open>senderc\<close> counts those with a source state.\<close>
theorem session_invariant:
  assumes "fresh_addr new" "sess_reach new s"
  shows "set (hash_elems (ss_members s)) = dom (ss_mem s) \<and> distinct (hash_elems (ss_members s)) \<and>
    unat (ss_memberc s) = card (dom (ss_mem s)) \<and> unat (ss_memberc s) \<le> 8 \<and>
    unat (ss_senderc s) = card {a. \<exists>m. ss_mem s a = Some m \<and> mbr_s m \<noteq> None} \<and>
    (\<forall>ssrc. \<exists>r. member_find (ss_members s) (ss_mem s) ssrc = Some r \<and>
       (\<forall>a. r = Some a \<longleftrightarrow> (\<exists>m. ss_mem s a = Some m \<and> mbr_src m = ssrc)))"
proof -
  have i: "sess_inv s" by (rule sess_reach_inv [OF assms(2,1)])
  have "distinct (hash_elems (ss_members s))" using sess_inv_table [OF i] by (simp add: hash_ok_def hash_elems_def)
  moreover have "\<exists>r. member_find (ss_members s) (ss_mem s) ssrc = Some r \<and>
       (\<forall>a. r = Some a \<longleftrightarrow> (\<exists>m. ss_mem s a = Some m \<and> mbr_src m = ssrc))" for ssrc
    using member_find_spec [OF i, of ssrc] by metis
  ultimately show ?thesis using i by (simp add: sess_inv_def senders_def)
qed

text \<open>C4: Whatever bytes a datagram holds and whichever allocations fail, the receive loop ends without undefined
  behaviour, after at most one message per four bytes, with the session's invariant kept.\<close>
theorem rtcp_recv_safe:
  assumes "fresh_addr new" "mb_inv m" "sess_inv s"
  shows "\<exists>s' msgs. rtcp_recv_handler mem new u jfs j (Some m) (Some s) = Some (Some s', msgs) \<and> sess_inv s' \<and>
    4 * length msgs \<le> unat (mbuf_get_left (Some m))"
  using recv_loop_returns [OF assms(1,2,3), of mem u jfs j 0] left_eq [OF assms(2)] by (auto simp: rtcp_recv_handler_def)

text \<open>C38: A decoded message is well typed: it has version 2, its body fits the packet type of its header, and its
  vector of blocks, chunks or sources is as long as the count the handlers loop to.\<close>
theorem rtcp_decode_typed:
  "rtcp_decode mem True mb = Some ((err, Some msg), mb') \<Longrightarrow>
   err = OK \<and> rh_version (rm_hdr msg) = RTCP_VERSION \<and> msg_wf msg"
  by (rule rtcp_decode_wf)

text \<open>C3: The report that the timer sends fits its 512-byte buffer, has one block for every sender of the session, and
  the peer decodes from the datagram the same report and then the description with the canonical name, and nothing else.\<close>
theorem report_reaches_peer:
  assumes i: "sess_inv s" and r: "report_all jfs (hash_elems (ss_members s)) (ss_mem s) = Some (rs, mem')"
    and c: "ss_cname s = Some v" "length v \<le> 255" and blk: "mm 512 = Some f"
    and net: "ss_rs s = Some sk" "if rs_rtcp_mux sk then nt_sock_rtp net else nt_sock_rtcp net" "nt_peer_set net"
    and peer: "\<And>x. peer x"
  shows "\<exists>s' dg h h' m1 m2.
    send_rtcp_report mm True net u jfs j s = Some (nt_udp_send net dg, s', Some dg) \<and> ss_mem s' = mem' \<and> sess_inv s' \<and>
    length rs = unat (ss_senderc s) \<and> length dg \<le> 488 \<and>
    rtcp_decode peer True (Some (ex_rtcp dg)) = Some ((OK, Some \<lparr>rm_hdr = h, rm_r = report_msg u j s rs\<rparr>), Some m1) \<and>
    rtcp_decode peer True (Some m1) = Some ((OK, Some \<lparr>rm_hdr = h', rm_r = Body_SDES [\<lparr>sd_src = enc_ssrc sk,
      sd_itemv = [\<lparr>it_type = 1, it_length = word_of_nat (length v), it_data = str_bytes v\<rparr>]\<rparr>]\<rparr>), Some m2) \<and>
    mbuf_get_left (Some m2) = 0"
proof -
  let ?sd = "rtcp_packet RTCP_SDES 1 (sdes_chunk (enc_ssrc sk) 1 v)" and ?rp = "report_packet u j s rs"
  let ?s1 = "s\<lparr>ss_txstat := (ss_txstat s)\<lparr>tx_ts_synced := False\<rparr>, ss_mem := mem'\<rparr>"
  have n: "length rs \<le> 8" by (rule report_all_senders(2) [OF i r])
  have len: "length (?rp @ ?sd) \<le> 488"
    using report_packet_size [OF n, of u j s] sdes_packet_small [OF c(2), of RTCP_SDES 1 "enc_ssrc sk" 1] by simp
  have "at (ex_rtcp (?rp @ ?sd)) (?rp @ ?sd)" using len by (intro ex_rtcp_at) simp
  from report_packet_decode [where mem = peer, OF this _ peer peer] n obtain h m1 where 1:
    "rtcp_decode peer True (Some (ex_rtcp (?rp @ ?sd))) = Some ((OK, Some \<lparr>rm_hdr = h, rm_r = report_msg u j s rs\<rparr>), Some m1)"
    "at m1 ?sd" by auto
  have "at m1 (?sd @ [])" using 1(2) by simp
  from sdes_packet_decode_at [where mem = peer, OF this c(2) _ peer] obtain h' m2 where 2:
    "rtcp_decode peer True (Some m1) = Some ((OK, Some \<lparr>rm_hdr = h', rm_r = Body_SDES [\<lparr>sd_src = enc_ssrc sk,
      sd_itemv = [\<lparr>it_type = 1, it_length = word_of_nat (length v), it_data = str_bytes v\<rparr>]\<rparr>]\<rparr>), Some m2)" "at m2 []" by auto
  have "unat (mbuf_get_left (Some m2)) = 0" using left_at [OF 2(2)] by simp
  then have left: "mbuf_get_left (Some m2) = 0" by (simp only: unat_eq_zero)
  have "sess_inv ?s1" using i report_all_frame [OF r] by (simp add: sess_inv_def)
  then show ?thesis
    using send_report_datagram [where mm = mm and u = u and j = j, OF i r c blk net] 1(1) 2(1) left len report_all_senders(1) [OF i r]
    by (intro exI [of _ ?s1] exI [of _ "?rp @ ?sd"] exI [of _ h] exI [of _ h'] exI [of _ m1] exI [of _ m2]) simp
qed

text \<open>When the table is full, a source that is not a member is left out: its media packets change nothing in the
  session, for as long as the eight members do not say goodbye.\<close>
theorem ninth_source_ignored:
  assumes "fresh_addr new" "sess_inv s" "unat (ss_memberc s) = 8" "\<And>a m. ss_mem s a = Some m \<Longrightarrow> mbr_src m \<noteq> h_ssrc hdr"
  shows "rtcp_sess_rx_rtp new zok jfs hdr n (Some s) = Some (Some s, hdr) \<and> rtcp_stats (h_ssrc hdr) (Some s) = Some (ENOENT, None)"
proof -
  obtain r where r: "member_find (ss_members s) (ss_mem s) (h_ssrc hdr) = Some r"
    "\<And>a. r = Some a \<longleftrightarrow> (\<exists>m. ss_mem s a = Some m \<and> mbr_src m = h_ssrc hdr)"
    using member_find_spec [OF assms(2), of "h_ssrc hdr"] by metis
  have rn: "r = None" using r(2) assms(4) by (cases r) blast+
  have "get_member new s (h_ssrc hdr) = Some (None, s)"
    using r(1) rn assms(3) by (simp add: get_member_def word_le_nat_alt MAX_MEMBERS_def)
  then show ?thesis using r(1) rn by (simp add: rtcp_sess_rx_rtp_def rtcp_stats_def)
qed

text \<open>The jitter of a report in microseconds is right exactly up to 4294 units of the sampling clock (90 ms at
  48 kHz, 537 ms at 8 kHz): above, the product with 1000000 wraps and the figure is too small.\<close>
theorem report_jitter_exact_iff:
  assumes "srate \<noteq> 0"
  shows "unat (mbr_jit (handle_rr_block u j srate rr m)) = 1000000 * unat (rr_jitter rr) div unat srate \<longleftrightarrow>
    unat (rr_jitter rr) \<le> 4294"
proof -
  have v: "unat (mbr_jit (handle_rr_block u j srate rr m)) = (1000000 * unat (rr_jitter rr)) mod 2 ^ 32 div unat srate"
    unfolding jit_of_block [OF assms] by (simp add: unat_div unat_word_ariths)
  have s: "0 < unat srate" "unat srate < 2 ^ 32" using assms unat_u32_less [of srate] by (simp_all add: unat_gt_0)
  show ?thesis
  proof (cases "unat (rr_jitter rr) \<le> 4294")
    case True
    then have "1000000 * unat (rr_jitter rr) < 2 ^ 32" by simp
    then show ?thesis using v True by simp
  next
    case False
    then have "2 ^ 32 \<le> 1000000 * unat (rr_jitter rr)" by simp
    from quotient_of_wrapped [OF s this] show ?thesis using v False by simp
  qed
qed

section \<open>A session\<close>

definition ex_new :: new_addr where
  "ex_new A = (if 9 \<in> A then None else Some 9)"

lemma ex_new_fresh: "fresh_addr ex_new"
  by (simp add: fresh_addr_def ex_new_def)

definition ex_sess :: rtcp_sess where
  "ex_sess = \<lparr>ss_rs = Some \<lparr>enc_seq = 1, enc_ssrc = 5, rs_rtcp = None, rs_rtcp_mux = False\<rparr>,
     ss_members = \<lparr>h_bucket = [[7], [], [], [], [], [], [], []], h_bsize = 8\<rparr>,
     ss_mem = [7 \<mapsto> zero_member\<lparr>mbr_s := Some (rtp_source_init_seq 1 zero_source), mbr_src := 8\<rparr>],
     ss_tmr = None, ss_cname = Some ''me'', ss_memberc = 1, ss_senderc = 1, ss_srate_tx = 8000, ss_srate_rx = 8000,
     ss_interval = 5000, ss_txstat = zero_txstat\<rparr>"

lemma ex_sess_inv: "sess_inv ex_sess"
proof -
  have ok: "hash_ok (ss_members ex_sess)" by (simp add: ex_sess_def hash_ok_def)
  have "table.keys_ok (ss_members ex_sess) (key_of (ss_mem ex_sess))"
    using ok by (simp add: table.keys_ok_def ex_sess_def hash_elems_def hash_filed_def hash_index_def key_of_def)
  moreover have "senders (ss_mem ex_sess) = {7}" by (auto simp: ex_sess_def senders_def)
  ultimately show ?thesis by (simp add: sess_inv_def ex_sess_def hash_elems_def)
qed

lemma session_invariant_witness:
  "\<exists>s. sess_reach ex_new s \<and> unat (ss_memberc s) \<le> 8"
proof -
  have c: "unat (MAX_MEMBERS * SIZEOF_LIST) div unat SIZEOF_LIST = 8" by (simp add: SIZEOF_LIST_def MAX_MEMBERS_def)
  have "\<exists>s. rtcp_sess_alloc True True 0 True (\<lambda>_. True) None = (OK, Some s)"
    by (simp add: rtcp_sess_alloc_def hash_alloc_def c) (simp add: MAX_MEMBERS_def)
  then obtain s where "sess_reach ex_new s" using sess_reach.reach_alloc by blast
  then show ?thesis using session_invariant [OF ex_new_fresh] by blast
qed

lemma rtcp_recv_safe_witness:
  "\<exists>s' msgs. rtcp_recv_handler (\<lambda>_ _. True) ex_new (\<lambda>_. 0) 1 2 (Some (ex_rtcp [0x81, 203, 0, 1, 0, 0, 0, 8])) (Some ex_sess)
     = Some (Some s', msgs) \<and> sess_inv s'"
  using rtcp_recv_safe [OF ex_new_fresh ex_rtcp_inv ex_sess_inv, of "[0x81, 203, 0, 1, 0, 0, 0, 8]" "\<lambda>_ _. True" "\<lambda>_. 0" 1 2]
  by auto

lemma rtcp_decode_typed_witness:
  "\<exists>msg mb'. rtcp_decode (\<lambda>_. True) True (Some (ex_rtcp (rtcp_packet RTCP_RR 1 (report_body [5] [zero_rr])))) = Some ((OK, Some msg), mb') \<and>
     msg_wf msg"
proof -
  let ?bs = "rtcp_packet RTCP_RR (word_of_nat (length [zero_rr])) (report_body [5] [zero_rr]) @ []"
  have "length ?bs < 2 ^ 32" using report_packet_small [of "[zero_rr]" "[5]" RTCP_RR 1] by simp
  from rr_decode_packet_at [where mem = "\<lambda>_. True", OF ex_rtcp_at [OF this]] obtain h m' where
    "rtcp_decode (\<lambda>_. True) True (Some (ex_rtcp ?bs)) = Some ((OK, Some \<lparr>rm_hdr = h, rm_r = Body_RR 5 [zero_rr]\<rparr>), Some m')"
    by auto
  with rtcp_decode_typed [OF this] show ?thesis by auto
qed

definition ex_net :: net where
  "ex_net = \<lparr>nt_sock_rtp = True, nt_sock_rtcp = True, nt_peer_set = True, nt_udp_send = (\<lambda>_. OK)\<rparr>"

lemma report_reaches_peer_witness:
  "\<exists>s' dg h m1. send_rtcp_report (\<lambda>_. Some (\<lambda>_. 0)) True ex_net (\<lambda>_. 0) 1 2 ex_sess = Some (OK, s', Some dg) \<and>
     rtcp_decode (\<lambda>_. True) True (Some (ex_rtcp dg)) = Some ((OK, Some h), Some m1)"
proof -
  obtain rs mem' where r: "report_all 1 (hash_elems (ss_members ex_sess)) (ss_mem ex_sess) = Some (rs, mem')"
    by (simp add: ex_sess_def hash_elems_def rtp_source_calc_fraction_lost_def rtp_source_init_seq_def zero_source_def
        expected_of_def Let_def int32_def)
  show ?thesis
    using report_reaches_peer [where s = ex_sess and jfs = 1 and rs = rs and mem' = mem' and v = "''me''" and mm = "\<lambda>_. Some (\<lambda>_. 0)"
        and f = "\<lambda>_. 0" and sk = "\<lparr>enc_seq = 1, enc_ssrc = 5, rs_rtcp = None, rs_rtcp_mux = False\<rparr>" and net = ex_net
        and peer = "\<lambda>_. True" and u = "\<lambda>_. 0" and j = 2, OF ex_sess_inv r]
    by (auto simp: ex_sess_def ex_net_def)
qed

definition ex_full :: rtcp_sess where
  "ex_full = ex_sess\<lparr>ss_members := \<lparr>h_bucket = [[0], [1], [2], [3], [4], [5], [6], [7]], h_bsize = 8\<rparr>,
     ss_mem := (\<lambda>a. if a < 8 then Some (zero_member\<lparr>mbr_src := word_of_nat a\<rparr>) else None), ss_memberc := 8, ss_senderc := 0\<rparr>"

lemma ex_full_inv: "sess_inv ex_full"
proof -
  have el: "hash_elems (ss_members ex_full) = [0, 1, 2, 3, 4, 5, 6, 7]" by (simp add: ex_full_def hash_elems_def)
  have k: "key_of (ss_mem ex_full) a = word_of_nat a" if "a < 8" for a
    using that by (simp add: ex_full_def key_of_def)
  have ok: "hash_ok (ss_members ex_full)" by (simp add: ex_full_def hash_ok_def)
  have f: "hash_filed (ss_members ex_full) (word_of_nat a) a" if "a \<in> {0, 1, 2, 3, 4, 5, 6, 7}" for a
    using that by (auto simp: ex_full_def hash_filed_def hash_index_def)
  have s8: "set [0, 1, 2, 3, 4, 5, 6, 7 :: nat] = {..<8}" by auto
  have "inj_on (\<lambda>a. word_of_nat a :: u32) {..<8}"
  proof (rule inj_onI)
    fix a b :: nat assume "a \<in> {..<8}" "b \<in> {..<8}" "(word_of_nat a :: u32) = word_of_nat b"
    then have "unat (word_of_nat a :: u32) = unat (word_of_nat b :: u32)" "a < 4294967296" "b < 4294967296" by simp_all
    then show "a = b" by (simp only: unat_of_nat_u32)
  qed
  then have "inj_on (key_of (ss_mem ex_full)) {..<8}" using k by (simp add: inj_on_def)
  moreover have "\<forall>a\<in>{..<8}. hash_filed (ss_members ex_full) (key_of (ss_mem ex_full) a) a"
  proof
    fix a :: nat assume "a \<in> {..<8}"
    moreover then have "a \<in> {0, 1, 2, 3, 4, 5, 6, 7}" using s8 by auto
    ultimately show "hash_filed (ss_members ex_full) (key_of (ss_mem ex_full) a) a" using f k by simp
  qed
  ultimately have "table.keys_ok (ss_members ex_full) (key_of (ss_mem ex_full))"
    using ok unfolding table.keys_ok_def el s8 by blast
  moreover have d: "dom (ss_mem ex_full) = {..<8}" by (auto simp: ex_full_def split: if_splits)
  moreover have "senders (ss_mem ex_full) = {}" by (auto simp: ex_full_def senders_def zero_member_def)
  moreover have "ss_memberc ex_full = 8" "ss_senderc ex_full = 0" by (simp_all add: ex_full_def)
  ultimately show ?thesis unfolding sess_inv_def el s8 by simp
qed

lemma ninth_source_ignored_witness:
  "rtcp_sess_rx_rtp ex_new True 1 (zero_hdr\<lparr>h_ssrc := 77\<rparr>) 160 (Some ex_full) = Some (Some ex_full, zero_hdr\<lparr>h_ssrc := 77\<rparr>)"
proof -
  have full: "unat (ss_memberc ex_full) = 8" by (simp add: ex_full_def)
  have no: "mbr_src m \<noteq> h_ssrc (zero_hdr\<lparr>h_ssrc := 77\<rparr>)" if "ss_mem ex_full a = Some m" for a m
  proof
    assume e: "mbr_src m = h_ssrc (zero_hdr\<lparr>h_ssrc := 77\<rparr>)"
    have a: "a < 8" "mbr_src m = word_of_nat a" using that by (auto simp: ex_full_def split: if_splits)
    then have "unat (mbr_src m) = a" by (simp add: unat_of_nat_u32)
    then show False using e a(1) by simp
  qed
  show ?thesis
    by (rule conjunct1 [OF ninth_source_ignored [OF ex_new_fresh ex_full_inv full]]) (rule no)
qed

lemma report_jitter_exact_iff_witness:
  "unat (mbr_jit (handle_rr_block (\<lambda>_. 0) 0 8000 (zero_rr\<lparr>rr_jitter := 4295\<rparr>) zero_member)) \<noteq> 1000000 * 4295 div 8000"
  using report_jitter_exact_iff [of 8000 "\<lambda>_. 0" 0 "zero_rr\<lparr>rr_jitter := 4295\<rparr>" zero_member] by simp

end
