(* ===== verification/Telev.thy ===== *)
theory Telev
  imports Rtp
begin

text \<open>
  Telephony events, the DTMF digits sent during a call: the sender and receiver of
  \<open>native/re/src/telev/telev.c\<close> (RFC 4733), the part of \<open>native/baresip/src/audio.c\<close> that feeds and
  polls it, and the choice of the transport in \<open>native/baresip/src/call.c\<close>.  A pressed key is queued as
  one byte and its release as the byte 255; every poll, one per packet time, gives one packet of four
  bytes.  The result \<open>None\<close> of an operation is an access outside a buffer.
\<close>

section \<open>State\<close>

definition TXC_DIGIT_MIN :: u32 where "TXC_DIGIT_MIN = 9"
definition TXC_END :: u32 where "TXC_END = 3"
definition EVENT_END :: u8 where "EVENT_END = 255"
definition PAYLOAD_SIZE :: u32 where "PAYLOAD_SIZE = 4"
definition VOLUME :: u8 where "VOLUME = 10"
definition QUEUE_SIZE :: u32 where "QUEUE_SIZE = 8192"

datatype telev_state = IDLE | SENDING | ENDING

record telev_fmt =
  tf_event :: u8
  tf_end :: bool
  tf_vol :: u8
  tf_dur :: u16

record telev =
  tel_mb :: "mbuf option"
  tel_ptime :: u32
  tel_pdur :: u16
  tel_state :: telev_state
  tel_event :: int
  tel_dur :: u16
  tel_txc :: u32
  tel_rx_event :: int
  tel_rx_end :: bool

section \<open>The payload\<close>

text \<open>When a write fails the position is restored (the end is not).\<close>

definition payload_encode ::
    "allocator \<Rightarrow> mbuf option \<Rightarrow> int \<Rightarrow> bool \<Rightarrow> u16 \<Rightarrow> (errno \<times> mbuf option) option" where
  "payload_encode mm mb event e dur =
     (case mb of
        None \<Rightarrow> Some (EINVAL, None)
      | Some m \<Rightarrow> do {
          let pos = mb_pos m;
          (err, mb) \<leftarrow> or_err (or_err
             (\<lambda>mb. mbuf_write_u8 mm mb (word_of_int event))
             (\<lambda>mb. mbuf_write_u8 mm mb ((if e then 0x80 else 0x00) OR (VOLUME AND 0x3f))))
             (\<lambda>mb. mbuf_write_u16 mm mb (htons dur)) mb;
          Some (err, if err \<noteq> 0 then map_option (\<lambda>m. m\<lparr>mb_pos := pos\<rparr>) mb else mb)
        })"

definition payload_decode :: "mbuf option \<Rightarrow> (errno \<times> telev_fmt option \<times> mbuf option) option" where
  "payload_decode mb =
     (if mb = None then Some (EINVAL, None, mb)
      else if mbuf_get_left mb < PAYLOAD_SIZE then Some (ENOENT, None, mb)
      else do {
        (ev, mb) \<leftarrow> mbuf_read_u8 mb;
        (b, mb) \<leftarrow> mbuf_read_u8 mb;
        (d, mb) \<leftarrow> mbuf_read_u16 mb;
        Some (OK, Some \<lparr>tf_event = ev, tf_end = (b AND 0x80 = 0x80), tf_vol = b AND 0x3f, tf_dur = ntohs d\<rparr>, mb)
      })"

section \<open>Sender and receiver\<close>

text \<open>\<open>tp\<close>: the result pointer is not NULL.\<close>

definition telev_alloc :: "allocator \<Rightarrow> bool \<Rightarrow> bool \<Rightarrow> bool \<Rightarrow> u32 \<Rightarrow> errno \<times> telev option" where
  "telev_alloc mm zalloc_ok mb_ok tp ptime =
     (if \<not> tp \<or> ptime = 0 then (EINVAL, None)
      else if \<not> zalloc_ok then (ENOMEM, None)
      else
        case mbuf_alloc mm mb_ok 16 of
          None \<Rightarrow> (ENOMEM, None)
        | Some m \<Rightarrow>
            (OK, Some \<lparr>tel_mb = Some m, tel_ptime = ptime, tel_pdur = ucast (ptime * 8), tel_state = IDLE,
                       tel_event = 0, tel_dur = 0, tel_txc = 0, tel_rx_event = - 1, tel_rx_end = False\<rparr>))"

definition telev_set_srate :: "telev option \<Rightarrow> u32 \<Rightarrow> errno \<times> telev option" where
  "telev_set_srate tel srate =
     (case tel of
        None \<Rightarrow> (EINVAL, None)
      | Some t \<Rightarrow>
          if srate = 0 then (EINVAL, tel)
          else (OK, Some (t\<lparr>tel_pdur := ucast (tel_ptime t * srate div 1000)\<rparr>)))"

definition telev_send ::
    "allocator \<Rightarrow> telev option \<Rightarrow> int \<Rightarrow> bool \<Rightarrow> (errno \<times> telev option) option" where
  "telev_send mm tel event e =
     (case tel of
        None \<Rightarrow> Some (EINVAL, None)
      | Some t \<Rightarrow>
          (case tel_mb t of
             None \<Rightarrow> None
           | Some q \<Rightarrow>
               if mb_end q \<ge> QUEUE_SIZE then Some (EOVERFLOW, tel)
               else do {
                 let pos = mb_pos q;
                 let q = q\<lparr>mb_pos := mb_end q\<rparr>;
                 (err, mb) \<leftarrow> mbuf_write_u8 mm (Some q) (if e then EVENT_END else word_of_int event);
                 Some (err, Some (t\<lparr>tel_mb := map_option (\<lambda>m. m\<lparr>mb_pos := pos\<rparr>) mb\<rparr>))
               }))"

text \<open>The last component is what is stored at \<open>event\<close> and \<open>end\<close>, when anything is; \<open>outp\<close>: both pointers
  are not NULL.\<close>

definition telev_recv ::
    "telev option \<Rightarrow> mbuf option \<Rightarrow> bool \<Rightarrow> (errno \<times> telev option \<times> mbuf option \<times> (int \<times> bool) option) option" where
  "telev_recv tel mb outp =
     (case tel of
        None \<Rightarrow> Some (EINVAL, None, mb, None)
      | Some t \<Rightarrow>
          if mb = None \<or> \<not> outp then Some (EINVAL, tel, mb, None)
          else do {
            (err, fmt, mb) \<leftarrow> payload_decode mb;
            case fmt of
              None \<Rightarrow> Some (err, tel, mb, None)
            | Some f \<Rightarrow>
                if err \<noteq> 0 then Some (err, tel, mb, None)
                else if tf_end f
                then (if tel_rx_end t then Some (EALREADY, tel, mb, None)
                      else Some (OK, Some (t\<lparr>tel_rx_event := - 1, tel_rx_end := True\<rparr>), mb,
                                 Some (uint (tf_event f), True)))
                else if uint (tf_event f) = tel_rx_event t then Some (EALREADY, tel, mb, None)
                else Some (OK, Some (t\<lparr>tel_rx_event := uint (tf_event f), tel_rx_end := False\<rparr>), mb,
                           Some (uint (tf_event f), False))
          })"

text \<open>The three cases of the poll, each with the queue \<open>q\<close> of the state.\<close>

definition poll_idle ::
    "allocator \<Rightarrow> telev \<Rightarrow> mbuf option \<Rightarrow> (errno \<times> bool \<times> telev \<times> mbuf option) option" where
  "poll_idle mm t mb =
     (if mbuf_get_left (tel_mb t) = 0 then Some (ENOENT, False, t, mb)
      else do {
        (v, q) \<leftarrow> mbuf_read_u8 (tel_mb t);
        let t = t\<lparr>tel_mb := q, tel_event := uint v, tel_dur := tel_pdur t, tel_state := SENDING, tel_txc := 1\<rparr>;
        (err, mb) \<leftarrow> payload_encode mm mb (tel_event t) False (tel_dur t);
        Some (err, True, t, mb)
      })"

definition poll_sending ::
    "allocator \<Rightarrow> telev \<Rightarrow> mbuf option \<Rightarrow> (errno \<times> bool \<times> telev \<times> mbuf option) option" where
  "poll_sending mm t mb = do {
     let t = t\<lparr>tel_dur := tel_dur t + tel_pdur t\<rparr>;
     (err, mb) \<leftarrow> payload_encode mm mb (tel_event t) False (tel_dur t);
     let t = t\<lparr>tel_txc := tel_txc t + 1\<rparr>;
     if tel_txc t < TXC_DIGIT_MIN then Some (err, False, t, mb)
     else if mbuf_get_left (tel_mb t) = 0 then Some (err, False, t, mb)
     else do {
       (v, q) \<leftarrow> mbuf_read_u8 (tel_mb t);
       let q = (if v \<noteq> EVENT_END then map_option (\<lambda>m. m\<lparr>mb_pos := mb_pos m - 1\<rparr>) q else q);
       Some (err, False, t\<lparr>tel_mb := q, tel_state := ENDING, tel_txc := 0\<rparr>, mb)
     } }"

definition poll_ending ::
    "allocator \<Rightarrow> telev \<Rightarrow> mbuf option \<Rightarrow> (errno \<times> bool \<times> telev \<times> mbuf option) option" where
  "poll_ending mm t mb = do {
     (err, mb) \<leftarrow> payload_encode mm mb (tel_event t) True (tel_dur t);
     let t = t\<lparr>tel_txc := tel_txc t + 1\<rparr>;
     if tel_txc t < TXC_END then Some (err, False, t, mb)
     else if mbuf_get_left (tel_mb t) = 0 \<and> tel_mb t = None then None
     else
       let t = (if mbuf_get_left (tel_mb t) = 0
                then t\<lparr>tel_mb := map_option (\<lambda>m. m\<lparr>mb_pos := 0, mb_end := 0\<rparr>) (tel_mb t)\<rparr> else t)
       in Some (err, False, t\<lparr>tel_state := IDLE\<rparr>, mb) }"

text \<open>\<open>marker\<close> is the variable of the caller, \<open>None\<close> for a NULL pointer.\<close>

definition telev_poll ::
    "allocator \<Rightarrow> telev option \<Rightarrow> bool option \<Rightarrow> mbuf option \<Rightarrow>
     (errno \<times> bool option \<times> telev option \<times> mbuf option) option" where
  "telev_poll mm tel marker mb =
     (case tel of
        None \<Rightarrow> Some (EINVAL, marker, tel, mb)
      | Some t \<Rightarrow>
          if marker = None \<or> mb = None then Some (EINVAL, marker, tel, mb)
          else do {
            (err, mrk, t, mb) \<leftarrow>
              (case tel_state t of
                 IDLE \<Rightarrow> poll_idle mm t mb
               | SENDING \<Rightarrow> poll_sending mm t mb
               | ENDING \<Rightarrow> poll_ending mm t mb);
            Some (err, if err = 0 then Some mrk else marker, Some t, mb)
          })"

definition telev_is_empty :: "telev option \<Rightarrow> bool" where
  "telev_is_empty tel =
     (case tel of None \<Rightarrow> True | Some t \<Rightarrow> tel_state t = IDLE \<and> mbuf_get_left (tel_mb t) = 0)"

section \<open>Digits\<close>

text \<open>Characters are their codes: \<open>'0'\<close> is 48, \<open>'*'\<close> 42, \<open>'#'\<close> 35, \<open>'A'\<close> 65, \<open>'a'\<close> 97.\<close>

definition telev_digit2code :: "int \<Rightarrow> int" where
  "telev_digit2code digit =
     (if 48 \<le> digit \<and> digit \<le> 57 then digit - 48
      else if digit = 42 then 10
      else if digit = 35 then 11
      else if 97 \<le> digit \<and> digit \<le> 100 then digit - 97 + 12
      else if 65 \<le> digit \<and> digit \<le> 68 then digit - 65 + 12
      else - 1)"

definition telev_code2digit :: "int \<Rightarrow> int" where
  "telev_code2digit code =
     (if code < 0 \<or> code \<ge> 16 then - 1 else of_char (''0123456789*#ABCD'' ! nat code))"

section \<open>The audio object\<close>

text \<open>The fields of \<open>struct audio\<close> and its transmitter that digits use; \<open>tx_ts_ext\<close> is the extended timestamp
  of the audio stream.\<close>

record audio_dtmf =
  au_telev :: "telev option"
  au_cur_key :: int
  au_ts_tel :: u32
  au_ts_ext :: u64

definition KEYCODE_REL :: int where "KEYCODE_REL = 4"
definition STREAM_PRESZ :: u32 where "STREAM_PRESZ = 16"

definition audio_send_digit ::
    "allocator \<Rightarrow> audio_dtmf option \<Rightarrow> int \<Rightarrow> (errno \<times> audio_dtmf option) option" where
  "audio_send_digit mm au key =
     (case au of
        None \<Rightarrow> Some (EINVAL, None)
      | Some a \<Rightarrow>
          if key \<noteq> KEYCODE_REL
          then
            let event = telev_digit2code key
            in if event = - 1 then Some (EINVAL, au)
               else do {
                 (err, t) \<leftarrow> telev_send mm (au_telev a) event False;
                 Some (err, Some (a\<lparr>au_telev := t, au_cur_key := key\<rparr>))
               }
          else if au_cur_key a \<noteq> 0 \<and> au_cur_key a \<noteq> KEYCODE_REL
          then do {
            (err, t) \<leftarrow> telev_send mm (au_telev a) (telev_digit2code (au_cur_key a)) True;
            Some (err, Some (a\<lparr>au_telev := t, au_cur_key := key\<rparr>))
          }
          else Some (OK, Some (a\<lparr>au_cur_key := key\<rparr>)))"

text \<open>A packet handed to \<open>stream_send\<close>: marker, payload type, timestamp and the bytes from the position.
  \<open>rformat\<close> is the payload type that the peer gave telephone-event, when it supports it.\<close>

record telev_packet =
  tp_marker :: bool
  tp_pt :: int
  tp_ts :: u32
  tp_payload :: "u8 list"

definition check_telev ::
    "allocator \<Rightarrow> bool \<Rightarrow> int option \<Rightarrow> audio_dtmf \<Rightarrow> (telev_packet option \<times> audio_dtmf) option" where
  "check_telev mm zalloc_ok rformat a =
     (case mbuf_alloc mm zalloc_ok (STREAM_PRESZ + 64) of
        None \<Rightarrow> Some (None, a)
      | Some m \<Rightarrow> do {
          let m = m\<lparr>mb_pos := STREAM_PRESZ, mb_end := STREAM_PRESZ\<rparr>;
          (err, marker, t, mb) \<leftarrow> telev_poll mm (au_telev a) (Some False) (Some m);
          let a = a\<lparr>au_telev := t\<rparr>;
          if err \<noteq> 0 then Some (None, a)
          else
            let a = (if marker = Some True then a\<lparr>au_ts_tel := ucast (au_ts_ext a)\<rparr> else a)
            in case rformat of
                 None \<Rightarrow> Some (None, a)
               | Some pt \<Rightarrow>
                   Some (Some \<lparr>tp_marker = (marker = Some True), tp_pt = pt, tp_ts = au_ts_tel a,
                               tp_payload = pending (map_option (\<lambda>m. m\<lparr>mb_pos := STREAM_PRESZ\<rparr>) mb)\<rparr>, a)
        })"

definition audio_txtelev_empty :: "audio_dtmf option \<Rightarrow> bool" where
  "audio_txtelev_empty au = (case au of None \<Rightarrow> True | Some a \<Rightarrow> telev_is_empty (au_telev a))"

text \<open>A received telephone-event packet, as a buffer of its bytes: the digit and the flag given to the event
  handler of the call, when it is called; \<open>eventh\<close>: there is one.\<close>

definition handle_telev ::
    "bool \<Rightarrow> mbuf option \<Rightarrow> audio_dtmf \<Rightarrow> ((int \<times> bool) option \<times> audio_dtmf) option" where
  "handle_telev eventh mb a = do {
     (err, t, mb, out) \<leftarrow> telev_recv (au_telev a) mb True;
     let a = a\<lparr>au_telev := t\<rparr>;
     if err \<noteq> 0 then Some (None, a)
     else
       case out of
         None \<Rightarrow> Some (None, a)
       | Some (event, e) \<Rightarrow>
           let digit = telev_code2digit event
           in Some (if digit \<ge> 0 \<and> eventh then Some (digit, e) else None, a) }"

datatype dtmfmode = DTMFMODE_RTP_EVENT | DTMFMODE_SIP_INFO | DTMFMODE_AUTO

text \<open>The digit goes out as a SIP INFO request (answered by \<open>info_err\<close>; the digits requested are the third
  component) or as a telephone event.\<close>

definition call_send_digit ::
    "allocator \<Rightarrow> dtmfmode \<Rightarrow> bool \<Rightarrow> (int \<Rightarrow> errno) \<Rightarrow> audio_dtmf option \<Rightarrow> int \<Rightarrow>
     (errno \<times> audio_dtmf option \<times> int list) option" where
  "call_send_digit mm mode rformat_ok info_err au key =
     (let info = (case mode of
                    DTMFMODE_SIP_INFO \<Rightarrow> True
                  | DTMFMODE_AUTO \<Rightarrow> \<not> rformat_ok
                  | DTMFMODE_RTP_EVENT \<Rightarrow> False)
      in if info
         then (if key \<noteq> KEYCODE_REL then Some (info_err key, au, [key]) else Some (OK, au, []))
         else map_option (\<lambda>(err, au). (err, au, [])) (audio_send_digit mm au key))"

end
