(* ===== verification/Telev_Spec.thy ===== *)
theory Telev_Spec
  imports Telev Rtp_Spec "HOL-Library.Sublist"
begin

text \<open>
  What the telephony events guarantee: every digit that is pressed and released is sent as at least nine
  packets of its event followed by three packets that end it, in the order of the keys, and a peer that
  receives at least one of each hears every digit exactly once, whatever else is lost.  And what they do
  not: a digit that is never released is sent for ever.
\<close>

section \<open>The payload\<close>

definition tel_payload :: "int \<Rightarrow> bool \<Rightarrow> u16 \<Rightarrow> u8 list" where
  "tel_payload ev e dur = [word_of_int ev, if e then 138 else 10] @ be16 dur"

lemma length_tel_payload [simp]: "length (tel_payload ev e dur) = 4"
  by (simp add: tel_payload_def)

lemma or_err_assoc: "or_err (or_err f g) h = or_err f (or_err g h)"
  by (rule ext) (simp add: or_err_def bind_assoc case_prod_unfold or.assoc
      split: bind_split cong: option.case_cong)

lemma payload_encode_room:
  assumes "mb_inv m" "mb_off m + 4 \<le> unat (mb_size m)"
  shows "\<exists>m'. payload_encode mm (Some m) ev e dur = Some (OK, Some m') \<and> mb_inv m' \<and>
     mb_data m' = put_at (mb_off m) (tel_payload ev e dur) (mb_data m) \<and> mb_off m' = mb_off m + 4"
proof -
  let ?b = "(if e then 0x80 else 0x00) OR (VOLUME AND 0x3f) :: u8"
  let ?fs = "[[word_of_int ev], [?b], be16 dur]"
  have b: "?b = (if e then 138 else 10)" by (simp add: VOLUME_def)
  have w8: "mbuf_write_u8 mm mb v = mbuf_write_mem mm mb (Some [v])" for mb v
    by (simp add: mbuf_write_u8_def)
  have eq: "or_err (or_err (\<lambda>mb. mbuf_write_u8 mm mb (word_of_int ev)) (\<lambda>mb. mbuf_write_u8 mm mb ?b))
      (\<lambda>mb. mbuf_write_u16 mm mb (htons dur)) = enc_chain mm ?fs"
    unfolding w8 write_be enc_chain_Cons or_err_assoc by (simp add: fun_eq_iff or_err_def split: bind_split)
  have len: "length (concat ?fs) = 4" by simp
  from enc_chain_room [OF assms(1), of ?fs mm] assms(2) obtain m' where
    "enc_chain mm ?fs (Some m) = Some (OK, Some m')" "mb_inv m'"
    "mb_data m' = put_at (mb_off m) (concat ?fs) (mb_data m)" "mb_off m' = mb_off m + length (concat ?fs)"
    unfolding len by metis
  then show ?thesis unfolding payload_encode_def option.case Let_def eq
    by (simp add: b tel_payload_def)
qed

text \<open>Decoding the payload.\<close>

lemma u8_at:
  assumes "at m (b # rest)"
  shows "\<exists>m'. mbuf_read_u8 (Some m) = Some (b, Some m') \<and> at m' rest \<and> steps m m'"
proof -
  have "of_le_bytes [b] = b" by simp
  then show ?thesis using read_mem_at [of m "[b]" rest 1] assms by (auto simp: mbuf_read_u8_def)
qed

lemma payload_decode_at:
  assumes "at m (tel_payload ev e dur @ rest)"
  shows "\<exists>m'. payload_decode (Some m) =
     Some (OK, Some \<lparr>tf_event = word_of_int ev, tf_end = e, tf_vol = 10, tf_dur = dur\<rparr>, Some m') \<and> at m' rest"
proof -
  have l: "\<not> mbuf_get_left (Some m) < PAYLOAD_SIZE"
    using left_at [OF assms] by (simp add: PAYLOAD_SIZE_def word_less_nat_alt)
  have "at m (word_of_int ev # (if e then 138 else 10) # be16 dur @ rest)" using assms by (simp add: tel_payload_def)
  from u8_at [OF this] obtain m1 where m1: "mbuf_read_u8 (Some m) = Some (word_of_int ev, Some m1)"
    "at m1 ((if e then 138 else 10) # be16 dur @ rest)" by blast
  from u8_at [OF m1(2)] obtain m2 where m2: "mbuf_read_u8 (Some m1) = Some (if e then 138 else 10, Some m2)"
    "at m2 (be16 dur @ rest)" by blast
  from read_be16_at [OF m2(2)] obtain m3 where m3: "mbuf_read_u16 (Some m2) = Some (htons dur, Some m3)" "at m3 rest"
    by blast
  show ?thesis using l m1(1) m2(1) m3 by (simp add: payload_decode_def)
qed

section \<open>The queue\<close>

text \<open>\<open>q\<close> are the bytes that are queued and not yet taken.\<close>

definition tel_q :: "telev \<Rightarrow> u8 list \<Rightarrow> bool" where
  "tel_q t q \<longleftrightarrow> (\<exists>m. tel_mb t = Some m \<and> at m q)"

lemma tel_q_left: "tel_q t q \<Longrightarrow> mbuf_get_left (tel_mb t) = 0 \<longleftrightarrow> q = []"
  by (auto simp: tel_q_def dest!: left_at) (simp add: unsigned_eq_0_iff)

lemma tel_q_upd [simp]:
  "tel_q (t\<lparr>tel_state := s\<rparr>) q = tel_q t q" "tel_q (t\<lparr>tel_event := i\<rparr>) q = tel_q t q"
  "tel_q (t\<lparr>tel_dur := d\<rparr>) q = tel_q t q" "tel_q (t\<lparr>tel_txc := c\<rparr>) q = tel_q t q"
  by (simp_all add: tel_q_def)

lemma seek_same_at:
  assumes "at m' q'" "mb_off m \<le> length (mb_data m')"
  shows "at (m'\<lparr>mb_pos := mb_pos m\<rparr>) (drop (mb_off m) (mb_data m'))"
  using seek_inv [of m' "mb_pos m"] assms by (simp add: at_def mb_off_def)

lemma telev_send_spec:
  assumes "tel_q t q" "telev_send mm (Some t) ev e = Some (OK, t')"
  shows "\<exists>m. t' = Some (t\<lparr>tel_mb := Some m\<rparr>) \<and> tel_q (t\<lparr>tel_mb := Some m\<rparr>) (q @ [if e then EVENT_END else word_of_int ev])"
proof -
  let ?b = "if e then EVENT_END else word_of_int ev"
  obtain m where m: "tel_mb t = Some m" "at m q" using assms(1) by (auto simp: tel_q_def)
  have i: "mb_inv m" using m(2) by (simp add: at_def)
  let ?m = "m\<lparr>mb_pos := mb_end m\<rparr>"
  have k: "mb_inv ?m" "mb_data ?m = mb_data m" "mb_off ?m = length (mb_data m)"
    using seek_inv [OF i, of "mb_end m"] length_mb_data [OF i] by simp_all
  have small: "\<not> mb_end m \<ge> QUEUE_SIZE" using assms(2) m(1) by (auto simp: telev_send_def)
  then have "mb_off ?m + length [?b] < 2 ^ 32"
    using k(3) length_mb_data [OF i] by (simp add: QUEUE_SIZE_def word_le_nat_alt)
  from write_mem_spec [OF k(1) this, of mm]
  show ?thesis
  proof (elim disjE exE conjE)
    assume "mbuf_write_mem mm (Some ?m) (Some [?b]) = Some (ENOMEM, Some ?m)"
    then show ?thesis using assms(2) m(1) small by (simp add: telev_send_def mbuf_write_u8_def split: if_splits)
  next
    fix m1 assume w: "mbuf_write_mem mm (Some ?m) (Some [?b]) = Some (OK, Some m1)" and i1: "mb_inv m1"
      and d1: "mb_data m1 = put_at (mb_off ?m) [?b] (mb_data ?m)"
    have o: "mb_off m \<le> length (mb_data m)" by (rule mb_off_le [OF i])
    have d: "mb_data m1 = mb_data m @ [?b]" using d1 k by (simp add: put_at_end)
    have "at m1 (drop (mb_off m1) (mb_data m1))" using i1 by (simp add: at_def)
    from seek_same_at [OF this, of m] o d have "at (m1\<lparr>mb_pos := mb_pos m\<rparr>) (drop (mb_off m) (mb_data m) @ [?b])" by simp
    then have "tel_q (t\<lparr>tel_mb := Some (m1\<lparr>mb_pos := mb_pos m\<rparr>)\<rparr>) (q @ [?b])" using m(2) by (simp add: tel_q_def at_def)
    moreover have "t' = Some (t\<lparr>tel_mb := Some (m1\<lparr>mb_pos := mb_pos m\<rparr>)\<rparr>)"
      using assms(2) m(1) small w by (simp add: telev_send_def mbuf_write_u8_def split: if_splits)
    ultimately show ?thesis by blast
  qed
qed

text \<open>Taking a byte, and putting it back.\<close>

lemma tel_q_read:
  assumes "tel_q t (b # q)"
  shows "\<exists>m. mbuf_read_u8 (tel_mb t) = Some (b, Some m) \<and> at m q \<and> at (m\<lparr>mb_pos := mb_pos m - 1\<rparr>) (b # q)"
proof -
  obtain m where m: "tel_mb t = Some m" "at m (b # q)" using assms by (auto simp: tel_q_def)
  from u8_at [OF m(2)] obtain m1 where m1: "mbuf_read_u8 (Some m) = Some (b, Some m1)" "at m1 q" "steps m m1"
    by blast
  have i: "mb_inv m" "mb_inv m1" "mb_data m1 = mb_data m" "drop (mb_off m) (mb_data m) = b # q"
      "drop (mb_off m1) (mb_data m1) = q"
    using m(2) m1(2,3) by (simp_all add: at_def steps_def)
  have "length (mb_data m) - mb_off m = Suc (length q)" "length (mb_data m) - mb_off m1 = length q"
    using arg_cong [OF i(4), of length] arg_cong [OF i(5), of length] i(3) by simp_all
  moreover have "mb_off m1 \<le> length (mb_data m)" using mb_off_le [OF i(2)] i(3) by simp
  ultimately have o: "mb_off m1 = Suc (mb_off m)" by simp
  have "mb_pos m1 \<noteq> 0" using o by (auto simp: mb_off_def)
  then have u: "unat (mb_pos m1 - 1) = mb_off m" using o by (simp add: mb_off_def unat_minus_one)
  have "unat (mb_pos m1 - 1) \<le> length (mb_data m1)" using u i(3) mb_off_le [OF i(1)] by simp
  from seek_inv [OF i(2) this] u i have "at (m1\<lparr>mb_pos := mb_pos m1 - 1\<rparr>) (b # q)" by (simp add: at_def)
  then show ?thesis using m(1) m1 by auto
qed

section \<open>One poll\<close>

text \<open>What a poll does, with the queue as a sequence.  \<open>room\<close>: the buffer takes the packet.\<close>

definition room :: "mbuf \<Rightarrow> bool" where
  "room m \<longleftrightarrow> mb_inv m \<and> mb_off m + 4 \<le> unat (mb_size m) \<and> mb_off m = length (mb_data m)"

lemma payload_encode_append:
  assumes "room m"
  obtains m' where "payload_encode mm (Some m) ev e dur = Some (OK, Some m')"
    "at (m'\<lparr>mb_pos := mb_pos m\<rparr>) (tel_payload ev e dur)"
proof -
  have r: "mb_inv m" "mb_off m + 4 \<le> unat (mb_size m)" "mb_off m = length (mb_data m)"
    using assms by (simp_all add: room_def)
  from payload_encode_room [OF r(1,2)] obtain m' where m':
    "payload_encode mm (Some m) ev e dur = Some (OK, Some m')" "mb_inv m'"
    "mb_data m' = put_at (mb_off m) (tel_payload ev e dur) (mb_data m)" by blast
  have d: "mb_data m' = mb_data m @ tel_payload ev e dur" using m'(3) r(3) by (simp add: put_at_end)
  have "at m' (drop (mb_off m') (mb_data m'))" using m'(2) by (simp add: at_def)
  from seek_same_at [OF this, of m] d r(3) have "at (m'\<lparr>mb_pos := mb_pos m\<rparr>) (tel_payload ev e dur)" by simp
  then show ?thesis using that m'(1) by blast
qed

lemma poll_empty:
  assumes "tel_q t []" "tel_state t = IDLE"
  shows "telev_poll mm (Some t) (Some False) (Some m) = Some (ENOENT, Some False, Some t, Some m)"
  using assms tel_q_left [OF assms(1)] by (simp add: telev_poll_def poll_idle_def)

lemma poll_first:
  assumes "tel_q t (b # q)" "tel_state t = IDLE" "room m"
  shows "\<exists>t' m'. telev_poll mm (Some t) (Some False) (Some m) = Some (OK, Some True, Some t', Some m') \<and>
     at (m'\<lparr>mb_pos := mb_pos m\<rparr>) (tel_payload (uint b) False (tel_pdur t)) \<and>
     tel_q t' q \<and> tel_state t' = SENDING \<and> tel_event t' = uint b \<and> tel_txc t' = 1 \<and> tel_pdur t' = tel_pdur t \<and>
     tel_dur t' = tel_pdur t"
proof -
  from tel_q_read [OF assms(1)] obtain k where k: "mbuf_read_u8 (tel_mb t) = Some (b, Some k)" "at k q" by blast
  have n: "mbuf_get_left (tel_mb t) \<noteq> 0" using tel_q_left [OF assms(1)] by simp
  obtain m' where "payload_encode mm (Some m) (uint b) False (tel_pdur t) = Some (OK, Some m')"
    "at (m'\<lparr>mb_pos := mb_pos m\<rparr>) (tel_payload (uint b) False (tel_pdur t))"
    by (rule payload_encode_append [OF assms(3)])
  then show ?thesis using k n assms(2) by (simp add: telev_poll_def poll_idle_def tel_q_def)
qed

text \<open>While the key is down, a poll sends one more packet of the event; when enough have been sent and there is
  something in the queue, the sender goes on to the end of the event and drops the release.\<close>

definition drop_end :: "u8 list \<Rightarrow> u8 list" where
  "drop_end q = (case q of [] \<Rightarrow> [] | b # q' \<Rightarrow> if b = EVENT_END then q' else q)"

lemma poll_more:
  assumes "tel_q t q" "tel_state t = SENDING" "room m"
  shows "\<exists>t' m'. telev_poll mm (Some t) (Some False) (Some m) = Some (OK, Some False, Some t', Some m') \<and>
     at (m'\<lparr>mb_pos := mb_pos m\<rparr>) (tel_payload (tel_event t) False (tel_dur t + tel_pdur t)) \<and>
     tel_event t' = tel_event t \<and> tel_pdur t' = tel_pdur t \<and> tel_dur t' = tel_dur t + tel_pdur t \<and>
     (if tel_txc t + 1 < TXC_DIGIT_MIN \<or> q = []
      then tel_q t' q \<and> tel_state t' = SENDING \<and> tel_txc t' = tel_txc t + 1
      else tel_q t' (drop_end q) \<and> tel_state t' = ENDING \<and> tel_txc t' = 0)"
proof -
  obtain m' where m': "payload_encode mm (Some m) (tel_event t) False (tel_dur t + tel_pdur t) = Some (OK, Some m')"
    "at (m'\<lparr>mb_pos := mb_pos m\<rparr>) (tel_payload (tel_event t) False (tel_dur t + tel_pdur t))"
    by (rule payload_encode_append [OF assms(3)])
  show ?thesis
  proof (cases "tel_txc t + 1 < TXC_DIGIT_MIN \<or> q = []")
    case True
    then show ?thesis using m' assms(1,2) tel_q_left [OF assms(1)] by (auto simp: telev_poll_def poll_sending_def Let_def)
  next
    case False
    then obtain b q' where q: "q = b # q'" by (cases q) auto
    from tel_q_read [of t b q'] assms(1) q obtain k where k: "mbuf_read_u8 (tel_mb t) = Some (b, Some k)" "at k q'"
      "at (k\<lparr>mb_pos := mb_pos k - 1\<rparr>) (b # q')" by auto
    show ?thesis using False m' k q assms(2) tel_q_left [OF assms(1)]
      by (auto simp: telev_poll_def poll_sending_def Let_def tel_q_def drop_end_def)
  qed
qed

lemma poll_last:
  assumes "tel_q t q" "tel_state t = ENDING" "room m"
  shows "\<exists>t' m'. telev_poll mm (Some t) (Some False) (Some m) = Some (OK, Some False, Some t', Some m') \<and>
     at (m'\<lparr>mb_pos := mb_pos m\<rparr>) (tel_payload (tel_event t) True (tel_dur t)) \<and>
     tel_event t' = tel_event t \<and> tel_pdur t' = tel_pdur t \<and> tel_dur t' = tel_dur t \<and> tel_q t' q \<and>
     tel_txc t' = tel_txc t + 1 \<and> tel_state t' = (if tel_txc t + 1 < TXC_END then ENDING else IDLE)"
proof -
  obtain m' where m': "payload_encode mm (Some m) (tel_event t) True (tel_dur t) = Some (OK, Some m')"
    "at (m'\<lparr>mb_pos := mb_pos m\<rparr>) (tel_payload (tel_event t) True (tel_dur t))"
    by (rule payload_encode_append [OF assms(3)])
  obtain k where k: "tel_mb t = Some k" "at k q" using assms(1) by (auto simp: tel_q_def)
  have "at (k\<lparr>mb_pos := 0, mb_end := 0\<rparr>) []" using k(2)
    by (auto simp: at_def mb_inv_def mb_data_def split: option.splits)
  then show ?thesis using m' k assms(1,2) tel_q_left [OF assms(1)]
    by (auto simp: telev_poll_def poll_ending_def Let_def tel_q_def)
qed

section \<open>Runs\<close>

text \<open>Keys (\<open>KEYCODE_REL\<close> is the release) and packet times, in any order; the run goes on as long as no key is
  refused.  The packets handed to the stream are collected.\<close>

datatype dtmf_op = Key int | Tick u64

fun dtmf_run :: "allocator \<Rightarrow> int \<Rightarrow> dtmf_op list \<Rightarrow> audio_dtmf \<Rightarrow> (telev_packet list \<times> audio_dtmf) option" where
  "dtmf_run mm pt [] a = Some ([], a)"
| "dtmf_run mm pt (Key k # ops) a = do {
     (err, au) \<leftarrow> audio_send_digit mm (Some a) k;
     case au of
       Some a \<Rightarrow> if err = 0 then dtmf_run mm pt ops a else None
     | None \<Rightarrow> None }"
| "dtmf_run mm pt (Tick ts # ops) a = do {
     (p, a) \<leftarrow> check_telev mm True (Some pt) (a\<lparr>au_ts_ext := ts\<rparr>);
     (ps, a) \<leftarrow> dtmf_run mm pt ops a;
     Some ((case p of None \<Rightarrow> [] | Some p \<Rightarrow> [p]) @ ps, a) }"

fun pressed :: "dtmf_op list \<Rightarrow> int list" where
  "pressed [] = []"
| "pressed (Key k # ops) = (if k = KEYCODE_REL then pressed ops else k # pressed ops)"
| "pressed (Tick ts # ops) = pressed ops"

text \<open>The packets of one digit: \<open>n\<close> with growing duration, the first with the marker, and three that end it.\<close>

definition starts :: "int \<Rightarrow> u16 \<Rightarrow> int \<Rightarrow> u32 \<Rightarrow> nat \<Rightarrow> telev_packet list" where
  "starts pt pdur ev ts n =
     map (\<lambda>i. \<lparr>tp_marker = (i = 0), tp_pt = pt, tp_ts = ts,
               tp_payload = tel_payload ev False (word_of_nat (Suc i) * pdur)\<rparr>) [0..<n]"

definition end_packet :: "int \<Rightarrow> u16 \<Rightarrow> int \<Rightarrow> u32 \<Rightarrow> nat \<Rightarrow> telev_packet" where
  "end_packet pt pdur ev ts n =
     \<lparr>tp_marker = False, tp_pt = pt, tp_ts = ts, tp_payload = tel_payload ev True (word_of_nat n * pdur)\<rparr>"

definition burst :: "int \<Rightarrow> u16 \<Rightarrow> int \<times> u32 \<times> nat \<Rightarrow> telev_packet list" where
  "burst pt pdur = (\<lambda>(ev, ts, n). starts pt pdur ev ts n @ replicate 3 (end_packet pt pdur ev ts n))"

text \<open>The events in the queue, and the order of the bytes in it: a release follows a key.\<close>

definition queued :: "u8 list \<Rightarrow> int list" where
  "queued q = map uint (filter (\<lambda>b. b \<noteq> EVENT_END) q)"

definition key_down :: "audio_dtmf \<Rightarrow> bool" where
  "key_down a \<longleftrightarrow> au_cur_key a \<noteq> 0 \<and> au_cur_key a \<noteq> KEYCODE_REL"

definition queue_ok :: "telev_state \<Rightarrow> bool \<Rightarrow> u8 list \<Rightarrow> bool" where
  "queue_ok st down q \<longleftrightarrow>
     successively (\<lambda>x y. \<not> (x = EVENT_END \<and> y = EVENT_END)) q \<and>
     (st \<noteq> SENDING \<longrightarrow> q \<noteq> [] \<longrightarrow> hd q \<noteq> EVENT_END) \<and>
     (if down then (if q = [] then st = SENDING else last q \<noteq> EVENT_END)
      else (if q = [] then st \<noteq> SENDING else last q = EVENT_END))"

fun sent_as :: "int \<Rightarrow> u16 \<Rightarrow> telev \<Rightarrow> u32 \<Rightarrow> telev_packet list \<Rightarrow> int list \<Rightarrow> bool" where
  "sent_as pt pdur t ts ps evs \<longleftrightarrow>
     (case tel_state t of
        IDLE \<Rightarrow> ps = [] \<and> evs = []
      | SENDING \<Rightarrow> (\<exists>n. 1 \<le> n \<and> tel_txc t = word_of_nat n \<and> tel_dur t = word_of_nat n * pdur \<and>
                   ps = starts pt pdur (tel_event t) ts n \<and> evs = [tel_event t])
      | ENDING \<Rightarrow> (\<exists>n j. 9 \<le> n \<and> j < 3 \<and> tel_txc t = word_of_nat j \<and> tel_dur t = word_of_nat n * pdur \<and>
                   ps = starts pt pdur (tel_event t) ts n @ replicate j (end_packet pt pdur (tel_event t) ts n) \<and>
                   evs = [tel_event t]))"

definition dtmf_inv :: "int \<Rightarrow> u16 \<Rightarrow> int list \<Rightarrow> telev_packet list \<Rightarrow> audio_dtmf \<Rightarrow> bool" where
  "dtmf_inv pt pdur evs ps a \<longleftrightarrow>
     (\<exists>t q bs ps2 evs2.
        au_telev a = Some t \<and> tel_q t q \<and> tel_pdur t = pdur \<and> queue_ok (tel_state t) (key_down a) q \<and>
        (\<forall>b \<in> set bs. 9 \<le> snd (snd b)) \<and> sent_as pt pdur t (au_ts_tel a) ps2 evs2 \<and>
        ps = concat (map (burst pt pdur) bs) @ ps2 \<and> evs = map fst bs @ evs2 @ queued q)"

section \<open>Steps of a run\<close>

lemma digit2code_range: "telev_digit2code k \<noteq> - 1 \<Longrightarrow> 0 \<le> telev_digit2code k \<and> telev_digit2code k < 16"
  by (auto simp: telev_digit2code_def split: if_splits)

lemma uint_code: "0 \<le> c \<Longrightarrow> c < 16 \<Longrightarrow> uint (word_of_int c :: u8) = c \<and> (word_of_int c :: u8) \<noteq> EVENT_END"
proof -
  assume c: "0 \<le> c" "c < 16"
  then have u: "uint (word_of_int c :: u8) = c" by (simp add: unsigned_of_int take_bit_int_eq_self)
  moreover have "uint EVENT_END = 255" by (simp add: EVENT_END_def)
  ultimately show ?thesis using c by fastforce
qed

lemma dtmf_invE:
  assumes "dtmf_inv pt pdur evs ps a"
  obtains t q bs ps2 evs2 where "au_telev a = Some t" "tel_q t q" "tel_pdur t = pdur"
    "queue_ok (tel_state t) (key_down a) q" "\<forall>b \<in> set bs. 9 \<le> snd (snd b)" "sent_as pt pdur t (au_ts_tel a) ps2 evs2"
    "ps = concat (map (burst pt pdur) bs) @ ps2" "evs = map fst bs @ evs2 @ queued q"
  using assms unfolding dtmf_inv_def by (elim exE conjE) (rule that)

lemma sent_as_mb [simp]: "sent_as pt pdur (t\<lparr>tel_mb := m\<rparr>) ts ps evs = sent_as pt pdur t ts ps evs"
  by (simp split: telev_state.split)

lemma queued_append: "queued (q @ q') = queued q @ queued q'"
  by (simp add: queued_def)

lemma key_step:
  assumes inv: "dtmf_inv pt pdur evs ps a"
    and s: "audio_send_digit mm (Some a) k = Some (OK, Some a')"
  shows "dtmf_inv pt pdur (evs @ (if k = KEYCODE_REL then [] else [telev_digit2code k])) ps a'"
    "key_down a' \<longleftrightarrow> k \<noteq> KEYCODE_REL"
proof -
  obtain t q bs ps2 evs2 where i: "au_telev a = Some t" "tel_q t q" "tel_pdur t = pdur"
    "queue_ok (tel_state t) (key_down a) q" "\<forall>b \<in> set bs. 9 \<le> snd (snd b)" "sent_as pt pdur t (au_ts_tel a) ps2 evs2"
    "ps = concat (map (burst pt pdur) bs) @ ps2" "evs = map fst bs @ evs2 @ queued q"
    by (rule dtmf_invE [OF inv])
  have go: "dtmf_inv pt pdur (evs @ queued [b]) ps (a\<lparr>au_telev := Some (t\<lparr>tel_mb := Some m\<rparr>), au_cur_key := key\<rparr>)"
    if q: "tel_q (t\<lparr>tel_mb := Some m\<rparr>) (q @ [b])"
      and ok: "queue_ok (tel_state t) (key_down (a\<lparr>au_cur_key := key\<rparr>)) (q @ [b])" for m b key
    unfolding dtmf_inv_def
    apply (rule exI [of _ "t\<lparr>tel_mb := Some m\<rparr>"], rule exI [of _ "q @ [b]"], rule exI [of _ bs],
        rule exI [of _ ps2], rule exI [of _ evs2])
    using i q ok by (simp add: queued_append key_down_def del: sent_as.simps)
  have "dtmf_inv pt pdur (evs @ (if k = KEYCODE_REL then [] else [telev_digit2code k])) ps a' \<and>
        (key_down a' \<longleftrightarrow> k \<noteq> KEYCODE_REL)"
  proof (cases "k = KEYCODE_REL")
    case False
    have c: "telev_digit2code k \<noteq> - 1" using s False by (auto simp: audio_send_digit_def)
    let ?b = "word_of_int (telev_digit2code k) :: u8"
    have b: "uint ?b = telev_digit2code k" "?b \<noteq> EVENT_END" using uint_code digit2code_range [OF c] by blast+
    have k0: "k \<noteq> 0" using c by (auto simp: telev_digit2code_def)
    obtain t' where ts: "telev_send mm (Some t) (telev_digit2code k) False = Some (OK, t')"
      and a': "a' = a\<lparr>au_telev := t', au_cur_key := k\<rparr>"
      using s False c i(1) by (auto simp: audio_send_digit_def Let_def split: bind_splits)
    from telev_send_spec [OF i(2) ts] obtain m where m: "t' = Some (t\<lparr>tel_mb := Some m\<rparr>)"
      "tel_q (t\<lparr>tel_mb := Some m\<rparr>) (q @ [?b])" by auto
    have "queue_ok (tel_state t) (key_down (a\<lparr>au_cur_key := k\<rparr>)) (q @ [?b])"
      using i(4) b(2) False k0 by (auto simp: queue_ok_def key_down_def successively_append_iff hd_append split: if_splits)
    from go [OF m(2) this] b False k0 show ?thesis unfolding a' m(1) by (simp add: queued_def key_down_def)
  next
    case True
    show ?thesis
    proof (cases "key_down a")
      case d: True
      let ?c = "telev_digit2code (au_cur_key a)"
      obtain t' where ts: "telev_send mm (Some t) ?c True = Some (OK, t')"
        and a': "a' = a\<lparr>au_telev := t', au_cur_key := k\<rparr>"
        using s True d i(1) by (auto simp: audio_send_digit_def Let_def key_down_def split: bind_splits)
      from telev_send_spec [OF i(2) ts] obtain m where m: "t' = Some (t\<lparr>tel_mb := Some m\<rparr>)"
        "tel_q (t\<lparr>tel_mb := Some m\<rparr>) (q @ [EVENT_END])" by auto
      have "queue_ok (tel_state t) (key_down (a\<lparr>au_cur_key := k\<rparr>)) (q @ [EVENT_END])"
        using i(4) d True by (auto simp: queue_ok_def key_down_def successively_append_iff hd_append split: if_splits)
      from go [OF m(2) this] True show ?thesis unfolding a' m(1) by (simp add: queued_def key_down_def)
    next
      case d: False
      then have a': "a' = a\<lparr>au_cur_key := KEYCODE_REL\<rparr>" using s True by (auto simp: audio_send_digit_def key_down_def)
      have kd: "key_down (a\<lparr>au_cur_key := KEYCODE_REL\<rparr>) \<longleftrightarrow> key_down a" using d by (simp add: key_down_def)
      have "dtmf_inv pt pdur evs ps (a\<lparr>au_cur_key := KEYCODE_REL\<rparr>)"
        using inv unfolding dtmf_inv_def kd by simp
      then show ?thesis using True d unfolding a' kd by simp
    qed
  qed
  then show "dtmf_inv pt pdur (evs @ (if k = KEYCODE_REL then [] else [telev_digit2code k])) ps a'"
    "key_down a' \<longleftrightarrow> k \<noteq> KEYCODE_REL" by simp_all
qed


lemma starts_Suc: "starts pt pdur ev ts (Suc n) =
    starts pt pdur ev ts n @ [\<lparr>tp_marker = (n = 0), tp_pt = pt, tp_ts = ts,
                               tp_payload = tel_payload ev False (word_of_nat (Suc n) * pdur)\<rparr>]"
  by (simp add: starts_def)

lemma txc_min: "\<not> (word_of_nat n :: u32) < TXC_DIGIT_MIN \<Longrightarrow> 9 \<le> n"
proof -
  assume "\<not> (word_of_nat n :: u32) < TXC_DIGIT_MIN"
  then have "9 \<le> unat (word_of_nat n :: u32)" by (simp add: TXC_DIGIT_MIN_def word_less_nat_alt)
  also have "\<dots> \<le> n" by (simp add: unat_of_nat take_bit_nat_eq_self_iff take_bit_eq_mod)
  finally show ?thesis .
qed

text \<open>How many more ticks the sender needs until the queue is empty and the last digit has ended, when its release
  is queued.\<close>

definition ticks_left :: "telev \<Rightarrow> u8 list \<Rightarrow> nat" where
  "ticks_left t q =
     12 * length (queued q) +
     (case tel_state t of
        IDLE \<Rightarrow> 0
      | SENDING \<Rightarrow> 3 + (if tel_txc t = - 1 then 10 else if tel_txc t < 8 then 9 - unat (tel_txc t) else 1)
      | ENDING \<Rightarrow> 3 - unat (tel_txc t))"

lemma u32_facts:
  "unat (8 :: u32) = 8" "unat (9 :: u32) = 9" "unat (- 1 :: u32) = 4294967295"
  by (simp_all add: unsigned_minus_1_eq_mask mask_eq_exp_minus_1)

lemma unat_plus_1: "(w :: u32) \<noteq> - 1 \<Longrightarrow> unat (w + 1) = Suc (unat w)"
  by (subst add.commute, rule unatSuc) (simp add: add_eq_0_iff)

lemma sending_left:
  assumes "tel_state t = SENDING" "tel_state t' = SENDING" "tel_txc t' = tel_txc t + 1" "tel_txc t + 1 < TXC_DIGIT_MIN"
  shows "ticks_left t' q = ticks_left t q - 1"
proof (cases "tel_txc t = - 1")
  case True
  then show ?thesis using assms by (simp add: ticks_left_def)
next
  case False
  then have n: "unat (tel_txc t + 1) = Suc (unat (tel_txc t))" by (rule unat_plus_1)
  then have "unat (tel_txc t) < 8" using assms(4) by (simp add: TXC_DIGIT_MIN_def word_less_nat_alt)
  moreover have "tel_txc t + 1 \<noteq> - 1"
  proof
    assume "tel_txc t + 1 = - 1"
    then have "unat (tel_txc t + 1) = 4294967295" by (simp only: u32_facts)
    then show False using n calculation by simp
  qed
  ultimately show ?thesis using assms n False by (auto simp: ticks_left_def word_less_nat_alt)
qed

definition tick_ok :: "allocator \<Rightarrow> int \<Rightarrow> u16 \<Rightarrow> u64 \<Rightarrow> audio_dtmf \<Rightarrow> telev \<Rightarrow> u8 list \<Rightarrow> telev_packet list \<Rightarrow> int list \<Rightarrow> bool" where
  "tick_ok mm pt pdur x a t q ps evs \<longleftrightarrow>
     (\<exists>p t' ts q' bs ps' evs'.
        check_telev mm True (Some pt) (a\<lparr>au_ts_ext := x\<rparr>) =
          Some (p, a\<lparr>au_ts_ext := x, au_telev := Some t', au_ts_tel := ts\<rparr>) \<and>
        tel_q t' q' \<and> tel_pdur t' = pdur \<and> queue_ok (tel_state t') (key_down a) q' \<and>
        sent_as pt pdur t' ts ps' evs' \<and> (\<forall>b \<in> set bs. 9 \<le> snd (snd b)) \<and>
        ps @ (case p of None \<Rightarrow> [] | Some p \<Rightarrow> [p]) = concat (map (burst pt pdur) bs) @ ps' \<and>
        evs @ queued q = map fst bs @ evs' @ queued q' \<and>
        (\<not> key_down a \<longrightarrow> ticks_left t' q' = ticks_left t q - 1) \<and>
        (p = None \<longrightarrow> q = [] \<and> tel_state t = IDLE))"

lemma tick_okI:
  assumes "check_telev mm True (Some pt) (a\<lparr>au_ts_ext := x\<rparr>) =
      Some (p, a\<lparr>au_ts_ext := x, au_telev := Some t', au_ts_tel := ts\<rparr>)"
    "tel_q t' q'" "tel_pdur t' = pdur" "queue_ok (tel_state t') (key_down a) q'"
    "sent_as pt pdur t' ts ps' evs'" "\<forall>b \<in> set bs. 9 \<le> snd (snd b)"
    "ps @ (case p of None \<Rightarrow> [] | Some p \<Rightarrow> [p]) = concat (map (burst pt pdur) bs) @ ps'"
    "evs @ queued q = map fst bs @ evs' @ queued q'"
    "\<not> key_down a \<Longrightarrow> ticks_left t' q' = ticks_left t q - 1" "p = None \<Longrightarrow> q = [] \<and> tel_state t = IDLE"
  shows "tick_ok mm pt pdur x a t q ps evs"
  unfolding tick_ok_def using assms by blast

text \<open>The buffer of a tick has room for a packet, and whatever the poll does with it becomes the packet.\<close>

definition tick_buf :: "allocator \<Rightarrow> int \<Rightarrow> u64 \<Rightarrow> audio_dtmf \<Rightarrow> telev \<Rightarrow> mbuf \<Rightarrow> bool" where
  "tick_buf mm pt x a t m \<longleftrightarrow>
     room m \<and>
     (telev_poll mm (Some t) (Some False) (Some m) = Some (ENOENT, Some False, Some t, Some m) \<longrightarrow>
       check_telev mm True (Some pt) (a\<lparr>au_ts_ext := x\<rparr>) =
         Some (None, a\<lparr>au_ts_ext := x, au_telev := Some t, au_ts_tel := au_ts_tel a\<rparr>)) \<and>
     (\<forall>mrk t' m' bs. telev_poll mm (Some t) (Some False) (Some m) = Some (OK, Some mrk, t', Some m') \<longrightarrow>
       at (m'\<lparr>mb_pos := mb_pos m\<rparr>) bs \<longrightarrow>
       check_telev mm True (Some pt) (a\<lparr>au_ts_ext := x\<rparr>) =
         (let ts = (if mrk then ucast x else au_ts_tel a)
          in Some (Some \<lparr>tp_marker = mrk, tp_pt = pt, tp_ts = ts, tp_payload = bs\<rparr>,
                   a\<lparr>au_ts_ext := x, au_telev := t', au_ts_tel := ts\<rparr>)))"

lemma tick_poll:
  assumes "mm 80 = Some f" "au_telev a = Some t"
  shows "\<exists>m. tick_buf mm pt x a t m"
proof -
  obtain m where m: "mbuf_alloc mm True 80 = Some m" "mb_inv (m\<lparr>mb_pos := 16, mb_end := 16\<rparr>)" "mb_size m = 80"
    using mbuf_alloc_room [where mm = mm and n = 80 and p = 16, OF assms(1)] by (auto simp: word_le_nat_alt)
  let ?m = "m\<lparr>mb_pos := 16, mb_end := 16\<rparr>"
  have "length (mb_data ?m) = 16" using length_mb_data [OF m(2)] by simp
  then have "room ?m" using m(2,3) by (simp add: room_def mb_off_def)
  moreover have "pending (Some (m'\<lparr>mb_pos := 16\<rparr>)) = bs" if "at (m'\<lparr>mb_pos := mb_pos ?m\<rparr>) bs" for m' bs
    using pending_at [OF that] by simp
  ultimately have "tick_buf mm pt x a t ?m"
    using m(1) assms(2) unfolding tick_buf_def by (auto simp: check_telev_def STREAM_PRESZ_def Let_def)
  then show ?thesis ..
qed

lemma tick_bufD:
  assumes "tick_buf mm pt x a t m"
  shows "room m"
    "telev_poll mm (Some t) (Some False) (Some m) = Some (ENOENT, Some False, Some t, Some m) \<Longrightarrow>
       check_telev mm True (Some pt) (a\<lparr>au_ts_ext := x\<rparr>) =
         Some (None, a\<lparr>au_ts_ext := x, au_telev := Some t, au_ts_tel := au_ts_tel a\<rparr>)"
    "telev_poll mm (Some t) (Some False) (Some m) = Some (OK, Some True, t', Some m') \<Longrightarrow>
       at (m'\<lparr>mb_pos := mb_pos m\<rparr>) bs \<Longrightarrow>
       check_telev mm True (Some pt) (a\<lparr>au_ts_ext := x\<rparr>) =
         Some (Some \<lparr>tp_marker = True, tp_pt = pt, tp_ts = ucast x, tp_payload = bs\<rparr>,
                   a\<lparr>au_ts_ext := x, au_telev := t', au_ts_tel := ucast x\<rparr>)"
    "telev_poll mm (Some t) (Some False) (Some m) = Some (OK, Some False, t', Some m') \<Longrightarrow>
       at (m'\<lparr>mb_pos := mb_pos m\<rparr>) bs \<Longrightarrow>
       check_telev mm True (Some pt) (a\<lparr>au_ts_ext := x\<rparr>) =
         Some (Some \<lparr>tp_marker = False, tp_pt = pt, tp_ts = au_ts_tel a, tp_payload = bs\<rparr>,
                   a\<lparr>au_ts_ext := x, au_telev := t', au_ts_tel := au_ts_tel a\<rparr>)"
  using assms unfolding tick_buf_def Let_def by auto

lemma tick_idle:
  assumes mm: "mm 80 = Some f" and a: "au_telev a = Some t" "tel_q t q" "tel_pdur t = pdur"
    "queue_ok (tel_state t) (key_down a) q" "sent_as pt pdur t (au_ts_tel a) ps evs" and st: "tel_state t = IDLE"
  shows "tick_ok mm pt pdur x a t q ps evs"
proof -
  from tick_poll [where mm = mm and f = f and a = a and t = t and pt = pt and x = x, OF mm a(1)] obtain m where
    "tick_buf mm pt x a t m" by blast
  note m = tick_bufD [OF this]
  have e: "ps = []" "evs = []" using a(5) st by simp_all
  show ?thesis
  proof (cases q)
    case Nil
    have "telev_poll mm (Some t) (Some False) (Some m) = Some (ENOENT, Some False, Some t, Some m)"
      by (rule poll_empty) (use a(2) st Nil in auto)
    from m(2) [OF this] show ?thesis
      by (rule tick_okI [where bs = "[]" and q' = q]) (use a st Nil in \<open>simp_all add: ticks_left_def queued_def\<close>)
  next
    case (Cons b q')
    have b: "b \<noteq> EVENT_END" using a(4) Cons st by (simp add: queue_ok_def)
    from poll_first [where t = t and b = b and q = q' and m = m and mm = mm] a(2) Cons st m(1) obtain t' m' where
      p: "telev_poll mm (Some t) (Some False) (Some m) = Some (OK, Some True, Some t', Some m')"
      "at (m'\<lparr>mb_pos := mb_pos m\<rparr>) (tel_payload (uint b) False (tel_pdur t))"
      "tel_q t' q'" "tel_state t' = SENDING" "tel_event t' = uint b" "tel_txc t' = 1" "tel_pdur t' = tel_pdur t"
      "tel_dur t' = tel_pdur t" by metis
    from m(3) [OF p(1,2)] show ?thesis
    proof (rule tick_okI [where bs = "[]" and q' = q' and evs' = "[uint b]"])
      show "queue_ok (tel_state t') (key_down a) q'"
        using a(4) Cons p(4) b by (auto simp: queue_ok_def successively_Cons st split: if_splits)
      show "ticks_left t' q' = ticks_left t q - 1"
        using p(4,6) st Cons b by (simp add: ticks_left_def queued_def)
    qed (use p e a(3) Cons b in \<open>auto intro!: exI [of _ "1 :: nat"] simp: starts_def queued_def\<close>)
  qed
qed

lemma tick_sending:
  assumes mm: "mm 80 = Some f" and a: "au_telev a = Some t" "tel_q t q" "tel_pdur t = pdur"
    "queue_ok (tel_state t) (key_down a) q" "sent_as pt pdur t (au_ts_tel a) ps evs" and st: "tel_state t = SENDING"
  shows "tick_ok mm pt pdur x a t q ps evs"
proof -
  let ?ts = "au_ts_tel a"
  obtain n where n: "1 \<le> n" "tel_txc t = word_of_nat n" "tel_dur t = word_of_nat n * pdur"
    "ps = starts pt pdur (tel_event t) ?ts n" "evs = [tel_event t]" using a(5) st by auto
  from tick_poll [where mm = mm and f = f and a = a and t = t and pt = pt and x = x, OF mm a(1)] obtain m where
    "tick_buf mm pt x a t m" by blast
  note m = tick_bufD [OF this]
  from poll_more [OF a(2) st m(1), of mm] obtain t' m' where
    p: "telev_poll mm (Some t) (Some False) (Some m) = Some (OK, Some False, Some t', Some m')"
    "at (m'\<lparr>mb_pos := mb_pos m\<rparr>) (tel_payload (tel_event t) False (tel_dur t + tel_pdur t))"
    "tel_event t' = tel_event t" "tel_pdur t' = tel_pdur t" "tel_dur t' = tel_dur t + tel_pdur t"
    "if tel_txc t + 1 < TXC_DIGIT_MIN \<or> q = []
     then tel_q t' q \<and> tel_state t' = SENDING \<and> tel_txc t' = tel_txc t + 1
     else tel_q t' (drop_end q) \<and> tel_state t' = ENDING \<and> tel_txc t' = 0" by metis
  have d: "tel_dur t + tel_pdur t = word_of_nat (Suc n) * pdur" using n(3) a(3) by (simp add: algebra_simps)
  have x: "tel_txc t + 1 = word_of_nat (Suc n)" using n(2) by simp
  let ?p = "\<lparr>tp_marker = False, tp_pt = pt, tp_ts = ?ts, tp_payload = tel_payload (tel_event t) False (tel_dur t + tel_pdur t)\<rparr>"
  have ps: "ps @ [?p] = starts pt pdur (tel_event t) ?ts (Suc n)" using n(1,4) d by (simp add: starts_Suc)
  note c = m(4) [OF p(1,2)]
  show ?thesis
  proof (cases "tel_txc t + 1 < TXC_DIGIT_MIN \<or> q = []")
    case True
    then have p': "tel_q t' q" "tel_state t' = SENDING" "tel_txc t' = tel_txc t + 1" using p(6) by simp_all
    show ?thesis using c
    proof (rule tick_okI [where bs = "[]" and q' = q and evs' = evs])
      show "sent_as pt pdur t' ?ts (ps @ [?p]) evs" unfolding ps sent_as.simps p'(2) telev_state.case
        by (intro exI [of _ "Suc n"]) (use p'(3) p(3,5) d x n(5) in simp)
      show "ticks_left t' q = ticks_left t q - 1" if "\<not> key_down a"
        using True that a(4) st p' by (intro sending_left) (auto simp: queue_ok_def)
    qed (use p' p(4) a(3,4) st in simp_all)
  next
    case False
    then have p': "tel_q t' (drop_end q)" "tel_state t' = ENDING" "tel_txc t' = 0" using p(6) by simp_all
    have k: "queue_ok ENDING (key_down a) (drop_end q)" "queued (drop_end q) = queued q"
      using a(4) st False
      by (auto simp: queue_ok_def drop_end_def queued_def successively_Cons split: list.splits if_splits)
    have 9: "9 \<le> Suc n" using False x by (intro txc_min) simp
    show ?thesis using c
    proof (rule tick_okI [where bs = "[]" and q' = "drop_end q" and evs' = evs])
      show "sent_as pt pdur t' ?ts (ps @ [?p]) evs" unfolding ps sent_as.simps p'(2) telev_state.case
        by (intro exI [of _ "Suc n"] exI [of _ "0 :: nat"]) (use p'(3) p(3,5) d 9 n(5) in simp)
      show "ticks_left t' (drop_end q) = ticks_left t q - 1"
      proof -
        have m1: "tel_txc t \<noteq> - 1" using False by (auto simp: TXC_DIGIT_MIN_def)
        then have "\<not> tel_txc t < 8" using False unat_plus_1 [of "tel_txc t"] by (auto simp: TXC_DIGIT_MIN_def word_less_nat_alt)
        then show ?thesis using m1 st p' k(2) by (simp add: ticks_left_def)
      qed
    qed (use p' p(4) a(3) k in simp_all)
  qed
qed

lemma tick_ending:
  assumes mm: "mm 80 = Some f" and a: "au_telev a = Some t" "tel_q t q" "tel_pdur t = pdur"
    "queue_ok (tel_state t) (key_down a) q" "sent_as pt pdur t (au_ts_tel a) ps evs" and st: "tel_state t = ENDING"
  shows "tick_ok mm pt pdur x a t q ps evs"
proof -
  let ?ts = "au_ts_tel a"
  obtain n j where n: "9 \<le> n" "j < 3" "tel_txc t = word_of_nat j" "tel_dur t = word_of_nat n * pdur"
    "ps = starts pt pdur (tel_event t) ?ts n @ replicate j (end_packet pt pdur (tel_event t) ?ts n)"
    "evs = [tel_event t]" using a(5) st by auto
  from tick_poll [where mm = mm and f = f and a = a and t = t and pt = pt and x = x, OF mm a(1)] obtain m where
    "tick_buf mm pt x a t m" by blast
  note m = tick_bufD [OF this]
  from poll_last [OF a(2) st m(1), of mm] obtain t' m' where
    p: "telev_poll mm (Some t) (Some False) (Some m) = Some (OK, Some False, Some t', Some m')"
    "at (m'\<lparr>mb_pos := mb_pos m\<rparr>) (tel_payload (tel_event t) True (tel_dur t))"
    "tel_event t' = tel_event t" "tel_pdur t' = tel_pdur t" "tel_dur t' = tel_dur t" "tel_q t' q"
    "tel_txc t' = tel_txc t + 1" "tel_state t' = (if tel_txc t + 1 < TXC_END then ENDING else IDLE)" by metis
  let ?e = "end_packet pt pdur (tel_event t) ?ts n"
  have c: "check_telev mm True (Some pt) (a\<lparr>au_ts_ext := x\<rparr>) =
      Some (Some ?e, a\<lparr>au_ts_ext := x, au_telev := Some t', au_ts_tel := ?ts\<rparr>)"
    using m(4) [OF p(1,2)] n(4) by (simp add: end_packet_def)
  have q: "queue_ok (tel_state t') (key_down a) q" using a(4) st p(8) by (auto simp: queue_ok_def)
  have j: "j = 0 \<or> j = 1 \<or> j = 2" using n(2) by auto
  have st': "tel_state t' = (if Suc j < 3 then ENDING else IDLE)" using p(8) n(3) j by (auto simp: TXC_END_def)
  have left: "ticks_left t' q = ticks_left t q - 1" using j st st' p(7) n(3) by (auto simp: ticks_left_def)
  show ?thesis
  proof (cases "Suc j < 3")
    case True
    then have e: "tel_state t' = ENDING" using st' by simp
    have "sent_as pt pdur t' ?ts (ps @ [?e]) evs" unfolding sent_as.simps e telev_state.case
      by (intro exI [of _ n] exI [of _ "Suc j"]) (use True p(3,5,7) n in \<open>simp add: replicate_append_same\<close>)
    from c p(6) _ q this show ?thesis by (rule tick_okI [where bs = "[]"]) (use p(4) a(3) left in simp_all)
  next
    case False
    then have "j = 2" using n(2) by simp
    then have "ps @ [?e] = burst pt pdur (tel_event t, ?ts, n)"
      using n(5) by (simp add: burst_def numeral_3_eq_3 numeral_2_eq_2)
    then show ?thesis
      by (intro tick_okI [where p = "Some ?e" and t' = t' and ts = ?ts and q' = q and bs = "[(tel_event t, ?ts, n)]"
            and ps' = "[]" and evs' = "[]"])
        (use c p(4,6) q False st' a(3) n(1,6) left in simp_all)
  qed
qed

lemma tick_step:
  assumes "mm 80 = Some f" "au_telev a = Some t" "tel_q t q" "tel_pdur t = pdur"
    "queue_ok (tel_state t) (key_down a) q" "sent_as pt pdur t (au_ts_tel a) ps evs"
  shows "tick_ok mm pt pdur x a t q ps evs"
proof (cases "tel_state t")
  case IDLE
  with assms show ?thesis by (rule tick_idle)
next
  case SENDING
  with assms show ?thesis by (rule tick_sending)
next
  case ENDING
  with assms show ?thesis by (rule tick_ending)
qed

text \<open>In terms of the invariant.\<close>

definition tel_rest :: "telev \<Rightarrow> u8 list" where
  "tel_rest t = (case tel_mb t of None \<Rightarrow> [] | Some m \<Rightarrow> drop (mb_off m) (mb_data m))"

lemma tel_q_rest: "tel_q t q \<Longrightarrow> tel_rest t = q"
  by (auto simp: tel_q_def tel_rest_def at_def)

definition au_ticks :: "audio_dtmf \<Rightarrow> nat" where
  "au_ticks a = (case au_telev a of None \<Rightarrow> 0 | Some t \<Rightarrow> ticks_left t (tel_rest t))"

lemma tick_inv:
  assumes inv: "dtmf_inv pt pdur evs ps a" and mm: "mm 80 = Some f"
  shows "\<exists>p a'. check_telev mm True (Some pt) (a\<lparr>au_ts_ext := x\<rparr>) = Some (p, a') \<and>
     dtmf_inv pt pdur evs (ps @ (case p of None \<Rightarrow> [] | Some p \<Rightarrow> [p])) a' \<and> key_down a' = key_down a \<and>
     (\<not> key_down a \<longrightarrow> au_ticks a' = au_ticks a - 1) \<and> (key_down a \<longrightarrow> p \<noteq> None)"
proof -
  obtain t q bs ps2 evs2 where i: "au_telev a = Some t" "tel_q t q" "tel_pdur t = pdur"
    "queue_ok (tel_state t) (key_down a) q" "\<forall>b \<in> set bs. 9 \<le> snd (snd b)" "sent_as pt pdur t (au_ts_tel a) ps2 evs2"
    "ps = concat (map (burst pt pdur) bs) @ ps2" "evs = map fst bs @ evs2 @ queued q"
    by (rule dtmf_invE [OF inv])
  from tick_step [where mm = mm and f = f and x = x and a = a and t = t and q = q and pt = pt, OF mm i(1-4,6), unfolded tick_ok_def] obtain p t' ts q' bs' ps' evs' where
    s: "check_telev mm True (Some pt) (a\<lparr>au_ts_ext := x\<rparr>) =
          Some (p, a\<lparr>au_ts_ext := x, au_telev := Some t', au_ts_tel := ts\<rparr>)"
    "tel_q t' q'" "tel_pdur t' = pdur" "queue_ok (tel_state t') (key_down a) q'" "sent_as pt pdur t' ts ps' evs'"
    "\<forall>b \<in> set bs'. 9 \<le> snd (snd b)"
    "ps2 @ (case p of None \<Rightarrow> [] | Some p \<Rightarrow> [p]) = concat (map (burst pt pdur) bs') @ ps'"
    "evs2 @ queued q = map fst bs' @ evs' @ queued q'" "\<not> key_down a \<longrightarrow> ticks_left t' q' = ticks_left t q - 1"
    "p = None \<longrightarrow> q = [] \<and> tel_state t = IDLE" by blast
  let ?a = "a\<lparr>au_ts_ext := x, au_telev := Some t', au_ts_tel := ts\<rparr>"
  have kd: "key_down ?a = key_down a" by (simp add: key_down_def)
  have "dtmf_inv pt pdur evs (ps @ (case p of None \<Rightarrow> [] | Some p \<Rightarrow> [p])) ?a"
    unfolding dtmf_inv_def kd i(7,8) using s i(5)
    by (intro exI [of _ t'] exI [of _ q'] exI [of _ "bs @ bs'"] exI [of _ ps'] exI [of _ evs'])
      (auto simp del: sent_as.simps)
  moreover have "key_down a \<longrightarrow> p \<noteq> None" using s(10) i(4) by (auto simp: queue_ok_def)
  ultimately show ?thesis using s(1,2,9) kd i(1,2) by (simp add: au_ticks_def tel_q_rest)
qed

lemma dtmf_run_inv:
  "dtmf_inv pt pdur evs ps a \<Longrightarrow> mm 80 = Some f \<Longrightarrow> dtmf_run mm pt ops a = Some (qs, a') \<Longrightarrow>
   dtmf_inv pt pdur (evs @ map telev_digit2code (pressed ops)) (ps @ qs) a'"
proof (induction ops arbitrary: evs ps a qs)
  case Nil
  then show ?case by simp
next
  case (Cons op ops)
  show ?case
  proof (cases op)
    case (Key k)
    then obtain a1 where a1: "audio_send_digit mm (Some a) k = Some (OK, Some a1)" "dtmf_run mm pt ops a1 = Some (qs, a')"
      using Cons.prems(3) by (auto split: bind_splits option.splits if_splits)
    from Cons.IH [OF key_step(1) [OF Cons.prems(1) a1(1)] Cons.prems(2) a1(2)] show ?thesis using Key by (simp split: if_splits)
  next
    case (Tick x)
    from tick_inv [where x = x and mm = mm and f = f, OF Cons.prems(1,2)] obtain p a1 where
      1: "check_telev mm True (Some pt) (a\<lparr>au_ts_ext := x\<rparr>) = Some (p, a1)"
      "dtmf_inv pt pdur evs (ps @ (case p of None \<Rightarrow> [] | Some p \<Rightarrow> [p])) a1" by blast
    then obtain qs1 where "dtmf_run mm pt ops a1 = Some (qs1, a')" "qs = (case p of None \<Rightarrow> [] | Some p \<Rightarrow> [p]) @ qs1"
      using Cons.prems(3) Tick by (auto split: bind_splits)
    then show ?thesis using Cons.IH [OF 1(2) Cons.prems(2)] Tick by (simp add: append_assoc)
  qed
qed


text \<open>The fresh sender.\<close>

definition dtmf_start :: "telev \<Rightarrow> audio_dtmf" where
  "dtmf_start t = \<lparr>au_telev = Some t, au_cur_key = 0, au_ts_tel = 0, au_ts_ext = 0\<rparr>"

lemma dtmf_start_inv:
  assumes "telev_alloc mm zok mok True ptime = (OK, Some t)"
  shows "dtmf_inv pt (tel_pdur t) [] [] (dtmf_start t)"
proof -
  obtain m where m: "mbuf_alloc mm mok 16 = Some m" "tel_mb t = Some m" "tel_state t = IDLE"
    using assms by (auto simp: telev_alloc_def split: if_splits option.splits)
  have "at m []" using m(1)
    by (auto simp: mbuf_alloc_def mbuf_resize_def blk_alloc_def at_def mb_inv_def mb_data_def Let_def unat_u32_less
        split: if_splits option.splits)
  then have "tel_q t []" using m(2) by (simp add: tel_q_def)
  then show ?thesis unfolding dtmf_inv_def dtmf_start_def
    by (intro exI [of _ t] exI [of _ "[]"]) (use m(3) in \<open>simp add: queue_ok_def key_down_def queued_def\<close>)
qed

lemma empty_ticks:
  assumes "dtmf_inv pt pdur evs ps a"
  shows "audio_txtelev_empty (Some a) \<longleftrightarrow> (\<exists>t. au_telev a = Some t \<and> tel_state t = IDLE \<and> tel_q t [])"
    "\<not> key_down a \<Longrightarrow> au_ticks a = 0 \<longleftrightarrow> audio_txtelev_empty (Some a)"
    "\<not> key_down a \<Longrightarrow> au_ticks a \<le> 13 * length evs"
proof -
  obtain t q bs ps2 evs2 where i': "au_telev a = Some t" "tel_q t q" "tel_pdur t = pdur"
    "queue_ok (tel_state t) (key_down a) q" "\<forall>b \<in> set bs. 9 \<le> snd (snd b)" "sent_as pt pdur t (au_ts_tel a) ps2 evs2"
    "ps = concat (map (burst pt pdur) bs) @ ps2" "evs = map fst bs @ evs2 @ queued q"
    by (rule dtmf_invE [OF assms])
  note i = i'(1,2,4,6,8)
  show e: "audio_txtelev_empty (Some a) \<longleftrightarrow> (\<exists>t. au_telev a = Some t \<and> tel_state t = IDLE \<and> tel_q t [])"
    using i(1,2) tel_q_left [OF i(2)] tel_q_rest [OF i(2)]
    by (auto simp: audio_txtelev_empty_def telev_is_empty_def dest: tel_q_rest)
  have pos: "0 < (case tel_state t of IDLE \<Rightarrow> 0 | SENDING \<Rightarrow> 3 + x | ENDING \<Rightarrow> 3 - unat (tel_txc t))"
    if "tel_state t \<noteq> IDLE" for x
    using that i(4) by (auto split: telev_state.splits simp: unat_of_nat take_bit_nat_eq_self)
  have q: "queued q = [] \<longleftrightarrow> q = []" if "tel_state t = IDLE"
    using i(3) that by (cases q) (auto simp: queue_ok_def queued_def)
  show "au_ticks a = 0 \<longleftrightarrow> audio_txtelev_empty (Some a)"
    unfolding e using i(1,2) q pos tel_q_rest [OF i(2)]
    by (cases "tel_state t = IDLE") (auto simp: au_ticks_def ticks_left_def dest: tel_q_rest)
  show "au_ticks a \<le> 13 * length evs"
    using i(1,4,5) tel_q_rest [OF i(2)]
    by (auto simp: au_ticks_def ticks_left_def split: telev_state.splits)
qed

lemma ticks_run:
  "dtmf_inv pt pdur evs ps a \<Longrightarrow> mm 80 = Some f \<Longrightarrow> \<not> key_down a \<Longrightarrow>
   \<exists>qs a'. dtmf_run mm pt (map Tick xs) a = Some (qs, a') \<and> dtmf_inv pt pdur evs (ps @ qs) a' \<and> \<not> key_down a' \<and>
           au_ticks a' = au_ticks a - length xs"
proof (induction xs arbitrary: ps a)
  case Nil
  then show ?case by simp
next
  case (Cons x xs)
  from tick_inv [where x = x and mm = mm and f = f, OF Cons.prems(1,2)] Cons.prems(3) obtain p a1 where
    1: "check_telev mm True (Some pt) (a\<lparr>au_ts_ext := x\<rparr>) = Some (p, a1)"
    "dtmf_inv pt pdur evs (ps @ (case p of None \<Rightarrow> [] | Some p \<Rightarrow> [p])) a1" "\<not> key_down a1"
    "au_ticks a1 = au_ticks a - 1" by blast
  from Cons.IH [OF 1(2) Cons.prems(2) 1(3)] 1(1,4) show ?case by (auto simp: append_assoc)
qed

section \<open>The receiver\<close>

text \<open>A datagram as the buffer that the receiver of the stream hands on.\<close>

definition payload_mbuf :: "u8 list \<Rightarrow> mbuf" where
  "payload_mbuf bs = \<lparr>mb_buf = Some bs, mb_size = word_of_nat (length bs), mb_pos = 0, mb_end = word_of_nat (length bs)\<rparr>"

text \<open>What the event handler of the call is told while some packets arrive.\<close>

fun dtmf_hear :: "telev_packet list \<Rightarrow> audio_dtmf \<Rightarrow> ((int \<times> bool) list \<times> audio_dtmf) option" where
  "dtmf_hear [] a = Some ([], a)"
| "dtmf_hear (p # ps) a = do {
     (out, a) \<leftarrow> handle_telev True (Some (payload_mbuf (tp_payload p))) a;
     (outs, a) \<leftarrow> dtmf_hear ps a;
     Some ((case out of None \<Rightarrow> [] | Some x \<Rightarrow> [x]) @ outs, a) }"

lemma payload_mbuf_at: "length bs < 2 ^ 32 \<Longrightarrow> at (payload_mbuf bs) bs"
  by (simp add: at_def mb_inv_def mb_data_def the_blk_def mb_off_def payload_mbuf_def unat_of_nat_u32)

lemma handle_telev_payload:
  assumes t: "au_telev a = Some t" and ev: "0 \<le> ev" "ev < 16"
  shows "handle_telev True (Some (payload_mbuf (tel_payload ev e dur))) a =
     (if e then (if tel_rx_end t then Some (None, a)
                 else Some (Some (telev_code2digit ev, True), a\<lparr>au_telev := Some (t\<lparr>tel_rx_event := - 1, tel_rx_end := True\<rparr>)\<rparr>))
      else if ev = tel_rx_event t then Some (None, a)
      else Some (Some (telev_code2digit ev, False), a\<lparr>au_telev := Some (t\<lparr>tel_rx_event := ev, tel_rx_end := False\<rparr>)\<rparr>))"
proof -
  have "at (payload_mbuf (tel_payload ev e dur)) (tel_payload ev e dur @ [])" using payload_mbuf_at by simp
  from payload_decode_at [OF this] obtain m' where
    m': "payload_decode (Some (payload_mbuf (tel_payload ev e dur))) =
       Some (OK, Some \<lparr>tf_event = word_of_int ev, tf_end = e, tf_vol = 10, tf_dur = dur\<rparr>, Some m')" by blast
  have u: "uint (word_of_int ev :: u8) = ev" using uint_code ev by blast
  have "0 \<le> (of_char c :: int)" for c by (metis of_nat_of_char of_nat_0_le_iff)
  then have d: "0 \<le> telev_code2digit ev" using ev by (simp add: telev_code2digit_def)
  have a: "a\<lparr>au_telev := Some t\<rparr> = a" using t by simp
  show ?thesis using t by (auto simp: handle_telev_def telev_recv_def m' u d a)
qed

definition tel_ends :: "telev_packet \<Rightarrow> bool" where
  "tel_ends p \<longleftrightarrow> bit (tp_payload p ! 1) 7"

lemma tel_ends_payload: "tp_payload p = tel_payload ev e dur \<Longrightarrow> tel_ends p \<longleftrightarrow> e"
  by (simp add: tel_ends_def tel_payload_def bit_iff_odd)

text \<open>Of the packets of one digit, some arrive: one that starts it and one that ends it at least.\<close>

definition kept :: "telev_packet list \<Rightarrow> telev_packet list \<Rightarrow> bool" where
  "kept c b \<longleftrightarrow> subseq c b \<and> (\<exists>p \<in> set c. \<not> tel_ends p) \<and> (\<exists>p \<in> set c. tel_ends p)"

lemma starts_payload: "p \<in> set (starts pt pdur ev ts n) \<Longrightarrow> \<exists>dur. tp_payload p = tel_payload ev False dur"
  by (auto simp: starts_def)

lemma subseq_set: "subseq xs ys \<Longrightarrow> set xs \<subseteq> set ys"
  by (induction rule: list_emb.induct) auto

lemma kept_burst:
  assumes "kept c (burst pt pdur (ev, ts, n))"
  obtains s e where "c = s @ e" "s \<noteq> []" "e \<noteq> []" "\<forall>p \<in> set s. \<exists>dur. tp_payload p = tel_payload ev False dur"
    "\<forall>p \<in> set e. \<exists>dur. tp_payload p = tel_payload ev True dur"
proof -
  have "subseq c (starts pt pdur ev ts n @ replicate 3 (end_packet pt pdur ev ts n))"
    using assms by (simp add: kept_def burst_def)
  then obtain s e where c: "c = s @ e" "subseq s (starts pt pdur ev ts n)" "subseq e (replicate 3 (end_packet pt pdur ev ts n))"
    by (rule subseq_appendE)
  have s: "\<forall>p \<in> set s. \<exists>dur. tp_payload p = tel_payload ev False dur"
    using starts_payload subseq_set [OF c(2)] by blast
  have e: "\<forall>p \<in> set e. \<exists>dur. tp_payload p = tel_payload ev True dur"
    using subseq_set [OF c(3)] by (auto simp: end_packet_def subset_singleton_iff)
  have "s \<noteq> []" "e \<noteq> []" using assms c(1) s e tel_ends_payload unfolding kept_def by fastforce+
  then show ?thesis using that c(1) s e by blast
qed

text \<open>The rest of a run of packets of the same kind is not heard.\<close>

lemma hear_same:
  assumes "au_telev a = Some t" "0 \<le> ev" "ev < 16" "if e then tel_rx_end t else tel_rx_event t = ev"
  shows "\<forall>p \<in> set ps. \<exists>dur. tp_payload p = tel_payload ev e dur \<Longrightarrow> dtmf_hear (ps @ qs) a = dtmf_hear qs a"
proof (induction ps)
  case (Cons p ps)
  then obtain dur where "tp_payload p = tel_payload ev e dur" by auto
  then show ?case using Cons handle_telev_payload [OF assms(1-3), of e dur] assms(4)
    by (auto split: bind_splits if_splits)
qed simp

lemma hear_burst:
  assumes "kept c (burst pt pdur (ev, ts, n))" and a: "au_telev a = Some t" "tel_rx_event t = - 1" and ev: "0 \<le> ev" "ev < 16"
  shows "dtmf_hear (c @ qs) a =
     map_option (\<lambda>(outs, a). ((telev_code2digit ev, False) # (telev_code2digit ev, True) # outs, a))
       (dtmf_hear qs (a\<lparr>au_telev := Some (t\<lparr>tel_rx_event := - 1, tel_rx_end := True\<rparr>)\<rparr>))"
proof -
  obtain s e where c: "c = s @ e" "s \<noteq> []" "e \<noteq> []" "\<forall>p \<in> set s. \<exists>dur. tp_payload p = tel_payload ev False dur"
    "\<forall>p \<in> set e. \<exists>dur. tp_payload p = tel_payload ev True dur" using kept_burst [OF assms(1)] by metis
  obtain p s' q e' where se: "s = p # s'" "e = q # e'" using c(2,3) by (meson neq_Nil_conv)
  obtain d1 d2 where pq: "tp_payload p = tel_payload ev False d1" "tp_payload q = tel_payload ev True d2"
    using c(4,5) se by auto
  let ?a1 = "a\<lparr>au_telev := Some (t\<lparr>tel_rx_event := ev, tel_rx_end := False\<rparr>)\<rparr>"
  let ?a2 = "a\<lparr>au_telev := Some (t\<lparr>tel_rx_event := - 1, tel_rx_end := True\<rparr>)\<rparr>"
  have 1: "handle_telev True (Some (payload_mbuf (tp_payload p))) a = Some (Some (telev_code2digit ev, False), ?a1)"
    using handle_telev_payload [OF a(1) ev] a(2) ev pq(1) by simp
  have 2: "dtmf_hear (s' @ e @ qs) ?a1 = dtmf_hear (e @ qs) ?a1"
    by (rule hear_same [where e = False and ev = ev]) (use c(4) se(1) ev in auto)
  have 3: "handle_telev True (Some (payload_mbuf (tp_payload q))) ?a1 = Some (Some (telev_code2digit ev, True), ?a2)"
    using handle_telev_payload [where a = ?a1, OF _ ev] pq(2) by simp
  have 4: "dtmf_hear (e' @ qs) ?a2 = dtmf_hear qs ?a2"
    by (rule hear_same [where e = True and ev = ev]) (use c(5) se(2) ev in auto)
  show ?thesis using 1 2 3 4 unfolding c(1) se by (simp add: map_option_case case_prod_unfold split: bind_splits option.splits)
qed

lemma hear_bursts:
  "list_all2 kept cs (map (burst pt pdur) bs) \<Longrightarrow> \<forall>b \<in> set bs. 0 \<le> fst b \<and> fst b < 16 \<Longrightarrow>
   au_telev a = Some t \<Longrightarrow> tel_rx_event t = - 1 \<Longrightarrow>
   map_option fst (dtmf_hear (concat cs) a) =
     Some (concat (map (\<lambda>b. [(telev_code2digit (fst b), False), (telev_code2digit (fst b), True)]) bs))"
proof (induction bs arbitrary: cs a t)
  case (Cons b bs)
  obtain ev ts n where b: "b = (ev, ts, n)" by (cases b)
  obtain c cs' where cs: "cs = c # cs'" "kept c (burst pt pdur (ev, ts, n))" "list_all2 kept cs' (map (burst pt pdur) bs)"
    using Cons.prems(1) b by (auto simp: list_all2_Cons2)
  let ?a = "a\<lparr>au_telev := Some (t\<lparr>tel_rx_event := - 1, tel_rx_end := True\<rparr>)\<rparr>"
  have ev: "0 \<le> ev" "ev < 16" using Cons.prems(2) b by auto
  from Cons.IH [OF cs(3), of ?a] Cons.prems(2)
  have "map_option fst (dtmf_hear (concat cs') ?a) =
     Some (concat (map (\<lambda>b. [(telev_code2digit (fst b), False), (telev_code2digit (fst b), True)]) bs))" by simp
  then show ?case unfolding cs(1) concat.simps hear_burst [OF cs(2) Cons.prems(3,4) ev] b
    by (auto simp: option.map_comp comp_def case_prod_unfold)
qed (auto simp: list_all2_Nil2)


section \<open>Digits from end to end\<close>

text \<open>Letters are heard as capitals.\<close>

definition heard_digit :: "int \<Rightarrow> int" where
  "heard_digit k = (if 97 \<le> k \<and> k \<le> 100 then k - 32 else k)"

lemma code2digit_digit2code:
  assumes "telev_digit2code k \<noteq> - 1"
  shows "telev_code2digit (telev_digit2code k) = heard_digit k"
proof -
  have all: "\<forall>k \<in> set ([48..57] @ [42, 35] @ [97..100] @ [65..68]).
      telev_code2digit (telev_digit2code k) = heard_digit k" by code_simp
  have "k \<in> set ([48..57] @ [42, 35] @ [97..100] @ [65..68])"
    using assms unfolding set_append set_upto by (auto simp: telev_digit2code_def split: if_splits)
  then show ?thesis using all by blast
qed

lemma inv_empty:
  assumes i: "dtmf_inv pt pdur evs ps a" and e: "audio_txtelev_empty (Some a)"
  shows "\<exists>bs. (\<forall>b \<in> set bs. 9 \<le> snd (snd b)) \<and> ps = concat (map (burst pt pdur) bs) \<and> map fst bs = evs"
proof -
  obtain t q bs ps2 evs2 where i': "au_telev a = Some t" "tel_q t q" "tel_pdur t = pdur"
    "queue_ok (tel_state t) (key_down a) q" "\<forall>b \<in> set bs. 9 \<le> snd (snd b)" "sent_as pt pdur t (au_ts_tel a) ps2 evs2"
    "ps = concat (map (burst pt pdur) bs) @ ps2" "evs = map fst bs @ evs2 @ queued q"
    by (rule dtmf_invE [OF i])
  moreover have "tel_state t = IDLE" "tel_q t []" using empty_ticks(1) [OF i] e i'(1) by auto
  moreover from this have "q = []" using tel_q_rest i'(2) by metis
  ultimately show ?thesis by (intro exI [of _ bs]) (simp add: queued_def)
qed

lemma dtmf_run_Key:
  assumes "dtmf_run mm pt (Key k # ops) a = Some r"
  obtains a1 where "audio_send_digit mm (Some a) k = Some (OK, Some a1)" "dtmf_run mm pt ops a1 = Some r"
  using assms by (auto split: bind_splits option.splits if_splits)

lemma run_valid_keys:
  "dtmf_run mm pt ops a = Some r \<Longrightarrow> k \<in> set (pressed ops) \<Longrightarrow> telev_digit2code k \<noteq> - 1"
proof (induction ops arbitrary: a r)
  case (Cons op ops)
  show ?case
  proof (cases op)
    case (Key k')
    obtain a1 where 1: "audio_send_digit mm (Some a) k' = Some (OK, Some a1)" "dtmf_run mm pt ops a1 = Some r"
      using Cons.prems(1) unfolding Key by (rule dtmf_run_Key)
    have "k' = KEYCODE_REL \<or> telev_digit2code k' \<noteq> - 1" using 1(1) by (auto simp: audio_send_digit_def)
    then show ?thesis using Cons.IH [OF 1(2)] Cons.prems(2) Key by (auto split: if_splits)
  next
    case (Tick x)
    then obtain a1 q where "dtmf_run mm pt ops a1 = Some q" using Cons.prems(1) by (auto split: bind_splits)
    from Cons.IH [OF this] show ?thesis using Cons.prems(2) Tick by simp
  qed
qed simp

text \<open>C16: Whatever the order of keys, releases and packet times, once the sender is empty its packets are one burst
  for every key pressed, in the order of the keys: at least nine packets with growing duration, the first with the
  marker, and three that end the digit.  A peer that misses any of them, but receives one packet of the start and one of
  the end of each, hears every digit pressed and released exactly once and in order.\<close>
theorem dtmf_digits_heard:
  assumes "telev_alloc mm zok mok True ptime = (OK, Some t)" "mm 80 = Some f"
    "dtmf_run mm pt ops (dtmf_start t) = Some (ps, a)" "audio_txtelev_empty (Some a)"
    "telev_alloc mm' zok' mok' True ptime' = (OK, Some r)"
  shows "\<exists>bs. map fst bs = map telev_digit2code (pressed ops) \<and> (\<forall>b \<in> set bs. 9 \<le> snd (snd b)) \<and>
      ps = concat (map (burst pt (tel_pdur t)) bs) \<and>
      (\<forall>cs. list_all2 kept cs (map (burst pt (tel_pdur t)) bs) \<longrightarrow>
        map_option fst (dtmf_hear (concat cs) (dtmf_start r)) =
          Some (concat (map (\<lambda>k. [(heard_digit k, False), (heard_digit k, True)]) (pressed ops))))"
proof -
  let ?evs = "map telev_digit2code (pressed ops)"
  have "dtmf_inv pt (tel_pdur t) ?evs ps a"
    using dtmf_run_inv [OF dtmf_start_inv [OF assms(1)] assms(2,3)] by simp
  then have "\<exists>bs. (\<forall>b \<in> set bs. 9 \<le> snd (snd b)) \<and> ps = concat (map (burst pt (tel_pdur t)) bs) \<and> map fst bs = ?evs"
    using assms(4) by (rule inv_empty)
  then obtain bs where bs: "\<forall>b \<in> set bs. 9 \<le> snd (snd b)" "ps = concat (map (burst pt (tel_pdur t)) bs)"
    "map fst bs = ?evs" by blast
  have k: "0 \<le> telev_digit2code k \<and> telev_digit2code k < 16 \<and> telev_code2digit (telev_digit2code k) = heard_digit k"
    if "k \<in> set (pressed ops)" for k
    using digit2code_range code2digit_digit2code run_valid_keys [OF assms(3) that] by blast
  then have ev: "\<forall>b \<in> set bs. 0 \<le> fst b \<and> fst b < 16"
    using bs(3) by (metis (no_types, lifting) imageE image_set image_eqI)
  have out: "map (\<lambda>b. [(telev_code2digit (fst b), False), (telev_code2digit (fst b), True)]) bs =
     map (\<lambda>k. [(heard_digit k, False), (heard_digit k, True)]) (pressed ops)"
  proof -
    have "map (\<lambda>b. [(telev_code2digit (fst b), False), (telev_code2digit (fst b), True)]) bs =
      map (\<lambda>e. [(telev_code2digit e, False), (telev_code2digit e, True)]) (map fst bs)" by simp
    then show ?thesis unfolding bs(3) using k by simp
  qed
  obtain r0 where "au_telev (dtmf_start r) = Some r0" "tel_rx_event r0 = - 1"
    using assms(5) by (auto simp: telev_alloc_def dtmf_start_def split: if_splits option.splits)
  then have "map_option fst (dtmf_hear (concat cs) (dtmf_start r)) =
      Some (concat (map (\<lambda>k. [(heard_digit k, False), (heard_digit k, True)]) (pressed ops)))"
    if "list_all2 kept cs (map (burst pt (tel_pdur t)) bs)" for cs
    using hear_bursts [OF that ev] unfolding out by blast
  then show ?thesis using bs by blast
qed

text \<open>When the last key has been released, the sender is empty after at most 13 packet times for every digit: no
  digit is sent for ever.\<close>
theorem dtmf_drains:
  assumes "telev_alloc mm zok mok True ptime = (OK, Some t)" "mm 80 = Some f"
    "dtmf_run mm pt ops (dtmf_start t) = Some (ps, a)" "\<not> key_down a" "13 * length (pressed ops) \<le> length xs"
  shows "\<exists>qs a'. dtmf_run mm pt (map Tick xs) a = Some (qs, a') \<and> audio_txtelev_empty (Some a')"
proof -
  have i: "dtmf_inv pt (tel_pdur t) (map telev_digit2code (pressed ops)) ps a"
    using dtmf_run_inv [OF dtmf_start_inv [OF assms(1)] assms(2,3)] by simp
  from ticks_run [where xs = xs and mm = mm and f = f and a = a, OF i assms(2,4)] obtain qs a' where
    r: "dtmf_run mm pt (map Tick xs) a = Some (qs, a')"
    "dtmf_inv pt (tel_pdur t) (map telev_digit2code (pressed ops)) (ps @ qs) a'" "\<not> key_down a'"
    "au_ticks a' = au_ticks a - length xs" by blast
  have "au_ticks a' = 0" using empty_ticks(3) [OF i assms(4)] assms(5) r(4) by simp
  then show ?thesis using r(1) empty_ticks(2) [OF r(2,3)] by blast
qed


text \<open>A key that is not released.\<close>

lemma down_ticks_run:
  "dtmf_inv pt pdur evs ps a \<Longrightarrow> mm 80 = Some f \<Longrightarrow> key_down a \<Longrightarrow>
   \<exists>qs a'. dtmf_run mm pt (map Tick xs) a = Some (qs, a') \<and> dtmf_inv pt pdur evs (ps @ qs) a' \<and> key_down a' \<and>
           length qs = length xs"
proof (induction xs arbitrary: ps a)
  case Nil
  then show ?case by simp
next
  case (Cons x xs)
  from tick_inv [where x = x and mm = mm and f = f, OF Cons.prems(1,2)] Cons.prems(3) obtain p a1 where
    1: "check_telev mm True (Some pt) (a\<lparr>au_ts_ext := x\<rparr>) = Some (p, a1)"
    "dtmf_inv pt pdur evs (ps @ (case p of None \<Rightarrow> [] | Some p \<Rightarrow> [p])) a1" "key_down a1" "p \<noteq> None" by blast
  from Cons.IH [OF 1(2) Cons.prems(2) 1(3)] 1(1,4) show ?case by (auto simp: append_assoc)
qed

lemma burst_ends: "length (filter tel_ends (burst pt pdur b)) = 3" "filter tel_ends (starts pt pdur ev ts n) = []"
proof -
  show s: "filter tel_ends (starts pt pdur ev ts n) = []" for ev ts n
    using starts_payload tel_ends_payload by (fastforce simp: filter_empty_conv)
  have "tel_ends (end_packet pt pdur ev ts n)" for ev ts n
    by (simp add: end_packet_def tel_ends_def tel_payload_def bit_iff_odd)
  then show "length (filter tel_ends (burst pt pdur b)) = 3" using s by (simp add: burst_def split: prod.split)
qed

lemma bursts_ends: "length (filter tel_ends (concat (map (burst pt pdur) bs))) = 3 * length bs"
  by (induction bs) (simp_all add: burst_ends)

lemma down_ends:
  assumes "dtmf_inv pt pdur evs ps a" "key_down a"
  shows "\<not> audio_txtelev_empty (Some a)" "length (filter tel_ends ps) \<le> 3 * (length evs - 1)"
proof -
  obtain t q bs ps2 evs2 where i: "au_telev a = Some t" "tel_q t q" "tel_pdur t = pdur"
    "queue_ok (tel_state t) (key_down a) q" "\<forall>b \<in> set bs. 9 \<le> snd (snd b)" "sent_as pt pdur t (au_ts_tel a) ps2 evs2"
    "ps = concat (map (burst pt pdur) bs) @ ps2" "evs = map fst bs @ evs2 @ queued q"
    by (rule dtmf_invE [OF assms(1)])
  have q: "q \<noteq> [] \<Longrightarrow> queued q \<noteq> []"
    using i(4) assms(2) last_in_set [of q] by (auto simp: queue_ok_def queued_def filter_empty_conv)
  have n: "tel_state t \<noteq> SENDING \<Longrightarrow> q \<noteq> []" using i(4) assms(2) by (auto simp: queue_ok_def)
  then show "\<not> audio_txtelev_empty (Some a)" using empty_ticks(1) [OF assms(1)] i(1) tel_q_rest [OF i(2)]
    by (auto dest: tel_q_rest)
  have l: "q \<noteq> [] \<Longrightarrow> 1 \<le> length (queued q)" using q by (cases "queued q") auto
  have "length (filter tel_ends ps2) + 3 \<le> 3 * (length evs2 + length (queued q))"
    using i(6) l n by (cases "tel_state t") (auto simp: burst_ends filter_replicate)
  then show "length (filter tel_ends ps) \<le> 3 * (length evs - 1)" using i(7,8) bursts_ends by simp
qed

lemma unreleased_never_ends:
  assumes "telev_alloc mm zok mok True ptime = (OK, Some t)" "mm 80 = Some f"
    "dtmf_run mm pt ops (dtmf_start t) = Some (ps, a)" "key_down a"
  shows "\<exists>qs a'. dtmf_run mm pt (map Tick xs) a = Some (qs, a') \<and> length qs = length xs \<and>
     \<not> audio_txtelev_empty (Some a') \<and> length (filter tel_ends (ps @ qs)) \<le> 3 * (length (pressed ops) - 1)"
proof -
  have i: "dtmf_inv pt (tel_pdur t) (map telev_digit2code (pressed ops)) ps a"
    using dtmf_run_inv [OF dtmf_start_inv [OF assms(1)] assms(2,3)] by simp
  from down_ticks_run [where xs = xs and mm = mm and f = f and a = a, OF i assms(2,4)] obtain qs a' where
    r: "dtmf_run mm pt (map Tick xs) a = Some (qs, a')" "length qs = length xs" "key_down a'"
    "dtmf_inv pt (tel_pdur t) (map telev_digit2code (pressed ops)) (ps @ qs) a'" by blast
  show ?thesis using r(1,2) down_ends [OF r(4,3)] by auto
qed

text \<open>Whether a key is down is decided by the last key of the run.\<close>

lemma run_key_down:
  assumes "dtmf_inv pt pdur evs ps a" "mm 80 = Some f"
  shows "dtmf_run mm pt ops a = Some (qs, a') \<Longrightarrow> \<forall>k. Key k \<in> set ops \<longrightarrow> k \<noteq> KEYCODE_REL \<Longrightarrow>
     key_down a' \<longleftrightarrow> key_down a \<or> pressed ops \<noteq> []"
  using assms
proof (induction ops arbitrary: evs ps a qs)
  case (Cons op ops)
  show ?case
  proof (cases op)
    case (Key k)
    obtain a1 where 1: "audio_send_digit mm (Some a) k = Some (OK, Some a1)" "dtmf_run mm pt ops a1 = Some (qs, a')"
      using Cons.prems(1) unfolding Key by (rule dtmf_run_Key)
    have "k \<noteq> KEYCODE_REL" using Cons.prems(2) Key by simp
    then show ?thesis using Cons.IH [OF 1(2) _ key_step(1) [OF Cons.prems(3) 1(1)] Cons.prems(4)]
        key_step(2) [OF Cons.prems(3) 1(1)] Cons.prems(2) Key by simp
  next
    case (Tick x)
    from tick_inv [where x = x and mm = mm and f = f, OF Cons.prems(3,4)] obtain p a1 where
      1: "check_telev mm True (Some pt) (a\<lparr>au_ts_ext := x\<rparr>) = Some (p, a1)"
      "dtmf_inv pt pdur evs (ps @ (case p of None \<Rightarrow> [] | Some p \<Rightarrow> [p])) a1" "key_down a1 = key_down a" by blast
    then obtain qs1 where "dtmf_run mm pt ops a1 = Some (qs1, a')" using Cons.prems(1) Tick by (auto split: bind_splits)
    from Cons.IH [OF this _ 1(2) Cons.prems(4)] show ?thesis using Cons.prems(2) Tick 1(3) by simp
  qed
qed simp


section \<open>Witnesses\<close>

definition ex_telev :: telev where
  "ex_telev = the (snd (telev_alloc (\<lambda>n. Some (\<lambda>_. 0)) True True True 50))"

lemma ex_telev_alloc: "telev_alloc (\<lambda>n. Some (\<lambda>_. 0)) True True True 50 = (OK, Some ex_telev)"
  by (simp add: ex_telev_def telev_alloc_def mbuf_alloc_def mbuf_resize_def blk_alloc_def)

lemma dtmf_digits_heard_witness:
  "\<exists>ps a bs. dtmf_run (\<lambda>n. Some (\<lambda>_. 0)) 101 ([Key 49, Tick 0, Key 4, Key 35, Key 4] @ map Tick (replicate 26 160)) (dtmf_start ex_telev)
       = Some (ps, a) \<and>
     map fst bs = [1, 11] \<and> ps = concat (map (burst 101 (tel_pdur ex_telev)) bs) \<and>
     (\<forall>cs. list_all2 kept cs (map (burst 101 (tel_pdur ex_telev)) bs) \<longrightarrow>
        map_option fst (dtmf_hear (concat cs) (dtmf_start ex_telev)) =
          Some [(49, False), (49, True), (35, False), (35, True)])"
proof -
  let ?ops = "[Key 49, Tick 0, Key 4, Key 35, Key 4] @ map Tick (replicate 26 160)"
  have "case dtmf_run (\<lambda>n. Some (\<lambda>_. 0)) 101 ?ops (dtmf_start ex_telev) of
      None \<Rightarrow> False | Some r \<Rightarrow> audio_txtelev_empty (Some (snd r))" by code_simp
  then obtain ps a where r: "dtmf_run (\<lambda>n. Some (\<lambda>_. 0)) 101 ?ops (dtmf_start ex_telev) = Some (ps, a)"
    "audio_txtelev_empty (Some a)" by (auto split: option.splits)
  have p: "pressed ?ops = [49, 35]" by code_simp
  have c: "map telev_digit2code [49, 35] = [1, 11]"
    "concat (map (\<lambda>k. [(heard_digit k, False), (heard_digit k, True)]) [49, 35]) = [(49, False), (49, True), (35, False), (35, True)]"
    by (simp_all add: telev_digit2code_def heard_digit_def)
  note h = dtmf_digits_heard [OF ex_telev_alloc refl r ex_telev_alloc, unfolded p c]
  show ?thesis by (rule exE [OF h], intro exI conjI, rule r(1)) (elim conjE, assumption)+
qed

lemma dtmf_drains_witness:
  "\<exists>ps a qs a'. dtmf_run (\<lambda>n. Some (\<lambda>_. 0)) 101 [Key 49, Tick 0, Key 4] (dtmf_start ex_telev) = Some (ps, a) \<and>
     dtmf_run (\<lambda>n. Some (\<lambda>_. 0)) 101 (map Tick (replicate 13 0)) a = Some (qs, a') \<and> audio_txtelev_empty (Some a')"
proof -
  let ?ops = "[Key 49, Tick 0, Key 4]"
  have "case dtmf_run (\<lambda>n. Some (\<lambda>_. 0)) 101 ?ops (dtmf_start ex_telev) of
      None \<Rightarrow> False | Some r \<Rightarrow> \<not> key_down (snd r)" by code_simp
  then obtain ps a where r: "dtmf_run (\<lambda>n. Some (\<lambda>_. 0)) 101 ?ops (dtmf_start ex_telev) = Some (ps, a)" "\<not> key_down a"
    by (auto split: option.splits)
  have "13 * length (pressed ?ops) \<le> length (replicate 13 (0 :: u64))" by (simp add: KEYCODE_REL_def)
  from dtmf_drains [OF ex_telev_alloc refl r this] r(1) show ?thesis by blast
qed

end
