(* ===== verification/Sip_Msg.thy ===== *)
theory Sip_Msg
  imports Re_Hash Bytes
begin

text \<open>
  What the two SIP transaction layers share: the fields of a decoded message they look at
  (\<open>struct sip_msg\<close> of \<open>native/re/include/re_sip.h\<close>), the transports, the timer values, and the hash functions of
  \<open>native/re/src/hash/func.c\<close> under which transactions are filed.  A \<open>struct pl\<close> is the text it spans.
  Time is the count of milliseconds of \<open>tmr_jiffies\<close>, 64 bits wide, as a natural number.
\<close>

section \<open>Messages\<close>

datatype sip_transp =
  SIP_TRANSP_NONE | SIP_TRANSP_UDP | SIP_TRANSP_TCP | SIP_TRANSP_TLS | SIP_TRANSP_WS | SIP_TRANSP_WSS

definition sip_transp_reliable :: "sip_transp \<Rightarrow> bool" where
  "sip_transp_reliable tp =
     (case tp of
        SIP_TRANSP_UDP \<Rightarrow> False
      | SIP_TRANSP_TCP \<Rightarrow> True
      | SIP_TRANSP_TLS \<Rightarrow> True
      | SIP_TRANSP_WS \<Rightarrow> True
      | SIP_TRANSP_WSS \<Rightarrow> True
      | _ \<Rightarrow> False)"

record sip_msg =
  m_met :: string
  m_ruri :: string
  m_scode :: u16
  m_via :: string
  m_branch :: string
  m_sentby :: string
  m_to :: string
  m_to_tag :: string
  m_from :: string
  m_from_tag :: string
  m_callid :: string
  m_cseq_num :: u32
  m_cseq_met :: string
  m_routes :: "string list"
  m_tp :: sip_transp
  m_tag :: u64

definition SIP_T1 :: nat where "SIP_T1 = 500"
definition SIP_T2 :: nat where "SIP_T2 = 4000"
definition SIP_T4 :: nat where "SIP_T4 = 5000"

lemmas sip_times = SIP_T1_def SIP_T2_def SIP_T4_def

text \<open>\<open>SIP_T1 << txc\<close> on \<open>int\<close>: undefined when the count is 32 or more or the value does not fit.\<close>

definition t1_shl :: "u32 \<Rightarrow> nat option" where
  "t1_shl txc =
     (if unat txc < 32 \<and> SIP_T1 * 2 ^ unat txc < 2 ^ 31 then Some (SIP_T1 * 2 ^ unat txc) else None)"

section \<open>Hash functions\<close>

fun joaat_loop :: "u32 \<Rightarrow> u8 list \<Rightarrow> u32" where
  "joaat_loop h [] = h"
| "joaat_loop h (k # ks) =
     (let h = h + ucast k;
          h = h + push_bit 10 h;
          h = h XOR drop_bit 6 h
      in joaat_loop h ks)"

definition joaat_end :: "u32 \<Rightarrow> u32" where
  "joaat_end h =
     (let h = h + push_bit 3 h;
          h = h XOR drop_bit 11 h
      in h + push_bit 15 h)"

definition hash_joaat :: "u8 list \<Rightarrow> u32" where
  "hash_joaat key = joaat_end (joaat_loop 0 key)"

text \<open>A C string ends at the first zero; \<open>char\<close> is unsigned on ARM.\<close>

fun joaat_str_loop :: "u32 \<Rightarrow> string \<Rightarrow> u32" where
  "joaat_str_loop h [] = h"
| "joaat_str_loop h (c # cs) =
     (if c = CHR 0x00 then h
      else
        let h = h + word_of_nat (of_char c);
            h = h + push_bit 10 h;
            h = h XOR drop_bit 6 h
        in joaat_str_loop h cs)"

definition hash_joaat_str :: "string \<Rightarrow> u32" where
  "hash_joaat_str s = joaat_end (joaat_str_loop 0 s)"

definition hash_joaat_pl :: "string \<Rightarrow> u32" where
  "hash_joaat_pl pl = hash_joaat (str_bytes pl)"

text \<open>A transaction is filed under the hash of the string and looked up under that of the text in a message:
  they agree.\<close>

lemma ucast_u8_of_char: "(ucast (u8_of_char c) :: u32) = word_of_nat (of_char c)"
  by (rule word_unat_eq_iff [THEN iffD2])
    (simp add: u8_of_char_def unsigned_ucast_eq unsigned_of_nat take_bit_nat_eq_self
      less_trans [OF of_char_less_256])

lemma joaat_str_loop: "CHR 0x00 \<notin> set s \<Longrightarrow> joaat_str_loop h s = joaat_loop h (str_bytes s)"
  by (induction s arbitrary: h) (auto simp: str_bytes_def ucast_u8_of_char Let_def)

lemma hash_joaat_str_pl: "CHR 0x00 \<notin> set s \<Longrightarrow> hash_joaat_str s = hash_joaat_pl s"
  by (simp add: hash_joaat_str_def hash_joaat_pl_def hash_joaat_def joaat_str_loop)

end
