(* ===== verification/Sip_Ctrans.thy ===== *)
theory Sip_Ctrans
  imports Sip_Msg "HOL-Library.Monad_Syntax"
begin

text \<open>
  SIP client transactions (\<open>native/re/src/sip/ctrans.c\<close>): a request is sent, retransmitted over unreliable
  transports until it is answered, and its responses go to the handler of the caller.  The transactions are
  objects in a store, filed in a hash table under their branch; a pointer to a freed object has none, and the
  result \<open>None\<close> of an operation is such an access or an undefined shift.  What a transaction does to the outside
  is appended to a log with its time: the calls of the response handler and the messages handed to the transport.
  A timer is its expiry.  \<open>Created\<close> marks in the log that a transaction has been started.
\<close>

section \<open>State\<close>

datatype ctrans_state = TRYING | CALLING | PROCEEDING | COMPLETED

definition COMPLETE_WAIT :: nat where "COMPLETE_WAIT = 32000"

record ctrans =
  ct_dst :: string
  ct_tmr :: "nat option"
  ct_tmre :: "nat option"
  ct_mb :: string
  ct_mb_ack :: "string option"
  ct_req :: "sip_msg option"
  ct_met :: string
  ct_branch :: string
  ct_host :: "string option"
  ct_resph :: "nat option"
  ct_tp :: sip_transp
  ct_state :: ctrans_state
  ct_txc :: u32
  ct_invite :: bool

text \<open>The response handler \<open>resph\<close> is \<open>None\<close> for the dummy handler.\<close>

datatype ct_act =
    Created nat
  | Resp nat "nat option" errno "sip_msg option"
  | Sent nat sip_transp string string

record sipc =
  sc_ht :: "nat hash"
  sc_ct :: "nat \<Rightarrow> ctrans option"
  sc_software :: "string option"
  sc_now :: nat
  sc_log :: "(nat \<times> ct_act) list"

definition put_log :: "ct_act \<Rightarrow> sipc \<Rightarrow> sipc" where
  "put_log x s = s\<lparr>sc_log := sc_log s @ [(sc_now s, x)]\<rparr>"

definition upd_ct :: "nat \<Rightarrow> ctrans \<Rightarrow> sipc \<Rightarrow> sipc" where
  "upd_ct a ct s = s\<lparr>sc_ct := (sc_ct s)(a \<mapsto> ct)\<rparr>"

text \<open>\<open>mem_deref\<close> of a transaction runs its destructor: it is taken out of the table and its timers stop.\<close>

definition ct_free :: "nat \<Rightarrow> sipc \<Rightarrow> sipc" where
  "ct_free a s = s\<lparr>sc_ht := hash_unlink a (sc_ht s), sc_ct := (sc_ct s)(a := None)\<rparr>"

section \<open>Requests built from the request\<close>

text \<open>The decoder of messages is a parameter, \<open>alloc_ok\<close> and \<open>write_ok\<close> say whether there is memory for the buffer and
  what is written to it.\<close>

type_synonym msg_decoder = "string \<Rightarrow> errno + sip_msg"

definition crlf :: string where "crlf = [CHR 0x0D, CHR 0x0A]"

definition copy_text :: "string option \<Rightarrow> string \<Rightarrow> sip_msg \<Rightarrow> sip_msg option \<Rightarrow> string" where
  "copy_text software met req resp =
     met @ '' '' @ m_ruri req @ '' SIP/2.0'' @ crlf @
     ''Via: '' @ m_via req @ crlf @
     ''Max-Forwards: 70'' @ crlf @
     concat (map (\<lambda>v. ''Route: '' @ v @ crlf) (m_routes req)) @
     ''To: '' @ (case resp of Some r \<Rightarrow> m_to r | None \<Rightarrow> m_to req) @ crlf @
     ''From: '' @ m_from req @ crlf @
     ''Call-ID: '' @ m_callid req @ crlf @
     ''CSeq: '' @ dec_of_nat (unat (m_cseq_num req)) @ '' '' @ met @ crlf @
     (case software of None \<Rightarrow> [] | Some v \<Rightarrow> ''User-Agent: '' @ v @ crlf) @
     ''Content-Length: 0'' @ crlf @ crlf"

definition request_copy ::
    "msg_decoder \<Rightarrow> bool \<Rightarrow> bool \<Rightarrow> string option \<Rightarrow> ctrans \<Rightarrow> string \<Rightarrow> sip_msg option \<Rightarrow>
     errno \<times> ctrans \<times> string option" where
  "request_copy dec alloc_ok write_ok software ct met resp =
     (let (err, ct) = (if ct_req ct = None
                       then (case dec (ct_mb ct) of Inl err \<Rightarrow> (err, ct) | Inr req \<Rightarrow> (OK, ct\<lparr>ct_req := Some req\<rparr>))
                       else (OK, ct))
      in if err \<noteq> 0 then (err, ct, None)
         else if \<not> alloc_ok then (ENOMEM, ct, None)
         else if \<not> write_ok then (ENOMEM, ct, None)
         else
           case ct_req ct of
             None \<Rightarrow> (err, ct, None)
           | Some req \<Rightarrow> (OK, ct, Some (copy_text software met req resp)))"

section \<open>Ends of a transaction\<close>

definition terminate :: "nat \<Rightarrow> errno \<Rightarrow> sipc \<Rightarrow> sipc option" where
  "terminate a err s = do {
     ct \<leftarrow> sc_ct s a;
     Some (case ct_state ct of
             TRYING \<Rightarrow> put_log (Resp a (ct_resph ct) err None) s
           | CALLING \<Rightarrow> put_log (Resp a (ct_resph ct) err None) s
           | PROCEEDING \<Rightarrow> put_log (Resp a (ct_resph ct) err None) s
           | _ \<Rightarrow> s) }"

definition transport_handler :: "errno \<Rightarrow> nat \<Rightarrow> sipc \<Rightarrow> sipc option" where
  "transport_handler err a s = map_option (ct_free a) (terminate a err s)"

definition tmr_handler :: "nat \<Rightarrow> sipc \<Rightarrow> sipc option" where
  "tmr_handler a s = map_option (ct_free a) (terminate a ETIMEDOUT s)"

section \<open>Sending\<close>

text \<open>\<open>sip_send\<close> without a message fails; its result is not used.\<close>

definition ct_send :: "nat \<Rightarrow> ctrans \<Rightarrow> string option \<Rightarrow> sipc \<Rightarrow> sipc" where
  "ct_send a ct mb s = (case mb of None \<Rightarrow> s | Some txt \<Rightarrow> put_log (Sent a (ct_tp ct) (ct_dst ct) txt) s)"

text \<open>\<open>send_err\<close> is what \<open>sip_transp_send\<close> returns.\<close>

definition ct_transp_send :: "errno \<Rightarrow> nat \<Rightarrow> ctrans \<Rightarrow> sipc \<Rightarrow> errno \<times> sipc" where
  "ct_transp_send send_err a ct s = (send_err, if send_err = 0 then put_log (Sent a (ct_tp ct) (ct_dst ct) (ct_mb ct)) s else s)"

definition retransmit_handler :: "errno \<Rightarrow> nat \<Rightarrow> sipc \<Rightarrow> sipc option" where
  "retransmit_handler send_err a s = do {
     ct \<leftarrow> sc_ct s a;
     let ct = ct\<lparr>ct_txc := ct_txc ct + 1\<rparr>;
     if ct_state ct = COMPLETED then Some (upd_ct a ct s)
     else do {
       timeout \<leftarrow> (case ct_state ct of
                     TRYING \<Rightarrow> map_option (min SIP_T2) (t1_shl (ct_txc ct))
                   | CALLING \<Rightarrow> t1_shl (ct_txc ct)
                   | _ \<Rightarrow> Some SIP_T2);
       let ct = ct\<lparr>ct_tmre := Some (sc_now s + timeout)\<rparr>;
       let (err, s) = ct_transp_send send_err a ct (upd_ct a ct s);
       if err \<noteq> 0 then map_option (ct_free a) (terminate a err s) else Some s
     } }"

section \<open>Responses\<close>

definition invite_response ::
    "msg_decoder \<Rightarrow> bool \<Rightarrow> bool \<Rightarrow> nat \<Rightarrow> sip_msg \<Rightarrow> sipc \<Rightarrow> sipc option" where
  "invite_response dec alloc_ok write_ok a msg s = do {
     ct \<leftarrow> sc_ct s a;
     let ct = (if ct_state ct = CALLING then ct\<lparr>ct_tmr := None, ct_tmre := None\<rparr> else ct);
     Some (case ct_state ct of
       COMPLETED \<Rightarrow> if m_scode msg < 300 then s else ct_send a ct (ct_mb_ack ct) s
     | TRYING \<Rightarrow> s
     | _ \<Rightarrow>
         if m_scode msg < 200
         then put_log (Resp a (ct_resph ct) OK (Some msg)) (upd_ct a (ct\<lparr>ct_state := PROCEEDING\<rparr>) s)
         else if m_scode msg < 300
         then ct_free a (put_log (Resp a (ct_resph ct) OK (Some msg)) (upd_ct a ct s))
         else
           let ct = ct\<lparr>ct_state := COMPLETED\<rparr>;
               (err, ct, ack) = request_copy dec alloc_ok write_ok (sc_software s) ct ''ACK'' (Some msg);
               ct = (if ack = None then ct else ct\<lparr>ct_mb_ack := ack\<rparr>);
               s = ct_send a ct (ct_mb_ack ct) (upd_ct a ct s);
               s = put_log (Resp a (ct_resph ct) OK (Some msg)) s
           in if sip_transp_reliable (ct_tp ct) then ct_free a s
              else upd_ct a (ct\<lparr>ct_tmr := Some (sc_now s + COMPLETE_WAIT)\<rparr>) s) }"

definition ct_cmp_handler :: "(nat \<Rightarrow> ctrans option) \<Rightarrow> sip_msg \<Rightarrow> (nat, unit) apply_h" where
  "ct_cmp_handler store msg a u = do {
     ct \<leftarrow> store a;
     Some (m_branch msg = ct_branch ct \<and> m_cseq_met msg = ct_met ct, u) }"

text \<open>\<open>False\<close>: the message belongs to no transaction.\<close>

definition response_handler ::
    "msg_decoder \<Rightarrow> bool \<Rightarrow> bool \<Rightarrow> sip_msg \<Rightarrow> sipc \<Rightarrow> (bool \<times> sipc) option" where
  "response_handler dec alloc_ok write_ok msg s = do {
     (le, _) \<leftarrow> hash_lookup (Some (sc_ht s)) (hash_joaat_pl (m_branch msg)) (Some (ct_cmp_handler (sc_ct s) msg)) ();
     case le of
       None \<Rightarrow> Some (False, s)
     | Some a \<Rightarrow> do {
         ct \<leftarrow> sc_ct s a;
         if ct_invite ct then map_option (Pair True) (invite_response dec alloc_ok write_ok a msg s)
         else
           Some (True,
             case ct_state ct of
               CALLING \<Rightarrow> s
             | COMPLETED \<Rightarrow> s
             | _ \<Rightarrow>
                 if m_scode msg < 200
                 then put_log (Resp a (ct_resph ct) OK (Some msg)) (upd_ct a (ct\<lparr>ct_state := PROCEEDING\<rparr>) s)
                 else
                   let ct = ct\<lparr>ct_state := COMPLETED\<rparr>;
                       s = put_log (Resp a (ct_resph ct) OK (Some msg)) (upd_ct a ct s)
                   in if sip_transp_reliable (ct_tp ct) then ct_free a s
                      else upd_ct a (ct\<lparr>ct_tmr := Some (sc_now s + SIP_T4), ct_tmre := None\<rparr>) s)
       } }"

section \<open>Requests\<close>

text \<open>\<open>new\<close> is the address of the object that is allocated, when there is memory; the arguments that may be NULL
  are options.\<close>

definition sip_ctrans_request ::
    "nat option \<Rightarrow> errno \<Rightarrow> sip_transp \<Rightarrow> string option \<Rightarrow> string option \<Rightarrow> string option \<Rightarrow> string option \<Rightarrow>
     string option \<Rightarrow> nat option \<Rightarrow> sipc \<Rightarrow> (errno \<times> nat option \<times> sipc) option" where
  "sip_ctrans_request new send_err tp dst met branch host mb resph s =
     (case (dst, met, branch, mb) of
        (Some d, Some m, Some b, Some txt) \<Rightarrow>
          (case new of
             None \<Rightarrow> Some (ENOMEM, None, s)
           | Some a \<Rightarrow> do {
               h \<leftarrow> hash_append (Some (sc_ht s)) (hash_joaat_str b) (Some a);
               ht \<leftarrow> h;
               let invite = (m = ''INVITE'');
               let ct = \<lparr>ct_dst = d, ct_tmr = None, ct_tmre = None, ct_mb = txt, ct_mb_ack = None, ct_req = None,
                         ct_met = m, ct_branch = b, ct_host = host, ct_resph = resph, ct_tp = tp,
                         ct_state = (if invite then CALLING else TRYING), ct_txc = 0, ct_invite = invite\<rparr>;
               let s = upd_ct a ct (s\<lparr>sc_ht := ht\<rparr>);
               if send_err \<noteq> 0 then Some (send_err, None, ct_free a s)
               else
                 let (err, s) = ct_transp_send send_err a ct (put_log (Created a) s);
                     ct = ct\<lparr>ct_tmr := Some (sc_now s + 64 * SIP_T1)\<rparr>;
                     ct = (if \<not> sip_transp_reliable tp then ct\<lparr>ct_tmre := Some (sc_now s + SIP_T1)\<rparr> else ct)
                 in Some (OK, Some a, upd_ct a ct s)
             })
      | _ \<Rightarrow> Some (EINVAL, None, s))"

text \<open>\<open>str_ok\<close>: there is memory for the copy of the method.\<close>

definition sip_ctrans_cancel ::
    "msg_decoder \<Rightarrow> bool \<Rightarrow> bool \<Rightarrow> bool \<Rightarrow> nat option \<Rightarrow> errno \<Rightarrow> nat option \<Rightarrow> sipc \<Rightarrow> (errno \<times> sipc) option" where
  "sip_ctrans_cancel dec str_ok alloc_ok write_ok new send_err ctp s =
     (case ctp of
        None \<Rightarrow> Some (EINVAL, s)
      | Some a \<Rightarrow> do {
          ct \<leftarrow> sc_ct s a;
          if \<not> ct_invite ct then Some (OK, s)
          else if ct_state ct \<noteq> PROCEEDING then Some (EPROTO, s)
          else do {
            let ct = ct\<lparr>ct_tmr := Some (sc_now s + 64 * SIP_T1)\<rparr>;
            let s = upd_ct a ct s;
            if \<not> str_ok then Some (ENOMEM, s)
            else
              let (err, ct, mb) = request_copy dec alloc_ok write_ok (sc_software s) ct ''CANCEL'' None;
                  s = upd_ct a ct s
              in if err \<noteq> 0 then Some (err, s)
                 else do {
                   (err, _, s) \<leftarrow> sip_ctrans_request new send_err (ct_tp ct) (Some (ct_dst ct)) (Some ''CANCEL'')
                     (Some (ct_branch ct)) None mb None s;
                   Some (err, s)
                 }
          }
        })"

text \<open>\<open>listen_err\<close>: the result of \<open>sip_listen\<close>.\<close>

definition sip_ctrans_init :: "errno \<Rightarrow> bool \<Rightarrow> (u32 \<Rightarrow> bool) \<Rightarrow> u32 \<Rightarrow> errno \<times> nat hash option" where
  "sip_ctrans_init listen_err struct_ok zalloc sz =
     (if listen_err \<noteq> 0 then (listen_err, None) else hash_alloc True struct_ok zalloc sz)"

end
