(* ===== verification/Sip_Ctrans_Spec.thy ===== *)
theory Sip_Ctrans_Spec
  imports Sip_Ctrans
begin

text \<open>
  What a SIP client transaction guarantees, along every run of responses, timers, transport errors, requests and
  cancellations (\<open>ct_step\<close>, \<open>ct_reach\<close>): the response handler gets provisional responses and then exactly one
  final answer, a response, a timeout or an error; a request other than INVITE is over after 37 s, an INVITE that
  nobody answers after 32 s; and nothing undefined happens on the way.  The event loop is assumed to run a timer when
  it is due: time passes up to the next expiry.
\<close>

section \<open>Runs\<close>

text \<open>The calls of the response handler of a transaction since it was started, and when that was.\<close>

fun answer_step :: "nat \<Rightarrow> (errno \<times> sip_msg option) list \<Rightarrow> nat \<times> ct_act \<Rightarrow> (errno \<times> sip_msg option) list" where
  "answer_step a xs (t, Created b) = (if b = a then [] else xs)"
| "answer_step a xs (t, Resp b h e m) = (if b = a then xs @ [(e, m)] else xs)"
| "answer_step a xs (t, Sent b tp d m) = xs"

definition answers :: "nat \<Rightarrow> (nat \<times> ct_act) list \<Rightarrow> (errno \<times> sip_msg option) list" where
  "answers a log = foldl (answer_step a) [] log"

fun start_step :: "nat \<Rightarrow> nat option \<Rightarrow> nat \<times> ct_act \<Rightarrow> nat option" where
  "start_step a x (t, Created b) = (if b = a then Some t else x)"
| "start_step a x (t, Resp b h e m) = x"
| "start_step a x (t, Sent b tp d m) = x"

definition started :: "nat \<Rightarrow> (nat \<times> ct_act) list \<Rightarrow> nat option" where
  "started a log = foldl (start_step a) None log"

definition final_answer :: "errno \<times> sip_msg option \<Rightarrow> bool" where
  "final_answer x = (case snd x of None \<Rightarrow> True | Some m \<Rightarrow> \<not> m_scode m < 200)"

definition open_answers :: "(errno \<times> sip_msg option) list \<Rightarrow> bool" where
  "open_answers xs = list_all (\<lambda>x. \<not> final_answer x) xs"

definition closed_answers :: "(errno \<times> sip_msg option) list \<Rightarrow> bool" where
  "closed_answers xs = (xs \<noteq> [] \<and> final_answer (last xs) \<and> open_answers (butlast xs))"

lemma closed_append: "open_answers xs \<Longrightarrow> final_answer x \<Longrightarrow> closed_answers (xs @ [x])"
  by (simp add: closed_answers_def)

lemma open_append: "open_answers xs \<Longrightarrow> \<not> final_answer x \<Longrightarrow> open_answers (xs @ [x])"
  by (simp add: open_answers_def)

lemma log_simps [simp]:
  "answers a (log @ [x]) = answer_step a (answers a log) x"
  "started a (log @ [x]) = start_step a (started a log) x"
  by (simp_all add: answers_def started_def)

text \<open>One thing that happens: a response comes in, a request is made or cancelled (\<open>new\<close> is memory that is not in
  use), the transport fails, a timer that is due fires, or time passes, up to the next timer.\<close>

definition due :: "nat \<Rightarrow> nat option \<Rightarrow> bool" where
  "due now tmr \<longleftrightarrow> (case tmr of None \<Rightarrow> False | Some e \<Rightarrow> e \<le> now)"

definition not_past :: "nat \<Rightarrow> nat option \<Rightarrow> bool" where
  "not_past now tmr \<longleftrightarrow> (case tmr of None \<Rightarrow> True | Some e \<Rightarrow> now \<le> e)"

definition fresh :: "nat option \<Rightarrow> sipc \<Rightarrow> bool" where
  "fresh new s \<longleftrightarrow> (case new of None \<Rightarrow> True | Some a \<Rightarrow> sc_ct s a = None)"

inductive ct_step :: "sipc \<Rightarrow> sipc \<Rightarrow> bool" where
  step_response: "response_handler dec ok1 ok2 msg s = Some (b, s') \<Longrightarrow> ct_step s s'"
| step_request: "fresh new s \<Longrightarrow> sip_ctrans_request new err tp dst met branch host mb resph s = Some (e, a, s') \<Longrightarrow> ct_step s s'"
| step_cancel: "fresh new s \<Longrightarrow> sip_ctrans_cancel dec ok1 ok2 ok3 new err ctp s = Some (e, s') \<Longrightarrow> ct_step s s'"
| step_transport: "transport_handler err a s = Some s' \<Longrightarrow> ct_step s s'"
| step_tmr: "sc_ct s a = Some ct \<Longrightarrow> due (sc_now s) (ct_tmr ct) \<Longrightarrow>
    tmr_handler a (upd_ct a (ct\<lparr>ct_tmr := None\<rparr>) s) = Some s' \<Longrightarrow> ct_step s s'"
| step_tmre: "sc_ct s a = Some ct \<Longrightarrow> due (sc_now s) (ct_tmre ct) \<Longrightarrow>
    retransmit_handler err a (upd_ct a (ct\<lparr>ct_tmre := None\<rparr>) s) = Some s' \<Longrightarrow> ct_step s s'"
| step_time: "sc_now s \<le> now \<Longrightarrow>
    (\<And>a ct. sc_ct s a = Some ct \<Longrightarrow> not_past now (ct_tmr ct) \<and> not_past now (ct_tmre ct)) \<Longrightarrow>
    ct_step s (s\<lparr>sc_now := now\<rparr>)"

inductive_cases ct_stepE: "ct_step s s'"

inductive ct_reach :: "sipc \<Rightarrow> bool" where
  reach_init: "sip_ctrans_init 0 True (\<lambda>_. True) 32 = (OK, Some ht) \<Longrightarrow>
    ct_reach \<lparr>sc_ht = ht, sc_ct = (\<lambda>_. None), sc_software = sw, sc_now = t, sc_log = []\<rparr>"
| reach_step: "ct_reach s \<Longrightarrow> ct_step s s' \<Longrightarrow> ct_reach s'"

section \<open>The invariant\<close>

text \<open>When the \<open>n\<close>th retransmission has been sent, the next one is due this long after the request: intervals that
  double, for requests other than INVITE up to \<open>SIP_T2\<close>.\<close>

definition next_retransmit :: "bool \<Rightarrow> nat \<Rightarrow> nat" where
  "next_retransmit invite n = (if invite \<or> n < 3 then 500 * (2 ^ Suc n - 1) else 4000 * n - 4500)"

definition ct_times :: "nat \<Rightarrow> nat \<Rightarrow> ctrans \<Rightarrow> bool" where
  "ct_times now t0 ct \<longleftrightarrow>
     t0 \<le> now \<and> not_past now (ct_tmr ct) \<and> not_past now (ct_tmre ct) \<and>
     (case ct_state ct of
        CALLING \<Rightarrow> ct_invite ct \<and> ct_tmr ct = Some (t0 + 32000) \<and>
          (\<forall>e. ct_tmre ct = Some e \<longrightarrow> e = t0 + next_retransmit True (unat (ct_txc ct)))
      | TRYING \<Rightarrow> \<not> ct_invite ct \<and> ct_tmr ct = Some (t0 + 32000) \<and>
          (\<forall>e. ct_tmre ct = Some e \<longrightarrow> e = t0 + next_retransmit False (unat (ct_txc ct)))
      | PROCEEDING \<Rightarrow>
          if ct_invite ct then ct_tmre ct = None \<and> (\<forall>e. ct_tmr ct = Some e \<longrightarrow> e \<le> now + 32000)
          else ct_tmr ct = Some (t0 + 32000)
      | COMPLETED \<Rightarrow> ct_tmre ct = None \<and>
          (\<exists>e. ct_tmr ct = Some e \<and> e \<le> (if ct_invite ct then now + 32000 else t0 + 37000)))"

definition ct_ok :: "nat \<Rightarrow> (nat \<times> ct_act) list \<Rightarrow> nat \<Rightarrow> ctrans \<Rightarrow> bool" where
  "ct_ok now log a ct \<longleftrightarrow>
     (\<exists>t0. started a log = Some t0 \<and> ct_times now t0 ct) \<and>
     (if ct_state ct = COMPLETED then closed_answers (answers a log) else open_answers (answers a log))"

definition ct_inv :: "sipc \<Rightarrow> bool" where
  "ct_inv s \<longleftrightarrow>
     hash_ok (sc_ht s) \<and> set (hash_elems (sc_ht s)) = dom (sc_ct s) \<and>
     (\<forall>a ct. sc_ct s a = Some ct \<longrightarrow> ct_ok (sc_now s) (sc_log s) a ct) \<and>
     (\<forall>a. sc_ct s a = None \<longrightarrow> started a (sc_log s) \<noteq> None \<longrightarrow> closed_answers (answers a (sc_log s)))"

text \<open>Log entries of one transaction.\<close>

fun about :: "nat \<Rightarrow> nat \<times> ct_act \<Rightarrow> bool" where
  "about a (t, Created b) = (b = a)"
| "about a (t, Resp b h e m) = (b = a)"
| "about a (t, Sent b tp d m) = (b = a)"

lemma other_step: "about a x \<Longrightarrow> b \<noteq> a \<Longrightarrow> answer_step b xs x = xs \<and> start_step b y x = y"
  by (cases x; cases "snd x") auto

lemma other_log:
  "list_all (about a) es \<Longrightarrow> b \<noteq> a \<Longrightarrow> answers b (log @ es) = answers b log \<and> started b (log @ es) = started b log"
proof (induction es rule: rev_induct)
  case (snoc x es)
  then show ?case using other_step [of a x b] unfolding append_assoc [symmetric] log_simps by simp
qed simp

lemma ct_ok_other:
  "list_all (about a) es \<Longrightarrow> b \<noteq> a \<Longrightarrow> ct_ok now (log @ es) b ct = ct_ok now log b ct"
  by (simp add: ct_ok_def other_log)

lemma inv_upd:
  assumes "ct_inv s" "list_all (about a) es" "ct_ok (sc_now s) (sc_log s @ es) a ct" "a \<in> dom (sc_ct s)"
  shows "ct_inv (s\<lparr>sc_ct := (sc_ct s)(a \<mapsto> ct), sc_log := sc_log s @ es\<rparr>)"
  using assms other_log [OF assms(2)] unfolding ct_inv_def
  by (auto simp: ct_ok_other [OF assms(2)] insert_absorb)

lemma inv_free:
  assumes "ct_inv s" "list_all (about a) es" "closed_answers (answers a (sc_log s @ es))"
  shows "ct_inv (s\<lparr>sc_ht := hash_unlink a (sc_ht s), sc_ct := (sc_ct s)(a := None), sc_log := sc_log s @ es\<rparr>)"
proof -
  have "hash_ok (hash_unlink a (sc_ht s))" "set (hash_elems (hash_unlink a (sc_ht s))) = dom (sc_ct s) - {a}"
    using assms(1) table.remove_inv table.remove_all unfolding ct_inv_def by metis+
  then show ?thesis using assms other_log [OF assms(2)] unfolding ct_inv_def
    by (auto simp: ct_ok_other [OF assms(2)])
qed


text \<open>The end of a transaction: whoever waits for an answer gets one, and it is the last.\<close>

lemma upd_ct_same: "sc_ct s a = Some ct \<Longrightarrow> upd_ct a ct s = s"
  by (simp add: upd_ct_def fun_upd_idem)

lemma ct_invD:
  assumes "ct_inv s" "sc_ct s a = Some ct"
  shows "a \<in> dom (sc_ct s)" "ct_ok (sc_now s) (sc_log s) a ct"
  using assms by (auto simp: ct_inv_def)

lemma final_timeout: "final_answer (e, None)"
  by (simp add: final_answer_def)

lemma terminate_inv:
  assumes "ct_inv s" "sc_ct s a = Some ct" "ct_state ct1 = ct_state ct"
  shows "\<exists>s'. map_option (ct_free a) (terminate a err (upd_ct a ct1 s)) = Some s' \<and> ct_inv s' \<and> sc_ct s' = (sc_ct s)(a := None)"
proof -
  let ?es = "if ct_state ct = COMPLETED then [] else [(sc_now s, Resp a (ct_resph ct1) err None)]"
  let ?s = "s\<lparr>sc_ht := hash_unlink a (sc_ht s), sc_ct := (sc_ct s)(a := None), sc_log := sc_log s @ ?es\<rparr>"
  have "map_option (ct_free a) (terminate a err (upd_ct a ct1 s)) = Some ?s"
    using assms(3) by (cases "ct_state ct") (simp_all add: terminate_def upd_ct_def put_log_def ct_free_def)
  moreover have "closed_answers (answers a (sc_log s @ ?es))"
    using ct_invD(2) [OF assms(1,2)] closed_append final_timeout by (auto simp: ct_ok_def)
  then have "ct_inv ?s" by (intro inv_free assms(1)) simp_all
  ultimately show ?thesis by auto
qed

lemma transport_inv:
  assumes "ct_inv s" "sc_ct s a = Some ct"
  shows "\<exists>s'. transport_handler err a s = Some s' \<and> ct_inv s'"
  using terminate_inv [OF assms refl, of err] upd_ct_same [OF assms(2)] by (auto simp: transport_handler_def)

lemma tmr_inv:
  assumes "ct_inv s" "sc_ct s a = Some ct"
  shows "\<exists>s'. tmr_handler a (upd_ct a (ct\<lparr>ct_tmr := None\<rparr>) s) = Some s' \<and> ct_inv s'"
  using terminate_inv [OF assms, of "ct\<lparr>ct_tmr := None\<rparr>" ETIMEDOUT] by (auto simp: tmr_handler_def)

section \<open>Retransmission\<close>

text \<open>While the timer of the transaction has not fired there have been few retransmissions: the shift is defined and
  gives the interval to the next one.\<close>

lemma pow2_le: "500 * (2 ^ Suc n - 1) \<le> (32000 :: nat) \<Longrightarrow> n < 6"
proof (rule ccontr)
  assume h: "500 * (2 ^ Suc n - 1) \<le> (32000 :: nat)" and "\<not> n < 6"
  then have "(2 :: nat) ^ Suc 6 \<le> 2 ^ Suc n" by (intro power_increasing) simp_all
  then show False using h by simp
qed

lemma next_retransmit_bound: "next_retransmit i n \<le> 32000 \<Longrightarrow> n \<le> 9 \<and> (i \<longrightarrow> n \<le> 5)"
  using pow2_le [of n] by (auto simp: next_retransmit_def split: if_splits)

lemma t1_shl_small: "n \<le> 10 \<Longrightarrow> unat c = n \<Longrightarrow> t1_shl c = Some (500 * 2 ^ n)"
proof -
  assume n: "n \<le> 10" and c: "unat c = n"
  then have "(2 :: nat) ^ n \<le> 2 ^ 10" by (intro power_increasing) simp_all
  then show ?thesis using n c by (simp add: t1_shl_def SIP_T1_def)
qed

lemma next_retransmit_Suc:
  "n \<le> 9 \<Longrightarrow> next_retransmit False n + min 4000 (500 * 2 ^ Suc n) = next_retransmit False (Suc n)"
  "next_retransmit True n + 500 * 2 ^ Suc n = next_retransmit True (Suc n)"
proof -
  show "next_retransmit True n + 500 * 2 ^ Suc n = next_retransmit True (Suc n)"
    by (simp add: next_retransmit_def right_diff_distrib')
next
  assume "n \<le> 9"
  then have "n \<in> {0, 1, 2, 3, 4, 5, 6, 7, 8, 9}" by auto
  then show "next_retransmit False n + min 4000 (500 * 2 ^ Suc n) = next_retransmit False (Suc n)"
    by (auto simp: next_retransmit_def)
qed

lemma retransmit_timeout:
  assumes t: "ct_times now t0 ct" and e: "ct_tmre ct = Some now"
  shows "\<exists>timeout. (case ct_state ct of
       TRYING \<Rightarrow> map_option (min SIP_T2) (t1_shl (ct_txc ct + 1)) | CALLING \<Rightarrow> t1_shl (ct_txc ct + 1) | _ \<Rightarrow> Some SIP_T2) = Some timeout \<and>
     ct_times now t0 (ct\<lparr>ct_txc := ct_txc ct + 1, ct_tmre := Some (now + timeout)\<rparr>)"
proof -
  let ?n = "unat (ct_txc ct)" and ?i = "ct_state ct = CALLING"
  have s: "ct_state ct \<noteq> COMPLETED" using t e by (auto simp: ct_times_def)
  show ?thesis
  proof (cases "ct_state ct = PROCEEDING")
    case True
    then show ?thesis using t e by (auto simp: ct_times_def not_past_def split: if_splits)
  next
    case False
    then have i: "ct_state ct = (if ?i then CALLING else TRYING)" using s by (cases "ct_state ct") auto
    have n: "now = t0 + next_retransmit ?i ?n" "now \<le> t0 + 32000"
      using t e i by (auto simp: ct_times_def not_past_def split: if_splits)
    then have b: "?n \<le> 9" using next_retransmit_bound [of ?i ?n] by simp
    then have u: "unat (ct_txc ct + 1) = Suc ?n" by (simp add: unat_word_ariths)
    have "t1_shl (ct_txc ct + 1) = Some (500 * 2 ^ Suc ?n)" using b u by (intro t1_shl_small) simp_all
    then show ?thesis using t n i b u next_retransmit_Suc [of ?n]
      by (auto simp: ct_times_def not_past_def SIP_T2_def add.assoc split: if_splits)
  qed
qed


lemma retransmit_inv:
  assumes i: "ct_inv s" and a: "sc_ct s a = Some ct" and e: "due (sc_now s) (ct_tmre ct)"
  shows "\<exists>s'. retransmit_handler err a (upd_ct a (ct\<lparr>ct_tmre := None\<rparr>) s) = Some s' \<and> ct_inv s'"
proof -
  obtain t0 where t0: "started a (sc_log s) = Some t0" "ct_times (sc_now s) t0 ct"
    using ct_invD(2) [OF i a] by (auto simp: ct_ok_def)
  have tmre: "ct_tmre ct = Some (sc_now s)"
    using t0(2) e by (auto simp: ct_times_def due_def not_past_def split: option.splits)
  from retransmit_timeout [OF t0(2) this] obtain timeout where
    t: "(case ct_state ct of
       TRYING \<Rightarrow> map_option (min SIP_T2) (t1_shl (ct_txc ct + 1)) | CALLING \<Rightarrow> t1_shl (ct_txc ct + 1) | _ \<Rightarrow> Some SIP_T2) = Some timeout"
    "ct_times (sc_now s) t0 (ct\<lparr>ct_txc := ct_txc ct + 1, ct_tmre := Some (sc_now s + timeout)\<rparr>)" by blast
  have st: "ct_state ct \<noteq> COMPLETED" using t0(2) tmre by (auto simp: ct_times_def)
  let ?ct = "ct\<lparr>ct_txc := ct_txc ct + 1, ct_tmre := Some (sc_now s + timeout)\<rparr>"
  show ?thesis
  proof (cases "err = 0")
    case True
    let ?es = "[(sc_now s, Sent a (ct_tp ct) (ct_dst ct) (ct_mb ct))]"
    have "ct_ok (sc_now s) (sc_log s @ ?es) a ?ct"
      using ct_invD(2) [OF i a] t0(1) t(2) by (auto simp: ct_ok_def)
    then have "ct_inv (s\<lparr>sc_ct := (sc_ct s)(a \<mapsto> ?ct), sc_log := sc_log s @ ?es\<rparr>)"
      by (intro inv_upd i ct_invD(1) [OF i a]) simp_all
    then show ?thesis using True st t(1)
      by (cases "ct_state ct") (auto simp: retransmit_handler_def upd_ct_def put_log_def ct_transp_send_def Let_def)
  next
    case False
    then show ?thesis using terminate_inv [OF i a, of ?ct err] st t(1)
      by (cases "ct_state ct") (auto simp: retransmit_handler_def upd_ct_def ct_transp_send_def Let_def)
  qed
qed

section \<open>Responses\<close>

text \<open>Looking for the transaction of a message never meets a freed object.\<close>

lemma walk_returns:
  "(\<And>x. x \<in> set es \<Longrightarrow> \<exists>b. f x () = Some (b, ())) \<Longrightarrow> \<exists>r. walk f es () = Some (r, ()) \<and> (\<forall>x. r = Some x \<longrightarrow> x \<in> set es)"
proof (induction es)
  case (Cons e es)
  then obtain b where "f e () = Some (b, ())" by auto
  then show ?case using Cons by (cases b) auto
qed simp

lemma lookup_ct:
  assumes "ct_inv s"
  shows "\<exists>r. hash_lookup (Some (sc_ht s)) k (Some (ct_cmp_handler (sc_ct s) msg)) () = Some (r, ()) \<and>
     (\<forall>a. r = Some a \<longrightarrow> sc_ct s a \<noteq> None)"
proof -
  have ok: "hash_ok (sc_ht s)" "set (hash_elems (sc_ht s)) = dom (sc_ct s)" using assms by (simp_all add: ct_inv_def)
  let ?b = "h_bucket (sc_ht s) ! hash_index (sc_ht s) k"
  have sub: "set ?b \<subseteq> dom (sc_ct s)" using hash_index_less [OF ok(1)] ok(2) by (auto simp: hash_elems_def)
  then have "\<exists>b. ct_cmp_handler (sc_ct s) msg x () = Some (b, ())" if "x \<in> set ?b" for x
    using that by (auto simp: ct_cmp_handler_def)
  from walk_returns [of ?b "ct_cmp_handler (sc_ct s) msg", OF this] sub show ?thesis
    by (auto simp: hash_lookup_def bucket_in_range [OF ok(1)])
qed

text \<open>A provisional response, and a final one.\<close>

lemma answer_inv:
  assumes i: "ct_inv s" and a: "sc_ct s a = Some ct" and st: "ct_state ct \<noteq> COMPLETED" "ct_state ca = PROCEEDING"
    and m: "m_scode msg < 200" and t: "\<And>t0. ct_times (sc_now s) t0 ct \<Longrightarrow> ct_times (sc_now s) t0 ca"
  shows "ct_inv (put_log (Resp a h OK (Some msg)) (upd_ct a ca s))"
proof -
  let ?es = "[(sc_now s, Resp a h OK (Some msg))]"
  have "ct_ok (sc_now s) (sc_log s @ ?es) a ca"
    using ct_invD(2) [OF i a] st t m open_append by (auto simp: ct_ok_def final_answer_def)
  then have "ct_inv (s\<lparr>sc_ct := (sc_ct s)(a \<mapsto> ca), sc_log := sc_log s @ ?es\<rparr>)"
    by (intro inv_upd i ct_invD(1) [OF i a]) simp_all
  then show ?thesis by (simp add: put_log_def upd_ct_def)
qed

lemma final_open:
  assumes "ct_inv s" "sc_ct s a = Some ct" "ct_state ct \<noteq> COMPLETED" "\<not> m_scode msg < 200"
  shows "closed_answers (answers a (sc_log s) @ [(OK, Some msg)])"
  using ct_invD(2) [OF assms(1,2)] assms(3,4) by (intro closed_append) (auto simp: ct_ok_def final_answer_def)

lemma final_free_inv:
  assumes i: "ct_inv s" and a: "sc_ct s a = Some ct" "ct_state ct \<noteq> COMPLETED" "\<not> m_scode msg < 200"
  shows "ct_inv (ct_free a (put_log (Resp a h OK (Some msg)) (ct_send a cb mb (upd_ct a ca s))))"
proof -
  let ?es = "(case mb of None \<Rightarrow> [] | Some m \<Rightarrow> [(sc_now s, Sent a (ct_tp cb) (ct_dst cb) m)]) @ [(sc_now s, Resp a h OK (Some msg))]"
  have "answers a (sc_log s @ ?es) = answers a (sc_log s) @ [(OK, Some msg)]"
    unfolding append_assoc [symmetric] log_simps by (cases mb) simp_all
  then have "closed_answers (answers a (sc_log s @ ?es))" using final_open [OF i a] by (simp only:)
  moreover have "list_all (about a) ?es" by (cases mb) simp_all
  ultimately have "ct_inv (s\<lparr>sc_ht := hash_unlink a (sc_ht s), sc_ct := (sc_ct s)(a := None), sc_log := sc_log s @ ?es\<rparr>)"
    by (intro inv_free i)
  then show ?thesis by (cases s; cases mb) (simp_all add: ct_free_def put_log_def ct_send_def upd_ct_def)
qed

lemma final_wait_inv:
  assumes i: "ct_inv s" and a: "sc_ct s a = Some ct" "ct_state ct \<noteq> COMPLETED" "\<not> m_scode msg < 200"
    and cd: "ct_state cd = COMPLETED" "\<And>t0. ct_times (sc_now s) t0 ct \<Longrightarrow> ct_times (sc_now s) t0 cd"
  shows "ct_inv (upd_ct a cd (put_log (Resp a h OK (Some msg)) (ct_send a cb mb (upd_ct a ca s))))"
proof -
  let ?es = "(case mb of None \<Rightarrow> [] | Some m \<Rightarrow> [(sc_now s, Sent a (ct_tp cb) (ct_dst cb) m)]) @ [(sc_now s, Resp a h OK (Some msg))]"
  have l: "answers a (sc_log s @ ?es) = answers a (sc_log s) @ [(OK, Some msg)]" "started a (sc_log s @ ?es) = started a (sc_log s)"
    unfolding append_assoc [symmetric] log_simps by (cases mb; simp)+
  have "ct_ok (sc_now s) (sc_log s @ ?es) a cd"
    unfolding ct_ok_def l using final_open [OF i a] ct_invD(2) [OF i a(1)] cd by (auto simp: ct_ok_def)
  moreover have "list_all (about a) ?es" by (cases mb) simp_all
  ultimately have "ct_inv (s\<lparr>sc_ct := (sc_ct s)(a \<mapsto> cd), sc_log := sc_log s @ ?es\<rparr>)"
    by (intro inv_upd i ct_invD(1) [OF i a(1)])
  then show ?thesis by (cases s; cases mb) (simp_all add: put_log_def ct_send_def upd_ct_def)
qed

lemma sent_inv:
  assumes i: "ct_inv s" and a: "sc_ct s a = Some ct"
  shows "ct_inv (ct_send a ct2 mb s)"
proof (cases mb)
  case None
  then show ?thesis using i by (simp add: ct_send_def)
next
  case (Some m)
  let ?es = "[(sc_now s, Sent a (ct_tp ct2) (ct_dst ct2) m)]"
  have "ct_ok (sc_now s) (sc_log s @ ?es) a ct" using ct_invD(2) [OF i a] by (simp add: ct_ok_def)
  then have "ct_inv (s\<lparr>sc_ct := (sc_ct s)(a \<mapsto> ct), sc_log := sc_log s @ ?es\<rparr>)"
    by (intro inv_upd i ct_invD(1) [OF i a]) simp_all
  then show ?thesis using Some a by (simp add: ct_send_def put_log_def fun_upd_idem)
qed

lemma request_copy_keeps:
  assumes "request_copy dec k1 k2 sw ct met resp = (err, ct', ack)"
  shows "\<exists>r. ct' = ct\<lparr>ct_req := r\<rparr>"
  using assms by (auto simp: request_copy_def Let_def intro: exI [of _ "ct_req ct"] split: if_splits sum.splits option.splits)

text \<open>The times of an INVITE that has been answered.\<close>

lemma invite_times:
  assumes "ct_times now t0 ct" "ct_invite ct" "ct_state ct \<noteq> COMPLETED"
    and c: "c = (if ct_state ct = CALLING then ct\<lparr>ct_tmr := None, ct_tmre := None\<rparr> else ct)"
  shows "ct_times now t0 (c\<lparr>ct_state := PROCEEDING\<rparr>)"
    "ct_times now t0 (c\<lparr>ct_state := COMPLETED, ct_req := r, ct_mb_ack := ack, ct_tmr := Some (now + COMPLETE_WAIT)\<rparr>)"
  using assms by (cases "ct_state ct"; auto simp: ct_times_def not_past_def COMPLETE_WAIT_def)+

lemma invite_inv:
  assumes i: "ct_inv s" and a: "sc_ct s a = Some ct" and inv: "ct_invite ct"
  shows "\<exists>s'. invite_response dec k1 k2 a msg s = Some s' \<and> ct_inv s'"
proof -
  let ?ct = "if ct_state ct = CALLING then ct\<lparr>ct_tmr := None, ct_tmre := None\<rparr> else ct"
  obtain t0 where t0: "ct_times (sc_now s) t0 ct" using ct_invD(2) [OF i a] by (auto simp: ct_ok_def)
  then have ntr: "ct_state ct \<noteq> TRYING" using inv by (auto simp: ct_times_def)
  show ?thesis
  proof (cases "ct_state ct = COMPLETED")
    case True
    then show ?thesis using a i sent_inv [OF i a] by (auto simp: invite_response_def)
  next
    case False
    then have st: "ct_state ?ct = CALLING \<or> ct_state ?ct = PROCEEDING" using ntr by (cases "ct_state ct") auto
    show ?thesis
    proof (cases "m_scode msg < 200")
      case True
      have "ct_inv (put_log (Resp a (ct_resph ?ct) OK (Some msg)) (upd_ct a (?ct\<lparr>ct_state := PROCEEDING\<rparr>) s))"
        using False inv invite_times(1) [of _ _ ct ?ct] by (intro answer_inv [OF i a] True) simp_all
      then show ?thesis using a True st by (auto simp: invite_response_def Let_def)
    next
      case final: False
      show ?thesis
      proof (cases "m_scode msg < 300")
        case True
        have "ct_inv (ct_free a (put_log (Resp a (ct_resph ?ct) OK (Some msg)) (upd_ct a ?ct s)))"
          using final_free_inv [OF i a False final, where mb = None and ca = ?ct] by (simp add: ct_send_def)
        then show ?thesis using a True final st by (auto simp: invite_response_def Let_def)
      next
        case big: False
        obtain err ct1 ack where rc: "request_copy dec k1 k2 (sc_software s) (?ct\<lparr>ct_state := COMPLETED\<rparr>) ''ACK'' (Some msg) = (err, ct1, ack)"
          by (cases "request_copy dec k1 k2 (sc_software s) (?ct\<lparr>ct_state := COMPLETED\<rparr>) ''ACK'' (Some msg)")
        from request_copy_keeps [OF rc] obtain r where r: "ct1 = ?ct\<lparr>ct_state := COMPLETED, ct_req := r\<rparr>" by blast
        let ?ct2 = "if ack = None then ct1 else ct1\<lparr>ct_mb_ack := ack\<rparr>"
        have f: "ct_inv (ct_free a (put_log (Resp a (ct_resph ?ct2) OK (Some msg)) (ct_send a ?ct2 (ct_mb_ack ?ct2) (upd_ct a ?ct2 s))))"
          by (rule final_free_inv [OF i a False final])
        have "ct_inv (upd_ct a (?ct2\<lparr>ct_tmr := Some (sc_now s + COMPLETE_WAIT)\<rparr>)
            (put_log (Resp a (ct_resph ?ct2) OK (Some msg)) (ct_send a ?ct2 (ct_mb_ack ?ct2) (upd_ct a ?ct2 s))))"
          by (rule final_wait_inv [OF i a False final])
            (use r inv False invite_times(2) [where now = "sc_now s" and ct = ct and c = ?ct and r = r and ack = "ct_mb_ack ?ct2"] in \<open>auto split: if_splits\<close>)
        moreover have "sc_now (put_log x (ct_send a c m (upd_ct a c' s))) = sc_now s" for x c m c'
          by (cases m) (simp_all add: put_log_def ct_send_def upd_ct_def)
        ultimately show ?thesis using f a final big st rc by (auto simp: invite_response_def Let_def)
      qed
    qed
  qed
qed


lemma response_inv:
  assumes i: "ct_inv s"
  shows "\<exists>b s'. response_handler dec k1 k2 msg s = Some (b, s') \<and> ct_inv s'"
proof -
  from lookup_ct [OF i] obtain r where r: "hash_lookup (Some (sc_ht s)) (hash_joaat_pl (m_branch msg))
      (Some (ct_cmp_handler (sc_ct s) msg)) () = Some (r, ())" "\<forall>a. r = Some a \<longrightarrow> sc_ct s a \<noteq> None" by metis
  show ?thesis
  proof (cases r)
    case None
    then show ?thesis using r(1) i by (auto simp: response_handler_def intro: exI [of _ False])
  next
    case (Some a)
    then obtain ct where a: "sc_ct s a = Some ct" using r(2) by auto
    show ?thesis
    proof (cases "ct_invite ct")
      case True
      then show ?thesis using invite_inv [OF i a True, of dec k1 k2 msg] r(1) Some a
        by (auto simp: response_handler_def)
    next
      case False
      obtain t0 where t0: "ct_times (sc_now s) t0 ct" using ct_invD(2) [OF i a] by (auto simp: ct_ok_def)
      show ?thesis
      proof (cases "ct_state ct = COMPLETED \<or> ct_state ct = CALLING")
        case True
        then show ?thesis using r(1) Some a False i by (auto simp: response_handler_def)
      next
        case st: False
        then have st': "ct_state ct \<noteq> COMPLETED" "ct_state ct = TRYING \<or> ct_state ct = PROCEEDING"
          by (cases "ct_state ct"; simp)+
        let ?ct = "ct\<lparr>ct_state := COMPLETED\<rparr>"
        have tm: "ct_times (sc_now s) t0 (?ct\<lparr>ct_tmr := Some (sc_now s + SIP_T4), ct_tmre := None\<rparr>)"
          if "ct_times (sc_now s) t0 ct" for t0
          using that False st' by (auto simp: ct_times_def not_past_def SIP_T4_def)
        have 1: "ct_inv (put_log (Resp a (ct_resph ct) OK (Some msg)) (upd_ct a (ct\<lparr>ct_state := PROCEEDING\<rparr>) s))"
          if "m_scode msg < 200"
          using st' False that by (intro answer_inv [OF i a]) (auto simp: ct_times_def)
        have 2: "ct_inv (ct_free a (put_log (Resp a (ct_resph ct) OK (Some msg)) (upd_ct a ?ct s)))"
          if "\<not> m_scode msg < 200"
          using final_free_inv [OF i a st'(1) that, where mb = None and ca = ?ct] by (simp add: ct_send_def)
        have 3: "ct_inv (upd_ct a (?ct\<lparr>ct_tmr := Some (sc_now s + SIP_T4), ct_tmre := None\<rparr>)
            (put_log (Resp a (ct_resph ct) OK (Some msg)) (upd_ct a ?ct s)))" if "\<not> m_scode msg < 200"
          using final_wait_inv [OF i a st'(1) that, where mb = None and ca = ?ct
              and cd = "?ct\<lparr>ct_tmr := Some (sc_now s + SIP_T4), ct_tmre := None\<rparr>" and h = "ct_resph ct"] tm
          by (simp add: ct_send_def)
        have n: "sc_now (put_log x (upd_ct a c s)) = sc_now s" for x c by (simp add: put_log_def upd_ct_def)
        show ?thesis
          using r(1) Some a False st st' 1 2 3
          by (cases "m_scode msg < 200"; cases "ct_state ct") (auto simp: response_handler_def Let_def n)
      qed
    qed
  qed
qed

section \<open>Requests\<close>

lemma request_inv:
  assumes i: "ct_inv s" and f: "fresh new s"
  shows "\<exists>e r s'. sip_ctrans_request new err tp dst met branch host mb resph s = Some (e, r, s') \<and> ct_inv s'"
proof (cases "dst \<noteq> None \<and> met \<noteq> None \<and> branch \<noteq> None \<and> mb \<noteq> None \<and> new \<noteq> None")
  case False
  then show ?thesis using i by (auto simp: sip_ctrans_request_def split: option.splits)
next
  case True
  then obtain d m b body a where o: "dst = Some d" "met = Some m" "branch = Some b" "mb = Some body" "new = Some a" by auto
  have ht: "hash_ok (sc_ht s)" "set (hash_elems (sc_ht s)) = dom (sc_ct s)" and a: "sc_ct s a = None"
    using i f o(5) by (simp_all add: ct_inv_def fresh_def)
  then have "a \<notin> set (hash_elems (sc_ht s))" by auto
  from table.add_new [OF ht(1) this, of "hash_joaat_str b"] obtain t where t: "hash_add (sc_ht s) (hash_joaat_str b) a = Some t"
    "hash_ok t" "set (hash_elems t) = insert a (set (hash_elems (sc_ht s)))" by blast
  then have h: "hash_append (Some (sc_ht s)) (hash_joaat_str b) (Some a) = Some (Some t)"
    by (auto simp: hash_add_def split: bind_splits)
  let ?ct = "\<lparr>ct_dst = d, ct_tmr = None, ct_tmre = None, ct_mb = body, ct_mb_ack = None, ct_req = None,
     ct_met = m, ct_branch = b, ct_host = host, ct_resph = resph, ct_tp = tp,
     ct_state = (if m = ''INVITE'' then CALLING else TRYING), ct_txc = 0, ct_invite = (m = ''INVITE'')\<rparr>"
  show ?thesis
  proof (cases "err = 0")
    case False
    have "hash_ok (hash_unlink a t)" "set (hash_elems (hash_unlink a t)) = dom (sc_ct s)"
      using table.remove_inv [OF t(2)] table.remove_all [OF t(2)] t(3) ht(2) a by auto
    moreover have "(sc_ct s)(a := None) = sc_ct s" using a by (simp add: fun_upd_idem)
    ultimately have "ct_inv (ct_free a (upd_ct a ?ct (s\<lparr>sc_ht := t\<rparr>)))"
      using i by (simp add: ct_free_def upd_ct_def ct_inv_def)
    then show ?thesis using False o h by (simp add: sip_ctrans_request_def Let_def)
  next
    case True
    let ?ct2 = "?ct\<lparr>ct_tmr := Some (sc_now s + 64 * SIP_T1)\<rparr>"
    let ?ct3 = "if \<not> sip_transp_reliable tp then ?ct2\<lparr>ct_tmre := Some (sc_now s + SIP_T1)\<rparr> else ?ct2"
    let ?es = "[(sc_now s, Created a), (sc_now s, Sent a tp d body)]"
    let ?s = "s\<lparr>sc_ht := t, sc_ct := (sc_ct s)(a \<mapsto> ?ct3), sc_log := sc_log s @ ?es\<rparr>"
    have l: "answers a (sc_log s @ ?es) = []" "started a (sc_log s @ ?es) = Some (sc_now s)"
      by (simp_all add: answers_def started_def)
    have "ct_ok (sc_now s) (sc_log s @ ?es) a ?ct3"
      unfolding ct_ok_def l by (auto simp: ct_times_def not_past_def sip_times next_retransmit_def open_answers_def)
    then have "ct_inv ?s"
      using i t(2,3) ht(2) other_log [where a = a and es = ?es and log = "sc_log s"]
      unfolding ct_inv_def by (auto simp: ct_ok_other [where a = a and es = ?es])
    moreover have "sip_ctrans_request new err tp dst met branch host mb resph s = Some (OK, Some a, ?s)"
      using True o h by (cases s) (simp add: sip_ctrans_request_def Let_def ct_transp_send_def put_log_def upd_ct_def)
    ultimately show ?thesis by blast
  qed
qed

lemma ct_cancel_inv:
  assumes i: "ct_inv s" and f: "fresh new s" and a: "\<And>a. ctp = Some a \<Longrightarrow> sc_ct s a \<noteq> None"
  shows "\<exists>e s'. sip_ctrans_cancel dec k1 k2 k3 new err ctp s = Some (e, s') \<and> ct_inv s'"
proof (cases ctp)
  case None
  then show ?thesis using i by (simp add: sip_ctrans_cancel_def)
next
  case (Some a)
  then obtain ct where ct: "sc_ct s a = Some ct" using assms(3) by auto
  show ?thesis
  proof (cases "ct_invite ct \<and> ct_state ct = PROCEEDING")
    case False
    then show ?thesis using i Some ct by (auto simp: sip_ctrans_cancel_def)
  next
    case True
    have upd: "ct_inv (upd_ct a (ct\<lparr>ct_tmr := Some (sc_now s + 64 * SIP_T1), ct_req := r\<rparr>) s)" for r
    proof -
      have "ct_ok (sc_now s) (sc_log s @ []) a (ct\<lparr>ct_tmr := Some (sc_now s + 64 * SIP_T1), ct_req := r\<rparr>)"
        using ct_invD(2) [OF i ct] True by (auto simp: ct_ok_def ct_times_def not_past_def SIP_T1_def)
      from inv_upd [OF i _ this ct_invD(1) [OF i ct]] show ?thesis by (simp add: upd_ct_def)
    qed
    let ?ct = "ct\<lparr>ct_tmr := Some (sc_now s + 64 * SIP_T1)\<rparr>"
    have upd0: "ct_inv (upd_ct a ?ct s)" using upd [of "ct_req ct"] by simp
    obtain e ct1 mb where rc: "request_copy dec k2 k3 (sc_software s) ?ct ''CANCEL'' None = (e, ct1, mb)"
      by (cases "request_copy dec k2 k3 (sc_software s) ?ct ''CANCEL'' None")
    from request_copy_keeps [OF rc] obtain r where r: "ct1 = ?ct\<lparr>ct_req := r\<rparr>" by blast
    let ?s = "upd_ct a ct1 s"
    have si: "ct_inv ?s" using upd r by simp
    have "fresh new ?s" using f ct by (auto simp: fresh_def upd_ct_def split: option.splits)
    from request_inv [OF si this] obtain e2 r2 s2 where
      "sip_ctrans_request new err (ct_tp ct1) (Some (ct_dst ct1)) (Some ''CANCEL'') (Some (ct_branch ct1)) None mb None ?s
        = Some (e2, r2, s2)" "ct_inv s2" by metis
    moreover have "upd_ct a ct1 (upd_ct a ?ct s) = ?s" by (simp add: upd_ct_def)
    moreover have "sc_software (upd_ct a ?ct s) = sc_software s" by (simp add: upd_ct_def)
    ultimately show ?thesis using Some ct True upd0 si rc by (auto simp: sip_ctrans_cancel_def Let_def)
  qed
qed

section \<open>Time\<close>

lemma time_inv:
  assumes i: "ct_inv s" and t: "sc_now s \<le> now"
    "\<And>a ct. sc_ct s a = Some ct \<Longrightarrow> not_past now (ct_tmr ct) \<and> not_past now (ct_tmre ct)"
  shows "ct_inv (s\<lparr>sc_now := now\<rparr>)"
proof -
  have "ct_times now t0 ct" if "ct_times (sc_now s) t0 ct" "not_past now (ct_tmr ct)" "not_past now (ct_tmre ct)" for t0 ct
    using that t(1) by (cases "ct_state ct") (auto simp: ct_times_def intro: le_trans split: if_splits)
  then have "ct_ok now (sc_log s) a ct" if "sc_ct s a = Some ct" for a ct
    using ct_invD(2) [OF i that] t(2) [OF that] by (auto simp: ct_ok_def)
  then show ?thesis using i by (simp add: ct_inv_def)
qed

lemma ct_step_inv: "ct_step s s' \<Longrightarrow> ct_inv s \<Longrightarrow> ct_inv s'"
proof (induction rule: ct_step.induct)
  case (step_response dec k1 k2 msg s b s')
  then show ?case using response_inv [OF step_response(2), of dec k1 k2 msg] by auto
next
  case (step_request new s err tp dst met branch host mb resph e a s')
  then show ?case using request_inv [OF step_request(3,1), of err tp dst met branch host mb resph] by auto
next
  case (step_cancel new s dec k1 k2 k3 err ctp e s')
  have "ctp = Some a \<Longrightarrow> sc_ct s a \<noteq> None" for a
    using step_cancel(2) by (cases "sc_ct s a") (simp_all add: sip_ctrans_cancel_def)
  from ct_cancel_inv [where ctp = ctp, OF step_cancel(3,1) this, of dec k1 k2 k3 err] show ?case using step_cancel(2) by auto
next
  case (step_transport err a s s')
  then obtain ct where "sc_ct s a = Some ct" by (auto simp: transport_handler_def terminate_def split: bind_splits)
  from transport_inv [OF step_transport(2) this, of err] show ?case using step_transport(1) by auto
next
  case (step_tmr s a ct s')
  then show ?case using tmr_inv [OF step_tmr(4,1)] by auto
next
  case (step_tmre s a ct err s')
  then show ?case using retransmit_inv [OF step_tmre(4,1,2), of err] by auto
next
  case (step_time s now)
  then show ?case using time_inv by blast
qed

lemma ct_reach_inv: "ct_reach s \<Longrightarrow> ct_inv s"
proof (induction rule: ct_reach.induct)
  case (reach_init ht sw t)
  have h: "hash_alloc True True (\<lambda>_. True) 32 = (OK, Some ht)" using reach_init by (simp add: sip_ctrans_init_def)
  have b: "h_bucket ht = replicate (unat (32 :: u32)) []" "h_bsize ht = 32"
    using hash_alloc_result [OF h] small_array [of 32] by simp_all
  then have "hash_ok ht" "hash_elems ht = []" by (simp_all add: hash_ok_def hash_elems_def)
  then show ?case by (simp add: ct_inv_def started_def)
next
  case (reach_step s s')
  then show ?case using ct_step_inv by blast
qed

section \<open>What a client transaction promises\<close>

text \<open>C21: Along every run, a transaction that has been started calls its response handler with provisional responses
  only while it is open, and exactly once with a final answer, a final response, a timeout or a transport error, before
  it is freed; after the final answer the handler is not called again.\<close>
theorem ctrans_answered_once:
  assumes "ct_reach s" "started a (sc_log s) \<noteq> None"
  shows "if (case sc_ct s a of None \<Rightarrow> True | Some ct \<Rightarrow> ct_state ct = COMPLETED)
         then closed_answers (answers a (sc_log s)) else open_answers (answers a (sc_log s))"
  using ct_reach_inv [OF assms(1)] assms(2) by (auto simp: ct_inv_def ct_ok_def split: option.splits)

text \<open>C22: Along every run in which timers are run when they are due, a transaction for a request other than INVITE is over
  after at most 37 s, an INVITE that got no response after 32 s, and one that got a final response 32 s after it.  An INVITE
  that got a provisional response only has no such timer and may last for ever.  On the way no operation has undefined
  behaviour, neither the handlers of responses and timers nor starting another request and cancelling this one: the shift for
  the interval of the retransmissions stays in range.\<close>
theorem ctrans_ends_in_time:
  assumes "ct_reach s" "sc_ct s a = Some ct"
  shows "\<exists>t0. started a (sc_log s) = Some t0 \<and>
     (if ct_invite ct then (ct_state ct = CALLING \<longrightarrow> sc_now s \<le> t0 + 32000) else sc_now s \<le> t0 + 37000) \<and>
     (\<not> (ct_invite ct \<and> ct_state ct = PROCEEDING) \<longrightarrow> (\<exists>e. ct_tmr ct = Some e \<and> sc_now s \<le> e \<and> e \<le> sc_now s + 37000)) \<and>
     response_handler dec k1 k2 msg s \<noteq> None \<and>
     (due (sc_now s) (ct_tmre ct) \<longrightarrow> retransmit_handler err a (upd_ct a (ct\<lparr>ct_tmre := None\<rparr>) s) \<noteq> None) \<and>
     (due (sc_now s) (ct_tmr ct) \<longrightarrow> tmr_handler a (upd_ct a (ct\<lparr>ct_tmr := None\<rparr>) s) \<noteq> None) \<and>
     (fresh new s \<longrightarrow> sip_ctrans_request new err tp dst met branch host mb resph s \<noteq> None \<and>
        sip_ctrans_cancel dec k1 k2 k3 new err (Some a) s \<noteq> None)"
proof -
  have i: "ct_inv s" by (rule ct_reach_inv [OF assms(1)])
  obtain t0 where t0: "started a (sc_log s) = Some t0" "ct_times (sc_now s) t0 ct"
    using ct_invD(2) [OF i assms(2)] by (auto simp: ct_ok_def)
  have "if ct_invite ct then (ct_state ct = CALLING \<longrightarrow> sc_now s \<le> t0 + 32000) else sc_now s \<le> t0 + 37000"
    using t0(2) by (cases "ct_state ct") (auto simp: ct_times_def not_past_def)
  moreover have "\<not> (ct_invite ct \<and> ct_state ct = PROCEEDING) \<longrightarrow> (\<exists>e. ct_tmr ct = Some e \<and> sc_now s \<le> e \<and> e \<le> sc_now s + 37000)"
    using t0(2) by (cases "ct_state ct") (auto simp: ct_times_def not_past_def split: if_splits)
  ultimately show ?thesis
    using t0(1) response_inv [OF i, of dec k1 k2 msg] retransmit_inv [OF i assms(2), of err] tmr_inv [OF i assms(2)]
      request_inv [OF i, of new err tp dst met branch host mb resph] ct_cancel_inv [OF i, of new "Some a" dec k1 k2 k3 err] assms(2)
    by auto
qed

text \<open>The timers of a transaction run by themselves: the earlier of the two, the one of the transaction first when they
  are equal, as it was started first.\<close>

definition fire_tmr :: "nat \<Rightarrow> ctrans \<Rightarrow> nat \<Rightarrow> sipc \<Rightarrow> sipc option" where
  "fire_tmr a ct e s = tmr_handler a (upd_ct a (ct\<lparr>ct_tmr := None\<rparr>) (s\<lparr>sc_now := e\<rparr>))"

definition fire_tmre :: "nat \<Rightarrow> ctrans \<Rightarrow> nat \<Rightarrow> sipc \<Rightarrow> sipc option" where
  "fire_tmre a ct e s = retransmit_handler 0 a (upd_ct a (ct\<lparr>ct_tmre := None\<rparr>) (s\<lparr>sc_now := e\<rparr>))"

fun run_timers :: "nat \<Rightarrow> nat \<Rightarrow> sipc \<Rightarrow> sipc option" where
  "run_timers 0 a s = Some s"
| "run_timers (Suc n) a s =
     (case sc_ct s a of
        None \<Rightarrow> Some s
      | Some ct \<Rightarrow>
          (case (ct_tmr ct, ct_tmre ct) of
             (Some e, Some r) \<Rightarrow>
               Option.bind (if r < e then fire_tmre a ct r s else fire_tmr a ct e s) (run_timers n a)
           | (Some e, None) \<Rightarrow> Option.bind (fire_tmr a ct e s) (run_timers n a)
           | (None, Some r) \<Rightarrow> Option.bind (fire_tmre a ct r s) (run_timers n a)
           | (None, None) \<Rightarrow> Some s))"

text \<open>A transaction that waits for its first response.\<close>

definition waiting :: "sipc \<Rightarrow> nat \<Rightarrow> ctrans \<Rightarrow> nat \<Rightarrow> nat \<Rightarrow> u32 \<Rightarrow> nat \<Rightarrow> (nat \<times> ct_act) list \<Rightarrow> sipc" where
  "waiting s a ct e r c now log =
     s\<lparr>sc_ct := (sc_ct s)(a \<mapsto> ct\<lparr>ct_tmr := Some e, ct_tmre := Some r, ct_txc := c\<rparr>), sc_now := now, sc_log := log\<rparr>"

lemma waiting_retransmits:
  assumes "r < e" "if ct_state ct = CALLING then t1_shl (c + 1) = Some t
                   else ct_state ct = TRYING \<and> map_option (min SIP_T2) (t1_shl (c + 1)) = Some t"
  shows "run_timers (Suc n) a (waiting s a ct e r c now log) =
     run_timers n a (waiting s a ct e (r + t) (c + 1) r (log @ [(r, Sent a (ct_tp ct) (ct_dst ct) (ct_mb ct))]))"
proof -
  have "retransmit_handler 0 a (upd_ct a (ct\<lparr>ct_tmr := Some e, ct_txc := c, ct_tmre := None\<rparr>) (waiting s a ct e r c r log)) =
     Some (waiting s a ct e (r + t) (c + 1) r (log @ [(r, Sent a (ct_tp ct) (ct_dst ct) (ct_mb ct))]))"
    using assms(2) by (cases "ct_state ct"; cases s; cases ct)
      (auto simp: retransmit_handler_def upd_ct_def put_log_def ct_transp_send_def waiting_def Let_def)
  moreover have "(waiting s a ct e r c now log)\<lparr>sc_now := r\<rparr> = waiting s a ct e r c r log"
    by (cases s) (simp add: waiting_def)
  moreover have "sc_ct (waiting s a ct e r c now log) a = Some (ct\<lparr>ct_tmr := Some e, ct_tmre := Some r, ct_txc := c\<rparr>)"
    by (simp add: waiting_def)
  ultimately show ?thesis using assms(1) by (simp add: fire_tmre_def)
qed

lemma waiting_gives_up:
  assumes "e \<le> r" "ct_state ct = CALLING \<or> ct_state ct = TRYING"
  shows "\<exists>s'. run_timers (Suc n) a (waiting s a ct e r c now log) = Some s' \<and> sc_ct s' a = None \<and>
     sc_log s' = log @ [(e, Resp a (ct_resph ct) ETIMEDOUT None)]"
proof -
  let ?s = "s\<lparr>sc_ht := hash_unlink a (sc_ht s), sc_ct := (sc_ct s)(a := None), sc_now := e,
      sc_log := log @ [(e, Resp a (ct_resph ct) ETIMEDOUT None)]\<rparr>"
  have "tmr_handler a (upd_ct a (ct\<lparr>ct_tmre := Some r, ct_txc := c, ct_tmr := None\<rparr>) (waiting s a ct e r c e log)) = Some ?s"
    using assms(2) by (cases "ct_state ct"; cases s)
      (auto simp: tmr_handler_def terminate_def upd_ct_def put_log_def ct_free_def waiting_def)
  moreover have "(waiting s a ct e r c now log)\<lparr>sc_now := e\<rparr> = waiting s a ct e r c e log"
    by (cases s) (simp add: waiting_def)
  moreover have "sc_ct (waiting s a ct e r c now log) a = Some (ct\<lparr>ct_tmr := Some e, ct_tmre := Some r, ct_txc := c\<rparr>)"
    by (simp add: waiting_def)
  moreover have "run_timers n a ?s = Some ?s" by (cases n) simp_all
  ultimately show ?thesis using assms(1) by (auto simp: fire_tmr_def)
qed

lemma t1_shl_values:
  "t1_shl 1 = Some 1000" "t1_shl 2 = Some 2000" "t1_shl 3 = Some 4000" "t1_shl 4 = Some 8000" "t1_shl 5 = Some 16000"
  "t1_shl 6 = Some 32000" "t1_shl 7 = Some 64000" "t1_shl 8 = Some 128000" "t1_shl 9 = Some 256000" "t1_shl 10 = Some 512000"
  by (simp_all add: t1_shl_def SIP_T1_def)

lemma request_waits:
  assumes "sip_ctrans_request (Some a) 0 SIP_TRANSP_UDP (Some d) (Some met) (Some b) host (Some m) resph s = Some (OK, Some a, s1)"
  shows "\<exists>ct t. s1 = waiting (s\<lparr>sc_ht := t\<rparr>) a ct (sc_now s + 32000) (sc_now s + 500) 0 (sc_now s)
       (sc_log s @ [(sc_now s, Created a), (sc_now s, Sent a SIP_TRANSP_UDP d m)]) \<and>
     ct_state ct = (if met = ''INVITE'' then CALLING else TRYING) \<and> ct_tp ct = SIP_TRANSP_UDP \<and> ct_dst ct = d \<and> ct_mb ct = m \<and>
     ct_resph ct = resph"
proof -
  let ?ct = "\<lparr>ct_dst = d, ct_tmr = None, ct_tmre = None, ct_mb = m, ct_mb_ack = None, ct_req = None,
     ct_met = met, ct_branch = b, ct_host = host, ct_resph = resph, ct_tp = SIP_TRANSP_UDP,
     ct_state = (if met = ''INVITE'' then CALLING else TRYING), ct_txc = 0, ct_invite = (met = ''INVITE'')\<rparr>"
  obtain t where "hash_append (Some (sc_ht s)) (hash_joaat_str b) (Some a) = Some (Some t)"
    using assms by (auto simp: sip_ctrans_request_def Let_def split: bind_splits)
  then show ?thesis using assms
    by (intro exI [of _ ?ct] exI [of _ t], cases s)
      (auto simp: sip_ctrans_request_def Let_def ct_transp_send_def put_log_def upd_ct_def waiting_def sip_transp_reliable_def SIP_T1_def)
qed

text \<open>Over UDP a request that nobody answers is sent at intervals that double from 500 ms, an INVITE 7 times, any other
  request, whose intervals are at most 4 s, 11 times; after 32 s the handler is told of the timeout and the transaction
  is gone.\<close>
theorem ctrans_schedule:
  assumes "sip_ctrans_request (Some a) 0 SIP_TRANSP_UDP (Some d) (Some met) (Some b) host (Some m) resph s = Some (OK, Some a, s1)"
  shows "\<exists>s'. run_timers 11 a s1 = Some s' \<and> sc_ct s' a = None \<and>
     sc_log s' = sc_log s @ (sc_now s, Created a) #
       map (\<lambda>t. (sc_now s + t, Sent a SIP_TRANSP_UDP d m))
         (if met = ''INVITE'' then [0, 500, 1500, 3500, 7500, 15500, 31500]
          else [0, 500, 1500, 3500, 7500, 11500, 15500, 19500, 23500, 27500, 31500]) @
       [(sc_now s + 32000, Resp a resph ETIMEDOUT None)]"
proof -
  obtain ct t where w: "s1 = waiting (s\<lparr>sc_ht := t\<rparr>) a ct (sc_now s + 32000) (sc_now s + 500) 0 (sc_now s)
       (sc_log s @ [(sc_now s, Created a), (sc_now s, Sent a SIP_TRANSP_UDP d m)])"
    "ct_state ct = (if met = ''INVITE'' then CALLING else TRYING)" "ct_tp ct = SIP_TRANSP_UDP" "ct_dst ct = d" "ct_mb ct = m"
    "ct_resph ct = resph" using request_waits [OF assms] by blast
  note r = waiting_retransmits [where s = "s\<lparr>sc_ht := t\<rparr>" and a = a and ct = ct and e = "32000 + sc_now s"]
    and c = add.commute [of "sc_now s"]
  have k: "run_timers 11 = run_timers (Suc (Suc (Suc (Suc (Suc (Suc (Suc (Suc (Suc (Suc (Suc 0)))))))))))"
    by (simp add: numeral_eq_Suc)
  let ?l = "\<lambda>ts. sc_log s @ (sc_now s, Created a) # map (\<lambda>t. (sc_now s + t, Sent a SIP_TRANSP_UDP d m)) ts"
  have "\<exists>n r c now. run_timers 11 a s1 = run_timers (Suc n) a (waiting (s\<lparr>sc_ht := t\<rparr>) a ct (32000 + sc_now s) r c now
     (?l (if met = ''INVITE'' then [0, 500, 1500, 3500, 7500, 15500, 31500]
          else [0, 500, 1500, 3500, 7500, 11500, 15500, 19500, 23500, 27500, 31500]))) \<and> 32000 + sc_now s \<le> r"
  proof (cases "met = ''INVITE''")
    case True
    show ?thesis unfolding k
      by (rule exI [of _ "Suc (Suc (Suc (Suc 0)))"], rule exI [of _ "63500 + sc_now s"], rule exI [of _ 6], rule exI [of _ "31500 + sc_now s"])
        (use w True in \<open>simp add: r t1_shl_values c del: run_timers.simps\<close>)
  next
    case False
    show ?thesis unfolding k
      by (rule exI [of _ 0], rule exI [of _ "35500 + sc_now s"], rule exI [of _ 10], rule exI [of _ "31500 + sc_now s"])
        (use w False in \<open>simp add: r t1_shl_values c SIP_T2_def del: run_timers.simps\<close>)
  qed
  then obtain n r c now where q: "run_timers 11 a s1 = run_timers (Suc n) a (waiting (s\<lparr>sc_ht := t\<rparr>) a ct (32000 + sc_now s) r c now
     (?l (if met = ''INVITE'' then [0, 500, 1500, 3500, 7500, 15500, 31500]
          else [0, 500, 1500, 3500, 7500, 11500, 15500, 19500, 23500, 27500, 31500])))" "32000 + sc_now s \<le> r" by blast
  have st: "ct_state ct = CALLING \<or> ct_state ct = TRYING" using w(2) by simp
  let ?log = "?l (if met = ''INVITE'' then [0, 500, 1500, 3500, 7500, 15500, 31500]
          else [0, 500, 1500, 3500, 7500, 11500, 15500, 19500, 23500, 27500, 31500])"
  obtain s' where "run_timers (Suc n) a (waiting (s\<lparr>sc_ht := t\<rparr>) a ct (32000 + sc_now s) r c now ?log) = Some s'"
    "sc_ct s' a = None" "sc_log s' = ?log @ [(32000 + sc_now s, Resp a (ct_resph ct) ETIMEDOUT None)]"
    using waiting_gives_up [OF q(2) st, where n = n and a = a and s = "s\<lparr>sc_ht := t\<rparr>" and c = c and now = now and log = ?log] by blast
  then show ?thesis unfolding q(1) by (intro exI [of _ s'] conjI) (simp_all add: w(6) c)
qed

section \<open>Concrete runs\<close>

lemma request_succeeds:
  assumes "ct_inv s" "sc_ct s a = None"
  shows "\<exists>s'. sip_ctrans_request (Some a) 0 tp (Some d) (Some met) (Some b) host (Some m) resph s = Some (OK, Some a, s') \<and>
     (\<exists>ct. sc_ct s' a = Some ct \<and> ct_state ct = (if met = ''INVITE'' then CALLING else TRYING) \<and> ct_invite ct = (met = ''INVITE'')) \<and>
     started a (sc_log s') = Some (sc_now s)"
proof -
  have "fresh (Some a) s" using assms(2) by (simp add: fresh_def)
  from request_inv [OF assms(1) this, of 0 tp "Some d" "Some met" "Some b" host "Some m" resph]
  obtain e r s' where r: "sip_ctrans_request (Some a) 0 tp (Some d) (Some met) (Some b) host (Some m) resph s = Some (e, r, s')"
    by blast
  then have "e = OK \<and> r = Some a \<and>
     (\<exists>ct. sc_ct s' a = Some ct \<and> ct_state ct = (if met = ''INVITE'' then CALLING else TRYING) \<and> ct_invite ct = (met = ''INVITE'')) \<and>
     started a (sc_log s') = Some (sc_now s)"
    by (auto simp: sip_ctrans_request_def Let_def ct_transp_send_def put_log_def upd_ct_def started_def split: bind_splits if_splits)
  then show ?thesis using r by blast
qed

definition ct_start :: sipc where
  "ct_start = \<lparr>sc_ht = \<lparr>h_bucket = replicate 32 [], h_bsize = 32\<rparr>, sc_ct = (\<lambda>_. None), sc_software = None,
     sc_now = 7, sc_log = []\<rparr>"

lemma ct_start_reach: "ct_reach ct_start"
proof -
  have h: "hash_alloc True True (\<lambda>_. True) 32 = (OK, Some \<lparr>h_bucket = replicate 32 [], h_bsize = 32\<rparr>)"
    by (simp add: hash_alloc_def SIZEOF_LIST_def)
  from reach_init [of _ None 7] show ?thesis by (simp add: sip_ctrans_init_def ct_start_def h)
qed

lemma ct_started_reach:
  "\<exists>s. sip_ctrans_request (Some 1) 0 SIP_TRANSP_UDP (Some ''sip.invalid'') (Some ''INVITE'') (Some ''z9hG4bK1'') None
     (Some ''INVITE'') (Some 2) ct_start = Some (OK, Some 1, s) \<and> ct_reach s \<and>
     (\<exists>ct. sc_ct s 1 = Some ct \<and> ct_state ct = CALLING \<and> ct_invite ct) \<and> started 1 (sc_log s) = Some 7"
proof -
  have n: "sc_ct ct_start 1 = None" "sc_now ct_start = 7" by (simp_all add: ct_start_def)
  have "fresh (Some 1) ct_start" using n by (simp add: fresh_def)
  note q = request_succeeds [OF ct_reach_inv [OF ct_start_reach] n(1), of SIP_TRANSP_UDP "''sip.invalid''" "''INVITE''"
      "''z9hG4bK1''" None "''INVITE''" "Some 2"] step_request [OF this] reach_step [OF ct_start_reach]
  obtain s where "sip_ctrans_request (Some 1) 0 SIP_TRANSP_UDP (Some ''sip.invalid'') (Some ''INVITE'') (Some ''z9hG4bK1'') None
     (Some ''INVITE'') (Some 2) ct_start = Some (OK, Some 1, s)" "started 1 (sc_log s) = Some 7"
    "\<exists>ct. sc_ct s 1 = Some ct \<and> ct_state ct = CALLING \<and> ct_invite ct"
    using q(1) unfolding n(2) by auto
  moreover from this q(2,3) have "ct_reach s" by blast
  ultimately show ?thesis by blast
qed

lemma ctrans_answered_once_witness:
  "\<exists>s. ct_reach s \<and> started 1 (sc_log s) = Some 7 \<and>
     (if (case sc_ct s 1 of None \<Rightarrow> True | Some ct \<Rightarrow> ct_state ct = COMPLETED)
      then closed_answers (answers 1 (sc_log s)) else open_answers (answers 1 (sc_log s)))"
proof -
  obtain s where "ct_reach s" "started 1 (sc_log s) = Some 7" using ct_started_reach by blast
  with ctrans_answered_once [OF this(1), of 1] show ?thesis by auto
qed

lemma ctrans_ends_in_time_witness:
  "\<exists>s ct e. ct_reach s \<and> sc_ct s 1 = Some ct \<and> ct_state ct = CALLING \<and> sc_now s \<le> 32007 \<and> ct_tmr ct = Some e \<and>
     e \<le> sc_now s + 37000"
proof -
  obtain s ct where s: "ct_reach s" "sc_ct s 1 = Some ct" "started 1 (sc_log s) = Some 7" "ct_state ct = CALLING" "ct_invite ct"
    using ct_started_reach by blast
  from ctrans_ends_in_time [OF s(1,2), of "\<lambda>_. Inl EBADMSG" True True undefined 0 None SIP_TRANSP_UDP None None None None None None True] s
  obtain e where "sc_now s \<le> 32007" "ct_tmr ct = Some e" "e \<le> sc_now s + 37000" by auto
  with s show ?thesis by blast
qed

lemma ctrans_schedule_witness:
  "\<exists>s1 s'. sip_ctrans_request (Some 1) 0 SIP_TRANSP_UDP (Some ''sip.invalid'') (Some ''INVITE'') (Some ''z9hG4bK1'') None
     (Some ''INVITE'') (Some 2) ct_start = Some (OK, Some 1, s1) \<and> run_timers 11 1 s1 = Some s' \<and> sc_ct s' 1 = None \<and>
     map fst (sc_log s') = [7, 7, 507, 1507, 3507, 7507, 15507, 31507, 32007]"
proof -
  obtain s1 where s: "sip_ctrans_request (Some 1) 0 SIP_TRANSP_UDP (Some ''sip.invalid'') (Some ''INVITE'') (Some ''z9hG4bK1'') None
     (Some ''INVITE'') (Some 2) ct_start = Some (OK, Some 1, s1)" using ct_started_reach by blast
  have n: "sc_now ct_start = 7" "sc_log ct_start = []" by (simp_all add: ct_start_def)
  from ctrans_schedule [OF s] obtain s' where "run_timers 11 1 s1 = Some s'" "sc_ct s' 1 = None"
    "map fst (sc_log s') = [7, 7, 507, 1507, 3507, 7507, 15507, 31507, 32007]" unfolding n by auto
  with s show ?thesis by (intro exI conjI)
qed

end
