(* ===== verification/Sip_Strans.thy ===== *)
theory Sip_Strans
  imports Sip_Msg "HOL-Library.Monad_Syntax"
begin

text \<open>
  SIP server transactions (\<open>native/re/src/sip/strans.c\<close>): a request that was received is kept with the last response
  to it, so that retransmissions of the request are answered and do not reach the application again.  A transaction is
  filed twice: under its branch, and under its Call-ID to find merged requests.  As for the client transactions the
  objects are in a store, a timer is its expiry, and what leaves the transaction layer is appended to a log: messages
  sent, replies outside a transaction, and the calls of the cancel handler.  The result \<open>None\<close> of an operation is an
  access to a freed object or an undefined shift.
\<close>

section \<open>State\<close>

datatype strans_state = S_TRYING | S_PROCEEDING | S_ACCEPTED | S_COMPLETED | S_CONFIRMED

record strans =
  st_tmr :: "nat option"
  st_tmrg :: "nat option"
  st_dst :: string
  st_msg :: sip_msg
  st_mb :: "string option"
  st_cancelh :: "nat option"
  st_state :: strans_state
  st_txc :: u32
  st_invite :: bool

datatype st_act =
    St_sent nat sip_transp string "string option"
  | St_reply sip_msg u16 string
  | St_cancel nat "nat option"

record sips =
  sv_ht :: "nat hash"
  sv_mrg :: "nat hash"
  sv_st :: "nat \<Rightarrow> strans option"
  sv_now :: nat
  sv_log :: "(nat \<times> st_act) list"

definition st_put :: "st_act \<Rightarrow> sips \<Rightarrow> sips" where
  "st_put x s = s\<lparr>sv_log := sv_log s @ [(sv_now s, x)]\<rparr>"

definition upd_st :: "nat \<Rightarrow> strans \<Rightarrow> sips \<Rightarrow> sips" where
  "upd_st a st s = s\<lparr>sv_st := (sv_st s)(a \<mapsto> st)\<rparr>"

text \<open>\<open>mem_deref\<close> of a transaction runs its destructor.\<close>

definition st_free :: "nat \<Rightarrow> sips \<Rightarrow> sips" where
  "st_free a s = s\<lparr>sv_ht := hash_unlink a (sv_ht s), sv_mrg := hash_unlink a (sv_mrg s), sv_st := (sv_st s)(a := None)\<rparr>"

section \<open>Finding a transaction\<close>

definition strans_cmp :: "sip_msg \<Rightarrow> sip_msg \<Rightarrow> bool" where
  "strans_cmp msg1 msg2 =
     (if m_branch msg1 \<noteq> m_branch msg2 then False
      else if m_sentby msg1 \<noteq> m_sentby msg2 then False
      else True)"

definition st_cmp :: "sip_msg \<Rightarrow> strans \<Rightarrow> bool" where
  "st_cmp msg st =
     (if \<not> strans_cmp (st_msg st) msg then False
      else if m_cseq_met (st_msg st) \<noteq> m_cseq_met msg then False
      else True)"

definition st_cmp_ack :: "sip_msg \<Rightarrow> strans \<Rightarrow> bool" where
  "st_cmp_ack msg st =
     (if \<not> strans_cmp (st_msg st) msg then False
      else if m_cseq_met (st_msg st) \<noteq> ''INVITE'' then False
      else True)"

definition st_cmp_cancel :: "sip_msg \<Rightarrow> strans \<Rightarrow> bool" where
  "st_cmp_cancel msg st =
     (if \<not> strans_cmp (st_msg st) msg then False
      else if m_cseq_met (st_msg st) = ''CANCEL'' then False
      else True)"

definition st_cmp_merge :: "sip_msg \<Rightarrow> strans \<Rightarrow> bool" where
  "st_cmp_merge msg st =
     (if m_cseq_met (st_msg st) \<noteq> m_cseq_met msg then False
      else if m_cseq_num (st_msg st) \<noteq> m_cseq_num msg then False
      else if m_callid (st_msg st) \<noteq> m_callid msg then False
      else if m_from_tag (st_msg st) \<noteq> m_from_tag msg then False
      else if m_ruri (st_msg st) \<noteq> m_ruri msg then False
      else True)"

definition st_handler :: "(nat \<Rightarrow> strans option) \<Rightarrow> (strans \<Rightarrow> bool) \<Rightarrow> (nat, unit) apply_h" where
  "st_handler store p a u = do { st \<leftarrow> store a; Some (p st, u) }"

definition st_lookup :: "nat hash \<Rightarrow> string \<Rightarrow> (strans \<Rightarrow> bool) \<Rightarrow> sips \<Rightarrow> nat option option" where
  "st_lookup ht key p s = map_option fst (hash_lookup (Some ht) (hash_joaat_pl key) (Some (st_handler (sv_st s) p)) ())"

section \<open>Timers\<close>

definition st_tmr_handler :: "nat \<Rightarrow> sips \<Rightarrow> sips" where
  "st_tmr_handler a s = st_free a s"

text \<open>The result of \<open>sip_send\<close> is not used.\<close>

definition st_retransmit_handler :: "nat \<Rightarrow> sips \<Rightarrow> sips option" where
  "st_retransmit_handler a s = do {
     st \<leftarrow> sv_st s a;
     let s = st_put (St_sent a (m_tp (st_msg st)) (st_dst st) (st_mb st)) s;
     let st = st\<lparr>st_txc := st_txc st + 1\<rparr>;
     t \<leftarrow> t1_shl (st_txc st);
     Some (upd_st a (st\<lparr>st_tmrg := Some (sv_now s + min t SIP_T2)\<rparr>) s) }"

section \<open>Requests\<close>

text \<open>\<open>True\<close>: the request is dealt with here and goes no further.\<close>

definition ack_handler :: "sip_msg \<Rightarrow> sips \<Rightarrow> (bool \<times> sips) option" where
  "ack_handler msg s = do {
     le \<leftarrow> st_lookup (sv_ht s) (m_branch msg) (st_cmp_ack msg) s;
     case le of
       None \<Rightarrow> Some (False, s)
     | Some a \<Rightarrow> do {
         st \<leftarrow> sv_st s a;
         Some (case st_state st of
                 S_ACCEPTED \<Rightarrow> (False, s)
               | S_COMPLETED \<Rightarrow>
                   if sip_transp_reliable (m_tp (st_msg st)) then (True, st_free a s)
                   else (True, upd_st a (st\<lparr>st_tmr := Some (sv_now s + SIP_T4), st_tmrg := None, st_state := S_CONFIRMED\<rparr>) s)
               | _ \<Rightarrow> (True, s)) } }"

definition cancel_handler :: "sip_msg \<Rightarrow> sips \<Rightarrow> (bool \<times> sips) option" where
  "cancel_handler msg s = do {
     le \<leftarrow> st_lookup (sv_ht s) (m_branch msg) (st_cmp_cancel msg) s;
     case le of
       None \<Rightarrow> Some (False, s)
     | Some a \<Rightarrow> do {
         st \<leftarrow> sv_st s a;
         let msg = msg\<lparr>m_tag := m_tag (st_msg st)\<rparr>;
         let s = st_put (St_reply msg 200 ''OK'') s;
         Some (True, case st_state st of
                 S_TRYING \<Rightarrow> st_put (St_cancel a (st_cancelh st)) s
               | S_PROCEEDING \<Rightarrow> st_put (St_cancel a (st_cancelh st)) s
               | _ \<Rightarrow> s) } }"

definition request_handler :: "sip_msg \<Rightarrow> sips \<Rightarrow> (bool \<times> sips) option" where
  "request_handler msg s =
     (if m_met msg = ''ACK'' then ack_handler msg s
      else do {
        le \<leftarrow> st_lookup (sv_ht s) (m_branch msg) (st_cmp msg) s;
        case le of
          Some a \<Rightarrow> do {
            st \<leftarrow> sv_st s a;
            let resend = st_put (St_sent a (m_tp (st_msg st)) (st_dst st) (st_mb st)) s;
            Some (True, case st_state st of S_PROCEEDING \<Rightarrow> resend | S_COMPLETED \<Rightarrow> resend | _ \<Rightarrow> s) }
        | None \<Rightarrow> do {
            mrg \<leftarrow> (if m_to_tag msg = [] then st_lookup (sv_mrg s) (m_callid msg) (st_cmp_merge msg) s else Some None);
            if mrg \<noteq> None then Some (True, st_put (St_reply msg 482 ''Loop Detected'') s)
            else if m_met msg = ''CANCEL'' then cancel_handler msg s
            else Some (False, s) } })"

section \<open>Starting and answering\<close>

text \<open>\<open>new\<close> is the address of the object when there is memory.\<close>

definition sip_strans_alloc :: "nat option \<Rightarrow> sip_msg option \<Rightarrow> nat option \<Rightarrow> sips \<Rightarrow> (errno \<times> nat option \<times> sips) option" where
  "sip_strans_alloc new msg cancelh s =
     (case msg of
        None \<Rightarrow> Some (EINVAL, None, s)
      | Some msg \<Rightarrow>
          (case new of
             None \<Rightarrow> Some (ENOMEM, None, s)
           | Some a \<Rightarrow> do {
               h \<leftarrow> hash_append (Some (sv_ht s)) (hash_joaat_pl (m_branch msg)) (Some a);
               ht \<leftarrow> h;
               h \<leftarrow> hash_append (Some (sv_mrg s)) (hash_joaat_pl (m_callid msg)) (Some a);
               mrg \<leftarrow> h;
               let st = \<lparr>st_tmr = None, st_tmrg = None, st_dst = [], st_msg = msg, st_mb = None, st_cancelh = cancelh,
                         st_state = S_TRYING, st_txc = 0, st_invite = (m_met msg = ''INVITE'')\<rparr>;
               Some (OK, Some a, upd_st a st (s\<lparr>sv_ht := ht, sv_mrg := mrg\<rparr>)) }))"

text \<open>The response is kept and sent; then the transaction waits for what may still come.\<close>

definition st_answer :: "errno \<Rightarrow> nat \<Rightarrow> string \<Rightarrow> u16 \<Rightarrow> string option \<Rightarrow> sips \<Rightarrow> (errno \<times> sips) option" where
  "st_answer err a dst scode mb s = do {
     st \<leftarrow> sv_st s a;
     let st = st\<lparr>st_mb := mb, st_dst := dst\<rparr>;
     let s = upd_st a st s;
     let tp = m_tp (st_msg st);
     let s = (if err = 0 then st_put (St_sent a tp dst mb) s else s);
     if err \<noteq> 0 then Some (err, st_free a s)
     else
       Some (OK,
         if st_invite st then
           if scode < 200 then upd_st a (st\<lparr>st_state := S_PROCEEDING\<rparr>) s
           else if scode < 300
           then upd_st a (st\<lparr>st_tmr := Some (sv_now s + 64 * SIP_T1), st_state := S_ACCEPTED\<rparr>) s
           else
             let st = st\<lparr>st_tmr := Some (sv_now s + 64 * SIP_T1), st_state := S_COMPLETED\<rparr>
             in upd_st a (if \<not> sip_transp_reliable tp then st\<lparr>st_tmrg := Some (sv_now s + SIP_T1)\<rparr> else st) s
         else
           if scode < 200 then upd_st a (st\<lparr>st_state := S_PROCEEDING\<rparr>) s
           else if \<not> sip_transp_reliable tp
           then upd_st a (st\<lparr>st_tmr := Some (sv_now s + 64 * SIP_T1), st_state := S_COMPLETED\<rparr>) s
           else st_free a s) }"

text \<open>\<open>stp\<close>: no pointer at all, a NULL pointer, or a transaction.  \<open>send_err\<close> is the result of \<open>sip_send\<close>.\<close>

definition sip_strans_reply ::
    "nat option \<Rightarrow> errno \<Rightarrow> nat option option \<Rightarrow> sip_msg option \<Rightarrow> string option \<Rightarrow> u16 \<Rightarrow> string option \<Rightarrow> sips \<Rightarrow>
     (errno \<times> nat option option \<times> sips) option" where
  "sip_strans_reply new send_err stp msg dst scode mb s =
     (case (mb, dst) of
        (Some m, Some d) \<Rightarrow>
          if scode < 200 \<and> stp = None then Some (EINVAL, stp, s)
          else do {
            (err, st, s) \<leftarrow> (case stp of
                               Some (Some a) \<Rightarrow> Some (OK, Some a, s)
                             | _ \<Rightarrow> sip_strans_alloc new msg None s);
            case st of
              None \<Rightarrow> Some (err, stp, s)
            | Some a \<Rightarrow> do {
                (err, s) \<leftarrow> st_answer send_err a d scode mb s;
                Some (err, map_option (\<lambda>_. if err \<noteq> 0 \<or> scode \<ge> 200 then None else Some a) stp, s) } }
      | _ \<Rightarrow> Some (EINVAL, stp, s))"

text \<open>\<open>listen_err\<close>: the result of \<open>sip_listen\<close>.\<close>

definition sip_strans_init :: "errno \<Rightarrow> (bool \<times> (u32 \<Rightarrow> bool)) \<Rightarrow> (bool \<times> (u32 \<Rightarrow> bool)) \<Rightarrow> u32 \<Rightarrow> errno \<times> nat hash option \<times> nat hash option" where
  "sip_strans_init listen_err mem1 mem2 sz =
     (if listen_err \<noteq> 0 then (listen_err, None, None)
      else
        let (err, mrg) = hash_alloc True (fst mem1) (snd mem1) sz
        in if err \<noteq> 0 then (err, mrg, None)
           else let (err, ht) = hash_alloc True (fst mem2) (snd mem2) sz in (err, mrg, ht))"

end
