(* ===== verification/Sip_Strans_Spec.thy ===== *)
theory Sip_Strans_Spec
  imports Sip_Strans Sip_Ctrans_Spec
begin

text \<open>
  What a SIP server transaction guarantees along every run of requests, replies, timers and releases (\<open>st_step\<close>,
  \<open>st_reach\<close>).  A transaction is found under its branch, its sender and its method, and by no other message
  (\<open>st_inv\<close>); the ones the application still has to answer have no timer, so its pointers stay valid; all others are
  over 32 s after their final response, or 37 s when they are confirmed (\<open>closing\<close>).  The application starts a transaction,
  or answers without one, for a request that was passed on to it just before, and once for each request.
\<close>

section \<open>Runs\<close>

text \<open>A transaction that the application still has to answer.\<close>

definition st_open :: "strans \<Rightarrow> bool" where
  "st_open st \<longleftrightarrow> st_state st = S_TRYING \<or> st_state st = S_PROCEEDING"

definition st_fresh :: "nat option \<Rightarrow> sips \<Rightarrow> bool" where
  "st_fresh new s \<longleftrightarrow> (\<forall>a. new = Some a \<longrightarrow> sv_st s a = None)"

inductive st_step :: "sips \<Rightarrow> sips \<Rightarrow> bool" where
  step_absorbed: "request_handler msg s = Some (b, s') \<Longrightarrow> st_step s s'"
| step_alloc: "request_handler msg s = Some (False, s1) \<Longrightarrow> m_met msg \<noteq> ''ACK'' \<Longrightarrow> st_fresh new s1 \<Longrightarrow>
    sip_strans_alloc new (Some msg) h s1 = Some (e, r, s') \<Longrightarrow> st_step s s'"
| step_reply_new: "request_handler msg s = Some (False, s1) \<Longrightarrow> m_met msg \<noteq> ''ACK'' \<Longrightarrow> st_fresh new s1 \<Longrightarrow> stp = None \<or> stp = Some None \<Longrightarrow>
    sip_strans_reply new err stp (Some msg) dst scode mb s1 = Some (e, r, s') \<Longrightarrow> st_step s s'"
| step_reply: "sv_st s a = Some st \<Longrightarrow> st_open st \<Longrightarrow>
    sip_strans_reply new err (Some (Some a)) msg dst scode mb s = Some (e, r, s') \<Longrightarrow> st_step s s'"
| step_release: "sv_st s a = Some st \<Longrightarrow> st_open st \<Longrightarrow> st_step s (st_free a s)"
| step_tmr: "sv_st s a = Some st \<Longrightarrow> due (sv_now s) (st_tmr st) \<Longrightarrow> st_step s (st_tmr_handler a s)"
| step_tmrg: "sv_st s a = Some st \<Longrightarrow> due (sv_now s) (st_tmrg st) \<Longrightarrow>
    st_retransmit_handler a (upd_st a (st\<lparr>st_tmrg := None\<rparr>) s) = Some s' \<Longrightarrow> st_step s s'"
| step_time: "sv_now s \<le> now \<Longrightarrow>
    (\<And>a st. sv_st s a = Some st \<Longrightarrow> not_past now (st_tmr st) \<and> not_past now (st_tmrg st)) \<Longrightarrow>
    st_step s (s\<lparr>sv_now := now\<rparr>)"

inductive st_reach :: "sips \<Rightarrow> bool" where
  reach_init: "sip_strans_init 0 (True, \<lambda>_. True) (True, \<lambda>_. True) 32 = (OK, Some mrg, Some ht) \<Longrightarrow>
    st_reach \<lparr>sv_ht = ht, sv_mrg = mrg, sv_st = (\<lambda>_. None), sv_now = t, sv_log = []\<rparr>"
| reach_step: "st_reach s \<Longrightarrow> st_step s s' \<Longrightarrow> st_reach s'"

section \<open>The invariant\<close>

definition st_times :: "nat \<Rightarrow> strans \<Rightarrow> bool" where
  "st_times now st \<longleftrightarrow>
     not_past now (st_tmr st) \<and> not_past now (st_tmrg st) \<and>
     (case st_state st of
        S_TRYING \<Rightarrow> st_tmr st = None \<and> st_tmrg st = None \<and> st_txc st = 0
      | S_PROCEEDING \<Rightarrow> st_tmr st = None \<and> st_tmrg st = None \<and> st_txc st = 0 \<and> st_mb st \<noteq> None
      | S_ACCEPTED \<Rightarrow> (\<exists>e. st_tmr st = Some e \<and> e \<le> now + 32000) \<and> st_tmrg st = None
      | S_COMPLETED \<Rightarrow> st_mb st \<noteq> None \<and>
          (\<exists>t. st_tmr st = Some (t + 32000) \<and> t \<le> now \<and>
             (\<forall>r. st_tmrg st = Some r \<longrightarrow> r = t + next_retransmit False (unat (st_txc st))))
      | S_CONFIRMED \<Rightarrow> (\<exists>e. st_tmr st = Some e \<and> e \<le> now + 5000) \<and> st_tmrg st = None)"

definition same_trans :: "sip_msg \<Rightarrow> sip_msg \<Rightarrow> bool" where
  "same_trans m m' \<longleftrightarrow> m_branch m = m_branch m' \<and> m_sentby m = m_sentby m' \<and> m_cseq_met m = m_cseq_met m'"

lemma same_trans_sym: "same_trans m m' \<longleftrightarrow> same_trans m' m"
  by (auto simp: same_trans_def)

lemma cmp_eqs:
  "st_cmp msg st \<longleftrightarrow> same_trans (st_msg st) msg"
  "st_cmp_ack msg st \<longleftrightarrow> m_branch (st_msg st) = m_branch msg \<and> m_sentby (st_msg st) = m_sentby msg \<and> m_cseq_met (st_msg st) = ''INVITE''"
  "st_cmp_cancel msg st \<longleftrightarrow> m_branch (st_msg st) = m_branch msg \<and> m_sentby (st_msg st) = m_sentby msg \<and> m_cseq_met (st_msg st) \<noteq> ''CANCEL''"
  by (auto simp: st_cmp_def st_cmp_ack_def st_cmp_cancel_def strans_cmp_def same_trans_def)

definition st_filed :: "sips \<Rightarrow> nat \<Rightarrow> strans \<Rightarrow> bool" where
  "st_filed s a st \<longleftrightarrow> hash_filed (sv_ht s) (hash_joaat_pl (m_branch (st_msg st))) a \<and>
     hash_filed (sv_mrg s) (hash_joaat_pl (m_callid (st_msg st))) a"

definition st_inv :: "sips \<Rightarrow> bool" where
  "st_inv s \<longleftrightarrow>
     hash_ok (sv_ht s) \<and> hash_ok (sv_mrg s) \<and>
     set (hash_elems (sv_ht s)) = dom (sv_st s) \<and> set (hash_elems (sv_mrg s)) = dom (sv_st s) \<and>
     (\<forall>a st. sv_st s a = Some st \<longrightarrow> st_filed s a st \<and> st_times (sv_now s) st) \<and>
     (\<forall>a b st st'. sv_st s a = Some st \<longrightarrow> sv_st s b = Some st' \<longrightarrow> same_trans (st_msg st) (st_msg st') \<longrightarrow> a = b)"

lemma st_invD:
  assumes "st_inv s"
  shows "hash_ok (sv_ht s)" "hash_ok (sv_mrg s)" "set (hash_elems (sv_ht s)) = dom (sv_st s)" "set (hash_elems (sv_mrg s)) = dom (sv_st s)"
    "sv_st s a = Some st \<Longrightarrow> st_times (sv_now s) st" "sv_st s a = Some st \<Longrightarrow> st_filed s a st"
    "sv_st s a = Some st \<Longrightarrow> sv_st s b = Some st' \<Longrightarrow> same_trans (st_msg st) (st_msg st') \<Longrightarrow> a = b"
  using assms by (auto simp: st_inv_def)

text \<open>A lookup never meets a freed object and is a search of the table.\<close>

lemma st_lookup_find:
  assumes ok: "hash_ok ht" "set (hash_elems ht) \<subseteq> dom (sv_st s)"
  shows "st_lookup ht key p s = hash_find ht (hash_joaat_pl key) (\<lambda>a. case sv_st s a of None \<Rightarrow> False | Some st \<Rightarrow> p st)"
proof -
  let ?k = "hash_joaat_pl key"
  let ?b = "h_bucket ht ! hash_index ht ?k"
  let ?p = "\<lambda>a. case sv_st s a of None \<Rightarrow> False | Some st \<Rightarrow> p st"
  have "?b \<in> set (h_bucket ht)" using nth_mem [OF hash_index_less [OF ok(1)]] .
  then have sub: "set ?b \<subseteq> dom (sv_st s)" using ok(2) unfolding hash_elems_def set_concat by blast
  have "walk (st_handler (sv_st s) p) xs () = Some (find ?p xs, ())" if "set xs \<subseteq> dom (sv_st s)" for xs
    using that by (induction xs) (auto simp: st_handler_def)
  from this [OF sub] show ?thesis
    by (simp add: st_lookup_def hash_lookup_def bucket_in_range [OF ok(1)] hash_find_eq [OF ok(1)])
qed

lemma st_lookup_spec:
  assumes ok: "hash_ok ht" "set (hash_elems ht) = dom (sv_st s)"
  obtains r where "st_lookup ht key p s = Some r" "\<And>a. r = Some a \<Longrightarrow> \<exists>st. sv_st s a = Some st \<and> p st"
    "\<And>a st. r = None \<Longrightarrow> sv_st s a = Some st \<Longrightarrow> hash_filed ht (hash_joaat_pl key) a \<Longrightarrow> \<not> p st"
proof -
  let ?p = "\<lambda>a. case sv_st s a of None \<Rightarrow> False | Some st \<Rightarrow> p st"
  have e: "st_lookup ht key p s = hash_find ht (hash_joaat_pl key) ?p" using st_lookup_find ok by blast
  obtain r where r: "hash_find ht (hash_joaat_pl key) ?p = Some r" using table.lookup_returns [OF ok(1)] by fastforce
  show thesis
  proof (rule that)
    show "st_lookup ht key p s = Some r" using e r by simp
    show "\<exists>st. sv_st s a = Some st \<and> p st" if "r = Some a" for a
      using table.lookup_found [OF ok(1), of "hash_joaat_pl key" ?p a] r that by (auto split: option.splits)
    show "\<not> p st" if "r = None" "sv_st s a = Some st" "hash_filed ht (hash_joaat_pl key) a" for a st
      using table.lookup_missing [OF ok(1) _ that(3), of ?p] r that by auto
  qed
qed

text \<open>What a change of one transaction keeps.\<close>

lemma st_upd_inv:
  assumes i: "st_inv s" and a: "sv_st s a = Some st" and m: "st_msg st' = st_msg st" "st_times (sv_now s) st'"
  shows "st_inv (upd_st a st' s)"
proof -
  have d: "dom ((sv_st s)(a \<mapsto> st')) = dom (sv_st s)" using a by auto
  have f: "st_filed (upd_st a st' s) b t = st_filed s b t" for b t by (simp add: st_filed_def upd_st_def)
  show ?thesis unfolding st_inv_def
  proof (intro conjI allI impI)
    show "hash_ok (sv_ht (upd_st a st' s))" "hash_ok (sv_mrg (upd_st a st' s))" "set (hash_elems (sv_ht (upd_st a st' s))) = dom (sv_st (upd_st a st' s))"
      "set (hash_elems (sv_mrg (upd_st a st' s))) = dom (sv_st (upd_st a st' s))"
      using st_invD(1-4) [OF i] d by (simp_all add: upd_st_def)
  next
    fix b t
    assume b: "sv_st (upd_st a st' s) b = Some t"
    have "st_filed s a st'" using st_invD(6) [OF i a] m(1) by (simp add: st_filed_def)
    then show "st_filed (upd_st a st' s) b t" using b st_invD(6) [OF i, of b t] f by (auto simp: upd_st_def split: if_splits)
    show "st_times (sv_now (upd_st a st' s)) t" using b m(2) st_invD(5) [OF i, of b t] by (auto simp: upd_st_def split: if_splits)
  next
    fix b c t t'
    assume "sv_st (upd_st a st' s) b = Some t" "sv_st (upd_st a st' s) c = Some t'" "same_trans (st_msg t) (st_msg t')"
    then show "b = c" using st_invD(7) [OF i] a m(1) by (auto simp: upd_st_def split: if_splits)
  qed
qed

lemma st_put_inv [simp]: "st_inv (st_put x s) = st_inv s"
  by (simp add: st_inv_def st_put_def st_filed_def)

lemma st_free_inv:
  assumes i: "st_inv s"
  shows "st_inv (st_free a s)"
proof -
  note d = st_invD(1-4) [OF i]
  have f: "st_filed (st_free a s) b t" if "st_filed s b t" "b \<noteq> a" for b t
    using that table.remove_filed [OF d(1)] table.remove_filed [OF d(2)] unfolding st_filed_def st_free_def by simp
  show ?thesis unfolding st_inv_def
  proof (intro conjI allI impI)
    show "hash_ok (sv_ht (st_free a s))" "hash_ok (sv_mrg (st_free a s))" using table.remove_inv d(1,2) by (simp_all add: st_free_def)
    show "set (hash_elems (sv_ht (st_free a s))) = dom (sv_st (st_free a s))" "set (hash_elems (sv_mrg (st_free a s))) = dom (sv_st (st_free a s))"
      using table.remove_all [OF d(1), of a] table.remove_all [OF d(2), of a] d(3,4) by (auto simp: st_free_def)
  next
    fix b t
    assume b: "sv_st (st_free a s) b = Some t"
    then have "sv_st s b = Some t" "b \<noteq> a" by (auto simp: st_free_def split: if_splits)
    then show "st_filed (st_free a s) b t" "st_times (sv_now (st_free a s)) t" using f st_invD(5,6) [OF i, of b t] by (auto simp: st_free_def)
  next
    fix b c t t'
    assume "sv_st (st_free a s) b = Some t" "sv_st (st_free a s) c = Some t'" "same_trans (st_msg t) (st_msg t')"
    then show "b = c" using st_invD(7) [OF i, of b t c t'] by (auto simp: st_free_def split: if_splits)
  qed
qed

section \<open>Requests\<close>

lemma ack_inv:
  assumes i: "st_inv s"
  shows "\<exists>r. ack_handler msg s = Some r \<and> st_inv (snd r)"
proof -
  obtain r where r: "st_lookup (sv_ht s) (m_branch msg) (st_cmp_ack msg) s = Some r"
    "\<And>a. r = Some a \<Longrightarrow> \<exists>st. sv_st s a = Some st \<and> st_cmp_ack msg st"
    using st_lookup_spec [OF st_invD(1,3) [OF i]] by metis
  show ?thesis
  proof (cases r)
    case None
    then show ?thesis using i r(1) by (simp add: ack_handler_def)
  next
    case (Some a)
    then obtain st where st: "sv_st s a = Some st" using r(2) by blast
    have "st_times (sv_now s) (st\<lparr>st_tmr := Some (sv_now s + SIP_T4), st_tmrg := None, st_state := S_CONFIRMED\<rparr>)"
      by (simp add: st_times_def not_past_def SIP_T4_def)
    from st_upd_inv [OF i st _ this] st_free_inv [OF i, of a] show ?thesis
      using i r(1) Some st by (cases "st_state st") (simp_all add: ack_handler_def)
  qed
qed

lemma cancel_handler_inv:
  assumes i: "st_inv s"
  shows "\<exists>r. cancel_handler msg s = Some r \<and> st_inv (snd r) \<and> sv_st (snd r) = sv_st s"
proof -
  obtain r where r: "st_lookup (sv_ht s) (m_branch msg) (st_cmp_cancel msg) s = Some r"
    "\<And>a. r = Some a \<Longrightarrow> \<exists>st. sv_st s a = Some st \<and> st_cmp_cancel msg st"
    using st_lookup_spec [OF st_invD(1,3) [OF i]] by metis
  show ?thesis
  proof (cases r)
    case None
    then show ?thesis using i r(1) by (simp add: cancel_handler_def)
  next
    case (Some a)
    then obtain st where st: "sv_st s a = Some st" using r(2) by blast
    then show ?thesis using i r(1) Some by (cases "st_state st") (simp_all add: cancel_handler_def Let_def, simp_all add: st_put_def)
  qed
qed

text \<open>A request that is passed on belongs to no transaction, and nothing has changed.\<close>

lemma request_handler_inv:
  assumes i: "st_inv s"
  shows "\<exists>r. request_handler msg s = Some r \<and> st_inv (snd r) \<and>
     (m_met msg \<noteq> ''ACK'' \<longrightarrow> sv_st (snd r) = sv_st s \<and>
        (\<not> fst r \<longrightarrow> (\<forall>a st. sv_st s a = Some st \<longrightarrow> \<not> same_trans (st_msg st) msg)))"
proof (cases "m_met msg = ''ACK''")
  case True
  then show ?thesis using ack_inv [OF i] by (auto simp: request_handler_def)
next
  case False
  obtain r where r: "st_lookup (sv_ht s) (m_branch msg) (st_cmp msg) s = Some r" "\<And>a. r = Some a \<Longrightarrow> \<exists>st. sv_st s a = Some st \<and> st_cmp msg st"
    "\<And>a st. r = None \<Longrightarrow> sv_st s a = Some st \<Longrightarrow> hash_filed (sv_ht s) (hash_joaat_pl (m_branch msg)) a \<Longrightarrow> \<not> st_cmp msg st"
    using st_lookup_spec [OF st_invD(1,3) [OF i]] by metis
  show ?thesis
  proof (cases r)
    case (Some a)
    then obtain st where st: "sv_st s a = Some st" using r(2) by blast
    then show ?thesis using i r(1) Some False by (cases "st_state st") (simp_all add: request_handler_def, simp_all add: st_put_def)
  next
    case None
    have n: "\<not> same_trans (st_msg st) msg" if "sv_st s a = Some st" for a st
    proof
      assume m: "same_trans (st_msg st) msg"
      then have "hash_filed (sv_ht s) (hash_joaat_pl (m_branch msg)) a"
        using st_invD(6) [OF i that] by (simp add: st_filed_def same_trans_def)
      then show False using r(3) [OF None that] m by (simp add: cmp_eqs)
    qed
    obtain q where q: "st_lookup (sv_mrg s) (m_callid msg) (st_cmp_merge msg) s = Some q"
      using st_lookup_spec [OF st_invD(2,4) [OF i]] by metis
    obtain c where c: "cancel_handler msg s = Some c" "st_inv (snd c)" "sv_st (snd c) = sv_st s" using cancel_handler_inv [OF i] by blast
    show ?thesis
    proof (cases "m_to_tag msg = [] \<and> q \<noteq> None")
      case True
      then have "request_handler msg s = Some (True, st_put (St_reply msg 482 ''Loop Detected'') s)"
        using r(1) None False q by (auto simp: request_handler_def)
      moreover have "sv_st (st_put (St_reply msg 482 ''Loop Detected'') s) = sv_st s" by (simp add: st_put_def)
      ultimately show ?thesis using i False by simp
    next
      case f: False
      then have "request_handler msg s = (if m_met msg = ''CANCEL'' then cancel_handler msg s else Some (False, s))"
        using r(1) None False q by (auto simp: request_handler_def)
      then show ?thesis using i c n by (cases c) auto
    qed
  qed
qed

section \<open>Starting and answering\<close>

lemma st_alloc_inv:
  assumes i: "st_inv s" and f: "st_fresh new s" and n: "\<forall>a st. sv_st s a = Some st \<longrightarrow> \<not> same_trans (st_msg st) msg"
  shows "\<exists>e r s'. sip_strans_alloc new (Some msg) h s = Some (e, r, s') \<and> st_inv s' \<and> r = new \<and>
     (\<forall>a. r = Some a \<longrightarrow> (\<exists>st. sv_st s' a = Some st \<and> st_state st = S_TRYING \<and> st_msg st = msg \<and> st_invite st = (m_met msg = ''INVITE'')))"
proof (cases new)
  case None
  then show ?thesis using i by (simp add: sip_strans_alloc_def)
next
  case (Some a)
  note d = st_invD(1-4) [OF i]
  have a: "sv_st s a = None" using f Some by (simp add: st_fresh_def)
  then have e: "a \<notin> set (hash_elems (sv_ht s))" "a \<notin> set (hash_elems (sv_mrg s))" using d by auto
  from table.add_new [OF d(1) e(1), of "hash_joaat_pl (m_branch msg)"] obtain t where
    t: "hash_add (sv_ht s) (hash_joaat_pl (m_branch msg)) a = Some t" "hash_ok t" "set (hash_elems t) = insert a (set (hash_elems (sv_ht s)))"
      "hash_filed t (hash_joaat_pl (m_branch msg)) a" "\<And>k b. hash_filed (sv_ht s) k b \<Longrightarrow> hash_filed t k b" by blast
  from table.add_new [OF d(2) e(2), of "hash_joaat_pl (m_callid msg)"] obtain g where
    g: "hash_add (sv_mrg s) (hash_joaat_pl (m_callid msg)) a = Some g" "hash_ok g" "set (hash_elems g) = insert a (set (hash_elems (sv_mrg s)))"
      "hash_filed g (hash_joaat_pl (m_callid msg)) a" "\<And>k b. hash_filed (sv_mrg s) k b \<Longrightarrow> hash_filed g k b" by blast
  let ?st = "\<lparr>st_tmr = None, st_tmrg = None, st_dst = [], st_msg = msg, st_mb = None, st_cancelh = h,
                         st_state = S_TRYING, st_txc = 0, st_invite = (m_met msg = ''INVITE'')\<rparr>"
  let ?s = "upd_st a ?st (s\<lparr>sv_ht := t, sv_mrg := g\<rparr>)"
  have "sip_strans_alloc new (Some msg) h s = Some (OK, Some a, ?s)"
    using t(1) g(1) Some by (auto simp: sip_strans_alloc_def hash_add_def Let_def split: bind_splits)
  moreover have "st_inv ?s" unfolding st_inv_def
  proof (intro conjI allI impI)
    show "hash_ok (sv_ht ?s)" "hash_ok (sv_mrg ?s)" "set (hash_elems (sv_ht ?s)) = dom (sv_st ?s)" "set (hash_elems (sv_mrg ?s)) = dom (sv_st ?s)"
      using t(2,3) g(2,3) d by (auto simp: upd_st_def)
  next
    fix b u assume b: "sv_st ?s b = Some u"
    show "st_filed ?s b u"
    proof (cases "b = a")
      case True
      then show ?thesis using b t(4) g(4) by (auto simp: upd_st_def st_filed_def)
    next
      case False
      then have "sv_st s b = Some u" using b by (simp add: upd_st_def)
      from st_invD(6) [OF i this] show ?thesis using t(5) g(5) by (simp add: upd_st_def st_filed_def)
    qed
    show "st_times (sv_now ?s) u" using b st_invD(5) [OF i, of b u] by (auto simp: upd_st_def st_times_def not_past_def split: if_splits)
  next
    fix b c u u' assume "sv_st ?s b = Some u" "sv_st ?s c = Some u'" "same_trans (st_msg u) (st_msg u')"
    then show "b = c" using st_invD(7) [OF i, of b u c u'] n a same_trans_sym [of msg] by (auto simp: upd_st_def split: if_splits)
  qed
  ultimately show ?thesis using Some by (auto simp: upd_st_def)
qed

text \<open>A reply on a transaction that is open.\<close>

lemma st_answer_inv:
  assumes i: "st_inv s" and a: "sv_st s a = Some st" "st_open st"
  shows "\<exists>e s'. st_answer err a d scode (Some m) s = Some (e, s') \<and> st_inv s' \<and>
     (e = 0 \<and> scode < 200 \<longrightarrow> (\<exists>st'. sv_st s' a = Some st' \<and> st_state st' = S_PROCEEDING))"
proof -
  let ?st = "st\<lparr>st_mb := Some m, st_dst := d\<rparr>"
  let ?s = "st_put (St_sent a (m_tp (st_msg st)) d (Some m)) (upd_st a ?st s)"
  have tm: "st_times (sv_now s) st" by (rule st_invD(5) [OF i a(1)])
  have p: "st_tmr st = None" "st_tmrg st = None" "st_txc st = 0" using tm a(2) by (auto simp: st_open_def st_times_def)
  have i1: "st_inv (upd_st a ?st s)" using st_upd_inv [OF i a(1), of ?st] tm a(2) by (auto simp: st_open_def st_times_def)
  have i2: "st_inv ?s" using i1 by simp
  have a2: "sv_st ?s a = Some ?st" "sv_now ?s = sv_now s" by (simp_all add: st_put_def upd_st_def)
  note u = st_upd_inv [OF i2 a2(1)]
  have s1: "st_inv (upd_st a (?st\<lparr>st_state := S_PROCEEDING\<rparr>) ?s)" by (rule u) (use p a2(2) in \<open>simp_all add: st_times_def not_past_def\<close>)
  have s2: "st_inv (upd_st a (?st\<lparr>st_tmr := Some (sv_now ?s + 64 * SIP_T1), st_state := S_ACCEPTED\<rparr>) ?s)"
    by (rule u) (use p a2(2) in \<open>simp_all add: st_times_def not_past_def SIP_T1_def\<close>)
  have s3: "st_inv (upd_st a (?st\<lparr>st_tmr := Some (sv_now ?s + 64 * SIP_T1), st_state := S_COMPLETED\<rparr>) ?s)"
    by (rule u) (use p a2(2) in \<open>simp_all add: st_times_def not_past_def SIP_T1_def\<close>)
  have s4: "st_inv (upd_st a (?st\<lparr>st_tmr := Some (sv_now ?s + 64 * SIP_T1), st_state := S_COMPLETED, st_tmrg := Some (sv_now ?s + SIP_T1)\<rparr>) ?s)"
    by (rule u) (use p a2(2) in \<open>simp_all add: st_times_def not_past_def SIP_T1_def next_retransmit_def\<close>)
  have s5: "st_inv (st_free a ?s)" "st_inv (st_free a (upd_st a ?st s))" using st_free_inv i1 i2 by simp_all
  have sv: "sv_st (upd_st a t s) a = Some t" for t s by (simp add: upd_st_def)
  show ?thesis
  proof (cases "err = 0")
    case False
    then show ?thesis using a(1) s5 by (simp add: st_answer_def Let_def)
  next
    case True
    then show ?thesis using a(1) s1 s2 s3 s4 s5 by (simp add: st_answer_def Let_def sv)
  qed
qed

lemma reply_open_inv:
  assumes i: "st_inv s" and a: "sv_st s a = Some st" "st_open st"
  shows "\<exists>e r s'. sip_strans_reply new err (Some (Some a)) msg dst scode mb s = Some (e, r, s') \<and> st_inv s'"
proof (cases "mb \<noteq> None \<and> dst \<noteq> None")
  case False
  then show ?thesis using i by (auto simp: sip_strans_reply_def split: option.splits)
next
  case True
  then obtain m d where o: "mb = Some m" "dst = Some d" by auto
  from st_answer_inv [OF i a, of err d scode m] obtain e s' where "st_answer err a d scode (Some m) s = Some (e, s')" "st_inv s'" by blast
  then show ?thesis using o by (simp add: sip_strans_reply_def)
qed

text \<open>A reply that starts the transaction itself.\<close>

lemma reply_new_inv:
  assumes i: "st_inv s" and f: "st_fresh new s" and n: "\<forall>a st. sv_st s a = Some st \<longrightarrow> \<not> same_trans (st_msg st) msg"
    and stp: "stp = None \<or> stp = Some None"
  shows "\<exists>e r s'. sip_strans_reply new err stp (Some msg) dst scode mb s = Some (e, r, s') \<and> st_inv s'"
proof (cases "mb = None \<or> dst = None \<or> scode < 200 \<and> stp = None")
  case True
  then show ?thesis using i by (auto simp: sip_strans_reply_def split: option.splits)
next
  case False
  then obtain m d where o: "mb = Some m" "dst = Some d" "\<not> (scode < 200 \<and> stp = None)" by auto
  obtain e r s1 where a: "sip_strans_alloc new (Some msg) None s = Some (e, r, s1)" "st_inv s1"
    "\<forall>a. r = Some a \<longrightarrow> (\<exists>st. sv_st s1 a = Some st \<and> st_state st = S_TRYING \<and> st_msg st = msg)"
    using st_alloc_inv [where h = None, OF i f n] by blast
  have p: "sip_strans_reply new err stp (Some msg) dst scode mb s =
      (case r of None \<Rightarrow> Some (e, stp, s1)
       | Some b \<Rightarrow> do { (err, s) \<leftarrow> st_answer err b d scode (Some m) s1;
                       Some (err, map_option (\<lambda>_. if err \<noteq> 0 \<or> scode \<ge> 200 then None else Some b) stp, s) })"
    using stp o a(1) by (auto simp: sip_strans_reply_def)
  show ?thesis
  proof (cases r)
    case None
    then show ?thesis using p a(2) by simp
  next
    case (Some b)
    obtain st where st: "sv_st s1 b = Some st" "st_open st" using a(3) Some by (auto simp: st_open_def)
    from st_answer_inv [OF a(2) st, of err d scode m] show ?thesis using p Some by auto
  qed
qed

section \<open>Timers\<close>

lemma st_retransmit_inv:
  assumes i: "st_inv s" and a: "sv_st s a = Some st" and d: "due (sv_now s) (st_tmrg st)"
  shows "\<exists>s'. st_retransmit_handler a (upd_st a (st\<lparr>st_tmrg := None\<rparr>) s) = Some s' \<and> st_inv s'"
proof -
  have tm: "st_times (sv_now s) st" by (rule st_invD(5) [OF i a])
  obtain r where r: "st_tmrg st = Some r" using d by (auto simp: due_def split: option.splits)
  then obtain t where t: "st_state st = S_COMPLETED" "st_tmr st = Some (t + 32000)" "r = t + next_retransmit False (unat (st_txc st))"
    "st_mb st \<noteq> None" "t \<le> sv_now s" "sv_now s \<le> t + 32000"
    using tm by (cases "st_state st") (auto simp: st_times_def not_past_def)
  have now: "sv_now s = r" using d tm r by (simp add: st_times_def not_past_def due_def)
  let ?n = "unat (st_txc st)"
  have b: "next_retransmit False ?n \<le> 32000" using t(3,6) now by simp
  then have n: "?n \<le> 9" using next_retransmit_bound by blast
  then have u: "unat (st_txc st + 1) = Suc ?n" by (simp add: unat_add_u32)
  have x: "t1_shl (st_txc st + 1) = Some (500 * 2 ^ Suc ?n)" using t1_shl_small [of "Suc ?n" "st_txc st + 1"] n u by simp
  have nx: "next_retransmit False (Suc ?n) = next_retransmit False ?n + min (500 * 2 ^ Suc ?n) SIP_T2"
    using next_retransmit_Suc(1) [OF n] by (simp add: SIP_T2_def min.commute)
  let ?s1 = "st_put (St_sent a (m_tp (st_msg st)) (st_dst st) (st_mb st)) (upd_st a (st\<lparr>st_tmrg := None\<rparr>) s)"
  let ?st = "st\<lparr>st_tmrg := Some (sv_now s + min (500 * 2 ^ Suc ?n) SIP_T2), st_txc := st_txc st + 1\<rparr>"
  have i1: "st_inv ?s1" using st_upd_inv [OF i a, of "st\<lparr>st_tmrg := None\<rparr>"] tm t by (simp add: st_times_def not_past_def)
  have "st_inv (upd_st a ?st ?s1)"
  proof (rule st_upd_inv [OF i1])
    show "sv_st ?s1 a = Some (st\<lparr>st_tmrg := None\<rparr>)" by (simp add: st_put_def upd_st_def)
    have "st_times (sv_now s) ?st" using tm t now u nx r by (simp add: st_times_def not_past_def)
    then show "st_times (sv_now ?s1) ?st" by (simp add: st_put_def upd_st_def)
  qed simp
  moreover have "st_retransmit_handler a (upd_st a (st\<lparr>st_tmrg := None\<rparr>) s) = Some (upd_st a ?st ?s1)"
    using x by (cases st) (simp add: st_retransmit_handler_def Let_def upd_st_def st_put_def)
  ultimately show ?thesis by blast
qed

lemma st_time_inv:
  assumes i: "st_inv s" and t: "sv_now s \<le> now" "\<And>a st. sv_st s a = Some st \<Longrightarrow> not_past now (st_tmr st) \<and> not_past now (st_tmrg st)"
  shows "st_inv (s\<lparr>sv_now := now\<rparr>)"
proof -
  have "st_times now st" if "sv_st s a = Some st" for a st
    using st_invD(5) [OF i that] t(1) t(2) [OF that] by (cases "st_state st") (auto simp: st_times_def intro: le_trans)
  then show ?thesis using i by (simp add: st_inv_def st_filed_def)
qed

lemma st_step_inv: "st_step s s' \<Longrightarrow> st_inv s \<Longrightarrow> st_inv s'"
proof (induction rule: st_step.induct)
  case (step_absorbed msg s b s')
  then show ?case using request_handler_inv [of s msg] by auto
next
  case (step_alloc msg s s1 new h e r s')
  have "st_inv s1" "\<forall>a st. sv_st s1 a = Some st \<longrightarrow> \<not> same_trans (st_msg st) msg"
    using request_handler_inv [OF step_alloc(5), of msg] step_alloc(1,2) by auto
  from st_alloc_inv [where h = h, OF this(1) step_alloc(3) this(2)] show ?case using step_alloc(4) by auto
next
  case (step_reply_new msg s s1 new stp err dst scode mb e r s')
  have "st_inv s1" "\<forall>a st. sv_st s1 a = Some st \<longrightarrow> \<not> same_trans (st_msg st) msg"
    using request_handler_inv [OF step_reply_new(6), of msg] step_reply_new(1,2) by auto
  from reply_new_inv [OF this(1) step_reply_new(3) this(2) step_reply_new(4), of err dst scode mb] show ?case using step_reply_new(5) by auto
next
  case (step_reply s a st new err msg dst scode mb e r s')
  from reply_open_inv [OF step_reply(4,1,2), of new err msg dst scode mb] show ?case using step_reply(3) by auto
next
  case (step_release s a st)
  then show ?case using st_free_inv by blast
next
  case (step_tmr s a st)
  then show ?case using st_free_inv by (simp add: st_tmr_handler_def)
next
  case (step_tmrg s a st s')
  from st_retransmit_inv [OF step_tmrg(4,1,2)] show ?case using step_tmrg(3) by auto
next
  case (step_time s now)
  then show ?case using st_time_inv by blast
qed

lemma st_reach_inv: "st_reach s \<Longrightarrow> st_inv s"
proof (induction rule: st_reach.induct)
  case (reach_init mrg ht t)
  have h: "hash_alloc True True (\<lambda>_. True) 32 = (OK, Some mrg)" "hash_alloc True True (\<lambda>_. True) 32 = (OK, Some ht)"
    using reach_init by (auto simp: sip_strans_init_def Let_def split: prod.splits if_splits)
  have e: "hash_ok k \<and> hash_elems k = []" if "hash_alloc True True (\<lambda>_. True) 32 = (OK, Some k)" for k :: "nat hash"
    using hash_alloc_result [OF that] small_array [of 32] by (simp add: hash_ok_def hash_elems_def)
  show ?case using e [OF h(1)] e [OF h(2)] by (simp add: st_inv_def)
next
  case (reach_step s s')
  then show ?case using st_step_inv by blast
qed

section \<open>What a server transaction promises\<close>

text \<open>C23: While a transaction is alive, no copy of its request reaches the application again: it is dealt with here, sending
  the last response once more while the transaction is proceeding or completed and nothing before the first response, once it was
  accepted or confirmed.  There is no other transaction with the same branch, sender and method, provided that the
  application starts a transaction, or answers without one, only directly after the request was passed on to it
  (\<open>st_step\<close>).\<close>
theorem strans_absorbs:
  assumes "st_reach s" "sv_st s a = Some st" "same_trans (st_msg st) msg" "m_met msg \<noteq> ''ACK''"
  shows "request_handler msg s =
       Some (True, case st_state st of
                     S_PROCEEDING \<Rightarrow> st_put (St_sent a (m_tp (st_msg st)) (st_dst st) (st_mb st)) s
                   | S_COMPLETED \<Rightarrow> st_put (St_sent a (m_tp (st_msg st)) (st_dst st) (st_mb st)) s
                   | _ \<Rightarrow> s) \<and>
     (\<forall>b st'. sv_st s b = Some st' \<longrightarrow> same_trans (st_msg st') msg \<longrightarrow> b = a)"
proof -
  have i: "st_inv s" by (rule st_reach_inv [OF assms(1)])
  have u: "b = a" if "sv_st s b = Some st'" "same_trans (st_msg st') msg" for b st'
    using st_invD(7) [OF i that(1) assms(2)] that(2) assms(3) by (simp add: same_trans_def)
  obtain r where r: "st_lookup (sv_ht s) (m_branch msg) (st_cmp msg) s = Some r" "\<And>a. r = Some a \<Longrightarrow> \<exists>st. sv_st s a = Some st \<and> st_cmp msg st"
    "\<And>a st. r = None \<Longrightarrow> sv_st s a = Some st \<Longrightarrow> hash_filed (sv_ht s) (hash_joaat_pl (m_branch msg)) a \<Longrightarrow> \<not> st_cmp msg st"
    using st_lookup_spec [OF st_invD(1,3) [OF i]] by metis
  have "hash_filed (sv_ht s) (hash_joaat_pl (m_branch msg)) a"
    using st_invD(6) [OF i assms(2)] assms(3) by (simp add: st_filed_def same_trans_def)
  then have "r \<noteq> None" using r(3) [OF _ assms(2)] assms(3) by (auto simp: cmp_eqs)
  then have "r = Some a" using r(2) u by (auto simp: cmp_eqs)
  then show ?thesis using u r(1) assms(2,4) by (simp add: request_handler_def Let_def)
qed

subsection \<open>The end of a transaction\<close>

text \<open>The transaction has its final response, and its timer runs out in time.\<close>

definition closing :: "nat \<Rightarrow> nat \<Rightarrow> sips \<Rightarrow> bool" where
  "closing t a s \<longleftrightarrow>
     (\<exists>st e. sv_st s a = Some st \<and> \<not> st_open st \<and> st_tmr st = Some e \<and> sv_now s \<le> e \<and>
        e \<le> t + (if st_state st = S_CONFIRMED then 37000 else 32000))"

text \<open>Steps along which the object of the transaction is not freed.\<close>

inductive st_lives :: "nat \<Rightarrow> sips \<Rightarrow> sips \<Rightarrow> bool" for a where
  lives_now: "sv_st s a \<noteq> None \<Longrightarrow> st_lives a s s"
| lives_step: "st_lives a s s' \<Longrightarrow> st_step s' s'' \<Longrightarrow> sv_st s'' a \<noteq> None \<Longrightarrow> st_lives a s s''"

lemma closing_same: "closing t a s \<Longrightarrow> sv_st s' a = sv_st s a \<Longrightarrow> sv_now s' = sv_now s \<Longrightarrow> closing t a s'"
  by (simp add: closing_def)

lemma closing_upd:
  "closing t a s \<Longrightarrow> sv_st s a = Some st \<Longrightarrow> sv_st s' a = Some st' \<Longrightarrow> sv_now s' = sv_now s \<Longrightarrow> st_tmr st' = st_tmr st \<Longrightarrow>
   st_state st' = st_state st \<Longrightarrow> closing t a s'"
  by (simp add: closing_def st_open_def)

text \<open>A request leaves a transaction as it is, frees it, or confirms it.\<close>

definition kept_or_confirmed :: "nat \<Rightarrow> sips \<Rightarrow> sips \<Rightarrow> bool" where
  "kept_or_confirmed a s s' \<longleftrightarrow> sv_now s' = sv_now s \<and> (sv_st s' a = sv_st s a \<or> sv_st s' a = None \<or>
     (\<exists>st. sv_st s a = Some st \<and> st_state st = S_COMPLETED \<and>
        sv_st s' a = Some (st\<lparr>st_tmr := Some (sv_now s + 5000), st_tmrg := None, st_state := S_CONFIRMED\<rparr>)))"

lemma kept_simps [simp]: "kept_or_confirmed a s s" "kept_or_confirmed a s (st_put x s)" "kept_or_confirmed a s (st_put y (st_put x s))"
  "kept_or_confirmed a s (st_free b s)"
  by (simp_all add: kept_or_confirmed_def st_put_def st_free_def)

lemma ack_at:
  assumes "ack_handler msg s = Some (b, s')"
  shows "kept_or_confirmed a s s' \<and> (\<not> b \<longrightarrow> s' = s)"
proof -
  obtain le where le: "st_lookup (sv_ht s) (m_branch msg) (st_cmp_ack msg) s = Some le"
    using assms by (cases "st_lookup (sv_ht s) (m_branch msg) (st_cmp_ack msg) s") (simp_all add: ack_handler_def)
  show ?thesis
  proof (cases le)
    case None
    then show ?thesis using assms le by (simp add: ack_handler_def)
  next
    case (Some c)
    obtain st where st: "sv_st s c = Some st" using assms le Some by (cases "sv_st s c") (simp_all add: ack_handler_def)
    have k: "kept_or_confirmed a s (upd_st c (st\<lparr>st_tmr := Some (sv_now s + SIP_T4), st_tmrg := None, st_state := S_CONFIRMED\<rparr>) s)"
      if "st_state st = S_COMPLETED" using that st by (simp add: kept_or_confirmed_def upd_st_def SIP_T4_def)
    show ?thesis using assms le Some st k by (cases "st_state st") (auto simp: ack_handler_def split: if_splits)
  qed
qed

lemma cancel_at:
  assumes "cancel_handler msg s = Some (b, s')"
  shows "kept_or_confirmed a s s' \<and> (\<not> b \<longrightarrow> s' = s)"
proof -
  obtain le where le: "st_lookup (sv_ht s) (m_branch msg) (st_cmp_cancel msg) s = Some le"
    using assms by (cases "st_lookup (sv_ht s) (m_branch msg) (st_cmp_cancel msg) s") (simp_all add: cancel_handler_def)
  show ?thesis
  proof (cases le)
    case None
    then show ?thesis using assms le by (simp add: cancel_handler_def)
  next
    case (Some c)
    obtain st where st: "sv_st s c = Some st" using assms le Some by (cases "sv_st s c") (simp_all add: cancel_handler_def)
    show ?thesis using assms le Some st by (cases "st_state st") (auto simp: cancel_handler_def Let_def)
  qed
qed

lemma request_at:
  assumes "request_handler msg s = Some (b, s')"
  shows "kept_or_confirmed a s s' \<and> (\<not> b \<longrightarrow> s' = s)"
proof (cases "m_met msg = ''ACK''")
  case True
  then show ?thesis using assms ack_at by (simp add: request_handler_def)
next
  case False
  obtain le where le: "st_lookup (sv_ht s) (m_branch msg) (st_cmp msg) s = Some le"
    using assms False by (cases "st_lookup (sv_ht s) (m_branch msg) (st_cmp msg) s") (simp_all add: request_handler_def)
  show ?thesis
  proof (cases le)
    case (Some c)
    obtain st where st: "sv_st s c = Some st" using assms False le Some by (cases "sv_st s c") (simp_all add: request_handler_def)
    show ?thesis using assms False le Some st by (cases "st_state st") (auto simp: request_handler_def Let_def)
  next
    case None
    let ?m = "if m_to_tag msg = [] then st_lookup (sv_mrg s) (m_callid msg) (st_cmp_merge msg) s else Some None"
    obtain mrg where m: "?m = Some mrg" using assms False le None by (cases ?m) (simp_all add: request_handler_def)
    show ?thesis
    proof (cases "mrg = None")
      case True
      then show ?thesis using assms False le None m cancel_at
        by (cases "m_met msg = ''CANCEL''") (auto simp: request_handler_def split: if_splits)
    next
      case nn: False
      then show ?thesis using assms False le None m by (auto simp: request_handler_def split: if_splits)
    qed
  qed
qed

lemma answer_elsewhere:
  "st_answer err b dst scode mb s = Some (e, s') \<Longrightarrow> a \<noteq> b \<Longrightarrow> sv_st s' a = sv_st s a \<and> sv_now s' = sv_now s"
  by (auto simp: st_answer_def bind_eq_Some_conv Let_def st_put_def upd_st_def st_free_def split: if_splits)

lemma alloc_elsewhere:
  "sip_strans_alloc new msg h s = Some (e, r, s') \<Longrightarrow> new \<noteq> Some a \<Longrightarrow> sv_st s' a = sv_st s a \<and> sv_now s' = sv_now s \<and> r \<noteq> Some a"
  by (auto simp: sip_strans_alloc_def bind_eq_Some_conv Let_def upd_st_def split: option.splits)

lemma reply_elsewhere:
  assumes r: "sip_strans_reply new err stp msg dst scode mb s = Some (e, r, s')" and "stp \<noteq> Some (Some a)"
    "stp = None \<or> stp = Some None \<Longrightarrow> new \<noteq> Some a"
  shows "sv_st s' a = sv_st s a \<and> sv_now s' = sv_now s"
proof -
  have start: "sv_st s1 a = sv_st s a \<and> sv_now s1 = sv_now s \<and> st \<noteq> Some a"
    if "(case stp of Some (Some b) \<Rightarrow> Some (OK, Some b, s) | _ \<Rightarrow> sip_strans_alloc new msg None s) = Some (e1, st, s1)" for e1 st s1
    using that assms(2,3) alloc_elsewhere [of new msg None s e1 st s1 a] by (auto split: option.splits)
  have more: "sv_st s2 a = sv_st s a \<and> sv_now s2 = sv_now s"
    if "sv_st s1 a = sv_st s a \<and> sv_now s1 = sv_now s \<and> b \<noteq> a" "st_answer err b d scode mb s1 = Some (e2, s2)" for s1 b d e2 s2
    using that answer_elsewhere [of err b d scode mb s1 e2 s2 a] by auto
  show ?thesis
  proof (cases "mb = None \<or> dst = None \<or> scode < 200 \<and> stp = None")
    case True
    then show ?thesis using r by (auto simp: sip_strans_reply_def split: option.splits)
  next
    case False
    then obtain m d where md: "mb = Some m" "dst = Some d" by auto
    let ?a = "case stp of Some (Some b) \<Rightarrow> Some (OK, Some b, s) | _ \<Rightarrow> sip_strans_alloc new msg None s"
    obtain e1 st s1 where a: "?a = Some (e1, st, s1)" using r False md by (cases ?a) (auto simp: sip_strans_reply_def)
    note f = start [OF a]
    show ?thesis
    proof (cases st)
      case None
      then show ?thesis using r False md a f by (auto simp: sip_strans_reply_def)
    next
      case (Some b)
      obtain e2 s2 where t: "st_answer err b d scode mb s1 = Some (e2, s2)"
        using r False md a Some by (cases "st_answer err b d scode mb s1") (auto simp: sip_strans_reply_def)
      then show ?thesis using r False md a Some f more [OF _ t] by (auto simp: sip_strans_reply_def)
    qed
  qed
qed

lemma closing_step:
  assumes c: "closing t a s" and v: "st_step s s'" "sv_st s' a \<noteq> None"
  shows "closing t a s'"
proof -
  obtain st e where st: "sv_st s a = Some st" "\<not> st_open st" "st_tmr st = Some e" "sv_now s \<le> e"
    using c by (auto simp: closing_def)
  have f: "new \<noteq> Some a" if "st_fresh new s" for new using that st(1) by (auto simp: st_fresh_def)
  show ?thesis
    using v(1)
  proof cases
    case (step_absorbed msg b)
    then have k: "kept_or_confirmed a s s'" by (simp add: request_at)
    then consider "sv_st s' a = sv_st s a" | st' where "sv_st s' a = Some st'" "st_tmr st' = Some (sv_now s + 5000)" "st_state st' = S_CONFIRMED"
        "st_state st = S_COMPLETED"
      using v(2) st(1) by (auto simp: kept_or_confirmed_def)
    then show ?thesis
    proof cases
      case 1
      then show ?thesis using k closing_same [OF c] by (simp add: kept_or_confirmed_def)
    next
      case 2
      then show ?thesis using k c st by (simp add: kept_or_confirmed_def closing_def st_open_def)
    qed
  next
    case (step_alloc msg s1 new h e r)
    have "s1 = s" using request_at [OF step_alloc(1)] by simp
    then show ?thesis using alloc_elsewhere [OF step_alloc(4) f] step_alloc(3) closing_same [OF c] by auto
  next
    case (step_reply_new msg s1 new stp err dst scode mb e r)
    have "s1 = s" using request_at [OF step_reply_new(1)] by simp
    then show ?thesis using reply_elsewhere [OF step_reply_new(5), of a] f step_reply_new(3,4) closing_same [OF c] by auto
  next
    case (step_reply b st' new err msg dst scode mb e r)
    then have "b \<noteq> a" using st by auto
    then show ?thesis using reply_elsewhere [OF step_reply(3), of a] closing_same [OF c] by auto
  next
    case (step_release b st')
    then have "b \<noteq> a" using st by auto
    then show ?thesis using step_release closing_same [OF c] by (simp add: st_free_def)
  next
    case (step_tmr b st')
    then show ?thesis using v(2) closing_same [OF c] by (cases "b = a") (auto simp: st_free_def st_tmr_handler_def)
  next
    case (step_tmrg b st')
    then show ?thesis using st(1) closing_same [OF c] closing_upd [OF c]
      by (cases "b = a") (auto simp: st_retransmit_handler_def bind_eq_Some_conv upd_st_def st_put_def Let_def)
  next
    case (step_time now)
    then have "now \<le> e" using st(1,3) by (fastforce simp: not_past_def)
    then show ?thesis using step_time(1) st c by (auto simp: closing_def)
  qed
qed

lemma closing_lives: "st_lives a s s' \<Longrightarrow> closing t a s \<Longrightarrow> closing t a s'"
  by (induction rule: st_lives.induct) (auto intro: closing_step)

text \<open>C24: The transactions that the application still has to answer have no timer, so that its pointers stay valid however
  long it takes, and answering one is defined.  Every other one is freed at most 37 s later, at most 32 s later when no ACK has
  confirmed it by then: that long after the final response, and whatever happens in between, as long as timers run when they
  are due.  No request and no retransmission leads to undefined behaviour.\<close>
theorem strans_lifetime:
  assumes "st_reach s" "sv_st s a = Some st"
  shows "(if st_open st then st_tmr st = None \<and> st_tmrg st = None \<and>
            sip_strans_reply new err (Some (Some a)) msg dst scode mb s \<noteq> None
          else \<forall>s' st'. st_lives a s s' \<longrightarrow> sv_st s' a = Some st' \<longrightarrow>
            sv_now s' \<le> sv_now s + (if st_state st' = S_CONFIRMED then 37000 else 32000)) \<and>
     request_handler m s \<noteq> None \<and>
     (due (sv_now s) (st_tmrg st) \<longrightarrow> st_retransmit_handler a (upd_st a (st\<lparr>st_tmrg := None\<rparr>) s) \<noteq> None)"
proof -
  have i: "st_inv s" by (rule st_reach_inv [OF assms(1)])
  have t: "st_times (sv_now s) st" by (rule st_invD(5) [OF i assms(2)])
  have "if st_open st then st_tmr st = None \<and> st_tmrg st = None else closing (sv_now s) a s"
    using t assms(2) by (cases "st_state st") (auto simp: st_times_def st_open_def not_past_def closing_def)
  moreover have "sv_now s' \<le> sv_now s + (if st_state st' = S_CONFIRMED then 37000 else 32000)"
    if "closing (sv_now s) a s" "st_lives a s s'" "sv_st s' a = Some st'" for s' st'
    using closing_lives [OF that(2,1)] that(3) by (auto simp: closing_def)
  ultimately show ?thesis
    using reply_open_inv [OF i assms(2), of new err msg dst scode mb] request_handler_inv [OF i, of m] st_retransmit_inv [OF i assms(2)]
    by (auto split: if_splits)
qed

text \<open>An ACK finds the INVITE it belongs to: it ends the retransmissions of an error response, with 5 s to absorb
  further copies over an unreliable transport, it is passed to the application when the call was accepted, and dropped
  otherwise.\<close>
theorem strans_ack:
  assumes "st_reach s" "sv_st s a = Some st" "m_cseq_met (st_msg st) = ''INVITE''" "m_met msg = ''ACK''"
    "m_branch msg = m_branch (st_msg st)" "m_sentby msg = m_sentby (st_msg st)"
  shows "request_handler msg s = Some
     (case st_state st of
        S_ACCEPTED \<Rightarrow> (False, s)
      | S_COMPLETED \<Rightarrow> (True, if sip_transp_reliable (m_tp (st_msg st)) then st_free a s
            else upd_st a (st\<lparr>st_tmr := Some (sv_now s + 5000), st_tmrg := None, st_state := S_CONFIRMED\<rparr>) s)
      | _ \<Rightarrow> (True, s))"
proof -
  have i: "st_inv s" by (rule st_reach_inv [OF assms(1)])
  obtain r where r: "st_lookup (sv_ht s) (m_branch msg) (st_cmp_ack msg) s = Some r" "\<And>a. r = Some a \<Longrightarrow> \<exists>st. sv_st s a = Some st \<and> st_cmp_ack msg st"
    "\<And>a st. r = None \<Longrightarrow> sv_st s a = Some st \<Longrightarrow> hash_filed (sv_ht s) (hash_joaat_pl (m_branch msg)) a \<Longrightarrow> \<not> st_cmp_ack msg st"
    using st_lookup_spec [OF st_invD(1,3) [OF i]] by metis
  have "hash_filed (sv_ht s) (hash_joaat_pl (m_branch msg)) a"
    using st_invD(6) [OF i assms(2)] assms(5) by (simp add: st_filed_def)
  then have "r \<noteq> None" using r(3) [OF _ assms(2)] assms(3,5,6) by (auto simp: cmp_eqs)
  then obtain b st' where b: "r = Some b" "sv_st s b = Some st'" "st_cmp_ack msg st'" using r(2) by blast
  then have "same_trans (st_msg st') (st_msg st)" using assms(3,5,6) by (simp add: cmp_eqs same_trans_def)
  then have "b = a" using st_invD(7) [OF i b(2) assms(2)] by blast
  then show ?thesis using r(1) b(1) assms(2,4) by (cases "st_state st") (simp_all add: request_handler_def ack_handler_def SIP_T4_def)
qed

text \<open>The timers of a transaction run by themselves.\<close>

fun run_st_timers :: "nat \<Rightarrow> nat \<Rightarrow> sips \<Rightarrow> sips option" where
  "run_st_timers 0 a s = Some s"
| "run_st_timers (Suc n) a s =
     (case sv_st s a of
        None \<Rightarrow> Some s
      | Some st \<Rightarrow>
          (case (st_tmr st, st_tmrg st) of
             (Some e, Some r) \<Rightarrow>
               if r < e
               then Option.bind (st_retransmit_handler a (upd_st a (st\<lparr>st_tmrg := None\<rparr>) (s\<lparr>sv_now := r\<rparr>))) (run_st_timers n a)
               else run_st_timers n a (st_tmr_handler a (s\<lparr>sv_now := e\<rparr>))
           | (Some e, None) \<Rightarrow> run_st_timers n a (st_tmr_handler a (s\<lparr>sv_now := e\<rparr>))
           | _ \<Rightarrow> Some s))"

definition st_waiting :: "sips \<Rightarrow> nat \<Rightarrow> strans \<Rightarrow> nat \<Rightarrow> nat \<Rightarrow> u32 \<Rightarrow> nat \<Rightarrow> (nat \<times> st_act) list \<Rightarrow> sips" where
  "st_waiting s a st e r c now log =
     s\<lparr>sv_st := (sv_st s)(a \<mapsto> st\<lparr>st_tmr := Some e, st_tmrg := Some r, st_txc := c\<rparr>), sv_now := now, sv_log := log\<rparr>"

lemma st_waiting_retransmits:
  assumes "r < e" "t1_shl (c + 1) = Some t"
  shows "run_st_timers (Suc n) a (st_waiting s a st e r c now log) =
     run_st_timers n a (st_waiting s a st e (r + min t 4000) (c + 1) r (log @ [(r, St_sent a (m_tp (st_msg st)) (st_dst st) (st_mb st))]))"
proof -
  have "st_retransmit_handler a (upd_st a (st\<lparr>st_tmr := Some e, st_txc := c, st_tmrg := None\<rparr>) (st_waiting s a st e r c r log)) =
     Some (st_waiting s a st e (r + min t 4000) (c + 1) r (log @ [(r, St_sent a (m_tp (st_msg st)) (st_dst st) (st_mb st))]))"
    using assms(2) by (cases s; cases st) (auto simp: st_retransmit_handler_def upd_st_def st_put_def st_waiting_def Let_def SIP_T2_def)
  moreover have "(st_waiting s a st e r c now log)\<lparr>sv_now := r\<rparr> = st_waiting s a st e r c r log"
    by (cases s) (simp add: st_waiting_def)
  moreover have "sv_st (st_waiting s a st e r c now log) a = Some (st\<lparr>st_tmr := Some e, st_tmrg := Some r, st_txc := c\<rparr>)"
    by (simp add: st_waiting_def)
  ultimately show ?thesis using assms(1) by simp
qed

lemma st_waiting_ends:
  assumes "e \<le> r"
  shows "\<exists>s'. run_st_timers (Suc n) a (st_waiting s a st e r c now log) = Some s' \<and> sv_st s' a = None \<and> sv_log s' = log \<and> sv_now s' = e"
proof -
  have f: "run_st_timers n a (st_free a s) = Some (st_free a s)" for s by (cases n) (simp_all add: st_free_def)
  have "sv_st (st_waiting s a st e r c now log) a = Some (st\<lparr>st_tmr := Some e, st_tmrg := Some r, st_txc := c\<rparr>)"
    by (simp add: st_waiting_def)
  then have "run_st_timers (Suc n) a (st_waiting s a st e r c now log) = Some (st_free a ((st_waiting s a st e r c now log)\<lparr>sv_now := e\<rparr>))"
    using assms by (simp add: st_tmr_handler_def f)
  then show ?thesis by (simp add: st_free_def st_waiting_def)
qed

text \<open>An error response to an INVITE over UDP that nobody acknowledges is sent 11 times, after 500 ms, 1 s, 2 s and then
  every 4 s, and the transaction is gone after 32 s.\<close>
theorem strans_schedule:
  assumes "st_reach s" "sv_st s a = Some st" "st_open st" "st_invite st" "m_tp (st_msg st) = SIP_TRANSP_UDP" "300 \<le> scode"
    "sip_strans_reply new 0 (Some (Some a)) msg (Some d) scode (Some m) s = Some (e, r, s1)"
  shows "e = OK \<and> r = Some None \<and> (\<exists>s'. run_st_timers 11 a s1 = Some s' \<and> sv_st s' a = None \<and> sv_now s' = sv_now s + 32000 \<and>
     sv_log s' = sv_log s @ map (\<lambda>t. (sv_now s + t, St_sent a SIP_TRANSP_UDP d (Some m)))
       [0, 500, 1500, 3500, 7500, 11500, 15500, 19500, 23500, 27500, 31500])"
proof -
  let ?st = "st\<lparr>st_mb := Some m, st_dst := d, st_state := S_COMPLETED\<rparr>"
  have c: "st_txc st = 0" using st_invD(5) [OF st_reach_inv [OF assms(1)] assms(2)] assms(3) by (auto simp: st_times_def st_open_def)
  have n: "\<not> scode < 200" "\<not> scode < 300" "\<not> (scode < 200 \<and> Some (Some a) = None)" "200 \<le> scode"
    using assms(6) by (auto simp: word_less_nat_alt word_le_nat_alt)
  have w: "e = OK" "r = Some None" "s1 = st_waiting s a ?st (sv_now s + 32000) (sv_now s + 500) 0 (sv_now s)
      (sv_log s @ [(sv_now s, St_sent a SIP_TRANSP_UDP d (Some m))])"
    using assms(2,4,5,7) n c by (cases s; cases st; simp add: sip_strans_reply_def st_answer_def Let_def st_put_def upd_st_def st_waiting_def
      sip_transp_reliable_def SIP_T1_def)+
  note rt = st_waiting_retransmits [where s = s and a = a and st = ?st and e = "32000 + sv_now s"]
    and cm = add.commute [of "sv_now s"]
  have k: "run_st_timers 11 = run_st_timers (Suc (Suc (Suc (Suc (Suc (Suc (Suc (Suc (Suc (Suc (Suc 0)))))))))))"
    by (simp add: numeral_eq_Suc)
  let ?log = "sv_log s @ map (\<lambda>t. (sv_now s + t, St_sent a SIP_TRANSP_UDP d (Some m)))
       [0, 500, 1500, 3500, 7500, 11500, 15500, 19500, 23500, 27500, 31500]"
  have "run_st_timers 11 a s1 = run_st_timers (Suc 0) a (st_waiting s a ?st (32000 + sv_now s) (35500 + sv_now s) 10 (31500 + sv_now s) ?log)"
    unfolding k using w(3) assms(5) by (simp add: rt t1_shl_values cm del: run_st_timers.simps)
  moreover obtain s' where "run_st_timers (Suc 0) a (st_waiting s a ?st (32000 + sv_now s) (35500 + sv_now s) 10 (31500 + sv_now s) ?log) = Some s'"
      "sv_st s' a = None" "sv_log s' = ?log" "sv_now s' = 32000 + sv_now s"
    using st_waiting_ends [of "32000 + sv_now s" "35500 + sv_now s" 0 a s ?st 10 "31500 + sv_now s" ?log] by auto
  ultimately show ?thesis using w(1,2) by (intro conjI exI [of _ s']) (simp_all only: cm)
qed

section \<open>Concrete runs\<close>

definition st_start :: sips where
  "st_start = \<lparr>sv_ht = \<lparr>h_bucket = replicate 32 [], h_bsize = 32\<rparr>, sv_mrg = \<lparr>h_bucket = replicate 32 [], h_bsize = 32\<rparr>,
     sv_st = (\<lambda>_. None), sv_now = 7, sv_log = []\<rparr>"

lemma st_start_reach: "st_reach st_start"
proof -
  have h: "hash_alloc True True (\<lambda>_. True) 32 = (OK, Some \<lparr>h_bucket = replicate 32 [], h_bsize = 32\<rparr>)"
    by (simp add: hash_alloc_def SIZEOF_LIST_def)
  from reach_init [of _ _ 7] show ?thesis by (simp add: sip_strans_init_def st_start_def h)
qed

text \<open>The first request is passed on; the application starts a transaction for it.\<close>

lemma first_request:
  assumes "st_inv s" "sv_st s = (\<lambda>_. None)" "m_met msg = ''INVITE''"
  shows "request_handler msg s = Some (False, s)"
proof -
  have n: "st_lookup ht key p s = Some None" if "hash_ok ht" "set (hash_elems ht) = dom (sv_st s)" for ht key p
    using st_lookup_spec [OF that, of key p] assms(2) by (metis not_Some_eq)
  show ?thesis using n st_invD [OF assms(1)] assms(3) by (simp add: request_handler_def)
qed

definition an_invite :: sip_msg where
  "an_invite = \<lparr>m_met = ''INVITE'', m_ruri = ''sip:a@sip.invalid'', m_scode = 0, m_via = [], m_branch = ''z9hG4bK1'',
     m_sentby = ''10.0.0.1'', m_to = [], m_to_tag = [], m_from = [], m_from_tag = ''f1'', m_callid = ''c1'', m_cseq_num = 1,
     m_cseq_met = ''INVITE'', m_routes = [], m_tp = SIP_TRANSP_UDP, m_tag = 0\<rparr>"

lemma st_started_reach:
  "\<exists>s st. st_reach s \<and> sv_st s 1 = Some st \<and> st_state st = S_TRYING \<and> st_msg st = an_invite \<and> st_invite st"
proof -
  have i: "st_inv st_start" by (rule st_reach_inv [OF st_start_reach])
  have m: "m_met an_invite = ''INVITE''" by (simp add: an_invite_def)
  have n: "sv_st st_start = (\<lambda>_. None)" by (simp add: st_start_def)
  have f: "st_fresh (Some 1) st_start" using n by (simp add: st_fresh_def)
  obtain e s where s: "sip_strans_alloc (Some 1) (Some an_invite) None st_start = Some (e, Some 1, s)"
    "\<exists>st. sv_st s 1 = Some st \<and> st_state st = S_TRYING \<and> st_msg st = an_invite \<and> st_invite st"
    using st_alloc_inv [OF i f, of an_invite None] n m by auto
  have "st_step st_start s"
    by (rule step_alloc [OF first_request [OF i n m] _ f s(1)]) (simp add: m)
  then show ?thesis using reach_step [OF st_start_reach] s(2) by blast
qed

lemma strans_absorbs_witness:
  "\<exists>s. st_reach s \<and> request_handler an_invite s = Some (True, s)"
proof -
  obtain s st where s: "st_reach s" "sv_st s 1 = Some st" "st_state st = S_TRYING" "st_msg st = an_invite" using st_started_reach by blast
  have "same_trans (st_msg st) an_invite" "m_met an_invite \<noteq> ''ACK''" using s(4) by (simp_all add: same_trans_def an_invite_def)
  from strans_absorbs [OF s(1,2) this] s show ?thesis by auto
qed

lemma strans_lifetime_witness:
  "\<exists>s st. st_reach s \<and> sv_st s 1 = Some st \<and> st_state st = S_TRYING \<and> st_tmr st = None \<and> request_handler an_invite s \<noteq> None"
proof -
  obtain s st where s: "st_reach s" "sv_st s 1 = Some st" "st_state st = S_TRYING" using st_started_reach by blast
  from strans_lifetime [OF s(1,2), of None 0 None None 200 None an_invite] s show ?thesis by (auto simp: st_open_def)
qed

lemma strans_ack_witness:
  "\<exists>s. st_reach s \<and> request_handler (an_invite\<lparr>m_met := ''ACK'', m_cseq_met := ''ACK''\<rparr>) s = Some (True, s)"
proof -
  obtain s st where s: "st_reach s" "sv_st s 1 = Some st" "st_state st = S_TRYING" "st_msg st = an_invite" using st_started_reach by blast
  from strans_ack [OF s(1,2), of "an_invite\<lparr>m_met := ''ACK'', m_cseq_met := ''ACK''\<rparr>"] s show ?thesis by (auto simp: an_invite_def)
qed

lemma strans_schedule_witness:
  "\<exists>s st s1 s'. st_reach s \<and> sv_st s 1 = Some st \<and> st_msg st = an_invite \<and>
     sip_strans_reply None 0 (Some (Some 1)) None (Some ''10.0.0.1'') 486 (Some ''busy'') s = Some (OK, Some None, s1) \<and>
     run_st_timers 11 1 s1 = Some s' \<and> sv_st s' 1 = None \<and> sv_now s' = sv_now s + 32000"
proof -
  obtain s st where s: "st_reach s" "sv_st s 1 = Some st" "st_open st" "st_invite st" "st_msg st = an_invite"
    using st_started_reach by (auto simp: st_open_def)
  obtain e r s1 where r: "sip_strans_reply None 0 (Some (Some 1)) None (Some ''10.0.0.1'') 486 (Some ''busy'') s = Some (e, r, s1)"
    using reply_open_inv [OF st_reach_inv [OF s(1)] s(2,3)] by blast
  have "m_tp (st_msg st) = SIP_TRANSP_UDP" "(300 :: u16) \<le> 486" using s(5) by (simp_all add: an_invite_def)
  from strans_schedule [OF s(1-4) this r] s r show ?thesis by blast
qed

end
