(* ===== verification/Async.thy ===== *)
theory Async
  imports Prelude "HOL-Library.Monad_Syntax"
begin

text \<open>
  The queue that runs work in threads and its callbacks on the event loop (\<open>native/re/src/async/async.c\<close>), through
  which the bridge posts every operation to the loop.  A work item is an object in a store that is in one of three
  lists: free, waiting, current.  Each worker thread has a program counter between its critical sections, so a
  definition here is what a thread does under one lock; the order in which threads take their turns is left open.
  A thread in \<open>cnd_wait\<close> goes on once it has been signalled.  The message queue is a pipe that holds \<open>as_cap\<close> messages;
  a write to a full pipe fails, and the code does not look at the result.
  What happens to a work item is appended to a log: it is posted, its handler runs, its callback is called, it is
  cancelled, or its message is lost.
\<close>

section \<open>State\<close>

text \<open>Handlers, callbacks and their arguments are numbers; \<open>None\<close> is NULL.\<close>

record awork =
  aw_workh :: "nat option"
  aw_cb :: "nat option"
  aw_arg :: "nat option"
  aw_err :: errno
  aw_id :: u32

definition awork0 :: awork where
  "awork0 = \<lparr>aw_workh = None, aw_cb = None, aw_arg = None, aw_err = 0, aw_id = 0\<rparr>"

datatype wpc = Top | Waiting bool | Taken nat | Worked nat | Exited

datatype aevent =
    Posted "nat option" "nat option"
  | Ran nat "nat option"
  | Called nat errno "nat option"
  | Cancelled "nat option" "nat option"
  | Lost nat

record async =
  as_thrd :: "wpc list"
  as_run :: bool
  as_freel :: "nat list"
  as_workl :: "nat list"
  as_curl :: "nat list"
  as_pipe :: "nat list"
  as_cap :: nat
  as_main :: "nat option"
  as_work :: "nat \<Rightarrow> awork option"
  as_log :: "aevent list"

definition as_event :: "aevent \<Rightarrow> async \<Rightarrow> async" where
  "as_event e s = s\<lparr>as_log := as_log s @ [e]\<rparr>"

definition upd_work :: "nat \<Rightarrow> awork \<Rightarrow> async \<Rightarrow> async" where
  "upd_work a w s = s\<lparr>as_work := (as_work s)(a \<mapsto> w)\<rparr>"

definition set_pc :: "nat \<Rightarrow> wpc \<Rightarrow> async \<Rightarrow> async" where
  "set_pc i pc s = s\<lparr>as_thrd := (as_thrd s)[i := pc]\<rparr>"

definition pc_of :: "nat \<Rightarrow> async \<Rightarrow> wpc option" where
  "pc_of i s = (if i < length (as_thrd s) then Some (as_thrd s ! i) else None)"

text \<open>\<open>list_move\<close>: out of the list the element is in, to the end of another.\<close>

definition unlist :: "nat \<Rightarrow> async \<Rightarrow> async" where
  "unlist a s = s\<lparr>as_freel := remove1 a (as_freel s), as_workl := remove1 a (as_workl s), as_curl := remove1 a (as_curl s)\<rparr>"

definition move_free :: "nat \<Rightarrow> async \<Rightarrow> async" where
  "move_free a s = (let s = unlist a s in s\<lparr>as_freel := as_freel s @ [a]\<rparr>)"

definition move_cur :: "nat \<Rightarrow> async \<Rightarrow> async" where
  "move_cur a s = (let s = unlist a s in s\<lparr>as_curl := as_curl s @ [a]\<rparr>)"

text \<open>\<open>cnd_signal\<close> lets a thread that waits go on, here the first; \<open>cnd_broadcast\<close> all.\<close>

fun wake_first :: "wpc list \<Rightarrow> wpc list" where
  "wake_first [] = []"
| "wake_first (pc # pcs) = (if pc = Waiting False then Waiting True # pcs else pc # wake_first pcs)"

definition wake :: "wpc \<Rightarrow> wpc" where
  "wake pc = (if pc = Waiting False then Waiting True else pc)"

definition cnd_signal :: "async \<Rightarrow> async" where
  "cnd_signal s = s\<lparr>as_thrd := wake_first (as_thrd s)\<rparr>"

definition cnd_broadcast :: "async \<Rightarrow> async" where
  "cnd_broadcast s = s\<lparr>as_thrd := map wake (as_thrd s)\<rparr>"

section \<open>Worker threads\<close>

text \<open>\<open>None\<close>: the thread is not at this point of its loop.\<close>

definition worker_take :: "nat \<Rightarrow> async \<Rightarrow> async" where
  "worker_take i s = (case as_workl s of [] \<Rightarrow> s | a # _ \<Rightarrow> set_pc i (Taken a) (move_cur a s))"

definition worker_top :: "nat \<Rightarrow> async \<Rightarrow> async option" where
  "worker_top i s =
     (if pc_of i s \<noteq> Some Top then None
      else if \<not> as_run s then Some (set_pc i Exited s)
      else if as_workl s = [] then Some (set_pc i (Waiting False) s)
      else Some (worker_take i s))"

definition worker_woken :: "nat \<Rightarrow> async \<Rightarrow> async option" where
  "worker_woken i s =
     (if pc_of i s \<noteq> Some (Waiting True) then None
      else if as_workl s = [] \<or> \<not> as_run s then Some (set_pc i Top s)
      else Some (worker_take i s))"

text \<open>\<open>wres\<close>: what the handler of the work returns.\<close>

definition worker_run :: "(nat \<Rightarrow> nat option \<Rightarrow> errno) \<Rightarrow> nat \<Rightarrow> async \<Rightarrow> async option" where
  "worker_run wres i s =
     (case pc_of i s of
        Some (Taken a) \<Rightarrow> do {
          work \<leftarrow> as_work s a;
          Some (set_pc i (Worked a)
            (case aw_workh work of
               None \<Rightarrow> s
             | Some h \<Rightarrow>
                 as_event (Ran h (aw_arg work))
                   (upd_work a (work\<lparr>aw_err := wres h (aw_arg work), aw_workh := None\<rparr>) s))) }
      | _ \<Rightarrow> None)"

definition mqueue_push :: "nat \<Rightarrow> async \<Rightarrow> async" where
  "mqueue_push a s =
     (if length (as_pipe s) < as_cap s then s\<lparr>as_pipe := as_pipe s @ [a]\<rparr> else as_event (Lost a) s)"

definition worker_push :: "nat \<Rightarrow> async \<Rightarrow> async option" where
  "worker_push i s =
     (case pc_of i s of
        Some (Worked a) \<Rightarrow> Some (set_pc i Top (mqueue_push a s))
      | _ \<Rightarrow> None)"

section \<open>Event loop\<close>

definition worker_check :: "async \<Rightarrow> async" where
  "worker_check s =
     (if as_workl s = [] then s
      else if length (as_thrd s) = length (as_curl s) then s
      else cnd_broadcast s)"

text \<open>The handler of the message queue has two critical sections; between them other threads run.\<close>

definition queueh_call :: "async \<Rightarrow> async option" where
  "queueh_call s =
     (if as_main s \<noteq> None then None
      else case as_pipe s of
        [] \<Rightarrow> None
      | a # rest \<Rightarrow> do {
          work \<leftarrow> as_work s a;
          let s = s\<lparr>as_pipe := rest, as_main := Some a\<rparr>;
          Some (case aw_cb work of
                  None \<Rightarrow> s
                | Some cb \<Rightarrow> upd_work a (work\<lparr>aw_cb := None\<rparr>) (as_event (Called cb (aw_err work) (aw_arg work)) s)) })"

definition queueh_free :: "async \<Rightarrow> async option" where
  "queueh_free s = map_option (\<lambda>a. move_free a (s\<lparr>as_main := None\<rparr>)) (as_main s)"

section \<open>Operations\<close>

text \<open>\<open>new\<close> is the memory of a new item when there is some, \<open>mutex_err\<close> the result of \<open>mutex_alloc\<close>.\<close>

definition work_alloc :: "nat option \<Rightarrow> errno \<Rightarrow> errno + nat" where
  "work_alloc new mutex_err =
     (case new of
        None \<Rightarrow> Inl ENOMEM
      | Some a \<Rightarrow> if mutex_err \<noteq> 0 then Inl mutex_err else Inr a)"

definition re_async ::
    "nat option \<Rightarrow> errno \<Rightarrow> u32 \<Rightarrow> nat option \<Rightarrow> nat option \<Rightarrow> nat option \<Rightarrow> async option \<Rightarrow> errno \<times> async option" where
  "re_async new mutex_err i workh cb arg async =
     (case async of
        None \<Rightarrow> (EINVAL, None)
      | Some s \<Rightarrow>
          let (work, s) =
                (case as_freel s of
                   [] \<Rightarrow> (case work_alloc new mutex_err of Inl err \<Rightarrow> (Inl err, s) | Inr a \<Rightarrow> (Inr a, upd_work a awork0 s))
                 | a # _ \<Rightarrow> (Inr a, unlist a s))
          in case work of
               Inl err \<Rightarrow> (err, Some s)
             | Inr a \<Rightarrow>
                 let err = (case as_work s a of Some w \<Rightarrow> aw_err w | None \<Rightarrow> 0);
                     s = upd_work a \<lparr>aw_workh = workh, aw_cb = cb, aw_arg = arg, aw_err = err, aw_id = i\<rparr> s;
                     s = s\<lparr>as_workl := as_workl s @ [a]\<rparr>
                 in (OK, Some (as_event (Posted cb arg) (cnd_signal s))))"

definition cancel_work :: "nat \<Rightarrow> async \<Rightarrow> async" where
  "cancel_work a s =
     (case as_work s a of
        None \<Rightarrow> s
      | Some w \<Rightarrow>
          upd_work a (w\<lparr>aw_id := 0, aw_workh := None, aw_cb := None, aw_arg := None\<rparr>)
            (as_event (Cancelled (aw_cb w) (aw_arg w)) s))"

definition has_id :: "u32 \<Rightarrow> async \<Rightarrow> nat \<Rightarrow> bool" where
  "has_id i s a = (case as_work s a of None \<Rightarrow> False | Some w \<Rightarrow> aw_id w = i)"

fun cancel_workl :: "u32 \<Rightarrow> nat list \<Rightarrow> async \<Rightarrow> async" where
  "cancel_workl i [] s = s"
| "cancel_workl i (a # as) s =
     cancel_workl i as (if has_id i s a then move_free a (cancel_work a s) else s)"

fun cancel_curl :: "u32 \<Rightarrow> nat list \<Rightarrow> async \<Rightarrow> async" where
  "cancel_curl i [] s = s"
| "cancel_curl i (a # as) s = cancel_curl i as (if has_id i s a then cancel_work a s else s)"

definition re_async_cancel :: "u32 \<Rightarrow> async option \<Rightarrow> async option" where
  "re_async_cancel i async =
     map_option (\<lambda>s. let s = cancel_workl i (as_workl s) s in cancel_curl i (as_curl s) s) async"

section \<open>Setting up and closing\<close>

text \<open>The threads are created one after the other, with one free item each; \<open>create\<close>, \<open>new\<close> and \<open>mutex_err\<close>
  answer for each.\<close>

fun start_threads ::
    "(nat \<Rightarrow> errno) \<Rightarrow> (nat \<Rightarrow> nat option) \<Rightarrow> (nat \<Rightarrow> errno) \<Rightarrow> nat \<Rightarrow> nat \<Rightarrow> async \<Rightarrow> errno \<times> async" where
  "start_threads create new mutex_err i 0 s = (OK, s)"
| "start_threads create new mutex_err i (Suc n) s =
     (if create i \<noteq> 0 then (create i, s)
      else
        let s = s\<lparr>as_thrd := as_thrd s @ [Top]\<rparr>
        in case work_alloc (new i) (mutex_err i) of
             Inl err \<Rightarrow> (err, s)
           | Inr a \<Rightarrow> start_threads create new mutex_err (Suc i) n
               ((upd_work a awork0 s)\<lparr>as_freel := as_freel s @ [a]\<rparr>))"

definition re_async_alloc ::
    "bool \<Rightarrow> bool \<Rightarrow> errno \<Rightarrow> nat \<Rightarrow> bool \<Rightarrow> (nat \<Rightarrow> errno) \<Rightarrow> (nat \<Rightarrow> nat option) \<Rightarrow> (nat \<Rightarrow> errno) \<Rightarrow>
     u16 \<Rightarrow> errno \<times> async option" where
  "re_async_alloc asyncp struct_ok mqueue_err cap thrd_ok create new mutex_err workers =
     (if \<not> asyncp \<or> workers = 0 then (EINVAL, None)
      else if \<not> struct_ok then (ENOMEM, None)
      else if mqueue_err \<noteq> 0 then (mqueue_err, None)
      else if \<not> thrd_ok then (ENOMEM, None)
      else
        let (err, s) = start_threads create new mutex_err 0 (unat workers)
              \<lparr>as_thrd = [], as_run = True, as_freel = [], as_workl = [], as_curl = [], as_pipe = [], as_cap = cap,
               as_main = None, as_work = (\<lambda>_. None), as_log = []\<rparr>
        in if err \<noteq> 0 then (err, None) else (OK, Some s))"

text \<open>Closing stops the threads, waits for them and calls the callbacks that are left with \<open>ECANCELED\<close>.\<close>

definition destroy_begin :: "async \<Rightarrow> async" where
  "destroy_begin s = cnd_broadcast (s\<lparr>as_run := False\<rparr>)"

fun call_canceled :: "nat list \<Rightarrow> async \<Rightarrow> async" where
  "call_canceled [] s = s"
| "call_canceled (a # as) s =
     call_canceled as
       (case as_work s a of
          None \<Rightarrow> s
        | Some w \<Rightarrow>
            (case aw_cb w of
               None \<Rightarrow> s
             | Some cb \<Rightarrow> upd_work a (w\<lparr>aw_cb := None\<rparr>) (as_event (Called cb ECANCELED (aw_arg w)) s)))"

text \<open>\<open>None\<close>: a thread has not ended yet, and \<open>thrd_join\<close> waits.\<close>

definition destroy_end :: "async \<Rightarrow> async option" where
  "destroy_end s =
     (if list_ex (\<lambda>pc. pc \<noteq> Exited) (as_thrd s) then None
      else
        let s = call_canceled (as_workl s) s;
            s = call_canceled (as_curl s) s
        in Some (s\<lparr>as_freel := [], as_workl := [], as_curl := [], as_pipe := [], as_work := (\<lambda>_. None)\<rparr>))"

end
