(* ===== verification/Async_Spec.thy ===== *)
theory Async_Spec
  imports Async "HOL-Library.Multiset"
begin

text \<open>
  What the queue promises along every interleaving of the posting threads, the workers and the event loop (\<open>as_step\<close>,
  \<open>as_reach\<close>).  The callbacks of the work items that are not free are the jobs that are still open: a job that is
  posted is called once, cancelled, or open (\<open>as_inv\<close>), and closing the queue leaves none open.  With a single worker,
  as the bridge sets it up, the jobs are called in the order in which they were posted (\<open>fifo_inv\<close>).
\<close>

section \<open>Jobs\<close>

type_synonym job = "nat \<times> nat option"

fun posted1 :: "aevent \<Rightarrow> job list" where
  "posted1 (Posted (Some cb) arg) = [(cb, arg)]"
| "posted1 _ = []"

fun called1 :: "aevent \<Rightarrow> job list" where
  "called1 (Called cb err arg) = [(cb, arg)]"
| "called1 _ = []"

fun cancelled1 :: "aevent \<Rightarrow> job list" where
  "cancelled1 (Cancelled (Some cb) arg) = [(cb, arg)]"
| "cancelled1 _ = []"

definition posted :: "aevent list \<Rightarrow> job list" where "posted log = concat (map posted1 log)"
definition called :: "aevent list \<Rightarrow> job list" where "called log = concat (map called1 log)"
definition cancelled :: "aevent list \<Rightarrow> job list" where "cancelled log = concat (map cancelled1 log)"

lemma log_append [simp]:
  "posted (log @ [e]) = posted log @ posted1 e" "called (log @ [e]) = called log @ called1 e"
  "cancelled (log @ [e]) = cancelled log @ cancelled1 e"
  by (simp_all add: posted_def called_def cancelled_def)

definition jobs_of :: "awork option \<Rightarrow> job list" where
  "jobs_of w = (case w of None \<Rightarrow> [] | Some w \<Rightarrow> (case aw_cb w of None \<Rightarrow> [] | Some cb \<Rightarrow> [(cb, aw_arg w)]))"

definition jobs :: "async \<Rightarrow> nat \<Rightarrow> job list" where
  "jobs s a = jobs_of (as_work s a)"

definition open_jobs :: "(nat \<Rightarrow> awork option) \<Rightarrow> job multiset" where
  "open_jobs f = (\<Sum>a \<in> dom f. mset (jobs_of (f a)))"

lemma jobs_of_None [simp]: "jobs_of None = []"
  by (simp add: jobs_of_def)

lemma open_jobs_upd:
  assumes "finite (dom f)"
  shows "open_jobs (f(a \<mapsto> w)) + mset (jobs_of (f a)) = open_jobs f + mset (jobs_of (Some w))"
proof -
  have r: "(\<Sum>x \<in> dom f - {a}. mset (jobs_of ((f(a \<mapsto> w)) x))) = (\<Sum>x \<in> dom f - {a}. mset (jobs_of (f x)))"
    by (rule sum.cong) auto
  have n: "open_jobs (f(a \<mapsto> w)) = mset (jobs_of (Some w)) + (\<Sum>x \<in> dom f - {a}. mset (jobs_of (f x)))"
    using assms by (simp add: open_jobs_def sum.insert_remove r)
  show ?thesis
  proof (cases "a \<in> dom f")
    case True
    then have "open_jobs f = mset (jobs_of (f a)) + (\<Sum>x \<in> dom f - {a}. mset (jobs_of (f x)))"
      using assms by (simp add: open_jobs_def sum.remove)
    then show ?thesis using n by simp
  next
    case False
    then have "f a = None" "dom f - {a} = dom f" by auto
    then show ?thesis using n by (simp add: open_jobs_def)
  qed
qed

lemma open_jobs_same:
  "finite (dom f) \<Longrightarrow> f a = Some w \<Longrightarrow> aw_cb w' = aw_cb w \<Longrightarrow> aw_arg w' = aw_arg w \<Longrightarrow>
   open_jobs (f(a \<mapsto> w')) = open_jobs f"
  using open_jobs_upd [of f a w'] unfolding jobs_of_def by (cases "aw_cb w") simp_all

section \<open>The invariant\<close>

fun pc_work :: "wpc \<Rightarrow> nat list" where
  "pc_work (Taken a) = [a]"
| "pc_work (Worked a) = [a]"
| "pc_work _ = []"

definition hands :: "async \<Rightarrow> nat list" where
  "hands s = concat (map pc_work (as_thrd s))"

text \<open>The items that are on their way: at the event loop, in the pipe, in the hands of a thread.\<close>

definition busy :: "async \<Rightarrow> nat list" where
  "busy s = (case as_main s of None \<Rightarrow> [] | Some a \<Rightarrow> [a]) @ as_pipe s @ hands s"

definition lists_ok :: "async \<Rightarrow> bool" where
  "lists_ok s \<longleftrightarrow>
     distinct (as_freel s @ as_workl s @ as_curl s) \<and>
     set (as_freel s @ as_workl s @ as_curl s) = dom (as_work s) \<and>
     distinct (busy s) \<and> set (busy s) \<subseteq> set (as_curl s) \<and>
     (\<forall>a \<in> set (as_freel s). jobs s a = []) \<and> (\<forall>a. as_main s = Some a \<longrightarrow> jobs s a = [])"

definition counts_ok :: "async \<Rightarrow> bool" where
  "counts_ok s \<longleftrightarrow>
     mset (posted (as_log s)) = mset (called (as_log s)) + mset (cancelled (as_log s)) + open_jobs (as_work s)"

definition as_inv :: "async \<Rightarrow> bool" where
  "as_inv s \<longleftrightarrow> lists_ok s \<and> counts_ok s"

lemma lists_okD:
  assumes "lists_ok s"
  shows "distinct (as_freel s)" "distinct (as_workl s)" "distinct (as_curl s)" "finite (dom (as_work s))"
    "set (as_freel s) \<inter> set (as_workl s) = {}" "set (as_freel s) \<inter> set (as_curl s) = {}" "set (as_workl s) \<inter> set (as_curl s) = {}"
    "a \<in> set (busy s) \<Longrightarrow> a \<in> set (as_curl s)"
proof -
  have "dom (as_work s) = set (as_freel s @ as_workl s @ as_curl s)" using assms by (simp add: lists_ok_def)
  then show "finite (dom (as_work s))" by simp
qed (use assms in \<open>auto simp: lists_ok_def\<close>)

lemma lists_ok_work:
  assumes "lists_ok s" "a \<in> set (as_freel s) \<union> set (as_workl s) \<union> set (as_curl s)"
  obtains w where "as_work s a = Some w"
proof -
  have "a \<in> dom (as_work s)" using assms by (auto simp: lists_ok_def)
  then show thesis using that by auto
qed

text \<open>Only the thread at \<open>i\<close> changes what it holds.\<close>

lemma hands_split:
  assumes "i < length (as_thrd s)"
  shows "hands s = concat (map pc_work (take i (as_thrd s))) @ pc_work (as_thrd s ! i) @ concat (map pc_work (drop (Suc i) (as_thrd s)))"
    "hands (set_pc i pc s) = concat (map pc_work (take i (as_thrd s))) @ pc_work pc @ concat (map pc_work (drop (Suc i) (as_thrd s)))"
  using assms by (simp_all add: hands_def set_pc_def upd_conv_take_nth_drop id_take_nth_drop [symmetric])
    (metis concat_append concat.simps(2) id_take_nth_drop list.simps(9) map_append)

lemma pc_of_SomeD: "pc_of i s = Some pc \<Longrightarrow> i < length (as_thrd s) \<and> as_thrd s ! i = pc"
  by (simp add: pc_of_def split: if_splits)

lemma wake_work: "concat (map (pc_work \<circ> wake) ps) = concat (map pc_work ps)" "concat (map pc_work (wake_first ps)) = concat (map pc_work ps)"
proof -
  have "pc_work (wake p) = pc_work p" for p by (cases p) (auto simp: wake_def)
  then show "concat (map (pc_work \<circ> wake) ps) = concat (map pc_work ps)" by (simp add: comp_def)
  show "concat (map pc_work (wake_first ps)) = concat (map pc_work ps)" by (induction ps) auto
qed

lemma hands_wake [simp]: "hands (cnd_signal s) = hands s" "hands (cnd_broadcast s) = hands s"
  by (simp_all add: hands_def cnd_signal_def cnd_broadcast_def wake_work)


lemmas op_defs = as_event_def upd_work_def set_pc_def unlist_def move_free_def move_cur_def cnd_signal_def cnd_broadcast_def

lemma open_jobs_cong: "(\<And>a. jobs_of (g a) = jobs_of (f a)) \<Longrightarrow> dom g = dom f \<Longrightarrow> open_jobs g = open_jobs f"
  by (simp add: open_jobs_def)

section \<open>Threads\<close>

text \<open>A thread that takes an item, or changes its point without one.\<close>

lemma pc_inv:
  assumes i: "as_inv s" and p: "pc_of i s = Some old" "pc_work old = pc_work pc"
  shows "as_inv (set_pc i pc s)"
proof -
  have "hands (set_pc i pc s) = hands s"
    using hands_split(1) [where i = i and s = s] hands_split(2) [where i = i and s = s and pc = pc] pc_of_SomeD [OF p(1)] p(2) by simp
  then show ?thesis using i by (simp add: as_inv_def lists_ok_def counts_ok_def busy_def jobs_def set_pc_def)
qed

lemma take_inv:
  assumes i: "as_inv s" and p: "pc_of i s = Some old" "pc_work old = []"
  shows "as_inv (worker_take i s)"
proof (cases "as_workl s")
  case Nil
  then show ?thesis using i by (simp add: worker_take_def)
next
  case (Cons a rest)
  let ?s = "s\<lparr>as_workl := rest, as_curl := as_curl s @ [a]\<rparr>"
  have l: "lists_ok s" using i by (simp add: as_inv_def)
  have mv: "move_cur a s = ?s"
  proof -
    have "a \<notin> set (as_freel s)" "a \<notin> set (as_curl s)" using lists_okD(5,7) [OF l] Cons by auto
    then show ?thesis using Cons by (cases s) (simp add: move_cur_def unlist_def Let_def remove1_idem)
  qed
  have h: "hands s = hands ?s" by (simp add: hands_def)
  obtain pre post where hs: "hands s = pre @ post" "hands (set_pc i (Taken a) ?s) = pre @ a # post"
    using hands_split(1) [where i = i and s = ?s] hands_split(2) [where i = i and s = ?s and pc = "Taken a"] pc_of_SomeD [OF p(1)] p(2) h
    by simp
  have "a \<notin> set (busy s)" using lists_okD(7,8) [OF l] Cons by auto
  then have "lists_ok (set_pc i (Taken a) ?s)"
    using l Cons hs by (auto simp: lists_ok_def busy_def jobs_def set_pc_def)
  then show ?thesis using i mv Cons by (simp add: as_inv_def worker_take_def counts_ok_def set_pc_def)
qed

lemma worker_inv:
  assumes i: "as_inv s"
  shows "worker_top k s = Some s' \<Longrightarrow> as_inv s'" "worker_woken k s = Some s' \<Longrightarrow> as_inv s'"
    "worker_run wres k s = Some s' \<Longrightarrow> as_inv s'" "worker_push k s = Some s' \<Longrightarrow> as_inv s'"
proof -
  show "worker_top k s = Some s' \<Longrightarrow> as_inv s'"
    using pc_inv [OF i, of k Top] take_inv [OF i, of k Top] by (auto simp: worker_top_def split: if_splits)
  show "worker_woken k s = Some s' \<Longrightarrow> as_inv s'"
    using pc_inv [OF i, of k "Waiting True"] take_inv [OF i, of k "Waiting True"] by (auto simp: worker_woken_def split: if_splits)
next
  assume "worker_run wres k s = Some s'"
  then obtain a work where a: "pc_of k s = Some (Taken a)" "as_work s a = Some work"
    "s' = set_pc k (Worked a) (case aw_workh work of None \<Rightarrow> s
       | Some h \<Rightarrow> as_event (Ran h (aw_arg work)) (upd_work a (work\<lparr>aw_err := wres h (aw_arg work), aw_workh := None\<rparr>) s))"
    by (auto simp: worker_run_def split: option.splits wpc.splits bind_splits)
  let ?w = "\<lambda>h. work\<lparr>aw_err := wres h (aw_arg work), aw_workh := None\<rparr>"
  let ?s = "\<lambda>h. as_event (Ran h (aw_arg work)) (upd_work a (?w h) s)"
  have l: "lists_ok s" using i by (simp add: as_inv_def)
  have "jobs (?s h) b = jobs s b" for h b using a(2) by (simp add: jobs_def jobs_of_def op_defs split: option.splits)
  moreover have "dom (as_work (?s h)) = dom (as_work s)" for h using a(2) by (auto simp: op_defs)
  ultimately have "as_inv (?s h)" for h
    using i open_jobs_same [OF lists_okD(4) [OF l] a(2), of "?w h"]
    by (simp add: as_inv_def lists_ok_def counts_ok_def busy_def hands_def op_defs)
  moreover have "pc_of k (?s h) = pc_of k s" for h by (simp add: pc_of_def op_defs)
  ultimately show "as_inv s'" using pc_inv [where pc = "Worked a" and i = k and old = "Taken a"] i a(1,3)
    by (cases "aw_workh work") simp_all
next
  assume "worker_push k s = Some s'"
  then obtain a where a: "pc_of k s = Some (Worked a)" "s' = set_pc k Top (mqueue_push a s)"
    by (auto simp: worker_push_def split: option.splits wpc.splits)
  have l: "lists_ok s" using i by (simp add: as_inv_def)
  have hm: "hands (mqueue_push a s) = hands s" "as_thrd (mqueue_push a s) = as_thrd s" by (simp_all add: mqueue_push_def as_event_def hands_def)
  obtain pre post where hs: "hands s = pre @ a # post" "hands (set_pc k Top (mqueue_push a s)) = pre @ post"
    using hands_split(1) [where i = k and s = "mqueue_push a s"] hands_split(2) [where i = k and s = "mqueue_push a s" and pc = Top] pc_of_SomeD [OF a(1)] hm by simp
  have "lists_ok s'" using l hs a(2) by (auto simp: lists_ok_def busy_def jobs_def set_pc_def mqueue_push_def as_event_def split: option.splits)
  then show "as_inv s'" using i a(2) by (simp add: as_inv_def counts_ok_def set_pc_def mqueue_push_def as_event_def)
qed

section \<open>Event loop\<close>

lemma check_inv: "as_inv s \<Longrightarrow> as_inv (cnd_broadcast s)"
  by (simp add: as_inv_def lists_ok_def counts_ok_def busy_def jobs_def) (simp add: cnd_broadcast_def)

lemma call_inv:
  assumes i: "as_inv s" and c: "queueh_call s = Some s'"
  shows "as_inv s'"
proof -
  from c obtain a rest work where a: "as_main s = None" "as_pipe s = a # rest" "as_work s a = Some work"
    and s': "s' = (case aw_cb work of None \<Rightarrow> s\<lparr>as_pipe := rest, as_main := Some a\<rparr>
      | Some cb \<Rightarrow> upd_work a (work\<lparr>aw_cb := None\<rparr>) (as_event (Called cb (aw_err work) (aw_arg work)) (s\<lparr>as_pipe := rest, as_main := Some a\<rparr>)))"
    by (auto simp: queueh_call_def Let_def split: if_splits list.splits bind_splits)
  have l: "lists_ok s" using i by (simp add: as_inv_def)
  have b: "busy s' = busy s" using a by (cases "aw_cb work") (simp_all add: s' busy_def hands_def op_defs)
  have w: "as_work s' = (as_work s)(a \<mapsto> work\<lparr>aw_cb := None\<rparr>)"
    using a(3) by (cases "aw_cb work"; cases work) (auto simp: s' op_defs fun_upd_idem)
  have f: "as_freel s' = as_freel s" "as_workl s' = as_workl s" "as_curl s' = as_curl s" "as_main s' = Some a"
    by (cases "aw_cb work"; simp add: s' op_defs)+
  have "dom (as_work s') = dom (as_work s)" using a(3) w by auto
  then have "lists_ok s'" using l w b f by (simp add: lists_ok_def jobs_def) (simp add: jobs_of_def)
  moreover have "counts_ok s'"
    using i open_jobs_upd [OF lists_okD(4) [OF l], of a "work\<lparr>aw_cb := None\<rparr>"] a(3) w
    by (cases "aw_cb work") (simp_all add: as_inv_def counts_ok_def s' op_defs jobs_of_def)
  ultimately show ?thesis by (simp add: as_inv_def)
qed

lemma move_free_inv:
  assumes i: "as_inv s" and a: "a \<in> set (as_workl s) \<union> set (as_curl s)" "jobs s a = []" "a \<notin> set (busy s)"
  shows "as_inv (move_free a s)"
proof -
  have l: "lists_ok s" using i by (simp add: as_inv_def)
  have "distinct (remove1 a (as_workl s))" "distinct (remove1 a (as_curl s))" "a \<notin> set (as_freel s)"
    using lists_okD [OF l] a(1) by auto
  moreover have "set (remove1 a (as_workl s)) = set (as_workl s) - {a}" "set (remove1 a (as_curl s)) = set (as_curl s) - {a}"
    using lists_okD(2,3) [OF l] by auto
  moreover have "busy (move_free a s) = busy s" by (simp add: busy_def hands_def op_defs Let_def)
  ultimately have "lists_ok (move_free a s)" using l a by (auto simp: lists_ok_def op_defs Let_def jobs_def remove1_idem)
  then show ?thesis using i by (simp add: as_inv_def counts_ok_def op_defs Let_def)
qed

lemma free_inv:
  assumes i: "as_inv s" and c: "queueh_free s = Some s'"
  shows "as_inv s'"
proof -
  from c obtain a where a: "as_main s = Some a" "s' = move_free a (s\<lparr>as_main := None\<rparr>)" by (auto simp: queueh_free_def)
  have l: "lists_ok s" using i by (simp add: as_inv_def)
  have b: "busy s = a # busy (s\<lparr>as_main := None\<rparr>)" using a(1) by (simp add: busy_def hands_def)
  have "as_inv (s\<lparr>as_main := None\<rparr>)" using i b by (simp add: as_inv_def lists_ok_def counts_ok_def jobs_def)
  moreover have "a \<in> set (as_curl s)" "jobs s a = []" "a \<notin> set (busy (s\<lparr>as_main := None\<rparr>))"
    using l b a(1) by (auto simp: lists_ok_def)
  ultimately show ?thesis using move_free_inv [of "s\<lparr>as_main := None\<rparr>" a] a(2) by (simp add: jobs_def)
qed

section \<open>Posting and cancelling\<close>

lemma post_result:
  assumes l: "lists_ok s" and fresh: "\<And>a. new = Some a \<Longrightarrow> as_work s a = None" and p: "re_async new merr k h cb arg (Some s) = (err, Some s')"
    and n: "s' \<noteq> s"
  obtains a fl w where "a \<notin> set fl" "distinct fl" "set fl \<subseteq> set (as_freel s)" "set (as_freel s) \<subseteq> insert a (set fl)"
    "a \<in> set (as_freel s) \<or> as_freel s = []" "a \<notin> set (as_workl s)" "a \<notin> set (as_curl s)" "jobs s a = []" "aw_cb w = cb" "aw_arg w = arg"
    "s' = as_event (Posted cb arg) (cnd_signal (s\<lparr>as_freel := fl, as_workl := as_workl s @ [a], as_work := (as_work s)(a \<mapsto> w)\<rparr>))"
proof (cases "as_freel s")
  case Nil
  then obtain a where w: "work_alloc new merr = Inr a"
    using n p by (cases "work_alloc new merr") (auto simp: re_async_def)
  then have u: "as_work s a = None" using fresh by (auto simp: work_alloc_def split: option.splits if_splits)
  then have "a \<notin> dom (as_work s)" by auto
  then have "a \<notin> set (as_freel s @ as_workl s @ as_curl s)" using l by (simp add: lists_ok_def)
  then show thesis using that [of a "[]" "\<lparr>aw_workh = h, aw_cb = cb, aw_arg = arg, aw_err = aw_err awork0, aw_id = k\<rparr>"] p Nil u w
    by (cases s) (auto simp: re_async_def Let_def op_defs jobs_def)
next
  case (Cons a fl)
  then have m: "a \<notin> set fl" "distinct fl" "a \<notin> set (as_workl s)" "a \<notin> set (as_curl s)" using lists_okD [OF l] by auto
  have "jobs s a = []" using l Cons by (simp add: lists_ok_def)
  then show thesis
    using that [of a fl "\<lparr>aw_workh = h, aw_cb = cb, aw_arg = arg, aw_err = (case as_work s a of None \<Rightarrow> 0 | Some w \<Rightarrow> aw_err w), aw_id = k\<rparr>"] p m Cons
    by (cases s) (auto simp: re_async_def Let_def op_defs remove1_idem)
qed

lemma post_inv:
  assumes i: "as_inv s" and fresh: "\<And>a. new = Some a \<Longrightarrow> as_work s a = None" and p: "re_async new merr k h cb arg (Some s) = (err, Some s')"
  shows "as_inv s'"
proof (cases "s' = s")
  case True
  then show ?thesis using i by simp
next
  case False
  have l: "lists_ok s" using i by (simp add: as_inv_def)
  obtain a fl w where a: "a \<notin> set fl" "distinct fl" "set fl \<subseteq> set (as_freel s)" "set (as_freel s) \<subseteq> insert a (set fl)"
    "a \<in> set (as_freel s) \<or> as_freel s = []" "a \<notin> set (as_workl s)" "a \<notin> set (as_curl s)" "jobs s a = []" "aw_cb w = cb" "aw_arg w = arg"
    and s': "s' = as_event (Posted cb arg) (cnd_signal (s\<lparr>as_freel := fl, as_workl := as_workl s @ [a], as_work := (as_work s)(a \<mapsto> w)\<rparr>))"
    using post_result [OF l fresh p False] .
  have f: "as_freel s' = fl" "as_workl s' = as_workl s @ [a]" "as_curl s' = as_curl s" "as_main s' = as_main s"
    "as_work s' = (as_work s)(a \<mapsto> w)" "as_log s' = as_log s @ [Posted cb arg]" by (simp_all add: s' op_defs)
  have b: "busy s' = busy s" by (simp add: s' busy_def as_event_def cnd_signal_def hands_def wake_work)
  have "a \<notin> set (busy s)" using a(7) lists_okD(8) [OF l] by blast
  then have j: "jobs s' b = jobs s b" if "b \<noteq> a" for b using that f by (simp add: jobs_def)
  have "distinct (fl @ (as_workl s @ [a]) @ as_curl s)" using a(1-3,6,7) lists_okD [OF l] by auto
  moreover have "set (fl @ (as_workl s @ [a]) @ as_curl s) = insert a (dom (as_work s))"
    using a(3,4) l by (auto simp: lists_ok_def)
  moreover have "\<forall>b \<in> set fl. jobs s' b = []" using a(1,3) j l by (metis lists_ok_def subsetD)
  moreover have "\<forall>b. as_main s = Some b \<longrightarrow> jobs s' b = []"
    using j l \<open>a \<notin> set (busy s)\<close> by (auto simp: lists_ok_def busy_def)
  ultimately have "lists_ok s'" using l b f unfolding lists_ok_def by simp
  moreover have "counts_ok s'"
    using i open_jobs_upd [OF lists_okD(4) [OF l], of a w] a(8-10) f
    by (cases cb) (simp_all add: as_inv_def counts_ok_def jobs_def jobs_of_def)
  ultimately show ?thesis by (simp add: as_inv_def)
qed

lemma cancel_work_inv:
  assumes i: "as_inv s"
  shows "as_inv (cancel_work a s) \<and> jobs (cancel_work a s) a = [] \<and> busy (cancel_work a s) = busy s \<and>
     as_workl (cancel_work a s) = as_workl s \<and> as_curl (cancel_work a s) = as_curl s \<and> as_main (cancel_work a s) = as_main s"
proof (cases "as_work s a")
  case None
  then show ?thesis using i by (simp add: cancel_work_def jobs_def)
next
  case (Some w)
  let ?w = "w\<lparr>aw_id := 0, aw_workh := None, aw_cb := None, aw_arg := None\<rparr>"
  have l: "lists_ok s" using i by (simp add: as_inv_def)
  have f: "as_freel (cancel_work a s) = as_freel s" "as_workl (cancel_work a s) = as_workl s" "as_curl (cancel_work a s) = as_curl s"
    "as_main (cancel_work a s) = as_main s" "as_work (cancel_work a s) = (as_work s)(a \<mapsto> ?w)"
    "as_log (cancel_work a s) = as_log s @ [Cancelled (aw_cb w) (aw_arg w)]" "busy (cancel_work a s) = busy s"
    using Some by (simp_all add: cancel_work_def op_defs busy_def hands_def)
  have "dom (as_work (cancel_work a s)) = dom (as_work s)" using Some f(5) by auto
  moreover have "jobs (cancel_work a s) b = (if b = a then [] else jobs s b)" for b
    using f(5) by (simp add: jobs_def jobs_of_def)
  ultimately have "lists_ok (cancel_work a s)" using l f unfolding lists_ok_def by simp
  moreover have "counts_ok (cancel_work a s)"
    using i open_jobs_upd [OF lists_okD(4) [OF l], of a ?w] Some f
    by (cases "aw_cb w") (simp_all add: as_inv_def counts_ok_def jobs_of_def)
  ultimately show ?thesis using f by (simp add: as_inv_def jobs_def jobs_of_def)
qed

lemma cancel_workl_inv:
  "as_inv s \<Longrightarrow> distinct xs \<Longrightarrow> set xs \<subseteq> set (as_workl s) \<Longrightarrow> as_inv (cancel_workl k xs s)"
proof (induction xs arbitrary: s)
  case (Cons a xs)
  let ?c = "cancel_work a s"
  have c: "as_inv ?c" "jobs ?c a = []" "busy ?c = busy s" "as_workl ?c = as_workl s" "as_curl ?c = as_curl s"
    using cancel_work_inv [OF Cons.prems(1), of a] by simp_all
  have l: "lists_ok s" using Cons.prems(1) by (simp add: as_inv_def)
  have "a \<in> set (as_workl s)" using Cons.prems(3) by simp
  then have "a \<notin> set (busy s)" using lists_okD(7,8) [OF l] by blast
  then have "as_inv (move_free a ?c)" using move_free_inv [OF c(1), of a] c Cons.prems(3) by simp
  moreover have "set xs \<subseteq> set (as_workl (move_free a ?c))"
    using Cons.prems(2,3) c(4) lists_okD(2) [OF l] by (auto simp: op_defs Let_def)
  ultimately show ?case using Cons.IH [of "move_free a ?c"] Cons.IH [of s] Cons.prems by (cases "has_id k s a") simp_all
qed simp

lemma cancel_curl_inv: "as_inv s \<Longrightarrow> as_inv (cancel_curl k xs s)"
  by (induction k xs s rule: cancel_curl.induct) (simp_all add: cancel_work_inv)

lemma cancel_inv: "as_inv s \<Longrightarrow> re_async_cancel k (Some s) = Some s' \<Longrightarrow> as_inv s'"
  using cancel_workl_inv [of s "as_workl s" k] lists_okD(2) [of s] by (auto simp: re_async_cancel_def Let_def as_inv_def [of s] intro!: cancel_curl_inv)

section \<open>Runs\<close>

text \<open>One turn of some thread.  New items are new memory.  A thread may also wake up without a signal.\<close>

inductive as_step :: "(nat \<Rightarrow> nat option \<Rightarrow> errno) \<Rightarrow> async \<Rightarrow> async \<Rightarrow> bool" for wres where
  step_post: "(\<And>a. new = Some a \<Longrightarrow> as_work s a = None) \<Longrightarrow> re_async new merr k h cb arg (Some s) = (err, Some s') \<Longrightarrow> as_step wres s s'"
| step_cancel: "re_async_cancel k (Some s) = Some s' \<Longrightarrow> as_step wres s s'"
| step_top: "worker_top i s = Some s' \<Longrightarrow> as_step wres s s'"
| step_woken: "worker_woken i s = Some s' \<Longrightarrow> as_step wres s s'"
| step_spurious: "pc_of i s = Some (Waiting b) \<Longrightarrow> as_step wres s (set_pc i (Waiting True) s)"
| step_run: "worker_run wres i s = Some s' \<Longrightarrow> as_step wres s s'"
| step_push: "worker_push i s = Some s' \<Longrightarrow> as_step wres s s'"
| step_call: "queueh_call s = Some s' \<Longrightarrow> as_step wres s s'"
| step_free: "queueh_free s = Some s' \<Longrightarrow> as_step wres s s'"
| step_check: "as_step wres s (worker_check s)"
| step_destroy: "as_step wres s (destroy_begin s)"

inductive as_reach :: "(nat \<Rightarrow> nat option \<Rightarrow> errno) \<Rightarrow> u16 \<Rightarrow> async \<Rightarrow> bool" for wres workers where
  reach_alloc: "re_async_alloc True True 0 cap True create new merr workers = (OK, Some s) \<Longrightarrow>
    (\<And>i j a. new i = Some a \<Longrightarrow> new j = Some a \<Longrightarrow> i = j) \<Longrightarrow> as_reach wres workers s"
| reach_step: "as_reach wres workers s \<Longrightarrow> as_step wres s s' \<Longrightarrow> as_reach wres workers s'"

lemma start_threads_ok:
  assumes "start_threads create new merr k n s = (OK, s')" "as_thrd s = replicate k Top" "\<And>i j a. new i = Some a \<Longrightarrow> new j = Some a \<Longrightarrow> i = j"
    "as_inv s" "\<And>i a. k \<le> i \<Longrightarrow> new i = Some a \<Longrightarrow> as_work s a = None"
  shows "as_inv s' \<and> as_thrd s' = replicate (k + n) Top \<and> as_log s' = as_log s \<and> as_curl s' = as_curl s \<and> as_workl s' = as_workl s \<and>
    as_pipe s' = as_pipe s \<and> as_main s' = as_main s \<and> as_run s' = as_run s \<and> as_cap s' = as_cap s"
  using assms
proof (induction n arbitrary: k s)
  case (Suc n)
  then obtain a where a: "create k = 0" "new k = Some a"
    "start_threads create new merr (Suc k) n ((upd_work a awork0 (s\<lparr>as_thrd := as_thrd s @ [Top]\<rparr>))\<lparr>as_freel := as_freel s @ [a]\<rparr>) = (OK, s')"
    by (auto simp: Let_def work_alloc_def split: if_splits sum.splits option.splits)
  let ?s = "(upd_work a awork0 (s\<lparr>as_thrd := as_thrd s @ [Top]\<rparr>))\<lparr>as_freel := as_freel s @ [a]\<rparr>"
  have l: "lists_ok s" using Suc.prems(4) by (simp add: as_inv_def)
  have n: "as_work s a = None" using Suc.prems(5) a(2) by blast
  then have "a \<notin> set (as_freel s @ as_workl s @ as_curl s)" using l by (auto simp: lists_ok_def)
  moreover have "busy ?s = busy s" by (simp add: busy_def hands_def upd_work_def)
  ultimately have "lists_ok ?s" using l unfolding lists_ok_def
    by (auto simp: jobs_def upd_work_def awork0_def jobs_of_def busy_def split: option.splits)
  moreover have "counts_ok ?s"
    using Suc.prems(4) open_jobs_upd [OF lists_okD(4) [OF l], of a awork0] n by (simp add: as_inv_def counts_ok_def upd_work_def awork0_def jobs_of_def)
  ultimately have "as_inv ?s" by (simp add: as_inv_def)
  moreover have "as_work ?s b = None" if "Suc k \<le> i" "new i = Some b" for i b
    using Suc.prems(3) [of i b k] Suc.prems(5) [of i b] that a(2) by (auto simp: upd_work_def)
  ultimately show ?case using Suc.IH [OF a(3) _ Suc.prems(3)] Suc.prems(2) by (simp add: upd_work_def replicate_append_same)
qed simp

lemma alloc_inv:
  assumes "re_async_alloc True True 0 cap True create new merr workers = (OK, Some s)" "\<And>i j a. new i = Some a \<Longrightarrow> new j = Some a \<Longrightarrow> i = j"
  shows "as_inv s \<and> as_thrd s = replicate (unat workers) Top \<and> as_log s = [] \<and> busy s = [] \<and> as_curl s = [] \<and> as_workl s = [] \<and>
    as_run s \<and> as_cap s = cap"
proof -
  let ?s0 = "\<lparr>as_thrd = [], as_run = True, as_freel = [], as_workl = [], as_curl = [], as_pipe = [], as_cap = cap,
               as_main = None, as_work = (\<lambda>_. None), as_log = []\<rparr>"
  have "start_threads create new merr 0 (unat workers) ?s0 = (OK, s)"
    using assms(1) by (auto simp: re_async_alloc_def Let_def split: if_splits prod.splits)
  moreover have "as_inv ?s0"
    by (simp add: as_inv_def lists_ok_def counts_ok_def busy_def hands_def open_jobs_def posted_def called_def cancelled_def)
  ultimately show ?thesis using start_threads_ok [of create new merr 0 "unat workers" ?s0 s] assms(2)
    by (simp add: busy_def hands_def)
qed

lemma as_step_inv: "as_step wres s s' \<Longrightarrow> as_inv s \<Longrightarrow> as_inv s'"
proof (induction rule: as_step.induct)
  case (step_post new s merr k h cb arg err s')
  then show ?case using post_inv by blast
next
  case (step_destroy s)
  then show ?case
    using check_inv [of "s\<lparr>as_run := False\<rparr>"] by (simp add: destroy_begin_def as_inv_def lists_ok_def counts_ok_def busy_def hands_def jobs_def)
next
  case (step_spurious i s b)
  then show ?case using pc_inv [of s i "Waiting b" "Waiting True"] by simp
next
  case (step_check s)
  then show ?case using check_inv by (simp add: worker_check_def)
next
  case (step_cancel k s s')
  then show ?case using cancel_inv by blast
next
  case (step_call s s')
  then show ?case using call_inv by blast
next
  case (step_free s s')
  then show ?case using free_inv by blast
next
  case (step_top i s s')
  then show ?case using worker_inv(1) by blast
next
  case (step_woken i s s')
  then show ?case using worker_inv(2) by blast
next
  case (step_run i s s')
  then show ?case using worker_inv(3) by blast
next
  case (step_push i s s')
  then show ?case using worker_inv(4) by blast
qed

lemma as_reach_inv: "as_reach wres workers s \<Longrightarrow> as_inv s"
proof (induction rule: as_reach.induct)
  case (reach_alloc cap create new merr s)
  from alloc_inv [OF reach_alloc(1)] reach_alloc(2) show ?case by blast
next
  case (reach_step s s')
  then show ?case using as_step_inv by blast
qed

section \<open>Closing\<close>

lemma call_canceled_inv:
  assumes "as_inv s" "distinct xs" "set xs \<subseteq> dom (as_work s)"
  shows "counts_ok (call_canceled xs s) \<and> dom (as_work (call_canceled xs s)) = dom (as_work s) \<and>
     (\<forall>a. jobs (call_canceled xs s) a = (if a \<in> set xs then [] else jobs s a)) \<and> cancelled (as_log (call_canceled xs s)) = cancelled (as_log s) \<and>
     posted (as_log (call_canceled xs s)) = posted (as_log s) \<and> as_curl (call_canceled xs s) = as_curl s"
  using assms
proof (induction xs arbitrary: s)
  case Nil
  then show ?case by (simp add: as_inv_def)
next
  case (Cons a xs)
  then obtain w where w: "as_work s a = Some w" by auto
  let ?s = "case aw_cb w of None \<Rightarrow> s | Some cb \<Rightarrow> upd_work a (w\<lparr>aw_cb := None\<rparr>) (as_event (Called cb ECANCELED (aw_arg w)) s)"
  have l: "lists_ok s" using Cons.prems(1) by (simp add: as_inv_def)
  have wk: "as_work ?s = (as_work s)(a \<mapsto> w\<lparr>aw_cb := None\<rparr>)" using w by (cases "aw_cb w"; cases w) (auto simp: op_defs fun_upd_idem)
  have f: "as_freel ?s = as_freel s" "as_workl ?s = as_workl s" "as_curl ?s = as_curl s" "as_main ?s = as_main s" "busy ?s = busy s"
    by (cases "aw_cb w"; simp add: op_defs busy_def hands_def)+
  have d: "dom (as_work ?s) = dom (as_work s)" using w wk by auto
  have j: "jobs ?s b = (if b = a then [] else jobs s b)" for b using wk by (simp add: jobs_def jobs_of_def)
  have "lists_ok ?s" using l f d j unfolding lists_ok_def by simp
  moreover have "counts_ok ?s"
    using Cons.prems(1) open_jobs_upd [OF lists_okD(4) [OF l], of a "w\<lparr>aw_cb := None\<rparr>"] w
    by (cases "aw_cb w") (simp_all add: as_inv_def counts_ok_def op_defs jobs_of_def)
  ultimately have "as_inv ?s" by (simp add: as_inv_def)
  moreover have "posted (as_log ?s) = posted (as_log s)" "cancelled (as_log ?s) = cancelled (as_log s)"
    by (cases "aw_cb w"; simp add: op_defs)+
  moreover have "call_canceled (a # xs) s = call_canceled xs ?s" using w by simp
  ultimately obtain t where t: "call_canceled (a # xs) s = call_canceled xs t" "as_inv t" "dom (as_work t) = dom (as_work s)"
    "\<And>b. jobs t b = (if b = a then [] else jobs s b)" "as_curl t = as_curl s" "posted (as_log t) = posted (as_log s)"
    "cancelled (as_log t) = cancelled (as_log s)" using d j f by blast
  from Cons.IH [OF t(2)] show ?case unfolding t(1) using Cons.prems(2,3) t(3-7) by auto
qed

lemma call_canceled_append: "call_canceled (xs @ ys) s = call_canceled ys (call_canceled xs s)"
  by (induction xs s rule: call_canceled.induct) simp_all

lemma destroy_end_result:
  assumes "as_inv s" "destroy_end s = Some s'"
  shows "mset (posted (as_log s')) = mset (called (as_log s')) + mset (cancelled (as_log s')) \<and>
     posted (as_log s') = posted (as_log s) \<and> cancelled (as_log s') = cancelled (as_log s)"
proof -
  let ?t = "call_canceled (as_workl s) s"
  have l: "lists_ok s" using assms(1) by (simp add: as_inv_def)
  have dm: "dom (as_work s) = set (as_freel s) \<union> set (as_workl s) \<union> set (as_curl s)" using l by (auto simp: lists_ok_def)
  have s': "s' = (call_canceled (as_curl ?t) ?t)\<lparr>as_freel := [], as_workl := [], as_curl := [], as_pipe := [], as_work := (\<lambda>_. None)\<rparr>"
    using assms(2) by (simp add: destroy_end_def Let_def split: if_splits)
  have e: "call_canceled (as_curl s) ?t = call_canceled (as_workl s @ as_curl s) s"
    by (simp add: call_canceled_append)
  have "distinct (as_workl s @ as_curl s)" using lists_okD [OF l] by simp
  from call_canceled_inv [OF assms(1) this] obtain u where u: "u = call_canceled (as_workl s @ as_curl s) s" "counts_ok u"
    "dom (as_work u) = dom (as_work s)" "\<And>a. jobs u a = (if a \<in> set (as_workl s @ as_curl s) then [] else jobs s a)"
    "cancelled (as_log u) = cancelled (as_log s)" "posted (as_log u) = posted (as_log s)" using dm by auto
  have c: "as_curl ?t = as_curl s" using call_canceled_inv [OF assms(1) lists_okD(2) [OF l]] dm by auto
  have "jobs u a = []" if "a \<in> dom (as_work u)" for a
    using that u(3,4) dm l by (auto simp: lists_ok_def)
  then have "open_jobs (as_work u) = {#}" by (simp add: open_jobs_def jobs_def)
  then show ?thesis using u(1,2,5,6) s' e c by (simp add: counts_ok_def)
qed

section \<open>One worker\<close>

text \<open>Nothing was cancelled and no message was lost.\<close>

fun clean1 :: "aevent \<Rightarrow> bool" where
  "clean1 (Cancelled cb arg) = False"
| "clean1 (Lost a) = False"
| "clean1 _ = True"

definition clean :: "aevent list \<Rightarrow> bool" where "clean log = list_all clean1 log"

lemma clean_append [simp]: "clean (log @ [e]) = (clean log \<and> clean1 e)"
  by (simp add: clean_def)

definition waiting_jobs :: "async \<Rightarrow> job list" where
  "waiting_jobs s = concat (map (jobs s) (busy s @ as_workl s))"

definition fifo_inv :: "async \<Rightarrow> bool" where
  "fifo_inv s \<longleftrightarrow>
     (\<exists>pc. as_thrd s = [pc] \<and> (as_run s \<longrightarrow> pc \<noteq> Exited \<and> (as_workl s \<noteq> [] \<longrightarrow> pc \<noteq> Waiting False))) \<and>
     (clean (as_log s) \<longrightarrow> posted (as_log s) = called (as_log s) @ waiting_jobs s)"

lemma pc_of_single: "as_thrd s = [p] \<Longrightarrow> pc_of i s = Some pc \<Longrightarrow> i = 0 \<and> p = pc"
  by (auto simp: pc_of_def split: if_splits)

lemma single_defs: "as_thrd s = [p] \<Longrightarrow> hands s = pc_work p"
  by (simp add: hands_def)

text \<open>The jobs of a list of items only depend on those items.\<close>

lemma jobs_cong: "(\<And>a. a \<in> set xs \<Longrightarrow> jobs s' a = jobs s a) \<Longrightarrow> concat (map (jobs s') xs) = concat (map (jobs s) xs)"
  by (metis map_cong)

lemma fifo_pc:
  assumes "fifo_inv s" "pc_of i s = Some old" "pc_work old = pc_work pc" "as_run s \<Longrightarrow> pc \<noteq> Exited" "pc \<noteq> Waiting False \<or> as_workl s = []"
  shows "fifo_inv (set_pc i pc s)"
proof -
  obtain p where p: "as_thrd s = [p]" using assms(1) by (auto simp: fifo_inv_def)
  have "i = 0" "p = old" using pc_of_single [OF p assms(2)] by simp_all
  then have "hands (set_pc i pc s) = hands s" using p assms(3) by (simp add: hands_def set_pc_def)
  then have "waiting_jobs (set_pc i pc s) = waiting_jobs s"
    by (simp add: waiting_jobs_def busy_def jobs_def [abs_def]) (simp add: set_pc_def)
  then show ?thesis using assms p \<open>i = 0\<close> by (auto simp: fifo_inv_def) (auto simp: set_pc_def)
qed

lemma fifo_take:
  assumes v: "as_inv s" and f: "fifo_inv s" and p: "pc_of i s = Some old" "pc_work old = []" "as_workl s \<noteq> []"
  shows "fifo_inv (worker_take i s)"
proof -
  obtain a rest where w: "as_workl s = a # rest" using p(3) by (cases "as_workl s") auto
  obtain q where q: "as_thrd s = [q]" using f by (auto simp: fifo_inv_def)
  have i: "i = 0" "q = old" using pc_of_single [OF q p(1)] by simp_all
  have l: "lists_ok s" using v by (simp add: as_inv_def)
  have m: "a \<notin> set (as_freel s)" "a \<notin> set (as_curl s)" using lists_okD(5,7) [OF l] w by auto
  have t: "as_thrd (worker_take i s) = [Taken a]" "as_workl (worker_take i s) = rest" "as_log (worker_take i s) = as_log s"
    "as_run (worker_take i s) = as_run s" "jobs (worker_take i s) = jobs s" "busy (worker_take i s) = busy s @ [a]"
    using w q i p(2) m by (simp_all add: worker_take_def op_defs Let_def jobs_def [abs_def] busy_def hands_def)
  then have "waiting_jobs (worker_take i s) = waiting_jobs s" using w by (simp add: waiting_jobs_def)
  then show ?thesis using f t by (auto simp: fifo_inv_def)
qed

lemma cancel_log:
  "cancel_work a s = s \<and> as_work s a = None \<or> (\<exists>cb arg. as_log (cancel_work a s) = as_log s @ [Cancelled cb arg])"
  by (cases "as_work s a") (simp_all add: cancel_work_def op_defs)

lemma cancel_work_unclean: "\<not> clean (as_log s) \<Longrightarrow> \<not> clean (as_log (cancel_work a s))"
  using cancel_log [of a s] by auto

lemma cancel_workl_unclean: "\<not> clean (as_log s) \<Longrightarrow> \<not> clean (as_log (cancel_workl k xs s))"
  by (induction k xs s rule: cancel_workl.induct) (simp_all add: cancel_work_unclean op_defs Let_def)

lemma cancel_curl_unclean: "\<not> clean (as_log s) \<Longrightarrow> \<not> clean (as_log (cancel_curl k xs s))"
  by (induction k xs s rule: cancel_curl.induct) (simp_all add: cancel_work_unclean)

lemma cancel_work_has: "has_id k s a \<Longrightarrow> \<not> clean (as_log (cancel_work a s))"
  using cancel_log [of a s] by (auto simp: has_id_def)

lemma cancel_workl_clean: "cancel_workl k xs s = s \<or> \<not> clean (as_log (cancel_workl k xs s))"
proof (induction k xs s rule: cancel_workl.induct)
  case (2 k a as s)
  then show ?case using cancel_work_has [of k s a] cancel_workl_unclean [of "move_free a (cancel_work a s)" k as]
    by (cases "has_id k s a") (simp_all add: op_defs Let_def)
qed simp

lemma cancel_curl_clean: "cancel_curl k xs s = s \<or> \<not> clean (as_log (cancel_curl k xs s))"
proof (induction k xs s rule: cancel_curl.induct)
  case (2 k a as s)
  then show ?case using cancel_work_has [of k s a] cancel_curl_unclean [of "cancel_work a s" k as] by (cases "has_id k s a") simp_all
qed simp

text \<open>Cancelling leaves the thread alone and does not add to the waiting items.\<close>

lemma cancel_frame:
  "as_thrd (cancel_workl k xs s) = as_thrd s" "as_run (cancel_workl k xs s) = as_run s"
  "set (as_workl (cancel_workl k xs s)) \<subseteq> set (as_workl s)"
  "as_thrd (cancel_curl k xs s) = as_thrd s" "as_run (cancel_curl k xs s) = as_run s" "as_workl (cancel_curl k xs s) = as_workl s"
proof -
  have c: "as_thrd (cancel_work a s) = as_thrd s" "as_run (cancel_work a s) = as_run s" "as_workl (cancel_work a s) = as_workl s" for a s
    by (simp_all add: cancel_work_def op_defs split: option.splits)
  show "as_thrd (cancel_workl k xs s) = as_thrd s" "as_run (cancel_workl k xs s) = as_run s"
    by (induction k xs s rule: cancel_workl.induct) (simp_all add: c op_defs Let_def)
  show "set (as_workl (cancel_workl k xs s)) \<subseteq> set (as_workl s)"
  proof (induction k xs s rule: cancel_workl.induct)
    case (2 k a as s)
    then show ?case using set_remove1_subset [of a "as_workl s"] by (cases "has_id k s a") (auto simp: c op_defs Let_def)
  qed simp
  show "as_thrd (cancel_curl k xs s) = as_thrd s" "as_run (cancel_curl k xs s) = as_run s" "as_workl (cancel_curl k xs s) = as_workl s"
    by (induction k xs s rule: cancel_curl.induct) (simp_all add: c)
qed

lemma fifo_cancel:
  assumes "fifo_inv s" "re_async_cancel k (Some s) = Some s'"
  shows "fifo_inv s'"
proof -
  let ?t = "cancel_workl k (as_workl s) s"
  have s': "s' = cancel_curl k (as_curl ?t) ?t" using assms(2) by (simp add: re_async_cancel_def Let_def)
  have "s' = s \<or> \<not> clean (as_log s')"
    using cancel_workl_clean [of k "as_workl s" s] cancel_curl_clean [of k "as_curl ?t" ?t] cancel_curl_unclean [of ?t k "as_curl ?t"] s' by auto
  moreover have "as_thrd s' = as_thrd s" "as_run s' = as_run s" "as_workl s' \<noteq> [] \<longrightarrow> as_workl s \<noteq> []"
    using cancel_frame [of k] s' by auto
  ultimately show ?thesis using assms(1) by (auto simp: fifo_inv_def)
qed

lemma fifo_run:
  assumes f: "fifo_inv s" and r: "worker_run wres i s = Some s'"
  shows "fifo_inv s'"
proof -
  from r obtain a work where a: "pc_of i s = Some (Taken a)" "as_work s a = Some work"
    "s' = set_pc i (Worked a) (case aw_workh work of None \<Rightarrow> s
       | Some h \<Rightarrow> as_event (Ran h (aw_arg work)) (upd_work a (work\<lparr>aw_err := wres h (aw_arg work), aw_workh := None\<rparr>) s))"
    by (auto simp: worker_run_def split: option.splits wpc.splits bind_splits)
  obtain q where q: "as_thrd s = [q]" using f by (auto simp: fifo_inv_def)
  have i: "i = 0" "q = Taken a" using pc_of_single [OF q a(1)] by simp_all
  have t: "as_thrd s' = [Worked a]" "as_workl s' = as_workl s" "as_run s' = as_run s" "busy s' = busy s"
    using q i a(3) by (cases "aw_workh work"; simp add: op_defs busy_def hands_def)+
  have lg: "posted (as_log s') = posted (as_log s)" "called (as_log s') = called (as_log s)" "clean (as_log s') = clean (as_log s)"
    using a(3) by (cases "aw_workh work"; simp add: op_defs)+
  have "jobs s' b = jobs s b" for b
    using a(2,3) by (cases "aw_workh work") (auto simp: op_defs jobs_def jobs_of_def split: option.splits)
  then have "jobs s' = jobs s" by (rule ext)
  then have "waiting_jobs s' = waiting_jobs s" using t by (simp add: waiting_jobs_def)
  then show ?thesis using f t lg by (auto simp: fifo_inv_def)
qed

lemma fifo_push:
  assumes f: "fifo_inv s" and r: "worker_push i s = Some s'"
  shows "fifo_inv s'"
proof -
  from r obtain a where a: "pc_of i s = Some (Worked a)" "s' = set_pc i Top (mqueue_push a s)"
    by (auto simp: worker_push_def split: option.splits wpc.splits)
  obtain q where q: "as_thrd s = [q]" using f by (auto simp: fifo_inv_def)
  have i: "i = 0" "q = Worked a" using pc_of_single [OF q a(1)] by simp_all
  show ?thesis
  proof (cases "length (as_pipe s) < as_cap s")
    case True
    then have "waiting_jobs s' = waiting_jobs s" using a(2) q i
      by (simp add: waiting_jobs_def mqueue_push_def op_defs busy_def hands_def jobs_def [abs_def])
    then show ?thesis using f True a(2) q i by (auto simp: fifo_inv_def mqueue_push_def op_defs)
  next
    case False
    then show ?thesis using f a(2) q i by (auto simp: fifo_inv_def mqueue_push_def op_defs)
  qed
qed

lemma fifo_call:
  assumes v: "as_inv s" and f: "fifo_inv s" and c: "queueh_call s = Some s'"
  shows "fifo_inv s'"
proof -
  from c obtain a rest work where a: "as_main s = None" "as_pipe s = a # rest" "as_work s a = Some work"
    and s': "s' = (case aw_cb work of None \<Rightarrow> s\<lparr>as_pipe := rest, as_main := Some a\<rparr>
      | Some cb \<Rightarrow> upd_work a (work\<lparr>aw_cb := None\<rparr>) (as_event (Called cb (aw_err work) (aw_arg work)) (s\<lparr>as_pipe := rest, as_main := Some a\<rparr>)))"
    by (auto simp: queueh_call_def Let_def split: if_splits list.splits bind_splits)
  have l: "lists_ok s" using v by (simp add: as_inv_def)
  have b: "busy s = a # rest @ hands s" using a by (simp add: busy_def)
  then have n: "a \<notin> set (rest @ hands s)" "a \<in> set (as_curl s)" using l by (auto simp: lists_ok_def)
  then have n2: "a \<notin> set (as_workl s)" using lists_okD(7) [OF l] by auto
  have b': "busy s' = a # rest @ hands s" "as_thrd s' = as_thrd s" "as_workl s' = as_workl s" "as_run s' = as_run s"
    by (cases "aw_cb work"; simp add: s' busy_def hands_def op_defs)+
  have j: "jobs s' b = (if b = a then [] else jobs s b)" for b
    using a(3) by (cases "aw_cb work") (auto simp: s' op_defs jobs_def jobs_of_def)
  have "concat (map (jobs s') (rest @ hands s @ as_workl s)) = concat (map (jobs s) (rest @ hands s @ as_workl s))"
    using n n2 j by (intro jobs_cong) auto
  then have "jobs s a @ waiting_jobs s' = waiting_jobs s" using b b' j by (simp add: waiting_jobs_def)
  moreover have "posted (as_log s') = posted (as_log s)" "called (as_log s') = called (as_log s) @ jobs s a"
    "clean (as_log s') = clean (as_log s)"
    using a(3) by (cases "aw_cb work"; simp add: s' op_defs jobs_def jobs_of_def)+
  ultimately show ?thesis using f b' by (auto simp: fifo_inv_def)
qed

lemma fifo_free:
  assumes v: "as_inv s" and f: "fifo_inv s" and c: "queueh_free s = Some s'"
  shows "fifo_inv s'"
proof -
  from c obtain a where a: "as_main s = Some a" "s' = move_free a (s\<lparr>as_main := None\<rparr>)" by (auto simp: queueh_free_def)
  have l: "lists_ok s" using v by (simp add: as_inv_def)
  have b: "busy s = a # busy s'" using a by (simp add: busy_def hands_def op_defs Let_def)
  then have "a \<in> set (as_curl s)" "jobs s a = []" using l a(1) by (auto simp: lists_ok_def)
  then have "a \<notin> set (as_workl s)" using lists_okD(7) [OF l] by blast
  then have "as_workl s' = as_workl s" using a(2) by (simp add: op_defs Let_def remove1_idem)
  moreover have "jobs s' = jobs s" "as_thrd s' = as_thrd s" "as_run s' = as_run s" "as_log s' = as_log s"
    using a(2) by (simp_all add: jobs_def [abs_def] op_defs Let_def)
  ultimately show ?thesis using f b \<open>jobs s a = []\<close> by (auto simp: fifo_inv_def waiting_jobs_def)
qed

lemma fifo_post:
  assumes v: "as_inv s" and f: "fifo_inv s" and new: "\<And>a. new = Some a \<Longrightarrow> as_work s a = None"
    and p: "re_async new merr k h cb arg (Some s) = (err, Some s')"
  shows "fifo_inv s'"
proof (cases "s' = s")
  case True
  then show ?thesis using f by simp
next
  case False
  have l: "lists_ok s" using v by (simp add: as_inv_def)
  obtain a fl w where a: "a \<notin> set (as_workl s)" "a \<notin> set (as_curl s)" and w: "aw_cb w = cb" "aw_arg w = arg" and
    s': "s' = as_event (Posted cb arg) (cnd_signal (s\<lparr>as_freel := fl, as_workl := as_workl s @ [a], as_work := (as_work s)(a \<mapsto> w)\<rparr>))"
    using post_result [OF l new p False] by metis
  have na: "a \<notin> set (busy s)" using a(2) lists_okD(8) [OF l] by blast
  have t: "as_workl s' = as_workl s @ [a]" "as_thrd s' = wake_first (as_thrd s)" "as_run s' = as_run s"
    "as_log s' = as_log s @ [Posted cb arg]" by (simp_all add: s' op_defs)
  have b: "busy s' = busy s" by (simp add: s' busy_def as_event_def cnd_signal_def hands_def wake_work)
  have j: "jobs s' b = (if b = a then posted1 (Posted cb arg) else jobs s b)" for b
    using w by (cases cb) (simp_all add: s' jobs_def jobs_of_def op_defs)
  have "concat (map (jobs s') (busy s @ as_workl s)) = concat (map (jobs s) (busy s @ as_workl s))"
    using na a(1) j by (intro jobs_cong) auto
  then have "waiting_jobs s' = waiting_jobs s @ posted1 (Posted cb arg)" using t(1) b j by (simp add: waiting_jobs_def)
  moreover obtain p where "as_thrd s = [p]" using f by (auto simp: fifo_inv_def)
  ultimately show ?thesis using f t by (cases "p = Waiting False") (auto simp: fifo_inv_def)
qed

lemma fifo_wake: "fifo_inv s \<Longrightarrow> fifo_inv (cnd_broadcast s)"
proof -
  assume f: "fifo_inv s"
  then obtain p where "as_thrd s = [p]" by (auto simp: fifo_inv_def)
  moreover have "waiting_jobs (cnd_broadcast s) = waiting_jobs s"
    by (simp add: waiting_jobs_def busy_def jobs_def [abs_def]) (simp add: cnd_broadcast_def)
  ultimately show ?thesis using f by (auto simp: fifo_inv_def) (auto simp: cnd_broadcast_def wake_def)
qed

lemma fifo_destroy: "fifo_inv s \<Longrightarrow> fifo_inv (destroy_begin s)"
proof -
  assume "fifo_inv s"
  then have "fifo_inv (s\<lparr>as_run := False\<rparr>)" by (auto simp: fifo_inv_def waiting_jobs_def busy_def hands_def jobs_def [abs_def])
  then show ?thesis using fifo_wake by (simp add: destroy_begin_def)
qed

lemma as_step_fifo: "as_step wres s s' \<Longrightarrow> as_inv s \<Longrightarrow> fifo_inv s \<Longrightarrow> fifo_inv s'"
proof (induction rule: as_step.induct)
  case (step_post new s merr k h cb arg err s')
  then show ?case using fifo_post by blast
next
  case (step_cancel k s s')
  then show ?case using fifo_cancel by blast
next
  case (step_top i s s')
  then show ?case using fifo_pc [of s i Top] fifo_take [of s i Top] by (auto simp: worker_top_def split: if_splits)
next
  case (step_woken i s s')
  then show ?case using fifo_pc [of s i "Waiting True"] fifo_take [of s i "Waiting True"] by (auto simp: worker_woken_def split: if_splits)
next
  case (step_spurious i s b)
  then show ?case using fifo_pc [of s i "Waiting b"] by simp
next
  case (step_run i s s')
  then show ?case using fifo_run by blast
next
  case (step_push i s s')
  then show ?case using fifo_push by blast
next
  case (step_call s s')
  then show ?case using fifo_call by blast
next
  case (step_free s s')
  then show ?case using fifo_free by blast
next
  case (step_check s)
  then show ?case using fifo_wake by (simp add: worker_check_def)
next
  case (step_destroy s)
  then show ?case using fifo_destroy by blast
qed

lemma as_reach_fifo: "as_reach wres 1 s \<Longrightarrow> fifo_inv s"
proof (induction rule: as_reach.induct)
  case (reach_alloc cap create new merr s)
  have "as_thrd s = [Top]" "as_log s = []" "busy s = []" "as_workl s = []"
    using alloc_inv [OF reach_alloc(1)] reach_alloc(2) by simp_all
  then show ?case by (auto simp: fifo_inv_def waiting_jobs_def posted_def called_def)
next
  case (reach_step s s')
  then show ?case using as_step_fifo as_reach_inv by blast
qed

section \<open>Progress\<close>

text \<open>The worker and the event loop take their turns; one that cannot go on does nothing.\<close>

definition worker_turn :: "(nat \<Rightarrow> nat option \<Rightarrow> errno) \<Rightarrow> async \<Rightarrow> async" where
  "worker_turn wres s =
     (case (case pc_of 0 s of
              Some Top \<Rightarrow> worker_top 0 s
            | Some (Waiting b) \<Rightarrow> worker_woken 0 s
            | Some (Taken a) \<Rightarrow> worker_run wres 0 s
            | Some (Worked a) \<Rightarrow> worker_push 0 s
            | _ \<Rightarrow> None) of None \<Rightarrow> s | Some s' \<Rightarrow> s')"

definition main_turn :: "async \<Rightarrow> async" where
  "main_turn s =
     (case (if as_main s = None then queueh_call s else queueh_free s) of None \<Rightarrow> s | Some s' \<Rightarrow> s')"

definition as_round :: "(nat \<Rightarrow> nat option \<Rightarrow> errno) \<Rightarrow> async \<Rightarrow> async" where
  "as_round wres s = main_turn (worker_turn wres s)"

fun pc_left :: "wpc \<Rightarrow> nat" where
  "pc_left Top = 1"
| "pc_left (Waiting b) = (if b then 2 else 0)"
| "pc_left (Taken a) = 7"
| "pc_left (Worked a) = 6"
| "pc_left Exited = 0"

definition turns_left :: "async \<Rightarrow> nat" where
  "turns_left s = 8 * length (as_workl s) + sum_list (map pc_left (as_thrd s)) + 3 * length (as_pipe s) +
     (if as_main s = None then 0 else 1)"

definition calm :: "async \<Rightarrow> bool" where
  "calm s \<longleftrightarrow> as_inv s \<and> fifo_inv s \<and> as_run s \<and> clean (as_log s) \<and> length (busy s @ as_workl s) \<le> as_cap s"

lemma calm_step:
  assumes "calm s" "as_step wres s s'" "as_run s'" "as_cap s' = as_cap s" "clean (as_log s')"
    "length (busy s' @ as_workl s') \<le> length (busy s @ as_workl s)"
  shows "calm s'"
  using assms as_step_inv as_step_fifo by (fastforce simp: calm_def)

lemma calm_thread:
  assumes "calm s"
  obtains pc where "as_thrd s = [pc]" "pc \<noteq> Exited" "pc = Waiting False \<Longrightarrow> as_workl s = []"
  using assms by (auto simp: calm_def fifo_inv_def)

lemma worker_turn_calm:
  assumes c: "calm s"
  shows "calm (worker_turn wres s) \<and> posted (as_log (worker_turn wres s)) = posted (as_log s) \<and>
    (worker_turn wres s = s \<and> as_thrd s = [Waiting False] \<or> turns_left (worker_turn wres s) < turns_left s)"
proof -
  obtain pc where p: "as_thrd s = [pc]" "pc \<noteq> Exited" "pc = Waiting False \<Longrightarrow> as_workl s = []"
    using calm_thread [OF c] by blast
  have i: "as_inv s" "fifo_inv s" "as_run s" "clean (as_log s)" "length (busy s @ as_workl s) \<le> as_cap s" using c by (simp_all add: calm_def)
  have l: "lists_ok s" using i(1) by (simp add: as_inv_def)
  have k: "pc_of 0 s = Some pc" using p(1) by (simp add: pc_of_def)
  have h: "hands s = pc_work pc" using p(1) by (simp add: hands_def)
  have take: "calm (worker_take 0 s) \<and> posted (as_log (worker_take 0 s)) = posted (as_log s) \<and>
      8 + turns_left (worker_take 0 s) + pc_left pc = 8 + turns_left s + 7 - 8"
    if tk: "as_step wres s (worker_take 0 s)" "pc_work pc = []" "as_workl s \<noteq> []"
  proof -
    obtain a rest where w: "as_workl s = a # rest" using tk(3) by (cases "as_workl s") auto
    have m: "a \<notin> set (as_freel s)" "a \<notin> set (as_curl s)" using lists_okD(5,7) [OF l] w by auto
    have "as_thrd (worker_take 0 s) = [Taken a]" "as_workl (worker_take 0 s) = rest" "as_log (worker_take 0 s) = as_log s"
      "as_run (worker_take 0 s) = as_run s" "busy (worker_take 0 s) = busy s @ [a]" "as_cap (worker_take 0 s) = as_cap s"
      "as_pipe (worker_take 0 s) = as_pipe s" "as_main (worker_take 0 s) = as_main s"
      using w p(1) tk(2) m by (simp_all add: worker_take_def op_defs Let_def busy_def hands_def)
    then show ?thesis using calm_step [OF c tk(1)] i w p(1) by (simp add: turns_left_def)
  qed
  show ?thesis
  proof (cases pc)
    case Top
    then have t: "worker_turn wres s = (if as_workl s = [] then set_pc 0 (Waiting False) s else worker_take 0 s)"
      using k i(3) by (simp add: worker_turn_def worker_top_def)
    have st: "as_step wres s (worker_turn wres s)" using step_top [of 0 s] k i(3) Top t by (simp add: worker_top_def)
    show ?thesis
    proof (cases "as_workl s = []")
      case True
      then have "calm (worker_turn wres s)" using calm_step [OF c st] i t p(1) Top
        by (simp add: set_pc_def busy_def hands_def)
      then show ?thesis using t True p(1) Top by (simp add: set_pc_def turns_left_def)
    next
      case False
      then show ?thesis using take st t Top by simp
    qed
  next
    case (Waiting b)
    show ?thesis
    proof (cases b)
      case False
      then have "worker_turn wres s = s" using k Waiting by (simp add: worker_turn_def worker_woken_def)
      then show ?thesis using c p(1) Waiting False by simp
    next
      case True
      then have t: "worker_turn wres s = (if as_workl s = [] then set_pc 0 Top s else worker_take 0 s)"
        using k i(3) Waiting by (simp add: worker_turn_def worker_woken_def)
      have st: "as_step wres s (worker_turn wres s)" using step_woken [of 0 s] k i(3) Waiting True t by (simp add: worker_woken_def)
      show ?thesis
      proof (cases "as_workl s = []")
        case e: True
        then have "calm (worker_turn wres s)" using calm_step [OF c st] i t p(1) Waiting
          by (simp add: set_pc_def busy_def hands_def)
        then show ?thesis using t e p(1) Waiting True by (simp add: set_pc_def turns_left_def)
      next
        case f: False
        then show ?thesis using take st t Waiting True by simp
      qed
    qed
  next
    case (Taken a)
    then have "a \<in> set (as_curl s)" using h lists_okD(8) [OF l, of a] by (simp add: busy_def)
    then obtain w where w: "as_work s a = Some w" using lists_ok_work [OF l] by blast
    have t: "Some (worker_turn wres s) = worker_run wres 0 s" using k w Taken by (simp add: worker_turn_def worker_run_def)
    have st: "as_step wres s (worker_turn wres s)" using step_run t by metis
    have f: "as_thrd (worker_turn wres s) = [Worked a]" "as_workl (worker_turn wres s) = as_workl s" "as_run (worker_turn wres s) = as_run s"
      "busy (worker_turn wres s) = busy s" "as_cap (worker_turn wres s) = as_cap s" "as_pipe (worker_turn wres s) = as_pipe s"
      "as_main (worker_turn wres s) = as_main s"
      using t k w Taken p(1) by (cases "aw_workh w"; simp add: worker_run_def op_defs busy_def hands_def)+
    have "clean (as_log (worker_turn wres s)) = clean (as_log s)" "posted (as_log (worker_turn wres s)) = posted (as_log s)"
      using t k w Taken by (cases "aw_workh w"; simp add: worker_run_def op_defs)+
    then show ?thesis using calm_step [OF c st] i f p(1) Taken by (simp add: turns_left_def)
  next
    case (Worked a)
    have "length (as_pipe s) < as_cap s" using i(5) h Worked by (simp add: busy_def split: option.splits)
    then have t: "worker_turn wres s = set_pc 0 Top (s\<lparr>as_pipe := as_pipe s @ [a]\<rparr>)" "worker_push 0 s = Some (worker_turn wres s)"
      using k Worked by (simp_all add: worker_turn_def worker_push_def mqueue_push_def)
    have st: "as_step wres s (worker_turn wres s)" using step_push t(2) by metis
    show ?thesis using calm_step [OF c st] i p(1) Worked by (simp add: t(1) set_pc_def busy_def hands_def turns_left_def split: option.splits)
  qed (use p(2) in simp)
qed

lemma main_turn_calm:
  assumes c: "calm s"
  shows "calm (main_turn s) \<and> posted (as_log (main_turn s)) = posted (as_log s) \<and>
    (main_turn s = s \<and> as_main s = None \<and> as_pipe s = [] \<or> turns_left (main_turn s) < turns_left s)"
proof -
  have i: "as_inv s" "fifo_inv s" "as_run s" "clean (as_log s)" "length (busy s @ as_workl s) \<le> as_cap s" using c by (simp_all add: calm_def)
  have l: "lists_ok s" using i(1) by (simp add: as_inv_def)
  show ?thesis
  proof (cases "as_main s")
    case (Some a)
    have t: "main_turn s = move_free a (s\<lparr>as_main := None\<rparr>)" "queueh_free s = Some (main_turn s)" using Some by (simp_all add: main_turn_def queueh_free_def)
    have st: "as_step wres s (main_turn s)" for wres using step_free t(2) by metis
    have "length (as_workl (main_turn s)) \<le> length (as_workl s)" by (simp add: t(1) op_defs Let_def length_remove1)
    then show ?thesis using calm_step [OF c st] i Some by (simp add: t(1) op_defs Let_def busy_def hands_def turns_left_def)
  next
    case None
    show ?thesis
    proof (cases "as_pipe s")
      case Nil
      then show ?thesis using None c by (simp add: main_turn_def queueh_call_def)
    next
      case (Cons a rest)
      then have "a \<in> set (as_curl s)" using lists_okD(8) [OF l, of a] None by (simp add: busy_def)
      then obtain w where w: "as_work s a = Some w" using lists_ok_work [OF l] by blast
      have t: "queueh_call s = Some (main_turn s)" using None Cons w by (simp add: main_turn_def queueh_call_def Let_def)
      have st: "as_step wres s (main_turn s)" for wres using step_call t by metis
      have "as_run (main_turn s) = as_run s \<and> as_cap (main_turn s) = as_cap s \<and> clean (as_log (main_turn s)) = clean (as_log s) \<and>
        busy (main_turn s) = busy s \<and> as_workl (main_turn s) = as_workl s \<and> as_thrd (main_turn s) = as_thrd s \<and>
        as_pipe (main_turn s) = rest \<and> as_main (main_turn s) = Some a \<and> posted (as_log (main_turn s)) = posted (as_log s)"
        using None Cons w by (cases "aw_cb w") (simp_all add: main_turn_def queueh_call_def Let_def op_defs busy_def hands_def)
      then show ?thesis using calm_step [OF c st] i None Cons by (simp add: turns_left_def)
    qed
  qed
qed

lemma round_calm:
  assumes c: "calm s"
  shows "calm (as_round wres s) \<and> posted (as_log (as_round wres s)) = posted (as_log s) \<and>
    (waiting_jobs (as_round wres s) = [] \<and> as_round wres s = s \<or> turns_left (as_round wres s) < turns_left s)"
proof -
  let ?t = "worker_turn wres s"
  have w: "calm ?t" "posted (as_log ?t) = posted (as_log s)" "?t = s \<and> as_thrd s = [Waiting False] \<or> turns_left ?t < turns_left s"
    using worker_turn_calm [OF c, of wres] by auto
  have m: "calm (as_round wres s)" "posted (as_log (as_round wres s)) = posted (as_log ?t)"
    "as_round wres s = ?t \<and> as_main ?t = None \<and> as_pipe ?t = [] \<or> turns_left (as_round wres s) < turns_left ?t"
    using main_turn_calm [OF w(1)] by (auto simp: as_round_def)
  have "waiting_jobs s = []" if "as_thrd s = [Waiting False]" "as_main s = None" "as_pipe s = []"
  proof -
    obtain pc where p: "as_thrd s = [pc]" "pc = Waiting False \<Longrightarrow> as_workl s = []" using calm_thread [OF c] by blast
    have "pc = Waiting False" using p(1) that(1) by simp
    then show ?thesis using that p(2) by (simp add: waiting_jobs_def busy_def hands_def)
  qed
  then show ?thesis using w m by (elim disjE) auto
qed

lemma rounds_calm:
  "calm s \<Longrightarrow> turns_left s < n \<Longrightarrow>
   calm ((as_round wres ^^ n) s) \<and> posted (as_log ((as_round wres ^^ n) s)) = posted (as_log s) \<and> waiting_jobs ((as_round wres ^^ n) s) = []"
proof (induction n arbitrary: s)
  case (Suc n)
  have r: "calm (as_round wres s)" "posted (as_log (as_round wres s)) = posted (as_log s)"
    "waiting_jobs (as_round wres s) = [] \<and> as_round wres s = s \<or> turns_left (as_round wres s) < turns_left s"
    using round_calm [OF Suc.prems(1), of wres] by auto
  show ?case
  proof (cases "as_round wres s = s")
    case True
    then have "(as_round wres ^^ Suc n) s = s" by (induction n) (simp_all add: funpow_swap1)
    then show ?thesis using Suc.prems(1) r True by auto
  next
    case False
    then show ?thesis using Suc.IH [of "as_round wres s"] r Suc.prems(2) by (auto simp: funpow_swap1)
  qed
qed simp

lemma turns_left_le: "calm s \<Longrightarrow> turns_left s \<le> 8 * length (busy s @ as_workl s) + 2"
proof -
  assume c: "calm s"
  then obtain pc where "as_thrd s = [pc]" by (rule calm_thread)
  then show ?thesis by (cases pc) (auto simp: turns_left_def busy_def hands_def split: option.splits)
qed

section \<open>What the queue promises\<close>

text \<open>C19: However posting threads, workers, cancellations and the event loop interleave, a posted callback is called once,
  cancelled, or still open, never twice and never lost; closing the queue, whatever was under way, leaves none open.\<close>
theorem async_exactly_once:
  assumes "as_reach wres n s"
  shows "mset (posted (as_log s)) = mset (called (as_log s)) + mset (cancelled (as_log s)) + open_jobs (as_work s) \<and>
     (destroy_end s = Some s' \<longrightarrow> posted (as_log s') = posted (as_log s) \<and>
        mset (posted (as_log s')) = mset (called (as_log s')) + mset (cancelled (as_log s')))"
proof -
  have i: "as_inv s" by (rule as_reach_inv [OF assms])
  then show ?thesis using destroy_end_result [OF i, of s'] by (auto simp: as_inv_def counts_ok_def)
qed

text \<open>With one worker, as the bridge sets the queue up, the callbacks are called in the order in which they were posted:
  until something is cancelled or a message is lost, the calls made and the jobs that wait are exactly the posts.\<close>
theorem async_fifo:
  assumes "as_reach wres 1 s" "clean (as_log s)"
  shows "posted (as_log s) = called (as_log s) @ waiting_jobs s"
  using as_reach_fifo [OF assms(1)] assms(2) by (simp add: fifo_inv_def)

text \<open>C20: No wake-up is lost: in every reachable state of a queue with one worker that is running (not being closed), in which
  nothing was cancelled and no message lost, and whose pipe has room for the items on their way, when the worker and the
  event loop take turns every posted callback has been called, in order, after at most 8 turns of each for every item and 3
  more.\<close>
theorem async_drains:
  assumes "as_reach wres 1 s" "clean (as_log s)" "as_run s" "length (busy s @ as_workl s) \<le> as_cap s"
  shows "let s' = (as_round wres ^^ (8 * length (busy s @ as_workl s) + 3)) s
     in posted (as_log s') = posted (as_log s) \<and> called (as_log s') = posted (as_log s)"
proof -
  have c: "calm s" using as_reach_inv [OF assms(1)] as_reach_fifo [OF assms(1)] assms(2-4) by (simp add: calm_def)
  then have "turns_left s < 8 * length (busy s @ as_workl s) + 3" using turns_left_le by fastforce
  from rounds_calm [OF c this, of wres] show ?thesis by (auto simp: Let_def calm_def fifo_inv_def)
qed

section \<open>Concrete runs\<close>

datatype as_act = Post "nat option" "nat option" nat | Thread nat | Wake | Loop

definition as_exec1 :: "(nat \<Rightarrow> nat option \<Rightarrow> errno) \<Rightarrow> as_act \<Rightarrow> async \<Rightarrow> async option" where
  "as_exec1 wres x s =
     (case x of
        Post h cb a \<Rightarrow> if as_work s a = None then snd (re_async (Some a) 0 0 h cb None (Some s)) else None
      | Thread i \<Rightarrow>
          (case pc_of i s of
             Some Top \<Rightarrow> worker_top i s
           | Some (Waiting b) \<Rightarrow> worker_woken i s
           | Some (Taken a) \<Rightarrow> worker_run wres i s
           | Some (Worked a) \<Rightarrow> worker_push i s
           | _ \<Rightarrow> None)
      | Wake \<Rightarrow> Some (worker_check s)
      | Loop \<Rightarrow> if as_main s = None then queueh_call s else queueh_free s)"

fun as_exec :: "(nat \<Rightarrow> nat option \<Rightarrow> errno) \<Rightarrow> as_act list \<Rightarrow> async \<Rightarrow> async option" where
  "as_exec wres [] s = Some s"
| "as_exec wres (x # xs) s = Option.bind (as_exec1 wres x s) (as_exec wres xs)"

lemma as_exec1_step: "as_exec1 wres x s = Some s' \<Longrightarrow> as_step wres s s'"
proof (cases x)
  case (Post h cb a)
  assume "as_exec1 wres x s = Some s'"
  then have "as_work s a = None" "re_async (Some a) 0 0 h cb None (Some s) = (fst (re_async (Some a) 0 0 h cb None (Some s)), Some s')"
    using Post by (auto simp: as_exec1_def prod_eq_iff split: if_splits)
  then show ?thesis by (intro step_post) auto
qed (auto simp: as_exec1_def intro: step_top step_woken step_run step_push step_call step_free step_check split: option.splits wpc.splits if_splits)

lemma as_exec_reach: "as_exec wres xs s = Some s' \<Longrightarrow> as_reach wres n s \<Longrightarrow> as_reach wres n s'"
  by (induction wres xs s rule: as_exec.induct) (auto split: bind_splits intro: as_exec1_step reach_step)

definition as_start :: "u16 \<Rightarrow> async" where
  "as_start n = (case re_async_alloc True True 0 100 True (\<lambda>_. 0) (\<lambda>i. Some i) (\<lambda>_. 0) n of (err, Some s) \<Rightarrow> s)"

lemma as_start_reach: "n = (1 :: u16) \<or> n = 2 \<Longrightarrow> as_reach wres n (as_start n)"
proof -
  have "re_async_alloc True True 0 100 True (\<lambda>_. 0) (\<lambda>i. Some i) (\<lambda>_. 0) n = (OK, Some (as_start n))" if "n = 1 \<or> n = 2"
  proof -
    have "start_threads c nw me 0 2 = start_threads c nw me 0 (Suc (Suc 0))" for c nw me by (simp add: numeral_2_eq_2)
    then show ?thesis using that by (auto simp: as_start_def re_async_alloc_def Let_def work_alloc_def)
  qed
  moreover assume "n = 1 \<or> n = 2"
  ultimately show ?thesis by (intro reach_alloc) auto
qed

text \<open>Two jobs are waiting: the worker has taken the first, the second is still in its list.\<close>

definition as_ex :: async where
  "as_ex = the (as_exec (\<lambda>_ _. 0) [Post None (Some 11) 7, Post None (Some 12) 8, Thread 0] (as_start 1))"

lemma as_ex:
  "as_reach (\<lambda>_ _. 0) 1 as_ex" "as_log as_ex = [Posted (Some 11) None, Posted (Some 12) None]" "as_run as_ex"
  "busy as_ex = [0]" "as_workl as_ex = [8]" "2 \<le> as_cap as_ex"
proof -
  have "as_exec (\<lambda>_ _. 0) [Post None (Some 11) 7, Post None (Some 12) 8, Thread 0] (as_start 1) \<noteq> None" by code_simp
  then obtain s where "as_exec (\<lambda>_ _. 0) [Post None (Some 11) 7, Post None (Some 12) 8, Thread 0] (as_start 1) = Some s" by auto
  then show "as_reach (\<lambda>_ _. 0) 1 as_ex" using as_exec_reach [OF _ as_start_reach [of 1]] by (simp add: as_ex_def del: as_exec.simps)
qed code_simp+

lemma async_exactly_once_witness:
  "as_reach (\<lambda>_ _. 0) 1 as_ex \<and> open_jobs (as_work as_ex) = {#(11, None), (12, None)#}"
proof -
  have "posted (as_log as_ex) = [(11, None), (12, None)]" "called (as_log as_ex) = []" "cancelled (as_log as_ex) = []"
    by (simp_all add: as_ex(2) posted_def called_def cancelled_def)
  then show ?thesis using async_exactly_once [OF as_ex(1)] as_ex(1) by simp
qed

lemma async_fifo_witness:
  "as_reach (\<lambda>_ _. 0) 1 as_ex \<and> called (as_log as_ex) = [] \<and> waiting_jobs as_ex = [(11, None), (12, None)]"
proof -
  have "clean (as_log as_ex)" "posted (as_log as_ex) = [(11, None), (12, None)]" "called (as_log as_ex) = []"
    by (simp_all add: as_ex(2) posted_def called_def clean_def)
  then show ?thesis using async_fifo [OF as_ex(1)] as_ex(1) by simp
qed

lemma async_drains_witness:
  "as_reach (\<lambda>_ _. 0) 1 as_ex \<and> called (as_log ((as_round (\<lambda>_ _. 0) ^^ 19) as_ex)) = [(11, None), (12, None)]"
proof -
  have "clean (as_log as_ex)" "posted (as_log as_ex) = [(11, None), (12, None)]"
    by (simp_all add: as_ex(2) posted_def clean_def)
  then show ?thesis using async_drains [OF as_ex(1) _ as_ex(3)] as_ex(1,4-6) by (simp add: Let_def)
qed

text \<open>With two workers the order is not kept.\<close>

lemma two_workers_reorder:
  "\<exists>s. as_reach (\<lambda>_ _. 0) 2 s \<and> as_log s = [Posted (Some 11) None, Posted (Some 12) None, Called 12 0 None, Called 11 0 None]"
proof -
  let ?x = "as_exec (\<lambda>_ _. 0) [Post None (Some 11) 7, Post None (Some 12) 8, Thread 0, Thread 1, Thread 1, Thread 1, Thread 0, Thread 0,
    Loop, Loop, Loop] (as_start 2)"
  have "map_option as_log ?x = Some [Posted (Some 11) None, Posted (Some 12) None, Called 12 0 None, Called 11 0 None]" by code_simp
  then show ?thesis using as_exec_reach [OF _ as_start_reach, of "\<lambda>_ _. 0"] by blast
qed

text \<open>The error of an item is not reset when it is used again: a job that is posted without a handler is told of the
  error with which an earlier job failed.\<close>
theorem async_stale_error:
  "\<exists>s. as_reach (\<lambda>_ _. e) 1 s \<and>
     as_log s = [Posted (Some 11) None, Ran 3 None, Called 11 e None, Posted (Some 12) None, Called 12 e None]"
proof -
  let ?x = "as_exec (\<lambda>_ _. e) [Post (Some 3) (Some 11) 7, Thread 0, Thread 0, Thread 0, Loop, Loop, Post None (Some 12) 8,
    Thread 0, Thread 0, Thread 0, Loop] (as_start 1)"
  have "map_option as_log ?x = Some [Posted (Some 11) None, Ran 3 None, Called 11 e None, Posted (Some 12) None, Called 12 e None]"
    by code_simp
  then show ?thesis using as_exec_reach [OF _ as_start_reach, of "\<lambda>_ _. e"] by blast
qed

end
