(* ===== verification/Tmr.thy ===== *)
theory Tmr
  imports Prelude
begin

text \<open>
  The timers of libre (\<open>native/re/src/tmr/tmr.c\<close>) and how long the event loop sleeps for them (\<open>fd_poll\<close> and
  \<open>re_main\<close> of \<open>native/re/src/main/main.c\<close>).  A timer is a structure inside the object it belongs to and is
  named by its address; the timer list is the list of the addresses, the earliest first (the list operations on pointers
  are those of \<open>Re_List\<close>).  The code runs on the thread of the event loop; the locks that protect the list from
  other threads are not represented.  A handler is a number and a function \<open>call\<close> from handler and argument to what it
  does to the state, which may be extended with the state of the handlers' owners.  Times are 64-bit counts of
  milliseconds that wrap.
\<close>

section \<open>State\<close>

record tmr =
  tm_active :: bool
  tm_th :: "nat option"
  tm_arg :: nat
  tm_jfs :: u64

text \<open>\<open>tl_now\<close> is what \<open>tmr_jiffies\<close> returns.  The handlers called are appended to a log with the deadline.\<close>

record tmrl =
  tl_list :: "nat list"
  tl_tmr :: "nat \<Rightarrow> tmr"
  tl_now :: u64
  tl_log :: "(u64 \<times> nat) list"

definition upd_tmr :: "nat \<Rightarrow> (tmr \<Rightarrow> tmr) \<Rightarrow> 'a tmrl_scheme \<Rightarrow> 'a tmrl_scheme" where
  "upd_tmr a f s = s\<lparr>tl_tmr := (tl_tmr s)(a := f (tl_tmr s a))\<rparr>"

definition unlink_tmr :: "nat \<Rightarrow> 'a tmrl_scheme \<Rightarrow> 'a tmrl_scheme" where
  "unlink_tmr a s = s\<lparr>tl_list := remove1 a (tl_list s)\<rparr>"

definition jfs_of :: "'a tmrl_scheme \<Rightarrow> nat \<Rightarrow> u64" where
  "jfs_of s a = tm_jfs (tl_tmr s a)"

section \<open>The clock\<close>

definition tmr_jiffies_usec :: "(u64 \<times> u64) option \<Rightarrow> u64" where
  "tmr_jiffies_usec clock =
     (case clock of
        None \<Rightarrow> 0
      | Some (tv_sec, tv_nsec) \<Rightarrow> tv_sec * 1000000 + tv_nsec div 1000)"

definition tmr_jiffies :: "(u64 \<times> u64) option \<Rightarrow> u64" where
  "tmr_jiffies clock = tmr_jiffies_usec clock div 1000"

text \<open>\<open>tv_nsec\<close> is a number below \<open>1000000000\<close> to which less than that is added, so that the loop runs at most once
  and \<open>long\<close> does not overflow.\<close>

function timespec_carry :: "int \<Rightarrow> int \<Rightarrow> int \<times> int" where
  "timespec_carry sec nsec =
     (if nsec > 1000000000 then timespec_carry (sec + 1) (nsec - 1000000000) else (sec, nsec))"
  by pat_completeness auto
termination
  by (relation "measure (\<lambda>(sec, nsec). nat nsec)") auto

declare timespec_carry.simps [simp del]

definition tmr_timespec_get :: "(errno + int \<times> int) \<Rightarrow> u64 \<Rightarrow> errno \<times> int \<times> int" where
  "tmr_timespec_get clock offset =
     (case clock of
        Inl err \<Rightarrow> (err, 0, 0)
      | Inr (sec, nsec) \<Rightarrow>
          (OK, if offset \<noteq> 0
               then timespec_carry (sec + int (unat (offset div 1000))) (nsec + int (unat (offset * 1000000 mod 1000000000)))
               else (sec, nsec)))"

section \<open>Starting, stopping and expiry\<close>

definition inspos_handler :: "u64 \<Rightarrow> tmr \<Rightarrow> bool" where
  "inspos_handler now tmr \<longleftrightarrow> tm_jfs tmr \<le> now"

definition inspos_handler_0 :: "u64 \<Rightarrow> tmr \<Rightarrow> bool" where
  "inspos_handler_0 now tmr \<longleftrightarrow> tm_jfs tmr > now"

text \<open>\<open>list_apply\<close> with a predicate stops at the first element that satisfies it, from the head or from the tail.\<close>

fun ins_before :: "nat \<Rightarrow> nat \<Rightarrow> nat list \<Rightarrow> nat list" where
  "ins_before le a [] = []"
| "ins_before le a (x # xs) = (if x = le then a # x # xs else x # ins_before le a xs)"

fun ins_after :: "nat \<Rightarrow> nat \<Rightarrow> nat list \<Rightarrow> nat list" where
  "ins_after le a [] = []"
| "ins_after le a (x # xs) = (if x = le then x # a # xs else x # ins_after le a xs)"

definition tmr_insert :: "u64 \<Rightarrow> nat \<Rightarrow> 'a tmrl_scheme \<Rightarrow> 'a tmrl_scheme" where
  "tmr_insert delay a s =
     (let jfs = jfs_of s a;
          xs = tl_list s
      in if delay = 0 then
           (case find (\<lambda>b. inspos_handler_0 jfs (tl_tmr s b)) xs of
              Some le \<Rightarrow> s\<lparr>tl_list := ins_before le a xs\<rparr>
            | None \<Rightarrow> s\<lparr>tl_list := xs @ [a]\<rparr>)
         else
           (case find (\<lambda>b. inspos_handler jfs (tl_tmr s b)) (rev xs) of
              Some le \<Rightarrow> s\<lparr>tl_list := ins_after le a xs\<rparr>
            | None \<Rightarrow> s\<lparr>tl_list := a # xs\<rparr>))"

definition tmr_startcont :: "nat \<Rightarrow> u64 \<Rightarrow> bool \<Rightarrow> nat option \<Rightarrow> nat \<Rightarrow> 'a tmrl_scheme \<Rightarrow> 'a tmrl_scheme" where
  "tmr_startcont a delay syncnow th arg s =
     (if \<not> tm_active (tl_tmr s a) \<and> th = None then s
      else
        let s = upd_tmr a (\<lambda>t. t\<lparr>tm_active := False\<rparr>) s;
            s = (if tm_th (tl_tmr s a) \<noteq> None then unlink_tmr a s else s);
            s = upd_tmr a (\<lambda>t. t\<lparr>tm_th := th, tm_arg := arg\<rparr>) s
        in if th = None then s
           else
             let s = (if syncnow then upd_tmr a (\<lambda>t. t\<lparr>tm_jfs := tl_now s\<rparr>) s else s);
                 s = upd_tmr a (\<lambda>t. t\<lparr>tm_jfs := tm_jfs t + delay\<rparr>) s;
                 s = tmr_insert delay a s
             in upd_tmr a (\<lambda>t. t\<lparr>tm_active := True\<rparr>) s)"

definition tmr_start :: "nat \<Rightarrow> u64 \<Rightarrow> nat option \<Rightarrow> nat \<Rightarrow> 'a tmrl_scheme \<Rightarrow> 'a tmrl_scheme" where
  "tmr_start a delay th arg s = tmr_startcont a delay True th arg s"

definition tmr_continue :: "nat \<Rightarrow> u64 \<Rightarrow> nat option \<Rightarrow> nat \<Rightarrow> 'a tmrl_scheme \<Rightarrow> 'a tmrl_scheme" where
  "tmr_continue a delay th arg s = tmr_startcont a delay False th arg s"

definition tmr_cancel :: "nat \<Rightarrow> 'a tmrl_scheme \<Rightarrow> 'a tmrl_scheme" where
  "tmr_cancel a s = tmr_start a 0 None 0 s"

definition tmr_init :: "nat \<Rightarrow> 'a tmrl_scheme \<Rightarrow> 'a tmrl_scheme" where
  "tmr_init a s = upd_tmr a (\<lambda>t. \<lparr>tm_active = False, tm_th = None, tm_arg = 0, tm_jfs = 0\<rparr>) s"

definition tmr_get_expire :: "nat \<Rightarrow> 'a tmrl_scheme \<Rightarrow> u64" where
  "tmr_get_expire a s =
     (if tm_th (tl_tmr s a) = None then 0
      else if jfs_of s a > tl_now s then jfs_of s a - tl_now s else 0)"

definition tmrl_count :: "'a tmrl_scheme option \<Rightarrow> u32" where
  "tmrl_count s = (case s of None \<Rightarrow> 0 | Some s \<Rightarrow> word_of_nat (length (tl_list s)))"

section \<open>Running the timers\<close>

text \<open>The loop of \<open>tmr_poll\<close>: \<open>None\<close> when it never ends.\<close>

partial_function (option) poll_loop ::
    "(nat \<Rightarrow> nat \<Rightarrow> 'a tmrl_scheme \<Rightarrow> 'a tmrl_scheme) \<Rightarrow> u64 \<Rightarrow> 'a tmrl_scheme \<Rightarrow> 'a tmrl_scheme option" where
  "poll_loop call jfs s =
     (case tl_list s of
        [] \<Rightarrow> Some s
      | a # _ \<Rightarrow>
          if jfs_of s a > jfs then Some s
          else
            let th = tm_th (tl_tmr s a);
                th_arg = tm_arg (tl_tmr s a);
                s = upd_tmr a (\<lambda>t. t\<lparr>tm_th := None\<rparr>) s;
                s = unlink_tmr a s
            in if th = None then poll_loop call jfs s
               else poll_loop call jfs (call (the th) th_arg (s\<lparr>tl_log := tl_log s @ [(jfs_of s a, a)]\<rparr>)))"

definition tmr_poll :: "(nat \<Rightarrow> nat \<Rightarrow> 'a tmrl_scheme \<Rightarrow> 'a tmrl_scheme) \<Rightarrow> 'a tmrl_scheme \<Rightarrow> 'a tmrl_scheme option" where
  "tmr_poll call s = poll_loop call (tl_now s) s"

definition tmr_next_timeout :: "'a tmrl_scheme \<Rightarrow> u64" where
  "tmr_next_timeout s =
     (case tl_list s of
        [] \<Rightarrow> 0
      | a # _ \<Rightarrow> if jfs_of s a \<le> tl_now s then 1 else jfs_of s a - tl_now s)"

text \<open>The timeout that \<open>fd_poll\<close> gives to \<open>epoll_wait\<close>, a 32-bit \<open>int\<close>: negative is for ever.\<close>

definition epoll_timeout :: "'a tmrl_scheme \<Rightarrow> int" where
  "epoll_timeout s = (let to = tmr_next_timeout s in if to \<noteq> 0 then sint (ucast to :: u32) else - 1)"

end
