(* ===== verification/Tmr_Spec.thy ===== *)
theory Tmr_Spec
  imports Tmr "HOL-Library.Sublist"
begin

text \<open>
  What the timers guarantee.  The list is sorted by deadline and holds exactly the running timers (\<open>tm_inv\<close>); both ways
  in which a timer is inserted give the same place, behind the timers with the same deadline.  The interface that the
  owners of timers rely on is the locale \<open>timer_map\<close>: a running timer has a deadline, starting and cancelling change
  that of one timer only, and the head is the earliest.  A poll calls the handlers of the due timers in the order of
  their deadlines and ends, unless handlers start timers that are due at once.
\<close>

section \<open>The invariant\<close>

definition tm_inv :: "'a tmrl_scheme \<Rightarrow> bool" where
  "tm_inv s \<longleftrightarrow> distinct (tl_list s) \<and> sorted_wrt (\<lambda>a b. jfs_of s a \<le> jfs_of s b) (tl_list s) \<and>
     (\<forall>a. a \<in> set (tl_list s) \<longleftrightarrow> tm_th (tl_tmr s a) \<noteq> None) \<and>
     (\<forall>a. tm_th (tl_tmr s a) \<noteq> None \<longrightarrow> tm_active (tl_tmr s a))"

lemma tm_invD:
  assumes "tm_inv s"
  shows "distinct (tl_list s)" "sorted_wrt (\<lambda>a b. jfs_of s a \<le> jfs_of s b) (tl_list s)"
    "a \<in> set (tl_list s) \<longleftrightarrow> tm_th (tl_tmr s a) \<noteq> None"
    "tm_th (tl_tmr s a) = Some h \<Longrightarrow> tm_active (tl_tmr s a)"
    "\<not> tm_active (tl_tmr s a) \<Longrightarrow> tm_th (tl_tmr s a) = None"
  using assms by (auto simp: tm_inv_def)

lemmas tmr_state = upd_tmr_def unlink_tmr_def jfs_of_def

section \<open>Where a timer is inserted\<close>

lemma ins_before_split: "l \<notin> set xs \<Longrightarrow> ins_before l a (xs @ l # ys) = xs @ a # l # ys"
  by (induction xs) auto

lemma ins_after_split: "l \<notin> set xs \<Longrightarrow> ins_after l a (xs @ l # ys) = xs @ l # a # ys"
  by (induction xs) auto

lemma find_skip: "\<forall>b\<in>set xs. \<not> P b \<Longrightarrow> find P (xs @ ys) = find P ys"
  by (induction xs) auto

lemma sorted_dropWhile_greater:
  fixes d :: "'k :: linorder"
  shows "sorted_wrt (\<lambda>a b. f a \<le> f b) xs \<Longrightarrow> b \<in> set (dropWhile (\<lambda>x. f x \<le> d) xs) \<Longrightarrow> d < f b"
proof (induction xs)
  case (Cons x xs)
  show ?case
  proof (cases "f x \<le> d")
    case False
    then have "b = x \<or> f x \<le> f b" using Cons.prems by auto
    with False show ?thesis by auto
  qed (use Cons in auto)
qed simp

lemma split_at_deadline:
  fixes d :: "'k :: linorder"
  assumes "sorted_wrt (\<lambda>a b. f a \<le> f b) xs"
  obtains A B where "xs = A @ B" "takeWhile (\<lambda>b. f b \<le> d) xs = A" "dropWhile (\<lambda>b. f b \<le> d) xs = B"
    "\<forall>b\<in>set A. f b \<le> d" "\<forall>b\<in>set B. d < f b"
proof (rule that)
  show "\<forall>b\<in>set (takeWhile (\<lambda>b. f b \<le> d) xs). f b \<le> d" by (auto dest: set_takeWhileD)
  show "\<forall>b\<in>set (dropWhile (\<lambda>b. f b \<le> d) xs). d < f b" using sorted_dropWhile_greater [OF assms] by blast
qed simp_all

text \<open>From the head: before the first that is later.  From the tail: after the first that is not later.\<close>

lemma insert_from_head:
  fixes d :: "'k :: linorder"
  assumes "sorted_wrt (\<lambda>a b. f a \<le> f b) xs" "distinct xs"
  shows "(case find (\<lambda>b. d < f b) xs of Some le \<Rightarrow> ins_before le a xs | None \<Rightarrow> xs @ [a]) =
     takeWhile (\<lambda>b. f b \<le> d) xs @ a # dropWhile (\<lambda>b. f b \<le> d) xs"
proof -
  obtain A B where s: "xs = A @ B" "takeWhile (\<lambda>b. f b \<le> d) xs = A" "dropWhile (\<lambda>b. f b \<le> d) xs = B"
    "\<forall>b\<in>set A. f b \<le> d" "\<forall>b\<in>set B. d < f b" using split_at_deadline [OF assms(1)] by blast
  have "\<forall>b\<in>set A. \<not> d < f b" using s(4) by auto
  then have f: "find (\<lambda>b. d < f b) (A @ B) = find (\<lambda>b. d < f b) B" by (rule find_skip)
  show ?thesis unfolding s(2,3) unfolding s(1) f
    using s(5) assms(2) by (cases B) (auto simp: s(1) ins_before_split)
qed

lemma insert_from_tail:
  fixes d :: "'k :: linorder"
  assumes "sorted_wrt (\<lambda>a b. f a \<le> f b) xs" "distinct xs"
  shows "(case find (\<lambda>b. f b \<le> d) (rev xs) of Some le \<Rightarrow> ins_after le a xs | None \<Rightarrow> a # xs) =
     takeWhile (\<lambda>b. f b \<le> d) xs @ a # dropWhile (\<lambda>b. f b \<le> d) xs"
proof -
  obtain A B where s: "xs = A @ B" "takeWhile (\<lambda>b. f b \<le> d) xs = A" "dropWhile (\<lambda>b. f b \<le> d) xs = B"
    "\<forall>b\<in>set A. f b \<le> d" "\<forall>b\<in>set B. d < f b" using split_at_deadline [OF assms(1)] by blast
  have "\<forall>b\<in>set (rev B). \<not> f b \<le> d" using s(5) by auto
  then have f: "find (\<lambda>b. f b \<le> d) (rev B @ rev A) = find (\<lambda>b. f b \<le> d) (rev A)" by (rule find_skip)
  show ?thesis unfolding s(2,3) unfolding s(1) rev_append f
    using s(4) assms(2) by (cases A rule: rev_cases) (auto simp: s(1) ins_after_split)
qed

definition insert_place :: "u64 \<Rightarrow> nat \<Rightarrow> 'a tmrl_scheme \<Rightarrow> nat list" where
  "insert_place d a s = takeWhile (\<lambda>b. jfs_of s b \<le> d) (tl_list s) @ a # dropWhile (\<lambda>b. jfs_of s b \<le> d) (tl_list s)"

lemma tmr_insert_place:
  assumes "sorted_wrt (\<lambda>a b. jfs_of s a \<le> jfs_of s b) (tl_list s)" "distinct (tl_list s)"
  shows "tmr_insert delay a s = s\<lparr>tl_list := insert_place (jfs_of s a) a s\<rparr>"
  unfolding tmr_insert_def insert_place_def inspos_handler_def inspos_handler_0_def jfs_of_def [symmetric] Let_def
  using insert_from_tail [OF assms, where d = "jfs_of s a" and a = a] insert_from_head [OF assms, where d = "jfs_of s a" and a = a]
  by (simp split: option.splits)

lemma insert_place_sorted:
  assumes "sorted_wrt (\<lambda>a b. jfs_of s a \<le> jfs_of s b) (tl_list s)" "jfs_of s a = d"
  shows "sorted_wrt (\<lambda>a b. jfs_of s a \<le> jfs_of s b) (insert_place d a s)"
proof -
  let ?A = "takeWhile (\<lambda>b. jfs_of s b \<le> d) (tl_list s)" and ?B = "dropWhile (\<lambda>b. jfs_of s b \<le> d) (tl_list s)"
  have "sorted_wrt (\<lambda>a b. jfs_of s a \<le> jfs_of s b) (?A @ ?B)" using assms(1) by simp
  moreover have "\<forall>b\<in>set ?B. d \<le> jfs_of s b" using sorted_dropWhile_greater [OF assms(1)] by fastforce
  moreover have "\<forall>b\<in>set ?A. jfs_of s b \<le> d" by (auto dest: set_takeWhileD)
  ultimately show ?thesis using assms(2) unfolding insert_place_def sorted_wrt_append by auto
qed

lemma insert_place_set [simp]: "set (insert_place d a s) = insert a (set (tl_list s))"
  unfolding insert_place_def by (metis Un_insert_right list.simps(15) set_append takeWhile_dropWhile_id)

lemma insert_place_distinct: "distinct (tl_list s) \<Longrightarrow> a \<notin> set (tl_list s) \<Longrightarrow> distinct (insert_place d a s)"
  unfolding insert_place_def
  by (metis distinct.simps(2) distinct_append disjoint_insert(2) insertE list.simps(15) set_append takeWhile_dropWhile_id Un_iff distinct_takeWhile distinct_dropWhile)

section \<open>Starting and cancelling\<close>

text \<open>The state after a start: the timer stands behind those that are due no later.\<close>

definition started_at :: "u64 \<Rightarrow> nat \<Rightarrow> nat \<Rightarrow> nat \<Rightarrow> 'a tmrl_scheme \<Rightarrow> 'a tmrl_scheme" where
  "started_at d a h arg s =
     s\<lparr>tl_list := insert_place d a (s\<lparr>tl_list := remove1 a (tl_list s)\<rparr>),
       tl_tmr := (tl_tmr s)(a := \<lparr>tm_active = True, tm_th = Some h, tm_arg = arg, tm_jfs = d\<rparr>)\<rparr>"

lemma insert_place_cong:
  assumes "tl_list s = tl_list s'" "\<And>b. b \<in> set (tl_list s) \<Longrightarrow> jfs_of s b = jfs_of s' b"
  shows "insert_place d a s = insert_place d a s'"
proof -
  have "takeWhile (\<lambda>b. jfs_of s b \<le> d) (tl_list s) = takeWhile (\<lambda>b. jfs_of s' b \<le> d) (tl_list s')"
    "dropWhile (\<lambda>b. jfs_of s b \<le> d) (tl_list s) = dropWhile (\<lambda>b. jfs_of s' b \<le> d) (tl_list s')"
    using assms(2) by (auto intro!: takeWhile_cong dropWhile_cong assms(1))
  then show ?thesis by (simp add: insert_place_def)
qed

lemma removed:
  assumes "tm_inv s"
  shows "sorted_wrt (\<lambda>a b. jfs_of s a \<le> jfs_of s b) (remove1 a (tl_list s))" "distinct (remove1 a (tl_list s))"
    "set (remove1 a (tl_list s)) = set (tl_list s) - {a}" "tm_th (tl_tmr s a) = None \<Longrightarrow> remove1 a (tl_list s) = tl_list s"
  using tm_invD(1,2) [OF assms] tm_invD(3) [OF assms, of a]
  by (simp_all add: remove1_idem distinct_remove1_removeAll removeAll_filter_not_eq sorted_wrt_filter filter_id_conv)
    (auto simp: removeAll_filter_not_eq)

lemma startcont_started:
  assumes i: "tm_inv s"
  shows "tmr_startcont a delay sync (Some h) arg s = started_at ((if sync then tl_now s else jfs_of s a) + delay) a h arg s"
proof -
  let ?d = "(if sync then tl_now s else jfs_of s a) + delay"
  let ?s = "s\<lparr>tl_list := remove1 a (tl_list s), tl_tmr := (tl_tmr s)(a := \<lparr>tm_active = False, tm_th = Some h, tm_arg = arg, tm_jfs = ?d\<rparr>)\<rparr>"
  note r = removed [OF i, of a]
  have o: "jfs_of ?s b = jfs_of s b" if "b \<noteq> a" for b using that by (simp add: jfs_of_def)
  have a: "jfs_of ?s a = ?d" by (simp add: jfs_of_def)
  have "sorted_wrt (\<lambda>a b. jfs_of ?s a \<le> jfs_of ?s b) (tl_list ?s)"
    using r(1,3) o by (auto intro: sorted_wrt_mono_rel [of _ "\<lambda>a b. jfs_of s a \<le> jfs_of s b"])
  moreover have "distinct (tl_list ?s)" using r(2) by simp
  ultimately have "tmr_insert delay a ?s = ?s\<lparr>tl_list := insert_place (jfs_of ?s a) a ?s\<rparr>" by (rule tmr_insert_place)
  moreover have "insert_place (jfs_of ?s a) a ?s = insert_place ?d a (s\<lparr>tl_list := remove1 a (tl_list s)\<rparr>)"
    unfolding a using r(3) by (intro insert_place_cong) (auto simp: jfs_of_def)
  moreover have "tmr_startcont a delay sync (Some h) arg s = upd_tmr a (\<lambda>t. t\<lparr>tm_active := True\<rparr>) (tmr_insert delay a ?s)"
    using r(4) by (cases s; cases "tl_tmr s a") (auto simp: tmr_startcont_def Let_def tmr_state)
  ultimately show ?thesis by (cases s) (simp add: started_at_def upd_tmr_def)
qed

lemma started_inv:
  assumes i: "tm_inv s"
  shows "tm_inv (started_at d a h arg s)"
proof -
  let ?s = "started_at d a h arg s"
  let ?r = "s\<lparr>tl_list := remove1 a (tl_list s)\<rparr>"
  note r = removed [OF i, of a]
  have l: "tl_list ?s = insert_place d a ?r" by (simp add: started_at_def)
  have j: "jfs_of ?s b = (if b = a then d else jfs_of s b)" for b by (simp add: started_at_def jfs_of_def)
  let ?u = "?s\<lparr>tl_list := remove1 a (tl_list s)\<rparr>"
  have ju: "jfs_of ?u b = (if b = a then d else jfs_of s b)" for b by (simp add: started_at_def jfs_of_def)
  have "sorted_wrt (\<lambda>a b. jfs_of ?u a \<le> jfs_of ?u b) (tl_list ?u)"
    using r(1,3) ju by (auto intro: sorted_wrt_mono_rel [of _ "\<lambda>a b. jfs_of s a \<le> jfs_of s b"])
  then have "sorted_wrt (\<lambda>a b. jfs_of ?u a \<le> jfs_of ?u b) (insert_place d a ?u)"
    by (rule insert_place_sorted) (simp only: ju simp_thms if_True)
  moreover have "insert_place d a ?u = insert_place d a ?r" using r(3) by (intro insert_place_cong) (auto simp: started_at_def jfs_of_def)
  moreover have "jfs_of ?u = jfs_of ?s" by (rule ext) (simp only: j ju)
  ultimately have "sorted_wrt (\<lambda>a b. jfs_of ?s a \<le> jfs_of ?s b) (tl_list ?s)" unfolding l by (simp only:)
  moreover have "distinct (tl_list ?s)" unfolding l using r(2,3) by (intro insert_place_distinct) simp_all
  moreover have "b \<in> set (tl_list ?s) \<longleftrightarrow> tm_th (tl_tmr ?s b) \<noteq> None" for b
    unfolding l using r(3) tm_invD(3) [OF i, of b] by (auto simp: started_at_def)
  moreover have "tm_th (tl_tmr ?s b) \<noteq> None \<longrightarrow> tm_active (tl_tmr ?s b)" for b
    using tm_invD(4) [OF i, of b] by (cases "tm_th (tl_tmr s b)") (simp_all add: started_at_def)
  ultimately show ?thesis unfolding tm_inv_def by blast
qed

lemma cancelled:
  assumes i: "tm_inv s"
  shows "tl_list (tmr_cancel a s) = remove1 a (tl_list s)" "tm_th (tl_tmr (tmr_cancel a s) a) = None"
    "b \<noteq> a \<Longrightarrow> tl_tmr (tmr_cancel a s) b = tl_tmr s b" "jfs_of (tmr_cancel a s) b = jfs_of s b"
    "tl_now (tmr_cancel a s) = tl_now s" "tl_log (tmr_cancel a s) = tl_log s"
    "tm_active (tl_tmr (tmr_cancel a s) b) \<longrightarrow> b \<noteq> a \<and> tm_active (tl_tmr s b)"
  using removed(4) [OF i, of a] tm_invD(5) [OF i, of a]
  by (auto simp: tmr_cancel_def tmr_start_def tmr_startcont_def Let_def tmr_state)

lemma cancel_tm_inv:
  assumes i: "tm_inv s"
  shows "tm_inv (tmr_cancel a s)"
proof -
  note r = removed [OF i, of a] and c = cancelled [OF i, where a = a]
  have "b \<in> set (remove1 a (tl_list s)) \<longleftrightarrow> tm_th (tl_tmr (tmr_cancel a s) b) \<noteq> None" for b
    using r(3) c(2) c(3) [where b = b] tm_invD(3) [OF i, of b] by (cases "b = a") auto
  moreover have "tm_th (tl_tmr (tmr_cancel a s) b) \<noteq> None \<longrightarrow> tm_active (tl_tmr (tmr_cancel a s) b)" for b
    using c(2) c(3) [where b = b] tm_invD(4) [OF i, of b] by (cases "b = a"; cases "tm_th (tl_tmr s b)") simp_all
  ultimately show ?thesis using r(1,2) c(1,4) by (simp add: tm_inv_def)
qed

section \<open>The interface\<close>

text \<open>The deadline of a running timer.\<close>

definition deadline :: "'a tmrl_scheme \<Rightarrow> nat \<Rightarrow> u64 option" where
  "deadline s a = (if tm_th (tl_tmr s a) = None then None else Some (jfs_of s a))"

definition earliest :: "'a tmrl_scheme \<Rightarrow> nat option" where
  "earliest s = first_or None (tl_list s)"

text \<open>What the owners of timers rely on.  \<open>start a d\<close> starts a timer, the handler and its argument given.\<close>

locale timer_map =
  fixes inv :: "'s \<Rightarrow> bool"
    and dl :: "'s \<Rightarrow> nat \<Rightarrow> u64 option"
    and clock :: "'s \<Rightarrow> u64"
    and start :: "nat \<Rightarrow> u64 \<Rightarrow> 's \<Rightarrow> 's"
    and cancel :: "nat \<Rightarrow> 's \<Rightarrow> 's"
    and next_of :: "'s \<Rightarrow> nat option"
  assumes start_inv: "inv s \<Longrightarrow> inv (start a d s)"
    and cancel_inv': "inv s \<Longrightarrow> inv (cancel a s)"
    and dl_start: "inv s \<Longrightarrow> dl (start a d s) = (dl s)(a := Some (clock s + d))"
    and dl_cancel: "inv s \<Longrightarrow> dl (cancel a s) = (dl s)(a := None)"
    and clock_start: "inv s \<Longrightarrow> clock (start a d s) = clock s"
    and next_None: "inv s \<Longrightarrow> next_of s = None \<longleftrightarrow> (\<forall>a. dl s a = None)"
    and next_Some: "inv s \<Longrightarrow> next_of s = Some a \<Longrightarrow> \<exists>e. dl s a = Some e \<and> (\<forall>b e'. dl s b = Some e' \<longrightarrow> e \<le> e')"
begin

lemma restart: "inv s \<Longrightarrow> dl (start a d (start a d' s)) = dl (start a d s)"
  by (simp add: dl_start start_inv clock_start)

lemma start_then_cancel: "inv s \<Longrightarrow> dl s a = None \<Longrightarrow> dl (cancel a (start a d s)) = dl s"
  by (auto simp: dl_start dl_cancel start_inv)

text \<open>A timer that is due no later than any other is next, or one with the same deadline is.\<close>

lemma start_earliest:
  assumes "inv s" "\<forall>b e. dl s b = Some e \<longrightarrow> clock s + d \<le> e"
  shows "\<exists>b. next_of (start a d s) = Some b \<and> dl (start a d s) b = Some (clock s + d)"
proof -
  let ?s = "start a d s"
  have i: "inv ?s" and a: "dl ?s a = Some (clock s + d)" using start_inv dl_start assms(1) by auto
  then obtain b where b: "next_of ?s = Some b" using next_None by fastforce
  then obtain e where "dl ?s b = Some e" "e \<le> clock s + d" using next_Some [OF i b] a by blast
  moreover from this have "clock s + d \<le> e" using assms(2) dl_start [OF assms(1), of a d] by (cases "b = a") auto
  ultimately show ?thesis using b by (intro exI [of _ b]) (auto intro: antisym)
qed

end

lemma deadline_started: "deadline (started_at d a h arg s) = (deadline s)(a := Some d)"
  by (rule ext) (simp add: deadline_def started_at_def jfs_of_def)

lemma deadline_cancelled:
  assumes "tm_inv s"
  shows "deadline (tmr_cancel a s) = (deadline s)(a := None)"
proof
  fix b
  show "deadline (tmr_cancel a s) b = ((deadline s)(a := None)) b"
    using cancelled(2) [OF assms, of a] cancelled(3) [OF assms, of b a] cancelled(4) [OF assms, of a b] unfolding deadline_def by (cases "b = a") simp_all
qed

lemma earliest_least:
  assumes "tm_inv s" "earliest s = Some a"
  shows "\<exists>e. deadline s a = Some e \<and> (\<forall>b e'. deadline s b = Some e' \<longrightarrow> e \<le> e')"
proof -
  obtain xs where x: "tl_list s = a # xs" using first_or_SomeD [OF assms(2) [unfolded earliest_def]] by (elim exE)
  have "\<forall>b\<in>set xs. jfs_of s a \<le> jfs_of s b" using tm_invD(2) [OF assms(1)] unfolding x sorted_wrt.simps ..
  then have "jfs_of s a \<le> jfs_of s b" if "b \<in> set (tl_list s)" for b
    using that unfolding x by (metis order_refl set_ConsD)
  moreover have "a \<in> set (tl_list s)" using x by simp
  ultimately show ?thesis using tm_invD(3) [OF assms(1)] by (auto simp: deadline_def)
qed

interpretation timers: timer_map tm_inv deadline tl_now "\<lambda>a d. tmr_start a d (Some h) arg" tmr_cancel earliest
proof
  fix s :: "'a tmrl_scheme" and a d
  assume i: "tm_inv s"
  have st: "tmr_start a d (Some h) arg s = started_at (tl_now s + d) a h arg s"
    using startcont_started [OF i, of a d True h arg] by (simp add: tmr_start_def)
  show "tm_inv (tmr_start a d (Some h) arg s)" "deadline (tmr_start a d (Some h) arg s) = (deadline s)(a := Some (tl_now s + d))"
    "tl_now (tmr_start a d (Some h) arg s) = tl_now s"
    unfolding st using started_inv [OF i] deadline_started by (auto simp: started_at_def)
  show "tm_inv (tmr_cancel a s)" "deadline (tmr_cancel a s) = (deadline s)(a := None)"
    using cancel_tm_inv [OF i] deadline_cancelled [OF i] by blast+
  show "earliest s = None \<longleftrightarrow> (\<forall>a. deadline s a = None)"
    using tm_invD(3) [OF i] by (auto simp: earliest_def deadline_def) (metis list.set_intros(1) neq_Nil_conv)
  show "\<exists>e. deadline s a = Some e \<and> (\<forall>b e'. deadline s b = Some e' \<longrightarrow> e \<le> e')" if "earliest s = Some a" for a
    using earliest_least [OF i that] .
qed

text \<open>C31: A timer is started behind all timers that are due no later and before the others, whichever end of the list
  is searched: timers with the same deadline keep the order in which they were started.  Only this timer gets a new
  deadline, and the list stays sorted.\<close>
theorem tmr_start_keeps_order:
  assumes "tm_inv s"
  shows "let d = tl_now s + delay; xs = remove1 a (tl_list s); s' = tmr_start a delay (Some h) arg s
     in tl_list s' = takeWhile (\<lambda>b. jfs_of s b \<le> d) xs @ a # dropWhile (\<lambda>b. jfs_of s b \<le> d) xs \<and>
        tm_inv s' \<and> deadline s' = (deadline s)(a := Some d)"
proof -
  let ?s = "tmr_start a delay (Some h) arg s"
  have "?s = started_at (tl_now s + delay) a h arg s"
    using startcont_started [OF assms, of a delay True h arg] by (simp add: tmr_start_def)
  then have "tl_list ?s = insert_place (tl_now s + delay) a (s\<lparr>tl_list := remove1 a (tl_list s)\<rparr>)" by (simp add: started_at_def)
  moreover have "insert_place d a (s\<lparr>tl_list := xs\<rparr>) = takeWhile (\<lambda>b. jfs_of s b \<le> d) xs @ a # dropWhile (\<lambda>b. jfs_of s b \<le> d) xs" for d xs
    by (simp add: insert_place_def jfs_of_def)
  ultimately show ?thesis using timers.start_inv [OF assms] timers.dl_start [OF assms] by (simp add: Let_def)
qed

section \<open>Running the timers\<close>

definition due_at :: "u64 \<Rightarrow> 'a tmrl_scheme \<Rightarrow> nat list" where
  "due_at jfs s = filter (\<lambda>a. jfs_of s a \<le> jfs) (tl_list s)"

text \<open>What a handler may do while the timers due at \<open>jfs\<close> run: anything that keeps the invariant and starts no timer that
  is due at once.  The clock does not go back, and stays below \<open>2 ^ 63\<close> ms.\<close>

definition clock_ok :: "u64 \<Rightarrow> 'a tmrl_scheme \<Rightarrow> bool" where
  "clock_ok jfs s \<longleftrightarrow> jfs \<le> tl_now s \<and> unat (tl_now s) < 2 ^ 63"

definition handler_ok :: "u64 \<Rightarrow> 'a tmrl_scheme \<Rightarrow> 'a tmrl_scheme \<Rightarrow> bool" where
  "handler_ok jfs s s' \<longleftrightarrow> tm_inv s' \<and> clock_ok jfs s' \<and> tl_log s' = tl_log s \<and> subseq (due_at jfs s') (due_at jfs s) \<and>
     (\<forall>a\<in>set (due_at jfs s'). jfs_of s' a = jfs_of s a)"

definition call_ok :: "(nat \<Rightarrow> nat \<Rightarrow> 'a tmrl_scheme \<Rightarrow> 'a tmrl_scheme) \<Rightarrow> u64 \<Rightarrow> bool" where
  "call_ok call jfs \<longleftrightarrow> (\<forall>h arg s. tm_inv s \<longrightarrow> clock_ok jfs s \<longrightarrow> handler_ok jfs s (call h arg s))"

text \<open>Operations of a well-behaved handler.\<close>

lemma due_started:
  assumes "tm_inv s" "jfs < d"
  shows "due_at jfs (started_at d a h arg s) = remove1 a (due_at jfs s)"
proof -
  let ?r = "s\<lparr>tl_list := remove1 a (tl_list s)\<rparr>" and ?xs = "remove1 a (tl_list s)"
  have l: "tl_list (started_at d a h arg s) = takeWhile (\<lambda>b. jfs_of s b \<le> d) ?xs @ a # dropWhile (\<lambda>b. jfs_of s b \<le> d) ?xs"
    by (simp add: started_at_def insert_place_def jfs_of_def)
  have j: "jfs_of (started_at d a h arg s) b = (if b = a then d else jfs_of s b)" for b by (simp add: started_at_def jfs_of_def)
  have f: "filter (\<lambda>b. (if b = a then d else jfs_of s b) \<le> jfs) (xs @ a # ys) = filter (\<lambda>b. jfs_of s b \<le> jfs) (removeAll a (xs @ ys))" for xs ys
    using assms(2) by (auto simp: removeAll_filter_not_eq intro!: arg_cong2 [where f = "(@)"] filter_cong)
  have "due_at jfs (started_at d a h arg s) = filter (\<lambda>b. jfs_of s b \<le> jfs) (removeAll a ?xs)"
    unfolding due_at_def l j f takeWhile_dropWhile_id ..
  also have "removeAll a ?xs = removeAll a (tl_list s)" using tm_invD(1) [OF assms(1)] by (simp add: distinct_remove1_removeAll)
  also have "filter (\<lambda>b. jfs_of s b \<le> jfs) (removeAll a (tl_list s)) = removeAll a (due_at jfs s)"
    by (simp add: due_at_def removeAll_filter_not_eq conj_commute)
  also have "\<dots> = remove1 a (due_at jfs s)"
    using tm_invD(1) [OF assms(1)] by (simp add: due_at_def distinct_remove1_removeAll)
  finally show ?thesis .
qed

lemma subseq_remove1: "subseq (remove1 a xs) xs"
  by (induction xs) auto

lemma start_handler_ok:
  assumes "tm_inv s" "clock_ok jfs s" "jfs < tl_now s + delay"
  shows "handler_ok jfs s (tmr_start a delay (Some h) arg s)"
proof -
  have st: "tmr_start a delay (Some h) arg s = started_at (tl_now s + delay) a h arg s"
    using startcont_started [OF assms(1), of a delay True h arg] by (simp add: tmr_start_def)
  note d = due_started [OF assms(1,3), of a h arg]
  have "b \<noteq> a" if "b \<in> set (remove1 a (due_at jfs s))" for b
    using that tm_invD(1) [OF assms(1)] by (auto simp: due_at_def)
  then show ?thesis
    using assms(2) started_inv [OF assms(1)] unfolding handler_ok_def st d
    by (auto simp: subseq_remove1 clock_ok_def started_at_def jfs_of_def)
qed

lemma cancel_handler_ok:
  assumes "tm_inv s" "clock_ok jfs s"
  shows "handler_ok jfs s (tmr_cancel a s)"
proof -
  have "due_at jfs (tmr_cancel a s) = remove1 a (due_at jfs s)"
    using tm_invD(1) [OF assms(1)]
    by (simp add: due_at_def cancelled [OF assms(1)] distinct_remove1_removeAll removeAll_filter_not_eq conj_commute)
  then show ?thesis using assms(2) cancel_tm_inv [OF assms(1), of a] cancelled(4-6) [OF assms(1)]
    by (simp add: handler_ok_def clock_ok_def subseq_remove1)
qed

text \<open>The first due timer is taken from the list before its handler is called.\<close>

definition taken :: "nat \<Rightarrow> 'a tmrl_scheme \<Rightarrow> 'a tmrl_scheme" where
  "taken a s = unlink_tmr a (upd_tmr a (\<lambda>t. t\<lparr>tm_th := None\<rparr>) s)"

lemma taken_inv:
  assumes i: "tm_inv s"
  shows "tm_inv (taken a s)" "jfs_of (taken a s) b = jfs_of s b" "due_at jfs (taken a s) = remove1 a (due_at jfs s)"
proof -
  note r = removed [OF i, of a]
  have l: "tl_list (taken a s) = remove1 a (tl_list s)" and j: "jfs_of (taken a s) b = jfs_of s b" for b
    by (simp_all add: taken_def tmr_state)
  show "jfs_of (taken a s) b = jfs_of s b" by (rule j)
  have "b \<in> set (tl_list (taken a s)) \<longleftrightarrow> tm_th (tl_tmr (taken a s) b) \<noteq> None" for b
    using r(3) tm_invD(3) [OF i, of b] by (simp add: l) (simp add: taken_def tmr_state)
  moreover have "tm_th (tl_tmr (taken a s) b) \<noteq> None \<longrightarrow> tm_active (tl_tmr (taken a s) b)" for b
    using tm_invD(4) [OF i, of b] by (cases "tm_th (tl_tmr s b)") (simp_all add: taken_def tmr_state)
  ultimately show "tm_inv (taken a s)" unfolding tm_inv_def using r(1,2) by (simp add: l j)
  show "due_at jfs (taken a s) = remove1 a (due_at jfs s)"
    using tm_invD(1) [OF i] by (simp add: due_at_def l j distinct_remove1_removeAll removeAll_filter_not_eq conj_commute)
qed

lemma poll_body:
  assumes i: "tm_inv s"
  shows "(case tl_list s of
       [] \<Rightarrow> Some s
     | a # _ \<Rightarrow>
         if jfs < jfs_of s a then Some s
         else let th = tm_th (tl_tmr s a); th_arg = tm_arg (tl_tmr s a);
                  s = upd_tmr a (\<lambda>t. t\<lparr>tm_th := None\<rparr>) s; s = unlink_tmr a s
              in if th = None then F call jfs s
                 else F call jfs (call (the th) th_arg (s\<lparr>tl_log := tl_log s @ [(jfs_of s a, a)]\<rparr>))) =
     (case due_at jfs s of
        [] \<Rightarrow> Some s
      | a # _ \<Rightarrow> F call jfs (call (the (tm_th (tl_tmr s a))) (tm_arg (tl_tmr s a)) ((taken a s)\<lparr>tl_log := tl_log s @ [(jfs_of s a, a)]\<rparr>)))"
proof (cases "tl_list s")
  case Nil
  then show ?thesis by (simp add: due_at_def)
next
  case (Cons a xs)
  obtain h where h: "tm_th (tl_tmr s a) = Some h" using tm_invD(3) [OF i, of a] Cons by auto
  have later: "\<forall>b\<in>set xs. jfs_of s a \<le> jfs_of s b" using tm_invD(2) [OF i] unfolding Cons sorted_wrt.simps ..
  show ?thesis
  proof (cases "jfs_of s a \<le> jfs")
    case True
    then have "due_at jfs s = a # filter (\<lambda>b. jfs_of s b \<le> jfs) xs" by (simp add: due_at_def Cons)
    moreover have "(unlink_tmr a (upd_tmr a (\<lambda>t. t\<lparr>tm_th := None\<rparr>) s))\<lparr>tl_log := tl_log (unlink_tmr a (upd_tmr a (\<lambda>t. t\<lparr>tm_th := None\<rparr>) s)) @
        [(jfs_of (unlink_tmr a (upd_tmr a (\<lambda>t. t\<lparr>tm_th := None\<rparr>) s)) a, a)]\<rparr> = (taken a s)\<lparr>tl_log := tl_log s @ [(jfs_of s a, a)]\<rparr>"
      by (simp add: taken_def tmr_state)
    moreover have "\<not> jfs < jfs_of s a" using True by simp
    ultimately show ?thesis using h by (simp add: Cons Let_def)
  next
    case False
    then have "filter (\<lambda>b. jfs_of s b \<le> jfs) xs = []" using later by (auto simp: filter_empty_conv)
    then have "due_at jfs s = []" using False by (simp add: due_at_def Cons)
    moreover have "jfs < jfs_of s a" using False by simp
    ultimately show ?thesis by (simp add: Cons)
  qed
qed

lemma poll_step:
  "tm_inv s \<Longrightarrow> poll_loop call jfs s =
     (case due_at jfs s of
        [] \<Rightarrow> Some s
      | a # _ \<Rightarrow> poll_loop call jfs (call (the (tm_th (tl_tmr s a))) (tm_arg (tl_tmr s a)) ((taken a s)\<lparr>tl_log := tl_log s @ [(jfs_of s a, a)]\<rparr>)))"
  by (subst poll_loop.simps) (rule poll_body)

lemma log_irrelevant [simp]:
  "tm_inv (s\<lparr>tl_log := l\<rparr>) = tm_inv s" "jfs_of (s\<lparr>tl_log := l\<rparr>) a = jfs_of s a" "due_at jfs (s\<lparr>tl_log := l\<rparr>) = due_at jfs s"
  "clock_ok jfs (s\<lparr>tl_log := l\<rparr>) = clock_ok jfs s"
  by (simp_all add: tm_inv_def jfs_of_def due_at_def clock_ok_def)

lemma subseq_set_subset: "subseq xs ys \<Longrightarrow> set xs \<subseteq> set ys"
  by (induction rule: list_emb.induct) auto

lemma subseq_sorted_wrt: "subseq xs ys \<Longrightarrow> sorted_wrt P ys \<Longrightarrow> sorted_wrt P xs"
  by (induction rule: list_emb.induct) (auto dest: subseq_set_subset)

lemma distinct_sorted_wrt: "distinct xs \<longleftrightarrow> sorted_wrt (\<noteq>) xs"
  by (induction xs) auto

lemma poll_loop_fires:
  assumes "call_ok call jfs"
  shows "tm_inv s \<Longrightarrow> clock_ok jfs s \<Longrightarrow>
     \<exists>s' fired. poll_loop call jfs s = Some s' \<and> tm_inv s' \<and> due_at jfs s' = [] \<and>
       tl_log s' = tl_log s @ map (\<lambda>a. (jfs_of s a, a)) fired \<and> subseq fired (due_at jfs s) \<and>
       ((\<forall>h arg s. tm_inv s \<longrightarrow> clock_ok jfs s \<longrightarrow> due_at jfs (call h arg s) = due_at jfs s) \<longrightarrow> fired = due_at jfs s)"
proof (induction "length (due_at jfs s)" arbitrary: s rule: less_induct)
  case less
  show ?case
  proof (cases "due_at jfs s")
    case Nil
    then show ?thesis using less.prems poll_step [OF less.prems(1), of call jfs] by (intro exI [of _ s] exI [of _ "[]"]) simp
  next
    case (Cons a ds)
    let ?t = "(taken a s)\<lparr>tl_log := tl_log s @ [(jfs_of s a, a)]\<rparr>"
    let ?u = "call (the (tm_th (tl_tmr s a))) (tm_arg (tl_tmr s a)) ?t"
    note tk = taken_inv [OF less.prems(1), where a = a]
    have dt: "due_at jfs ?t = ds" using tk(3) Cons by simp
    have ct: "clock_ok jfs ?t" using less.prems(2) by (simp add: clock_ok_def taken_def tmr_state)
    have it: "tm_inv ?t" using tk(1) by simp
    have ok: "handler_ok jfs ?t ?u" using assms it ct by (simp add: call_ok_def)
    then have u: "tm_inv ?u" "clock_ok jfs ?u" "tl_log ?u = tl_log s @ [(jfs_of s a, a)]" "subseq (due_at jfs ?u) ds"
      "\<forall>b\<in>set (due_at jfs ?u). jfs_of ?u b = jfs_of s b" using dt tk(2) by (simp_all add: handler_ok_def)
    have "length (due_at jfs ?u) < length (due_at jfs s)" using list_emb_length [OF u(4)] Cons by simp
    from less.hyps [OF this u(1,2)] obtain s' fired where f: "poll_loop call jfs ?u = Some s'" "tm_inv s'" "due_at jfs s' = []"
      "tl_log s' = tl_log ?u @ map (\<lambda>b. (jfs_of ?u b, b)) fired" "subseq fired (due_at jfs ?u)"
      "(\<forall>h arg s. tm_inv s \<longrightarrow> clock_ok jfs s \<longrightarrow> due_at jfs (call h arg s) = due_at jfs s) \<longrightarrow> fired = due_at jfs ?u" by blast
    have "set fired \<subseteq> set (due_at jfs ?u)" using f(5) by (rule subseq_set_subset)
    then have "map (\<lambda>b. (jfs_of ?u b, b)) fired = map (\<lambda>b. (jfs_of s b, b)) fired" using u(5) by auto
    then have "tl_log s' = tl_log s @ map (\<lambda>b. (jfs_of s b, b)) (a # fired)" using f(4) u(3) by simp
    moreover have "poll_loop call jfs s = Some s'" using poll_step [OF less.prems(1), of call jfs] Cons f(1) by simp
    moreover have "subseq (a # fired) (due_at jfs s)" using subseq_order.trans [OF f(5) u(4)] Cons by simp
    moreover have "a # fired = due_at jfs s" if "\<forall>h arg s. tm_inv s \<longrightarrow> clock_ok jfs s \<longrightarrow> due_at jfs (call h arg s) = due_at jfs s"
      using f(6) that it ct dt Cons by simp
    ultimately show ?thesis using f(2,3) by blast
  qed
qed

text \<open>C32: When no handler starts a timer that is due at once, a poll ends.  It calls handlers of timers that were due, each at
  most once and in the order of the list, that is of their deadlines, and leaves no due timer; it calls all of them when
  the handlers leave the due timers of others alone.\<close>
theorem tmr_poll_fires_due:
  assumes "tm_inv s" "unat (tl_now s) < 2 ^ 63" "call_ok call (tl_now s)"
  shows "\<exists>s' fired. tmr_poll call s = Some s' \<and> tm_inv s' \<and> due_at (tl_now s) s' = [] \<and>
     tl_log s' = tl_log s @ map (\<lambda>a. (jfs_of s a, a)) fired \<and> subseq fired (due_at (tl_now s) s) \<and>
     sorted (map (jfs_of s) fired) \<and> distinct fired \<and>
     ((\<forall>h arg s'. tm_inv s' \<longrightarrow> clock_ok (tl_now s) s' \<longrightarrow> due_at (tl_now s) (call h arg s') = due_at (tl_now s) s') \<longrightarrow>
        fired = due_at (tl_now s) s)"
proof -
  have c: "clock_ok (tl_now s) s" using assms(2) by (simp add: clock_ok_def)
  have sd: "sorted (map (jfs_of s) (due_at (tl_now s) s))" "distinct (due_at (tl_now s) s)"
    using tm_invD(1,2) [OF assms(1)] by (simp_all add: due_at_def sorted_wrt_filter sorted_wrt_map)
  have "sorted (map (jfs_of s) xs) \<and> distinct xs" if "subseq xs (due_at (tl_now s) s)" for xs
    using subseq_sorted_wrt [OF that, of "\<lambda>a b. jfs_of s a \<le> jfs_of s b"] subseq_sorted_wrt [OF that, of "(\<noteq>)"] sd
    by (simp add: sorted_wrt_map distinct_sorted_wrt)
  then show ?thesis using poll_loop_fires [OF assms(3,1) c] unfolding tmr_poll_def by blast
qed

lemma poll_never_ends:
  assumes busy: "\<And>h a s. tm_inv s \<Longrightarrow> tl_now s \<le> jfs \<Longrightarrow> tm_inv (call h a s) \<and> tl_now (call h a s) \<le> jfs \<and> due_at jfs (call h a s) \<noteq> []"
    and s: "tm_inv s" "tl_now s \<le> jfs" "due_at jfs s \<noteq> []"
  shows "poll_loop call jfs s = None"
proof (rule ccontr)
  assume "poll_loop call jfs s \<noteq> None"
  then obtain r where r: "poll_loop call jfs s = Some r" by blast
  let ?P = "\<lambda>c j s r. c = call \<longrightarrow> j = jfs \<longrightarrow> tm_inv s \<longrightarrow> tl_now s \<le> jfs \<longrightarrow> due_at jfs s = []"
  have "?P call jfs s r"
  proof (rule poll_loop.raw_induct [where P = ?P, OF _ r])
    fix F c j and s r :: "'a tmrl_scheme"
    assume ih: "\<And>c j s r. F c j s = Some r \<Longrightarrow> ?P c j s r"
      and e: "(case tl_list s of
       [] \<Rightarrow> Some s
     | a # _ \<Rightarrow>
         if j < jfs_of s a then Some s
         else let th = tm_th (tl_tmr s a); th_arg = tm_arg (tl_tmr s a);
                  s = upd_tmr a (\<lambda>t. t\<lparr>tm_th := None\<rparr>) s; s = unlink_tmr a s
              in if th = None then F c j s
                 else F c j (c (the th) th_arg (s\<lparr>tl_log := tl_log s @ [(jfs_of s a, a)]\<rparr>))) = Some r"
    show "?P c j s r"
    proof (intro impI)
      assume c: "c = call" "j = jfs" and i: "tm_inv s" "tl_now s \<le> jfs"
      show "due_at jfs s = []"
      proof (cases "due_at jfs s")
        case (Cons a xs)
        let ?u = "call (the (tm_th (tl_tmr s a))) (tm_arg (tl_tmr s a)) ((taken a s)\<lparr>tl_log := tl_log s @ [(jfs_of s a, a)]\<rparr>)"
        have "F call jfs ?u = Some r" using e unfolding c poll_body [OF i(1)] by (simp add: Cons)
        moreover have "tl_now (taken a s) = tl_now s" by (simp add: taken_def tmr_state)
        ultimately show ?thesis using ih [of call jfs ?u r] busy [of "(taken a s)\<lparr>tl_log := tl_log s @ [(jfs_of s a, a)]\<rparr>"]
          taken_inv(1) [OF i(1), of a] i(2) by simp
      qed
    qed
  qed
  with s show False by simp
qed

text \<open>The condition on the handlers is needed: while the clock stands, a handler that starts a timer again without delay
  keeps the poll from ever ending.\<close>
lemma tmr_poll_livelock:
  assumes "tm_inv s" "due_at (tl_now s) s \<noteq> []"
  shows "tmr_poll (\<lambda>h arg s. tmr_start arg 0 (Some h) arg s) s = None"
  unfolding tmr_poll_def
proof (rule poll_never_ends [OF _ assms(1) order_refl assms(2)])
  fix h a and u :: "'a tmrl_scheme"
  let ?u = "tmr_start a 0 (Some h) a u"
  assume i: "tm_inv u" "tl_now u \<le> tl_now s"
  have n: "tl_now ?u = tl_now u" "tm_inv ?u" "deadline ?u a = Some (tl_now u)"
    using timers.clock_start [OF i(1)] timers.start_inv [OF i(1)] timers.dl_start [OF i(1)] by simp_all
  then have "tm_th (tl_tmr ?u a) \<noteq> None" "jfs_of ?u a = tl_now u" by (auto simp: deadline_def split: if_splits)
  then have "a \<in> set (due_at (tl_now s) ?u)" using tm_invD(3) [OF n(2), of a] i(2) by (simp add: due_at_def)
  then show "tm_inv ?u \<and> tl_now ?u \<le> tl_now s \<and> due_at (tl_now s) ?u \<noteq> []" using n i(2) by auto
qed

section \<open>How long the event loop sleeps\<close>

lemma sint_small: "unat (w :: u64) < 2 ^ 31 \<Longrightarrow> sint (ucast w :: u32) = int (unat w)"
proof -
  assume a: "unat w < 2 ^ 31"
  then have "unat (ucast w :: u32) = unat w" by (simp add: unsigned_ucast_eq take_bit_nat_eq_self)
  then show ?thesis using sint_u32_small [of "ucast w"] a by simp
qed

lemma next_timeout_cases:
  assumes "tm_inv s"
  shows "tl_list s = [] \<and> tmr_next_timeout s = 0 \<or>
     (\<exists>a. earliest s = Some a \<and> a \<in> set (tl_list s) \<and> (\<forall>b\<in>set (tl_list s). jfs_of s a \<le> jfs_of s b) \<and>
        (if jfs_of s a \<le> tl_now s then tmr_next_timeout s = 1
         else unat (tmr_next_timeout s) = unat (jfs_of s a) - unat (tl_now s) \<and> unat (tl_now s) < unat (jfs_of s a)))"
proof (cases "tl_list s")
  case Nil
  then show ?thesis by (simp add: tmr_next_timeout_def)
next
  case (Cons a xs)
  have "\<forall>b\<in>set xs. jfs_of s a \<le> jfs_of s b" using tm_invD(2) [OF assms] unfolding Cons sorted_wrt.simps ..
  moreover have "earliest s = Some a" by (simp add: earliest_def Cons)
  moreover have "unat (jfs_of s a - tl_now s) = unat (jfs_of s a) - unat (tl_now s) \<and> unat (tl_now s) < unat (jfs_of s a)" if "\<not> jfs_of s a \<le> tl_now s"
    using that by (simp add: unat_sub word_le_nat_alt)
  ultimately show ?thesis by (simp add: tmr_next_timeout_def Cons)
qed

text \<open>Within 2^31 ms the event loop sleeps exactly until the earliest deadline: for ever only when no timer runs, never
  without end or past a deadline, and not a millisecond too short unless a timer is overdue.\<close>
theorem event_loop_sleep:
  assumes "tm_inv s" "unat (tmr_next_timeout s) < 2 ^ 31" "unat (tl_now s) < 2 ^ 63"
  shows "(epoll_timeout s = - 1 \<longleftrightarrow> tl_list s = []) \<and>
     (tl_list s \<noteq> [] \<longrightarrow> 0 < epoll_timeout s \<and> due_at (tl_now s + word_of_int (epoll_timeout s)) s \<noteq> [] \<and>
        (\<forall>n. int n < epoll_timeout s \<longrightarrow> due_at (tl_now s + word_of_nat n) s = due_at (tl_now s) s))"
proof (cases "tl_list s = []")
  case True
  then show ?thesis by (simp add: epoll_timeout_def tmr_next_timeout_def)
next
  case False
  then obtain a where a: "a \<in> set (tl_list s)" "\<forall>b\<in>set (tl_list s). jfs_of s a \<le> jfs_of s b"
    "if jfs_of s a \<le> tl_now s then tmr_next_timeout s = 1
     else unat (tmr_next_timeout s) = unat (jfs_of s a) - unat (tl_now s) \<and> unat (tl_now s) < unat (jfs_of s a)"
    using next_timeout_cases [OF assms(1)] by auto
  let ?t = "tmr_next_timeout s"
  have t: "?t \<noteq> 0" "0 < unat ?t" using a(3) by (auto split: if_splits)
  have e: "epoll_timeout s = int (unat ?t)" using t sint_small [OF assms(2)] by (simp add: epoll_timeout_def Let_def)
  have w: "word_of_int (epoll_timeout s) = ?t" unfolding e by simp
  have add: "unat (tl_now s + word_of_nat n) = unat (tl_now s) + n" if "n \<le> unat ?t" for n
    using that assms(2,3) by (simp add: unat_word_ariths take_bit_nat_eq_self unat_of_nat)
  have at: "unat (tl_now s + ?t) = unat (tl_now s) + unat ?t" using add [of "unat ?t"] by simp
  have "jfs_of s a \<le> tl_now s + ?t"
  proof (cases "jfs_of s a \<le> tl_now s")
    case True
    then show ?thesis using at by (simp add: word_le_nat_alt)
  next
    case False
    then show ?thesis using at a(3) by (simp add: word_le_nat_alt)
  qed
  then have "a \<in> set (due_at (tl_now s + ?t) s)" using a(1) by (simp add: due_at_def)
  moreover have "due_at (tl_now s + word_of_nat n) s = due_at (tl_now s) s" if n: "int n < epoll_timeout s" for n
  proof (cases "jfs_of s a \<le> tl_now s")
    case True
    then show ?thesis using n e a(3) by simp
  next
    case False
    have "unat (tl_now s) + n < unat (jfs_of s a)" using n e a(3) False by simp
    moreover have "n \<le> unat ?t" using n unfolding e by linarith
    ultimately have "tl_now s + word_of_nat n < jfs_of s a" "tl_now s < jfs_of s a" using add [of n] by (simp_all add: word_less_nat_alt)
    then have "\<forall>b\<in>set (tl_list s). \<not> jfs_of s b \<le> tl_now s + word_of_nat n \<and> \<not> jfs_of s b \<le> tl_now s"
      using a(2) by fastforce
    then show ?thesis by (simp add: due_at_def filter_empty_conv)
  qed
  moreover have "0 < epoll_timeout s" using t(2) unfolding e by linarith
  ultimately show ?thesis using False unfolding w by auto
qed

text \<open>A timer that is 2^31 ms (24.8 days) or more away, and less than twice that, makes it sleep until an event comes.\<close>

lemma epoll_oversleeps:
  assumes "2 ^ 31 \<le> unat (tmr_next_timeout s)" "unat (tmr_next_timeout s) < 2 ^ 32"
  shows "epoll_timeout s < 0"
proof -
  let ?t = "tmr_next_timeout s"
  have u: "unat (ucast ?t :: u32) = unat ?t" using assms(2) by (simp add: unsigned_ucast_eq take_bit_nat_eq_self)
  have "?t \<noteq> 0" using assms(1) by auto
  moreover have "sint (ucast ?t :: u32) < 0"
  proof (rule ccontr)
    assume n: "\<not> sint (ucast ?t :: u32) < 0"
    moreover have "sint (ucast ?t :: u32) < 2 ^ 31" using sint_lt [of "ucast ?t :: u32"] by simp
    ultimately have "uint (ucast ?t :: u32) < 2 ^ 31" using uint_sint [of "ucast ?t :: u32"] by (simp add: take_bit_int_eq_self)
    then have "int (unat (ucast ?t :: u32)) < 2 ^ 31" by (simp only: uint_nat)
    moreover have "(2 :: int) ^ 31 \<le> int (unat ?t)" using assms(1) by (metis of_nat_le_iff of_nat_numeral of_nat_power)
    ultimately show False unfolding u by linarith
  qed
  ultimately show ?thesis by (simp add: epoll_timeout_def Let_def)
qed

section \<open>Points in time\<close>

text \<open>The time is right, but a full second may be left in the field of the nanoseconds, which is out of its range.\<close>

lemma timespec_carry_once:
  assumes "n < 2000000000"
  shows "timespec_carry s n = (if n > 1000000000 then (s + 1, n - 1000000000) else (s, n))"
  using assms by (subst timespec_carry.simps, subst timespec_carry.simps) simp

lemma timespec_time:
  assumes "0 \<le> nsec" "nsec < 1000000000" "unat offset < 18446744073709"
  shows "\<exists>sec' nsec'. tmr_timespec_get (Inr (sec, nsec)) offset = (OK, sec', nsec') \<and>
     sec' * 1000000000 + nsec' = sec * 1000000000 + nsec + int (unat offset) * 1000000 \<and>
     0 \<le> nsec' \<and> nsec' \<le> 1000000000 \<and>
     (nsec' = 1000000000 \<longleftrightarrow> offset \<noteq> 0 \<and> nsec + int (unat offset mod 1000) * 1000000 = 1000000000)"
proof (cases "offset = 0")
  case True
  then show ?thesis using assms by (simp add: tmr_timespec_get_def)
next
  case False
  let ?o = "unat offset"
  have "unat (offset * 1000000) = ?o * 1000000" using assms(3) by (simp add: unat_word_ariths take_bit_nat_eq_self)
  then have m: "unat (offset * 1000000 mod 1000000000) = ?o mod 1000 * 1000000"
    by (simp add: unat_mod mult_mod_left)
  have d: "unat (offset div 1000) = ?o div 1000" by (simp add: unat_div)
  let ?n = "nsec + int (?o mod 1000 * 1000000)" and ?s = "sec + int (?o div 1000)"
  have b: "0 \<le> ?n" "?n < 2000000000" using assms(1,2) mod_less_divisor [of 1000 ?o] by linarith+
  have "timespec_carry ?s ?n = (if ?n > 1000000000 then (?s + 1, ?n - 1000000000) else (?s, ?n))"
    by (rule timespec_carry_once [OF b(2)])
  then have r: "tmr_timespec_get (Inr (sec, nsec)) offset = (OK, if ?n > 1000000000 then (?s + 1, ?n - 1000000000) else (?s, ?n))"
    using False by (simp add: tmr_timespec_get_def m d)
  have o: "int ?o = int (?o div 1000) * 1000 + int (?o mod 1000)"
    by (metis div_mult_mod_eq of_nat_add of_nat_mult of_nat_numeral)
  show ?thesis
  proof (cases "?n > 1000000000")
    case True
    then show ?thesis unfolding r using b o
      by (intro exI [of _ "?s + 1"] exI [of _ "?n - 1000000000"]) (auto simp: algebra_simps)
  next
    case f: False
    then show ?thesis unfolding r using b o False by (intro exI [of _ ?s] exI [of _ ?n]) (auto simp: algebra_simps)
  qed
qed

section \<open>Concrete runs\<close>

definition tm_idle :: tmrl where
  "tm_idle = \<lparr>tl_list = [], tl_tmr = (\<lambda>_. \<lparr>tm_active = False, tm_th = None, tm_arg = 0, tm_jfs = 0\<rparr>), tl_now = 100, tl_log = []\<rparr>"

lemma tm_idle_inv: "tm_inv tm_idle"
  by (simp add: tm_idle_def tm_inv_def)

definition tm_two :: tmrl where
  "tm_two = (tmr_start 7 0 (Some 1) 7 (tmr_start 5 20 (Some 1) 5 tm_idle))\<lparr>tl_now := 125\<rparr>"

lemma tm_two_simps [simp]:
  "tl_list tm_two = [7, 5]" "tl_now tm_two = 125" "jfs_of tm_two 7 = 100" "jfs_of tm_two 5 = 120" "tl_log tm_two = []"
  by (simp_all add: tm_two_def tm_idle_def tmr_start_def tmr_startcont_def tmr_insert_def tmr_state inspos_handler_def inspos_handler_0_def Let_def)

lemma now_irrelevant: "tm_inv (s\<lparr>tl_now := n\<rparr>) = tm_inv s"
  by (simp add: tm_inv_def jfs_of_def)

lemma tm_two_inv: "tm_inv tm_two"
  unfolding tm_two_def now_irrelevant by (intro timers.start_inv tm_idle_inv)

lemma tmr_start_keeps_order_witness:
  "tl_list (tmr_start 9 0 (Some 1) 9 (tm_two\<lparr>tl_now := 110\<rparr>)) = [7, 9, 5]"
  using tmr_start_keeps_order [of "tm_two\<lparr>tl_now := 110\<rparr>" 0 9 1 9] tm_two_inv by (simp add: now_irrelevant jfs_of_def [symmetric] Let_def)
    (simp add: jfs_of_def tm_two_simps(3,4) [unfolded jfs_of_def])

text \<open>Timers that start again every 20 ms.\<close>

lemma periodic_ok: "unat jfs < 2 ^ 63 \<Longrightarrow> call_ok (\<lambda>h arg s. tmr_start arg 20 (Some h) arg s) jfs"
  unfolding call_ok_def
proof (intro allI impI start_handler_ok)
  fix s :: "'a tmrl_scheme"
  assume "clock_ok jfs s"
  then have c: "unat jfs \<le> unat (tl_now s)" "unat (tl_now s) < 2 ^ 63" by (simp_all add: clock_ok_def word_le_nat_alt)
  then have "unat (tl_now s + 20) = unat (tl_now s) + 20" by (simp add: unat_word_ariths take_bit_nat_eq_self)
  then show "jfs < tl_now s + 20" using c by (simp add: word_less_nat_alt)
qed

lemma tmr_poll_fires_due_witness:
  "\<exists>s'. tmr_poll (\<lambda>h arg s. tmr_start arg 20 (Some h) arg s) tm_two = Some s' \<and> tm_inv s' \<and> due_at 125 s' = []"
  using tmr_poll_fires_due [OF tm_two_inv _ periodic_ok [of "tl_now tm_two"]] by auto

lemma event_loop_sleep_witness:
  "epoll_timeout (tm_two\<lparr>tl_now := 90\<rparr>) > 0 \<and> due_at (90 + word_of_int (epoll_timeout (tm_two\<lparr>tl_now := 90\<rparr>))) (tm_two\<lparr>tl_now := 90\<rparr>) \<noteq> []"
proof -
  have "tmr_next_timeout (tm_two\<lparr>tl_now := 90\<rparr>) = 10"
    using tm_two_simps(3) by (simp add: tmr_next_timeout_def jfs_of_def)
  then show ?thesis using event_loop_sleep [of "tm_two\<lparr>tl_now := 90\<rparr>"] tm_two_inv by (simp add: now_irrelevant)
qed

end
