(* ===== verification/Sip_Request.thy ===== *)
theory Sip_Request
  imports Sip_Msg "HOL-Library.Monad_Syntax"
begin

text \<open>
  What the users of SIP requests see of \<open>native/re/src/sip/request.c\<close>: the loop detection of the responses, and of a
  request that is under way whether a provisional response came and whether it was cancelled.
\<close>

definition EAUTH :: errno where "EAUTH = 217"

section \<open>Loop detection\<close>

record sip_loopstate =
  ls_failc :: u32
  ls_last_scode :: u16

definition sip_loopstate_reset :: "sip_loopstate \<Rightarrow> sip_loopstate" where
  "sip_loopstate_reset ls = ls\<lparr>ls_last_scode := 0, ls_failc := 0\<rparr>"

definition sip_request_loops :: "sip_loopstate \<Rightarrow> u16 \<Rightarrow> bool \<times> sip_loopstate" where
  "sip_request_loops ls scode =
     (if scode < 200 then (False, ls)
      else
        let (loop, ls) =
              (if scode < 300 then (False, ls\<lparr>ls_failc := 0\<rparr>)
               else if scode < 400
               then let ls = ls\<lparr>ls_failc := ls_failc ls + 1\<rparr> in (ls_failc ls \<ge> 16, ls)
               else
                 let loop = (scode \<notin> {401, 407, 491} \<and> ls_last_scode ls = scode);
                     ls = ls\<lparr>ls_failc := ls_failc ls + 1\<rparr>
                 in (loop \<or> ls_failc ls \<ge> 16, ls))
        in (loop, ls\<lparr>ls_last_scode := scode\<rparr>))"

text \<open>A repeated failure is counted, a success resets the count.\<close>

lemma loops_success:
  "\<not> c < 200 \<Longrightarrow> c < 300 \<Longrightarrow> sip_request_loops ls c = (False, ls\<lparr>ls_failc := 0, ls_last_scode := c\<rparr>)"
  by (simp add: sip_request_loops_def)

lemma loops_failure:
  "\<not> c < 300 \<Longrightarrow> \<exists>b. sip_request_loops ls c = (b, ls\<lparr>ls_failc := ls_failc ls + 1, ls_last_scode := c\<rparr>) \<and> (\<not> b \<longrightarrow> ls_failc ls + 1 < 16)"
proof -
  assume c: "\<not> c < 300"
  then have "\<not> c < 200" by (simp add: word_less_nat_alt)
  then show ?thesis using c by (cases "c < 400") (simp_all add: sip_request_loops_def not_le)
qed

section \<open>Requests under way\<close>

record sip_req =
  sq_provrecv :: bool
  sq_canceled :: bool

definition new_req :: sip_req where
  "new_req = \<lparr>sq_provrecv = False, sq_canceled = False\<rparr>"

text \<open>A request is sent (at once, or after its address was found), fails before, or fails after the pointer to it was
  registered; then the pointer is cleared.\<close>

datatype dreq_res = Dr_sent bool | Dr_failed errno | Dr_dropped errno

text \<open>The result says whether \<open>sip_ctrans_cancel\<close> is called, which sends the CANCEL: it waits for a provisional response.\<close>

definition sip_request_cancel :: "sip_req \<Rightarrow> bool \<times> sip_req" where
  "sip_request_cancel req =
     (if sq_canceled req then (False, req)
      else
        let req = req\<lparr>sq_canceled := True\<rparr>
        in if \<not> sq_provrecv req then (False, req) else (True, req))"

definition request_provisional :: "sip_req \<Rightarrow> bool \<times> sip_req" where
  "request_provisional req =
     (if \<not> sq_provrecv req then (sq_canceled req, req\<lparr>sq_provrecv := True\<rparr>) else (False, req))"

text \<open>A cancelled request leads to exactly one CANCEL once a provisional response has come, whatever the order.\<close>

lemma request_cancel_once:
  assumes "sip_request_cancel new_req = (b, r1)" "request_provisional r1 = (c, r2)"
    "request_provisional new_req = (b', s1)" "sip_request_cancel s1 = (c', s2)"
  shows "\<not> b \<and> c \<and> \<not> b' \<and> c' \<and> r2 = s2 \<and> sip_request_cancel r2 = (False, r2) \<and> request_provisional r2 = (False, r2)"
  using assms by (auto simp: sip_request_cancel_def request_provisional_def new_req_def)

end
