(* ===== verification/Sip_Reg.thy ===== *)
theory Sip_Reg
  imports Sip_Request
begin

text \<open>
  The SIP registration client (\<open>native/re/src/sipreg/reg.c\<close>).  The registration object, its reference count and the requests that will call its
  response handler are one state.  Sending a request is a parameter \<open>net\<close>: the result of the n-th request that is
  sent.  So are the random numbers and what decoding a message gives.  \<open>reg->req\<close> points to the latest request, and
  the end of any request clears it, as \<open>request.c\<close> does.  The result \<open>None\<close> of an operation is an access to the object
  after it was freed.
\<close>

section \<open>State\<close>

definition DEFAULT_EXPIRES :: u32 where "DEFAULT_EXPIRES = 3600"

text \<open>The members that only keep something alive (\<open>dlg\<close>, \<open>auth\<close>, \<open>sip\<close>) are left out; \<open>rg_user\<close>: the response
  handler is the application's, not the dummy.  A timer is its expiry.\<close>

record sipreg =
  rg_ls :: sip_loopstate
  rg_laddr :: string
  rg_tmr :: "nat option"
  rg_ka :: bool
  rg_req :: "nat option"
  rg_hdrs :: string
  rg_cuser :: string
  rg_cparams :: "string option"
  rg_user :: bool
  rg_expires :: u32
  rg_pexpires :: u32
  rg_failc :: u32
  rg_rwait :: u32
  rg_wait :: u32
  rg_fbregint :: u32
  rg_tp :: sip_transp
  rg_registered :: bool
  rg_terminated :: bool
  rg_params :: "string option"
  rg_regid :: int
  rg_srcport :: u16

text \<open>What happened: a request was started while this was the expiry time; the response handler was called with an error or
  a status.\<close>

datatype reg_act = Rg_sent u32 | Rg_resp errno "u16 option"

record regs =
  rs_reg :: "sipreg option"
  rs_refs :: nat
  rs_reqs :: "nat list"
  rs_next :: nat
  rs_now :: nat
  rs_log :: "(nat \<times> reg_act) list"

text \<open>A request is sent, or fails before or after the pointer to it was registered.\<close>

datatype req_res = Req_sent | Req_failed errno | Req_dropped errno

type_synonym reg_net = "nat \<Rightarrow> req_res"

text \<open>A response as far as it is looked at.  A contact: decoded or not, its user, address and transport parameter, and its
  \<open>expires\<close> parameter.\<close>

record reg_contact =
  co_ok :: bool
  co_user :: string
  co_host :: "string option"
  co_transport :: "sip_transp option"
  co_expires :: "u32 option"

record reg_msg =
  rm_scode :: u16
  rm_expires :: "u32 option"
  rm_contacts :: "reg_contact list"
  rm_min_expires :: "u32 option"
  rm_auth :: errno
  rm_keepalive :: bool

definition rg_put :: "reg_act \<Rightarrow> regs \<Rightarrow> regs" where
  "rg_put x s = s\<lparr>rs_log := rs_log s @ [(rs_now s, x)]\<rparr>"

definition upd_reg :: "sipreg \<Rightarrow> regs \<Rightarrow> regs" where
  "upd_reg rg s = s\<lparr>rs_reg := Some rg\<rparr>"

text \<open>A call of the response handler.\<close>

definition call_resph :: "errno \<Rightarrow> u16 option \<Rightarrow> regs \<Rightarrow> regs option" where
  "call_resph err scode s = do { rg \<leftarrow> rs_reg s; Some (if rg_user rg then rg_put (Rg_resp err scode) s else s) }"

section \<open>Requests\<close>

definition reg_request :: "reg_net \<Rightarrow> bool \<Rightarrow> regs \<Rightarrow> (errno \<times> regs) option" where
  "reg_request net reset_ls s = do {
     rg \<leftarrow> rs_reg s;
     let rg = (if rg_terminated rg then rg\<lparr>rg_expires := 0\<rparr> else rg);
     let rg = (if reset_ls then rg\<lparr>rg_ls := sip_loopstate_reset (rg_ls rg)\<rparr> else rg);
     let n = rs_next s;
     let s = s\<lparr>rs_next := n + 1\<rparr>;
     Some (case net n of
             Req_sent \<Rightarrow> (OK, rg_put (Rg_sent (rg_expires rg)) (upd_reg (rg\<lparr>rg_req := Some n\<rparr>) (s\<lparr>rs_reqs := rs_reqs s @ [n]\<rparr>)))
           | Req_failed err \<Rightarrow> (if err = 0 then ENOMEM else err, upd_reg rg s)
           | Req_dropped err \<Rightarrow> (if err = 0 then ENOMEM else err, upd_reg (rg\<lparr>rg_req := None\<rparr>) s)) }"

text \<open>The \<open>Contact\<close> header; \<open>src\<close> is the local address as text, \<open>expires\<close> is printed in decimal.\<close>

definition sip_transp_param :: "sip_transp \<Rightarrow> string" where
  "sip_transp_param tp =
     (case tp of
        SIP_TRANSP_UDP \<Rightarrow> ''''
      | SIP_TRANSP_TCP \<Rightarrow> '';transport=tcp''
      | SIP_TRANSP_TLS \<Rightarrow> '';transport=tls''
      | SIP_TRANSP_WS \<Rightarrow> '';transport=ws''
      | SIP_TRANSP_WSS \<Rightarrow> '';transport=wss''
      | _ \<Rightarrow> '''')"

definition opt_text :: "string \<Rightarrow> string option \<Rightarrow> string" where
  "opt_text pre t = (case t of None \<Rightarrow> [] | Some x \<Rightarrow> pre @ x)"

definition send_handler :: "sip_transp \<Rightarrow> string \<Rightarrow> sipreg \<Rightarrow> string \<times> sipreg" where
  "send_handler tp src rg =
     (let rg = rg\<lparr>rg_tp := tp, rg_laddr := src\<rparr>
      in (''Contact: <sip:'' @ rg_cuser rg @ ''@'' @ rg_laddr rg @ sip_transp_param (rg_tp rg) @ opt_text '';'' (rg_cparams rg) @
            ''>;expires='' @ dec_of_nat (unat (rg_expires rg)) @ opt_text '';'' (rg_params rg) @
            (if rg_regid rg > 0 then '';reg-id='' @ dec_of_int (rg_regid rg) else []) @ [CHR 0x0D, CHR 0x0A], rg))"

section \<open>Life of the object\<close>

definition destructor_reg :: "reg_net \<Rightarrow> regs \<Rightarrow> regs option" where
  "destructor_reg net s = do {
     rg \<leftarrow> rs_reg s;
     let rg = rg\<lparr>rg_tmr := None\<rparr>;
     let s = upd_reg rg s;
     if \<not> rg_terminated rg then do {
       let rg = rg\<lparr>rg_user := False, rg_terminated := True\<rparr>;
       let s = upd_reg rg s;
       if rg_req rg \<noteq> None then Some (s\<lparr>rs_refs := rs_refs s + 1\<rparr>)
       else if rg_registered rg then do {
         (err, s) \<leftarrow> reg_request net True s;
         Some (if err = 0 then s\<lparr>rs_refs := rs_refs s + 1\<rparr> else s) }
       else Some s }
     else Some s }"

text \<open>\<open>mem_deref\<close>: the object is freed unless its destructor has taken a new reference.\<close>

definition deref_reg :: "reg_net \<Rightarrow> regs \<Rightarrow> regs option" where
  "deref_reg net s = do {
     _ \<leftarrow> rs_reg s;
     let s = s\<lparr>rs_refs := rs_refs s - 1\<rparr>;
     if rs_refs s > 0 then Some s
     else do {
       s \<leftarrow> destructor_reg net s;
       Some (if rs_refs s > 0 then s else s\<lparr>rs_reg := None\<rparr>) } }"

section \<open>Timers\<close>

definition failwait :: "u16 \<Rightarrow> u32 \<Rightarrow> u32" where
  "failwait rnd failc =
     word_of_nat (min 1800 (30 * 2 ^ min (unat failc) 6) * (500 + unat rnd mod 501))"

definition tmr_handler_reg :: "reg_net \<Rightarrow> u16 \<Rightarrow> regs \<Rightarrow> regs option" where
  "tmr_handler_reg net rnd s = do {
     (err, s) \<leftarrow> reg_request net True s;
     if err \<noteq> 0 then do {
       rg \<leftarrow> rs_reg s;
       let rg = rg\<lparr>rg_failc := rg_failc rg + 1\<rparr>;
       let s = upd_reg (rg\<lparr>rg_tmr := Some (rs_now s + unat (failwait rnd (rg_failc rg)))\<rparr>) s;
       call_resph err None s }
     else Some s }"

definition keepalive_handler :: "u16 \<Rightarrow> errno \<Rightarrow> regs \<Rightarrow> regs option" where
  "keepalive_handler rnd err s = do {
     rg \<leftarrow> rs_reg s;
     if rg_req rg \<noteq> None \<or> rg_terminated rg then Some s
     else do {
       let rg = rg\<lparr>rg_failc := rg_failc rg + 1\<rparr>;
       let s = upd_reg (rg\<lparr>rg_tmr := Some (rs_now s + unat (failwait rnd (rg_failc rg)))\<rparr>) s;
       call_resph err None s } }"

definition start_outbound :: "reg_msg \<Rightarrow> sipreg \<Rightarrow> sipreg" where
  "start_outbound msg rg = (if rm_keepalive msg then rg\<lparr>rg_ka := True\<rparr> else rg)"

section \<open>Responses\<close>

definition contact_handler :: "reg_msg \<Rightarrow> reg_contact \<Rightarrow> sipreg \<Rightarrow> bool \<times> sipreg" where
  "contact_handler msg c rg =
     (if \<not> co_ok c then (False, rg)
      else if co_user c \<noteq> rg_cuser rg then (False, rg)
      else
        case co_host c of
          None \<Rightarrow> (False, rg)
        | Some host \<Rightarrow>
            if host \<noteq> rg_laddr rg then (False, rg)
            else
              let tp = (case co_transport c of None \<Rightarrow> SIP_TRANSP_UDP | Some tp \<Rightarrow> tp)
              in if tp \<noteq> rg_tp rg then (False, rg)
                 else
                   (True, rg\<lparr>rg_wait :=
                      (case co_expires c of
                         Some e \<Rightarrow> e
                       | None \<Rightarrow> (case rm_expires msg of Some e \<Rightarrow> e | None \<Rightarrow> DEFAULT_EXPIRES))\<rparr>))"

text \<open>\<open>sip_msg_hdr_apply\<close> stops at the first contact that the handler accepts.\<close>

fun apply_contacts :: "reg_msg \<Rightarrow> reg_contact list \<Rightarrow> sipreg \<Rightarrow> sipreg" where
  "apply_contacts msg [] rg = rg"
| "apply_contacts msg (c # cs) rg =
     (let (stop, rg) = contact_handler msg c rg in if stop then rg else apply_contacts msg cs rg)"

definition registered_by :: "reg_msg \<Rightarrow> sipreg \<Rightarrow> sipreg" where
  "registered_by msg rg =
     (let rg = rg\<lparr>rg_wait := rg_expires rg\<rparr>;
          rg = apply_contacts msg (rm_contacts msg) rg;
          rg = rg\<lparr>rg_registered := (rg_wait rg > 0)\<rparr>;
          rg = rg\<lparr>rg_pexpires := rg_wait rg\<rparr>;
          rg = rg\<lparr>rg_wait := rg_wait rg * (rg_rwait rg * 10)\<rparr>;
          rg = rg\<lparr>rg_failc := 0\<rparr>
      in if rg_regid rg > 0 \<and> \<not> rg_terminated rg \<and> \<not> rg_ka rg then start_outbound msg rg else rg)"

text \<open>The part from the label \<open>out\<close> on.\<close>

definition response_out :: "reg_net \<Rightarrow> errno \<Rightarrow> reg_msg option \<Rightarrow> regs \<Rightarrow> regs option" where
  "response_out net err msg s = do {
     rg \<leftarrow> rs_reg s;
     let scode = map_option rm_scode msg;
     if rg_expires rg = 0 then do {
       let rg = (case scode of Some c \<Rightarrow> if c \<ge> 400 \<and> c < 500 then rg\<lparr>rg_fbregint := 0\<rparr> else rg | None \<Rightarrow> rg);
       let s = upd_reg rg s;
       if rg_terminated rg then deref_reg net s
       else call_resph err scode
              (upd_reg (if rg_fbregint rg \<noteq> 0 then rg\<lparr>rg_tmr := Some (rs_now s + unat (rg_fbregint rg * 1000))\<rparr> else rg\<lparr>rg_tmr := None\<rparr>) s) }
     else if rg_terminated rg then
       (if \<not> rg_registered rg then deref_reg net s
        else do {
          (err, s) \<leftarrow> reg_request net True s;
          if err \<noteq> 0 then deref_reg net s else Some s })
     else call_resph err scode (upd_reg (rg\<lparr>rg_tmr := Some (rs_now s + unat (rg_wait rg))\<rparr>) s) }"

text \<open>After a failed attempt to send again.\<close>

definition count_failure :: "regs \<Rightarrow> regs option" where
  "count_failure s = do { rg \<leftarrow> rs_reg s; Some (upd_reg (rg\<lparr>rg_failc := rg_failc rg + 1\<rparr>) s) }"

definition send_again :: "reg_net \<Rightarrow> reg_msg \<Rightarrow> regs \<Rightarrow> regs option" where
  "send_again net msg s = do {
     (err, s) \<leftarrow> reg_request net False s;
     if err \<noteq> 0 then do { s \<leftarrow> count_failure s; response_out net err (Some msg) s } else Some s }"

definition response_failed :: "reg_net \<Rightarrow> reg_msg \<Rightarrow> regs \<Rightarrow> regs option" where
  "response_failed net msg s = do {
     rg \<leftarrow> rs_reg s;
     if rg_terminated rg \<and> \<not> rg_registered rg then response_out net 0 (Some msg) s
     else if rm_scode msg \<in> {401, 407} then
       (if rm_auth msg \<noteq> 0
        then do { s \<leftarrow> count_failure s; response_out net (if rm_auth msg = EAUTH then 0 else rm_auth msg) (Some msg) s }
        else send_again net msg s)
     else if rm_scode msg = 423 then
       (case rm_min_expires msg of
          Some e \<Rightarrow>
            if e = 0 \<or> rg_expires rg = 0 then do { s \<leftarrow> count_failure s; response_out net 0 (Some msg) s }
            else send_again net msg (upd_reg (rg\<lparr>rg_expires := e\<rparr>) s)
        | None \<Rightarrow> do { s \<leftarrow> count_failure s; response_out net 0 (Some msg) s })
     else do { s \<leftarrow> count_failure s; response_out net 0 (Some msg) s } }"

definition response_handler_reg :: "reg_net \<Rightarrow> u16 \<Rightarrow> errno \<Rightarrow> reg_msg option \<Rightarrow> regs \<Rightarrow> regs option" where
  "response_handler_reg net rnd err msg s = do {
     rg \<leftarrow> rs_reg s;
     let rg = rg\<lparr>rg_wait := failwait rnd (rg_failc rg + 1)\<rparr>;
     case msg of
       None \<Rightarrow> response_out net err msg (upd_reg (rg\<lparr>rg_failc := rg_failc rg + 1\<rparr>) s)
     | Some m \<Rightarrow>
         if err \<noteq> 0 then response_out net err msg (upd_reg (rg\<lparr>rg_failc := rg_failc rg + 1\<rparr>) s)
         else
           let (loops, ls) = sip_request_loops (rg_ls rg) (rm_scode m);
               rg = rg\<lparr>rg_ls := ls\<rparr>
           in if loops then response_out net err msg (upd_reg (rg\<lparr>rg_failc := rg_failc rg + 1\<rparr>) s)
              else if rm_scode m < 200 then Some (upd_reg rg s)
              else if rm_scode m < 300 then response_out net err msg (upd_reg (registered_by m rg) s)
              else response_failed net m (upd_reg rg s) }"

text \<open>How \<open>terminate\<close> of \<open>request.c\<close> ends a request: its pointer is cleared, then the response handler is called.  A
  provisional response leaves the request as it is.\<close>

definition reg_response :: "reg_net \<Rightarrow> u16 \<Rightarrow> nat \<Rightarrow> errno \<Rightarrow> reg_msg option \<Rightarrow> regs \<Rightarrow> regs option" where
  "reg_response net rnd r err msg s =
     (if msg \<noteq> None \<and> rm_scode (the msg) < 200 then response_handler_reg net rnd err msg s
      else do {
        rg \<leftarrow> rs_reg s;
        response_handler_reg net rnd err msg (upd_reg (rg\<lparr>rg_req := None\<rparr>) (s\<lparr>rs_reqs := remove1 r (rs_reqs s)\<rparr>)) })"

section \<open>What the application calls\<close>

text \<open>The results of what \<open>vsipreg_alloc\<close> calls are parameters: the allocation, the dialog, the authentication state, the
  copies of the strings and the headers.\<close>

definition vsipreg_alloc ::
    "bool \<Rightarrow> bool \<Rightarrow> errno \<Rightarrow> errno \<Rightarrow> errno \<Rightarrow> errno \<Rightarrow> u32 \<Rightarrow> string \<Rightarrow> int \<Rightarrow> bool \<Rightarrow> string option \<Rightarrow> string \<Rightarrow> nat \<Rightarrow> errno \<times> regs option" where
  "vsipreg_alloc args_ok mem dlg_err auth_err dup_err hdrs_err expires cuser regid resph params hdrs now =
     (if \<not> args_ok then (EINVAL, None)
      else if \<not> mem then (ENOMEM, None)
      else
        let err = (if dlg_err \<noteq> 0 then dlg_err else if auth_err \<noteq> 0 then auth_err else if dup_err \<noteq> 0 then dup_err else hdrs_err)
        in if err \<noteq> 0 then (err, None)
           else
             (OK, Some \<lparr>rs_reg = Some \<lparr>rg_ls = \<lparr>ls_failc = 0, ls_last_scode = 0\<rparr>, rg_laddr = [], rg_tmr = None, rg_ka = False, rg_req = None,
                            rg_hdrs = hdrs, rg_cuser = cuser, rg_cparams = None, rg_user = resph, rg_expires = expires, rg_pexpires = 0,
                            rg_failc = 0, rg_rwait = 90, rg_wait = 0, rg_fbregint = 0, rg_tp = SIP_TRANSP_NONE, rg_registered = False,
                            rg_terminated = False, rg_params = params, rg_regid = regid, rg_srcport = 0\<rparr>,
                        rs_refs = 1, rs_reqs = [], rs_next = 0, rs_now = now, rs_log = []\<rparr>))"

definition sipreg_send :: "reg_net \<Rightarrow> regs \<Rightarrow> (errno \<times> regs) option" where
  "sipreg_send net s = reg_request net True s"

definition sipreg_unregister :: "reg_net \<Rightarrow> regs \<Rightarrow> regs option" where
  "sipreg_unregister net s = do {
     rg \<leftarrow> rs_reg s;
     (_, s) \<leftarrow> sipreg_send net (upd_reg (rg\<lparr>rg_expires := 0\<rparr>) s);
     Some s }"

definition sipreg_set_rwait :: "u32 \<Rightarrow> sipreg \<Rightarrow> errno \<times> sipreg" where
  "sipreg_set_rwait rwait rg = (if rwait < 5 \<or> rwait > 95 then (EINVAL, rg) else (OK, rg\<lparr>rg_rwait := rwait\<rparr>))"

definition sipreg_set_fbregint :: "u32 \<Rightarrow> sipreg \<Rightarrow> sipreg" where
  "sipreg_set_fbregint fbregint rg = rg\<lparr>rg_fbregint := fbregint\<rparr>"

definition sipreg_incfailc :: "sipreg \<Rightarrow> sipreg" where
  "sipreg_incfailc rg = rg\<lparr>rg_failc := rg_failc rg + 1\<rparr>"

definition sipreg_failed :: "sipreg option \<Rightarrow> bool" where
  "sipreg_failed rg = (case rg of None \<Rightarrow> False | Some rg \<Rightarrow> rg_failc rg > 0)"

definition sipreg_registered :: "sipreg option \<Rightarrow> bool" where
  "sipreg_registered rg = (case rg of None \<Rightarrow> False | Some rg \<Rightarrow> rg_registered rg)"

definition sipreg_proxy_expires :: "sipreg option \<Rightarrow> u32" where
  "sipreg_proxy_expires rg = (case rg of None \<Rightarrow> 0 | Some rg \<Rightarrow> rg_pexpires rg)"

definition sipreg_set_contact_params :: "string \<Rightarrow> sipreg \<Rightarrow> sipreg" where
  "sipreg_set_contact_params cparams rg = rg\<lparr>rg_cparams := Some cparams\<rparr>"

end
