(* ===== verification/Sip_Reg_Spec.thy ===== *)
theory Sip_Reg_Spec
  imports Sip_Reg
begin

text \<open>
  What the registration client guarantees.  A run (\<open>rg_step\<close>, \<open>rg_reach\<close>) starts with a request that could be sent; the
  owner sends and unregisters only when no request is outstanding, and answers come before the next refresh is due.  Then
  no answer and no timer meets a freed object, the object of an owner that has gone waits for an answer and for nothing
  else, and an active registration always has a request on its way or a timer running (\<open>rg_inv\<close>).  Without that
  condition the object can be freed under an outstanding request (\<open>two_requests_use_freed\<close>).
\<close>

section \<open>Runs\<close>

inductive rg_step :: "reg_net \<Rightarrow> regs \<Rightarrow> regs \<Rightarrow> bool" for net where
  step_send: "rs_reg s = Some rg \<Longrightarrow> \<not> rg_terminated rg \<Longrightarrow> rs_reqs s = [] \<Longrightarrow> sipreg_send net s = Some (e, s') \<Longrightarrow> rg_step net s s'"
| step_unregister: "rs_reg s = Some rg \<Longrightarrow> \<not> rg_terminated rg \<Longrightarrow> rs_reqs s = [] \<Longrightarrow> sipreg_unregister net s = Some s' \<Longrightarrow> rg_step net s s'"
| step_rwait: "rs_reg s = Some rg \<Longrightarrow> \<not> rg_terminated rg \<Longrightarrow> sipreg_set_rwait w rg = (e, rg') \<Longrightarrow> rg_step net s (upd_reg rg' s)"
| step_fbregint: "rs_reg s = Some rg \<Longrightarrow> \<not> rg_terminated rg \<Longrightarrow> rg_step net s (upd_reg (sipreg_set_fbregint w rg) s)"
| step_release: "rs_reg s = Some rg \<Longrightarrow> \<not> rg_terminated rg \<Longrightarrow> deref_reg net s = Some s' \<Longrightarrow> rg_step net s s'"
| step_connected: "r \<in> set (rs_reqs s) \<Longrightarrow> rs_reg s = Some rg \<Longrightarrow> send_handler tp src rg = (hdr, rg') \<Longrightarrow> rg_step net s (upd_reg rg' s)"
| step_response: "r \<in> set (rs_reqs s) \<Longrightarrow> err = 0 \<longleftrightarrow> msg \<noteq> None \<Longrightarrow> reg_response net rnd r err msg s = Some s' \<Longrightarrow> rg_step net s s'"
| step_tmr: "rs_reg s = Some rg \<Longrightarrow> rg_tmr rg = Some t \<Longrightarrow> t \<le> rs_now s \<Longrightarrow> rs_reqs s = [] \<Longrightarrow>
    tmr_handler_reg net rnd (upd_reg (rg\<lparr>rg_tmr := None\<rparr>) s) = Some s' \<Longrightarrow> rg_step net s s'"
| step_keepalive: "rs_reg s = Some rg \<Longrightarrow> rg_ka rg \<Longrightarrow> keepalive_handler rnd err s = Some s' \<Longrightarrow> rg_step net s s'"
| step_time: "rs_now s \<le> now \<Longrightarrow> rg_step net s (s\<lparr>rs_now := now\<rparr>)"

inductive rg_reach :: "reg_net \<Rightarrow> regs \<Rightarrow> bool" for net where
  reach_init: "vsipreg_alloc True True 0 0 0 0 expires cuser regid resph params hdrs now = (OK, Some s) \<Longrightarrow>
     sipreg_send net s = Some (OK, s') \<Longrightarrow> rg_reach net s'"
| reach_step: "rg_reach net s \<Longrightarrow> rg_step net s s' \<Longrightarrow> rg_reach net s'"

section \<open>The invariant\<close>

text \<open>An active registration is never idle.\<close>

definition rg_busy :: "regs \<Rightarrow> sipreg \<Rightarrow> bool" where
  "rg_busy s rg \<longleftrightarrow> rs_reqs s \<noteq> [] \<or> rg_tmr rg \<noteq> None"

definition rg_ok :: "regs \<Rightarrow> sipreg \<Rightarrow> bool" where
  "rg_ok s rg \<longleftrightarrow> rs_refs s = 1 \<and>
     (rs_reqs s = [] \<and> rg_req rg = None \<or> (\<exists>r. rs_reqs s = [r] \<and> rg_req rg = Some r)) \<and>
     (rg_terminated rg \<longrightarrow> rs_reqs s \<noteq> [] \<and> rg_tmr rg = None \<and> \<not> rg_user rg) \<and>
     (rg_expires rg \<noteq> 0 \<longrightarrow> rg_busy s rg)"

definition rg_inv :: "regs \<Rightarrow> bool" where
  "rg_inv s \<longleftrightarrow> (case rs_reg s of None \<Rightarrow> rs_reqs s = [] | Some rg \<Rightarrow> rg_ok s rg)"

lemmas rg_state = upd_reg_def rg_put_def

lemma rg_state_simps [simp]:
  "rs_reg (upd_reg rg s) = Some rg" "rs_refs (upd_reg rg s) = rs_refs s" "rs_reqs (upd_reg rg s) = rs_reqs s"
  "rs_now (upd_reg rg s) = rs_now s" "rs_next (upd_reg rg s) = rs_next s" "rs_log (upd_reg rg s) = rs_log s"
  "rs_reg (rg_put x s) = rs_reg s" "rs_refs (rg_put x s) = rs_refs s" "rs_reqs (rg_put x s) = rs_reqs s"
  "rs_now (rg_put x s) = rs_now s" "rs_next (rg_put x s) = rs_next s"
  by (simp_all add: rg_state)

lemma reg_net_simps:
  "(case Req_sent of Req_sent \<Rightarrow> x | Req_failed e \<Rightarrow> f e | Req_dropped e \<Rightarrow> g e) = x"
  "(case Req_failed e of Req_sent \<Rightarrow> x | Req_failed e \<Rightarrow> f e | Req_dropped e \<Rightarrow> g e) = f e"
  "(case Req_dropped e of Req_sent \<Rightarrow> x | Req_failed e \<Rightarrow> f e | Req_dropped e \<Rightarrow> g e) = g e"
  by simp_all

text \<open>What a request does to the object.\<close>

lemma reg_request_cases:
  assumes "rs_reg s = Some rg"
  obtains (sent) s' rg' where "reg_request net b s = Some (0, s')" "rs_reg s' = Some rg'" "rs_reqs s' = rs_reqs s @ [rs_next s]"
      "rg_req rg' = Some (rs_next s)" "rs_refs s' = rs_refs s" "rs_now s' = rs_now s" "rg_tmr rg' = rg_tmr rg" "rg_terminated rg' = rg_terminated rg"
      "rg_expires rg' = (if rg_terminated rg then 0 else rg_expires rg)" "rg_user rg' = rg_user rg"
      "rg_ls rg' = (if b then sip_loopstate_reset (rg_ls rg) else rg_ls rg)" "rg_registered rg' = rg_registered rg"
      "rs_next s' = rs_next s + 1"
  | (failed) e s' rg' where "reg_request net b s = Some (e, s')" "e \<noteq> 0" "rs_reg s' = Some rg'" "rs_reqs s' = rs_reqs s"
      "rg_req rg' = rg_req rg \<or> rg_req rg' = None" "rs_refs s' = rs_refs s" "rs_now s' = rs_now s" "rg_tmr rg' = rg_tmr rg" "rg_terminated rg' = rg_terminated rg"
      "rg_expires rg' = (if rg_terminated rg then 0 else rg_expires rg)" "rg_user rg' = rg_user rg" "rg_registered rg' = rg_registered rg"
      "rg_failc rg' = rg_failc rg" "rg_wait rg' = rg_wait rg"
proof -
  let ?n = "rs_next s"
  let ?rg1 = "if rg_terminated rg then rg\<lparr>rg_expires := 0\<rparr> else rg"
  let ?rg = "if b then ?rg1\<lparr>rg_ls := sip_loopstate_reset (rg_ls ?rg1)\<rparr> else ?rg1"
  let ?s = "s\<lparr>rs_next := ?n + 1\<rparr>"
  have e: "reg_request net b s = Some (case net ?n of
       Req_sent \<Rightarrow> (OK, rg_put (Rg_sent (rg_expires ?rg)) (upd_reg (?rg\<lparr>rg_req := Some ?n\<rparr>) (?s\<lparr>rs_reqs := rs_reqs ?s @ [?n]\<rparr>)))
     | Req_failed err \<Rightarrow> (if err = 0 then ENOMEM else err, upd_reg ?rg ?s)
     | Req_dropped err \<Rightarrow> (if err = 0 then ENOMEM else err, upd_reg (?rg\<lparr>rg_req := None\<rparr>) ?s))"
    unfolding reg_request_def Let_def assms Option.bind.simps ..
  show thesis
  proof (cases "net ?n")
    case Req_sent
    show thesis by (rule sent [OF e [unfolded Req_sent reg_net_simps], where rg' = "?rg\<lparr>rg_req := Some ?n\<rparr>"]) simp_all
  next
    case (Req_failed err)
    show thesis by (rule failed [OF e [unfolded Req_failed reg_net_simps], where rg' = "?rg"]) simp_all
  next
    case (Req_dropped err)
    show thesis by (rule failed [OF e [unfolded Req_dropped reg_net_simps], where rg' = "?rg\<lparr>rg_req := None\<rparr>"]) simp_all
  qed
qed

text \<open>The object after its final answer: one reference, no request.\<close>

definition rg_idle :: "regs \<Rightarrow> sipreg \<Rightarrow> bool" where
  "rg_idle s rg \<longleftrightarrow> rs_reg s = Some rg \<and> rs_refs s = 1 \<and> rs_reqs s = [] \<and> rg_req rg = None \<and>
     (rg_terminated rg \<longrightarrow> rg_tmr rg = None \<and> \<not> rg_user rg)"

lemma deref_terminated:
  assumes "rg_idle s rg" "rg_terminated rg"
  shows "\<exists>s'. deref_reg net s = Some s' \<and> rs_reg s' = None \<and> rs_reqs s' = [] \<and> rs_log s' = rs_log s"
  using assms by (simp add: rg_idle_def deref_reg_def destructor_reg_def Let_def)

lemma deref_owner:
  assumes i: "rg_ok s rg" and r: "rs_reg s = Some rg" "\<not> rg_terminated rg"
  shows "\<exists>s'. deref_reg net s = Some s' \<and> rg_inv s' \<and> (\<forall>rg'. rs_reg s' = Some rg' \<longrightarrow> rg_terminated rg')"
proof -
  let ?rg = "rg\<lparr>rg_tmr := None, rg_user := False, rg_terminated := True\<rparr>"
  let ?s = "upd_reg ?rg (s\<lparr>rs_refs := 0\<rparr>)"
  have u: "upd_reg y (upd_reg x s) = upd_reg y s" for x y s by (simp add: upd_reg_def)
  have d: "deref_reg net s = Option.bind (if rg_req rg \<noteq> None then Some (?s\<lparr>rs_refs := 1\<rparr>)
      else if rg_registered rg then Option.bind (reg_request net True ?s) (\<lambda>(err, s). Some (if err = 0 then s\<lparr>rs_refs := rs_refs s + 1\<rparr> else s))
      else Some ?s) (\<lambda>s. Some (if rs_refs s > 0 then s else s\<lparr>rs_reg := None\<rparr>))"
    using r i by (simp add: deref_reg_def destructor_reg_def Let_def rg_ok_def u)
  consider r where "rs_reqs s = [r]" "rg_req rg = Some r" | "rs_reqs s = []" "rg_req rg = None" using i by (auto simp: rg_ok_def)
  then show ?thesis
  proof cases
    case 1
    then show ?thesis unfolding d by (simp add: rg_inv_def rg_ok_def rg_busy_def)
  next
    case n: 2
    show ?thesis
    proof (cases "rg_registered rg")
      case False
      then show ?thesis unfolding d using n by (simp add: rg_inv_def)
    next
      case True
      show ?thesis
      proof (rule reg_request_cases [of ?s ?rg net True], goal_cases _ sent failed)
        case (sent s' rg')
        then show ?thesis unfolding d using n True by (simp add: rg_inv_def rg_ok_def rg_busy_def)
      next
        case (failed e s' rg')
        then show ?thesis unfolding d using n True by (simp add: rg_inv_def)
      qed simp
    qed
  qed
qed

section \<open>Answers\<close>

lemma call_resph_inv:
  assumes "rg_inv s" "rs_reg s = Some rg"
  shows "\<exists>s'. call_resph err scode s = Some s' \<and> rg_inv s' \<and> rs_reg s' = Some rg \<and> rs_reqs s' = rs_reqs s \<and> rs_now s' = rs_now s"
  using assms by (auto simp: call_resph_def rg_inv_def rg_ok_def rg_busy_def)

lemma idle_with_timer:
  assumes "rg_idle s rg" "\<not> rg_terminated rg" "rg_expires rg = 0 \<or> t \<noteq> None"
  shows "rg_inv (upd_reg (rg\<lparr>rg_tmr := t\<rparr>) s)"
  using assms by (auto simp: rg_idle_def rg_inv_def rg_ok_def rg_busy_def)

lemma idle_upd:
  assumes "rg_idle s rg" "rg_req rg' = rg_req rg" "rg_terminated rg' = rg_terminated rg" "rg_tmr rg' = rg_tmr rg" "rg_user rg' = rg_user rg"
  shows "rg_idle (upd_reg rg' s) rg'"
  using assms by (simp add: rg_idle_def)

lemma upd_reg_twice [simp]: "upd_reg y (upd_reg x s) = upd_reg y s"
  by (simp add: upd_reg_def)

text \<open>With a final answer that starts no new request at once the registration waits for its timer.\<close>

lemma out_waits:
  assumes i: "rg_idle s rg" and t: "\<not> rg_terminated rg" "rg_expires rg \<noteq> 0"
  shows "\<exists>s'. response_out net err msg s = Some s' \<and> rg_inv s' \<and> rs_reqs s' = [] \<and>
     rs_reg s' = Some (rg\<lparr>rg_tmr := Some (rs_now s + unat (rg_wait rg))\<rparr>)"
proof -
  let ?rg = "rg\<lparr>rg_tmr := Some (rs_now s + unat (rg_wait rg))\<rparr>"
  have "rg_inv (upd_reg ?rg s)" using idle_with_timer [OF i t(1)] by simp
  from call_resph_inv [OF this, of ?rg err "map_option rm_scode msg"] obtain s' where
    "call_resph err (map_option rm_scode msg) (upd_reg ?rg s) = Some s'" "rg_inv s'" "rs_reg s' = Some ?rg" "rs_reqs s' = rs_reqs s" by auto
  then show ?thesis using i t by (simp add: response_out_def rg_idle_def Let_def)
qed

lemma out_inv:
  assumes i: "rg_idle s rg"
  shows "\<exists>s'. response_out net err msg s = Some s' \<and> rg_inv s'"
proof -
  have r: "rs_reg s = Some rg" using i by (simp add: rg_idle_def)
  consider "rg_expires rg \<noteq> 0" "\<not> rg_terminated rg" | "rg_expires rg \<noteq> 0" "rg_terminated rg" | "rg_expires rg = 0" by blast
  then show ?thesis
  proof cases
    case 1
    then show ?thesis using out_waits [OF i] by blast
  next
    case t: 2
    show ?thesis
    proof (cases "rg_registered rg")
      case False
      then show ?thesis using t r deref_terminated [OF i t(2), of net] by (auto simp: response_out_def Let_def rg_inv_def)
    next
      case True
      show ?thesis
      proof (rule reg_request_cases [OF r, of net True], goal_cases sent failed)
        case (sent s' rg')
        then have "rg_inv s'" using i t by (simp add: rg_inv_def rg_ok_def rg_idle_def)
        then show ?case using sent(1) t True r by (simp add: response_out_def Let_def)
      next
        case (failed e s' rg')
        then have "rg_idle s' rg'" "rg_terminated rg'" using i t by (auto simp: rg_idle_def)
        from deref_terminated [OF this, of net] show ?case
          using failed(1,2) t True r by (auto simp: response_out_def Let_def rg_inv_def)
      qed
    qed
  next
    case z: 3
    let ?fb = "case map_option rm_scode msg of Some c \<Rightarrow> if c \<ge> 400 \<and> c < 500 then rg\<lparr>rg_fbregint := 0\<rparr> else rg | None \<Rightarrow> rg"
    define rg' where "rg' = ?fb"
    have k: "rg_req rg' = rg_req rg" "rg_terminated rg' = rg_terminated rg" "rg_tmr rg' = rg_tmr rg" "rg_user rg' = rg_user rg"
      "rg_expires rg' = 0" using z by (auto simp: rg'_def split: option.splits)
    have o: "response_out net err msg s = (if rg_terminated rg' then deref_reg net (upd_reg rg' s)
       else call_resph err (map_option rm_scode msg)
              (upd_reg (if rg_fbregint rg' \<noteq> 0 then rg'\<lparr>rg_tmr := Some (rs_now s + unat (rg_fbregint rg' * 1000))\<rparr> else rg'\<lparr>rg_tmr := None\<rparr>) s))"
      using r z by (simp add: response_out_def Let_def rg'_def cong: if_cong)
    have i': "rg_idle (upd_reg rg' s) rg'" using idle_upd [OF i k(1-4)] .
    show ?thesis
    proof (cases "rg_terminated rg'")
      case True
      then show ?thesis using deref_terminated [OF i' True, of net] unfolding o by (auto simp: rg_inv_def)
    next
      case False
      have "rg_inv (upd_reg (rg'\<lparr>rg_tmr := t\<rparr>) s)" for t using idle_with_timer [OF i' False, of t] k(5) by simp
      note c = call_resph_inv [OF this, of _ _ err "map_option rm_scode msg"]
      show ?thesis unfolding o using False c by simp blast
    qed
  qed
qed

lemma count_failure_idle:
  assumes "rg_idle s rg"
  shows "count_failure s = Some (upd_reg (rg\<lparr>rg_failc := rg_failc rg + 1\<rparr>) s)"
    "rg_idle (upd_reg (rg\<lparr>rg_failc := rg_failc rg + 1\<rparr>) s) (rg\<lparr>rg_failc := rg_failc rg + 1\<rparr>)"
  using assms by (simp_all add: count_failure_def rg_idle_def)

lemma fail_out_inv:
  assumes "rg_idle s rg"
  shows "\<exists>s'. Option.bind (count_failure s) (response_out net err msg) = Some s' \<and> rg_inv s'"
  using count_failure_idle [OF assms] out_inv by fastforce

lemma send_again_inv:
  assumes i: "rg_idle s rg"
  shows "\<exists>s'. send_again net msg s = Some s' \<and> rg_inv s'"
proof -
  have r: "rs_reg s = Some rg" using i by (simp add: rg_idle_def)
  show ?thesis
  proof (rule reg_request_cases [OF r, of net False], goal_cases sent failed)
    case (sent s' rg')
    then have "rg_inv s'" using i by (simp add: rg_inv_def rg_ok_def rg_idle_def rg_busy_def)
    then show ?case using sent(1) by (simp add: send_again_def)
  next
    case (failed e s' rg')
    then have "rg_idle s' rg'" using i by (auto simp: rg_idle_def)
    from fail_out_inv [OF this] show ?case using failed(1,2) by (simp add: send_again_def)
  qed
qed

lemma response_failed_inv:
  assumes i: "rg_idle s rg"
  shows "\<exists>s'. response_failed net msg s = Some s' \<and> rg_inv s'"
proof -
  have r: "rs_reg s = Some rg" using i by (simp add: rg_idle_def)
  have e: "rg_idle (upd_reg (rg\<lparr>rg_expires := x\<rparr>) s) (rg\<lparr>rg_expires := x\<rparr>)" for x by (rule idle_upd [OF i]) simp_all
  note o = out_inv [OF i] and f = fail_out_inv [OF i] and a = send_again_inv [OF i] and b = send_again_inv [OF e]
  show ?thesis using r o f a b by (simp add: response_failed_def split: option.splits)
qed

lemma response_final_inv:
  assumes i: "rg_idle s rg" and m: "\<not> (msg \<noteq> None \<and> rm_scode (the msg) < 200)"
  shows "\<exists>s'. response_handler_reg net rnd err msg s = Some s' \<and> rg_inv s'"
proof -
  have r: "rs_reg s = Some rg" using i by (simp add: rg_idle_def)
  have o: "\<exists>s'. response_out net err msg (upd_reg rg' s) = Some s' \<and> rg_inv s'"
    if "rg_req rg' = rg_req rg" "rg_terminated rg' = rg_terminated rg" "rg_tmr rg' = rg_tmr rg" "rg_user rg' = rg_user rg" for rg' err msg
    by (rule out_inv [OF idle_upd [OF i that]])
  have f: "\<exists>s'. response_failed net m (upd_reg rg' s) = Some s' \<and> rg_inv s'"
    if "rg_req rg' = rg_req rg" "rg_terminated rg' = rg_terminated rg" "rg_tmr rg' = rg_tmr rg" "rg_user rg' = rg_user rg" for rg' m
    by (rule response_failed_inv [OF idle_upd [OF i that]])
  have c: "rg_req (apply_contacts m cs g) = rg_req g \<and> rg_terminated (apply_contacts m cs g) = rg_terminated g \<and>
      rg_tmr (apply_contacts m cs g) = rg_tmr g \<and> rg_user (apply_contacts m cs g) = rg_user g" for m cs g
    by (induction cs arbitrary: g) (auto simp: contact_handler_def Let_def split: option.splits)
  have b: "rg_req (registered_by m g) = rg_req g \<and> rg_terminated (registered_by m g) = rg_terminated g \<and>
      rg_tmr (registered_by m g) = rg_tmr g \<and> rg_user (registered_by m g) = rg_user g" for m g
    using c by (simp add: registered_by_def start_outbound_def Let_def)
  show ?thesis
  proof (cases msg)
    case None
    then show ?thesis using o r by (simp add: response_handler_reg_def Let_def)
  next
    case (Some m')
    then have n: "\<not> rm_scode m' < 200" using m by simp
    obtain l ls where l: "sip_request_loops (rg_ls rg) (rm_scode m') = (l, ls)" by force
    show ?thesis
    proof (cases "err \<noteq> 0 \<or> l")
      case True
      then show ?thesis using o r Some l by (auto simp: response_handler_reg_def Let_def)
    next
      case False
      then show ?thesis using o f b r Some l n by (simp add: response_handler_reg_def Let_def)
    qed
  qed
qed

lemma response_provisional:
  assumes i: "rg_ok s rg" and r: "rs_reg s = Some rg" and m: "rm_scode m < 200"
  shows "\<exists>s'. response_handler_reg net rnd 0 (Some m) s = Some s' \<and> rg_inv s'"
  using assms by (auto simp: response_handler_reg_def sip_request_loops_def Let_def rg_inv_def rg_ok_def rg_busy_def)

text \<open>An answer to an outstanding request meets the object and keeps the invariant.\<close>

lemma reg_response_inv:
  assumes i: "rg_inv s" and r: "r \<in> set (rs_reqs s)" and m: "err = 0 \<longleftrightarrow> msg \<noteq> None"
  shows "\<exists>s'. reg_response net rnd r err msg s = Some s' \<and> rg_inv s'"
proof -
  obtain rg where rg: "rs_reg s = Some rg" "rg_ok s rg" using i r by (auto simp: rg_inv_def split: option.splits)
  then have q: "rs_reqs s = [r]" "rg_req rg = Some r" using r by (auto simp: rg_ok_def)
  show ?thesis
  proof (cases "msg \<noteq> None \<and> rm_scode (the msg) < 200")
    case True
    then obtain m' where "msg = Some m'" "rm_scode m' < 200" by auto
    then show ?thesis using response_provisional [OF rg(2,1), of m' net rnd] m by (simp add: reg_response_def)
  next
    case False
    let ?s = "upd_reg (rg\<lparr>rg_req := None\<rparr>) (s\<lparr>rs_reqs := []\<rparr>)"
    have "rg_idle ?s (rg\<lparr>rg_req := None\<rparr>)" using rg(2) by (auto simp: rg_idle_def rg_ok_def)
    from response_final_inv [OF this False] show ?thesis using False rg(1) q(1) by (auto simp: reg_response_def)
  qed
qed

section \<open>The owner and the timers\<close>

lemma request_idle_inv:
  assumes i: "rg_idle s rg" "\<not> rg_terminated rg" and b: "rg_expires rg = 0 \<or> rg_tmr rg \<noteq> None"
  shows "\<exists>e s'. reg_request net b' s = Some (e, s') \<and> rg_inv s' \<and> (e = 0 \<longrightarrow> rs_reqs s' \<noteq> [])"
proof -
  have r: "rs_reg s = Some rg" using i by (simp add: rg_idle_def)
  show ?thesis
  proof (rule reg_request_cases [OF r, of net b'], goal_cases sent failed)
    case (sent s' rg')
    then have "rg_inv s'" using i by (simp add: rg_inv_def rg_ok_def rg_idle_def rg_busy_def)
    then show ?case using sent(1,3) by simp
  next
    case (failed e s' rg')
    then have "rg_inv s'" using i b by (auto simp: rg_inv_def rg_ok_def rg_idle_def rg_busy_def)
    then show ?case using failed(1,2) by simp
  qed
qed

lemma ok_idle: "rg_ok s rg \<Longrightarrow> rs_reg s = Some rg \<Longrightarrow> rs_reqs s = [] \<Longrightarrow> rg_idle s rg \<and> \<not> rg_terminated rg \<and> (rg_expires rg = 0 \<or> rg_tmr rg \<noteq> None)"
  by (auto simp: rg_ok_def rg_idle_def rg_busy_def)

lemma tmr_handler_inv:
  assumes i: "rg_inv s" and r: "rs_reg s = Some rg" "rs_reqs s = []"
  shows "\<exists>s'. tmr_handler_reg net rnd (upd_reg (rg\<lparr>rg_tmr := None\<rparr>) s) = Some s' \<and> rg_inv s' \<and>
     (\<exists>rg'. rs_reg s' = Some rg' \<and> (rs_reqs s' \<noteq> [] \<or> rg_tmr rg' = Some (rs_now s + unat (failwait rnd (rg_failc rg + 1)))))"
proof -
  have k: "rg_idle s rg" "\<not> rg_terminated rg" using ok_idle i r by (auto simp: rg_inv_def)
  let ?rg = "rg\<lparr>rg_tmr := None\<rparr>"
  let ?s = "upd_reg ?rg s"
  have id: "rg_idle ?s ?rg" using k by (simp add: rg_idle_def)
  show ?thesis
  proof (rule reg_request_cases [of ?s ?rg net True], goal_cases _ sent failed)
    case (sent s' rg')
    then have "rg_inv s'" using id k(2) by (simp add: rg_inv_def rg_ok_def rg_idle_def rg_busy_def)
    then show ?case using sent(1-3) by (simp add: tmr_handler_reg_def)
  next
    case (failed e s' rg')
    let ?f = "rg'\<lparr>rg_failc := rg_failc rg' + 1\<rparr>"
    let ?t = "?f\<lparr>rg_tmr := Some (rs_now s' + unat (failwait rnd (rg_failc ?f)))\<rparr>"
    have "rg_idle s' rg'" using id failed by (auto simp: rg_idle_def)
    then have "rg_idle (upd_reg ?f s') ?f" by (rule idle_upd) simp_all
    moreover have "\<not> rg_terminated ?f" using failed k(2) by simp
    ultimately have "rg_inv (upd_reg ?t (upd_reg ?f s'))" by (rule idle_with_timer) simp
    then have "rg_inv (upd_reg ?t s')" by simp
    from call_resph_inv [OF this, of ?t e None] show ?case
      using failed(1-3,7,13) by (auto simp: tmr_handler_reg_def Let_def)
  qed simp
qed

lemma keepalive_inv:
  assumes i: "rg_inv s" and r: "rs_reg s = Some rg"
  shows "\<exists>s'. keepalive_handler rnd err s = Some s' \<and> rg_inv s'"
proof (cases "rg_req rg \<noteq> None \<or> rg_terminated rg")
  case True
  then show ?thesis using i r by (auto simp: keepalive_handler_def)
next
  case False
  have "rg_ok s rg" using i r by (simp add: rg_inv_def)
  then have k: "rg_idle s rg" using ok_idle r False by (auto simp: rg_ok_def)
  let ?f = "rg\<lparr>rg_failc := rg_failc rg + 1\<rparr>"
  let ?t = "?f\<lparr>rg_tmr := Some (rs_now s + unat (failwait rnd (rg_failc ?f)))\<rparr>"
  have "rg_idle (upd_reg ?f s) ?f" by (rule idle_upd [OF k]) simp_all
  moreover have "\<not> rg_terminated ?f" using False by simp
  ultimately have "rg_inv (upd_reg ?t (upd_reg ?f s))" by (rule idle_with_timer) simp
  then have "rg_inv (upd_reg ?t s)" by simp
  from call_resph_inv [OF this, of ?t err None] show ?thesis using False r by (auto simp: keepalive_handler_def Let_def)
qed

lemma unregister_inv:
  assumes i: "rg_inv s" and r: "rs_reg s = Some rg" "rs_reqs s = []"
  shows "\<exists>s'. sipreg_unregister net s = Some s' \<and> rg_inv s'"
proof -
  have k: "rg_idle s rg" "\<not> rg_terminated rg" using ok_idle i r by (auto simp: rg_inv_def)
  have "rg_idle (upd_reg (rg\<lparr>rg_expires := 0\<rparr>) s) (rg\<lparr>rg_expires := 0\<rparr>)" by (rule idle_upd [OF k(1)]) simp_all
  moreover have "\<not> rg_terminated (rg\<lparr>rg_expires := 0\<rparr>)" using k(2) by simp
  ultimately obtain e s' where "reg_request net True (upd_reg (rg\<lparr>rg_expires := 0\<rparr>) s) = Some (e, s')" "rg_inv s'"
    using request_idle_inv [of _ _ net True] by fastforce
  then show ?thesis using r by (simp add: sipreg_unregister_def sipreg_send_def)
qed

lemma upd_keeps_inv:
  assumes "rg_inv s" "rs_reg s = Some rg" "rg_req rg' = rg_req rg" "rg_terminated rg' = rg_terminated rg" "rg_tmr rg' = rg_tmr rg"
    "rg_user rg' = rg_user rg" "rg_expires rg' = rg_expires rg"
  shows "rg_inv (upd_reg rg' s)"
  using assms by (auto simp: rg_inv_def rg_ok_def rg_busy_def)

lemma rg_step_inv: "rg_step net s s' \<Longrightarrow> rg_inv s \<Longrightarrow> rg_inv s'"
proof (induction rule: rg_step.induct)
  case (step_send s rg e s')
  have "rg_ok s rg" using step_send by (simp add: rg_inv_def)
  then show ?case using ok_idle [of s rg] request_idle_inv [of s rg net True] step_send by (auto simp: sipreg_send_def)
next
  case (step_unregister s rg s')
  then show ?case using unregister_inv [of s rg net] by auto
next
  case (step_rwait s rg w e rg')
  then show ?case by (auto simp: sipreg_set_rwait_def split: if_splits intro!: upd_keeps_inv)
next
  case (step_fbregint s rg w)
  then show ?case by (auto simp: sipreg_set_fbregint_def intro!: upd_keeps_inv)
next
  case (step_release s rg s')
  have "rg_ok s rg" using step_release by (simp add: rg_inv_def)
  from deref_owner [OF this step_release(1,2), of net] show ?case using step_release(3) by auto
next
  case (step_connected r s rg tp src hdr rg')
  then show ?case by (auto simp: send_handler_def Let_def intro!: upd_keeps_inv)
next
  case (step_response r s err msg rnd s')
  from reg_response_inv [OF step_response(4,1,2), of net rnd] show ?case using step_response(3) by auto
next
  case (step_tmr s rg t rnd s')
  from tmr_handler_inv [OF step_tmr(6,1,4), of net rnd] show ?case using step_tmr(5) by auto
next
  case (step_keepalive s rg rnd err s')
  from keepalive_inv [OF step_keepalive(4,1), of rnd err] show ?case using step_keepalive(3) by auto
next
  case (step_time s now)
  then show ?case by (simp add: rg_inv_def rg_ok_def rg_busy_def split: option.splits)
qed

lemma rg_reach_inv: "rg_reach net s \<Longrightarrow> rg_inv s"
proof (induction rule: rg_reach.induct)
  case (reach_init expires cuser regid resph params hdrs now s s')
  obtain rg where s: "rs_reg s = Some rg" "rs_reqs s = []" "rs_refs s = 1" "\<not> rg_terminated rg"
    using reach_init(1) by (auto simp: vsipreg_alloc_def)
  show ?case
  proof (rule reg_request_cases [OF s(1), of net True], goal_cases sent failed)
    case (sent t rg')
    then show ?case using reach_init(2) s by (simp add: sipreg_send_def rg_inv_def rg_ok_def rg_busy_def)
  next
    case (failed e t rg')
    then show ?case using reach_init(2) by (simp add: sipreg_send_def)
  qed
next
  case (reach_step s s')
  then show ?case using rg_step_inv by blast
qed

section \<open>What the registration promises\<close>

text \<open>C26: An active registration is never idle: a request is on its way or a timer runs that will start one, so that the
  binding is refreshed and failures are retried for ever.\<close>
theorem reg_never_idle:
  assumes "rg_reach net s" "rs_reg s = Some rg" "\<not> rg_terminated rg" "rg_expires rg \<noteq> 0"
  shows "rs_reqs s \<noteq> [] \<or>
     (\<exists>t. rg_tmr rg = Some t \<and>
        (\<exists>s'. tmr_handler_reg net rnd (upd_reg (rg\<lparr>rg_tmr := None\<rparr>) s) = Some s' \<and>
           (\<exists>rg'. rs_reg s' = Some rg' \<and> (rs_reqs s' \<noteq> [] \<or> rg_tmr rg' \<noteq> None))))"
proof (cases "rs_reqs s = []")
  case True
  have i: "rg_inv s" by (rule rg_reach_inv [OF assms(1)])
  then have "rg_tmr rg \<noteq> None" using assms(2,4) True by (auto simp: rg_inv_def rg_ok_def rg_busy_def)
  then show ?thesis using tmr_handler_inv [OF i assms(2) True, of net rnd] by fastforce
qed simp

text \<open>C27: The object outlives its requests: no answer to an outstanding request meets it freed, and once the owner has
  released it, it holds no timer, calls nobody and waits for exactly one answer.\<close>
theorem reg_lifetime:
  assumes "rg_reach net s"
  shows "(\<forall>r\<in>set (rs_reqs s). \<forall>err msg rnd. (err = 0 \<longleftrightarrow> msg \<noteq> None) \<longrightarrow> reg_response net rnd r err msg s \<noteq> None) \<and>
     (case rs_reg s of
        None \<Rightarrow> rs_reqs s = []
      | Some rg \<Rightarrow> rs_refs s = 1 \<and> length (rs_reqs s) \<le> 1 \<and>
          (rg_terminated rg \<longrightarrow> length (rs_reqs s) = 1 \<and> rg_tmr rg = None \<and> \<not> rg_user rg))"
proof -
  have i: "rg_inv s" by (rule rg_reach_inv [OF assms])
  have "reg_response net rnd r err msg s \<noteq> None" if "r \<in> set (rs_reqs s)" "err = 0 \<longleftrightarrow> msg \<noteq> None" for r err msg rnd
    using reg_response_inv [OF i that, of net rnd] by auto
  then show ?thesis using i by (auto simp: rg_inv_def rg_ok_def split: option.splits)
qed

text \<open>What a success grants: the expiry of our own contact, or the one that was asked for.\<close>

definition our_contact :: "sipreg \<Rightarrow> reg_contact \<Rightarrow> bool" where
  "our_contact rg c \<longleftrightarrow> co_ok c \<and> co_user c = rg_cuser rg \<and> co_host c = Some (rg_laddr rg) \<and>
     (case co_transport c of None \<Rightarrow> SIP_TRANSP_UDP | Some tp \<Rightarrow> tp) = rg_tp rg"

definition granted :: "reg_msg \<Rightarrow> sipreg \<Rightarrow> u32" where
  "granted m rg =
     (case find (our_contact rg) (rm_contacts m) of
        None \<Rightarrow> rg_expires rg
      | Some c \<Rightarrow> (case co_expires c of Some e \<Rightarrow> e | None \<Rightarrow> (case rm_expires m of Some e \<Rightarrow> e | None \<Rightarrow> DEFAULT_EXPIRES)))"

lemma contact_handler_our:
  "contact_handler m c rg = (if our_contact rg c
     then (True, rg\<lparr>rg_wait := (case co_expires c of Some e \<Rightarrow> e | None \<Rightarrow> (case rm_expires m of Some e \<Rightarrow> e | None \<Rightarrow> DEFAULT_EXPIRES))\<rparr>)
     else (False, rg))"
  by (auto simp: contact_handler_def our_contact_def Let_def split: option.splits)

lemma apply_contacts_granted:
  "apply_contacts m cs rg =
     (case find (our_contact rg) cs of
        None \<Rightarrow> rg
      | Some c \<Rightarrow> rg\<lparr>rg_wait := (case co_expires c of Some e \<Rightarrow> e | None \<Rightarrow> (case rm_expires m of Some e \<Rightarrow> e | None \<Rightarrow> DEFAULT_EXPIRES))\<rparr>)"
  by (induction cs) (simp_all add: contact_handler_our)

lemma our_contact_wait [simp]: "our_contact (rg\<lparr>rg_wait := w\<rparr>) = our_contact rg" "our_contact (rg\<lparr>rg_ls := ls\<rparr>) = our_contact rg"
  "our_contact (rg\<lparr>rg_req := q\<rparr>) = our_contact rg"
  by (simp_all add: our_contact_def fun_eq_iff)

lemma registered_by_fields:
  "rg_wait (registered_by m rg) = granted m rg * (rg_rwait rg * 10)" "rg_registered (registered_by m rg) = (granted m rg > 0)"
  "rg_pexpires (registered_by m rg) = granted m rg" "rg_failc (registered_by m rg) = 0"
  "rg_terminated (registered_by m rg) = rg_terminated rg" "rg_expires (registered_by m rg) = rg_expires rg"
  "rg_req (registered_by m rg) = rg_req rg" "rg_tmr (registered_by m rg) = rg_tmr rg" "rg_user (registered_by m rg) = rg_user rg"
  by (simp_all add: registered_by_def apply_contacts_granted granted_def start_outbound_def Let_def split: option.split)

text \<open>C28: After a success the next request is due after the configured part of the time that was granted, before the binding
  expires, as long as that many milliseconds fit into 32 bits.\<close>
theorem reg_refresh_in_time:
  assumes "rg_reach net s" "rs_reg s = Some rg" "\<not> rg_terminated rg" "rg_expires rg \<noteq> 0" "r \<in> set (rs_reqs s)"
    "200 \<le> rm_scode m" "rm_scode m < 300"
  shows "\<exists>s' rg' t. reg_response net rnd r 0 (Some m) s = Some s' \<and> rs_reg s' = Some rg' \<and> rs_reqs s' = [] \<and>
     rg_registered rg' = (granted m rg > 0) \<and> rg_pexpires rg' = granted m rg \<and> rg_failc rg' = 0 \<and> rg_tmr rg' = Some t \<and>
     t = rs_now s + unat (granted m rg) * unat (rg_rwait rg) * 10 mod 2 ^ 32 \<and>
     (0 < granted m rg \<and> unat (rg_rwait rg) \<le> 95 \<and> unat (granted m rg) * unat (rg_rwait rg) * 10 < 2 ^ 32 \<longrightarrow>
        t < rs_now s + unat (granted m rg) * 1000)"
proof -
  have i: "rg_ok s rg" using rg_reach_inv [OF assms(1)] assms(2) by (simp add: rg_inv_def)
  then have q: "rs_reqs s = [r]" using assms(5) by (auto simp: rg_ok_def)
  let ?base = "rg\<lparr>rg_req := None, rg_wait := failwait rnd (rg_failc rg + 1)\<rparr>"
  have n: "\<not> rm_scode m < 200" using assms(6) by simp
  obtain ls where ls: "sip_request_loops (rg_ls rg) (rm_scode m) = (False, ls)"
    using loops_success [OF n assms(7)] by blast
  let ?rg = "registered_by m (?base\<lparr>rg_ls := ls\<rparr>)"
  let ?s = "upd_reg ?rg (s\<lparr>rs_reqs := []\<rparr>)"
  have g: "granted m (?base\<lparr>rg_ls := ls\<rparr>) = granted m rg" by (simp add: granted_def split: option.split)
  have "rg_idle ?s ?rg" using i assms(3) by (auto simp: rg_idle_def rg_ok_def registered_by_fields)
  moreover have "\<not> rg_terminated ?rg" "rg_expires ?rg \<noteq> 0" using assms(3,4) by (simp_all add: registered_by_fields)
  ultimately obtain s' where o: "response_out net 0 (Some m) ?s = Some s'" "rs_reqs s' = []"
    "rs_reg s' = Some (?rg\<lparr>rg_tmr := Some (rs_now ?s + unat (rg_wait ?rg))\<rparr>)" using out_waits by blast
  have p: "reg_response net rnd r 0 (Some m) s = Some s'"
    using assms(2,7) n q ls o(1) by (simp add: reg_response_def response_handler_reg_def Let_def)
  have w: "unat (rg_wait ?rg) = unat (granted m rg) * unat (rg_rwait rg) * 10 mod 2 ^ 32"
    by (simp add: registered_by_fields g unat_word_ariths mult.assoc mod_mult_right_eq take_bit_eq_mod)
  have early: "unat (granted m rg) * unat (rg_rwait rg) * 10 mod 2 ^ 32 < unat (granted m rg) * 1000"
    if "0 < granted m rg" "unat (rg_rwait rg) \<le> 95" "unat (granted m rg) * unat (rg_rwait rg) * 10 < 2 ^ 32"
  proof -
    have "unat (granted m rg) > 0" using that(1) by (simp add: word_less_nat_alt)
    moreover have "unat (rg_rwait rg) * 10 < 1000" using that(2) by simp
    ultimately have "unat (granted m rg) * (unat (rg_rwait rg) * 10) < unat (granted m rg) * 1000" by (simp only: mult_less_cancel1)
    then show ?thesis using that(3) by (simp add: mult.assoc)
  qed
  show ?thesis using p o(2,3) early w by (auto simp: registered_by_fields g)
qed

text \<open>The product wraps from 4772186 s (55 days) on: a server that grants this time is sent a request every 104 ms.\<close>

lemma refresh_overflow: "4772186 * 90 * 10 mod 2 ^ 32 = (104 :: nat)"
  by simp

text \<open>The wait after a failure: 30 s, doubled for each failure up to half an hour, times a random factor from 0.5 to 1.\<close>

lemma failwait_bounds:
  "unat (failwait rnd failc) \<le> 1800000" "failc \<noteq> 0 \<Longrightarrow> 30000 \<le> unat (failwait rnd failc)"
proof -
  let ?w = "min 1800 (30 * 2 ^ min (unat failc) 6) :: nat" and ?r = "500 + unat rnd mod 501"
  have r: "?r \<le> 1000" "500 \<le> ?r" using mod_less_divisor [of 501 "unat rnd"] by linarith+
  have "?w * ?r \<le> 1800 * 1000" using r(1) by (intro mult_le_mono) simp_all
  then have u: "unat (failwait rnd failc) = ?w * ?r" unfolding failwait_def by (intro unat_of_nat_u32) simp
  then show "unat (failwait rnd failc) \<le> 1800000" using \<open>?w * ?r \<le> 1800 * 1000\<close> by simp
  assume "failc \<noteq> 0"
  then have "1 \<le> min (unat failc) 6" by (simp add: unat_gt_0 Suc_le_eq)
  then have "(2 :: nat) ^ 1 \<le> 2 ^ min (unat failc) 6" by (rule power_increasing) simp
  then have "60 \<le> ?w" by simp
  then have "60 * 500 \<le> ?w * ?r" using r(2) by (rule mult_le_mono)
  then show "30000 \<le> unat (failwait rnd failc)" using u by simp
qed

text \<open>C30: A request that failed is repeated after no less than 30 seconds and no more than 30 minutes, and the failure is
  reported to the application.\<close>
theorem reg_backoff:
  assumes "rg_reach net s" "rs_reg s = Some rg" "\<not> rg_terminated rg" "rg_expires rg \<noteq> 0" "r \<in> set (rs_reqs s)"
    "err \<noteq> 0" "rg_failc rg + 1 \<noteq> 0"
  shows "\<exists>s' rg' t. reg_response net rnd r err None s = Some s' \<and> rs_reg s' = Some rg' \<and> rg_failc rg' = rg_failc rg + 1 \<and>
     rg_tmr rg' = Some t \<and> rs_now s + 30000 \<le> t \<and> t \<le> rs_now s + 1800000 \<and>
     (rg_user rg \<longrightarrow> rs_log s' = rs_log s @ [(rs_now s, Rg_resp err None)])"
proof -
  have i: "rg_ok s rg" using rg_reach_inv [OF assms(1)] assms(2) by (simp add: rg_inv_def)
  then have q: "rs_reqs s = [r]" using assms(5) by (auto simp: rg_ok_def)
  let ?rg = "rg\<lparr>rg_req := None, rg_wait := failwait rnd (rg_failc rg + 1), rg_failc := rg_failc rg + 1\<rparr>"
  let ?t = "rs_now s + unat (failwait rnd (rg_failc rg + 1))"
  have "reg_response net rnd r err None s = call_resph err None (upd_reg (?rg\<lparr>rg_tmr := Some ?t\<rparr>) (s\<lparr>rs_reqs := []\<rparr>))"
    using assms(2-4) q by (simp add: reg_response_def response_handler_reg_def response_out_def Let_def)
  then show ?thesis using failwait_bounds [where rnd = rnd and failc = "rg_failc rg + 1"] assms(7)
    by (auto simp: call_resph_def rg_put_def upd_reg_def)
qed

text \<open>C29: A server cannot make the client send without end: an error answer starts a new request at once at most 15 times, each
  time counted, before the client waits for its timer.\<close>
theorem reg_retries_bounded:
  assumes "rg_reach net s" "rs_reg s = Some rg" "\<not> rg_terminated rg" "r \<in> set (rs_reqs s)" "300 \<le> rm_scode m"
    "reg_response net rnd r 0 (Some m) s = Some s'" "rs_reqs s' \<noteq> []"
  shows "\<exists>rg'. rs_reg s' = Some rg' \<and> ls_failc (rg_ls rg') = ls_failc (rg_ls rg) + 1 \<and> ls_failc (rg_ls rg) + 1 < 16 \<and>
     rm_scode m \<in> {401, 407, 423}"
proof -
  have i: "rg_ok s rg" using rg_reach_inv [OF assms(1)] assms(2) by (simp add: rg_inv_def)
  then have q: "rs_reqs s = [r]" using assms(4) by (auto simp: rg_ok_def)
  have n: "\<not> rm_scode m < 300" "\<not> rm_scode m < 200" using assms(5) by (simp_all add: word_le_nat_alt word_less_nat_alt)
  obtain b where b: "sip_request_loops (rg_ls rg) (rm_scode m) = (b, (rg_ls rg)\<lparr>ls_failc := ls_failc (rg_ls rg) + 1, ls_last_scode := rm_scode m\<rparr>)"
    "\<not> b \<longrightarrow> ls_failc (rg_ls rg) + 1 < 16" using loops_failure [OF n(1)] by blast
  have out: "rs_reqs t' = []" if "rg_idle t g" "\<not> rg_terminated g" "response_out net e msg t = Some t'" for t g e msg t'
  proof (cases "rg_expires g = 0")
    case True
    then show ?thesis using that by (auto simp: response_out_def rg_idle_def Let_def call_resph_def split: option.splits if_splits)
  next
    case False
    then show ?thesis using out_waits [OF that(1,2) False, of net e msg] that(3) by auto
  qed
  have fail: "rs_reqs t' = []" if "rg_idle t g" "\<not> rg_terminated g" "Option.bind (count_failure t) (response_out net e msg) = Some t'" for t g e msg t'
    using count_failure_idle [OF that(1)] out [of _ "g\<lparr>rg_failc := rg_failc g + 1\<rparr>"] that(2,3) by auto
  have again: "rs_reqs t' = [] \<or> (\<exists>g'. rs_reg t' = Some g' \<and> rg_ls g' = rg_ls g)"
    if g: "rg_idle t g" "\<not> rg_terminated g" "send_again net m t = Some t'" for t g t'
  proof -
    have rt: "rs_reg t = Some g" using g(1) by (simp add: rg_idle_def)
    show ?thesis
    proof (rule reg_request_cases [OF rt, of net False], goal_cases sent failed)
      case (sent u g')
      then show ?case using g(3) by (simp add: send_again_def)
    next
      case (failed e u g')
      then have "rg_idle u g'" "\<not> rg_terminated g'" using g(1,2) by (auto simp: rg_idle_def)
      from fail [OF this, of e "Some m" t'] show ?case using g(3) failed(1,2) by (simp add: send_again_def)
    qed
  qed
  let ?rg = "rg\<lparr>rg_req := None, rg_wait := failwait rnd (rg_failc rg + 1),
     rg_ls := (rg_ls rg)\<lparr>ls_failc := ls_failc (rg_ls rg) + 1, ls_last_scode := rm_scode m\<rparr>\<rparr>"
  let ?s = "upd_reg ?rg (s\<lparr>rs_reqs := []\<rparr>)"
  have id: "rg_idle ?s ?rg" "\<not> rg_terminated ?rg" using i assms(3) by (auto simp: rg_idle_def rg_ok_def)
  have idf: "rg_idle (upd_reg (?rg\<lparr>rg_failc := rg_failc rg + 1\<rparr>) ?s) (?rg\<lparr>rg_failc := rg_failc rg + 1\<rparr>)" by (rule idle_upd [OF id(1)]) simp_all
  have h: "reg_response net rnd r 0 (Some m) s =
     (if b then response_out net 0 (Some m) (upd_reg (?rg\<lparr>rg_failc := rg_failc rg + 1\<rparr>) ?s) else response_failed net m ?s)"
    using assms(2) q n b(1) by (simp add: reg_response_def response_handler_reg_def Let_def)
  have nb: "\<not> b"
  proof
    assume "b"
    then show False using h assms(6,7) out [OF idf] assms(3) by simp
  qed
  have e: "rg_idle (upd_reg (?rg\<lparr>rg_expires := x\<rparr>) ?s) (?rg\<lparr>rg_expires := x\<rparr>)" for x by (rule idle_upd [OF id(1)]) simp_all
  have rf: "response_failed net m ?s = Some s'" using h nb assms(6) by simp
  have sc: "rm_scode m \<in> {401, 407, 423}" and "send_again net m ?s = Some s' \<or> (\<exists>x. send_again net m (upd_reg (?rg\<lparr>rg_expires := x\<rparr>) ?s) = Some s')"
    using rf fail [OF id] assms(3,7) unfolding response_failed_def
    by (auto split: if_splits option.splits)
  then have "\<exists>g'. rs_reg s' = Some g' \<and> rg_ls g' = rg_ls ?rg"
    using again [OF id] again [OF e] assms(3,7) by fastforce
  then show ?thesis using b(2) nb sc by auto
qed

section \<open>Two requests at once\<close>

text \<open>A registration that is unregistered and released while a request of it is under way is freed by the first answer,
  though the second request still refers to it: its answer uses freed memory.\<close>
lemma two_requests_use_freed:
  assumes "rg_reach net s" "rs_reg s = Some rg" "\<not> rg_terminated rg" "rs_reqs s = [r]" "net (rs_next s) = Req_sent" "r \<noteq> rs_next s" "err \<noteq> 0"
  shows "\<exists>s1 s2 s3. sipreg_unregister net s = Some s1 \<and> deref_reg net s1 = Some s2 \<and> rs_reqs s2 = [r, rs_next s] \<and>
     reg_response net rnd r err None s2 = Some s3 \<and> rs_reg s3 = None \<and> rs_next s \<in> set (rs_reqs s3) \<and>
     (\<forall>err msg rnd. reg_response net rnd (rs_next s) err msg s3 = None)"
proof -
  have i: "rg_ok s rg" using rg_reach_inv [OF assms(1)] assms(2) by (simp add: rg_inv_def)
  let ?n = "rs_next s"
  let ?z = "upd_reg (rg\<lparr>rg_expires := 0\<rparr>) s"
  obtain s1 rg1 where s1: "reg_request net True ?z = Some (0, s1)" "rs_reg s1 = Some rg1" "rs_reqs s1 = [r, ?n]" "rg_req rg1 = Some ?n"
    "rs_refs s1 = 1" "rg_terminated rg1 = False" "rg_expires rg1 = 0"
  proof (rule reg_request_cases [of ?z "rg\<lparr>rg_expires := 0\<rparr>" net True], goal_cases)
    case (2 s' rg')
    then show ?case using i assms(3,4) by (simp add: rg_ok_def)
  next
    case (3 e s' rg')
    then show ?case using assms(5) by (simp add: reg_request_def Let_def)
  qed simp
  let ?rg2 = "rg1\<lparr>rg_tmr := None, rg_user := False, rg_terminated := True\<rparr>"
  let ?s2 = "upd_reg ?rg2 s1"
  have d: "deref_reg net s1 = Some ?s2"
    using s1(2,4-6) by (cases s1) (simp add: deref_reg_def destructor_reg_def Let_def upd_reg_def)
  have u: "sipreg_unregister net s = Some s1" using assms(2) s1(1) by (simp add: sipreg_unregister_def sipreg_send_def)
  obtain s3 where s3: "reg_response net rnd r err None ?s2 = Some s3" "rs_reg s3 = None" "rs_reqs s3 = [?n]"
    using s1(2,3,5,7) assms(7) by (simp add: reg_response_def response_handler_reg_def response_out_def deref_reg_def destructor_reg_def Let_def)
  have "reg_response net rnd ?n err msg s3 = None" for err msg rnd
    using s3(2) by (simp add: reg_response_def response_handler_reg_def)
  then show ?thesis using u d s1(3) s3 by (intro exI [of _ s1] exI [of _ ?s2] exI [of _ s3]) simp
qed

section \<open>Concrete runs\<close>

definition rg_start :: regs where
  "rg_start = snd (the (sipreg_send (\<lambda>_. Req_sent) (the (snd (vsipreg_alloc True True 0 0 0 0 3600 ''alice'' 0 True None [] 7)))))"

lemma rg_start_eq:
  "rg_start = \<lparr>rs_reg = Some \<lparr>rg_ls = \<lparr>ls_failc = 0, ls_last_scode = 0\<rparr>, rg_laddr = [], rg_tmr = None, rg_ka = False, rg_req = Some 0,
                            rg_hdrs = [], rg_cuser = ''alice'', rg_cparams = None, rg_user = True, rg_expires = 3600, rg_pexpires = 0,
                            rg_failc = 0, rg_rwait = 90, rg_wait = 0, rg_fbregint = 0, rg_tp = SIP_TRANSP_NONE, rg_registered = False,
                            rg_terminated = False, rg_params = None, rg_regid = 0, rg_srcport = 0\<rparr>,
                        rs_refs = 1, rs_reqs = [0], rs_next = 1, rs_now = 7, rs_log = [(7, Rg_sent 3600)]\<rparr>"
  by (simp add: rg_start_def vsipreg_alloc_def sipreg_send_def reg_request_def Let_def upd_reg_def rg_put_def sip_loopstate_reset_def)

lemma rg_start_reach: "rg_reach (\<lambda>_. Req_sent) rg_start"
proof (rule reach_init)
  show "vsipreg_alloc True True 0 0 0 0 3600 ''alice'' 0 True None [] 7 = (OK, Some (the (snd (vsipreg_alloc True True 0 0 0 0 3600 ''alice'' 0 True None [] 7))))"
    by (simp add: vsipreg_alloc_def)
  show "sipreg_send (\<lambda>_. Req_sent) (the (snd (vsipreg_alloc True True 0 0 0 0 3600 ''alice'' 0 True None [] 7))) = Some (OK, rg_start)"
    by (simp add: rg_start_def vsipreg_alloc_def sipreg_send_def reg_request_def Let_def)
qed

lemma rg_start_simps [simp]:
  "rs_reqs rg_start = [0]" "rs_next rg_start = 1" "rs_now rg_start = 7" "\<exists>rg. rs_reg rg_start = Some rg \<and> \<not> rg_terminated rg \<and>
     rg_expires rg = 3600 \<and> rg_failc rg = 0 \<and> rg_rwait rg = 90 \<and> rg_user rg \<and> rg_ls rg = \<lparr>ls_failc = 0, ls_last_scode = 0\<rparr>"
  by (simp_all add: rg_start_eq)

definition an_answer :: "u16 \<Rightarrow> reg_msg" where
  "an_answer c = \<lparr>rm_scode = c, rm_expires = None, rm_contacts = [], rm_min_expires = None, rm_auth = 0, rm_keepalive = False\<rparr>"

lemma reg_backoff_witness:
  "\<exists>s' rg' t. reg_response (\<lambda>_. Req_sent) 9 0 110 None rg_start = Some s' \<and> rs_reg s' = Some rg' \<and> rg_tmr rg' = Some t \<and>
     30007 \<le> t \<and> t \<le> 1800007"
proof -
  obtain rg where "rs_reg rg_start = Some rg" "\<not> rg_terminated rg" "rg_expires rg = 3600" "rg_failc rg = 0" using rg_start_simps(4) by blast
  then show ?thesis using reg_backoff [OF rg_start_reach, of rg 0 110 9] by auto
qed

lemma reg_refresh_in_time_witness:
  "\<exists>s' rg'. reg_response (\<lambda>_. Req_sent) 9 0 0 (Some (an_answer 200)) rg_start = Some s' \<and> rs_reg s' = Some rg' \<and> rg_registered rg' \<and>
     rg_tmr rg' = Some 3240007"
proof -
  obtain rg where r: "rs_reg rg_start = Some rg" "\<not> rg_terminated rg" "rg_expires rg = 3600" "rg_rwait rg = 90" using rg_start_simps(4) by blast
  have "granted (an_answer 200) rg = 3600" using r(3) by (simp add: granted_def an_answer_def)
  moreover have "200 \<le> rm_scode (an_answer 200)" "rm_scode (an_answer 200) < 300" by (simp_all add: an_answer_def)
  ultimately show ?thesis using reg_refresh_in_time [OF rg_start_reach r(1,2), of 0 "an_answer 200" 9] r by auto
qed

text \<open>The state after the first success: the timer runs.\<close>

lemma rg_registered_reach:
  "\<exists>s rg. rg_reach (\<lambda>_. Req_sent) s \<and> rs_reg s = Some rg \<and> rs_reqs s = [] \<and> \<not> rg_terminated rg \<and> rg_expires rg = 3600 \<and> rg_tmr rg = Some 3240007"
proof -
  obtain s where s: "reg_response (\<lambda>_. Req_sent) 9 0 0 (Some (an_answer 200)) rg_start = Some s"
    "\<exists>rg. rs_reg s = Some rg \<and> \<not> rg_terminated rg \<and> rg_expires rg = 3600 \<and> rg_tmr rg = Some 3240007" "rs_reqs s = []"
    by (simp add: rg_start_eq reg_response_def response_handler_reg_def an_answer_def registered_by_def response_out_def call_resph_def
      sip_request_loops_def Let_def rg_put_def upd_reg_def)
  have "rg_reach (\<lambda>_. Req_sent) s"
    by (rule reach_step [OF rg_start_reach step_response [OF _ _ s(1)]]) simp_all
  then show ?thesis using s by blast
qed

lemma reg_never_idle_witness:
  "\<exists>s s'. rg_reach (\<lambda>_. Req_sent) s \<and> rs_reqs s = [] \<and> (\<exists>rg. rs_reg s = Some rg \<and> tmr_handler_reg (\<lambda>_. Req_sent) 9 (upd_reg (rg\<lparr>rg_tmr := None\<rparr>) s) = Some s')"
proof -
  obtain s rg where s: "rg_reach (\<lambda>_. Req_sent) s" "rs_reg s = Some rg" "\<not> rg_terminated rg" "rg_expires rg = 3600" "rs_reqs s = []"
    using rg_registered_reach by blast
  then show ?thesis using reg_never_idle [OF s(1-3), of 9] by auto
qed

lemma reg_lifetime_witness:
  "reg_response (\<lambda>_. Req_sent) 9 0 110 None rg_start \<noteq> None"
  using reg_lifetime [OF rg_start_reach] by simp

lemma reg_retries_bounded_witness:
  "\<exists>s' rg'. reg_response (\<lambda>_. Req_sent) 9 0 0 (Some (an_answer 401)) rg_start = Some s' \<and> rs_reg s' = Some rg' \<and> ls_failc (rg_ls rg') = 1"
proof -
  obtain rg where r: "rs_reg rg_start = Some rg" "\<not> rg_terminated rg" "rg_ls rg = \<lparr>ls_failc = 0, ls_last_scode = 0\<rparr>" using rg_start_simps(4) by blast
  obtain s' where s: "reg_response (\<lambda>_. Req_sent) 9 0 0 (Some (an_answer 401)) rg_start = Some s'" "rs_reqs s' \<noteq> []"
    by (simp add: rg_start_eq reg_response_def response_handler_reg_def an_answer_def response_failed_def send_again_def reg_request_def
      sip_request_loops_def Let_def rg_put_def upd_reg_def word_le_nat_alt word_less_nat_alt)
  have "0 \<in> set (rs_reqs rg_start)" "300 \<le> rm_scode (an_answer 401)" by (simp_all add: an_answer_def)
  from reg_retries_bounded [OF rg_start_reach r(1,2) this s] show ?thesis using s(1) r(3) by auto
qed

end
