(* ===== verification/Reg.thy ===== *)
theory Reg
  imports Sip_Reg_Spec Event
begin

text \<open>
  The register client of a user agent (\<open>native/baresip/src/reg.c\<close>): it owns one SIP registration, starts it anew for
  every \<open>ua_register\<close>, and turns the answers into the events of the user agent.  The printing, the server's name and the
  address family are left out.
\<close>

section \<open>State\<close>

record breg =
  br_id :: int
  br_regint :: int
  br_scode :: u16
  br_sipreg :: "regs option"

section \<open>Operations\<close>

text \<open>\<open>mem_deref\<close> of the registration: the register client forgets it; it may live on for its outstanding request.\<close>

definition reg_destructor :: "reg_net \<Rightarrow> breg \<Rightarrow> regs option option" where
  "reg_destructor net reg = (case br_sipreg reg of None \<Rightarrow> Some None | Some s \<Rightarrow> map_option Some (deref_reg net s))"

definition register_handler :: "errno \<Rightarrow> u16 option \<Rightarrow> breg \<Rightarrow> ua_event list \<times> breg" where
  "register_handler err scode reg =
     (let evok = (if br_regint reg \<noteq> 0 then UA_EVENT_REGISTER_OK else UA_EVENT_FALLBACK_OK);
          evfail = (if br_regint reg \<noteq> 0 then UA_EVENT_REGISTER_FAIL else UA_EVENT_FALLBACK_FAIL)
      in if err \<noteq> 0 then ([evfail], reg\<lparr>br_scode := 999\<rparr>)
         else
           case scode of
             None \<Rightarrow> ([], reg)
           | Some c \<Rightarrow>
               if 200 \<le> c \<and> c \<le> 299 then ([evok], reg\<lparr>br_scode := c\<rparr>)
               else if c \<ge> 300 then ([evfail], reg\<lparr>br_scode := c\<rparr>)
               else ([], reg))"

text \<open>The registration's results of allocation, \<open>acc\<close> the \<open>rwait\<close> and \<open>fbregint\<close> of the account.  The old registration is
  released first; the second component is what is left of it.\<close>

definition reg_register ::
    "reg_net \<Rightarrow> reg_net \<Rightarrow> bool \<Rightarrow> errno \<Rightarrow> (u32 \<times> u32) option \<Rightarrow> u32 \<Rightarrow> string \<Rightarrow> nat \<Rightarrow> breg \<Rightarrow> (errno \<times> regs option \<times> breg) option" where
  "reg_register net_old net mem alloc_err acc regint cuser now reg = do {
     let reg = reg\<lparr>br_scode := 0, br_regint := sint regint\<rparr>;
     let failed = (case br_sipreg reg of None \<Rightarrow> False | Some s \<Rightarrow> sipreg_failed (rs_reg s));
     old \<leftarrow> reg_destructor net_old reg;
     let reg = reg\<lparr>br_sipreg := None\<rparr>;
     case vsipreg_alloc True mem alloc_err 0 0 0 regint cuser (br_id reg) True None [] now of
       (err, None) \<Rightarrow> Some (err, old, reg)
     | (_, Some s) \<Rightarrow> do {
         rg \<leftarrow> rs_reg s;
         let (err, rg) = (case acc of
                            Some (rwait, fbregint) \<Rightarrow>
                              let (err, rg) = (if rwait \<noteq> 0 then sipreg_set_rwait rwait rg else (OK, rg))
                              in if fbregint \<noteq> 0 then (OK, sipreg_set_fbregint fbregint rg) else (err, rg)
                          | None \<Rightarrow> (OK, rg));
         let rg = (if failed then sipreg_incfailc rg else rg);
         let s = upd_reg rg s;
         if err \<noteq> 0 then do { _ \<leftarrow> deref_reg net s; Some (err, old, reg) }
         else do {
           (err, s) \<leftarrow> sipreg_send net s;
           Some (err, old, reg\<lparr>br_sipreg := Some s\<rparr>) } } }"

definition reg_unregister :: "reg_net \<Rightarrow> breg \<Rightarrow> breg option" where
  "reg_unregister net reg =
     (case br_sipreg reg of
        None \<Rightarrow> Some reg
      | Some s \<Rightarrow> do { s \<leftarrow> sipreg_unregister net s; Some (reg\<lparr>br_sipreg := Some s\<rparr>) })"

definition reg_stop :: "reg_net \<Rightarrow> breg \<Rightarrow> (regs option \<times> breg) option" where
  "reg_stop net reg = do { old \<leftarrow> reg_destructor net reg; Some (old, reg\<lparr>br_sipreg := None, br_scode := 0\<rparr>) }"

definition reg_isok :: "breg option \<Rightarrow> bool" where
  "reg_isok reg =
     (case reg of
        None \<Rightarrow> False
      | Some reg \<Rightarrow>
          (case br_sipreg reg of
             None \<Rightarrow> False
           | Some s \<Rightarrow> sipreg_registered (rs_reg s) \<and> br_scode reg = 200))"

definition reg_failed :: "breg option \<Rightarrow> bool" where
  "reg_failed reg =
     (case reg of
        None \<Rightarrow> False
      | Some reg \<Rightarrow> (case br_sipreg reg of None \<Rightarrow> False | Some s \<Rightarrow> sipreg_failed (rs_reg s)))"

text \<open>\<open>ua_unregister\<close> and \<open>ua_destroy\<close> for a user agent with one register client, as \<open>reregister_worker\<close> of the bridge
  calls them one after the other.\<close>

definition unregister_and_destroy :: "reg_net \<Rightarrow> breg \<Rightarrow> regs option option" where
  "unregister_and_destroy net reg = do { reg \<leftarrow> reg_unregister net reg; reg_destructor net reg }"

section \<open>What the register client promises\<close>

text \<open>A register client reports itself as registered only after a 200 answer, and a failure clears that state: its
  answer is announced by exactly one event, of success for a 2xx and of failure otherwise.\<close>
lemma register_handler_events:
  assumes "err \<noteq> 0 \<or> (\<exists>c. scode = Some c \<and> c \<ge> 200)"
  shows "\<exists>ev reg'. register_handler err scode reg = ([ev], reg') \<and> br_sipreg reg' = br_sipreg reg \<and>
     (ev \<in> {UA_EVENT_REGISTER_OK, UA_EVENT_FALLBACK_OK} \<longleftrightarrow> err = 0 \<and> (\<exists>c. scode = Some c \<and> 200 \<le> c \<and> c \<le> 299)) \<and>
     (ev \<in> {UA_EVENT_REGISTER_OK, UA_EVENT_REGISTER_FAIL} \<longleftrightarrow> br_regint reg \<noteq> 0) \<and>
     (err \<noteq> 0 \<longrightarrow> \<not> reg_isok (Some reg'))"
proof (cases "err = 0")
  case False
  then show ?thesis by (auto simp: register_handler_def Let_def reg_isok_def split: option.splits)
next
  case True
  then obtain c where c: "scode = Some c" "c \<ge> 200" using assms by blast
  have "c \<le> 299 \<or> c \<ge> 300" by (auto simp: word_le_nat_alt)
  moreover have "\<not> (c \<le> 299 \<and> c \<ge> 300)" by (auto simp: word_le_nat_alt)
  ultimately show ?thesis using True c by (auto simp: register_handler_def Let_def)
qed

text \<open>C25: The bridge registers anew by unregistering and destroying the user agent.  When it does so while the previous REGISTER
  is not answered yet, and that one then fails without an answer (a time-out or a transport error), its failure frees the
  registration object, and whatever becomes of the second request uses the freed object.\<close>
theorem reregister_uses_freed:
  assumes "rg_reach net s" "br_sipreg reg = Some s" "rs_reg s = Some rg" "\<not> rg_terminated rg" "rs_reqs s = [r]"
    "net (rs_next s) = Req_sent" "r \<noteq> rs_next s" "err \<noteq> 0"
  shows "\<exists>s2 s3. unregister_and_destroy net reg = Some (Some s2) \<and> reg_response net rnd r err None s2 = Some s3 \<and>
     rs_next s \<in> set (rs_reqs s3) \<and> (\<forall>err msg rnd. reg_response net rnd (rs_next s) err msg s3 = None)"
proof -
  from two_requests_use_freed [OF assms(1,3-8), of rnd] obtain s1 s2 s3 where
    "sipreg_unregister net s = Some s1" "deref_reg net s1 = Some s2" "reg_response net rnd r err None s2 = Some s3"
    "rs_next s \<in> set (rs_reqs s3)" "\<forall>err msg rnd. reg_response net rnd (rs_next s) err msg s3 = None" by blast
  then show ?thesis using assms(2) by (simp add: unregister_and_destroy_def reg_unregister_def reg_destructor_def)
qed

lemma reregister_uses_freed_witness:
  "\<exists>s2 s3. unregister_and_destroy (\<lambda>_. Req_sent) \<lparr>br_id = 0, br_regint = 3600, br_scode = 0, br_sipreg = Some rg_start\<rparr> = Some (Some s2) \<and>
     reg_response (\<lambda>_. Req_sent) 9 0 110 None s2 = Some s3 \<and> reg_response (\<lambda>_. Req_sent) 9 1 110 None s3 = None"
proof -
  obtain rg where r: "rs_reg rg_start = Some rg" "\<not> rg_terminated rg" using rg_start_simps(4) by blast
  from reregister_uses_freed [OF rg_start_reach _ r, of "\<lparr>br_id = 0, br_regint = 3600, br_scode = 0, br_sipreg = Some rg_start\<rparr>" 0 110 9]
  show ?thesis by auto
qed

end
