(* ===== verification/Sipsess.thy ===== *)
theory Sipsess
  imports Sip_Request
begin

text \<open>
  SIP sessions (\<open>native/re/src/sipsess/\<close>): one \<open>struct sipsess\<close> from its allocation until it is freed, with its
  reference count, its pending request, its list of replies that wait for an ACK and its list of other requests.  The
  user of the session (the call) is a record of handlers that act on the whole state: a handler may answer, modify or
  release the session it is called from.  What the network, the server transaction and the allocator answer is a
  parameter (\<open>senv\<close>), read in the order of the calls; what the decoding of a message gives is part of the message.  The
  result \<open>None\<close> is undefined behaviour: an access to the freed session, a destructor that runs twice, a handler that is
  given an object of another type.
\<close>

abbreviation (input) ECONNRESET :: errno where "ECONNRESET \<equiv> 104"
abbreviation (input) ENOTCONN :: errno where "ENOTCONN \<equiv> 107"

section \<open>State\<close>

datatype sdp_neg_state = SDP_NEG_NONE | SDP_NEG_LOCAL_OFFER | SDP_NEG_REMOTE_OFFER | SDP_NEG_PREVIEW_ANSWER | SDP_NEG_DONE

datatype rel100_mode = REL100_DISABLED | REL100_ENABLED | REL100_REQUIRED

text \<open>A message as far as a session looks at it: the bytes of its body, whether it belongs to the dialog of the session, and the
  results of decoding its contact, its dialog fields and its authentication challenge.\<close>

record sess_msg =
  sm_met :: string
  sm_scode :: u16
  sm_cseq :: u32
  sm_body :: nat
  sm_match :: bool
  sm_to_tag :: bool
  sm_contact :: bool
  sm_dlg :: errno
  sm_redirect :: errno
  sm_req100rel :: bool
  sm_sup100rel :: bool
  sm_rel_seq :: u32
  sm_rack :: "u32 \<times> u32 \<times> string"
  sm_auth :: errno
  sm_retry_after :: "u32 option"

text \<open>A reply that waits for its ACK or PRACK; a timer is its expiry.\<close>

record sess_reply =
  sr_id :: nat
  sr_tmr :: "nat option"
  sr_tmrg :: "nat option"
  sr_met :: string
  sr_awaiting_prack :: bool
  sr_scode :: u16
  sr_seq :: u32
  sr_rel_seq :: u32
  sr_txc :: u32

text \<open>The requests of a session: those that \<open>sess->req\<close> points to, by the handler of their responses, and the others.\<close>

datatype req_met = R_INVITE | R_REINVITE | R_BYE

datatype sub_met = R_INFO | R_UPDATE | R_PRACK

text \<open>What \<open>tmr_start\<close> is given as the argument of the handler: the request or the PRACK that holds it.\<close>

datatype tmr_arg = A_request nat | A_prack nat

record sess_request =
  rq_id :: nat
  rq_met :: sub_met
  rq_ls :: sip_loopstate
  rq_req :: bool
  rq_tmr :: "(nat \<times> tmr_arg) option"
  rq_body :: "nat option"

text \<open>A handler of the session is absent, the internal one, or the user's; \<open>se_self\<close>: the handlers are given the session itself.\<close>

datatype hnd = H_null | H_internal | H_user

record sipsess =
  se_tmr :: "nat option"
  se_replyl :: "sess_reply list"
  se_requestl :: "sess_request list"
  se_ls :: sip_loopstate
  se_msg :: "sess_msg option"
  se_req :: "(req_met \<times> sip_req) option"
  se_dlg_est :: bool
  se_dlg_rseq :: u32
  se_st :: bool
  se_desc :: "nat option"
  se_desch :: hnd
  se_offerh :: hnd
  se_answerh :: hnd
  se_progrh :: hnd
  se_estabh :: hnd
  se_infoh :: hnd
  se_referh :: hnd
  se_closeh :: hnd
  se_redirecth :: bool
  se_prackh :: bool
  se_self :: bool
  se_rel_seq :: u32
  se_owner :: bool
  se_modify_pending :: bool
  se_established :: bool
  se_peerterm :: bool
  se_rel100_supported :: bool
  se_prack_waiting_cnt :: int
  se_terminated :: nat
  se_neg_state :: sdp_neg_state

text \<open>What happened: a handler of the user was called; a request was started, with the result of starting it; a request
  was cancelled; an ACK and a reply were sent; the peer ended the session; the user gave its reference back.\<close>

datatype sess_h = C_desc | C_offer | C_answer | C_progr | C_estab | C_info | C_refer | C_close errno | C_redirect | C_prack | C_resp

datatype sess_act =
  Se_call sess_h | Se_req req_met errno | Se_sub sub_met errno | Se_cancel | Se_ack | Se_reply u16 | Se_peerterm | Se_drop | Se_freed

text \<open>\<open>sw_held\<close>: the user has not given its reference back.  \<open>sw_next\<close> counts the questions to the environment.\<close>

record 'u sw =
  sw_sess :: "sipsess option"
  sw_refs :: nat
  sw_held :: bool
  sw_user :: 'u
  sw_next :: nat
  sw_now :: nat
  sw_log :: "sess_act list"

datatype alloc_res = Al_ok | Al_null | Al_nodup

record senv =
  ev_req :: "nat \<Rightarrow> dreq_res"
  ev_rep :: "nat \<Rightarrow> errno"
  ev_mem :: "nat \<Rightarrow> alloc_res"
  ev_rnd :: "nat \<Rightarrow> u16"

text \<open>The user's handlers; the length of a description that a handler creates.\<close>

record 'u user =
  u_desc :: "'u sw \<Rightarrow> (errno \<times> nat option \<times> 'u sw) option"
  u_offer :: "sess_msg \<Rightarrow> 'u sw \<Rightarrow> (errno \<times> nat option \<times> 'u sw) option"
  u_answer :: "sess_msg \<Rightarrow> 'u sw \<Rightarrow> (errno \<times> 'u sw) option"
  u_progr :: "sess_msg \<Rightarrow> 'u sw \<Rightarrow> 'u sw option"
  u_estab :: "sess_msg \<Rightarrow> 'u sw \<Rightarrow> 'u sw option"
  u_info :: "sess_msg \<Rightarrow> 'u sw \<Rightarrow> 'u sw option"
  u_refer :: "sess_msg \<Rightarrow> 'u sw \<Rightarrow> 'u sw option"
  u_close :: "errno \<Rightarrow> sess_msg option \<Rightarrow> 'u sw \<Rightarrow> 'u sw option"
  u_redirect :: "sess_msg \<Rightarrow> 'u sw \<Rightarrow> 'u sw option"
  u_prack :: "sess_msg \<Rightarrow> 'u sw \<Rightarrow> 'u sw option"
  u_resp :: "errno \<Rightarrow> sess_msg option \<Rightarrow> 'u sw \<Rightarrow> 'u sw option"

definition say :: "sess_act \<Rightarrow> 'u sw \<Rightarrow> 'u sw" where
  "say x s = s\<lparr>sw_log := sw_log s @ [x]\<rparr>"

definition put_sess :: "sipsess \<Rightarrow> 'u sw \<Rightarrow> 'u sw" where
  "put_sess se s = s\<lparr>sw_sess := Some se\<rparr>"

definition tick :: "'u sw \<Rightarrow> nat \<times> 'u sw" where
  "tick s = (sw_next s, s\<lparr>sw_next := sw_next s + 1\<rparr>)"

definition ref_sess :: "'u sw \<Rightarrow> 'u sw" where
  "ref_sess s = s\<lparr>sw_refs := sw_refs s + 1\<rparr>"

text \<open>\<open>mbuf_get_left\<close>.\<close>

definition left :: "nat option \<Rightarrow> nat" where
  "left desc = (case desc of None \<Rightarrow> 0 | Some n \<Rightarrow> n)"

definition nz :: "errno \<Rightarrow> errno" where
  "nz err = (if err = 0 then ENOMEM else err)"

section \<open>Requests and replies\<close>

text \<open>\<open>sip_drequestf(&sess->req, ...)\<close> for a request without a body of the user.\<close>

definition drequest :: "senv \<Rightarrow> req_met \<Rightarrow> 'u sw \<Rightarrow> (errno \<times> 'u sw) option" where
  "drequest e k s = do {
     se \<leftarrow> sw_sess s;
     let (n, s) = tick s;
     Some (case ev_req e n of
             Dr_sent _ \<Rightarrow> (OK, say (Se_req k OK) (put_sess (se\<lparr>se_req := Some (k, new_req)\<rparr>) s))
           | Dr_failed err \<Rightarrow> (nz err, say (Se_req k (nz err)) s)
           | Dr_dropped err \<Rightarrow> (nz err, say (Se_req k (nz err)) (put_sess (se\<lparr>se_req := None\<rparr>) s))) }"

text \<open>A reply through the server transaction of the session, which a final reply and a failure end, and one without.\<close>

definition st_reply :: "senv \<Rightarrow> u16 \<Rightarrow> 'u sw \<Rightarrow> (errno \<times> 'u sw) option" where
  "st_reply e scode s = do {
     se \<leftarrow> sw_sess s;
     let (n, s) = tick s;
     let err = ev_rep e n;
     let s = put_sess (se\<lparr>se_st := err = 0 \<and> scode < 200\<rparr>) s;
     Some (err, if err = 0 then say (Se_reply scode) s else s) }"

definition free_reply :: "senv \<Rightarrow> u16 \<Rightarrow> 'u sw \<Rightarrow> errno \<times> 'u sw" where
  "free_reply e scode s =
     (let (n, s) = tick s; err = ev_rep e n in (err, if err = 0 then say (Se_reply scode) s else s))"

definition sipsess_bye :: "senv \<Rightarrow> bool \<Rightarrow> 'u sw \<Rightarrow> (errno \<times> 'u sw) option" where
  "sipsess_bye e reset_ls s = do {
     se \<leftarrow> sw_sess s;
     if se_req se \<noteq> None then Some (EPROTO, s)
     else drequest e R_BYE (if reset_ls then put_sess (se\<lparr>se_ls := sip_loopstate_reset (se_ls se)\<rparr>) s else s) }"

section \<open>The end of a session\<close>

definition termwait :: "senv \<Rightarrow> 'u sw \<Rightarrow> (bool \<times> 'u sw) option" where
  "termwait e s = do {
     se \<leftarrow> sw_sess s;
     let s = put_sess (se\<lparr>se_terminated := 1, se_desch := H_null, se_offerh := H_internal, se_answerh := H_internal,
                          se_progrh := H_internal, se_estabh := H_internal, se_infoh := H_null, se_referh := H_null,
                          se_closeh := H_internal, se_self := True, se_tmr := None\<rparr>) s;
     (_, s) \<leftarrow> (if se_st se then st_reply e 486 s else Some (OK, s));
     se \<leftarrow> sw_sess s;
     let s = (case se_req se of
                None \<Rightarrow> s
              | Some (k, req) \<Rightarrow>
                  let (sent, req) = sip_request_cancel req;
                      s = ref_sess (put_sess (se\<lparr>se_req := Some (k, req)\<rparr>) s)
                  in if sent then say Se_cancel s else s);
     let s = (if se_replyl se \<noteq> [] then ref_sess s else s);
     let s = (if se_requestl se \<noteq> [] then ref_sess s else s);
     Some (se_req se \<noteq> None \<or> se_replyl se \<noteq> [] \<or> se_requestl se \<noteq> [], s) }"

definition terminate_sess :: "senv \<Rightarrow> 'u sw \<Rightarrow> (bool \<times> 'u sw) option" where
  "terminate_sess e s = do {
     se \<leftarrow> sw_sess s;
     let se = se\<lparr>se_terminated := 2\<rparr>;
     let s = put_sess se s;
     if \<not> se_established se \<or> se_peerterm se then Some (False, s)
     else do {
       (err, s) \<leftarrow> sipsess_bye e True s;
       Some (if err \<noteq> 0 then (False, s) else (True, ref_sess s)) } }"

text \<open>The end of the destructor.  The destructor of the last pending request would release the session once more, which is
  being destroyed.\<close>

definition sess_free :: "'u sw \<Rightarrow> 'u sw option" where
  "sess_free s = do {
     se \<leftarrow> sw_sess s;
     if se_requestl se \<noteq> [] then None
     else
       let sent = (case se_req se of None \<Rightarrow> False | Some (k, req) \<Rightarrow> fst (sip_request_cancel req))
       in Some (say Se_freed (if sent then say Se_cancel s else s)) }"

definition destructor_sess :: "senv \<Rightarrow> 'u sw \<Rightarrow> 'u sw option" where
  "destructor_sess e s = do {
     se \<leftarrow> sw_sess s;
     if se_terminated se = 0 then do {
       (wait, s) \<leftarrow> termwait e s;
       if wait then Some s
       else do {
         (wait, s) \<leftarrow> terminate_sess e s;
         if wait then Some s else sess_free s } }
     else if se_terminated se = 1 then do {
       (wait, s) \<leftarrow> terminate_sess e s;
       if wait then Some s else sess_free s }
     else sess_free s }"

definition deref_sess :: "senv \<Rightarrow> 'u sw \<Rightarrow> 'u sw option" where
  "deref_sess e s = do {
     _ \<leftarrow> sw_sess s;
     if sw_refs s > 1 then Some (s\<lparr>sw_refs := sw_refs s - 1\<rparr>)
     else do {
       s \<leftarrow> destructor_sess e (s\<lparr>sw_refs := 0\<rparr>);
       Some (if sw_refs s > 0 then s else s\<lparr>sw_sess := None\<rparr>) } }"

text \<open>The user gives its reference back.\<close>

definition sipsess_release :: "senv \<Rightarrow> 'u sw \<Rightarrow> 'u sw option" where
  "sipsess_release e s = (if sw_held s then deref_sess e (say Se_drop (s\<lparr>sw_held := False\<rparr>)) else None)"

text \<open>A call of the user's close handler after the session was terminated.\<close>

definition sipsess_terminate :: "senv \<Rightarrow> 'u user \<Rightarrow> errno \<Rightarrow> sess_msg option \<Rightarrow> 'u sw \<Rightarrow> 'u sw option" where
  "sipsess_terminate e u err msg s = do {
     se \<leftarrow> sw_sess s;
     if se_terminated se \<noteq> 0 then Some s
     else do {
       (wait, s) \<leftarrow> termwait e s;
       s \<leftarrow> (if wait then Some s else do { (_, s) \<leftarrow> terminate_sess e s; Some s });
       if se_closeh se = H_user then u_close u err msg (say (Se_call (C_close err)) s) else Some s } }"

definition sipsess_abort :: "senv \<Rightarrow> 'u sw \<Rightarrow> 'u sw option" where
  "sipsess_abort e s = do {
     (_, s) \<leftarrow> sipsess_bye e True s;
     se \<leftarrow> sw_sess s;
     Some (put_sess (se\<lparr>se_terminated := 2\<rparr>) s) }"

section \<open>Replies\<close>

definition cancel_1xx_timers :: "sess_reply \<Rightarrow> sess_reply" where
  "cancel_1xx_timers r = (if sr_scode r > 100 \<and> sr_scode r < 200 then r\<lparr>sr_tmr := None, sr_tmrg := None\<rparr> else r)"

definition new_reply :: "nat \<Rightarrow> sess_msg \<Rightarrow> u16 \<Rightarrow> sess_reply" where
  "new_reply n msg scode =
     \<lparr>sr_id = n, sr_tmr = None, sr_tmrg = None, sr_met = sm_met msg, sr_awaiting_prack = False, sr_scode = scode,
      sr_seq = sm_cseq msg, sr_rel_seq = 0, sr_txc = 0\<rparr>"

text \<open>The timers of a reply that waits: \<open>tmr\<close> after 64 T1, \<open>tmrg\<close> after T1.\<close>

definition start_timers :: "nat \<Rightarrow> sess_reply \<Rightarrow> sess_reply" where
  "start_timers now r = r\<lparr>sr_tmr := Some (now + 64 * SIP_T1), sr_tmrg := Some (now + SIP_T1)\<rparr>"

definition sipsess_reply_2xx :: "senv \<Rightarrow> sess_msg \<Rightarrow> u16 \<Rightarrow> nat option \<Rightarrow> 'u sw \<Rightarrow> (errno \<times> 'u sw) option" where
  "sipsess_reply_2xx e msg scode desc s = do {
     se \<leftarrow> sw_sess s;
     let sdp = (sm_body msg > 0);
     if sm_met msg = ''PRACK'' \<or> sm_met msg = ''UPDATE'' then
       (let desc = (if se_neg_state se \<noteq> SDP_NEG_REMOTE_OFFER then None else desc);
            (err, s) = free_reply e scode s
        in if err \<noteq> 0 then Some (err, s)
           else Some (OK, if left desc > 0 \<and> sdp then put_sess (se\<lparr>se_neg_state := SDP_NEG_DONE\<rparr>) s else s))
     else if se_neg_state se = SDP_NEG_NONE \<and> left desc = 0 then Some (EINVAL, s)
     else
       let desc = (if se_neg_state se = SDP_NEG_DONE then None else desc)
       in if se_prack_waiting_cnt se > 0 then Some (EINVAL, s)
          else
            let (n, s) = tick s
            in if ev_mem e n = Al_null then Some (ENOMEM, put_sess (se\<lparr>se_st := False\<rparr>) s)
               else do {
                 (err, s) \<leftarrow> st_reply e scode s;
                 se \<leftarrow> sw_sess s;
                 if err \<noteq> 0 then Some (err, put_sess (se\<lparr>se_st := False\<rparr>) s)
                 else
                   let se = se\<lparr>se_replyl := map cancel_1xx_timers (se_replyl se) @
                                            [start_timers (sw_now s) (cancel_1xx_timers (new_reply n msg scode))]\<rparr>;
                       se = (if left desc > 0
                             then se\<lparr>se_neg_state := (if sdp then SDP_NEG_DONE else SDP_NEG_LOCAL_OFFER)\<rparr>
                             else se)
                   in Some (OK, put_sess se s) } }"

definition rel100_peer :: "sess_msg \<Rightarrow> rel100_mode" where
  "rel100_peer msg =
     (if sm_req100rel msg then REL100_REQUIRED else if sm_sup100rel msg then REL100_ENABLED else REL100_DISABLED)"

definition sipsess_reply_1xx ::
    "senv \<Rightarrow> sess_msg \<Rightarrow> u16 \<Rightarrow> rel100_mode \<Rightarrow> nat option \<Rightarrow> 'u sw \<Rightarrow> (errno \<times> 'u sw) option" where
  "sipsess_reply_1xx e msg scode rel100 desc s = do {
     se \<leftarrow> sw_sess s;
     let peer = rel100_peer msg;
     if rel100 = REL100_REQUIRED \<and> peer = REL100_DISABLED then do { (_, s) \<leftarrow> st_reply e 421 s; Some (EPROTO, s) }
     else if peer = REL100_REQUIRED \<and> rel100 = REL100_DISABLED then do { (_, s) \<leftarrow> st_reply e 420 s; Some (EPROTO, s) }
     else
       let reliably = (rel100 \<noteq> REL100_DISABLED \<and> peer \<noteq> REL100_DISABLED \<and> scode \<noteq> 100)
       in if reliably \<and> se_neg_state se = SDP_NEG_NONE \<and> left desc = 0 then Some (EINVAL, s)
          else
            let desc = (if se_neg_state se = SDP_NEG_NONE then (if \<not> reliably then None else desc)
                        else if se_neg_state se = SDP_NEG_DONE \<or> se_neg_state se = SDP_NEG_LOCAL_OFFER then None
                        else desc);
                (n, s) = tick s
            in if ev_mem e n = Al_null then Some (ENOMEM, put_sess (se\<lparr>se_st := False\<rparr>) s)
               else
                 let se = (if reliably
                           then se\<lparr>se_rel_seq := (if se_rel_seq se \<noteq> 0 then se_rel_seq se + 1 else ucast (ev_rnd e n))\<rparr>
                           else se)
                 in do {
                   (err, s) \<leftarrow> st_reply e scode (put_sess se s);
                   se \<leftarrow> sw_sess s;
                   if err \<noteq> 0 then Some (err, put_sess (se\<lparr>se_st := False\<rparr>) s)
                   else if reliably then
                     (let r = start_timers (sw_now s) (new_reply n msg scode\<lparr>sr_rel_seq := se_rel_seq se\<rparr>)
                      in Some (OK, put_sess
                           (if desc \<noteq> None
                            then se\<lparr>se_prack_waiting_cnt := se_prack_waiting_cnt se + 1,
                                    se_replyl := se_replyl se @ [r\<lparr>sr_awaiting_prack := True\<rparr>],
                                    se_neg_state := (if sm_body msg > 0 then SDP_NEG_DONE else SDP_NEG_LOCAL_OFFER)\<rparr>
                            else se\<lparr>se_replyl := se_replyl se @ [r]\<rparr>) s))
                   else
                     Some (OK, if desc \<noteq> None \<and> se_neg_state se = SDP_NEG_REMOTE_OFFER
                               then put_sess (se\<lparr>se_neg_state := SDP_NEG_PREVIEW_ANSWER\<rparr>) s else s) } }"

text \<open>The newest reply that the handler accepts.\<close>

definition cmp_handler_prack :: "sess_msg \<Rightarrow> sess_reply \<Rightarrow> bool" where
  "cmp_handler_prack msg r = (case sm_rack msg of (cseq, rel_seq, met) \<Rightarrow> cseq = sr_seq r \<and> rel_seq = sr_rel_seq r \<and> met = sr_met r)"

definition cmp_handler :: "sess_msg \<Rightarrow> sess_reply \<Rightarrow> bool" where
  "cmp_handler msg r = (sm_cseq msg = sr_seq r)"

definition sipsess_reply_prack :: "sess_msg \<Rightarrow> sipsess \<Rightarrow> errno \<times> bool \<times> sipsess" where
  "sipsess_reply_prack msg se =
     (case find (cmp_handler_prack msg) (rev (se_replyl se)) of
        None \<Rightarrow> (ENOENT, False, se)
      | Some r \<Rightarrow> (OK, sr_awaiting_prack r, se\<lparr>se_replyl := remove1 r (se_replyl se)\<rparr>))"

definition sipsess_reply_ack :: "sess_msg \<Rightarrow> sipsess \<Rightarrow> errno \<times> sipsess" where
  "sipsess_reply_ack msg se =
     (case find (cmp_handler msg) (rev (se_replyl se)) of
        None \<Rightarrow> (ENOENT, se)
      | Some r \<Rightarrow> (OK, se\<lparr>se_replyl := remove1 r (se_replyl se)\<rparr>))"

text \<open>The timer of a reply has expired.  The reply is still in the list when the handler looks whether the list is empty.\<close>

definition reply_tmr_handler :: "senv \<Rightarrow> 'u user \<Rightarrow> sess_reply \<Rightarrow> 'u sw \<Rightarrow> 'u sw option" where
  "reply_tmr_handler e u r s = do {
     se \<leftarrow> sw_sess s;
     s \<leftarrow> (if se_replyl se \<noteq> [] then Some s
           else if se_terminated se = 0 then
             (if sr_scode r < 200 \<and> \<not> se_established se then Some (snd (free_reply e 504 s))
              else sipsess_terminate e u ETIMEDOUT None (put_sess (se\<lparr>se_established := True\<rparr>) s))
           else deref_sess e s);
     se \<leftarrow> sw_sess s;
     Some (put_sess (se\<lparr>se_replyl := remove1 r (se_replyl se)\<rparr>) s) }"

text \<open>The reply is sent again and the count increased.\<close>

definition retransmit_handler_reply :: "senv \<Rightarrow> sess_reply \<Rightarrow> 'u sw \<Rightarrow> 'u sw option" where
  "retransmit_handler_reply e r s = do {
     se \<leftarrow> sw_sess s;
     let (_, s) = free_reply e (sr_scode r) s;
     let txc = sr_txc r + 1;
     t \<leftarrow> t1_shl txc;
     let delay = (if sr_rel_seq r = 0 then min t SIP_T2 else t);
     let r' = r\<lparr>sr_txc := txc, sr_tmrg := Some (sw_now s + delay)\<rparr>;
     Some (put_sess (se\<lparr>se_replyl := map (\<lambda>x. if sr_id x = sr_id r then r' else x) (se_replyl se)\<rparr>) s) }"

section \<open>Requests inside a session\<close>

definition sipsess_reinvite :: "senv \<Rightarrow> bool \<Rightarrow> 'u sw \<Rightarrow> (errno \<times> 'u sw) option" where
  "sipsess_reinvite e reset_ls s = do {
     se \<leftarrow> sw_sess s;
     if se_req se \<noteq> None then Some (EPROTO, s)
     else do {
       (err, s) \<leftarrow> drequest e R_REINVITE (if reset_ls then put_sess (se\<lparr>se_ls := sip_loopstate_reset (se_ls se)\<rparr>) s else s);
       se \<leftarrow> sw_sess s;
       Some (err, if err \<noteq> 0 then s
                  else put_sess (if se_desc se \<noteq> None then se\<lparr>se_modify_pending := False, se_neg_state := SDP_NEG_LOCAL_OFFER\<rparr>
                                 else se\<lparr>se_modify_pending := False\<rparr>) s) } }"

definition find_request :: "nat \<Rightarrow> sipsess \<Rightarrow> sess_request option" where
  "find_request r se = find (\<lambda>rq. rq_id rq = r) (se_requestl se)"

definition upd_request :: "sess_request \<Rightarrow> sipsess \<Rightarrow> sipsess" where
  "upd_request rq se = se\<lparr>se_requestl := map (\<lambda>x. if rq_id x = rq_id rq then rq else x) (se_requestl se)\<rparr>"

text \<open>The destructor of a request: the session that waits for its last request is released.  A request that is not in the
  list was freed before.\<close>

definition request_free :: "senv \<Rightarrow> nat \<Rightarrow> 'u sw \<Rightarrow> 'u sw option" where
  "request_free e r s = do {
     se \<leftarrow> sw_sess s;
     _ \<leftarrow> find_request r se;
     let se = se\<lparr>se_requestl := filter (\<lambda>x. rq_id x \<noteq> r) (se_requestl se)\<rparr>;
     let s = put_sess se s;
     if se_terminated se \<noteq> 0 \<and> se_requestl se = [] then deref_sess e s else Some s }"

text \<open>When the content type cannot be copied the request is destroyed before it knows its session.\<close>

definition sipsess_request_alloc :: "senv \<Rightarrow> sub_met \<Rightarrow> nat option \<Rightarrow> 'u sw \<Rightarrow> (errno \<times> nat \<times> 'u sw) option" where
  "sipsess_request_alloc e met body s = do {
     se \<leftarrow> sw_sess s;
     let (n, s) = tick s;
     if se_terminated se \<noteq> 0 then Some (EINVAL, n, s)
     else case ev_mem e n of
            Al_null \<Rightarrow> Some (ENOMEM, n, s)
          | Al_nodup \<Rightarrow> None
          | Al_ok \<Rightarrow>
              Some (OK, n, put_sess (se\<lparr>se_requestl := se_requestl se @
                [\<lparr>rq_id = n, rq_met = met, rq_ls = \<lparr>ls_failc = 0, ls_last_scode = 0\<rparr>, rq_req = False, rq_tmr = None,
                  rq_body = body\<rparr>]\<rparr>) s) }"

text \<open>\<open>sip_drequestf(&req->req, ...)\<close>.\<close>

definition sub_request :: "senv \<Rightarrow> nat \<Rightarrow> 'u sw \<Rightarrow> (errno \<times> 'u sw) option" where
  "sub_request e r s = do {
     se \<leftarrow> sw_sess s;
     rq \<leftarrow> find_request r se;
     let (n, s) = tick s;
     Some (case ev_req e n of
             Dr_sent _ \<Rightarrow> (OK, say (Se_sub (rq_met rq) OK) (put_sess (upd_request (rq\<lparr>rq_req := True\<rparr>) se) s))
           | Dr_failed err \<Rightarrow> (nz err, say (Se_sub (rq_met rq) (nz err)) s)
           | Dr_dropped err \<Rightarrow> (nz err, say (Se_sub (rq_met rq) (nz err)) (put_sess (upd_request (rq\<lparr>rq_req := False\<rparr>) se) s))) }"

definition info_request :: "senv \<Rightarrow> nat \<Rightarrow> 'u sw \<Rightarrow> (errno \<times> 'u sw) option" where
  "info_request e r s = sub_request e r s"

definition update_request :: "senv \<Rightarrow> nat \<Rightarrow> 'u sw \<Rightarrow> (errno \<times> 'u sw) option" where
  "update_request e r s = do {
     se \<leftarrow> sw_sess s;
     rq \<leftarrow> find_request r se;
     if rq_tmr rq \<noteq> None then Some (EPERM, s)
     else do {
       (err, s) \<leftarrow> sub_request e r s;
       se \<leftarrow> sw_sess s;
       Some (err, if err = 0 \<and> se_desc se \<noteq> None then put_sess (se\<lparr>se_neg_state := SDP_NEG_LOCAL_OFFER\<rparr>) s else s) } }"

definition prack_request :: "senv \<Rightarrow> nat \<Rightarrow> 'u sw \<Rightarrow> (errno \<times> 'u sw) option" where
  "prack_request e r s = do {
     se \<leftarrow> sw_sess s;
     rq \<leftarrow> find_request r se;
     if rq_tmr rq \<noteq> None then Some (EINVAL, s) else sub_request e r s }"

definition sipsess_update :: "senv \<Rightarrow> 'u sw \<Rightarrow> (errno \<times> 'u sw) option" where
  "sipsess_update e s = do {
     se \<leftarrow> sw_sess s;
     if se_terminated se \<noteq> 0 \<or> se_desc se = None then Some (EINVAL, s)
     else do {
       (err, r, s) \<leftarrow> sipsess_request_alloc e R_UPDATE (se_desc se) s;
       if err \<noteq> 0 then Some (err, s)
       else do {
         (err, s) \<leftarrow> update_request e r s;
         if err \<noteq> 0 then do { s \<leftarrow> request_free e r s; Some (err, s) }
         else do { se \<leftarrow> sw_sess s; Some (OK, put_sess (se\<lparr>se_modify_pending := False\<rparr>) s) } } } }"

definition sipsess_info :: "senv \<Rightarrow> nat \<Rightarrow> 'u sw \<Rightarrow> (errno \<times> 'u sw) option" where
  "sipsess_info e body s = do {
     se \<leftarrow> sw_sess s;
     if se_terminated se \<noteq> 0 then Some (EINVAL, s)
     else if \<not> se_dlg_est se then Some (ENOTCONN, s)
     else do {
       (err, r, s) \<leftarrow> sipsess_request_alloc e R_INFO (Some body) s;
       if err \<noteq> 0 then Some (err, s)
       else do {
         (err, s) \<leftarrow> info_request e r s;
         if err \<noteq> 0 then do { s \<leftarrow> request_free e r s; Some (err, s) } else Some (OK, s) } } }"

text \<open>The first allocation is that of \<open>struct sipsess_prack\<close>, the last the copy of the method.\<close>

definition sipsess_prack :: "senv \<Rightarrow> nat option \<Rightarrow> 'u sw \<Rightarrow> (errno \<times> 'u sw) option" where
  "sipsess_prack e desc s = do {
     se \<leftarrow> sw_sess s;
     if se_terminated se \<noteq> 0 then Some (EINVAL, s)
     else
       let (n, s) = tick s
       in if ev_mem e n = Al_null then Some (ENOMEM, s)
          else do {
            (err, r, s) \<leftarrow> sipsess_request_alloc e R_PRACK desc s;
            if err \<noteq> 0 then Some (err, s)
            else do {
              (err, s) \<leftarrow> (if ev_mem e n = Al_nodup then Some (ENOMEM, s) else prack_request e r s);
              if err \<noteq> 0 then do { s \<leftarrow> request_free e r s; Some (err, s) } else Some (OK, s) } } }"

section \<open>What the user calls\<close>

definition sipsess_modify :: "senv \<Rightarrow> nat option \<Rightarrow> 'u sw \<Rightarrow> (errno \<times> 'u sw) option" where
  "sipsess_modify e desc s = do {
     se \<leftarrow> sw_sess s;
     if se_terminated se \<noteq> 0 \<or> \<not> se_dlg_est se then Some (EINVAL, s)
     else if left desc > 0 \<and> se_neg_state se \<noteq> SDP_NEG_DONE \<and> se_neg_state se \<noteq> SDP_NEG_NONE then Some (EPROTO, s)
     else
       let se = se\<lparr>se_desc := desc\<rparr>; s = put_sess se s
       in if \<not> se_established se then sipsess_update e s
          else if se_req se \<noteq> None \<or> se_tmr se \<noteq> None \<or> se_replyl se \<noteq> []
          then Some (OK, put_sess (se\<lparr>se_modify_pending := True\<rparr>) s)
          else sipsess_reinvite e True s }"

definition sipsess_progress :: "senv \<Rightarrow> u16 \<Rightarrow> rel100_mode \<Rightarrow> nat option \<Rightarrow> 'u sw \<Rightarrow> (errno \<times> 'u sw) option" where
  "sipsess_progress e scode rel100 desc s = do {
     se \<leftarrow> sw_sess s;
     case se_msg se of
       None \<Rightarrow> Some (EINVAL, s)
     | Some msg \<Rightarrow>
         if \<not> se_st se \<or> scode < 101 \<or> scode > 199 then Some (EINVAL, s)
         else sipsess_reply_1xx e msg scode rel100 desc s }"

definition sipsess_answer :: "senv \<Rightarrow> u16 \<Rightarrow> nat option \<Rightarrow> 'u sw \<Rightarrow> (errno \<times> 'u sw) option" where
  "sipsess_answer e scode desc s = do {
     se \<leftarrow> sw_sess s;
     case se_msg se of
       None \<Rightarrow> Some (EINVAL, s)
     | Some msg \<Rightarrow>
         if \<not> se_st se \<or> scode < 200 \<or> scode > 299 then Some (EINVAL, s)
         else sipsess_reply_2xx e msg scode desc s }"

definition sipsess_reject :: "senv \<Rightarrow> u16 \<Rightarrow> 'u sw \<Rightarrow> (errno \<times> 'u sw) option" where
  "sipsess_reject e scode s = do {
     se \<leftarrow> sw_sess s;
     if \<not> se_st se \<or> se_msg se = None \<or> scode < 300 then Some (EINVAL, s) else st_reply e scode s }"

definition sipsess_set_redirect_handler :: "'u sw \<Rightarrow> 'u sw option" where
  "sipsess_set_redirect_handler s = do { se \<leftarrow> sw_sess s; Some (put_sess (se\<lparr>se_redirecth := True\<rparr>) s) }"

definition sipsess_set_prack_handler :: "'u sw \<Rightarrow> 'u sw option" where
  "sipsess_set_prack_handler s = do { se \<leftarrow> sw_sess s; Some (put_sess (se\<lparr>se_prackh := True\<rparr>) s) }"

definition sipsess_awaiting_prack :: "sipsess option \<Rightarrow> bool" where
  "sipsess_awaiting_prack se = (case se of None \<Rightarrow> False | Some se \<Rightarrow> se_prack_waiting_cnt se > 0)"

definition sipsess_refresh_allowed :: "sipsess option \<Rightarrow> bool" where
  "sipsess_refresh_allowed se =
     (case se of None \<Rightarrow> False | Some se \<Rightarrow> se_terminated se = 0 \<and> se_neg_state se = SDP_NEG_DONE)"

definition sipsess_ack_pending :: "sipsess option \<Rightarrow> bool" where
  "sipsess_ack_pending se = (case se of None \<Rightarrow> False | Some se \<Rightarrow> se_replyl se \<noteq> [])"

definition sipsess_sdp_neg_state :: "sipsess option \<Rightarrow> sdp_neg_state" where
  "sipsess_sdp_neg_state se = (case se of None \<Rightarrow> SDP_NEG_NONE | Some se \<Rightarrow> se_neg_state se)"

section \<open>Calls of the handlers\<close>

definition sess_desch :: "'u user \<Rightarrow> 'u sw \<Rightarrow> (errno \<times> nat option \<times> 'u sw) option" where
  "sess_desch u s = u_desc u (say (Se_call C_desc) s)"

definition sess_offerh :: "'u user \<Rightarrow> sess_msg \<Rightarrow> 'u sw \<Rightarrow> (errno \<times> nat option \<times> 'u sw) option" where
  "sess_offerh u msg s = do {
     se \<leftarrow> sw_sess s;
     if se_offerh se = H_user then u_offer u msg (say (Se_call C_offer) s) else Some (ENOSYS, None, s) }"

definition sess_answerh :: "'u user \<Rightarrow> sess_msg \<Rightarrow> 'u sw \<Rightarrow> (errno \<times> 'u sw) option" where
  "sess_answerh u msg s = do {
     se \<leftarrow> sw_sess s;
     if se_answerh se = H_user then u_answer u msg (say (Se_call C_answer) s) else Some (ENOSYS, s) }"

definition sess_progrh :: "'u user \<Rightarrow> sess_msg \<Rightarrow> 'u sw \<Rightarrow> 'u sw option" where
  "sess_progrh u msg s = do {
     se \<leftarrow> sw_sess s;
     if se_progrh se = H_user then u_progr u msg (say (Se_call C_progr) s) else Some s }"

definition sess_estabh :: "'u user \<Rightarrow> sess_msg \<Rightarrow> 'u sw \<Rightarrow> 'u sw option" where
  "sess_estabh u msg s = do {
     se \<leftarrow> sw_sess s;
     if se_estabh se = H_user then u_estab u msg (say (Se_call C_estab) s) else Some s }"

text \<open>These two stay when the session is terminated, and would then be given the session instead of the user's object.\<close>

definition sess_redirecth :: "'u user \<Rightarrow> sess_msg \<Rightarrow> 'u sw \<Rightarrow> 'u sw option" where
  "sess_redirecth u msg s = do {
     se \<leftarrow> sw_sess s;
     if se_self se then None else u_redirect u msg (say (Se_call C_redirect) s) }"

definition sess_prackh :: "'u user \<Rightarrow> sess_msg \<Rightarrow> 'u sw \<Rightarrow> 'u sw option" where
  "sess_prackh u msg s = do {
     se \<leftarrow> sw_sess s;
     if se_self se then None else u_prack u msg (say (Se_call C_prack) s) }"

section \<open>Outgoing sessions\<close>

text \<open>The message of an INVITE is composed when its transport is known.\<close>

definition send_handler_invite :: "senv \<Rightarrow> 'u user \<Rightarrow> 'u sw \<Rightarrow> (errno \<times> 'u sw) option" where
  "send_handler_invite e u s = do {
     se \<leftarrow> sw_sess s;
     (err, desc, s) \<leftarrow> (if se_desch se = H_user then sess_desch u s else Some (OK, None, s));
     if err \<noteq> 0 then Some (err, s)
     else do {
       se \<leftarrow> sw_sess s;
       let (n, s) = tick s;
       Some (ev_rep e n, if desc \<noteq> None then put_sess (se\<lparr>se_neg_state := SDP_NEG_LOCAL_OFFER\<rparr>) s else s) } }"

definition invite :: "senv \<Rightarrow> 'u user \<Rightarrow> 'u sw \<Rightarrow> (errno \<times> 'u sw) option" where
  "invite e u s = do {
     se \<leftarrow> sw_sess s;
     let (n, s) = tick (put_sess (se\<lparr>se_modify_pending := False\<rparr>) s);
     case ev_req e n of
       Dr_failed err \<Rightarrow> Some (nz err, say (Se_req R_INVITE (nz err)) s)
     | Dr_dropped err \<Rightarrow> do { se \<leftarrow> sw_sess s; Some (nz err, say (Se_req R_INVITE (nz err)) (put_sess (se\<lparr>se_req := None\<rparr>) s)) }
     | Dr_sent now \<Rightarrow> do {
         (err, s) \<leftarrow> (if now then send_handler_invite e u s else Some (OK, s));
         se \<leftarrow> sw_sess s;
         Some (err, say (Se_req R_INVITE err) (put_sess (se\<lparr>se_req := (if err \<noteq> 0 then None else Some (R_INVITE, new_req))\<rparr>) s)) } }"

definition sipsess_ack :: "senv \<Rightarrow> 'u sw \<Rightarrow> errno \<times> 'u sw" where
  "sipsess_ack e s = (let (n, s) = tick s; err = ev_rep e n in (err, if err = 0 then say Se_ack s else s))"

text \<open>\<open>sip_dialog_create\<close> or \<open>sip_dialog_update\<close> for a response.\<close>

definition dialog_response :: "sess_msg \<Rightarrow> sipsess \<Rightarrow> errno \<times> sipsess" where
  "dialog_response msg se =
     (sm_dlg msg, if sm_dlg msg = 0 \<and> \<not> se_dlg_est se then se\<lparr>se_dlg_est := True, se_dlg_rseq := 0\<rparr> else se)"

definition invite_out :: "senv \<Rightarrow> 'u user \<Rightarrow> errno \<Rightarrow> sess_msg option \<Rightarrow> 'u sw \<Rightarrow> 'u sw option" where
  "invite_out e u err msg s = do {
     se \<leftarrow> sw_sess s;
     if se_terminated se = 0 then sipsess_terminate e u err msg s else deref_sess e s }"

text \<open>A reliable provisional response is acknowledged with a PRACK.\<close>

definition invite_rel100 :: "senv \<Rightarrow> 'u user \<Rightarrow> sess_msg \<Rightarrow> 'u sw \<Rightarrow> 'u sw option" where
  "invite_rel100 e u msg s = do {
     se \<leftarrow> sw_sess s;
     let sdp = (sm_body msg > 0);
     if se_neg_state se = SDP_NEG_NONE \<and> \<not> sdp then invite_out e u OK (Some msg) s
     else do {
       (err, desc, s) \<leftarrow>
         (if sdp \<and> se_neg_state se = SDP_NEG_LOCAL_OFFER
          then Some (OK, None, put_sess (se\<lparr>se_neg_state := SDP_NEG_DONE\<rparr>) s)
          else if sdp \<and> se_neg_state se = SDP_NEG_NONE
          then sess_offerh u msg (put_sess (se\<lparr>se_neg_state := SDP_NEG_REMOTE_OFFER\<rparr>) s)
          else Some (OK, None, s));
       (err2, s) \<leftarrow> sipsess_prack e desc s;
       if err \<noteq> 0 \<or> err2 \<noteq> 0 then invite_out e u (err OR err2) (Some msg) s
       else do {
         se \<leftarrow> sw_sess s;
         let se = (if se_neg_state se = SDP_NEG_REMOTE_OFFER \<and> left desc > 0 then se\<lparr>se_neg_state := SDP_NEG_DONE\<rparr> else se);
         Some (put_sess (se\<lparr>se_desc := None\<rparr>) s) } } }"

definition invite_progress :: "senv \<Rightarrow> 'u user \<Rightarrow> sess_msg \<Rightarrow> 'u sw \<Rightarrow> 'u sw option" where
  "invite_progress e u msg s = do {
     s \<leftarrow> sess_progrh u msg s;
     if sm_scode msg = 100 then Some s
     else do {
       se \<leftarrow> sw_sess s;
       let (err, se) = (if sm_to_tag msg \<and> sm_contact msg then dialog_response msg se else (OK, se));
       let s = put_sess se s;
       if err \<noteq> 0 then invite_out e u err (Some msg) s
       else do {
         (err, s) \<leftarrow> (if sm_body msg > 0 \<and> se_neg_state se = SDP_NEG_LOCAL_OFFER then sess_answerh u msg s else Some (OK, s));
         if err \<noteq> 0 then invite_out e u err (Some msg) s
         else do {
           se \<leftarrow> sw_sess s;
           if sm_req100rel msg \<and> se_rel100_supported se then invite_rel100 e u msg s else Some s } } } }"

text \<open>The end of a successful INVITE.\<close>

definition invite_established :: "senv \<Rightarrow> 'u user \<Rightarrow> sess_msg \<Rightarrow> 'u sw \<Rightarrow> 'u sw option" where
  "invite_established e u msg s = do {
     se \<leftarrow> sw_sess s;
     let se = se\<lparr>se_established := True\<rparr>;
     let s = put_sess se s;
     if se_terminated se \<noteq> 0 then invite_out e u OK (Some msg) s
     else do {
       s \<leftarrow> (if se_modify_pending se then do { (_, s) \<leftarrow> sipsess_reinvite e True s; Some s }
             else Some (put_sess (se\<lparr>se_desc := None\<rparr>) s));
       sess_estabh u msg s } }"

definition invite_success :: "senv \<Rightarrow> 'u user \<Rightarrow> sess_msg \<Rightarrow> 'u sw \<Rightarrow> 'u sw option" where
  "invite_success e u msg s = do {
     se \<leftarrow> sw_sess s;
     let sdp = (sm_body msg > 0);
     let (err, se) = dialog_response msg se;
     let s = put_sess se s;
     if err \<noteq> 0 then invite_out e u err (Some msg) s
     else do {
       (err, desc, s) \<leftarrow>
         (if sdp \<and> se_neg_state se = SDP_NEG_LOCAL_OFFER
          then do { (err, s) \<leftarrow> sess_answerh u msg (put_sess (se\<lparr>se_neg_state := SDP_NEG_DONE\<rparr>) s); Some (err, None, s) }
          else if sdp \<and> se_neg_state se = SDP_NEG_NONE
          then sess_offerh u msg (put_sess (se\<lparr>se_neg_state := SDP_NEG_REMOTE_OFFER\<rparr>) s)
          else Some (OK, None, s));
       let (err2, s) = sipsess_ack e s;
       if err \<noteq> 0 \<or> err2 \<noteq> 0 then invite_out e u (err OR err2) (Some msg) s
       else do {
         se \<leftarrow> sw_sess s;
         if se_neg_state se = SDP_NEG_NONE \<and> \<not> sdp then invite_out e u OK (Some msg) s
         else do {
           let se = (if se_neg_state se = SDP_NEG_REMOTE_OFFER \<and> left desc > 0 then se\<lparr>se_neg_state := SDP_NEG_DONE\<rparr> else se);
           invite_established e u msg (put_sess se s) } } } }"

definition invite_redirect :: "senv \<Rightarrow> 'u user \<Rightarrow> sess_msg \<Rightarrow> 'u sw \<Rightarrow> 'u sw option" where
  "invite_redirect e u msg s = do {
     se \<leftarrow> sw_sess s;
     if se_terminated se \<noteq> 0 then invite_out e u OK (Some msg) s
     else if se_redirecth se then
       (if \<not> sm_contact msg then invite_out e u EBADMSG (Some msg) s
        else if sm_redirect msg \<noteq> 0 then invite_out e u (sm_redirect msg) (Some msg) s
        else do { s \<leftarrow> sess_redirecth u msg s; invite_out e u OK (Some msg) s })
     else if sm_dlg msg \<noteq> 0 then invite_out e u (sm_dlg msg) (Some msg) s
     else do {
       (err, s) \<leftarrow> invite e u (put_sess (se\<lparr>se_dlg_est := True\<rparr>) s);
       if err \<noteq> 0 then invite_out e u err (Some msg) s else Some s } }"

definition invite_failure :: "senv \<Rightarrow> 'u user \<Rightarrow> sess_msg \<Rightarrow> 'u sw \<Rightarrow> 'u sw option" where
  "invite_failure e u msg s = do {
     se \<leftarrow> sw_sess s;
     if se_terminated se \<noteq> 0 then invite_out e u OK (Some msg) s
     else if sm_scode msg = 401 \<or> sm_scode msg = 407 then
       (if sm_auth msg \<noteq> 0 then invite_out e u (if sm_auth msg = EAUTH then 0 else sm_auth msg) (Some msg) s
        else do {
          (err, s) \<leftarrow> invite e u s;
          if err \<noteq> 0 then invite_out e u err (Some msg) s else Some s })
     else invite_out e u OK (Some msg) s }"

text \<open>The loop detection that the response handlers start with; an error or a missing message goes straight to the end.\<close>

definition response_loops :: "sess_msg \<Rightarrow> 'u sw \<Rightarrow> (bool \<times> 'u sw) option" where
  "response_loops msg s = do {
     se \<leftarrow> sw_sess s;
     let (loops, ls) = sip_request_loops (se_ls se) (sm_scode msg);
     Some (loops, put_sess (se\<lparr>se_ls := ls\<rparr>) s) }"

definition invite_resp_handler :: "senv \<Rightarrow> 'u user \<Rightarrow> errno \<Rightarrow> sess_msg option \<Rightarrow> 'u sw \<Rightarrow> 'u sw option" where
  "invite_resp_handler e u err msg s =
     (case msg of
        None \<Rightarrow> invite_out e u err None s
      | Some m \<Rightarrow>
          if err \<noteq> 0 then invite_out e u err msg s
          else do {
            (loops, s) \<leftarrow> response_loops m s;
            if loops then invite_out e u err msg s
            else if sm_scode m < 200 then invite_progress e u m s
            else if sm_scode m < 300 then invite_success e u m s
            else if sm_scode m < 400 then invite_redirect e u m s
            else invite_failure e u m s })"

section \<open>Other responses\<close>

definition bye_resp_handler :: "senv \<Rightarrow> errno \<Rightarrow> sess_msg option \<Rightarrow> 'u sw \<Rightarrow> 'u sw option" where
  "bye_resp_handler e err msg s =
     (if err \<noteq> 0 then deref_sess e s
      else do {
        m \<leftarrow> msg;
        (loops, s) \<leftarrow> response_loops m s;
        if loops then deref_sess e s
        else if sm_scode m < 200 then Some s
        else if sm_scode m < 300 then deref_sess e s
        else do {
          se \<leftarrow> sw_sess s;
          if se_peerterm se then deref_sess e s
          else if sm_scode m = 401 \<or> sm_scode m = 407 then
            (if sm_auth m \<noteq> 0 then deref_sess e s
             else do { (err, s) \<leftarrow> sipsess_bye e False s; if err \<noteq> 0 then deref_sess e s else Some s })
          else deref_sess e s } })"

definition reinvite_out :: "senv \<Rightarrow> 'u user \<Rightarrow> errno \<Rightarrow> 'u sw \<Rightarrow> 'u sw option" where
  "reinvite_out e u err s = do {
     se \<leftarrow> sw_sess s;
     if se_terminated se \<noteq> 0 then deref_sess e s
     else if err = ETIMEDOUT then sipsess_terminate e u err None s
     else if se_modify_pending se then do { (_, s) \<leftarrow> sipsess_reinvite e True s; Some s }
     else Some (put_sess (se\<lparr>se_desc := None\<rparr>) s) }"

definition reinvite_success :: "senv \<Rightarrow> 'u user \<Rightarrow> sess_msg \<Rightarrow> 'u sw \<Rightarrow> 'u sw option" where
  "reinvite_success e u msg s = do {
     se \<leftarrow> sw_sess s;
     (err, desc, s) \<leftarrow>
       (if sm_body msg > 0 \<and> se_neg_state se = SDP_NEG_LOCAL_OFFER
        then do { (err, s) \<leftarrow> sess_answerh u msg (put_sess (se\<lparr>se_neg_state := SDP_NEG_DONE\<rparr>) s); Some (err, None, s) }
        else if sm_body msg > 0 \<and> se_neg_state se = SDP_NEG_NONE
        then sess_offerh u msg (put_sess (se\<lparr>se_neg_state := SDP_NEG_REMOTE_OFFER\<rparr>) s)
        else Some (OK, None, s));
     if err \<noteq> 0 then reinvite_out e u err s
     else
       let (err, s) = sipsess_ack e s
       in if err \<noteq> 0 then reinvite_out e u err s
          else do {
            se \<leftarrow> sw_sess s;
            reinvite_out e u OK
              (if se_neg_state se = SDP_NEG_REMOTE_OFFER \<and> left desc > 0
               then put_sess (se\<lparr>se_neg_state := SDP_NEG_DONE\<rparr>) s else s) } }"

definition reinvite_failure :: "senv \<Rightarrow> 'u user \<Rightarrow> sess_msg \<Rightarrow> 'u sw \<Rightarrow> 'u sw option" where
  "reinvite_failure e u msg s = do {
     se \<leftarrow> sw_sess s;
     let se = se\<lparr>se_neg_state := SDP_NEG_DONE\<rparr>;
     let s = put_sess se s;
     if se_terminated se \<noteq> 0 then reinvite_out e u OK s
     else if sm_scode msg = 401 \<or> sm_scode msg = 407 then
       (if sm_auth msg \<noteq> 0 then reinvite_out e u (if sm_auth msg = EAUTH then 0 else sm_auth msg) s
        else do {
          (err, s) \<leftarrow> sipsess_reinvite e False s;
          if err \<noteq> 0 then reinvite_out e u err s else Some s })
     else if sm_scode msg = 408 \<or> sm_scode msg = 481 then sipsess_terminate e u OK (Some msg) s
     else if sm_scode msg = 491 then
       Some (put_sess (se\<lparr>se_tmr := Some (sw_now s + (if se_owner se then 3000 else 1000))\<rparr>) s)
     else if sm_scode msg = 500 then
       (case sm_retry_after msg of
          None \<Rightarrow> reinvite_out e u OK s
        | Some t \<Rightarrow> Some (put_sess (se\<lparr>se_tmr := Some (sw_now s + unat (t * 1000))\<rparr>) s))
     else reinvite_out e u OK s }"

definition reinvite_resp_handler :: "senv \<Rightarrow> 'u user \<Rightarrow> errno \<Rightarrow> sess_msg option \<Rightarrow> 'u sw \<Rightarrow> 'u sw option" where
  "reinvite_resp_handler e u err msg s =
     (case msg of
        None \<Rightarrow> reinvite_out e u err s
      | Some m \<Rightarrow>
          if err \<noteq> 0 then reinvite_out e u err s
          else do {
            (loops, s) \<leftarrow> response_loops m s;
            if loops then reinvite_out e u err s
            else if sm_scode m < 200 then Some s
            else if sm_scode m < 300 then reinvite_success e u m s
            else reinvite_failure e u m s })"

text \<open>A response to the request that \<open>sess->req\<close> points to.  A final response, or the failure of the request, clears the
  pointer before the handler is called.\<close>

definition resp_handler :: "senv \<Rightarrow> 'u user \<Rightarrow> req_met \<Rightarrow> errno \<Rightarrow> sess_msg option \<Rightarrow> 'u sw \<Rightarrow> 'u sw option" where
  "resp_handler e u k err msg s =
     (case k of
        R_INVITE \<Rightarrow> invite_resp_handler e u err msg s
      | R_REINVITE \<Rightarrow> reinvite_resp_handler e u err msg s
      | R_BYE \<Rightarrow> bye_resp_handler e err msg s)"

definition sess_response :: "senv \<Rightarrow> 'u user \<Rightarrow> errno \<Rightarrow> sess_msg option \<Rightarrow> 'u sw \<Rightarrow> 'u sw option" where
  "sess_response e u err msg s = do {
     se \<leftarrow> sw_sess s;
     (k, req) \<leftarrow> se_req se;
     if msg \<noteq> None \<and> sm_scode (the msg) < 200 then
       (let (sent, req) = request_provisional req;
            s = put_sess (se\<lparr>se_req := Some (k, req)\<rparr>) s
        in resp_handler e u k err msg (if sent then say Se_cancel s else s))
     else resp_handler e u k err msg (put_sess (se\<lparr>se_req := None\<rparr>) s) }"

text \<open>Responses to the other requests.  \<open>sess_request_resp\<close> is the common beginning.\<close>

definition request_out :: "senv \<Rightarrow> 'u user \<Rightarrow> nat \<Rightarrow> errno \<Rightarrow> sess_msg option \<Rightarrow> 'u sw \<Rightarrow> 'u sw option" where
  "request_out e u r err msg s = do {
     se \<leftarrow> sw_sess s;
     rq \<leftarrow> find_request r se;
     s \<leftarrow> (if se_terminated se \<noteq> 0 then Some s
           else if err = ETIMEDOUT then sipsess_terminate e u err None s
           else if rq_met rq = R_INFO then u_resp u err msg (say (Se_call C_resp) s)
           else Some s);
     request_free e r s }"

definition request_loops :: "nat \<Rightarrow> sess_msg \<Rightarrow> 'u sw \<Rightarrow> (bool \<times> 'u sw) option" where
  "request_loops r msg s = do {
     se \<leftarrow> sw_sess s;
     rq \<leftarrow> find_request r se;
     let (loops, ls) = sip_request_loops (rq_ls rq) (sm_scode msg);
     Some (loops, put_sess (upd_request (rq\<lparr>rq_ls := ls\<rparr>) se) s) }"

definition info_resp_handler :: "senv \<Rightarrow> 'u user \<Rightarrow> nat \<Rightarrow> errno \<Rightarrow> sess_msg option \<Rightarrow> 'u sw \<Rightarrow> 'u sw option" where
  "info_resp_handler e u r err msg s =
     (if err \<noteq> 0 then request_out e u r err msg s
      else do {
        m \<leftarrow> msg;
        (loops, s) \<leftarrow> request_loops r m s;
        if loops then request_out e u r err msg s
        else if sm_scode m < 200 then Some s
        else if sm_scode m < 300 then request_out e u r err msg s
        else do {
          se \<leftarrow> sw_sess s;
          if se_terminated se \<noteq> 0 then request_out e u r err msg s
          else if sm_scode m = 401 \<or> sm_scode m = 407 then
            (if sm_auth m \<noteq> 0 then request_out e u r (if sm_auth m = EAUTH then 0 else sm_auth m) msg s
             else do {
               (err, s) \<leftarrow> info_request e r s;
               if err \<noteq> 0 then request_out e u r err msg s else Some s })
          else if sm_scode m = 408 \<or> sm_scode m = 481 then do {
            s \<leftarrow> sipsess_terminate e u OK msg s;
            request_out e u r err msg s }
          else request_out e u r err msg s } })"

text \<open>\<open>tmr_start(&req->tmr, ms, tmr_handler, arg)\<close>.\<close>

definition request_retry :: "nat \<Rightarrow> nat \<Rightarrow> tmr_arg \<Rightarrow> 'u sw \<Rightarrow> 'u sw option" where
  "request_retry r ms arg s = do {
     se \<leftarrow> sw_sess s;
     rq \<leftarrow> find_request r se;
     Some (put_sess (upd_request (rq\<lparr>rq_tmr := Some (sw_now s + ms, arg)\<rparr>) se) s) }"

definition update_resp_handler :: "senv \<Rightarrow> 'u user \<Rightarrow> nat \<Rightarrow> errno \<Rightarrow> sess_msg option \<Rightarrow> 'u sw \<Rightarrow> 'u sw option" where
  "update_resp_handler e u r err msg s =
     (case msg of
        None \<Rightarrow> request_out e u r err msg s
      | Some m \<Rightarrow>
          if err \<noteq> 0 then request_out e u r err msg s
          else do {
            (loops, s) \<leftarrow> request_loops r m s;
            se \<leftarrow> sw_sess s;
            if loops then request_out e u r err msg s
            else if sm_scode m < 200 then Some s
            else if sm_scode m < 300 then
              (if se_neg_state se = SDP_NEG_LOCAL_OFFER
               then do {
                 (_, s) \<leftarrow> sess_answerh u m s;
                 se \<leftarrow> sw_sess s;
                 request_out e u r err msg (put_sess (se\<lparr>se_neg_state := SDP_NEG_DONE\<rparr>) s) }
               else request_out e u r err msg s)
            else if se_terminated se \<noteq> 0 then request_out e u r err msg s
            else
              let s = put_sess (se\<lparr>se_neg_state := SDP_NEG_DONE\<rparr>) s
              in if sm_scode m = 401 \<or> sm_scode m = 407 then
                   (if sm_auth m \<noteq> 0 then request_out e u r (if sm_auth m = EAUTH then 0 else sm_auth m) msg s
                    else do {
                      (err, s) \<leftarrow> update_request e r s;
                      if err \<noteq> 0 then request_out e u r err msg s else Some s })
                 else if sm_scode m = 408 \<or> sm_scode m = 481 then do {
                   s \<leftarrow> sipsess_terminate e u OK msg s;
                   request_out e u r err msg s }
                 else if sm_scode m = 491 then request_retry r (if se_owner se then 3000 else 1000) (A_request r) s
                 else if sm_scode m = 500 \<and> sm_retry_after m \<noteq> None
                 then request_retry r (unat (the (sm_retry_after m) * 1000)) (A_request r) s
                 else request_out e u r err msg s })"

text \<open>The end of \<open>prack_resp_handler\<close>.\<close>

definition prack_out :: "senv \<Rightarrow> 'u user \<Rightarrow> nat \<Rightarrow> errno \<Rightarrow> 'u sw \<Rightarrow> 'u sw option" where
  "prack_out e u r err s = do {
     se \<leftarrow> sw_sess s;
     s \<leftarrow> (if se_terminated se = 0 \<and> err = ETIMEDOUT then sipsess_terminate e u err None s else Some s);
     request_free e r s }"

definition prack_resp_handler :: "senv \<Rightarrow> 'u user \<Rightarrow> nat \<Rightarrow> errno \<Rightarrow> sess_msg option \<Rightarrow> 'u sw \<Rightarrow> 'u sw option" where
  "prack_resp_handler e u r err msg s =
     (case msg of
        None \<Rightarrow> prack_out e u r err s
      | Some m \<Rightarrow>
          if err \<noteq> 0 then prack_out e u r err s
          else do {
            (loops, s) \<leftarrow> request_loops r m s;
            se \<leftarrow> sw_sess s;
            if loops then prack_out e u r err s
            else if sm_scode m < 200 then Some s
            else if sm_scode m < 300 then
              (if sm_body m > 0
               then do {
                 s \<leftarrow> (if se_neg_state se = SDP_NEG_LOCAL_OFFER
                       then do { (_, s) \<leftarrow> sess_answerh u m (put_sess (se\<lparr>se_neg_state := SDP_NEG_DONE\<rparr>) s); Some s }
                       else Some s);
                 se \<leftarrow> sw_sess s;
                 prack_out e u r err (put_sess (se\<lparr>se_desc := None\<rparr>) s) }
               else prack_out e u r err s)
            else if se_terminated se \<noteq> 0 then prack_out e u r err s
            else if sm_scode m = 401 \<or> sm_scode m = 407 then
              (if sm_auth m \<noteq> 0 then prack_out e u r (if sm_auth m = EAUTH then 0 else sm_auth m) s
               else do {
                 (err, s) \<leftarrow> prack_request e r s;
                 if err \<noteq> 0 then prack_out e u r err s else Some s })
            else if sm_scode m = 408 \<or> sm_scode m = 491 then request_retry r (if se_owner se then 3000 else 1000) (A_request r) s
            else if sm_scode m = 500 \<and> sm_retry_after m \<noteq> None
            then request_retry r (unat (the (sm_retry_after m) * 1000)) (A_request r) s
            else prack_out e u r err s })"

definition sub_response :: "senv \<Rightarrow> 'u user \<Rightarrow> nat \<Rightarrow> errno \<Rightarrow> sess_msg option \<Rightarrow> 'u sw \<Rightarrow> 'u sw option" where
  "sub_response e u r err msg s = do {
     se \<leftarrow> sw_sess s;
     rq \<leftarrow> find_request r se;
     let final = (msg = None \<or> sm_scode (the msg) \<ge> 200);
     let s = (if final then put_sess (upd_request (rq\<lparr>rq_req := False\<rparr>) se) s else s);
     case rq_met rq of
       R_INFO \<Rightarrow> info_resp_handler e u r err msg s
     | R_UPDATE \<Rightarrow> update_resp_handler e u r err msg s
     | R_PRACK \<Rightarrow> prack_resp_handler e u r err msg s }"

section \<open>Timers\<close>

definition modify_tmr_handler :: "senv \<Rightarrow> 'u sw \<Rightarrow> 'u sw option" where
  "modify_tmr_handler e s = do { (_, s) \<leftarrow> sipsess_reinvite e True s; Some s }"

definition update_tmr_handler :: "senv \<Rightarrow> tmr_arg \<Rightarrow> 'u sw \<Rightarrow> 'u sw option" where
  "update_tmr_handler e arg s =
     (case arg of
        A_prack _ \<Rightarrow> None
      | A_request r \<Rightarrow> do {
          (err, s) \<leftarrow> update_request e r s;
          if err \<noteq> 0 then request_free e r s else Some s })"

text \<open>The handler takes its argument for a \<open>struct sipsess_prack\<close>.\<close>

definition prack_tmr_handler :: "senv \<Rightarrow> tmr_arg \<Rightarrow> 'u sw \<Rightarrow> 'u sw option" where
  "prack_tmr_handler e arg s =
     (case arg of
        A_request _ \<Rightarrow> None
      | A_prack r \<Rightarrow> do {
          (err, s) \<leftarrow> prack_request e r s;
          if err \<noteq> 0 then request_free e r s else Some s })"

text \<open>The timer of a request expires: it is given the argument that it was started with.\<close>

definition request_tmr :: "senv \<Rightarrow> sess_request \<Rightarrow> 'u sw \<Rightarrow> 'u sw option" where
  "request_tmr e rq s = do {
     se \<leftarrow> sw_sess s;
     (_, arg) \<leftarrow> rq_tmr rq;
     let s = put_sess (upd_request (rq\<lparr>rq_tmr := None\<rparr>) se) s;
     if rq_met rq = R_PRACK then prack_tmr_handler e arg s else update_tmr_handler e arg s }"

section \<open>Requests of the peer\<close>

definition sipsess_find :: "sess_msg \<Rightarrow> 'u sw \<Rightarrow> sipsess option" where
  "sipsess_find msg s = (if sm_match msg then sw_sess s else None)"

definition sip_dialog_rseq_valid :: "sess_msg \<Rightarrow> sipsess \<Rightarrow> bool \<times> sipsess" where
  "sip_dialog_rseq_valid msg se =
     (if sm_cseq msg < se_dlg_rseq se then (False, se) else (True, se\<lparr>se_dlg_rseq := sm_cseq msg\<rparr>))"

definition sip_reply :: "senv \<Rightarrow> u16 \<Rightarrow> 'u sw \<Rightarrow> 'u sw" where
  "sip_reply e scode s = snd (free_reply e scode s)"

definition info_handler :: "senv \<Rightarrow> 'u user \<Rightarrow> sess_msg \<Rightarrow> 'u sw \<Rightarrow> 'u sw option" where
  "info_handler e u msg s =
     (case sipsess_find msg s of
        None \<Rightarrow> Some (sip_reply e 481 s)
      | Some se \<Rightarrow>
          if se_terminated se \<noteq> 0 then Some (sip_reply e 481 s)
          else
            let (valid, se) = sip_dialog_rseq_valid msg se; s = put_sess se s
            in if \<not> valid then Some (sip_reply e 500 s)
               else if se_infoh se = H_null then Some (sip_reply e 501 s)
               else u_info u msg (say (Se_call C_info) s))"

definition refer_handler :: "senv \<Rightarrow> 'u user \<Rightarrow> sess_msg \<Rightarrow> 'u sw \<Rightarrow> 'u sw option" where
  "refer_handler e u msg s =
     (case sipsess_find msg s of
        None \<Rightarrow> Some (sip_reply e 481 s)
      | Some se \<Rightarrow>
          if se_terminated se \<noteq> 0 then Some (sip_reply e 481 s)
          else
            let (valid, se) = sip_dialog_rseq_valid msg se; s = put_sess se s
            in if \<not> valid then Some (sip_reply e 500 s)
               else if se_referh se = H_null then Some (sip_reply e 501 s)
               else u_refer u msg (say (Se_call C_refer) s))"

definition bye_handler :: "senv \<Rightarrow> 'u user \<Rightarrow> sess_msg \<Rightarrow> 'u sw \<Rightarrow> 'u sw option" where
  "bye_handler e u msg s =
     (case sipsess_find msg s of
        None \<Rightarrow> Some (sip_reply e 481 s)
      | Some se \<Rightarrow>
          let (valid, se) = sip_dialog_rseq_valid msg se; s = put_sess se s
          in if \<not> valid then Some (sip_reply e 500 s)
             else
               let s = sip_reply e 200 s; se = se\<lparr>se_peerterm := True\<rparr>; s = say Se_peerterm (put_sess se s)
               in if se_terminated se \<noteq> 0 then Some s
                  else do {
                    s \<leftarrow> (if se_st se then do { (_, s) \<leftarrow> st_reply e 487 s; Some s } else Some s);
                    sipsess_terminate e u ECONNRESET None s })"

definition sess_cancel_handler :: "senv \<Rightarrow> 'u user \<Rightarrow> 'u sw \<Rightarrow> 'u sw option" where
  "sess_cancel_handler e u s = do {
     (_, s) \<leftarrow> st_reply e 487 s;
     se \<leftarrow> sw_sess s;
     let s = say Se_peerterm (put_sess (se\<lparr>se_peerterm := True\<rparr>) s);
     if se_terminated se \<noteq> 0 then Some s else sipsess_terminate e u ECONNRESET None s }"

definition sess_ack_handler :: "senv \<Rightarrow> 'u user \<Rightarrow> sess_msg \<Rightarrow> 'u sw \<Rightarrow> 'u sw option" where
  "sess_ack_handler e u msg s =
     (case sipsess_find msg s of
        None \<Rightarrow> Some s
      | Some se \<Rightarrow>
          let (err, se) = sipsess_reply_ack msg se; s = put_sess se s
          in if err \<noteq> 0 then Some s
             else if se_terminated se \<noteq> 0 then
               (if se_replyl se = [] then deref_sess e (put_sess (se\<lparr>se_established := True\<rparr>) s) else Some s)
             else if se_neg_state se = SDP_NEG_LOCAL_OFFER \<and> sm_body msg = 0 then sipsess_terminate e u EPROTO None s
             else do {
               (err, s) \<leftarrow> (if se_neg_state se = SDP_NEG_LOCAL_OFFER
                             then sess_answerh u msg (put_sess (se\<lparr>se_neg_state := SDP_NEG_DONE\<rparr>) s) else Some (OK, s));
               se \<leftarrow> sw_sess s;
               s \<leftarrow> (if se_modify_pending se \<and> se_replyl se = []
                     then do { (_, s) \<leftarrow> sipsess_reinvite e True s; Some s } else Some s);
               se \<leftarrow> sw_sess s;
               if se_established se then Some s
               else
                 let s = put_sess (se\<lparr>se_msg := None, se_established := True\<rparr>) s
                 in if err \<noteq> 0 then sipsess_terminate e u err None s else sess_estabh u msg s })"

definition prack_handler :: "senv \<Rightarrow> 'u user \<Rightarrow> sess_msg \<Rightarrow> 'u sw \<Rightarrow> 'u sw option" where
  "prack_handler e u msg s =
     (case sipsess_find msg s of
        None \<Rightarrow> Some (sip_reply e 481 s)
      | Some se \<Rightarrow>
          let (err, awaiting_prack, se) = sipsess_reply_prack msg se; s = put_sess se s
          in if err \<noteq> 0 then Some (sip_reply e 481 s)
             else if se_terminated se \<noteq> 0 then
               (if se_replyl se = [] then deref_sess e (put_sess (se\<lparr>se_established := True\<rparr>) s) else Some s)
             else
               let sdp = (sm_body msg > 0);
                   se = (if awaiting_prack then se\<lparr>se_prack_waiting_cnt := se_prack_waiting_cnt se - 1\<rparr> else se);
                   s = put_sess se s
               in if se_neg_state se = SDP_NEG_LOCAL_OFFER \<and> \<not> sdp then sipsess_terminate e u EPROTO None s
                  else do {
                    (desc, s) \<leftarrow>
                      (if se_neg_state se = SDP_NEG_LOCAL_OFFER
                       then do { (_, s) \<leftarrow> sess_answerh u msg (put_sess (se\<lparr>se_neg_state := SDP_NEG_DONE\<rparr>) s); Some (None, s) }
                       else if se_neg_state se = SDP_NEG_DONE \<and> sdp
                       then do { (_, d, s) \<leftarrow> sess_offerh u msg (put_sess (se\<lparr>se_neg_state := SDP_NEG_REMOTE_OFFER\<rparr>) s); Some (d, s) }
                       else Some (None, s));
                    se \<leftarrow> sw_sess s;
                    s \<leftarrow> (if se_prackh se then sess_prackh u msg s else Some s);
                    (_, s) \<leftarrow> sipsess_reply_2xx e msg 200 desc s;
                    Some s })"

definition target_refresh_handler :: "senv \<Rightarrow> 'u user \<Rightarrow> sess_msg \<Rightarrow> 'u sw \<Rightarrow> 'u sw option" where
  "target_refresh_handler e u msg s =
     (case sipsess_find msg s of
        None \<Rightarrow> Some (sip_reply e 481 s)
      | Some se \<Rightarrow>
          if se_terminated se \<noteq> 0 then Some (sip_reply e 481 s)
          else
            let is_invite = (sm_met msg = ''INVITE''); sdp = (sm_body msg > 0);
                (valid, se) = sip_dialog_rseq_valid msg se; s = put_sess se s
            in if \<not> valid then Some (sip_reply e 500 s)
               else if is_invite \<and> se_st se \<or> sdp \<and> se_neg_state se = SDP_NEG_LOCAL_OFFER then Some (sip_reply e 500 s)
               else if is_invite \<and> se_req se \<noteq> None then Some (sip_reply e 491 s)
               else if sdp \<and> \<not> sipsess_refresh_allowed (Some se) then Some (sip_reply e 488 s)
               else do {
                 (err, desc, s) \<leftarrow>
                   (if is_invite \<or> sdp
                    then sess_offerh u msg (put_sess (se\<lparr>se_neg_state := (if sdp then SDP_NEG_REMOTE_OFFER else SDP_NEG_LOCAL_OFFER)\<rparr>) s)
                    else Some (OK, None, s));
                 if err \<noteq> 0 then do {
                   let s = sip_reply e 488 s;
                   se \<leftarrow> sw_sess s;
                   Some (put_sess (se\<lparr>se_neg_state := SDP_NEG_DONE\<rparr>) s) }
                 else do {
                   (_, s) \<leftarrow> sipsess_reply_2xx e msg 200 desc s;
                   se \<leftarrow> sw_sess s;
                   Some (put_sess (se\<lparr>se_desc := None, se_modify_pending := False, se_tmr := None\<rparr>) s) } })"

text \<open>\<open>request_handler\<close> for a message inside a session; a request that starts one goes to \<open>connh\<close>.\<close>

definition sess_request_handler :: "senv \<Rightarrow> 'u user \<Rightarrow> sess_msg \<Rightarrow> 'u sw \<Rightarrow> (bool \<times> 'u sw) option" where
  "sess_request_handler e u msg s =
     (let done = map_option (\<lambda>s. (True, s))
      in if sm_met msg = ''INVITE'' \<and> sm_to_tag msg \<or> sm_met msg = ''UPDATE'' then done (target_refresh_handler e u msg s)
         else if sm_met msg = ''ACK'' then done (sess_ack_handler e u msg s)
         else if sm_met msg = ''PRACK'' then done (prack_handler e u msg s)
         else if sm_met msg = ''BYE'' then done (bye_handler e u msg s)
         else if sm_met msg = ''INFO'' then done (info_handler e u msg s)
         else if sm_met msg = ''REFER'' then (if \<not> sm_to_tag msg then Some (False, s) else done (refer_handler e u msg s))
         else Some (False, s))"

section \<open>The beginning of a session\<close>

text \<open>A session whose allocation failed is a state without a session.  Whether the user passes a handler for the description,
  for progress and for transfers differs; it always passes the others.\<close>

definition new_sess :: "hnd \<Rightarrow> hnd \<Rightarrow> hnd \<Rightarrow> sipsess" where
  "new_sess desch progrh referh =
     \<lparr>se_tmr = None, se_replyl = [], se_requestl = [], se_ls = \<lparr>ls_failc = 0, ls_last_scode = 0\<rparr>, se_msg = None, se_req = None,
      se_dlg_est = False, se_dlg_rseq = 0, se_st = False, se_desc = None, se_desch = desch, se_offerh = H_user, se_answerh = H_user,
      se_progrh = (if progrh = H_null then H_internal else progrh), se_estabh = H_user, se_infoh = H_user, se_referh = referh,
      se_closeh = H_user, se_redirecth = False, se_prackh = False, se_self = False, se_rel_seq = 0, se_owner = False,
      se_modify_pending = False, se_established = False, se_peerterm = False, se_rel100_supported = False,
      se_prack_waiting_cnt = 0, se_terminated = 0, se_neg_state = SDP_NEG_NONE\<rparr>"

definition sipsess_alloc :: "senv \<Rightarrow> errno \<Rightarrow> hnd \<Rightarrow> hnd \<Rightarrow> hnd \<Rightarrow> 'u \<Rightarrow> nat \<Rightarrow> (errno \<times> 'u sw) option" where
  "sipsess_alloc e auth_err desch progrh referh user now =
     (let (n, s) = tick \<lparr>sw_sess = None, sw_refs = 0, sw_held = False, sw_user = user, sw_next = 0, sw_now = now, sw_log = []\<rparr>
      in if ev_mem e n = Al_null then Some (ENOMEM, s)
         else
           let s = put_sess (new_sess desch progrh referh) (s\<lparr>sw_refs := 1\<rparr>);
               err = (if auth_err \<noteq> 0 then auth_err else if ev_mem e n = Al_nodup then ENOMEM else OK)
           in if err \<noteq> 0 then do { s \<leftarrow> deref_sess e s; Some (err, s) } else Some (OK, s))"

text \<open>The end of \<open>sipsess_connect\<close> and \<open>sipsess_accept\<close>: the session is given to the user, or destroyed.\<close>

definition hand_over :: "senv \<Rightarrow> errno \<Rightarrow> 'u sw \<Rightarrow> (errno \<times> 'u sw) option" where
  "hand_over e err s =
     (if err \<noteq> 0 then do { s \<leftarrow> deref_sess e s; Some (err, s) } else Some (OK, s\<lparr>sw_held := True\<rparr>))"

text \<open>\<open>prep_err\<close>: printing the headers, allocating the dialog and setting its Call-ID; \<open>rel100\<close>: the headers name 100rel.\<close>

definition sipsess_connect ::
    "senv \<Rightarrow> 'u user \<Rightarrow> errno \<Rightarrow> errno \<Rightarrow> bool \<Rightarrow> hnd \<Rightarrow> 'u \<Rightarrow> nat \<Rightarrow> (errno \<times> 'u sw) option" where
  "sipsess_connect e u auth_err prep_err rel100 referh user now = do {
     (err, s) \<leftarrow> sipsess_alloc e auth_err H_user H_user referh user now;
     if err \<noteq> 0 then Some (err, s)
     else if prep_err \<noteq> 0 then hand_over e prep_err s
     else do {
       se \<leftarrow> sw_sess s;
       (err, s) \<leftarrow> invite e u (put_sess (se\<lparr>se_owner := True, se_rel100_supported := rel100\<rparr>) s);
       hand_over e err s } }"

definition sipsess_accept ::
    "senv \<Rightarrow> errno \<Rightarrow> errno \<Rightarrow> errno \<Rightarrow> u16 \<Rightarrow> rel100_mode \<Rightarrow> nat option \<Rightarrow> hnd \<Rightarrow> sess_msg \<Rightarrow> 'u \<Rightarrow> nat \<Rightarrow> (errno \<times> 'u sw) option" where
  "sipsess_accept e auth_err dlg_err st_err scode rel100 desc referh msg user now =
     (if scode < 101 \<or> scode > 299
      then Some (EINVAL, \<lparr>sw_sess = None, sw_refs = 0, sw_held = False, sw_user = user, sw_next = 0, sw_now = now, sw_log = []\<rparr>)
      else do {
        (err, s) \<leftarrow> sipsess_alloc e auth_err H_null H_null referh user now;
        if err \<noteq> 0 then Some (err, s)
        else if dlg_err \<noteq> 0 then hand_over e dlg_err s
        else do {
          se \<leftarrow> sw_sess s;
          let se = se\<lparr>se_dlg_est := True, se_dlg_rseq := sm_cseq msg, se_msg := Some msg\<rparr>;
          if st_err \<noteq> 0 then hand_over e st_err (put_sess se s)
          else do {
            let s = put_sess (se\<lparr>se_st := True,
                                 se_neg_state := (if sm_body msg > 0 then SDP_NEG_REMOTE_OFFER else SDP_NEG_NONE)\<rparr>) s;
            (err, s) \<leftarrow> (if scode < 200 then sipsess_reply_1xx e msg scode rel100 desc s
                          else sipsess_reply_2xx e msg scode desc s);
            hand_over e err s } } })"

end
