(* ===== verification/Sipsess_Inv.thy ===== *)
theory Sipsess_Inv
  imports Sipsess
begin

text \<open>
  What a session promises to its user, and the invariant behind it.  The locale \<open>sess_user\<close> is the contract of the user:
  its handlers do nothing to the session but call the operations of the interface (\<open>api\<close>), and only those that come last
  may release it (\<open>api_end\<close>).  \<open>ss_step\<close> and \<open>ss_reach\<close> are the runs of a session; \<open>ss_inv\<close> is the invariant, and the
  lemmas show that the operations keep it.  \<open>good s s'\<close>: the operation keeps the invariant and neither ends nor
  establishes the session.
\<close>

section \<open>Results of operations\<close>

text \<open>Every result that the operation can give satisfies \<open>Q\<close>.\<close>

definition gives :: "'a option \<Rightarrow> ('a \<Rightarrow> bool) \<Rightarrow> bool" where
  "gives m Q \<longleftrightarrow> (\<forall>x. m = Some x \<longrightarrow> Q x)"

named_theorems gv \<open>backward rules for the results of operations\<close>

lemma givesD: "gives m Q \<Longrightarrow> m = Some x \<Longrightarrow> Q x"
  by (simp add: gives_def)

lemma gives_conseq: "gives m P \<Longrightarrow> (\<And>x. P x \<Longrightarrow> Q x) \<Longrightarrow> gives m Q"
  by (simp add: gives_def)

lemma gives_bind [gv]: "gives m (\<lambda>x. gives (f x) Q) \<Longrightarrow> gives (m \<bind> f) Q"
  by (cases m) (simp_all add: gives_def)

lemma gives_bindI: "(\<And>x. m = Some x \<Longrightarrow> gives (f x) Q) \<Longrightarrow> gives (m \<bind> f) Q"
  by (cases m) (simp_all add: gives_def)

lemma gives_pairI: "(\<And>x y. m = Some (x, y) \<Longrightarrow> gives (f x y) Q) \<Longrightarrow> gives (m \<bind> (\<lambda>(x, y). f x y)) Q"
  by (cases m) (auto simp: gives_def)

lemma gives_Some [gv]: "Q x \<Longrightarrow> gives (Some x) Q"
  by (simp add: gives_def)

lemma gives_None [gv]: "gives None Q"
  by (simp add: gives_def)

lemma gives_if [gv]: "(b \<Longrightarrow> gives m Q) \<Longrightarrow> (\<not> b \<Longrightarrow> gives n Q) \<Longrightarrow> gives (if b then m else n) Q"
  by simp

lemma gives_prod [gv]: "(\<And>a b. p = (a, b) \<Longrightarrow> gives (f a b) Q) \<Longrightarrow> gives (case p of (a, b) \<Rightarrow> f a b) Q"
  by (cases p) simp

lemma gives_option [gv]:
  "(x = None \<Longrightarrow> gives n Q) \<Longrightarrow> (\<And>y. x = Some y \<Longrightarrow> gives (f y) Q) \<Longrightarrow> gives (case x of None \<Rightarrow> n | Some y \<Rightarrow> f y) Q"
  by (cases x) simp_all

lemma gives_field: "(\<And>y. x = Some y \<Longrightarrow> Q y) \<Longrightarrow> gives x Q"
  by (simp add: gives_def)

lemma gives_arg [gv]:
  "(\<And>r. gives (f r) Q) \<Longrightarrow> (\<And>r. gives (g r) Q) \<Longrightarrow> gives (case arg of A_request r \<Rightarrow> f r | A_prack r \<Rightarrow> g r) Q"
  by (cases arg) simp_all

section \<open>The contract of the user\<close>

definition announced :: "sess_act list \<Rightarrow> bool" where
  "announced xs \<longleftrightarrow> Se_call C_estab \<in> set xs"

text \<open>What a handler may do with a session: call the operations of the interface on a session it holds.\<close>

inductive api :: "senv \<Rightarrow> 'u sw \<Rightarrow> 'u sw \<Rightarrow> bool" for e where
  api_user: "api e s (s\<lparr>sw_user := x\<rparr>)"
| api_answer: "sw_held s \<Longrightarrow> sipsess_answer e c d s = Some (err, s') \<Longrightarrow> api e s s'"
| api_progress: "sw_held s \<Longrightarrow> sipsess_progress e c m d s = Some (err, s') \<Longrightarrow> api e s s'"
| api_reject: "sw_held s \<Longrightarrow> sipsess_reject e c s = Some (err, s') \<Longrightarrow> api e s s'"
| api_modify: "sw_held s \<Longrightarrow> sipsess_modify e d s = Some (err, s') \<Longrightarrow> api e s s'"
| api_info: "sw_held s \<Longrightarrow> sipsess_info e n s = Some (err, s') \<Longrightarrow> api e s s'"
| api_redirect: "sw_held s \<Longrightarrow> sipsess_set_redirect_handler s = Some s' \<Longrightarrow> api e s s'"
| api_sip_reply: "api e s (sip_reply e c s)"
| api_prack: "sw_held s \<Longrightarrow> sipsess_set_prack_handler s = Some s' \<Longrightarrow> api e s s'"

text \<open>Handlers that come last may also release the session, after aborting it while it is not established.\<close>

inductive api_end :: "senv \<Rightarrow> 'u sw \<Rightarrow> 'u sw \<Rightarrow> bool" for e where
  end_api: "api e s s' \<Longrightarrow> api_end e s s'"
| end_release: "sipsess_release e s = Some s' \<Longrightarrow> api_end e s s'"
| end_abort: "sw_held s \<Longrightarrow> \<not> announced (sw_log s) \<Longrightarrow> sipsess_abort e s = Some s1 \<Longrightarrow>
    sipsess_release e (s1\<lparr>sw_user := x\<rparr>) = Some s' \<Longrightarrow> api_end e s s'"

locale sess_user =
  fixes e :: senv and u :: "'u user"
  assumes desc_api: "u_desc u s = Some (err, d, s') \<Longrightarrow> (api e)\<^sup>*\<^sup>* s s'"
    and offer_api: "u_offer u m s = Some (err, d, s') \<Longrightarrow> (api e)\<^sup>*\<^sup>* s s'"
    and answer_api: "u_answer u m s = Some (err, s') \<Longrightarrow> (api e)\<^sup>*\<^sup>* s s'"
    and redirect_api: "u_redirect u m s = Some s' \<Longrightarrow> (api e)\<^sup>*\<^sup>* s s'"
    and prack_api: "u_prack u m s = Some s' \<Longrightarrow> (api e)\<^sup>*\<^sup>* s s'"
    and progr_api: "u_progr u m s = Some s' \<Longrightarrow> (api_end e)\<^sup>*\<^sup>* s s'"
    and estab_api: "u_estab u m s = Some s' \<Longrightarrow> (api_end e)\<^sup>*\<^sup>* s s'"
    and info_api: "u_info u m s = Some s' \<Longrightarrow> (api_end e)\<^sup>*\<^sup>* s s'"
    and refer_api: "u_refer u m s = Some s' \<Longrightarrow> (api_end e)\<^sup>*\<^sup>* s s'"
    and close_api: "u_close u err mo s = Some s' \<Longrightarrow> (api_end e)\<^sup>*\<^sup>* s s'"
    and resp_api: "u_resp u err mo s = Some s' \<Longrightarrow> (api_end e)\<^sup>*\<^sup>* s s'"

section \<open>Runs\<close>

text \<open>What comes from outside: responses, requests of the peer, timers.\<close>

inductive ss_event :: "senv \<Rightarrow> 'u user \<Rightarrow> 'u sw \<Rightarrow> 'u sw \<Rightarrow> bool" for e u where
  step_response: "(\<And>m. msg = Some m \<Longrightarrow> sm_scode m < 200 \<Longrightarrow> err = 0) \<Longrightarrow> sess_response e u err msg s = Some s' \<Longrightarrow> ss_event e u s s'"
| step_sub: "sub_response e u r err msg s = Some s' \<Longrightarrow> ss_event e u s s'"
| step_send: "sw_sess s = Some se \<Longrightarrow> se_req se = Some (R_INVITE, req) \<Longrightarrow> send_handler_invite e u s = Some (err, s') \<Longrightarrow>
    ss_event e u s s'"
| step_request: "sess_request_handler e u msg s = Some (b, s') \<Longrightarrow> ss_event e u s s'"
| step_cancel: "sw_sess s = Some se \<Longrightarrow> se_st se \<Longrightarrow> sess_cancel_handler e u s = Some s' \<Longrightarrow> ss_event e u s s'"
| step_tmr: "sw_sess s = Some se \<Longrightarrow> se_tmr se = Some t \<Longrightarrow> t \<le> sw_now s \<Longrightarrow>
    modify_tmr_handler e (put_sess (se\<lparr>se_tmr := None\<rparr>) s) = Some s' \<Longrightarrow> ss_event e u s s'"
| step_reply_tmr: "sw_sess s = Some se \<Longrightarrow> r \<in> set (se_replyl se) \<Longrightarrow> sr_tmr r = Some t \<Longrightarrow> t \<le> sw_now s \<Longrightarrow>
    reply_tmr_handler e u r s = Some s' \<Longrightarrow> ss_event e u s s'"
| step_retransmit: "sw_sess s = Some se \<Longrightarrow> r \<in> set (se_replyl se) \<Longrightarrow> sr_tmrg r = Some t \<Longrightarrow> t \<le> sw_now s \<Longrightarrow>
    retransmit_handler_reply e r s = Some s' \<Longrightarrow> ss_event e u s s'"
| step_request_tmr: "sw_sess s = Some se \<Longrightarrow> rq \<in> set (se_requestl se) \<Longrightarrow> rq_tmr rq = Some (t, arg) \<Longrightarrow> t \<le> sw_now s \<Longrightarrow>
    request_tmr e rq s = Some s' \<Longrightarrow> ss_event e u s s'"
| step_time: "sw_now s \<le> now \<Longrightarrow> ss_event e u s (s\<lparr>sw_now := now\<rparr>)"

inductive ss_step :: "senv \<Rightarrow> 'u user \<Rightarrow> 'u sw \<Rightarrow> 'u sw \<Rightarrow> bool" for e u where
  step_user: "api_end e s s' \<Longrightarrow> ss_step e u s s'"
| step_event: "ss_event e u s s' \<Longrightarrow> ss_step e u s s'"

inductive ss_reach :: "senv \<Rightarrow> 'u user \<Rightarrow> 'u sw \<Rightarrow> bool" for e u where
  reach_connect: "sipsess_connect e u auth_err prep_err rel100 referh user now = Some (OK, s) \<Longrightarrow> ss_reach e u s"
| reach_accept: "sipsess_accept e auth_err dlg_err st_err scode rel100 desc referh msg user now = Some (OK, s) \<Longrightarrow> ss_reach e u s"
| reach_step: "ss_reach e u s \<Longrightarrow> ss_step e u s s' \<Longrightarrow> ss_reach e u s'"

section \<open>The invariant\<close>

text \<open>The session was closed or released.\<close>

definition ended :: "sess_act list \<Rightarrow> bool" where
  "ended xs \<longleftrightarrow> Se_drop \<in> set xs \<or> (\<exists>err. Se_call (C_close err) \<in> set xs)"

text \<open>No handler is called after the end, and none reports progress or establishment twice.\<close>

definition orderly :: "sess_act list \<Rightarrow> bool" where
  "orderly xs \<longleftrightarrow> (\<forall>ys h zs. xs = ys @ Se_call h # zs \<longrightarrow> \<not> ended ys \<and> (h = C_progr \<or> h = C_estab \<longrightarrow> \<not> announced ys))"

text \<open>A reason for which no BYE is due: the peer has ended the session, or a BYE was started.\<close>

definition excused :: "sess_act list \<Rightarrow> bool" where
  "excused xs \<longleftrightarrow> Se_peerterm \<in> set xs \<or> (\<exists>err. Se_req R_BYE err \<in> set xs)"

definition silent :: "sipsess \<Rightarrow> bool" where
  "silent se \<longleftrightarrow> se_desch se = H_null \<and> se_offerh se = H_internal \<and> se_answerh se = H_internal \<and> se_progrh se = H_internal \<and>
     se_estabh se = H_internal \<and> se_infoh se = H_null \<and> se_referh se = H_null \<and> se_closeh se = H_internal \<and> se_self se \<and>
     se_tmr se = None \<and> \<not> se_st se"

definition req_of :: "sipsess \<Rightarrow> req_met option" where
  "req_of se = map_option fst (se_req se)"

text \<open>A terminated session with a re-INVITE under way has a reference for it, and one for each of the user, the other requests
  and the replies.\<close>

definition counted :: "sipsess \<Rightarrow> nat \<Rightarrow> bool \<Rightarrow> bool" where
  "counted se refs held \<longleftrightarrow>
     refs \<ge> 1 + of_bool held + of_bool (se_requestl se \<noteq> []) + of_bool (se_replyl se \<noteq> [])"

definition sess_ok :: "sipsess \<Rightarrow> nat \<Rightarrow> bool \<Rightarrow> sess_act list \<Rightarrow> bool" where
  "sess_ok se refs held log \<longleftrightarrow>
     se_terminated se \<le> 2 \<and>
     (se_terminated se = 0 \<longrightarrow> refs = 1 \<and> \<not> ended log \<and> req_of se \<noteq> Some R_BYE) \<and>
     (se_terminated se = 1 \<longrightarrow> req_of se \<noteq> Some R_BYE \<and> (req_of se = Some R_REINVITE \<longrightarrow> counted se refs held)) \<and>
     (se_terminated se = 2 \<and> announced log \<longrightarrow> excused log) \<and>
     (se_terminated se \<noteq> 0 \<longrightarrow> silent se) \<and>
     (req_of se = Some R_INVITE \<longrightarrow> \<not> se_established se \<and> se_replyl se = [] \<and> \<not> se_st se) \<and>
     (announced log \<longrightarrow> se_established se) \<and>
     (se_peerterm se \<longrightarrow> Se_peerterm \<in> set log)"

definition ss_inv :: "'u sw \<Rightarrow> bool" where
  "ss_inv s \<longleftrightarrow> orderly (sw_log s) \<and>
     (case sw_sess s of
        None \<Rightarrow> announced (sw_log s) \<longrightarrow> excused (sw_log s)
      | Some se \<Rightarrow> sess_ok se (sw_refs s) (sw_held s) (sw_log s))"

lemma orderly_Nil [simp]: "orderly []"
  by (simp add: orderly_def)

lemma ended_append [simp]: "ended (xs @ ys) \<longleftrightarrow> ended xs \<or> ended ys"
  by (auto simp: ended_def)

lemma ended_single [simp]: "ended [x] \<longleftrightarrow> x = Se_drop \<or> (\<exists>err. x = Se_call (C_close err))" "\<not> ended []"
  by (auto simp: ended_def)

lemma announced_append [simp]: "announced (xs @ ys) \<longleftrightarrow> announced xs \<or> announced ys" "announced [x] \<longleftrightarrow> x = Se_call C_estab" "\<not> announced []"
  by (auto simp: announced_def)

lemma excused_append [simp]:
  "excused (xs @ ys) \<longleftrightarrow> excused xs \<or> excused ys" "excused [x] \<longleftrightarrow> x = Se_peerterm \<or> (\<exists>err. x = Se_req R_BYE err)" "\<not> excused []"
  by (auto simp: excused_def)

lemma orderly_append:
  "orderly (xs @ [x]) \<longleftrightarrow> orderly xs \<and> ((\<exists>h. x = Se_call h) \<longrightarrow> \<not> ended xs) \<and> (x = Se_call C_progr \<or> x = Se_call C_estab \<longrightarrow> \<not> announced xs)"
proof
  assume q: "orderly (xs @ [x])"
  have "orderly xs" unfolding orderly_def using q unfolding orderly_def by (metis append.assoc append_Cons)
  then show "orderly xs \<and> ((\<exists>h. x = Se_call h) \<longrightarrow> \<not> ended xs) \<and> (x = Se_call C_progr \<or> x = Se_call C_estab \<longrightarrow> \<not> announced xs)"
    using q by (auto simp: orderly_def)
next
  assume a: "orderly xs \<and> ((\<exists>h. x = Se_call h) \<longrightarrow> \<not> ended xs) \<and> (x = Se_call C_progr \<or> x = Se_call C_estab \<longrightarrow> \<not> announced xs)"
  have "\<not> ended ys \<and> (h = C_progr \<or> h = C_estab \<longrightarrow> \<not> announced ys)" if "xs @ [x] = ys @ Se_call h # zs" for ys h zs
  proof (cases zs rule: rev_cases)
    case Nil
    then show ?thesis using that a by auto
  next
    case (snoc zs' z)
    then have "xs = ys @ Se_call h # zs'" using that by simp
    then show ?thesis using a unfolding orderly_def by blast
  qed
  then show "orderly (xs @ [x])" by (auto simp: orderly_def)
qed

subsection \<open>Fields\<close>

lemma sw_simps [simp]:
  "sw_sess (say x s) = sw_sess s" "sw_refs (say x s) = sw_refs s" "sw_held (say x s) = sw_held s" "sw_now (say x s) = sw_now s"
  "sw_log (say x s) = sw_log s @ [x]" "sw_user (say x s) = sw_user s" "sw_next (say x s) = sw_next s"
  "sw_sess (put_sess se s) = Some se" "sw_refs (put_sess se s) = sw_refs s" "sw_held (put_sess se s) = sw_held s"
  "sw_now (put_sess se s) = sw_now s" "sw_log (put_sess se s) = sw_log s" "sw_user (put_sess se s) = sw_user s"
  "sw_next (put_sess se s) = sw_next s"
  "sw_sess (ref_sess s) = sw_sess s" "sw_refs (ref_sess s) = sw_refs s + 1" "sw_held (ref_sess s) = sw_held s"
  "sw_log (ref_sess s) = sw_log s" "sw_now (ref_sess s) = sw_now s" "sw_user (ref_sess s) = sw_user s" "sw_next (ref_sess s) = sw_next s"
  by (simp_all add: say_def put_sess_def ref_sess_def)

lemma tick_eq [simp]: "tick s = (sw_next s, s\<lparr>sw_next := sw_next s + 1\<rparr>)"
  by (simp add: tick_def)

lemma req_of_simps [simp]:
  "req_of (se\<lparr>se_tmr := x0\<rparr>) = req_of se" "req_of (se\<lparr>se_replyl := x1\<rparr>) = req_of se"
  "req_of (se\<lparr>se_requestl := x2\<rparr>) = req_of se" "req_of (se\<lparr>se_ls := x3\<rparr>) = req_of se"
  "req_of (se\<lparr>se_msg := x4\<rparr>) = req_of se" "req_of (se\<lparr>se_dlg_est := x5\<rparr>) = req_of se"
  "req_of (se\<lparr>se_dlg_rseq := x6\<rparr>) = req_of se" "req_of (se\<lparr>se_st := x7\<rparr>) = req_of se"
  "req_of (se\<lparr>se_desc := x8\<rparr>) = req_of se" "req_of (se\<lparr>se_redirecth := x9\<rparr>) = req_of se"
  "req_of (se\<lparr>se_prackh := x10\<rparr>) = req_of se" "req_of (se\<lparr>se_rel_seq := x11\<rparr>) = req_of se"
  "req_of (se\<lparr>se_owner := x12\<rparr>) = req_of se" "req_of (se\<lparr>se_modify_pending := x13\<rparr>) = req_of se"
  "req_of (se\<lparr>se_established := x14\<rparr>) = req_of se" "req_of (se\<lparr>se_peerterm := x15\<rparr>) = req_of se"
  "req_of (se\<lparr>se_rel100_supported := x16\<rparr>) = req_of se" "req_of (se\<lparr>se_prack_waiting_cnt := x17\<rparr>) = req_of se"
  "req_of (se\<lparr>se_terminated := x18\<rparr>) = req_of se" "req_of (se\<lparr>se_neg_state := x19\<rparr>) = req_of se"
  "req_of (se\<lparr>se_req := q\<rparr>) = map_option fst q"
  by (simp_all add: req_of_def)

text \<open>The fields that the invariant does not read.\<close>

lemma sess_ok_upd [simp]:
  "sess_ok (se\<lparr>se_desc := x1\<rparr>) r h l = sess_ok se r h l" "sess_ok (se\<lparr>se_ls := x2\<rparr>) r h l = sess_ok se r h l"
  "sess_ok (se\<lparr>se_msg := x3\<rparr>) r h l = sess_ok se r h l" "sess_ok (se\<lparr>se_modify_pending := x4\<rparr>) r h l = sess_ok se r h l"
  "sess_ok (se\<lparr>se_dlg_est := x5\<rparr>) r h l = sess_ok se r h l" "sess_ok (se\<lparr>se_dlg_rseq := x6\<rparr>) r h l = sess_ok se r h l"
  "sess_ok (se\<lparr>se_rel_seq := x7\<rparr>) r h l = sess_ok se r h l" "sess_ok (se\<lparr>se_owner := x8\<rparr>) r h l = sess_ok se r h l"
  "sess_ok (se\<lparr>se_prack_waiting_cnt := x9\<rparr>) r h l = sess_ok se r h l" "sess_ok (se\<lparr>se_neg_state := x10\<rparr>) r h l = sess_ok se r h l"
  "sess_ok (se\<lparr>se_redirecth := x11\<rparr>) r h l = sess_ok se r h l" "sess_ok (se\<lparr>se_prackh := x12\<rparr>) r h l = sess_ok se r h l"
  "sess_ok (se\<lparr>se_rel100_supported := x13\<rparr>) r h l = sess_ok se r h l" "sess_ok (se\<lparr>se_desc := x14\<rparr>) r h l = sess_ok se r h l"
  by (simp_all add: sess_ok_def silent_def req_of_def counted_def)

lemma sess_ok_like:
  assumes "sess_ok se r h l" "se_terminated se' = se_terminated se" "req_of se' = req_of se"
    "se_established se' = se_established se" "se_peerterm se' = se_peerterm se" "se_st se' \<longrightarrow> se_st se"
    "se_terminated se \<noteq> 0 \<Longrightarrow> silent se \<Longrightarrow> silent se'"
    "se_replyl se' = [] \<or> se_replyl se \<noteq> []" "se_requestl se' = [] \<or> se_requestl se \<noteq> []"
  shows "sess_ok se' r h l"
proof -
  have "counted se' r h" if "counted se r h"
    using that assms(8,9) by (cases "se_replyl se' = []"; cases "se_requestl se' = []") (simp_all add: counted_def)
  then show ?thesis using assms unfolding sess_ok_def by simp blast
qed

lemma sess_ok_tmr: "sess_ok se r h l \<Longrightarrow> x = None \<or> se_terminated se = 0 \<Longrightarrow> sess_ok (se\<lparr>se_tmr := x\<rparr>) r h l"
  by (erule sess_ok_like) (auto simp: silent_def req_of_def)

lemma sess_ok_st: "sess_ok se r h l \<Longrightarrow> sess_ok (se\<lparr>se_st := False\<rparr>) r h l"
  by (erule sess_ok_like) (auto simp: silent_def req_of_def)

text \<open>A list of requests or replies may shrink, and change its elements.\<close>

lemma sess_ok_requestl: "sess_ok se r h l \<Longrightarrow> xs = [] \<or> se_requestl se \<noteq> [] \<Longrightarrow> sess_ok (se\<lparr>se_requestl := xs\<rparr>) r h l"
  by (erule sess_ok_like) (auto simp: silent_def req_of_def)

lemma sess_ok_replyl: "sess_ok se r h l \<Longrightarrow> xs = [] \<or> se_replyl se \<noteq> [] \<Longrightarrow> sess_ok (se\<lparr>se_replyl := xs\<rparr>) r h l"
  by (erule sess_ok_like) (auto simp: silent_def req_of_def)

lemma sess_ok_say:
  "sess_ok se r h l \<Longrightarrow> (\<And>c. x \<noteq> Se_call c) \<Longrightarrow> x \<noteq> Se_drop \<Longrightarrow> sess_ok se r h (l @ [x])"
  by (auto simp: sess_ok_def)

lemma ss_inv_Some: "ss_inv s \<Longrightarrow> sw_sess s = Some se \<Longrightarrow> sess_ok se (sw_refs s) (sw_held s) (sw_log s)"
  by (simp add: ss_inv_def)

lemma ss_inv_put: "ss_inv s \<Longrightarrow> sess_ok se (sw_refs s) (sw_held s) (sw_log s) \<Longrightarrow> ss_inv (put_sess se s)"
  by (simp add: ss_inv_def)

lemma ss_inv_say: "ss_inv s \<Longrightarrow> (\<And>c. x \<noteq> Se_call c) \<Longrightarrow> x \<noteq> Se_drop \<Longrightarrow> ss_inv (say x s)"
  by (auto simp: ss_inv_def orderly_append split: option.splits intro: sess_ok_say)

lemma ss_inv_next [simp]:
  "ss_inv (s\<lparr>sw_next := n\<rparr>) = ss_inv s" "ss_inv (s\<lparr>sw_user := x\<rparr>) = ss_inv s" "ss_inv (s\<lparr>sw_now := t\<rparr>) = ss_inv s"
  by (simp_all add: ss_inv_def cong: option.case_cong)

text \<open>A handler of the user is called only while the session is alive.\<close>

lemma sess_ok_call:
  "sess_ok se r h l \<Longrightarrow> se_terminated se = 0 \<Longrightarrow> c \<noteq> C_estab \<or> se_established se \<Longrightarrow> (\<And>err. c \<noteq> C_close err) \<Longrightarrow>
   sess_ok se r h (l @ [Se_call c])"
  by (auto simp: sess_ok_def)

lemma ss_inv_call:
  "ss_inv s \<Longrightarrow> sw_sess s = Some se \<Longrightarrow> se_terminated se = 0 \<Longrightarrow> c \<noteq> C_estab \<or> se_established se \<Longrightarrow>
   (\<And>err. c \<noteq> C_close err) \<Longrightarrow> (c = C_progr \<or> c = C_estab \<Longrightarrow> \<not> announced (sw_log s)) \<Longrightarrow> ss_inv (say (Se_call c) s)"
  by (auto simp: ss_inv_def orderly_append sess_ok_def)

lemma live_handlers: "sess_ok se r h l \<Longrightarrow> \<not> silent se \<Longrightarrow> se_terminated se = 0"
  by (auto simp: sess_ok_def)

section \<open>Operations keep the invariant\<close>

text \<open>What the operations of the interface and the handlers that do not release keep.\<close>

definition keeps :: "'u sw \<Rightarrow> 'u sw \<Rightarrow> bool" where
  "keeps s s' \<longleftrightarrow> (\<forall>se. sw_sess s = Some se \<longrightarrow>
     (\<exists>se'. sw_sess s' = Some se' \<and> se_terminated se' = se_terminated se \<and> se_established se' = se_established se \<and>
            (req_of se' = Some R_INVITE \<longrightarrow> req_of se = Some R_INVITE)))"

definition good :: "'u sw \<Rightarrow> 'u sw \<Rightarrow> bool" where
  "good s s' \<longleftrightarrow> ss_inv s' \<and> keeps s s'"

lemma keepsI: "sw_sess s = Some se \<Longrightarrow> sw_sess s' = Some se' \<Longrightarrow> se_terminated se' = se_terminated se \<Longrightarrow>
    se_established se' = se_established se \<Longrightarrow> (req_of se' = Some R_INVITE \<Longrightarrow> req_of se = Some R_INVITE) \<Longrightarrow> keeps s s'"
  by (simp add: keeps_def)

lemma keeps_refl [simp]: "keeps s s" "keeps s (s\<lparr>sw_user := x\<rparr>)" "keeps s (s\<lparr>sw_next := n\<rparr>)" "keeps s (say a s)"
  by (auto simp: keeps_def)

lemma keeps_trans: "keeps s t \<Longrightarrow> keeps t v \<Longrightarrow> keeps s v"
  unfolding keeps_def by (metis (no_types, lifting))

lemma good_trans: "good s t \<Longrightarrow> keeps r s \<Longrightarrow> good r t"
  using keeps_trans by (auto simp: good_def)

lemma st_reply_inv:
  assumes "ss_inv s" "sw_sess s = Some se" "scode < 200 \<Longrightarrow> se_st se"
  shows "gives (st_reply e scode s) (\<lambda>(err, s'). ss_inv s' \<and> sw_refs s' = sw_refs s \<and> sw_held s' = sw_held s \<and>
     (sw_log s' = sw_log s \<or> sw_log s' = sw_log s @ [Se_reply scode]) \<and>
     sw_sess s' = Some (se\<lparr>se_st := err = 0 \<and> scode < 200\<rparr>))"
proof -
  have ok: "sess_ok se (sw_refs s) (sw_held s) (sw_log s)" using ss_inv_Some [OF assms(1,2)] .
  have "sess_ok (se\<lparr>se_st := b \<and> scode < 200\<rparr>) (sw_refs s) (sw_held s) (sw_log s)" for b
    using sess_ok_like [OF ok, of "se\<lparr>se_st := b \<and> scode < 200\<rparr>"] assms(3)
    by (auto simp: req_of_def silent_def)
  then have "ss_inv (put_sess (se\<lparr>se_st := b \<and> scode < 200\<rparr>) s)" for b using ss_inv_put [OF assms(1)] by blast
  then have "ss_inv (put_sess (se\<lparr>se_st := b \<and> scode < 200\<rparr>) (s\<lparr>sw_next := n\<rparr>))" for b n
    by (simp add: put_sess_def ss_inv_def cong: option.case_cong)
  note this [of True, simplified] this [of False, simplified]
  then show ?thesis using assms(2) by (auto simp: st_reply_def gives_def Let_def intro!: ss_inv_say)
qed

lemma free_reply_good: "ss_inv s \<Longrightarrow> good s (snd (free_reply e c s))"
  by (auto simp: free_reply_def Let_def good_def intro!: ss_inv_say keeps_trans [OF keeps_refl(3,4)])

lemma free_reply_inv: "free_reply e c s = (err, s') \<Longrightarrow> ss_inv s \<Longrightarrow> good s s'"
  using free_reply_good [of s e c] by simp

lemma sip_reply_inv: "ss_inv s \<Longrightarrow> ss_inv (sip_reply e c s)"
  using free_reply_good [of s e c] by (simp add: sip_reply_def good_def)

lemma sip_reply_sess [simp]:
  "sw_sess (sip_reply e c s) = sw_sess s" "sw_refs (sip_reply e c s) = sw_refs s" "sw_held (sip_reply e c s) = sw_held s"
  by (simp_all add: sip_reply_def free_reply_def Let_def)

lemma ack_good: "sipsess_ack e s = (err, s') \<Longrightarrow> ss_inv s \<Longrightarrow> good s s' \<and> sw_sess s' = sw_sess s"
  by (auto simp: sipsess_ack_def Let_def good_def intro!: ss_inv_say keeps_trans [OF keeps_refl(3,4)] split: if_splits)

lemma drequest_cases:
  assumes "sw_sess s = Some se"
  shows "gives (drequest e k s) (\<lambda>(err, s'). sw_refs s' = sw_refs s \<and> sw_held s' = sw_held s \<and>
     sw_log s' = sw_log s @ [Se_req k err] \<and>
     (if err = 0 then sw_sess s' = Some (se\<lparr>se_req := Some (k, new_req)\<rparr>)
      else sw_sess s' = Some se \<or> sw_sess s' = Some (se\<lparr>se_req := None\<rparr>)))"
  using assms by (auto simp: drequest_def gives_def nz_def Let_def split: dreq_res.splits)

text \<open>A request of the session that was started while none was under way.\<close>

lemma started_ok:
  assumes "sess_ok se r h l" "se_req se = None" "se_terminated se = 0" "k \<noteq> R_BYE" "k = R_INVITE \<Longrightarrow> \<not> se_established se \<and> se_replyl se = [] \<and> \<not> se_st se"
  shows "sess_ok (se\<lparr>se_req := Some (k, q)\<rparr>) r h (l @ [Se_req k err])"
  using assms by (auto simp: sess_ok_def req_of_def)

lemma reinvite_good:
  assumes i: "ss_inv s" and se: "sw_sess s = Some se" and t: "se_terminated se = 0"
  shows "gives (sipsess_reinvite e b s) (\<lambda>(err, s'). good s s')"
proof (cases "se_req se")
  case (Some q)
  then show ?thesis using i se by (simp add: sipsess_reinvite_def gives_def good_def)
next
  case None
  define se1 where "se1 = (if b then se\<lparr>se_ls := sip_loopstate_reset (se_ls se)\<rparr> else se)"
  define s1 where "s1 = (if b then put_sess se1 s else s)"
  have s1: "sw_sess s1 = Some se1" "sw_refs s1 = sw_refs s" "sw_held s1 = sw_held s" "sw_log s1 = sw_log s"
    using se by (simp_all add: s1_def se1_def)
  have ok: "sess_ok se1 (sw_refs s) (sw_held s) (sw_log s)" "se_req se1 = None" "se_terminated se1 = 0"
    "se_established se1 = se_established se"
    using ss_inv_Some [OF i se] None t by (simp_all add: se1_def)
  have q: "orderly (sw_log s)" using i by (simp add: ss_inv_def)
  have "good s s'" if d: "drequest e R_REINVITE s1 = Some (err, s2)"
    and s': "s' = (if err \<noteq> 0 then s2 else put_sess (if se_desc se2 \<noteq> None then se2\<lparr>se_modify_pending := False, se_neg_state := SDP_NEG_LOCAL_OFFER\<rparr>
                                 else se2\<lparr>se_modify_pending := False\<rparr>) s2)" "sw_sess s2 = Some se2" for err s2 se2 s'
  proof -
    have c: "sw_refs s2 = sw_refs s" "sw_held s2 = sw_held s" "sw_log s2 = sw_log s @ [Se_req R_REINVITE err]"
      "if err = 0 then se2 = se1\<lparr>se_req := Some (R_REINVITE, new_req)\<rparr> else se2 = se1"
      using givesD [OF drequest_cases [OF s1(1)] d] s1 ok(2) s'(2) by (auto split: if_splits)
    have k: "sess_ok se2 (sw_refs s) (sw_held s) (sw_log s2)"
      using c started_ok [OF ok(1-3), of R_REINVITE new_req err] sess_ok_say [OF ok(1), of "Se_req R_REINVITE err"]
      by (auto split: if_splits)
    then have "ss_inv s2" using c q s'(2) by (simp add: ss_inv_def orderly_append)
    moreover have "se_terminated se2 = 0" "se_established se2 = se_established se" "req_of se2 \<noteq> Some R_INVITE"
      using c(4) ok by (auto split: if_splits simp: req_of_def)
    ultimately show ?thesis using s' k c(1,2) se t
      by (auto simp: good_def keeps_def req_of_def intro!: ss_inv_put)
  qed
  then show ?thesis using None se s1(1)
    by (auto simp: sipsess_reinvite_def gives_def s1_def se1_def Let_def split: bind_splits)
qed

lemma ss_inv_tick: "ss_inv s \<Longrightarrow> ss_inv (s\<lparr>sw_next := n\<rparr>)"
  by simp

lemma goodI:
  assumes "ss_inv s" "sw_sess s = Some se" "orderly (sw_log s')" "sw_sess s' = Some se'"
    "sess_ok se' (sw_refs s') (sw_held s') (sw_log s')" "se_terminated se' = se_terminated se"
    "se_established se' = se_established se" "req_of se' = Some R_INVITE \<Longrightarrow> req_of se = Some R_INVITE"
  shows "good s s'"
  using assms by (simp add: good_def ss_inv_def keeps_def)

text \<open>An update of fields that the invariant does not read, or of the lists of a session that is not terminated.\<close>

lemma good_put:
  assumes "ss_inv s" "sw_sess s = Some se" "sess_ok se' (sw_refs s) (sw_held s) (sw_log s)" "se_terminated se' = se_terminated se"
    "se_established se' = se_established se" "req_of se' = Some R_INVITE \<Longrightarrow> req_of se = Some R_INVITE"
  shows "good s (put_sess se' s)"
  using goodI [of s se "put_sess se' s" se'] assms by (simp add: ss_inv_def)

lemma good_put_next:
  assumes "ss_inv s" "sw_sess s = Some se" "sess_ok se' (sw_refs s) (sw_held s) (sw_log s)" "se_terminated se' = se_terminated se"
    "se_established se' = se_established se" "req_of se' = Some R_INVITE \<Longrightarrow> req_of se = Some R_INVITE"
  shows "good s (put_sess se' (s\<lparr>sw_next := n\<rparr>))"
  using goodI [of s se "put_sess se' (s\<lparr>sw_next := n\<rparr>)" se'] assms by (simp add: ss_inv_def)

lemma sess_ok_alive:
  "sess_ok se r h l \<Longrightarrow> se_terminated se = 0 \<Longrightarrow> se_terminated se' = 0 \<Longrightarrow> req_of se' = req_of se \<Longrightarrow>
   se_established se' = se_established se \<Longrightarrow> se_peerterm se' = se_peerterm se \<Longrightarrow>
   (req_of se = Some R_INVITE \<Longrightarrow> se_replyl se' = [] \<and> \<not> se_st se') \<Longrightarrow> sess_ok se' r h l"
  by (simp add: sess_ok_def)

text \<open>What follows a reply through the server transaction of a live session.\<close>

lemma st_reply_then:
  assumes i: "ss_inv s" and se: "sw_sess s = Some se" and t: "se_terminated se = 0" "req_of se \<noteq> Some R_INVITE"
    and c: "scode < 200 \<Longrightarrow> se_st se" and r: "st_reply e scode s = Some (err, s')" "sw_sess s' = Some se2"
    and se': "se_terminated se' = se_terminated se2" "req_of se' = req_of se2" "se_established se' = se_established se2"
        "se_peerterm se' = se_peerterm se2"
  shows "good s (put_sess se' s')"
proof -
  obtain x where a: "ss_inv s'" "sw_sess s' = Some (se\<lparr>se_st := x\<rparr>)"
    using givesD [OF st_reply_inv r(1), of se] i se c by auto
  then have s2: "se2 = se\<lparr>se_st := x\<rparr>" using r(2) by simp
  have "good s' (put_sess se' s')"
    using good_put [OF a(1,2), of se'] sess_ok_alive [OF ss_inv_Some [OF a], of se'] se' t s2 by simp
  moreover have "keeps s s'" using a(2) se by (simp add: keeps_def)
  ultimately show ?thesis by (rule good_trans)
qed

lemma st_reply_good:
  "ss_inv s \<Longrightarrow> sw_sess s = Some se \<Longrightarrow> (scode < 200 \<Longrightarrow> se_st se) \<Longrightarrow> gives (st_reply e scode s) (\<lambda>(err, s'). good s s')"
  using st_reply_inv [of s se scode e] by (fastforce simp: gives_def good_def keeps_def)

lemma reply_2xx_good:
  assumes i: "ss_inv s" and se: "sw_sess s = Some se" and c: "scode \<ge> 200"
    and m: "sm_met msg = ''PRACK'' \<or> sm_met msg = ''UPDATE'' \<or> se_terminated se = 0 \<and> req_of se \<noteq> Some R_INVITE"
  shows "gives (sipsess_reply_2xx e msg scode desc s) (\<lambda>(err, s'). good s s')"
proof (cases "sm_met msg = ''PRACK'' \<or> sm_met msg = ''UPDATE''")
  case True
  obtain err s' where f: "free_reply e scode s = (err, s')" by force
  have g: "good s s'" "sw_sess s' = Some se" "ss_inv s'"
    using free_reply_inv [OF f i] f se by (auto simp: free_reply_def Let_def good_def)
  have "good s (put_sess (se\<lparr>se_neg_state := x\<rparr>) s')" for x
  proof -
    have "good s' (put_sess (se\<lparr>se_neg_state := x\<rparr>) s')"
      by (rule good_put [OF g(3,2)]) (use ss_inv_Some [OF g(3,2)] in \<open>simp_all\<close>)
    then show ?thesis using g(1) by (auto simp: good_def intro: keeps_trans)
  qed
  then show ?thesis using True f g(1) se by (auto simp: sipsess_reply_2xx_def gives_def Let_def split: if_splits)
next
  case False
  have t: "se_terminated se = 0" "req_of se \<noteq> Some R_INVITE" using m False by auto
  have ok: "sess_ok se (sw_refs s) (sw_held s) (sw_log s)" using ss_inv_Some [OF i se] .
  have drop: "good s (put_sess (se\<lparr>se_st := False\<rparr>) (s\<lparr>sw_next := n\<rparr>))" for n
    using i se sess_ok_st [OF ok] by (intro good_put_next) (simp_all)
  have rest: "good s (put_sess se' s')"
    if r: "st_reply e scode (s\<lparr>sw_next := n\<rparr>) = Some (err, s')" "sw_sess s' = Some se2"
      and se': "se_terminated se' = se_terminated se2" "req_of se' = req_of se2" "se_established se' = se_established se2"
        "se_peerterm se' = se_peerterm se2" for n err s' se2 se'
  proof -
    have "good (s\<lparr>sw_next := n\<rparr>) (put_sess se' s')"
      by (rule st_reply_then [OF _ _ t _ r se']) (use i se c in \<open>simp_all add: word_less_nat_alt word_le_nat_alt\<close>)
    then show ?thesis by (rule good_trans) simp
  qed
  have x: "gives (do { (err, s) \<leftarrow> st_reply e scode (s\<lparr>sw_next := n\<rparr>);
                 se \<leftarrow> sw_sess s;
                 if err \<noteq> 0 then Some (err, put_sess (se\<lparr>se_st := False\<rparr>) s)
                 else
                   let se = se\<lparr>se_replyl := map cancel_1xx_timers (se_replyl se) @
                                            [start_timers (sw_now s) (cancel_1xx_timers (new_reply k msg scode))]\<rparr>;
                       se = (if b then se\<lparr>se_neg_state := x\<rparr> else se)
                   in Some (OK, put_sess se s) }) (\<lambda>(err, s'). good s s')" for n k b x
    by (intro gv gives_field | simp add: gives_def Let_def rest)+
       (auto simp: gives_def Let_def bind_eq_Some_conv intro!: rest split: if_splits)
  show ?thesis using False se i drop x [of _ _ "left (if se_neg_state se = SDP_NEG_DONE then None else desc) > 0"
        "if sm_body msg > 0 then SDP_NEG_DONE else SDP_NEG_LOCAL_OFFER"]
    by (auto simp: sipsess_reply_2xx_def Let_def good_def intro!: gv split: if_splits)
qed

lemma reply_1xx_good:
  assumes i: "ss_inv s" and se: "sw_sess s = Some se" and t: "se_terminated se = 0" "req_of se \<noteq> Some R_INVITE" and st: "se_st se"
  shows "gives (sipsess_reply_1xx e msg scode rel100 desc s) (\<lambda>(err, s'). good s s')"
proof -
  have ok: "sess_ok se (sw_refs s) (sw_held s) (sw_log s)" using ss_inv_Some [OF i se] .
  have drop: "good s (put_sess (se\<lparr>se_st := False\<rparr>) (s\<lparr>sw_next := n\<rparr>))" for n
    using i se sess_ok_st [OF ok] by (intro good_put_next) simp_all
  have reply: "good s s'" if "st_reply e c s = Some (err, s')" for c err s'
    using givesD [OF st_reply_good that, of se] i se st by simp
  have rest: "good s (put_sess se' s')"
    if r: "st_reply e scode (put_sess (se\<lparr>se_rel_seq := x\<rparr>) (s\<lparr>sw_next := n\<rparr>)) = Some (err, s')" "sw_sess s' = Some se2"
      and se': "se_terminated se' = se_terminated se2" "req_of se' = req_of se2" "se_established se' = se_established se2"
        "se_peerterm se' = se_peerterm se2" for x n err s' se2 se'
  proof -
    let ?s = "put_sess (se\<lparr>se_rel_seq := x\<rparr>) (s\<lparr>sw_next := n\<rparr>)"
    have g: "good s ?s" using i se ok by (intro good_put_next) simp_all
    then have "good ?s (put_sess se' s')"
      using st_reply_then [OF _ _ _ _ _ r se'] t st by (simp add: good_def)
    then show ?thesis by (rule good_trans) (use g in \<open>simp add: good_def\<close>)
  qed
  have keep: "good s s'" if "st_reply e scode (put_sess (se\<lparr>se_rel_seq := x\<rparr>) (s\<lparr>sw_next := n\<rparr>)) = Some (err, s')" for x n err s'
  proof -
    let ?s = "put_sess (se\<lparr>se_rel_seq := x\<rparr>) (s\<lparr>sw_next := n\<rparr>)"
    have g: "good s ?s" using i se ok by (intro good_put_next) simp_all
    then have "good ?s s'" using givesD [OF st_reply_good that] st by (simp add: good_def)
    then show ?thesis by (rule good_trans) (use g in \<open>simp add: good_def\<close>)
  qed
  have fin: "gives (do {
        (err, s) \<leftarrow> st_reply e scode (put_sess (se\<lparr>se_rel_seq := x\<rparr>) (s\<lparr>sw_next := n\<rparr>));
        se \<leftarrow> sw_sess s;
        if err \<noteq> 0 then Some (err, put_sess (se\<lparr>se_st := False\<rparr>) s)
        else if b then
          (let r = start_timers (sw_now s) (new_reply k msg scode\<lparr>sr_rel_seq := se_rel_seq se\<rparr>)
           in Some (OK, put_sess
                (if d \<noteq> None
                 then se\<lparr>se_prack_waiting_cnt := se_prack_waiting_cnt se + 1,
                         se_replyl := se_replyl se @ [r\<lparr>sr_awaiting_prack := True\<rparr>],
                         se_neg_state := y\<rparr>
                 else se\<lparr>se_replyl := se_replyl se @ [r]\<rparr>) s))
        else Some (OK, if d \<noteq> None \<and> se_neg_state se = SDP_NEG_REMOTE_OFFER
                       then put_sess (se\<lparr>se_neg_state := SDP_NEG_PREVIEW_ANSWER\<rparr>) s else s) }) (\<lambda>(err, s'). good s s')" for n b d x y k
    proof (rule gives_pairI)
    fix err s'
    assume r: "st_reply e scode (put_sess (se\<lparr>se_rel_seq := x\<rparr>) (s\<lparr>sw_next := n\<rparr>)) = Some (err, s')"
    note k = keep [OF r] rest [OF r]
    show "gives (do {
        se \<leftarrow> sw_sess s';
        if err \<noteq> 0 then Some (err, put_sess (se\<lparr>se_st := False\<rparr>) s')
        else if b then
          (let r = start_timers (sw_now s') (new_reply k msg scode\<lparr>sr_rel_seq := se_rel_seq se\<rparr>)
           in Some (OK, put_sess
                (if d \<noteq> None
                 then se\<lparr>se_prack_waiting_cnt := se_prack_waiting_cnt se + 1,
                         se_replyl := se_replyl se @ [r\<lparr>sr_awaiting_prack := True\<rparr>],
                         se_neg_state := y\<rparr>
                 else se\<lparr>se_replyl := se_replyl se @ [r]\<rparr>) s'))
        else Some (OK, if d \<noteq> None \<and> se_neg_state se = SDP_NEG_REMOTE_OFFER
                       then put_sess (se\<lparr>se_neg_state := SDP_NEG_PREVIEW_ANSWER\<rparr>) s' else s') }) (\<lambda>(err, s'). good s s')"
      unfolding Let_def by (intro gv gives_bindI) (simp_all add: k)
  qed
  note fin' = fin [of "se_rel_seq se", simplified]
  have fail: "gives (st_reply e c s \<bind> (\<lambda>(_, s). Some (EPROTO, s))) (\<lambda>(err, s'). good s s')" for c
    by (rule gives_pairI) (simp add: gives_Some reply)
  have fin2: "gives (do {
        (err, s) \<leftarrow> st_reply e scode (put_sess (if b then se\<lparr>se_rel_seq := x\<rparr> else se) (s\<lparr>sw_next := n\<rparr>));
        se \<leftarrow> sw_sess s;
        if err \<noteq> 0 then Some (err, put_sess (se\<lparr>se_st := False\<rparr>) s)
        else if b then
          Some (OK, put_sess
                (if d \<noteq> None
                 then se\<lparr>se_prack_waiting_cnt := se_prack_waiting_cnt se + 1,
                         se_replyl := se_replyl se @ [start_timers (sw_now s) (new_reply k msg scode\<lparr>sr_rel_seq := se_rel_seq se\<rparr>)\<lparr>sr_awaiting_prack := True\<rparr>],
                         se_neg_state := y\<rparr>
                 else se\<lparr>se_replyl := se_replyl se @ [start_timers (sw_now s) (new_reply k msg scode\<lparr>sr_rel_seq := se_rel_seq se\<rparr>)]\<rparr>) s)
        else Some (OK, if d \<noteq> None \<and> se_neg_state se = SDP_NEG_REMOTE_OFFER
                       then put_sess (se\<lparr>se_neg_state := SDP_NEG_PREVIEW_ANSWER\<rparr>) s else s) }) (\<lambda>(err, s'). good s s')" for n b d x y k
    using fin [of x n b k d y] fin' [of n b k d y] unfolding Let_def by (cases b) simp_all
  have same: "good s s" using i by (simp add: good_def)
  show ?thesis
    unfolding sipsess_reply_1xx_def se Option.bind_lunit Let_def tick_eq prod.case
    by (intro gives_if) (rule fail fin2 gives_Some; simp add: same drop)+
qed

subsection \<open>Release\<close>

definition deref_ok :: "sipsess \<Rightarrow> nat \<Rightarrow> bool \<Rightarrow> sess_act list \<Rightarrow> bool" where
  "deref_ok se refs held log \<longleftrightarrow>
     se_terminated se \<le> 2 \<and>
     (se_terminated se = 0 \<longrightarrow> refs = 1 \<and> \<not> held \<and> req_of se \<noteq> Some R_BYE) \<and>
     (se_terminated se = 1 \<longrightarrow> req_of se \<noteq> Some R_BYE \<and> (req_of se = Some R_REINVITE \<longrightarrow> counted se (refs - 1) held)) \<and>
     (se_terminated se = 2 \<and> announced log \<longrightarrow> excused log) \<and>
     (se_terminated se \<noteq> 0 \<longrightarrow> silent se) \<and>
     (req_of se = Some R_INVITE \<longrightarrow> \<not> se_established se \<and> se_replyl se = [] \<and> \<not> se_st se) \<and>
     (announced log \<longrightarrow> se_established se) \<and>
     (se_peerterm se \<longrightarrow> Se_peerterm \<in> set log)"

text \<open>What \<open>termwait\<close> does to the state.\<close>

definition waited :: "'u sw \<Rightarrow> sipsess \<Rightarrow> bool \<Rightarrow> 'u sw \<Rightarrow> sipsess \<Rightarrow> bool" where
  "waited s se wait s' se' \<longleftrightarrow> sw_sess s' = Some se' \<and> sw_held s' = sw_held s \<and>
     (\<exists>zs. sw_log s' = sw_log s @ zs \<and> set zs \<subseteq> {Se_reply 486, Se_cancel}) \<and>
     se_terminated se' = 1 \<and> silent se' \<and> req_of se' = req_of se \<and> se_established se' = se_established se \<and>
     se_peerterm se' = se_peerterm se \<and> se_replyl se' = se_replyl se \<and> se_requestl se' = se_requestl se \<and>
     sw_refs s' = sw_refs s + of_bool (se_req se \<noteq> None) + of_bool (se_replyl se \<noteq> []) + of_bool (se_requestl se \<noteq> []) \<and>
     (wait \<longleftrightarrow> se_req se \<noteq> None \<or> se_replyl se \<noteq> [] \<or> se_requestl se \<noteq> [])"

lemma termwait_waited:
  assumes "sw_sess s = Some se"
  shows "gives (termwait e s) (\<lambda>(wait, s'). \<exists>se'. waited s se wait s' se')"
  using assms
  by (cases "se_req se"; cases "se_replyl se = []"; cases "se_requestl se = []"; cases "se_st se")
     (auto simp: termwait_def st_reply_def gives_def waited_def silent_def req_of_def bind_eq_Some_conv Let_def
        sip_request_cancel_def)

lemma terminate_sess_cases:
  assumes "sw_sess s = Some se"
  shows "gives (terminate_sess e s) (\<lambda>(wait, s'). sw_held s' = sw_held s \<and> sw_refs s' = sw_refs s + of_bool wait \<and>
     (\<exists>se'. sw_sess s' = Some se' \<and> se_terminated se' = 2 \<and> (silent se \<longrightarrow> silent se') \<and> se_established se' = se_established se \<and>
        se_peerterm se' = se_peerterm se \<and> se_replyl se' = se_replyl se \<and> se_requestl se' = se_requestl se \<and>
        (if \<not> se_established se \<or> se_peerterm se \<or> se_req se \<noteq> None
         then \<not> wait \<and> sw_log s' = sw_log s \<and> req_of se' = req_of se
         else (\<exists>err. sw_log s' = sw_log s @ [Se_req R_BYE err]) \<and> req_of se' = (if wait then Some R_BYE else None))))"
  using assms
  by (cases "se_req se") (auto simp: terminate_sess_def sipsess_bye_def drequest_def gives_def silent_def req_of_def bind_eq_Some_conv Let_def nz_def
      split: dreq_res.splits if_splits)

text \<open>The end of the destructor.\<close>

lemma sess_free_freed:
  assumes "sw_sess s = Some se" "orderly (sw_log s)" "announced (sw_log s) \<longrightarrow> excused (sw_log s)" "sw_refs s = 0"
  shows "gives (sess_free s) (\<lambda>s'. sw_refs s' = 0 \<and> ss_inv (s'\<lparr>sw_sess := None\<rparr>))"
  using assms by (auto simp: sess_free_def gives_def ss_inv_def orderly_append Let_def split: option.splits)

lemma ss_inv_None: "orderly (sw_log s) \<Longrightarrow> (announced (sw_log s) \<Longrightarrow> excused (sw_log s)) \<Longrightarrow> ss_inv (s\<lparr>sw_sess := None\<rparr>)"
  by (simp add: ss_inv_def)

lemma orderly_plain: "set zs \<subseteq> {Se_reply 486, Se_cancel} \<Longrightarrow> orderly xs \<Longrightarrow> orderly (xs @ zs)"
  by (induction zs rule: rev_induct) (auto simp: orderly_append simp flip: append_assoc)

lemma plain_log:
  "set zs \<subseteq> {Se_reply 486, Se_cancel} \<Longrightarrow> announced (xs @ zs) = announced xs \<and> ended (xs @ zs) = ended xs"
  by (auto simp: announced_def ended_def)

text \<open>What is left of the session after \<open>terminate_sess\<close>, which found no re-INVITE under way.\<close>

lemma terminate_frees:
  assumes se: "sw_sess s = Some se" and q: "orderly (sw_log s)" and r: "sw_refs s = 0" and si: "silent se"
    and req: "req_of se \<noteq> Some R_REINVITE" "req_of se \<noteq> Some R_BYE"
    and inv: "req_of se = Some R_INVITE \<longrightarrow> \<not> se_established se \<and> se_replyl se = []"
    and a: "announced (sw_log s) \<longrightarrow> se_established se" and p: "se_peerterm se \<longrightarrow> Se_peerterm \<in> set (sw_log s)"
    and t: "terminate_sess e s = Some (wait, s')"
  shows "if wait then sw_refs s' > 0 \<and> ss_inv s' else gives (sess_free s') (\<lambda>s'. sw_refs s' = 0 \<and> ss_inv (s'\<lparr>sw_sess := None\<rparr>))"
proof -
  obtain se' where c: "sw_held s' = sw_held s" "sw_refs s' = of_bool wait" "sw_sess s' = Some se'" "se_terminated se' = 2"
    "silent se'" "se_established se' = se_established se" "se_peerterm se' = se_peerterm se" "se_replyl se' = se_replyl se"
    "if \<not> se_established se \<or> se_peerterm se \<or> se_req se \<noteq> None
         then \<not> wait \<and> sw_log s' = sw_log s \<and> req_of se' = req_of se
         else (\<exists>err. sw_log s' = sw_log s @ [Se_req R_BYE err]) \<and> req_of se' = (if wait then Some R_BYE else None)"
    using givesD [OF terminate_sess_cases [OF se] t] r si by auto
  have none: "se_req se = None \<or> \<not> se_established se"
    using req inv by (cases "se_req se") (auto simp: req_of_def intro: req_met.exhaust)
  have l: "orderly (sw_log s')" "announced (sw_log s') = announced (sw_log s)" "set (sw_log s) \<subseteq> set (sw_log s')"
    using c(9) q by (auto simp: orderly_append split: if_splits)
  have ex: "announced (sw_log s') \<longrightarrow> excused (sw_log s')"
    using c(9) none a p l by (auto simp: excused_def split: if_splits)
  show ?thesis
  proof (cases wait)
    case True
    then have "sess_ok se' (sw_refs s') (sw_held s') (sw_log s')"
      using c ex l(2) a l(3) p by (auto simp: sess_ok_def split: if_splits)
    then show ?thesis using True c l by (simp add: ss_inv_def)
  next
    case False
    then show ?thesis using sess_free_freed [OF c(3) l(1) ex] c(2) by simp
  qed
qed

definition left_inv :: "'u sw \<Rightarrow> bool" where
  "left_inv s' \<longleftrightarrow> ss_inv (if sw_refs s' > 0 then s' else s'\<lparr>sw_sess := None\<rparr>)"

lemma deref_inv:
  assumes se: "sw_sess s = Some se" and q: "orderly (sw_log s)" and d: "deref_ok se (sw_refs s) (sw_held s) (sw_log s)"
  shows "gives (deref_sess e s) ss_inv"
proof (cases "sw_refs s > 1")
  case True
  have "sess_ok se (sw_refs s - 1) (sw_held s) (sw_log s)" using d True by (auto simp: deref_ok_def sess_ok_def)
  then show ?thesis using True se q by (simp add: deref_sess_def gives_def ss_inv_def)
next
  case False
  let ?s = "s\<lparr>sw_refs := 0\<rparr>"
  have nc: "\<not> counted se (sw_refs s - Suc 0) b" for b using False by (simp add: counted_def)
  have last: "gives (if wait then Some s' else sess_free s') left_inv"
    if "if wait then sw_refs s' > 0 \<and> ss_inv s' else gives (sess_free s') (\<lambda>s'. sw_refs s' = 0 \<and> ss_inv (s'\<lparr>sw_sess := None\<rparr>))"
    for wait and s' :: "'a sw"
    using that by (cases wait) (auto simp: gives_def left_inv_def)
  have "gives (destructor_sess e ?s) left_inv"
  proof -
    consider "se_terminated se = 0" | "se_terminated se = 1" | "se_terminated se = 2" using d by (force simp: deref_ok_def)
    then show ?thesis
    proof cases
      case 1
      have "gives (if w then Some s1 else do { (wait, s) \<leftarrow> terminate_sess e s1; if wait then Some s else sess_free s })
          left_inv"
        if w: "termwait e ?s = Some (w, s1)" for w s1
      proof -
        obtain se1 zs where c: "waited ?s se w s1 se1" "sw_log s1 = sw_log s @ zs" "set zs \<subseteq> {Se_reply 486, Se_cancel}"
          using givesD [OF termwait_waited w, of se] se by (auto simp: waited_def)
        note lg = orderly_plain [OF c(3) q] plain_log [OF c(3), of "sw_log s"]
        have pt: "se_peerterm se1 \<longrightarrow> Se_peerterm \<in> set (sw_log s1)" using c d by (auto simp: waited_def deref_ok_def)
        show ?thesis
        proof (cases w)
          case True
          have "counted se1 (sw_refs s1) (sw_held s1)" if "req_of se1 = Some R_REINVITE"
          proof -
            have "req_of se = Some R_REINVITE" using that c(1) by (simp add: waited_def)
            then have "se_req se \<noteq> None" by (cases "se_req se") (simp_all add: req_of_def)
            then show ?thesis using c(1) d 1 by (simp add: waited_def counted_def deref_ok_def)
          qed
          then have "sess_ok se1 (sw_refs s1) (sw_held s1) (sw_log s1)"
            using c(1,2) d 1 lg pt unfolding waited_def sess_ok_def deref_ok_def by (simp add: silent_def)
          moreover have "sw_refs s1 > 0" using c(1) True by (auto simp: waited_def)
          ultimately show ?thesis using True c lg by (simp add: ss_inv_def waited_def gives_def left_inv_def)
        next
          case False
          have "terminate_sess e s1 = Some (wait, s') \<Longrightarrow> gives (if wait then Some s' else sess_free s')
              left_inv" for wait s'
            by (rule last, rule terminate_frees [of s1 se1])
               (use c(1,2) d 1 lg pt False in \<open>auto simp: waited_def deref_ok_def req_of_def\<close>)
          then show ?thesis using False by (auto intro: gives_pairI)
        qed
      qed
      then show ?thesis using se 1 by (auto simp: destructor_sess_def intro!: gives_pairI)
    next
      case 2
      have "terminate_sess e ?s = Some (wait, s') \<Longrightarrow> gives (if wait then Some s' else sess_free s')
          left_inv" for wait s'
        by (rule last, rule terminate_frees [of ?s se]) (use se q d 2 nc in \<open>auto simp: deref_ok_def\<close>)
      then show ?thesis using se 2 by (auto simp: destructor_sess_def intro!: gives_pairI)
    next
      case 3
      have "gives (sess_free ?s) (\<lambda>s'. sw_refs s' = 0 \<and> ss_inv (s'\<lparr>sw_sess := None\<rparr>))"
        by (rule sess_free_freed [of _ se]) (use se q d 3 in \<open>auto simp: deref_ok_def\<close>)
      then show ?thesis using se 3 by (auto simp: destructor_sess_def gives_def left_inv_def)
    qed
  qed
  then show ?thesis using False se by (auto simp: deref_sess_def gives_def bind_eq_Some_conv left_inv_def split: if_splits)
qed

lemma ok_deref:
  "sess_ok se r h l \<Longrightarrow> se_terminated se \<noteq> 0 \<Longrightarrow> req_of se \<noteq> Some R_REINVITE \<or> se_terminated se = 2 \<Longrightarrow> deref_ok se r h l"
  by (auto simp: sess_ok_def deref_ok_def)

text \<open>The user's reference counts for the re-INVITE that is under way.\<close>

lemma release_inv: "ss_inv s \<Longrightarrow> gives (sipsess_release e s) ss_inv"
proof (cases "sw_sess s")
  case None
  then show ?thesis by (simp add: sipsess_release_def deref_sess_def gives_def)
next
  case (Some se)
  assume i: "ss_inv s"
  have ok: "sess_ok se (sw_refs s) (sw_held s) (sw_log s)" "orderly (sw_log s)" using i Some by (simp_all add: ss_inv_def)
  show ?thesis
  proof (cases "sw_held s")
    case True
    have "deref_ok se (sw_refs s) False (sw_log s @ [Se_drop])"
      using ok True by (auto simp: sess_ok_def deref_ok_def counted_def)
    then show ?thesis
      using deref_inv [of "say Se_drop (s\<lparr>sw_held := False\<rparr>)" se] Some ok True by (simp add: sipsess_release_def orderly_append)
  qed (simp add: sipsess_release_def gives_def)
qed

subsection \<open>Requests inside a session\<close>

lemma good_refl: "ss_inv s \<Longrightarrow> good s s"
  by (simp add: good_def)

lemma good_say: "good s s' \<Longrightarrow> (\<And>c. x \<noteq> Se_call c) \<Longrightarrow> x \<noteq> Se_drop \<Longrightarrow> good s (say x s')"
  by (auto simp: good_def intro!: ss_inv_say intro: keeps_trans)

lemma good_step: "good s s' \<Longrightarrow> (ss_inv s' \<Longrightarrow> gives m (\<lambda>(err, t). good s' t)) \<Longrightarrow> gives m (\<lambda>(err, t). good s t)"
  by (auto simp: gives_def good_def intro: keeps_trans)

lemma upd_request_sess [simp]:
  "se_terminated (upd_request rq se) = se_terminated se" "se_established (upd_request rq se) = se_established se"
  "req_of (upd_request rq se) = req_of se" "sess_ok (upd_request rq se) r h l = sess_ok se r h l"
proof -
  show t: "se_terminated (upd_request rq se) = se_terminated se" "se_established (upd_request rq se) = se_established se"
    "req_of (upd_request rq se) = req_of se"
    by (simp_all add: upd_request_def)
  have "silent (upd_request rq se) = silent se" by (simp add: upd_request_def silent_def)
  then show "sess_ok (upd_request rq se) r h l = sess_ok se r h l"
    unfolding sess_ok_def t by (simp add: counted_def upd_request_def)
qed

lemma good_put_request:
  "ss_inv s \<Longrightarrow> sw_sess s = Some se \<Longrightarrow> good s (put_sess (upd_request rq se) s)"
  using ss_inv_Some by (intro good_put) auto

lemma sub_request_good:
  assumes "ss_inv s"
  shows "gives (sub_request e r s) (\<lambda>(err, s'). good s s')"
proof (unfold sub_request_def tick_eq Let_def prod.case, rule gives_bindI, rule gives_bindI, rule gives_Some)
  fix se :: sipsess and rq
  assume se: "sw_sess s = Some se"
  let ?s = "s\<lparr>sw_next := sw_next s + 1\<rparr>"
  have g: "good s ?s" using assms by (simp add: good_def)
  have p: "good s (put_sess (upd_request x se) ?s)" for x
    by (rule good_trans [of ?s]) (use good_put_request [of ?s se x] assms se in simp_all)
  show "case case ev_req e (sw_next s) of
             Dr_sent _ \<Rightarrow> (OK, say (Se_sub (rq_met rq) OK) (put_sess (upd_request (rq\<lparr>rq_req := True\<rparr>) se) ?s))
           | Dr_failed err \<Rightarrow> (nz err, say (Se_sub (rq_met rq) (nz err)) ?s)
           | Dr_dropped err \<Rightarrow> (nz err, say (Se_sub (rq_met rq) (nz err)) (put_sess (upd_request (rq\<lparr>rq_req := False\<rparr>) se) ?s))
     of (err, s') \<Rightarrow> good s s'"
    using good_say [OF g] good_say [OF p] by (simp split: dreq_res.split)
qed

lemma update_request_good: "ss_inv s \<Longrightarrow> gives (update_request e r s) (\<lambda>(err, s'). good s s')"
proof (unfold update_request_def, rule gives_bindI, rule gives_bindI, intro gives_if)
  assume i: "ss_inv s"
  then show "gives (Some (EPERM, s)) (\<lambda>(err, s'). good s s')" by (simp add: gives_def good_refl)
  show "gives (sub_request e r s \<bind> (\<lambda>(err, s). sw_sess s \<bind> (\<lambda>se. Some (err,
      if err = 0 \<and> se_desc se \<noteq> None then put_sess (se\<lparr>se_neg_state := SDP_NEG_LOCAL_OFFER\<rparr>) s else s)))) (\<lambda>(err, s'). good s s')"
  proof (rule gives_pairI, rule gives_bindI, rule gives_Some, unfold prod.case)
    fix err s' se
    assume r: "sub_request e r s = Some (err, s')" "sw_sess s' = Some se"
    have g: "good s s'" using givesD [OF sub_request_good [OF i] r(1)] by simp
    then have "good s' (put_sess (se\<lparr>se_neg_state := SDP_NEG_LOCAL_OFFER\<rparr>) s')"
      using r(2) ss_inv_Some [OF _ r(2)] by (intro good_put) (auto simp: good_def)
    then show "good s (if err = 0 \<and> se_desc se \<noteq> None then put_sess (se\<lparr>se_neg_state := SDP_NEG_LOCAL_OFFER\<rparr>) s' else s')"
      using g by (auto simp: good_def intro: keeps_trans)
  qed
qed

lemma prack_request_good: "ss_inv s \<Longrightarrow> gives (prack_request e r s) (\<lambda>(err, s'). good s s')"
  by (unfold prack_request_def, rule gives_bindI, rule gives_bindI, intro gives_if)
     (simp_all add: sub_request_good gives_def [of "Some _"] good_refl)

lemma request_alloc_good:
  assumes i: "ss_inv s"
  shows "gives (sipsess_request_alloc e met body s) (\<lambda>(err, r, s'). good s s' \<and>
     (err = 0 \<longrightarrow> (\<exists>se. sw_sess s' = Some se \<and> se_terminated se = 0)))"
proof (unfold sipsess_request_alloc_def tick_eq Let_def prod.case, rule gives_bindI, intro gives_if)
  fix se :: sipsess
  assume se: "sw_sess s = Some se"
  have n: "good s (s\<lparr>sw_next := sw_next s + 1\<rparr>)" using i by (simp add: good_def)
  show "gives (Some (EINVAL, sw_next s, s\<lparr>sw_next := sw_next s + 1\<rparr>)) (\<lambda>(err, r, s'). good s s' \<and>
     (err = 0 \<longrightarrow> (\<exists>se. sw_sess s' = Some se \<and> se_terminated se = 0)))"
    using n by (simp add: gives_def)
  assume "\<not> se_terminated se \<noteq> 0"
  then have t: "se_terminated se = 0" by simp
  have "good s (put_sess (se\<lparr>se_requestl := xs\<rparr>) (s\<lparr>sw_next := k\<rparr>))" for xs k
  proof -
    have "sess_ok (se\<lparr>se_requestl := xs\<rparr>) (sw_refs s) (sw_held s) (sw_log s)"
      by (rule sess_ok_alive [OF ss_inv_Some [OF i se] t]) (use ss_inv_Some [OF i se] t in \<open>simp_all add: sess_ok_def\<close>)
    then show ?thesis using i se by (intro good_put_next) simp_all
  qed
  then show "gives (case ev_mem e (sw_next s) of
            Al_ok \<Rightarrow>
              Some (OK, sw_next s, put_sess (se\<lparr>se_requestl := se_requestl se @
                [\<lparr>rq_id = sw_next s, rq_met = met, rq_ls = \<lparr>ls_failc = 0, ls_last_scode = 0\<rparr>, rq_req = False, rq_tmr = None,
                  rq_body = body\<rparr>]\<rparr>) (s\<lparr>sw_next := sw_next s + 1\<rparr>))
          | Al_null \<Rightarrow> Some (ENOMEM, sw_next s, s\<lparr>sw_next := sw_next s + 1\<rparr>)
          | Al_nodup \<Rightarrow> None) (\<lambda>(err, r, s'). good s s' \<and>
     (err = 0 \<longrightarrow> (\<exists>se. sw_sess s' = Some se \<and> se_terminated se = 0)))"
    using n t by (simp add: gives_def split: alloc_res.split)
qed

text \<open>The end of a request.\<close>

lemma request_free_good:
  assumes i: "ss_inv s" and se: "sw_sess s = Some se" and t: "se_terminated se = 0"
  shows "gives (request_free e r s) (good s)"
proof -
  have "good s (put_sess (se\<lparr>se_requestl := xs\<rparr>) s)" for xs
  proof -
    have "sess_ok (se\<lparr>se_requestl := xs\<rparr>) (sw_refs s) (sw_held s) (sw_log s)"
      by (rule sess_ok_alive [OF ss_inv_Some [OF i se] t]) (use ss_inv_Some [OF i se] t in \<open>simp_all add: sess_ok_def\<close>)
    then show ?thesis using i se by (intro good_put) simp_all
  qed
  then show ?thesis using se t by (auto simp: request_free_def gives_def Let_def bind_eq_Some_conv)
qed

lemma request_free_inv:
  assumes i: "ss_inv s"
  shows "gives (request_free e r s) ss_inv"
proof (unfold request_free_def Let_def, rule gives_bindI, rule gives_bindI, intro gives_if)
  fix se :: sipsess and rq
  let ?se = "se\<lparr>se_requestl := filter (\<lambda>x. rq_id x \<noteq> r) (se_requestl se)\<rparr>"
  assume se: "sw_sess s = Some se" and f: "find_request r se = Some rq"
  have ne: "se_requestl se \<noteq> []" using f by (auto simp: find_request_def)
  have ok: "sess_ok se (sw_refs s) (sw_held s) (sw_log s)" "orderly (sw_log s)" using i se by (simp_all add: ss_inv_def)
  show "gives (Some (put_sess ?se s)) ss_inv"
    using sess_ok_requestl [OF ok(1)] ne i by (simp add: gives_def ss_inv_put)
  assume a: "se_terminated ?se \<noteq> 0 \<and> se_requestl ?se = []"
  have "counted ?se (sw_refs s - 1) (sw_held s)" if "counted se (sw_refs s) (sw_held s)"
  proof -
    have "se_requestl ?se = []" "se_replyl ?se = se_replyl se" using a by simp_all
    then show ?thesis using that ne unfolding counted_def by simp
  qed
  moreover have "silent ?se = silent se" by (simp add: silent_def)
  ultimately have "deref_ok ?se (sw_refs s) (sw_held s) (sw_log s)"
    using ok(1) a unfolding sess_ok_def deref_ok_def by simp
  then show "gives (deref_sess e (put_sess ?se s)) ss_inv" using ok(2) by (intro deref_inv) simp_all
qed

text \<open>A request that could not be sent is freed again.\<close>

lemma sent_or_freed:
  assumes i: "ss_inv s" and se: "sw_sess s = Some se" "se_terminated se = 0"
    and m: "gives m (\<lambda>(err, s'). good s s')" and f: "\<And>s'. ss_inv s' \<Longrightarrow> gives (f s') (\<lambda>(err, t). good s' t)"
  shows "gives (do { (err, s) \<leftarrow> m; if err \<noteq> 0 then do { s \<leftarrow> request_free e r s; Some (err, s) } else f s }) (\<lambda>(err, s'). good s s')"
proof (rule gives_pairI, intro gives_if)
  fix err s'
  assume r: "m = Some (err, s')"
  have g: "good s s'" using givesD [OF m r] by simp
  obtain se' where se': "sw_sess s' = Some se'" "se_terminated se' = 0" using g se by (auto simp: good_def keeps_def)
  show "gives (f s') (\<lambda>(err, s'). good s s')" using g by (rule good_step) (rule f)
  have "gives (request_free e r s') (good s')" using request_free_good [OF _ se'] g by (simp add: good_def)
  then show "gives (request_free e r s' \<bind> (\<lambda>s. Some (err, s))) (\<lambda>(err, s'). good s s')"
    using g by (auto simp: gives_def good_def bind_eq_Some_conv intro: keeps_trans)
qed

lemma sipsess_update_good:
  assumes i: "ss_inv s"
  shows "gives (sipsess_update e s) (\<lambda>(err, s'). good s s')"
proof (unfold sipsess_update_def, rule gives_bindI, intro gives_if)
  fix se :: sipsess
  show "gives (Some (EINVAL, s)) (\<lambda>(err, s'). good s s')" using i by (simp add: gives_def good_refl)
  have put: "gives (do { se \<leftarrow> sw_sess s'; Some (OK, put_sess (se\<lparr>se_modify_pending := False\<rparr>) s') }) (\<lambda>(err, t). good s' t)"
    if "ss_inv s'" for s' :: "'a sw"
    using that ss_inv_Some [OF that] by (auto simp: gives_def bind_eq_Some_conv intro!: good_put)
  show "gives (sipsess_request_alloc e R_UPDATE (se_desc se) s \<bind> (\<lambda>(err, r, s).
       if err \<noteq> 0 then Some (err, s)
       else do {
         (err, s) \<leftarrow> update_request e r s;
         if err \<noteq> 0 then do { s \<leftarrow> request_free e r s; Some (err, s) }
         else do { se \<leftarrow> sw_sess s; Some (OK, put_sess (se\<lparr>se_modify_pending := False\<rparr>) s) } })) (\<lambda>(err, s'). good s s')"
  proof (rule gives_bindI, clarify, intro gives_if)
    fix err r s'
    assume a: "sipsess_request_alloc e R_UPDATE (se_desc se) s = Some (err, r, s')"
    note g = givesD [OF request_alloc_good [OF i] a, simplified]
    show "gives (Some (err, s')) (\<lambda>(err, s'). good s s')" using g by (simp add: gives_def)
    assume "\<not> err \<noteq> 0"
    then obtain se' where se': "sw_sess s' = Some se'" "se_terminated se' = 0" using g by auto
    show "gives (do {
         (err, s) \<leftarrow> update_request e r s';
         if err \<noteq> 0 then do { s \<leftarrow> request_free e r s; Some (err, s) }
         else do { se \<leftarrow> sw_sess s; Some (OK, put_sess (se\<lparr>se_modify_pending := False\<rparr>) s) } }) (\<lambda>(err, s'). good s s')"
      by (rule good_step [OF conjunct1 [OF g]], rule sent_or_freed [OF _ se']) (simp_all add: update_request_good put)
  qed
qed

lemma sipsess_info_good:
  assumes i: "ss_inv s"
  shows "gives (sipsess_info e n s) (\<lambda>(err, s'). good s s')"
proof (unfold sipsess_info_def, rule gives_bindI, intro gives_if)
  fix se :: sipsess
  show "gives (Some (EINVAL, s)) (\<lambda>(err, s'). good s s')" "gives (Some (ENOTCONN, s)) (\<lambda>(err, s'). good s s')"
    using i by (simp_all add: gives_def good_refl)
  show "gives (sipsess_request_alloc e R_INFO (Some n) s \<bind> (\<lambda>(err, r, s).
       if err \<noteq> 0 then Some (err, s)
       else do {
         (err, s) \<leftarrow> info_request e r s;
         if err \<noteq> 0 then do { s \<leftarrow> request_free e r s; Some (err, s) } else Some (OK, s) })) (\<lambda>(err, s'). good s s')"
  proof (rule gives_bindI, clarify, intro gives_if)
    fix err r s'
    assume a: "sipsess_request_alloc e R_INFO (Some n) s = Some (err, r, s')"
    note g = givesD [OF request_alloc_good [OF i] a, simplified]
    show "gives (Some (err, s')) (\<lambda>(err, s'). good s s')" using g by (simp add: gives_def)
    assume "\<not> err \<noteq> 0"
    then obtain se' where se': "sw_sess s' = Some se'" "se_terminated se' = 0" using g by auto
    show "gives (do {
         (err, s) \<leftarrow> info_request e r s';
         if err \<noteq> 0 then do { s \<leftarrow> request_free e r s; Some (err, s) } else Some (OK, s) }) (\<lambda>(err, s'). good s s')"
      by (rule good_step [OF conjunct1 [OF g]], rule sent_or_freed [OF _ se'])
         (simp_all add: info_request_def sub_request_good gives_def [of "Some _"] good_refl)
  qed
qed

lemma sipsess_prack_good:
  assumes i: "ss_inv s"
  shows "gives (sipsess_prack e d s) (\<lambda>(err, s'). good s s')"
proof (unfold sipsess_prack_def tick_eq Let_def prod.case, rule gives_bindI, intro gives_if)
  fix se :: sipsess
  let ?s = "s\<lparr>sw_next := sw_next s + 1\<rparr>"
  have n: "good s ?s" "ss_inv ?s" using i by (simp_all add: good_def)
  show "gives (Some (EINVAL, s)) (\<lambda>(err, s'). good s s')" "gives (Some (ENOMEM, ?s)) (\<lambda>(err, s'). good s s')"
    using i n by (simp_all add: gives_def good_refl)
  show "gives (sipsess_request_alloc e R_PRACK d ?s \<bind> (\<lambda>(err, r, s').
       if err \<noteq> 0 then Some (err, s')
       else do {
         (err, s) \<leftarrow> (if ev_mem e (sw_next s) = Al_nodup then Some (ENOMEM, s') else prack_request e r s');
         if err \<noteq> 0 then do { s \<leftarrow> request_free e r s; Some (err, s) } else Some (OK, s) })) (\<lambda>(err, s'). good s s')"
  proof (rule good_step [OF n(1)], rule gives_bindI, clarify, intro gives_if)
    fix err r s'
    assume a: "sipsess_request_alloc e R_PRACK d ?s = Some (err, r, s')"
    note g = givesD [OF request_alloc_good [OF n(2)] a, simplified]
    show "gives (Some (err, s')) (\<lambda>(err, s'). good ?s s')" using g by (simp add: gives_def)
    assume "\<not> err \<noteq> 0"
    then obtain se' where se': "sw_sess s' = Some se'" "se_terminated se' = 0" using g by auto
    have m: "ss_inv s' \<Longrightarrow> gives (if ev_mem e (sw_next s) = Al_nodup then Some (ENOMEM, s') else prack_request e r s') (\<lambda>(err, t). good s' t)"
      by (intro gives_if) (simp_all add: prack_request_good gives_def [of "Some _"] good_refl)
    show "gives (do {
         (err, s) \<leftarrow> (if ev_mem e (sw_next s) = Al_nodup then Some (ENOMEM, s') else prack_request e r s');
         if err \<noteq> 0 then do { s \<leftarrow> request_free e r s; Some (err, s) } else Some (OK, s) }) (\<lambda>(err, s'). good ?s s')"
      by (rule good_step [OF _ sent_or_freed [OF _ se']])
         (use g m in \<open>simp_all add: gives_def [of "Some _"] good_refl\<close>)
  qed
qed

section \<open>The interface\<close>

lemma modify_good:
  assumes i: "ss_inv s"
  shows "gives (sipsess_modify e d s) (\<lambda>(err, s'). good s s')"
proof (unfold sipsess_modify_def Let_def, rule gives_bindI, intro gives_if)
  fix se :: sipsess
  assume se: "sw_sess s = Some se"
  show "gives (Some (EINVAL, s)) (\<lambda>(err, s'). good s s')" "gives (Some (EPROTO, s)) (\<lambda>(err, s'). good s s')"
    using i by (simp_all add: gives_def good_refl)
  assume t: "\<not> (se_terminated se \<noteq> 0 \<or> \<not> se_dlg_est se)"
  have ok: "sess_ok se (sw_refs s) (sw_held s) (sw_log s)" using ss_inv_Some [OF i se] .
  let ?s = "put_sess (se\<lparr>se_desc := d\<rparr>) s"
  have g: "good s ?s" using i se ok by (intro good_put) simp_all
  then have j: "ss_inv ?s" by (simp add: good_def)
  show "gives (sipsess_update e ?s) (\<lambda>(err, s'). good s s')"
    by (rule good_step [OF g]) (rule sipsess_update_good)
  show "gives (Some (OK, put_sess (se\<lparr>se_desc := d, se_modify_pending := True\<rparr>) ?s)) (\<lambda>(err, s'). good s s')"
    using goodI [OF i se, of "put_sess (se\<lparr>se_desc := d, se_modify_pending := True\<rparr>) ?s"] ok i by (simp add: gives_def ss_inv_def)
  show "gives (sipsess_reinvite e True ?s) (\<lambda>(err, s'). good s s')"
    by (rule good_step [OF g]) (rule reinvite_good [of _ "se\<lparr>se_desc := d\<rparr>"], use t in simp_all)
qed

lemma st_alive: "ss_inv s \<Longrightarrow> sw_sess s = Some se \<Longrightarrow> se_st se \<Longrightarrow> se_terminated se = 0 \<and> req_of se \<noteq> Some R_INVITE"
  using ss_inv_Some [of s se] by (auto simp: sess_ok_def silent_def)

lemma progress_good: "ss_inv s \<Longrightarrow> gives (sipsess_progress e c m d s) (\<lambda>(err, s'). good s s')"
  by (unfold sipsess_progress_def, rule gives_bindI, rule gives_option, (rule gives_Some, simp add: good_refl), intro gives_if)
     (use st_alive in \<open>auto simp: gives_def [of "Some _"] good_refl intro!: reply_1xx_good\<close>)

lemma answer_good: "ss_inv s \<Longrightarrow> gives (sipsess_answer e c d s) (\<lambda>(err, s'). good s s')"
  by (unfold sipsess_answer_def, rule gives_bindI, rule gives_option, (rule gives_Some, simp add: good_refl), intro gives_if)
     (use st_alive in \<open>auto simp: gives_def [of "Some _"] good_refl not_less intro!: reply_2xx_good\<close>)

lemma reject_good: "ss_inv s \<Longrightarrow> gives (sipsess_reject e c s) (\<lambda>(err, s'). good s s')"
  by (unfold sipsess_reject_def, rule gives_bindI, intro gives_if)
     (auto simp: gives_def [of "Some _"] good_refl intro!: st_reply_good)

lemma api_good:
  assumes "api e s s'" "ss_inv s"
  shows "good s s'"
  using assms(1)
proof cases
  case (api_redirect)
  then show ?thesis using assms(2) ss_inv_Some [OF assms(2)] by (auto simp: sipsess_set_redirect_handler_def bind_eq_Some_conv intro!: good_put)
next
  case (api_prack)
  then show ?thesis using assms(2) ss_inv_Some [OF assms(2)] by (auto simp: sipsess_set_prack_handler_def bind_eq_Some_conv intro!: good_put)
next
  case api_sip_reply
  then show ?thesis using free_reply_good [OF assms(2)] by (simp add: sip_reply_def)
qed (use assms(2) givesD [OF answer_good [OF assms(2)]] givesD [OF progress_good [OF assms(2)]] givesD [OF reject_good [OF assms(2)]]
       givesD [OF modify_good [OF assms(2)]] givesD [OF sipsess_info_good [OF assms(2)]] in \<open>auto simp: good_def\<close>)

lemma apis_good: "(api e)\<^sup>*\<^sup>* s s' \<Longrightarrow> ss_inv s \<Longrightarrow> good s s'"
proof (induction rule: rtranclp_induct)
  case (step t v)
  then have "good s t" "good t v" using api_good [of e t v] by (auto simp: good_def)
  then show ?case by (auto simp: good_def intro: keeps_trans)
qed (simp add: good_refl)

text \<open>Aborting and releasing an unestablished session.\<close>

lemma abort_inv:
  assumes i: "ss_inv s" and a: "\<not> announced (sw_log s)" "sipsess_abort e s = Some s0" "sipsess_release e s1 = Some s'"
    and u: "s1 = s0\<lparr>sw_user := x\<rparr>"
  shows "ss_inv s'"
proof -
  obtain se where se: "sw_sess s = Some se" using a(2) by (cases "sw_sess s") (auto simp: sipsess_abort_def sipsess_bye_def)
  have ok: "sess_ok se (sw_refs s) (sw_held s) (sw_log s)" "orderly (sw_log s)" using i se by (simp_all add: ss_inv_def)
  obtain se1 where c: "sw_sess s1 = Some se1" "sw_refs s1 = sw_refs s" "orderly (sw_log s1)" "\<not> announced (sw_log s1)"
    "se_terminated se1 = 2" "silent se \<longrightarrow> silent se1" "req_of se1 = Some R_INVITE \<longrightarrow> req_of se = Some R_INVITE"
    "se_established se1 = se_established se" "se_replyl se1 = se_replyl se" "se_st se1 = se_st se" "se_peerterm se1 = se_peerterm se"
    "Se_peerterm \<in> set (sw_log s) \<longrightarrow> Se_peerterm \<in> set (sw_log s1)"
    using a(1,2) se ok(2) u
    by (cases "se_req se") (auto simp: sipsess_abort_def sipsess_bye_def drequest_def bind_eq_Some_conv Let_def nz_def orderly_append
        silent_def split: dreq_res.splits)
  let ?s = "say Se_drop (s1\<lparr>sw_held := False\<rparr>)"
  have d: "deref_sess e ?s = Some s'" using a(3) by (simp add: sipsess_release_def split: if_splits)
  show ?thesis
  proof (cases "se_terminated se = 0")
    case True
    then have "sw_refs s1 = 1" using ok(1) c(2) by (simp add: sess_ok_def)
    moreover have "gives (sess_free (?s\<lparr>sw_refs := 0\<rparr>)) (\<lambda>s'. sw_refs s' = 0 \<and> ss_inv (s'\<lparr>sw_sess := None\<rparr>))"
      by (rule sess_free_freed [of _ se1]) (use c in \<open>simp_all add: orderly_append\<close>)
    ultimately show ?thesis using d c(1,5)
      by (auto simp: deref_sess_def destructor_sess_def gives_def bind_eq_Some_conv split: if_splits)
  next
    case False
    then have "silent se1" "req_of se1 = Some R_INVITE \<longrightarrow> \<not> se_established se1 \<and> se_replyl se1 = [] \<and> \<not> se_st se1"
      "se_peerterm se1 \<longrightarrow> Se_peerterm \<in> set (sw_log s1)"
      using ok(1) c by (auto simp: sess_ok_def)
    then have "deref_ok se1 (sw_refs ?s) (sw_held ?s) (sw_log ?s)" using c(4,5) by (auto simp: deref_ok_def)
    then show ?thesis using givesD [OF deref_inv d] c(1,3) by (simp add: orderly_append)
  qed
qed

lemma api_end_inv: "api_end e s s' \<Longrightarrow> ss_inv s \<Longrightarrow> ss_inv s'"
  by (erule api_end.cases) (auto dest: api_good [of e] givesD [OF release_inv] abort_inv [OF _ _ _ _ refl] simp: good_def)

lemma api_ends_inv: "(api_end e)\<^sup>*\<^sup>* s s' \<Longrightarrow> ss_inv s \<Longrightarrow> ss_inv s'"
  by (induction rule: rtranclp_induct) (auto intro: api_end_inv)

end
