(* ===== verification/Sipsess_Resp.thy ===== *)
theory Sipsess_Resp
  imports Sipsess_Inv
begin

text \<open>
  The invariant of a session is kept by the calls of the user's handlers (under the contract \<open>sess_user\<close>) and by the handlers
  of the responses to INVITE, re-INVITE and BYE.  \<open>tame s s'\<close>: a step before the end of such a handler; \<open>fresh s\<close>: an
  outgoing session whose INVITE may be sent again.
\<close>

section \<open>What the interface leaves alone\<close>

text \<open>As long as no server transaction is under way, the user adds no reply.\<close>

definition same :: "'u sw \<Rightarrow> 'u sw \<Rightarrow> bool" where
  "same s s' \<longleftrightarrow> (\<forall>se. sw_sess s = Some se \<and> se_terminated se = 0 \<longrightarrow>
     (\<exists>se'. sw_sess s' = Some se' \<and> se_terminated se' = 0 \<and> se_st se' = se_st se \<and> se_replyl se' = se_replyl se \<and>
        (se_req se \<noteq> None \<longrightarrow> se_req se' = se_req se)))"

lemma same_refl [simp]: "same s s" "same s (s\<lparr>sw_user := x\<rparr>)" "same s (s\<lparr>sw_next := n\<rparr>)" "same s (say a s)"
  by (auto simp: same_def)

lemma same_trans: "same s t \<Longrightarrow> same t v \<Longrightarrow> same s v"
  unfolding same_def by (metis (no_types, lifting))

lemma same_put:
  "sw_sess s = Some se \<Longrightarrow> se_terminated se' = se_terminated se \<Longrightarrow> se_st se' = se_st se \<Longrightarrow> se_replyl se' = se_replyl se \<Longrightarrow>
   se_req se' = se_req se \<Longrightarrow> same s (put_sess se' s)"
  by (simp add: same_def)

lemma same_step: "same s s' \<Longrightarrow> gives m (\<lambda>(err, t). same s' t) \<Longrightarrow> gives m (\<lambda>(err, t). same s t)"
  by (auto simp: gives_def intro: same_trans)

lemma same_then:
  assumes "gives m (\<lambda>(err, s'). same s s')" "\<And>err s'. gives (f err s') (\<lambda>(err, t). same s' t)"
  shows "gives (do { (err, s) \<leftarrow> m; f err s }) (\<lambda>(err, s'). same s s')"
  by (rule gives_pairI) (use assms same_trans in \<open>fastforce simp: gives_def\<close>)

lemma sub_request_same: "gives (sub_request e r s) (\<lambda>(err, s'). same s s')"
  by (cases "ev_req e (sw_next s)") (auto simp: sub_request_def gives_def same_def upd_request_def bind_eq_Some_conv)

lemma update_request_same: "gives (update_request e r s) (\<lambda>(err, s'). same s s')"
  unfolding update_request_def
  by (intro gives_bindI gives_if same_then sub_request_same) (auto simp: gives_def intro!: same_put)

lemma prack_request_same: "gives (prack_request e r s) (\<lambda>(err, s'). same s s')"
  unfolding prack_request_def by (intro gives_bindI gives_if sub_request_same) (simp add: gives_def)

lemma request_free_same: "gives (request_free e r s) (same s)"
  by (auto simp: request_free_def gives_def same_def Let_def bind_eq_Some_conv)

lemma request_alloc_same: "gives (sipsess_request_alloc e met body s) (\<lambda>(err, r, s'). same s s')"
  by (cases "ev_mem e (sw_next s)")
     (auto simp: sipsess_request_alloc_def gives_def same_def Let_def bind_eq_Some_conv split: if_splits)

lemma sent_or_freed_same:
  fixes m :: "(errno \<times> 'u sw) option"
  assumes "gives m (\<lambda>(err, s'). same s s')" "\<And>s'. gives (f s') (\<lambda>(err, t). same s' t)"
  shows "gives (do { (err, s) \<leftarrow> m; if err \<noteq> 0 then do { s \<leftarrow> request_free e r s; Some (err, s) } else f s }) (\<lambda>(err, s'). same s s')"
proof (rule same_then [OF assms(1)], intro gives_if assms(2))
  fix err :: errno and s' :: "'u sw"
  show "gives (request_free e r s' \<bind> (\<lambda>s. Some (err, s))) (\<lambda>(err, t). same s' t)"
    using request_free_same [of e r s'] by (auto simp: gives_def bind_eq_Some_conv)
qed

lemma alloc_same:
  assumes "\<And>r s'. gives (f r s') (\<lambda>(err, t). same s' t)"
  shows "gives (do { (err, r, s) \<leftarrow> sipsess_request_alloc e met body s; if err \<noteq> 0 then Some (err, s) else f r s }) (\<lambda>(err, s'). same s s')"
proof (rule gives_bindI, clarify, intro gives_if)
  fix err r s'
  assume "sipsess_request_alloc e met body s = Some (err, r, s')"
  then have g: "same s s'" using request_alloc_same [of e met body s] by (simp add: gives_def)
  show "gives (Some (err, s')) (\<lambda>(err, s'). same s s')" using g by (simp add: gives_def)
  show "gives (f r s') (\<lambda>(err, s'). same s s')" by (rule same_step [OF g]) (rule assms)
qed

lemma sipsess_update_same: "gives (sipsess_update e s) (\<lambda>(err, s'). same s s')"
  unfolding sipsess_update_def
  by (rule gives_bindI, intro gives_if alloc_same sent_or_freed_same update_request_same gives_bindI)
     (auto simp: gives_def intro!: same_put)

lemma sipsess_info_same: "gives (sipsess_info e n s) (\<lambda>(err, s'). same s s')"
  unfolding sipsess_info_def info_request_def
  by (rule gives_bindI, intro gives_if alloc_same sent_or_freed_same sub_request_same) (simp_all add: gives_def)

lemma drequest_same: "sw_sess s = Some se \<Longrightarrow> se_req se = None \<Longrightarrow> gives (drequest e k s) (\<lambda>(err, s'). same s s')"
  by (cases "ev_req e (sw_next s)") (auto simp: drequest_def gives_def same_def bind_eq_Some_conv)

lemma reinvite_same: "gives (sipsess_reinvite e b s) (\<lambda>(err, s'). same s s')"
proof (unfold sipsess_reinvite_def, rule gives_bindI, intro gives_if same_then)
  fix se :: sipsess
  assume se: "sw_sess s = Some se"
  show "gives (drequest e R_REINVITE (if b then put_sess (se\<lparr>se_ls := sip_loopstate_reset (se_ls se)\<rparr>) s else s)) (\<lambda>(err, s'). same s s')"
    if "\<not> se_req se \<noteq> None"
    by (rule same_step [OF _ drequest_same [of _ "if b then se\<lparr>se_ls := sip_loopstate_reset (se_ls se)\<rparr> else se"]])
       (use se that [unfolded not_not] in \<open>simp_all add: same_put\<close>)
  show "gives (do { se \<leftarrow> sw_sess s'; Some (err, if err \<noteq> 0 then s'
      else put_sess (if se_desc se \<noteq> None then se\<lparr>se_modify_pending := False, se_neg_state := SDP_NEG_LOCAL_OFFER\<rparr>
                     else se\<lparr>se_modify_pending := False\<rparr>) s') }) (\<lambda>(err, t). same s' t)" for err s'
    by (intro gives_bindI gives_Some) (simp add: same_put)
qed (simp add: gives_def)

lemma modify_same: "gives (sipsess_modify e d s) (\<lambda>(err, s'). same s s')"
proof (unfold sipsess_modify_def Let_def, rule gives_bindI, intro gives_if)
  fix se :: sipsess
  assume se: "sw_sess s = Some se"
  have p: "same s (put_sess (se\<lparr>se_desc := d\<rparr>) s)" using se by (intro same_put) simp_all
  show "gives (sipsess_update e (put_sess (se\<lparr>se_desc := d\<rparr>) s)) (\<lambda>(err, s'). same s s')"
    by (rule same_step [OF p sipsess_update_same])
  show "gives (sipsess_reinvite e True (put_sess (se\<lparr>se_desc := d\<rparr>) s)) (\<lambda>(err, s'). same s s')"
    by (rule same_step [OF p reinvite_same])
qed (auto simp: gives_def same_def)

text \<open>An outgoing session whose INVITE was not accepted yet.\<close>

definition fresh :: "'u sw \<Rightarrow> bool" where
  "fresh s \<longleftrightarrow> (\<exists>se. sw_sess s = Some se \<and> se_terminated se = 0 \<and> \<not> se_established se \<and> se_replyl se = [] \<and> \<not> se_st se)"

lemma api_same:
  assumes "api e s s'" "fresh s"
  shows "same s s'"
  using assms(1)
proof cases
  case api_answer
  then show ?thesis using assms(2) by (auto simp: sipsess_answer_def fresh_def split: option.splits if_splits)
next
  case api_progress
  then show ?thesis using assms(2) by (auto simp: sipsess_progress_def fresh_def split: option.splits if_splits)
next
  case api_reject
  then show ?thesis using assms(2) by (auto simp: sipsess_reject_def fresh_def split: if_splits)
next
  case api_redirect
  then show ?thesis by (auto simp: sipsess_set_redirect_handler_def bind_eq_Some_conv intro!: same_put)
next
  case api_prack
  then show ?thesis by (auto simp: sipsess_set_prack_handler_def bind_eq_Some_conv intro!: same_put)
next
  case api_sip_reply
  then show ?thesis by (simp add: same_def)
qed (auto dest: givesD [OF modify_same] givesD [OF sipsess_info_same])

lemma api_fresh:
  assumes "api e s s'" "ss_inv s" "fresh s"
  shows "fresh s'"
proof -
  have "same s s'" "keeps s s'" using api_same [OF assms(1,3)] api_good [OF assms(1,2)] by (simp_all add: good_def)
  then show ?thesis using assms(3) by (fastforce simp: same_def keeps_def fresh_def)
qed

lemma apis_fresh: "(api e)\<^sup>*\<^sup>* s s' \<Longrightarrow> ss_inv s \<Longrightarrow> fresh s \<Longrightarrow> fresh s'"
proof (induction rule: rtranclp_induct)
  case (step t v)
  then show ?case using apis_good [of e s t] api_fresh [of e t v] by (simp add: good_def)
qed simp

text \<open>While the INVITE is under way, the user can end the session, but not the request.\<close>

definition inviting :: "'u sw \<Rightarrow> bool" where
  "inviting s \<longleftrightarrow> (\<forall>se. sw_sess s = Some se \<longrightarrow> req_of se = Some R_INVITE \<and> (sw_held s \<longrightarrow> se_terminated se = 0))"

lemma invite_fresh: "ss_inv s \<Longrightarrow> sw_sess s = Some se \<Longrightarrow> req_of se = Some R_INVITE \<Longrightarrow> se_terminated se = 0 \<Longrightarrow> fresh s"
  using ss_inv_Some [of s se] by (auto simp: sess_ok_def fresh_def)

lemma release_inviting:
  assumes i: "ss_inv s" and se: "sw_sess s = Some se" "req_of se = Some R_INVITE" "se_terminated se = 0"
  shows "gives (sipsess_release e s) inviting"
proof (cases "sw_held s")
  case True
  let ?s = "say Se_drop (s\<lparr>sw_held := False\<rparr>)\<lparr>sw_refs := 0\<rparr>"
  have r: "sw_refs s = 1" using ss_inv_Some [OF i se(1)] se(3) by (simp add: sess_ok_def)
  have "gives (termwait e ?s \<bind> (\<lambda>(wait, s). if wait then Some s
        else terminate_sess e s \<bind> (\<lambda>(wait, s). if wait then Some s else sess_free s))) (\<lambda>s'. inviting s' \<and> sw_refs s' > 0)"
  proof (rule gives_pairI)
    fix wait s'
    assume t: "termwait e ?s = Some (wait, s')"
    obtain se' where w: "waited ?s se wait s' se'"
      using givesD [OF termwait_waited t] se by auto
    have "se_req se \<noteq> None" using se(2) by (auto simp: req_of_def)
    then have wait "sw_refs s' > 0" using w by (auto simp: waited_def)
    moreover have "inviting s'" using w se(2) by (simp add: inviting_def waited_def)
    ultimately show "gives (if wait then Some s'
        else terminate_sess e s' \<bind> (\<lambda>(wait, s). if wait then Some s else sess_free s)) (\<lambda>s'. inviting s' \<and> sw_refs s' > 0)"
      by (simp add: gives_def)
  qed
  then have "gives (destructor_sess e ?s) (\<lambda>s'. inviting s' \<and> sw_refs s' > 0)" using se by (simp add: destructor_sess_def)
  then have "gives (destructor_sess e ?s \<bind> (\<lambda>s. Some (if sw_refs s > 0 then s else s\<lparr>sw_sess := None\<rparr>))) inviting"
    by (intro gives_bindI gives_Some) (simp add: gives_def)
  then show ?thesis using True se(1) r by (simp add: sipsess_release_def deref_sess_def)
qed (simp add: sipsess_release_def gives_def)

lemma abort_inviting:
  assumes i: "ss_inv s" and se: "sw_sess s = Some se" "req_of se = Some R_INVITE" "se_terminated se = 0"
    and a: "sipsess_abort e s = Some s1" "sipsess_release e (s1\<lparr>sw_user := x\<rparr>) = Some s'"
  shows "sw_sess s' = None"
proof -
  have r: "sw_refs s = 1" using ss_inv_Some [OF i se(1)] se(3) by (simp add: sess_ok_def)
  have "se_req se \<noteq> None" using se(2) by (auto simp: req_of_def)
  then have "s1 = put_sess (se\<lparr>se_terminated := 2\<rparr>) s" using a(1) se(1) by (simp add: sipsess_abort_def sipsess_bye_def)
  then show ?thesis using a(2) r
    by (auto simp: sipsess_release_def deref_sess_def destructor_sess_def sess_free_def Let_def bind_eq_Some_conv split: if_splits)
qed

lemma api_end_inviting:
  assumes "api_end e s s'" "ss_inv s" "inviting s"
  shows "inviting s'"
proof (cases "sw_sess s")
  case None
  have "sw_sess s' = None"
    using assms(1) None
    by (cases rule: api_end.cases; cases "sw_held s")
       (auto elim!: api.cases simp: sipsess_answer_def sipsess_progress_def sipsess_reject_def sipsess_modify_def sipsess_info_def
          sipsess_set_redirect_handler_def sipsess_set_prack_handler_def sipsess_release_def deref_sess_def sipsess_abort_def sipsess_bye_def)
  then show ?thesis using assms(3) by (auto simp: inviting_def)
next
  case (Some se)
  then have v: "req_of se = Some R_INVITE" "sw_held s \<longrightarrow> se_terminated se = 0" using assms(3) by (simp_all add: inviting_def)
  show ?thesis
    using assms(1)
  proof cases
    case end_api
    show ?thesis
    proof (cases "se_terminated se = 0")
      case True
      have f: "fresh s" using invite_fresh [OF assms(2) Some v(1) True] .
      then have "same s s'" using api_same [OF end_api] by blast
      then obtain se' where "sw_sess s' = Some se'" "se_terminated se' = 0" "se_req se' = se_req se"
        using Some True v(1) by (fastforce simp: same_def req_of_def)
      then show ?thesis using v(1) by (simp add: inviting_def req_of_def)
    next
      case False
      then have "\<not> sw_held s" using v(2) by simp
      then have "(\<exists>x. s' = s\<lparr>sw_user := x\<rparr>) \<or> (\<exists>c. s' = sip_reply e c s)" using end_api by (auto elim: api.cases)
      then show ?thesis using assms(3) by (auto simp: inviting_def)
    qed
  next
    case end_release
    then have "sw_held s" by (auto simp: sipsess_release_def split: if_splits)
    then show ?thesis using release_inviting [OF assms(2) Some v(1)] v(2) end_release by (simp add: gives_def)
  next
    case (end_abort s1 x)
    then show ?thesis using abort_inviting [OF assms(2) Some v(1)] v(2) by (simp add: inviting_def)
  qed
qed

lemma api_ends_inviting: "(api_end e)\<^sup>*\<^sup>* s s' \<Longrightarrow> ss_inv s \<Longrightarrow> inviting s \<Longrightarrow> inviting s'"
proof (induction rule: rtranclp_induct)
  case (step t v)
  then show ?case using api_ends_inv [of e s t] api_end_inviting [of e t v] by simp
qed simp

section \<open>Handlers of the user\<close>

text \<open>What a step before the end of a handler does: a session that is terminated keeps its request.\<close>

definition tame :: "'u sw \<Rightarrow> 'u sw \<Rightarrow> bool" where
  "tame s s' \<longleftrightarrow> good s s' \<and> (\<forall>se. sw_sess s = Some se \<and> se_terminated se \<noteq> 0 \<longrightarrow>
     (\<exists>se'. sw_sess s' = Some se' \<and> req_of se' = req_of se))"

text \<open>The session may be released by the handler of the response that ended its last request.\<close>

definition out_ok :: "'u sw \<Rightarrow> bool" where
  "out_ok s \<longleftrightarrow> (\<forall>se. sw_sess s = Some se \<longrightarrow> se_terminated se = 0 \<or> req_of se \<noteq> Some R_REINVITE)"

definition alive :: "'u sw \<Rightarrow> bool" where
  "alive s \<longleftrightarrow> (\<forall>se. sw_sess s = Some se \<longrightarrow> se_terminated se = 0)"

lemma alive_out: "alive s \<Longrightarrow> out_ok s"
  by (simp add: alive_def out_ok_def)

lemma alive_held: "ss_inv s \<Longrightarrow> alive s \<Longrightarrow> ss_inv (s\<lparr>sw_held := b\<rparr>)"
  by (auto simp: ss_inv_def alive_def sess_ok_def split: option.splits)

lemma tame_refl: "ss_inv s \<Longrightarrow> tame s s"
  by (simp add: tame_def good_refl)

lemma tame_inv: "tame s s' \<Longrightarrow> ss_inv s'"
  by (simp add: tame_def good_def)

lemma tame_out: "tame s s' \<Longrightarrow> out_ok s \<Longrightarrow> sw_sess s \<noteq> None \<Longrightarrow> out_ok s'"
  by (fastforce simp: tame_def good_def keeps_def out_ok_def)

lemma tame_sess:
  "tame s s' \<Longrightarrow> sw_sess s = Some se \<Longrightarrow> \<exists>se'. sw_sess s' = Some se' \<and> se_terminated se' = se_terminated se \<and>
     se_established se' = se_established se \<and> (req_of se' = Some R_INVITE \<longrightarrow> req_of se = Some R_INVITE)"
  by (simp add: tame_def good_def keeps_def)

lemma tame_alive: "good s s' \<Longrightarrow> sw_sess s = Some se \<Longrightarrow> se_terminated se = 0 \<Longrightarrow> tame s s'"
  by (simp add: tame_def)

lemma tame_trans: "tame s t \<Longrightarrow> tame t v \<Longrightarrow> tame s v"
proof -
  assume a: "tame s t" "tame t v"
  then have "good s v" using keeps_trans by (auto simp: tame_def good_def)
  moreover have "\<exists>se'. sw_sess v = Some se' \<and> req_of se' = req_of se" if b: "sw_sess s = Some se" "se_terminated se \<noteq> 0" for se
  proof -
    obtain x where x: "sw_sess t = Some x" "se_terminated x \<noteq> 0" "req_of x = req_of se"
      using a(1) b by (fastforce simp: tame_def good_def keeps_def)
    then show ?thesis using a(2) by (auto simp: tame_def)
  qed
  ultimately show ?thesis by (simp add: tame_def)
qed

lemma tame_put:
  assumes "ss_inv s" "sw_sess s = Some se" "sess_ok se' (sw_refs s) (sw_held s) (sw_log s)" "se_terminated se' = se_terminated se"
    "se_established se' = se_established se" "req_of se' = req_of se"
  shows "tame s (put_sess se' s)"
  using good_put [OF assms(1-5)] assms by (simp add: tame_def)

lemma tame_step: "tame s s' \<Longrightarrow> gives m (\<lambda>(err, t). tame s' t) \<Longrightarrow> gives m (\<lambda>(err, t). tame s t)"
  by (auto simp: gives_def intro: tame_trans)

lemma tame_bind:
  "gives m (\<lambda>(err, s'). tame s s') \<Longrightarrow> (\<And>err s'. tame s s' \<Longrightarrow> gives (f err s') Q) \<Longrightarrow> gives (m \<bind> (\<lambda>(err, s'). f err s')) Q"
  by (rule gives_pairI) (auto simp: gives_def)

lemma tame_bind3:
  "gives m (\<lambda>(err, d, s'). tame s s') \<Longrightarrow> (\<And>err d s'. tame s s' \<Longrightarrow> gives (f err d s') Q) \<Longrightarrow>
   gives (m \<bind> (\<lambda>(err, d, s'). f err d s')) Q"
  by (cases m) (auto simp: gives_def)

lemma ack_tame: "sipsess_ack e s = (err, s') \<Longrightarrow> ss_inv s \<Longrightarrow> tame s s' \<and> sw_sess s' = sw_sess s"
  using ack_good [of e s err s'] by (simp add: tame_def)

lemma prack_tame: "ss_inv s \<Longrightarrow> gives (sipsess_prack e d s) (\<lambda>(err, s'). tame s s')"
proof (cases "\<exists>se. sw_sess s = Some se \<and> se_terminated se \<noteq> 0")
  case True
  assume "ss_inv s"
  then show ?thesis using True by (auto simp: sipsess_prack_def gives_def tame_refl)
next
  case False
  assume "ss_inv s"
  then show ?thesis using False sipsess_prack_good [of s e d] by (auto simp: gives_def tame_def)
qed

lemma alive_handler: "ss_inv s \<Longrightarrow> sw_sess s = Some se \<Longrightarrow> \<not> silent se \<Longrightarrow> se_terminated se = 0"
  using live_handlers ss_inv_Some by blast

lemma handler_good:
  assumes "ss_inv s" "sw_sess s = Some se" "\<not> silent se" "c \<noteq> C_estab" "c \<noteq> C_progr" "\<And>err. c \<noteq> C_close err"
    and "(api e)\<^sup>*\<^sup>* (say (Se_call c) s) s'"
  shows "tame s s'"
proof -
  have t: "se_terminated se = 0" using alive_handler [OF assms(1-3)] .
  then have "ss_inv (say (Se_call c) s)" using ss_inv_call [OF assms(1,2)] assms(4-6) by blast
  then have "good (say (Se_call c) s) s'" by (rule apis_good [OF assms(7)])
  then have "good s s'" by (rule good_trans) simp
  then show ?thesis using t assms(2) by (simp add: tame_def)
qed

lemma estab_handler_inv:
  assumes "ss_inv s" "sw_sess s = Some se" "\<not> silent se" "se_established se" "\<not> announced (sw_log s)"
    and "(api_end e)\<^sup>*\<^sup>* (say (Se_call C_estab) s) s'"
  shows "ss_inv s'"
  using api_ends_inv [OF assms(6)] ss_inv_call [OF assms(1,2) alive_handler [OF assms(1-3)], of C_estab] assms(4,5) by blast

context sess_user
begin

lemma call_desc_tame: "ss_inv s \<Longrightarrow> sw_sess s = Some se \<Longrightarrow> se_desch se = H_user \<Longrightarrow> gives (sess_desch u s) (\<lambda>(err, d, s'). tame s s')"
  using handler_good [of s se C_desc e] by (fastforce simp: sess_desch_def gives_def silent_def dest: desc_api)

lemma call_offer_tame: "ss_inv s \<Longrightarrow> gives (sess_offerh u m s) (\<lambda>(err, d, s'). tame s s')"
  using handler_good [of s _ C_offer e]
  by (fastforce simp: sess_offerh_def gives_def silent_def bind_eq_Some_conv tame_refl dest: offer_api split: if_splits)

lemma call_answer_tame: "ss_inv s \<Longrightarrow> gives (sess_answerh u m s) (\<lambda>(err, s'). tame s s')"
  using handler_good [of s _ C_answer e]
  by (fastforce simp: sess_answerh_def gives_def silent_def bind_eq_Some_conv tame_refl dest: answer_api split: if_splits)

lemma call_redirect_tame: "ss_inv s \<Longrightarrow> gives (sess_redirecth u m s) (tame s)"
  using handler_good [of s _ C_redirect e]
  by (fastforce simp: sess_redirecth_def gives_def silent_def bind_eq_Some_conv dest: redirect_api split: if_splits)

lemma call_prack_tame: "ss_inv s \<Longrightarrow> gives (sess_prackh u m s) (tame s)"
  using handler_good [of s _ C_prack e]
  by (fastforce simp: sess_prackh_def gives_def silent_def bind_eq_Some_conv dest: prack_api split: if_splits)

lemma call_progr_inv:
  assumes i: "ss_inv s" and v: "inviting s"
  shows "gives (sess_progrh u m s) (\<lambda>s'. ss_inv s' \<and> inviting s')"
proof (unfold sess_progrh_def, rule gives_bindI, intro gives_if)
  fix se
  assume se: "sw_sess s = Some se" "se_progrh se = H_user"
  let ?s = "say (Se_call C_progr) s"
  have "\<not> announced (sw_log s)" using ss_inv_Some [OF i se(1)] v se(1) by (auto simp: sess_ok_def inviting_def)
  then have "ss_inv ?s" using ss_inv_call [OF i se(1), of C_progr] alive_handler [OF i se(1)] se by (auto simp: silent_def)
  moreover have "inviting ?s" using v by (simp add: inviting_def)
  ultimately show "gives (u_progr u m ?s) (\<lambda>s'. ss_inv s' \<and> inviting s')"
    using api_ends_inv api_ends_inviting by (auto simp: gives_def dest!: progr_api)
qed (use i v in \<open>simp add: gives_def\<close>)

lemma call_estab_inv:
  "ss_inv s \<Longrightarrow> (\<And>se. sw_sess s = Some se \<Longrightarrow> se_established se) \<Longrightarrow> \<not> announced (sw_log s) \<Longrightarrow> gives (sess_estabh u m s) ss_inv"
  using estab_handler_inv [of s _ e]
  by (fastforce simp: sess_estabh_def gives_def silent_def bind_eq_Some_conv dest: estab_api split: if_splits)

text \<open>The end of a session that its peer or an error closes.\<close>

lemma sipsess_terminate_inv:
  assumes i: "ss_inv s"
  shows "gives (sipsess_terminate e u err msg s) ss_inv"
proof (unfold sipsess_terminate_def, rule gives_bindI, intro gives_if)
  show "gives (Some s) ss_inv" using i by (simp add: gives_def)
  fix se :: sipsess
  assume se: "sw_sess s = Some se" and "\<not> se_terminated se \<noteq> 0"
  then have t: "se_terminated se = 0" by simp
  have ok: "sess_ok se (sw_refs s) (sw_held s) (sw_log s)" "orderly (sw_log s)" using i se by (simp_all add: ss_inv_def)
  show "gives (do {
       (wait, s) \<leftarrow> termwait e s;
       s \<leftarrow> (if wait then Some s else do { (_, s) \<leftarrow> terminate_sess e s; Some s });
       if se_closeh se = H_user then u_close u err msg (say (Se_call (C_close err)) s) else Some s }) ss_inv"
  proof (rule gives_pairI, rule gives_bindI)
    fix wait s1 s2
    assume w: "termwait e s = Some (wait, s1)"
      and s2: "(if wait then Some s1 else do { (_, s) \<leftarrow> terminate_sess e s1; Some s }) = Some s2"
    obtain se1 zs where c: "waited s se wait s1 se1" "sw_log s1 = sw_log s @ zs" "set zs \<subseteq> {Se_reply 486, Se_cancel}"
      using givesD [OF termwait_waited w, of se] se by (auto simp: waited_def)
    note lg = orderly_plain [OF c(3) ok(2)] plain_log [OF c(3), of "sw_log s"]
    have pt: "se_peerterm se1 \<longrightarrow> Se_peerterm \<in> set (sw_log s1)" using c ok by (auto simp: waited_def sess_ok_def)
    have "counted se1 (sw_refs s1) (sw_held s1)" if "req_of se1 = Some R_REINVITE"
    proof -
      have "req_of se = Some R_REINVITE" using that c(1) by (simp add: waited_def)
      then have "se_req se \<noteq> None" by (cases "se_req se") (simp_all add: req_of_def)
      then show ?thesis using c(1) ok t by (simp add: waited_def counted_def sess_ok_def)
    qed
    then have k: "sess_ok se1 (sw_refs s1) (sw_held s1) (sw_log s1)" "orderly (sw_log s1)" "\<not> ended (sw_log s1)"
      using c(1,2) ok t lg pt unfolding waited_def sess_ok_def by (simp_all add: silent_def)
    have "ss_inv s2 \<and> \<not> ended (sw_log s2) \<and> (\<exists>se2. sw_sess s2 = Some se2 \<and> se_terminated se2 \<noteq> 0)"
    proof (cases wait)
      case True
      then show ?thesis using s2 k c(1) by (auto simp: ss_inv_def waited_def)
    next
      case False
      have "se_req se = None" using c(1) False by (cases "se_req se") (simp_all add: waited_def)
      then have se1: "sw_sess s1 = Some se1" "se_req se1 = None" "silent se1" "se_terminated se1 = 1"
        using c(1) by (simp_all add: waited_def req_of_def)
      obtain b where b: "terminate_sess e s1 = Some (b, s2)" using s2 False by (auto simp: bind_eq_Some_conv)
      obtain se2 where d: "sw_held s2 = sw_held s1" "sw_refs s2 = sw_refs s1 + of_bool b" "sw_sess s2 = Some se2" "se_terminated se2 = 2"
        "silent se2" "se_established se2 = se_established se1" "se_peerterm se2 = se_peerterm se1"
        "if \<not> se_established se1 \<or> se_peerterm se1
         then \<not> b \<and> sw_log s2 = sw_log s1 \<and> req_of se2 = None
         else (\<exists>err. sw_log s2 = sw_log s1 @ [Se_req R_BYE err]) \<and> req_of se2 = (if b then Some R_BYE else None)"
        using givesD [OF terminate_sess_cases [OF se1(1)] b] se1 by (auto simp: req_of_def)
      have "sess_ok se2 (sw_refs s2) (sw_held s2) (sw_log s2)" "orderly (sw_log s2)" "\<not> ended (sw_log s2)"
        using d k pt by (auto simp: sess_ok_def excused_def orderly_append split: if_splits)
      then show ?thesis using d by (simp add: ss_inv_def)
    qed
    then have "ss_inv (say (Se_call (C_close err)) s2)" "ss_inv s2"
      by (auto simp: ss_inv_def orderly_append sess_ok_def)
    then show "gives (if se_closeh se = H_user then u_close u err msg (say (Se_call (C_close err)) s2) else Some s2) ss_inv"
      using api_ends_inv by (auto simp: gives_def dest!: close_api)
  qed
qed

lemma invite_out_inv:
  assumes "ss_inv s" "out_ok s"
  shows "gives (invite_out e u err msg s) ss_inv"
proof (unfold invite_out_def, rule gives_bindI, intro gives_if sipsess_terminate_inv assms(1))
  fix se
  assume se: "sw_sess s = Some se" "se_terminated se \<noteq> 0"
  have "deref_ok se (sw_refs s) (sw_held s) (sw_log s)"
    by (rule ok_deref [OF ss_inv_Some [OF assms(1) se(1)] se(2)]) (use assms(2) se in \<open>auto simp: out_ok_def\<close>)
  then show "gives (deref_sess e s) ss_inv" using se assms(1) by (intro deref_inv) (simp_all add: ss_inv_def)
qed

end

section \<open>Responses\<close>

lemma fresh_req:
  "sess_ok se r h l \<Longrightarrow> se_terminated se = 0 \<Longrightarrow> \<not> se_established se \<Longrightarrow> se_replyl se = [] \<Longrightarrow> \<not> se_st se \<Longrightarrow>
   q = None \<or> (\<exists>x. q = Some (R_INVITE, x)) \<Longrightarrow> sess_ok (se\<lparr>se_req := q\<rparr>) r h l"
  by (auto simp: sess_ok_def req_of_def)

lemma clear_req: "sess_ok se r h l \<Longrightarrow> sess_ok (se\<lparr>se_req := None\<rparr>) r h l"
  by (auto simp: sess_ok_def silent_def)

lemma dialog_response_ok [simp]:
  "sess_ok (snd (dialog_response msg se)) r h l = sess_ok se r h l" "req_of (snd (dialog_response msg se)) = req_of se"
  "se_terminated (snd (dialog_response msg se)) = se_terminated se" "se_established (snd (dialog_response msg se)) = se_established se"
  "se_req (snd (dialog_response msg se)) = se_req se" "se_modify_pending (snd (dialog_response msg se)) = se_modify_pending se"
  by (simp_all add: dialog_response_def)

lemma tame_dialog:
  assumes "ss_inv s" "sw_sess s = Some se" "dialog_response msg se = (err, se')"
  shows "tame s (put_sess se' s)"
proof -
  have "se' = snd (dialog_response msg se)" using assms(3) by simp
  then show ?thesis using tame_put [OF assms(1,2), of se'] ss_inv_Some [OF assms(1,2)] by simp
qed

lemma reinvite_log: "gives (sipsess_reinvite e b s) (\<lambda>(err, s'). announced (sw_log s') = announced (sw_log s))"
proof (unfold sipsess_reinvite_def, rule gives_bindI, intro gives_if, simp add: gives_Some, rule gives_pairI, rule gives_bindI, rule gives_Some)
  fix se err s2 se2
  assume se: "sw_sess s = Some se"
    and d: "drequest e R_REINVITE (if b then put_sess (se\<lparr>se_ls := sip_loopstate_reset (se_ls se)\<rparr>) s else s) = Some (err, s2)"
  have "announced (sw_log s2) = announced (sw_log s)"
    using givesD [OF drequest_cases d, of "if b then se\<lparr>se_ls := sip_loopstate_reset (se_ls se)\<rparr> else se"] se
    by (cases b) simp_all
  then show "case (err, if err \<noteq> 0 then s2 else put_sess (if se_desc se2 \<noteq> None
        then se2\<lparr>se_modify_pending := False, se_neg_state := SDP_NEG_LOCAL_OFFER\<rparr> else se2\<lparr>se_modify_pending := False\<rparr>) s2)
      of (err, s') \<Rightarrow> announced (sw_log s') = announced (sw_log s)"
    by simp
qed

text \<open>Fields that the invariant does not read.\<close>

lemma tame_neg: "ss_inv s \<Longrightarrow> sw_sess s = Some se \<Longrightarrow> tame s (put_sess (se\<lparr>se_neg_state := x\<rparr>) s)"
  by (rule tame_put) (simp_all add: ss_inv_Some)

lemma tame_desc: "ss_inv s \<Longrightarrow> sw_sess s = Some se \<Longrightarrow> tame s (put_sess (se\<lparr>se_desc := x\<rparr>) s)"
  by (rule tame_put) (simp_all add: ss_inv_Some)

lemma tame_cases:
  "ss_inv s \<Longrightarrow> sw_sess s = Some se \<Longrightarrow> tame s (put_sess (if b then se\<lparr>se_neg_state := x\<rparr> else se) s)"
  by (cases b) (auto intro!: tame_put simp: ss_inv_Some)

lemma out_okD: "out_ok s \<Longrightarrow> tame s s' \<Longrightarrow> sw_sess s = Some se \<Longrightarrow> out_ok s'"
  using tame_out by auto

lemma tame_step3: "tame s s' \<Longrightarrow> gives m (\<lambda>(err, d, t). tame s' t) \<Longrightarrow> gives m (\<lambda>(err, d, t). tame s t)"
  by (fastforce simp: gives_def intro: tame_trans)

lemma response_loops_tame: "ss_inv s \<Longrightarrow> gives (response_loops msg s) (\<lambda>(b, s'). tame s s')"
  unfolding response_loops_def
  by (rule gives_bindI) (auto simp: gives_def Let_def split: prod.splits intro!: tame_put dest: ss_inv_Some)

lemma sw_sess_tame: "tame s s' \<Longrightarrow> sw_sess s = Some se \<Longrightarrow> sw_sess s' \<noteq> None"
  using tame_sess [of s s' se] by auto

lemma deref_done:
  assumes "ss_inv s" "sw_sess s = Some se" "se_terminated se \<noteq> 0" "req_of se \<noteq> Some R_REINVITE \<or> se_terminated se = 2"
  shows "gives (deref_sess e s) ss_inv"
  by (rule deref_inv [OF assms(2) _ ok_deref [OF ss_inv_Some [OF assms(1,2)] assms(3,4)]])
     (use assms in \<open>simp add: ss_inv_def\<close>)

lemma bye_inv:
  fixes s :: "'u sw"
  assumes i: "ss_inv s" and se: "sw_sess s = Some se" "se_terminated se = 2"
  shows "gives (sipsess_bye e False s) (\<lambda>(err, s'). ss_inv s' \<and> (\<exists>se'. sw_sess s' = Some se' \<and> se_terminated se' = 2))"
proof (cases "se_req se")
  case None
  have ok: "sess_ok se (sw_refs s) (sw_held s) (sw_log s)" "orderly (sw_log s)" using i se by (simp_all add: ss_inv_def)
  have "gives (drequest e R_BYE s) (\<lambda>(err, s'). ss_inv s' \<and> (\<exists>se'. sw_sess s' = Some se' \<and> se_terminated se' = 2))"
  proof (rule gives_conseq [OF drequest_cases [OF se(1)]], clarify)
    fix err and s' :: "'u sw"
    assume c: "sw_refs s' = sw_refs s" "sw_held s' = sw_held s" "sw_log s' = sw_log s @ [Se_req R_BYE err]"
      "if err = 0 then sw_sess s' = Some (se\<lparr>se_req := Some (R_BYE, new_req)\<rparr>)
      else sw_sess s' = Some se \<or> sw_sess s' = Some (se\<lparr>se_req := None\<rparr>)"
    have "sess_ok (se\<lparr>se_req := q\<rparr>) (sw_refs s) (sw_held s) (sw_log s @ [Se_req R_BYE err])" if "q = None \<or> q = Some (R_BYE, new_req)" for q
      using ok(1) se(2) that by (auto simp: sess_ok_def silent_def)
    moreover have "sess_ok se (sw_refs s) (sw_held s) (sw_log s @ [Se_req R_BYE err])" using sess_ok_say [OF ok(1)] by simp
    ultimately show "ss_inv s' \<and> (\<exists>se'. sw_sess s' = Some se' \<and> se_terminated se' = 2)"
      using c ok(2) se by (auto simp: ss_inv_def orderly_append split: if_splits)
  qed
  then show ?thesis using None se by (simp add: sipsess_bye_def)
qed (use i se in \<open>simp add: sipsess_bye_def gives_def\<close>)

context sess_user
begin

lemma offer_tame:
  "ss_inv s \<Longrightarrow> sw_sess s = Some se \<Longrightarrow> gives (sess_offerh u m (put_sess (se\<lparr>se_neg_state := x\<rparr>) s)) (\<lambda>(err, d, s'). tame s s')"
  using tame_neg [of s se x] by (blast intro: tame_step3 call_offer_tame tame_inv)

lemma answer_tame:
  "ss_inv s \<Longrightarrow> sw_sess s = Some se \<Longrightarrow> gives (sess_answerh u m (put_sess (se\<lparr>se_neg_state := x\<rparr>) s)) (\<lambda>(err, s'). tame s s')"
  using tame_neg [of s se x] by (blast intro: tame_step call_answer_tame tame_inv)

lemma answer_tame3:
  "ss_inv s \<Longrightarrow> sw_sess s = Some se \<Longrightarrow>
   gives (do { (err, s) \<leftarrow> sess_answerh u m (put_sess (se\<lparr>se_neg_state := x\<rparr>) s); Some (err, None, s) }) (\<lambda>(err, d, s'). tame s s')"
  by (rule tame_bind [OF answer_tame]) (simp_all add: gives_Some)

lemma send_handler_inv: "ss_inv s \<Longrightarrow> gives (send_handler_invite e u s) (\<lambda>(err, s'). tame s s' \<and> (fresh s \<longrightarrow> fresh s'))"
proof (unfold send_handler_invite_def, rule gives_bindI)
  fix se :: sipsess
  assume i: "ss_inv s" and se: "sw_sess s = Some se"
  let ?Q = "\<lambda>(err, d, s'). tame s s' \<and> (fresh s \<longrightarrow> fresh s')"
  have d: "gives (if se_desch se = H_user then sess_desch u s else Some (OK, None, s)) ?Q"
  proof (intro gives_if)
    assume h: "se_desch se = H_user"
    have "ss_inv (say (Se_call C_desc) s)"
      by (rule ss_inv_call [OF i se]) (use alive_handler [OF i se] h in \<open>auto simp: silent_def\<close>)
    then have "fresh s \<Longrightarrow> (api e)\<^sup>*\<^sup>* (say (Se_call C_desc) s) s' \<Longrightarrow> fresh s'" for s'
      using apis_fresh [of e "say (Se_call C_desc) s" s'] by (simp add: fresh_def)
    then show "gives (sess_desch u s) ?Q" using call_desc_tame [OF i se h] by (auto simp: gives_def sess_desch_def dest!: desc_api)
  qed (use i in \<open>simp add: gives_def tame_refl\<close>)
  show "gives ((if se_desch se = H_user then sess_desch u s else Some (OK, None, s)) \<bind> (\<lambda>(err, desc, s).
     if err \<noteq> 0 then Some (err, s)
     else do {
       se \<leftarrow> sw_sess s;
       let (n, s) = tick s;
       Some (ev_rep e n, if desc \<noteq> None then put_sess (se\<lparr>se_neg_state := SDP_NEG_LOCAL_OFFER\<rparr>) s else s) }))
     (\<lambda>(err, s'). tame s s' \<and> (fresh s \<longrightarrow> fresh s'))"
  proof (rule gives_bindI, clarify, intro gives_if, unfold tick_eq Let_def prod.case)
    fix err desc s'
    assume "(if se_desch se = H_user then sess_desch u s else Some (OK, None, s)) = Some (err, desc, s')"
    then have g: "tame s s'" "fresh s \<longrightarrow> fresh s'" using givesD [OF d] by force+
    then show "gives (Some (err, s')) (\<lambda>(err, s'). tame s s' \<and> (fresh s \<longrightarrow> fresh s'))" by (simp add: gives_def)
    show "gives (sw_sess s' \<bind> (\<lambda>se. Some (ev_rep e (sw_next s'),
        if desc \<noteq> None then put_sess (se\<lparr>se_neg_state := SDP_NEG_LOCAL_OFFER\<rparr>) (s'\<lparr>sw_next := sw_next s' + 1\<rparr>)
        else s'\<lparr>sw_next := sw_next s' + 1\<rparr>))) (\<lambda>(err, s'). tame s s' \<and> (fresh s \<longrightarrow> fresh s'))"
    proof (rule gives_bindI, rule gives_Some, unfold prod.case)
      fix se' :: sipsess
      let ?t = "s'\<lparr>sw_next := sw_next s' + 1\<rparr>"
      assume se': "sw_sess s' = Some se'"
      have "tame s' ?t" using tame_inv [OF g(1)] by (simp add: tame_def good_def)
      moreover have "tame ?t (put_sess (se'\<lparr>se_neg_state := SDP_NEG_LOCAL_OFFER\<rparr>) ?t)"
        using tame_inv [OF g(1)] se' by (intro tame_neg) simp_all
      ultimately have "tame s ?t" "tame s (put_sess (se'\<lparr>se_neg_state := SDP_NEG_LOCAL_OFFER\<rparr>) ?t)"
        using g(1) tame_trans by blast+
      moreover have "fresh s' \<Longrightarrow> fresh ?t \<and> fresh (put_sess (se'\<lparr>se_neg_state := SDP_NEG_LOCAL_OFFER\<rparr>) ?t)"
        using se' by (auto simp: fresh_def)
      ultimately show "tame s (if desc \<noteq> None then put_sess (se'\<lparr>se_neg_state := SDP_NEG_LOCAL_OFFER\<rparr>) ?t else ?t) \<and>
        (fresh s \<longrightarrow> fresh (if desc \<noteq> None then put_sess (se'\<lparr>se_neg_state := SDP_NEG_LOCAL_OFFER\<rparr>) ?t else ?t))"
        using g(2) by simp
    qed
  qed
qed

lemma send_invite_inv:
  assumes i: "ss_inv s" and f: "fresh s" and q: "\<And>se. sw_sess s = Some se \<Longrightarrow> se_req se = None"
  shows "gives (invite e u s) (\<lambda>(err, s'). ss_inv s' \<and> alive s')"
proof -
  let ?Q = "\<lambda>(err, s'). ss_inv s' \<and> alive s'"
  have put: "ss_inv (say (Se_req R_INVITE err) (put_sess (se\<lparr>se_req := x\<rparr>) s')) \<and> alive (say (Se_req R_INVITE err) (put_sess (se\<lparr>se_req := x\<rparr>) s'))"
    if a: "ss_inv s'" "fresh s'" "sw_sess s' = Some se" "x = None \<or> x = Some (R_INVITE, new_req)" for s' :: "'a sw" and se x err
  proof -
    have "sess_ok (se\<lparr>se_req := x\<rparr>) (sw_refs s') (sw_held s') (sw_log s')"
      using fresh_req [OF ss_inv_Some [OF a(1,3)]] a by (auto simp: fresh_def)
    then have "ss_inv (put_sess (se\<lparr>se_req := x\<rparr>) s')" by (rule ss_inv_put [OF a(1)])
    then show ?thesis using a by (auto simp: alive_def fresh_def intro!: ss_inv_say)
  qed
  obtain se where se: "sw_sess s = Some se" "se_terminated se = 0" using f by (auto simp: fresh_def)
  define t where "t = put_sess (se\<lparr>se_modify_pending := False\<rparr>) s\<lparr>sw_next := sw_next s + 1\<rparr>"
  have t: "ss_inv t" "fresh t" "sw_sess t = Some (se\<lparr>se_modify_pending := False\<rparr>)"
    using i f se ss_inv_Some [OF i se(1)] by (auto simp: t_def fresh_def intro!: ss_inv_put)
  have n: "se\<lparr>se_modify_pending := False\<rparr> = se\<lparr>se_modify_pending := False, se_req := None\<rparr>" using q [OF se(1)] by simp
  have w: "gives (do { (err, s) \<leftarrow> (if b then send_handler_invite e u t else Some (OK, t));
         se \<leftarrow> sw_sess s;
         Some (err, say (Se_req R_INVITE err) (put_sess (se\<lparr>se_req := (if err \<noteq> 0 then None else Some (R_INVITE, new_req))\<rparr>) s)) }) ?Q" for b
  proof (rule gives_pairI, rule gives_bindI, rule gives_Some, unfold prod.case)
    fix err s' se'
    assume a: "(if b then send_handler_invite e u t else Some (OK, t)) = Some (err, s')" "sw_sess s' = Some se'"
    have "ss_inv s' \<and> fresh s'" using a(1) t(1,2) givesD [OF send_handler_inv [OF t(1)]] tame_inv by (auto split: if_splits)
    then show "ss_inv (say (Se_req R_INVITE err) (put_sess (se'\<lparr>se_req := (if err \<noteq> 0 then None else Some (R_INVITE, new_req))\<rparr>) s')) \<and>
      alive (say (Se_req R_INVITE err) (put_sess (se'\<lparr>se_req := (if err \<noteq> 0 then None else Some (R_INVITE, new_req))\<rparr>) s'))"
      using put [of s' se' None err] put [of s' se' "Some (R_INVITE, new_req)" err] a(2) by (cases "err = 0") simp_all
  qed
  have "gives (case ev_req e (sw_next s) of
       Dr_failed err \<Rightarrow> Some (nz err, say (Se_req R_INVITE (nz err)) t)
     | Dr_dropped err \<Rightarrow> do { se \<leftarrow> sw_sess t; Some (nz err, say (Se_req R_INVITE (nz err)) (put_sess (se\<lparr>se_req := None\<rparr>) t)) }
     | Dr_sent now \<Rightarrow> do {
         (err, s) \<leftarrow> (if now then send_handler_invite e u t else Some (OK, t));
         se \<leftarrow> sw_sess s;
         Some (err, say (Se_req R_INVITE err) (put_sess (se\<lparr>se_req := (if err \<noteq> 0 then None else Some (R_INVITE, new_req))\<rparr>) s)) }) ?Q"
  proof (cases "ev_req e (sw_next s)")
    case (Dr_failed err)
    have "alive (say (Se_req R_INVITE (nz err)) t)" using t(3) se by (simp add: alive_def)
    then show ?thesis using Dr_failed t by (simp add: gives_def ss_inv_say)
  next
    case (Dr_sent b)
    then show ?thesis using w [of b] by (simp only: dreq_res.case)
  qed (use put [OF t] t(3) in \<open>simp add: gives_Some\<close>)
  then show ?thesis by (simp only: invite_def t_def tick_eq Let_def se(1) Option.bind_lunit prod.case sw_simps)
qed

lemma call_progr_keeps:
  assumes i: "ss_inv s" and r: "sw_sess s = Some se" "req_of se = Some R_INVITE"
  shows "gives (sess_progrh u m s) (\<lambda>s'. ss_inv s' \<and> (\<forall>se. sw_sess s' = Some se \<longrightarrow> req_of se = Some R_INVITE))"
proof (cases "se_terminated se = 0")
  case True
  then have "inviting s" using r by (simp add: inviting_def)
  then show ?thesis by (intro gives_conseq [OF call_progr_inv [OF i]]) (simp_all add: inviting_def)
next
  case False
  then have "silent se" using ss_inv_Some [OF i r(1)] by (simp add: sess_ok_def)
  then show ?thesis using i r by (simp add: sess_progrh_def gives_def silent_def)
qed

lemma invite_rel100_inv:
  assumes i: "ss_inv s" and o: "out_ok s"
  shows "gives (invite_rel100 e u msg s) ss_inv"
proof (unfold invite_rel100_def Let_def, rule gives_bindI, intro gives_if invite_out_inv i o)
  fix se
  assume se: "sw_sess s = Some se"
  have o': "out_ok s' \<and> ss_inv s'" if "tame s s'" for s'
    using tame_out [OF that o] tame_inv [OF that] se by simp
  have f: "gives (if sm_body msg > 0 \<and> se_neg_state se = SDP_NEG_LOCAL_OFFER
          then Some (OK, None, put_sess (se\<lparr>se_neg_state := SDP_NEG_DONE\<rparr>) s)
          else if sm_body msg > 0 \<and> se_neg_state se = SDP_NEG_NONE
          then sess_offerh u msg (put_sess (se\<lparr>se_neg_state := SDP_NEG_REMOTE_OFFER\<rparr>) s)
          else Some (OK, None, s)) (\<lambda>(err, d, s'). tame s s')"
    by (intro gives_if offer_tame [OF i se]) (use tame_neg [OF i se] tame_refl [OF i] in \<open>simp_all add: gives_Some\<close>)
  show "gives (do {
       (err, desc, s) \<leftarrow>
         (if sm_body msg > 0 \<and> se_neg_state se = SDP_NEG_LOCAL_OFFER
          then Some (OK, None, put_sess (se\<lparr>se_neg_state := SDP_NEG_DONE\<rparr>) s)
          else if sm_body msg > 0 \<and> se_neg_state se = SDP_NEG_NONE
          then sess_offerh u msg (put_sess (se\<lparr>se_neg_state := SDP_NEG_REMOTE_OFFER\<rparr>) s)
          else Some (OK, None, s));
       (err2, s) \<leftarrow> sipsess_prack e desc s;
       if err \<noteq> 0 \<or> err2 \<noteq> 0 then invite_out e u (err OR err2) (Some msg) s
       else do {
         se \<leftarrow> sw_sess s;
         Some (put_sess ((if se_neg_state se = SDP_NEG_REMOTE_OFFER \<and> left desc > 0 then se\<lparr>se_neg_state := SDP_NEG_DONE\<rparr> else se)
            \<lparr>se_desc := None\<rparr>) s) } }) ss_inv"
  proof (rule tame_bind3 [OF f])
    fix err desc s1
    assume t1: "tame s s1"
    show "gives (do {
       (err2, s) \<leftarrow> sipsess_prack e desc s1;
       if err \<noteq> 0 \<or> err2 \<noteq> 0 then invite_out e u (err OR err2) (Some msg) s
       else do {
         se \<leftarrow> sw_sess s;
         Some (put_sess ((if se_neg_state se = SDP_NEG_REMOTE_OFFER \<and> left desc > 0 then se\<lparr>se_neg_state := SDP_NEG_DONE\<rparr> else se)
            \<lparr>se_desc := None\<rparr>) s) } }) ss_inv"
    proof (rule tame_bind [OF prack_tame [OF tame_inv [OF t1]]], intro gives_if gives_bindI gives_Some)
      fix err2 s2
      assume "tame s1 s2"
      then have t2: "tame s s2" using tame_trans [OF t1] by blast
      show "gives (invite_out e u (err OR err2) (Some msg) s2) ss_inv" using o' [OF t2] by (intro invite_out_inv) simp_all
      show "ss_inv (put_sess ((if se_neg_state se = SDP_NEG_REMOTE_OFFER \<and> left desc > 0 then se\<lparr>se_neg_state := SDP_NEG_DONE\<rparr> else se)
            \<lparr>se_desc := None\<rparr>) s2)" if "sw_sess s2 = Some se" for se
        using o' [OF t2] that by (auto intro!: ss_inv_put simp: ss_inv_Some)
    qed
  qed
qed

end

context sess_user
begin

lemma invite_progress_inv:
  assumes i: "ss_inv s" and r: "sw_sess s = Some se" "req_of se = Some R_INVITE"
  shows "gives (invite_progress e u msg s) ss_inv"
proof (unfold invite_progress_def, rule gives_bindI, intro gives_if gives_Some)
  fix s1
  assume "sess_progrh u msg s = Some s1"
  then have p: "ss_inv s1" "\<And>se. sw_sess s1 = Some se \<Longrightarrow> req_of se = Some R_INVITE"
    using givesD [OF call_progr_keeps [OF i r]] by auto
  show "ss_inv s1" by (rule p)
  have o: "out_ok s1" using p by (auto simp: out_ok_def)
  show "gives (sw_sess s1 \<bind> (\<lambda>se.
       let (err, se) = (if sm_to_tag msg \<and> sm_contact msg then dialog_response msg se else (OK, se));
           s = put_sess se s1
       in if err \<noteq> 0 then invite_out e u err (Some msg) s
       else do {
         (err, s) \<leftarrow> (if sm_body msg > 0 \<and> se_neg_state se = SDP_NEG_LOCAL_OFFER then sess_answerh u msg s else Some (OK, s));
         if err \<noteq> 0 then invite_out e u err (Some msg) s
         else do {
           se \<leftarrow> sw_sess s;
           if sm_req100rel msg \<and> se_rel100_supported se then invite_rel100 e u msg s else Some s } })) ss_inv"
  proof (rule gives_bindI, unfold Let_def, rule gives_prod)
    fix se1 err se2
    assume se1: "sw_sess s1 = Some se1"
      and d: "(if sm_to_tag msg \<and> sm_contact msg then dialog_response msg se1 else (OK, se1)) = (err, se2)"
    let ?s = "put_sess se2 s1"
    have "tame s1 ?s" 
      using d tame_dialog [OF p(1) se1, of msg err se2] tame_neg [OF p(1) se1, of "se_neg_state se1"]
      by (auto split: if_splits)
    then have s: "tame s1 ?s" "ss_inv ?s" using tame_inv by blast+
    have a: "gives (if sm_body msg > 0 \<and> se_neg_state se2 = SDP_NEG_LOCAL_OFFER then sess_answerh u msg ?s else Some (OK, ?s)) (\<lambda>(err, t). tame s1 t)"
      by (rule tame_step [OF s(1)]) (use s(2) in \<open>simp add: call_answer_tame gives_Some tame_refl\<close>)
    have k: "ss_inv t \<and> out_ok t" if "tame s1 t" for t
      using tame_out [OF that o] tame_inv [OF that] se1 by simp
    show "gives (if err \<noteq> 0 then invite_out e u err (Some msg) ?s
       else do {
         (err, s) \<leftarrow> (if sm_body msg > 0 \<and> se_neg_state se2 = SDP_NEG_LOCAL_OFFER then sess_answerh u msg ?s else Some (OK, ?s));
         if err \<noteq> 0 then invite_out e u err (Some msg) s
         else do {
           se \<leftarrow> sw_sess s;
           if sm_req100rel msg \<and> se_rel100_supported se then invite_rel100 e u msg s else Some s } }) ss_inv"
      by (intro gives_if invite_out_inv tame_bind [OF a] gives_bindI invite_rel100_inv gives_Some) (use k s in simp_all)
  qed
qed

lemma invite_established_inv:
  assumes i: "ss_inv s" and o: "out_ok s"
    and n: "\<And>se. sw_sess s = Some se \<Longrightarrow> req_of se \<noteq> Some R_INVITE \<and> \<not> se_established se"
  shows "gives (invite_established e u msg s) ss_inv"
proof (unfold invite_established_def Let_def, rule gives_bindI, intro gives_if gives_bindI)
  fix se :: sipsess
  let ?se = "se\<lparr>se_established := True\<rparr>"
  assume se: "sw_sess s = Some se"
  have "sess_ok ?se (sw_refs s) (sw_held s) (sw_log s)" "\<not> announced (sw_log s)"
    using ss_inv_Some [OF i se] n [OF se] by (auto simp: sess_ok_def silent_def counted_def)
  then have p: "ss_inv (put_sess ?se s)" "\<not> announced (sw_log (put_sess ?se s))" by (simp_all add: ss_inv_put [OF i])
  have "out_ok (put_sess ?se s)" using o se by (simp add: out_ok_def)
  then show "gives (invite_out e u OK (Some msg) (put_sess ?se s)) ss_inv" by (rule invite_out_inv [OF p(1)])
  fix s'
  assume "\<not> se_terminated ?se \<noteq> 0" and s': "(if se_modify_pending ?se then do { (_, s) \<leftarrow> sipsess_reinvite e True (put_sess ?se s); Some s }
             else Some (put_sess (?se\<lparr>se_desc := None\<rparr>) (put_sess ?se s))) = Some s'"
  then have t: "se_terminated ?se = 0" by simp
  have "good (put_sess ?se s) s'"
    using s' givesD [OF reinvite_good [OF p(1) _ t]] good_put [OF p(1), of ?se "?se\<lparr>se_desc := None\<rparr>"] ss_inv_Some [OF p(1)]
    by (force simp: bind_eq_Some_conv split: if_splits)
  then have "ss_inv s'" "\<And>se. sw_sess s' = Some se \<Longrightarrow> se_established se" by (auto simp: good_def keeps_def)
  moreover have "\<not> announced (sw_log s')"
    using s' givesD [OF reinvite_log] p(2) by (force simp: bind_eq_Some_conv split: if_splits)
  ultimately show "gives (sess_estabh u msg s') ss_inv" by (rule call_estab_inv)
qed

lemma invite_success_inv:
  assumes i: "ss_inv s" and r: "\<And>se. sw_sess s = Some se \<Longrightarrow> se_req se = None \<and> \<not> se_established se"
  shows "gives (invite_success e u msg s) ss_inv"
proof (unfold invite_success_def Let_def, rule gives_bindI, rule gives_prod)
  fix se0 err se
  assume se0: "sw_sess s = Some se0" and d: "dialog_response msg se0 = (err, se)"
  have o: "out_ok s" using r by (auto simp: out_ok_def req_of_def)
  have k: "ss_inv t \<and> out_ok t \<and> (\<forall>se. sw_sess t = Some se \<longrightarrow> req_of se \<noteq> Some R_INVITE \<and> \<not> se_established se)" if "tame s t" for t
    using tame_out [OF that o] tame_inv [OF that] tame_sess [OF that se0] r [OF se0] se0 by (auto simp: req_of_def)
  define t where "t = put_sess se s"
  have t: "tame s t" "sw_sess t = Some se" using tame_dialog [OF i se0 d] by (simp_all add: t_def)
  have a: "gives (if sm_body msg > 0 \<and> se_neg_state se = SDP_NEG_LOCAL_OFFER
          then do { (err, s) \<leftarrow> sess_answerh u msg (put_sess (se\<lparr>se_neg_state := SDP_NEG_DONE\<rparr>) t); Some (err, None, s) }
          else if sm_body msg > 0 \<and> se_neg_state se = SDP_NEG_NONE
          then sess_offerh u msg (put_sess (se\<lparr>se_neg_state := SDP_NEG_REMOTE_OFFER\<rparr>) t)
          else Some (OK, None, t)) (\<lambda>(err, d, s'). tame s s')"
    by (rule tame_step3 [OF t(1)])
       (intro gives_if answer_tame3 offer_tame gives_Some; use k [OF t(1)] t(2) in \<open>simp add: tame_refl\<close>)
  show "gives (if err \<noteq> 0 then invite_out e u err (Some msg) (put_sess se s)
     else do {
       (err, desc, s) \<leftarrow>
         (if sm_body msg > 0 \<and> se_neg_state se = SDP_NEG_LOCAL_OFFER
          then do { (err, s) \<leftarrow> sess_answerh u msg (put_sess (se\<lparr>se_neg_state := SDP_NEG_DONE\<rparr>) (put_sess se s)); Some (err, None, s) }
          else if sm_body msg > 0 \<and> se_neg_state se = SDP_NEG_NONE
          then sess_offerh u msg (put_sess (se\<lparr>se_neg_state := SDP_NEG_REMOTE_OFFER\<rparr>) (put_sess se s))
          else Some (OK, None, put_sess se s));
       case sipsess_ack e s of (err2, s) \<Rightarrow>
       if err \<noteq> 0 \<or> err2 \<noteq> 0 then invite_out e u (err OR err2) (Some msg) s
       else do {
         se \<leftarrow> sw_sess s;
         if se_neg_state se = SDP_NEG_NONE \<and> \<not> sm_body msg > 0 then invite_out e u OK (Some msg) s
         else invite_established e u msg (put_sess
           (if se_neg_state se = SDP_NEG_REMOTE_OFFER \<and> left desc > 0 then se\<lparr>se_neg_state := SDP_NEG_DONE\<rparr> else se) s) } }) ss_inv"
    unfolding t_def [symmetric]
  proof (intro gives_if, (rule invite_out_inv; use k [OF t(1)] in simp), rule tame_bind3 [OF a], rule gives_prod)
    fix err desc s1 err2 s2
    assume t1: "tame s s1" and ack: "sipsess_ack e s1 = (err2, s2)"
    have t2: "tame s s2" using ack_tame [OF ack] k [OF t1] t1 tame_trans by blast
    have p: "tame s (put_sess (if b then se\<lparr>se_neg_state := x\<rparr> else se) s2)" if "sw_sess s2 = Some se" for b x se
      using tame_cases [OF _ that] k [OF t2] t2 tame_trans by blast
    show "gives (if err \<noteq> 0 \<or> err2 \<noteq> 0 then invite_out e u (err OR err2) (Some msg) s2
       else do {
         se \<leftarrow> sw_sess s2;
         if se_neg_state se = SDP_NEG_NONE \<and> \<not> sm_body msg > 0 then invite_out e u OK (Some msg) s2
         else invite_established e u msg (put_sess
           (if se_neg_state se = SDP_NEG_REMOTE_OFFER \<and> left desc > 0 then se\<lparr>se_neg_state := SDP_NEG_DONE\<rparr> else se) s2) }) ss_inv"
      by (intro gives_if gives_bindI invite_out_inv invite_established_inv) (use k [OF t2] k [OF p] in blast)+
  qed
qed

end
lemma response_loops_put:
  assumes "response_loops m s = Some (b, s')"
  shows "\<exists>se ls. sw_sess s = Some se \<and> s' = put_sess (se\<lparr>se_ls := ls\<rparr>) s"
proof -
  obtain se where se: "sw_sess s = Some se" using assms by (auto simp: response_loops_def bind_eq_Some_conv)
  then show ?thesis using assms by (cases "sip_request_loops (se_ls se) (sm_scode m)") (auto simp: response_loops_def)
qed

context sess_user
begin

text \<open>An INVITE that is sent again, or the end of the session.\<close>

lemma invite_again_inv:
  assumes i: "ss_inv s" and r: "\<And>se. sw_sess s = Some se \<Longrightarrow> se_req se = None" and f: "fresh s"
  shows "gives (do { (err, s) \<leftarrow> invite e u s; if err \<noteq> 0 then invite_out e u err (Some msg) s else Some s }) ss_inv"
proof (rule gives_pairI, intro gives_if gives_Some)
  fix err s'
  assume "invite e u s = Some (err, s')"
  then have "ss_inv s' \<and> out_ok s'" using givesD [OF send_invite_inv [OF i f r]] alive_out by fast
  then show "gives (invite_out e u err (Some msg) s') ss_inv" "ss_inv s'" by (simp_all add: invite_out_inv)
qed

lemma invite_redirect_inv:
  assumes i: "ss_inv s" and r: "\<And>se. sw_sess s = Some se \<Longrightarrow> se_req se = None"
    and f: "\<And>se. sw_sess s = Some se \<Longrightarrow> se_terminated se = 0 \<Longrightarrow> fresh s"
  shows "gives (invite_redirect e u msg s) ss_inv"
proof -
  have o: "out_ok s" using r by (auto simp: out_ok_def req_of_def)
  show ?thesis
  proof (unfold invite_redirect_def, rule gives_bindI, intro gives_if)
    fix se :: sipsess
    assume se: "sw_sess s = Some se" and t: "\<not> se_terminated se \<noteq> 0"
    show "gives (sess_redirecth u msg s \<bind> invite_out e u OK (Some msg)) ss_inv"
      by (rule gives_bindI, rule invite_out_inv)
         (use givesD [OF call_redirect_tame [OF i]] out_okD [OF o _ se] tame_inv in blast)+
    let ?s = "put_sess (se\<lparr>se_dlg_est := True\<rparr>) s"
    have "ss_inv ?s" using i se ss_inv_Some [OF i se] by (intro ss_inv_put) simp_all
    moreover have "fresh ?s" using f [OF se] t se by (simp add: fresh_def)
    ultimately show "gives (invite e u ?s \<bind> (\<lambda>(err, s). if err \<noteq> 0 then invite_out e u err (Some msg) s else Some s)) ss_inv"
      using r [OF se] by (intro invite_again_inv) auto
  qed (use i o in \<open>simp_all add: invite_out_inv\<close>)
qed

lemma invite_failure_inv:
  assumes i: "ss_inv s" and r: "\<And>se. sw_sess s = Some se \<Longrightarrow> se_req se = None"
    and f: "\<And>se. sw_sess s = Some se \<Longrightarrow> se_terminated se = 0 \<Longrightarrow> fresh s"
  shows "gives (invite_failure e u msg s) ss_inv"
proof -
  have o: "out_ok s" using r by (auto simp: out_ok_def req_of_def)
  show ?thesis
    by (unfold invite_failure_def, rule gives_bindI, intro gives_if invite_out_inv invite_again_inv i o r f) simp_all
qed

lemma invite_resp_inv:
  assumes i: "ss_inv s" and o: "out_ok s"
    and p: "\<And>m se. msg = Some m \<Longrightarrow> sm_scode m < 200 \<Longrightarrow> sw_sess s = Some se \<Longrightarrow> req_of se = Some R_INVITE"
    and f: "\<And>m se. msg = Some m \<Longrightarrow> \<not> sm_scode m < 200 \<Longrightarrow> sw_sess s = Some se \<Longrightarrow>
        se_req se = None \<and> \<not> se_established se \<and> (se_terminated se = 0 \<longrightarrow> fresh s)"
  shows "gives (invite_resp_handler e u err msg s) ss_inv"
proof (unfold invite_resp_handler_def, intro gives_option gives_if invite_out_inv i o)
  fix m
  assume m: "msg = Some m"
  show "gives (do {
            (loops, s) \<leftarrow> response_loops m s;
            if loops then invite_out e u err msg s
            else if sm_scode m < 200 then invite_progress e u m s
            else if sm_scode m < 300 then invite_success e u m s
            else if sm_scode m < 400 then invite_redirect e u m s
            else invite_failure e u m s }) ss_inv"
  proof (rule gives_pairI, intro gives_if)
    fix b s1
    assume a: "response_loops m s = Some (b, s1)"
    obtain se ls where se: "sw_sess s = Some se" and s1: "s1 = put_sess (se\<lparr>se_ls := ls\<rparr>) s" using response_loops_put [OF a] by blast
    then have se1: "sw_sess s1 = Some (se\<lparr>se_ls := ls\<rparr>)" by simp
    have k: "ss_inv s1" "out_ok s1" using i o se s1 by (auto simp: out_ok_def ss_inv_Some intro!: ss_inv_put)
    show "gives (invite_out e u err msg s1) ss_inv" using k by (simp add: invite_out_inv)
    show "gives (invite_progress e u m s1) ss_inv" if "sm_scode m < 200"
      by (rule invite_progress_inv [OF k(1) se1]) (use p [OF m that se] in simp)
    have q: "se_req se' = None" "\<not> se_established se'" "se_terminated se' = 0 \<Longrightarrow> fresh s1" if "\<not> sm_scode m < 200" "sw_sess s1 = Some se'" for se'
      using f [OF m that(1) se] that(2) se1 se by (auto simp: fresh_def)
    show "gives (invite_success e u m s1) ss_inv" if "\<not> sm_scode m < 200"
      using k q [OF that] by (intro invite_success_inv) auto
    show "gives (invite_redirect e u m s1) ss_inv" if "\<not> sm_scode m < 200"
      using k q [OF that] by (intro invite_redirect_inv) auto
    show "gives (invite_failure e u m s1) ss_inv" if "\<not> sm_scode m < 200"
      using k q [OF that] by (intro invite_failure_inv) auto
  qed
qed

end

lemma bye_resp_inv:
  assumes i: "ss_inv s" and t: "\<And>se. sw_sess s = Some se \<Longrightarrow> se_terminated se = 2"
  shows "gives (bye_resp_handler e err msg s) ss_inv"
proof -
  have d: "gives (deref_sess e s') ss_inv" if "ss_inv s'" "\<And>se. sw_sess s' = Some se \<Longrightarrow> se_terminated se = 2" for s' :: "'a sw"
  proof (cases "sw_sess s'")
    case (Some se)
    have "se_terminated se = 2" using that(2) Some by blast
    then show ?thesis using that(1) Some by (simp add: deref_done)
  qed (simp add: deref_sess_def gives_None)
  have dt: "gives (deref_sess e s) ss_inv" by (rule d [OF i]) (rule t)
  show ?thesis
  proof (unfold bye_resp_handler_def, intro gives_if dt, rule gives_bindI)
    fix m
    show "gives (response_loops m s \<bind> (\<lambda>(loops, s).
        if loops then deref_sess e s
        else if sm_scode m < 200 then Some s
        else if sm_scode m < 300 then deref_sess e s
        else do {
          se \<leftarrow> sw_sess s;
          if se_peerterm se then deref_sess e s
          else if sm_scode m = 401 \<or> sm_scode m = 407 then
            (if sm_auth m \<noteq> 0 then deref_sess e s
             else do { (err, s) \<leftarrow> sipsess_bye e False s; if err \<noteq> 0 then deref_sess e s else Some s })
          else deref_sess e s })) ss_inv"
    proof (rule gives_pairI)
      fix b s1
      assume a: "response_loops m s = Some (b, s1)"
      have k: "ss_inv s1" "\<And>se. sw_sess s1 = Some se \<Longrightarrow> se_terminated se = 2"
        using response_loops_put [OF a] i t by (auto simp: ss_inv_Some intro!: ss_inv_put)
      have dk: "gives (deref_sess e s1) ss_inv" by (rule d [OF k(1)]) (rule k(2))
      have y: "gives (do { (err, s) \<leftarrow> sipsess_bye e False s1; if err \<noteq> 0 then deref_sess e s else Some s }) ss_inv"
      proof (rule gives_pairI, intro gives_if gives_Some)
        fix err s2
        assume b: "sipsess_bye e False s1 = Some (err, s2)"
        obtain se where se: "sw_sess s1 = Some se" using b by (cases "sw_sess s1") (auto simp: sipsess_bye_def)
        have c: "ss_inv s2" "\<And>se. sw_sess s2 = Some se \<Longrightarrow> se_terminated se = 2"
          using givesD [OF bye_inv [OF k(1) se k(2) [OF se]] b] by auto
        show "gives (deref_sess e s2) ss_inv" "ss_inv s2" using d [OF c] c(1) by simp_all
      qed
      show "gives (if b then deref_sess e s1
        else if sm_scode m < 200 then Some s1
        else if sm_scode m < 300 then deref_sess e s1
        else do {
          se \<leftarrow> sw_sess s1;
          if se_peerterm se then deref_sess e s1
          else if sm_scode m = 401 \<or> sm_scode m = 407 then
            (if sm_auth m \<noteq> 0 then deref_sess e s1
             else do { (err, s) \<leftarrow> sipsess_bye e False s1; if err \<noteq> 0 then deref_sess e s else Some s })
          else deref_sess e s1 }) ss_inv"
        by (intro gives_if dk y gives_Some k(1) gives_bindI)
    qed
  qed
qed

lemma out_deref:
  "ss_inv s \<Longrightarrow> out_ok s \<Longrightarrow> sw_sess s = Some se \<Longrightarrow> se_terminated se \<noteq> 0 \<Longrightarrow> gives (deref_sess e s) ss_inv"
  using deref_done [of s se e] by (auto simp: out_ok_def)

lemma reinvite_keeps:
  "ss_inv s \<Longrightarrow> sw_sess s = Some se \<Longrightarrow> se_terminated se = 0 \<Longrightarrow> gives (do { (_, s) \<leftarrow> sipsess_reinvite e b s; Some s }) (good s)"
  by (rule gives_pairI) (use reinvite_good [of s se e b] in \<open>auto simp: gives_def\<close>)

lemma put_ignored: "ss_inv s \<Longrightarrow> sw_sess s = Some se \<Longrightarrow> (sess_ok se' (sw_refs s) (sw_held s) (sw_log s) = sess_ok se (sw_refs s) (sw_held s) (sw_log s)) \<Longrightarrow> ss_inv (put_sess se' s)"
  using ss_inv_put ss_inv_Some by blast

context sess_user
begin

lemma reinvite_out_inv:
  assumes i: "ss_inv s" and o: "out_ok s"
  shows "gives (reinvite_out e u err s) ss_inv"
proof (unfold reinvite_out_def, rule gives_bindI, intro gives_if sipsess_terminate_inv i gives_Some)
  fix se :: sipsess
  assume se: "sw_sess s = Some se"
  show "gives (deref_sess e s) ss_inv" if "se_terminated se \<noteq> 0" by (rule out_deref [OF i o se that])
  show "gives (do { (_, s) \<leftarrow> sipsess_reinvite e True s; Some s }) ss_inv" if "\<not> se_terminated se \<noteq> 0"
    by (rule gives_conseq [OF reinvite_keeps [OF i se]]) (use that in \<open>simp_all add: good_def\<close>)
  show "ss_inv (put_sess (se\<lparr>se_desc := None\<rparr>) s)" by (rule put_ignored [OF i se]) simp
qed

lemma reinvite_success_inv:
  assumes i: "ss_inv s" and o: "out_ok s"
  shows "gives (reinvite_success e u msg s) ss_inv"
proof (unfold reinvite_success_def, rule gives_bindI)
  fix se :: sipsess
  assume se: "sw_sess s = Some se"
  have k: "ss_inv t \<and> out_ok t" if "tame s t" for t
    using tame_out [OF that o] tame_inv [OF that] se by simp
  have a: "gives (if sm_body msg > 0 \<and> se_neg_state se = SDP_NEG_LOCAL_OFFER
        then do { (err, s) \<leftarrow> sess_answerh u msg (put_sess (se\<lparr>se_neg_state := SDP_NEG_DONE\<rparr>) s); Some (err, None, s) }
        else if sm_body msg > 0 \<and> se_neg_state se = SDP_NEG_NONE
        then sess_offerh u msg (put_sess (se\<lparr>se_neg_state := SDP_NEG_REMOTE_OFFER\<rparr>) s)
        else Some (OK, None, s)) (\<lambda>(err, d, s'). tame s s')"
    by (intro gives_if answer_tame3 offer_tame gives_Some i se) (use tame_refl [OF i] in simp)
  show "gives (do { (err, desc, s) \<leftarrow>
       (if sm_body msg > 0 \<and> se_neg_state se = SDP_NEG_LOCAL_OFFER
        then do { (err, s) \<leftarrow> sess_answerh u msg (put_sess (se\<lparr>se_neg_state := SDP_NEG_DONE\<rparr>) s); Some (err, None, s) }
        else if sm_body msg > 0 \<and> se_neg_state se = SDP_NEG_NONE
        then sess_offerh u msg (put_sess (se\<lparr>se_neg_state := SDP_NEG_REMOTE_OFFER\<rparr>) s)
        else Some (OK, None, s));
     if err \<noteq> 0 then reinvite_out e u err s
     else
       let (err, s) = sipsess_ack e s
       in if err \<noteq> 0 then reinvite_out e u err s
          else do {
            se \<leftarrow> sw_sess s;
            reinvite_out e u OK
              (if se_neg_state se = SDP_NEG_REMOTE_OFFER \<and> left desc > 0
               then put_sess (se\<lparr>se_neg_state := SDP_NEG_DONE\<rparr>) s else s) } }) ss_inv"
  proof (rule tame_bind3 [OF a], unfold Let_def, intro gives_if gives_prod gives_bindI)
    fix err desc s1
    assume t1: "tame s s1"
    show "gives (reinvite_out e u err s1) ss_inv" using k [OF t1] by (intro reinvite_out_inv) simp_all
    fix err2 s2
    assume "sipsess_ack e s1 = (err2, s2)"
    then have t2: "tame s s2" using ack_tame k [OF t1] t1 tame_trans by blast
    show "gives (reinvite_out e u err2 s2) ss_inv" using k [OF t2] by (intro reinvite_out_inv) simp_all
    fix se2
    assume se2: "sw_sess s2 = Some se2"
    have "tame s (put_sess (se2\<lparr>se_neg_state := SDP_NEG_DONE\<rparr>) s2)" using tame_trans [OF t2 tame_neg [OF _ se2]] k [OF t2] by blast
    then show "gives (reinvite_out e u OK (if se_neg_state se2 = SDP_NEG_REMOTE_OFFER \<and> left desc > 0
        then put_sess (se2\<lparr>se_neg_state := SDP_NEG_DONE\<rparr>) s2 else s2)) ss_inv"
      using k t2 by (intro reinvite_out_inv) auto
  qed
qed

lemma reinvite_failure_inv:
  assumes i: "ss_inv s" and o: "out_ok s"
  shows "gives (reinvite_failure e u msg s) ss_inv"
proof (unfold reinvite_failure_def Let_def, rule gives_bindI)
  fix se :: sipsess
  assume se: "sw_sess s = Some se"
  define se1 where "se1 = se\<lparr>se_neg_state := SDP_NEG_DONE\<rparr>"
  define s1 where "s1 = put_sess se1 s"
  have s1: "tame s s1" "sw_sess s1 = Some se1" using tame_neg [OF i se] by (simp_all add: s1_def se1_def)
  have k: "ss_inv t \<and> out_ok t" if "tame s t" for t
    using tame_out [OF that o] tame_inv [OF that] se by simp
  have r: "gives (do { (err, s) \<leftarrow> sipsess_reinvite e False s1; if err \<noteq> 0 then reinvite_out e u err s else Some s }) ss_inv"
    if t: "se_terminated se1 = 0"
  proof (rule gives_pairI, intro gives_if gives_Some)
    fix err s2
    assume "sipsess_reinvite e False s1 = Some (err, s2)"
    then have "good s1 s2" using givesD [OF reinvite_good [OF _ s1(2) t]] k [OF s1(1)] by auto
    then have "tame s1 s2" using t s1(2) by (intro tame_alive)
    then have "tame s s2" by (rule tame_trans [OF s1(1)])
    then show "ss_inv s2" "gives (reinvite_out e u err s2) ss_inv" using k by (simp_all add: reinvite_out_inv)
  qed
  have t: "ss_inv (put_sess (se1\<lparr>se_tmr := x\<rparr>) s1)" if "se_terminated se1 = 0" for x
    using k [OF s1(1)] that sess_ok_tmr [OF ss_inv_Some [OF _ s1(2)]] by (intro ss_inv_put) simp_all
  show "gives (if se_terminated (se\<lparr>se_neg_state := SDP_NEG_DONE\<rparr>) \<noteq> 0 then reinvite_out e u OK (put_sess (se\<lparr>se_neg_state := SDP_NEG_DONE\<rparr>) s)
     else if sm_scode msg = 401 \<or> sm_scode msg = 407 then
       (if sm_auth msg \<noteq> 0 then reinvite_out e u (if sm_auth msg = EAUTH then 0 else sm_auth msg) (put_sess (se\<lparr>se_neg_state := SDP_NEG_DONE\<rparr>) s)
        else do {
          (err, s) \<leftarrow> sipsess_reinvite e False (put_sess (se\<lparr>se_neg_state := SDP_NEG_DONE\<rparr>) s);
          if err \<noteq> 0 then reinvite_out e u err s else Some s })
     else if sm_scode msg = 408 \<or> sm_scode msg = 481 then sipsess_terminate e u OK (Some msg) (put_sess (se\<lparr>se_neg_state := SDP_NEG_DONE\<rparr>) s)
     else if sm_scode msg = 491 then
       Some (put_sess (se\<lparr>se_neg_state := SDP_NEG_DONE, se_tmr := Some (sw_now (put_sess (se\<lparr>se_neg_state := SDP_NEG_DONE\<rparr>) s) +
         (if se_owner (se\<lparr>se_neg_state := SDP_NEG_DONE\<rparr>) then 3000 else 1000))\<rparr>) (put_sess (se\<lparr>se_neg_state := SDP_NEG_DONE\<rparr>) s))
     else if sm_scode msg = 500 then
       (case sm_retry_after msg of
          None \<Rightarrow> reinvite_out e u OK (put_sess (se\<lparr>se_neg_state := SDP_NEG_DONE\<rparr>) s)
        | Some t \<Rightarrow> Some (put_sess (se\<lparr>se_neg_state := SDP_NEG_DONE, se_tmr := Some (sw_now (put_sess (se\<lparr>se_neg_state := SDP_NEG_DONE\<rparr>) s) +
            unat (t * 1000))\<rparr>) (put_sess (se\<lparr>se_neg_state := SDP_NEG_DONE\<rparr>) s)))
     else reinvite_out e u OK (put_sess (se\<lparr>se_neg_state := SDP_NEG_DONE\<rparr>) s)) ss_inv"
    unfolding se1_def [symmetric] s1_def [symmetric]
    by (intro gives_if gives_option gives_Some r t sipsess_terminate_inv reinvite_out_inv) (use k [OF s1(1)] in \<open>simp_all\<close>)
qed

lemma reinvite_resp_inv:
  assumes i: "ss_inv s" and p: "\<And>m. msg = Some m \<Longrightarrow> sm_scode m < 200 \<Longrightarrow> err = 0"
    and o: "(\<And>m. msg = Some m \<Longrightarrow> \<not> sm_scode m < 200) \<Longrightarrow> out_ok s"
  shows "gives (reinvite_resp_handler e u err msg s) ss_inv"
proof (cases msg)
  case None
  then show ?thesis using i o by (simp add: reinvite_resp_handler_def reinvite_out_inv)
next
  case (Some m)
  show ?thesis
  proof (cases "sm_scode m < 200")
    case True
    have "ss_inv s1 \<and> \<not> b" if "response_loops m s = Some (b, s1)" for b s1
      using response_loops_put [OF that] that i True
      by (auto simp: response_loops_def sip_request_loops_def ss_inv_Some intro!: ss_inv_put)
    then show ?thesis using True Some p by (auto simp: reinvite_resp_handler_def intro!: gives_pairI gives_Some)
  next
    case False
    then have o: "out_ok s" using o Some by simp
    have l: "ss_inv s1 \<and> out_ok s1" if "response_loops m s = Some (b, s1)" for b s1
      using response_loops_put [OF that] i o by (auto simp: out_ok_def ss_inv_Some intro!: ss_inv_put)
    show ?thesis
      unfolding reinvite_resp_handler_def Some option.case
      by (intro gives_if gives_pairI gives_Some reinvite_out_inv reinvite_success_inv reinvite_failure_inv i o)
         (use l False in blast)+
  qed
qed

lemma sess_response_inv:
  assumes i: "ss_inv s" and p: "\<And>m. msg = Some m \<Longrightarrow> sm_scode m < 200 \<Longrightarrow> err = 0"
  shows "gives (sess_response e u err msg s) ss_inv"
proof (unfold sess_response_def, rule gives_bindI, rule gives_pairI, intro gives_if)
  fix se k req
  assume se: "sw_sess s = Some se" and r: "se_req se = Some (k, req)"
  have ok: "sess_ok se (sw_refs s) (sw_held s) (sw_log s)" using ss_inv_Some [OF i se] .
  show "gives (let (sent, req) = request_provisional req; s = put_sess (se\<lparr>se_req := Some (k, req)\<rparr>) s
        in resp_handler e u k err msg (if sent then say Se_cancel s else s)) ss_inv"
    if m: "msg \<noteq> None \<and> sm_scode (the msg) < 200"
  proof -
    obtain sent req' where pr: "request_provisional req = (sent, req')" by force
    define s1 where "s1 = (if sent then say Se_cancel (put_sess (se\<lparr>se_req := Some (k, req')\<rparr>) s) else put_sess (se\<lparr>se_req := Some (k, req')\<rparr>) s)"
    have "sess_ok (se\<lparr>se_req := Some (k, req')\<rparr>) (sw_refs s) (sw_held s) (sw_log s)"
      by (rule sess_ok_like [OF ok]) (use r in \<open>auto simp: silent_def req_of_def\<close>)
    then have "ss_inv (put_sess (se\<lparr>se_req := Some (k, req')\<rparr>) s)" by (rule ss_inv_put [OF i])
    then have s1: "ss_inv s1" "sw_sess s1 = Some (se\<lparr>se_req := Some (k, req')\<rparr>)" by (simp_all add: s1_def ss_inv_say)
    obtain y where y: "msg = Some y" "sm_scode y < 200" using m by auto
    have "gives (resp_handler e u k err msg s1) ss_inv"
    proof (cases k)
      case R_INVITE
      then show ?thesis using s1 y by (auto simp: resp_handler_def out_ok_def intro!: invite_resp_inv)
    next
      case R_REINVITE
      then show ?thesis using s1(1) y p by (auto simp: resp_handler_def intro!: reinvite_resp_inv)
    next
      case R_BYE
      then have "se_terminated se = 2" using ok r unfolding sess_ok_def req_of_def by (auto simp: le_Suc_eq numeral_2_eq_2)
      then show ?thesis using R_BYE s1 by (auto simp: resp_handler_def intro!: bye_resp_inv)
    qed
    then show ?thesis using pr by (simp add: s1_def Let_def)
  qed
  let ?s = "put_sess (se\<lparr>se_req := None\<rparr>) s"
  assume m: "\<not> (msg \<noteq> None \<and> sm_scode (the msg) < 200)"
  have j: "ss_inv ?s" "out_ok ?s" using clear_req [OF ok] i by (auto simp: out_ok_def intro: ss_inv_put)
  show "gives (resp_handler e u k err msg ?s) ss_inv"
  proof (cases k)
    case R_INVITE
    have "\<not> se_established se" "se_terminated se = 0 \<Longrightarrow> fresh ?s" using ok r R_INVITE by (auto simp: sess_ok_def fresh_def req_of_def)
    then show ?thesis using R_INVITE j m by (auto simp: resp_handler_def intro!: invite_resp_inv)
  next
    case R_REINVITE
    then show ?thesis using j m by (auto simp: resp_handler_def intro!: reinvite_resp_inv)
  next
    case R_BYE
    then have "se_terminated se = 2" using ok r unfolding sess_ok_def req_of_def by (auto simp: le_Suc_eq numeral_2_eq_2)
    then show ?thesis using R_BYE j(1) by (auto simp: resp_handler_def intro!: bye_resp_inv)
  qed
qed

end

end
