(* ===== verification/Sipsess_Spec.thy ===== *)
theory Sipsess_Spec
  imports Sipsess_Resp
begin

text \<open>
  The rest of a session keeps the invariant too: the responses to INFO, UPDATE and PRACK, the timers, the requests of the
  peer, the beginning of a session.  So it holds in every run (\<open>reach_inv\<close>), and with it what a session promises its user:
  no handler is called once the session was closed or released, the close handler is called at most once, and a session that
  was announced as established is not destroyed without a BYE from one side.  Where the code breaks a session off silently,
  leaks it or frees it twice is shown in \<^verbatim>\<open>Call_Cases\<close>.
\<close>

section \<open>Responses to the other requests\<close>

lemma put_request_inv: "ss_inv s \<Longrightarrow> sw_sess s = Some se \<Longrightarrow> ss_inv (put_sess (upd_request rq se) s)"
  using good_put_request by (auto simp: good_def)

lemma request_loops_inv:
  assumes i: "ss_inv s"
  shows "gives (request_loops r m s) (\<lambda>(b, s'). ss_inv s')"
proof (unfold request_loops_def, rule gives_bindI, rule gives_bindI)
  fix se rq
  assume "sw_sess s = Some se"
  then show "gives (let (loops, ls) = sip_request_loops (rq_ls rq) (sm_scode m)
       in Some (loops, put_sess (upd_request (rq\<lparr>rq_ls := ls\<rparr>) se) s)) (\<lambda>(b, s'). ss_inv s')"
    using put_request_inv [OF i] by (cases "sip_request_loops (rq_ls rq) (sm_scode m)") (simp add: gives_Some)
qed

lemma request_retry_inv: "ss_inv s \<Longrightarrow> gives (request_retry r n arg s) ss_inv"
  unfolding request_retry_def by (rule gives_bindI, rule gives_bindI, rule gives_Some) (rule put_request_inv)

lemma good_inv: "gives m (\<lambda>(err, s'). good s s') \<Longrightarrow> gives m (\<lambda>(err, s'). ss_inv s')"
  by (auto simp: gives_def good_def)

lemma tame_gives: "gives m (\<lambda>(err, s'). tame s s') \<Longrightarrow> gives m (\<lambda>(err, s'). ss_inv s')"
  by (auto simp: gives_def dest: tame_inv)

lemma inv_bind:
  "gives m (\<lambda>(err, s'). ss_inv s') \<Longrightarrow> (\<And>err s'. ss_inv s' \<Longrightarrow> gives (f err s') Q) \<Longrightarrow> gives (m \<bind> (\<lambda>(err, s'). f err s')) Q"
  by (rule gives_pairI) (auto simp: gives_def)

lemma inv_bind1: "gives m ss_inv \<Longrightarrow> (\<And>s'. ss_inv s' \<Longrightarrow> gives (f s') Q) \<Longrightarrow> gives (m \<bind> f) Q"
  by (rule gives_bindI) (auto simp: gives_def)

lemma put_neg_inv: "ss_inv s \<Longrightarrow> sw_sess s = Some se \<Longrightarrow> ss_inv (put_sess (se\<lparr>se_neg_state := x\<rparr>) s)"
  by (rule put_ignored) simp_all

lemma put_desc_inv: "ss_inv s \<Longrightarrow> sw_sess s = Some se \<Longrightarrow> ss_inv (put_sess (se\<lparr>se_desc := x\<rparr>) s)"
  by (rule put_ignored) simp_all

lemmas sub_sent_inv = sub_request_good [THEN good_inv] update_request_good [THEN good_inv] prack_request_good [THEN good_inv]

context sess_user
begin

lemma request_out_inv:
  assumes i: "ss_inv s"
  shows "gives (request_out e u r err msg s) ss_inv"
proof (unfold request_out_def, rule gives_bindI, rule gives_bindI, rule inv_bind1 [OF _ request_free_inv], intro gives_if)
  fix se :: sipsess
  assume se: "sw_sess s = Some se" and "\<not> se_terminated se \<noteq> 0"
  then have "ss_inv (say (Se_call C_resp) s)" by (intro ss_inv_call [OF i se]) simp_all
  then show "gives (u_resp u err msg (say (Se_call C_resp) s)) ss_inv" using api_ends_inv by (auto simp: gives_def dest!: resp_api)
qed (use i in \<open>simp_all add: gives_Some sipsess_terminate_inv\<close>)

lemma prack_out_inv: "ss_inv s \<Longrightarrow> gives (prack_out e u r err s) ss_inv"
  unfolding prack_out_def
  by (rule gives_bindI, rule inv_bind1 [OF _ request_free_inv], intro gives_if) (simp_all add: gives_Some sipsess_terminate_inv)

lemma info_resp_inv:
  assumes i: "ss_inv s"
  shows "gives (info_resp_handler e u r err msg s) ss_inv"
  unfolding info_resp_handler_def info_request_def
  by (insert i, (rule request_out_inv request_loops_inv [THEN inv_bind] sub_sent_inv [THEN inv_bind] sipsess_terminate_inv [THEN inv_bind1]
      gives_if gives_bindI gives_Some | assumption)+)

lemma update_resp_inv:
  assumes i: "ss_inv s"
  shows "gives (update_resp_handler e u r err msg s) ss_inv"
  unfolding update_resp_handler_def Let_def
  by (insert i, (rule gives_option request_out_inv request_loops_inv [THEN inv_bind] sub_sent_inv [THEN inv_bind] sipsess_terminate_inv [THEN inv_bind1]
      call_answer_tame [THEN tame_gives, THEN inv_bind] request_retry_inv put_neg_inv
      gives_if gives_bindI gives_Some | assumption)+)

lemma prack_resp_inv:
  assumes i: "ss_inv s"
  shows "gives (prack_resp_handler e u r err msg s) ss_inv"
proof -
  have a: "gives (if se_neg_state se = SDP_NEG_LOCAL_OFFER
      then do { (_, s) \<leftarrow> sess_answerh u m (put_sess (se\<lparr>se_neg_state := SDP_NEG_DONE\<rparr>) s); Some s } else Some s) ss_inv"
    if "ss_inv s" "sw_sess s = Some se" for m se and s :: "'u sw"
    by (intro gives_if tame_gives [OF answer_tame [OF that], THEN inv_bind] gives_Some that)
  show ?thesis
    unfolding prack_resp_handler_def
    by (insert i, (rule gives_option prack_out_inv request_loops_inv [THEN inv_bind] sub_sent_inv [THEN inv_bind]
        a [THEN inv_bind1] request_retry_inv put_desc_inv
        gives_if gives_bindI gives_Some | assumption)+)
qed

lemma sub_response_inv:
  assumes i: "ss_inv s"
  shows "gives (sub_response e u r err msg s) ss_inv"
proof (unfold sub_response_def Let_def, rule gives_bindI, rule gives_bindI)
  fix se rq
  assume se: "sw_sess s = Some se"
  define s1 where "s1 = (if msg = None \<or> sm_scode (the msg) \<ge> 200 then put_sess (upd_request (rq\<lparr>rq_req := False\<rparr>) se) s else s)"
  have "ss_inv s1" using put_request_inv [OF i se] i by (simp add: s1_def)
  then show "gives (case rq_met rq of
       R_INFO \<Rightarrow> info_resp_handler e u r err msg
         (if msg = None \<or> sm_scode (the msg) \<ge> 200 then put_sess (upd_request (rq\<lparr>rq_req := False\<rparr>) se) s else s)
     | R_UPDATE \<Rightarrow> update_resp_handler e u r err msg
         (if msg = None \<or> sm_scode (the msg) \<ge> 200 then put_sess (upd_request (rq\<lparr>rq_req := False\<rparr>) se) s else s)
     | R_PRACK \<Rightarrow> prack_resp_handler e u r err msg
         (if msg = None \<or> sm_scode (the msg) \<ge> 200 then put_sess (upd_request (rq\<lparr>rq_req := False\<rparr>) se) s else s)) ss_inv"
    unfolding s1_def [symmetric]
    by (cases "rq_met rq") (simp_all add: info_resp_inv update_resp_inv prack_resp_inv)
qed

end

section \<open>Timers\<close>

lemma modify_tmr_inv:
  assumes i: "ss_inv s" and se: "sw_sess s = Some se" "se_tmr se = Some t"
  shows "gives (modify_tmr_handler e (put_sess (se\<lparr>se_tmr := None\<rparr>) s)) ss_inv"
proof -
  have ok: "sess_ok se (sw_refs s) (sw_held s) (sw_log s)" using ss_inv_Some [OF i se(1)] .
  have "\<not> silent se" using se(2) by (simp add: silent_def)
  then have t: "se_terminated se = 0" using alive_handler [OF i se(1)] by simp
  have "ss_inv (put_sess (se\<lparr>se_tmr := None\<rparr>) s)" by (rule ss_inv_put [OF i]) (simp add: sess_ok_tmr [OF ok])
  then show ?thesis unfolding modify_tmr_handler_def
    by (intro gives_conseq [OF reinvite_keeps [of _ "se\<lparr>se_tmr := None\<rparr>"]]) (use t in \<open>simp_all add: good_def\<close>)
qed

lemma request_tmr_inv:
  assumes i: "ss_inv s"
  shows "gives (request_tmr e rq s) ss_inv"
  unfolding request_tmr_def update_tmr_handler_def prack_tmr_handler_def Let_def
  by (insert i, (rule sub_sent_inv [THEN inv_bind] request_free_inv put_request_inv gives_None gives_if gives_arg gives_prod gives_bindI gives_Some | assumption)+)

lemma reply_retransmit_inv:
  assumes i: "ss_inv s"
  shows "gives (retransmit_handler_reply e r s) ss_inv"
proof (unfold retransmit_handler_reply_def Let_def, rule gives_bindI, rule gives_prod, rule gives_bindI, rule gives_Some)
  fix se err s1 t
  assume se: "sw_sess s = Some se" and f: "free_reply e (sr_scode r) s = (err, s1)"
  have s1: "ss_inv s1" "sw_sess s1 = Some se"
    using free_reply_inv [OF f i] f se by (auto simp: good_def free_reply_def Let_def)
  show "ss_inv (put_sess (se\<lparr>se_replyl := map (\<lambda>x. if sr_id x = sr_id r
        then r\<lparr>sr_txc := sr_txc r + 1, sr_tmrg := Some (sw_now s1 + (if sr_rel_seq r = 0 then min t SIP_T2 else t))\<rparr> else x) (se_replyl se)\<rparr>) s1)"
    by (rule ss_inv_put [OF s1(1)], rule sess_ok_replyl [OF ss_inv_Some [OF s1]]) auto
qed

lemma reply_tmr_inv:
  assumes i: "ss_inv s" and se: "sw_sess s = Some se" and r: "r \<in> set (se_replyl se)"
  shows "gives (reply_tmr_handler e u r s) ss_inv"
proof -
  have "reply_tmr_handler e u r s = Some (put_sess (se\<lparr>se_replyl := remove1 r (se_replyl se)\<rparr>) s)"
    using se r by (auto simp: reply_tmr_handler_def)
  moreover have "sess_ok (se\<lparr>se_replyl := remove1 r (se_replyl se)\<rparr>) (sw_refs s) (sw_held s) (sw_log s)"
    by (rule sess_ok_replyl [OF ss_inv_Some [OF i se]]) (use r in auto)
  ultimately show ?thesis using ss_inv_put [OF i] by (simp add: gives_Some)
qed

section \<open>Requests of the peer\<close>

lemma rseq_inv:
  assumes "ss_inv s" "sw_sess s = Some se" "sip_dialog_rseq_valid msg se = (b, se')"
  shows "tame s (put_sess se' s)"
proof -
  have "se' = se \<or> se' = se\<lparr>se_dlg_rseq := sm_cseq msg\<rparr>" using assms(3) by (auto simp: sip_dialog_rseq_valid_def split: if_splits)
  then show ?thesis using assms(1,2) ss_inv_Some [OF assms(1,2)] by (auto intro!: tame_put)
qed

lemma found: "sipsess_find msg s = Some se \<Longrightarrow> sw_sess s = Some se"
  by (simp add: sipsess_find_def split: if_splits)

lemma peerterm_inv:
  assumes i: "ss_inv s" and se: "sw_sess s = Some se"
  shows "ss_inv (say Se_peerterm (put_sess (se\<lparr>se_peerterm := True\<rparr>) s))"
proof -
  have "sess_ok (se\<lparr>se_peerterm := True\<rparr>) (sw_refs s) (sw_held s) (sw_log s @ [Se_peerterm])"
    using ss_inv_Some [OF i se] by (auto simp: sess_ok_def silent_def counted_def)
  then show ?thesis using i by (simp add: ss_inv_def orderly_append)
qed

text \<open>The reply that an ACK or a PRACK names is taken off the list.\<close>

lemma replied_inv:
  assumes i: "ss_inv s" and se: "sw_sess s = Some se" and r: "r \<in> set (se_replyl se)"
  shows "tame s (put_sess (se\<lparr>se_replyl := remove1 r (se_replyl se)\<rparr>) s)" "req_of se \<noteq> Some R_INVITE"
proof -
  have ok: "sess_ok se (sw_refs s) (sw_held s) (sw_log s)" using ss_inv_Some [OF i se] .
  show "tame s (put_sess (se\<lparr>se_replyl := remove1 r (se_replyl se)\<rparr>) s)"
    by (rule tame_put [OF i se]) (use r in \<open>auto intro: sess_ok_replyl [OF ok]\<close>)
  show "req_of se \<noteq> Some R_INVITE" using ok r by (auto simp: sess_ok_def)
qed

lemma last_reply_inv:
  assumes i: "ss_inv s" and se: "sw_sess s = Some se" "se_replyl se \<noteq> []" "se_terminated se \<noteq> 0"
  shows "gives (deref_sess e (put_sess (se\<lparr>se_replyl := [], se_established := True\<rparr>) s)) ss_inv"
proof -
  have ok: "sess_ok se (sw_refs s) (sw_held s) (sw_log s)" "orderly (sw_log s)" using i se by (simp_all add: ss_inv_def)
  have "deref_ok (se\<lparr>se_replyl := [], se_established := True\<rparr>) (sw_refs s) (sw_held s) (sw_log s)"
    using ok(1) se(2,3) by (auto simp: sess_ok_def deref_ok_def counted_def silent_def)
  then show ?thesis using ok(2) by (intro deref_inv) simp_all
qed

lemma last_replied_inv:
  assumes i: "ss_inv s" and se: "sw_sess s = Some se" and r: "r \<in> set (se_replyl se)" "se1 = se\<lparr>se_replyl := remove1 r (se_replyl se)\<rparr>"
    and t: "se_terminated se1 \<noteq> 0" "se_replyl se1 = []"
  shows "gives (deref_sess e (put_sess (se1\<lparr>se_established := True\<rparr>) (put_sess se1 s))) ss_inv"
proof -
  have p: "put_sess (se1\<lparr>se_established := True\<rparr>) (put_sess se1 s) = put_sess (se\<lparr>se_replyl := [], se_established := True\<rparr>) s"
    using r(2) t(2) by (simp add: put_sess_def)
  have "se_replyl se \<noteq> []" "se_terminated se \<noteq> 0" using r t by auto
  then show ?thesis unfolding p by (rule last_reply_inv [OF i se])
qed

lemma ack_cases:
  assumes "sipsess_reply_ack msg se = (err, se')"
  shows "err \<noteq> 0 \<and> se' = se \<or> err = 0 \<and> (\<exists>r \<in> set (se_replyl se). se' = se\<lparr>se_replyl := remove1 r (se_replyl se)\<rparr>)"
  using assms by (auto simp: sipsess_reply_ack_def find_Some_iff split: option.splits) (metis nth_mem set_rev length_rev)+

lemma prack_cases:
  assumes "sipsess_reply_prack msg se = (err, b, se')"
  shows "err \<noteq> 0 \<and> se' = se \<or> err = 0 \<and> (\<exists>r \<in> set (se_replyl se). se' = se\<lparr>se_replyl := remove1 r (se_replyl se)\<rparr>)"
  using assms by (auto simp: sipsess_reply_prack_def find_Some_iff split: option.splits) (metis nth_mem set_rev length_rev)+

lemma rseq_fields: "sip_dialog_rseq_valid msg se = (b, se') \<Longrightarrow> se_terminated se' = se_terminated se \<and> se_established se' = se_established se \<and>
    req_of se' = req_of se"
  by (auto simp: sip_dialog_rseq_valid_def split: if_splits)

lemma st_reply_keeps: "ss_inv s \<Longrightarrow> gives (st_reply e 487 s) (\<lambda>(err, s'). ss_inv s')"
proof (cases "sw_sess s")
  case (Some se)
  assume "ss_inv s"
  then show ?thesis using st_reply_inv [of s se 487 e] Some by (auto simp: gives_def)
qed (simp add: st_reply_def gives_None)

context sess_user
begin

lemma peer_call_inv:
  assumes i: "ss_inv s" and se: "sw_sess s = Some se" "se_terminated se = 0" and c: "c = C_info \<or> c = C_refer"
    and h: "\<And>s'. h (say (Se_call c) s) = Some s' \<Longrightarrow> (api_end e)\<^sup>*\<^sup>* (say (Se_call c) s) s'"
  shows "gives (h (say (Se_call c) s)) ss_inv"
proof -
  have "ss_inv (say (Se_call c) s)" using ss_inv_call [OF i se, of c] c by auto
  then show ?thesis using h api_ends_inv by (auto simp: gives_def)
qed

lemma info_handler_inv:
  assumes i: "ss_inv s"
  shows "gives (info_handler e u msg s) ss_inv"
  unfolding info_handler_def Let_def
proof (intro gives_option gives_if gives_prod gives_Some sip_reply_inv i)
  fix se b se'
  assume se: "sipsess_find msg s = Some se" "sip_dialog_rseq_valid msg se = (b, se')"
  note t = rseq_inv [OF i found [OF se(1)] se(2)]
  show "ss_inv (put_sess se' s)" "ss_inv (put_sess se' s)" using tame_inv [OF t] by simp_all
  show "gives (u_info u msg (say (Se_call C_info) (put_sess se' s))) ss_inv" if "\<not> se_terminated se \<noteq> 0"
    by (rule peer_call_inv [OF tame_inv [OF t], of se']) (use that rseq_fields [OF se(2)] info_api in auto)
qed

lemma refer_handler_inv:
  assumes i: "ss_inv s"
  shows "gives (refer_handler e u msg s) ss_inv"
  unfolding refer_handler_def Let_def
proof (intro gives_option gives_if gives_prod gives_Some sip_reply_inv i)
  fix se b se'
  assume se: "sipsess_find msg s = Some se" "sip_dialog_rseq_valid msg se = (b, se')"
  note t = rseq_inv [OF i found [OF se(1)] se(2)]
  show "ss_inv (put_sess se' s)" "ss_inv (put_sess se' s)" using tame_inv [OF t] by simp_all
  show "gives (u_refer u msg (say (Se_call C_refer) (put_sess se' s))) ss_inv" if "\<not> se_terminated se \<noteq> 0"
    by (rule peer_call_inv [OF tame_inv [OF t], of se']) (use that rseq_fields [OF se(2)] refer_api in auto)
qed

lemma st_reply_terminate_inv:
  "ss_inv s \<Longrightarrow> gives (do { s \<leftarrow> (if b then do { (_, s) \<leftarrow> st_reply e 487 s; Some s } else Some s); sipsess_terminate e u err msg s }) ss_inv"
  by (rule inv_bind1 [OF _ sipsess_terminate_inv], intro gives_if st_reply_keeps [THEN inv_bind] gives_Some) simp_all

lemma bye_handler_inv:
  assumes i: "ss_inv s"
  shows "gives (bye_handler e u msg s) ss_inv"
  unfolding bye_handler_def Let_def
proof (intro gives_option gives_if gives_prod gives_Some sip_reply_inv i st_reply_terminate_inv)
  fix se b se'
  assume se: "sipsess_find msg s = Some se" "sip_dialog_rseq_valid msg se = (b, se')"
  have t: "ss_inv (put_sess se' s)" by (rule tame_inv [OF rseq_inv [OF i found [OF se(1)] se(2)]])
  show "ss_inv (put_sess se' s)" by (rule t)
  have "ss_inv (sip_reply e 200 (put_sess se' s))" by (rule sip_reply_inv [OF t])
  then have "ss_inv (say Se_peerterm (put_sess (se'\<lparr>se_peerterm := True\<rparr>) (sip_reply e 200 (put_sess se' s))))"
    by (rule peerterm_inv) simp
  then show "ss_inv (say Se_peerterm (put_sess (se'\<lparr>se_peerterm := True\<rparr>) (sip_reply e 200 (put_sess se' s))))"
    "ss_inv (say Se_peerterm (put_sess (se'\<lparr>se_peerterm := True\<rparr>) (sip_reply e 200 (put_sess se' s))))"
    by simp_all
qed

lemma sess_cancel_inv:
  assumes i: "ss_inv s"
  shows "gives (sess_cancel_handler e u s) ss_inv"
  unfolding sess_cancel_handler_def Let_def
  by (rule st_reply_keeps [OF i, THEN inv_bind], rule gives_bindI, intro gives_if sipsess_terminate_inv gives_Some) (simp_all add: peerterm_inv)

text \<open>The first ACK or PRACK establishes the session.\<close>

lemma establish_inv:
  assumes i: "ss_inv s" and se: "sw_sess s = Some se" "req_of se \<noteq> Some R_INVITE"
  shows "ss_inv (put_sess (se\<lparr>se_msg := None, se_established := True\<rparr>) s)"
proof -
  have "sess_ok (se\<lparr>se_msg := None, se_established := True\<rparr>) (sw_refs s) (sw_held s) (sw_log s)"
    using ss_inv_Some [OF i se(1)] se(2) by (auto simp: sess_ok_def silent_def counted_def)
  then show ?thesis by (rule ss_inv_put [OF i])
qed

lemma ack_handler_inv:
  assumes i: "ss_inv s"
  shows "gives (sess_ack_handler e u msg s) ss_inv"
  unfolding sess_ack_handler_def Let_def
proof (rule gives_option, simp add: gives_Some i, rule gives_prod, intro gives_if gives_Some)
  fix se err se1
  assume f: "sipsess_find msg s = Some se" and a: "sipsess_reply_ack msg se = (err, se1)"
  note se = found [OF f]
  show "ss_inv (put_sess se1 s)" if "err \<noteq> 0" using ack_cases [OF a] that put_ignored [OF i se] by auto
  assume "\<not> err \<noteq> 0"
  then obtain r where r: "r \<in> set (se_replyl se)" "se1 = se\<lparr>se_replyl := remove1 r (se_replyl se)\<rparr>" using ack_cases [OF a] by auto
  define s1 where "s1 = put_sess se1 s"
  have t: "tame s s1" "req_of se \<noteq> Some R_INVITE" "ss_inv s1" "sw_sess s1 = Some se1"
    using replied_inv [OF i se r(1)] r(2) tame_inv by (auto simp: s1_def)
  show "ss_inv (put_sess se1 s)" using t(3) by (simp add: s1_def)
  show "gives (deref_sess e (put_sess (se1\<lparr>se_established := True\<rparr>) (put_sess se1 s))) ss_inv"
    if "se_terminated se1 \<noteq> 0" "se_replyl se1 = []"
    by (rule last_replied_inv [OF i se r that])
  show "gives (sipsess_terminate e u EPROTO None (put_sess se1 s)) ss_inv" using t(3) by (simp add: s1_def sipsess_terminate_inv)
  assume alive: "\<not> se_terminated se1 \<noteq> 0"
  have an: "gives (if se_neg_state se1 = SDP_NEG_LOCAL_OFFER then sess_answerh u msg (put_sess (se1\<lparr>se_neg_state := SDP_NEG_DONE\<rparr>) s1)
      else Some (OK, s1)) (\<lambda>(err, s'). tame s1 s')"
    by (intro gives_if answer_tame t gives_Some) (use tame_refl [OF t(3)] in simp)
  show "gives (do { (err, s) \<leftarrow> (if se_neg_state se1 = SDP_NEG_LOCAL_OFFER
                             then sess_answerh u msg (put_sess (se1\<lparr>se_neg_state := SDP_NEG_DONE\<rparr>) (put_sess se1 s)) else Some (OK, put_sess se1 s));
               se \<leftarrow> sw_sess s;
               s \<leftarrow> (if se_modify_pending se \<and> se_replyl se = []
                     then do { (_, s) \<leftarrow> sipsess_reinvite e True s; Some s } else Some s);
               se \<leftarrow> sw_sess s;
               if se_established se then Some s
               else if err \<noteq> 0 then sipsess_terminate e u err None (put_sess (se\<lparr>se_msg := None, se_established := True\<rparr>) s)
               else sess_estabh u msg (put_sess (se\<lparr>se_msg := None, se_established := True\<rparr>) s) }) ss_inv"
    unfolding s1_def [symmetric]
  proof (rule tame_bind [OF an], rule gives_bindI, rule gives_bindI, rule gives_bindI, intro gives_if gives_Some)
    fix err s2 se2 s3 se3
    assume t2: "tame s1 s2" and se2: "sw_sess s2 = Some se2"
      and r: "(if se_modify_pending se2 \<and> se_replyl se2 = [] then do { (_, s) \<leftarrow> sipsess_reinvite e True s2; Some s } else Some s2) = Some s3"
      and se3: "sw_sess s3 = Some se3"
    have e2: "ss_inv s2" "se_terminated se2 = 0" "req_of se2 \<noteq> Some R_INVITE"
      using tame_inv [OF t2] tame_sess [OF tame_trans [OF t(1) t2] se] t(2) tame_sess [OF t2 t(4)] alive se2 by auto
    have g: "good s2 s3"
      using r givesD [OF reinvite_keeps [OF e2(1) se2 e2(2)]] good_refl [OF e2(1)] by (auto split: if_splits)
    then have e3: "ss_inv s3" "req_of se3 \<noteq> Some R_INVITE" using e2(3) se2 se3 by (auto simp: good_def keeps_def)
    show "ss_inv s3" by (rule e3)
    have p: "ss_inv (put_sess (se3\<lparr>se_msg := None, se_established := True\<rparr>) s3)" by (rule establish_inv [OF e3(1) se3 e3(2)])
    then show "gives (sipsess_terminate e u err None (put_sess (se3\<lparr>se_msg := None, se_established := True\<rparr>) s3)) ss_inv"
      by (rule sipsess_terminate_inv)
    show "gives (sess_estabh u msg (put_sess (se3\<lparr>se_msg := None, se_established := True\<rparr>) s3)) ss_inv"
      if "\<not> se_established se3"
      by (rule call_estab_inv [OF p]) (use that ss_inv_Some [OF e3(1) se3] in \<open>auto simp: sess_ok_def\<close>)
  qed
qed

end

context sess_user
begin

lemma prack_handler_inv:
  assumes i: "ss_inv s" and m: "sm_met msg = ''PRACK''"
  shows "gives (prack_handler e u msg s) ss_inv"
  unfolding prack_handler_def Let_def
proof (rule gives_option, simp add: gives_Some sip_reply_inv i, intro gives_prod gives_if gives_Some sip_reply_inv sipsess_terminate_inv)
  fix se err x b se1
  assume f: "sipsess_find msg s = Some se" and a: "sipsess_reply_prack msg se = (err, x)" "x = (b, se1)"
  note se = found [OF f]
  have c: "err \<noteq> 0 \<and> se1 = se \<or> err = 0 \<and> (\<exists>r \<in> set (se_replyl se). se1 = se\<lparr>se_replyl := remove1 r (se_replyl se)\<rparr>)"
    by (rule prack_cases) (use a in simp)
  show "ss_inv (put_sess se1 s)" if "err \<noteq> 0" using c that put_ignored [OF i se] by auto
  assume "\<not> err \<noteq> 0"
  then obtain r where r: "r \<in> set (se_replyl se)" "se1 = se\<lparr>se_replyl := remove1 r (se_replyl se)\<rparr>" using c by auto
  define s1 where "s1 = put_sess se1 s"
  have t: "ss_inv s1" "sw_sess s1 = Some se1" using replied_inv(1) [OF i se r(1)] r(2) tame_inv by (auto simp: s1_def)
  show "ss_inv (put_sess se1 s)" using t(1) by (simp add: s1_def)
  show "gives (deref_sess e (put_sess (se1\<lparr>se_established := True\<rparr>) (put_sess se1 s))) ss_inv"
    if "se_terminated se1 \<noteq> 0" "se_replyl se1 = []"
    by (rule last_replied_inv [OF i se r that])
  define se2 where "se2 = (if b then se1\<lparr>se_prack_waiting_cnt := se_prack_waiting_cnt se1 - 1\<rparr> else se1)"
  define s2 where "s2 = put_sess se2 s1"
  have t2: "ss_inv s2" "sw_sess s2 = Some se2" using put_ignored [OF t, of se2] by (auto simp: s2_def se2_def)
  show "ss_inv (put_sess (if b then se1\<lparr>se_prack_waiting_cnt := se_prack_waiting_cnt se1 - 1\<rparr> else se1) (put_sess se1 s))"
    using t2(1) by (simp add: s1_def s2_def se2_def)
  have a1: "gives (do { (_, s) \<leftarrow> sess_answerh u msg (put_sess (se2\<lparr>se_neg_state := SDP_NEG_DONE\<rparr>) s2); Some (None :: nat option, s) }) (\<lambda>(d, s'). ss_inv s')"
    by (rule tame_gives [OF answer_tame [OF t2], THEN inv_bind]) (simp add: gives_Some)
  have a2: "gives (do { (_, d, s) \<leftarrow> sess_offerh u msg (put_sess (se2\<lparr>se_neg_state := SDP_NEG_REMOTE_OFFER\<rparr>) s2); Some (d, s) }) (\<lambda>(d, s'). ss_inv s')"
    by (rule tame_bind3 [OF offer_tame [OF t2]]) (simp add: gives_Some tame_inv)
  have q: "gives (sipsess_reply_2xx e msg 200 d s' \<bind> (\<lambda>(_, s). Some s)) ss_inv" if "ss_inv s'" for d and s' :: "'u sw"
  proof (cases "sw_sess s'")
    case (Some se')
    show ?thesis by (rule inv_bind [OF good_inv [OF reply_2xx_good [OF that Some]]]) (simp_all add: m gives_Some)
  qed (simp add: sipsess_reply_2xx_def gives_None)
  show "gives (do {
        (desc, s) \<leftarrow>
          (if se_neg_state (if b then se1\<lparr>se_prack_waiting_cnt := se_prack_waiting_cnt se1 - 1\<rparr> else se1) = SDP_NEG_LOCAL_OFFER
           then do { (_, s) \<leftarrow> sess_answerh u msg (put_sess ((if b then se1\<lparr>se_prack_waiting_cnt := se_prack_waiting_cnt se1 - 1\<rparr> else se1)\<lparr>se_neg_state := SDP_NEG_DONE\<rparr>)
               (put_sess (if b then se1\<lparr>se_prack_waiting_cnt := se_prack_waiting_cnt se1 - 1\<rparr> else se1) (put_sess se1 s))); Some (None, s) }
           else if se_neg_state (if b then se1\<lparr>se_prack_waiting_cnt := se_prack_waiting_cnt se1 - 1\<rparr> else se1) = SDP_NEG_DONE \<and> sm_body msg > 0
           then do { (_, d, s) \<leftarrow> sess_offerh u msg (put_sess ((if b then se1\<lparr>se_prack_waiting_cnt := se_prack_waiting_cnt se1 - 1\<rparr> else se1)\<lparr>se_neg_state := SDP_NEG_REMOTE_OFFER\<rparr>)
               (put_sess (if b then se1\<lparr>se_prack_waiting_cnt := se_prack_waiting_cnt se1 - 1\<rparr> else se1) (put_sess se1 s))); Some (d, s) }
           else Some (None, put_sess (if b then se1\<lparr>se_prack_waiting_cnt := se_prack_waiting_cnt se1 - 1\<rparr> else se1) (put_sess se1 s)));
        se \<leftarrow> sw_sess s;
        s \<leftarrow> (if se_prackh se then sess_prackh u msg s else Some s);
        (_, s) \<leftarrow> sipsess_reply_2xx e msg 200 desc s;
        Some s }) ss_inv"
    unfolding se2_def [symmetric] s1_def [symmetric] s2_def [symmetric]
  proof (rule inv_bind, intro gives_if a1 a2, simp add: gives_Some t2, rule gives_bindI, rule inv_bind1 [OF _ q])
    fix d and s3 :: "'u sw" and se3
    assume "ss_inv s3"
    then show "gives (if se_prackh se3 then sess_prackh u msg s3 else Some s3) ss_inv"
      using call_prack_tame [of s3 msg] tame_inv by (auto simp: gives_def)
  qed
qed

lemma target_refresh_inv:
  assumes i: "ss_inv s" and m: "sm_met msg = ''INVITE'' \<or> sm_met msg = ''UPDATE''"
  shows "gives (target_refresh_handler e u msg s) ss_inv"
  unfolding target_refresh_handler_def Let_def
proof (rule gives_option, simp add: gives_Some sip_reply_inv i, intro gives_prod gives_if gives_Some sip_reply_inv i)
  fix se b se1
  assume f: "sipsess_find msg s = Some se" and a: "sip_dialog_rseq_valid msg se = (b, se1)" and t0: "\<not> se_terminated se \<noteq> 0"
  note se = found [OF f]
  define s1 where "s1 = put_sess se1 s"
  have t1: "tame s s1" "sw_sess s1 = Some se1" "ss_inv s1" using rseq_inv [OF i se a] tame_inv by (auto simp: s1_def)
  have al: "se_terminated se1 = 0" using rseq_fields [OF a] t0 by simp
  show "ss_inv (put_sess se1 s)" "ss_inv (put_sess se1 s)" "ss_inv (put_sess se1 s)" "ss_inv (put_sess se1 s)"
    using t1(3) by (simp_all add: s1_def)
  assume q: "\<not> (sm_met msg = ''INVITE'' \<and> se_req se1 \<noteq> None)"
  have o: "gives (if sm_met msg = ''INVITE'' \<or> sm_body msg > 0
       then sess_offerh u msg (put_sess (se1\<lparr>se_neg_state := (if sm_body msg > 0 then SDP_NEG_REMOTE_OFFER else SDP_NEG_LOCAL_OFFER)\<rparr>) s1)
       else Some (OK, None, s1)) (\<lambda>(err, d, s'). tame s1 s')"
    by (intro gives_if offer_tame t1 gives_Some) (use tame_refl [OF t1(3)] in simp)
  show "gives (do {
     (err, desc, s) \<leftarrow>
       (if sm_met msg = ''INVITE'' \<or> sm_body msg > 0
        then sess_offerh u msg (put_sess (se1\<lparr>se_neg_state := (if sm_body msg > 0 then SDP_NEG_REMOTE_OFFER else SDP_NEG_LOCAL_OFFER)\<rparr>) (put_sess se1 s))
        else Some (OK, None, put_sess se1 s));
     if err \<noteq> 0 then do { se \<leftarrow> sw_sess (sip_reply e 488 s); Some (put_sess (se\<lparr>se_neg_state := SDP_NEG_DONE\<rparr>) (sip_reply e 488 s)) }
     else do {
       (_, s) \<leftarrow> sipsess_reply_2xx e msg 200 desc s;
       se \<leftarrow> sw_sess s;
       Some (put_sess (se\<lparr>se_desc := None, se_modify_pending := False, se_tmr := None\<rparr>) s) } }) ss_inv"
    unfolding s1_def [symmetric]
  proof (rule tame_bind3 [OF o], intro gives_if)
    fix err desc s2
    assume t2: "tame s1 s2"
    have j: "ss_inv s2" using tame_inv [OF t2] .
    show "gives (do { se \<leftarrow> sw_sess (sip_reply e 488 s2); Some (put_sess (se\<lparr>se_neg_state := SDP_NEG_DONE\<rparr>) (sip_reply e 488 s2)) }) ss_inv"
      by (rule gives_bindI, rule gives_Some) (rule put_neg_inv [OF sip_reply_inv [OF j]])
    obtain se2 where se2: "sw_sess s2 = Some se2" "se_terminated se2 = 0" "req_of se2 = Some R_INVITE \<longrightarrow> req_of se1 = Some R_INVITE"
      using tame_sess [OF t2 t1(2)] al by auto
    have r: "sm_met msg = ''PRACK'' \<or> sm_met msg = ''UPDATE'' \<or> se_terminated se2 = 0 \<and> req_of se2 \<noteq> Some R_INVITE"
    proof (cases "sm_met msg = ''INVITE''")
      case True
      then have "req_of se1 = None" using q by (cases "se_req se1") (simp_all add: req_of_def)
      then show ?thesis using se2 by auto
    qed (use m in simp)
    show "gives (do { (_, s) \<leftarrow> sipsess_reply_2xx e msg 200 desc s2; se \<leftarrow> sw_sess s;
       Some (put_sess (se\<lparr>se_desc := None, se_modify_pending := False, se_tmr := None\<rparr>) s) }) ss_inv"
    proof (rule inv_bind [OF good_inv [OF reply_2xx_good [OF j se2(1) _ r]]], simp, rule gives_bindI, rule gives_Some)
      fix s3 :: "'u sw" and se3
      assume c: "ss_inv s3" "sw_sess s3 = Some se3"
      have "sess_ok (se3\<lparr>se_desc := None, se_modify_pending := False, se_tmr := None\<rparr>) (sw_refs s3) (sw_held s3) (sw_log s3)"
        by (rule sess_ok_tmr) (use ss_inv_Some [OF c] in simp_all)
      then show "ss_inv (put_sess (se3\<lparr>se_desc := None, se_modify_pending := False, se_tmr := None\<rparr>) s3)" by (rule ss_inv_put [OF c(1)])
    qed
  qed
qed

lemma sess_request_inv: "ss_inv s \<Longrightarrow> gives (sess_request_handler e u msg s) (\<lambda>(b, s'). ss_inv s')"
proof -
  assume i: "ss_inv s"
  have d: "gives (map_option (\<lambda>s. (True, s)) m) (\<lambda>(b, s'). ss_inv s')" if "gives m ss_inv" for m :: "'u sw option"
    using that by (auto simp: gives_def)
  show ?thesis
    unfolding sess_request_handler_def Let_def
    by (intro gives_if d target_refresh_inv ack_handler_inv prack_handler_inv bye_handler_inv info_handler_inv refer_handler_inv
        gives_Some i) (auto simp: i)
qed

text \<open>Every step.\<close>

lemma event_inv:
  assumes "ss_event e u s s'" "ss_inv s"
  shows "ss_inv s'"
  using assms(1)
proof cases
  case (step_response msg err)
  then show ?thesis using givesD [OF sess_response_inv [OF assms(2)]] by blast
next
  case (step_sub r err msg)
  then show ?thesis using givesD [OF sub_response_inv [OF assms(2)]] by blast
next
  case (step_send se req err)
  then show ?thesis using givesD [OF send_handler_inv [OF assms(2)]] tame_inv by fast
next
  case (step_request msg b)
  then show ?thesis using givesD [OF sess_request_inv [OF assms(2)]] by fast
next
  case (step_cancel se)
  then show ?thesis using givesD [OF sess_cancel_inv [OF assms(2)]] by blast
next
  case (step_tmr se t)
  then show ?thesis using givesD [OF modify_tmr_inv [OF assms(2)]] by blast
next
  case (step_reply_tmr se r t)
  then show ?thesis using givesD [OF reply_tmr_inv [OF assms(2)]] by blast
next
  case (step_retransmit se r t)
  then show ?thesis using givesD [OF reply_retransmit_inv [OF assms(2)]] by blast
next
  case (step_request_tmr se rq t arg)
  then show ?thesis using givesD [OF request_tmr_inv [OF assms(2)]] by blast
qed (use assms(2) in auto)

lemma step_inv: "ss_step e u s s' \<Longrightarrow> ss_inv s \<Longrightarrow> ss_inv s'"
  by (erule ss_step.cases) (auto intro: api_end_inv event_inv)

end

text \<open>A new session.\<close>

lemma sipsess_alloc_inv:
  assumes "sipsess_alloc e auth_err desch progrh referh user now = Some (OK, s)"
  shows "ss_inv s \<and> alive s \<and> (\<exists>se. s = put_sess (new_sess desch progrh referh) s) \<and> fresh s"
  using assms
  by (auto simp: sipsess_alloc_def Let_def bind_eq_Some_conv ss_inv_def sess_ok_def new_sess_def req_of_def alive_def fresh_def put_sess_def
      split: if_splits)

lemma hand_over_inv: "ss_inv s \<Longrightarrow> alive s \<Longrightarrow> hand_over e err s = Some (OK, s') \<Longrightarrow> ss_inv s'"
  by (auto simp: hand_over_def bind_eq_Some_conv alive_held split: if_splits)

lemma accept_inv:
  assumes "sipsess_accept e auth_err dlg_err st_err scode rel100 desc referh msg user now = Some (OK, s)"
  shows "ss_inv s"
proof -
  obtain s1 where a: "sipsess_alloc e auth_err H_null H_null referh user now = Some (OK, s1)"
    using assms by (auto simp: sipsess_accept_def bind_eq_Some_conv hand_over_def split: if_splits)
  then have n: "ss_inv s1" "alive s1" "sw_sess s1 = Some (new_sess H_null H_null referh)"
    using sipsess_alloc_inv [OF a] by (auto simp: put_sess_def) (metis sw_simps(8) put_sess_def)
  define se where "se = (new_sess H_null H_null referh)\<lparr>se_dlg_est := True, se_dlg_rseq := sm_cseq msg, se_msg := Some msg, se_st := True,
      se_neg_state := (if sm_body msg > 0 then SDP_NEG_REMOTE_OFFER else SDP_NEG_NONE)\<rparr>"
  have ok: "ss_inv (put_sess se s1)"
    using ss_inv_Some [OF n(1,3)] by (intro ss_inv_put n) (simp add: se_def sess_ok_def new_sess_def req_of_def)
  have t: "se_terminated se = 0" "req_of se \<noteq> Some R_INVITE" "se_st se" by (simp_all add: se_def new_sess_def req_of_def)
  have r: "gives (if scode < 200 then sipsess_reply_1xx e msg scode rel100 desc (put_sess se s1)
      else sipsess_reply_2xx e msg scode desc (put_sess se s1)) (\<lambda>(err, s'). good (put_sess se s1) s')"
    by (intro gives_if reply_1xx_good [OF ok, of se] reply_2xx_good [OF ok, of se]) (use t in \<open>simp_all add: not_less\<close>)
  have h: "(if scode < 200 then sipsess_reply_1xx e msg scode rel100 desc (put_sess se s1)
      else sipsess_reply_2xx e msg scode desc (put_sess se s1)) \<bind> (\<lambda>(err, s). hand_over e err s) = Some (OK, s)"
    using assms a n(3) by (auto simp: sipsess_accept_def hand_over_def se_def bind_eq_Some_conv Let_def split: if_splits)
  then obtain err s2 where s2: "(if scode < 200 then sipsess_reply_1xx e msg scode rel100 desc (put_sess se s1)
      else sipsess_reply_2xx e msg scode desc (put_sess se s1)) = Some (err, s2)" "hand_over e err s2 = Some (OK, s)"
    by (auto simp: bind_eq_Some_conv)
  have "good (put_sess se s1) s2" using givesD [OF r s2(1)] by simp
  then have "ss_inv s2" "alive s2" using t(1) by (auto simp: good_def keeps_def alive_def)
  then show ?thesis using s2(2) by (rule hand_over_inv)
qed

context sess_user
begin

lemma connect_inv:
  assumes "sipsess_connect e u auth_err prep_err rel100 referh user now = Some (OK, s)"
  shows "ss_inv s"
proof -
  obtain s1 where a: "sipsess_alloc e auth_err H_user H_user referh user now = Some (OK, s1)"
    using assms by (auto simp: sipsess_connect_def bind_eq_Some_conv hand_over_def split: if_splits)
  then have n: "ss_inv s1" "sw_sess s1 = Some (new_sess H_user H_user referh)"
    using sipsess_alloc_inv [OF a] by (auto simp: put_sess_def) (metis sw_simps(8) put_sess_def)
  define se where "se = (new_sess H_user H_user referh)\<lparr>se_owner := True, se_rel100_supported := rel100\<rparr>"
  have ok: "ss_inv (put_sess se s1)" using ss_inv_Some [OF n] by (intro ss_inv_put n) (simp add: se_def)
  have f: "fresh (put_sess se s1)" by (simp add: fresh_def se_def new_sess_def)
  have "invite e u (put_sess se s1) \<bind> (\<lambda>(err, s). hand_over e err s) = Some (OK, s)"
    using assms a n(2) by (auto simp: sipsess_connect_def hand_over_def se_def bind_eq_Some_conv split: if_splits)
  then obtain err s2 where s2: "invite e u (put_sess se s1) = Some (err, s2)" "hand_over e err s2 = Some (OK, s)"
    by (auto simp: bind_eq_Some_conv)
  have "ss_inv s2 \<and> alive s2"
    using givesD [OF send_invite_inv [OF ok f] s2(1)] by (auto simp: se_def new_sess_def)
  then show ?thesis using s2(2) hand_over_inv by blast
qed

lemma reach_inv: "ss_reach e u s \<Longrightarrow> ss_inv s"
  by (induction rule: ss_reach.induct) (auto intro: connect_inv accept_inv step_inv)

text \<open>No handler is called after the session was closed or released; the close handler is called at most once.\<close>

lemma reach_orderly: "ss_reach e u s \<Longrightarrow> orderly (sw_log s)"
  using reach_inv by (auto simp: ss_inv_def)

lemma reach_close_once:
  assumes "ss_reach e u s" "sw_log s = xs @ Se_call (C_close err) # ys"
  shows "(\<forall>err'. Se_call (C_close err') \<notin> set xs) \<and> (\<forall>h. Se_call h \<notin> set ys)"
proof -
  have q: "orderly (xs @ Se_call (C_close err) # ys)" using reach_orderly [OF assms(1)] assms(2) by simp
  have "Se_call (C_close err') \<notin> set xs" for err' using q by (auto simp: orderly_def ended_def)
  moreover have "Se_call h \<notin> set ys" for h
  proof
    assume "Se_call h \<in> set ys"
    then obtain as bs where "ys = as @ Se_call h # bs" by (auto simp: in_set_conv_decomp)
    then have "xs @ Se_call (C_close err) # ys = (xs @ Se_call (C_close err) # as) @ Se_call h # bs" by simp
    then have "\<not> ended (xs @ Se_call (C_close err) # as)" using q unfolding orderly_def by blast
    then show False by (auto simp: ended_def)
  qed
  ultimately show ?thesis by blast
qed

text \<open>An established session is not destroyed without a BYE from one side.\<close>

lemma reach_bye: "ss_reach e u s \<Longrightarrow> sw_sess s = None \<Longrightarrow> announced (sw_log s) \<Longrightarrow> excused (sw_log s)"
  using reach_inv [of s] by (simp add: ss_inv_def)

end

end
