(* ===== verification/Sipsess_Keep.thy ===== *)
theory Sipsess_Keep
  imports Sipsess_Spec
begin

text \<open>
  What the steps of a session cannot change.  A property that no action of the session itself changes (locale \<open>sess_frame\<close>)
  and that every handler of the user keeps (\<open>sess_keep\<close>) is kept by every event.  With it: a user whose session is closed
  or released is never touched again.
\<close>

section \<open>Properties that a session keeps\<close>

named_theorems kp \<open>what keeps a property of the state\<close>

locale sess_frame =
  fixes K :: "'u sw \<Rightarrow> bool"
  assumes put_kp [kp]: "K s \<Longrightarrow> K (put_sess se s)"
    and nxt_kp [kp]: "K s \<Longrightarrow> K (s\<lparr>sw_next := n\<rparr>)"
    and refs_kp [kp]: "K s \<Longrightarrow> K (s\<lparr>sw_refs := n\<rparr>)"
    and gone_kp [kp]: "K s \<Longrightarrow> K (s\<lparr>sw_sess := None\<rparr>)"
    and time_kp [kp]: "K s \<Longrightarrow> K (s\<lparr>sw_now := now\<rparr>)"
    and said_kp: "K s \<Longrightarrow> (\<And>h. x \<noteq> Se_call h) \<Longrightarrow> x \<noteq> Se_drop \<Longrightarrow> K (say x s)"
    and drop_kp [kp]: "K s \<Longrightarrow> K (say Se_drop (s\<lparr>sw_held := False\<rparr>))"
begin

abbreviation (input) Kp :: "'a \<times> 'u sw \<Rightarrow> bool" where "Kp \<equiv> (\<lambda>(a, s). K s)"
abbreviation (input) Kt :: "'a \<times> 'b \<times> 'u sw \<Rightarrow> bool" where "Kt \<equiv> (\<lambda>(a, b, s). K s)"

lemma say_kp [kp]:
  "K s \<Longrightarrow> K (say (Se_req k err) s)" "K s \<Longrightarrow> K (say (Se_sub m err) s)" "K s \<Longrightarrow> K (say Se_cancel s)" "K s \<Longrightarrow> K (say Se_ack s)"
  "K s \<Longrightarrow> K (say (Se_reply c) s)" "K s \<Longrightarrow> K (say Se_peerterm s)" "K s \<Longrightarrow> K (say Se_freed s)"
  by (simp_all add: said_kp)

lemma ref_kp [kp]: "K s \<Longrightarrow> K (ref_sess s)"
  by (simp add: ref_sess_def refs_kp)

lemma if_kp [kp]: "(b \<Longrightarrow> K s) \<Longrightarrow> (\<not> b \<Longrightarrow> K t) \<Longrightarrow> K (if b then s else t)"
  "(b \<Longrightarrow> Kp p) \<Longrightarrow> (\<not> b \<Longrightarrow> Kp q) \<Longrightarrow> Kp (if b then p else q)"
  by simp_all

lemma case_kp [kp]:
  "(x = None \<Longrightarrow> K s) \<Longrightarrow> (\<And>y. x = Some y \<Longrightarrow> K (f y)) \<Longrightarrow> K (case x of None \<Rightarrow> s | Some y \<Rightarrow> f y)"
  "(\<And>a b. p = (a, b) \<Longrightarrow> K (g a b)) \<Longrightarrow> K (case p of (a, b) \<Rightarrow> g a b)"
  "K s \<Longrightarrow> Kp (a, s)"
  by (simp_all split: option.split prod.split)

lemma pair_kp [kp]: "Kp r \<Longrightarrow> (\<And>a s. K s \<Longrightarrow> Kp (h a s)) \<Longrightarrow> Kp (case r of (a, s) \<Rightarrow> h a s)"
  by (cases r) simp

lemma cases_kp:
  "(\<And>b. Kp (f b)) \<Longrightarrow> (\<And>x. Kp (g x)) \<Longrightarrow> (\<And>x. Kp (h x)) \<Longrightarrow> Kp (case r of Dr_sent b \<Rightarrow> f b | Dr_failed x \<Rightarrow> g x | Dr_dropped x \<Rightarrow> h x)"
  "gives m1 Q \<Longrightarrow> gives m2 Q \<Longrightarrow> gives m3 Q \<Longrightarrow> gives (case a of Al_ok \<Rightarrow> m1 | Al_null \<Rightarrow> m2 | Al_nodup \<Rightarrow> m3) Q"
  "(\<And>b. gives (f1 b) Q) \<Longrightarrow> (\<And>x. gives (g1 x) Q) \<Longrightarrow> (\<And>x. gives (h1 x) Q) \<Longrightarrow>
     gives (case r of Dr_sent b \<Rightarrow> f1 b | Dr_failed x \<Rightarrow> g1 x | Dr_dropped x \<Rightarrow> h1 x) Q"
  by (simp_all split: dreq_res.split alloc_res.split)

lemma bind_kp:
  "gives m K \<Longrightarrow> (\<And>s. K s \<Longrightarrow> gives (f s) Q) \<Longrightarrow> gives (m \<bind> f) Q"
  "gives m2 Kp \<Longrightarrow> (\<And>a s. K s \<Longrightarrow> gives (g a s) Q) \<Longrightarrow> gives (m2 \<bind> (\<lambda>(a, s). g a s)) Q"
  "gives m3 Kt \<Longrightarrow> (\<And>a b s. K s \<Longrightarrow> gives (h a b s) Q) \<Longrightarrow> gives (m3 \<bind> (\<lambda>(a, b, s). h a b s)) Q"
  by (auto simp: gives_def bind_eq_Some_conv)

lemma case_pair_kp:
  "Kt r \<Longrightarrow> (\<And>a b s. K s \<Longrightarrow> gives (g a b s) Q) \<Longrightarrow> gives (case r of (a, b, s) \<Rightarrow> g a b s) Q"
  "Kp p \<Longrightarrow> (\<And>a s. K s \<Longrightarrow> gives (f a s) Q) \<Longrightarrow> gives (case p of (a, s) \<Rightarrow> f a s) Q"
  by auto

lemma some_kp: "K s \<Longrightarrow> gives (Some s) K" "Kp p \<Longrightarrow> gives (Some p) Kp" "Kt r \<Longrightarrow> gives (Some r) Kt" "K s \<Longrightarrow> Kt (a, b, s)"
  by (auto simp: gives_Some)

lemma any_kp: "(\<And>y. gives (k y) Q) \<Longrightarrow> gives (x \<bind> k) Q"
  by (rule gives_bind) (simp add: gives_def)

lemma split_kp: "(\<And>a b. gives (f a b) Q) \<Longrightarrow> gives (case p of (a, b) \<Rightarrow> f a b) Q"
  by (cases p) simp

lemmas kps = bind_kp case_pair_kp some_kp cases_kp

lemma drequest_kp [kp]: "K s \<Longrightarrow> gives (drequest e k s) Kp"
  unfolding drequest_def tick_eq Let_def prod.case
  by (rule any_kp, cases "ev_req e (sw_next s)") (auto simp: gives_def kp)

lemma st_reply_kp [kp]: "K s \<Longrightarrow> gives (st_reply e c s) Kp"
  unfolding st_reply_def tick_eq Let_def prod.case
  by (rule any_kp, cases "ev_rep e (sw_next s) = 0") (auto simp: gives_def kp)

lemma free_reply_kp [kp]: "K s \<Longrightarrow> Kp (free_reply e c s)"
  by (simp add: free_reply_def Let_def kp)

lemma snd_kp [kp]: "Kp p \<Longrightarrow> K (snd p)"
  by (cases p) simp

lemma sipsess_bye_kp [kp]: "K s \<Longrightarrow> gives (sipsess_bye e b s) Kp"
  unfolding sipsess_bye_def
  by (rule kps kp gv any_kp | assumption | rule kps any_kp)+

lemma response_loops_kp [kp]: "K s \<Longrightarrow> gives (response_loops m s) Kp"
  unfolding response_loops_def Let_def tick_eq prod.case
  by (rule kps kp gv any_kp split_kp | assumption)+

lemma request_loops_kp [kp]: "K s \<Longrightarrow> gives (request_loops r m s) Kp"
  unfolding request_loops_def Let_def tick_eq prod.case
  by (rule kps kp gv any_kp split_kp | assumption)+

lemma request_retry_kp [kp]: "K s \<Longrightarrow> gives (request_retry r n arg s) K"
  unfolding request_retry_def Let_def tick_eq prod.case
  by (rule kps kp gv any_kp split_kp | assumption)+

lemma termwait_kp [kp]: "K s \<Longrightarrow> gives (termwait e s) Kp"
  unfolding termwait_def Let_def tick_eq prod.case
  by (rule kps kp gv any_kp split_kp | assumption)+

lemma terminate_sess_kp [kp]: "K s \<Longrightarrow> gives (terminate_sess e s) Kp"
  unfolding terminate_sess_def Let_def tick_eq prod.case
  by (rule kps kp gv any_kp split_kp | assumption)+

lemma sess_free_kp [kp]: "K s \<Longrightarrow> gives (sess_free s) K"
  unfolding sess_free_def Let_def tick_eq prod.case
  by (rule kps kp gv any_kp split_kp | assumption)+

lemma destructor_sess_kp [kp]: "K s \<Longrightarrow> gives (destructor_sess e s) K"
  unfolding destructor_sess_def Let_def tick_eq prod.case
  by (rule kps kp gv any_kp split_kp | assumption)+

lemma deref_sess_kp [kp]: "K s \<Longrightarrow> gives (deref_sess e s) K"
  unfolding deref_sess_def Let_def tick_eq prod.case
  by (rule kps kp gv any_kp split_kp | assumption)+

lemma sipsess_release_kp [kp]: "K s \<Longrightarrow> gives (sipsess_release e s) K"
  unfolding sipsess_release_def Let_def tick_eq prod.case
  by (rule kps kp gv any_kp split_kp | assumption)+

lemma sipsess_abort_kp [kp]: "K s \<Longrightarrow> gives (sipsess_abort e s) K"
  unfolding sipsess_abort_def Let_def tick_eq prod.case
  by (rule kps kp gv any_kp split_kp | assumption)+

lemma sipsess_reply_2xx_kp [kp]: "K s \<Longrightarrow> gives (sipsess_reply_2xx e m c d s) Kp"
  unfolding sipsess_reply_2xx_def Let_def tick_eq prod.case
  by (rule kps kp gv any_kp split_kp | assumption)+

lemma sipsess_reply_1xx_kp [kp]: "K s \<Longrightarrow> gives (sipsess_reply_1xx e m c r d s) Kp"
  unfolding sipsess_reply_1xx_def Let_def tick_eq prod.case
  by (rule kps kp gv any_kp split_kp | assumption)+

lemma retransmit_handler_reply_kp [kp]: "K s \<Longrightarrow> gives (retransmit_handler_reply e r s) K"
  unfolding retransmit_handler_reply_def Let_def tick_eq prod.case
  by (rule kps kp gv any_kp split_kp | assumption)+

lemma sipsess_reinvite_kp [kp]: "K s \<Longrightarrow> gives (sipsess_reinvite e b s) Kp"
  unfolding sipsess_reinvite_def Let_def tick_eq prod.case
  by (rule kps kp gv any_kp split_kp | assumption)+

lemma request_free_kp [kp]: "K s \<Longrightarrow> gives (request_free e r s) K"
  unfolding request_free_def Let_def tick_eq prod.case
  by (rule kps kp gv any_kp split_kp | assumption)+

lemma sipsess_request_alloc_kp [kp]: "K s \<Longrightarrow> gives (sipsess_request_alloc e m b s) Kt"
  unfolding sipsess_request_alloc_def Let_def tick_eq prod.case
  by (rule kps kp gv any_kp split_kp | assumption)+

lemma sub_request_kp [kp]: "K s \<Longrightarrow> gives (sub_request e r s) Kp"
  unfolding sub_request_def Let_def tick_eq prod.case
  by (rule kps kp gv any_kp split_kp | assumption)+

lemma info_request_kp [kp]: "K s \<Longrightarrow> gives (info_request e r s) Kp"
  unfolding info_request_def Let_def tick_eq prod.case
  by (rule kps kp gv any_kp split_kp | assumption)+

lemma update_request_kp [kp]: "K s \<Longrightarrow> gives (update_request e r s) Kp"
  unfolding update_request_def Let_def tick_eq prod.case
  by (rule kps kp gv any_kp split_kp | assumption)+

lemma prack_request_kp [kp]: "K s \<Longrightarrow> gives (prack_request e r s) Kp"
  unfolding prack_request_def Let_def tick_eq prod.case
  by (rule kps kp gv any_kp split_kp | assumption)+

lemma sipsess_update_kp [kp]: "K s \<Longrightarrow> gives (sipsess_update e s) Kp"
  unfolding sipsess_update_def Let_def tick_eq prod.case
  by (rule kps kp gv any_kp split_kp | assumption)+

lemma sipsess_info_kp [kp]: "K s \<Longrightarrow> gives (sipsess_info e n s) Kp"
  unfolding sipsess_info_def Let_def tick_eq prod.case
  by (rule kps kp gv any_kp split_kp | assumption)+

lemma sipsess_prack_kp [kp]: "K s \<Longrightarrow> gives (sipsess_prack e d s) Kp"
  unfolding sipsess_prack_def Let_def tick_eq prod.case
  by (rule kps kp gv any_kp split_kp | assumption)+

lemma sipsess_modify_kp [kp]: "K s \<Longrightarrow> gives (sipsess_modify e d s) Kp"
  unfolding sipsess_modify_def Let_def tick_eq prod.case
  by (rule kps kp gv any_kp split_kp | assumption)+

lemma sipsess_progress_kp [kp]: "K s \<Longrightarrow> gives (sipsess_progress e c r d s) Kp"
  unfolding sipsess_progress_def Let_def tick_eq prod.case
  by (rule kps kp gv any_kp split_kp | assumption)+

lemma sipsess_answer_kp [kp]: "K s \<Longrightarrow> gives (sipsess_answer e c d s) Kp"
  unfolding sipsess_answer_def Let_def tick_eq prod.case
  by (rule kps kp gv any_kp split_kp | assumption)+

lemma sipsess_reject_kp [kp]: "K s \<Longrightarrow> gives (sipsess_reject e c s) Kp"
  unfolding sipsess_reject_def Let_def tick_eq prod.case
  by (rule kps kp gv any_kp split_kp | assumption)+

lemma sipsess_set_redirect_handler_kp [kp]: "K s \<Longrightarrow> gives (sipsess_set_redirect_handler s) K"
  unfolding sipsess_set_redirect_handler_def Let_def tick_eq prod.case
  by (rule kps kp gv any_kp split_kp | assumption)+

lemma sipsess_set_prack_handler_kp [kp]: "K s \<Longrightarrow> gives (sipsess_set_prack_handler s) K"
  unfolding sipsess_set_prack_handler_def Let_def tick_eq prod.case
  by (rule kps kp gv any_kp split_kp | assumption)+

lemma bye_resp_handler_kp [kp]: "K s \<Longrightarrow> gives (bye_resp_handler e err msg s) K"
  unfolding bye_resp_handler_def Let_def tick_eq prod.case
  by (rule kps kp gv any_kp split_kp | assumption)+

lemma modify_tmr_handler_kp [kp]: "K s \<Longrightarrow> gives (modify_tmr_handler e s) K"
  unfolding modify_tmr_handler_def Let_def tick_eq prod.case
  by (rule kps kp gv any_kp split_kp | assumption)+

lemma update_tmr_handler_kp [kp]: "K s \<Longrightarrow> gives (update_tmr_handler e arg s) K"
  unfolding update_tmr_handler_def Let_def tick_eq prod.case
  by (rule kps kp gv any_kp split_kp | assumption)+

lemma prack_tmr_handler_kp [kp]: "K s \<Longrightarrow> gives (prack_tmr_handler e arg s) K"
  unfolding prack_tmr_handler_def Let_def tick_eq prod.case
  by (rule kps kp gv any_kp split_kp | assumption)+

lemma request_tmr_kp [kp]: "K s \<Longrightarrow> gives (request_tmr e rq s) K"
  unfolding request_tmr_def Let_def tick_eq prod.case
  by (rule kps kp gv any_kp split_kp | assumption)+

lemma sip_reply_kp [kp]: "K s \<Longrightarrow> K (sip_reply e c s)"
  by (simp add: sip_reply_def kp)

lemma sipsess_ack_kp [kp]: "K s \<Longrightarrow> Kp (sipsess_ack e s)"
  by (simp add: sipsess_ack_def Let_def kp)


end

text \<open>Handlers that keep it, too.\<close>

locale sess_keep = sess_frame K for K :: "'u sw \<Rightarrow> bool" +
  fixes u :: "'u user"
  assumes u_desc_kp [kp]: "K s \<Longrightarrow> gives (u_desc u (say (Se_call C_desc) s)) Kt"
    and u_offer_kp [kp]: "K s \<Longrightarrow> gives (u_offer u m (say (Se_call C_offer) s)) Kt"
    and u_answer_kp [kp]: "K s \<Longrightarrow> gives (u_answer u m (say (Se_call C_answer) s)) Kp"
    and u_progr_kp [kp]: "K s \<Longrightarrow> gives (u_progr u m (say (Se_call C_progr) s)) K"
    and u_estab_kp [kp]: "K s \<Longrightarrow> gives (u_estab u m (say (Se_call C_estab) s)) K"
    and u_info_kp [kp]: "K s \<Longrightarrow> gives (u_info u m (say (Se_call C_info) s)) K"
    and u_refer_kp [kp]: "K s \<Longrightarrow> gives (u_refer u m (say (Se_call C_refer) s)) K"
    and u_close_kp [kp]: "K s \<Longrightarrow> gives (u_close u err mo (say (Se_call (C_close err)) s)) K"
    and u_redirect_kp [kp]: "K s \<Longrightarrow> gives (u_redirect u m (say (Se_call C_redirect) s)) K"
    and u_prack_kp [kp]: "K s \<Longrightarrow> gives (u_prack u m (say (Se_call C_prack) s)) K"
    and u_resp_kp [kp]: "K s \<Longrightarrow> gives (u_resp u err mo (say (Se_call C_resp) s)) K"
begin

lemma sipsess_terminate_kp [kp]: "K s \<Longrightarrow> gives (sipsess_terminate e u err m s) K"
  unfolding sipsess_terminate_def Let_def tick_eq prod.case
  by (rule kps kp gv any_kp split_kp | assumption)+

lemma sess_desch_kp [kp]: "K s \<Longrightarrow> gives (sess_desch u s) Kt"
  unfolding sess_desch_def Let_def tick_eq prod.case
  by (rule kps kp gv any_kp split_kp | assumption)+

lemma sess_offerh_kp [kp]: "K s \<Longrightarrow> gives (sess_offerh u m s) Kt"
  unfolding sess_offerh_def Let_def tick_eq prod.case
  by (rule kps kp gv any_kp split_kp | assumption)+

lemma sess_answerh_kp [kp]: "K s \<Longrightarrow> gives (sess_answerh u m s) Kp"
  unfolding sess_answerh_def Let_def tick_eq prod.case
  by (rule kps kp gv any_kp split_kp | assumption)+

lemma sess_progrh_kp [kp]: "K s \<Longrightarrow> gives (sess_progrh u m s) K"
  unfolding sess_progrh_def Let_def tick_eq prod.case
  by (rule kps kp gv any_kp split_kp | assumption)+

lemma sess_estabh_kp [kp]: "K s \<Longrightarrow> gives (sess_estabh u m s) K"
  unfolding sess_estabh_def Let_def tick_eq prod.case
  by (rule kps kp gv any_kp split_kp | assumption)+

lemma sess_redirecth_kp [kp]: "K s \<Longrightarrow> gives (sess_redirecth u m s) K"
  unfolding sess_redirecth_def Let_def tick_eq prod.case
  by (rule kps kp gv any_kp split_kp | assumption)+

lemma sess_prackh_kp [kp]: "K s \<Longrightarrow> gives (sess_prackh u m s) K"
  unfolding sess_prackh_def Let_def tick_eq prod.case
  by (rule kps kp gv any_kp split_kp | assumption)+

lemma reply_tmr_handler_kp [kp]: "K s \<Longrightarrow> gives (reply_tmr_handler e u r s) K"
  unfolding reply_tmr_handler_def Let_def tick_eq prod.case
  by (rule kps kp gv any_kp split_kp | assumption)+

lemma send_handler_invite_kp [kp]: "K s \<Longrightarrow> gives (send_handler_invite e u s) Kp"
  unfolding send_handler_invite_def Let_def tick_eq prod.case
  by (rule kps kp gv any_kp split_kp | assumption)+

lemma invite_kp [kp]: "K s \<Longrightarrow> gives (invite e u s) Kp"
  unfolding invite_def Let_def tick_eq prod.case
  by (rule kps kp gv any_kp split_kp | assumption)+

lemma invite_out_kp [kp]: "K s \<Longrightarrow> gives (invite_out e u err m s) K"
  unfolding invite_out_def Let_def tick_eq prod.case
  by (rule kps kp gv any_kp split_kp | assumption)+

lemma invite_rel100_kp [kp]: "K s \<Longrightarrow> gives (invite_rel100 e u m s) K"
  unfolding invite_rel100_def Let_def tick_eq prod.case
  by (rule kps kp gv any_kp split_kp | assumption)+

lemma invite_progress_kp [kp]: "K s \<Longrightarrow> gives (invite_progress e u m s) K"
  unfolding invite_progress_def Let_def tick_eq prod.case
  by (rule kps kp gv any_kp split_kp | assumption)+

lemma invite_established_kp [kp]: "K s \<Longrightarrow> gives (invite_established e u m s) K"
  unfolding invite_established_def Let_def tick_eq prod.case
  by (rule kps kp gv any_kp split_kp | assumption)+

lemma invite_success_kp [kp]: "K s \<Longrightarrow> gives (invite_success e u m s) K"
  unfolding invite_success_def Let_def tick_eq prod.case
  by (rule kps kp gv any_kp split_kp | assumption)+

lemma invite_redirect_kp [kp]: "K s \<Longrightarrow> gives (invite_redirect e u m s) K"
  unfolding invite_redirect_def Let_def tick_eq prod.case
  by (rule kps kp gv any_kp split_kp | assumption)+

lemma invite_failure_kp [kp]: "K s \<Longrightarrow> gives (invite_failure e u m s) K"
  unfolding invite_failure_def Let_def tick_eq prod.case
  by (rule kps kp gv any_kp split_kp | assumption)+

lemma invite_resp_handler_kp [kp]: "K s \<Longrightarrow> gives (invite_resp_handler e u err mo s) K"
  unfolding invite_resp_handler_def Let_def tick_eq prod.case
  by (rule kps kp gv any_kp split_kp | assumption)+

lemma reinvite_out_kp [kp]: "K s \<Longrightarrow> gives (reinvite_out e u err s) K"
  unfolding reinvite_out_def Let_def tick_eq prod.case
  by (rule kps kp gv any_kp split_kp | assumption)+

lemma reinvite_success_kp [kp]: "K s \<Longrightarrow> gives (reinvite_success e u m s) K"
  unfolding reinvite_success_def Let_def tick_eq prod.case
  by (rule kps kp gv any_kp split_kp | assumption)+

lemma reinvite_failure_kp [kp]: "K s \<Longrightarrow> gives (reinvite_failure e u m s) K"
  unfolding reinvite_failure_def Let_def tick_eq prod.case
  by (rule kps kp gv any_kp split_kp | assumption)+

lemma reinvite_resp_handler_kp [kp]: "K s \<Longrightarrow> gives (reinvite_resp_handler e u err mo s) K"
  unfolding reinvite_resp_handler_def Let_def tick_eq prod.case
  by (rule kps kp gv any_kp split_kp | assumption)+

lemma request_out_kp [kp]: "K s \<Longrightarrow> gives (request_out e u r err mo s) K"
  unfolding request_out_def Let_def tick_eq prod.case
  by (rule kps kp gv any_kp split_kp | assumption)+

lemma info_resp_handler_kp [kp]: "K s \<Longrightarrow> gives (info_resp_handler e u r err mo s) K"
  unfolding info_resp_handler_def Let_def tick_eq prod.case
  by (rule kps kp gv any_kp split_kp | assumption)+

lemma update_resp_handler_kp [kp]: "K s \<Longrightarrow> gives (update_resp_handler e u r err mo s) K"
  unfolding update_resp_handler_def Let_def tick_eq prod.case
  by (rule kps kp gv any_kp split_kp | assumption)+

lemma prack_out_kp [kp]: "K s \<Longrightarrow> gives (prack_out e u r err s) K"
  unfolding prack_out_def Let_def tick_eq prod.case
  by (rule kps kp gv any_kp split_kp | assumption)+

lemma prack_resp_handler_kp [kp]: "K s \<Longrightarrow> gives (prack_resp_handler e u r err mo s) K"
  unfolding prack_resp_handler_def Let_def tick_eq prod.case
  by (rule kps kp gv any_kp split_kp | assumption)+

lemma info_handler_kp [kp]: "K s \<Longrightarrow> gives (info_handler e u m s) K"
  unfolding info_handler_def Let_def tick_eq prod.case
  by (rule kps kp gv any_kp split_kp | assumption)+

lemma refer_handler_kp [kp]: "K s \<Longrightarrow> gives (refer_handler e u m s) K"
  unfolding refer_handler_def Let_def tick_eq prod.case
  by (rule kps kp gv any_kp split_kp | assumption)+

lemma bye_handler_kp [kp]: "K s \<Longrightarrow> gives (bye_handler e u m s) K"
  unfolding bye_handler_def Let_def tick_eq prod.case
  by (rule kps kp gv any_kp split_kp | assumption)+

lemma sess_cancel_handler_kp [kp]: "K s \<Longrightarrow> gives (sess_cancel_handler e u s) K"
  unfolding sess_cancel_handler_def Let_def tick_eq prod.case
  by (rule kps kp gv any_kp split_kp | assumption)+

lemma sess_ack_handler_kp [kp]: "K s \<Longrightarrow> gives (sess_ack_handler e u m s) K"
  unfolding sess_ack_handler_def Let_def tick_eq prod.case
  by (rule kps kp gv any_kp split_kp | assumption)+

lemma prack_handler_kp [kp]: "K s \<Longrightarrow> gives (prack_handler e u m s) K"
  unfolding prack_handler_def Let_def tick_eq prod.case
  by (rule kps kp gv any_kp split_kp | assumption)+

lemma target_refresh_handler_kp [kp]: "K s \<Longrightarrow> gives (target_refresh_handler e u m s) K"
  unfolding target_refresh_handler_def Let_def tick_eq prod.case
  by (rule kps kp gv any_kp split_kp | assumption)+

lemma resp_handler_kp [kp]: "K s \<Longrightarrow> gives (resp_handler e u k err mo s) K"
  by (cases k) (simp_all add: resp_handler_def kp)

lemma sess_response_kp: "K s \<Longrightarrow> gives (sess_response e u err mo s) K"
  unfolding sess_response_def Let_def
  by (rule kps kp gv any_kp split_kp | assumption)+

lemma sub_response_kp: "K s \<Longrightarrow> gives (sub_response e u r err mo s) K"
proof (unfold sub_response_def Let_def, intro gives_bindI)
  fix se rq
  let ?t = "if mo = None \<or> 200 \<le> sm_scode (the mo) then put_sess (upd_request (rq\<lparr>rq_req := False\<rparr>) se) s else s"
  assume "K s"
  then have "K ?t" by (simp add: kp)
  then show "gives (case rq_met rq of R_INFO \<Rightarrow> info_resp_handler e u r err mo ?t | R_UPDATE \<Rightarrow> update_resp_handler e u r err mo ?t
      | R_PRACK \<Rightarrow> prack_resp_handler e u r err mo ?t) K"
    by (cases "rq_met rq") (simp_all only: sub_met.case kp)
qed

lemma request_handler_kp: "K s \<Longrightarrow> gives (sess_request_handler e u m s) Kp"
proof -
  have d: "gives x K \<Longrightarrow> gives (map_option (\<lambda>s. (True, s)) x) Kp" for x
    by (auto simp: gives_def)
  assume "K s"
  then show ?thesis
    unfolding sess_request_handler_def Let_def by (intro gives_if d kp some_kp)
qed

lemma event_kp:
  assumes "ss_event e u s s'" "K s"
  shows "K s'"
  using assms(1)
proof cases
  case (step_response msg err)
  then show ?thesis using givesD [OF sess_response_kp [OF assms(2)]] by blast
next
  case (step_sub r err msg)
  then show ?thesis using givesD [OF sub_response_kp [OF assms(2)]] by blast
next
  case (step_send se req err)
  then show ?thesis using givesD [OF send_handler_invite_kp [OF assms(2)]] by fast
next
  case (step_request msg b)
  then show ?thesis using givesD [OF request_handler_kp [OF assms(2)]] by fast
qed (use assms(2) in \<open>auto dest: givesD [OF sess_cancel_handler_kp] givesD [OF modify_tmr_handler_kp [OF put_kp]]
      givesD [OF reply_tmr_handler_kp] givesD [OF retransmit_handler_reply_kp] givesD [OF request_tmr_kp] intro: time_kp\<close>)

end

section \<open>Handlers are called in the open\<close>

text \<open>The log only grows, and the user changes only when one of its handlers is called, which the log shows.\<close>

definition grown :: "sess_act list \<Rightarrow> 'u sw \<Rightarrow> bool" where
  "grown xs s \<longleftrightarrow> (\<exists>ys. sw_log s = xs @ ys)"

definition untouched :: "sess_act list \<Rightarrow> 'u \<Rightarrow> 'u sw \<Rightarrow> bool" where
  "untouched xs c s \<longleftrightarrow> (\<exists>ys. sw_log s = xs @ ys \<and> (sw_user s = c \<or> (\<exists>h. Se_call h \<in> set ys)))"

interpretation grown: sess_frame "grown xs" for xs
  by unfold_locales (auto simp: grown_def)

lemma api_grown: "api e s s' \<Longrightarrow> grown xs s \<Longrightarrow> grown xs s'"
proof (induction rule: api.induct)
  case (api_user s x)
  then show ?case by (simp add: grown_def)
qed (auto dest: givesD [OF grown.sipsess_answer_kp] givesD [OF grown.sipsess_progress_kp] givesD [OF grown.sipsess_reject_kp]
      givesD [OF grown.sipsess_modify_kp] givesD [OF grown.sipsess_info_kp] givesD [OF grown.sipsess_set_redirect_handler_kp]
      givesD [OF grown.sipsess_set_prack_handler_kp] intro: grown.sip_reply_kp)

lemma api_end_grown: "api_end e s s' \<Longrightarrow> grown xs s \<Longrightarrow> grown xs s'"
proof (induction rule: api_end.induct)
  case (end_abort s s1 x s')
  then have "grown xs (s1\<lparr>sw_user := x\<rparr>)" using givesD [OF grown.sipsess_abort_kp] by (fastforce simp: grown_def)
  then show ?case using givesD [OF grown.sipsess_release_kp end_abort(4)] by simp
qed (auto dest: api_grown givesD [OF grown.sipsess_release_kp])

lemma apis_grown: "(api e)\<^sup>*\<^sup>* s s' \<Longrightarrow> grown xs s \<Longrightarrow> grown xs s'"
  by (induction rule: rtranclp_induct) (auto intro: api_grown)

lemma ends_grown: "(api_end e)\<^sup>*\<^sup>* s s' \<Longrightarrow> grown xs s \<Longrightarrow> grown xs s'"
  by (induction rule: rtranclp_induct) (auto intro: api_end_grown)

lemma called_untouched:
  assumes "untouched xs c s" "grown (sw_log (say (Se_call h) s)) s'"
  shows "untouched xs c s'"
  using assms by (auto simp: untouched_def grown_def)

lemma untouched_frame: "sess_frame (untouched xs c)"
  by unfold_locales (auto simp: untouched_def)

lemma grown_self: "grown (sw_log s) s"
  by (simp add: grown_def)

lemma apis_untouched: "(api e)\<^sup>*\<^sup>* (say (Se_call h) s) s' \<Longrightarrow> untouched xs c s \<Longrightarrow> untouched xs c s'"
  by (rule called_untouched [OF _ apis_grown [OF _ grown_self]])

lemma ends_untouched: "(api_end e)\<^sup>*\<^sup>* (say (Se_call h) s) s' \<Longrightarrow> untouched xs c s \<Longrightarrow> untouched xs c s'"
  by (rule called_untouched [OF _ ends_grown [OF _ grown_self]])

sublocale sess_user \<subseteq> untouched: sess_keep "untouched xs c" u for xs c
  by (intro sess_keep.intro untouched_frame sess_keep_axioms.intro)
     (auto simp: gives_def dest!: desc_api offer_api answer_api redirect_api prack_api progr_api estab_api info_api refer_api close_api
        resp_api intro: apis_untouched ends_untouched)

context sess_user
begin

lemma ended_untouched:
  assumes r: "ss_reach e u s" "ended (sw_log s)" and v: "ss_event e u s s'"
  shows "sw_user s' = sw_user s"
proof -
  have "untouched (sw_log s) (sw_user s) s'" by (rule untouched.event_kp [OF v]) (simp add: untouched_def)
  then obtain ys where ys: "sw_log s' = sw_log s @ ys" "sw_user s' = sw_user s \<or> (\<exists>h. Se_call h \<in> set ys)"
    by (auto simp: untouched_def)
  have "orderly (sw_log s')" using r(1) v by (blast intro: reach_orderly reach_step step_event)
  then have "Se_call h \<notin> set ys" for h
    using r(2) ys(1) by (auto simp: orderly_def in_set_conv_decomp) (metis append.assoc ended_append)
  then show ?thesis using ys(2) by blast
qed

end

end
