(* ===== verification/Call.thy ===== *)
theory Call
  imports Sipsess Event
begin

text \<open>
  Call control (\<open>native/baresip/src/call.c\<close>, with the event handler and \<open>ua_hangup\<close> of \<open>ua.c\<close>): one \<open>struct call\<close> as the
  user of its SIP session.  The state is a session state whose user is the call; \<open>call->sess\<close> is not \<open>NULL\<close> exactly while
  the call holds its reference (\<open>sw_held\<close>).  The call has a reference count of its own; \<open>None\<close> is again undefined
  behaviour, here also an access to the freed call.  Media, SDP, the transfer subscriptions and the account are parameters
  (\<open>cenv\<close>), the results of the media and SDP operations being read in the order of the calls.  Calls are never
  allocated with an original call (both callers of \<open>ua_call_alloc\<close> pass \<open>NULL\<close>), so \<open>xcall\<close> is left out.
\<close>

section \<open>State\<close>

datatype call_state =
  CALL_STATE_IDLE | CALL_STATE_INCOMING | CALL_STATE_OUTGOING | CALL_STATE_RINGING | CALL_STATE_EARLY | CALL_STATE_ESTABLISHED
| CALL_STATE_TERMINATED | CALL_STATE_TRANSFER | CALL_STATE_UNKNOWN

datatype call_event =
  CALL_EVENT_INCOMING | CALL_EVENT_OUTGOING | CALL_EVENT_RINGING | CALL_EVENT_PROGRESS | CALL_EVENT_ANSWERED
| CALL_EVENT_ESTABLISHED | CALL_EVENT_CLOSED | CALL_EVENT_TRANSFER | CALL_EVENT_TRANSFER_FAILED | CALL_EVENT_MENC

datatype sdp_dir = SDP_INACTIVE | SDP_RECVONLY | SDP_SENDONLY | SDP_SENDRECV

datatype answermode = ANSWERMODE_MANUAL | ANSWERMODE_EARLY | ANSWERMODE_AUTO | ANSWERMODE_EARLY_AUDIO | ANSWERMODE_EARLY_VIDEO

text \<open>What a call did: events for the user agent and for the application, streams started and stopped, digits, the
  progress of a transfer, the end of the call.\<close>

datatype call_act =
  Cl_event call_event | Cl_ua ua_event | Cl_start bool | Cl_stop | Cl_digit char | Cl_digit_end | Cl_notify u16 | Cl_replaced | Cl_destroyed

text \<open>The timers hold their expiry.  \<open>cl_adir\<close> and \<open>cl_vdir\<close>: the local directions of the streams.\<close>

record call =
  cl_refs :: nat
  cl_state :: call_state
  cl_adelay :: int
  cl_outgoing :: bool
  cl_answered :: bool
  cl_got_offer :: bool
  cl_on_hold :: bool
  cl_ans_queued :: bool
  cl_mnat_wait :: bool
  cl_scode :: u16
  cl_replaces_ok :: bool
  cl_not :: bool
  cl_sub :: bool
  cl_streams :: bool
  cl_video :: bool
  cl_use_video :: bool
  cl_estadir :: sdp_dir
  cl_estvdir :: sdp_dir
  cl_adir :: sdp_dir
  cl_vdir :: sdp_dir
  cl_linenum :: u32
  cl_tmr_inv :: "nat option"
  cl_tmr_dtmf :: "nat option"
  cl_tmr_answ :: "nat option"
  cl_tmr_reinv :: "nat option"
  cl_next :: nat
  cl_log :: "call_act list"

record cenv =
  ce_err :: "nat \<Rightarrow> errno"
  ce_len :: "nat \<Rightarrow> nat"
  ce_mnat :: bool
  ce_refer :: bool
  ce_vidisp :: bool
  ce_rel100 :: rel100_mode
  ce_answermode :: answermode
  ce_local_timeout :: u32
  ce_reinv_wait :: nat
  ce_dtmf_info :: bool
  ce_blocked :: bool
  ce_busy :: bool
  ce_early_video :: bool
  ce_media :: "sess_msg \<Rightarrow> bool"
  ce_dtmf :: "sess_msg \<Rightarrow> (char \<times> nat) option option"
  ce_refer_to :: "sess_msg \<Rightarrow> bool"
  ce_dirs :: "sess_msg \<Rightarrow> bool \<times> bool"
  ce_sup_replaces :: "sess_msg \<Rightarrow> bool"
  ce_replaces :: "sess_msg \<Rightarrow> bool option"
  ce_compatible :: "sess_msg \<Rightarrow> bool"
  ce_autoanswer :: bool
  ce_sup_100rel :: bool
  ce_auth_err :: errno
  ce_prep_err :: errno
  ce_dlg_err :: errno
  ce_st_err :: errno

type_synonym csw = "call sw"

text \<open>The call while it is not freed.\<close>

definition the_call :: "csw \<Rightarrow> call option" where
  "the_call s = (if cl_refs (sw_user s) > 0 then Some (sw_user s) else None)"

definition put_call :: "call \<Rightarrow> csw \<Rightarrow> csw" where
  "put_call c s = s\<lparr>sw_user := c\<rparr>"

definition log_call :: "call_act \<Rightarrow> csw \<Rightarrow> csw" where
  "log_call x s = put_call ((sw_user s)\<lparr>cl_log := cl_log (sw_user s) @ [x]\<rparr>) s"

definition set_state :: "call_state \<Rightarrow> csw \<Rightarrow> csw" where
  "set_state st s = put_call ((sw_user s)\<lparr>cl_state := st\<rparr>) s"

text \<open>The next result of a media or SDP operation.\<close>

definition media :: "cenv \<Rightarrow> csw \<Rightarrow> errno \<times> csw" where
  "media ce s = (ce_err ce (cl_next (sw_user s)), put_call ((sw_user s)\<lparr>cl_next := cl_next (sw_user s) + 1\<rparr>) s)"

definition sdp_encode :: "cenv \<Rightarrow> csw \<Rightarrow> errno \<times> nat option \<times> csw" where
  "sdp_encode ce s =
     (let n = cl_next (sw_user s); (err, s) = media ce s in (err, if err = 0 then Some (ce_len ce n) else None, s))"

text \<open>\<open>call->sess\<close>.\<close>

definition call_sess :: "csw \<Rightarrow> sipsess option" where
  "call_sess s = (if sw_held s then sw_sess s else None)"

text \<open>An operation of the session on \<open>call->sess\<close>, which may be \<open>NULL\<close>.\<close>

definition on_sess :: "(csw \<Rightarrow> (errno \<times> csw) option) \<Rightarrow> csw \<Rightarrow> (errno \<times> csw) option" where
  "on_sess f s = (if sw_held s then f s else Some (EINVAL, s))"

section \<open>Streams\<close>

definition call_stream_start :: "bool \<Rightarrow> csw \<Rightarrow> csw" where
  "call_stream_start active s =
     log_call (Cl_start active) (if active then put_call ((sw_user s)\<lparr>cl_tmr_inv := None\<rparr>) s else s)"

definition call_stream_stop :: "csw \<Rightarrow> csw" where
  "call_stream_stop s = log_call Cl_stop (put_call ((sw_user s)\<lparr>cl_tmr_inv := None\<rparr>) s)"

definition sdp_dir_send :: "sdp_dir \<Rightarrow> sdp_dir" where
  "sdp_dir_send d = (if d = SDP_SENDONLY \<or> d = SDP_SENDRECV then SDP_SENDONLY else SDP_INACTIVE)"

definition call_set_mdir :: "cenv \<Rightarrow> sdp_dir \<Rightarrow> sdp_dir \<Rightarrow> csw \<Rightarrow> csw" where
  "call_set_mdir ce a v s =
     (let c = sw_user s;
          c = (if cl_streams c then c\<lparr>cl_adir := a\<rparr> else c);
          c = (if cl_video c then c\<lparr>cl_vdir := (if ce_vidisp ce then v else sdp_dir_send v)\<rparr> else c)
      in put_call c s)"

definition call_set_media_estdir :: "sdp_dir \<Rightarrow> sdp_dir \<Rightarrow> csw \<Rightarrow> csw" where
  "call_set_media_estdir a v s =
     put_call ((sw_user s)\<lparr>cl_estadir := a, cl_estvdir := (if cl_use_video (sw_user s) then v else SDP_INACTIVE)\<rparr>) s"

definition call_set_media_direction :: "cenv \<Rightarrow> sdp_dir \<Rightarrow> sdp_dir \<Rightarrow> csw \<Rightarrow> csw" where
  "call_set_media_direction ce a v s = call_set_mdir ce a v (call_set_media_estdir a v s)"

text \<open>\<open>stream_ldir\<close> of a stream that does not exist is inactive.\<close>

definition call_need_modify :: "csw \<Rightarrow> bool" where
  "call_need_modify s =
     (let c = sw_user s
      in (if cl_streams c then cl_adir c else SDP_INACTIVE) \<noteq> cl_estadir c \<or>
         (if cl_video c then cl_vdir c else SDP_INACTIVE) \<noteq> cl_estvdir c)"

text \<open>The audio stream, then the video stream.\<close>

definition call_streams_alloc :: "cenv \<Rightarrow> csw \<Rightarrow> errno \<times> csw" where
  "call_streams_alloc ce s =
     (let (err, s) = media ce s
      in if err \<noteq> 0 then (err, s)
         else
           let s = put_call ((sw_user s)\<lparr>cl_streams := True\<rparr>) s
           in if \<not> cl_use_video (sw_user s) then (OK, s)
              else
                let (err, s) = media ce s
                in if err \<noteq> 0 then (err, s) else (OK, put_call ((sw_user s)\<lparr>cl_video := True\<rparr>) s))"

definition call_update_media :: "cenv \<Rightarrow> csw \<Rightarrow> errno \<times> csw" where
  "call_update_media ce s = (let (err, s) = media ce s; (err2, s) = media ce s in (err OR err2, s))"

definition update_media :: "cenv \<Rightarrow> csw \<Rightarrow> errno \<times> csw" where
  "update_media ce s = call_update_media ce (log_call (Cl_ua UA_EVENT_CALL_REMOTE_SDP) s)"

section \<open>The end of a call\<close>

definition call_notify_sipfrag :: "u16 \<Rightarrow> csw \<Rightarrow> csw" where
  "call_notify_sipfrag scode s =
     (let s = log_call (Cl_notify scode) s in if scode \<ge> 200 then put_call ((sw_user s)\<lparr>cl_not := False\<rparr>) s else s)"

definition call_destructor :: "senv \<Rightarrow> csw \<Rightarrow> csw option" where
  "call_destructor e s = do {
     let s = call_stream_stop s;
     let s = put_call ((sw_user s)\<lparr>cl_tmr_dtmf := None, cl_tmr_answ := None, cl_tmr_reinv := None\<rparr>) s;
     s \<leftarrow> (if sw_held s then sipsess_release e s else Some s);
     Some (log_call Cl_destroyed (put_call ((sw_user s)\<lparr>cl_streams := False, cl_video := False, cl_sub := False, cl_not := False\<rparr>) s)) }"

definition call_deref :: "senv \<Rightarrow> csw \<Rightarrow> csw option" where
  "call_deref e s = do {
     c \<leftarrow> the_call s;
     let s = put_call (c\<lparr>cl_refs := cl_refs c - 1\<rparr>) s;
     if cl_refs c > 1 then Some s else call_destructor e s }"

definition call_hangup :: "senv \<Rightarrow> u16 \<Rightarrow> csw \<Rightarrow> csw option" where
  "call_hangup e scode s = do {
     c \<leftarrow> the_call s;
     s \<leftarrow> (if cl_state c = CALL_STATE_INCOMING then
             (if cl_answered c then (if sw_held s then sipsess_abort e s else Some s)
              else do {
                (_, s) \<leftarrow> on_sess (sipsess_reject e (if scode = 0 then 486 else scode)) s;
                Some s })
           else do {
             let s = (if cl_not c then call_notify_sipfrag 487 s else s);
             if sw_held s then sipsess_release e s else Some s });
     Some (call_stream_stop (set_state CALL_STATE_TERMINATED s)) }"

text \<open>\<open>ua_hangup\<close> for a given call.\<close>

definition ua_hangup_call :: "senv \<Rightarrow> u16 \<Rightarrow> csw \<Rightarrow> csw option" where
  "ua_hangup_call e scode s = do {
     s \<leftarrow> call_hangup e scode s;
     call_deref e (log_call (Cl_ua UA_EVENT_CALL_CLOSED) s) }"

section \<open>Changes of a call\<close>

definition call_modify :: "senv \<Rightarrow> cenv \<Rightarrow> csw \<Rightarrow> (errno \<times> csw) option" where
  "call_modify e ce s = do {
     _ \<leftarrow> the_call s;
     (err, s) \<leftarrow>
       (if sipsess_refresh_allowed (call_sess s) then
          (let (err, desc, s) = sdp_encode ce s
           in if err \<noteq> 0 then Some (OK, s) else on_sess (sipsess_modify e desc) (log_call (Cl_ua UA_EVENT_CALL_LOCAL_SDP) s))
        else Some (OK, s));
     if err \<noteq> 0 then Some (err, s) else Some (call_update_media ce s) }"

definition call_hold :: "senv \<Rightarrow> cenv \<Rightarrow> bool \<Rightarrow> csw \<Rightarrow> (errno \<times> csw) option" where
  "call_hold e ce hold s = do {
     c \<leftarrow> the_call s;
     if \<not> sw_held s then Some (EINVAL, s)
     else if hold = cl_on_hold c then Some (OK, s)
     else call_modify e ce (put_call (c\<lparr>cl_on_hold := hold\<rparr>) s) }"

definition call_set_video_dir :: "senv \<Rightarrow> cenv \<Rightarrow> sdp_dir \<Rightarrow> csw \<Rightarrow> (errno \<times> csw) option" where
  "call_set_video_dir e ce dir s = do {
     c \<leftarrow> the_call s;
     let c = c\<lparr>cl_estvdir := dir\<rparr>;
     call_modify e ce (put_call (if cl_video c then c\<lparr>cl_vdir := dir\<rparr> else c) s) }"

definition call_progress_dir :: "senv \<Rightarrow> cenv \<Rightarrow> sdp_dir \<Rightarrow> sdp_dir \<Rightarrow> csw \<Rightarrow> (errno \<times> csw) option" where
  "call_progress_dir e ce adir vdir s = do {
     c \<leftarrow> the_call s;
     let s = put_call (c\<lparr>cl_tmr_inv := None\<rparr>) s;
     let s = (if adir \<noteq> cl_estadir c \<or> vdir \<noteq> cl_estvdir c then call_set_mdir ce adir vdir s else s);
     let (err, desc, s) = sdp_encode ce s;
     if err \<noteq> 0 then Some (err, s)
     else do {
       (err, s) \<leftarrow> on_sess (sipsess_progress e 183 (ce_rel100 ce) desc) s;
       if err \<noteq> 0 then Some (OK, s)
       else
         let (err, s) = (if cl_got_offer c then call_update_media ce (log_call (Cl_ua UA_EVENT_CALL_LOCAL_SDP) s) else (OK, s))
         in Some (OK, if err \<noteq> 0 then s else call_stream_start False s) } }"

definition call_progress :: "senv \<Rightarrow> cenv \<Rightarrow> csw \<Rightarrow> (errno \<times> csw) option" where
  "call_progress e ce s =
     (let m = ce_answermode ce;
          adir = (if m = ANSWERMODE_EARLY then SDP_SENDRECV else if m = ANSWERMODE_EARLY_AUDIO then SDP_RECVONLY else SDP_INACTIVE);
          vdir = (if m = ANSWERMODE_EARLY then SDP_SENDRECV else if m = ANSWERMODE_EARLY_VIDEO then SDP_RECVONLY else SDP_INACTIVE)
      in call_progress_dir e ce adir vdir s)"

text \<open>The result of \<open>call_apply_sdp\<close> is lost.\<close>

definition call_answer :: "senv \<Rightarrow> cenv \<Rightarrow> u16 \<Rightarrow> bool \<Rightarrow> csw \<Rightarrow> (errno \<times> csw) option" where
  "call_answer e ce scode video s = do {
     c \<leftarrow> the_call s;
     if \<not> sw_held s then Some (EINVAL, s)
     else
       let c = c\<lparr>cl_tmr_answ := None\<rparr>; s = put_call c s
       in if cl_state c \<noteq> CALL_STATE_INCOMING then Some (EINVAL, s)
          else if sipsess_awaiting_prack (call_sess s) then Some (EAGAIN, s)
          else
            let s = (if \<not> video then put_call (c\<lparr>cl_video := False\<rparr>) s else s);
                s = (if cl_got_offer c then snd (media ce s) else s);
                (err, desc, s) = sdp_encode ce (log_call (Cl_ua UA_EVENT_CALL_LOCAL_SDP) s)
            in if err \<noteq> 0 then Some (err, s)
               else do {
                 (err, s) \<leftarrow> on_sess (sipsess_answer e scode desc) s;
                 Some (err, put_call ((sw_user s)\<lparr>cl_answered := True, cl_ans_queued := False\<rparr>) s) } }"

definition dtmf_key :: "char \<Rightarrow> bool" where
  "dtmf_key key \<longleftrightarrow> (let k = (of_char key :: nat) in 48 \<le> k \<and> k \<le> 57 \<or> 97 \<le> k \<and> k \<le> 100 \<or> k = 42 \<or> k = 35)"

definition send_dtmf_info :: "senv \<Rightarrow> char \<Rightarrow> csw \<Rightarrow> (errno \<times> csw) option" where
  "send_dtmf_info e key s = (if \<not> dtmf_key key then Some (EINVAL, s) else on_sess (sipsess_info e 25) s)"

text \<open>\<open>None\<close> is the release of a key.\<close>

definition call_digit :: "senv \<Rightarrow> cenv \<Rightarrow> char option \<Rightarrow> csw \<Rightarrow> (errno \<times> csw) option" where
  "call_digit e ce key s = do {
     _ \<leftarrow> the_call s;
     if ce_dtmf_info ce then (case key of None \<Rightarrow> Some (OK, s) | Some k \<Rightarrow> send_dtmf_info e k s)
     else Some (media ce s) }"

definition call_start_answtmr :: "nat \<Rightarrow> csw \<Rightarrow> csw option" where
  "call_start_answtmr ms s = do { c \<leftarrow> the_call s; Some (put_call (c\<lparr>cl_tmr_answ := Some (sw_now s + ms)\<rparr>) s) }"

section \<open>Events\<close>

text \<open>The handler of the user agent.  The application's handler rejects a second call as busy and leaves the call alone
  otherwise.\<close>

definition app_incoming :: "senv \<Rightarrow> cenv \<Rightarrow> csw \<Rightarrow> csw option" where
  "app_incoming e ce s = (if ce_busy ce then ua_hangup_call e 486 s else Some s)"

definition ua_call_event :: "senv \<Rightarrow> cenv \<Rightarrow> call_event \<Rightarrow> csw \<Rightarrow> csw option" where
  "ua_call_event e ce ev s =
     (case ev of
        CALL_EVENT_INCOMING \<Rightarrow>
          if ce_blocked ce then call_deref e (log_call (Cl_ua UA_EVENT_CALL_CLOSED) s)
          else do {
            s \<leftarrow> app_incoming e ce (log_call (Cl_ua UA_EVENT_CALL_INCOMING) s);
            if ce_answermode ce = ANSWERMODE_EARLY \<or> ce_answermode ce = ANSWERMODE_EARLY_AUDIO \<or>
               ce_answermode ce = ANSWERMODE_EARLY_VIDEO \<and> ce_early_video ce
            then do { (_, s) \<leftarrow> call_progress e ce s; Some s }
            else Some s }
      | CALL_EVENT_OUTGOING \<Rightarrow> Some (log_call (Cl_ua UA_EVENT_CALL_OUTGOING) s)
      | CALL_EVENT_RINGING \<Rightarrow> Some (log_call (Cl_ua UA_EVENT_CALL_RINGING) s)
      | CALL_EVENT_PROGRESS \<Rightarrow> Some (log_call (Cl_ua UA_EVENT_CALL_PROGRESS) s)
      | CALL_EVENT_ANSWERED \<Rightarrow> Some (log_call (Cl_ua UA_EVENT_CALL_ANSWERED) s)
      | CALL_EVENT_ESTABLISHED \<Rightarrow> Some (log_call (Cl_ua UA_EVENT_CALL_ESTABLISHED) s)
      | CALL_EVENT_CLOSED \<Rightarrow> call_deref e (log_call (Cl_ua UA_EVENT_CALL_CLOSED) s)
      | CALL_EVENT_TRANSFER \<Rightarrow> Some (log_call (Cl_ua UA_EVENT_CALL_TRANSFER) s)
      | CALL_EVENT_TRANSFER_FAILED \<Rightarrow> Some (log_call (Cl_ua UA_EVENT_CALL_TRANSFER_FAILED) s)
      | CALL_EVENT_MENC \<Rightarrow> Some (log_call (Cl_ua UA_EVENT_CALL_MENC) s))"

definition call_event :: "senv \<Rightarrow> cenv \<Rightarrow> call_event \<Rightarrow> csw \<Rightarrow> csw option" where
  "call_event e ce ev s = do { _ \<leftarrow> the_call s; ua_call_event e ce ev (log_call (Cl_event ev) s) }"

section \<open>Handlers of the session\<close>

definition sipsess_desc_handler :: "cenv \<Rightarrow> csw \<Rightarrow> (errno \<times> nat option \<times> csw) option" where
  "sipsess_desc_handler ce s = do {
     c \<leftarrow> the_call s;
     let (err, s) = (if \<not> cl_streams c
                     then let (err, s) = call_streams_alloc ce s
                          in (err, if err = 0 then call_set_mdir ce (cl_estadir c) (cl_estvdir c) s else s)
                     else (OK, s));
     if err \<noteq> 0 then Some (err, None, s) else Some (sdp_encode ce s) }"

definition sipsess_offer_handler :: "cenv \<Rightarrow> sess_msg \<Rightarrow> csw \<Rightarrow> (errno \<times> nat option \<times> csw) option" where
  "sipsess_offer_handler ce msg s = do {
     c \<leftarrow> the_call s;
     let (err, s) =
       (if sm_body msg > 0 then
          (let (err, s) = media ce (put_call (c\<lparr>cl_got_offer := True\<rparr>) s)
           in if err \<noteq> 0 then (err, s)
              else
                let (was, now_held) = ce_dirs ce msg;
                    s = (if was \<and> \<not> now_held then log_call (Cl_ua UA_EVENT_CALL_HOLD) s
                         else if \<not> was \<and> now_held then log_call (Cl_ua UA_EVENT_CALL_RESUME) s else s)
                in update_media ce s)
        else (OK, s));
     if err \<noteq> 0 then Some (err, None, s) else Some (sdp_encode ce s) }"

definition sipsess_answer_handler :: "senv \<Rightarrow> cenv \<Rightarrow> sess_msg \<Rightarrow> csw \<Rightarrow> (errno \<times> csw) option" where
  "sipsess_answer_handler e ce msg s = do {
     c \<leftarrow> the_call s;
     let c = (if ce_sup_replaces ce msg then c\<lparr>cl_replaces_ok := True\<rparr> else c);
     let s = put_call (c\<lparr>cl_got_offer := False\<rparr>) s;
     s \<leftarrow> (if sm_met msg = ''INVITE'' \<and> sm_scode msg \<ge> 200 \<and> sm_scode msg < 300 then call_event e ce CALL_EVENT_ANSWERED s else Some s);
     let (err, s) = media ce s;
     Some (if err \<noteq> 0 then (err, s) else update_media ce s) }"

definition sipsess_progr_handler :: "senv \<Rightarrow> cenv \<Rightarrow> sess_msg \<Rightarrow> csw \<Rightarrow> csw option" where
  "sipsess_progr_handler e ce msg s = do {
     c \<leftarrow> the_call s;
     if sm_scode msg \<le> 100 then Some s
     else
       let s = (if sm_scode msg = 180 then set_state CALL_STATE_RINGING s
                else if sm_scode msg = 183 then set_state CALL_STATE_EARLY s else s)
       in if ce_media ce msg then do {
            s \<leftarrow> call_event e ce CALL_EVENT_PROGRESS (put_call ((sw_user s)\<lparr>cl_refs := cl_refs (sw_user s) + 1\<rparr>) s);
            call_deref e (call_stream_start False s) }
          else call_event e ce CALL_EVENT_RINGING (call_stream_stop s) }"

text \<open>The handler of the event may release the call, so it comes last.\<close>

definition sipsess_estab_handler :: "senv \<Rightarrow> cenv \<Rightarrow> csw \<Rightarrow> csw option" where
  "sipsess_estab_handler e ce s = do {
     c \<leftarrow> the_call s;
     if cl_state c = CALL_STATE_ESTABLISHED then Some s
     else
       let s = set_state CALL_STATE_ESTABLISHED s;
           s = (if cl_got_offer c then snd (media ce s) else s);
           s = call_stream_start True s;
           s = (if cl_not c then call_notify_sipfrag 200 s else s);
           s = put_call ((sw_user s)\<lparr>cl_tmr_reinv := Some (sw_now s + (if cl_outgoing c then 150 else 0) + ce_reinv_wait ce)\<rparr>) s
       in call_event e ce CALL_EVENT_ESTABLISHED s }"

definition sipsess_info_handler :: "senv \<Rightarrow> cenv \<Rightarrow> sess_msg \<Rightarrow> csw \<Rightarrow> csw option" where
  "sipsess_info_handler e ce msg s = do {
     c \<leftarrow> the_call s;
     Some (case ce_dtmf ce msg of
             None \<Rightarrow> sip_reply e 488 s
           | Some None \<Rightarrow> sip_reply e 400 s
           | Some (Some (key, duration)) \<Rightarrow>
               let s = sip_reply e 200 s
               in log_call (Cl_digit key) (put_call ((sw_user s)\<lparr>cl_tmr_dtmf := Some (sw_now s + duration)\<rparr>) s)) }"

definition sipsess_refer_handler :: "senv \<Rightarrow> cenv \<Rightarrow> sess_msg \<Rightarrow> csw \<Rightarrow> csw option" where
  "sipsess_refer_handler e ce msg s = do {
     c \<leftarrow> the_call s;
     if \<not> ce_refer_to ce msg then Some (sip_reply e 400 s)
     else
       let (err, s) = media ce (put_call (c\<lparr>cl_not := False\<rparr>) s)
       in if err \<noteq> 0 then Some s
          else
            let s = call_notify_sipfrag 100 (put_call ((sw_user s)\<lparr>cl_not := True\<rparr>) s)
            in call_event e ce CALL_EVENT_TRANSFER (set_state CALL_STATE_TRANSFER s) }"

definition sipsess_close_handler :: "senv \<Rightarrow> cenv \<Rightarrow> errno \<Rightarrow> sess_msg option \<Rightarrow> csw \<Rightarrow> csw option" where
  "sipsess_close_handler e ce err msg s = do {
     c \<leftarrow> the_call s;
     let s = (if err \<noteq> 0 then (if cl_not c then call_notify_sipfrag 500 s else s)
              else
                case msg of
                  None \<Rightarrow> s
                | Some m \<Rightarrow>
                    let s = put_call (c\<lparr>cl_scode := sm_scode m\<rparr>) s in if cl_not c then call_notify_sipfrag (sm_scode m) s else s);
     call_event e ce CALL_EVENT_CLOSED (call_stream_stop s) }"

definition call_redirect_handler :: "csw \<Rightarrow> csw option" where
  "call_redirect_handler s = do { _ \<leftarrow> the_call s; Some (log_call (Cl_ua UA_EVENT_CALL_REDIRECT) s) }"

definition call_prack_handler :: "senv \<Rightarrow> cenv \<Rightarrow> csw \<Rightarrow> csw option" where
  "call_prack_handler e ce s = do {
     c \<leftarrow> the_call s;
     if cl_ans_queued c \<and> \<not> cl_answered c then do { (_, s) \<leftarrow> call_answer e ce 200 True s; Some s } else Some s }"

text \<open>The call as the user of its session.  \<open>sipsess_send_info_handler\<close> only logs.\<close>

definition call_user :: "senv \<Rightarrow> cenv \<Rightarrow> call user" where
  "call_user e ce =
     \<lparr>u_desc = sipsess_desc_handler ce, u_offer = sipsess_offer_handler ce, u_answer = sipsess_answer_handler e ce,
      u_progr = sipsess_progr_handler e ce, u_estab = (\<lambda>_. sipsess_estab_handler e ce), u_info = sipsess_info_handler e ce,
      u_refer = sipsess_refer_handler e ce, u_close = sipsess_close_handler e ce, u_redirect = (\<lambda>_. call_redirect_handler),
      u_prack = (\<lambda>_. call_prack_handler e ce), u_resp = (\<lambda>_ _. Some)\<rparr>"

section \<open>The beginning of a call\<close>

definition send_invite :: "senv \<Rightarrow> cenv \<Rightarrow> csw \<Rightarrow> (errno \<times> csw) option" where
  "send_invite e ce s = do {
     (err, s) \<leftarrow> sipsess_connect e (call_user e ce) (ce_auth_err ce) (ce_prep_err ce) (ce_sup_100rel ce)
                   (if ce_refer ce then H_user else H_null) (sw_user s) (sw_now s);
     if err \<noteq> 0 then Some (err, s)
     else do {
       s \<leftarrow> sipsess_set_redirect_handler s;
       s \<leftarrow> sipsess_set_prack_handler s;
       Some (OK, log_call (Cl_ua UA_EVENT_CALL_LOCAL_SDP) s) } }"

text \<open>The first results are those of the copies of the identifier and the address.\<close>

definition call_connect :: "senv \<Rightarrow> cenv \<Rightarrow> csw \<Rightarrow> (errno \<times> csw) option" where
  "call_connect e ce s = do {
     c \<leftarrow> the_call s;
     let (err, s) = media ce (put_call (c\<lparr>cl_outgoing := True\<rparr>) s);
     if err \<noteq> 0 then Some (err, s)
     else
       let (err, s) = media ce s
       in if err \<noteq> 0 then Some (err, s)
          else do {
            s \<leftarrow> call_event e ce CALL_EVENT_OUTGOING (set_state CALL_STATE_OUTGOING s);
            if \<not> ce_mnat ce then send_invite e ce s
            else
              let (err, s) = call_streams_alloc ce s
              in Some (err, if err = 0 then call_set_mdir ce (cl_estadir c) (cl_estvdir c) s else s) } }"

text \<open>The end of \<open>call_accept\<close>, when the session exists.\<close>

definition incoming_call :: "cenv \<Rightarrow> nat \<Rightarrow> call \<Rightarrow> call" where
  "incoming_call ce now c =
     (let c = (if ce_local_timeout ce \<noteq> 0 then c\<lparr>cl_tmr_inv := Some (now + unat (ce_local_timeout ce * 1000))\<rparr> else c)
      in c\<lparr>cl_estadir := cl_adir c, cl_estvdir := (if cl_video c then cl_vdir c else SDP_INACTIVE)\<rparr>)"

definition call_accepted :: "senv \<Rightarrow> cenv \<Rightarrow> csw \<Rightarrow> (errno \<times> csw) option" where
  "call_accepted e ce s =
     (let (err, s) = media ce s
      in if err \<noteq> 0 then Some (err, s)
         else do {
           s \<leftarrow> sipsess_set_prack_handler (set_state CALL_STATE_INCOMING s);
           let s = put_call (incoming_call ce (sw_now s) (sw_user s)) s;
           s \<leftarrow> (if \<not> ce_mnat ce then call_event e ce CALL_EVENT_INCOMING s else Some s);
           Some (OK, s) })"

text \<open>A copy of the peer's name that fails is like streams that cannot be allocated, a copy of the Replaces header that
  fails like an offer that cannot be decoded.  \<open>ce_replaces\<close>: the message has a Replaces header, and whether the call that it names exists.\<close>

definition call_accept :: "senv \<Rightarrow> cenv \<Rightarrow> sess_msg \<Rightarrow> csw \<Rightarrow> (errno \<times> csw) option" where
  "call_accept e ce msg s = do {
     c \<leftarrow> the_call s;
     let (err, s) = call_streams_alloc ce (put_call (c\<lparr>cl_outgoing := False\<rparr>) s);
     if err \<noteq> 0 then Some (err, s)
     else
       let (err, s) = (if cl_got_offer c then media ce s else (OK, s))
       in if err \<noteq> 0 then Some (err, s)
          else if cl_got_offer c \<and> \<not> ce_compatible ce msg then do {
            s \<leftarrow> call_event e ce CALL_EVENT_CLOSED (sip_reply e 488 s);
            Some (OK, s) }
          else do {
            s \<leftarrow> (case ce_replaces ce msg of
                     None \<Rightarrow> Some s
                   | Some found \<Rightarrow> if found then Some (log_call Cl_replaced s) else None);
            (err, s) \<leftarrow> sipsess_accept e (ce_auth_err ce) (ce_dlg_err ce) (ce_st_err ce) 180 (ce_rel100 ce) None
                          (if ce_refer ce then H_user else H_null) msg (sw_user s) (sw_now s);
            if err \<noteq> 0 then Some (err, s) else call_accepted e ce s } }"

text \<open>The RFC 5373 header \<open>Answer-Mode\<close> or \<open>Priv-Answer-Mode\<close>: absent, or automatic with or without \<open>require\<close>.\<close>

definition call_rfc5373_autoanswer :: "senv \<Rightarrow> cenv \<Rightarrow> bool option \<Rightarrow> csw \<Rightarrow> csw option" where
  "call_rfc5373_autoanswer e ce hdr s = do {
     c \<leftarrow> the_call s;
     case hdr of
       None \<Rightarrow> Some s
     | Some require \<Rightarrow>
         if require \<and> \<not> ce_autoanswer ce then call_hangup e 0 s else Some (put_call (c\<lparr>cl_adelay := 0\<rparr>) s) }"

text \<open>The delays that Call-Info and Alert-Info name come first.\<close>

definition call_decode_sip_autoanswer ::
    "senv \<Rightarrow> cenv \<Rightarrow> int option \<Rightarrow> int option \<Rightarrow> bool option \<Rightarrow> bool option \<Rightarrow> csw \<Rightarrow> csw option" where
  "call_decode_sip_autoanswer e ce call_info alert_info mode priv s = do {
     c \<leftarrow> the_call s;
     let c = c\<lparr>cl_adelay := -1\<rparr>;
     let s = put_call c s;
     case call_info of
       Some d \<Rightarrow> Some (put_call (c\<lparr>cl_adelay := d\<rparr>) s)
     | None \<Rightarrow>
         (case alert_info of
            Some d \<Rightarrow> Some (put_call (c\<lparr>cl_adelay := d\<rparr>) s)
          | None \<Rightarrow> do { s \<leftarrow> call_rfc5373_autoanswer e ce mode s; call_rfc5373_autoanswer e ce priv s }) }"

definition call_find_linenum :: "u32 list \<Rightarrow> u32 \<Rightarrow> bool" where
  "call_find_linenum calls num = (num \<in> set calls)"

abbreviation (input) CALL_LINENUM_MIN :: nat where "CALL_LINENUM_MIN \<equiv> 1"
abbreviation (input) CALL_LINENUM_MAX :: nat where "CALL_LINENUM_MAX \<equiv> 256"

definition assign_linenum :: "u32 list \<Rightarrow> errno \<times> u32 option" where
  "assign_linenum calls =
     (case find (\<lambda>num. \<not> call_find_linenum calls num) (map of_nat [CALL_LINENUM_MIN..<CALL_LINENUM_MAX]) of
        None \<Rightarrow> (ENOENT, None)
      | Some num \<Rightarrow> (OK, Some num))"

definition init_call :: call where
  "init_call =
     \<lparr>cl_refs = 1, cl_state = CALL_STATE_IDLE, cl_adelay = 0, cl_outgoing = False, cl_answered = False, cl_got_offer = False,
      cl_on_hold = False, cl_ans_queued = False, cl_mnat_wait = False, cl_scode = 0, cl_replaces_ok = False, cl_not = False,
      cl_sub = False, cl_streams = False, cl_video = False, cl_use_video = False, cl_estadir = SDP_SENDRECV,
      cl_estvdir = SDP_SENDRECV, cl_adir = SDP_SENDRECV, cl_vdir = SDP_SENDRECV, cl_linenum = 0, cl_tmr_inv = None, cl_tmr_dtmf = None,
      cl_tmr_answ = None, cl_tmr_reinv = None, cl_next = 0, cl_log = []\<rparr>"

definition no_sess :: "call \<Rightarrow> nat \<Rightarrow> csw" where
  "no_sess c now = \<lparr>sw_sess = None, sw_refs = 0, sw_held = False, sw_user = c, sw_next = 0, sw_now = now, sw_log = []\<rparr>"

text \<open>\<open>auto\<close>: what the headers say of an automatic answer; \<open>msg\<close>: the message of an incoming call; \<open>calls\<close>: the line numbers
  of the calls of the user agent.  One result stands for the allocations of the strings, the SDP session, the NAT and the encryption
  session, which all end in the same way; the result of an allocation that fails is the freed call.\<close>

definition call_alloc ::
    "senv \<Rightarrow> cenv \<Rightarrow> int option \<times> int option \<times> bool option \<times> bool option \<Rightarrow> bool \<Rightarrow> sess_msg option \<Rightarrow> u32 list \<Rightarrow> nat \<Rightarrow>
     (errno \<times> csw) option" where
  "call_alloc e ce auto use_video msg calls now = do {
     let (call_info, alert_info, mode, priv) = auto;
     s \<leftarrow> call_decode_sip_autoanswer e ce call_info alert_info mode priv (no_sess init_call now);
     let (err, s) = media ce s;
     if err \<noteq> 0 then do { s \<leftarrow> call_deref e s; Some (err, s) }
     else
       let got_offer = (case msg of None \<Rightarrow> False | Some m \<Rightarrow> sm_body m > 0);
           replaces = (case msg of None \<Rightarrow> False | Some m \<Rightarrow> ce_sup_replaces ce m);
           s = put_call ((sw_user s)\<lparr>cl_got_offer := got_offer, cl_replaces_ok := replaces, cl_mnat_wait := True, cl_use_video := use_video,
                 cl_estvdir := (if use_video then SDP_SENDRECV else SDP_INACTIVE)\<rparr>) s
       in case assign_linenum calls of
            (err, None) \<Rightarrow> do { s \<leftarrow> call_deref e s; Some (err, s) }
          | (err, Some num) \<Rightarrow> Some (OK, put_call ((sw_user s)\<lparr>cl_linenum := num\<rparr>) s) }"

section \<open>Timers and errors\<close>

definition invite_timeout :: "senv \<Rightarrow> cenv \<Rightarrow> csw \<Rightarrow> csw option" where
  "invite_timeout e ce s = call_event e ce CALL_EVENT_CLOSED s"

definition dtmfend_handler :: "csw \<Rightarrow> csw option" where
  "dtmfend_handler s = do { _ \<leftarrow> the_call s; Some (log_call Cl_digit_end s) }"

definition delayed_answer_handler :: "senv \<Rightarrow> cenv \<Rightarrow> csw \<Rightarrow> csw option" where
  "delayed_answer_handler e ce s = do {
     c \<leftarrow> the_call s;
     if sipsess_awaiting_prack (call_sess s) then Some (put_call (c\<lparr>cl_ans_queued := True\<rparr>) s)
     else do { (_, s) \<leftarrow> call_answer e ce 200 True s; Some s } }"

definition set_established_mdir :: "senv \<Rightarrow> cenv \<Rightarrow> csw \<Rightarrow> csw option" where
  "set_established_mdir e ce s = do {
     c \<leftarrow> the_call s;
     if call_need_modify s then do { (_, s) \<leftarrow> call_modify e ce (call_set_mdir ce (cl_estadir c) (cl_estvdir c) s); Some s }
     else Some s }"

definition stream_error_handler :: "senv \<Rightarrow> cenv \<Rightarrow> csw \<Rightarrow> csw option" where
  "stream_error_handler e ce s = do {
     c \<leftarrow> the_call s;
     call_event e ce CALL_EVENT_CLOSED (call_stream_stop (set_state CALL_STATE_TERMINATED (put_call (c\<lparr>cl_scode := 701\<rparr>) s))) }"

definition audio_error_handler :: "senv \<Rightarrow> cenv \<Rightarrow> errno \<Rightarrow> csw \<Rightarrow> csw option" where
  "audio_error_handler e ce err s = do {
     _ \<leftarrow> the_call s;
     if err \<noteq> 0 then call_event e ce CALL_EVENT_CLOSED (call_stream_stop (log_call (Cl_ua UA_EVENT_AUDIO_ERROR) s))
     else Some (log_call (Cl_ua UA_EVENT_END_OF_FILE) s) }"

text \<open>\<open>menc_error_handler\<close> does the same.\<close>

definition video_error_handler :: "senv \<Rightarrow> cenv \<Rightarrow> csw \<Rightarrow> csw option" where
  "video_error_handler e ce s = do { _ \<leftarrow> the_call s; call_event e ce CALL_EVENT_CLOSED (call_stream_stop s) }"

definition mnat_handler :: "senv \<Rightarrow> cenv \<Rightarrow> errno \<Rightarrow> u16 \<Rightarrow> csw \<Rightarrow> csw option" where
  "mnat_handler e ce err scode s = do {
     c \<leftarrow> the_call s;
     if err \<noteq> 0 \<or> scode \<noteq> 0 then call_event e ce CALL_EVENT_CLOSED s
     else if \<not> cl_mnat_wait c then do { (_, s) \<leftarrow> call_modify e ce s; Some s }
     else
       let s = put_call (c\<lparr>cl_mnat_wait := False\<rparr>) s
       in if cl_state c = CALL_STATE_OUTGOING then do { (_, s) \<leftarrow> send_invite e ce s; Some s }
          else if cl_state c = CALL_STATE_INCOMING then call_event e ce CALL_EVENT_INCOMING s
          else Some s }"

section \<open>Transfers\<close>

text \<open>The notification of a transferred call: the status of its status line.\<close>

definition sipsub_notify_handler :: "senv \<Rightarrow> cenv \<Rightarrow> u32 option \<Rightarrow> csw \<Rightarrow> csw option" where
  "sipsub_notify_handler e ce sc s = do {
     _ \<leftarrow> the_call s;
     case sc of
       None \<Rightarrow> Some (sip_reply e 400 s)
     | Some sc \<Rightarrow>
         let s = sip_reply e 200 s
         in if sc \<ge> 300 then call_event e ce CALL_EVENT_TRANSFER_FAILED s
            else if sc \<ge> 200 then call_event e ce CALL_EVENT_CLOSED s
            else Some s }"

definition sipsub_close_handler :: "senv \<Rightarrow> cenv \<Rightarrow> errno \<Rightarrow> u16 option \<Rightarrow> csw \<Rightarrow> csw option" where
  "sipsub_close_handler e ce err scode s = do {
     c \<leftarrow> the_call s;
     let s = put_call (c\<lparr>cl_sub := False\<rparr>) s;
     if err = 0 \<and> (case scode of None \<Rightarrow> False | Some x \<Rightarrow> x \<ge> 300) then call_event e ce CALL_EVENT_TRANSFER_FAILED s else Some s }"

definition sipnot_close_handler :: "senv \<Rightarrow> cenv \<Rightarrow> errno \<Rightarrow> u16 option \<Rightarrow> csw \<Rightarrow> csw option" where
  "sipnot_close_handler e ce err scode s = do {
     c \<leftarrow> the_call s;
     let s = put_call (c\<lparr>cl_not := False\<rparr>) s;
     if err \<noteq> 0 \<or> (case scode of None \<Rightarrow> False | Some x \<Rightarrow> x \<ge> 300) then call_event e ce CALL_EVENT_TRANSFER_FAILED s else Some s }"

text \<open>The results are those of normalising the address and of sending the REFER.\<close>

definition call_transfer :: "cenv \<Rightarrow> csw \<Rightarrow> (errno \<times> csw) option" where
  "call_transfer ce s = do {
     c \<leftarrow> the_call s;
     let (err, s) = media ce s;
     if err \<noteq> 0 then Some (err, s)
     else
       let (err, s) = media ce (put_call ((sw_user s)\<lparr>cl_sub := False\<rparr>) s)
       in Some (err, if err = 0 then put_call ((sw_user s)\<lparr>cl_sub := True\<rparr>) s else s) }"

section \<open>The user agent\<close>

text \<open>\<open>sipsess_conn_handler\<close>: a new INVITE.  The arguments: the user agent was found, do not disturb, too many calls, an
  extension is required that is not supported.\<close>

definition sipsess_conn_handler ::
    "senv \<Rightarrow> cenv \<Rightarrow> bool \<Rightarrow> bool \<Rightarrow> bool \<Rightarrow> bool \<Rightarrow> int option \<times> int option \<times> bool option \<times> bool option \<Rightarrow> bool \<Rightarrow> sess_msg \<Rightarrow>
     u32 list \<Rightarrow> nat \<Rightarrow> csw option" where
  "sipsess_conn_handler e ce found dnd max_calls bad_ext auto use_video msg calls now =
     (let none = no_sess (init_call\<lparr>cl_refs := 0\<rparr>) now
      in if \<not> found then Some (sip_reply e 404 none)
         else if dnd then Some (sip_reply e 480 none)
         else if max_calls then Some (sip_reply e 486 none)
         else if bad_ext then Some (sip_reply e 420 none)
         else if ce_rel100 ce = REL100_REQUIRED \<and> rel100_peer msg = REL100_DISABLED then Some (sip_reply e 421 none)
         else do {
           (err, s) \<leftarrow> call_alloc e ce auto use_video (Some msg) calls now;
           if err \<noteq> 0 then Some (sip_reply e 500 s)
           else do {
             (err, s) \<leftarrow> call_accept e ce msg s;
             if err \<noteq> 0 then do { s \<leftarrow> call_deref e s; Some (sip_reply e 500 s) } else Some s } })"

text \<open>\<open>ua_connect_dir\<close> once the address is composed.\<close>

definition ua_connect_call :: "senv \<Rightarrow> cenv \<Rightarrow> bool \<Rightarrow> sdp_dir \<Rightarrow> sdp_dir \<Rightarrow> u32 list \<Rightarrow> nat \<Rightarrow> (errno \<times> csw) option" where
  "ua_connect_call e ce use_video adir vdir calls now = do {
     (err, s) \<leftarrow> call_alloc e ce (None, None, None, None) use_video None calls now;
     if err \<noteq> 0 then Some (err, s)
     else do {
       let s = (if adir \<noteq> SDP_SENDRECV \<or> vdir \<noteq> SDP_SENDRECV then call_set_media_direction ce adir vdir s else s);
       (err, s) \<leftarrow> call_connect e ce s;
       if err \<noteq> 0 then do { s \<leftarrow> call_deref e s; Some (err, s) } else Some (OK, s) } }"

end
