(* ===== verification/Call_Spec.thy ===== *)
theory Call_Spec
  imports Sipsess_Keep Call
begin

text \<open>
  The call as the user of its session.  Its handlers keep the contract \<open>sess_user\<close>, so what a session promises holds for
  every call.
\<close>

section \<open>What a call does to its session\<close>

text \<open>A step that changes only the call.\<close>

definition mine :: "csw \<Rightarrow> csw \<Rightarrow> bool" where
  "mine s s' \<longleftrightarrow> s' = put_call (sw_user s') s"

named_theorems mine \<open>steps that change only the call\<close>

lemma put_call_simps [simp]:
  "sw_sess (put_call c s) = sw_sess s" "sw_refs (put_call c s) = sw_refs s" "sw_held (put_call c s) = sw_held s"
  "sw_user (put_call c s) = c" "sw_next (put_call c s) = sw_next s" "sw_now (put_call c s) = sw_now s" "sw_log (put_call c s) = sw_log s"
  "put_call d (put_call c s) = put_call d s" "put_call (sw_user s) s = s"
  by (simp_all add: put_call_def)

lemma mine_fields:
  "mine s s' \<Longrightarrow> sw_sess s' = sw_sess s \<and> sw_refs s' = sw_refs s \<and> sw_held s' = sw_held s \<and> sw_next s' = sw_next s \<and>
     sw_now s' = sw_now s \<and> sw_log s' = sw_log s"
  unfolding mine_def by (metis put_call_simps)

lemma mine_refl [mine]: "mine s s"
  by (simp add: mine_def)

lemma mine_trans: "mine s t \<Longrightarrow> mine t v \<Longrightarrow> mine s v"
  unfolding mine_def by (metis put_call_simps(8))

lemma mine_put [mine]: "mine s t \<Longrightarrow> mine s (put_call c t)"
  unfolding mine_def by (metis put_call_simps(4,8))

lemma mine_log [mine]: "mine s t \<Longrightarrow> mine s (log_call x t)"
  by (simp add: log_call_def mine)

lemma mine_state [mine]: "mine s t \<Longrightarrow> mine s (set_state st t)"
  by (simp add: set_state_def mine)

lemma mine_start [mine]: "mine s t \<Longrightarrow> mine s (call_stream_start b t)"
  by (simp add: call_stream_start_def mine)

lemma mine_stop [mine]: "mine s t \<Longrightarrow> mine s (call_stream_stop t)"
  by (simp add: call_stream_stop_def mine)

lemma mine_mdir [mine]: "mine s t \<Longrightarrow> mine s (call_set_mdir ce a v t)"
  by (simp add: call_set_mdir_def Let_def mine)

lemma mine_notify [mine]: "mine s t \<Longrightarrow> mine s (call_notify_sipfrag c t)"
  by (simp add: call_notify_sipfrag_def Let_def mine)

lemma mine_media: "mine s t \<Longrightarrow> media ce t = (err, t') \<Longrightarrow> mine s t'"
  by (auto simp: media_def mine)

lemma mine_snd_media [mine]: "mine s t \<Longrightarrow> mine s (snd (media ce t))"
  by (simp add: media_def mine)

lemma mine_encode: "mine s t \<Longrightarrow> sdp_encode ce t = (err, d, t') \<Longrightarrow> mine s t'"
  by (auto simp: sdp_encode_def Let_def media_def mine)

lemma mine_streams: "mine s t \<Longrightarrow> call_streams_alloc ce t = (err, t') \<Longrightarrow> mine s t'"
  by (auto simp: call_streams_alloc_def Let_def media_def mine split: if_splits)

lemma mine_update: "mine s t \<Longrightarrow> call_update_media ce t = (err, t') \<Longrightarrow> mine s t'"
  by (auto simp: call_update_media_def Let_def media_def mine)

lemma mine_update_media: "mine s t \<Longrightarrow> update_media ce t = (err, t') \<Longrightarrow> mine s t'"
  unfolding update_media_def by (rule mine_update [OF mine_log])

lemma mine_api: "mine s t \<Longrightarrow> (api e)\<^sup>*\<^sup>* s t"
  unfolding mine_def put_call_def by (metis api_user r_into_rtranclp)

lemma apis_ends: "(api e)\<^sup>*\<^sup>* s t \<Longrightarrow> (api_end e)\<^sup>*\<^sup>* s t"
  by (induction rule: rtranclp_induct) (auto intro: end_api rtranclp.rtrancl_into_rtrancl)

lemma mine_ends: "mine s t \<Longrightarrow> (api_end e)\<^sup>*\<^sup>* s t"
  by (rule apis_ends [OF mine_api])

lemma the_call_mine: "the_call s = Some c \<Longrightarrow> mine s (put_call c' s)"
  by (simp add: mine)

abbreviation (input) apis :: "senv \<Rightarrow> csw \<Rightarrow> csw \<Rightarrow> bool" where "apis e \<equiv> (api e)\<^sup>*\<^sup>*"
abbreviation (input) ends :: "senv \<Rightarrow> csw \<Rightarrow> csw \<Rightarrow> bool" where "ends e \<equiv> (api_end e)\<^sup>*\<^sup>*"

lemma apis_step: "apis e s t \<Longrightarrow> gives m (\<lambda>(err, v). apis e t v) \<Longrightarrow> gives m (\<lambda>(err, v). apis e s v)"
  by (auto simp: gives_def intro: rtranclp_trans)

lemma ends_step: "ends e s t \<Longrightarrow> gives m (ends e t) \<Longrightarrow> gives m (ends e s)"
  by (auto simp: gives_def intro: rtranclp_trans)

lemma apis_bind:
  "gives m (\<lambda>(err, t). apis e s t) \<Longrightarrow> (\<And>err t. apis e s t \<Longrightarrow> gives (f err t) (\<lambda>(err, v). apis e s v)) \<Longrightarrow>
   gives (m \<bind> (\<lambda>(err, t). f err t)) (\<lambda>(err, v). apis e s v)"
  by (rule gives_pairI) (auto simp: gives_def)

lemma apis_mine: "apis e s t \<Longrightarrow> mine t v \<Longrightarrow> apis e s v"
  by (rule rtranclp_trans [OF _ mine_api])

lemma modify_apis: "gives (on_sess (sipsess_modify e d) s) (\<lambda>(err, v). apis e s v)"
  by (auto simp: on_sess_def gives_def intro: r_into_rtranclp api_modify)

lemma progress_apis: "gives (on_sess (sipsess_progress e c m d) s) (\<lambda>(err, v). apis e s v)"
  by (auto simp: on_sess_def gives_def intro: r_into_rtranclp api_progress)

lemma answer_apis: "gives (on_sess (sipsess_answer e c d) s) (\<lambda>(err, v). apis e s v)"
  by (auto simp: on_sess_def gives_def intro: r_into_rtranclp api_answer)

lemma reject_apis: "gives (on_sess (sipsess_reject e c) s) (\<lambda>(err, v). apis e s v)"
  by (auto simp: on_sess_def gives_def intro: r_into_rtranclp api_reject)

lemma info_apis: "gives (on_sess (sipsess_info e n) s) (\<lambda>(err, v). apis e s v)"
  by (auto simp: on_sess_def gives_def intro: r_into_rtranclp api_info)

lemma call_modify_apis: "gives (call_modify e ce s) (\<lambda>(err, v). apis e s v)"
proof (unfold call_modify_def Let_def, rule gives_bindI, rule apis_bind)
  show "gives (if sipsess_refresh_allowed (call_sess s)
      then case sdp_encode ce s of (err, desc, s) \<Rightarrow>
             if err \<noteq> 0 then Some (OK, s) else on_sess (sipsess_modify e desc) (log_call (Cl_ua UA_EVENT_CALL_LOCAL_SDP) s)
      else Some (OK, s)) (\<lambda>(err, v). apis e s v)"
  proof (intro gives_if gives_prod)
    fix err x d t
    assume "sdp_encode ce s = (err, x)" "x = (d, t)"
    then have m: "mine s t" using mine_encode [OF mine_refl] by blast
    show "gives (Some (OK, t)) (\<lambda>(err, v). apis e s v)" using mine_api [OF m] by (simp add: gives_Some)
    show "gives (on_sess (sipsess_modify e d) (log_call (Cl_ua UA_EVENT_CALL_LOCAL_SDP) t)) (\<lambda>(err, v). apis e s v)"
      by (rule apis_step [OF mine_api modify_apis]) (simp add: m mine)
  qed (simp add: gives_Some)
  fix err t
  assume "apis e s t"
  then show "gives (if err \<noteq> 0 then Some (err, t) else Some (call_update_media ce t)) (\<lambda>(err, v). apis e s v)"
    by (cases "call_update_media ce t") (auto simp: gives_def dest: mine_update [OF mine_refl] intro: apis_mine)
qed

lemma call_hold_apis: "gives (call_hold e ce b s) (\<lambda>(err, v). apis e s v)"
  unfolding call_hold_def
  by (rule gives_bindI, intro gives_if apis_step [OF mine_api call_modify_apis]) (simp_all add: gives_Some mine)

lemma call_set_video_dir_apis: "gives (call_set_video_dir e ce d s) (\<lambda>(err, v). apis e s v)"
  unfolding call_set_video_dir_def Let_def
  by (rule gives_bindI, rule apis_step [OF mine_api call_modify_apis]) (simp add: mine)

lemma call_digit_apis: "gives (call_digit e ce k s) (\<lambda>(err, v). apis e s v)"
  unfolding call_digit_def send_dtmf_info_def
  by (rule gives_bindI, intro gives_if gives_option info_apis)
     (auto simp: gives_def media_def intro: mine_api mine)

lemma call_progress_dir_apis: "gives (call_progress_dir e ce a v s) (\<lambda>(err, v). apis e s v)"
proof (unfold call_progress_dir_def Let_def, rule gives_bindI, intro gives_prod gives_if)
  fix c err x d t
  let ?s = "put_call (c\<lparr>cl_tmr_inv := None\<rparr>) s"
  assume "sdp_encode ce (if a \<noteq> cl_estadir c \<or> v \<noteq> cl_estvdir c then call_set_mdir ce a v ?s else ?s) = (err, x)" "x = (d, t)"
  then have m: "mine s t" using mine_encode by (force simp: mine split: if_splits)
  show "gives (Some (err, t)) (\<lambda>(err, v). apis e s v)" using mine_api [OF m] by (simp add: gives_Some)
  show "gives (on_sess (sipsess_progress e 183 (ce_rel100 ce) d) t \<bind> (\<lambda>(err, s).
       if err \<noteq> 0 then Some (OK, s)
       else case if cl_got_offer c then call_update_media ce (log_call (Cl_ua UA_EVENT_CALL_LOCAL_SDP) s) else (OK, s) of
            (err, s) \<Rightarrow> Some (OK, if err \<noteq> 0 then s else call_stream_start False s))) (\<lambda>(err, v). apis e s v)"
  proof (rule apis_bind [OF apis_step [OF mine_api [OF m] progress_apis]], intro gives_if gives_prod)
    fix err t err2 t2
    assume t: "apis e s t"
    then show "gives (Some (OK, t)) (\<lambda>(err, v). apis e s v)" by (simp add: gives_Some)
    assume "(if cl_got_offer c then call_update_media ce (log_call (Cl_ua UA_EVENT_CALL_LOCAL_SDP) t) else (OK, t)) = (err2, t2)"
    then have "mine t t2" using mine_update [OF mine_log [OF mine_refl]] by (auto simp: mine split: if_splits)
    then show "gives (Some (OK, if err2 \<noteq> 0 then t2 else call_stream_start False t2)) (\<lambda>(err, v). apis e s v)"
      using apis_mine [OF t] by (auto simp: gives_Some mine)
  qed
qed

lemma call_progress_apis: "gives (call_progress e ce s) (\<lambda>(err, v). apis e s v)"
  unfolding call_progress_def Let_def by (rule call_progress_dir_apis)

lemma call_answer_apis: "gives (call_answer e ce c v s) (\<lambda>(err, v). apis e s v)"
proof (unfold call_answer_def Let_def, rule gives_bindI, intro gives_if gives_prod)
  fix cl :: call and err x d t
  let ?c = "cl\<lparr>cl_tmr_answ := None\<rparr>"
  let ?s = "if \<not> v then put_call (?c\<lparr>cl_video := False\<rparr>) (put_call ?c s) else put_call ?c s"
  assume "sdp_encode ce (log_call (Cl_ua UA_EVENT_CALL_LOCAL_SDP) (if cl_got_offer ?c then snd (media ce ?s) else ?s)) = (err, x)" "x = (d, t)"
  then have m: "mine s t" using mine_encode by (force simp: mine split: if_splits)
  show "gives (Some (err, t)) (\<lambda>(err, v). apis e s v)" using mine_api [OF m] by (simp add: gives_Some)
  show "gives (on_sess (sipsess_answer e c d) t \<bind> (\<lambda>(err, s). Some (err, put_call ((sw_user s)\<lparr>cl_answered := True, cl_ans_queued := False\<rparr>) s)))
      (\<lambda>(err, v). apis e s v)"
    by (rule apis_bind [OF apis_step [OF mine_api [OF m] answer_apis]], rule gives_Some)
       (auto intro: apis_mine mine)
qed (simp_all add: gives_Some mine mine_api)

section \<open>The end of a call\<close>

lemma release_ends: "gives (sipsess_release e s) (ends e s)"
  by (auto simp: gives_def intro: r_into_rtranclp end_release)

lemma call_destructor_ends: "gives (call_destructor e s) (ends e s)"
proof (unfold call_destructor_def Let_def, rule gives_bindI, rule gives_Some)
  fix t
  let ?s = "put_call ((sw_user (call_stream_stop s))\<lparr>cl_tmr_dtmf := None, cl_tmr_answ := None, cl_tmr_reinv := None\<rparr>) (call_stream_stop s)"
  assume t: "(if sw_held ?s then sipsess_release e ?s else Some ?s) = Some t"
  have m: "mine s ?s" by (simp add: mine)
  have "ends e s t" using t release_ends [of e ?s] mine_ends [OF m] by (auto simp: gives_def intro: rtranclp_trans split: if_splits)
  then show "ends e s (log_call Cl_destroyed (put_call ((sw_user t)\<lparr>cl_streams := False, cl_video := False, cl_sub := False, cl_not := False\<rparr>) t))"
    by (rule rtranclp_trans) (simp add: mine mine_ends)
qed

lemma call_deref_ends: "gives (call_deref e s) (ends e s)"
  unfolding call_deref_def Let_def
  by (rule gives_bindI, intro gives_if gives_Some ends_step [OF mine_ends call_destructor_ends]) (simp_all add: mine mine_ends)

text \<open>A call that was answered, but is not established, is aborted.\<close>

definition may_abort :: "csw \<Rightarrow> bool" where
  "may_abort s \<longleftrightarrow> (cl_state (sw_user s) = CALL_STATE_INCOMING \<and> cl_answered (sw_user s) \<longrightarrow> \<not> announced (sw_log s) \<and> cl_refs (sw_user s) = 1)"

lemma abort_fields: "sipsess_abort e s = Some s' \<Longrightarrow> sw_held s' = sw_held s \<and> sw_user s' = sw_user s"
  by (cases "sw_sess s"; cases "ev_req e (sw_next s)")
     (auto simp: sipsess_abort_def sipsess_bye_def drequest_def bind_eq_Some_conv Let_def split: if_splits)

lemma on_sess_fields: "sw_held s \<Longrightarrow> on_sess f s = f s"
  by (simp add: on_sess_def)

lemma aborted_ends:
  assumes h: "sw_held s" "\<not> announced (sw_log s)" "sipsess_abort e s = Some s1"
    and t: "mine s1 t" "cl_refs (sw_user t) = 1"
  shows "gives (call_deref e t) (ends e s)"
proof -
  have th: "sw_held t" using mine_fields [OF t(1)] abort_fields [OF h(3)] h(1) by simp
  have u: "call_stream_stop (put_call c t) = put_call (sw_user (call_stream_stop (put_call c t))) s1" for c
    using mine_stop [OF mine_put [OF t(1)]] unfolding mine_def .
  have "gives (sipsess_release e (put_call c s1)) (ends e s)" for c
    using end_abort [OF h] by (auto simp: gives_def put_call_def intro: r_into_rtranclp)
  moreover have "put_call c (call_stream_stop (put_call d t)) = put_call c s1" for c d by (subst u) simp
  ultimately have "gives (sipsess_release e (put_call c (call_stream_stop (put_call d t)))) (ends e s)" for c d by simp
  moreover have "sw_held (call_stream_stop (put_call d t))" for d using th mine_fields [OF mine_stop [OF mine_put [OF mine_refl]]] by simp
  ultimately have r: "ends e s v" if "(if sw_held (put_call c (call_stream_stop (put_call d t)))
      then sipsess_release e (put_call c (call_stream_stop (put_call d t))) else Some (put_call c (call_stream_stop (put_call d t)))) = Some v" for c d v
    using that by (simp add: gives_def)
  have "gives (call_destructor e (put_call d t)) (ends e s)" for d
    unfolding call_destructor_def Let_def
    by (rule gives_bindI, rule gives_Some, drule r, erule rtranclp_trans) (simp add: mine mine_ends)
  then show ?thesis using t(2) by (auto simp: call_deref_def the_call_def Let_def)
qed

lemma call_hangup_refs: "call_hangup e c s = Some s' \<Longrightarrow> cl_refs (sw_user s) > 0"
  by (auto simp: call_hangup_def the_call_def split: if_splits)

lemma ua_hangup_ends:
  assumes a: "may_abort s"
  shows "gives (ua_hangup_call e scode s) (ends e s)"
proof (unfold ua_hangup_call_def, rule gives_bindI)
  fix t
  assume h: "call_hangup e scode s = Some t"
  show "gives (call_deref e (log_call (Cl_ua UA_EVENT_CALL_CLOSED) t)) (ends e s)"
  proof (cases "cl_state (sw_user s) = CALL_STATE_INCOMING \<and> cl_answered (sw_user s) \<and> sw_held s")
    case True
    then obtain s1 where s1: "sipsess_abort e s = Some s1" "t = call_stream_stop (set_state CALL_STATE_TERMINATED s1)"
      using h by (auto simp: call_hangup_def the_call_def bind_eq_Some_conv split: if_splits)
    have r: "cl_refs (sw_user s1) = 1" using True a abort_fields [OF s1(1)] by (simp add: may_abort_def)
    show ?thesis
      by (rule aborted_ends [OF _ _ s1(1)])
         (use True a s1(2) r in \<open>auto simp: may_abort_def mine call_stream_stop_def set_state_def log_call_def\<close>)
  next
    case False
    have "ends e s t"
    proof -
      have m: "mine s1 (call_stream_stop (set_state CALL_STATE_TERMINATED s1))" for s1 by (simp add: mine)
      consider (reject) err s1 where "on_sess (sipsess_reject e (if scode = 0 then 486 else scode)) s = Some (err, s1)"
            "t = call_stream_stop (set_state CALL_STATE_TERMINATED s1)"
        | (other) s0 s1 where "mine s s0" "s1 = s0 \<or> sipsess_release e s0 = Some s1" "t = call_stream_stop (set_state CALL_STATE_TERMINATED s1)"
        using h False by (auto simp: call_hangup_def the_call_def bind_eq_Some_conv Let_def mine split: if_splits)
          (use mine_refl mine_notify in metis)+
      then show ?thesis
      proof cases
        case reject
        then have "apis e s s1" using reject_apis [of e _ s] by (simp add: gives_def)
        then show ?thesis using m [of s1] reject(2) by (auto intro: apis_ends rtranclp_trans mine_ends)
      next
        case other
        have "ends e s0 s1" using other(2) release_ends [of e s0] by (auto simp: gives_def)
        then have "ends e s s1" using mine_ends [OF other(1)] by (rule rtranclp_trans [rotated])
        then show ?thesis using m [of s1] other(3) by (auto intro: rtranclp_trans mine_ends)
      qed
    qed
    then show ?thesis
      by (rule ends_step) (rule ends_step [OF mine_ends call_deref_ends], simp add: mine)
  qed
qed

section \<open>Events\<close>

lemma event_mine:
  "ev \<noteq> CALL_EVENT_INCOMING \<Longrightarrow> ev \<noteq> CALL_EVENT_CLOSED \<Longrightarrow> gives (call_event e ce ev s) (mine s)"
  by (cases ev) (auto simp: call_event_def ua_call_event_def gives_def bind_eq_Some_conv mine)

lemma closed_ends: "gives (call_event e ce CALL_EVENT_CLOSED s) (ends e s)"
  unfolding call_event_def ua_call_event_def call_event.case
  by (rule gives_bindI, rule ends_step [OF mine_ends call_deref_ends]) (simp add: mine)

lemma incoming_ends:
  assumes a: "may_abort s"
  shows "gives (call_event e ce CALL_EVENT_INCOMING s) (ends e s)"
  unfolding call_event_def ua_call_event_def call_event.case app_incoming_def
proof (rule gives_bindI, intro gives_if)
  let ?s = "log_call (Cl_event CALL_EVENT_INCOMING) s"
  show "gives (call_deref e (log_call (Cl_ua UA_EVENT_CALL_CLOSED) ?s)) (ends e s)"
    by (rule ends_step [OF mine_ends call_deref_ends]) (simp add: mine)
  have a': "may_abort (log_call (Cl_ua UA_EVENT_CALL_INCOMING) ?s)" using a by (simp add: may_abort_def log_call_def)
  have b: "gives (if ce_busy ce then ua_hangup_call e 486 (log_call (Cl_ua UA_EVENT_CALL_INCOMING) ?s)
      else Some (log_call (Cl_ua UA_EVENT_CALL_INCOMING) ?s)) (ends e s)"
    by (rule ends_step [of e s "log_call (Cl_ua UA_EVENT_CALL_INCOMING) ?s"])
       (simp_all add: mine mine_ends ua_hangup_ends [OF a'] gives_Some)
  show "gives (do {
      s \<leftarrow> if ce_busy ce then ua_hangup_call e 486 (log_call (Cl_ua UA_EVENT_CALL_INCOMING) ?s)
          else Some (log_call (Cl_ua UA_EVENT_CALL_INCOMING) ?s);
      if ce_answermode ce = ANSWERMODE_EARLY \<or> ce_answermode ce = ANSWERMODE_EARLY_AUDIO \<or>
         ce_answermode ce = ANSWERMODE_EARLY_VIDEO \<and> ce_early_video ce
      then do { (_, s) \<leftarrow> call_progress e ce s; Some s } else Some s }) (ends e s)"
  proof (rule gives_bindI, intro gives_if gives_pairI gives_Some)
    fix t err v
    assume "(if ce_busy ce then ua_hangup_call e 486 (log_call (Cl_ua UA_EVENT_CALL_INCOMING) ?s)
      else Some (log_call (Cl_ua UA_EVENT_CALL_INCOMING) ?s)) = Some t"
    then have t: "ends e s t" by (rule givesD [OF b])
    then show "ends e s t" .
    assume "call_progress e ce t = Some (err, v)"
    then have "apis e t v" using call_progress_apis [of e ce t] by (simp add: gives_def)
    then show "ends e s v" using t by (auto intro: rtranclp_trans apis_ends)
  qed
qed

section \<open>The handlers keep the contract\<close>

lemma desc_handler_mine: "gives (sipsess_desc_handler ce s) (\<lambda>(err, d, t). mine s t)"
proof (unfold sipsess_desc_handler_def Let_def, rule gives_bindI, rule gives_prod, intro gives_if)
  fix c err t
  assume "(if \<not> cl_streams c then case call_streams_alloc ce s of (err, s) \<Rightarrow> (err, if err = 0 then call_set_mdir ce (cl_estadir c) (cl_estvdir c) s else s)
      else (OK, s)) = (err, t)"
  then have m: "mine s t" by (auto simp: mine dest: mine_streams [OF mine_refl] split: if_splits prod.splits)
  then show "gives (Some (err, None, t)) (\<lambda>(err, d, t). mine s t)" by (simp add: gives_Some)
  show "gives (Some (sdp_encode ce t)) (\<lambda>(err, d, t). mine s t)"
    using mine_encode [OF m] by (cases "sdp_encode ce t") (auto simp: gives_Some)
qed

lemma offer_handler_mine: "gives (sipsess_offer_handler ce m s) (\<lambda>(err, d, t). mine s t)"
proof (unfold sipsess_offer_handler_def Let_def, rule gives_bindI, rule gives_prod, intro gives_if)
  fix c err t
  let ?s = "put_call (c\<lparr>cl_got_offer := True\<rparr>) s"
  assume a: "(if 0 < sm_body m
      then case media ce ?s of (err, s) \<Rightarrow>
        if err \<noteq> 0 then (err, s)
        else case ce_dirs ce m of (was, now_held) \<Rightarrow>
          update_media ce (if was \<and> \<not> now_held then log_call (Cl_ua UA_EVENT_CALL_HOLD) s
            else if \<not> was \<and> now_held then log_call (Cl_ua UA_EVENT_CALL_RESUME) s else s)
      else (OK, s)) = (err, t)"
  obtain err1 s1 where s1: "media ce ?s = (err1, s1)" by force
  have m1: "mine s s1" by (rule mine_media [OF mine_put [OF mine_refl] s1])
  have m: "mine s t"
    using a s1 m1 mine_update_media [OF mine_log [OF m1]] mine_update_media [OF m1]
    by (cases "ce_dirs ce m") (auto simp: mine_refl split: if_splits)
  then show "gives (Some (err, None, t)) (\<lambda>(err, d, t). mine s t)" by (simp add: gives_Some)
  show "gives (Some (sdp_encode ce t)) (\<lambda>(err, d, t). mine s t)"
    using mine_encode [OF m] by (cases "sdp_encode ce t") (auto simp: gives_Some)
qed

lemma answer_handler_mine: "gives (sipsess_answer_handler e ce m s) (\<lambda>(err, t). mine s t)"
proof (unfold sipsess_answer_handler_def Let_def, rule gives_bindI, rule gives_bindI, rule gives_prod, rule gives_Some)
  fix c t err v
  let ?s = "put_call ((if ce_sup_replaces ce m then c\<lparr>cl_replaces_ok := True\<rparr> else c)\<lparr>cl_got_offer := False\<rparr>) s"
  assume t: "(if sm_met m = ''INVITE'' \<and> 200 \<le> sm_scode m \<and> sm_scode m < 300 then call_event e ce CALL_EVENT_ANSWERED ?s else Some ?s) = Some t"
    and v: "media ce t = (err, v)"
  have "mine ?s t" using t event_mine [of CALL_EVENT_ANSWERED e ce ?s] by (auto simp: gives_def mine_refl split: if_splits)
  then have "mine s t" by (rule mine_trans [OF mine_put [OF mine_refl]])
  then have "mine s v" using v by (rule mine_media)
  then show "case if err \<noteq> 0 then (err, v) else update_media ce v of (err, t) \<Rightarrow> mine s t"
    using mine_update_media by (cases "update_media ce v") auto
qed

lemma progr_handler_ends: "gives (sipsess_progr_handler e ce m s) (ends e s)"
proof (unfold sipsess_progr_handler_def Let_def, rule gives_bindI, intro gives_if gives_bindI)
  fix c
  let ?s = "if sm_scode m = 180 then set_state CALL_STATE_RINGING s else if sm_scode m = 183 then set_state CALL_STATE_EARLY s else s"
  have m: "mine s ?s" by (simp add: mine)
  show "gives (Some s) (ends e s)" by (simp add: gives_Some)
  show "gives (call_deref e (call_stream_start False t)) (ends e s)"
    if t: "call_event e ce CALL_EVENT_PROGRESS (put_call ((sw_user ?s)\<lparr>cl_refs := cl_refs (sw_user ?s) + 1\<rparr>) ?s) = Some t" for t
  proof (rule ends_step [OF mine_ends call_deref_ends], rule mine_start)
    show "mine s t"
      by (rule mine_trans [OF mine_put [OF m] givesD [OF event_mine t]]) simp_all
  qed
  show "gives (call_event e ce CALL_EVENT_RINGING (call_stream_stop ?s)) (ends e s)"
    by (rule gives_conseq [OF event_mine]) (auto intro!: mine_ends intro: mine_trans [OF mine_stop [OF m]])
qed

lemma estab_handler_ends: "gives (sipsess_estab_handler e ce s) (ends e s)"
  unfolding sipsess_estab_handler_def Let_def
  by (rule gives_bindI, intro gives_if, simp add: gives_Some, rule gives_conseq [OF event_mine], simp, simp, rule mine_ends,
      erule mine_trans [rotated]) (simp add: mine)

lemma reply_ends: "ends e s (sip_reply e c s)"
  by (intro r_into_rtranclp end_api api_sip_reply)

lemma info_handler_ends: "gives (sipsess_info_handler e ce m s) (ends e s)"
proof (unfold sipsess_info_handler_def Let_def, rule gives_bindI, rule gives_Some)
  fix c
  have "ends e s (log_call (Cl_digit k) (put_call x (sip_reply e 200 s)))" for k x
    by (rule rtranclp_trans [OF reply_ends [where c = 200] mine_ends]) (simp add: mine)
  then show "ends e s (case ce_dtmf ce m of None \<Rightarrow> sip_reply e 488 s | Some None \<Rightarrow> sip_reply e 400 s
      | Some (Some (key, duration)) \<Rightarrow>
          log_call (Cl_digit key) (put_call ((sw_user (sip_reply e 200 s))\<lparr>cl_tmr_dtmf := Some (sw_now (sip_reply e 200 s) + duration)\<rparr>) (sip_reply e 200 s)))"
    by (auto simp: reply_ends split: option.split)
qed

lemma refer_handler_ends: "gives (sipsess_refer_handler e ce m s) (ends e s)"
proof (unfold sipsess_refer_handler_def Let_def, rule gives_bindI, intro gives_if gives_prod gives_Some)
  fix c err t
  assume "media ce (put_call (c\<lparr>cl_not := False\<rparr>) s) = (err, t)"
  then have m: "mine s t" by (rule mine_media [OF mine_put [OF mine_refl]])
  show "ends e s t" by (rule mine_ends [OF m])
  show "gives (call_event e ce CALL_EVENT_TRANSFER
      (set_state CALL_STATE_TRANSFER (call_notify_sipfrag 100 (put_call ((sw_user t)\<lparr>cl_not := True\<rparr>) t)))) (ends e s)"
    by (rule gives_conseq [OF event_mine], simp, simp, rule mine_ends, erule mine_trans [rotated]) (simp add: mine m)
qed (rule reply_ends)

lemma close_handler_ends: "gives (sipsess_close_handler e ce err mo s) (ends e s)"
  unfolding sipsess_close_handler_def Let_def
  by (rule gives_bindI, rule ends_step [OF mine_ends closed_ends]) (simp add: mine split: option.split)

lemma redirect_handler_mine: "gives (call_redirect_handler s) (mine s)"
  unfolding call_redirect_handler_def by (rule gives_bindI, rule gives_Some) (simp add: mine)

lemma prack_handler_apis: "gives (call_prack_handler e ce s) (apis e s)"
  unfolding call_prack_handler_def
  by (rule gives_bindI, intro gives_if gives_pairI gives_Some) (use call_answer_apis [of e ce 200 True s] in \<open>auto simp: gives_def\<close>)

interpretation call: sess_user e "call_user e ce" for e ce
proof unfold_locales
  show "apis e s s'" if "u_desc (call_user e ce) s = Some (err, d, s')" for s err d s'
    using that givesD [OF desc_handler_mine] mine_api by (fastforce simp: call_user_def)
  show "apis e s s'" if "u_offer (call_user e ce) m s = Some (err, d, s')" for m s err d s'
    using that givesD [OF offer_handler_mine] mine_api by (fastforce simp: call_user_def)
  show "apis e s s'" if "u_answer (call_user e ce) m s = Some (err, s')" for m s err s'
    using that givesD [OF answer_handler_mine] mine_api by (fastforce simp: call_user_def)
  show "apis e s s'" if "u_redirect (call_user e ce) m s = Some s'" for m s s'
    using that givesD [OF redirect_handler_mine] mine_api by (fastforce simp: call_user_def)
  show "apis e s s'" if "u_prack (call_user e ce) m s = Some s'" for m s s'
    using that givesD [OF prack_handler_apis] by (simp add: call_user_def)
  show "ends e s s'" if "u_progr (call_user e ce) m s = Some s'" for m s s'
    using that givesD [OF progr_handler_ends] by (simp add: call_user_def)
  show "ends e s s'" if "u_estab (call_user e ce) m s = Some s'" for m s s'
    using that givesD [OF estab_handler_ends] by (simp add: call_user_def)
  show "ends e s s'" if "u_info (call_user e ce) m s = Some s'" for m s s'
    using that givesD [OF info_handler_ends] by (simp add: call_user_def)
  show "ends e s s'" if "u_refer (call_user e ce) m s = Some s'" for m s s'
    using that givesD [OF refer_handler_ends] by (simp add: call_user_def)
  show "ends e s s'" if "u_close (call_user e ce) err mo s = Some s'" for err mo s s'
    using that givesD [OF close_handler_ends] by (simp add: call_user_def)
  show "ends e s s'" if "u_resp (call_user e ce) err mo s = Some s'" for err mo s s'
    using that by (simp add: call_user_def)
qed

end
