(* ===== verification/Call_Kept.thy ===== *)
theory Call_Kept
  imports Call_Spec
begin

text \<open>
  Runs of a call: what the operations of the call, the events of its session and its timers keep.  \<open>kept\<close> is the invariant
  of the call: its reference count, its hold on the session, its state before the session is established, and what the
  application was told of its end.
\<close>

section \<open>The invariant of a call\<close>

text \<open>How often the application was told that the call is closed.\<close>


definition told :: "call \<Rightarrow> nat" where
  "told c = count_list (cl_log c) (Cl_ua UA_EVENT_CALL_CLOSED)"

definition core :: "call \<Rightarrow> nat \<times> call_state \<times> bool \<times> nat" where
  "core c = (cl_refs c, cl_state c, cl_mnat_wait c, told c)"

definition kept :: "cenv \<Rightarrow> bool \<Rightarrow> bool \<Rightarrow> csw \<Rightarrow> bool" where
  "kept ce live t s \<longleftrightarrow>
     (let c = sw_user s in
      cl_refs c \<le> 1 \<and> (cl_refs c = 0 \<longrightarrow> \<not> sw_held s) \<and> (announced (sw_log s) \<longrightarrow> cl_state c \<noteq> CALL_STATE_INCOMING) \<and>
      told c \<le> 1 \<and> (cl_refs c \<noteq> 0 \<longrightarrow> told c = 0) \<and> (t \<and> cl_refs c = 0 \<longrightarrow> told c = 1) \<and>
      (live \<longrightarrow> (sw_held s \<or> ended (sw_log s)) \<and> \<not> (ce_mnat ce \<and> cl_mnat_wait c \<and> cl_state c = CALL_STATE_OUTGOING)))"

interpretation kept: sess_frame "kept ce b t" for ce b t
  by unfold_locales (auto simp: kept_def Let_def)

interpretation still: sess_frame "\<lambda>s. sw_user s = c \<and> (announced (sw_log s) \<longleftrightarrow> a)" for c :: call and a
  by unfold_locales auto

interpretation given_back: sess_frame "\<lambda>s. \<not> sw_held s \<and> ended (sw_log s)"
  by unfold_locales auto

lemma core_simps [simp]:
  "core (c\<lparr>cl_adelay := x0\<rparr>) = core c" "core (c\<lparr>cl_outgoing := x1\<rparr>) = core c" "core (c\<lparr>cl_answered := x1\<rparr>) = core c"
  "core (c\<lparr>cl_got_offer := x1\<rparr>) = core c" "core (c\<lparr>cl_on_hold := x1\<rparr>) = core c" "core (c\<lparr>cl_ans_queued := x1\<rparr>) = core c"
  "core (c\<lparr>cl_scode := x2\<rparr>) = core c" "core (c\<lparr>cl_replaces_ok := x1\<rparr>) = core c" "core (c\<lparr>cl_not := x1\<rparr>) = core c"
  "core (c\<lparr>cl_sub := x1\<rparr>) = core c" "core (c\<lparr>cl_streams := x1\<rparr>) = core c" "core (c\<lparr>cl_video := x1\<rparr>) = core c"
  "core (c\<lparr>cl_use_video := x1\<rparr>) = core c" "core (c\<lparr>cl_estadir := x3\<rparr>) = core c" "core (c\<lparr>cl_estvdir := x3\<rparr>) = core c"
  "core (c\<lparr>cl_adir := x3\<rparr>) = core c" "core (c\<lparr>cl_vdir := x3\<rparr>) = core c" "core (c\<lparr>cl_linenum := x4\<rparr>) = core c"
  "core (c\<lparr>cl_tmr_inv := x5\<rparr>) = core c" "core (c\<lparr>cl_tmr_dtmf := x5\<rparr>) = core c" "core (c\<lparr>cl_tmr_answ := x5\<rparr>) = core c"
  "core (c\<lparr>cl_tmr_reinv := x5\<rparr>) = core c" "core (c\<lparr>cl_next := x6\<rparr>) = core c"
  by (simp_all add: core_def told_def)

lemma kept_core: "kept ce b t s \<Longrightarrow> core c = core (sw_user s) \<Longrightarrow> kept ce b t (put_call c s)"
  by (auto simp: kept_def core_def Let_def)

lemma kept_put [kp]:
  "kept ce b t s \<Longrightarrow> core c = core (sw_user s) \<Longrightarrow> kept ce b t (put_call c s)"
  by (rule kept_core)

lemma kept_log [kp]: "kept ce b t s \<Longrightarrow> x \<noteq> Cl_ua UA_EVENT_CALL_CLOSED \<Longrightarrow> kept ce b t (log_call x s)"
  by (auto simp: kept_def Let_def log_call_def told_def)

lemma kept_start [kp]: "kept ce b t s \<Longrightarrow> kept ce b t (call_stream_start a s)"
  by (auto simp: call_stream_start_def intro!: kp)

lemma kept_stop [kp]: "kept ce b t s \<Longrightarrow> kept ce b t (call_stream_stop s)"
  by (auto simp: call_stream_stop_def intro!: kp)

lemma kept_mdir [kp]: "kept ce b t s \<Longrightarrow> kept ce b t (call_set_mdir ce' x v s)"
  by (auto simp: call_set_mdir_def Let_def intro!: kp)

lemma kept_notify [kp]: "kept ce b t s \<Longrightarrow> kept ce b t (call_notify_sipfrag c s)"
  by (auto simp: call_notify_sipfrag_def Let_def intro!: kp)

lemma kept_media [kp]: "kept ce b t s \<Longrightarrow> case media ce' s of (err, s) \<Rightarrow> kept ce b t s"
  by (auto simp: media_def intro!: kp)

lemma kept_encode [kp]: "kept ce b t s \<Longrightarrow> case sdp_encode ce' s of (err, d, s) \<Rightarrow> kept ce b t s"
  by (auto simp: sdp_encode_def Let_def media_def intro!: kp)

lemma kept_update [kp]: "kept ce b t s \<Longrightarrow> case call_update_media ce' s of (err, s) \<Rightarrow> kept ce b t s"
  by (auto simp: call_update_media_def Let_def media_def intro!: kp)

lemma kept_update2 [kp]: "kept ce b t s \<Longrightarrow> case update_media ce' s of (err, s) \<Rightarrow> kept ce b t s"
  by (auto simp: update_media_def intro!: kp)

lemma kept_streams [kp]: "kept ce b t s \<Longrightarrow> case call_streams_alloc ce' s of (err, s) \<Rightarrow> kept ce b t s"
  by (auto simp: call_streams_alloc_def Let_def media_def intro!: kp)

lemma kept_state: "kept ce b t s \<Longrightarrow> st \<noteq> CALL_STATE_INCOMING \<Longrightarrow> st \<noteq> CALL_STATE_OUTGOING \<Longrightarrow> kept ce b t (set_state st s)"
  by (auto simp: kept_def Let_def set_state_def told_def)

lemma dirs_kp [kp]:
  "(\<And>x y. case h x y of (err, s) \<Rightarrow> kept ce b t s) \<Longrightarrow>
     case (case q :: bool \<times> bool of (x, y) \<Rightarrow> h x y) of (err, s) \<Rightarrow> kept ce b t s"
  by (cases q) simp

lemma the_call_kp: "(0 < cl_refs (sw_user s) \<Longrightarrow> gives (f (sw_user s)) Q) \<Longrightarrow> gives (the_call s \<bind> f) Q"
  by (simp add: the_call_def gives_def)

lemma on_sess_kp [kp]:
  "kept ce b t s \<Longrightarrow> (\<And>s. kept ce b t s \<Longrightarrow> gives (f s) (\<lambda>(err, s). kept ce b t s)) \<Longrightarrow>
     gives (on_sess f s) (\<lambda>(err, s). kept ce b t s)"
  by (simp add: on_sess_def gives_Some)

lemma call_modify_kept [kp]: "kept ce b t s \<Longrightarrow> gives (call_modify e ce' s) (\<lambda>(err, s). kept ce b t s)"
  unfolding call_modify_def Let_def
  by (rule the_call_kp kept.kps kp kept_state gv kept.split_kp kept.any_kp | assumption | (simp; fail))+

lemma call_hold_kept [kp]: "kept ce b t s \<Longrightarrow> gives (call_hold e ce' h s) (\<lambda>(err, s). kept ce b t s)"
  unfolding call_hold_def Let_def
  by (rule the_call_kp kept.kps kp kept_state gv kept.split_kp kept.any_kp | assumption | (simp; fail))+

lemma call_set_video_dir_kept [kp]: "kept ce b t s \<Longrightarrow> gives (call_set_video_dir e ce' d s) (\<lambda>(err, s). kept ce b t s)"
  unfolding call_set_video_dir_def Let_def
  by (rule the_call_kp kept.kps kp kept_state gv kept.split_kp kept.any_kp | assumption | (simp; fail))+

lemma call_progress_dir_kept [kp]: "kept ce b t s \<Longrightarrow> gives (call_progress_dir e ce' x v s) (\<lambda>(err, s). kept ce b t s)"
  unfolding call_progress_dir_def Let_def
  by (rule the_call_kp kept.kps kp kept_state gv kept.split_kp kept.any_kp | assumption | (simp; fail))+

lemma call_progress_kept [kp]: "kept ce b t s \<Longrightarrow> gives (call_progress e ce' s) (\<lambda>(err, s). kept ce b t s)"
  unfolding call_progress_def Let_def
  by (rule the_call_kp kept.kps kp kept_state gv kept.split_kp kept.any_kp | assumption | (simp; fail))+

lemma call_answer_kept [kp]: "kept ce b t s \<Longrightarrow> gives (call_answer e ce' c v s) (\<lambda>(err, s). kept ce b t s)"
  unfolding call_answer_def Let_def
  by (rule the_call_kp kept.kps kp kept_state gv kept.split_kp kept.any_kp | assumption | (simp; fail))+

lemma send_dtmf_info_kept [kp]: "kept ce b t s \<Longrightarrow> gives (send_dtmf_info e k s) (\<lambda>(err, s). kept ce b t s)"
  unfolding send_dtmf_info_def Let_def
  by (rule the_call_kp kept.kps kp kept_state gv kept.split_kp kept.any_kp | assumption | (simp; fail))+

lemma call_digit_kept [kp]: "kept ce b t s \<Longrightarrow> gives (call_digit e ce' k s) (\<lambda>(err, s). kept ce b t s)"
  unfolding call_digit_def Let_def
  by (rule the_call_kp kept.kps kp kept_state gv kept.split_kp kept.any_kp | assumption | (simp; fail))+

lemma call_start_answtmr_kept [kp]: "kept ce b t s \<Longrightarrow> gives (call_start_answtmr ms s) (kept ce b t)"
  unfolding call_start_answtmr_def Let_def
  by (rule the_call_kp kept.kps kp kept_state gv kept.split_kp kept.any_kp | assumption | (simp; fail))+

lemma call_transfer_kept [kp]: "kept ce b t s \<Longrightarrow> gives (call_transfer ce' s) (\<lambda>(err, s). kept ce b t s)"
  unfolding call_transfer_def Let_def
  by (rule the_call_kp kept.kps kp kept_state gv kept.split_kp kept.any_kp | assumption | (simp; fail))+

lemma sipsess_desc_handler_kept [kp]: "kept ce b t s \<Longrightarrow> gives (sipsess_desc_handler ce' s) (\<lambda>(err, d, s). kept ce b t s)"
  unfolding sipsess_desc_handler_def Let_def
  by (rule the_call_kp kept.kps kp kept_state gv kept.split_kp kept.any_kp | assumption | (simp; fail))+

lemma sipsess_offer_handler_kept [kp]: "kept ce b t s \<Longrightarrow> gives (sipsess_offer_handler ce' m s) (\<lambda>(err, d, s). kept ce b t s)"
  unfolding sipsess_offer_handler_def Let_def
  by (rule the_call_kp kept.kps kp kept_state gv kept.split_kp kept.any_kp | assumption | (simp; fail))+

lemma sipsess_info_handler_kept [kp]: "kept ce b t s \<Longrightarrow> gives (sipsess_info_handler e ce' m s) (kept ce b t)"
  unfolding sipsess_info_handler_def Let_def
  by (rule the_call_kp kept.kps kp kept_state gv kept.split_kp kept.any_kp | assumption | (simp; fail))+

lemma call_redirect_handler_kept [kp]: "kept ce b t s \<Longrightarrow> gives (call_redirect_handler s) (kept ce b t)"
  unfolding call_redirect_handler_def Let_def
  by (rule the_call_kp kept.kps kp kept_state gv kept.split_kp kept.any_kp | assumption | (simp; fail))+

lemma call_prack_handler_kept [kp]: "kept ce b t s \<Longrightarrow> gives (call_prack_handler e ce' s) (kept ce b t)"
  unfolding call_prack_handler_def Let_def
  by (rule the_call_kp kept.kps kp kept_state gv kept.split_kp kept.any_kp | assumption | (simp; fail))+

lemma dtmfend_handler_kept [kp]: "kept ce b t s \<Longrightarrow> gives (dtmfend_handler s) (kept ce b t)"
  unfolding dtmfend_handler_def Let_def
  by (rule the_call_kp kept.kps kp kept_state gv kept.split_kp kept.any_kp | assumption | (simp; fail))+

lemma delayed_answer_handler_kept [kp]: "kept ce b t s \<Longrightarrow> gives (delayed_answer_handler e ce' s) (kept ce b t)"
  unfolding delayed_answer_handler_def Let_def
  by (rule the_call_kp kept.kps kp kept_state gv kept.split_kp kept.any_kp | assumption | (simp; fail))+

lemma set_established_mdir_kept [kp]: "kept ce b t s \<Longrightarrow> gives (set_established_mdir e ce' s) (kept ce b t)"
  unfolding set_established_mdir_def Let_def
  by (rule the_call_kp kept.kps kp kept_state gv kept.split_kp kept.any_kp | assumption | (simp; fail))+

lemma call_hangup_kept [kp]: "kept ce b t s \<Longrightarrow> gives (call_hangup e c s) (kept ce b t)"
  unfolding call_hangup_def Let_def
  by (rule the_call_kp kept.kps kp kept_state gv kept.split_kp kept.any_kp | assumption | (simp; fail))+


section \<open>The end\<close>

lemma release_facts:
  assumes "sipsess_release e (s :: csw) = Some s'"
  shows "sw_user s' = sw_user s \<and> (announced (sw_log s') \<longleftrightarrow> announced (sw_log s)) \<and> \<not> sw_held s' \<and> ended (sw_log s')"
  using givesD [OF still.sipsess_release_kp assms, of "sw_user s" "announced (sw_log s)"]
    givesD [OF given_back.deref_sess_kp, of "say Se_drop (s\<lparr>sw_held := False\<rparr>)" e s'] assms
  by (auto simp: sipsess_release_def split: if_splits)

lemma destructor_kept:
  assumes c: "core (sw_user s) = (0, st, w, n)" "n \<le> 1" "t \<Longrightarrow> n = 1"
    and a: "announced (sw_log s) \<Longrightarrow> st \<noteq> CALL_STATE_INCOMING"
    and l: "b \<Longrightarrow> (sw_held s \<or> ended (sw_log s)) \<and> \<not> (ce_mnat ce \<and> w \<and> st = CALL_STATE_OUTGOING)"
  shows "gives (call_destructor e s) (kept ce b t)"
proof (unfold call_destructor_def Let_def, rule gives_bindI, rule gives_Some)
  fix v
  let ?s = "put_call ((sw_user (call_stream_stop s))\<lparr>cl_tmr_dtmf := None, cl_tmr_answ := None, cl_tmr_reinv := None\<rparr>) (call_stream_stop s)"
  assume v: "(if sw_held ?s then sipsess_release e ?s else Some ?s) = Some v"
  have s: "core (sw_user ?s) = core (sw_user s)" "sw_log ?s = sw_log s" "sw_held ?s = sw_held s"
    by (simp_all add: call_stream_stop_def log_call_def core_def told_def)
  have "sw_user v = sw_user ?s \<and> (announced (sw_log v) \<longleftrightarrow> announced (sw_log s)) \<and> \<not> sw_held v \<and> (sw_held s \<or> ended (sw_log s) \<longrightarrow> ended (sw_log v))"
    using v release_facts [of e ?s v] s by (auto split: if_splits)
  then show "kept ce b t (log_call Cl_destroyed (put_call ((sw_user v)\<lparr>cl_streams := False, cl_video := False, cl_sub := False, cl_not := False\<rparr>) v))"
    using s(1) c a l by (auto simp: kept_def Let_def log_call_def core_def told_def)
qed

lemma close_deref_kept:
  assumes "kept ce b t s"
  shows "gives (call_deref e (log_call (Cl_ua UA_EVENT_CALL_CLOSED) s)) (kept ce b t)"
proof (unfold call_deref_def Let_def, rule the_call_kp, rule gives_if)
  let ?s = "log_call (Cl_ua UA_EVENT_CALL_CLOSED) s"
  assume r: "0 < cl_refs (sw_user ?s)"
  then have c: "cl_refs (sw_user s) = 1" "told (sw_user s) = 0" using assms by (auto simp: kept_def Let_def log_call_def)
  then show "gives (Some (put_call ((sw_user ?s)\<lparr>cl_refs := cl_refs (sw_user ?s) - 1\<rparr>) ?s)) (kept ce b t)"
    if "1 < cl_refs (sw_user ?s)" using that by (simp add: log_call_def)
  show "gives (call_destructor e (put_call ((sw_user ?s)\<lparr>cl_refs := cl_refs (sw_user ?s) - 1\<rparr>) ?s)) (kept ce b t)"
    by (rule destructor_kept [where st = "cl_state (sw_user s)" and w = "cl_mnat_wait (sw_user s)" and n = 1])
       (use assms c in \<open>auto simp: core_def log_call_def told_def kept_def Let_def\<close>)
qed

lemma ua_hangup_kept [kp]: "kept ce b t s \<Longrightarrow> gives (ua_hangup_call e c s) (kept ce b t)"
  unfolding ua_hangup_call_def by (rule kept.bind_kp close_deref_kept kp | assumption)+

lemma call_event_kept [kp]:
  assumes "kept ce b t s"
  shows "gives (call_event e ce' ev s) (kept ce b t)"
  unfolding call_event_def
proof (rule the_call_kp)
  have k: "kept ce b t (log_call (Cl_event ev) s)" using assms by (intro kp) simp_all
  have i: "gives (app_incoming e ce' v) (kept ce b t)" if "kept ce b t v" for v
    unfolding app_incoming_def by (rule that gv kp kept.kps | assumption)+
  show "gives (ua_call_event e ce' ev (log_call (Cl_event ev) s)) (kept ce b t)"
    unfolding ua_call_event_def
    by (cases ev; simp only: call_event.case) (rule assms gives_if close_deref_kept k kept.bind_kp i kp kept.kps | assumption | (simp; fail))+
qed

lemma sipsess_answer_handler_kept [kp]: "kept ce b t s \<Longrightarrow> gives (sipsess_answer_handler e ce' m s) (\<lambda>(err, s). kept ce b t s)"
  unfolding sipsess_answer_handler_def Let_def
  by (rule the_call_kp kept.kps kp kept_state gv kept.split_kp kept.any_kp | assumption | (simp; fail))+

lemma sipsess_refer_handler_kept [kp]: "kept ce b t s \<Longrightarrow> gives (sipsess_refer_handler e ce' m s) (kept ce b t)"
  unfolding sipsess_refer_handler_def Let_def
  by (rule the_call_kp kept.kps kp kept_state gv kept.split_kp kept.any_kp | assumption | (simp; fail))+

lemma sipsess_close_handler_kept [kp]: "kept ce b t s \<Longrightarrow> gives (sipsess_close_handler e ce' err mo s) (kept ce b t)"
  unfolding sipsess_close_handler_def Let_def
  by (rule the_call_kp kept.kps kp kept_state gv kept.split_kp kept.any_kp | assumption | (simp; fail))+

lemma invite_timeout_kept [kp]: "kept ce b t s \<Longrightarrow> gives (invite_timeout e ce' s) (kept ce b t)"
  unfolding invite_timeout_def Let_def
  by (rule the_call_kp kept.kps kp kept_state gv kept.split_kp kept.any_kp | assumption | (simp; fail))+

lemma stream_error_handler_kept [kp]: "kept ce b t s \<Longrightarrow> gives (stream_error_handler e ce' s) (kept ce b t)"
  unfolding stream_error_handler_def Let_def
  by (rule the_call_kp kept.kps kp kept_state gv kept.split_kp kept.any_kp | assumption | (simp; fail))+

lemma audio_error_handler_kept [kp]: "kept ce b t s \<Longrightarrow> gives (audio_error_handler e ce' err s) (kept ce b t)"
  unfolding audio_error_handler_def Let_def
  by (rule the_call_kp kept.kps kp kept_state gv kept.split_kp kept.any_kp | assumption | (simp; fail))+

lemma video_error_handler_kept [kp]: "kept ce b t s \<Longrightarrow> gives (video_error_handler e ce' s) (kept ce b t)"
  unfolding video_error_handler_def Let_def
  by (rule the_call_kp kept.kps kp kept_state gv kept.split_kp kept.any_kp | assumption | (simp; fail))+

lemma sipsub_notify_handler_kept [kp]: "kept ce b t s \<Longrightarrow> gives (sipsub_notify_handler e ce' sc s) (kept ce b t)"
  unfolding sipsub_notify_handler_def Let_def
  by (rule the_call_kp kept.kps kp kept_state gv kept.split_kp kept.any_kp | assumption | (simp; fail))+

lemma sipsub_close_handler_kept [kp]: "kept ce b t s \<Longrightarrow> gives (sipsub_close_handler e ce' err sc s) (kept ce b t)"
  unfolding sipsub_close_handler_def Let_def
  by (rule the_call_kp kept.kps kp kept_state gv kept.split_kp kept.any_kp | assumption | (simp; fail))+

lemma sipnot_close_handler_kept [kp]: "kept ce b t s \<Longrightarrow> gives (sipnot_close_handler e ce' err sc s) (kept ce b t)"
  unfolding sipnot_close_handler_def Let_def
  by (rule the_call_kp kept.kps kp kept_state gv kept.split_kp kept.any_kp | assumption | (simp; fail))+


lemma progr_handler_kept [kp]: "kept ce b t s \<Longrightarrow> gives (sipsess_progr_handler e ce' m s) (kept ce b t)"
  by (auto simp: sipsess_progr_handler_def call_event_def ua_call_event_def the_call_def call_deref_def call_stream_start_def
      call_stream_stop_def log_call_def set_state_def gives_def kept_def told_def Let_def split: if_splits)

lemma estab_handler_kept:
  assumes k: "kept ce b t s"
  shows "gives (sipsess_estab_handler e ce' (say (Se_call C_estab) s)) (kept ce b t)"
proof -
  let ?s = "say (Se_call C_estab) s"
  have 1: "kept ce b t ?s" if "cl_state (sw_user ?s) = CALL_STATE_ESTABLISHED" using k that by (auto simp: kept_def Let_def)
  have 2: "kept ce b t (set_state CALL_STATE_ESTABLISHED ?s)" using k by (auto simp: kept_def Let_def set_state_def told_def)
  show ?thesis
    unfolding sipsess_estab_handler_def Let_def
    by (rule the_call_kp kept.kps 1 2 kp gv | assumption | (simp; fail))+
qed

lemma called_kept: "kept ce b t s \<Longrightarrow> h \<noteq> C_estab \<Longrightarrow> kept ce b t (say (Se_call h) s)"
  by (auto simp: kept_def Let_def)

interpretation calls: sess_keep "kept ce b t" "call_user e ce'" for e ce' ce b t
  by unfold_locales
     (simp_all add: call_user_def estab_handler_kept, (rule kp called_kept gives_Some gives_field | assumption | (simp; fail))+)


end
