(* ===== verification/Call_Runs.thy ===== *)
theory Call_Runs
  imports Call_Kept
begin

text \<open>
  Runs of a call, from \<open>ua_connect_dir\<close> or a new INVITE on: every operation of the call, every event of its session, every
  timer and error.  \<open>run_ok\<close>: the call is either in a run of its session, which keeps what \<open>sess_user\<close> promises, or
  has no session, and keeps the invariant \<open>kept\<close> of \<^verbatim>\<open>Call_Kept\<close>.
\<close>

section \<open>Runs of a call\<close>

text \<open>A call without a session.\<close>

definition idle :: "csw \<Rightarrow> bool" where
  "idle s \<longleftrightarrow> sw_sess s = None \<and> \<not> sw_held s \<and> orderly (sw_log s) \<and> \<not> announced (sw_log s)"

text \<open>A log of the beginning of a session that failed.\<close>

definition early :: "sess_act list \<Rightarrow> bool" where
  "early xs \<longleftrightarrow> (\<forall>x \<in> set xs. x = Se_call C_desc \<or> x = Se_freed \<or> (\<exists>k err. x = Se_req k err) \<or> (\<exists>c. x = Se_reply c))"

lemma early_simps [simp]:
  "early []" "early (xs @ ys) \<longleftrightarrow> early xs \<and> early ys"
  "early (x # xs) \<longleftrightarrow> (x = Se_call C_desc \<or> x = Se_freed \<or> (\<exists>k err. x = Se_req k err) \<or> (\<exists>c. x = Se_reply c)) \<and> early xs"
  by (auto simp: early_def)

lemma early_orderly: "early xs \<Longrightarrow> orderly xs \<and> \<not> announced xs"
proof (induction xs rule: rev_induct)
  case (snoc x xs)
  then have "\<not> ended xs" by (auto simp: early_def ended_def)
  then show ?case using snoc by (auto simp: orderly_append)
qed simp

definition plain :: "sipsess \<Rightarrow> bool" where
  "plain se \<longleftrightarrow> se_terminated se = 0 \<and> se_req se = None \<and> se_replyl se = [] \<and> se_requestl se = [] \<and> \<not> se_established se"

text \<open>A session that is about to be destroyed because it could not be started.\<close>

definition failed :: "csw \<Rightarrow> bool" where
  "failed s \<longleftrightarrow> (\<exists>se. sw_sess s = Some se \<and> plain se) \<and> sw_refs s = 1 \<and> \<not> sw_held s \<and> early (sw_log s)"

lemma failed_gone:
  assumes "failed s" "deref_sess e s = Some s'"
  shows "idle s' \<and> sw_user s' = sw_user s"
proof -
  obtain se where se: "sw_sess s = Some se" "plain se" using assms(1) by (auto simp: failed_def)
  have "sw_sess s' = None \<and> \<not> sw_held s' \<and> early (sw_log s') \<and> sw_user s' = sw_user s"
    using assms se
    by (cases "se_st se"; cases "ev_rep e (sw_next s) = 0")
       (simp_all add: failed_def plain_def deref_sess_def destructor_sess_def termwait_def terminate_sess_def sess_free_def st_reply_def
        Let_def, (drule sym, simp)+)
  then show ?thesis by (simp add: idle_def early_orderly)
qed

lemma alloc_failed:
  "sipsess_alloc e auth_err desch progrh referh c now = Some (err, s) \<Longrightarrow>
     sw_user s = c \<and> (if err = 0 then failed s \<and> sw_log s = [] \<and> (\<exists>se. sw_sess s = Some se \<and> \<not> se_st se \<and> se_desch se = desch) else idle s)"
  unfolding sipsess_alloc_def
  by (auto simp: Let_def new_sess_def failed_def plain_def bind_eq_Some_conv idle_def put_sess_def split: if_splits
      dest!: failed_gone [rotated])

lemma desc_core: "sipsess_desc_handler ce s = Some (err, d, s') \<Longrightarrow> core (sw_user s') = core (sw_user s)"
  by (auto simp: sipsess_desc_handler_def the_call_def call_streams_alloc_def call_set_mdir_def sdp_encode_def media_def Let_def
      split: if_splits)

lemma failed_mine: "failed s \<Longrightarrow> mine s t \<Longrightarrow> failed t"
  using mine_fields [of s t] by (simp add: failed_def)

lemma desch_failed:
  assumes f: "failed s" and v: "sess_desch (call_user e ce) s = Some (err, d, s')"
  shows "failed s' \<and> core (sw_user s') = core (sw_user s)"
proof -
  have h: "sipsess_desc_handler ce (say (Se_call C_desc) s) = Some (err, d, s')" using v by (simp add: sess_desch_def call_user_def)
  have "failed (say (Se_call C_desc) s)" using f by (simp add: failed_def)
  then show ?thesis using failed_mine givesD [OF desc_handler_mine h] desc_core [OF h] by simp
qed

lemma failed_put: "failed s \<Longrightarrow> sw_sess s = Some se \<Longrightarrow> plain se' = plain se \<Longrightarrow> failed (put_sess se' s)"
  by (simp add: failed_def)

lemma send_failed:
  assumes f: "failed s" and v: "send_handler_invite e (call_user e ce) s = Some (err, s')"
  shows "failed s' \<and> core (sw_user s') = core (sw_user s)"
proof -
  obtain se where se: "sw_sess s = Some se" using f by (auto simp: failed_def)
  obtain err1 d s1 where s1: "(if se_desch se = H_user then sess_desch (call_user e ce) s else Some (OK, None, s)) = Some (err1, d, s1)"
    using v se by (auto simp: send_handler_invite_def bind_eq_Some_conv)
  have c: "failed s1" "core (sw_user s1) = core (sw_user s)" using desch_failed [OF f] s1 f by (auto split: if_splits)
  then obtain se1 where "sw_sess s1 = Some se1" "plain se1" by (auto simp: failed_def)
  then show ?thesis
    using v c se s1 by (auto simp: send_handler_invite_def Let_def failed_def plain_def split: if_splits)
qed

lemma invite_failed:
  assumes f: "failed s" and v: "invite e (call_user e ce) s = Some (err, s')"
  shows "core (sw_user s') = core (sw_user s) \<and> (err \<noteq> 0 \<longrightarrow> failed s')"
proof -
  obtain se where se: "sw_sess s = Some se" "plain se" using f by (auto simp: failed_def)
  define s0 where "s0 = (put_sess (se\<lparr>se_modify_pending := False\<rparr>) s)\<lparr>sw_next := Suc (sw_next s)\<rparr>"
  have s0: "failed s0" "sw_sess s0 = Some (se\<lparr>se_modify_pending := False\<rparr>)" "sw_user s0 = sw_user s"
    using f se by (simp_all add: s0_def failed_def plain_def)
  show ?thesis
  proof (cases "ev_req e (sw_next s)")
    case (Dr_sent now)
    then have "do { (err, s) \<leftarrow> (if now then send_handler_invite e (call_user e ce) s0 else Some (OK, s0)); se \<leftarrow> sw_sess s;
         Some (err, say (Se_req R_INVITE err) (put_sess (se\<lparr>se_req := (if err \<noteq> 0 then None else Some (R_INVITE, new_req))\<rparr>) s)) } =
       Some (err, s')" using v se(1) unfolding s0_def by (simp add: invite_def split del: if_split)
    then obtain s1 se1 where s1: "(if now then send_handler_invite e (call_user e ce) s0 else Some (OK, s0)) = Some (err, s1)" "sw_sess s1 = Some se1"
        "s' = say (Se_req R_INVITE err) (put_sess (se1\<lparr>se_req := (if err \<noteq> 0 then None else Some (R_INVITE, new_req))\<rparr>) s1)"
      by (auto simp: bind_eq_Some_conv)
    have "failed s1 \<and> core (sw_user s1) = core (sw_user s)" using s1(1) send_failed [OF s0(1)] s0 by (auto split: if_splits)
    then show ?thesis using s1 by (auto simp: failed_def plain_def)
  qed (use v se f in \<open>auto simp: invite_def failed_def plain_def\<close>)
qed

lemma hand_over_failed: "failed s \<Longrightarrow> hand_over e err s = Some (err', s') \<Longrightarrow> err \<noteq> 0 \<Longrightarrow> err' = err \<and> idle s' \<and> sw_user s' = sw_user s"
  by (auto simp: hand_over_def bind_eq_Some_conv dest: failed_gone)

text \<open>An outgoing session starts or leaves nothing behind.\<close>

lemma connect_result:
  assumes v: "sipsess_connect e (call_user e ce) auth_err prep_err rel100 referh c now = Some (err, s)"
  shows "core (sw_user s) = core c \<and> (if err = 0 then ss_reach e (call_user e ce) s \<and> sw_held s else idle s)"
proof -
  obtain err1 s1 where a: "sipsess_alloc e auth_err H_user H_user referh c now = Some (err1, s1)"
    using v by (auto simp: sipsess_connect_def bind_eq_Some_conv)
  note f = alloc_failed [OF a]
  show ?thesis
  proof (cases "err1 = 0 \<and> prep_err = 0")
    case False
    then show ?thesis using v a f hand_over_failed [of s1 e prep_err err s] by (auto simp: sipsess_connect_def split: if_splits)
  next
    case True
    then obtain se where se: "sw_sess s1 = Some se" "plain se" using f by (auto simp: failed_def)
    define s2 where "s2 = put_sess (se\<lparr>se_owner := True, se_rel100_supported := rel100\<rparr>) s1"
    have s2: "failed s2" "sw_user s2 = c" using f True se unfolding s2_def by (auto intro: failed_put simp: plain_def)
    obtain err3 s3 where s3: "invite e (call_user e ce) s2 = Some (err3, s3)" "hand_over e err3 s3 = Some (err, s)"
      using v a True se by (auto simp: sipsess_connect_def bind_eq_Some_conv s2_def)
    note i = invite_failed [OF s2(1) s3(1)]
    show ?thesis
    proof (cases "err3 = 0")
      case False
      then show ?thesis using i s2 hand_over_failed [OF _ s3(2)] by simp
    next
      case True
      then have s: "err = 0" "s = s3\<lparr>sw_held := True\<rparr>" using s3(2) by (simp_all add: hand_over_def)
      then show ?thesis using i s2 v by (auto intro: reach_connect)
    qed
  qed
qed

lemma reply_1xx_failed:
  assumes "failed s" "sipsess_reply_1xx e m c r d s = Some (err, s')" "err \<noteq> 0"
  shows "failed s'"
proof -
  obtain se where se: "sw_sess s = Some se" "plain se" using assms(1) by (auto simp: failed_def)
  show ?thesis
    using assms se
    by (auto simp: sipsess_reply_1xx_def st_reply_def failed_def plain_def Let_def bind_eq_Some_conv split: if_splits)
qed

text \<open>The same for an incoming session.\<close>

lemma accept_result:
  assumes v: "sipsess_accept e auth_err dlg_err st_err 180 rel100 desc referh m c now = Some (err, s)"
  shows "sw_user s = c \<and> \<not> announced (sw_log s) \<and> (if err = 0 then ss_reach e u s \<and> sw_held s else idle s)"
proof -
  obtain err1 s1 where a: "sipsess_alloc e auth_err H_null H_null referh c now = Some (err1, s1)"
    using v by (auto simp: sipsess_accept_def bind_eq_Some_conv)
  note f = alloc_failed [OF a]
  have idle: "\<not> announced (sw_log t)" if "idle t" for t using that by (simp add: idle_def)
  show ?thesis
  proof (cases "err1 = 0 \<and> dlg_err = 0")
    case False
    then show ?thesis using v a f idle hand_over_failed [of s1 e dlg_err err s] by (auto simp: sipsess_accept_def split: if_splits)
  next
    case True
    then obtain se where se: "sw_sess s1 = Some se" "plain se" using f by (auto simp: failed_def)
    define se1 where "se1 = se\<lparr>se_dlg_est := True, se_dlg_rseq := sm_cseq m, se_msg := Some m\<rparr>"
    have p: "plain se1" using se by (simp add: se1_def plain_def)
    show ?thesis
    proof (cases "st_err = 0")
      case False
      have "failed (put_sess se1 s1)" using f True se p by (auto intro: failed_put)
      then show ?thesis
        using v a True se False f idle hand_over_failed [of "put_sess se1 s1" e st_err err s] by (auto simp: sipsess_accept_def se1_def)
    next
      case st: True
      define s2 where "s2 = put_sess (se1\<lparr>se_st := True, se_neg_state := (if sm_body m > 0 then SDP_NEG_REMOTE_OFFER else SDP_NEG_NONE)\<rparr>) s1"
      have s2: "failed s2" "sw_user s2 = c" "sw_log s2 = []"
        using f True se p unfolding s2_def by (auto intro!: failed_put simp: plain_def)
      obtain err3 s3 where s3: "sipsess_reply_1xx e m 180 rel100 desc s2 = Some (err3, s3)" "hand_over e err3 s3 = Some (err, s)"
        using v a True st se by (auto simp: sipsess_accept_def bind_eq_Some_conv s2_def se1_def)
      have k: "sw_user s3 = c \<and> \<not> announced (sw_log s3)"
        using givesD [OF still.sipsess_reply_1xx_kp s3(1), of c False] s2 by simp
      show ?thesis
      proof (cases "err3 = 0")
        case False
        then show ?thesis using k idle hand_over_failed [OF reply_1xx_failed [OF s2(1) s3(1)] s3(2)] by simp
      next
        case True
        then have s: "err = 0" "s = s3\<lparr>sw_held := True\<rparr>" using s3(2) by (simp_all add: hand_over_def)
        then show ?thesis using k v by (auto intro: reach_accept)
      qed
    qed
  qed
qed
section \<open>Operations and events\<close>

inductive call_step :: "senv \<Rightarrow> cenv \<Rightarrow> csw \<Rightarrow> csw \<Rightarrow> bool" for e ce where
  call_session: "ss_event e (call_user e ce) s s' \<Longrightarrow> call_step e ce s s'"
| call_hung_up: "ua_hangup_call e scode s = Some s' \<Longrightarrow> call_step e ce s s'"
| call_modified: "call_modify e ce s = Some (err, s') \<Longrightarrow> call_step e ce s s'"
| call_held: "call_hold e ce b s = Some (err, s') \<Longrightarrow> call_step e ce s s'"
| call_video: "call_set_video_dir e ce d s = Some (err, s') \<Longrightarrow> call_step e ce s s'"
| call_progressed: "call_progress e ce s = Some (err, s') \<Longrightarrow> call_step e ce s s'"
| call_answered: "call_answer e ce scode v s = Some (err, s') \<Longrightarrow> call_step e ce s s'"
| call_dialled: "call_digit e ce k s = Some (err, s') \<Longrightarrow> call_step e ce s s'"
| call_answtmr: "call_start_answtmr ms s = Some s' \<Longrightarrow> call_step e ce s s'"
| call_transferred: "call_transfer ce s = Some (err, s') \<Longrightarrow> call_step e ce s s'"
| call_tmr_inv: "cl_tmr_inv (sw_user s) = Some x \<Longrightarrow> x \<le> sw_now s \<Longrightarrow>
    invite_timeout e ce (put_call ((sw_user s)\<lparr>cl_tmr_inv := None\<rparr>) s) = Some s' \<Longrightarrow> call_step e ce s s'"
| call_tmr_dtmf: "cl_tmr_dtmf (sw_user s) = Some x \<Longrightarrow> x \<le> sw_now s \<Longrightarrow>
    dtmfend_handler (put_call ((sw_user s)\<lparr>cl_tmr_dtmf := None\<rparr>) s) = Some s' \<Longrightarrow> call_step e ce s s'"
| call_tmr_answ: "cl_tmr_answ (sw_user s) = Some x \<Longrightarrow> x \<le> sw_now s \<Longrightarrow>
    delayed_answer_handler e ce (put_call ((sw_user s)\<lparr>cl_tmr_answ := None\<rparr>) s) = Some s' \<Longrightarrow> call_step e ce s s'"
| call_tmr_reinv: "cl_tmr_reinv (sw_user s) = Some x \<Longrightarrow> x \<le> sw_now s \<Longrightarrow>
    set_established_mdir e ce (put_call ((sw_user s)\<lparr>cl_tmr_reinv := None\<rparr>) s) = Some s' \<Longrightarrow> call_step e ce s s'"
| call_stream_error: "stream_error_handler e ce s = Some s' \<Longrightarrow> call_step e ce s s'"
| call_audio_error: "audio_error_handler e ce err s = Some s' \<Longrightarrow> call_step e ce s s'"
| call_video_error: "video_error_handler e ce s = Some s' \<Longrightarrow> call_step e ce s s'"
| call_mnat: "ce_mnat ce \<Longrightarrow> mnat_handler e ce err scode s = Some s' \<Longrightarrow> call_step e ce s s'"
| call_sub_notify: "cl_sub (sw_user s) \<Longrightarrow> sipsub_notify_handler e ce sc s = Some s' \<Longrightarrow> call_step e ce s s'"
| call_sub_close: "cl_sub (sw_user s) \<Longrightarrow> sipsub_close_handler e ce err c s = Some s' \<Longrightarrow> call_step e ce s s'"
| call_not_close: "cl_not (sw_user s) \<Longrightarrow> sipnot_close_handler e ce err c s = Some s' \<Longrightarrow> call_step e ce s s'"

inductive call_reach :: "senv \<Rightarrow> cenv \<Rightarrow> csw \<Rightarrow> bool" for e ce where
  reach_incoming: "sipsess_conn_handler e ce found dnd max_calls bad_ext auto use_video msg calls now = Some s \<Longrightarrow> call_reach e ce s"
| reach_outgoing: "ua_connect_call e ce use_video adir vdir calls now = Some (err, s) \<Longrightarrow> call_reach e ce s"
| reach_call_step: "call_reach e ce s \<Longrightarrow> call_step e ce s s' \<Longrightarrow> call_reach e ce s'"

text \<open>The state of a run: a run of the session, or no session.\<close>

definition run_ok :: "senv \<Rightarrow> cenv \<Rightarrow> bool \<Rightarrow> csw \<Rightarrow> bool" where
  "run_ok e ce t s \<longleftrightarrow> ss_reach e (call_user e ce) s \<and> kept ce True t s \<or> idle s \<and> kept ce False t s"

lemma api_idle: "api e s s' \<Longrightarrow> idle s \<Longrightarrow> idle s'"
  by (induction rule: api.induct) (auto simp: idle_def sip_reply_def free_reply_def Let_def orderly_append)

lemma end_idle: "api_end e s s' \<Longrightarrow> idle s \<Longrightarrow> idle s'"
  by (induction rule: api_end.induct) (auto simp: idle_def sipsess_release_def dest: api_idle [unfolded idle_def])

lemma ends_idle: "ends e s s' \<Longrightarrow> idle s \<Longrightarrow> idle s'"
  by (induction rule: rtranclp_induct) (auto intro: end_idle)

lemma ends_reach: "ends e s s' \<Longrightarrow> ss_reach e u s \<Longrightarrow> ss_reach e u s'"
  by (induction rule: rtranclp_induct) (auto intro: reach_step step_user)

lemma run_op:
  assumes "run_ok e ce t s" "ends e s s'" "\<And>b. kept ce b t s \<Longrightarrow> kept ce b t s'"
  shows "run_ok e ce t s'"
  using assms ends_idle ends_reach unfolding run_ok_def by blast

lemma run_op_gives:
  "run_ok e ce t s \<Longrightarrow> gives m (ends e s) \<Longrightarrow> (\<And>b. kept ce b t s \<Longrightarrow> gives m (kept ce b t)) \<Longrightarrow> gives m (run_ok e ce t)"
  by (auto simp: gives_def intro: run_op)

lemma run_apis_gives:
  "run_ok e ce t s \<Longrightarrow> gives m (\<lambda>(err, s'). apis e s s') \<Longrightarrow> (\<And>b. kept ce b t s \<Longrightarrow> gives m (\<lambda>(err, s). kept ce b t s)) \<Longrightarrow>
     gives m (\<lambda>(err, s). run_ok e ce t s)"
  by (force simp: gives_def intro: run_op apis_ends)

lemma kept_may_abort: "kept ce b t s \<Longrightarrow> 0 < cl_refs (sw_user s) \<Longrightarrow> may_abort s"
  by (auto simp: kept_def may_abort_def Let_def)

lemma run_kept: "run_ok e ce t s \<Longrightarrow> kept ce False t s"
  by (auto simp: run_ok_def kept_def Let_def)

lemma run_hangup: "run_ok e ce t s \<Longrightarrow> gives (ua_hangup_call e c s) (run_ok e ce t)"
proof (cases "0 < cl_refs (sw_user s)")
  case True
  assume r: "run_ok e ce t s"
  show ?thesis by (rule run_op_gives [OF r ua_hangup_ends ua_hangup_kept]) (rule kept_may_abort [OF run_kept [OF r] True])
qed (simp add: ua_hangup_call_def call_hangup_def the_call_def gives_None)

lemma event_ends:
  assumes "kept ce b t s"
  shows "gives (call_event e ce' ev s) (ends e s)"
proof (cases "0 < cl_refs (sw_user s)")
  case True
  have m: "ev \<noteq> CALL_EVENT_INCOMING \<Longrightarrow> ev \<noteq> CALL_EVENT_CLOSED \<Longrightarrow> gives (call_event e ce' ev s) (ends e s)"
    by (rule gives_conseq [OF event_mine mine_ends])
  show ?thesis
    using incoming_ends [OF kept_may_abort [OF assms True]] closed_ends m by (cases "ev = CALL_EVENT_INCOMING"; cases "ev = CALL_EVENT_CLOSED") simp_all
qed (simp add: call_event_def the_call_def gives_None)

lemma run_event: "run_ok e ce t s \<Longrightarrow> gives (call_event e ce ev s) (run_ok e ce t)"
  by (rule run_op_gives [OF _ event_ends [OF run_kept] call_event_kept])

lemma run_mine: "run_ok e ce t s \<Longrightarrow> mine s s' \<Longrightarrow> (\<And>b. kept ce b t s \<Longrightarrow> kept ce b t s') \<Longrightarrow> run_ok e ce t s'"
  by (rule run_op [OF _ mine_ends])

lemma idle_event:
  assumes "ss_event e u s s'" "idle s"
  shows "idle s' \<and> sw_user s' = sw_user s"
proof -
  have n: "sw_sess s = None" using assms(2) by (simp add: idle_def)
  have r: "idle (sip_reply e c s) \<and> sw_user (sip_reply e c s) = sw_user s" for c
    using api_idle [OF api_sip_reply assms(2)] by (simp add: sip_reply_def free_reply_def Let_def)
  have q: "idle s2 \<and> sw_user s2 = sw_user s" if "sess_request_handler e u m s = Some (b, s2)" for m b s2
    using that r assms(2) n
    by (auto simp: sess_request_handler_def info_handler_def refer_handler_def bye_handler_def sess_ack_handler_def prack_handler_def
        target_refresh_handler_def sipsess_find_def Let_def split: if_splits)
  show ?thesis
    using assms(1)
  proof cases
    case (step_request m b)
    then show ?thesis by (auto dest: q)
  next
    case (step_time now)
    then show ?thesis using assms(2) by (simp add: idle_def)
  qed (use n in \<open>simp_all add: sess_response_def sub_response_def\<close>)
qed

lemma run_session: "run_ok e ce t s \<Longrightarrow> ss_event e (call_user e ce) s s' \<Longrightarrow> run_ok e ce t s'"
  using calls.event_kp idle_event unfolding run_ok_def by (blast intro: reach_step step_event)

subsection \<open>The beginning\<close>

lemma run_put:
  "run_ok e ce t s \<Longrightarrow> core c = core (sw_user s) \<Longrightarrow> run_ok e ce t (put_call c s)"
  by (erule run_mine) (simp_all add: mine kept_core)

lemma run_media: "run_ok e ce t s \<Longrightarrow> media ce' s = (err, s') \<Longrightarrow> run_ok e ce t s'"
  by (erule run_mine) (use kept_media [of ce _ t s ce'] in \<open>auto simp: mine_media [OF mine_refl]\<close>)

text \<open>A call in its beginning: it is not freed and has no session.\<close>

definition begun :: "cenv \<Rightarrow> bool \<Rightarrow> csw \<Rightarrow> bool" where
  "begun ce t s \<longleftrightarrow> idle s \<and> kept ce False t s \<and> cl_refs (sw_user s) = 1"

lemma begun_run: "begun ce t s \<Longrightarrow> run_ok e ce t s"
  by (simp add: begun_def run_ok_def)

lemma idle_mine: "idle s \<Longrightarrow> mine s s' \<Longrightarrow> idle s'"
  using mine_fields [of s s'] by (simp add: idle_def)

lemma begun_mine:
  "begun ce t s \<Longrightarrow> mine s s' \<Longrightarrow> core (sw_user s') = core (sw_user s) \<Longrightarrow> begun ce t s'"
  unfolding begun_def using idle_mine [of s s'] kept_core [of ce False t s "sw_user s'"]
  by (auto simp: mine_def core_def)

lemma send_invite_run:
  assumes b: "begun ce t s" and i: "cl_state (sw_user s) \<noteq> CALL_STATE_INCOMING"
    and m: "\<not> (ce_mnat ce \<and> cl_mnat_wait (sw_user s) \<and> cl_state (sw_user s) = CALL_STATE_OUTGOING)"
  shows "gives (send_invite e ce s) (\<lambda>(err, s'). run_ok e ce t s' \<and> (err \<noteq> 0 \<longrightarrow> cl_refs (sw_user s') = 1))"
proof (unfold send_invite_def, rule gives_pairI, rule gives_if)
  fix err s1
  assume v: "sipsess_connect e (call_user e ce) (ce_auth_err ce) (ce_prep_err ce) (ce_sup_100rel ce)
      (if ce_refer ce then H_user else H_null) (sw_user s) (sw_now s) = Some (err, s1)"
  note r = connect_result [OF v]
  have c: "cl_refs (sw_user s1) = 1" "told (sw_user s1) = 0" "cl_state (sw_user s1) = cl_state (sw_user s)"
    "cl_mnat_wait (sw_user s1) = cl_mnat_wait (sw_user s)"
    using r b by (auto simp: begun_def core_def kept_def Let_def)
  show "gives (Some (err, s1)) (\<lambda>(err, s'). run_ok e ce t s' \<and> (err \<noteq> 0 \<longrightarrow> cl_refs (sw_user s') = 1))" if "err \<noteq> 0"
    using that r c i by (simp add: gives_Some run_ok_def kept_def Let_def)
  assume "\<not> err \<noteq> 0"
  then have run: "run_ok e ce t s1" and h: "sw_held s1" using r c i m by (auto simp: run_ok_def kept_def Let_def)
  have 1: "run_ok e ce t s2 \<and> sw_held s2" if "run_ok e ce t s" "sw_held s" "sipsess_set_redirect_handler s = Some s2" for s s2
  proof -
    have "ends e s s2" using that by (intro r_into_rtranclp end_api api_redirect)
    then have "run_ok e ce t s2" using run_op [OF that(1)] givesD [OF kept.sipsess_set_redirect_handler_kp that(3)] by blast
    then show ?thesis using that by (auto simp: sipsess_set_redirect_handler_def bind_eq_Some_conv)
  qed
  have 2: "run_ok e ce t s2" if "run_ok e ce t s" "sw_held s" "sipsess_set_prack_handler s = Some s2" for s s2
  proof -
    have "ends e s s2" using that by (intro r_into_rtranclp end_api api_prack)
    then show ?thesis using run_op [OF that(1)] givesD [OF kept.sipsess_set_prack_handler_kp that(3)] by blast
  qed
  have 3: "run_ok e ce t (log_call (Cl_ua UA_EVENT_CALL_LOCAL_SDP) s)" if "run_ok e ce t s" for s
    by (rule run_mine [OF that]) (simp_all add: mine kept_log)
  show "gives (do { s \<leftarrow> sipsess_set_redirect_handler s1; s \<leftarrow> sipsess_set_prack_handler s; Some (OK, log_call (Cl_ua UA_EVENT_CALL_LOCAL_SDP) s) })
      (\<lambda>(err, s'). run_ok e ce t s' \<and> (err \<noteq> 0 \<longrightarrow> cl_refs (sw_user s') = 1))"
    using 1 [OF run h] 2 3 by (auto simp: gives_def bind_eq_Some_conv)
qed

lemma run_mnat:
  assumes r: "run_ok e ce t s" and m: "ce_mnat ce"
  shows "gives (mnat_handler e ce err scode s) (run_ok e ce t)"
proof (unfold mnat_handler_def Let_def, rule the_call_kp, intro gives_if)
  assume p: "0 < cl_refs (sw_user s)"
  show "gives (call_event e ce CALL_EVENT_CLOSED s) (run_ok e ce t)" by (rule run_event [OF r])
  have "gives (call_modify e ce s) (\<lambda>(err, s). run_ok e ce t s)"
    by (rule run_apis_gives [OF r call_modify_apis call_modify_kept])
  then show "gives (call_modify e ce s \<bind> (\<lambda>(_, s). Some s)) (run_ok e ce t)" by (auto simp: gives_def bind_eq_Some_conv)
  let ?s = "put_call ((sw_user s)\<lparr>cl_mnat_wait := False\<rparr>) s"
  have w: "run_ok e ce t ?s"
    by (rule run_mine [OF r]) (auto simp: mine kept_def Let_def told_def)
  show "gives (call_event e ce CALL_EVENT_INCOMING ?s) (run_ok e ce t)" by (rule run_event [OF w])
  show "gives (Some ?s) (run_ok e ce t)" using w by (simp add: gives_Some)
  assume o: "\<not> \<not> cl_mnat_wait (sw_user s)" "cl_state (sw_user s) = CALL_STATE_OUTGOING"
  then have "begun ce t ?s" using r w p m by (auto simp: run_ok_def begun_def kept_def Let_def idle_def told_def)
  then have "gives (send_invite e ce ?s) (\<lambda>(err, s'). run_ok e ce t s' \<and> (err \<noteq> 0 \<longrightarrow> cl_refs (sw_user s') = 1))"
    by (rule send_invite_run) (use o in simp_all)
  then show "gives (send_invite e ce ?s \<bind> (\<lambda>(_, s). Some s)) (run_ok e ce t)" by (auto simp: gives_def bind_eq_Some_conv)
qed

text \<open>A call that could not begin is freed without a word to the application.\<close>

lemma deref_run:
  assumes r: "run_ok e ce t s" and c: "cl_refs (sw_user s) = 1"
  shows "gives (call_deref e s) (run_ok e ce False)"
proof -
  have k: "gives (call_deref e s) (kept ce b False)" if "kept ce b t s" for b
  proof (unfold call_deref_def Let_def, rule the_call_kp, rule gives_if)
    show "gives (Some (put_call ((sw_user s)\<lparr>cl_refs := cl_refs (sw_user s) - 1\<rparr>) s)) (kept ce b False)" if "1 < cl_refs (sw_user s)"
      using that c by simp
    show "gives (call_destructor e (put_call ((sw_user s)\<lparr>cl_refs := cl_refs (sw_user s) - 1\<rparr>) s)) (kept ce b False)"
      by (rule destructor_kept [where st = "cl_state (sw_user s)" and w = "cl_mnat_wait (sw_user s)" and n = 0])
         (use \<open>kept ce b t s\<close> c in \<open>auto simp: core_def kept_def Let_def told_def\<close>)
  qed
  show ?thesis
    using k call_deref_ends [of e s] r ends_idle ends_reach unfolding run_ok_def gives_def by blast
qed

lemma run_weaken: "run_ok e ce t s \<Longrightarrow> run_ok e ce False s"
  by (auto simp: run_ok_def kept_def Let_def)

lemma run_reply: "run_ok e ce t s \<Longrightarrow> run_ok e ce t (sip_reply e c s)"
  by (rule run_op [OF _ reply_ends kept.sip_reply_kp])

lemma begun_reply: "begun ce t s \<Longrightarrow> begun ce t (sip_reply e c s)"
  using api_idle [OF api_sip_reply] kept.sip_reply_kp [of ce False t s]
  by (auto simp: begun_def sip_reply_def free_reply_def Let_def)

lemma begun_new: "begun ce t (no_sess init_call now)"
  by (simp add: begun_def idle_def no_sess_def init_call_def kept_def told_def Let_def)

lemma begun_media: "begun ce t s \<Longrightarrow> media ce' s = (err, s') \<Longrightarrow> begun ce t s'"
  by (erule begun_mine) (auto simp: mine_media [OF mine_refl], auto simp: media_def)

lemma begun_put: "begun ce t s \<Longrightarrow> core c = core (sw_user s) \<Longrightarrow> begun ce t (put_call c s)"
  by (erule begun_mine) (simp_all add: mine)

lemma notify_held [simp]: "sw_held (call_notify_sipfrag c s) = sw_held s"
  by (simp add: call_notify_sipfrag_def log_call_def Let_def)

lemma begun_autoanswer: "begun ce t s \<Longrightarrow> gives (call_rfc5373_autoanswer e ce' h s) (begun ce t)"
proof (unfold call_rfc5373_autoanswer_def, rule the_call_kp, rule gives_option)
  fix b
  assume s: "begun ce t s" and p: "0 < cl_refs (sw_user s)"
  have n: "\<not> sw_held s" using s by (simp add: begun_def idle_def)
  have "begun ce t s'" if h: "call_hangup e 0 s = Some s'" for s'
  proof -
    have m: "mine s s'" using h n p by (auto simp: call_hangup_def the_call_def on_sess_def Let_def mine mine_refl split: if_splits)
    have "kept ce False t s'" using givesD [OF call_hangup_kept h] s by (simp add: begun_def)
    moreover have "cl_refs (sw_user s') = 1"
      using h n s by (auto simp: call_hangup_def the_call_def on_sess_def Let_def call_stream_stop_def log_call_def set_state_def begun_def
          call_notify_sipfrag_def split: if_splits)
    ultimately show ?thesis using s m idle_mine by (auto simp: begun_def)
  qed
  then show "gives (if b \<and> \<not> ce_autoanswer ce' then call_hangup e 0 s else Some (put_call ((sw_user s)\<lparr>cl_adelay := 0\<rparr>) s)) (begun ce t)"
    using begun_put [OF s] by (auto simp: gives_def)
qed (simp add: gives_Some)

lemma begun_decode: "begun ce t s \<Longrightarrow> gives (call_decode_sip_autoanswer e ce' ci ai m p s) (begun ce t)"
  unfolding call_decode_sip_autoanswer_def Let_def
  by (rule the_call_kp, intro gives_option gives_Some gives_bind gives_conseq [OF begun_autoanswer] begun_autoanswer)
     (simp_all add: begun_put)

lemma assign_cases:
  "gives (f ENOENT) Q \<Longrightarrow> (\<And>n. gives (g n) Q) \<Longrightarrow> gives (case assign_linenum calls of (err, None) \<Rightarrow> f err | (err, Some num) \<Rightarrow> g num) Q"
  by (simp add: assign_linenum_def split: option.split)

lemma alloc_run: "gives (call_alloc e ce auto use_video m calls now) (\<lambda>(err, s). if err = 0 then begun ce t s else run_ok e ce False s)"
  (is "gives _ ?Q")
proof (unfold call_alloc_def Let_def, rule gives_prod, rule gives_prod, rule gives_prod, rule gives_bindI, rule gives_prod, intro gives_if)
  fix ci x ai y md pr s err s1
  assume "call_decode_sip_autoanswer e ce ci ai md pr (no_sess init_call now) = Some s" and m: "media ce s = (err, s1)"
  then have b: "begun ce t s1" using givesD [OF begun_decode [OF begun_new]] begun_media by blast
  have d: "gives (call_deref e s \<bind> (\<lambda>s. Some (err, s))) ?Q" if "begun ce t s" "err \<noteq> 0" for s err
    using that givesD [OF deref_run [OF begun_run [OF that(1)]], of e] by (auto simp: gives_def bind_eq_Some_conv begun_def)
  show "gives (call_deref e s1 \<bind> (\<lambda>s. Some (err, s))) ?Q" if "err \<noteq> 0" by (rule d [OF b that])
  let ?c = "(sw_user s1)\<lparr>cl_got_offer := (case m of None \<Rightarrow> False | Some m \<Rightarrow> 0 < sm_body m),
      cl_replaces_ok := (case m of None \<Rightarrow> False | Some m \<Rightarrow> ce_sup_replaces ce m), cl_mnat_wait := True, cl_use_video := use_video,
      cl_estvdir := (if use_video then SDP_SENDRECV else SDP_INACTIVE)\<rparr>"
  let ?s = "put_call ?c s1"
  have p: "begun ce t (put_call c s1)" if "cl_refs c = 1" "told c = told (sw_user s1)" "cl_state c = cl_state (sw_user s1)" for c
    using b that by (auto simp: begun_def idle_def kept_def Let_def)
  have q: "begun ce t ?s" "\<And>n. begun ce t (put_call (?c\<lparr>cl_linenum := n\<rparr>) ?s)"
    using p [of ?c] p [of "?c\<lparr>cl_linenum := n\<rparr>" for n] b by (simp_all add: begun_def told_def)
  show "gives (case assign_linenum calls of
       (err, None) \<Rightarrow> call_deref e ?s \<bind> (\<lambda>s. Some (err, s))
     | (err, Some num) \<Rightarrow> Some (OK, put_call ((sw_user ?s)\<lparr>cl_linenum := num\<rparr>) ?s)) ?Q"
    unfolding put_call_simps(4) by (rule assign_cases, rule d [OF q(1)], simp, rule gives_Some) (use q(2) in simp)
qed

text \<open>The result of starting a call: after an error the call is still to be freed.\<close>

abbreviation (input) started :: "senv \<Rightarrow> cenv \<Rightarrow> bool \<Rightarrow> errno \<times> csw \<Rightarrow> bool" where
  "started e ce t \<equiv> (\<lambda>(err, s). run_ok e ce t s \<and> (err \<noteq> 0 \<longrightarrow> cl_refs (sw_user s) = 1))"

lemma begun_started: "begun ce t s \<Longrightarrow> started e ce t (err, s)"
  using begun_run by (simp add: begun_def)

lemma begun_streams: "begun ce t s \<Longrightarrow> call_streams_alloc ce' s = (err, s') \<Longrightarrow> begun ce t s'"
  by (erule begun_mine)
     (auto simp: mine_streams [OF mine_refl], auto simp: call_streams_alloc_def media_def Let_def split: if_splits)

lemma begun_mdir: "begun ce t s \<Longrightarrow> begun ce t (call_set_mdir ce' x v s)"
  by (erule begun_mine) (simp_all add: mine call_set_mdir_def Let_def)

lemma connect_started:
  assumes b: "begun ce t s"
  shows "gives (call_connect e ce s) (started e ce t)"
proof (unfold call_connect_def Let_def, rule the_call_kp, intro gives_prod gives_if)
  fix err s1 err2 s2
  assume m: "media ce (put_call ((sw_user s)\<lparr>cl_outgoing := True\<rparr>) s) = (err, s1)"
  have s1: "begun ce t s1" by (rule begun_media [OF begun_put [OF b] m]) simp
  then show "gives (Some (err, s1)) (started e ce t)" by (intro gives_Some begun_started)
  assume m2: "media ce s1 = (err2, s2)"
  have s2: "begun ce t s2" by (rule begun_media [OF s1 m2])
  then show "gives (Some (err2, s2)) (started e ce t)" by (intro gives_Some begun_started)
  define s3 where "s3 = set_state CALL_STATE_OUTGOING s2"
  have s3: "begun ce t s3" using s2 by (auto simp: s3_def set_state_def begun_def idle_def kept_def told_def Let_def)
  show "gives (call_event e ce CALL_EVENT_OUTGOING (set_state CALL_STATE_OUTGOING s2) \<bind> (\<lambda>s'.
       if \<not> ce_mnat ce then send_invite e ce s'
       else case call_streams_alloc ce s' of (err, s') \<Rightarrow>
              Some (err, if err = 0 then call_set_mdir ce (cl_estadir (sw_user s)) (cl_estvdir (sw_user s)) s' else s'))) (started e ce t)"
  proof (rule gives_bindI, fold s3_def, intro gives_if gives_prod gives_Some)
    fix s4
    assume v: "call_event e ce CALL_EVENT_OUTGOING s3 = Some s4"
    have "mine s3 s4" using givesD [OF event_mine v] by simp
    moreover have "core (sw_user s4) = core (sw_user s3)"
      using v by (auto simp: call_event_def ua_call_event_def the_call_def log_call_def core_def told_def split: if_splits)
    ultimately have s4: "begun ce t s4" "cl_state (sw_user s4) = CALL_STATE_OUTGOING"
      using begun_mine [OF s3] by (simp_all add: s3_def core_def set_state_def)
    show "gives (send_invite e ce s4) (started e ce t)" if "\<not> ce_mnat ce"
      by (rule send_invite_run [OF s4(1)]) (use s4(2) that in simp_all)
    fix err s5
    assume "call_streams_alloc ce s4 = (err, s5)"
    then have s5: "begun ce t s5" by (rule begun_streams [OF s4(1)])
    then show "started e ce t (err, if err = 0 then call_set_mdir ce (cl_estadir (sw_user s)) (cl_estvdir (sw_user s)) s5 else s5)"
      using begun_mdir [OF s5] by (intro begun_started) simp
  qed
qed

lemma run_outgoing: "gives (ua_connect_call e ce use_video adir vdir calls now) (\<lambda>(err, s). run_ok e ce False s)"
proof (unfold ua_connect_call_def Let_def, rule gives_pairI, rule gives_if)
  fix err s
  assume v: "call_alloc e ce (None, None, None, None) use_video None calls now = Some (err, s)"
  note a = givesD [OF alloc_run v, of False, simplified]
  show "gives (Some (err, s)) (\<lambda>(err, s). run_ok e ce False s)" if "err \<noteq> 0" using a that by (simp add: gives_Some)
  assume "\<not> err \<noteq> 0"
  then have b: "begun ce False s" using a by simp
  let ?s = "if adir \<noteq> SDP_SENDRECV \<or> vdir \<noteq> SDP_SENDRECV then call_set_media_direction ce adir vdir s else s"
  have "begun ce False ?s"
    using b begun_mdir [OF begun_put [OF b]] by (simp add: call_set_media_direction_def call_set_media_estdir_def)
  from connect_started [OF this, of e]
  show "gives (call_connect e ce ?s \<bind> (\<lambda>(err, s). if err \<noteq> 0 then call_deref e s \<bind> (\<lambda>s. Some (err, s)) else Some (OK, s)))
      (\<lambda>(err, s). run_ok e ce False s)"
    using deref_run by (fastforce simp: gives_def bind_eq_Some_conv split: if_splits)
qed

text \<open>An incoming call is not outgoing before it has a state of its own.\<close>

definition away :: "csw \<Rightarrow> bool" where
  "away s \<longleftrightarrow> \<not> sw_held s \<and> cl_state (sw_user s) \<noteq> CALL_STATE_OUTGOING"

lemma away_autoanswer: "away s \<Longrightarrow> gives (call_rfc5373_autoanswer e ce h s) away"
  by (auto simp: gives_def away_def call_rfc5373_autoanswer_def call_hangup_def the_call_def on_sess_def Let_def call_stream_stop_def
      log_call_def set_state_def split: if_splits option.splits)

lemma away_decode: "away s \<Longrightarrow> gives (call_decode_sip_autoanswer e ce ci ai m p s) away"
  unfolding call_decode_sip_autoanswer_def Let_def
  by (rule the_call_kp, intro gives_option gives_Some gives_bind gives_conseq [OF away_autoanswer] away_autoanswer) (simp_all add: away_def)

lemma away_alloc:
  assumes v: "call_alloc e ce auto use_video m calls now = Some (OK, s)"
  shows "away s"
proof -
  obtain ci ai md p where auto: "auto = (ci, ai, md, p)" by (cases auto)
  obtain s1 where d: "call_decode_sip_autoanswer e ce ci ai md p (no_sess init_call now) = Some s1"
    using v unfolding call_alloc_def auto by (auto simp: bind_eq_Some_conv)
  obtain err s2 where "media ce s1 = (err, s2)" by force
  note s1 = d this
  have "away s1" using givesD [OF away_decode s1(1)] by (simp add: away_def no_sess_def init_call_def)
  moreover have "err = 0" using v s1 unfolding call_alloc_def auto by (auto simp: bind_eq_Some_conv split: if_splits)
  ultimately show ?thesis
    using v s1 unfolding call_alloc_def auto
    by (auto simp: Let_def assign_linenum_def bind_eq_Some_conv away_def media_def split: option.splits)
qed

lemma run_apis: "run_ok e ce t s \<Longrightarrow> api e s s' \<Longrightarrow> (\<And>b. kept ce b t s \<Longrightarrow> kept ce b t s') \<Longrightarrow> run_ok e ce t s'"
  by (erule run_op) (auto intro: end_api)

text \<open>The session of an incoming call was accepted.\<close>

lemma incoming_core [simp]: "core (incoming_call ce now c) = core c"
  by (simp add: incoming_call_def Let_def)

lemma accepted_started:
  assumes s1: "run_ok e ce t s1" "sw_held s1" "\<not> announced (sw_log s1)" "cl_refs (sw_user s1) = 1"
  shows "gives (call_accepted e ce s1) (started e ce t)"
proof (unfold call_accepted_def Let_def, rule gives_prod, rule gives_if)
  fix err s2
  assume m: "media ce s1 = (err, s2)"
  have s2: "run_ok e ce t s2" "sw_held s2" "\<not> announced (sw_log s2)" "cl_refs (sw_user s2) = 1"
    using run_media [OF s1(1) m] s1 m by (auto simp: media_def)
  show "gives (Some (err, s2)) (started e ce t)" using s2 by (simp add: gives_Some)
  let ?s = "set_state CALL_STATE_INCOMING s2"
  have s: "run_ok e ce t ?s" "sw_held ?s"
    using s2 by (auto intro!: run_mine [OF s2(1)] simp: mine kept_def Let_def set_state_def told_def)
  show "gives (do {
      s \<leftarrow> sipsess_set_prack_handler ?s;
      s \<leftarrow> (if \<not> ce_mnat ce then call_event e ce CALL_EVENT_INCOMING (put_call (incoming_call ce (sw_now s) (sw_user s)) s)
            else Some (put_call (incoming_call ce (sw_now s) (sw_user s)) s));
      Some (OK, s) }) (started e ce t)"
  proof (rule gives_bindI, rule gives_bindI, rule gives_Some)
    fix s3 s4
    let ?s3 = "put_call (incoming_call ce (sw_now s3) (sw_user s3)) s3"
    assume p: "sipsess_set_prack_handler ?s = Some s3"
      and v: "(if \<not> ce_mnat ce then call_event e ce CALL_EVENT_INCOMING ?s3 else Some ?s3) = Some s4"
    have s3: "run_ok e ce t s3"
      by (rule run_apis [OF s(1) api_prack [OF s(2) p]]) (rule givesD [OF kept.sipsess_set_prack_handler_kp p])
    have "run_ok e ce t ?s3" by (rule run_put [OF s3]) simp
    then have "run_ok e ce t s4" using v givesD [OF run_event] by (auto split: if_splits)
    then show "started e ce t (OK, s4)" by simp
  qed
qed

lemma begun_log: "begun ce t s \<Longrightarrow> x \<noteq> Cl_ua UA_EVENT_CALL_CLOSED \<Longrightarrow> begun ce t (log_call x s)"
  by (erule begun_mine) (simp_all add: mine log_call_def core_def told_def)

lemma accept_started:
  assumes b: "begun ce t s" and w: "away s"
  shows "gives (call_accept e ce m s) (started e ce t)"
proof (unfold call_accept_def Let_def, rule the_call_kp, rule gives_prod, rule gives_if)
  fix err s1
  assume a1: "call_streams_alloc ce (put_call ((sw_user s)\<lparr>cl_outgoing := False\<rparr>) s) = (err, s1)"
  have s1: "begun ce t s1" by (rule begun_streams [OF begun_put [OF b] a1]) simp
  have w1: "away s1" using w a1 by (auto simp: away_def call_streams_alloc_def media_def Let_def split: if_splits)
  show "gives (Some (err, s1)) (started e ce t)" by (rule gives_Some) (rule begun_started [OF s1])
  show "gives (case if cl_got_offer (sw_user s) then media ce s1 else (OK, s1) of (err, s1) \<Rightarrow>
       if err \<noteq> 0 then Some (err, s1)
       else if cl_got_offer (sw_user s) \<and> \<not> ce_compatible ce m then do {
         s \<leftarrow> call_event e ce CALL_EVENT_CLOSED (sip_reply e 488 s1);
         Some (OK, s) }
       else do {
         s \<leftarrow> (case ce_replaces ce m of None \<Rightarrow> Some s1 | Some found \<Rightarrow> if found then Some (log_call Cl_replaced s1) else None);
         (err, s) \<leftarrow> sipsess_accept e (ce_auth_err ce) (ce_dlg_err ce) (ce_st_err ce) 180 (ce_rel100 ce) None
           (if ce_refer ce then H_user else H_null) m (sw_user s) (sw_now s);
         if err \<noteq> 0 then Some (err, s) else call_accepted e ce s }) (started e ce t)"
  proof (rule gives_prod, rule gives_if, goal_cases)
    case (1 err2 s2)
    then have "begun ce t s2" using s1 begun_media [OF s1] by (auto split: if_splits)
    then show ?case by (intro gives_Some begun_started)
  next
    case (2 err2 s2)
    then have s2: "begun ce t s2" using s1 begun_media [OF s1] by (auto split: if_splits)
    have w2: "away s2" using 2(1) w1 by (auto simp: away_def media_def split: if_splits)
    show ?case
    proof (rule gives_if)
      have "gives (call_event e ce CALL_EVENT_CLOSED (sip_reply e 488 s2)) (run_ok e ce t)"
        by (rule run_event [OF begun_run [OF begun_reply [OF s2]]])
      then show "gives (do { s \<leftarrow> call_event e ce CALL_EVENT_CLOSED (sip_reply e 488 s2); Some (OK, s) }) (started e ce t)"
        by (auto simp: gives_def bind_eq_Some_conv)
      show "gives (do {
         s \<leftarrow> (case ce_replaces ce m of None \<Rightarrow> Some s2 | Some found \<Rightarrow> if found then Some (log_call Cl_replaced s2) else None);
         (err, s) \<leftarrow> sipsess_accept e (ce_auth_err ce) (ce_dlg_err ce) (ce_st_err ce) 180 (ce_rel100 ce) None
           (if ce_refer ce then H_user else H_null) m (sw_user s) (sw_now s);
         if err \<noteq> 0 then Some (err, s) else call_accepted e ce s }) (started e ce t)"
      proof (rule gives_bindI, rule gives_pairI, rule gives_if)
        fix s3 err4 s4
        assume s3: "(case ce_replaces ce m of None \<Rightarrow> Some s2 | Some found \<Rightarrow> if found then Some (log_call Cl_replaced s2) else None) = Some s3"
          and v: "sipsess_accept e (ce_auth_err ce) (ce_dlg_err ce) (ce_st_err ce) 180 (ce_rel100 ce) None
            (if ce_refer ce then H_user else H_null) m (sw_user s3) (sw_now s3) = Some (err4, s4)"
        have b3: "begun ce t s3" "away s3"
          using s3 s2 w2 begun_log [OF s2, of Cl_replaced] by (auto simp: away_def log_call_def split: option.splits if_splits)
        note r = accept_result [OF v, of "call_user e ce"]
        have c: "cl_refs (sw_user s4) = 1" "kept ce False t s4"
          using r b3 by (auto simp: begun_def kept_def Let_def)
        show "gives (Some (err4, s4)) (started e ce t)" if "err4 \<noteq> 0"
          using that r c by (simp add: gives_Some run_ok_def)
        assume "\<not> err4 \<noteq> 0"
        then have "run_ok e ce t s4" "sw_held s4" "\<not> announced (sw_log s4)"
          using r c b3 by (auto simp: run_ok_def kept_def Let_def away_def)
        then show "gives (call_accepted e ce s4) (started e ce t)" using c(1) by (rule accepted_started)
      qed
    qed
  qed
qed

lemma run_incoming: "gives (sipsess_conn_handler e ce found dnd max_calls bad_ext auto use_video m calls now) (run_ok e ce False)"
proof -
  let ?n = "no_sess (init_call\<lparr>cl_refs := 0\<rparr>) now"
  have n: "run_ok e ce False (sip_reply e c ?n)" for c
    by (rule run_reply) (simp add: run_ok_def idle_def no_sess_def init_call_def kept_def told_def Let_def)
  show ?thesis
    unfolding sipsess_conn_handler_def Let_def
  proof (intro gives_if gives_Some n, rule gives_pairI, rule gives_if)
    fix err s
    assume v: "call_alloc e ce auto use_video (Some m) calls now = Some (err, s)"
    note a = givesD [OF alloc_run v, of False, simplified]
    show "gives (Some (sip_reply e 500 s)) (run_ok e ce False)" if "err \<noteq> 0"
      using a that by (intro gives_Some run_reply) simp
    assume "\<not> err \<noteq> 0"
    then have "begun ce False s" "away s" using a away_alloc v by auto
    then have "gives (call_accept e ce m s) (started e ce False)" by (rule accept_started)
    then show "gives (call_accept e ce m s \<bind> (\<lambda>(err, s). if err \<noteq> 0 then call_deref e s \<bind> (\<lambda>s. Some (sip_reply e 500 s)) else Some s))
        (run_ok e ce False)"
      using deref_run run_reply by (fastforce simp: gives_def bind_eq_Some_conv split: if_splits)
  qed
qed

subsection \<open>Every step\<close>

lemma run_tmr:
  assumes "run_ok e ce t s" "core c = core (sw_user s)" "\<And>s. run_ok e ce t s \<Longrightarrow> gives (m s) (run_ok e ce t)" "m (put_call c s) = Some s'"
  shows "run_ok e ce t s'"
  using givesD [OF assms(3) [OF run_put [OF assms(1,2)]] assms(4)] .

lemma run_opD: "run_ok e ce t s \<Longrightarrow> gives m (ends e s) \<Longrightarrow> (\<And>b. kept ce b t s \<Longrightarrow> gives m (kept ce b t)) \<Longrightarrow> m = Some s' \<Longrightarrow> run_ok e ce t s'"
  using run_op_gives [of e ce t s m] by (simp add: gives_def)

lemma run_apisD:
  "run_ok e ce t s \<Longrightarrow> gives m (\<lambda>(err, s'). apis e s s') \<Longrightarrow> (\<And>b. kept ce b t s \<Longrightarrow> gives m (\<lambda>(err, s). kept ce b t s)) \<Longrightarrow>
     m = Some (err, s') \<Longrightarrow> run_ok e ce t s'"
  using run_apis_gives [of e ce t s m] by (simp add: gives_def)

lemma dtmfend_mine: "gives (dtmfend_handler s) (mine s)"
  unfolding dtmfend_handler_def by (rule gives_bindI, rule gives_Some) (simp add: mine)

lemma answtmr_mine: "gives (call_start_answtmr ms s) (mine s)"
  unfolding call_start_answtmr_def by (rule gives_bindI, rule gives_Some) (simp add: mine)

lemma transfer_mine: "gives (call_transfer ce s) (\<lambda>(err, s'). mine s s')"
  by (auto simp: gives_def call_transfer_def bind_eq_Some_conv media_def Let_def mine split: if_splits)

lemma delayed_answer_apis: "gives (delayed_answer_handler e ce s) (apis e s)"
  unfolding delayed_answer_handler_def
  by (rule gives_bindI, intro gives_if gives_pairI gives_Some)
     (use call_answer_apis [of e ce 200 True s] in \<open>auto simp: gives_def intro: mine_api mine\<close>)

lemma established_mdir_apis: "gives (set_established_mdir e ce s) (apis e s)"
proof (unfold set_established_mdir_def, rule gives_bindI, intro gives_if gives_pairI gives_Some)
  fix c err t
  let ?s = "call_set_mdir ce (cl_estadir c) (cl_estvdir c) s"
  assume "call_modify e ce ?s = Some (err, t)"
  then have "apis e ?s t" using call_modify_apis [of e ce ?s] by (simp add: gives_def)
  then show "apis e s t" by (rule rtranclp_trans [OF mine_api, rotated]) (simp add: mine)
qed simp

lemma mine_ends_gives: "gives m (mine s) \<Longrightarrow> gives m (ends e s)"
  by (erule gives_conseq) (rule mine_ends)

lemma apis_ends_gives: "gives m (apis e s) \<Longrightarrow> gives m (ends e s)"
  by (erule gives_conseq) (rule apis_ends)

lemma event_ends_mine: "mine s t \<Longrightarrow> kept ce b w t \<Longrightarrow> gives (call_event e ce' ev t) (ends e s)"
  by (rule ends_step [OF mine_ends event_ends])

lemma error_ends:
  assumes k: "kept ce b t s"
  shows "gives (stream_error_handler e ce' s) (ends e s)" "gives (audio_error_handler e ce' err s) (ends e s)"
    "gives (video_error_handler e ce' s) (ends e s)"
  unfolding stream_error_handler_def audio_error_handler_def video_error_handler_def
  by (rule the_call_kp, (rule gives_if gives_Some event_ends_mine kept_state kept_core kp k mine_ends | (simp add: mine; fail))+)+

lemma transfer_handler_ends:
  assumes k: "kept ce b t s"
  shows "gives (sipsub_notify_handler e ce' sc s) (ends e s)" "gives (sipsub_close_handler e ce' err c s) (ends e s)"
    "gives (sipnot_close_handler e ce' err c s) (ends e s)"
proof -
  show "gives (sipsub_notify_handler e ce' sc s) (ends e s)"
    unfolding sipsub_notify_handler_def Let_def
    by (rule the_call_kp, intro gives_option gives_if gives_Some reply_ends ends_step [OF reply_ends event_ends [OF kept.sip_reply_kp [OF k]]])
  show "gives (sipsub_close_handler e ce' err c s) (ends e s)" "gives (sipnot_close_handler e ce' err c s) (ends e s)"
    unfolding sipsub_close_handler_def sipnot_close_handler_def Let_def
    by (rule the_call_kp, (rule gives_if gives_Some event_ends_mine kept_core k mine_ends | (simp add: mine; fail))+)+
qed

lemma run_step:
  assumes "call_step e ce s s'" and r: "run_ok e ce t s"
  shows "run_ok e ce t s'"
  using assms(1)
proof cases
  case call_session
  then show ?thesis by (rule run_session [OF r])
next
  case call_hung_up
  then show ?thesis by (rule givesD [OF run_hangup [OF r]])
next
  case call_modified
  show ?thesis by (rule run_apisD [OF r call_modify_apis call_modify_kept call_modified])
next
  case call_held
  show ?thesis by (rule run_apisD [OF r call_hold_apis call_hold_kept call_held])
next
  case call_video
  show ?thesis by (rule run_apisD [OF r call_set_video_dir_apis call_set_video_dir_kept call_video])
next
  case call_progressed
  show ?thesis by (rule run_apisD [OF r call_progress_apis call_progress_kept call_progressed])
next
  case call_answered
  show ?thesis by (rule run_apisD [OF r call_answer_apis call_answer_kept call_answered])
next
  case call_dialled
  show ?thesis by (rule run_apisD [OF r call_digit_apis call_digit_kept call_dialled])
next
  case call_answtmr
  show ?thesis by (rule run_opD [OF r mine_ends_gives [OF answtmr_mine] call_start_answtmr_kept call_answtmr])
next
  case (call_transferred err)
  then have "mine s s'" using transfer_mine [of ce s] by (simp add: gives_def)
  then show ?thesis using givesD [OF call_transfer_kept call_transferred] by (auto intro: run_mine [OF r])
next
  case (call_tmr_inv x)
  show ?thesis by (rule run_tmr [where m = "invite_timeout e ce", OF r _ _ call_tmr_inv(3)]) (simp_all add: invite_timeout_def run_event)
next
  case (call_tmr_dtmf x)
  show ?thesis
    by (rule run_tmr [where m = "dtmfend_handler", OF r _ _ call_tmr_dtmf(3)], simp) (rule run_op_gives [OF _ mine_ends_gives [OF dtmfend_mine] dtmfend_handler_kept])
next
  case (call_tmr_answ x)
  show ?thesis
    by (rule run_tmr [where m = "delayed_answer_handler e ce", OF r _ _ call_tmr_answ(3)], simp)
       (rule run_op_gives [OF _ apis_ends_gives [OF delayed_answer_apis] delayed_answer_handler_kept])
next
  case (call_tmr_reinv x)
  show ?thesis
    by (rule run_tmr [where m = "set_established_mdir e ce", OF r _ _ call_tmr_reinv(3)], simp)
       (rule run_op_gives [OF _ apis_ends_gives [OF established_mdir_apis] set_established_mdir_kept])
next
  case call_stream_error
  show ?thesis by (rule run_opD [OF r error_ends(1) [OF run_kept [OF r]] stream_error_handler_kept call_stream_error])
next
  case call_audio_error
  show ?thesis by (rule run_opD [OF r error_ends(2) [OF run_kept [OF r]] audio_error_handler_kept call_audio_error])
next
  case call_video_error
  show ?thesis by (rule run_opD [OF r error_ends(3) [OF run_kept [OF r]] video_error_handler_kept call_video_error])
next
  case call_mnat
  show ?thesis by (rule givesD [OF run_mnat [OF r call_mnat(1)] call_mnat(2)])
next
  case call_sub_notify
  show ?thesis by (rule run_opD [OF r transfer_handler_ends(1) [OF run_kept [OF r]] sipsub_notify_handler_kept call_sub_notify(2)])
next
  case call_sub_close
  show ?thesis by (rule run_opD [OF r transfer_handler_ends(2) [OF run_kept [OF r]] sipsub_close_handler_kept call_sub_close(2)])
next
  case call_not_close
  show ?thesis by (rule run_opD [OF r transfer_handler_ends(3) [OF run_kept [OF r]] sipnot_close_handler_kept call_not_close(2)])
qed

lemma reach_run: "call_reach e ce s \<Longrightarrow> run_ok e ce False s"
proof (induction rule: call_reach.induct)
  case reach_incoming
  then show ?case by (rule givesD [OF run_incoming])
next
  case reach_outgoing
  then show ?case using run_outgoing by (fastforce simp: gives_def)
qed (rule run_step)

section \<open>What a run of a call promises\<close>

lemma run_orderly: "run_ok e ce t s \<Longrightarrow> orderly (sw_log s)"
  using call.reach_orderly by (auto simp: run_ok_def idle_def)

end
