(* ===== verification/Sipsess_Quiet.thy ===== *)
theory Sipsess_Quiet
  imports Sipsess_Keep
begin

text \<open>
  A session that its user has left: its handlers are gone (\<open>silent\<close>), and every response, request of the peer and expiry
  of a reply is dealt with without them.  The lemmas hold for any record of handlers \<open>u\<close>, also for one whose handlers are
  undefined: the result is defined (\<open>leaves\<close>) and the state of the user is as before.
\<close>

text \<open>The result is defined and the user as before.\<close>

definition leaves :: "'u \<Rightarrow> 'u sw option \<Rightarrow> bool" where
  "leaves c m \<longleftrightarrow> (\<exists>s'. m = Some s' \<and> sw_user s' = c)"

text \<open>A terminated session without other requests under way.\<close>

definition quiet :: "'u sw \<Rightarrow> bool" where
  "quiet s \<longleftrightarrow> (\<exists>se. sw_sess s = Some se \<and> se_terminated se \<noteq> 0 \<and> silent se \<and> se_requestl se = [])"

lemma leaves_Some [simp]: "leaves c (Some s) \<longleftrightarrow> sw_user s = c" "\<not> leaves c None"
  by (simp_all add: leaves_def)

lemma quiet_simps [simp]:
  "quiet (say x s) = quiet s" "quiet (s\<lparr>sw_next := n\<rparr>) = quiet s"
  "quiet (put_sess se s) \<longleftrightarrow> se_terminated se \<noteq> 0 \<and> silent se \<and> se_requestl se = []"
  by (auto simp: quiet_def)

lemma silent_upd [simp]:
  "silent (se\<lparr>se_ls := x1\<rparr>) = silent se" "silent (se\<lparr>se_neg_state := x2\<rparr>) = silent se" "silent (se\<lparr>se_dlg_est := x3\<rparr>) = silent se"
  "silent (se\<lparr>se_dlg_rseq := x4\<rparr>) = silent se" "silent (se\<lparr>se_established := x5\<rparr>) = silent se" "silent (se\<lparr>se_replyl := x6\<rparr>) = silent se"
  "silent (se\<lparr>se_req := x7\<rparr>) = silent se" "silent (se\<lparr>se_peerterm := x8\<rparr>) = silent se" "silent (se\<lparr>se_desc := x9\<rparr>) = silent se"
  by (simp_all add: silent_def)

lemma deref_leaves: "quiet s \<Longrightarrow> leaves (sw_user s) (deref_sess e s)"
  by (auto simp: quiet_def deref_sess_def destructor_sess_def terminate_sess_def sipsess_bye_def drequest_def sess_free_def Let_def
      split: option.splits dreq_res.splits)

lemma invite_out_leaves: "quiet s \<Longrightarrow> leaves (sw_user s) (invite_out e u err msg s)"
  using deref_leaves [of s e] by (auto simp: quiet_def invite_out_def)

lemma reinvite_out_leaves: "quiet s \<Longrightarrow> leaves (sw_user s) (reinvite_out e u err s)"
  using deref_leaves [of s e] by (auto simp: quiet_def reinvite_out_def)

lemma out_leaves:
  "quiet s \<Longrightarrow> sw_user s = c \<Longrightarrow> leaves c (invite_out e u err msg s)"
  "quiet s \<Longrightarrow> sw_user s = c \<Longrightarrow> leaves c (reinvite_out e u err s)"
  "quiet s \<Longrightarrow> sw_user s = c \<Longrightarrow> leaves c (deref_sess e s)"
  using invite_out_leaves reinvite_out_leaves deref_leaves by auto

lemma silent_handlers:
  "silent se \<Longrightarrow> se_answerh se \<noteq> H_user \<and> se_offerh se \<noteq> H_user \<and> se_progrh se \<noteq> H_user \<and> se_desch se \<noteq> H_user \<and> \<not> se_st se \<and> se_tmr se = None"
  by (simp add: silent_def)

section \<open>Responses\<close>

lemma rel100_leaves: "quiet s \<Longrightarrow> sw_user s = c \<Longrightarrow> leaves c (invite_rel100 e u m s)"
  by (auto simp: quiet_def invite_rel100_def sess_offerh_def sipsess_prack_def Let_def silent_handlers intro!: out_leaves)

lemma progress_leaves: "quiet s \<Longrightarrow> sw_user s = c \<Longrightarrow> leaves c (invite_progress e u m s)"
  by (auto simp: quiet_def invite_progress_def sess_progrh_def sess_answerh_def dialog_response_def Let_def silent_handlers
      intro!: out_leaves rel100_leaves)

lemma success_leaves: "quiet s \<Longrightarrow> sw_user s = c \<Longrightarrow> leaves c (invite_success e u m s)"
  by (auto simp: quiet_def invite_success_def invite_established_def sess_offerh_def sess_answerh_def dialog_response_def sipsess_ack_def
      Let_def silent_handlers intro!: out_leaves)

lemma refused_leaves:
  "quiet s \<Longrightarrow> sw_user s = c \<Longrightarrow> leaves c (invite_redirect e u m s)"
  "quiet s \<Longrightarrow> sw_user s = c \<Longrightarrow> leaves c (invite_failure e u m s)"
  by (auto simp: quiet_def invite_redirect_def invite_failure_def intro!: out_leaves)

lemma loops_leave:
  assumes "quiet s" and "\<And>l t. quiet t \<Longrightarrow> sw_user t = sw_user s \<Longrightarrow> leaves (sw_user s) (f l t)"
  shows "leaves (sw_user s) (do { (l, s) \<leftarrow> response_loops m s; f l s })"
  using assms by (auto simp: quiet_def response_loops_def case_prod_unfold Let_def)

lemma invite_resp_leaves: "quiet s \<Longrightarrow> leaves (sw_user s) (invite_resp_handler e u err msg s)"
  by (auto simp: invite_resp_handler_def split: option.splits
      intro!: loops_leave out_leaves progress_leaves success_leaves refused_leaves)

lemma reinvite_success_leaves: "quiet s \<Longrightarrow> sw_user s = c \<Longrightarrow> leaves c (reinvite_success e u m s)"
  by (auto simp: quiet_def reinvite_success_def sess_offerh_def sess_answerh_def sipsess_ack_def Let_def silent_handlers intro!: out_leaves)

lemma reinvite_failure_leaves: "quiet s \<Longrightarrow> sw_user s = c \<Longrightarrow> leaves c (reinvite_failure e u m s)"
  by (auto simp: quiet_def reinvite_failure_def Let_def intro!: out_leaves)

lemma reinvite_resp_leaves: "quiet s \<Longrightarrow> leaves (sw_user s) (reinvite_resp_handler e u err msg s)"
  by (auto simp: reinvite_resp_handler_def split: option.splits
      intro!: loops_leave out_leaves reinvite_success_leaves reinvite_failure_leaves)

lemma bye_again_leaves:
  "quiet s \<Longrightarrow> sw_user s = c \<Longrightarrow> leaves c (do { (err, s) \<leftarrow> sipsess_bye e False s; if err \<noteq> 0 then deref_sess e s else Some s })"
  by (auto simp: quiet_def sipsess_bye_def drequest_def Let_def split: dreq_res.splits intro!: out_leaves)

lemma leaves_SomeI: "sw_user s = c \<Longrightarrow> leaves c (Some s)"
  by simp

lemma leaves_if: "(b \<Longrightarrow> leaves c m) \<Longrightarrow> (\<not> b \<Longrightarrow> leaves c n) \<Longrightarrow> leaves c (if b then m else n)"
  by simp

lemma leaves_sess: "quiet s \<Longrightarrow> (\<And>se. sw_sess s = Some se \<Longrightarrow> leaves c (f se)) \<Longrightarrow> leaves c (do { se \<leftarrow> sw_sess s; f se })"
  by (auto simp: quiet_def)

lemma bye_resp_leaves: "quiet s \<Longrightarrow> msg \<noteq> None \<or> err \<noteq> 0 \<Longrightarrow> leaves (sw_user s) (bye_resp_handler e err msg s)"
  by (cases "err = 0"; cases msg)
    (simp_all add: bye_resp_handler_def out_leaves,
      (rule loops_leave leaves_if leaves_sess bye_again_leaves out_leaves leaves_SomeI | assumption)+)

lemma response_leaves:
  assumes "quiet s" "sw_sess s = Some se" "se_req se \<noteq> None" "msg \<noteq> None \<or> err \<noteq> 0"
  shows "leaves (sw_user s) (sess_response e u err msg s)"
proof -
  have "leaves (sw_user t) (resp_handler e u k err msg t)" if "quiet t" for t k
    using that assms(4) by (cases k) (auto simp: resp_handler_def intro: invite_resp_leaves reinvite_resp_leaves bye_resp_leaves)
  note l = this [of "put_sess (se\<lparr>se_req := q\<rparr>) s" for q] this [of "say x (put_sess (se\<lparr>se_req := q\<rparr>) s)" for x q]
  obtain k req where k: "se_req se = Some (k, req)" using assms(3) by force
  then show ?thesis using assms(1,2) l by (auto simp: sess_response_def quiet_def case_prod_unfold Let_def)
qed

section \<open>Requests of the peer and timers\<close>

lemma ack_leaves: "quiet s \<Longrightarrow> leaves (sw_user s) (sess_ack_handler e u m s)"
  by (auto simp: quiet_def sess_ack_handler_def sipsess_find_def sipsess_reply_ack_def Let_def split: option.splits intro!: out_leaves)

lemma prack_leaves: "quiet s \<Longrightarrow> leaves (sw_user s) (prack_handler e u m s)"
  by (auto simp: quiet_def prack_handler_def sipsess_find_def sipsess_reply_prack_def sip_reply_def free_reply_def Let_def
      split: option.splits intro!: out_leaves)

lemma refused_requests_leave:
  "quiet s \<Longrightarrow> leaves (sw_user s) (target_refresh_handler e u m s)"
  "quiet s \<Longrightarrow> leaves (sw_user s) (info_handler e u m s)"
  "quiet s \<Longrightarrow> leaves (sw_user s) (refer_handler e u m s)"
  by (auto simp: quiet_def target_refresh_handler_def info_handler_def refer_handler_def sipsess_find_def sip_reply_def free_reply_def Let_def)

lemma bye_leaves: "quiet s \<Longrightarrow> leaves (sw_user s) (bye_handler e u m s)"
  by (auto simp: quiet_def bye_handler_def sipsess_find_def sip_dialog_rseq_valid_def sip_reply_def free_reply_def Let_def)

lemma request_leaves: "quiet s \<Longrightarrow> leaves (sw_user s) (map_option snd (sess_request_handler e u m s))"
  by (simp add: sess_request_handler_def Let_def option.map_comp comp_def option.map_ident ack_leaves prack_leaves
      refused_requests_leave bye_leaves)

lemma send_leaves:
  "quiet s \<Longrightarrow> leaves (sw_user s) (map_option snd (send_handler_invite e u s))"
  by (auto simp: quiet_def send_handler_invite_def silent_handlers Let_def)

lemma reply_tmr_leaves:
  "quiet s \<Longrightarrow> sw_sess s = Some se \<Longrightarrow> r \<in> set (se_replyl se) \<Longrightarrow> leaves (sw_user s) (reply_tmr_handler e u r s)"
  by (auto simp: reply_tmr_handler_def)

end
