(* ===== verification/Call_Cases.thy ===== *)
theory Call_Cases
  imports Call_Runs Sipsess_Quiet "HOL-Library.Code_Target_Nat"
begin

text \<open>
  What follows for calls and sessions, and where the code falls short: calls that follow the contract to their end, calls
  that are broken off without a BYE, sessions that are never freed or freed twice, operations that report what they did not
  do.  The first section holds two concrete environments and messages, in which the examples are evaluated.
\<close>

section \<open>Examples\<close>

definition ok_env :: senv where
  "ok_env = \<lparr>ev_req = \<lambda>_. Dr_sent True, ev_rep = \<lambda>_. 0, ev_mem = \<lambda>_. Al_ok, ev_rnd = \<lambda>_. 7\<rparr>"

definition ok_cenv :: cenv where
  "ok_cenv =
     \<lparr>ce_err = \<lambda>_. 0, ce_len = \<lambda>_. 100, ce_mnat = False, ce_refer = True, ce_vidisp = True, ce_rel100 = REL100_DISABLED,
      ce_answermode = ANSWERMODE_MANUAL, ce_local_timeout = 0, ce_reinv_wait = 0, ce_dtmf_info = False, ce_blocked = False, ce_busy = False,
      ce_early_video = False, ce_media = \<lambda>_. False, ce_dtmf = \<lambda>_. None, ce_refer_to = \<lambda>_. True, ce_dirs = \<lambda>_. (False, False),
      ce_sup_replaces = \<lambda>_. False, ce_replaces = \<lambda>_. None, ce_compatible = \<lambda>_. True, ce_autoanswer = False, ce_sup_100rel = False,
      ce_auth_err = 0, ce_prep_err = 0, ce_dlg_err = 0, ce_st_err = 0\<rparr>"

definition a_msg :: "string \<Rightarrow> u16 \<Rightarrow> nat \<Rightarrow> sess_msg" where
  "a_msg met scode body =
     \<lparr>sm_met = met, sm_scode = scode, sm_cseq = 1, sm_body = body, sm_match = True, sm_to_tag = True, sm_contact = True, sm_dlg = 0,
      sm_redirect = 0, sm_req100rel = False, sm_sup100rel = False, sm_rel_seq = 0, sm_rack = (0, 0, ''''), sm_auth = 0, sm_retry_after = None\<rparr>"

text \<open>A call that is dialled, answered, hung up, and over when the BYE is answered.\<close>

definition dialled :: csw where
  "dialled = snd (the (ua_connect_call ok_env ok_cenv False SDP_SENDRECV SDP_SENDRECV [] 0))"

definition talking :: csw where
  "talking = the (sess_response ok_env (call_user ok_env ok_cenv) 0 (Some (a_msg ''INVITE'' 200 50)) dialled)"

definition hung_up :: csw where
  "hung_up = the (ua_hangup_call ok_env 0 talking)"

definition over :: csw where
  "over = the (sess_response ok_env (call_user ok_env ok_cenv) 0 (Some (a_msg ''BYE'' 200 0)) hung_up)"

text \<open>A call that is hung up before its INVITE is answered.\<close>

definition given_up :: csw where
  "given_up = the (ua_hangup_call ok_env 0 dialled)"

text \<open>A call that came in, was answered, and whose caller hangs up without having sent an ACK.\<close>

definition ringing :: csw where
  "ringing = the (sipsess_conn_handler ok_env ok_cenv True False False False (None, None, None, None) False (a_msg ''INVITE'' 0 50) [] 0)"

definition picked_up :: csw where
  "picked_up = snd (the (call_answer ok_env ok_cenv 200 False ringing))"

definition unacked :: csw where
  "unacked = snd (the (sess_request_handler ok_env (call_user ok_env ok_cenv) (a_msg ''BYE'' 0 0) picked_up))"

text \<open>A PRACK under way.\<close>

definition a_prack :: sess_request where
  "a_prack = \<lparr>rq_id = 5, rq_met = R_PRACK, rq_ls = \<lparr>ls_failc = 0, ls_last_scode = 0\<rparr>, rq_req = True, rq_tmr = None, rq_body = None\<rparr>"

lemma dialled_eq: "ua_connect_call ok_env ok_cenv False SDP_SENDRECV SDP_SENDRECV [] 0 = Some (OK, dialled)"
  by code_simp

lemma talking_eq: "sess_response ok_env (call_user ok_env ok_cenv) 0 (Some (a_msg ''INVITE'' 200 50)) dialled = Some talking"
  by code_simp

lemma hung_up_eq: "ua_hangup_call ok_env 0 talking = Some hung_up"
  by code_simp

lemma over_eq: "sess_response ok_env (call_user ok_env ok_cenv) 0 (Some (a_msg ''BYE'' 200 0)) hung_up = Some over"
  by code_simp

lemma given_up_eq: "ua_hangup_call ok_env 0 dialled = Some given_up"
  by code_simp

lemma ringing_eq:
  "sipsess_conn_handler ok_env ok_cenv True False False False (None, None, None, None) False (a_msg ''INVITE'' 0 50) [] 0 = Some ringing"
  by code_simp

lemma picked_up_eq: "call_answer ok_env ok_cenv 200 False ringing = Some (OK, picked_up)"
  by code_simp

lemma unacked_eq: "sess_request_handler ok_env (call_user ok_env ok_cenv) (a_msg ''BYE'' 0 0) picked_up = Some (True, unacked)"
  by code_simp

lemma dialled_reach: "call_reach ok_env ok_cenv dialled"
  by (rule reach_outgoing [OF dialled_eq])

lemma talking_reach: "call_reach ok_env ok_cenv talking"
  by (rule reach_call_step [OF dialled_reach call_session [OF step_response [OF _ talking_eq]]]) simp

lemma hung_up_reach: "call_reach ok_env ok_cenv hung_up"
  by (rule reach_call_step [OF talking_reach call_hung_up [OF hung_up_eq]])

lemma over_reach: "call_reach ok_env ok_cenv over"
  by (rule reach_call_step [OF hung_up_reach call_session [OF step_response [OF _ over_eq]]]) simp

lemma given_up_reach: "call_reach ok_env ok_cenv given_up"
  by (rule reach_call_step [OF dialled_reach call_hung_up [OF given_up_eq]])

lemma ringing_reach: "call_reach ok_env ok_cenv ringing"
  by (rule reach_incoming [OF ringing_eq])

lemma picked_up_reach: "call_reach ok_env ok_cenv picked_up"
  by (rule reach_call_step [OF ringing_reach call_answered [OF picked_up_eq]])

lemma unacked_reach: "call_reach ok_env ok_cenv unacked"
  by (rule reach_call_step [OF picked_up_reach call_session [OF step_request [OF unacked_eq]]])

section \<open>What a run of a call promises\<close>

text \<open>C7: In every run of a call, from the dialling or the INVITE on and with all its operations, requests, responses, timers and errors,
  its session calls no handler of the call after it was closed or released, so that it closes it at most once, and after it has
  reported that the call is established it reports neither that again nor any progress.\<close>

theorem call_orderly: "call_reach e ce s \<Longrightarrow> orderly (sw_log s)"
  by (rule run_orderly [OF reach_run])

theorem call_orderly_witness: "orderly (sw_log over)"
  by (rule call_orderly [OF over_reach])

text \<open>C8: An established call is not forgotten on the network: when its session is freed, a BYE was started for it (sending it
  may have failed) or the peer had ended it.\<close>

theorem call_bye:
  assumes "call_reach e ce s" "sw_sess s = None" "announced (sw_log s)"
  shows "excused (sw_log s)"
  using reach_run [OF assms(1)] call.reach_bye assms(2,3) by (auto simp: run_ok_def idle_def)

theorem call_bye_witness: "sw_sess over = None \<and> announced (sw_log over) \<and> excused (sw_log over)"
proof -
  have "sw_sess over = None" "announced (sw_log over)" by code_simp+
  then show ?thesis using call_bye [OF over_reach] by simp
qed

text \<open>C9: A freed call has given its session back, and no event of the session touches the call: none that is defined (response, request of
  the peer, timer) changes it, and the session has none of the call's handlers left and is itself their argument.  So when no other
  request of the session is under way, every response to its request, every request of the peer and every expiry of a reply is
  defined and leaves the call as it is whatever handlers one puts in the place of the call's, also undefined ones.\<close>

theorem freed_call_untouched:
  assumes "call_reach e ce s" "cl_refs (sw_user s) = 0"
  shows "\<not> sw_held s \<and> (\<forall>s'. ss_event e (call_user e ce) s s' \<longrightarrow> sw_user s' = sw_user s) \<and>
    (\<forall>se. sw_sess s = Some se \<longrightarrow> silent se \<and> (se_requestl se = [] \<longrightarrow>
       (\<forall>e' u msg err. (se_req se \<noteq> None \<and> (msg \<noteq> None \<or> err \<noteq> 0) \<longrightarrow> leaves (sw_user s) (sess_response e' u err msg s)) \<and>
          leaves (sw_user s) (map_option snd (send_handler_invite e' u s)) \<and>
          (\<forall>m. leaves (sw_user s) (map_option snd (sess_request_handler e' u m s))) \<and>
          (\<forall>r \<in> set (se_replyl se). leaves (sw_user s) (reply_tmr_handler e' u r s)))))"
proof -
  have r: "run_ok e ce False s" by (rule reach_run [OF assms(1)])
  then have h: "\<not> sw_held s" using assms(2) by (auto simp: run_ok_def kept_def Let_def)
  have v: "sw_user s' = sw_user s" if v: "ss_event e (call_user e ce) s s'" for s'
    using r h call.ended_untouched [OF _ _ v] idle_event [OF v] by (auto simp: run_ok_def kept_def Let_def)
  have q: "silent se \<and> se_terminated se \<noteq> 0" if se: "sw_sess s = Some se" for se
  proof -
    have "ss_reach e (call_user e ce) s" "ended (sw_log s)"
      using r h se by (auto simp: run_ok_def kept_def Let_def idle_def)
    with ss_inv_Some [OF call.reach_inv se] show ?thesis by (auto simp: sess_ok_def)
  qed
  have "quiet s" if "sw_sess s = Some se" "se_requestl se = []" for se using q that by (auto simp: quiet_def)
  then show ?thesis
    using h v q by (auto intro: response_leaves send_leaves request_leaves reply_tmr_leaves)
qed

theorem freed_call_untouched_witness:
  "\<exists>se. sw_sess hung_up = Some se \<and> silent se \<and> \<not> sw_held hung_up \<and> sw_user over = sw_user hung_up \<and>
     (\<forall>u. leaves (sw_user hung_up) (sess_response ok_env u 0 (Some (a_msg ''BYE'' 200 0)) hung_up))"
proof -
  obtain se where se: "sw_sess hung_up = Some se" "se_requestl se = []" "se_req se \<noteq> None"
  proof -
    have "case sw_sess hung_up of None \<Rightarrow> False | Some se \<Rightarrow> se_requestl se = [] \<and> se_req se \<noteq> None" by code_simp
    then show thesis using that by (auto split: option.splits)
  qed
  have c: "cl_refs (sw_user hung_up) = 0" by code_simp
  have v: "ss_event ok_env (call_user ok_env ok_cenv) hung_up over" by (rule step_response [OF _ over_eq]) simp
  note f = freed_call_untouched [OF hung_up_reach c]
  have "leaves (sw_user hung_up) (sess_response ok_env u 0 (Some (a_msg ''BYE'' 200 0)) hung_up)" for u
    using f se by simp
  with f se(1) v show ?thesis by simp
qed

text \<open>C10: The application is told exactly once that a call is closed, and then the call is freed: whatever operation or event hits a live
  call, it is either alive afterwards and nothing was told, or it is freed and the application has got one CALL_CLOSED.\<close>

theorem call_closed_told:
  assumes "call_reach e ce s" "0 < cl_refs (sw_user s)" "call_step e ce s s'"
  shows "cl_refs (sw_user s') \<le> 1 \<and> told (sw_user s') = 1 - cl_refs (sw_user s')"
proof -
  have "run_ok e ce True s" using reach_run [OF assms(1)] assms(2) by (auto simp: run_ok_def kept_def Let_def)
  then have "kept ce False True s'" by (rule run_kept [OF run_step [OF assms(3)]])
  then show ?thesis by (auto simp: kept_def Let_def)
qed

theorem call_closed_told_witness: "cl_refs (sw_user hung_up) = 0 \<and> told (sw_user hung_up) = 1"
proof -
  have "0 < cl_refs (sw_user talking)" "cl_refs (sw_user hung_up) = 0" by code_simp+
  then show ?thesis using call_closed_told [OF talking_reach _ call_hung_up [OF hung_up_eq]] by simp
qed

section \<open>Modifications\<close>

text \<open>In an established session whose offer and answer are done, a change of media that comes while the reply to a re-INVITE still
  waits for its ACK is kept, and the ACK starts the re-INVITE with the new description.\<close>

theorem modify_after_ack:
  assumes se: "sw_sess s = Some se" "se_terminated se = 0" "se_dlg_est se" "se_established se" "se_neg_state se = SDP_NEG_DONE"
    "se_req se = None" "se_replyl se = [r]"
    and m: "sm_match m" "sm_cseq m = sr_seq r" and e: "ev_req e (sw_next s) = Dr_sent now"
  shows "\<exists>s1 s2 se2. sipsess_modify e (Some d) s = Some (OK, s1) \<and> sw_log s1 = sw_log s \<and> sess_ack_handler e u m s1 = Some s2 \<and>
    sw_log s2 = sw_log s @ [Se_req R_REINVITE OK] \<and> sw_sess s2 = Some se2 \<and> se_desc se2 = Some d \<and> \<not> se_modify_pending se2 \<and>
    se_neg_state se2 = SDP_NEG_LOCAL_OFFER"
  using assms
  by (simp add: sipsess_modify_def sess_ack_handler_def sipsess_find_def sipsess_reply_ack_def cmp_handler_def sipsess_reinvite_def
      drequest_def left_def Let_def)

theorem modify_after_ack_witness:
  "\<exists>s1 s2 se2. sipsess_modify ok_env (Some 40) (put_sess ((the (sw_sess talking))\<lparr>se_replyl := [new_reply 9 (a_msg ''INVITE'' 0 50) 200]\<rparr>) talking) =
       Some (OK, s1) \<and> sess_ack_handler ok_env (call_user ok_env ok_cenv) (a_msg ''ACK'' 0 0) s1 = Some s2 \<and> sw_sess s2 = Some se2 \<and> se_desc se2 = Some 40"
proof -
  let ?se = "(the (sw_sess talking))\<lparr>se_replyl := [new_reply 9 (a_msg ''INVITE'' 0 50) 200]\<rparr>"
  have "se_terminated ?se = 0" "se_dlg_est ?se" "se_established ?se" "se_neg_state ?se = SDP_NEG_DONE" "se_req ?se = None" by code_simp+
  moreover have "sm_match (a_msg ''ACK'' 0 0)" "sm_cseq (a_msg ''ACK'' 0 0) = sr_seq (new_reply 9 (a_msg ''INVITE'' 0 50) 200)"
    "ev_req ok_env n = Dr_sent True" for n
    by (simp_all add: a_msg_def new_reply_def ok_env_def)
  ultimately show ?thesis
    using modify_after_ack [of "put_sess ?se talking" ?se "new_reply 9 (a_msg ''INVITE'' 0 50) 200" "a_msg ''ACK'' 0 0" ok_env True 40
        "call_user ok_env ok_cenv"] by simp blast
qed

section \<open>Calls that are broken off\<close>

lemma reach_session: "call_reach e ce s \<Longrightarrow> sw_sess s \<noteq> None \<Longrightarrow> ss_reach e (call_user e ce) s"
  using reach_run [of e ce s] by (auto simp: run_ok_def idle_def)

text \<open>C11: An outgoing call was hung up before its INVITE was answered, its offer still open, no other request under way and only the
  reference that waits for the INVITE left.  When a 2xx that carries the answer (a body) and fits the dialog crosses the hang-up, and
  its ACK can be sent, it is acknowledged and the session freed without a BYE, because the internal handler for answers reports an
  error: the peer is left in a call that nobody ends.\<close>

theorem late_answer_not_ended:
  assumes r: "call_reach e ce s"
    and se: "sw_sess s = Some se" "se_req se = Some (R_INVITE, req)" "se_terminated se = 1" "sw_refs s = 1" "se_requestl se = []"
      "se_neg_state se = SDP_NEG_LOCAL_OFFER"
    and m: "200 \<le> sm_scode m" "sm_scode m < 300" "0 < sm_body m" "sm_dlg m = 0" and e: "ev_rep e (sw_next s) = 0"
  shows "\<exists>s'. sess_response e (call_user e ce) 0 (Some m) s = Some s' \<and> sw_sess s' = None \<and> sw_log s' = sw_log s @ [Se_ack, Se_freed]"
proof -
  have ok: "sess_ok se (sw_refs s) (sw_held s) (sw_log s)" using ss_inv_Some [OF call.reach_inv [OF reach_session [OF r]] se(1)] se(1) by simp
  have h: "se_answerh se \<noteq> H_user" "\<not> se_established se" using ok se(2,3) by (auto simp: sess_ok_def silent_def req_of_def)
  have c: "\<not> sm_scode m < 200" using m(1) by simp
  show ?thesis
    using se h m c e
    by (simp add: sess_response_def resp_handler_def invite_resp_handler_def response_loops_def sip_request_loops_def invite_success_def
        dialog_response_def sess_answerh_def sipsess_ack_def invite_out_def deref_sess_def destructor_sess_def terminate_sess_def
        sess_free_def Let_def)
qed

theorem late_answer_not_ended_witness:
  "\<exists>s'. sess_response ok_env (call_user ok_env ok_cenv) 0 (Some (a_msg ''INVITE'' 200 50)) given_up = Some s' \<and> sw_sess s' = None \<and>
     sw_log s' = [Se_call C_desc, Se_req R_INVITE 0, Se_drop, Se_ack, Se_freed]"
proof -
  let ?se = "the (sw_sess given_up)"
  have se: "sw_sess given_up = Some ?se" "se_req ?se = Some (R_INVITE, \<lparr>sq_provrecv = False, sq_canceled = True\<rparr>)" "se_terminated ?se = 1"
    "sw_refs given_up = 1" "se_requestl ?se = []" "se_neg_state ?se = SDP_NEG_LOCAL_OFFER"
    "sw_log given_up = [Se_call C_desc, Se_req R_INVITE 0, Se_drop]"
    by code_simp+
  then show ?thesis
    using late_answer_not_ended [OF given_up_reach se(1-6), of "a_msg ''INVITE'' 200 50"] by (simp add: a_msg_def ok_env_def)
qed

text \<open>A session that waits for nothing any more, but keeps the reference that it took for the ACK.\<close>

definition abandoned :: "'u sw \<Rightarrow> bool" where
  "abandoned s \<longleftrightarrow> (\<exists>se. sw_sess s = Some se \<and> se_terminated se = 1 \<and> se_req se = None \<and> se_replyl se = [] \<and> se_requestl se = [] \<and>
     se_tmr se = None \<and> \<not> se_st se) \<and> \<not> sw_held s"

text \<open>Neither freed nor ended with a BYE.\<close>

definition left_open :: "sess_act list \<Rightarrow> bool" where
  "left_open xs \<longleftrightarrow> (\<forall>x \<in> set xs. x \<noteq> Se_freed \<and> (\<forall>err. x \<noteq> Se_req R_BYE err))"

lemma left_open_simps [simp]:
  "left_open []" "left_open (xs @ ys) \<longleftrightarrow> left_open xs \<and> left_open ys"
  "left_open (x # xs) \<longleftrightarrow> x \<noteq> Se_freed \<and> (\<forall>err. x \<noteq> Se_req R_BYE err) \<and> left_open xs"
  by (auto simp: left_open_def)

definition stuck :: "sess_act list \<Rightarrow> 'u sw \<Rightarrow> bool" where
  "stuck xs s \<longleftrightarrow> abandoned s \<and> (\<exists>ys. sw_log s = xs @ ys \<and> left_open ys)"

lemma stuck_reply: "stuck xs s \<Longrightarrow> stuck xs (sip_reply e c s)"
  by (auto simp: stuck_def abandoned_def sip_reply_def free_reply_def Let_def)

lemma stuck_put:
  "stuck xs s \<Longrightarrow> sw_sess s = Some se \<Longrightarrow> se' = se\<lparr>se_dlg_rseq := n, se_peerterm := b\<rparr> \<Longrightarrow> stuck xs (put_sess se' s)"
  by (auto simp: stuck_def abandoned_def)

lemma stuck_said: "stuck xs s \<Longrightarrow> x \<noteq> Se_freed \<Longrightarrow> (\<And>err. x \<noteq> Se_req R_BYE err) \<Longrightarrow> stuck xs (say x s)"
  by (auto simp: stuck_def abandoned_def)

lemma stuck_api:
  assumes s: "stuck xs s" and v: "api_end e s t"
  shows "stuck xs t"
  using v
proof cases
  case end_api
  then show ?thesis
  proof cases
    case (api_sip_reply c)
    then show ?thesis using stuck_reply [OF s] by simp
  qed (use s in \<open>simp_all add: stuck_def abandoned_def\<close>)
qed (use s in \<open>simp_all add: stuck_def abandoned_def sipsess_release_def\<close>)

lemma stuck_bye:
  assumes "stuck xs s" "bye_handler e u m s = Some t"
  shows "stuck xs t"
proof -
  obtain se where se: "sw_sess s = Some se" "se_terminated se = 1" using assms(1) by (auto simp: stuck_def abandoned_def)
  let ?se = "se\<lparr>se_dlg_rseq := sm_cseq m\<rparr>"
  have p: "stuck xs (put_sess se s)" by (rule stuck_put [OF assms(1) se(1), where n = "se_dlg_rseq se" and b = "se_peerterm se"]) simp
  have p': "stuck xs (put_sess ?se s)" by (rule stuck_put [OF assms(1) se(1), where n = "sm_cseq m" and b = "se_peerterm se"]) simp
  have q: "stuck xs (say Se_peerterm (put_sess (?se\<lparr>se_peerterm := True\<rparr>) (sip_reply e 200 (put_sess ?se s))))"
    by (rule stuck_said, rule stuck_put [OF stuck_reply [OF p'], where se = ?se and n = "sm_cseq m" and b = True])
       (simp_all add: sip_reply_def free_reply_def Let_def)
  then show ?thesis
    using assms(2) se stuck_reply [OF assms(1)] stuck_reply [OF p] stuck_reply [OF p']
    by (auto simp: bye_handler_def sipsess_find_def sip_dialog_rseq_valid_def Let_def split: if_splits)
qed

lemma stuck_request:
  assumes s: "stuck xs s" and v: "sess_request_handler e u m s = Some (b, t)"
  shows "stuck xs t"
proof -
  obtain se where se: "sw_sess s = Some se" "se_terminated se = 1" "se_replyl se = []" using s by (auto simp: stuck_def abandoned_def)
  have p: "stuck xs (put_sess se s)" by (rule stuck_put [OF s se(1), where n = "se_dlg_rseq se" and b = "se_peerterm se"]) simp
  show ?thesis
    using v s se p stuck_bye [OF s] stuck_reply
    by (auto simp: sess_request_handler_def info_handler_def refer_handler_def sess_ack_handler_def prack_handler_def
        target_refresh_handler_def sipsess_find_def sipsess_reply_ack_def sipsess_reply_prack_def Let_def split: if_splits)
qed

lemma stuck_event:
  assumes s: "stuck xs s" and v: "ss_event e u s t"
  shows "stuck xs t"
proof -
  obtain se where se: "sw_sess s = Some se" "se_req se = None" "se_replyl se = []" "se_requestl se = []" "se_tmr se = None" "\<not> se_st se"
    using s by (auto simp: stuck_def abandoned_def)
  show ?thesis
    using v
  proof cases
    case (step_request m b)
    then show ?thesis by (rule stuck_request [OF s])
  next
    case (step_time now)
    then show ?thesis using s by (simp add: stuck_def abandoned_def)
  qed (use se in \<open>simp_all add: sess_response_def sub_response_def find_request_def\<close>)
qed

lemma stuck_step: "stuck xs s \<Longrightarrow> ss_step e u s t \<Longrightarrow> stuck xs t"
  by (erule ss_step.cases) (auto intro: stuck_api stuck_event)

text \<open>C12: A session that waits only for the ACK of its answer when the user has released it is never freed and never ended with a BYE
  if the ACK does not come: the timer that should do it finds its own reply still in the list, drops it, and nothing is left that could
  release the session, whatever arrives and whatever is called later.\<close>

theorem unacked_session_leaks:
  assumes se: "sw_sess s = Some se" "se_terminated se = 1" "se_replyl se = [r]" "se_req se = None" "se_requestl se = []" "se_tmr se = None"
      "\<not> se_st se" "\<not> sw_held s"
    and v: "reply_tmr_handler e u r s = Some s'" "(ss_step e u)\<^sup>*\<^sup>* s' t"
  shows "sw_sess t \<noteq> None \<and> (\<exists>ys. sw_log t = sw_log s @ ys \<and> left_open ys)"
proof -
  have "stuck (sw_log s) s'" using v(1) se by (auto simp: reply_tmr_handler_def stuck_def abandoned_def)
  with v(2) have "stuck (sw_log s) t" by (induction rule: rtranclp_induct) (auto intro: stuck_step)
  then show ?thesis by (auto simp: stuck_def abandoned_def)
qed

theorem unacked_session_leaks_witness:
  "\<exists>r s'. se_replyl (the (sw_sess unacked)) = [r] \<and> reply_tmr_handler ok_env (call_user ok_env ok_cenv) r unacked = Some s' \<and>
     sw_sess s' \<noteq> None"
proof -
  define se where "se = the (sw_sess unacked)"
  define r where "r = hd (se_replyl se)"
  have se: "sw_sess unacked = Some se" "se_terminated se = 1" "se_replyl se = [r]" "se_req se = None" "se_requestl se = []"
    "se_tmr se = None" "\<not> se_st se" "\<not> sw_held unacked"
    unfolding r_def se_def by code_simp+
  have v: "reply_tmr_handler ok_env (call_user ok_env ok_cenv) r unacked = Some (put_sess (se\<lparr>se_replyl := []\<rparr>) unacked)"
    using se by (simp add: reply_tmr_handler_def)
  show ?thesis using unacked_session_leaks [OF se v rtranclp.rtrancl_refl] se(1,3) v by auto
qed

section \<open>Undefined behaviour\<close>

lemma find_upd: "find_request r se = Some rq \<Longrightarrow> rq_id rq' = r \<Longrightarrow> find_request r (upd_request rq' se) = Some rq'"
proof -
  have "find (\<lambda>x. rq_id x = r) xs = Some rq \<Longrightarrow> rq_id rq' = r \<Longrightarrow>
      find (\<lambda>x. rq_id x = r) (map (\<lambda>x. if rq_id x = rq_id rq' then rq' else x) xs) = Some rq'" for xs
    by (induction xs) (auto split: if_splits)
  then show "find_request r se = Some rq \<Longrightarrow> rq_id rq' = r \<Longrightarrow> ?thesis" by (simp add: find_request_def upd_request_def)
qed

text \<open>C13: A PRACK that is rejected with 408 or 491 for the first time is to be sent again later, but \<open>tmr_start\<close> is given the request
  where the handler of the timer takes its argument for the PRACK that holds the request: in a live session the timer is
  running afterwards, and its expiry is undefined behaviour, whenever it comes.\<close>

theorem prack_retry_undefined:
  assumes se: "sw_sess s = Some se" "se_terminated se = 0" "find_request r se = Some rq" "rq_id rq = r" "rq_met rq = R_PRACK"
    and m: "sm_scode m = 408 \<or> sm_scode m = 491" and l: "ls_failc (rq_ls rq) = 0" "ls_last_scode (rq_ls rq) = 0"
  shows "\<exists>s' se' rq' t arg. sub_response e u r 0 (Some m) s = Some s' \<and> sw_sess s' = Some se' \<and> find_request r se' = Some rq' \<and>
    rq_tmr rq' = Some (t, arg) \<and> (\<forall>now. request_tmr e rq' (s'\<lparr>sw_now := now\<rparr>) = None)"
proof -
  define ls where "ls = (rq_ls rq)\<lparr>ls_failc := 1, ls_last_scode := sm_scode m\<rparr>"
  have loops: "sip_request_loops (rq_ls rq) (sm_scode m) = (False, ls)"
    using m l by (auto simp: sip_request_loops_def ls_def word_le_nat_alt)
  define rq1 where "rq1 = rq\<lparr>rq_req := False\<rparr>"
  define rq2 where "rq2 = rq1\<lparr>rq_ls := ls\<rparr>"
  define t where "t = sw_now s + (if se_owner se then 3000 else 1000 :: nat)"
  define rq3 where "rq3 = rq2\<lparr>rq_tmr := Some (t, A_request r)\<rparr>"
  let ?se1 = "upd_request rq1 se" let ?se2 = "upd_request rq2 ?se1" let ?se3 = "upd_request rq3 ?se2"
  have f: "find_request r ?se1 = Some rq1" "find_request r ?se2 = Some rq2" "find_request r ?se3 = Some rq3"
    by (rule find_upd, (rule find_upd)?, (rule find_upd)?, rule se; simp add: se rq1_def rq2_def rq3_def)+
  have l1: "sip_request_loops (rq_ls rq1) (sm_scode m) = (False, ls)" using loops by (simp add: rq1_def)
  let ?s2 = "put_sess ?se2 (put_sess ?se1 s)"
  have q: "se_owner ?se2 = se_owner se" "se_terminated ?se2 = 0" "rq_met rq1 = R_PRACK" using se by (simp_all add: upd_request_def rq1_def)
  have 1: "request_loops r m (put_sess ?se1 s) = Some (False, ?s2)"
    using f(1) l1 by (simp add: request_loops_def rq2_def)
  have 2: "request_retry r (if se_owner se then 3000 else 1000) (A_request r) ?s2 = Some (put_sess ?se3 ?s2)"
    using f(2) by (simp add: request_retry_def rq3_def t_def)
  have 3: "prack_resp_handler e u r 0 (Some m) (put_sess ?se1 s) = Some (put_sess ?se3 ?s2)"
    using m q 1 2 by (auto simp: prack_resp_handler_def)
  have "sub_response e u r 0 (Some m) s = Some (put_sess ?se3 ?s2)"
    using m se 3 by (auto simp: sub_response_def Let_def rq1_def [symmetric])
  then show ?thesis using f(3) se by (auto simp: request_tmr_def prack_tmr_handler_def rq3_def rq2_def rq1_def)
qed

theorem prack_retry_undefined_witness:
  "\<exists>s' se' rq'. sub_response ok_env (call_user ok_env ok_cenv) 5 0 (Some (a_msg ''PRACK'' 491 0))
       (put_sess ((the (sw_sess dialled))\<lparr>se_requestl := [a_prack]\<rparr>) dialled) = Some s' \<and> sw_sess s' = Some se' \<and> find_request 5 se' = Some rq' \<and> request_tmr ok_env rq' s' = None"
proof -
  let ?se = "(the (sw_sess dialled))\<lparr>se_requestl := [a_prack]\<rparr>"
  have "se_terminated ?se = 0" by code_simp
  then show ?thesis
    using prack_retry_undefined [of "put_sess ?se dialled" ?se 5 a_prack "a_msg ''PRACK'' 491 0" ok_env "call_user ok_env ok_cenv"]
    by (simp add: a_prack_def find_request_def a_msg_def) (metis sw.surjective sw.update_convs(6))
qed

lemma abort_request:
  assumes "sw_sess s = Some se" "se_requestl se \<noteq> []" "sw_refs s = 1" "sipsess_abort e s = Some s1"
  shows "sw_refs s1 = 1 \<and> (\<exists>se1. sw_sess s1 = Some se1 \<and> se_terminated se1 = 2 \<and> se_requestl se1 \<noteq> [])"
  using assms
  by (cases "se_req se"; cases "ev_req e (sw_next s)") (auto simp: sipsess_abort_def sipsess_bye_def drequest_def bind_eq_Some_conv Let_def)

text \<open>C14: Hanging up an answered call that is not acknowledged yet while a request of its session (an UPDATE or an INFO) is under way is
  undefined behaviour: the session is destroyed with the request in its list, whose destructor releases the session a second time.\<close>

theorem hangup_with_request_undefined:
  assumes c: "cl_refs (sw_user s) = 1" "cl_state (sw_user s) = CALL_STATE_INCOMING" "cl_answered (sw_user s)" "sw_held s"
    and se: "sw_sess s = Some se" "se_requestl se \<noteq> []" "sw_refs s = 1"
  shows "ua_hangup_call e scode s = None"
proof (cases "sipsess_abort e s")
  case (Some s1)
  note a = abort_request [OF se Some] abort_fields [OF Some]
  have r: "sipsess_release e v = None" if "mine s1 v" for v
    using mine_fields [OF that] a c(4) by (auto simp: sipsess_release_def deref_sess_def destructor_sess_def sess_free_def)
  have h: "sw_held v" if "mine s1 v" for v using mine_fields [OF that] a c(4) by simp
  have "call_destructor e v = None" if "mine s1 v" for v
    using r [of "put_call c' (call_stream_stop v)" for c'] h [of "put_call c' (call_stream_stop v)" for c'] that
    by (simp add: call_destructor_def Let_def mine)
  then show ?thesis
    using c Some a by (simp add: ua_hangup_call_def call_hangup_def the_call_def call_deref_def Let_def mine
        call_stream_stop_def set_state_def log_call_def)
qed (use c in \<open>simp add: ua_hangup_call_def call_hangup_def the_call_def\<close>)

theorem hangup_with_request_undefined_witness:
  "ua_hangup_call ok_env 0 (put_sess ((the (sw_sess picked_up))\<lparr>se_requestl := [a_prack\<lparr>rq_met := R_INFO\<rparr>]\<rparr>) picked_up) = None"
proof -
  have "cl_refs (sw_user picked_up) = 1" "cl_state (sw_user picked_up) = CALL_STATE_INCOMING" "cl_answered (sw_user picked_up)" "sw_held picked_up"
    "sw_refs picked_up = 1" by code_simp+
  then show ?thesis
    by (intro hangup_with_request_undefined [where se = "(the (sw_sess picked_up))\<lparr>se_requestl := [a_prack\<lparr>rq_met := R_INFO\<rparr>]\<rparr>"]) simp_all
qed

lemma release_user: "sipsess_release e (s :: csw) = Some s' \<Longrightarrow> sw_user s' = sw_user s"
  by (drule release_facts) simp

lemma reject_user: "sipsess_reject e c s = Some (err, s') \<Longrightarrow> sw_user s' = sw_user s"
  by (auto simp: sipsess_reject_def st_reply_def bind_eq_Some_conv Let_def split: if_splits)

lemma destructor_refs: "call_destructor e s = Some s' \<Longrightarrow> cl_refs (sw_user s') = cl_refs (sw_user s)"
  by (auto simp: call_destructor_def bind_eq_Some_conv Let_def call_stream_stop_def log_call_def dest!: release_user split: if_splits)

lemma hangup_refs: "call_hangup e c s = Some s' \<Longrightarrow> cl_refs (sw_user s') = cl_refs (sw_user s)"
  by (auto simp: call_hangup_def the_call_def bind_eq_Some_conv Let_def call_stream_stop_def set_state_def log_call_def on_sess_def
      call_notify_sipfrag_def abort_fields dest!: release_user reject_user split: if_splits)

text \<open>With early media a second call that the application rejects as busy is used after it was freed: the handler of the user agent
  goes on with the progress of the call that the application's handler has just hung up.\<close>

theorem busy_early_undefined:
  assumes "ce_busy ce" "\<not> ce_blocked ce" "ce_answermode ce = ANSWERMODE_EARLY \<or> ce_answermode ce = ANSWERMODE_EARLY_AUDIO"
    "cl_refs (sw_user s) = 1"
  shows "call_event e ce CALL_EVENT_INCOMING s = None"
proof -
  let ?s = "log_call (Cl_ua UA_EVENT_CALL_INCOMING) (log_call (Cl_event CALL_EVENT_INCOMING) s)"
  have "cl_refs (sw_user v) = 0" if v: "ua_hangup_call e 486 ?s = Some v" for v
  proof -
    obtain t where t: "call_hangup e 486 ?s = Some t" "call_deref e (log_call (Cl_ua UA_EVENT_CALL_CLOSED) t) = Some v"
      using v by (auto simp: ua_hangup_call_def bind_eq_Some_conv)
    have "cl_refs (sw_user t) = 1" using hangup_refs [OF t(1)] assms(4) by (simp add: log_call_def)
    then show ?thesis using t(2) by (auto simp: call_deref_def the_call_def log_call_def Let_def dest!: destructor_refs)
  qed
  then have "call_progress e ce v = None" if "ua_hangup_call e 486 ?s = Some v" for v
    using that by (simp add: call_progress_def call_progress_dir_def the_call_def Let_def)
  then show ?thesis
    using assms(1-3) by (cases "ua_hangup_call e 486 ?s") (auto simp: call_event_def ua_call_event_def app_incoming_def the_call_def)
qed

theorem busy_early_undefined_witness:
  "call_event ok_env (ok_cenv\<lparr>ce_busy := True, ce_answermode := ANSWERMODE_EARLY\<rparr>) CALL_EVENT_INCOMING ringing = None"
proof -
  have "cl_refs (sw_user ringing) = 1" by code_simp
  then show ?thesis by (intro busy_early_undefined) (simp_all add: ok_cenv_def)
qed

section \<open>Operations that report what they did not do\<close>

text \<open>Holding a call whose media may not be changed at the moment reports success and remembers the call as held, although nothing
  is sent to the peer; holding it again is then taken for done.\<close>

theorem hold_lost:
  assumes c: "0 < cl_refs (sw_user s)" "sw_held s" "cl_on_hold (sw_user s) = (\<not> b)"
    and f: "\<not> sipsess_refresh_allowed (sw_sess s)" and ok: "\<And>n. ce_err ce n = 0"
  shows "\<exists>s'. call_hold e ce b s = Some (OK, s') \<and> sw_log s' = sw_log s \<and> sw_sess s' = sw_sess s \<and> cl_on_hold (sw_user s') = b \<and>
    call_hold e ce b s' = Some (OK, s')"
  using assms
  by (simp add: call_hold_def call_modify_def the_call_def call_sess_def call_update_media_def media_def Let_def)

theorem hold_lost_witness:
  "\<exists>s'. call_hold ok_env ok_cenv True dialled = Some (OK, s') \<and> sw_log s' = sw_log dialled \<and> cl_on_hold (sw_user s')"
proof -
  have "0 < cl_refs (sw_user dialled)" "sw_held dialled" "\<not> cl_on_hold (sw_user dialled)" "\<not> sipsess_refresh_allowed (sw_sess dialled)"
    by code_simp+
  then show ?thesis using hold_lost [of dialled True ok_cenv ok_env] by (auto simp: ok_cenv_def)
qed

text \<open>A caller that insists on an automatic answer where none is allowed (\<open>Answer-Mode: Auto;require\<close>) is to be rejected, but
  the rejection hangs up a call that has no session yet: nothing is sent, and the call rings like any other.\<close>

theorem autoanswer_refusal_ignored:
  "map_option (\<lambda>s. (cl_state (sw_user s), sw_held s, sw_log s))
     (sipsess_conn_handler ok_env ok_cenv True False False False (None, None, Some True, None) False (a_msg ''INVITE'' 0 50) [] 0) =
   Some (CALL_STATE_INCOMING, True, [Se_reply 180])"
  by code_simp

section \<open>Line numbers\<close>

lemma find_least:
  fixes f :: "nat \<Rightarrow> 'a"
  assumes "\<exists>n. a \<le> n \<and> n < b \<and> P (f n)"
  shows "find P (map f [a..<b]) = Some (f (LEAST n. a \<le> n \<and> P (f n)))"
proof -
  let ?m = "LEAST n. a \<le> n \<and> P (f n)"
  obtain n where n: "a \<le> n" "n < b" "P (f n)" using assms by blast
  have m: "a \<le> ?m" "P (f ?m)" using LeastI [of "\<lambda>n. a \<le> n \<and> P (f n)" n] n by simp_all
  have "?m \<le> n" using n by (simp add: Least_le)
  then have "?m < b" using n(2) by simp
  moreover have "\<not> P (f k)" if "a \<le> k" "k < ?m" for k using not_less_Least that by blast
  ultimately have "?m - a < length (map f [a..<b]) \<and> P (map f [a..<b] ! (?m - a)) \<and> f ?m = map f [a..<b] ! (?m - a) \<and>
      (\<forall>j < ?m - a. \<not> P (map f [a..<b] ! j))" using m by auto
  then show ?thesis unfolding find_Some_iff by blast
qed

text \<open>C15: A new call gets the least line number from 1 to 255 that no call of the user agent has, and none, with an error, when all are
  taken.\<close>

theorem assign_linenum_least:
  "assign_linenum calls =
     (if \<exists>n. 1 \<le> n \<and> n \<le> 255 \<and> of_nat n \<notin> set calls
      then (OK, Some (of_nat (LEAST n. 1 \<le> n \<and> of_nat n \<notin> set calls))) else (ENOENT, None))"
proof (cases "\<exists>n. 1 \<le> n \<and> n \<le> 255 \<and> (of_nat n :: u32) \<notin> set calls")
  case True
  then have "\<exists>n. 1 \<le> n \<and> n < 256 \<and> \<not> call_find_linenum calls (of_nat n)" by (auto simp: call_find_linenum_def)
  from find_least [where P = "\<lambda>num. \<not> call_find_linenum calls num" and f = of_nat, OF this] show ?thesis
    using True unfolding assign_linenum_def by (simp add: call_find_linenum_def)
next
  case False
  then have "find (\<lambda>num. \<not> call_find_linenum calls num) (map of_nat [CALL_LINENUM_MIN..<CALL_LINENUM_MAX]) = None"
    by (auto simp: find_None_iff call_find_linenum_def)
  then show ?thesis unfolding assign_linenum_def using False by simp
qed

end
