(* ===== verification/Spec2Isabelle.thy ===== *)
theory Spec2Isabelle
  imports Re_List Native_Sip_Spec Rtp_Spec Rtp_Source Jbuf_Spec Srtp_Replay Rtcp_Sess_Report Telev_Spec Sip_Ctrans_Spec Sip_Strans_Spec Async_Spec Tmr_Spec Reg Call_Cases
begin

text \<open>
  A verification development for the C code of the SIP phone (paths are relative to
  \<open>src/kyf42-phone/\<close>).

  \<^bold>\<open>The program.\<close>  The phone is an Android application whose SIP engine runs in one native
  library.  The application's own C code is \<open>app/src/main/cpp/native-sip-jni.c\<close>, the bridge that Java
  calls and that receives the events of the SIP engine, and \<open>app/src/main/cpp/rtpwatch.c\<close>, a filter that
  notes when media was last received.  Below it lie the adapted libraries \<open>native/baresip\<close> (user agents,
  calls, audio) and \<open>native/re\<close> (the protocol library: buffers, lists, RTP, RTCP, SIP).  Calls go down:
  the bridge posts workers to the event loop, a worker calls into baresip, baresip sends RTP through
  \<open>native/re/src/rtp\<close>, whose packets are built in an \<open>mbuf\<close>.  Received datagrams come up: the RTP socket
  splits RTP from RTCP, a media packet updates the statistics of its source and enters the jitter
  buffer, a report updates the session.  Events of a call come back, some of them synchronously inside
  the call that caused them, to the one handler of the bridge.

  \<^bold>\<open>Conventions.\<close>  A C integer is a word of its width, \<open>size_t\<close> has 32 bits (the target is 32-bit ARM,
  little endian).  A pointer is \<open>nat option\<close>.  An error number is a word that is 0 for success; the
  \<open>err |= f()\<close> idiom is the bitwise or of the numbers.  Every operation is total; where C has undefined
  behaviour (an access outside a block, a freed object, a signed overflow) or does not return, the
  result is the value \<open>None\<close>.  Loops that may not end are \<open>partial_function (option)\<close>; that they return is
  proved where it is claimed.  Allocation, clocks, random numbers, floating point and the transport are
  arguments of the operations that use them, so the theorems hold for whatever they answer.

  \<^bold>\<open>Theories.\<close>
  \<^item> \<open>Prelude\<close>: integer types, error numbers, the C string functions, the collections of rules.
  \<^item> \<open>Re_List\<close>: \<open>re/src/list/list.c\<close> on a store of elements; \<open>is_list\<close> relates it to sequences and every
    operation is a refinement of the operation on the sequence.  Sorting ends with \<open>sort_key\<close>.
  \<^item> \<open>Re_Hash\<close>: \<open>re/src/hash/hash.c\<close>; the locale \<open>keyed_table\<close> is its interface, \<open>table\<close> its interpretation.
  \<^item> \<open>Bytes\<close>, \<open>Mbuf\<close>, \<open>Mbuf_Spec\<close>: \<open>re/src/mbuf/mbuf.c\<close> and \<open>re_mbuf.h\<close>; \<open>mb_inv\<close> is the invariant,
    \<open>mb_data\<close> and \<open>mb_off\<close> the abstraction, the locale \<open>byte_buffer\<close> the interface of the packet formats.
  \<^item> \<open>Event\<close>, \<open>Native_Sip\<close>, \<open>Native_Sip_Spec\<close>: \<open>baresip/src/event.c\<close> (registry and dispatch), the bridge and
    the watchdog.  The file-scope variables are the record \<open>app\<close>; what baresip answers is the record \<open>env\<close>;
    \<open>app_step\<close> is one entry point, worker or event, \<open>app_reachable\<close> a run.
  \<^item> \<open>Rtp\<close>, \<open>Rtp_Spec\<close>: \<open>re/src/rtp/rtp.c\<close>, headers, the socket's sequence numbers, sending and receiving.
  \<^item> \<open>Rtp_Source\<close>: \<open>re/src/rtp/source.c\<close>, the statistics of a source.
  \<^item> \<open>Jbuf\<close>, \<open>Jbuf_Spec\<close>: \<open>baresip/src/jbuf.c\<close>, the jitter buffer.
  \<^item> \<open>Srtp_Replay\<close>: \<open>re/src/srtp/replay.c\<close>, the replay window.
  \<^item> \<open>Rtcp_Pkt\<close>, \<open>Rtcp_Pkt_Spec\<close>, \<open>Rtcp_Report\<close>: the RTCP packet formats, \<open>re/src/rtp/pkt.c\<close>, \<open>rr.c\<close>, \<open>sdes.c\<close>,
    \<open>fb.c\<close>.  \<open>safe_reader\<close> collects what every decoder keeps, \<open>puts\<close> describes an encoder by its bytes.
  \<^item> \<open>Rtcp_Sess\<close>, \<open>Rtcp_Sess_Spec\<close>, \<open>Rtcp_Sess_Report\<close>: the RTCP session, \<open>re/src/rtp/sess.c\<close>, \<open>member.c\<close>,
    \<open>ntp.c\<close>, \<open>rtcp.c\<close>; \<open>sess_inv\<close> is its invariant, \<open>sess_step\<close> and \<open>sess_reach\<close> its runs.
  \<^item> \<open>Telev\<close>, \<open>Telev_Spec\<close>: \<open>re/src/telev/telev.c\<close> and the digits of \<open>baresip/src/audio.c\<close>: \<open>dtmf_run\<close> takes
    the keys and the packet times of a call to the packets sent.
  \<^item> \<open>Async\<close>, \<open>Async_Spec\<close>: \<open>re/src/async/async.c\<close>, the queue behind the bridge's workers.  A step of
    \<open>as_step\<close> is one critical section of a thread or of the event loop, so every interleaving is a run.
  \<^item> \<open>Tmr\<close>, \<open>Tmr_Spec\<close>: \<open>re/src/tmr/tmr.c\<close> and the sleep of the event loop (\<open>re/src/main/main.c\<close>); the locale
    \<open>timer_map\<close> is what the users of timers rely on, \<open>timers\<close> its interpretation.
  \<^item> \<open>Sip_Msg\<close>: what the transactions read of a message, and the hash functions that choose a bucket.
  \<^item> \<open>Sip_Ctrans\<close>, \<open>Sip_Ctrans_Spec\<close>, \<open>Sip_Strans\<close>, \<open>Sip_Strans_Spec\<close>: the client and the server
    transactions, \<open>re/src/sip/ctrans.c\<close> and \<open>strans.c\<close>, as step relations \<open>ct_step\<close> and \<open>st_step\<close>.
  \<^item> \<open>Sip_Reg\<close>, \<open>Sip_Reg_Spec\<close>: the registration client \<open>re/src/sipreg/reg.c\<close> (step relation \<open>rg_step\<close>);
    \<open>Reg\<close>: its user \<open>baresip/src/reg.c\<close>.
  \<^item> \<open>Sip_Request\<close>: what the users of a SIP request see of \<open>re/src/sip/request.c\<close>: loop detection, cancelling.
  \<^item> \<open>Sipsess\<close>: SIP sessions, \<open>re/src/sipsess/\<close> (\<open>sess.c\<close>, \<open>connect.c\<close>, \<open>accept.c\<close>, \<open>close.c\<close>, \<open>modify.c\<close>,
    \<open>reply.c\<close>, \<open>request.c\<close>, \<open>info.c\<close>, \<open>update.c\<close>, \<open>prack.c\<close>, \<open>listen.c\<close>).  A session is the record \<open>sipsess\<close>, its
    surroundings with reference count, user and log the record \<open>sw\<close>, its user a record of handlers.
  \<^item> \<open>Sipsess_Inv\<close>, \<open>Sipsess_Resp\<close>, \<open>Sipsess_Spec\<close>: the locale \<open>sess_user\<close> is the contract of a user; \<open>ss_event\<close> is
    one response, request of the peer or timer, \<open>ss_step\<close> that or an operation of the user, \<open>ss_reach\<close> a run, and
    \<open>ss_inv\<close> the invariant that every run keeps.
  \<^item> \<open>Sipsess_Keep\<close>: the locales \<open>sess_frame\<close> and \<open>sess_keep\<close>, what no event of a session changes.
  \<^item> \<open>Sipsess_Quiet\<close>: a session that its user has left is dealt with without the handlers of the user.
  \<^item> \<open>Call\<close>: call control, \<open>baresip/src/call.c\<close>, with \<open>ua_hangup\<close>, \<open>ua_connect_dir\<close>, \<open>sipsess_conn_handler\<close> and the
    event handler of \<open>ua.c\<close>.  A call is the record \<open>call\<close>, \<open>call_user\<close> its handlers as the user of a session.
  \<^item> \<open>Call_Spec\<close>, \<open>Call_Kept\<close>, \<open>Call_Runs\<close>: the call keeps the contract of a session (interpretation \<open>call\<close>) and
    its own invariant \<open>kept\<close> (interpretation \<open>calls\<close>); \<open>call_step\<close> and \<open>call_reach\<close> are the runs of a call.
  \<^item> \<open>Call_Cases\<close>: the properties of calls, and the situations in which the code falls short, on concrete calls.

  \<^bold>\<open>What is shown.\<close>  For the bridge: the call state agrees with the calls baresip has alive along every
  run without a failed dial, and the situations in which it does not; the buffers are large enough; the
  watchdog has no false alarm and hangs up dead media in bounded time.  For the media path: a header is
  decoded to what was encoded, no decoder reads outside a datagram, the packets of a stream
  within half the circle of sequence numbers leave the jitter buffer in order whatever the interleaving, losses are counted exactly over wraps, no SRTP index
  is accepted twice.  For the control path: the receive loop ends for every datagram, the member table
  and its counters agree along every run, a report is decoded by the peer to what the session meant.
  For the digits: the peer hears exactly the digits that were pressed and released.
  For signalling: a client transaction is answered exactly once, and in time except for an INVITE that only
  rings; a server transaction absorbs every retransmission of its request, if the application answers a request once, and is
  freed within 37 s of its final response; both follow the retransmission times of the standard; a live registration always has a request or a timer pending, is
  refreshed before it expires, and backs off after failures.  For calls: however operations, responses, requests
  of the peer, timers and errors interleave, a session is closed at most once and calls nobody after that, an
  established call ends with a BYE that either side starts, the application is told exactly once of the end of a call, and a
  freed call is not touched again, unless the code runs into undefined behaviour, whose instances are theorems of
  their own (\<open>Call_Cases\<close>).  For the event loop: posted work is run and
  called back exactly once, under every interleaving of the threads, and the queue that the bridge uses is
  implemented by it (\<open>bridge_queue_refines\<close>); timers stay in the order of their deadlines, and one poll
  fires those that are due.
  For the containers: the list operations refine sequences, sorting is the stable sort, a table starts
  well formed.  Some theorems state where the code goes wrong; they are named in the findings of the
  manifest.

  \<^bold>\<open>Fuel and bounds.\<close>  Decoders of item lists recurse on the bytes left, which every item takes at
  least one of.  The watchdog takes one environment per turn of 5 s.  The list loops and the receive
  loop have no fuel, nor has the loop that fires the timers: a handler that starts a timer without delay
  makes it run forever, which is stated.  The transactions and the registration take one timer expiry per
  step.  The table size is bounded by \<open>2 ^ 28\<close> buckets where the size of the array matters.

  \<^bold>\<open>Not modelled.\<close>  Threads and mutexes outside the asynchronous queue (elsewhere an operation is atomic),
  the lookup of servers (DNS) and the sockets of the SIP transport, which the transactions and the
  registration see as answers; of the sessions the composition and decoding of messages, the dialog beyond the
  numbers that are compared, and the retransmission of the ACK (\<open>ack.c\<close>); of the calls media, SDP, the
  subscriptions of transfers and NAT traversal, whose results are arguments; the log and debug
  printing, opening sockets, the float computations of the adaptive jitter buffer (arguments); the rest
  of \<open>native/re\<close> and \<open>native/baresip\<close>; the codecs and the cryptography (\<open>opus-1.4\<close>, \<open>spandsp\<close>, \<open>mbedtls\<close>),
  which are third-party; the Java side.
\<close>

section \<open>Digits from the user interface to the peer\<close>

text \<open>The keys that the bridge hands to the call, and those that the audio object is given.\<close>

fun digits_sent :: "act list \<Rightarrow> int list" where
  "digits_sent [] = []"
| "digits_sent (Call_send_digit c d # as) = of_char d # digits_sent as"
| "digits_sent (_ # as) = digits_sent as"

fun keys :: "dtmf_op list \<Rightarrow> int list" where
  "keys [] = []"
| "keys (Key k # ops) = k # keys ops"
| "keys (Tick ts # ops) = keys ops"

lemma dtmf_workers_effects:
  "g_call s = Some c \<Longrightarrow> c \<in> set (calls s) \<Longrightarrow>
   effects (fold (dtmf_worker e) ds s) = effects s @ map (Call_send_digit c) ds"
proof (induction ds arbitrary: s)
  case (Cons d ds)
  have "dtmf_worker e d s = emit (Call_send_digit c d) s" using Cons.prems by (simp add: dtmf_worker_def with_call_def)
  then show ?case using Cons.IH [of "emit (Call_send_digit c d) s"] Cons.prems by simp
qed simp

lemma digits_sent_map: "digits_sent (map (Call_send_digit c) ds) = map of_char ds"
  by (induction ds) simp_all

lemma keys_pressed: "KEYCODE_REL \<notin> set (keys ops) \<Longrightarrow> pressed ops = keys ops"
  by (induction ops rule: keys.induct) auto

lemma in_keys: "Key k \<in> set ops \<longleftrightarrow> k \<in> set (keys ops)"
  by (induction ops rule: keys.induct) auto

text \<open>C17: The bridge hands a digit to the call when a key is pressed and nothing when it is released.  However the
  packet times fall between the digits, and however many follow, the last digit is never ended: every packet time
  sends one more packet of it, the sender is never empty, and the packets that end a digit are at most those of the
  other digits.\<close>
theorem dtmf_tone_never_ends:
  assumes "g_call s = Some c" "c \<in> set (calls s)" "ds \<noteq> []" "CHR 0x04 \<notin> set ds"
    "keys ops = digits_sent (drop (length (effects s)) (effects (fold (dtmf_worker e) ds s)))"
    "telev_alloc mm zok mok True ptime = (OK, Some t)" "mm 80 = Some f"
    "dtmf_run mm pt ops (dtmf_start t) = Some (ps, a)"
  shows "\<exists>qs a'. dtmf_run mm pt (map Tick xs) a = Some (qs, a') \<and> length qs = length xs \<and>
     \<not> audio_txtelev_empty (Some a') \<and> length (filter tel_ends (ps @ qs)) \<le> 3 * (length ds - 1)"
proof -
  have k: "keys ops = map of_char ds"
    using assms(5) unfolding dtmf_workers_effects [OF assms(1,2)] by (simp add: digits_sent_map)
  have r: "of_char d \<noteq> KEYCODE_REL" if "d \<in> set ds" for d
  proof
    assume "of_char d = KEYCODE_REL"
    then have "of_char d = (of_char (CHR 0x04) :: int)" by (simp add: KEYCODE_REL_def)
    then show False using that assms(4) by (simp only: of_char_eq_iff)
  qed
  then have "KEYCODE_REL \<notin> set (keys ops)" unfolding k set_map by (metis imageE)
  then have p: "pressed ops = map of_char ds" using k keys_pressed by simp
  have "key_down a"
    using run_key_down [OF dtmf_start_inv [OF assms(6)] assms(7,8)] in_keys \<open>KEYCODE_REL \<notin> set (keys ops)\<close> p assms(3) by auto
  from unreleased_never_ends [OF assms(6-8) this, of xs] show ?thesis unfolding p by simp
qed

lemma dtmf_tone_never_ends_witness:
  "\<exists>ps a. dtmf_run (\<lambda>n. Some (\<lambda>_. 0)) 101 [Key 53, Tick 0] (dtmf_start ex_telev) = Some (ps, a) \<and>
     (\<exists>qs a'. dtmf_run (\<lambda>n. Some (\<lambda>_. 0)) 101 (map Tick (replicate 1000 0)) a = Some (qs, a') \<and> length qs = 1000 \<and>
        \<not> audio_txtelev_empty (Some a') \<and> filter tel_ends (ps @ qs) = [])"
proof -
  let ?s = "init_app\<lparr>g_call := Some 1, calls := [1]\<rparr>"
  let ?ops = "[Key 53, Tick 0]"
  have "case dtmf_run (\<lambda>n. Some (\<lambda>_. 0)) 101 ?ops (dtmf_start ex_telev) of None \<Rightarrow> False | Some r \<Rightarrow> True" by code_simp
  then obtain ps a where r: "dtmf_run (\<lambda>n. Some (\<lambda>_. 0)) 101 ?ops (dtmf_start ex_telev) = Some (ps, a)"
    by (auto split: option.splits)
  have "keys ?ops = digits_sent (drop (length (effects ?s)) (effects (fold (dtmf_worker env0) ''5'' ?s)))"
    by (subst dtmf_workers_effects [where c = 1]) (simp_all add: digits_sent_map)
  from dtmf_tone_never_ends [OF _ _ _ _ this ex_telev_alloc refl r, of 1 "replicate 1000 0"] r show ?thesis by auto
qed

section \<open>From the user interface to the event loop\<close>

text \<open>\<open>remain_q\<close> of the bridge stands for the jobs that wait in the queue of libre: \<open>w_of\<close> gives the worker of a job.\<close>

definition queue_of :: "(job \<Rightarrow> worker) \<Rightarrow> async \<Rightarrow> worker list" where
  "queue_of w_of s = map w_of (waiting_jobs s)"

lemma waiting_by_log:
  assumes "as_reach wres 1 s" "clean (as_log s)" "as_step wres s s'" "clean (as_log s')"
  shows "called (as_log s) @ waiting_jobs s = posted (as_log s) \<and> called (as_log s') @ waiting_jobs s' = posted (as_log s')"
  using as_reach_fifo [OF assms(1)] as_reach_fifo [OF as_reach.reach_step [OF assms(1,3)]] assms(2,4) by (simp add: fifo_inv_def)

text \<open>C18: The queue that the bridge works with is implemented by the threads of libre: posting a worker appends it, the
  event loop takes the oldest one out and runs it, and what the worker thread does in between does not show.\<close>
theorem bridge_queue_refines:
  assumes "as_reach wres 1 s" "clean (as_log s)" "as_step wres s s'" "clean (as_log s')" "remain_q app = queue_of w_of s"
  shows "(as_log s' = as_log s @ [Posted (Some cb) arg] \<longrightarrow>
            remain_run (e\<lparr>zalloc_ok := True, async_main_err := OK\<rparr>) (w_of (cb, arg)) app = (OK, app\<lparr>remain_q := queue_of w_of s'\<rparr>)) \<and>
         (as_log s' = as_log s @ [Called cb err arg] \<longrightarrow>
            remain_cb e app = run_worker e (w_of (cb, arg)) (app\<lparr>remain_q := queue_of w_of s'\<rparr>)) \<and>
         (as_log s' = as_log s \<or> as_log s' = as_log s @ [Ran h arg] \<longrightarrow> queue_of w_of s' = queue_of w_of s)"
proof -
  have w: "called (as_log s) @ waiting_jobs s = posted (as_log s)" "called (as_log s') @ waiting_jobs s' = posted (as_log s')"
    using waiting_by_log [OF assms(1-4)] by simp_all
  have "waiting_jobs s' = waiting_jobs s @ [(cb, arg)]" if "as_log s' = as_log s @ [Posted (Some cb) arg]"
    using w that by (metis (no_types, lifting) append.assoc append.right_neutral called1.simps(2) log_append(1,2) posted1.simps(1) same_append_eq)
  moreover have "waiting_jobs s = (cb, arg) # waiting_jobs s'" if "as_log s' = as_log s @ [Called cb err arg]"
  proof -
    have "called (as_log s) @ waiting_jobs s = called (as_log s) @ (cb, arg) # waiting_jobs s'" using w that by simp
    then show ?thesis by simp
  qed
  moreover have "waiting_jobs s' = waiting_jobs s" if "as_log s' = as_log s \<or> as_log s' = as_log s @ [Ran h arg]"
  proof -
    have "called (as_log s) @ waiting_jobs s' = called (as_log s) @ waiting_jobs s" using w that by auto
    then show ?thesis by simp
  qed
  ultimately show ?thesis using assms(5) by (simp add: remain_run_def remain_cb_def queue_of_def)
qed

definition as_ex2 :: async where
  "as_ex2 = the (as_exec (\<lambda>_ _. 0) [Thread 0, Thread 0] as_ex)"

lemma bridge_queue_refines_witness:
  "\<exists>s'. as_step (\<lambda>_ _. 0) as_ex2 s' \<and>
     remain_cb env0 (init_app\<lparr>remain_q := [Answer_worker, Endcall_worker]\<rparr>) =
       run_worker env0 Answer_worker (init_app\<lparr>remain_q := [Endcall_worker]\<rparr>)"
proof -
  let ?w = "\<lambda>j :: job. if fst j = 11 then Answer_worker else Endcall_worker"
  let ?app = "init_app\<lparr>remain_q := [Answer_worker, Endcall_worker]\<rparr>"
  have x: "as_exec (\<lambda>_ _. 0) [Thread 0, Thread 0] as_ex \<noteq> None" by code_simp
  then have r: "as_reach (\<lambda>_ _. 0) 1 as_ex2" unfolding as_ex2_def using as_exec_reach [OF _ as_ex(1)] by (metis option.collapse)
  have l: "as_log as_ex2 = [Posted (Some 11) None, Posted (Some 12) None]" by code_simp
  then have c: "clean (as_log as_ex2)" by (simp add: clean_def)
  have "map_option as_log (queueh_call as_ex2) = Some [Posted (Some 11) None, Posted (Some 12) None, Called 11 0 None]" by code_simp
  then obtain s' where s': "queueh_call as_ex2 = Some s'" "as_log s' = as_log as_ex2 @ [Called 11 0 None]"
    unfolding l by (cases "queueh_call as_ex2") auto
  have st: "as_step (\<lambda>_ _. 0) as_ex2 s'" using s'(1) by (rule step_call)
  have c': "clean (as_log s')" using s'(2) c by simp
  have "waiting_jobs as_ex2 = [(11, None), (12, None)]" "waiting_jobs s' = [(12, None)]"
    using waiting_by_log [OF r c st c'] l s'(2) by (simp_all add: posted_def called_def)
  then have q: "remain_q ?app = queue_of ?w as_ex2" "queue_of ?w s' = [Endcall_worker]" by (simp_all add: queue_of_def)
  have "remain_cb env0 ?app = run_worker env0 (?w (11, None)) (?app\<lparr>remain_q := queue_of ?w s'\<rparr>)"
    using bridge_queue_refines [OF r c st c' q(1)] s'(2) by blast
  then show ?thesis using st q(2) by (intro exI [of _ s']) simp
qed

end
